(* ===== verification/Peker_Prelude.thy ===== *)
theory Peker_Prelude
  imports Main "HOL-Library.Word" "HOL-Library.Monad_Syntax"
begin

text \<open>
  Shared vocabulary of the PekerOS development: the machine integers of
  \<open>include/common.h\<close>, the two loop shapes the kernel uses everywhere (a counted
  \<open>for\<close> loop and a linear search that stops at the first hit), C strings as byte
  sequences with the string routines of \<open>kernel/core/kernel.c\<close>, and the
  little-endian byte encodings of integers. The facts collected here are the ones the
  component theories share.
\<close>

unbundle bit_operations_syntax

named_theorems peker_defs \<open>definitions of thin wrappers that are unfolded together\<close>

section \<open>Machine integers\<close>

type_synonym u8 = "8 word"
type_synonym u16 = "16 word"
type_synonym u32 = "32 word"

lemma unat_lt_u32 [simp]: "unat (x :: u32) < 4294967296"
  using unsigned_less [of x] by simp

lemma unat_lt_u16 [simp]: "unat (x :: u16) < 65536"
  using unsigned_less [of x] by simp

lemma unat_lt_u8 [simp]: "unat (x :: u8) < 256"
  using unsigned_less [of x] by simp

lemma unat_of_nat_u32: "n < 4294967296 \<Longrightarrow> unat (of_nat n :: u32) = n"
  by (simp add: unat_of_nat take_bit_nat_eq_self)

lemma unat_of_nat_u16: "n < 65536 \<Longrightarrow> unat (of_nat n :: u16) = n"
  by (simp add: unat_of_nat take_bit_nat_eq_self)

lemma unat_of_nat_u8: "n < 256 \<Longrightarrow> unat (of_nat n :: u8) = n"
  by (simp add: unat_of_nat take_bit_nat_eq_self)

lemma unat_plus_u32:
  "unat x + unat y < 4294967296 \<Longrightarrow> unat (x + y :: u32) = unat x + unat y"
  by (simp add: unat_word_ariths)

lemma unat_minus_u32: "y \<le> x \<Longrightarrow> unat (x - y :: u32) = unat x - unat y"
  by (simp add: unat_sub word_le_nat_alt)

section \<open>Counted loops\<close>

text \<open>
  \<open>for (i = lo; i < hi; i++) body\<close>, where the body does not change the bounds.
\<close>

definition for_range :: "nat \<Rightarrow> nat \<Rightarrow> (nat \<Rightarrow> 's \<Rightarrow> 's) \<Rightarrow> 's \<Rightarrow> 's" where
  "for_range lo hi body s = fold body [lo..<hi] s"

lemma for_range_empty [simp]: "hi \<le> lo \<Longrightarrow> for_range lo hi body s = s"
  by (simp add: for_range_def)

lemma for_range_Suc:
  "lo \<le> hi \<Longrightarrow> for_range lo (Suc hi) body s = body hi (for_range lo hi body s)"
  by (simp add: for_range_def)

text \<open>The invariant rule: what holds before the loop and is kept by the body holds after.\<close>

lemma for_range_inv:
  assumes "P lo s"
    and "\<And>i t. lo \<le> i \<Longrightarrow> i < hi \<Longrightarrow> P i t \<Longrightarrow> P (Suc i) (body i t)"
    and "lo \<le> hi"
  shows "P hi (for_range lo hi body s)"
proof -
  have "lo + k \<le> hi \<Longrightarrow> P (lo + k) (for_range lo (lo + k) body s)" for k
  proof (induction k)
    case 0
    then show ?case using assms(1) by simp
  next
    case (Suc k)
    then have "P (Suc (lo + k)) (body (lo + k) (for_range lo (lo + k) body s))"
      using assms(2) [of "lo + k"] by simp
    then show ?case by (simp add: for_range_Suc)
  qed
  from this [of "hi - lo"] assms(3) show ?thesis by simp
qed

section \<open>Linear searches\<close>

text \<open>
  \<open>for (i = lo; i < hi; i++) if (p(i)) return i; return -1;\<close>: the shape of every
  table search of the kernel (free frame, free inode, free block, free socket slot, free
  file descriptor). The result is \<^term>\<open>None\<close> where the source falls out of the loop.
\<close>

function find_index :: "(nat \<Rightarrow> bool) \<Rightarrow> nat \<Rightarrow> nat \<Rightarrow> nat option" where
  "find_index p lo hi =
     (if lo < hi then (if p lo then Some lo else find_index p (Suc lo) hi) else None)"
  by pat_completeness auto
termination
  by (relation "measure (\<lambda>(p, lo, hi). hi - lo)") auto

declare find_index.simps [simp del]

lemma find_index_Some:
  "find_index p lo hi = Some i \<longleftrightarrow> lo \<le> i \<and> i < hi \<and> p i \<and> (\<forall>j. lo \<le> j \<and> j < i \<longrightarrow> \<not> p j)"
proof (induction p lo hi rule: find_index.induct)
  case (1 p lo hi)
  consider (skip) "lo < hi" "\<not> p lo" | (hit) "lo < hi" "p lo" | (out) "\<not> lo < hi" by blast
  then show ?case
  proof cases
    case skip
    with "1.IH" have "find_index p lo hi = Some i \<longleftrightarrow>
        Suc lo \<le> i \<and> i < hi \<and> p i \<and> (\<forall>j. Suc lo \<le> j \<and> j < i \<longrightarrow> \<not> p j)"
      by (simp add: find_index.simps [of p lo hi])
    with skip show ?thesis
      by (metis Suc_leI Suc_le_lessD le_neq_implies_less less_imp_le)
  next
    case hit
    then show ?thesis
      using le_neq_implies_less by (auto simp: find_index.simps [of p lo hi])
  qed (auto simp: find_index.simps [of p lo hi])
qed

lemma find_index_None: "find_index p lo hi = None \<longleftrightarrow> (\<forall>j. lo \<le> j \<and> j < hi \<longrightarrow> \<not> p j)"
proof (cases "find_index p lo hi")
  case None
  have "\<not> p j" if "lo \<le> j" "j < hi" for j
    using None that
  proof (induction p lo hi rule: find_index.induct)
    case (1 p lo hi)
    then have "\<not> p lo" "find_index p (Suc lo) hi = None"
      by (auto simp: find_index.simps [of p lo hi] split: if_splits)
    with 1 show ?case by (cases "j = lo") auto
  qed
  with None show ?thesis by simp
next
  case (Some i)
  then have "lo \<le> i \<and> i < hi \<and> p i" by (simp add: find_index_Some)
  with Some show ?thesis by auto
qed

lemmas find_index_SomeD = find_index_Some [THEN iffD1]

section \<open>C strings\<close>

text \<open>
  A \<open>const char *\<close> is the list of bytes from the pointer on. The string it denotes
  ends before the first zero byte; past the end of the list a zero byte is read, so a
  plain HOL byte list without a zero is a terminated string too.
\<close>

type_synonym cstring = "u8 list"

text \<open>A string literal.\<close>

definition lit :: "string \<Rightarrow> cstring" where
  "lit str = map of_char str"

definition cstr :: "u8 list \<Rightarrow> u8 list" where
  "cstr s = takeWhile (\<lambda>b. b \<noteq> 0) s"

definition rd8 :: "u8 list \<Rightarrow> u8" where
  "rd8 s = (case s of [] \<Rightarrow> 0 | b # _ \<Rightarrow> b)"

lemma rd8_simps [simp]: "rd8 [] = 0" "rd8 (b # s) = b"
  by (simp_all add: rd8_def)

fun strlen :: "cstring \<Rightarrow> nat" where
  "strlen [] = 0"
| "strlen (b # s) = (if b \<noteq> 0 then Suc (strlen s) else 0)"

fun strcmp :: "cstring \<Rightarrow> cstring \<Rightarrow> int" where
  "strcmp [] s2 = 0 - uint (rd8 s2)"
| "strcmp (b # s1) s2 =
     (if b \<noteq> 0 \<and> b = rd8 s2 then strcmp s1 (tl s2) else uint b - uint (rd8 s2))"

lemma strlen_cstr: "strlen s = length (cstr s)"
  by (induction s) (auto simp: cstr_def)

lemma cstr_Nil [simp]: "cstr [] = []"
  by (simp add: cstr_def)

lemma cstr_Cons: "cstr (b # s) = (if b = 0 then [] else b # cstr s)"
  by (simp add: cstr_def)

lemma cstr_nz: "0 \<notin> set (cstr s)"
  by (auto simp: cstr_def dest: set_takeWhileD)

lemma cstr_id: "0 \<notin> set s \<Longrightarrow> cstr s = s"
  by (auto simp: cstr_def takeWhile_eq_all_conv)

lemma cstr_append_zero: "0 \<notin> set s \<Longrightarrow> cstr (s @ 0 # t) = s"
  by (auto simp: cstr_def takeWhile_append takeWhile_eq_all_conv)

lemma rd8_zero_iff: "rd8 s = 0 \<longleftrightarrow> cstr s = []"
  by (cases s) (auto simp: cstr_Cons)

text \<open>\<open>strcmp\<close> answers 0 exactly on equal strings, whatever follows their terminators.\<close>

lemma strcmp_eq_0: "strcmp s1 s2 = 0 \<longleftrightarrow> cstr s1 = cstr s2"
proof (induction s1 s2 rule: strcmp.induct)
  case (1 s2)
  show ?case using rd8_zero_iff [of s2] by (auto simp: uint_0_iff)
next
  case (2 b s1 s2)
  show ?case
  proof (cases "b \<noteq> 0 \<and> b = rd8 s2")
    case True
    then obtain s2' where "s2 = b # s2'" by (cases s2) auto
    with True "2.IH" show ?thesis by (simp add: cstr_Cons)
  next
    case False
    then have "strcmp (b # s1) s2 = 0 \<longleftrightarrow> b = rd8 s2"
      by (auto simp: word_uint_eq_iff)
    with False show ?thesis
      using rd8_zero_iff [of s2] by (cases s2) (auto simp: cstr_Cons)
  qed
qed

section \<open>Byte encodings\<close>

text \<open>
  The processor is little endian: a \<open>u32\<close> field read through a byte buffer has its
  least significant byte first.
\<close>

definition le16 :: "u8 \<Rightarrow> u8 \<Rightarrow> u16" where
  "le16 b0 b1 = ucast b0 OR push_bit 8 (ucast b1)"

definition bytes16 :: "u16 \<Rightarrow> u8 list" where
  "bytes16 v = [ucast v, ucast (drop_bit 8 v)]"

definition le32 :: "u8 \<Rightarrow> u8 \<Rightarrow> u8 \<Rightarrow> u8 \<Rightarrow> u32" where
  "le32 b0 b1 b2 b3 =
     ucast b0 OR push_bit 8 (ucast b1) OR push_bit 16 (ucast b2) OR push_bit 24 (ucast b3)"

definition bytes32 :: "u32 \<Rightarrow> u8 list" where
  "bytes32 v = [ucast v, ucast (drop_bit 8 v), ucast (drop_bit 16 v), ucast (drop_bit 24 v)]"

lemma length_bytes [simp]: "length (bytes16 v) = 2" "length (bytes32 w) = 4"
  by (simp_all add: bytes16_def bytes32_def)

lemma bytes16_roundtrip: "le16 (ucast v) (ucast (drop_bit 8 v)) = v"
  by (rule bit_word_eqI)
    (auto simp: le16_def bit_or_iff bit_push_bit_iff bit_ucast_iff bit_drop_bit_eq)

lemma bytes32_roundtrip:
  "le32 (ucast v) (ucast (drop_bit 8 v)) (ucast (drop_bit 16 v)) (ucast (drop_bit 24 v)) = v"
proof (rule bit_word_eqI)
  fix n
  assume "n < LENGTH(32)"
  then have "n < 8 \<or> 8 \<le> n \<and> n < 16 \<or> 16 \<le> n \<and> n < 24 \<or> 24 \<le> n \<and> n < 32" by auto
  then show "bit (le32 (ucast v) (ucast (drop_bit 8 v)) (ucast (drop_bit 16 v)) (ucast (drop_bit 24 v))) n
      = bit v n"
    by (elim disjE)
      (auto simp: le32_def bit_or_iff bit_push_bit_iff bit_ucast_iff bit_drop_bit_eq)
qed

end
