(* ===== verification/Descriptors.thy ===== *)
theory Descriptors
  imports Peker_Prelude
begin

text \<open>
  Segment and interrupt descriptors, \<open>kernel/core/gdt.c\<close>, \<open>kernel/core/idt.c\<close> and the
  part of \<open>kernel/proc/tss.c\<close> that sets up the task state segment. The addresses of the
  tables and of the assembly entry points are arguments.
\<close>

section \<open>The segment table\<close>

record gdt_entry =
  limit_low :: u16
  base_low :: u16
  base_middle :: u8
  access :: u8
  granularity :: u8
  base_high :: u8

record gdt =
  gdt_entries :: "gdt_entry list"
  gdt_limit :: u16
  gdt_base :: u32

definition gdt_gate :: "u32 \<Rightarrow> u32 \<Rightarrow> u8 \<Rightarrow> u8 \<Rightarrow> gdt_entry" where
  "gdt_gate base limit acc gran =
     \<lparr>limit_low = ucast (limit AND 0xFFFF),
      base_low = ucast (base AND 0xFFFF),
      base_middle = ucast (drop_bit 16 base AND 0xFF),
      access = acc,
      granularity = ucast (drop_bit 16 limit AND 0x0F) OR (gran AND 0xF0),
      base_high = ucast (drop_bit 24 base AND 0xFF)\<rparr>"

definition gdt_set_gate :: "nat \<Rightarrow> u32 \<Rightarrow> u32 \<Rightarrow> u8 \<Rightarrow> u8 \<Rightarrow> gdt \<Rightarrow> gdt" where
  "gdt_set_gate num base limit acc gran s = s\<lparr>gdt_entries := (gdt_entries s)[num := gdt_gate base limit acc gran]\<rparr>"

definition init_gdt :: "u32 \<Rightarrow> gdt \<Rightarrow> gdt" where
  "init_gdt addr s =
     gdt_set_gate 4 0 0xFFFFFFFF 0xF2 0xCF
      (gdt_set_gate 3 0 0xFFFFFFFF 0xFA 0xCF
       (gdt_set_gate 2 0 0xFFFFFFFF 0x92 0xCF
        (gdt_set_gate 1 0 0xFFFFFFFF 0x9A 0xCF
         (gdt_set_gate 0 0 0 0 0 (s\<lparr>gdt_limit := 8 * 6 - 1, gdt_base := addr\<rparr>)))))"

section \<open>The task state segment\<close>

text \<open>The fields the kernel uses; the others stay zero.\<close>

record tss_entry =
  t_ss0 :: u32
  t_esp0 :: u32
  t_iomap_base :: u16
  t_other :: "u32 list"

definition sizeof_tss :: nat where "sizeof_tss = 104"

definition write_tss :: "u32 \<Rightarrow> nat \<Rightarrow> u16 \<Rightarrow> u32 \<Rightarrow> gdt \<Rightarrow> gdt \<times> tss_entry" where
  "write_tss addr num ss0 esp0 s =
     (gdt_set_gate num addr (of_nat sizeof_tss) 0x89 0x40 s,
      \<lparr>t_ss0 = ucast ss0, t_esp0 = esp0, t_iomap_base = of_nat sizeof_tss, t_other = replicate 23 0\<rparr>)"

section \<open>The interrupt table\<close>

record idt_entry =
  ibase_low :: u16
  isel :: u16
  always0 :: u8
  iflags :: u8
  ibase_high :: u16

record idt =
  idt_entries :: "idt_entry list"
  idt_limit :: u16
  idt_base :: u32

definition idt_set_gate :: "u8 \<Rightarrow> u32 \<Rightarrow> u16 \<Rightarrow> u8 \<Rightarrow> idt \<Rightarrow> idt" where
  "idt_set_gate num base sel flags s = s\<lparr>idt_entries := (idt_entries s)[unat num :=
     \<lparr>ibase_low = ucast (base AND 0xFFFF), isel = sel, always0 = 0, iflags = flags,
      ibase_high = ucast (drop_bit 16 base AND 0xFFFF)\<rparr>]\<rparr>"

text \<open>The entry points in \<open>boot/boot.s\<close>.\<close>

record entry_points =
  isr0 :: u32
  isr14 :: u32
  irq :: "nat \<Rightarrow> u32"
  int80_handler :: u32

definition init_idt :: "entry_points \<Rightarrow> u32 \<Rightarrow> idt \<Rightarrow> idt" where
  "init_idt e addr s =
     (let s1 = s\<lparr>idt_limit := 8 * 256 - 1, idt_base := addr\<rparr>;
          s2 = for_range 0 256 (\<lambda>i. idt_set_gate (of_nat i) (isr0 e) 0x08 0x8E) s1;
          s3 = idt_set_gate 14 (isr14 e) 0x08 0x8E s2;
          s4 = for_range 0 16 (\<lambda>k. idt_set_gate (of_nat (32 + k)) (irq e k) 0x08 0x8E) s3
      in idt_set_gate 128 (int80_handler e) 0x08 0xEE s4)"

datatype panic_message = PAGE_FAULT | DIVISION_BY_ZERO | GENERAL_PROTECTION_FAULT | DOUBLE_FAULT | BILINMEYEN_CPU_ISTISNASI

definition isr_handler :: "u32 \<Rightarrow> panic_message" where
  "isr_handler int_no =
     (if int_no = 14 then PAGE_FAULT
      else if int_no = 0 then DIVISION_BY_ZERO
      else if int_no = 13 then GENERAL_PROTECTION_FAULT
      else if int_no = 8 then DOUBLE_FAULT
      else BILINMEYEN_CPU_ISTISNASI)"

section \<open>What the processor reads\<close>

definition seg_base :: "gdt_entry \<Rightarrow> u32" where
  "seg_base e = ucast (base_low e) OR push_bit 16 (ucast (base_middle e)) OR push_bit 24 (ucast (base_high e))"

definition seg_limit :: "gdt_entry \<Rightarrow> u32" where
  "seg_limit e = ucast (limit_low e) OR push_bit 16 (ucast (granularity e AND 0x0F))"

text \<open>The last offset inside a segment; with the granularity bit the limit counts pages.\<close>

definition seg_end :: "gdt_entry \<Rightarrow> u32" where
  "seg_end e = (if bit (granularity e) 7 then push_bit 12 (seg_limit e) OR 0xFFF else seg_limit e)"

definition seg_dpl :: "gdt_entry \<Rightarrow> u8" where
  "seg_dpl e = drop_bit 5 (access e) AND 3"

lemma masks8 [simp]: "(0xF0 :: u8) = push_bit 4 (mask 4)" "(0x0F :: u8) = mask 4"
  by (simp_all add: mask_eq_exp_minus_1)

lemma seg_base_gate: "seg_base (gdt_gate base limit acc gran) = base"
proof (rule bit_word_eqI)
  fix n
  assume "n < LENGTH(32)"
  then have "n < 16 \<or> 16 \<le> n \<and> n < 24 \<or> 24 \<le> n \<and> n < 32" by auto
  moreover have m: "(0xFFFF :: u32) = mask 16" "(0xFF :: u32) = mask 8" by (simp_all add: mask_eq_exp_minus_1)
  ultimately show "bit (seg_base (gdt_gate base limit acc gran)) n = bit base n"
    by (elim disjE) (auto simp: seg_base_def gdt_gate_def m bit_or_iff bit_and_iff bit_push_bit_iff bit_ucast_iff
      bit_drop_bit_eq bit_mask_iff)
qed

lemma seg_limit_gate: "seg_limit (gdt_gate base limit acc gran) = limit AND mask 20"
proof (rule bit_word_eqI)
  fix n
  assume "n < LENGTH(32)"
  then have "n < 16 \<or> 16 \<le> n \<and> n < 20 \<or> 20 \<le> n \<and> n < 32" by auto
  moreover have m: "(0xFFFF :: u32) = mask 16" "(0xF :: u32) = mask 4" by (simp_all add: mask_eq_exp_minus_1)
  ultimately show "bit (seg_limit (gdt_gate base limit acc gran)) n = bit (limit AND mask 20) n"
    by (elim disjE) (auto simp: seg_limit_def gdt_gate_def m bit_or_iff bit_and_iff bit_push_bit_iff bit_ucast_iff
      bit_drop_bit_eq bit_mask_iff)
qed

lemma gran_gate:
  "bit (granularity (gdt_gate base limit acc gran)) n = (if n < 4 then bit limit (n + 16) else n < 8 \<and> bit gran n)"
proof -
  have m: "(0xF :: u32) = mask 4" by (simp add: mask_eq_exp_minus_1)
  show ?thesis
    by (auto simp: gdt_gate_def m bit_or_iff bit_and_iff bit_push_bit_iff bit_ucast_iff bit_drop_bit_eq bit_mask_iff add.commute
        dest: bit_imp_le_length)
qed

text \<open>
  a segment descriptor carries what it was given: the processor reads back the base
  address, the low 20 bits of the limit, the access byte and the high nibble of the flags, and
  the other descriptors of the table stay the same.
\<close>

theorem gdt_set_gate_decodes:
  assumes "num < length (gdt_entries s)"
  shows "(let t = gdt_set_gate num base limit acc gran s; e = gdt_entries t ! num
     in seg_base e = base \<and> seg_limit e = limit AND mask 20 \<and> access e = acc \<and> granularity e AND 0xF0 = gran AND 0xF0 \<and>
        length (gdt_entries t) = length (gdt_entries s) \<and> (\<forall>i. i \<noteq> num \<longrightarrow> gdt_entries t ! i = gdt_entries s ! i))"
proof -
  have "granularity (gdt_gate base limit acc gran) AND 0xF0 = gran AND 0xF0"
    by (rule bit_word_eqI) (auto simp: bit_and_iff gran_gate bit_push_bit_iff)
  moreover have "access (gdt_gate base limit acc gran) = acc" by (simp add: gdt_gate_def)
  ultimately show ?thesis
    using assms by (simp add: gdt_set_gate_def Let_def seg_base_gate seg_limit_gate del: masks8)
qed

lemma flat_gate:
  "seg_base (gdt_gate 0 0xFFFFFFFF acc 0xCF) = 0" "seg_end (gdt_gate 0 0xFFFFFFFF acc 0xCF) = 0xFFFFFFFF"
  "access (gdt_gate 0 0xFFFFFFFF acc 0xCF) = acc"
proof -
  have "bit (0xCF :: u8) 7" by simp
  then have "bit (granularity (gdt_gate 0 0xFFFFFFFF acc 0xCF)) 7" by (simp only: gran_gate) simp
  then show "seg_end (gdt_gate 0 0xFFFFFFFF acc 0xCF) = 0xFFFFFFFF"
    by (simp add: seg_end_def seg_limit_gate mask_eq_exp_minus_1)
qed (simp_all only: seg_base_gate, simp add: gdt_gate_def)

section \<open>Gates of the interrupt table\<close>

definition gate_offset :: "idt_entry \<Rightarrow> u32" where
  "gate_offset e = ucast (ibase_low e) OR push_bit 16 (ucast (ibase_high e))"

definition gate_entry :: "u32 \<Rightarrow> u8 \<Rightarrow> idt_entry" where
  "gate_entry base flags = \<lparr>ibase_low = ucast (base AND 0xFFFF), isel = 0x08, always0 = 0, iflags = flags,
     ibase_high = ucast (drop_bit 16 base AND 0xFFFF)\<rparr>"

lemma gate_offset_entry: "gate_offset (gate_entry base flags) = base"
proof (rule bit_word_eqI)
  fix n
  assume "n < LENGTH(32)"
  then have "n < 16 \<or> 16 \<le> n \<and> n < 32" by auto
  moreover have m: "(0xFFFF :: u32) = mask 16" by (simp add: mask_eq_exp_minus_1)
  ultimately show "bit (gate_offset (gate_entry base flags)) n = bit base n"
    by (elim disjE) (auto simp: gate_offset_def gate_entry_def m bit_or_iff bit_and_iff bit_push_bit_iff bit_ucast_iff
      bit_drop_bit_eq bit_mask_iff)
qed

lemma set_gate_entries:
  "idt_entries (idt_set_gate num base 0x08 flags s) = (idt_entries s)[unat num := gate_entry base flags]"
  by (simp add: idt_set_gate_def gate_entry_def)

lemma gates_loop:
  assumes "lo + n \<le> 256" and "length (idt_entries s) = 256"
  shows "length (idt_entries (for_range 0 n (\<lambda>k. idt_set_gate (of_nat (lo + k)) (f k) 0x08 flags) s)) = 256 \<and>
    (\<forall>i < 256. idt_entries (for_range 0 n (\<lambda>k. idt_set_gate (of_nat (lo + k)) (f k) 0x08 flags) s) ! i =
       (if lo \<le> i \<and> i < lo + n then gate_entry (f (i - lo)) flags else idt_entries s ! i))"
  using assms
proof (induction n)
  case (Suc n)
  have u: "unat (of_nat (lo + n) :: u8) = lo + n" by (rule unat_of_nat_u8) (use Suc.prems in simp)
  show ?case using Suc u
    by (auto simp: for_range_Suc set_gate_entries nth_list_update less_Suc_eq simp del: of_nat_add)
qed auto

lemma idt_gate:
  assumes "length (idt_entries s) = 256" and "i < 256"
  shows "idt_entries (init_idt e addr s) ! i = (if i = 128 then gate_entry (int80_handler e) 0xEE
      else if 32 \<le> i \<and> i < 48 then gate_entry (irq e (i - 32)) 0x8E
      else if i = 14 then gate_entry (isr14 e) 0x8E else gate_entry (isr0 e) 0x8E)"
proof -
  let ?s1 = "s\<lparr>idt_limit := 8 * 256 - 1, idt_base := addr\<rparr>"
  have l1: "length (idt_entries ?s1) = 256" using assms by simp
  note a = gates_loop [of 0 256 ?s1 "\<lambda>_. isr0 e" "0x8E", OF _ l1]
  let ?s3 = "idt_set_gate 14 (isr14 e) 0x08 0x8E (for_range 0 256 (\<lambda>i. idt_set_gate (of_nat i) (isr0 e) 0x08 0x8E) ?s1)"
  have l3: "length (idt_entries ?s3) = 256" using a by (simp add: set_gate_entries)
  note b = gates_loop [of 32 16 ?s3 "irq e" "0x8E", OF _ l3]
  show ?thesis unfolding init_idt_def Let_def set_gate_entries
    using a b assms(2) by (simp add: nth_list_update set_gate_entries)
qed

text \<open>
  after \<open>init_idt\<close> the page fault vector 14 leads to \<open>isr14\<close>, the vectors 32 to 47 to the
  sixteen hardware interrupt entries in order, and vector 128 to the system call entry, the
  only gate that user code may call; every other vector leads to \<open>isr0\<close>, so that all other
  processor exceptions are reported as a division by zero.
\<close>

theorem init_idt_gates:
  assumes "length (idt_entries s) = 256" and "i < 256"
  shows "(let g = idt_entries (init_idt e addr s) ! i
     in gate_offset g = (if i = 14 then isr14 e else if 32 \<le> i \<and> i < 48 then irq e (i - 32)
          else if i = 128 then int80_handler e else isr0 e) \<and>
        isel g = 0x08 \<and> (drop_bit 5 (iflags g) AND 3 = 3 \<longleftrightarrow> i = 128)) \<and> isr_handler 0 = DIVISION_BY_ZERO"
proof -
  have f: "drop_bit 5 (0x8E :: u8) AND 3 = 0" "drop_bit 5 (0xEE :: u8) AND 3 = 3" by (simp_all add: drop_bit_eq_div)
  show ?thesis using f idt_gate [OF assms, of e addr] by (simp add: Let_def gate_offset_entry isr_handler_def) (simp add: gate_entry_def)
qed

section \<open>Selectors\<close>

text \<open>What a selector in a segment register means to the processor: its entry, its privilege, and the type of the segment.\<close>

definition flat_segment :: "gdt \<Rightarrow> u32 \<Rightarrow> gdt_entry option" where
  "flat_segment t sel =
     (let i = unat (drop_bit 3 sel); e = gdt_entries t ! i
      in if i \<noteq> 0 \<and> 8 * i + 7 \<le> unat (gdt_limit t) \<and> i < length (gdt_entries t) \<and> \<not> bit sel 2 \<and> bit (access e) 7 \<and> bit (access e) 4 \<and>
           seg_base e = 0 \<and> seg_end e = 0xFFFFFFFF \<and> bit (granularity e) 6
         then Some e else None)"

definition code_selector :: "gdt \<Rightarrow> u32 \<Rightarrow> u8 \<Rightarrow> bool" where
  "code_selector t sel ring \<longleftrightarrow> (\<exists>e. flat_segment t sel = Some e \<and> bit (access e) 3 \<and> seg_dpl e = ring \<and> sel AND 3 = ucast ring)"

definition data_selector :: "gdt \<Rightarrow> u32 \<Rightarrow> u8 \<Rightarrow> bool" where
  "data_selector t sel ring \<longleftrightarrow> (\<exists>e. flat_segment t sel = Some e \<and> \<not> bit (access e) 3 \<and> bit (access e) 1 \<and> seg_dpl e = ring \<and> sel AND 3 = ucast ring)"

lemma flat_gate_size: "bit (granularity (gdt_gate 0 0xFFFFFFFF acc 0xCF)) 6"
  by (simp add: gran_gate)

lemma boot_gdt:
  assumes "length (gdt_entries s) = 6"
  shows "gdt_entries (fst (write_tss tss 5 0x10 stack (init_gdt addr s))) =
    [gdt_gate 0 0 0 0, gdt_gate 0 0xFFFFFFFF 0x9A 0xCF, gdt_gate 0 0xFFFFFFFF 0x92 0xCF, gdt_gate 0 0xFFFFFFFF 0xFA 0xCF,
     gdt_gate 0 0xFFFFFFFF 0xF2 0xCF, gdt_gate tss 104 0x89 0x40]"
    "gdt_limit (fst (write_tss tss 5 0x10 stack (init_gdt addr s))) = 47"
proof -
  obtain a b c d e f where "gdt_entries s = [a, b, c, d, e, f]"
    using assms by (auto simp: length_Suc_conv numeral_eq_Suc)
  then show "gdt_entries (fst (write_tss tss 5 0x10 stack (init_gdt addr s))) =
    [gdt_gate 0 0 0 0, gdt_gate 0 0xFFFFFFFF 0x9A 0xCF, gdt_gate 0 0xFFFFFFFF 0x92 0xCF, gdt_gate 0 0xFFFFFFFF 0xFA 0xCF,
     gdt_gate 0 0xFFFFFFFF 0xF2 0xCF, gdt_gate tss 104 0x89 0x40]"
    by (simp add: write_tss_def init_gdt_def gdt_set_gate_def sizeof_tss_def)
  show "gdt_limit (fst (write_tss tss 5 0x10 stack (init_gdt addr s))) = 47"
    by (simp add: write_tss_def init_gdt_def gdt_set_gate_def)
qed

lemma boot_selectors:
  fixes tss addr stack s
  assumes "length (gdt_entries s) = 6"
  defines "t \<equiv> fst (write_tss tss 5 0x10 stack (init_gdt addr s))"
  shows "code_selector t 0x08 0" "data_selector t 0x10 0" "code_selector t 0x1B 3" "data_selector t 0x23 3"
proof -
  note g = boot_gdt [OF assms(1), of tss stack addr, folded t_def]
  have d: "seg_dpl (gdt_gate b l 0x9A f) = 0" "seg_dpl (gdt_gate b l 0x92 f) = 0" "seg_dpl (gdt_gate b l 0xFA f) = 3" "seg_dpl (gdt_gate b l 0xF2 f) = 3"
    for b l f by (simp_all add: seg_dpl_def gdt_gate_def drop_bit_eq_div)
  have i: "drop_bit 3 (0x08 :: u32) = 1" "drop_bit 3 (0x10 :: u32) = 2" "drop_bit 3 (0x1B :: u32) = 3" "drop_bit 3 (0x23 :: u32) = 4"
    by (simp_all add: drop_bit_eq_div)
  show "code_selector t 0x08 0" "data_selector t 0x10 0" "code_selector t 0x1B 3" "data_selector t 0x23 3"
    unfolding code_selector_def data_selector_def flat_segment_def Let_def i g
    by (simp_all add: flat_gate flat_gate_size d)
qed

section \<open>Instances\<close>

definition demo_gdt :: gdt where
  "demo_gdt = \<lparr>gdt_entries = replicate 6 (gdt_gate 0 0 0 0), gdt_limit = 0, gdt_base = 0\<rparr>"

theorem gdt_set_gate_decodes_witness:
  "seg_base (gdt_entries (gdt_set_gate 5 0xC0123456 103 0x89 0x40 demo_gdt) ! 5) = 0xC0123456"
proof -
  have "5 < length (gdt_entries demo_gdt)" by (simp add: demo_gdt_def)
  from gdt_set_gate_decodes [OF this, of "0xC0123456" 103 "0x89" "0x40"] show ?thesis by (simp add: Let_def)
qed

definition demo_idt :: idt where
  "demo_idt = \<lparr>idt_entries = replicate 256 (gate_entry 0 0), idt_limit = 0, idt_base = 0\<rparr>"

definition demo_entries :: entry_points where
  "demo_entries = \<lparr>isr0 = 0xC0100000, isr14 = 0xC0100010, irq = (\<lambda>k. 0xC0101000 + of_nat k), int80_handler = 0xC0102000\<rparr>"

theorem init_idt_gates_witness: "gate_offset (idt_entries (init_idt demo_entries 0 demo_idt) ! 13) = 0xC0100000"
proof -
  have "length (idt_entries demo_idt) = 256" by (simp add: demo_idt_def)
  from init_idt_gates [OF this, of 13 demo_entries 0] show ?thesis by (simp add: Let_def demo_entries_def)
qed

end
