(* ===== verification/Font.thy ===== *)
theory Font
  imports Peker_Prelude
begin

text \<open>
  The 8x16 font of \<open>kernel/drivers/font.c\<close>: for each character that the table initialises,
  sixteen rows of eight pixels, the leftmost in the highest bit. The other characters are
  blank.
\<close>

definition font_rows :: "(nat \<times> u8 list) list" where
  "font_rows = [
   (0x20, [0x00, 0x00, 0x00, 0x00, 0x00, 0x00, 0x00, 0x00, 0x00, 0x00, 0x00, 0x00, 0x00, 0x00, 0x00, 0x00]),
   (0x21, [0x00, 0x00, 0x18, 0x3C, 0x3C, 0x3C, 0x18, 0x18, 0x18, 0x00, 0x18, 0x18, 0x00, 0x00, 0x00, 0x00]),
   (0x22, [0x00, 0x00, 0x6C, 0x6C, 0x6C, 0x00, 0x00, 0x00, 0x00, 0x00, 0x00, 0x00, 0x00, 0x00, 0x00, 0x00]),
   (0x23, [0x00, 0x00, 0x6C, 0x6C, 0xFE, 0x6C, 0x6C, 0xFE, 0x6C, 0x6C, 0x00, 0x00, 0x00, 0x00, 0x00, 0x00]),
   (0x24, [0x18, 0x18, 0x7C, 0xC6, 0xC2, 0x7C, 0x06, 0x86, 0x7C, 0x18, 0x18, 0x00, 0x00, 0x00, 0x00, 0x00]),
   (0x25, [0x00, 0x00, 0x00, 0xC2, 0xC6, 0x0C, 0x18, 0x30, 0x62, 0x42, 0x00, 0x00, 0x00, 0x00, 0x00, 0x00]),
   (0x26, [0x00, 0x00, 0x38, 0x6C, 0x6C, 0x38, 0x76, 0xDC, 0xCC, 0xCC, 0x76, 0x00, 0x00, 0x00, 0x00, 0x00]),
   (0x27, [0x00, 0x00, 0x30, 0x30, 0x60, 0x00, 0x00, 0x00, 0x00, 0x00, 0x00, 0x00, 0x00, 0x00, 0x00, 0x00]),
   (0x28, [0x00, 0x00, 0x0C, 0x18, 0x30, 0x30, 0x30, 0x30, 0x30, 0x18, 0x0C, 0x00, 0x00, 0x00, 0x00, 0x00]),
   (0x29, [0x00, 0x00, 0x30, 0x18, 0x0C, 0x0C, 0x0C, 0x0C, 0x0C, 0x18, 0x30, 0x00, 0x00, 0x00, 0x00, 0x00]),
   (0x2A, [0x00, 0x00, 0x00, 0x66, 0x3C, 0xFF, 0x3C, 0x66, 0x00, 0x00, 0x00, 0x00, 0x00, 0x00, 0x00, 0x00]),
   (0x2B, [0x00, 0x00, 0x00, 0x18, 0x18, 0x7E, 0x18, 0x18, 0x00, 0x00, 0x00, 0x00, 0x00, 0x00, 0x00, 0x00]),
   (0x2C, [0x00, 0x00, 0x00, 0x00, 0x00, 0x00, 0x00, 0x00, 0x18, 0x18, 0x18, 0x30, 0x00, 0x00, 0x00, 0x00]),
   (0x2D, [0x00, 0x00, 0x00, 0x00, 0x00, 0x7E, 0x00, 0x00, 0x00, 0x00, 0x00, 0x00, 0x00, 0x00, 0x00, 0x00]),
   (0x2E, [0x00, 0x00, 0x00, 0x00, 0x00, 0x00, 0x00, 0x00, 0x18, 0x18, 0x00, 0x00, 0x00, 0x00, 0x00, 0x00]),
   (0x2F, [0x00, 0x00, 0x02, 0x06, 0x0C, 0x18, 0x30, 0x60, 0xC0, 0x80, 0x00, 0x00, 0x00, 0x00, 0x00, 0x00]),
   (0x30, [0x00, 0x00, 0x3C, 0x66, 0xC3, 0xC3, 0xC3, 0xC3, 0xC3, 0x66, 0x3C, 0x00, 0x00, 0x00, 0x00, 0x00]),
   (0x31, [0x00, 0x00, 0x18, 0x38, 0x18, 0x18, 0x18, 0x18, 0x18, 0x18, 0x3C, 0x00, 0x00, 0x00, 0x00, 0x00]),
   (0x32, [0x00, 0x00, 0x3C, 0x66, 0x03, 0x03, 0x3E, 0x60, 0xC0, 0xC6, 0xFE, 0x00, 0x00, 0x00, 0x00, 0x00]),
   (0x33, [0x00, 0x00, 0xFE, 0x06, 0x0C, 0x38, 0x0C, 0x06, 0x03, 0x66, 0x3C, 0x00, 0x00, 0x00, 0x00, 0x00]),
   (0x34, [0x00, 0x00, 0x06, 0x0E, 0x1E, 0x36, 0x66, 0xFE, 0x06, 0x06, 0x06, 0x00, 0x00, 0x00, 0x00, 0x00]),
   (0x35, [0x00, 0x00, 0xFE, 0xC0, 0xC0, 0xFC, 0x06, 0x06, 0x06, 0xC6, 0x7C, 0x00, 0x00, 0x00, 0x00, 0x00]),
   (0x36, [0x00, 0x00, 0x3C, 0x66, 0xC0, 0xC0, 0xFC, 0xC6, 0xC6, 0x66, 0x3C, 0x00, 0x00, 0x00, 0x00, 0x00]),
   (0x37, [0x00, 0x00, 0xFE, 0x06, 0x0C, 0x18, 0x30, 0x30, 0x30, 0x30, 0x30, 0x00, 0x00, 0x00, 0x00, 0x00]),
   (0x38, [0x00, 0x00, 0x3C, 0x66, 0xC6, 0xC6, 0x3C, 0xC6, 0xC6, 0x66, 0x3C, 0x00, 0x00, 0x00, 0x00, 0x00]),
   (0x39, [0x00, 0x00, 0x3C, 0x66, 0xC6, 0xC6, 0x7E, 0x06, 0x06, 0x66, 0x3C, 0x00, 0x00, 0x00, 0x00, 0x00]),
   (0x3A, [0x00, 0x00, 0x00, 0x00, 0x18, 0x18, 0x00, 0x00, 0x18, 0x18, 0x00, 0x00, 0x00, 0x00, 0x00, 0x00]),
   (0x3B, [0x00, 0x00, 0x00, 0x00, 0x18, 0x18, 0x00, 0x00, 0x18, 0x18, 0x18, 0x30, 0x00, 0x00, 0x00, 0x00]),
   (0x3C, [0x00, 0x00, 0x00, 0x06, 0x0C, 0x18, 0x30, 0x18, 0x0C, 0x06, 0x00, 0x00, 0x00, 0x00, 0x00, 0x00]),
   (0x3D, [0x00, 0x00, 0x00, 0x00, 0x7E, 0x00, 0x00, 0x7E, 0x00, 0x00, 0x00, 0x00, 0x00, 0x00, 0x00, 0x00]),
   (0x3E, [0x00, 0x00, 0x00, 0x60, 0x30, 0x18, 0x0C, 0x18, 0x30, 0x60, 0x00, 0x00, 0x00, 0x00, 0x00, 0x00]),
   (0x3F, [0x00, 0x00, 0x3C, 0x66, 0x06, 0x0C, 0x18, 0x18, 0x00, 0x18, 0x18, 0x00, 0x00, 0x00, 0x00, 0x00]),
   (0x40, [0x00, 0x00, 0x3C, 0x66, 0x06, 0x5E, 0x66, 0x66, 0x66, 0x5E, 0x00, 0x00, 0x00, 0x00, 0x00, 0x00]),
   (0x41, [0x00, 0x00, 0x18, 0x3C, 0x66, 0x66, 0x7E, 0x66, 0x66, 0x66, 0x66, 0x00, 0x00, 0x00, 0x00, 0x00]),
   (0x42, [0x00, 0x00, 0xFC, 0x66, 0x66, 0x7C, 0x66, 0x66, 0x66, 0x66, 0xFC, 0x00, 0x00, 0x00, 0x00, 0x00]),
   (0x43, [0x00, 0x00, 0x3C, 0x66, 0xC0, 0xC0, 0xC0, 0xC0, 0xC0, 0x66, 0x3C, 0x00, 0x00, 0x00, 0x00, 0x00]),
   (0x44, [0x00, 0x00, 0xF8, 0x6C, 0x66, 0x66, 0x66, 0x66, 0x66, 0x6C, 0xF8, 0x00, 0x00, 0x00, 0x00, 0x00]),
   (0x45, [0x00, 0x00, 0xFE, 0x62, 0x60, 0x7C, 0x60, 0x60, 0x62, 0x62, 0xFE, 0x00, 0x00, 0x00, 0x00, 0x00]),
   (0x46, [0x00, 0x00, 0xFE, 0x62, 0x60, 0x7C, 0x60, 0x60, 0x60, 0x60, 0xF0, 0x00, 0x00, 0x00, 0x00, 0x00]),
   (0x47, [0x00, 0x00, 0x3C, 0x66, 0xC0, 0xC0, 0xCE, 0xC6, 0xC6, 0x66, 0x3C, 0x00, 0x00, 0x00, 0x00, 0x00]),
   (0x48, [0x00, 0x00, 0xC6, 0xC6, 0xC6, 0x7E, 0xC6, 0xC6, 0xC6, 0xC6, 0xC6, 0x00, 0x00, 0x00, 0x00, 0x00]),
   (0x49, [0x00, 0x00, 0x3C, 0x18, 0x18, 0x18, 0x18, 0x18, 0x18, 0x18, 0x3C, 0x00, 0x00, 0x00, 0x00, 0x00]),
   (0x4A, [0x00, 0x00, 0x1E, 0x06, 0x06, 0x06, 0x06, 0x06, 0x06, 0x66, 0x3C, 0x00, 0x00, 0x00, 0x00, 0x00]),
   (0x4B, [0x00, 0x00, 0xC6, 0xCC, 0xD8, 0xF0, 0xF8, 0xD8, 0xCC, 0xC6, 0xC6, 0x00, 0x00, 0x00, 0x00, 0x00]),
   (0x4C, [0x00, 0x00, 0xF0, 0x60, 0x60, 0x60, 0x60, 0x60, 0x62, 0x62, 0xFE, 0x00, 0x00, 0x00, 0x00, 0x00]),
   (0x4D, [0x00, 0x00, 0xC3, 0xE7, 0xFF, 0xFF, 0xDB, 0xC3, 0xC3, 0xC3, 0xC3, 0x00, 0x00, 0x00, 0x00, 0x00]),
   (0x4E, [0x00, 0x00, 0xC7, 0xE7, 0xF7, 0xDB, 0xDF, 0xCF, 0xC7, 0xC3, 0xC3, 0x00, 0x00, 0x00, 0x00, 0x00]),
   (0x4F, [0x00, 0x00, 0x3C, 0x66, 0xC3, 0xC3, 0xC3, 0xC3, 0xC3, 0x66, 0x3C, 0x00, 0x00, 0x00, 0x00, 0x00]),
   (0x50, [0x00, 0x00, 0xFC, 0x66, 0x66, 0x7C, 0x60, 0x60, 0x60, 0x60, 0xF0, 0x00, 0x00, 0x00, 0x00, 0x00]),
   (0x51, [0x00, 0x00, 0x3C, 0x66, 0xC3, 0xC3, 0xC3, 0xC3, 0xD3, 0x66, 0x3C, 0x0C, 0x0E, 0x00, 0x00, 0x00]),
   (0x52, [0x00, 0x00, 0xFC, 0x66, 0x66, 0x7C, 0x6C, 0x66, 0x66, 0x66, 0xE6, 0x00, 0x00, 0x00, 0x00, 0x00]),
   (0x53, [0x00, 0x00, 0x7C, 0xC6, 0xC0, 0x7C, 0x06, 0x06, 0xC6, 0xC6, 0x7C, 0x00, 0x00, 0x00, 0x00, 0x00]),
   (0x54, [0x00, 0x00, 0xFF, 0xDB, 0x18, 0x18, 0x18, 0x18, 0x18, 0x18, 0x3C, 0x00, 0x00, 0x00, 0x00, 0x00]),
   (0x55, [0x00, 0x00, 0xC3, 0xC3, 0xC3, 0xC3, 0xC3, 0xC3, 0xC3, 0x66, 0x3C, 0x00, 0x00, 0x00, 0x00, 0x00]),
   (0x56, [0x00, 0x00, 0xC3, 0xC3, 0xC3, 0xC3, 0xC3, 0x66, 0x66, 0x3C, 0x18, 0x00, 0x00, 0x00, 0x00, 0x00]),
   (0x57, [0x00, 0x00, 0xC3, 0xC3, 0xC3, 0xDB, 0xDB, 0xFF, 0xFF, 0xE7, 0xC3, 0x00, 0x00, 0x00, 0x00, 0x00]),
   (0x58, [0x00, 0x00, 0xC3, 0x66, 0x3C, 0x18, 0x18, 0x3C, 0x66, 0xC3, 0xC3, 0x00, 0x00, 0x00, 0x00, 0x00]),
   (0x59, [0x00, 0x00, 0xC3, 0x66, 0x66, 0x3C, 0x18, 0x18, 0x18, 0x18, 0x3C, 0x00, 0x00, 0x00, 0x00, 0x00]),
   (0x5A, [0x00, 0x00, 0xFF, 0xC7, 0x8F, 0x1E, 0x3C, 0x78, 0xF1, 0xE3, 0xFF, 0x00, 0x00, 0x00, 0x00, 0x00]),
   (0x61, [0x00, 0x00, 0x00, 0x00, 0x3C, 0x46, 0x06, 0x3E, 0x66, 0x66, 0x3E, 0x00, 0x00, 0x00, 0x00, 0x00]),
   (0x62, [0x00, 0x00, 0xC0, 0xC0, 0xFC, 0x66, 0x66, 0x66, 0x66, 0x66, 0xFC, 0x00, 0x00, 0x00, 0x00, 0x00]),
   (0x63, [0x00, 0x00, 0x00, 0x00, 0x3C, 0x66, 0x60, 0x60, 0x60, 0x66, 0x3C, 0x00, 0x00, 0x00, 0x00, 0x00]),
   (0x64, [0x00, 0x00, 0x06, 0x06, 0x3E, 0x66, 0x66, 0x66, 0x66, 0x66, 0x3E, 0x00, 0x00, 0x00, 0x00, 0x00]),
   (0x65, [0x00, 0x00, 0x00, 0x00, 0x3C, 0x66, 0x66, 0x7E, 0x60, 0x66, 0x3C, 0x00, 0x00, 0x00, 0x00, 0x00]),
   (0x66, [0x00, 0x00, 0x1C, 0x36, 0x30, 0x7C, 0x30, 0x30, 0x30, 0x30, 0x78, 0x00, 0x00, 0x00, 0x00, 0x00]),
   (0x67, [0x00, 0x00, 0x00, 0x00, 0x3E, 0x66, 0x66, 0x66, 0x66, 0x3E, 0x06, 0x06, 0x3C, 0x00, 0x00, 0x00]),
   (0x68, [0x00, 0x00, 0xC0, 0xC0, 0xDC, 0x66, 0x66, 0x66, 0x66, 0x66, 0x66, 0x00, 0x00, 0x00, 0x00, 0x00]),
   (0x69, [0x00, 0x00, 0x18, 0x18, 0x00, 0x18, 0x18, 0x18, 0x18, 0x18, 0x3C, 0x00, 0x00, 0x00, 0x00, 0x00]),
   (0x6A, [0x00, 0x00, 0x06, 0x06, 0x00, 0x06, 0x06, 0x06, 0x06, 0x06, 0x06, 0x66, 0x3C, 0x00, 0x00, 0x00]),
   (0x6B, [0x00, 0x00, 0xC0, 0xC0, 0xC6, 0xCC, 0xD8, 0xF0, 0xD8, 0xCC, 0xC6, 0x00, 0x00, 0x00, 0x00, 0x00]),
   (0x6C, [0x00, 0x00, 0x38, 0x18, 0x18, 0x18, 0x18, 0x18, 0x18, 0x18, 0x3C, 0x00, 0x00, 0x00, 0x00, 0x00]),
   (0x6D, [0x00, 0x00, 0x00, 0x00, 0xFE, 0xDB, 0xDB, 0xDB, 0xDB, 0xDB, 0xDB, 0x00, 0x00, 0x00, 0x00, 0x00]),
   (0x6E, [0x00, 0x00, 0x00, 0x00, 0xDC, 0x66, 0x66, 0x66, 0x66, 0x66, 0x66, 0x00, 0x00, 0x00, 0x00, 0x00]),
   (0x6F, [0x00, 0x00, 0x00, 0x00, 0x3C, 0x66, 0x66, 0x66, 0x66, 0x66, 0x3C, 0x00, 0x00, 0x00, 0x00, 0x00]),
   (0x70, [0x00, 0x00, 0x00, 0x00, 0xDC, 0x66, 0x66, 0x66, 0x66, 0x7C, 0x60, 0x60, 0xF0, 0x00, 0x00, 0x00]),
   (0x71, [0x00, 0x00, 0x00, 0x00, 0x3E, 0x66, 0x66, 0x66, 0x66, 0x3E, 0x06, 0x06, 0x0F, 0x00, 0x00, 0x00]),
   (0x72, [0x00, 0x00, 0x00, 0x00, 0xDC, 0x76, 0x60, 0x60, 0x60, 0x60, 0xF0, 0x00, 0x00, 0x00, 0x00, 0x00]),
   (0x73, [0x00, 0x00, 0x00, 0x00, 0x3C, 0x66, 0x30, 0x18, 0x0C, 0x46, 0x3C, 0x00, 0x00, 0x00, 0x00, 0x00]),
   (0x74, [0x00, 0x00, 0x10, 0x30, 0x7C, 0x30, 0x30, 0x30, 0x30, 0x36, 0x1C, 0x00, 0x00, 0x00, 0x00, 0x00]),
   (0x75, [0x00, 0x00, 0x00, 0x00, 0x66, 0x66, 0x66, 0x66, 0x66, 0x66, 0x3E, 0x00, 0x00, 0x00, 0x00, 0x00]),
   (0x76, [0x00, 0x00, 0x00, 0x00, 0x66, 0x66, 0x66, 0x66, 0x66, 0x3C, 0x18, 0x00, 0x00, 0x00, 0x00, 0x00]),
   (0x77, [0x00, 0x00, 0x00, 0x00, 0xC3, 0xC3, 0xDB, 0xDB, 0xDB, 0xFF, 0x66, 0x00, 0x00, 0x00, 0x00, 0x00]),
   (0x78, [0x00, 0x00, 0x00, 0x00, 0xC3, 0x66, 0x3C, 0x18, 0x3C, 0x66, 0xC3, 0x00, 0x00, 0x00, 0x00, 0x00]),
   (0x79, [0x00, 0x00, 0x00, 0x00, 0xC3, 0x66, 0x66, 0x66, 0x66, 0x3E, 0x06, 0x06, 0x3C, 0x00, 0x00, 0x00]),
   (0x7A, [0x00, 0x00, 0x00, 0x00, 0x7E, 0x4C, 0x18, 0x30, 0x62, 0xFE, 0x00, 0x00, 0x00, 0x00, 0x00, 0x00])]"

definition font8x16 :: "u8 \<Rightarrow> nat \<Rightarrow> u8" where
  "font8x16 c i = (case map_of font_rows (unat c) of Some rows \<Rightarrow> rows ! i | None \<Rightarrow> 0)"

end
