(* ===== verification/Ports.thy ===== *)
theory Ports
  imports Peker_Prelude
begin

text \<open>
  Port input and output, and the serial port (\<open>kernel/core/serial.c\<close>). A write is appended
  to a log. A read answers with what the device delivers, which is not the kernel's to decide:
  the field \<open>dev\<close> gives, for each port, the value of its first, second, ... read.
\<close>

datatype port_out = Out8 u16 u8 | Out16 u16 u16 | Out32 u16 u32

record ports =
  dev :: "u16 \<Rightarrow> nat \<Rightarrow> u32"
  reads :: "u16 \<Rightarrow> nat"
  outs :: "port_out list"

definition outb :: "u16 \<Rightarrow> u8 \<Rightarrow> 'a ports_scheme \<Rightarrow> 'a ports_scheme" where
  "outb port val s = s\<lparr>outs := outs s @ [Out8 port val]\<rparr>"

definition outw :: "u16 \<Rightarrow> u16 \<Rightarrow> 'a ports_scheme \<Rightarrow> 'a ports_scheme" where
  "outw port val s = s\<lparr>outs := outs s @ [Out16 port val]\<rparr>"

definition outl :: "u16 \<Rightarrow> u32 \<Rightarrow> 'a ports_scheme \<Rightarrow> 'a ports_scheme" where
  "outl port val s = s\<lparr>outs := outs s @ [Out32 port val]\<rparr>"

definition port_read :: "u16 \<Rightarrow> 'a ports_scheme \<Rightarrow> u32 \<times> 'a ports_scheme" where
  "port_read port s = (dev s port (reads s port), s\<lparr>reads := (reads s)(port := reads s port + 1)\<rparr>)"

definition inb :: "u16 \<Rightarrow> 'a ports_scheme \<Rightarrow> u8 \<times> 'a ports_scheme" where
  "inb port s = (let (v, s1) = port_read port s in (ucast v, s1))"

definition inw :: "u16 \<Rightarrow> 'a ports_scheme \<Rightarrow> u16 \<times> 'a ports_scheme" where
  "inw port s = (let (v, s1) = port_read port s in (ucast v, s1))"

definition inl :: "u16 \<Rightarrow> 'a ports_scheme \<Rightarrow> u32 \<times> 'a ports_scheme" where
  "inl port s = port_read port s"

lemmas port_defs = outb_def outw_def outl_def inb_def inw_def inl_def port_read_def

section \<open>The serial port\<close>

definition COM1 :: u16 where "COM1 = 0x3F8"

definition init_serial :: "'a ports_scheme \<Rightarrow> 'a ports_scheme" where
  "init_serial s =
     outb (COM1 + 4) 0x0B (outb (COM1 + 2) 0xC7 (outb (COM1 + 3) 0x03 (outb (COM1 + 1) 0x00
       (outb (COM1 + 0) 0x03 (outb (COM1 + 3) 0x80 (outb (COM1 + 1) 0x00 s))))))"

definition is_transmit_empty :: "'a ports_scheme \<Rightarrow> u8 \<times> 'a ports_scheme" where
  "is_transmit_empty s = (let (v, s1) = inb (COM1 + 5) s in (v AND 0x20, s1))"

text \<open>\<open>while (is_transmit_empty() == 0 && --timeout);\<close>, with the value of the counter at the end.\<close>

fun serial_wait :: "nat \<Rightarrow> 'a ports_scheme \<Rightarrow> nat \<times> 'a ports_scheme" where
  "serial_wait 0 s = (0, s)"
| "serial_wait (Suc t) s =
     (let (r, s1) = is_transmit_empty s
      in if r \<noteq> 0 then (Suc t, s1) else if t = 0 then (0, s1) else serial_wait t s1)"

definition serial_write :: "u8 \<Rightarrow> 'a ports_scheme \<Rightarrow> 'a ports_scheme" where
  "serial_write c s = (let (timeout, s1) = serial_wait 10000 s in if timeout > 0 then outb COM1 c s1 else s1)"

fun serial_print :: "cstring \<Rightarrow> 'a ports_scheme \<Rightarrow> 'a ports_scheme" where
  "serial_print [] s = s"
| "serial_print (c # str) s = (if c \<noteq> 0 then serial_print str (serial_write c s) else s)"

lemma is_transmit_empty_eq:
  "is_transmit_empty s = (ucast (dev s (COM1 + 5) (reads s (COM1 + 5))) AND 0x20,
     s\<lparr>reads := (reads s)(COM1 + 5 := reads s (COM1 + 5) + 1)\<rparr>)"
  by (simp add: is_transmit_empty_def port_defs)

lemma serial_wait_keeps: "\<exists>n. snd (serial_wait t s) = s\<lparr>reads := n\<rparr>"
proof (induction t arbitrary: s)
  case 0
  have "s = s\<lparr>reads := reads s\<rparr>" by simp
  then show ?case by (metis serial_wait.simps(1) snd_conv)
next
  case (Suc t)
  obtain n where "snd (serial_wait t (s\<lparr>reads := (reads s)(COM1 + 5 := reads s (COM1 + 5) + 1)\<rparr>)) = s\<lparr>reads := n\<rparr>"
    using Suc.IH [of "s\<lparr>reads := (reads s)(COM1 + 5 := reads s (COM1 + 5) + 1)\<rparr>"] by auto
  then show ?case by (auto simp: is_transmit_empty_eq)
qed

text \<open>A byte is polled for and then sent at most once; nothing else changes.\<close>

lemma serial_write_keeps:
  obtains n out where "serial_write c s = s\<lparr>reads := n, outs := outs s @ out\<rparr>" "out = [] \<or> out = [Out8 COM1 c]"
proof -
  obtain t s1 where w: "serial_wait 10000 s = (t, s1)" by (cases "serial_wait 10000 s")
  then obtain n where "s1 = s\<lparr>reads := n\<rparr>" using serial_wait_keeps [of 10000 s] by auto
  then have "serial_write c s = s\<lparr>reads := n, outs := outs s @ (if t > 0 then [Out8 COM1 c] else [])\<rparr>"
    using w by (simp add: serial_write_def outb_def)
  then show ?thesis using that by (metis (full_types))
qed

lemma serial_write_ready:
  assumes "bit (dev s (COM1 + 5) (reads s (COM1 + 5))) 5"
  shows "outs (serial_write c s) = outs s @ [Out8 COM1 c]"
proof -
  have "(ucast (dev s (COM1 + 5) (reads s (COM1 + 5))) :: u8) AND 0x20 \<noteq> 0"
    using assms and_exp_eq_0_iff_not_bit [of "ucast (dev s (COM1 + 5) (reads s (COM1 + 5))) :: u8" 5]
    by (simp add: bit_ucast_iff)
  moreover have "serial_wait 10000 s = serial_wait (Suc 9999) s" by simp
  ultimately show ?thesis
    unfolding serial_write_def by (simp only: serial_wait.simps) (simp add: is_transmit_empty_eq outb_def)
qed

end
