(* ===== verification/Vbe.thy ===== *)
theory Vbe
  imports Font Ports
begin

text \<open>
  The graphics primitives of \<open>kernel/drivers/vbe.c\<close>: a back buffer of pixels that is copied
  to the frame buffer, rectangles, characters, text and the mouse cursor. Coordinates are the
  C program's \<open>int\<close>s, taken as integers; the index into a buffer is computed in 32 bits as
  in the code.
\<close>

section \<open>State and operations\<close>

record vbe = ports +
  vbe_width :: u32
  vbe_height :: u32
  vbe_pitch :: u32
  vbe_bpp :: u8
  back_buffer :: u32
  bpix :: "nat \<Rightarrow> u32"
  lfb :: "nat \<Rightarrow> u32"
  mouse_bg_save :: "u32 list"
  cursor_x :: int
  cursor_y :: int
  last_cursor_x :: int
  last_cursor_y :: int
  vbe_active :: int

definition clipped :: "int \<Rightarrow> int \<Rightarrow> 'a vbe_scheme \<Rightarrow> bool" where
  "clipped x y s \<longleftrightarrow> x < 0 \<or> x \<ge> int (unat (vbe_width s)) \<or> y < 0 \<or> y \<ge> int (unat (vbe_height s))"

definition pix :: "int \<Rightarrow> int \<Rightarrow> 'a vbe_scheme \<Rightarrow> nat" where
  "pix x y s = unat (of_int y * vbe_width s + of_int x)"

definition vbe_put_pixel :: "int \<Rightarrow> int \<Rightarrow> u32 \<Rightarrow> 'a vbe_scheme \<Rightarrow> 'a vbe_scheme" where
  "vbe_put_pixel x y color s =
     (if clipped x y s \<or> back_buffer s = 0 then s else s\<lparr>bpix := (bpix s)(pix x y s := color)\<rparr>)"

definition vbe_get_pixel :: "int \<Rightarrow> int \<Rightarrow> 'a vbe_scheme \<Rightarrow> u32" where
  "vbe_get_pixel x y s = (if clipped x y s then 0 else bpix s (pix x y s))"

definition vbe_update :: "'a vbe_scheme \<Rightarrow> 'a vbe_scheme" where
  "vbe_update s = s\<lparr>lfb := (\<lambda>i. if i < unat (vbe_width s * vbe_height s) then bpix s i else lfb s i)\<rparr>"

definition copy_pixel :: "int \<Rightarrow> int \<Rightarrow> 'a vbe_scheme \<Rightarrow> 'a vbe_scheme" where
  "copy_pixel px py s =
     (if clipped px py s then s else s\<lparr>lfb := (lfb s)(pix px py s := bpix s (pix px py s))\<rparr>)"

definition vbe_update_rect :: "int \<Rightarrow> int \<Rightarrow> int \<Rightarrow> int \<Rightarrow> 'a vbe_scheme \<Rightarrow> 'a vbe_scheme" where
  "vbe_update_rect x y w h s =
     for_range 0 (nat h) (\<lambda>i. for_range 0 (nat w) (\<lambda>j. copy_pixel (x + int j) (y + int i))) s"

definition vbe_clear_screen :: "u32 \<Rightarrow> 'a vbe_scheme \<Rightarrow> 'a vbe_scheme" where
  "vbe_clear_screen color s =
     for_range 0 (nat (sint (vbe_width s * vbe_height s))) (\<lambda>i s. s\<lparr>bpix := (bpix s)(i := color)\<rparr>) s"

definition vbe_draw_gradient :: "'a vbe_scheme \<Rightarrow> 'a vbe_scheme" where
  "vbe_draw_gradient s =
     for_range 0 (unat (vbe_height s)) (\<lambda>y.
       let g = ucast (of_nat (y * 40) div vbe_height s :: u32) :: u8;
           b = ucast (of_nat (y * 80) div vbe_height s :: u32) :: u8;
           color = push_bit 8 (ucast g) OR ucast b
       in for_range 0 (unat (vbe_width s)) (\<lambda>x. vbe_put_pixel (int x) (int y) color)) s"

definition vbe_draw_rect :: "int \<Rightarrow> int \<Rightarrow> int \<Rightarrow> int \<Rightarrow> u32 \<Rightarrow> 'a vbe_scheme \<Rightarrow> 'a vbe_scheme" where
  "vbe_draw_rect x y w h color s =
     for_range 0 (nat h) (\<lambda>i. for_range 0 (nat w) (\<lambda>j. vbe_put_pixel (x + int j) (y + int i) color)) s"

definition vbe_draw_char :: "int \<Rightarrow> int \<Rightarrow> u8 \<Rightarrow> u32 \<Rightarrow> 'a vbe_scheme \<Rightarrow> 'a vbe_scheme" where
  "vbe_draw_char x y c color s =
     for_range 0 16 (\<lambda>i. for_range 0 8 (\<lambda>j s.
       if font8x16 c i AND drop_bit j 0x80 \<noteq> 0 then vbe_put_pixel (x + int j) (y + int i) color s else s)) s"

fun vbe_write :: "cstring \<Rightarrow> u32 \<Rightarrow> 'a vbe_scheme \<Rightarrow> 'a vbe_scheme" where
  "vbe_write [] color s = s"
| "vbe_write (c # str) color s =
     (if c = 0 then s
      else if c = 10 then vbe_write str color (s\<lparr>cursor_x := 0, cursor_y := cursor_y s + 16\<rparr>)
      else
        let s1 = vbe_draw_char (cursor_x s) (cursor_y s) c color s;
            s2 = s1\<lparr>cursor_x := cursor_x s1 + 8\<rparr>;
            s3 = (if cursor_x s2 \<ge> int (unat (vbe_width s2)) then s2\<lparr>cursor_x := 0, cursor_y := cursor_y s2 + 16\<rparr> else s2)
        in vbe_write str color s3)"

fun vbe_write_at :: "int \<Rightarrow> int \<Rightarrow> cstring \<Rightarrow> u32 \<Rightarrow> 'a vbe_scheme \<Rightarrow> 'a vbe_scheme" where
  "vbe_write_at x y [] color s = s"
| "vbe_write_at x y (c # str) color s =
     (if c = 0 then s else vbe_write_at (x + 8) y str color (vbe_draw_char x y c color s))"

definition cursor_shape :: "nat list list" where
  "cursor_shape =
    [[2,2,0,0,0,0,0,0],
     [2,1,2,0,0,0,0,0],
     [2,1,1,2,0,0,0,0],
     [2,1,1,1,2,0,0,0],
     [2,1,1,1,1,2,0,0],
     [2,1,1,2,2,2,0,0],
     [2,1,2,0,0,0,0,0],
     [2,2,0,0,0,0,0,0]]"

definition vbe_draw_cursor_simple :: "int \<Rightarrow> int \<Rightarrow> 'a vbe_scheme \<Rightarrow> 'a vbe_scheme" where
  "vbe_draw_cursor_simple x y s =
     for_range 0 8 (\<lambda>i. for_range 0 8 (\<lambda>j s.
       if cursor_shape ! i ! j = 1 then vbe_put_pixel (x + int j) (y + int i) 0xFFFFFF s
       else if cursor_shape ! i ! j = 2 then vbe_put_pixel (x + int j) (y + int i) 0x000000 s
       else s)) s"

definition vbe_restore_cursor :: "'a vbe_scheme \<Rightarrow> 'a vbe_scheme" where
  "vbe_restore_cursor s =
     (let lx = last_cursor_x s; ly = last_cursor_y s; bg = mouse_bg_save s
      in if lx \<noteq> -1 then
           vbe_update_rect lx ly 8 8
             (for_range 0 8 (\<lambda>i. for_range 0 8 (\<lambda>j. vbe_put_pixel (lx + int j) (ly + int i) (bg ! (i * 8 + j)))) s)
         else s)"

definition vbe_save_background :: "int \<Rightarrow> int \<Rightarrow> 'a vbe_scheme \<Rightarrow> 'a vbe_scheme" where
  "vbe_save_background x y s =
     for_range 0 8 (\<lambda>i. for_range 0 8 (\<lambda>j t.
       t\<lparr>mouse_bg_save := (mouse_bg_save t)[i * 8 + j := vbe_get_pixel (x + int j) (y + int i) t]\<rparr>)) s"

definition vbe_draw_cursor :: "int \<Rightarrow> int \<Rightarrow> 'a vbe_scheme \<Rightarrow> 'a vbe_scheme" where
  "vbe_draw_cursor x y s =
     (let s1 = vbe_restore_cursor s;
          s2 = vbe_save_background x y s1;
          s3 = vbe_draw_cursor_simple x y s2;
          s4 = vbe_update_rect x y 8 8 s3
      in s4\<lparr>last_cursor_x := x, last_cursor_y := y\<rparr>)"

definition vbe_is_active :: "'a vbe_scheme \<Rightarrow> int" where
  "vbe_is_active s = vbe_active s"

definition vbe_set_active :: "int \<Rightarrow> 'a vbe_scheme \<Rightarrow> 'a vbe_scheme" where
  "vbe_set_active active s = s\<lparr>vbe_active := active\<rparr>"

section \<open>Painting on a grid\<close>

text \<open>
  What the drawing loops rely on: writing a visible cell changes just that cell, and the other
  ones keep their contents. A pattern of cells painted by two nested loops then shows exactly
  where it is visible, whatever part of it lies outside.
\<close>

definition paint :: "(int \<Rightarrow> int \<Rightarrow> 'c \<Rightarrow> 's \<Rightarrow> 's) \<Rightarrow> int \<Rightarrow> int \<Rightarrow> nat \<Rightarrow> nat \<Rightarrow> (nat \<Rightarrow> nat \<Rightarrow> 'c option) \<Rightarrow> 's \<Rightarrow> 's" where
  "paint put x y w h shape s =
     for_range 0 h (\<lambda>i. for_range 0 w (\<lambda>j t.
       case shape i j of Some c \<Rightarrow> put (x + int j) (y + int i) c t | None \<Rightarrow> t)) s"

definition overlay :: "int \<Rightarrow> int \<Rightarrow> nat \<Rightarrow> nat \<Rightarrow> (nat \<Rightarrow> nat \<Rightarrow> 'c option) \<Rightarrow> int \<Rightarrow> int \<Rightarrow> 'c \<Rightarrow> 'c" where
  "overlay x y w h shape a b d =
     (if x \<le> a \<and> a < x + int w \<and> y \<le> b \<and> b < y + int h
      then case shape (nat (b - y)) (nat (a - x)) of Some c \<Rightarrow> c | None \<Rightarrow> d else d)"

locale canvas =
  fixes put :: "int \<Rightarrow> int \<Rightarrow> 'c \<Rightarrow> 's \<Rightarrow> 's" and get :: "int \<Rightarrow> int \<Rightarrow> 's \<Rightarrow> 'c"
    and vis :: "'s \<Rightarrow> int \<Rightarrow> int \<Rightarrow> bool" and ok :: "'s \<Rightarrow> bool"
  assumes get_put: "\<lbrakk>ok s; vis s a b\<rbrakk> \<Longrightarrow> get a b (put x y c s) = (if a = x \<and> b = y then c else get a b s)"
    and ok_put: "ok s \<Longrightarrow> ok (put x y c s)"
    and vis_put: "vis (put x y c s) = vis s"
begin

lemma row_keeps:
  assumes "ok s"
  shows "ok (for_range 0 w (\<lambda>j t. case sh j of Some c \<Rightarrow> put (x + int j) y c t | None \<Rightarrow> t) s) \<and>
    vis (for_range 0 w (\<lambda>j t. case sh j of Some c \<Rightarrow> put (x + int j) y c t | None \<Rightarrow> t) s) = vis s"
  by (rule for_range_inv [where P = "\<lambda>_ t. ok t \<and> vis t = vis s"]) (use assms ok_put vis_put in \<open>auto split: option.split\<close>)

lemma row_get:
  assumes "ok s" and "vis s a b"
  shows "get a b (for_range 0 w (\<lambda>j t. case sh j of Some c \<Rightarrow> put (x + int j) y c t | None \<Rightarrow> t) s) =
    (if b = y \<and> x \<le> a \<and> a < x + int w then case sh (nat (a - x)) of Some c \<Rightarrow> c | None \<Rightarrow> get a b s else get a b s)"
proof (induction w)
  case 0
  then show ?case by auto
next
  case (Suc w)
  have k: "a = x + int w \<Longrightarrow> nat (a - x) = w" by simp
  show ?case
    using row_keeps [OF assms(1), where w = w and sh = sh and x = x and y = y] Suc assms(2) get_put
    by (cases "sh w") (auto simp: for_range_Suc k)
qed

lemma paint_keeps:
  assumes "ok s"
  shows "ok (paint put x y w h shape s) \<and> vis (paint put x y w h shape s) = vis s"
  unfolding paint_def
  by (rule for_range_inv [where P = "\<lambda>_ t. ok t \<and> vis t = vis s"]) (use assms row_keeps in auto)

text \<open>What a cell write keeps is kept by the loops; values read on the way are those at the start.\<close>

lemma paint_inv:
  assumes "\<And>x y c t. f (put x y c t) = f t"
  shows "f (paint put x y w h shape s) = f s"
proof -
  have row: "f (for_range 0 w (\<lambda>j t. case sh j of Some c \<Rightarrow> put (x + int j) b c t | None \<Rightarrow> t) t) = f t" for sh b t
    by (rule for_range_inv [where P = "\<lambda>_ u. f u = f t"]) (use assms in \<open>auto split: option.split\<close>)
  show ?thesis unfolding paint_def
    by (rule for_range_inv [where P = "\<lambda>_ u. f u = f s"]) (use row in auto)
qed

lemma paint_state:
  assumes q: "\<And>a b x y c t. q a b (put x y c t) = q a b t"
  shows "for_range 0 h (\<lambda>i. for_range 0 w (\<lambda>j t. put (x + int j) (y + int i) (q (x + int j) (y + int i) t) t)) s =
    paint put x y w h (\<lambda>i j. Some (q (x + int j) (y + int i) s)) s"
proof (induction h)
  case (Suc h)
  let ?t = "paint put x y w h (\<lambda>i j. Some (q (x + int j) (y + int i) s)) s"
  have qt: "q a b ?t = q a b s" for a b by (rule paint_inv) (rule q)
  have "for_range 0 n (\<lambda>j t. put (x + int j) (y + int h) (q (x + int j) (y + int h) t) t) ?t =
      for_range 0 n (\<lambda>j t. put (x + int j) (y + int h) (q (x + int j) (y + int h) s) t) ?t \<and>
    (\<forall>a b. q a b (for_range 0 n (\<lambda>j t. put (x + int j) (y + int h) (q (x + int j) (y + int h) s) t) ?t) = q a b s)" for n
    by (induction n) (simp_all add: for_range_Suc q qt)
  then show ?case using Suc by (simp add: paint_def for_range_Suc)
qed (simp add: paint_def)

lemma get_paint:
  assumes "ok s" and "vis s a b"
  shows "get a b (paint put x y w h shape s) = overlay x y w h shape a b (get a b s)"
proof (induction h)
  case 0
  then show ?case by (auto simp: paint_def overlay_def)
next
  case (Suc h)
  let ?t = "paint put x y w h shape s"
  have t: "ok ?t" "vis ?t a b" using paint_keeps [OF assms(1)] assms(2) by auto
  have k: "b = y + int h \<Longrightarrow> nat (b - y) = h" by simp
  have "paint put x y w (Suc h) shape s =
      for_range 0 w (\<lambda>j t. case shape h j of Some c \<Rightarrow> put (x + int j) (y + int h) c t | None \<Rightarrow> t) ?t"
    by (simp add: paint_def for_range_Suc)
  then show ?case
    using row_get [OF t, where w = w and sh = "shape h" and x = x and y = "y + int h"] Suc by (auto simp: overlay_def k split: option.split)
qed

end

section \<open>The back buffer as a canvas\<close>

definition frame_ok :: "'a vbe_scheme \<Rightarrow> bool" where
  "frame_ok s \<longleftrightarrow> back_buffer s \<noteq> 0 \<and> unat (vbe_width s) * unat (vbe_height s) < 4294967296"

lemma visible:
  "\<not> clipped x y s \<Longrightarrow> 0 \<le> x \<and> nat x < unat (vbe_width s) \<and> 0 \<le> y \<and> nat y < unat (vbe_height s)"
  unfolding clipped_def by linarith

lemma pix_nat:
  assumes "frame_ok s" and "\<not> clipped x y s"
  shows "pix x y s = nat y * unat (vbe_width s) + nat x"
    "nat y * unat (vbe_width s) + nat x < unat (vbe_width s) * unat (vbe_height s)"
proof -
  note b = visible [OF assms(2)]
  have "nat y * unat (vbe_width s) + nat x < (nat y + 1) * unat (vbe_width s)" using b by simp
  also have "\<dots> \<le> unat (vbe_height s) * unat (vbe_width s)" using b by (intro mult_le_mono1) linarith
  finally show lt: "nat y * unat (vbe_width s) + nat x < unat (vbe_width s) * unat (vbe_height s)"
    by (simp add: mult.commute)
  have "of_int y * vbe_width s + of_int x = (of_nat (nat y * unat (vbe_width s) + nat x) :: u32)"
    using b by (simp add: of_nat_nat)
  moreover have "nat y * unat (vbe_width s) + nat x < 4294967296" using lt assms(1) by (simp add: frame_ok_def)
  ultimately show "pix x y s = nat y * unat (vbe_width s) + nat x" by (simp only: pix_def unat_of_nat_u32)
qed

lemma pix_inj:
  assumes "frame_ok s" and "\<not> clipped x y s" and "\<not> clipped a b s" and "pix a b s = pix x y s"
  shows "a = x \<and> b = y"
proof -
  let ?w = "unat (vbe_width s)"
  have l: "nat x < ?w" "nat a < ?w" using visible [OF assms(2)] visible [OF assms(3)] by auto
  have e: "nat b * ?w + nat a = nat y * ?w + nat x"
    using assms(4) by (simp only: pix_nat(1) [OF assms(1,2)] pix_nat(1) [OF assms(1,3)])
  have "nat b = nat y" using arg_cong [OF e, of "\<lambda>n. n div ?w"] l by simp
  moreover have "nat a = nat x" using arg_cong [OF e, of "\<lambda>n. n mod ?w"] l by simp
  ultimately show ?thesis using assms(2,3) by (auto simp: clipped_def)
qed

lemma put_pixel_sel [simp]:
  "vbe_width (vbe_put_pixel x y c s) = vbe_width s" "vbe_height (vbe_put_pixel x y c s) = vbe_height s"
  "back_buffer (vbe_put_pixel x y c s) = back_buffer s" "lfb (vbe_put_pixel x y c s) = lfb s"
  "mouse_bg_save (vbe_put_pixel x y c s) = mouse_bg_save s" "last_cursor_x (vbe_put_pixel x y c s) = last_cursor_x s"
  "last_cursor_y (vbe_put_pixel x y c s) = last_cursor_y s"
  "clipped a b (vbe_put_pixel x y c s) = clipped a b s" "pix a b (vbe_put_pixel x y c s) = pix a b s"
  "frame_ok (vbe_put_pixel x y c s) = frame_ok s"
  by (simp_all add: vbe_put_pixel_def clipped_def pix_def frame_ok_def)

lemma get_put_pixel:
  assumes "frame_ok s" and "\<not> clipped a b s"
  shows "vbe_get_pixel a b (vbe_put_pixel x y c s) = (if a = x \<and> b = y then c else vbe_get_pixel a b s)"
proof (cases "clipped x y s")
  case True
  then show ?thesis using assms(2) by (auto simp: vbe_put_pixel_def)
next
  case False
  then show ?thesis using pix_inj [OF assms(1) False assms(2)] assms
    by (auto simp: vbe_get_pixel_def vbe_put_pixel_def frame_ok_def clipped_def pix_def)
qed

interpretation bb: canvas vbe_put_pixel vbe_get_pixel "\<lambda>s a b. \<not> clipped a b s" frame_ok
  by unfold_locales (simp_all add: get_put_pixel)

text \<open>Nothing is written behind the last pixel.\<close>

lemma paint_inside:
  assumes "frame_ok s" and i: "unat (vbe_width s) * unat (vbe_height s) \<le> i"
  shows "bpix (paint vbe_put_pixel x y w h shape s) i = bpix s i"
proof -
  let ?P = "\<lambda>t. bpix t i = bpix s i \<and> frame_ok t \<and> vbe_width t = vbe_width s \<and> vbe_height t = vbe_height s"
  have step: "?P (vbe_put_pixel a b c t)" if t: "?P t" for a b c t
  proof (cases "clipped a b t")
    case True
    then show ?thesis using t by (simp add: vbe_put_pixel_def)
  next
    case False
    have "frame_ok t" using t by simp
    then have "pix a b t < i" using pix_nat [OF _ False] t i by (simp add: pix_nat)
    then show ?thesis using t by simp (simp add: vbe_put_pixel_def)
  qed
  have "?P (paint vbe_put_pixel x y w h shape s)" unfolding paint_def
  proof (rule for_range_inv [where P = "\<lambda>_. ?P"])
    fix k t
    assume "?P t"
    then show "?P (for_range 0 w (\<lambda>j t. case shape k j of Some c \<Rightarrow> vbe_put_pixel (x + int j) (y + int k) c t | None \<Rightarrow> t) t)"
      by (intro for_range_inv [where P = "\<lambda>_. ?P"]) (use step in \<open>auto split: option.split\<close>)
  qed (use assms in auto)
  then show ?thesis by simp
qed

text \<open>
  drawing a rectangle sets exactly the visible pixels inside it to the colour and leaves
  every other pixel as it was, also when the rectangle reaches over the edges of the screen or
  has no positive extent; nothing is written outside the back buffer.
\<close>

theorem vbe_draw_rect_pixels:
  assumes "frame_ok s"
  shows "vbe_get_pixel a b (vbe_draw_rect x y w h c s) =
      (if \<not> clipped a b s \<and> x \<le> a \<and> a < x + w \<and> y \<le> b \<and> b < y + h then c else vbe_get_pixel a b s) \<and>
    (\<forall>i \<ge> unat (vbe_width s) * unat (vbe_height s). bpix (vbe_draw_rect x y w h c s) i = bpix s i)"
proof -
  have e: "vbe_draw_rect x y w h c s = paint vbe_put_pixel x y (nat w) (nat h) (\<lambda>_ _. Some c) s"
    by (simp add: vbe_draw_rect_def paint_def)
  have v: "clipped a b (vbe_draw_rect x y w h c s) = clipped a b s"
    using bb.paint_keeps [OF assms] unfolding e by metis
  have "vbe_get_pixel a b (vbe_draw_rect x y w h c s) =
    (if \<not> clipped a b s \<and> x \<le> a \<and> a < x + w \<and> y \<le> b \<and> b < y + h then c else vbe_get_pixel a b s)"
  proof (cases "clipped a b s")
    case True
    then show ?thesis using v by (simp add: vbe_get_pixel_def)
  next
    case False
    then show ?thesis using bb.get_paint [OF assms False] unfolding e by (auto simp: overlay_def)
  qed
  then show ?thesis using paint_inside [OF assms] unfolding e by blast
qed

section \<open>The mouse cursor\<close>

text \<open>The frame buffer, seen through the same coordinates, is the second canvas.\<close>

definition lfb_put :: "int \<Rightarrow> int \<Rightarrow> u32 \<Rightarrow> 'a vbe_scheme \<Rightarrow> 'a vbe_scheme" where
  "lfb_put x y c s = (if clipped x y s then s else s\<lparr>lfb := (lfb s)(pix x y s := c)\<rparr>)"

definition lfb_pixel :: "int \<Rightarrow> int \<Rightarrow> 'a vbe_scheme \<Rightarrow> u32" where
  "lfb_pixel x y s = (if clipped x y s then 0 else lfb s (pix x y s))"

lemma lfb_put_sel [simp]:
  "vbe_width (lfb_put x y c s) = vbe_width s" "vbe_height (lfb_put x y c s) = vbe_height s"
  "back_buffer (lfb_put x y c s) = back_buffer s" "bpix (lfb_put x y c s) = bpix s"
  "mouse_bg_save (lfb_put x y c s) = mouse_bg_save s" "last_cursor_x (lfb_put x y c s) = last_cursor_x s"
  "last_cursor_y (lfb_put x y c s) = last_cursor_y s"
  "clipped a b (lfb_put x y c s) = clipped a b s" "pix a b (lfb_put x y c s) = pix a b s"
  "frame_ok (lfb_put x y c s) = frame_ok s" "vbe_get_pixel a b (lfb_put x y c s) = vbe_get_pixel a b s"
  by (simp_all add: lfb_put_def clipped_def pix_def frame_ok_def vbe_get_pixel_def)

lemma lfb_pixel_put [simp]: "lfb_pixel a b (vbe_put_pixel x y c s) = lfb_pixel a b s"
  by (simp add: lfb_pixel_def)

lemma get_lfb_put:
  assumes "frame_ok s" and "\<not> clipped a b s"
  shows "lfb_pixel a b (lfb_put x y c s) = (if a = x \<and> b = y then c else lfb_pixel a b s)"
proof (cases "clipped x y s")
  case True
  then show ?thesis using assms(2) by (auto simp: lfb_put_def)
next
  case False
  then show ?thesis using pix_inj [OF assms(1) False assms(2)] assms
    by (auto simp: lfb_pixel_def lfb_put_def clipped_def pix_def)
qed

interpretation fb: canvas lfb_put lfb_pixel "\<lambda>s a b. \<not> clipped a b s" frame_ok
  by unfold_locales (simp_all add: get_lfb_put)

lemma update_rect_paint:
  "vbe_update_rect x y w h s = paint lfb_put x y (nat w) (nat h) (\<lambda>i j. Some (vbe_get_pixel (x + int j) (y + int i) s)) s"
proof -
  have "copy_pixel a b = (\<lambda>t :: 'a vbe_scheme. lfb_put a b (vbe_get_pixel a b t) t)" for a b
    by (simp add: copy_pixel_def lfb_put_def vbe_get_pixel_def fun_eq_iff)
  then show ?thesis
    using fb.paint_state [where q = vbe_get_pixel] by (simp add: vbe_update_rect_def)
qed

lemma update_rect_sel [simp]:
  "mouse_bg_save (vbe_update_rect x y w h s) = mouse_bg_save s" "last_cursor_x (vbe_update_rect x y w h s) = last_cursor_x s"
  "last_cursor_y (vbe_update_rect x y w h s) = last_cursor_y s" "frame_ok (vbe_update_rect x y w h s) = frame_ok s"
  "clipped a b (vbe_update_rect x y w h s) = clipped a b s"
  "vbe_get_pixel a b (vbe_update_rect x y w h s) = vbe_get_pixel a b s"
  unfolding update_rect_paint by (rule fb.paint_inv, simp)+

lemma update_rect_lfb:
  assumes "frame_ok s" and "\<not> clipped a b s"
  shows "lfb_pixel a b (vbe_update_rect x y w h s) =
    (if x \<le> a \<and> a < x + w \<and> y \<le> b \<and> b < y + h then vbe_get_pixel a b s else lfb_pixel a b s)"
  unfolding update_rect_paint using fb.get_paint [OF assms] by (auto simp: overlay_def)

definition cursor_color :: "nat \<Rightarrow> nat \<Rightarrow> u32 option" where
  "cursor_color i j = (if cursor_shape ! i ! j = 1 then Some 0xFFFFFF else if cursor_shape ! i ! j = 2 then Some 0 else None)"

lemma cursor_paint: "vbe_draw_cursor_simple x y s = paint vbe_put_pixel x y 8 8 cursor_color s"
proof -
  have "(if cursor_shape ! i ! j = 1 then vbe_put_pixel a b 0xFFFFFF t else if cursor_shape ! i ! j = 2 then vbe_put_pixel a b 0 t else t) =
      (case cursor_color i j of Some c \<Rightarrow> vbe_put_pixel a b c t | None \<Rightarrow> t)" for i j a b and t :: "'a vbe_scheme"
    by (simp add: cursor_color_def)
  then show ?thesis by (simp add: vbe_draw_cursor_simple_def paint_def)
qed

lemma paint_sel [simp]:
  "mouse_bg_save (paint vbe_put_pixel x y w h sh s) = mouse_bg_save s"
  "last_cursor_x (paint vbe_put_pixel x y w h sh s) = last_cursor_x s"
  "last_cursor_y (paint vbe_put_pixel x y w h sh s) = last_cursor_y s"
  "frame_ok (paint vbe_put_pixel x y w h sh s) = frame_ok s"
  "clipped a b (paint vbe_put_pixel x y w h sh s) = clipped a b s"
  "lfb_pixel a b (paint vbe_put_pixel x y w h sh s) = lfb_pixel a b s"
  by (rule bb.paint_inv, simp)+

lemma save_background:
  assumes "length (mouse_bg_save s) = 64"
  obtains bg where "vbe_save_background x y s = s\<lparr>mouse_bg_save := bg\<rparr>" "length bg = 64"
    "\<And>i j. i < 8 \<Longrightarrow> j < 8 \<Longrightarrow> bg ! (i * 8 + j) = vbe_get_pixel (x + int j) (y + int i) s"
proof -
  let ?v = "\<lambda>i j. vbe_get_pixel (x + int j) (y + int i) s"
  let ?ok = "\<lambda>k t. \<exists>bg. t = s\<lparr>mouse_bg_save := bg\<rparr> \<and> length bg = 64 \<and> (\<forall>i j. i < 8 \<longrightarrow> j < 8 \<longrightarrow> i * 8 + j < k \<longrightarrow> bg ! (i * 8 + j) = ?v i j)"
  let ?body = "\<lambda>i j t. t\<lparr>mouse_bg_save := (mouse_bg_save t)[i * 8 + j := vbe_get_pixel (x + int j) (y + int i) t]\<rparr>"
  have g: "vbe_get_pixel a b (s\<lparr>mouse_bg_save := bg\<rparr>) = vbe_get_pixel a b s" for a b bg
    by (simp add: vbe_get_pixel_def clipped_def pix_def)
  have step: "?ok (Suc (i * 8 + j)) (?body i j t)" if t: "?ok (i * 8 + j) t" and ij: "i < 8" "j < 8" for i j t
  proof -
    obtain bg where bg: "t = s\<lparr>mouse_bg_save := bg\<rparr>" "length bg = 64"
        "\<And>a b. a < 8 \<Longrightarrow> b < 8 \<Longrightarrow> a * 8 + b < i * 8 + j \<Longrightarrow> bg ! (a * 8 + b) = ?v a b" using t by blast
    have "bg[i * 8 + j := ?v i j] ! (a * 8 + b) = ?v a b"
      if ab: "a < 8" "b < 8" "a * 8 + b < Suc (i * 8 + j)" for a b
    proof (cases "a * 8 + b = i * 8 + j")
      case True
      have "(a * 8 + b) div 8 = a" "(a * 8 + b) mod 8 = b" "(i * 8 + j) div 8 = i" "(i * 8 + j) mod 8 = j"
        using ab(2) ij(2) by simp_all
      then have "a = i" "b = j" using True by metis+
      then show ?thesis using bg(2) ij by simp
    next
      case False
      then show ?thesis using bg(3) [of a b] ab by simp
    qed
    then show ?thesis using bg(1,2) g by (intro exI [of _ "bg[i * 8 + j := ?v i j]"]) simp
  qed
  have row: "?ok (Suc i * 8) (for_range 0 8 (?body i) t)" if "?ok (i * 8) t" "i < 8" for i t
    using for_range_inv [where P = "\<lambda>j. ?ok (i * 8 + j)" and lo = 0 and hi = 8 and s = t and body = "?body i"] that step
    by (simp add: add.commute)
  have "?ok (8 * 8) (vbe_save_background x y s)" unfolding vbe_save_background_def
    by (rule for_range_inv [where P = "\<lambda>i. ?ok (i * 8)"]) (use assms row in \<open>auto intro!: exI [of _ "mouse_bg_save s"]\<close>)
  then obtain bg where "vbe_save_background x y s = s\<lparr>mouse_bg_save := bg\<rparr>" "length bg = 64"
      "\<And>i j. i < 8 \<Longrightarrow> j < 8 \<Longrightarrow> i * 8 + j < 64 \<Longrightarrow> bg ! (i * 8 + j) = ?v i j" by auto
  then show ?thesis using that by auto
qed

text \<open>
  The picture \<open>f\<close> with the cursor at a position: what is under the cursor has been saved, and the
  frame buffer shows the back buffer.
\<close>

definition cursor_shown :: "(int \<Rightarrow> int \<Rightarrow> u32) \<Rightarrow> (int \<Rightarrow> int \<Rightarrow> bool) \<Rightarrow> int \<Rightarrow> int \<Rightarrow> 'a vbe_scheme \<Rightarrow> bool" where
  "cursor_shown f v x y s \<longleftrightarrow> frame_ok s \<and> length (mouse_bg_save s) = 64 \<and> last_cursor_x s = x \<and> last_cursor_y s = y \<and>
     (\<forall>a b. clipped a b s = (\<not> v a b)) \<and>
     (\<forall>a b. v a b \<longrightarrow> vbe_get_pixel a b s = overlay x y 8 8 cursor_color a b (f a b) \<and> lfb_pixel a b s = vbe_get_pixel a b s) \<and>
     (\<forall>i j. i < 8 \<longrightarrow> j < 8 \<longrightarrow> v (x + int j) (y + int i) \<longrightarrow> mouse_bg_save s ! (i * 8 + j) = f (x + int j) (y + int i))"

lemma restore_cursor:
  assumes "cursor_shown f v x y s" and "x \<noteq> -1"
  shows "frame_ok (vbe_restore_cursor s)" "length (mouse_bg_save (vbe_restore_cursor s)) = 64"
    "clipped a b (vbe_restore_cursor s) = (\<not> v a b)"
    "v a b \<Longrightarrow> vbe_get_pixel a b (vbe_restore_cursor s) = f a b \<and> lfb_pixel a b (vbe_restore_cursor s) = f a b"
proof -
  let ?bg = "\<lambda>i j. Some (mouse_bg_save s ! (i * 8 + j))"
  let ?p = "paint vbe_put_pixel x y 8 8 ?bg s"
  note c = assms(1) [unfolded cursor_shown_def]
  have e: "vbe_restore_cursor s = vbe_update_rect x y 8 8 ?p"
    using c assms(2) by (simp add: vbe_restore_cursor_def paint_def Let_def)
  show ok: "frame_ok (vbe_restore_cursor s)" "length (mouse_bg_save (vbe_restore_cursor s)) = 64"
    "clipped a b (vbe_restore_cursor s) = (\<not> v a b)"
    using c by (simp_all add: e)
  assume v: "v a b"
  then have nc: "\<not> clipped a b s" using c by simp
  have "overlay x y 8 8 ?bg a b (overlay x y 8 8 cursor_color a b (f a b)) = f a b"
  proof (cases "x \<le> a \<and> a < x + 8 \<and> y \<le> b \<and> b < y + 8")
    case True
    then have "mouse_bg_save s ! (nat (b - y) * 8 + nat (a - x)) = f (x + int (nat (a - x))) (y + int (nat (b - y)))"
      using c v by auto
    then show ?thesis using True by (simp add: overlay_def)
  qed (auto simp: overlay_def)
  then have g: "vbe_get_pixel a b ?p = f a b" using bb.get_paint [of s a b] nc c v by simp
  have "lfb_pixel a b (vbe_update_rect x y 8 8 ?p) = f a b"
    using c v nc by (simp add: update_rect_lfb g) (auto simp: overlay_def)
  then show "vbe_get_pixel a b (vbe_restore_cursor s) = f a b \<and> lfb_pixel a b (vbe_restore_cursor s) = f a b"
    using g by (simp add: e)
qed

lemma draw_cursor_shown:
  assumes "frame_ok t" and "length (mouse_bg_save t) = 64" and "t = vbe_restore_cursor s"
    and v: "\<And>a b. clipped a b t = (\<not> v a b)"
    and f: "\<And>a b. v a b \<Longrightarrow> vbe_get_pixel a b t = f a b \<and> lfb_pixel a b t = f a b"
  shows "cursor_shown f v x y (vbe_draw_cursor x y s)"
proof -
  obtain bg where bg: "vbe_save_background x y t = t\<lparr>mouse_bg_save := bg\<rparr>" "length bg = 64"
    "\<And>i j. i < 8 \<Longrightarrow> j < 8 \<Longrightarrow> bg ! (i * 8 + j) = vbe_get_pixel (x + int j) (y + int i) t"
    using save_background [OF assms(2)] by metis
  let ?u = "t\<lparr>mouse_bg_save := bg\<rparr>"
  let ?p = "paint vbe_put_pixel x y 8 8 cursor_color ?u"
  have e: "vbe_draw_cursor x y s = (vbe_update_rect x y 8 8 ?p)\<lparr>last_cursor_x := x, last_cursor_y := y\<rparr>"
    by (simp add: vbe_draw_cursor_def Let_def assms(3) [symmetric] bg(1) cursor_paint)
  have u: "frame_ok ?u" "clipped a b ?u = (\<not> v a b)" "vbe_get_pixel a b ?u = vbe_get_pixel a b t"
      "lfb_pixel a b ?u = lfb_pixel a b t" for a b
    using assms(1) v by (simp_all add: frame_ok_def clipped_def pix_def vbe_get_pixel_def lfb_pixel_def)
  have w: "vbe_get_pixel a b (r\<lparr>last_cursor_x := x, last_cursor_y := y\<rparr>) = vbe_get_pixel a b r"
      "lfb_pixel a b (r\<lparr>last_cursor_x := x, last_cursor_y := y\<rparr>) = lfb_pixel a b r"
      "clipped a b (r\<lparr>last_cursor_x := x, last_cursor_y := y\<rparr>) = clipped a b r"
      "frame_ok (r\<lparr>last_cursor_x := x, last_cursor_y := y\<rparr>) = frame_ok r" for a b and r :: "'a vbe_scheme"
    by (simp_all add: frame_ok_def clipped_def pix_def vbe_get_pixel_def lfb_pixel_def)
  have g: "vbe_get_pixel a b ?p = overlay x y 8 8 cursor_color a b (f a b)" if "v a b" for a b
    using bb.get_paint [OF u(1), of a b] u(2,3) that f by simp
  have "lfb_pixel a b (vbe_update_rect x y 8 8 ?p) = overlay x y 8 8 cursor_color a b (f a b)" if "v a b" for a b
    using that u f by (simp add: update_rect_lfb g) (auto simp: overlay_def)
  then show ?thesis
    unfolding cursor_shown_def e w using u bg(2,3) g f by simp
qed

text \<open>
  the cursor leaves no trace. However the pointer moves, the picture is the one before the
  first move with the cursor over it at its last position only, and the frame buffer shows
  that picture, also where the cursor reaches over the edge of the screen.
\<close>

theorem vbe_cursor_moves:
  assumes "frame_ok s" and "length (mouse_bg_save s) = 64" and "last_cursor_x s = -1"
    and "\<forall>a b. \<not> clipped a b s \<longrightarrow> lfb_pixel a b s = vbe_get_pixel a b s"
    and "\<forall>(x, y) \<in> set (ps @ [(x, y)]). x \<noteq> -1" and "\<not> clipped a b s"
  shows "vbe_get_pixel a b (fold (\<lambda>(x, y). vbe_draw_cursor x y) (ps @ [(x, y)]) s) =
      overlay x y 8 8 cursor_color a b (vbe_get_pixel a b s) \<and>
    lfb_pixel a b (fold (\<lambda>(x, y). vbe_draw_cursor x y) (ps @ [(x, y)]) s) =
      overlay x y 8 8 cursor_color a b (vbe_get_pixel a b s)"
proof -
  let ?f = "\<lambda>a b. vbe_get_pixel a b s" and ?v = "\<lambda>a b. \<not> clipped a b s"
  have "cursor_shown ?f ?v x y (fold (\<lambda>(x, y). vbe_draw_cursor x y) (ps @ [(x, y)]) s)"
    using assms(5)
  proof (induction ps arbitrary: x y rule: rev_induct)
    case Nil
    have "vbe_restore_cursor s = s" using assms(3) by (simp add: vbe_restore_cursor_def)
    then show ?case using draw_cursor_shown [OF assms(1,2), of s ?v ?f x y] assms(4) by simp
  next
    case (snoc p ps)
    obtain x' y' where p: "p = (x', y')" by (cases p)
    let ?t = "fold (\<lambda>(x, y). vbe_draw_cursor x y) (ps @ [(x', y')]) s"
    have t: "cursor_shown ?f ?v x' y' ?t" by (rule snoc.IH) (use snoc.prems p in auto)
    have "x' \<noteq> -1" using snoc.prems p by auto
    note r = restore_cursor [OF t this]
    show ?case using draw_cursor_shown [OF r(1,2) refl, of ?v ?f x y] r(3,4) by (simp add: p)
  qed
  then show ?thesis using assms(6) by (simp add: cursor_shown_def)
qed

section \<open>Instances\<close>

definition demo_screen :: vbe where
  "demo_screen = \<lparr>dev = (\<lambda>_ _. 0x20), reads = (\<lambda>_. 0), outs = [], vbe_width = 800, vbe_height = 600, vbe_pitch = 3200, vbe_bpp = 32, back_buffer = 0xC0500000,
     bpix = (\<lambda>_. 7), lfb = (\<lambda>_. 7), mouse_bg_save = replicate 64 0, cursor_x = 0, cursor_y = 0,
     last_cursor_x = -1, last_cursor_y = -1, vbe_active = 1\<rparr>"

lemma demo_screen_ok:
  "frame_ok demo_screen" "\<not> clipped 10 5 demo_screen" "vbe_get_pixel 10 5 demo_screen = 7"
  "lfb_pixel a b demo_screen = vbe_get_pixel a b demo_screen" "last_cursor_x demo_screen = -1"
  "length (mouse_bg_save demo_screen) = 64"
  by (simp_all add: demo_screen_def frame_ok_def clipped_def vbe_get_pixel_def lfb_pixel_def pix_def)

theorem vbe_draw_rect_pixels_witness: "vbe_get_pixel 10 5 (vbe_draw_rect (-5) 0 20 10 3 demo_screen) = 3"
  using vbe_draw_rect_pixels [OF demo_screen_ok(1), of 10 5 "-5" 0 20 10 3] demo_screen_ok(2) by simp

theorem vbe_cursor_moves_witness:
  "vbe_get_pixel 10 5 (fold (\<lambda>(x, y). vbe_draw_cursor x y) ([(10, 5)] @ [(795, 595)]) demo_screen) = 7"
  using vbe_cursor_moves [OF demo_screen_ok(1,6,5), of "[(10, 5)]" 795 595 10 5] demo_screen_ok(2,3,4)
  by (simp add: overlay_def)

end
