(* ===== verification/Inet.thy ===== *)
theory Inet
  imports Peker_Prelude
begin

text \<open>
  Byte order and the Internet checksum (\<open>include/net.h\<close>, \<open>kernel/net/net.c\<close>). A packet
  buffer is the memory from the packet pointer on, a function from offsets to bytes, so
  that reads past the received length see whatever lies behind the buffer, as in the code.
  The checksum routine adds 16-bit words in a 32-bit accumulator and folds the carries at
  the end; it is shown equal to the one's complement sum with end-around carry, and to make
  a packet whose checksum field it filled verify to zero.
\<close>

section \<open>Byte order\<close>

definition htons :: "u16 \<Rightarrow> u16" where
  "htons v = drop_bit 8 v OR push_bit 8 v"

definition ntohs :: "u16 \<Rightarrow> u16" where
  "ntohs v = htons v"

definition htonl :: "u32 \<Rightarrow> u32" where
  "htonl v = push_bit 24 (v AND 0xFF) OR push_bit 8 (v AND 0xFF00) OR
     (drop_bit 8 v AND 0xFF00) OR (drop_bit 24 v AND 0xFF)"

definition ntohl :: "u32 \<Rightarrow> u32" where
  "ntohl v = htonl v"

lemma bit_ff: "bit (0xFF :: u32) n \<longleftrightarrow> n < 8" "bit (0xFF00 :: u32) n \<longleftrightarrow> 8 \<le> n \<and> n < 16"
proof -
  have "(0xFF :: u32) = mask 8" by (simp add: mask_eq_exp_minus_1)
  then show "bit (0xFF :: u32) n \<longleftrightarrow> n < 8" by (simp only: bit_mask_iff) auto
  have "(0xFF00 :: u32) = push_bit 8 (mask 8)" by (simp add: mask_eq_exp_minus_1 push_bit_eq_mult)
  then show "bit (0xFF00 :: u32) n \<longleftrightarrow> 8 \<le> n \<and> n < 16" by (simp only: bit_push_bit_iff bit_mask_iff) auto
qed

lemma bit_htons: "bit (htons v) n \<longleftrightarrow> (if n < 8 then bit v (n + 8) else n < 16 \<and> bit v (n - 8))"
  by (auto simp: htons_def bit_or_iff bit_push_bit_iff bit_drop_bit_eq add.commute dest: bit_imp_le_length)

lemma bit_htonl:
  "bit (htonl v) n \<longleftrightarrow> (if n < 8 then bit v (n + 24) else if n < 16 then bit v (n + 8)
     else if n < 24 then bit v (n - 8) else n < 32 \<and> bit v (n - 24))"
  unfolding htonl_def bit_or_iff bit_and_iff bit_push_bit_iff bit_drop_bit_eq comp_def bit_ff
  by (auto simp: add.commute dest: bit_imp_le_length)

lemma htons_htons [simp]: "htons (htons v) = v"
  by (rule bit_word_eqI) (auto simp: bit_htons)

lemma htonl_htonl [simp]: "htonl (htonl v) = v"
  by (rule bit_word_eqI) (auto simp: bit_htonl)

lemma ntohs_htons [simp]: "ntohs (htons v) = v" "ntohl (htonl w) = w"
  by (simp_all add: ntohs_def ntohl_def)

text \<open>In memory, the conversion reverses the bytes.\<close>

lemma bytes16_htons: "bytes16 (htons v) = rev (bytes16 v)"
  by (auto simp: bytes16_def bit_eq_iff bit_ucast_iff bit_drop_bit_eq bit_htons add.commute
      dest: bit_imp_le_length)

lemma bytes32_htonl: "bytes32 (htonl v) = rev (bytes32 v)"
  by (auto simp: bytes32_def bit_eq_iff bit_ucast_iff bit_drop_bit_eq bit_htonl add.commute
      dest: bit_imp_le_length)

section \<open>Packet memory\<close>

type_synonym mem = "nat \<Rightarrow> u8"

definition rd16 :: "mem \<Rightarrow> nat \<Rightarrow> u16" where
  "rd16 m p = le16 (m p) (m (p + 1))"

definition rd32 :: "mem \<Rightarrow> nat \<Rightarrow> u32" where
  "rd32 m p = le32 (m p) (m (p + 1)) (m (p + 2)) (m (p + 3))"

definition rd_bytes :: "mem \<Rightarrow> nat \<Rightarrow> nat \<Rightarrow> u8 list" where
  "rd_bytes m p n = map (\<lambda>i. m (p + i)) [0..<n]"

definition wr_bytes :: "nat \<Rightarrow> u8 list \<Rightarrow> mem \<Rightarrow> mem" where
  "wr_bytes p xs m = (\<lambda>i. if p \<le> i \<and> i < p + length xs then xs ! (i - p) else m i)"

definition wr16 :: "nat \<Rightarrow> u16 \<Rightarrow> mem \<Rightarrow> mem" where
  "wr16 p v = wr_bytes p (bytes16 v)"

definition wr8 :: "nat \<Rightarrow> u8 \<Rightarrow> mem \<Rightarrow> mem" where
  "wr8 p v = wr_bytes p [v]"

text \<open>A buffer whose bytes are all known, as memory; past its end the bytes read as zero.\<close>

definition buf_mem :: "u8 list \<Rightarrow> mem" where
  "buf_mem xs = wr_bytes 0 xs (\<lambda>_. 0)"

lemma length_rd_bytes [simp]: "length (rd_bytes m p n) = n"
  by (simp add: rd_bytes_def)

lemma nth_rd_bytes [simp]: "i < n \<Longrightarrow> rd_bytes m p n ! i = m (p + i)"
  by (simp add: rd_bytes_def)

lemma wr_bytes_in: "p \<le> i \<Longrightarrow> i < p + length xs \<Longrightarrow> wr_bytes p xs m i = xs ! (i - p)"
  by (simp add: wr_bytes_def)

lemma wr_bytes_out: "i < p \<or> p + length xs \<le> i \<Longrightarrow> wr_bytes p xs m i = m i"
  by (auto simp: wr_bytes_def)

lemma rd_wr_bytes [simp]: "rd_bytes (wr_bytes p xs m) p (length xs) = xs"
  by (rule nth_equalityI) (simp_all add: wr_bytes_def)

lemma rd_bytes_out:
  "q + n \<le> p \<or> p + length xs \<le> q \<Longrightarrow> rd_bytes (wr_bytes p xs m) q n = rd_bytes m q n"
  by (rule nth_equalityI) (auto simp: wr_bytes_def)

lemma rd_bytes_split: "rd_bytes m p (a + b) = rd_bytes m p a @ rd_bytes m (p + a) b"
  by (rule nth_equalityI) (auto simp: nth_append)

lemma wr16_at: "wr16 p v m p = ucast v" "wr16 p v m (p + 1) = ucast (drop_bit 8 v)"
  by (simp_all add: wr16_def wr_bytes_def bytes16_def)

lemma wr16_out: "i \<noteq> p \<Longrightarrow> i \<noteq> p + 1 \<Longrightarrow> wr16 p v m i = m i"
  by (auto simp: wr16_def wr_bytes_def)

lemma rd16_wr16 [simp]: "rd16 (wr16 p v m) p = v"
  by (simp only: rd16_def wr16_at bytes16_roundtrip)

lemma rd16_wr16_out: "q + 2 \<le> p \<or> p + 2 \<le> q \<Longrightarrow> rd16 (wr16 p v m) q = rd16 m q"
  by (auto simp: rd16_def wr16_out)

section \<open>The checksum routine\<close>

fun cksum_words :: "mem \<Rightarrow> nat \<Rightarrow> nat \<Rightarrow> u32 \<Rightarrow> u32" where
  "cksum_words m p count acc =
     (if count > 1 then cksum_words m (p + 2) (count - 2) (acc + ucast (rd16 m p))
      else if count > 0 then acc + ucast (m p) else acc)"

declare cksum_words.simps [simp del]

lemma unat_drop16: "unat (drop_bit 16 (s :: u32)) = unat s div 65536"
  by (simp add: drop_bit_eq_div unat_div)

lemma fold_measure:
  "drop_bit 16 s \<noteq> 0 \<Longrightarrow> unat ((s AND 0xFFFF) + drop_bit 16 (s :: u32)) < unat s"
  "unat ((s AND 0xFFFF) + drop_bit 16 s) = unat s mod 65536 + unat s div 65536"
proof -
  have "(0xFFFF :: u32) = mask 16" by (simp add: mask_eq_exp_minus_1)
  then have "unat (s AND 0xFFFF) = unat s mod 65536"
    by (simp only: take_bit_eq_mask [symmetric] unsigned_take_bit_eq) (simp add: take_bit_eq_mod)
  moreover have d: "unat (drop_bit 16 s) = unat s div 65536"
    by (rule unat_drop16)
  moreover have "unat s div 65536 < 65536" using unat_lt_u32 [of s] by (simp add: div_less_iff_less_mult)
  moreover have "unat s mod 65536 < 65536" by simp
  ultimately show e: "unat ((s AND 0xFFFF) + drop_bit 16 s) = unat s mod 65536 + unat s div 65536"
    by (simp add: unat_plus_u32)
  assume "drop_bit 16 s \<noteq> 0"
  then have "0 < unat s div 65536" using d by (metis neq0_conv unsigned_eq_0_iff)
  moreover have "unat s = 65536 * (unat s div 65536) + unat s mod 65536" by simp
  ultimately show "unat ((s AND 0xFFFF) + drop_bit 16 s) < unat s" using e by linarith
qed

function cksum_fold :: "u32 \<Rightarrow> u32" where
  "cksum_fold acc = (if drop_bit 16 acc \<noteq> 0 then cksum_fold ((acc AND 0xFFFF) + drop_bit 16 acc) else acc)"
  by pat_completeness auto
termination
  by (relation "measure unat") (auto intro: fold_measure(1))

declare cksum_fold.simps [simp del]

definition calculate_checksum :: "mem \<Rightarrow> nat \<Rightarrow> int \<Rightarrow> u16" where
  "calculate_checksum m p count = ucast (NOT (cksum_fold (cksum_words m p (nat count) 0)))"

section \<open>The checksum against the one's complement sum\<close>

text \<open>The words a checksum runs over, an odd last byte being a word of its own.\<close>

fun ck_words :: "mem \<Rightarrow> nat \<Rightarrow> nat \<Rightarrow> nat list" where
  "ck_words m p n =
     (if n > 1 then unat (rd16 m p) # ck_words m (p + 2) (n - 2) else if n > 0 then [unat (m p)] else [])"

declare ck_words.simps [simp del]

text \<open>One's complement addition of 16-bit words: the carry out goes back in.\<close>

definition oc_add :: "nat \<Rightarrow> nat \<Rightarrow> nat" where
  "oc_add a b = (if a + b < 65536 then a + b else a + b - 65535)"

text \<open>The closed form of folding: the residue modulo 65535, with 65535 for the nonzero multiples.\<close>

definition oc_norm :: "nat \<Rightarrow> nat" where
  "oc_norm n = (if n = 0 then 0 else (n - 1) mod 65535 + 1)"

lemma oc_norm_le: "oc_norm n \<le> 65535"
proof -
  have "(n - 1) mod 65535 < 65535" by simp
  then show ?thesis unfolding oc_norm_def by (auto simp del: One_nat_def)
qed

lemma oc_norm_small [simp]: "n \<le> 65535 \<Longrightarrow> oc_norm n = n"
  by (simp add: oc_norm_def)

lemma oc_norm_shift: "0 < n \<Longrightarrow> oc_norm (n + 65535 * k) = oc_norm n"
proof -
  assume "0 < n"
  then have "n + 65535 * k - 1 = (n - 1) + 65535 * k" by simp
  then have "(n + 65535 * k - 1) mod 65535 = (n - 1) mod 65535" by (metis mod_mult_self2)
  then show ?thesis using \<open>0 < n\<close> by (simp add: oc_norm_def)
qed

lemma oc_norm_add: "oc_norm (oc_norm a + b) = oc_norm (a + b)"
proof (cases "a = 0")
  case False
  then have "a + b = (oc_norm a + b) + 65535 * ((a - 1) div 65535)"
    using div_mult_mod_eq [of "a - 1" 65535] by (simp add: oc_norm_def)
  moreover have "0 < oc_norm a + b" using False by (simp add: oc_norm_def)
  ultimately show ?thesis using oc_norm_shift by metis
qed (simp add: oc_norm_def)

lemma oc_norm_full: "oc_norm (s + (65535 - oc_norm s)) = 65535"
  using oc_norm_add [of s "65535 - oc_norm s"] oc_norm_le [of s] by simp

lemma oc_add_norm: "a \<le> 65535 \<Longrightarrow> b \<le> 65535 \<Longrightarrow> oc_add a b = oc_norm (a + b)"
  using oc_norm_shift [of "a + b - 65535" 1] by (auto simp: oc_add_def)

lemma foldl_oc_add:
  "\<forall>w \<in> set ws. w \<le> 65535 \<Longrightarrow> a \<le> 65535 \<Longrightarrow> foldl oc_add a ws = oc_norm (a + sum_list ws)"
proof (induction ws arbitrary: a)
  case (Cons w ws)
  then have "foldl oc_add a (w # ws) = oc_norm (oc_norm (a + w) + sum_list ws)"
    using Cons.IH [of "oc_norm (a + w)"] oc_norm_le by (simp add: oc_add_norm)
  then show ?case by (simp add: oc_norm_add add.assoc)
qed simp

lemma ck_words_le: "w \<in> set (ck_words m p n) \<Longrightarrow> w \<le> 65535"
proof (induction m p n rule: ck_words.induct)
  case (1 m p n)
  have "unat (rd16 m p) \<le> 65535" "unat (m p) \<le> 65535"
    using unat_lt_u16 [of "rd16 m p"] unat_lt_u8 [of "m p"] by linarith+
  with 1 show ?case by (subst (asm) ck_words.simps) (auto split: if_splits)
qed

lemma ck_words_sum_le: "sum_list (ck_words m p n) \<le> 65535 * ((n + 1) div 2)"
proof (induction m p n rule: ck_words.induct)
  case (1 m p n)
  have b: "unat (rd16 m p) \<le> 65535" "unat (m p) \<le> 65535"
    using unat_lt_u16 [of "rd16 m p"] unat_lt_u8 [of "m p"] by linarith+
  consider "n = 0" | "n = 1" | "n > 1" by linarith
  then show ?case
  proof cases
    case 3
    then have "(n + 1) div 2 = Suc ((n - 2 + 1) div 2)" by presburger
    then show ?thesis using 1 [OF 3] b 3 by (subst ck_words.simps) simp
  qed (use b in \<open>simp_all add: ck_words.simps\<close>)
qed

lemma unat_cksum_words:
  "unat acc + sum_list (ck_words m p n) < 4294967296 \<Longrightarrow>
   unat (cksum_words m p n acc) = unat acc + sum_list (ck_words m p n)"
proof (induction m p n acc rule: cksum_words.induct)
  case (1 m p n acc)
  have u: "unat (ucast (rd16 m p) :: u32) = unat (rd16 m p)" "unat (ucast (m p) :: u32) = unat (m p)"
    using unat_lt_u16 [of "rd16 m p"] unat_lt_u8 [of "m p"]
    by (simp_all add: unsigned_ucast_eq take_bit_eq_mod del: unat_lt_u16 unat_lt_u8)
  consider "n = 0" | "n = 1" | "n > 1" by linarith
  then show ?case
  proof cases
    case 3
    with "1.prems" have s: "unat acc + unat (rd16 m p) + sum_list (ck_words m (p + 2) (n - 2)) < 4294967296"
      by (subst (asm) ck_words.simps) (simp add: add.assoc)
    then have "unat (acc + ucast (rd16 m p)) = unat acc + unat (rd16 m p)"
      using u by (simp add: unat_plus_u32)
    then show ?thesis using "1.IH" [OF 3] s 3
      by (subst cksum_words.simps, subst ck_words.simps) simp
  next
    case 2
    with "1.prems" have "unat acc + unat (m p) < 4294967296" by (subst (asm) ck_words.simps) simp
    then show ?thesis using 2 u by (simp add: cksum_words.simps ck_words.simps unat_plus_u32)
  qed (simp add: cksum_words.simps ck_words.simps)
qed

lemma unat_cksum_fold: "unat (cksum_fold s) = oc_norm (unat s)"
proof (induction s rule: cksum_fold.induct)
  case (1 s)
  have d: "unat (drop_bit 16 s) = unat s div 65536"
    by (rule unat_drop16)
  show ?case
  proof (cases "drop_bit 16 s \<noteq> 0")
    case True
    have dm: "unat s = 65536 * (unat s div 65536) + unat s mod 65536" by simp
    have "0 < unat s div 65536" using d True by (metis neq0_conv unsigned_eq_0_iff)
    moreover have "unat s = (unat s mod 65536 + unat s div 65536) + 65535 * (unat s div 65536)"
      using dm by linarith
    ultimately have "oc_norm (unat s) = oc_norm (unat s mod 65536 + unat s div 65536)"
      using oc_norm_shift [of "unat s mod 65536 + unat s div 65536" "unat s div 65536"] by simp
    then show ?thesis using True "1.IH" [OF True] fold_measure(2) [of s]
      by (subst cksum_fold.simps) simp
  next
    case False
    then have "unat s div 65536 = 0" using d by simp
    then have "unat s \<le> 65535" by (simp add: div_eq_0_iff)
    then show ?thesis using False by (subst cksum_fold.simps) simp
  qed
qed

lemma unat_checksum:
  assumes "0 \<le> count" and "count \<le> 131072"
  shows "unat (calculate_checksum m p count) = 65535 - oc_norm (sum_list (ck_words m p (nat count)))"
proof -
  let ?s = "cksum_fold (cksum_words m p (nat count) 0)"
  have "(nat count + 1) div 2 \<le> 65536" using assms by linarith
  then have "sum_list (ck_words m p (nat count)) < 4294967296"
    using ck_words_sum_le [of m p "nat count"] by linarith
  then have s: "unat ?s = oc_norm (sum_list (ck_words m p (nat count)))"
    using unat_cksum_words [of 0 m p "nat count"] by (simp add: unat_cksum_fold)
  have "NOT ?s = - 1 - ?s" by (simp add: not_eq_complement)
  also have "unat \<dots> = 4294967295 - unat ?s"
    by (subst unat_minus_u32) (simp_all add: unsigned_minus_1_eq_mask mask_eq_exp_minus_1)
  finally have "unat (NOT ?s) = 4294967295 - unat ?s" .
  then have "unat (calculate_checksum m p count) = (4294967295 - unat ?s) mod 65536"
    by (simp add: calculate_checksum_def unsigned_ucast_eq take_bit_eq_mod)
  also have "4294967295 - unat ?s = 65536 * 65535 + (65535 - unat ?s)" using s oc_norm_le by simp
  finally have "unat (calculate_checksum m p count) = (65536 * 65535 + (65535 - unat ?s)) mod 65536" .
  moreover have "65535 - unat ?s < 65536" by simp
  ultimately show ?thesis using s by (metis mod_less mod_mult_self4)
qed

text \<open>
  C32: the checksum routine, which postpones all carries to the end, computes the complement
  of the one's complement sum of RFC 1071, whatever the data, for every length up to 128 KB;
  an odd last byte counts as the low half of a word.
\<close>

theorem calculate_checksum_rfc1071:
  assumes "0 \<le> count" and "count \<le> 131072"
  shows "unat (calculate_checksum m p count) = 65535 - foldl oc_add 0 (ck_words m p (nat count))"
  using unat_checksum [OF assms] foldl_oc_add [of "ck_words m p (nat count)" 0] ck_words_le by simp

theorem calculate_checksum_rfc1071_witness:
  "unat (calculate_checksum (buf_mem [0x45, 0, 0xFF, 0xFF, 1]) 0 5) = 65535 - 0x46"
proof -
  have "rd16 (buf_mem [0x45, 0, 0xFF, 0xFF, 1]) 0 = 0x45"
      "rd16 (buf_mem [0x45, 0, 0xFF, 0xFF, 1]) (Suc (Suc 0)) = 0xFFFF"
      "buf_mem [0x45, 0, 0xFF, 0xFF, 1] (Suc (Suc (Suc (Suc 0)))) = 1"
    by (simp_all add: rd16_def buf_mem_def wr_bytes_def le16_def push_bit_eq_mult)
  then have "ck_words (buf_mem [0x45, 0, 0xFF, 0xFF, 1]) 0 5 = [0x45, 0xFFFF, 1]"
    by (simp add: ck_words.simps)
  then show ?thesis using calculate_checksum_rfc1071 [of 5 "buf_mem [0x45, 0, 0xFF, 0xFF, 1]" 0]
    by (simp add: oc_add_def)
qed

section \<open>Verification of a filled-in checksum\<close>

lemma ck_words_cong: "(\<And>i. p \<le> i \<Longrightarrow> i < p + n \<Longrightarrow> m i = m' i) \<Longrightarrow> ck_words m p n = ck_words m' p n"
proof (induction m p n rule: ck_words.induct)
  case (1 m p n)
  consider "n = 0" | "n = 1" | "n > 1" by linarith
  then show ?case
  proof cases
    case 3
    then have "ck_words m (p + 2) (n - 2) = ck_words m' (p + 2) (n - 2)" using "1.IH" "1.prems" by simp
    moreover have "rd16 m p = rd16 m' p" using "1.prems" 3 by (simp add: rd16_def)
    ultimately show ?thesis using 3 by (simp add: ck_words.simps [of _ p n])
  qed (use "1.prems" in \<open>simp_all add: ck_words.simps\<close>)
qed

lemma ck_sum_wr16:
  "2 * k + 1 < n \<Longrightarrow> sum_list (ck_words (wr16 (p + 2 * k) v m) p n) =
     unat v + sum_list (ck_words (wr16 (p + 2 * k) 0 m) p n)"
proof (induction k arbitrary: p n)
  case 0
  have "ck_words (wr16 p v m) (p + 2) (n - 2) = ck_words (wr16 p 0 m) (p + 2) (n - 2)"
    by (rule ck_words_cong) (simp add: wr16_out)
  then show ?case using 0 by (simp add: ck_words.simps [of _ p n])
next
  case (Suc k)
  have "rd16 (wr16 (p + 2 * Suc k) w m) p = rd16 m p" for w by (rule rd16_wr16_out) simp
  then show ?case using Suc.IH [of "n - 2" "p + 2"] Suc.prems by (simp add: ck_words.simps [of _ p n])
qed

lemma checksum_zero_iff:
  assumes "0 \<le> count" and "count \<le> 131072"
  shows "calculate_checksum m p count = 0 \<longleftrightarrow> oc_norm (sum_list (ck_words m p (nat count))) = 65535"
  using unat_checksum [OF assms, of m p] oc_norm_le [of "sum_list (ck_words m p (nat count))"]
  by (auto simp: unat_eq_zero [symmetric] simp del: unat_eq_zero)

text \<open>The field at \<open>q\<close> was zero while the checksum was computed and holds it afterwards.\<close>

lemma checksum_filled:
  assumes "q = p + 2 * k" and "2 * int k + 1 < count" and "count \<le> 131072"
  shows "calculate_checksum (wr16 q (calculate_checksum (wr16 q 0 m) p count) m) p count = 0"
proof -
  let ?S = "sum_list (ck_words (wr16 q 0 m) p (nat count))"
  have c: "0 \<le> count" and k: "2 * k + 1 < nat count" using assms(2) by linarith+
  have "sum_list (ck_words (wr16 q (calculate_checksum (wr16 q 0 m) p count) m) p (nat count)) =
      ?S + (65535 - oc_norm ?S)"
    unfolding assms(1) ck_sum_wr16 [OF k, of p "calculate_checksum _ p count"]
    using unat_checksum [OF c assms(3)] by simp
  then show ?thesis by (simp add: checksum_zero_iff [OF c assms(3)] oc_norm_full)
qed

lemma wr16_wr16 [simp]: "wr16 q v (wr16 q w m) = wr16 q v m"
  by (auto simp: wr16_def wr_bytes_def)

lemma checksum_cong:
  "(\<And>i. p \<le> i \<Longrightarrow> i < p + nat count \<Longrightarrow> m i = m' i) \<Longrightarrow> 0 \<le> count \<Longrightarrow> count \<le> 131072 \<Longrightarrow>
   calculate_checksum m p count = calculate_checksum m' p count"
  using ck_words_cong [of p "nat count" m m'] unat_checksum [of count m p] unat_checksum [of count m' p]
  by (metis word_unat_eq_iff)

section \<open>Reads after writes\<close>

named_theorems packet_simps \<open>reading packet fields after writing others\<close>

lemma read_bytes [packet_simps]:
  "n = length xs \<Longrightarrow> rd_bytes (wr_bytes p xs m) p n = xs"
  "q + n \<le> p \<or> p + length xs \<le> q \<Longrightarrow> rd_bytes (wr_bytes p xs m) q n = rd_bytes m q n"
  "q + n \<le> p \<or> p + 2 \<le> q \<Longrightarrow> rd_bytes (wr16 p v m) q n = rd_bytes m q n"
  "q + n \<le> p \<or> p + 1 \<le> q \<Longrightarrow> rd_bytes (wr8 p b m) q n = rd_bytes m q n"
  by (simp, auto intro: rd_bytes_out simp: wr16_def wr8_def)

lemma read_byte [packet_simps]:
  "wr8 p b m p = b" "q \<noteq> p \<Longrightarrow> wr8 p b m q = m q"
  "q < p \<or> p + 2 \<le> q \<Longrightarrow> wr16 p v m q = m q"
  "q < p \<or> p + length xs \<le> q \<Longrightarrow> wr_bytes p xs m q = m q"
  by (auto simp: wr8_def wr16_def wr_bytes_def)

lemma read_word [packet_simps]:
  "rd16 (wr16 p v m) p = v" "q + 2 \<le> p \<or> p + 2 \<le> q \<Longrightarrow> rd16 (wr16 p v m) q = rd16 m q"
  "q + 2 \<le> p \<or> p + length xs \<le> q \<Longrightarrow> rd16 (wr_bytes p xs m) q = rd16 m q"
  "q + 2 \<le> p \<or> p + 1 \<le> q \<Longrightarrow> rd16 (wr8 p b m) q = rd16 m q"
  by (auto simp: rd16_wr16_out) (auto simp: rd16_def wr8_def wr_bytes_def)

lemma wr16_same: "rd16 m q = v \<Longrightarrow> wr16 q v m = m"
proof
  fix i
  assume v: "rd16 m q = v"
  have "ucast (le16 a b) = a" "ucast (drop_bit 8 (le16 a b)) = b" for a b :: u8
    by (auto simp: le16_def bit_eq_iff bit_ucast_iff bit_or_iff bit_push_bit_iff bit_drop_bit_eq dest: bit_imp_le_length)
  then show "wr16 q v m i = m i"
    using v wr16_at [of q v m] wr16_out [of i q v m] by (cases "i = q \<or> i = q + 1") (auto simp: rd16_def)
qed

text \<open>A packet as the receiver sees it: the bytes that were sent.\<close>

lemma buf_mem_rd: "i < n \<Longrightarrow> buf_mem (rd_bytes m 0 n) i = m i"
  by (simp add: buf_mem_def wr_bytes_def)

lemma received_reads:
  "p + k \<le> n \<Longrightarrow> rd_bytes (buf_mem (rd_bytes m 0 n)) p k = rd_bytes m p k"
  "p + 2 \<le> n \<Longrightarrow> rd16 (buf_mem (rd_bytes m 0 n)) p = rd16 m p"
  by (auto intro: nth_equalityI simp: buf_mem_rd rd16_def)

lemma rd16_of_bytes: "rd_bytes m p k = xs \<Longrightarrow> i + 1 < k \<Longrightarrow> rd16 m (p + i) = le16 (xs ! i) (xs ! (i + 1))"
  by (auto simp: rd16_def)

end
