(* ===== verification/Ring.thy ===== *)
theory Ring
  imports Inet
begin

text \<open>
  The receive buffer of a socket, a ring of 4096 bytes (\<open>include/socket.h\<close>): bytes are stored
  at the head and taken at the tail, both modulo the buffer size. The ring is shown to be a
  byte queue; the contract is the locale \<open>byte_fifo\<close>, in which the framing of datagrams is
  proved once.
\<close>

definition SOCKET_BUFFER_SIZE :: u32 where "SOCKET_BUFFER_SIZE = 4096"

record ring =
  rbuf :: mem
  rhead :: u32
  rtail :: u32
  rlen :: u32

text \<open>\<open>s->buffer[s->buffer_head] = b; s->buffer_head = (s->buffer_head + 1) % SOCKET_BUFFER_SIZE\<close>.\<close>

definition ring_push :: "u8 \<Rightarrow> ring \<Rightarrow> ring" where
  "ring_push b r = r\<lparr>rbuf := (rbuf r)(unat (rhead r) := b), rhead := (rhead r + 1) mod SOCKET_BUFFER_SIZE\<rparr>"

text \<open>\<open>b = s->buffer[s->buffer_tail]; s->buffer_tail = (s->buffer_tail + 1) % SOCKET_BUFFER_SIZE\<close>.\<close>

definition ring_pop :: "ring \<Rightarrow> u8 \<times> ring" where
  "ring_pop r = (rbuf r (unat (rtail r)), r\<lparr>rtail := (rtail r + 1) mod SOCKET_BUFFER_SIZE\<rparr>)"

definition ring_put :: "u8 list \<Rightarrow> ring \<Rightarrow> ring" where
  "ring_put xs r = (let r' = fold ring_push xs r in r'\<lparr>rlen := rlen r' + of_nat (length xs)\<rparr>)"

fun ring_take :: "nat \<Rightarrow> ring \<Rightarrow> u8 list \<times> ring" where
  "ring_take 0 r = ([], r)"
| "ring_take (Suc n) r = (let (b, r1) = ring_pop r; (bs, r2) = ring_take n r1 in (b # bs, r2))"

definition ring_get :: "nat \<Rightarrow> ring \<Rightarrow> u8 list \<times> ring" where
  "ring_get n r = (let (bs, r') = ring_take n r in (bs, r'\<lparr>rlen := rlen r' - of_nat n\<rparr>))"

section \<open>The queue a ring holds\<close>

definition ring_ok :: "ring \<Rightarrow> bool" where
  "ring_ok r \<longleftrightarrow> unat (rtail r) < 4096 \<and> unat (rlen r) \<le> 4096 \<and> unat (rhead r) = (unat (rtail r) + unat (rlen r)) mod 4096"

definition ring_list :: "ring \<Rightarrow> u8 list" where
  "ring_list r = map (\<lambda>i. rbuf r ((unat (rtail r) + i) mod 4096)) [0..<unat (rlen r)]"

lemma length_ring_list [simp]: "length (ring_list r) = unat (rlen r)"
  by (simp add: ring_list_def)

lemma unat_step: "unat x < 4096 \<Longrightarrow> unat ((x + 1) mod SOCKET_BUFFER_SIZE) = (unat x + 1) mod 4096"
  by (simp add: SOCKET_BUFFER_SIZE_def unat_mod unat_word_ariths)

lemma fold_push_all:
  assumes "unat (rhead r) < 4096" and "length xs \<le> 4096"
  shows "rtail (fold ring_push xs r) = rtail r \<and> rlen (fold ring_push xs r) = rlen r \<and>
    unat (rhead (fold ring_push xs r)) = (unat (rhead r) + length xs) mod 4096 \<and>
    (\<forall>k < 4096. rbuf (fold ring_push xs r) ((unat (rhead r) + k) mod 4096) =
       (if k < length xs then xs ! k else rbuf r ((unat (rhead r) + k) mod 4096)))"
  using assms
proof (induction xs arbitrary: r)
  case (Cons x xs)
  let ?r = "ring_push x r"
  have h: "unat (rhead ?r) = (unat (rhead r) + 1) mod 4096" using Cons.prems by (simp add: ring_push_def unat_step)
  have l: "length xs \<le> 4096" using Cons.prems by simp
  have IH: "rtail (fold ring_push xs ?r) = rtail ?r \<and> rlen (fold ring_push xs ?r) = rlen ?r \<and>
      unat (rhead (fold ring_push xs ?r)) = (unat (rhead ?r) + length xs) mod 4096"
    "\<And>k. k < 4096 \<Longrightarrow> rbuf (fold ring_push xs ?r) ((unat (rhead ?r) + k) mod 4096) =
       (if k < length xs then xs ! k else rbuf ?r ((unat (rhead ?r) + k) mod 4096))"
    using Cons.IH [of ?r] l h by simp_all
  have "rbuf (fold ring_push xs ?r) ((unat (rhead r) + k) mod 4096) =
      (if k < length (x # xs) then (x # xs) ! k else rbuf r ((unat (rhead r) + k) mod 4096))" if k: "k < 4096" for k
  proof (cases k)
    case 0
    have "unat (rhead r) mod 4096 = (unat (rhead ?r) + 4095) mod 4096" using h by (simp add: mod_simps)
    moreover have "\<not> 4095 < length xs" using Cons.prems by simp
    ultimately have "rbuf (fold ring_push xs ?r) (unat (rhead r) mod 4096) = rbuf ?r (unat (rhead r) mod 4096)"
      using IH(2) [of 4095] by simp
    then show ?thesis using 0 Cons.prems by (simp add: ring_push_def)
  next
    case (Suc j)
    have e: "(unat (rhead r) + k) mod 4096 = (unat (rhead ?r) + j) mod 4096" using h Suc by (simp add: mod_simps)
    have "(unat (rhead r) + k) mod 4096 \<noteq> unat (rhead r)"
      using Suc k Cons.prems by (auto simp: mod_if split: if_splits)
    then have "rbuf ?r ((unat (rhead r) + k) mod 4096) = rbuf r ((unat (rhead r) + k) mod 4096)"
      by (simp add: ring_push_def)
    then show ?thesis using IH(2) [of j] Suc k e by simp
  qed
  moreover have "rtail ?r = rtail r" "rlen ?r = rlen r" by (simp_all add: ring_push_def)
  moreover have "(unat (rhead ?r) + length xs) mod 4096 = (unat (rhead r) + length (x # xs)) mod 4096"
    using h by (simp add: mod_simps)
  ultimately show ?case using IH(1) by simp
qed simp

lemma fold_push:
  assumes "unat (rhead r) < 4096" and "length xs \<le> 4096"
  shows "rtail (fold ring_push xs r) = rtail r" "rlen (fold ring_push xs r) = rlen r"
    "unat (rhead (fold ring_push xs r)) = (unat (rhead r) + length xs) mod 4096"
    "k < 4096 \<Longrightarrow> rbuf (fold ring_push xs r) ((unat (rhead r) + k) mod 4096) =
       (if k < length xs then xs ! k else rbuf r ((unat (rhead r) + k) mod 4096))"
  using fold_push_all [OF assms] by blast+

lemma ring_put_ok:
  assumes ok: "ring_ok r" and room: "unat (rlen r) + length xs \<le> 4096"
  shows "ring_ok (ring_put xs r)" "ring_list (ring_put xs r) = ring_list r @ xs"
proof -
  have h: "unat (rhead r) < 4096" and he: "unat (rhead r) = (unat (rtail r) + unat (rlen r)) mod 4096"
    using ok by (simp_all add: ring_ok_def)
  have l: "length xs \<le> 4096" using room by simp
  note f = fold_push [OF h l]
  have "unat (of_nat (length xs) :: u32) = length xs" using l by (intro unat_of_nat_u32) simp
  then have len: "unat (rlen (ring_put xs r)) = unat (rlen r) + length xs"
    using room f(2) by (simp add: ring_put_def unat_plus_u32)
  have sel: "rtail (ring_put xs r) = rtail r" "rhead (ring_put xs r) = rhead (fold ring_push xs r)"
      "rbuf (ring_put xs r) = rbuf (fold ring_push xs r)"
    using f(1) by (simp_all add: ring_put_def Let_def)
  show "ring_ok (ring_put xs r)"
    using ok room len f(3) he by (simp add: ring_ok_def sel mod_simps add.assoc)
  show "ring_list (ring_put xs r) = ring_list r @ xs"
  proof (rule nth_equalityI)
    fix i assume "i < length (ring_list (ring_put xs r))"
    then have i: "i < unat (rlen r) + length xs" by (simp add: len)
    have lhs: "ring_list (ring_put xs r) ! i = rbuf (fold ring_push xs r) ((unat (rtail r) + i) mod 4096)"
      using i by (simp add: ring_list_def len sel)
    show "ring_list (ring_put xs r) ! i = (ring_list r @ xs) ! i"
    proof (cases "i < unat (rlen r)")
      case True
      define k where "k = 4096 - unat (rlen r) + i"
      have k: "k < 4096" "\<not> k < length xs" using True room by (auto simp: k_def)
      have "(unat (rhead r) + k) mod 4096 = (unat (rtail r) + unat (rlen r) + k) mod 4096"
        using he by (simp add: mod_simps)
      also have "unat (rtail r) + unat (rlen r) + k = (unat (rtail r) + i) + 4096"
        using room by (simp add: k_def)
      finally have "(unat (rhead r) + k) mod 4096 = (unat (rtail r) + i) mod 4096" by simp
      then show ?thesis using f(4) [OF k(1)] k(2) True lhs by (simp add: nth_append) (simp add: ring_list_def)
    next
      case False
      define k where "k = i - unat (rlen r)"
      have k: "k < 4096" "k < length xs" using False i room by (auto simp: k_def)
      have "(unat (rhead r) + k) mod 4096 = (unat (rtail r) + (unat (rlen r) + k)) mod 4096"
        using he by (simp add: mod_simps add.assoc)
      also have "unat (rlen r) + k = i" using False by (simp add: k_def)
      finally have "(unat (rhead r) + k) mod 4096 = (unat (rtail r) + i) mod 4096" .
      then show ?thesis using f(4) [OF k(1)] k(2) False lhs by (simp add: nth_append k_def)
    qed
  qed (simp add: len)
qed

lemma ring_take_all:
  assumes "unat (rtail r) < 4096"
  shows "fst (ring_take n r) = map (\<lambda>i. rbuf r ((unat (rtail r) + i) mod 4096)) [0..<n] \<and>
    unat (rtail (snd (ring_take n r))) = (unat (rtail r) + n) mod 4096 \<and>
    rbuf (snd (ring_take n r)) = rbuf r \<and> rhead (snd (ring_take n r)) = rhead r \<and> rlen (snd (ring_take n r)) = rlen r"
  using assms
proof (induction n arbitrary: r)
  case (Suc n)
  let ?r = "snd (ring_pop r)"
  have t: "unat (rtail ?r) = (unat (rtail r) + 1) mod 4096" using Suc.prems by (simp add: ring_pop_def unat_step)
  then have t': "unat (rtail ?r) < 4096" by simp
  have s: "rbuf ?r = rbuf r" "rhead ?r = rhead r" "rlen ?r = rlen r" by (simp_all add: ring_pop_def)
  have u: "ring_take (Suc n) r = (fst (ring_pop r) # fst (ring_take n ?r), snd (ring_take n ?r))"
    by (simp add: split_def Let_def)
  have m: "(unat (rtail ?r) + i) mod 4096 = (unat (rtail r) + Suc i) mod 4096" for i using t by (simp add: mod_simps)
  have up: "[0..<Suc n] = 0 # map Suc [0..<n]" by (simp add: upt_conv_Cons map_Suc_upt del: upt_Suc)
  have "fst (ring_pop r) = rbuf r (unat (rtail r) mod 4096)" using Suc.prems by (simp add: ring_pop_def)
  then show ?case unfolding u up using Suc.IH [OF t'] by (simp add: s m comp_def del: upt_Suc)
qed simp

lemmas ring_take_spec = ring_take_all [THEN conjunct1]
  ring_take_all [THEN conjunct2, THEN conjunct1] ring_take_all [THEN conjunct2, THEN conjunct2, THEN conjunct1]
  ring_take_all [THEN conjunct2, THEN conjunct2, THEN conjunct2, THEN conjunct1]
  ring_take_all [THEN conjunct2, THEN conjunct2, THEN conjunct2, THEN conjunct2]

lemma ring_get_ok:
  assumes ok: "ring_ok r" and n: "n \<le> unat (rlen r)"
  shows "fst (ring_get n r) = take n (ring_list r)" "ring_ok (snd (ring_get n r))"
    "ring_list (snd (ring_get n r)) = drop n (ring_list r)"
proof -
  have t: "unat (rtail r) < 4096" using ok by (simp add: ring_ok_def)
  note f = ring_take_spec [OF t, of n]
  have l: "unat (rlen r) \<le> 4096" using ok by (simp add: ring_ok_def)
  have un: "unat (of_nat n :: u32) = n" using n l by (intro unat_of_nat_u32) simp
  have len: "unat (rlen (snd (ring_get n r))) = unat (rlen r) - n"
    using un n f(5) by (simp add: ring_get_def split_def Let_def unat_minus_u32 word_le_nat_alt)
  have sel: "rtail (snd (ring_get n r)) = rtail (snd (ring_take n r))" "rhead (snd (ring_get n r)) = rhead r"
      "rbuf (snd (ring_get n r)) = rbuf r"
    using f by (simp_all add: ring_get_def split_def Let_def)
  show "fst (ring_get n r) = take n (ring_list r)"
    using f(1) n by (simp add: ring_get_def split_def Let_def ring_list_def take_map)
  have "((unat (rtail r) + n) mod 4096 + (unat (rlen r) - n)) mod 4096 = (unat (rtail r) + unat (rlen r)) mod 4096"
    using n by (simp only: mod_add_left_eq) simp
  then show "ring_ok (snd (ring_get n r))"
    using ok l unfolding ring_ok_def sel len f(2) by simp
  show "ring_list (snd (ring_get n r)) = drop n (ring_list r)"
    using f(2) n by (intro nth_equalityI) (simp_all add: len ring_list_def sel mod_simps add.assoc drop_map)
qed

section \<open>The contract of a byte queue\<close>

locale byte_fifo =
  fixes put :: "u8 list \<Rightarrow> 'r \<Rightarrow> 'r"
    and get :: "nat \<Rightarrow> 'r \<Rightarrow> u8 list \<times> 'r"
    and inv :: "'r \<Rightarrow> bool"
    and held :: "'r \<Rightarrow> u8 list"
    and cap :: nat
  assumes put_held: "\<lbrakk>inv r; length (held r) + length xs \<le> cap\<rbrakk> \<Longrightarrow> inv (put xs r) \<and> held (put xs r) = held r @ xs"
    and get_held: "\<lbrakk>inv r; n \<le> length (held r)\<rbrakk> \<Longrightarrow>
      fst (get n r) = take n (held r) \<and> inv (snd (get n r)) \<and> held (snd (get n r)) = drop n (held r)"
begin

text \<open>A message of a header and a body comes out as it went in, behind what was queued before.\<close>

lemma put_two:
  assumes "inv r" and "length (held r) + length h + length d \<le> cap"
  shows "inv (put d (put h r)) \<and> held (put d (put h r)) = held r @ h @ d"
  using put_held [OF assms(1), of h] put_held [of "put h r" d] assms by simp

lemma get_two:
  assumes "inv r" and "held r = h @ d @ rest"
  shows "fst (get (length h) r) = h \<and> fst (get (length d) (snd (get (length h) r))) = d \<and>
    inv (snd (get (length d) (snd (get (length h) r)))) \<and> held (snd (get (length d) (snd (get (length h) r)))) = rest"
  using get_held [OF assms(1), of "length h"] get_held [of "snd (get (length h) r)" "length d"] assms(2) by simp

end

interpretation sr: byte_fifo ring_put ring_get ring_ok ring_list 4096
  by unfold_locales (use ring_put_ok ring_get_ok in auto)

section \<open>The loops of the clients\<close>

lemma fold_push_len [simp]: "rlen (fold ring_push xs r) = rlen r"
  by (induction xs arbitrary: r) (simp_all add: ring_push_def)

lemma fold_push_set_len: "fold ring_push xs (r\<lparr>rlen := n\<rparr>) = (fold ring_push xs r)\<lparr>rlen := n\<rparr>"
proof (induction xs arbitrary: r)
  case (Cons x xs)
  have "ring_push x (r\<lparr>rlen := n\<rparr>) = (ring_push x r)\<lparr>rlen := n\<rparr>" by (simp add: ring_push_def)
  then show ?case using Cons by simp
qed simp

text \<open>Counting each byte and counting all of them at the end are the same.\<close>

lemma fold_count: "fold (\<lambda>b r. (ring_push b r)\<lparr>rlen := rlen r + 1\<rparr>) xs r = ring_put xs r"
proof (induction xs arbitrary: r)
  case (Cons x xs)
  have "rlen (ring_push x r) = rlen r" by (simp add: ring_push_def)
  then show ?case using Cons by (simp add: ring_put_def Let_def fold_push_set_len algebra_simps)
qed (simp add: ring_put_def)

lemma fold_push_two:
  "(let r' = fold ring_push ys (fold ring_push xs r) in r'\<lparr>rlen := rlen r' + (of_nat (length xs) + of_nat (length ys))\<rparr>) =
   ring_put (xs @ ys) r"
  by (simp add: ring_put_def Let_def)

lemma ring_take_set_len:
  "ring_take n (r\<lparr>rlen := x\<rparr>) = (fst (ring_take n r), (snd (ring_take n r))\<lparr>rlen := x\<rparr>)"
proof (induction n arbitrary: r)
  case (Suc n)
  have "ring_pop (r\<lparr>rlen := x\<rparr>) = (fst (ring_pop r), (snd (ring_pop r))\<lparr>rlen := x\<rparr>)" by (simp add: ring_pop_def)
  then show ?case using Suc by (simp add: split_def Let_def)
qed simp

lemma ring_take_len [simp]: "rlen (snd (ring_take n r)) = rlen r"
proof (induction n arbitrary: r)
  case (Suc n)
  have "rlen (snd (ring_pop r)) = rlen r" by (simp add: ring_pop_def)
  then show ?case using Suc by (simp add: split_def Let_def)
qed simp

text \<open>Reading two pieces and subtracting both lengths at the end.\<close>

lemma take_two:
  "fst (ring_take m (snd (ring_take n r))) = fst (ring_get m (snd (ring_get n r)))"
  "(snd (ring_take m (snd (ring_take n r))))\<lparr>rlen := rlen r - (of_nat n + of_nat m)\<rparr> =
     snd (ring_get m (snd (ring_get n r)))"
  by (simp_all add: ring_get_def split_def Let_def ring_take_set_len diff_diff_eq)

end
