(* ===== verification/Drivers.thy ===== *)
theory Drivers
  imports Ports Ring
begin

text \<open>
  Interrupt routing and the small devices: the handler table and interrupt controller of
  \<open>kernel/core/irq.c\<close>, the timer and clock of \<open>kernel/drivers/timer.c\<close>, the keyboard
  (\<open>kernel/drivers/keyboard.c\<close>) and the mouse (\<open>kernel/drivers/mouse.c\<close>). Characters for
  the shell and pointer events for the window system are recorded in the order in which they are
  handed over.
\<close>

section \<open>Interrupt handlers and the interrupt controller\<close>

datatype irq_fun = No_handler | Timer_handler | Keyboard_handler | Mouse_handler | Page_fault_handler | Rtl8139_handler | E1000_handler

record drivers = ports +
  irq_routines :: "irq_fun list"
  tick_count :: u32
  timer_freq :: u32
  shift_pressed :: int
  kbd_buffer :: "u8 list"
  kbd_buf_head :: nat
  kbd_buf_tail :: nat
  shell_in :: "u8 list"
  mouse_cycle :: u8
  mouse_byte :: "u8 list"
  mx :: int
  my :: int
  mbuttons :: u8
  gui_events :: "(int \<times> int \<times> u8) list"

definition irq_install_handler :: "nat \<Rightarrow> irq_fun \<Rightarrow> 'a drivers_scheme \<Rightarrow> 'a drivers_scheme" where
  "irq_install_handler n handler s = s\<lparr>irq_routines := (irq_routines s)[n := handler]\<rparr>"

definition irq_uninstall_handler :: "nat \<Rightarrow> 'a drivers_scheme \<Rightarrow> 'a drivers_scheme" where
  "irq_uninstall_handler n s = s\<lparr>irq_routines := (irq_routines s)[n := No_handler]\<rparr>"

definition irq_remap :: "'a drivers_scheme \<Rightarrow> 'a drivers_scheme" where
  "irq_remap s =
     outb 0xA1 0xFF (outb 0x21 0xFB
      (outb 0xA1 0x01 (outb 0x21 0x01 (outb 0xA1 0x02 (outb 0x21 0x04 (outb 0xA1 0x28 (outb 0x21 0x20
       (outb 0xA0 0x11 (outb 0x20 0x11 s)))))))))"

text \<open>\<open>mask = inb(0x21); mask &= ~(1 << n); outb(0x21, mask)\<close>.\<close>

definition pic_unmask :: "u16 \<Rightarrow> nat \<Rightarrow> 'a drivers_scheme \<Rightarrow> 'a drivers_scheme" where
  "pic_unmask port n s = (let (m, s1) = inb port s in outb port (m AND NOT (push_bit n 1)) s1)"

section \<open>Timer and clock\<close>

definition PIT_FREQ :: u32 where "PIT_FREQ = 1193182"

definition timer_handler :: "'a drivers_scheme \<Rightarrow> 'a drivers_scheme" where
  "timer_handler s = s\<lparr>tick_count := tick_count s + 1\<rparr>"

definition pit_divisor :: "u32 \<Rightarrow> u32" where
  "pit_divisor frequency =
     (let d = PIT_FREQ div frequency; d = (if d > 65535 then 65535 else d) in if d < 1 then 1 else d)"

text \<open>A frequency of 0 divides by zero.\<close>

definition init_timer :: "u32 \<Rightarrow> 'a drivers_scheme \<Rightarrow> 'a drivers_scheme option" where
  "init_timer frequency s =
     (if frequency = 0 then None
      else
        let s1 = s\<lparr>timer_freq := frequency, tick_count := 0\<rparr>;
            divisor = pit_divisor frequency;
            s2 = outb 0x40 (ucast (drop_bit 8 divisor)) (outb 0x40 (ucast divisor) (outb 0x43 0x36 s1))
        in Some (pic_unmask 0x21 0 (irq_install_handler 0 Timer_handler s2)))"

definition timer_get_ticks :: "'a drivers_scheme \<Rightarrow> u32" where
  "timer_get_ticks s = tick_count s"

definition timer_get_seconds :: "'a drivers_scheme \<Rightarrow> u32" where
  "timer_get_seconds s = (if timer_freq s = 0 then 0 else tick_count s div timer_freq s)"

text \<open>
  The wait loop of \<open>sleep\<close>: the processor halts until an interrupt has been served, which is
  the function \<open>env\<close> of the number of the halt and the state. None: it waits for ever.
\<close>

partial_function (option) sleep_loop ::
    "(nat \<Rightarrow> 'a drivers_scheme \<Rightarrow> 'a drivers_scheme) \<Rightarrow> nat \<Rightarrow> u32 \<Rightarrow> u32 \<Rightarrow> 'a drivers_scheme \<Rightarrow> 'a drivers_scheme option" where
  "sleep_loop env k start wait s =
     (if tick_count s - start < wait then sleep_loop env (Suc k) start wait (env k s) else Some s)"

definition ticks_to_wait :: "u32 \<Rightarrow> u32 \<Rightarrow> u32" where
  "ticks_to_wait ms freq = (let t = (ms * freq) div 1000 in if t = 0 then 1 else t)"

definition sleep :: "(nat \<Rightarrow> 'a drivers_scheme \<Rightarrow> 'a drivers_scheme) \<Rightarrow> u32 \<Rightarrow> 'a drivers_scheme \<Rightarrow> 'a drivers_scheme option" where
  "sleep env ms s =
     (if timer_freq s = 0 then Some s else sleep_loop env 0 (tick_count s) (ticks_to_wait ms (timer_freq s)) s)"

definition get_rtc_register :: "u8 \<Rightarrow> 'a ports_scheme \<Rightarrow> u8 \<times> 'a ports_scheme" where
  "get_rtc_register reg s = inb 0x71 (outb 0x70 reg s)"

definition bcd :: "u8 \<Rightarrow> int" where
  "bcd v = uint (v AND 0x0F) + uint (v div 16) * 10"

definition rtc_get_time :: "'a ports_scheme \<Rightarrow> (int \<times> int \<times> int) \<times> 'a ports_scheme" where
  "rtc_get_time s =
     (let (sec, s1) = get_rtc_register 0x00 s;
          (minute, s2) = get_rtc_register 0x02 s1;
          (hour, s3) = get_rtc_register 0x04 s2
      in (((bcd hour + 3) mod 24, bcd minute, bcd sec), s3))"

section \<open>Keyboard\<close>

definition KBD_BUF_SIZE :: nat where "KBD_BUF_SIZE = 256"

definition shell_input :: "u8 \<Rightarrow> 'a drivers_scheme \<Rightarrow> 'a drivers_scheme" where
  "shell_input c s = s\<lparr>shell_in := shell_in s @ [c]\<rparr>"

definition keyboard_put :: "int \<Rightarrow> u8 \<Rightarrow> 'a drivers_scheme \<Rightarrow> 'a drivers_scheme" where
  "keyboard_put shell_active c s =
     (if shell_active \<noteq> 0 then shell_input c s
      else s\<lparr>kbd_buffer := (kbd_buffer s)[kbd_buf_head s := c], kbd_buf_head := (kbd_buf_head s + 1) mod KBD_BUF_SIZE\<rparr>)"

definition keyboard_get :: "'a drivers_scheme \<Rightarrow> u8 \<times> 'a drivers_scheme" where
  "keyboard_get s =
     (if kbd_buf_head s = kbd_buf_tail s then (0, s)
      else (kbd_buffer s ! kbd_buf_tail s, s\<lparr>kbd_buf_tail := (kbd_buf_tail s + 1) mod KBD_BUF_SIZE\<rparr>))"

definition scancode_normal :: "u8 list" where
  "scancode_normal =
    [0, 27, 49, 50, 51, 52, 53, 54, 55, 56, 57, 48, 42, 45, 8,
     9, 113, 119, 101, 114, 116, 121, 117, 105, 111, 112, 103, 0x81, 10,
     0, 97, 115, 100, 102, 103, 104, 106, 107, 108, 115, 105, 34, 0,
     44, 122, 120, 99, 118, 98, 110, 109, 0x94, 0x87, 46, 0, 42, 0, 32] @ replicate 71 0"

definition scancode_shift :: "u8 list" where
  "scancode_shift =
    [0, 27, 33, 39, 94, 43, 37, 38, 47, 40, 41, 61, 63, 95, 8,
     9, 81, 87, 69, 82, 84, 89, 85, 73, 79, 80, 71, 0x9A, 10,
     0, 65, 83, 68, 70, 71, 72, 74, 75, 76, 83, 73, 39, 0,
     59, 90, 88, 67, 86, 66, 78, 77, 0x99, 0x80, 58, 0, 42, 0, 32] @ replicate 71 0"

definition keyboard_handler :: "int \<Rightarrow> 'a drivers_scheme \<Rightarrow> 'a drivers_scheme" where
  "keyboard_handler shell_active s0 =
     (let (scancode, s) = inb 0x60 s0
      in if scancode = 0x2A \<or> scancode = 0x36 then s\<lparr>shift_pressed := 1\<rparr>
         else if scancode = 0x2A OR 0x80 \<or> scancode = 0x36 OR 0x80 then s\<lparr>shift_pressed := 0\<rparr>
         else if scancode AND 0x80 \<noteq> 0 then s
         else if scancode = 0x48 then shell_input 0x11 s
         else if scancode = 0x50 then shell_input 0x12 s
         else if unat scancode \<ge> length scancode_normal then s
         else
           let c = (if shift_pressed s \<noteq> 0 then scancode_shift ! unat scancode else scancode_normal ! unat scancode)
           in if c \<noteq> 0 then keyboard_put shell_active c s else s)"

definition init_keyboard :: "'a drivers_scheme \<Rightarrow> 'a drivers_scheme" where
  "init_keyboard s = pic_unmask 0x21 1 (irq_install_handler 1 Keyboard_handler s)"

section \<open>Mouse\<close>

fun mouse_poll :: "nat \<Rightarrow> (u8 \<Rightarrow> bool) \<Rightarrow> 'a drivers_scheme \<Rightarrow> 'a drivers_scheme" where
  "mouse_poll 0 ready s = s"
| "mouse_poll (Suc timeout) ready s = (let (v, s1) = inb 0x64 s in if ready v then s1 else mouse_poll timeout ready s1)"

definition mouse_wait :: "u8 \<Rightarrow> 'a drivers_scheme \<Rightarrow> 'a drivers_scheme" where
  "mouse_wait type s =
     (if type = 0 then mouse_poll 100000 (\<lambda>v. v AND 1 = 1) s else mouse_poll 100000 (\<lambda>v. v AND 2 = 0) s)"

definition mouse_write :: "u8 \<Rightarrow> 'a drivers_scheme \<Rightarrow> 'a drivers_scheme" where
  "mouse_write a s = outb 0x60 a (mouse_wait 1 (outb 0x64 0xD4 (mouse_wait 1 s)))"

definition mouse_read :: "'a drivers_scheme \<Rightarrow> u8 \<times> 'a drivers_scheme" where
  "mouse_read s = inb 0x60 (mouse_wait 0 s)"

definition mouse_init :: "'a drivers_scheme \<Rightarrow> 'a drivers_scheme" where
  "mouse_init s =
     (let s1 = outb 0x64 0xA8 (mouse_wait 1 s);
          s2 = snd (mouse_read (mouse_write 0xF6 s1));
          s3 = snd (mouse_read (mouse_write 0xF4 s2));
          s4 = outb 0x64 0x20 (mouse_wait 1 s3);
          (v, s5) = inb 0x60 (mouse_wait 0 s4);
          status = (v OR 2) AND NOT 0x20;
          s6 = outb 0x60 status (mouse_wait 1 (outb 0x64 0x60 (mouse_wait 1 s5)));
          s7 = pic_unmask 0xA1 4 (pic_unmask 0x21 2 s6);
          s8 = irq_install_handler 12 Mouse_handler s7
      in s8\<lparr>mx := 400, my := 300, mouse_cycle := 0\<rparr>)"

definition clamp :: "int \<Rightarrow> int \<Rightarrow> int" where
  "clamp hi v = (let v1 = (if v < 0 then 0 else v) in if v1 > hi then hi else v1)"

text \<open>The packet is complete: buttons, signed movements, overflow bits.\<close>

definition mouse_packet :: "'a drivers_scheme \<Rightarrow> 'a drivers_scheme" where
  "mouse_packet s =
     (let flags = mouse_byte s ! 0;
          x_move = uint (mouse_byte s ! 1) - (if flags AND 0x10 \<noteq> 0 then 256 else 0);
          y_move = uint (mouse_byte s ! 2) - (if flags AND 0x20 \<noteq> 0 then 256 else 0);
          s1 = s\<lparr>mbuttons := flags AND 0x07\<rparr>
      in if flags AND 0x40 \<noteq> 0 \<or> flags AND 0x80 \<noteq> 0 then s1
         else
           let s2 = s1\<lparr>mx := clamp 795 (mx s1 + x_move), my := clamp 595 (my s1 - y_move)\<rparr>
           in s2\<lparr>gui_events := gui_events s2 @ [(mx s2, my s2, mbuttons s2)]\<rparr>)"

definition mouse_handler :: "'a drivers_scheme \<Rightarrow> 'a drivers_scheme" where
  "mouse_handler s0 =
     (let (status, s) = inb 0x64 s0
      in if status AND 0x01 \<noteq> 0 \<and> status AND 0x20 \<noteq> 0 then
           let (data, s) = inb 0x60 s
           in if mouse_cycle s = 0 then
                if data AND 0x08 = 0 then s
                else s\<lparr>mouse_byte := (mouse_byte s)[0 := data], mouse_cycle := mouse_cycle s + 1\<rparr>
              else if mouse_cycle s = 1 then
                s\<lparr>mouse_byte := (mouse_byte s)[1 := data], mouse_cycle := mouse_cycle s + 1\<rparr>
              else if mouse_cycle s = 2 then
                mouse_packet (s\<lparr>mouse_byte := (mouse_byte s)[2 := data], mouse_cycle := 0\<rparr>)
              else s
         else s)"

section \<open>The keyboard buffer as a queue\<close>

definition kbd_ok :: "'a drivers_scheme \<Rightarrow> bool" where
  "kbd_ok s \<longleftrightarrow> length (kbd_buffer s) = 256 \<and> kbd_buf_head s < 256 \<and> kbd_buf_tail s < 256"

definition kbd_len :: "'a drivers_scheme \<Rightarrow> nat" where
  "kbd_len s = (256 + kbd_buf_head s - kbd_buf_tail s) mod 256"

definition kbd_held :: "'a drivers_scheme \<Rightarrow> u8 list" where
  "kbd_held s = map (\<lambda>i. kbd_buffer s ! ((kbd_buf_tail s + i) mod 256)) [0..<kbd_len s]"

definition kbd_type :: "u8 list \<Rightarrow> 'a drivers_scheme \<Rightarrow> 'a drivers_scheme" where
  "kbd_type cs s = fold (keyboard_put 0) cs s"

fun kbd_read :: "nat \<Rightarrow> 'a drivers_scheme \<Rightarrow> u8 list \<times> 'a drivers_scheme" where
  "kbd_read 0 s = ([], s)"
| "kbd_read (Suc n) s = (let (c, s1) = keyboard_get s; (cs, s2) = kbd_read n s1 in (c # cs, s2))"

lemma kbd_head: "kbd_ok s \<Longrightarrow> (kbd_buf_tail s + kbd_len s) mod 256 = kbd_buf_head s"
  by (auto simp: kbd_ok_def kbd_len_def mod_if)

lemma kbd_slot:
  assumes "kbd_ok s" and "i < kbd_len s"
  shows "(kbd_buf_tail s + i) mod 256 \<noteq> kbd_buf_head s"
proof -
  have "kbd_len s < 256" by (simp add: kbd_len_def)
  then show ?thesis using assms kbd_head [OF assms(1)] by (auto simp: kbd_ok_def mod_if split: if_splits)
qed

lemma kbd_put_one:
  assumes "kbd_ok s"
  shows "kbd_ok (keyboard_put 0 c s)"
    "kbd_len s < 255 \<Longrightarrow> kbd_held (keyboard_put 0 c s) = kbd_held s @ [c]"
    "kbd_len s = 255 \<Longrightarrow> kbd_held (keyboard_put 0 c s) = []"
proof -
  have h: "kbd_buf_head s < 256" "kbd_buf_tail s < 256" "length (kbd_buffer s) = 256" using assms by (simp_all add: kbd_ok_def)
  show "kbd_ok (keyboard_put 0 c s)" using h by (simp add: keyboard_put_def kbd_ok_def KBD_BUF_SIZE_def)
  have len: "kbd_len (keyboard_put 0 c s) = (kbd_len s + 1) mod 256"
    using h by (auto simp: keyboard_put_def kbd_len_def KBD_BUF_SIZE_def mod_if)
  show "kbd_held (keyboard_put 0 c s) = []" if "kbd_len s = 255" using that len by (simp add: kbd_held_def)
  assume l: "kbd_len s < 255"
  show "kbd_held (keyboard_put 0 c s) = kbd_held s @ [c]"
  proof (rule nth_equalityI)
    show "length (kbd_held (keyboard_put 0 c s)) = length (kbd_held s @ [c])" using l len by (simp add: kbd_held_def)
    fix i
    assume "i < length (kbd_held (keyboard_put 0 c s))"
    then have i: "i < kbd_len s \<or> i = kbd_len s" using l len by (auto simp: kbd_held_def)
    then show "kbd_held (keyboard_put 0 c s) ! i = (kbd_held s @ [c]) ! i"
      using l len kbd_slot [OF assms, of i] kbd_head [OF assms] h
      by (auto simp: kbd_held_def keyboard_put_def nth_append)
  qed
qed

lemma kbd_get_one:
  assumes "kbd_ok s" and "kbd_held s \<noteq> []"
  shows "fst (keyboard_get s) = hd (kbd_held s) \<and> kbd_ok (snd (keyboard_get s)) \<and> kbd_held (snd (keyboard_get s)) = tl (kbd_held s)"
proof -
  have h: "kbd_buf_head s < 256" "kbd_buf_tail s < 256" "length (kbd_buffer s) = 256" using assms by (simp_all add: kbd_ok_def)
  have pos: "kbd_len s > 0" using assms(2) by (simp add: kbd_held_def)
  then have ne: "kbd_buf_head s \<noteq> kbd_buf_tail s" by (auto simp: kbd_len_def)
  let ?s = "s\<lparr>kbd_buf_tail := (kbd_buf_tail s + 1) mod 256\<rparr>"
  have g: "keyboard_get s = (kbd_buffer s ! kbd_buf_tail s, ?s)" using ne by (simp add: keyboard_get_def KBD_BUF_SIZE_def)
  have "kbd_len ?s = kbd_len s - 1" using h ne by (auto simp: kbd_len_def mod_if)
  moreover have "((kbd_buf_tail s + 1) mod 256 + i) mod 256 = (kbd_buf_tail s + Suc i) mod 256" for i
    by (simp add: mod_add_left_eq add.assoc)
  ultimately have "kbd_held ?s = tl (kbd_held s)"
    using pos by (intro nth_equalityI) (simp_all add: kbd_held_def nth_tl less_diff_conv)
  moreover have "hd (kbd_held s) = kbd_buffer s ! kbd_buf_tail s" using pos h by (simp add: kbd_held_def hd_map)
  moreover have "kbd_ok ?s" using h by (simp add: kbd_ok_def)
  ultimately show ?thesis using g by simp
qed

lemma kbd_type_ok:
  "kbd_ok s \<Longrightarrow> length (kbd_held s) + length cs \<le> 255 \<Longrightarrow> kbd_ok (kbd_type cs s) \<and> kbd_held (kbd_type cs s) = kbd_held s @ cs"
proof (induction cs arbitrary: s)
  case (Cons c cs)
  have "kbd_len s < 255" using Cons.prems(2) by (simp add: kbd_held_def)
  then show ?case using Cons.IH [of "keyboard_put 0 c s"] kbd_put_one(1,2) [OF Cons.prems(1), of c] Cons.prems(2)
    by (simp add: kbd_type_def)
qed (simp add: kbd_type_def)

lemma kbd_read_ok:
  "kbd_ok s \<Longrightarrow> n \<le> length (kbd_held s) \<Longrightarrow>
     fst (kbd_read n s) = take n (kbd_held s) \<and> kbd_ok (snd (kbd_read n s)) \<and> kbd_held (snd (kbd_read n s)) = drop n (kbd_held s)"
proof (induction n arbitrary: s)
  case (Suc n)
  then have ne: "kbd_held s \<noteq> []" by auto
  note g = kbd_get_one [OF Suc.prems(1) ne]
  have "n \<le> length (kbd_held (snd (keyboard_get s)))" using g Suc.prems(2) by simp
  with Suc.IH [of "snd (keyboard_get s)"] g ne show ?case
    by (cases "kbd_held s") (auto simp: case_prod_beta drop_Suc)
qed simp

interpretation kb: byte_fifo kbd_type kbd_read kbd_ok kbd_held 255
  by unfold_locales (use kbd_type_ok kbd_read_ok in auto)

text \<open>
  characters typed while no shell takes them are read back in the order of typing, as long
  as no more than 255 are waiting.
\<close>

theorem keyboard_fifo:
  assumes "kbd_ok s" and "kbd_held s = []" and "length cs \<le> 255"
  shows "fst (kbd_read (length cs) (kbd_type cs s)) = cs \<and> kbd_held (snd (kbd_read (length cs) (kbd_type cs s))) = []"
proof -
  note p = kb.put_held [OF assms(1), of cs]
  show ?thesis using p kb.get_held [of "kbd_type cs s" "length cs"] assms by simp
qed

text \<open>
  there is no check for a full buffer. The 256th waiting character makes the buffer look
  empty: all characters are lost and the reader is told that nothing was typed.
\<close>

theorem keyboard_overflow:
  assumes "kbd_ok s" and "length (kbd_held s) = 255"
  shows "kbd_held (keyboard_put 0 c s) = [] \<and> keyboard_get (keyboard_put 0 c s) = (0, keyboard_put 0 c s)"
proof -
  have l: "kbd_len s = 255" using assms(2) by (simp add: kbd_held_def)
  have "kbd_buf_head (keyboard_put 0 c s) = kbd_buf_tail (keyboard_put 0 c s)"
    using kbd_head [OF assms(1)] l assms(1) by (auto simp: keyboard_put_def KBD_BUF_SIZE_def kbd_ok_def mod_if split: if_splits)
  then show ?thesis using kbd_put_one(3) [OF assms(1) l] by (simp add: keyboard_get_def)
qed

section \<open>The pointer\<close>

definition mouse_ok :: "'a drivers_scheme \<Rightarrow> bool" where
  "mouse_ok s \<longleftrightarrow> length (mouse_byte s) = 3 \<and> mouse_cycle s \<le> 2 \<and> 0 \<le> mx s \<and> mx s \<le> 795 \<and> 0 \<le> my s \<and> my s \<le> 595"

lemma clamp_bounds: "0 \<le> hi \<Longrightarrow> 0 \<le> clamp hi v \<and> clamp hi v \<le> hi"
  by (simp add: clamp_def Let_def)

lemma mouse_packet_ok:
  "length (mouse_byte s) = 3 \<Longrightarrow> mouse_cycle s \<le> 2 \<Longrightarrow> 0 \<le> mx s \<Longrightarrow> mx s \<le> 795 \<Longrightarrow> 0 \<le> my s \<Longrightarrow> my s \<le> 595 \<Longrightarrow> mouse_ok (mouse_packet s)"
  by (simp add: mouse_packet_def mouse_ok_def Let_def clamp_bounds)

lemma mouse_handler_cases:
  obtains (skip) n where "mouse_handler s = s\<lparr>reads := n\<rparr>"
  | (first) n d where "mouse_cycle s = 0" "mouse_handler s = s\<lparr>reads := n, mouse_byte := (mouse_byte s)[0 := d], mouse_cycle := 1\<rparr>"
  | (second) n d where "mouse_cycle s = 1" "mouse_handler s = s\<lparr>reads := n, mouse_byte := (mouse_byte s)[1 := d], mouse_cycle := 2\<rparr>"
  | (third) n d where "mouse_cycle s = 2"
      "mouse_handler s = mouse_packet (s\<lparr>reads := n, mouse_byte := (mouse_byte s)[2 := d], mouse_cycle := 0\<rparr>)"
proof -
  let ?st = "ucast (dev s 0x64 (reads s 0x64)) :: u8"
  let ?n = "(reads s)(0x64 := reads s 0x64 + 1)"
  let ?d = "ucast (dev s 0x60 (?n 0x60)) :: u8"
  let ?m = "?n(0x60 := ?n 0x60 + 1)"
  have e: "mouse_handler s =
     (if ?st AND 0x01 \<noteq> 0 \<and> ?st AND 0x20 \<noteq> 0 then
        if mouse_cycle s = 0 then
          if ?d AND 0x08 = 0 then s\<lparr>reads := ?m\<rparr> else s\<lparr>reads := ?m, mouse_byte := (mouse_byte s)[0 := ?d], mouse_cycle := mouse_cycle s + 1\<rparr>
        else if mouse_cycle s = 1 then s\<lparr>reads := ?m, mouse_byte := (mouse_byte s)[1 := ?d], mouse_cycle := mouse_cycle s + 1\<rparr>
        else if mouse_cycle s = 2 then mouse_packet (s\<lparr>reads := ?m, mouse_byte := (mouse_byte s)[2 := ?d], mouse_cycle := 0\<rparr>)
        else s\<lparr>reads := ?m\<rparr>
      else s\<lparr>reads := ?n\<rparr>)"
    by (simp add: mouse_handler_def inb_def port_read_def Let_def)
  consider "?st AND 0x01 \<noteq> 0 \<and> ?st AND 0x20 \<noteq> 0" "mouse_cycle s = 0" "?d AND 0x08 \<noteq> 0"
    | "?st AND 0x01 \<noteq> 0 \<and> ?st AND 0x20 \<noteq> 0" "mouse_cycle s = 1"
    | "?st AND 0x01 \<noteq> 0 \<and> ?st AND 0x20 \<noteq> 0" "mouse_cycle s = 2"
    | "mouse_handler s = s\<lparr>reads := ?m\<rparr>" | "mouse_handler s = s\<lparr>reads := ?n\<rparr>"
    unfolding e by argo
  then show ?thesis
  proof cases
    case 1
    then show ?thesis using first [where n = ?m and d = ?d] e by simp
  next
    case 2
    then show ?thesis using second [where n = ?m and d = ?d] e by simp
  next
    case 3
    then show ?thesis using third [where n = ?m and d = ?d] e by simp
  qed (use skip in blast)+
qed

lemma mouse_handler_ok: "mouse_ok s \<Longrightarrow> mouse_ok (mouse_handler s)"
proof (cases s rule: mouse_handler_cases)
  case (third n d)
  moreover assume "mouse_ok s"
  then have "mouse_ok (mouse_packet (s\<lparr>reads := n, mouse_byte := (mouse_byte s)[2 := d], mouse_cycle := 0\<rparr>))"
    by (intro mouse_packet_ok) (simp_all add: mouse_ok_def)
  ultimately show ?thesis by simp
qed (auto simp: mouse_ok_def)

text \<open>
  whatever bytes the mouse delivers, and however packets are cut, the pointer stays on the
  screen. A complete packet moves it by the signed 9-bit movements, right and up being
  positive, stopping at the edges, and reports the position with the buttons; a packet with an
  overflow bit only updates the buttons.
\<close>

theorem mouse_packets:
  assumes "mouse_ok s"
  shows "mouse_ok ((mouse_handler ^^ n) s) \<and>
    (mouse_cycle s = 2 \<and> ucast (dev s 0x64 (reads s 0x64)) AND (0x21 :: u8) = 0x21 \<longrightarrow>
      (let t = mouse_handler s; flags = mouse_byte s ! 0;
           dx = uint (mouse_byte s ! 1) - (if bit flags 4 then 256 else 0);
           dy = uint (ucast (dev s 0x60 (reads s 0x60)) :: u8) - (if bit flags 5 then 256 else 0)
       in mouse_cycle t = 0 \<and> mbuttons t = flags AND 7 \<and>
          (if bit flags 6 \<or> bit flags 7 then (mx t, my t) = (mx s, my s) \<and> gui_events t = gui_events s
           else mx t = max 0 (min 795 (mx s + dx)) \<and> my t = max 0 (min 595 (my s - dy)) \<and>
             gui_events t = gui_events s @ [(mx t, my t, flags AND 7)])))"
proof -
  have inv: "mouse_ok ((mouse_handler ^^ n) s)" by (induction n) (simp_all add: assms mouse_handler_ok)
  have b: "f AND 0x10 \<noteq> 0 \<longleftrightarrow> bit f 4" "f AND 0x20 \<noteq> 0 \<longleftrightarrow> bit f 5" "f AND 0x40 \<noteq> 0 \<longleftrightarrow> bit f 6" "f AND 0x80 \<noteq> 0 \<longleftrightarrow> bit f 7"
      for f :: u8
    using and_exp_eq_0_iff_not_bit [of f 4] and_exp_eq_0_iff_not_bit [of f 5] and_exp_eq_0_iff_not_bit [of f 6]
      and_exp_eq_0_iff_not_bit [of f 7] by simp_all
  have st: "v AND 0x01 \<noteq> 0 \<and> v AND 0x20 \<noteq> 0" if "v AND 0x21 = 0x21" for v :: u8
  proof -
    have "v AND 0x01 = (v AND 0x21) AND 0x01" "v AND 0x20 = (v AND 0x21) AND 0x20" by (simp_all add: and.assoc)
    then show ?thesis using that by simp
  qed
  have c: "clamp hi v = max 0 (min hi v)" if "0 \<le> hi" for hi v using that by (auto simp: clamp_def Let_def)
  have l: "length (mouse_byte s) = 3" using assms by (simp add: mouse_ok_def)
  let ?st = "ucast (dev s 0x64 (reads s 0x64)) :: u8" and ?d = "ucast (dev s 0x60 (reads s 0x60)) :: u8"
  have e: "mouse_handler s = mouse_packet (s\<lparr>reads := (reads s)(0x64 := reads s 0x64 + 1, 0x60 := reads s 0x60 + 1),
      mouse_byte := (mouse_byte s)[2 := ?d], mouse_cycle := 0\<rparr>)" if "mouse_cycle s = 2" "?st AND 0x21 = 0x21"
    using st [OF that(2)] that(1) by (simp add: mouse_handler_def inb_def port_read_def Let_def)
  have p: "mouse_cycle (mouse_packet t) = mouse_cycle t" for t :: "'a drivers_scheme" by (simp add: mouse_packet_def Let_def)
  show ?thesis
    using inv l by (simp add: e p Let_def) (auto simp: mouse_packet_def Let_def b c)
qed

section \<open>Time\<close>

lemma pit_divisor_bounds: "1 \<le> unat (pit_divisor f) \<and> unat (pit_divisor f) \<le> 65535"
  by (simp add: pit_divisor_def Let_def word_less_nat_alt word_le_nat_alt)

lemma sleep_loop_ends:
  assumes tick: "\<And>k t. tick_count (env k t) = tick_count t + 1"
    and d: "unat (tick_count s - start) + n = unat wait"
  shows "\<exists>s'. sleep_loop env k start wait s = Some s' \<and> tick_count s' = tick_count s + of_nat n"
  using d
proof (induction n arbitrary: k s)
  case 0
  then have "\<not> tick_count s - start < wait" by (simp add: word_less_nat_alt)
  then show ?case by (subst sleep_loop.simps) simp
next
  case (Suc n)
  then have lt: "tick_count s - start < wait" by (simp add: word_less_nat_alt)
  have "tick_count (env k s) - start = (tick_count s - start) + 1" by (simp add: tick)
  also have "unat \<dots> = unat (tick_count s - start) + 1"
  proof (subst unat_plus_u32)
    show "unat (tick_count s - start) + unat (1 :: u32) < 4294967296" using Suc.prems unat_lt_u32 [of wait] by (simp del: unat_lt_u32)
  qed simp
  finally obtain s' where "sleep_loop env (Suc k) start wait (env k s) = Some s'" "tick_count s' = tick_count (env k s) + of_nat n"
    using Suc.IH [of "env k s" "Suc k"] Suc.prems by auto
  then show ?case using lt by (subst sleep_loop.simps) (simp add: tick)
qed

text \<open>
  \<open>sleep\<close> returns. When every halt ends with a timer interrupt, it has waited exactly for
  the number of ticks the delay amounts to, at least one, also when the tick counter wraps
  around meanwhile.
\<close>

theorem sleep_waits:
  assumes "\<forall>k t. tick_count (env k t) = tick_count t + 1" and "timer_freq s \<noteq> 0"
    and "unat ms * unat (timer_freq s) < 4294967296"
  shows "\<exists>s'. sleep env ms s = Some s' \<and>
    tick_count s' = tick_count s + of_nat (max 1 (unat ms * unat (timer_freq s) div 1000))"
proof -
  let ?w = "ticks_to_wait ms (timer_freq s)"
  have "unat (ms * timer_freq s) = unat ms * unat (timer_freq s)" using assms(3) by (simp add: unat_word_ariths)
  then have "unat ((ms * timer_freq s) div 1000) = unat ms * unat (timer_freq s) div 1000" by (simp add: unat_div)
  then have "unat ?w = max 1 (unat ms * unat (timer_freq s) div 1000)"
    by (auto simp: ticks_to_wait_def Let_def max_def simp flip: unat_eq_zero)
  then show ?thesis
    using sleep_loop_ends [of env s "tick_count s" "unat ?w" ?w 0] assms(1,2) by (simp add: sleep_def)
qed

lemma bcd_value:
  assumes "v = of_nat (16 * (n div 10) + n mod 10)" and "n < 100"
  shows "bcd v = int n"
proof -
  let ?m = "16 * (n div 10) + n mod 10"
  have u: "unat v = ?m" unfolding assms(1) by (rule unat_of_nat_u8) (use assms(2) in linarith)
  have lt: "n mod 10 < 16" by linarith
  have "v AND 0x0F = v mod 16" using take_bit_eq_mask [of 4 v] by (simp add: take_bit_eq_mod mask_eq_exp_minus_1)
  then have "unat (v AND 0x0F) = n mod 10" using u lt by (simp add: unat_mod)
  moreover have "unat (v div 16) = n div 10" using u lt by (simp add: unat_div)
  ultimately have "bcd v = int (n mod 10) + int (n div 10) * 10" unfolding bcd_def uint_nat by (simp only:)
  then show ?thesis by presburger
qed

text \<open>
  the clock's registers are read as the decimal numbers they encode, and the hour is moved
  by the three hours of the local time zone, modulo a day.
\<close>

theorem rtc_local_time:
  assumes "ucast (dev s 0x71 (reads s 0x71)) = (of_nat (16 * (sec div 10) + sec mod 10) :: u8)"
    and "ucast (dev s 0x71 (reads s 0x71 + 1)) = (of_nat (16 * (minute div 10) + minute mod 10) :: u8)"
    and "ucast (dev s 0x71 (reads s 0x71 + 2)) = (of_nat (16 * (hour div 10) + hour mod 10) :: u8)"
    and "sec < 60" and "minute < 60" and "hour < 24"
  shows "fst (rtc_get_time s) = ((int hour + 3) mod 24, int minute, int sec)"
  using bcd_value [OF assms(1)] bcd_value [OF assms(2)] bcd_value [OF assms(3)] assms(4-6)
  by (simp add: rtc_get_time_def get_rtc_register_def inb_def port_read_def outb_def Let_def)

section \<open>Instances\<close>

definition demo_drivers :: drivers where
  "demo_drivers = \<lparr>dev = (\<lambda>p n. if p = 0x71 then (if n = 2 then 0x23 else 0x59) else 0x21), reads = (\<lambda>_. 0), outs = [],
     irq_routines = replicate 16 No_handler, tick_count = 0xFFFFFFFE, timer_freq = 100, shift_pressed = 0,
     kbd_buffer = replicate 256 0, kbd_buf_head = 0, kbd_buf_tail = 0, shell_in = [], mouse_cycle = 2,
     mouse_byte = [0x18, 0xFE, 0], mx = 400, my = 300, mbuttons = 0, gui_events = []\<rparr>"

lemma demo_drivers_ok: "kbd_ok demo_drivers" "kbd_held demo_drivers = []" "mouse_ok demo_drivers"
  by (simp_all add: demo_drivers_def kbd_ok_def kbd_held_def kbd_len_def mouse_ok_def)

theorem keyboard_fifo_witness: "fst (kbd_read 2 (kbd_type [104, 105] demo_drivers)) = [104, 105]"
  using keyboard_fifo [OF demo_drivers_ok(1,2), of "[104, 105]"] by (simp add: numeral_2_eq_2)

theorem keyboard_overflow_witness:
  "fst (keyboard_get (keyboard_put 0 65 (kbd_type (replicate 255 66) demo_drivers))) = 0"
  using keyboard_overflow [of "kbd_type (replicate 255 66) demo_drivers" 65]
    kbd_type_ok [OF demo_drivers_ok(1), of "replicate 255 66"] demo_drivers_ok(2) by simp

theorem mouse_packets_witness: "mx (mouse_handler demo_drivers) = 398"
proof -
  have "ucast (dev demo_drivers 0x64 (reads demo_drivers 0x64)) AND (0x21 :: u8) = 0x21" "mouse_cycle demo_drivers = 2"
    by (simp_all add: demo_drivers_def)
  moreover have "bit (0x18 :: u8) 4" "\<not> bit (0x18 :: u8) 6" "\<not> bit (0x18 :: u8) 7" by simp_all
  ultimately show ?thesis
    using mouse_packets [OF demo_drivers_ok(3), of 0] by (simp add: Let_def) (simp add: demo_drivers_def)
qed

theorem sleep_waits_witness:
  "\<exists>s'. sleep (\<lambda>_. timer_handler) 30 demo_drivers = Some s' \<and> tick_count s' = tick_count demo_drivers + 3"
proof -
  have "timer_freq demo_drivers = 100" by (simp add: demo_drivers_def)
  then show ?thesis using sleep_waits [of "\<lambda>_. timer_handler" demo_drivers 30] by (simp add: timer_handler_def)
qed

theorem rtc_local_time_witness: "fst (rtc_get_time demo_drivers) = (2, 59, 59)"
  using rtc_local_time [of demo_drivers 59 59 23] by (simp add: demo_drivers_def)

end
