(* ===== verification/Kheap.thy ===== *)
theory Kheap
  imports Peker_Prelude
begin

text \<open>
  The kernel heap, \<open>kernel/mm/kheap.c\<close>: one static 4 MB area cut into blocks, each
  opened by a 16-byte header; the headers form a doubly linked list in address order.
  \<open>kmalloc\<close> is first fit with splitting, \<open>kfree\<close> merges with both neighbours.

  The store \<open>hdr\<close> maps an address to the header that lies there, so the model updates
  headers through pointers exactly as the code does, aliasing included. \<open>heap_inv\<close>
  abstracts it to the list of blocks in address order; the operations are shown to
  implement first fit and coalescing on that list. What the clients of the heap rely on
  is the locale \<open>allocator\<close>, interpreted here on \<open>kmalloc\<close> and \<open>kfree\<close>.
\<close>

section \<open>State and operations\<close>

definition HEAP_SIZE :: u32 where "HEAP_SIZE = 4 * 1024 * 1024"

record heap_header =
  h_size :: u32
  h_is_free :: u32
  h_next :: u32
  h_prev :: u32

record kheap =
  hdr :: "u32 \<Rightarrow> heap_header"
  heap_first :: u32

definition set_hdr :: "u32 \<Rightarrow> (heap_header \<Rightarrow> heap_header) \<Rightarrow> kheap \<Rightarrow> kheap" where
  "set_hdr a f h = h\<lparr>hdr := (hdr h)(a := f (hdr h a))\<rparr>"

definition init_kheap :: "u32 \<Rightarrow> kheap \<Rightarrow> kheap" where
  "init_kheap heap_space h =
     set_hdr heap_space (\<lambda>_. \<lparr>h_size = HEAP_SIZE, h_is_free = 1, h_next = 0, h_prev = 0\<rparr>)
       (h\<lparr>heap_first := heap_space\<rparr>)"

definition kmalloc_take :: "u32 \<Rightarrow> u32 \<Rightarrow> kheap \<Rightarrow> kheap" where
  "kmalloc_take total_size current h =
     (let h1 =
        (if h_size (hdr h current) > total_size + 16 + 4 then
           let new_block = current + total_size;
               nxt = h_next (hdr h current);
               h2 = set_hdr new_block (\<lambda>_. \<lparr>h_size = h_size (hdr h current) - total_size,
                      h_is_free = 1, h_next = nxt, h_prev = current\<rparr>) h;
               h3 = (if nxt \<noteq> 0 then set_hdr nxt (h_prev_update (\<lambda>_. new_block)) h2 else h2)
           in set_hdr current (\<lambda>b. b\<lparr>h_next := new_block, h_size := total_size\<rparr>) h3
         else h)
      in set_hdr current (h_is_free_update (\<lambda>_. 0)) h1)"

partial_function (option) kmalloc_walk :: "u32 \<Rightarrow> u32 \<Rightarrow> kheap \<Rightarrow> (u32 \<times> kheap) option" where
  "kmalloc_walk total_size current h =
     (if current = 0 then Some (0, h)
      else if h_is_free (hdr h current) \<noteq> 0 \<and> h_size (hdr h current) \<ge> total_size
      then Some (current + 16, kmalloc_take total_size current h)
      else kmalloc_walk total_size (h_next (hdr h current)) h)"

definition align4 :: "u32 \<Rightarrow> u32" where
  "align4 size' = (if size' mod 4 \<noteq> 0 then size' + (4 - size' mod 4) else size')"

definition kmalloc :: "u32 \<Rightarrow> kheap \<Rightarrow> (u32 \<times> kheap) option" where
  "kmalloc size' h =
     (if size' = 0 then Some (0, h)
      else kmalloc_walk (align4 size' + 16) (heap_first h) h)"

definition merge_right :: "u32 \<Rightarrow> kheap \<Rightarrow> kheap" where
  "merge_right block h =
     (let n = h_next (hdr h block)
      in if n \<noteq> 0 \<and> h_is_free (hdr h n) \<noteq> 0 then
           let h1 = set_hdr block (\<lambda>b. b\<lparr>h_size := h_size b + h_size (hdr h n)\<rparr>) h;
               h2 = set_hdr block (\<lambda>b. b\<lparr>h_next := h_next (hdr h1 n)\<rparr>) h1;
               n2 = h_next (hdr h2 block)
           in (if n2 \<noteq> 0 then set_hdr n2 (h_prev_update (\<lambda>_. block)) h2 else h2)
         else h)"

definition merge_left :: "u32 \<Rightarrow> kheap \<Rightarrow> kheap" where
  "merge_left block h =
     (let p = h_prev (hdr h block)
      in if p \<noteq> 0 \<and> h_is_free (hdr h p) \<noteq> 0 then
           let h1 = set_hdr p (\<lambda>b. b\<lparr>h_size := h_size b + h_size (hdr h block)\<rparr>) h;
               h2 = set_hdr p (\<lambda>b. b\<lparr>h_next := h_next (hdr h1 block)\<rparr>) h1;
               n = h_next (hdr h2 block)
           in (if n \<noteq> 0 then set_hdr n (h_prev_update (\<lambda>_. p)) h2 else h2)
         else h)"

definition kfree :: "u32 \<Rightarrow> kheap \<Rightarrow> kheap" where
  "kfree ptr h =
     (if ptr = 0 then h
      else let block = ptr - 16
           in if h_is_free (hdr h block) \<noteq> 0 then h
              else merge_left block (merge_right block
                     (set_hdr block (h_is_free_update (\<lambda>_. 1)) h)))"

section \<open>The list of blocks\<close>

text \<open>A block: the address of its header, its size with the header, and whether it is free.\<close>

type_synonym blk = "u32 \<times> u32 \<times> bool"

definition mk_hdr :: "u32 \<Rightarrow> bool \<Rightarrow> u32 \<Rightarrow> u32 \<Rightarrow> heap_header" where
  "mk_hdr s f n p = \<lparr>h_size = s, h_is_free = of_bool f, h_next = n, h_prev = p\<rparr>"

lemma mk_hdr_sel [simp]:
  "h_size (mk_hdr s f n p) = s" "h_next (mk_hdr s f n p) = n" "h_prev (mk_hdr s f n p) = p"
  "h_is_free (mk_hdr s f n p) = of_bool f"
  "h_size_update g (mk_hdr s f n p) = mk_hdr (g s) f n p"
  "h_next_update g (mk_hdr s f n p) = mk_hdr s f (g n) p"
  "h_prev_update g (mk_hdr s f n p) = mk_hdr s f n (g p)"
  "h_is_free_update (\<lambda>_. 1) (mk_hdr s f n p) = mk_hdr s True n p"
  "h_is_free_update (\<lambda>_. 0) (mk_hdr s f n p) = mk_hdr s False n p"
  by (simp_all add: mk_hdr_def)

lemma mk_hdr_fold:
  "\<lparr>h_size = s, h_is_free = 1, h_next = n, h_prev = p\<rparr> = mk_hdr s True n p"
  by (simp add: mk_hdr_def)

definition nxt :: "blk list \<Rightarrow> u32 \<Rightarrow> u32" where
  "nxt xs n = (case xs of [] \<Rightarrow> n | x # _ \<Rightarrow> fst x)"

definition lst :: "blk list \<Rightarrow> u32 \<Rightarrow> u32" where
  "lst xs p = (if xs = [] then p else fst (last xs))"

lemma nxt_simps [simp]: "nxt [] n = n" "nxt (x # xs) n = fst x"
  by (simp_all add: nxt_def)

lemma lst_simps [simp]: "lst [] p = p" "lst (xs @ [x]) p = fst x" "lst (x # xs) p = lst xs (fst x)"
  by (auto simp: lst_def)

lemma nxt_append [simp]: "nxt (xs @ ys) n = nxt xs (nxt ys n)"
  by (cases xs) auto

text \<open>
  A segment of the linked list: the headers of the blocks, the first one's \<open>prev\<close> being
  \<open>p\<close> and the last one's \<open>next\<close> being \<open>n\<close>.
\<close>

fun seg :: "(u32 \<Rightarrow> heap_header) \<Rightarrow> u32 \<Rightarrow> u32 \<Rightarrow> blk list \<Rightarrow> bool" where
  "seg H p n [] = True"
| "seg H p n ((a, s, f) # xs) = (H a = mk_hdr s f (nxt xs n) p \<and> seg H a n xs)"

text \<open>The blocks lie side by side and fill the addresses from \<open>a\<close> to \<open>e\<close>.\<close>

fun tiles :: "nat \<Rightarrow> nat \<Rightarrow> blk list \<Rightarrow> bool" where
  "tiles a e [] = (a = e)"
| "tiles a e ((b, s, f) # xs) =
     (unat b = a \<and> 16 \<le> unat s \<and> 4 dvd unat s \<and> tiles (a + unat s) e xs)"

text \<open>No two neighbouring blocks are both free.\<close>

fun coalesced :: "blk list \<Rightarrow> bool" where
  "coalesced ((a, s, f) # (b, t, g) # xs) = (\<not> (f \<and> g) \<and> coalesced ((b, t, g) # xs))"
| "coalesced _ = True"

definition heap_inv :: "u32 \<Rightarrow> kheap \<Rightarrow> blk list \<Rightarrow> bool" where
  "heap_inv base h xs \<longleftrightarrow> base \<noteq> 0 \<and> 4 dvd unat base \<and> unat base + unat HEAP_SIZE < 4294967296 \<and>
     heap_first h = base \<and> seg (hdr h) 0 0 xs \<and>
     tiles (unat base) (unat base + unat HEAP_SIZE) xs \<and> coalesced xs"

lemma seg_Cons: "seg H p n (x # xs) \<longleftrightarrow>
    H (fst x) = mk_hdr (fst (snd x)) (snd (snd x)) (nxt xs n) p \<and> seg H (fst x) n xs"
  by (cases x) simp

lemma seg_append: "seg H p n (xs @ ys) \<longleftrightarrow> seg H p (nxt ys n) xs \<and> seg H (lst xs p) n ys"
  by (induction xs arbitrary: p) (simp_all add: seg_Cons del: seg.simps(2))

lemma seg_upd [simp]: "a \<notin> fst ` set xs \<Longrightarrow> seg (H(a := v)) p n xs = seg H p n xs"
  by (induction xs arbitrary: p) (auto simp: seg_Cons simp del: seg.simps(2))

lemma seg_unique:
  "seg H p 0 xs \<Longrightarrow> seg H p 0 ys \<Longrightarrow> nxt xs 0 = nxt ys 0 \<Longrightarrow>
   0 \<notin> fst ` set xs \<Longrightarrow> 0 \<notin> fst ` set ys \<Longrightarrow> xs = ys"
proof (induction xs arbitrary: p ys)
  case Nil
  then show ?case by (cases ys) auto
next
  case (Cons x xs)
  then obtain a s f where x: "x = (a, s, f)" by (cases x)
  with Cons.prems obtain t g ys' where ys: "ys = (a, t, g) # ys'" by (cases ys) auto
  with Cons.prems x have eq: "mk_hdr s f (nxt xs 0) p = mk_hdr t g (nxt ys' 0) p" by simp
  then have "s = t" "f = g" "nxt xs 0 = nxt ys' 0" by (auto simp: mk_hdr_def)
  with Cons.IH [of a ys'] Cons.prems x ys show ?case by simp
qed

lemma tiles_append: "tiles a e (xs @ ys) \<longleftrightarrow> (\<exists>m. tiles a m xs \<and> tiles m e ys)"
  by (induction xs arbitrary: a) auto

lemma tiles_le: "tiles a e xs \<Longrightarrow> a \<le> e"
  by (induction xs arbitrary: a) (fastforce dest: add_leD1)+

lemma tiles_bounds:
  "tiles a e xs \<Longrightarrow> (b, s, f) \<in> set xs \<Longrightarrow> a \<le> unat b \<and> unat b + unat s \<le> e \<and> 16 \<le> unat s \<and> 4 dvd unat s"
proof (induction xs arbitrary: a)
  case (Cons x xs)
  obtain c t g where x: "x = (c, t, g)" by (cases x)
  with Cons.prems have rest: "tiles (a + unat t) e xs" by simp
  with Cons.IH [OF rest] Cons.prems x tiles_le [OF rest] show ?case by fastforce
qed simp

lemma tiles_distinct: "tiles a e xs \<Longrightarrow> distinct (map fst xs)"
proof (induction xs arbitrary: a)
  case (Cons x xs)
  obtain c t g where x: "x = (c, t, g)" by (cases x)
  with Cons.prems have rest: "tiles (a + unat t) e xs" and c: "unat c = a" "16 \<le> unat t" by simp_all
  have "c \<notin> fst ` set xs"
    using tiles_bounds [OF rest] c by fastforce
  with Cons.IH [OF rest] x show ?case by auto
qed simp

lemma tiles_disjoint:
  assumes "tiles a e xs" and "(b, s, f) \<in> set xs" and "(c, t, g) \<in> set xs" and "b \<noteq> c"
  shows "unat b + unat s \<le> unat c \<or> unat c + unat t \<le> unat b"
  using assms
proof (induction xs arbitrary: a)
  case (Cons x xs)
  obtain d u k where x: "x = (d, u, k)" by (cases x)
  with Cons.prems have rest: "tiles (a + unat u) e xs" and d: "unat d = a" by simp_all
  show ?case
    using Cons.prems x Cons.IH [OF rest] tiles_bounds [OF rest] d by (auto; fastforce)
qed simp

lemma tiles_aligned: "tiles m e xs \<Longrightarrow> 4 dvd m \<Longrightarrow> (b, s, f) \<in> set xs \<Longrightarrow> 4 dvd unat b"
  by (induction xs arbitrary: m) (auto simp: dvd_add)

lemma coalesced_append:
  "coalesced (xs @ ys) \<longleftrightarrow> coalesced xs \<and> coalesced ys \<and>
     (xs \<noteq> [] \<and> ys \<noteq> [] \<longrightarrow> \<not> (snd (snd (last xs)) \<and> snd (snd (hd ys))))"
proof (induction xs rule: coalesced.induct)
  case (1 a s f b t g xs)
  then show ?case by auto
next
  case "2_1"
  then show ?case by simp
qed (case_tac v; cases ys; auto split: prod.splits)

lemma heap_inv_addr:
  assumes "heap_inv base h xs" and "(a, s, f) \<in> set xs"
  shows "a \<noteq> 0" "unat base \<le> unat a" "unat a + unat s \<le> unat base + unat HEAP_SIZE"
    "16 \<le> unat s" "4 dvd unat s" "unat s \<le> unat HEAP_SIZE"
proof -
  have b: "unat base \<le> unat a \<and> unat a + unat s \<le> unat base + unat HEAP_SIZE \<and> 16 \<le> unat s \<and> 4 dvd unat s"
    using assms tiles_bounds unfolding heap_inv_def by blast
  moreover have "unat base \<noteq> 0" using assms(1) by (simp add: heap_inv_def unat_gt_0)
  ultimately have "unat a \<noteq> 0" by linarith
  then show "a \<noteq> 0" by auto
  from b show "unat base \<le> unat a" "unat a + unat s \<le> unat base + unat HEAP_SIZE"
    "16 \<le> unat s" "4 dvd unat s" "unat s \<le> unat HEAP_SIZE" by auto
qed

lemma heap_inv_nz: "heap_inv base h xs \<Longrightarrow> 0 \<notin> fst ` set xs"
  using heap_inv_addr(1) by force

lemma block_ptr:
  assumes "heap_inv base h xs" and "(a, s, f) \<in> set xs"
  shows "unat (a + 16) = unat a + 16"
  using heap_inv_addr [OF assms] assms(1)
  by (intro unat_plus_u32 [of a 16, simplified]) (auto simp: heap_inv_def)

lemma block_ptr_nz: "heap_inv base h xs \<Longrightarrow> (a, s, f) \<in> set xs \<Longrightarrow> a + 16 \<noteq> 0"
  using block_ptr by fastforce

lemma heap_inv_distinct: "heap_inv base h xs \<Longrightarrow> distinct (map fst xs)"
  by (auto simp: heap_inv_def intro: tiles_distinct)

lemma heap_inv_unique:
  assumes "heap_inv base h xs" and "heap_inv base h ys"
  shows "xs = ys"
proof (rule seg_unique)
  show "0 \<notin> fst ` set xs" "0 \<notin> fst ` set ys" using assms by (auto dest: heap_inv_nz)
  have "nxt zs 0 = base" if "heap_inv base h zs" for zs
    using that by (cases zs) (auto simp: heap_inv_def HEAP_SIZE_def word_unat_eq_iff)
  then show "nxt xs 0 = nxt ys 0" using assms by simp
qed (use assms in \<open>auto simp: heap_inv_def\<close>)

section \<open>First fit on the list of blocks\<close>

text \<open>What \<open>kmalloc\<close> does to the list: the first block that is free and large enough.\<close>

definition split_block :: "u32 \<Rightarrow> blk \<Rightarrow> blk list" where
  "split_block total_size x = (case x of (a, s, f) \<Rightarrow>
     (if s > total_size + 20 then [(a, total_size, False), (a + total_size, s - total_size, True)]
      else [(a, s, False)]))"

fun abs_alloc :: "u32 \<Rightarrow> blk list \<Rightarrow> (u32 \<times> blk list) option" where
  "abs_alloc total_size [] = None"
| "abs_alloc total_size ((a, s, f) # xs) =
     (if f \<and> s \<ge> total_size then Some (a, split_block total_size (a, s, f) @ xs)
      else map_option (\<lambda>(r, ys). (r, (a, s, f) # ys)) (abs_alloc total_size xs))"

lemma abs_alloc_Some:
  assumes "abs_alloc t xs = Some (a, ys)"
  shows "\<exists>l s r. xs = l @ (a, s, True) # r \<and> t \<le> s \<and> ys = l @ split_block t (a, s, True) @ r \<and>
    (\<forall>(b, u, g) \<in> set l. \<not> (g \<and> t \<le> u))"
  using assms
proof (induction t xs arbitrary: ys rule: abs_alloc.induct)
  case (2 t b u g xs)
  show ?case
  proof (cases "g \<and> t \<le> u")
    case True
    with "2.prems" show ?thesis by (intro exI [of _ "[]"]) auto
  next
    case False
    with "2.prems" obtain zs where "abs_alloc t xs = Some (a, zs)" and ys: "ys = (b, u, g) # zs" by auto
    with "2.IH" [OF False] obtain l s r where
      "xs = l @ (a, s, True) # r" "t \<le> s" "zs = l @ split_block t (a, s, True) @ r"
      "\<forall>(b, u, g) \<in> set l. \<not> (g \<and> t \<le> u)" by blast
    with False ys show ?thesis by (intro exI [of _ "(b, u, g) # l"] exI [of _ s] exI [of _ r]) auto
  qed
qed simp

lemma abs_alloc_None: "abs_alloc t xs = None \<Longrightarrow> (a, s, True) \<in> set xs \<Longrightarrow> \<not> t \<le> s"
  by (induction t xs rule: abs_alloc.induct) (auto split: if_splits)

text \<open>The walk over the headers finds the block the list version finds.\<close>

lemma kmalloc_walk_seg:
  assumes "seg (hdr h) p 0 xs" and "0 \<notin> fst ` set xs"
  shows "kmalloc_walk t (nxt xs 0) h =
    (case abs_alloc t xs of None \<Rightarrow> Some (0, h) | Some (a, ys) \<Rightarrow> Some (a + 16, kmalloc_take t a h))"
  using assms
proof (induction t xs arbitrary: p rule: abs_alloc.induct)
  case (1 t)
  then show ?case by (simp add: kmalloc_walk.simps)
next
  case (2 t a s f xs)
  have a: "a \<noteq> 0" and H: "hdr h a = mk_hdr s f (nxt xs 0) p" and rest: "seg (hdr h) a 0 xs" "0 \<notin> fst ` set xs"
    using "2.prems" by auto
  show ?case
  proof (cases "f \<and> t \<le> s")
    case True
    with a H show ?thesis by (subst kmalloc_walk.simps) simp
  next
    case False
    then have "kmalloc_walk t a h = kmalloc_walk t (nxt xs 0) h"
      using a H by (subst kmalloc_walk.simps) auto
    with "2.IH" [OF False rest] False show ?thesis by (auto split: option.split)
  qed
qed

lemma set_hdr_hdr [simp]: "hdr (set_hdr a f h) = (hdr h)(a := f (hdr h a))"
  by (simp add: set_hdr_def)

lemma set_hdr_first [simp]: "heap_first (set_hdr a f h) = heap_first h"
  by (simp add: set_hdr_def)

text \<open>Taking a block in the middle of the list, at the level of the headers.\<close>

lemma kmalloc_take_seg:
  assumes seg: "seg (hdr h) p n (l @ (a, s, True) # r)"
    and dist: "distinct (map fst (l @ (a, s, True) # r))"
    and new: "s > t + 20 \<longrightarrow> a + t \<notin> fst ` set (l @ (a, s, True) # r)"
    and n: "n = 0" and nz: "0 \<notin> fst ` set r"
  shows "seg (hdr (kmalloc_take t a h)) p n (l @ split_block t (a, s, True) @ r) \<and>
    heap_first (kmalloc_take t a h) = heap_first h"
proof -
  have H: "hdr h a = mk_hdr s True (nxt r n) (lst l p)" and l: "seg (hdr h) p a l" and r: "seg (hdr h) a n r"
    using seg by (auto simp: seg_append)
  show ?thesis
  proof (cases "s > t + 20")
    case False
    then show ?thesis
      using H l r dist by (auto simp: kmalloc_take_def split_block_def seg_append add.assoc)
  next
    case True
    then have new': "a + t \<notin> fst ` set l" "a + t \<notin> fst ` set r" "a + t \<noteq> a" using new by auto
    show ?thesis
    proof (cases r)
      case Nil
      then show ?thesis
        using True H l r dist new' n
        by (auto simp: kmalloc_take_def split_block_def seg_append add.assoc mk_hdr_fold Let_def)
    next
      case (Cons x r')
      then obtain b u g where x: "x = (b, u, g)" by (cases x)
      have b: "b \<noteq> 0" "b \<noteq> a" "b \<noteq> a + t" "b \<notin> fst ` set l" "b \<notin> fst ` set r'"
        using Cons x nz dist new' by auto
      then show ?thesis
        using True H l r dist new' Cons x
        by (auto simp: kmalloc_take_def split_block_def seg_append add.assoc mk_hdr_fold Let_def)
    qed
  qed
qed

lemma align4_unat:
  assumes "unat size' \<le> 4294967276"
  shows "unat (align4 size' + 16) = (unat size' + 3) div 4 * 4 + 16"
proof -
  let ?n = "unat size'"
  have m: "unat (size' mod 4) = ?n mod 4" by (simp add: unat_mod)
  have r: "?n mod 4 < 4" by simp
  have "unat (align4 size') = (?n + 3) div 4 * 4"
  proof (cases "size' mod 4 = 0")
    case True
    with m have "?n mod 4 = 0" by simp
    with True show ?thesis by (simp add: align4_def) presburger
  next
    case False
    with m have nz: "?n mod 4 \<noteq> 0" by (metis unat_eq_zero)
    have "size' mod 4 \<le> 4" using m r by (simp add: word_le_nat_alt)
    then have "unat (4 - size' mod 4) = 4 - ?n mod 4" using m by (simp add: unat_minus_u32)
    then have "unat (align4 size') = ?n + (4 - ?n mod 4)"
      using assms False nz by (simp add: align4_def unat_plus_u32)
    with nz show ?thesis by presburger
  qed
  moreover have "(?n + 3) div 4 * 4 + 16 < 4294967296" using assms by presburger
  ultimately show ?thesis by (simp add: unat_plus_u32)
qed

lemma split_facts:
  assumes inv: "heap_inv base h xs" and mem: "(a, s, True) \<in> set xs" and t: "t \<le> s"
    and big: "s > t + 20"
  shows "unat (a + t) = unat a + unat t" "unat (s - t) = unat s - unat t" "unat s > unat t + 20"
proof -
  have b: "unat a + unat s \<le> unat base + unat HEAP_SIZE" "unat base + unat HEAP_SIZE < 4294967296"
      "unat s \<le> unat HEAP_SIZE"
    using heap_inv_addr [OF inv mem] inv by (auto simp: heap_inv_def)
  have ts: "unat t \<le> unat s" using t by (simp add: word_le_nat_alt)
  show "unat (a + t) = unat a + unat t" using b ts by (intro unat_plus_u32) linarith
  show "unat (s - t) = unat s - unat t" using t by (rule unat_minus_u32)
  have "unat (t + 20) = unat t + 20"
    using b ts unat_plus_u32 [of t 20] by (simp add: HEAP_SIZE_def)
  with big show "unat s > unat t + 20" by (simp add: word_less_nat_alt)
qed

lemma kmalloc_take_inv:
  assumes inv: "heap_inv base h xs" and alloc: "abs_alloc t xs = Some (a, ys)"
    and t: "16 \<le> unat t" "4 dvd unat t"
  shows "heap_inv base (kmalloc_take t a h) ys"
proof -
  obtain l s r where xs: "xs = l @ (a, s, True) # r" and ts: "t \<le> s"
    and ys: "ys = l @ split_block t (a, s, True) @ r"
    using abs_alloc_Some [OF alloc] by blast
  have mem: "(a, s, True) \<in> set xs" by (simp add: xs)
  note facts = split_facts [OF inv mem ts]
  have new: "a + t \<notin> fst ` set xs" if big: "s > t + 20"
  proof
    assume "a + t \<in> fst ` set xs"
    then obtain u g where m: "(a + t, u, g) \<in> set xs" by force
    have "a \<noteq> a + t" using t facts(1) [OF big] by auto
    then show False
      using tiles_disjoint [OF _ mem m] inv facts [OF big] t heap_inv_addr [OF inv m]
      by (auto simp: heap_inv_def)
  qed
  have nz: "0 \<notin> fst ` set r" using heap_inv_nz [OF inv] by (auto simp: xs)
  have seg: "seg (hdr (kmalloc_take t a h)) 0 0 ys \<and> heap_first (kmalloc_take t a h) = heap_first h"
    unfolding ys
    by (rule kmalloc_take_seg)
      (use inv new heap_inv_distinct [OF inv] nz in \<open>auto simp: xs heap_inv_def\<close>)
  have tiles: "tiles (unat base) (unat base + unat HEAP_SIZE) ys"
  proof -
    obtain m where "tiles (unat base) m l" "tiles m (unat base + unat HEAP_SIZE) ((a, s, True) # r)"
      using inv by (auto simp: heap_inv_def xs tiles_append)
    moreover have "tiles (unat a) (unat a + unat s) (split_block t (a, s, True))"
    proof (cases "s > t + 20")
      case True
      then show ?thesis
        using facts [OF True] t heap_inv_addr(5) [OF inv mem] by (auto simp: split_block_def)
    next
      case False
      then show ?thesis using heap_inv_addr [OF inv mem] by (auto simp: split_block_def)
    qed
    ultimately show ?thesis by (auto simp: ys tiles_append)
  qed
  have "coalesced ys"
    using inv by (cases r) (auto simp: heap_inv_def xs ys coalesced_append split_block_def)
  with seg tiles inv show ?thesis by (simp add: heap_inv_def)
qed

lemma kmalloc_refines:
  assumes "heap_inv base h xs" and "size' \<noteq> 0"
  shows "kmalloc size' h = (case abs_alloc (align4 size' + 16) xs of
      None \<Rightarrow> Some (0, h)
    | Some (a, ys) \<Rightarrow> Some (a + 16, kmalloc_take (align4 size' + 16) a h))"
proof -
  have "0 \<notin> fst ` set xs" using assms(1) by (rule heap_inv_nz)
  moreover have "nxt xs 0 = heap_first h"
    using assms(1) by (cases xs) (auto simp: heap_inv_def HEAP_SIZE_def word_unat_eq_iff)
  ultimately show ?thesis
    using kmalloc_walk_seg [of h 0 xs] assms by (simp add: kmalloc_def heap_inv_def)
qed

section \<open>Coalescing on the list of blocks\<close>

definition join_right :: "u32 \<Rightarrow> u32 \<Rightarrow> blk list \<Rightarrow> blk list" where
  "join_right a s r = (case r of (b, t, True) # r' \<Rightarrow> (a, s + t, True) # r' | _ \<Rightarrow> (a, s, True) # r)"

definition join_left :: "blk list \<Rightarrow> u32 \<Rightarrow> u32 \<Rightarrow> blk list \<Rightarrow> blk list" where
  "join_left l a s r = (case rev l of
     (b, t, True) # l' \<Rightarrow> rev l' @ (b, t + s, True) # r | _ \<Rightarrow> l @ (a, s, True) # r)"

text \<open>The list after the block at \<open>a\<close>, between \<open>l\<close> and \<open>r\<close>, has been released.\<close>

definition abs_free :: "blk list \<Rightarrow> u32 \<Rightarrow> u32 \<Rightarrow> blk list \<Rightarrow> blk list" where
  "abs_free l a s r = (case join_right a s r of (a', s', f) # r' \<Rightarrow> join_left l a' s' r')"

lemma join_right_cases:
  obtains (merge) b t r' where "r = (b, t, True) # r'" "join_right a s r = (a, s + t, True) # r'"
  | (keep) "r = [] \<or> (\<exists>b t r'. r = (b, t, False) # r')" "join_right a s r = (a, s, True) # r"
proof (cases r)
  case Nil
  then show ?thesis by (intro keep) (auto simp: join_right_def)
next
  case (Cons x r')
  then show ?thesis
    by (cases x, cases "snd (snd x)") (auto simp: join_right_def intro: merge keep)
qed

lemma join_left_cases:
  obtains (merge) b t l' where "l = l' @ [(b, t, True)]" "join_left l a s r = l' @ (b, t + s, True) # r"
  | (keep) "l = [] \<or> (\<exists>b t l'. l = l' @ [(b, t, False)])" "join_left l a s r = l @ (a, s, True) # r"
proof (cases l rule: rev_cases)
  case Nil
  then show ?thesis by (intro keep) (auto simp: join_left_def)
next
  case (snoc l' x)
  then show ?thesis
    by (cases x, cases "snd (snd x)") (auto simp: join_left_def intro: merge keep)
qed

lemma merge_right_seg:
  assumes "seg (hdr h) p 0 (l @ (a, s, True) # r)" and "distinct (map fst (l @ (a, s, True) # r))"
    and "0 \<notin> fst ` set r"
  shows "seg (hdr (merge_right a h)) p 0 (l @ join_right a s r)"
proof (cases rule: join_right_cases [of r a s])
  case (merge b t r')
  then show ?thesis
  proof (cases r')
    case Nil
    then show ?thesis using merge assms by (auto simp: merge_right_def seg_append Let_def)
  next
    case (Cons y r'')
    then show ?thesis
      using merge assms by (cases y) (auto simp: merge_right_def seg_append Let_def)
  qed
next
  case keep
  have "hdr h a = mk_hdr s True (nxt r 0) (lst l p)" "seg (hdr h) a 0 r"
    using assms(1) by (simp_all add: seg_append)
  then have "merge_right a h = h" using keep(1) by (auto simp: merge_right_def)
  then show ?thesis using keep(2) assms(1) by simp
qed

lemma merge_left_seg:
  assumes "seg (hdr h) 0 0 (l @ (a, s, True) # r)" and "distinct (map fst (l @ (a, s, True) # r))"
    and "0 \<notin> fst ` set (l @ r)"
  shows "seg (hdr (merge_left a h)) 0 0 (join_left l a s r)"
proof (cases rule: join_left_cases [of l a s r])
  case (merge b t l')
  then show ?thesis
  proof (cases r)
    case Nil
    then show ?thesis using merge assms by (auto simp: merge_left_def seg_append Let_def)
  next
    case (Cons y r')
    then show ?thesis
      using merge assms by (cases y) (auto simp: merge_left_def seg_append Let_def)
  qed
next
  case keep
  have "hdr h a = mk_hdr s True (nxt r 0) (lst l 0)" "seg (hdr h) 0 a l"
    using assms(1) by (simp_all add: seg_append)
  then have "merge_left a h = h" using keep(1) by (auto simp: merge_left_def seg_append)
  then show ?thesis using keep(2) assms(1) by simp
qed

lemma merge_first [simp]:
  "heap_first (merge_right a h) = heap_first h" "heap_first (merge_left a h) = heap_first h"
  by (simp_all add: merge_right_def merge_left_def Let_def)

lemma abs_free_distinct:
  assumes "distinct (map fst (l @ (a, s, f) # r))"
  shows "distinct (map fst (l @ join_right a s r))" "fst ` set (join_right a s r) \<subseteq> insert a (fst ` set r)"
  using assms by (cases rule: join_right_cases [of r a s]; auto)+

lemma abs_free_coalesced: "coalesced (l @ (a, s, False) # r) \<Longrightarrow> coalesced (abs_free l a s r)"
proof -
  assume c: "coalesced (l @ (a, s, False) # r)"
  have r: "\<exists>s' r'. join_right a s r = (a, s', True) # r' \<and> coalesced ((a, s', True) # r') \<and> coalesced r'"
  proof (cases rule: join_right_cases [of r a s])
    case (merge b t r')
    then show ?thesis using c by (cases r') (auto simp: coalesced_append)
  next
    case keep
    then show ?thesis using c by (cases r) (auto simp: coalesced_append)
  qed
  then obtain s' r' where j: "join_right a s r = (a, s', True) # r'"
    and r': "coalesced ((a, s', True) # r')" by blast
  then show ?thesis
  proof (cases rule: join_left_cases [of l a s' r'])
    case (merge b t l')
    have "coalesced ((b, t + s', True) # r')" using r' by (cases r') auto
    then show ?thesis using merge c j by (auto simp: abs_free_def coalesced_append)
  next
    case keep
    then show ?thesis using c j r' by (auto simp: abs_free_def coalesced_append)
  qed
qed

lemma abs_free_tiles:
  assumes t: "tiles b e (l @ (a, s, False) # r)" and e: "e < 4294967296"
  shows "tiles b e (abs_free l a s r)"
proof -
  have sum: "unat (x + y) = unat x + unat y" if "unat c + unat x + unat y \<le> e" for x y c :: u32
    using that e by (intro unat_plus_u32) linarith
  obtain m where l: "tiles b m l" and r: "tiles m e ((a, s, False) # r)"
    using t by (auto simp: tiles_append)
  have "\<exists>s' r'. join_right a s r = (a, s', True) # r' \<and> tiles m e ((a, s', True) # r')"
  proof (cases rule: join_right_cases [of r a s])
    case (merge c u r')
    then have "unat a + unat s + unat u \<le> e" using r tiles_le by auto
    with merge r show ?thesis by (auto simp: sum add.assoc)
  next
    case keep
    then show ?thesis using r by auto
  qed
  then obtain s' r' where j: "join_right a s r = (a, s', True) # r'"
    and r': "tiles m e ((a, s', True) # r')" by blast
  show ?thesis
  proof (cases rule: join_left_cases [of l a s' r'])
    case (merge c u l')
    then have "unat c + unat u = unat a" using l r' by (auto simp: tiles_append)
    moreover have "unat c + unat u + unat s' \<le> e" using calculation r' tiles_le by auto
    ultimately show ?thesis
      using merge l r' j by (auto simp: abs_free_def tiles_append sum add.assoc)
  next
    case keep
    then show ?thesis using l r' j by (auto simp: abs_free_def tiles_append)
  qed
qed

lemma abs_free_used: "(b, u, False) \<in> set (abs_free l a s r) \<longleftrightarrow> (b, u, False) \<in> set (l @ r)"
proof -
  obtain s' r' where "join_right a s r = (a, s', True) # r'"
    and "(b, u, False) \<in> set r' \<longleftrightarrow> (b, u, False) \<in> set r"
    by (cases rule: join_right_cases [of r a s]) auto
  then show ?thesis
    by (cases rule: join_left_cases [of l a s' r']) (auto simp: abs_free_def)
qed

lemma kfree_inv:
  assumes inv: "heap_inv base h (l @ (a, s, False) # r)"
  shows "heap_inv base (kfree (a + 16) h) (abs_free l a s r)"
proof -
  have mem: "(a, s, False) \<in> set (l @ (a, s, False) # r)" by simp
  note b = heap_inv_addr [OF inv mem]
  have ptr: "a + 16 \<noteq> 0" using inv mem by (rule block_ptr_nz)
  have nz: "0 \<notin> fst ` set (l @ r)" using heap_inv_nz [OF inv] by auto
  note dist = heap_inv_distinct [OF inv]
  have seg: "seg (hdr h) 0 0 (l @ (a, s, False) # r)" using inv by (simp add: heap_inv_def)
  then have H: "hdr h a = mk_hdr s False (nxt r 0) (lst l 0)" by (simp add: seg_append)
  let ?h1 = "set_hdr a (h_is_free_update (\<lambda>_. 1)) h"
  have s1: "seg (hdr ?h1) 0 0 (l @ (a, s, True) # r)"
    using seg dist H by (simp add: seg_append)
  obtain s' r' where j: "join_right a s r = (a, s', True) # r'"
    by (cases rule: join_right_cases [of r a s]) auto
  have s2: "seg (hdr (merge_right a ?h1)) 0 0 (l @ (a, s', True) # r')"
    using merge_right_seg [OF s1] dist nz j by auto
  have sub: "fst ` set r' \<subseteq> fst ` set r"
    using j by (cases rule: join_right_cases [of r a s]) auto
  have "seg (hdr (merge_left a (merge_right a ?h1))) 0 0 (join_left l a s' r')"
    by (rule merge_left_seg [OF s2]) (use abs_free_distinct(1) [OF dist] j nz sub in auto)
  then have "seg (hdr (kfree (a + 16) h)) 0 0 (abs_free l a s r)"
    using ptr H j by (simp add: kfree_def abs_free_def)
  moreover have "heap_first (kfree (a + 16) h) = base"
    using ptr H inv by (simp add: kfree_def heap_inv_def)
  ultimately show ?thesis
    using inv abs_free_tiles abs_free_coalesced by (auto simp: heap_inv_def)
qed

section \<open>Properties of the heap\<close>

text \<open>
  C1: \<open>kmalloc\<close> always returns. For a request of 1 to 4294967276 bytes it either returns
  0 with the heap unchanged, and then no free block can hold the request with its header,
  or a pointer to a fresh block: 4-byte aligned, inside the heap, with room for the
  request, disjoint from every block in use; the blocks in use stay as they are.
\<close>

theorem kmalloc_correct:
  assumes inv: "heap_inv base h xs" and sz: "size' \<noteq> 0" "unat size' \<le> 4294967276"
  shows "\<exists>p h' ys. kmalloc size' h = Some (p, h') \<and> heap_inv base h' ys \<and>
    (p = 0 \<and> h' = h \<and> (\<forall>a s. (a, s, True) \<in> set xs \<longrightarrow> unat s < (unat size' + 3) div 4 * 4 + 16) \<or>
     (\<exists>s. p \<noteq> 0 \<and> (p - 16, s, False) \<in> set ys \<and> (p - 16, s, False) \<notin> set xs \<and>
        unat size' + 16 \<le> unat s \<and> 4 dvd unat p \<and>
        unat base + 16 \<le> unat p \<and> unat p + unat size' \<le> unat base + unat HEAP_SIZE \<and>
        (\<forall>b u. (b, u, False) \<in> set xs \<longrightarrow> (b, u, False) \<in> set ys \<and>
           (unat b + unat u \<le> unat (p - 16) \<or> unat (p - 16) + unat s \<le> unat b))))"
proof -
  define t where "t = align4 size' + 16"
  have ut: "unat t = (unat size' + 3) div 4 * 4 + 16" using align4_unat [OF sz(2)] by (simp add: t_def)
  then have t: "16 \<le> unat t" "4 dvd unat t" "unat size' + 16 \<le> unat t" "unat t < unat size' + 16 + 4"
    by presburger+
  show ?thesis
  proof (cases "abs_alloc t xs")
    case None
    have "unat s < unat t" if "(a, s, True) \<in> set xs" for a s
      using abs_alloc_None [OF None that] by (simp add: word_le_nat_alt)
    then show ?thesis using None kmalloc_refines [OF inv sz(1)] inv ut by (auto simp: t_def)
  next
    case (Some ay)
    then obtain a ys where alloc: "abs_alloc t xs = Some (a, ys)" by (cases ay) auto
    obtain l s r where xs: "xs = l @ (a, s, True) # r" and ts: "t \<le> s"
      and ys: "ys = l @ split_block t (a, s, True) @ r"
      using abs_alloc_Some [OF alloc] by blast
    have inv': "heap_inv base (kmalloc_take t a h) ys" using kmalloc_take_inv [OF inv alloc t(1,2)] .
    define u where "u = (if s > t + 20 then t else s)"
    have mem': "(a, u, False) \<in> set ys" by (simp add: ys u_def split_block_def)
    have mem: "(a, s, True) \<in> set xs" by (simp add: xs)
    have u: "unat t \<le> unat u" using ts by (simp add: u_def word_le_nat_alt)
    have pa: "unat (a + 16) = unat a + 16" using inv mem by (rule block_ptr)
    have fresh: "(a, u, False) \<notin> set xs" and other: "b \<noteq> a" if "(b, v, False) \<in> set xs" for b v
      using heap_inv_distinct [OF inv] that by (force simp: xs)+
    have keep: "(b, v, False) \<in> set ys" if "(b, v, False) \<in> set xs" for b v
      using that by (auto simp: xs ys)
    have "4 dvd unat a" using tiles_aligned [OF _ _ mem] inv by (auto simp: heap_inv_def)
    moreover have "unat b + unat v \<le> unat a \<or> unat a + unat u \<le> unat b" if "(b, v, False) \<in> set xs" for b v
      using tiles_disjoint [OF _ keep [OF that] mem' other [OF that]] inv' by (auto simp: heap_inv_def)
    moreover have "kmalloc size' h = Some (a + 16, kmalloc_take t a h)"
      using kmalloc_refines [OF inv sz(1)] alloc by (simp add: t_def)
    moreover have "unat a + 16 + unat size' \<le> unat base + unat HEAP_SIZE" "unat base \<le> unat a"
      using heap_inv_addr [OF inv' mem'] u t by auto
    moreover have "a + 16 \<noteq> 0" using pa by auto
    ultimately show ?thesis
      using inv' mem' fresh u t pa keep
      by (intro exI [of _ "a + 16"] exI [of _ "kmalloc_take t a h"] exI [of _ ys])
        (auto intro!: exI [of _ u])
  qed
qed

text \<open>The heap after boot, as one free block.\<close>

lemma init_kheap_inv:
  assumes "base \<noteq> 0" and "4 dvd unat base" and "unat base + unat HEAP_SIZE < 4294967296"
  shows "heap_inv base (init_kheap base h) [(base, HEAP_SIZE, True)]"
  using assms by (simp add: heap_inv_def init_kheap_def mk_hdr_fold) (simp add: HEAP_SIZE_def)

text \<open>The address of \<open>heap_space\<close> used in the concrete instances.\<close>

definition heap_demo :: kheap where
  "heap_demo = init_kheap 0xC0400000
     \<lparr>hdr = (\<lambda>_. \<lparr>h_size = 0, h_is_free = 0, h_next = 0, h_prev = 0\<rparr>), heap_first = 0\<rparr>"

lemma heap_demo_inv: "heap_inv 0xC0400000 heap_demo [(0xC0400000, HEAP_SIZE, True)]"
  unfolding heap_demo_def by (rule init_kheap_inv) (simp_all add: HEAP_SIZE_def)

theorem kmalloc_correct_witness:
  "\<exists>p h' ys. kmalloc 100 heap_demo = Some (p, h') \<and> heap_inv 0xC0400000 h' ys \<and> p \<noteq> 0"
  using kmalloc_correct [OF heap_demo_inv, of 100] by (auto simp: HEAP_SIZE_def)

text \<open>
  C2: releasing a block in use keeps the heap well formed: the list afterwards is the list
  before with that block free and merged with its free neighbours, so that no two free
  blocks are adjacent, and every other block in use is untouched.
\<close>

theorem kfree_correct:
  assumes "heap_inv base h (l @ (a, s, False) # r)"
  shows "heap_inv base (kfree (a + 16) h) (abs_free l a s r) \<and>
    (\<forall>b u. (b, u, False) \<in> set (abs_free l a s r) \<longleftrightarrow> (b, u, False) \<in> set (l @ r))"
  using kfree_inv [OF assms] abs_free_used by blast

text \<open>
  a block that is allocated and released at once leaves no trace: the list of blocks
  is the one before, the split included.
\<close>

theorem kmalloc_kfree_roundtrip:
  assumes inv: "heap_inv base h xs" and sz: "size' \<noteq> 0" "unat size' \<le> 4294967276"
    and k: "kmalloc size' h = Some (p, h')"
  shows "heap_inv base (kfree p h') xs"
proof -
  define t where "t = align4 size' + 16"
  have "unat t = (unat size' + 3) div 4 * 4 + 16" using align4_unat [OF sz(2)] by (simp add: t_def)
  then have t: "16 \<le> unat t" "4 dvd unat t" by presburger+
  show ?thesis
  proof (cases "abs_alloc t xs")
    case None
    then have "p = 0 \<and> h' = h" using k kmalloc_refines [OF inv sz(1)] by (simp add: t_def)
    then show ?thesis using inv by (simp add: kfree_def)
  next
    case (Some ay)
    then obtain a ys where alloc: "abs_alloc t xs = Some (a, ys)" by (cases ay) auto
    obtain l s r where xs: "xs = l @ (a, s, True) # r" and ys: "ys = l @ split_block t (a, s, True) @ r"
      using abs_alloc_Some [OF alloc] by blast
    have p: "p = a + 16" and h': "h' = kmalloc_take t a h"
      using k kmalloc_refines [OF inv sz(1)] alloc by (simp_all add: t_def)
    have inv': "heap_inv base h' ys" using kmalloc_take_inv [OF inv alloc t] h' by simp
    have l: "join_left l a s r = xs"
      using inv by (cases rule: join_left_cases [of l a s r]) (auto simp: xs heap_inv_def coalesced_append)
    have r: "join_right a s r = (a, s, True) # r"
      using inv by (cases rule: join_right_cases [of r a s]) (auto simp: xs heap_inv_def coalesced_append)
    show ?thesis
    proof (cases "s > t + 20")
      case True
      then have "heap_inv base (kfree p h') (abs_free l a t ((a + t, s - t, True) # r))"
        using inv' kfree_inv by (simp add: ys split_block_def p)
      then show ?thesis using l by (simp add: abs_free_def join_right_def)
    next
      case False
      then have "heap_inv base (kfree p h') (abs_free l a s r)"
        using inv' kfree_inv by (simp add: ys split_block_def p)
      then show ?thesis using l r by (simp add: abs_free_def)
    qed
  qed
qed

lemma heap_demo_alloc:
  "kmalloc 100 heap_demo = Some (0xC0400010, kmalloc_take 116 0xC0400000 heap_demo)"
  "heap_inv 0xC0400000 (kmalloc_take 116 0xC0400000 heap_demo)
     [(0xC0400000, 116, False), (0xC0400074, 0x3FFF8C, True)]"
proof -
  have a: "abs_alloc 116 [(0xC0400000, HEAP_SIZE, True)] =
      Some (0xC0400000, [(0xC0400000, 116, False), (0xC0400074, 0x3FFF8C, True)])"
    by (simp add: split_block_def HEAP_SIZE_def)
  have "align4 100 + 16 = 116" by (simp add: align4_def)
  then show "kmalloc 100 heap_demo = Some (0xC0400010, kmalloc_take 116 0xC0400000 heap_demo)"
    using kmalloc_refines [OF heap_demo_inv, of 100] a by simp
  show "heap_inv 0xC0400000 (kmalloc_take 116 0xC0400000 heap_demo)
      [(0xC0400000, 116, False), (0xC0400074, 0x3FFF8C, True)]"
    by (rule kmalloc_take_inv [OF heap_demo_inv a]) simp_all
qed

theorem kfree_correct_witness:
  "heap_inv 0xC0400000 (kfree 0xC0400010 (kmalloc_take 116 0xC0400000 heap_demo))
     [(0xC0400000, HEAP_SIZE, True)]"
  using kfree_correct [of "0xC0400000" "kmalloc_take 116 0xC0400000 heap_demo" "[]"
      "0xC0400000" 116 "[(0xC0400074, 0x3FFF8C, True)]"] heap_demo_alloc(2)
  by (simp add: abs_free_def join_right_def join_left_def HEAP_SIZE_def)

theorem kmalloc_kfree_roundtrip_witness:
  "heap_inv 0xC0400000 (kfree 0xC0400010 (kmalloc_take 116 0xC0400000 heap_demo))
     [(0xC0400000, HEAP_SIZE, True)]"
  by (rule kmalloc_kfree_roundtrip [OF heap_demo_inv _ _ heap_demo_alloc(1)]) simp_all

text \<open>
  releasing the same pointer twice is harmless: the second \<open>kfree\<close> finds the header
  still marked free, merged or not, and changes nothing.
\<close>

theorem kfree_twice:
  assumes "heap_inv base h (l @ (a, s, False) # r)"
  shows "kfree (a + 16) (kfree (a + 16) h) = kfree (a + 16) h"
proof -
  have mem: "(a, s, False) \<in> set (l @ (a, s, False) # r)" by simp
  have nz: "a + 16 \<noteq> 0" using assms mem by (rule block_ptr_nz)
  have "h_is_free (hdr (merge_right a k) a) = h_is_free (hdr k a)"
    "h_is_free (hdr (merge_left a k) a) = h_is_free (hdr k a)" for k
    by (simp_all add: merge_right_def merge_left_def Let_def)
  then have "h_is_free (hdr (kfree (a + 16) h) a) \<noteq> 0" using nz by (simp add: kfree_def)
  then show ?thesis using nz by (simp add: kfree_def [of "a + 16" "kfree (a + 16) h"])
qed

theorem kfree_twice_witness:
  "kfree 0xC0400010 (kfree 0xC0400010 (kmalloc_take 116 0xC0400000 heap_demo)) =
   kfree 0xC0400010 (kmalloc_take 116 0xC0400000 heap_demo)"
  using kfree_twice [of "0xC0400000" "kmalloc_take 116 0xC0400000 heap_demo" "[]"
      "0xC0400000" 116 "[(0xC0400074, 0x3FFF8C, True)]"] heap_demo_alloc(2) by simp

text \<open>
  the size computation wraps around. A request of 4294967293 bytes or more is rounded
  up to 0, so that on any heap with a free block \<open>kmalloc\<close> succeeds with a block taken as if
  for an empty request: a header of 16 bytes and no payload when the block is split.
\<close>

theorem kmalloc_size_wraps:
  assumes inv: "heap_inv base h xs" and sz: "unat size' \<ge> 4294967293"
    and free: "(a0, s0, True) \<in> set xs"
  shows "align4 size' + 16 = 16 \<and> (\<exists>p h'. kmalloc size' h = Some (p, h') \<and> p \<noteq> 0)"
proof -
  have "unat size' = 4294967293 \<or> unat size' = 4294967294 \<or> unat size' = 4294967295"
    using sz unat_lt_u32 [of size'] by linarith
  then have "size' = 4294967293 \<or> size' = 4294967294 \<or> size' = 4294967295"
    by (auto simp: word_unat_eq_iff)
  moreover have "align4 4294967293 + 16 = 16" "align4 4294967294 + 16 = 16" "align4 4294967295 + 16 = 16"
    by code_simp+
  ultimately have t: "align4 size' + 16 = 16" and nz: "size' \<noteq> 0" by (elim disjE; simp)+
  have "\<not> (16 :: u32) \<le> s0" if "abs_alloc 16 xs = None" using abs_alloc_None [OF that free] .
  then obtain a ys where alloc: "abs_alloc 16 xs = Some (a, ys)"
    using heap_inv_addr(4) [OF inv free] by (cases "abs_alloc 16 xs") (auto simp: word_le_nat_alt)
  then obtain s where mem: "(a, s, True) \<in> set xs" using abs_alloc_Some [OF alloc] by fastforce
  have "a + 16 \<noteq> 0" using inv mem by (rule block_ptr_nz)
  then show ?thesis using kmalloc_refines [OF inv nz] alloc t by auto
qed

theorem kmalloc_size_wraps_witness:
  "align4 0xFFFFFFFF + 16 = 16 \<and> (\<exists>p h'. kmalloc 0xFFFFFFFF heap_demo = Some (p, h') \<and> p \<noteq> 0)"
  by (rule kmalloc_size_wraps [OF heap_demo_inv, of _ "0xC0400000" HEAP_SIZE]) simp_all

section \<open>The interface to the rest of the kernel\<close>

text \<open>
  What the network stack, the sockets and the file systems rely on: a request returns,
  either 0 with nothing changed or a buffer that was not live before and holds the request;
  releasing a live buffer removes just that one.
\<close>

locale allocator =
  fixes malloc :: "u32 \<Rightarrow> 'h \<Rightarrow> (u32 \<times> 'h) option"
    and release :: "u32 \<Rightarrow> 'h \<Rightarrow> 'h"
    and ainv :: "'h \<Rightarrow> bool"
    and live :: "'h \<Rightarrow> (u32 \<times> nat) set"
  assumes malloc_ok: "\<lbrakk>ainv h; n \<noteq> 0; unat n \<le> 4294967276\<rbrakk> \<Longrightarrow>
      \<exists>p h'. malloc n h = Some (p, h') \<and> ainv h' \<and>
        (p = 0 \<and> h' = h \<or>
         p \<noteq> 0 \<and> (\<exists>c. unat n \<le> c \<and> live h' = insert (p, c) (live h) \<and> p \<notin> fst ` live h))"
    and release_ok: "\<lbrakk>ainv h; (p, c) \<in> live h\<rbrakk> \<Longrightarrow> ainv (release p h) \<and> live (release p h) = live h - {(p, c)}"
    and release_null: "release 0 h = h"
begin

lemma malloc_returns:
  "\<lbrakk>ainv h; n \<noteq> 0; unat n \<le> 4294967276\<rbrakk> \<Longrightarrow> \<exists>p h'. malloc n h = Some (p, h')"
  using malloc_ok by blast

text \<open>A buffer that is taken and given back leaves the live buffers as they were.\<close>

lemma scratch_buffer:
  assumes "ainv h" and "n \<noteq> 0" and "unat n \<le> 4294967276" and "malloc n h = Some (p, h')"
  shows "ainv (release p h') \<and> live (release p h') = live h"
proof -
  have "ainv h'" and "p = 0 \<and> h' = h \<or>
      p \<noteq> 0 \<and> (\<exists>c. unat n \<le> c \<and> live h' = insert (p, c) (live h) \<and> p \<notin> fst ` live h)"
    using malloc_ok [OF assms(1-3)] assms(4) by simp_all
  then show ?thesis
  proof (elim disjE conjE exE)
    assume "p = 0" and "h' = h"
    then show ?thesis using release_null assms(1) by simp
  next
    fix c
    assume "ainv h'" and l: "live h' = insert (p, c) (live h)" and "p \<notin> fst ` live h"
    then have "(p, c) \<notin> live h" by force
    then show ?thesis using release_ok [OF \<open>ainv h'\<close>, of p c] l by simp
  qed
qed

end

definition kheap_ok :: "u32 \<Rightarrow> kheap \<Rightarrow> bool" where
  "kheap_ok base h \<longleftrightarrow> (\<exists>xs. heap_inv base h xs)"

definition kheap_live :: "u32 \<Rightarrow> kheap \<Rightarrow> (u32 \<times> nat) set" where
  "kheap_live base h = {(a + 16, unat s - 16) | a s. \<exists>xs. heap_inv base h xs \<and> (a, s, False) \<in> set xs}"

lemma kheap_live_inv:
  "heap_inv base h xs \<Longrightarrow> kheap_live base h = {(a + 16, unat s - 16) | a s. (a, s, False) \<in> set xs}"
proof -
  assume inv: "heap_inv base h xs"
  have "(\<exists>ys. heap_inv base h ys \<and> (a, s, False) \<in> set ys) \<longleftrightarrow> (a, s, False) \<in> set xs" for a s
    using heap_inv_unique [OF inv] inv by blast
  then show ?thesis unfolding kheap_live_def by simp
qed

lemma kmalloc_live_bound:
  assumes inv: "heap_inv base h xs" and sz: "size' \<noteq> 0" "unat size' \<le> 4294967276"
  shows "\<exists>p h'. kmalloc size' h = Some (p, h') \<and> kheap_ok base h' \<and>
    (p = 0 \<and> h' = h \<or> p \<noteq> 0 \<and> (\<exists>c. unat size' \<le> c \<and> c \<le> unat size' + 23 \<and>
       kheap_live base h' = insert (p, c) (kheap_live base h) \<and> p \<notin> fst ` kheap_live base h))"
proof -
  define t where "t = align4 size' + 16"
  have ut: "unat t = (unat size' + 3) div 4 * 4 + 16" using align4_unat [OF sz(2)] by (simp add: t_def)
  then have t: "16 \<le> unat t" "4 dvd unat t" "unat size' + 16 \<le> unat t" by presburger+
  show ?thesis
  proof (cases "abs_alloc t xs")
    case None
    then show ?thesis using kmalloc_refines [OF inv sz(1)] inv by (auto simp: t_def kheap_ok_def)
  next
    case (Some ay)
    then obtain a ys where alloc: "abs_alloc t xs = Some (a, ys)" by (cases ay) auto
    obtain l s r where xs: "xs = l @ (a, s, True) # r" and ts: "t \<le> s"
      and ys: "ys = l @ split_block t (a, s, True) @ r"
      using abs_alloc_Some [OF alloc] by blast
    have inv': "heap_inv base (kmalloc_take t a h) ys" using kmalloc_take_inv [OF inv alloc t(1,2)] .
    define u where "u = (if s > t + 20 then t else s)"
    have "unat s \<le> unat HEAP_SIZE"
      using inv tiles_bounds [of "unat base" "unat base + unat HEAP_SIZE" xs a s True] by (auto simp: heap_inv_def xs)
    then have "unat t \<le> 4194304" "unat s \<le> 4194304" using ts by (simp_all add: HEAP_SIZE_def word_le_nat_alt)
    then have ub: "unat u \<le> unat t + 20" by (simp add: u_def word_less_nat_alt unat_plus_u32 split: if_splits)
    have u: "unat t \<le> unat u" using ts by (simp add: u_def word_le_nat_alt)
    have ys': "(b, v, False) \<in> set ys \<longleftrightarrow> (b, v) = (a, u) \<or> (b, v, False) \<in> set xs" for b v
      by (auto simp: ys xs u_def split_block_def)
    have "kheap_live base (kmalloc_take t a h) = insert (a + 16, unat u - 16) (kheap_live base h)"
      unfolding kheap_live_inv [OF inv'] kheap_live_inv [OF inv] ys' by auto
    moreover have "a + 16 \<notin> fst ` kheap_live base h"
      using heap_inv_distinct [OF inv] unfolding kheap_live_inv [OF inv] by (force simp: xs)
    moreover have "a + 16 \<noteq> 0"
      by (rule block_ptr_nz [OF inv, of a s True]) (simp add: xs)
    ultimately show ?thesis
      using kmalloc_refines [OF inv sz(1)] alloc inv' u ub t(3) ut
      by (auto simp: t_def [symmetric] kheap_ok_def intro!: exI [of _ "unat u - 16"])
  qed
qed

lemma kmalloc_live:
  assumes inv: "heap_inv base h xs" and sz: "size' \<noteq> 0" "unat size' \<le> 4294967276"
  shows "\<exists>p h'. kmalloc size' h = Some (p, h') \<and> kheap_ok base h' \<and>
    (p = 0 \<and> h' = h \<or> p \<noteq> 0 \<and> (\<exists>c. unat size' \<le> c \<and>
       kheap_live base h' = insert (p, c) (kheap_live base h) \<and> p \<notin> fst ` kheap_live base h))"
  using kmalloc_live_bound [OF assms] by blast

lemma kfree_live:
  assumes inv: "heap_inv base h xs" and m: "(p, c) \<in> kheap_live base h"
  shows "kheap_ok base (kfree p h) \<and> kheap_live base (kfree p h) = kheap_live base h - {(p, c)}"
proof -
  obtain a s where p: "p = a + 16" and c: "c = unat s - 16" and mem: "(a, s, False) \<in> set xs"
    using m unfolding kheap_live_inv [OF inv] by auto
  then obtain l r where xs: "xs = l @ (a, s, False) # r" by (meson split_list)
  have f: "heap_inv base (kfree p h) (abs_free l a s r)"
    "(b, u, False) \<in> set (abs_free l a s r) \<longleftrightarrow> (b, u, False) \<in> set (l @ r)" for b u
    using kfree_inv inv abs_free_used by (auto simp: xs p)
  have lr: "(b, u, False) \<in> set (l @ r) \<longleftrightarrow> (b, u, False) \<in> set xs \<and> b \<noteq> a" for b u
    using heap_inv_distinct [OF inv] by (force simp: xs)
  have same: "u = s" if "(a, u, False) \<in> set xs" for u
    using heap_inv_distinct [OF inv] mem that by (metis eq_key_imp_eq_value prod.inject)
  have eq: "{(b + 16, unat u - 16) | b u. (b, u, False) \<in> set (l @ r)} =
      {(b + 16, unat u - 16) | b u. (b, u, False) \<in> set xs} - {(a + 16, unat s - 16)}" (is "?A = ?B - ?C")
  proof
    show "?A \<subseteq> ?B - ?C"
    proof
      fix x assume "x \<in> ?A"
      then obtain b u where x: "x = (b + 16, unat u - 16)" and "(b, u, False) \<in> set (l @ r)" by blast
      then have "(b, u, False) \<in> set xs" and "b + 16 \<noteq> a + 16" using lr by simp_all
      then show "x \<in> ?B - ?C" unfolding x by blast
    qed
    show "?B - ?C \<subseteq> ?A"
    proof
      fix x assume "x \<in> ?B - ?C"
      then obtain b u where x: "x = (b + 16, unat u - 16)" and m: "(b, u, False) \<in> set xs"
        and "x \<noteq> (a + 16, unat s - 16)" by blast
      then have "b \<noteq> a" using same by blast
      then show "x \<in> ?A" using lr m unfolding x by blast
    qed
  qed
  have "kheap_live base (kfree p h) = kheap_live base h - {(p, c)}"
    using eq kheap_live_inv [OF f(1)] kheap_live_inv [OF inv] unfolding f(2) by (simp only: p c)
  then show ?thesis using f(1) by (auto simp: kheap_ok_def)
qed

text \<open>A heap with no live buffer is a single free block.\<close>

lemma unused_heap_block:
  assumes "kheap_ok base h" and "kheap_live base h = {}"
  shows "heap_inv base h [(base, HEAP_SIZE, True)]"
proof -
  obtain xs where inv: "heap_inv base h xs" using assms(1) by (auto simp: kheap_ok_def)
  have free: "f" if "(a, s, f) \<in> set xs" for a s f
    using that assms(2) unfolding kheap_live_inv [OF inv] by (cases f) auto
  have t: "tiles (unat base) (unat base + unat HEAP_SIZE) xs" and c: "coalesced xs"
    using inv by (simp_all add: heap_inv_def)
  from c t free have "\<exists>a s. xs = [(a, s, True)]"
    by (cases xs rule: coalesced.cases) (auto simp: HEAP_SIZE_def)
  then obtain a s where xs: "xs = [(a, s, True)]" by blast
  then have "unat a = unat base" "unat s = unat HEAP_SIZE" using t by auto
  then have "xs = [(base, HEAP_SIZE, True)]" using xs by (simp add: word_unat_eq_iff)
  then show ?thesis using inv by simp
qed

lemma unused_heap_room:
  assumes "kheap_ok base h" and "kheap_live base h = {}" and "n \<noteq> 0" and "unat n \<le> 4194284"
  shows "kmalloc n h \<noteq> Some (0, h')"
proof -
  note inv = unused_heap_block [OF assms(1,2)]
  have "unat (align4 n + 16) \<le> unat HEAP_SIZE" using align4_unat [of n] assms(4) by (simp add: HEAP_SIZE_def)
  then show ?thesis
    using kmalloc_refines [OF inv assms(3)] block_ptr_nz [OF inv, of base HEAP_SIZE True] by (simp add: word_le_nat_alt)
qed

text \<open>
  A heap with few live buffers, none of them large, has room: between two of them there is at
  most one free block, so one of these is large.
\<close>

lemma tiles_total:
  assumes "tiles a e xs" and "coalesced xs" and "\<forall>(b, s, f) \<in> set xs. unat s \<le> (if f then F else U)"
  shows "e \<le> a + length (filter (\<lambda>(b, s, f). \<not> f) xs) * (U + F) + (if xs \<noteq> [] \<and> snd (snd (hd xs)) then F else 0)"
  using assms
proof (induction xs arbitrary: a)
  case (Cons x xs)
  obtain b s f where x: "x = (b, s, f)" by (cases x)
  have c: "coalesced xs" using Cons.prems(2) by (cases xs) (auto simp: x elim: coalesced.elims)
  have t: "tiles (a + unat s) e xs" using Cons.prems(1) by (simp add: x)
  have IH: "e \<le> a + unat s + length (filter (\<lambda>(b, s, f). \<not> f) xs) * (U + F) + (if xs \<noteq> [] \<and> snd (snd (hd xs)) then F else 0)"
    using Cons.IH [OF t c] Cons.prems(3) by simp
  show ?case
  proof (cases f)
    case True
    then have "\<not> (xs \<noteq> [] \<and> snd (snd (hd xs)))" using Cons.prems(2) by (cases xs) (auto simp: x)
    then show ?thesis using IH Cons.prems(3) True by (auto simp: x)
  next
    case False
    then show ?thesis using IH Cons.prems(3) by (auto simp: x algebra_simps split: if_splits)
  qed
qed simp

lemma heap_room:
  assumes ok: "kheap_ok base h" and live: "card (kheap_live base h) \<le> K" "\<forall>(p, c) \<in> kheap_live base h. c \<le> C"
    and n: "n \<noteq> 0" "unat n \<le> C" and room: "K * (2 * C + 35) + C + 19 < 4194304"
  shows "kmalloc n h \<noteq> Some (0, h')"
proof
  assume k: "kmalloc n h = Some (0, h')"
  obtain xs where inv: "heap_inv base h xs" using ok by (auto simp: kheap_ok_def)
  define t where "t = align4 n + 16"
  have ut: "unat t \<le> C + 19" using align4_unat [of n] n(2) room by (simp add: t_def)
  have none: "abs_alloc t xs = None"
  proof (rule ccontr)
    assume "abs_alloc t xs \<noteq> None"
    then obtain a ys where al: "abs_alloc t xs = Some (a, ys)" by auto
    then obtain l s r where "xs = l @ (a, s, True) # r" using abs_alloc_Some [OF al] by blast
    then have "(a, s, True) \<in> set xs" by simp
    then have "a + 16 \<noteq> 0" using block_ptr_nz [OF inv] by blast
    then show False using k kmalloc_refines [OF inv n(1)] al by (simp add: t_def)
  qed
  define used where "used = filter (\<lambda>(b, s, f). \<not> f) xs"
  have d: "distinct (map fst xs)" by (rule heap_inv_distinct [OF inv])
  have L: "kheap_live base h = (\<lambda>(a, s, f). (a + 16, unat s - 16)) ` set used"
    unfolding kheap_live_inv [OF inv] by (force simp: used_def)
  have "inj_on (\<lambda>(a, s, f). (a + 16, unat s - 16)) (set used)"
    using d unfolding inj_on_def used_def by (auto dest: eq_key_imp_eq_value)
  moreover have "distinct used" using d by (simp add: used_def distinct_map)
  ultimately have len: "length used \<le> K"
    using live(1) unfolding L by (simp add: card_image distinct_card)
  have b: "unat s \<le> (if f then C + 19 else C + 16)" if "(a, s, f) \<in> set xs" for a s f
  proof (cases f)
    case True
    then show ?thesis using abs_alloc_None [OF none, of a s] that ut by (simp add: word_le_nat_alt)
  next
    case False
    then have "(a + 16, unat s - 16) \<in> kheap_live base h" using that unfolding kheap_live_inv [OF inv] by auto
    then show ?thesis using live(2) False by auto
  qed
  have "tiles (unat base) (unat base + unat HEAP_SIZE) xs" "coalesced xs" using inv by (simp_all add: heap_inv_def)
  moreover have "\<forall>(a, s, f) \<in> set xs. unat s \<le> (if f then C + 19 else C + 16)" using b by blast
  ultimately have "unat base + unat HEAP_SIZE \<le> unat base + length used * (C + 16 + (C + 19)) +
      (if xs \<noteq> [] \<and> snd (snd (hd xs)) then C + 19 else 0)"
    unfolding used_def by (rule tiles_total)
  then have "unat HEAP_SIZE \<le> length used * (2 * C + 35) + (C + 19)" by (simp add: algebra_simps split: if_splits)
  also have "\<dots> \<le> K * (2 * C + 35) + (C + 19)" using len by simp
  finally show False using room by (simp add: HEAP_SIZE_def)
qed

lemma sparse_heap_room:
  assumes "kheap_ok base h" and "card (kheap_live base h) \<le> 1000" "\<forall>(p, c) \<in> kheap_live base h. c \<le> 2000"
    and "n \<noteq> 0" "unat n \<le> 2000"
  shows "kmalloc n h \<noteq> Some (0, h')"
  using heap_room [OF assms] by simp

lemma heap_demo_room: "kheap_ok 0xC0400000 heap_demo" "kheap_live 0xC0400000 heap_demo = {}"
    "\<forall>h. kmalloc 20 heap_demo \<noteq> Some (0, h)"
proof -
  show ok: "kheap_ok 0xC0400000 heap_demo" "kheap_live 0xC0400000 heap_demo = {}"
    using heap_demo_inv by (auto simp: kheap_ok_def kheap_live_inv [OF heap_demo_inv])
  show "\<forall>h. kmalloc 20 heap_demo \<noteq> Some (0, h)" using unused_heap_room [OF ok, of 20] by simp
qed

interpretation kh: allocator kmalloc kfree "kheap_ok base" "kheap_live base" for base
proof
  fix h :: kheap and n :: u32
  assume ok: "kheap_ok base h" and n: "n \<noteq> 0" "unat n \<le> 4294967276"
  obtain xs where inv: "heap_inv base h xs" using ok by (auto simp: kheap_ok_def)
  show "\<exists>p h'. kmalloc n h = Some (p, h') \<and> kheap_ok base h' \<and>
    (p = 0 \<and> h' = h \<or> p \<noteq> 0 \<and> (\<exists>c. unat n \<le> c \<and>
       kheap_live base h' = insert (p, c) (kheap_live base h) \<and> p \<notin> fst ` kheap_live base h))"
    using inv n by (rule kmalloc_live)
next
  fix h :: kheap and p :: u32 and c
  assume ok: "kheap_ok base h" and m: "(p, c) \<in> kheap_live base h"
  obtain xs where inv: "heap_inv base h xs" using ok by (auto simp: kheap_ok_def)
  show "kheap_ok base (kfree p h) \<and> kheap_live base (kfree p h) = kheap_live base h - {(p, c)}"
    using inv m by (rule kfree_live)
next
  show "kfree 0 h = h" for h by (simp add: kfree_def)
qed

end
