(* ===== verification/Linked.thy ===== *)
theory Linked
  imports Peker_Prelude
begin

text \<open>
  Doubly linked lists of heap objects with a head and a tail pointer. The two link fields are
  functions from addresses, so the lemmas apply to every store whose objects have such fields;
  the null pointer ends a list on both sides.
\<close>

fun dchain :: "(u32 \<Rightarrow> u32) \<Rightarrow> (u32 \<Rightarrow> u32) \<Rightarrow> u32 \<Rightarrow> u32 \<Rightarrow> u32 list \<Rightarrow> bool" where
  "dchain nx pv p n [] \<longleftrightarrow> True"
| "dchain nx pv p n (x # xs) \<longleftrightarrow> pv x = p \<and> nx x = (case xs of [] \<Rightarrow> n | y # _ \<Rightarrow> y) \<and> dchain nx pv x n xs"

definition first :: "u32 list \<Rightarrow> u32 \<Rightarrow> u32" where
  "first xs n = (case xs of [] \<Rightarrow> n | y # _ \<Rightarrow> y)"

definition final :: "u32 list \<Rightarrow> u32 \<Rightarrow> u32" where
  "final xs p = (if xs = [] then p else last xs)"

lemma first_simps [simp]: "first [] n = n" "first (x # xs) n = x"
  by (simp_all add: first_def)

lemma final_simps [simp]: "final [] p = p" "final (x # xs) p = final xs x"
  by (cases xs; simp add: final_def)+

lemma ends_append [simp]: "first (xs @ ys) n = first xs (first ys n)" "final (xs @ ys) p = final ys (final xs p)"
  by (cases xs; simp) (simp add: final_def)

lemma final_in: "xs \<noteq> [] \<Longrightarrow> final xs p \<in> set xs"
  by (simp add: final_def)

lemma first_in: "xs \<noteq> [] \<Longrightarrow> first xs p \<in> set xs"
  by (cases xs) simp_all

lemma dchain_Cons: "dchain nx pv p n (x # xs) \<longleftrightarrow> pv x = p \<and> nx x = first xs n \<and> dchain nx pv x n xs"
  by (simp add: first_def)

lemma dchain_append: "dchain nx pv p n (xs @ ys) \<longleftrightarrow> dchain nx pv p (first ys n) xs \<and> dchain nx pv (final xs p) n ys"
  by (induction xs arbitrary: p) (auto simp: first_def split: list.split)

declare dchain.simps(2) [simp del]
declare dchain_Cons [simp]

lemma dchain_cong:
  "(\<And>x. x \<in> set xs \<Longrightarrow> nx x = nx' x \<and> pv x = pv' x) \<Longrightarrow> dchain nx pv p n xs = dchain nx' pv' p n xs"
  by (induction xs arbitrary: p) simp_all

lemma dchain_upd [simp]:
  "a \<notin> set xs \<Longrightarrow> dchain (nx(a := v)) pv p n xs = dchain nx pv p n xs"
  "a \<notin> set xs \<Longrightarrow> dchain nx (pv(a := v)) p n xs = dchain nx pv p n xs"
  by (rule dchain_cong; auto)+

definition linked :: "(u32 \<Rightarrow> u32) \<Rightarrow> (u32 \<Rightarrow> u32) \<Rightarrow> u32 \<Rightarrow> u32 \<Rightarrow> u32 list \<Rightarrow> bool" where
  "linked nx pv h t xs \<longleftrightarrow> dchain nx pv 0 0 xs \<and> distinct xs \<and> 0 \<notin> set xs \<and> h = first xs 0 \<and> t = final xs 0"

lemma linked_cong:
  "(\<And>x. x \<in> set xs \<Longrightarrow> nx x = nx' x \<and> pv x = pv' x) \<Longrightarrow> linked nx pv h t xs = linked nx' pv' h t xs"
  by (simp add: linked_def cong: dchain_cong)

lemma linked_Nil [simp]: "linked nx pv h t [] \<longleftrightarrow> h = 0 \<and> t = 0"
  by (simp add: linked_def)

lemma linked_empty: "linked nx pv h t xs \<Longrightarrow> h = 0 \<longleftrightarrow> xs = []" "linked nx pv h t xs \<Longrightarrow> t = 0 \<longleftrightarrow> xs = []"
  by (cases xs; simp add: linked_def)
     (cases xs rule: rev_cases; simp add: linked_def)

lemma linked_tail: "linked nx pv h t xs \<Longrightarrow> xs \<noteq> [] \<Longrightarrow> t \<in> set xs \<and> t = last xs"
  by (auto simp: linked_def final_def)

lemma linked_member:
  assumes "linked nx pv h t (l @ x # r)"
  shows "pv x = final l 0" "nx x = first r 0" "x = h \<longleftrightarrow> l = []" "x = t \<longleftrightarrow> r = []" "x \<noteq> 0"
proof -
  note a = assms [unfolded linked_def dchain_append]
  show "pv x = final l 0" "nx x = first r 0" "x \<noteq> 0" using a by auto
  show "x = h \<longleftrightarrow> l = []" using a by (cases l) auto
  show "x = t \<longleftrightarrow> r = []" using a by (cases r rule: rev_cases) (auto simp: final_def)
qed

text \<open>A new element behind the last one.\<close>

lemma linked_append:
  assumes "linked nx pv h t xs" and "x \<notin> set xs" and "x \<noteq> 0"
    and "nx' x = 0" and "pv' x = t"
    and "xs \<noteq> [] \<Longrightarrow> nx' t = x \<and> pv' t = pv t" and "\<And>y. y \<in> set xs \<Longrightarrow> y \<noteq> t \<Longrightarrow> nx' y = nx y \<and> pv' y = pv y"
  shows "linked nx' pv' (if xs = [] then x else h) x (xs @ [x])"
proof (cases xs rule: rev_cases)
  case Nil
  then show ?thesis using assms by (simp add: linked_def)
next
  case (snoc ys y)
  have t: "t = y" using assms(1) snoc by (simp add: linked_def)
  have "dchain nx' pv' p n ys = dchain nx pv p n ys" for p n
    by (rule dchain_cong) (use assms(1,7) snoc t in \<open>auto simp: linked_def\<close>)
  then show ?thesis using assms snoc t by (auto simp: linked_def dchain_append)
qed

text \<open>An element is unlinked: its neighbours are joined.\<close>

lemma linked_remove:
  assumes l: "linked nx pv h t (l @ x # r)"
    and nx': "\<And>y. y \<in> set (l @ r) \<Longrightarrow> nx' y = (if y = pv x then nx x else nx y)"
    and pv': "\<And>y. y \<in> set (l @ r) \<Longrightarrow> pv' y = (if y = nx x then pv x else pv y)"
  shows "linked nx' pv' (if x = h then nx x else h) (if x = t then pv x else t) (l @ r)"
proof -
  note m = linked_member [OF l]
  note a = l [unfolded linked_def dchain_append]
  have L: "dchain nx' pv' 0 (first r 0) l"
  proof (cases l rule: rev_cases)
    case (snoc ys y)
    have "dchain nx' pv' 0 y ys = dchain nx pv 0 y ys"
      by (rule dchain_cong) (use a nx' pv' snoc m first_in [of r 0] in \<open>auto; (cases r; auto)?\<close>)
    moreover have "nx' y = first r 0" "pv' y = pv y"
      using a nx' [of y] pv' [of y] snoc m first_in [of r 0] by (auto; cases r; auto)+
    ultimately show ?thesis using a snoc by (auto simp: dchain_append)
  qed simp
  have R: "dchain nx' pv' (final l 0) 0 r"
  proof (cases r)
    case (Cons y ys)
    have "dchain nx' pv' y 0 ys = dchain nx pv y 0 ys"
      by (rule dchain_cong) (use a nx' pv' Cons m final_in [of l 0] in \<open>auto; (cases l; auto)?\<close>)
    moreover have "pv' y = final l 0" "nx' y = nx y"
      using a nx' [of y] pv' [of y] Cons m final_in [of l 0] by (auto; cases l; auto)+
    ultimately show ?thesis using a Cons by auto
  qed simp
  have "(if x = h then nx x else h) = first (l @ r) 0" using a m by (cases l) auto
  moreover have "(if x = t then pv x else t) = final (l @ r) 0" using a m by (cases r rule: rev_cases) (auto simp: final_def)
  ultimately show ?thesis using L R a by (auto simp: linked_def dchain_append)
qed

end
