(* ===== verification/Gui.thy ===== *)
theory Gui
  imports Vbe Drivers Kheap Linked "HOL-Library.Signed_Division"
begin

text \<open>
  The window system, \<open>kernel/ui/gui.c\<close>. Windows and widgets are objects on the kernel heap,
  linked in both directions; the model keeps a store from addresses to windows and one from
  addresses to widgets, and follows the pointers as the code does. The list of the windows is
  shown to be the stacking order: a click finds the front window under the pointer, closes it
  or brings it to the front, a press on the title bar starts moving it, and drawing goes
  from the back to the front. Coordinates are integers as in the graphics primitives.
\<close>

section \<open>State\<close>

datatype gui_widget_type = WIDGET_BUTTON | WIDGET_LABEL | WIDGET_TEXTBOX

text \<open>The click functions a widget may hold: none, or \<open>test_btn_click\<close>.\<close>

datatype click_fun = No_click | Test_btn_click

record gui_widget =
  wtype :: gui_widget_type
  wx :: int
  wy :: int
  ww :: int
  wh :: int
  wtext :: cstring
  bg_color :: u32
  fg_color :: u32
  on_click :: click_fun
  wnext :: u32
  wprev :: u32

record window =
  win_x :: int
  win_y :: int
  win_w :: int
  win_h :: int
  title :: cstring
  color :: u32
  active :: int
  focus :: int
  is_dragging :: int
  widgets_head :: u32
  widgets_tail :: u32
  win_next :: u32
  win_prev :: u32

text \<open>
  The variables of \<open>gui.c\<close>, with those that are static inside \<open>gui_on_mouse_event\<close>, the
  kernel heap the objects are taken from and the objects themselves.
\<close>

record gui = vbe +
  gheap :: kheap
  wins :: "u32 \<Rightarrow> window"
  widgets :: "u32 \<Rightarrow> gui_widget"
  window_list_head :: u32
  window_list_tail :: u32
  last_buttons :: int
  dragged_window :: u32
  drag_off_x :: int
  drag_off_y :: int

definition upd_win :: "u32 \<Rightarrow> (window \<Rightarrow> window) \<Rightarrow> 'a gui_scheme \<Rightarrow> 'a gui_scheme" where
  "upd_win p f s = s\<lparr>wins := (wins s)(p := f (wins s p))\<rparr>"

definition upd_widget :: "u32 \<Rightarrow> (gui_widget \<Rightarrow> gui_widget) \<Rightarrow> 'a gui_scheme \<Rightarrow> 'a gui_scheme" where
  "upd_widget p f s = s\<lparr>widgets := (widgets s)(p := f (widgets s p))\<rparr>"

definition sizeof_window :: u32 where "sizeof_window = 112"
definition sizeof_widget :: u32 where "sizeof_widget = 104"

text \<open>Objects after \<open>memset\<close>.\<close>

definition zero_window :: window where
  "zero_window = \<lparr>win_x = 0, win_y = 0, win_w = 0, win_h = 0, title = [], color = 0, active = 0, focus = 0,
     is_dragging = 0, widgets_head = 0, widgets_tail = 0, win_next = 0, win_prev = 0\<rparr>"

definition zero_widget :: gui_widget where
  "zero_widget = \<lparr>wtype = WIDGET_BUTTON, wx = 0, wy = 0, ww = 0, wh = 0, wtext = [], bg_color = 0, fg_color = 0,
     on_click = No_click, wnext = 0, wprev = 0\<rparr>"

text \<open>
  An allocation that is written through at once: a null pointer halts the kernel, which is
  the value None. So does \<open>strcpy\<close> of a text that does not fit into the 64 bytes of its
  field, whose effect on the fields behind it the model leaves out.
\<close>

definition gui_alloc :: "u32 \<Rightarrow> 'a gui_scheme \<Rightarrow> (u32 \<times> 'a gui_scheme) option" where
  "gui_alloc n s = do { (p, h) \<leftarrow> kmalloc n (gheap s); if p = 0 then None else Some (p, s\<lparr>gheap := h\<rparr>) }"

definition strcpy64 :: "cstring \<Rightarrow> cstring option" where
  "strcpy64 str = (if strlen str < 64 then Some (cstr str) else None)"

section \<open>Windows and widgets\<close>

definition gui_init :: "'a gui_scheme \<Rightarrow> 'a gui_scheme" where
  "gui_init s = s\<lparr>window_list_head := 0, window_list_tail := 0\<rparr>"

text \<open>Removal from the list, the same three statements in the two functions that follow.\<close>

definition unlink_window :: "u32 \<Rightarrow> 'a gui_scheme \<Rightarrow> 'a gui_scheme" where
  "unlink_window win s =
     (let s1 = (if win_prev (wins s win) \<noteq> 0
                then upd_win (win_prev (wins s win)) (\<lambda>v. v\<lparr>win_next := win_next (wins s win)\<rparr>) s else s);
          s2 = (if win_next (wins s1 win) \<noteq> 0
                then upd_win (win_next (wins s1 win)) (\<lambda>v. v\<lparr>win_prev := win_prev (wins s1 win)\<rparr>) s1 else s1)
      in if win = window_list_head s2 then s2\<lparr>window_list_head := win_next (wins s2 win)\<rparr> else s2)"

definition gui_destroy_window :: "u32 \<Rightarrow> 'a gui_scheme \<Rightarrow> 'a gui_scheme" where
  "gui_destroy_window win s =
     (if win = 0 then s
      else
        let s3 = unlink_window win s;
            s4 = (if win = window_list_tail s3 then s3\<lparr>window_list_tail := win_prev (wins s3 win)\<rparr> else s3)
        in s4\<lparr>gheap := kfree win (gheap s4)\<rparr>)"

definition gui_bring_to_front :: "u32 \<Rightarrow> 'a gui_scheme \<Rightarrow> 'a gui_scheme" where
  "gui_bring_to_front win s =
     (if win = 0 \<or> win = window_list_tail s then s
      else
        let s3 = unlink_window win s;
            s4 = upd_win win (\<lambda>v. v\<lparr>win_next := 0, win_prev := window_list_tail s3\<rparr>) s3;
            s5 = (if window_list_tail s4 \<noteq> 0 then upd_win (window_list_tail s4) (\<lambda>v. v\<lparr>win_next := win\<rparr>) s4 else s4);
            s6 = s5\<lparr>window_list_tail := win\<rparr>
        in if window_list_head s6 = 0 then s6\<lparr>window_list_head := win\<rparr> else s6)"

definition gui_create_window ::
  "cstring \<Rightarrow> int \<Rightarrow> int \<Rightarrow> int \<Rightarrow> int \<Rightarrow> u32 \<Rightarrow> 'a gui_scheme \<Rightarrow> (u32 \<times> 'a gui_scheme) option" where
  "gui_create_window ttl x y w h c s = do {
     (win, s1) \<leftarrow> gui_alloc sizeof_window s;
     txt \<leftarrow> strcpy64 ttl;
     let s2 = upd_win win (\<lambda>_. zero_window\<lparr>win_x := x, win_y := y, win_w := w, win_h := h, color := c, active := 1,
                 title := txt, widgets_head := 0, widgets_tail := 0\<rparr>) s1;
     Some (win,
       if window_list_head s2 = 0 then s2\<lparr>window_list_head := win, window_list_tail := win\<rparr>
       else
         let s3 = upd_win (window_list_tail s2) (\<lambda>v. v\<lparr>win_next := win\<rparr>) s2;
             s4 = upd_win win (\<lambda>v. v\<lparr>win_prev := window_list_tail s3\<rparr>) s3
         in s4\<lparr>window_list_tail := win\<rparr>)
   }"

text \<open>The widget is appended to the list of the window, as both constructors do.\<close>

definition link_widget :: "u32 \<Rightarrow> u32 \<Rightarrow> 'a gui_scheme \<Rightarrow> 'a gui_scheme" where
  "link_widget win btn s =
     (if widgets_head (wins s win) = 0 then upd_win win (\<lambda>v. v\<lparr>widgets_head := btn, widgets_tail := btn\<rparr>) s
      else
        let s1 = upd_widget (widgets_tail (wins s win)) (\<lambda>v. v\<lparr>wnext := btn\<rparr>) s;
            s2 = upd_widget btn (\<lambda>v. v\<lparr>wprev := widgets_tail (wins s1 win)\<rparr>) s1
        in upd_win win (\<lambda>v. v\<lparr>widgets_tail := btn\<rparr>) s2)"

definition gui_create_button ::
  "u32 \<Rightarrow> int \<Rightarrow> int \<Rightarrow> int \<Rightarrow> int \<Rightarrow> cstring \<Rightarrow> click_fun \<Rightarrow> 'a gui_scheme \<Rightarrow> (u32 \<times> 'a gui_scheme) option" where
  "gui_create_button win x y w h text f s =
     (if win = 0 then Some (0, s)
      else do {
        (btn, s1) \<leftarrow> gui_alloc sizeof_widget s;
        txt \<leftarrow> strcpy64 text;
        let s2 = upd_widget btn (\<lambda>_. zero_widget\<lparr>wtype := WIDGET_BUTTON, wx := x, wy := y, ww := w, wh := h, wtext := txt,
                   bg_color := 0x00DFE4EA, fg_color := 0x002F3542, on_click := f\<rparr>) s1;
        Some (btn, link_widget win btn s2)
      })"

definition gui_create_label ::
  "u32 \<Rightarrow> int \<Rightarrow> int \<Rightarrow> cstring \<Rightarrow> u32 \<Rightarrow> 'a gui_scheme \<Rightarrow> (u32 \<times> 'a gui_scheme) option" where
  "gui_create_label win x y text c s =
     (if win = 0 then Some (0, s)
      else do {
        (lbl, s1) \<leftarrow> gui_alloc sizeof_widget s;
        txt \<leftarrow> strcpy64 text;
        let s2 = upd_widget lbl (\<lambda>_. zero_widget\<lparr>wtype := WIDGET_LABEL, wx := x, wy := y, ww := 0, wh := 0, wtext := txt,
                   fg_color := c\<rparr>) s1;
        Some (lbl, link_widget win lbl s2)
      })"

text \<open>The windows on the desktop at the start, from \<open>start_graphics\<close> in \<open>kernel/core/kernel.c\<close>.\<close>

definition start_windows :: "'a gui_scheme \<Rightarrow> 'a gui_scheme option" where
  "start_windows s = do {
     (_, s1) \<leftarrow> gui_create_window (lit ''Sistem Bilgisi'') 50 50 300 200 0x003498DB (gui_init s);
     (_, s2) \<leftarrow> gui_create_window (lit ''Dosya Yoneticisi'') 150 100 400 300 0x002ECC71 s1;
     (_, s3) \<leftarrow> gui_create_window (lit ''Terminal'') 250 200 400 250 0x00000000 s2;
     Some s3
   }"

section \<open>Mouse events\<close>

definition test_btn_click :: "u32 \<Rightarrow> 'a gui_scheme \<Rightarrow> 'a gui_scheme" where
  "test_btn_click btn s =
     (if strcmp (wtext (widgets s btn)) (lit ''Tikla Bana'') = 0
      then upd_widget btn (\<lambda>v. v\<lparr>wtext := lit ''Tiklandi!'', bg_color := 0x002ED573\<rparr>) s
      else upd_widget btn (\<lambda>v. v\<lparr>wtext := lit ''Tikla Bana'', bg_color := 0x00DFE4EA\<rparr>) s)"

definition widget_click :: "u32 \<Rightarrow> 'a gui_scheme \<Rightarrow> 'a gui_scheme" where
  "widget_click w s = (case on_click (widgets s w) of No_click \<Rightarrow> s | Test_btn_click \<Rightarrow> test_btn_click w s)"

definition in_window :: "int \<Rightarrow> int \<Rightarrow> window \<Rightarrow> bool" where
  "in_window x y c \<longleftrightarrow> x \<ge> win_x c \<and> x \<le> win_x c + win_w c \<and> y \<ge> win_y c \<and> y \<le> win_y c + win_h c"

definition on_close_button :: "int \<Rightarrow> int \<Rightarrow> window \<Rightarrow> bool" where
  "on_close_button x y c \<longleftrightarrow> x \<ge> win_x c + win_w c - 20 \<and> x \<le> win_x c + win_w c - 5 \<and>
     y \<ge> win_y c + 5 \<and> y \<le> win_y c + 20"

definition in_widget :: "int \<Rightarrow> int \<Rightarrow> window \<Rightarrow> gui_widget \<Rightarrow> bool" where
  "in_widget x y c w \<longleftrightarrow> (let a = win_x c + wx w; b = win_y c + wy w
     in x \<ge> a \<and> x \<le> a + ww w \<and> y \<ge> b \<and> y \<le> b + wh w)"

text \<open>The two searches: from the front window backwards, and through the widgets of a window.\<close>

partial_function (option) find_window :: "int \<Rightarrow> int \<Rightarrow> (u32 \<Rightarrow> window) \<Rightarrow> u32 \<Rightarrow> u32 option" where
  "find_window x y ws win =
     (if win = 0 then Some 0
      else if in_window x y (ws win) then Some win else find_window x y ws (win_prev (ws win)))"

partial_function (option) find_widget :: "int \<Rightarrow> int \<Rightarrow> window \<Rightarrow> (u32 \<Rightarrow> gui_widget) \<Rightarrow> u32 \<Rightarrow> u32 option" where
  "find_widget x y c ws w =
     (if w = 0 then Some 0 else if in_widget x y c (ws w) then Some w else find_widget x y c ws (wnext (ws w)))"

text \<open>A click on one of the desktop icons opens a window.\<close>

definition click_icons :: "int \<Rightarrow> int \<Rightarrow> 'a gui_scheme \<Rightarrow> 'a gui_scheme option" where
  "click_icons x y s =
     (if x < 100 then
        if y \<ge> 40 \<and> y \<le> 90 then do {
          (w, s1) \<leftarrow> gui_create_window (lit ''UI Test Paneli'') 200 150 400 250 0x00F39C12 s;
          (_, s2) \<leftarrow> gui_create_label w 20 40 (lit ''Merhaba PekerOS GUI!'') 0x002F3542 s1;
          (_, s3) \<leftarrow> gui_create_button w 20 80 120 30 (lit ''Tikla Bana'') Test_btn_click s2;
          Some s3
        }
        else if y \<ge> 110 \<and> y \<le> 160 then map_option snd (gui_create_window (lit ''Terminal'') 100 100 500 350 0x00000000 s)
        else if y \<ge> 180 \<and> y \<le> 230 then map_option snd (gui_create_window (lit ''Dosyalar'') 300 200 450 300 0x003498DB s)
        else Some s
      else Some s)"

definition click_windows :: "int \<Rightarrow> int \<Rightarrow> 'a gui_scheme \<Rightarrow> 'a gui_scheme option" where
  "click_windows x y s = do {
     win \<leftarrow> find_window x y (wins s) (window_list_tail s);
     if win = 0 then Some s
     else if on_close_button x y (wins s win) then Some (gui_destroy_window win s)
     else
       let s1 = gui_bring_to_front win s; c = wins s1 win
       in if y \<le> win_y c + 25
          then Some (s1\<lparr>dragged_window := win, drag_off_x := x - win_x c, drag_off_y := y - win_y c\<rparr>)
          else do {
            w \<leftarrow> find_widget x y c (widgets s1) (widgets_head c);
            Some (if w = 0 then s1 else widget_click w s1)
          }
   }"

definition left_click :: "int \<Rightarrow> 'a gui_scheme \<Rightarrow> bool" where
  "left_click buttons s \<longleftrightarrow> buttons AND 1 \<noteq> 0 \<and> last_buttons s AND 1 = 0"

definition left_release :: "int \<Rightarrow> 'a gui_scheme \<Rightarrow> bool" where
  "left_release buttons s \<longleftrightarrow> buttons AND 1 = 0 \<and> last_buttons s AND 1 \<noteq> 0"

definition gui_on_mouse_event :: "int \<Rightarrow> int \<Rightarrow> int \<Rightarrow> 'a gui_scheme \<Rightarrow> 'a gui_scheme option" where
  "gui_on_mouse_event x y buttons s = do {
     s1 \<leftarrow> (if left_click buttons s then click_icons x y s \<bind> click_windows x y else Some s);
     let s2 = (if left_release buttons s then s1\<lparr>dragged_window := 0\<rparr> else s1);
     let s3 = (if dragged_window s2 \<noteq> 0 \<and> buttons AND 1 \<noteq> 0
               then upd_win (dragged_window s2) (\<lambda>v. v\<lparr>win_x := x - drag_off_x s2, win_y := y - drag_off_y s2\<rparr>) s2 else s2);
     Some (s3\<lparr>last_buttons := buttons\<rparr>)
   }"

section \<open>Drawing\<close>

definition gui_draw_icon :: "int \<Rightarrow> int \<Rightarrow> cstring \<Rightarrow> u32 \<Rightarrow> 'a gui_scheme \<Rightarrow> 'a gui_scheme" where
  "gui_draw_icon x y label c s =
     vbe_write_at x (y + 35) label 0x00FFFFFF
       (vbe_draw_rect (x + 5) y 32 1 0x00FFFFFF (vbe_draw_rect (x + 5) y 32 32 c s))"

definition draw_widget :: "window \<Rightarrow> gui_widget \<Rightarrow> 'a gui_scheme \<Rightarrow> 'a gui_scheme" where
  "draw_widget win w s =
     (let abs_x = win_x win + wx w; abs_y = win_y win + wy w
      in case wtype w of
           WIDGET_BUTTON \<Rightarrow>
             (let s1 = vbe_draw_rect abs_x abs_y (ww w) (wh w) (bg_color w) s;
                  s2 = vbe_draw_rect abs_x abs_y (ww w) 1 0x002F3542 s1;
                  s3 = vbe_draw_rect abs_x (abs_y + wh w - 1) (ww w) 1 0x002F3542 s2;
                  s4 = vbe_draw_rect abs_x abs_y 1 (wh w) 0x002F3542 s3;
                  s5 = vbe_draw_rect (abs_x + ww w - 1) abs_y 1 (wh w) 0x002F3542 s4;
                  text_x = abs_x + ww w sdiv 2 - int (strlen (wtext w)) * 4;
                  text_y = abs_y + wh w sdiv 2 - 8
              in vbe_write_at text_x text_y (wtext w) (fg_color w) s5)
         | WIDGET_LABEL \<Rightarrow> vbe_write_at abs_x abs_y (wtext w) (fg_color w) s
         | WIDGET_TEXTBOX \<Rightarrow> s)"

partial_function (option) draw_widgets :: "u32 \<Rightarrow> u32 \<Rightarrow> 'a gui_scheme \<Rightarrow> 'a gui_scheme option" where
  "draw_widgets win w s =
     (if w = 0 then Some s
      else let s1 = draw_widget (wins s win) (widgets s w) s in draw_widgets win (wnext (widgets s1 w)) s1)"

definition draw_frame :: "window \<Rightarrow> 'a gui_scheme \<Rightarrow> 'a gui_scheme" where
  "draw_frame v s =
     (let s0 = vbe_draw_rect (win_x v + 3) (win_y v + 3) (win_w v) (win_h v) 0x002F3640 s;
          s1 = vbe_draw_rect (win_x v) (win_y v) (win_w v) (win_h v) 0x00F1F2F6 s0;
          s2 = vbe_draw_rect (win_x v) (win_y v) (win_w v) 25 0x0074B9FF s1;
          s3 = vbe_draw_rect (win_x v + win_w v - 20) (win_y v + 5) 15 15 0x00FF4757 s2;
          s4 = vbe_draw_rect (win_x v) (win_y v) (win_w v) 1 0x002F3542 s3;
          s5 = vbe_draw_rect (win_x v) (win_y v + win_h v - 1) (win_w v) 1 0x002F3542 s4;
          s6 = vbe_draw_rect (win_x v) (win_y v) 1 (win_h v) 0x002F3542 s5;
          s7 = vbe_draw_rect (win_x v + win_w v - 1) (win_y v) 1 (win_h v) 0x002F3542 s6
      in vbe_write_at (win_x v + 10) (win_y v + 5) (title v) 0x002F3542 s7)"

definition gui_draw_window :: "u32 \<Rightarrow> 'a gui_scheme \<Rightarrow> 'a gui_scheme option" where
  "gui_draw_window win s =
     (if active (wins s win) = 0 then Some s
      else let s1 = draw_frame (wins s win) s in draw_widgets win (widgets_head (wins s1 win)) s1)"

partial_function (option) draw_windows :: "u32 \<Rightarrow> 'a gui_scheme \<Rightarrow> 'a gui_scheme option" where
  "draw_windows win s =
     (if win = 0 then Some s
      else do {
        s1 \<leftarrow> (if active (wins s win) \<noteq> 0 then gui_draw_window win s else Some s);
        draw_windows (win_next (wins s1 win)) s1
      })"

definition desktop_line :: "nat \<Rightarrow> 'a gui_scheme \<Rightarrow> 'a gui_scheme" where
  "desktop_line y s =
     (let b = of_nat (180 + (y * 70) div 600) :: u8; g = of_nat (120 + (y * 40) div 600) :: u8
      in vbe_draw_rect 0 (int y) 800 1 (push_bit 8 (ucast g) OR ucast b) s)"

definition time_chars :: "int \<Rightarrow> int \<Rightarrow> int \<Rightarrow> cstring" where
  "time_chars h m sec =
     [of_int (h div 10 + 48), of_int (h mod 10 + 48), 0x3A, of_int (m div 10 + 48), of_int (m mod 10 + 48), 0x3A,
      of_int (sec div 10 + 48), of_int (sec mod 10 + 48), 0]"

definition gui_render :: "'a gui_scheme \<Rightarrow> 'a gui_scheme option" where
  "gui_render s = do {
     let s1 = for_range 0 600 desktop_line s;
     let s2 = gui_draw_icon 20 40 (lit ''Storage'') 0x00ffa502 s1;
     let s3 = gui_draw_icon 20 110 (lit ''Terminal'') 0x002f3542 s2;
     let s4 = gui_draw_icon 20 180 (lit ''Files'') 0x001e90ff s3;
     let s5 = gui_draw_icon 20 250 (lit ''Network'') 0x002ed573 s4;
     s6 \<leftarrow> draw_windows (window_list_head s5) s5;
     let s7 = vbe_draw_rect 300 0 200 30 0x00DCDDE1 s6;
     let s8 = vbe_draw_rect 300 30 200 1 0x007F8C8D s7;
     let ((h, m, sec), s9) = rtc_get_time s8;
     Some (vbe_write_at 360 8 (time_chars h m sec) 0x002F3640 s9)
   }"

section \<open>The stacking order\<close>

text \<open>
  The windows from the back to the front, each with the list of its widgets. All these objects
  are distinct live buffers of the heap, large enough for what they hold; a window is being
  moved only while the left button is down.
\<close>

definition has_room :: "u32 \<Rightarrow> kheap \<Rightarrow> nat \<Rightarrow> u32 \<Rightarrow> bool" where
  "has_room base h n p \<longleftrightarrow> (\<exists>c \<ge> n. (p, c) \<in> kheap_live base h)"

abbreviation win_list :: "'a gui_scheme \<Rightarrow> u32 list \<Rightarrow> bool" where
  "win_list s \<equiv> linked (\<lambda>p. win_next (wins s p)) (\<lambda>p. win_prev (wins s p)) (window_list_head s) (window_list_tail s)"

abbreviation widget_list :: "'a gui_scheme \<Rightarrow> u32 \<Rightarrow> u32 list \<Rightarrow> bool" where
  "widget_list s p \<equiv> linked (\<lambda>q. wnext (widgets s q)) (\<lambda>q. wprev (widgets s q)) (widgets_head (wins s p)) (widgets_tail (wins s p))"

definition gui_inv :: "u32 \<Rightarrow> u32 list \<Rightarrow> (u32 \<Rightarrow> u32 list) \<Rightarrow> 'a gui_scheme \<Rightarrow> bool" where
  "gui_inv base xs W s \<longleftrightarrow> kheap_ok base (gheap s) \<and> win_list s xs \<and> (\<forall>p \<in> set xs. widget_list s p (W p)) \<and>
     (\<forall>p \<in> set xs. set (W p) \<inter> set xs = {} \<and> (\<forall>q \<in> set xs. p \<noteq> q \<longrightarrow> set (W p) \<inter> set (W q) = {})) \<and> (\<forall>p \<in> set xs. has_room base (gheap s) 112 p) \<and>
     (\<forall>p \<in> set xs. \<forall>q \<in> set (W p). has_room base (gheap s) 104 q) \<and>
     (dragged_window s = 0 \<or> dragged_window s \<in> set xs \<and> last_buttons s AND 1 \<noteq> 0)"

text \<open>A window without its links.\<close>

definition look :: "window \<Rightarrow> window" where
  "look v = v\<lparr>win_next := 0, win_prev := 0\<rparr>"

lemma look_simps [simp]:
  "look (v\<lparr>win_next := n\<rparr>) = look v" "look (v\<lparr>win_prev := n\<rparr>) = look v"
  by (simp_all add: look_def)

lemma look_eqD:
  "look v = look w \<Longrightarrow> win_x v = win_x w \<and> win_y v = win_y w \<and> win_w v = win_w w \<and> win_h v = win_h w \<and>
     title v = title w \<and> active v = active w \<and> widgets_head v = widgets_head w \<and> widgets_tail v = widgets_tail w"
  by (cases v; cases w) (simp add: look_def)

lemma upd_win_sel [simp]:
  "wins (upd_win p f s) = (wins s)(p := f (wins s p))" "widgets (upd_win p f s) = widgets s" "gheap (upd_win p f s) = gheap s"
  "window_list_head (upd_win p f s) = window_list_head s" "window_list_tail (upd_win p f s) = window_list_tail s"
  "dragged_window (upd_win p f s) = dragged_window s" "last_buttons (upd_win p f s) = last_buttons s"
  "drag_off_x (upd_win p f s) = drag_off_x s" "drag_off_y (upd_win p f s) = drag_off_y s"
  by (simp_all add: upd_win_def)

lemma upd_widget_sel [simp]:
  "widgets (upd_widget p g s) = (widgets s)(p := g (widgets s p))" "wins (upd_widget p g s) = wins s"
  "gheap (upd_widget p g s) = gheap s" "window_list_head (upd_widget p g s) = window_list_head s"
  "window_list_tail (upd_widget p g s) = window_list_tail s" "dragged_window (upd_widget p g s) = dragged_window s"
  "last_buttons (upd_widget p g s) = last_buttons s"
  by (simp_all add: upd_widget_def)

lemma unlink_window_frame [simp]:
  "window_list_tail (unlink_window win s) = window_list_tail s" "gheap (unlink_window win s) = gheap s"
  "widgets (unlink_window win s) = widgets s" "dragged_window (unlink_window win s) = dragged_window s"
  "last_buttons (unlink_window win s) = last_buttons s"
  by (simp_all add: unlink_window_def Let_def)

lemma unlink_window_sel:
  assumes "win_list s (l @ win # r)"
  shows "win_next (wins (unlink_window win s) q) =
      (if q = win_prev (wins s win) \<and> q \<noteq> 0 then win_next (wins s win) else win_next (wins s q))"
    "win_prev (wins (unlink_window win s) q) =
      (if q = win_next (wins s win) \<and> q \<noteq> 0 then win_prev (wins s win) else win_prev (wins s q))"
    "look (wins (unlink_window win s) q) = look (wins s q)"
    "window_list_head (unlink_window win s) = (if win = window_list_head s then win_next (wins s win) else window_list_head s)"
proof -
  have "win_prev (wins s win) \<noteq> win" "win_next (wins s win) \<noteq> win"
    using linked_member [OF assms] assms final_in [of l 0] first_in [of r 0]
    by (cases l; cases r; auto simp: linked_def)+
  then show "win_next (wins (unlink_window win s) q) =
      (if q = win_prev (wins s win) \<and> q \<noteq> 0 then win_next (wins s win) else win_next (wins s q))"
    "win_prev (wins (unlink_window win s) q) =
      (if q = win_next (wins s win) \<and> q \<noteq> 0 then win_prev (wins s win) else win_prev (wins s q))"
    "look (wins (unlink_window win s) q) = look (wins s q)"
    "window_list_head (unlink_window win s) = (if win = window_list_head s then win_next (wins s win) else window_list_head s)"
    by (auto simp: unlink_window_def Let_def)
qed

lemma unlink_window_list:
  assumes "win_list s (l @ win # r)"
  shows "linked (\<lambda>p. win_next (wins (unlink_window win s) p)) (\<lambda>p. win_prev (wins (unlink_window win s) p))
    (window_list_head (unlink_window win s)) (if win = window_list_tail s then win_prev (wins s win) else window_list_tail s) (l @ r)"
  unfolding unlink_window_sel(4) [OF assms]
proof (rule linked_remove [OF assms])
  fix y
  assume "y \<in> set (l @ r)"
  then have "y \<noteq> 0" using assms by (auto simp: linked_def)
  then show "win_next (wins (unlink_window win s) y) = (if y = win_prev (wins s win) then win_next (wins s win) else win_next (wins s y))"
    "win_prev (wins (unlink_window win s) y) = (if y = win_next (wins s win) then win_prev (wins s win) else win_prev (wins s y))"
    using unlink_window_sel(1,2) [OF assms, of y] by simp_all
qed

lemma gui_invD:
  assumes "gui_inv base xs W s"
  shows "kheap_ok base (gheap s)" "win_list s xs" "p \<in> set xs \<Longrightarrow> widget_list s p (W p)"
    "p \<in> set xs \<Longrightarrow> has_room base (gheap s) 112 p" "p \<in> set xs \<Longrightarrow> q \<in> set (W p) \<Longrightarrow> has_room base (gheap s) 104 q"
    "p \<in> set xs \<Longrightarrow> set (W p) \<inter> set xs = {}" "p \<in> set xs \<Longrightarrow> q \<in> set xs \<Longrightarrow> p \<noteq> q \<Longrightarrow> set (W p) \<inter> set (W q) = {}"
    "dragged_window s = 0 \<or> dragged_window s \<in> set xs \<and> last_buttons s AND 1 \<noteq> 0"
  using assms by (simp_all add: gui_inv_def)

lemma gui_invE:
  assumes "gui_inv base xs W s" and "p \<in> set xs"
  obtains l r where "xs = l @ p # r" "win_list s (l @ p # r)" "remove1 p xs = l @ r" "p \<noteq> 0"
proof -
  obtain l r where xs: "xs = l @ p # r" using assms(2) by (meson split_list)
  have "distinct xs" "0 \<notin> set xs" using assms(1) by (auto simp: gui_inv_def linked_def)
  then have "remove1 p xs = l @ r" "p \<noteq> 0" by (auto simp: xs remove1_append)
  then show ?thesis using that assms(1) xs by (auto simp: gui_inv_def)
qed

text \<open>A step that rearranges or drops windows and keeps what they look like.\<close>

lemma gui_inv_rearrange:
  assumes "gui_inv base xs W s" and "win_list t ys" and "set ys \<subseteq> set xs" and "widgets t = widgets s"
    and "\<And>q. q \<in> set ys \<Longrightarrow> look (wins t q) = look (wins s q)" and "kheap_ok base (gheap t)"
    and "\<And>n q. has_room base (gheap s) n q \<Longrightarrow> q \<notin> set xs - set ys \<Longrightarrow> has_room base (gheap t) n q"
    and "dragged_window t = 0 \<or> dragged_window t \<in> set ys \<and> last_buttons t AND 1 \<noteq> 0"
  shows "gui_inv base ys W t"
proof -
  note a = assms(1) [unfolded gui_inv_def]
  have in_xs: "p \<in> set xs" if "p \<in> set ys" for p using that assms(3) by blast
  have "widget_list t p (W p)" if "p \<in> set ys" for p
    using a in_xs [OF that] look_eqD [OF assms(5) [OF that]] by (simp add: assms(4))
  moreover have "has_room base (gheap t) 112 p" if "p \<in> set ys" for p
    using a in_xs [OF that] assms(7) that by blast
  moreover have "has_room base (gheap t) 104 q" if "p \<in> set ys" "q \<in> set (W p)" for p q
    using a in_xs [OF that(1)] assms(7) [of 104 q] that(2) by blast
  moreover have "set (W p) \<inter> set ys = {}" if "p \<in> set ys" for p using a in_xs assms(3) that by blast
  moreover have "set (W p) \<inter> set (W q) = {}" if "p \<in> set ys" "q \<in> set ys" "p \<noteq> q" for p q using a in_xs that by blast
  ultimately show ?thesis using assms(2,6,8) by (simp add: gui_inv_def)
qed

lemma destroy_inv:
  assumes inv: "gui_inv base xs W s" and p: "p \<in> set xs" and d: "dragged_window s \<noteq> p"
  shows "gui_inv base (remove1 p xs) W (gui_destroy_window p s)"
    "q \<noteq> p \<Longrightarrow> look (wins (gui_destroy_window p s) q) = look (wins s q)"
    "\<exists>c. kheap_live base (gheap (gui_destroy_window p s)) = kheap_live base (gheap s) - {(p, c)}"
proof -
  obtain l r where lr: "xs = l @ p # r" "win_list s (l @ p # r)" "remove1 p xs = l @ r" "p \<noteq> 0"
    using inv p by (rule gui_invE)
  let ?t = "gui_destroy_window p s"
  note u = unlink_window_sel [OF lr(2)]
  have nx: "win_next (wins s p) \<noteq> p"
    using linked_member(2) [OF lr(2)] lr(2) first_in [of r 0] by (cases r) (auto simp: linked_def)
  have e: "wins ?t = wins (unlink_window p s)" "widgets ?t = widgets s" "dragged_window ?t = dragged_window s"
      "last_buttons ?t = last_buttons s" "gheap ?t = kfree p (gheap s)" "window_list_head ?t = window_list_head (unlink_window p s)"
      "window_list_tail ?t = (if p = window_list_tail s then win_prev (wins s p) else window_list_tail s)"
    using lr(4) u(2) [of p] nx by (auto simp: gui_destroy_window_def Let_def)
  obtain c where c: "(p, c) \<in> kheap_live base (gheap s)" using inv p by (auto simp: gui_inv_def has_room_def)
  have ok: "kheap_ok base (gheap s)" using inv by (simp add: gui_inv_def)
  note f = kh.release_ok [OF ok c]
  show "\<exists>c. kheap_live base (gheap ?t) = kheap_live base (gheap s) - {(p, c)}" using f by (auto simp: e)
  show lk: "q \<noteq> p \<Longrightarrow> look (wins ?t q) = look (wins s q)" for q using u(3) [of q] by (simp add: e)
  have "p \<notin> set (l @ r)" using lr(2) by (auto simp: linked_def)
  then show "gui_inv base (remove1 p xs) W ?t"
    unfolding lr(3)
    using unlink_window_list [OF lr(2)] f inv d lk lr(1)
    by (intro gui_inv_rearrange [OF inv]) (auto simp: e u(3) has_room_def gui_inv_def)
qed

lemma bring_to_front_inv:
  assumes inv: "gui_inv base xs W s" and p: "p \<in> set xs"
  shows "gui_inv base (remove1 p xs @ [p]) W (gui_bring_to_front p s)"
    "look (wins (gui_bring_to_front p s) q) = look (wins s q)"
    "widgets (gui_bring_to_front p s) = widgets s" "dragged_window (gui_bring_to_front p s) = dragged_window s"
    "last_buttons (gui_bring_to_front p s) = last_buttons s" "gheap (gui_bring_to_front p s) = gheap s"
proof -
  obtain l r where lr: "xs = l @ p # r" "win_list s (l @ p # r)" "remove1 p xs = l @ r" "p \<noteq> 0"
    using inv p by (rule gui_invE)
  let ?t = "gui_bring_to_front p s" and ?u = "unlink_window p s"
  note m = linked_member [OF lr(2)]
  note u = unlink_window_sel [OF lr(2)]
  note ul = unlink_window_list [OF lr(2)]
  show same: "widgets ?t = widgets s" "dragged_window ?t = dragged_window s" "last_buttons ?t = last_buttons s" "gheap ?t = gheap s"
    by (simp_all add: gui_bring_to_front_def Let_def u)
  show lk: "look (wins ?t q) = look (wins s q)" for q
    using u(3) by (auto simp: gui_bring_to_front_def Let_def look_def)
  have "win_list ?t (remove1 p xs @ [p])"
  proof (cases "p = window_list_tail s")
    case True
    then have "r = []" using m by simp
    then show ?thesis using True lr by (simp add: gui_bring_to_front_def)
  next
    case False
    let ?tl = "window_list_tail s"
    have ne: "l @ r \<noteq> []" and nt: "?tl \<noteq> 0" and h: "window_list_head ?u \<noteq> 0"
      using False m ul linked_empty [OF ul] linked_empty [OF lr(2)] by auto
    have tl: "linked (\<lambda>q. win_next (wins ?u q)) (\<lambda>q. win_prev (wins ?u q)) (window_list_head ?u) ?tl (l @ r)"
      using ul False by simp
    have t: "win_next (wins ?t q) = (if q = ?tl then p else if q = p then 0 else win_next (wins ?u q))"
        "win_prev (wins ?t q) = (if q = p then ?tl else win_prev (wins ?u q))" for q
      using False lr(4) nt by (auto simp: gui_bring_to_front_def Let_def)
    have "p \<notin> set (l @ r)" using lr(2) by (auto simp: linked_def)
    then have "linked (\<lambda>q. win_next (wins ?t q)) (\<lambda>q. win_prev (wins ?t q)) (if l @ r = [] then p else window_list_head ?u) p ((l @ r) @ [p])"
      using False lr(4) by (intro linked_append [OF tl]) (auto simp: t)
    moreover have "window_list_head ?t = window_list_head ?u" "window_list_tail ?t = p"
      using False lr(4) nt h by (simp_all add: gui_bring_to_front_def Let_def)
    ultimately show ?thesis using ne lr(3) by (cases "l = []") simp_all
  qed
  then show "gui_inv base (remove1 p xs @ [p]) W ?t"
    using lk same inv p unfolding lr(3)
    by (intro gui_inv_rearrange [OF inv]) (auto simp: gui_inv_def lr(1))
qed

section \<open>New windows and widgets\<close>

definition no_room :: "u32 \<Rightarrow> 'a gui_scheme \<Rightarrow> bool" where
  "no_room n s \<longleftrightarrow> (\<exists>h. kmalloc n (gheap s) = Some (0, h))"

lemma gui_alloc_ok:
  assumes "kheap_ok base (gheap s)" and "\<not> no_room n s" and "n \<noteq> 0" and "unat n \<le> 4294967276"
  obtains p h where "gui_alloc n s = Some (p, s\<lparr>gheap := h\<rparr>)" "p \<noteq> 0" "kheap_ok base h"
    "p \<notin> fst ` kheap_live base (gheap s)" "has_room base h (unat n) p"
    "\<forall>m q. has_room base (gheap s) m q \<longrightarrow> has_room base h m q"
proof -
  obtain p h where m: "kmalloc n (gheap s) = Some (p, h)" "kheap_ok base h"
      "p = 0 \<and> h = gheap s \<or> p \<noteq> 0 \<and> (\<exists>c. unat n \<le> c \<and> kheap_live base h = insert (p, c) (kheap_live base (gheap s)) \<and>
         p \<notin> fst ` kheap_live base (gheap s))"
    using kh.malloc_ok [OF assms(1,3,4)] by blast
  have "p \<noteq> 0" using m(1) assms(2) by (auto simp: no_room_def)
  then show ?thesis using m by (intro that [of p h]) (auto simp: gui_alloc_def has_room_def)
qed

lemma has_room_live: "has_room base h n p \<Longrightarrow> p \<in> fst ` kheap_live base h"
  by (force simp: has_room_def)

lemma create_window_inv:
  assumes inv: "gui_inv base xs W s" and room: "\<not> no_room sizeof_window s" and ttl: "strlen ttl < 64"
  obtains p t where "gui_create_window ttl x y w h c s = Some (p, t)" "gui_inv base (xs @ [p]) (W(p := [])) t"
    "look (wins t p) = zero_window\<lparr>win_x := x, win_y := y, win_w := w, win_h := h, color := c, active := 1, title := cstr ttl\<rparr>"
    "\<And>q. q \<in> set xs \<Longrightarrow> look (wins t q) = look (wins s q)" "p \<notin> set xs" "dragged_window t = dragged_window s"
    "last_buttons t = last_buttons s" "widgets t = widgets s"
proof -
  note a = inv [unfolded gui_inv_def]
  have n: "sizeof_window \<noteq> 0" "unat sizeof_window \<le> 4294967276" by (simp_all add: sizeof_window_def)
  obtain p h' where al: "gui_alloc sizeof_window s = Some (p, s\<lparr>gheap := h'\<rparr>)" "p \<noteq> 0" "kheap_ok base h'"
      "p \<notin> fst ` kheap_live base (gheap s)" "has_room base h' (unat sizeof_window) p"
      "\<forall>m q. has_room base (gheap s) m q \<longrightarrow> has_room base h' m q"
    by (rule gui_alloc_ok [OF gui_invD(1) [OF inv] room n])
  have fresh: "p \<notin> set xs" "\<And>q. q \<in> set xs \<Longrightarrow> p \<notin> set (W q)" 
    using has_room_live [OF gui_invD(4) [OF inv]] has_room_live [OF gui_invD(5) [OF inv]] al(4) by metis+
  obtain t where t: "gui_create_window ttl x y w h c s = Some (p, t)"
    using al(1) ttl by (simp add: gui_create_window_def strcpy64_def Let_def)
  note cw = t [unfolded gui_create_window_def]
  have hd: "window_list_head s = 0 \<longleftrightarrow> xs = []" "window_list_tail s = 0 \<longleftrightarrow> xs = []"
    using linked_empty a by blast+
  have tl: "xs \<noteq> [] \<Longrightarrow> window_list_tail s \<noteq> p" using a linked_tail fresh by metis
  have st: "widgets t = widgets s" "gheap t = h'" "dragged_window t = dragged_window s" "last_buttons t = last_buttons s"
      "window_list_tail t = p" "window_list_head t = (if xs = [] then p else window_list_head s)"
    using cw al(1) ttl hd by (auto simp: strcpy64_def Let_def split: if_splits)
  let ?new = "zero_window\<lparr>win_x := x, win_y := y, win_w := w, win_h := h, color := c, active := 1, title := cstr ttl\<rparr>"
  have wn: "wins t q = (if q = p then ?new\<lparr>win_prev := window_list_tail s\<rparr>
      else if xs \<noteq> [] \<and> q = window_list_tail s then (wins s q)\<lparr>win_next := p\<rparr> else wins s q)" for q
    using cw al(1) ttl hd tl by (auto simp: strcpy64_def Let_def zero_window_def split: if_splits)
  have "linked (\<lambda>q. win_next (wins t q)) (\<lambda>q. win_prev (wins t q)) (if xs = [] then p else window_list_head s) p (xs @ [p])"
    by (rule linked_append [where nx = "\<lambda>q. win_next (wins s q)" and pv = "\<lambda>q. win_prev (wins s q)" and t = "window_list_tail s"])
       (use a fresh al(2) tl linked_tail in \<open>auto simp: wn zero_window_def\<close>)
  moreover have lk: "look (wins t q) = look (wins s q)" if "q \<in> set xs" for q using that fresh by (auto simp: wn)
  moreover have "widget_list t p []" by (simp add: wn zero_window_def)
  moreover have "widget_list t q (W q)" if "q \<in> set xs" for q using look_eqD [OF lk [OF that]] a that by (simp add: st)
  ultimately have "gui_inv base (xs @ [p]) (W(p := [])) t"
    using a al(3,5,6) fresh st unfolding gui_inv_def by (auto simp: sizeof_window_def)
  then show ?thesis using that [OF t] lk st fresh by (simp add: wn look_def zero_window_def)
qed

text \<open>The place of a window on the screen.\<close>

definition geom :: "window \<Rightarrow> int \<times> int \<times> int \<times> int" where
  "geom v = (win_x v, win_y v, win_w v, win_h v)"

lemma look_geom: "look v = look w \<Longrightarrow> geom v = geom w"
  by (drule look_eqD) (simp add: geom_def)

lemma geom_hits:
  assumes "geom v = geom w"
  shows "in_window x y v = in_window x y w" "on_close_button x y v = on_close_button x y w"
  using assms by (simp_all add: geom_def in_window_def on_close_button_def)

lemma link_widget_inv:
  assumes inv: "gui_inv base xs W s" and p: "p \<in> set xs" and w: "w \<noteq> 0" "w \<notin> set xs" "\<forall>q \<in> set xs. w \<notin> set (W q)"
    and z: "wnext (widgets s w) = 0" "wprev (widgets s w) = 0" and room: "has_room base (gheap s) 104 w"
  shows "gui_inv base xs (W(p := W p @ [w])) (link_widget p w s)" "geom (wins (link_widget p w s) q) = geom (wins s q)"
    "active (wins (link_widget p w s) q) = active (wins s q)"
proof -
  let ?t = "link_widget p w s" and ?tl = "widgets_tail (wins s p)"
  note a = gui_invD [OF inv]
  have wl: "widget_list s p (W p)" using a(3) p .
  have e: "widgets_head (wins s p) = 0 \<longleftrightarrow> W p = []" "W p = [] \<Longrightarrow> ?tl = 0" using linked_empty [OF wl] by simp_all
  have tl: "W p \<noteq> [] \<Longrightarrow> ?tl \<in> set (W p)" "?tl \<noteq> w" using linked_tail [OF wl] w e p by auto
  have st: "window_list_head ?t = window_list_head s" "window_list_tail ?t = window_list_tail s" "gheap ?t = gheap s"
      "dragged_window ?t = dragged_window s" "last_buttons ?t = last_buttons s"
    by (simp_all add: link_widget_def Let_def)
  have wn: "win_next (wins ?t q) = win_next (wins s q)" "win_prev (wins ?t q) = win_prev (wins s q)"
      "widgets_head (wins ?t q) = (if q = p \<and> W p = [] then w else widgets_head (wins s q))"
      "widgets_tail (wins ?t q) = (if q = p then w else widgets_tail (wins s q))" for q
    using e by (simp_all add: link_widget_def Let_def)
  show "geom (wins ?t q) = geom (wins s q)" "active (wins ?t q) = active (wins s q)"
    by (simp_all add: link_widget_def Let_def geom_def)
  have wd: "wnext (widgets ?t v) = (if W p \<noteq> [] \<and> v = ?tl then w else wnext (widgets s v))"
      "wprev (widgets ?t v) = (if v = w then ?tl else wprev (widgets s v))" for v
    using e z tl(2) by (simp_all add: link_widget_def Let_def)
  have new: "widget_list ?t p (W p @ [w])"
  proof -
    have "linked (\<lambda>v. wnext (widgets ?t v)) (\<lambda>v. wprev (widgets ?t v)) (if W p = [] then w else widgets_head (wins s p)) w (W p @ [w])"
      by (rule linked_append [OF wl]) (use w p z tl in \<open>auto simp: wd\<close>)
    then show ?thesis by (simp add: wn)
  qed
  have old: "widget_list ?t q (W q)" if q: "q \<in> set xs" "q \<noteq> p" for q
  proof -
    have "?tl \<notin> set (W q) \<or> W p = []" using a(7) [OF p q(1)] tl(1) q(2) by auto
    then have "linked (\<lambda>v. wnext (widgets ?t v)) (\<lambda>v. wprev (widgets ?t v)) h t' (W q) =
        linked (\<lambda>v. wnext (widgets s v)) (\<lambda>v. wprev (widgets s v)) h t' (W q)" for h t'
      using w(3) q(1) by (intro linked_cong) (auto simp: wd)
    then show ?thesis using a(3) [OF q(1)] q(2) by (simp add: wn)
  qed
  have dis: "set ((W(p := W p @ [w])) u) \<inter> set xs = {}" if "u \<in> set xs" for u using a(6) [OF that] w(2) by auto
  have dj: "set ((W(p := W p @ [w])) u) \<inter> set ((W(p := W p @ [w])) v) = {}" if "u \<in> set xs" "v \<in> set xs" "u \<noteq> v" for u v
    using a(7) [OF that] w(3) that by auto
  have rooms: "has_room base (gheap s) 104 v" if "u \<in> set xs" "v \<in> set ((W(p := W p @ [w])) u)" for u v
    using a(5) [of u v] room that p by (auto split: if_splits)
  have "widget_list ?t u ((W(p := W p @ [w])) u)" if "u \<in> set xs" for u using new old that by (cases "u = p") simp_all
  then show "gui_inv base xs (W(p := W p @ [w])) ?t"
    unfolding gui_inv_def st wn(1,2) using a(1,2,4,8) dis dj rooms by blast
qed

lemma add_widget_inv:
  assumes inv: "gui_inv base xs W s" and p: "p \<in> set xs" and room: "\<not> no_room sizeof_widget s"
    and v: "wnext v = 0" "wprev v = 0"
  obtains w h where "gui_alloc sizeof_widget s = Some (w, s\<lparr>gheap := h\<rparr>)"
    "gui_inv base xs (W(p := W p @ [w])) (link_widget p w (upd_widget w (\<lambda>_. v) (s\<lparr>gheap := h\<rparr>)))"
proof -
  have n: "sizeof_widget \<noteq> 0" "unat sizeof_widget \<le> 4294967276" by (simp_all add: sizeof_widget_def)
  obtain w h where al: "gui_alloc sizeof_widget s = Some (w, s\<lparr>gheap := h\<rparr>)" "w \<noteq> 0" "kheap_ok base h"
      "w \<notin> fst ` kheap_live base (gheap s)" "has_room base h (unat sizeof_widget) w"
      "\<forall>m q. has_room base (gheap s) m q \<longrightarrow> has_room base h m q"
    by (rule gui_alloc_ok [OF gui_invD(1) [OF inv] room n])
  have fresh: "w \<notin> set xs" "\<forall>q \<in> set xs. w \<notin> set (W q)"
    using has_room_live [OF gui_invD(4) [OF inv]] has_room_live [OF gui_invD(5) [OF inv]] al(4) by metis+
  let ?s = "upd_widget w (\<lambda>_. v) (s\<lparr>gheap := h\<rparr>)"
  have "widget_list ?s q (W q)" if q: "q \<in> set xs" for q
  proof -
    have "linked (\<lambda>v. wnext (widgets ?s v)) (\<lambda>v. wprev (widgets ?s v)) h t' (W q) =
        linked (\<lambda>v. wnext (widgets s v)) (\<lambda>v. wprev (widgets s v)) h t' (W q)" for h t'
      using fresh q by (intro linked_cong) auto
    then show ?thesis using gui_invD(3) [OF inv q] by simp
  qed
  then have "gui_inv base xs W ?s"
    using gui_invD [OF inv] al(3,6) unfolding gui_inv_def by simp
  then show ?thesis using p fresh al v by (intro that link_widget_inv(1)) (auto simp: sizeof_widget_def)
qed

section \<open>Clicks\<close>

lemma find_window_chain:
  assumes "dchain (\<lambda>p. win_next (ws p)) (\<lambda>p. win_prev (ws p)) 0 n xs" and "0 \<notin> set xs"
  shows "find_window x y ws (final xs 0) = Some (case find (\<lambda>p. in_window x y (ws p)) (rev xs) of None \<Rightarrow> 0 | Some p \<Rightarrow> p)"
  using assms
proof (induction xs arbitrary: n rule: rev_induct)
  case Nil
  then show ?case by (subst find_window.simps) simp
next
  case (snoc p xs)
  then show ?case by (subst find_window.simps) (auto simp: dchain_append)
qed

lemma find_widget_chain:
  assumes "dchain (\<lambda>p. wnext (ws p)) pv p 0 xs" and "0 \<notin> set xs"
  shows "find_widget x y c ws (first xs 0) = Some (case find (\<lambda>q. in_widget x y c (ws q)) xs of None \<Rightarrow> 0 | Some q \<Rightarrow> q)"
  using assms
proof (induction xs arbitrary: p)
  case Nil
  then show ?case by (subst find_widget.simps) simp
next
  case (Cons q xs)
  then show ?case by (subst find_widget.simps) auto
qed

lemma widget_click_sel [simp]:
  "wins (widget_click w s) = wins s" "gheap (widget_click w s) = gheap s" "window_list_head (widget_click w s) = window_list_head s"
  "window_list_tail (widget_click w s) = window_list_tail s" "dragged_window (widget_click w s) = dragged_window s"
  "last_buttons (widget_click w s) = last_buttons s" "wnext (widgets (widget_click w s) q) = wnext (widgets s q)"
  "wprev (widgets (widget_click w s) q) = wprev (widgets s q)"
  by (simp_all add: widget_click_def test_btn_click_def split: click_fun.split)

lemma gui_inv_same:
  assumes "gui_inv base xs W s" and "gheap t = gheap s" and "window_list_head t = window_list_head s"
    and "window_list_tail t = window_list_tail s"
    and "\<And>q. win_next (wins t q) = win_next (wins s q) \<and> win_prev (wins t q) = win_prev (wins s q) \<and>
      widgets_head (wins t q) = widgets_head (wins s q) \<and> widgets_tail (wins t q) = widgets_tail (wins s q)"
    and "\<And>q. wnext (widgets t q) = wnext (widgets s q) \<and> wprev (widgets t q) = wprev (widgets s q)"
    and "dragged_window t = 0 \<or> dragged_window t \<in> set xs \<and> last_buttons t AND 1 \<noteq> 0"
  shows "gui_inv base xs W t"
  using assms by (simp add: gui_inv_def)

definition front_window :: "int \<Rightarrow> int \<Rightarrow> 'a gui_scheme \<Rightarrow> u32 list \<Rightarrow> u32 option" where
  "front_window x y s xs = find (\<lambda>p. in_window x y (wins s p)) (rev xs)"

text \<open>The stacking order after a click.\<close>

definition click_order :: "int \<Rightarrow> int \<Rightarrow> 'a gui_scheme \<Rightarrow> u32 list \<Rightarrow> u32 list" where
  "click_order x y s xs = (case front_window x y s xs of
     None \<Rightarrow> xs
   | Some p \<Rightarrow> if on_close_button x y (wins s p) then remove1 p xs else remove1 p xs @ [p])"

text \<open>The window a click takes hold of, null when there is none.\<close>

definition click_grabs :: "int \<Rightarrow> int \<Rightarrow> 'a gui_scheme \<Rightarrow> u32 list \<Rightarrow> u32" where
  "click_grabs x y s xs = (case front_window x y s xs of
     None \<Rightarrow> 0
   | Some p \<Rightarrow> if \<not> on_close_button x y (wins s p) \<and> y \<le> win_y (wins s p) + 25 then p else 0)"

lemma click_windows_spec:
  assumes inv: "gui_inv base xs W s" and d: "dragged_window s = 0"
  obtains t where "click_windows x y s = Some t" "last_buttons t = last_buttons s" "dragged_window t = click_grabs x y s xs"
    "gui_inv base (click_order x y s xs) W (t\<lparr>dragged_window := 0\<rparr>)"
    "\<forall>q \<in> set (click_order x y s xs). geom (wins t q) = geom (wins s q)"
    "dragged_window t \<noteq> 0 \<longrightarrow> drag_off_x t = x - win_x (wins s (dragged_window t)) \<and> drag_off_y t = y - win_y (wins s (dragged_window t))"
proof -
  note l = gui_invD(2) [OF inv]
  have fw: "find_window x y (wins s) (window_list_tail s) = Some (case front_window x y s xs of None \<Rightarrow> 0 | Some p \<Rightarrow> p)"
    using find_window_chain [of "wins s" 0 xs x y] l by (simp add: linked_def front_window_def)
  have z: "gui_inv base ys W (t\<lparr>dragged_window := 0\<rparr>)" if "gui_inv base ys W t" for ys t
    using that by (rule gui_inv_same) simp_all
  show ?thesis
  proof (cases "front_window x y s xs")
    case None
    then show ?thesis
      using fw z [OF inv] d by (intro that [of s]) (simp_all add: click_windows_def click_order_def click_grabs_def)
  next
    case (Some p)
    then have p: "p \<in> set xs" by (auto simp: front_window_def find_Some_iff dest: nth_mem [where xs = "rev xs", simplified])
    then have p0: "p \<noteq> 0" using l by (auto simp: linked_def)
    show ?thesis
    proof (cases "on_close_button x y (wins s p)")
      case True
      have k: "q \<noteq> p" if "q \<in> set (remove1 p xs)" for q using that l by (auto simp: linked_def)
      have "dragged_window s \<noteq> p" using d p0 by simp
      note ds = destroy_inv [OF inv p this]
      have "last_buttons (gui_destroy_window p s) = last_buttons s" "dragged_window (gui_destroy_window p s) = 0"
        using d by (auto simp: gui_destroy_window_def Let_def)
      then show ?thesis using that [of "gui_destroy_window p s"] fw Some True p0 z [OF ds(1)] look_geom [OF ds(2)] k
        by (simp add: click_windows_def click_order_def click_grabs_def)
    next
      case False
      let ?b = "gui_bring_to_front p s" and ?ys = "remove1 p xs @ [p]"
      note b = bring_to_front_inv [OF inv p]
      have g: "geom (wins ?b q) = geom (wins s q)" for q using look_geom [OF b(2)] .
      then have wb: "win_y (wins ?b p) = win_y (wins s p)" "win_x (wins ?b p) = win_x (wins s p)" by (simp_all add: geom_def)
      have ord: "click_order x y s xs = ?ys" using Some False by (simp add: click_order_def)
      show ?thesis
      proof (cases "y \<le> win_y (wins s p) + 25")
        case True
        let ?t = "?b\<lparr>dragged_window := p, drag_off_x := x - win_x (wins ?b p), drag_off_y := y - win_y (wins ?b p)\<rparr>"
        have "gui_inv base ?ys W (?t\<lparr>dragged_window := 0\<rparr>)" by (rule gui_inv_same [OF b(1)]) simp_all
        then show ?thesis using that [of ?t] fw Some False True p0 g wb b(5) ord
          by (simp add: click_windows_def click_grabs_def Let_def)
      next
        case not_title: False
        have "widget_list ?b p (W p)" using gui_invD(3) [OF b(1), of p] by simp
        then obtain w where w: "find_widget x y (wins ?b p) (widgets ?b) (widgets_head (wins ?b p)) = Some w"
          using find_widget_chain [of "widgets ?b" _ 0 "W p"] by (auto simp: linked_def)
        let ?t = "if w = 0 then ?b else widget_click w ?b"
        have "gui_inv base ?ys W (?t\<lparr>dragged_window := 0\<rparr>)" by (rule gui_inv_same [OF b(1)]) simp_all
        then show ?thesis using that [of ?t] fw Some False not_title p0 g wb b(4,5) d ord w
          by (simp add: click_windows_def click_grabs_def Let_def)
      qed
    qed
  qed
qed

text \<open>The areas of the icons that answer a click.\<close>

definition icon_at :: "int \<Rightarrow> int \<Rightarrow> bool" where
  "icon_at x y \<longleftrightarrow> x < 100 \<and> (40 \<le> y \<and> y \<le> 90 \<or> 110 \<le> y \<and> y \<le> 160 \<or> 180 \<le> y \<and> y \<le> 230)"

lemma no_icon: "\<not> icon_at x y \<Longrightarrow> click_icons x y s = Some s"
  by (auto simp: icon_at_def click_icons_def)

lemma event_click:
  assumes inv: "gui_inv base xs W u" and c: "left_click b s" and u: "click_icons x y s = Some u"
    and d: "dragged_window u = 0"
  obtains t where "gui_on_mouse_event x y b s = Some t" "gui_inv base (click_order x y u xs) W t"
    "dragged_window t = click_grabs x y u xs" "last_buttons t = b"
    "\<forall>q \<in> set (click_order x y u xs). geom (wins t q) = geom (wins u q)"
    "dragged_window t \<noteq> 0 \<longrightarrow> drag_off_x t = x - win_x (wins u (dragged_window t)) \<and> drag_off_y t = y - win_y (wins u (dragged_window t))"
proof -
  obtain t where t: "click_windows x y u = Some t" "last_buttons t = last_buttons u" "dragged_window t = click_grabs x y u xs"
      "gui_inv base (click_order x y u xs) W (t\<lparr>dragged_window := 0\<rparr>)"
      "\<forall>q \<in> set (click_order x y u xs). geom (wins t q) = geom (wins u q)"
      "dragged_window t \<noteq> 0 \<longrightarrow> drag_off_x t = x - win_x (wins u (dragged_window t)) \<and> drag_off_y t = y - win_y (wins u (dragged_window t))"
    by (rule click_windows_spec [OF inv d])
  define e where "e = (if dragged_window t \<noteq> 0
    then upd_win (dragged_window t) (\<lambda>v. v\<lparr>win_x := x - drag_off_x t, win_y := y - drag_off_y t\<rparr>) t else t)\<lparr>last_buttons := b\<rparr>"
  have cb: "b AND 1 \<noteq> 0" "\<not> left_release b s" using c by (auto simp: left_click_def left_release_def)
  have ev: "gui_on_mouse_event x y b s = Some e" using u c t(1) cb by (simp add: gui_on_mouse_event_def e_def)
  have grab: "click_grabs x y u xs \<in> set (click_order x y u xs) \<or> click_grabs x y u xs = 0"
    by (simp add: click_grabs_def click_order_def split: option.split)
  have e: "dragged_window e = dragged_window t" "last_buttons e = b" "drag_off_x e = drag_off_x t" "drag_off_y e = drag_off_y t"
    by (simp_all add: e_def)
  have g: "geom (wins e q) = geom (wins u q)" if "q \<in> set (click_order x y u xs)" for q
    using t(5,6) that by (auto simp: e_def geom_def)
  have "gui_inv base (click_order x y u xs) W e"
  proof (rule gui_inv_same [OF t(4)])
    show "dragged_window e = 0 \<or> dragged_window e \<in> set (click_order x y u xs) \<and> last_buttons e AND 1 \<noteq> 0"
      using e grab cb t(3) by auto
  qed (auto simp: e_def)
  then show ?thesis using that [OF ev] e t(3,6) g by simp
qed

lemma event_no_click:
  assumes inv: "gui_inv base xs W s" and c: "\<not> left_click b s"
  obtains t where "gui_on_mouse_event x y b s = Some t" "gui_inv base xs W t" "last_buttons t = b"
    "dragged_window t = (if b AND 1 \<noteq> 0 then dragged_window s else 0)" "drag_off_x t = drag_off_x s" "drag_off_y t = drag_off_y s"
    "\<forall>q \<in> set xs. geom (wins t q) = (if q = dragged_window s \<and> b AND 1 \<noteq> 0
       then (x - drag_off_x s, y - drag_off_y s, win_w (wins s q), win_h (wins s q)) else geom (wins s q))"
proof -
  define r where "r = (if left_release b s then s\<lparr>dragged_window := 0\<rparr> else s)"
  define e where "e = (if dragged_window r \<noteq> 0 \<and> b AND 1 \<noteq> 0
    then upd_win (dragged_window r) (\<lambda>v. v\<lparr>win_x := x - drag_off_x r, win_y := y - drag_off_y r\<rparr>) r else r)\<lparr>last_buttons := b\<rparr>"
  have ev: "gui_on_mouse_event x y b s = Some e" using c by (simp add: gui_on_mouse_event_def r_def e_def)
  have r: "dragged_window r = (if b AND 1 \<noteq> 0 then dragged_window s else 0)" "drag_off_x r = drag_off_x s"
      "drag_off_y r = drag_off_y s" "wins r = wins s" "widgets r = widgets s" "gheap r = gheap s" "window_list_head r = window_list_head s"
      "window_list_tail r = window_list_tail s"
    using c gui_invD(8) [OF inv] by (auto simp: r_def left_release_def left_click_def)
  have e: "last_buttons e = b" "dragged_window e = dragged_window r" "drag_off_x e = drag_off_x s" "drag_off_y e = drag_off_y s"
    by (simp_all add: e_def r)
  have "0 \<notin> set xs" using gui_invD(2) [OF inv] by (simp add: linked_def)
  then have g: "geom (wins e q) = (if q = dragged_window s \<and> b AND 1 \<noteq> 0
       then (x - drag_off_x s, y - drag_off_y s, win_w (wins s q), win_h (wins s q)) else geom (wins s q))" if "q \<in> set xs" for q
    using that by (auto simp: e_def r geom_def)
  have "gui_inv base xs W e"
    by (rule gui_inv_same [OF inv]) (use gui_invD(8) [OF inv] e(1,2) r(1) in \<open>auto simp: e_def r\<close>)
  then show ?thesis using that [OF ev] e r(1) g by simp
qed

text \<open>The events of the mouse driver, one after the other.\<close>

fun gui_events_run :: "(int \<times> int \<times> int) list \<Rightarrow> 'a gui_scheme \<Rightarrow> 'a gui_scheme option" where
  "gui_events_run [] s = Some s"
| "gui_events_run ((x, y, b) # es) s = gui_on_mouse_event x y b s \<bind> gui_events_run es"

lemma events_append: "gui_events_run (es @ fs) s = gui_events_run es s \<bind> gui_events_run fs"
proof (induction es s rule: gui_events_run.induct)
  case (2 x y b es s)
  then show ?case by (cases "gui_on_mouse_event x y b s") simp_all
qed simp

lemma held_moves:
  assumes "gui_inv base xs W s" and "dragged_window s = p" and "p \<noteq> 0" and "\<forall>(x, y, b) \<in> set (ms @ [(x1, y1, b1)]). b AND 1 \<noteq> 0"
  obtains t where "gui_events_run (ms @ [(x1, y1, b1)]) s = Some t" "gui_inv base xs W t" "dragged_window t = p" "last_buttons t AND 1 \<noteq> 0"
    "geom (wins t p) = (x1 - drag_off_x s, y1 - drag_off_y s, win_w (wins s p), win_h (wins s p))"
    "\<forall>q \<in> set xs - {p}. geom (wins t q) = geom (wins s q)"
  using assms
proof (induction ms arbitrary: s thesis)
  case Nil
  have pin: "p \<in> set xs" and lb: "last_buttons s AND 1 \<noteq> 0" using gui_invD(8) [OF Nil(2)] Nil(3,4) by auto
  have "\<not> left_click b1 s" using lb by (simp add: left_click_def)
  from event_no_click [OF Nil(2) this, of x1 y1] obtain t where t: "gui_on_mouse_event x1 y1 b1 s = Some t" "gui_inv base xs W t"
      "last_buttons t = b1" "dragged_window t = (if b1 AND 1 \<noteq> 0 then dragged_window s else 0)"
      "\<forall>q \<in> set xs. geom (wins t q) = (if q = dragged_window s \<and> b1 AND 1 \<noteq> 0
       then (x1 - drag_off_x s, y1 - drag_off_y s, win_w (wins s q), win_h (wins s q)) else geom (wins s q))" by metis
  then show ?case using Nil(1) [of t] Nil(3,5) pin by simp
next
  case (Cons m ms)
  obtain x y b where m: "m = (x, y, b)" by (cases m)
  have pin: "p \<in> set xs" and lb: "last_buttons s AND 1 \<noteq> 0" using gui_invD(8) [OF Cons(3)] Cons(4,5) by auto
  have "\<not> left_click b s" using lb by (simp add: left_click_def)
  from event_no_click [OF Cons(3) this, of x y] obtain u where u: "gui_on_mouse_event x y b s = Some u" "gui_inv base xs W u"
      "dragged_window u = (if b AND 1 \<noteq> 0 then dragged_window s else 0)" "drag_off_x u = drag_off_x s" "drag_off_y u = drag_off_y s"
      "\<forall>q \<in> set xs. geom (wins u q) = (if q = dragged_window s \<and> b AND 1 \<noteq> 0
       then (x - drag_off_x s, y - drag_off_y s, win_w (wins s q), win_h (wins s q)) else geom (wins s q))" by metis
  have b: "b AND 1 \<noteq> 0" "\<forall>(x, y, b) \<in> set (ms @ [(x1, y1, b1)]). b AND 1 \<noteq> 0" using Cons(6) m by auto
  have up: "dragged_window u = p" using u(3) b(1) Cons(4) by simp
  have wp: "win_w (wins u p) = win_w (wins s p)" "win_h (wins u p) = win_h (wins s p)"
    using u(6) [rule_format, OF pin] Cons(4) b(1) by (simp_all add: geom_def)
  obtain t where t: "gui_events_run (ms @ [(x1, y1, b1)]) u = Some t" "gui_inv base xs W t" "dragged_window t = p" "last_buttons t AND 1 \<noteq> 0"
    "geom (wins t p) = (x1 - drag_off_x u, y1 - drag_off_y u, win_w (wins u p), win_h (wins u p))"
    "\<forall>q \<in> set xs - {p}. geom (wins t q) = geom (wins u q)"
    by (rule Cons.IH [OF _ u(2) up Cons(5) b(2)])
  have "\<forall>q \<in> set xs - {p}. geom (wins t q) = geom (wins s q)" using t(6) u(6) Cons(4) by simp
  then show ?case using Cons(2) [of t] t u wp by (simp add: m)
qed

end
