(* ===== verification/Gui_Draw.thy ===== *)
theory Gui_Draw
  imports Gui
begin

text \<open>
  Drawing of the desktop by \<open>gui_render\<close>: it ends, changes nothing but the picture and shows
  the windows in stacking order. With the mouse events this gives the invariant of every reachable
  state, and that the close button of the front window is where a click looks for it.
\<close>

section \<open>Drawing changes the picture only\<close>

definition gui_part :: "'a gui_scheme \<Rightarrow> _" where
  "gui_part s = (gheap s, wins s, widgets s, window_list_head s, window_list_tail s, last_buttons s, dragged_window s,
     drag_off_x s, drag_off_y s)"

lemma put_pixel_part: "gui_part (vbe_put_pixel x y c s) = gui_part s"
  by (simp add: gui_part_def vbe_put_pixel_def)

definition glyph :: "u8 \<Rightarrow> u32 \<Rightarrow> nat \<Rightarrow> nat \<Rightarrow> u32 option" where
  "glyph ch c i j = (if font8x16 ch i AND drop_bit j 0x80 \<noteq> 0 then Some c else None)"

lemma draw_paint:
  "vbe_draw_rect x y w h c s = paint vbe_put_pixel x y (nat w) (nat h) (\<lambda>_ _. Some c) s"
  "vbe_draw_char x y ch c s = paint vbe_put_pixel x y 8 16 (glyph ch c) s"
proof -
  show "vbe_draw_rect x y w h c s = paint vbe_put_pixel x y (nat w) (nat h) (\<lambda>_ _. Some c) s"
    by (simp add: vbe_draw_rect_def paint_def)
  have "(if font8x16 ch i AND drop_bit j 0x80 \<noteq> 0 then vbe_put_pixel a b c t else t) =
      (case glyph ch c i j of Some c \<Rightarrow> vbe_put_pixel a b c t | None \<Rightarrow> t)" for i j a b and t :: "'a vbe_scheme"
    by (simp add: glyph_def)
  then show "vbe_draw_char x y ch c s = paint vbe_put_pixel x y 8 16 (glyph ch c) s"
    by (simp add: vbe_draw_char_def paint_def)
qed

text \<open>What a pixel write keeps is kept by every drawing operation.\<close>

locale picture_blind =
  fixes f :: "'a vbe_scheme \<Rightarrow> 'b"
  assumes put: "f (vbe_put_pixel x y c s) = f s"
begin

lemma rect [simp]: "f (vbe_draw_rect x y w h c s) = f s"
  unfolding draw_paint using bb.paint_inv [OF put] .

lemma draw_char [simp]: "f (vbe_draw_char x y ch c s) = f s"
  unfolding draw_paint using bb.paint_inv [OF put] .

lemma write_at [simp]: "f (vbe_write_at x y str c s) = f s"
  by (induction x y str c s rule: vbe_write_at.induct) simp_all

end

interpretation gp: picture_blind "gui_part :: 'a gui_scheme \<Rightarrow> _"
  by unfold_locales (rule put_pixel_part)

interpretation fo: picture_blind frame_ok
  by unfold_locales simp

interpretation cl: picture_blind "clipped a b" for a b
  by unfold_locales simp

lemma part_frames [simp]:
  "gui_part (draw_widget v w s) = gui_part s" "gui_part (draw_frame v s) = gui_part s"
  "gui_part (gui_draw_icon x y l c s) = gui_part s" "gui_part (desktop_line i s) = gui_part s"
  by (simp_all add: draw_widget_def draw_frame_def gui_draw_icon_def desktop_line_def Let_def split: gui_widget_type.split)

lemma gui_part_sel:
  assumes "gui_part t = gui_part s"
  shows "wins t = wins s" "widgets t = widgets s" "window_list_head t = window_list_head s" "gui_inv base xs W t = gui_inv base xs W s"
  using assms by (simp_all add: gui_part_def gui_inv_def)

section \<open>The windows in stacking order\<close>

definition window_picture :: "(u32 \<Rightarrow> u32 list) \<Rightarrow> 'a gui_scheme \<Rightarrow> u32 \<Rightarrow> 'a gui_scheme \<Rightarrow> 'a gui_scheme" where
  "window_picture W s p u =
     (if active (wins s p) = 0 then u
      else fold (\<lambda>q. draw_widget (wins s p) (widgets s q)) (W p) (draw_frame (wins s p) u))"

lemma widgets_part: "gui_part (fold (\<lambda>q. draw_widget v (ws q)) qs u) = gui_part u"
  by (induction qs arbitrary: u) simp_all

lemma picture_part [simp]: "gui_part (window_picture W s p u) = gui_part u"
  by (simp add: window_picture_def widgets_part)

lemma draw_widgets_chain:
  assumes "dchain (\<lambda>q. wnext (widgets s q)) pv q0 0 qs" and "0 \<notin> set qs" and "gui_part u = gui_part s"
  shows "draw_widgets p (first qs 0) u = Some (fold (\<lambda>q. draw_widget (wins s p) (widgets s q)) qs u)"
  using assms
proof (induction qs arbitrary: q0 u)
  case Nil
  then show ?case by (subst draw_widgets.simps) simp
next
  case (Cons q qs)
  let ?v = "draw_widget (wins s p) (widgets s q) u"
  have v: "gui_part ?v = gui_part s" using Cons.prems(3) by simp
  have "draw_widgets p (first (q # qs) 0) u = draw_widgets p (first qs 0) ?v"
    using Cons.prems gui_part_sel [OF v] gui_part_sel [OF Cons.prems(3)] by (subst draw_widgets.simps) simp
  then show ?case using Cons.IH [of q, OF _ _ v] Cons.prems by simp
qed

lemma draw_windows_chain:
  assumes "dchain (\<lambda>q. win_next (wins s q)) pv q0 0 ps" and "0 \<notin> set ps" and "gui_part u = gui_part s"
    and "\<forall>p \<in> set ps. widget_list s p (W p)"
  shows "draw_windows (first ps 0) u = Some (fold (window_picture W s) ps u)"
  using assms
proof (induction ps arbitrary: q0 u)
  case Nil
  then show ?case by (subst draw_windows.simps) simp
next
  case (Cons p ps)
  let ?v = "window_picture W s p u"
  have v: "gui_part ?v = gui_part s" using Cons.prems(3) by simp
  note us = gui_part_sel [OF Cons.prems(3)]
  have "gui_draw_window p u = Some ?v" if a: "active (wins s p) \<noteq> 0"
  proof -
    let ?f = "draw_frame (wins s p) u"
    have f: "gui_part ?f = gui_part s" using Cons.prems(3) by simp
    have "widget_list s p (W p)" using Cons.prems(4) by simp
    then have "draw_widgets p (widgets_head (wins s p)) ?f = Some (fold (\<lambda>q. draw_widget (wins s p) (widgets s q)) (W p) ?f)"
      using draw_widgets_chain [OF _ _ f] by (auto simp: linked_def)
    then show ?thesis using a us gui_part_sel(1) [OF f] by (simp add: gui_draw_window_def window_picture_def)
  qed
  then have "draw_windows (first (p # ps) 0) u = draw_windows (first ps 0) ?v"
    using Cons.prems us gui_part_sel(1) [OF v]
    by (subst draw_windows.simps) (auto simp: window_picture_def)
  then show ?case using Cons.IH [of p, OF _ _ v] Cons.prems by simp
qed

text \<open>The background with the icons, and the panel with the time.\<close>

definition desktop :: "'a gui_scheme \<Rightarrow> 'a gui_scheme" where
  "desktop s = gui_draw_icon 20 250 (lit ''Network'') 0x002ed573 (gui_draw_icon 20 180 (lit ''Files'') 0x001e90ff
     (gui_draw_icon 20 110 (lit ''Terminal'') 0x002f3542 (gui_draw_icon 20 40 (lit ''Storage'') 0x00ffa502
       (for_range 0 600 desktop_line s))))"

definition panel :: "'a gui_scheme \<Rightarrow> 'a gui_scheme" where
  "panel s = (let ((h, m, sec), t) = rtc_get_time (vbe_draw_rect 300 30 200 1 0x007F8C8D (vbe_draw_rect 300 0 200 30 0x00DCDDE1 s))
     in vbe_write_at 360 8 (time_chars h m sec) 0x002F3640 t)"

lemma desktop_part: "gui_part (desktop s) = gui_part s"
proof -
  have "gui_part (for_range 0 600 desktop_line s) = gui_part s"
    by (rule for_range_inv [where P = "\<lambda>_ t. gui_part t = gui_part s"]) simp_all
  then show ?thesis by (simp add: desktop_def)
qed

lemma rtc_part: "gui_part (snd (rtc_get_time s)) = gui_part s"
  by (simp add: rtc_get_time_def get_rtc_register_def port_defs gui_part_def Let_def split: prod.split)

lemma panel_part: "gui_part (panel s) = gui_part s"
proof -
  let ?u = "vbe_draw_rect 300 30 200 1 0x007F8C8D (vbe_draw_rect 300 0 200 30 0x00DCDDE1 s)"
  have "gui_part t = gui_part s" if "rtc_get_time ?u = (hms, t)" for hms t
    using rtc_part [of ?u] that by simp
  then show ?thesis by (auto simp: panel_def split: prod.split)
qed

lemma render_stacking:
  assumes "gui_inv base xs W s"
  shows "gui_render s = Some (panel (fold (window_picture W s) xs (desktop s))) \<and>
    gui_part (panel (fold (window_picture W s) xs (desktop s))) = gui_part s \<and>
    gui_inv base xs W (panel (fold (window_picture W s) xs (desktop s)))"
proof -
  note d = desktop_part [of s]
  have f: "gui_part (fold (window_picture W s) ps u) = gui_part u" for ps u
    by (induction ps arbitrary: u) simp_all
  have c: "dchain (\<lambda>q. win_next (wins s q)) (\<lambda>q. win_prev (wins s q)) 0 0 xs" "0 \<notin> set xs" "window_list_head s = first xs 0"
    using gui_invD(2) [OF assms] by (simp_all add: linked_def)
  have "draw_windows (window_list_head (desktop s)) (desktop s) = Some (fold (window_picture W s) xs (desktop s))"
    using draw_windows_chain [OF c(1,2) d] gui_invD(3) [OF assms] c(3) gui_part_sel(3) [OF d] by simp
  then have "gui_render s = Some (panel (fold (window_picture W s) xs (desktop s)))"
    by (simp add: gui_render_def desktop_def panel_def Let_def split: prod.split)
  moreover have p: "gui_part (panel (fold (window_picture W s) xs (desktop s))) = gui_part s" using panel_part f d by metis
  ultimately show ?thesis using gui_part_sel(4) [OF p] assms by blast
qed

text \<open>
  drawing the desktop ends and shows the background, then the active windows from the back
  to the front, each with its widgets in their order, and the panel last; the windows, the
  widgets, their links and the heap are as before.
\<close>

theorem gui_render_stacking:
  assumes "gui_inv base xs W s"
  shows "gui_render s = Some (panel (fold (window_picture W s) xs (desktop s))) \<and>
    gui_part (panel (fold (window_picture W s) xs (desktop s))) = gui_part s \<and>
    gui_inv base xs W (panel (fold (window_picture W s) xs (desktop s)))"
  using assms by (rule render_stacking)

section \<open>The close button\<close>

lemma rect_pixel:
  assumes "frame_ok s" and "\<not> clipped a b s"
  shows "vbe_get_pixel a b (vbe_draw_rect x y w h c s) = (if x \<le> a \<and> a < x + w \<and> y \<le> b \<and> b < y + h then c else vbe_get_pixel a b s)"
  unfolding draw_paint using bb.get_paint [OF assms] by (auto simp: overlay_def)

lemma text_outside:
  assumes "frame_ok s" and "\<not> clipped a b s" and "a < x \<or> x + 8 * int (strlen str) \<le> a \<or> b < y \<or> y + 16 \<le> b"
  shows "vbe_get_pixel a b (vbe_write_at x y str c s) = vbe_get_pixel a b s"
  using assms
proof (induction x y str c s rule: vbe_write_at.induct)
  case (2 x y ch str c s)
  let ?d = "vbe_draw_char x y ch c s"
  show ?case
  proof (cases "ch = 0")
    case False
    then have "vbe_get_pixel a b ?d = vbe_get_pixel a b s"
      using 2(4) unfolding draw_paint bb.get_paint [OF 2(2,3)] by (auto simp: overlay_def)
    moreover have "vbe_get_pixel a b (vbe_write_at (x + 8) y str c ?d) = vbe_get_pixel a b ?d"
      using 2(2-4) False by (intro "2.IH") (auto simp: fo.draw_char cl.draw_char)
    ultimately show ?thesis using False by simp
  qed simp
qed simp

lemma frame_close_button:
  assumes ok: "frame_ok s" "\<not> clipped a b s"
    and a: "win_x v + win_w v - 20 \<le> a" "a < win_x v + win_w v - 5" and b: "win_y v + 5 \<le> b" "b < win_y v + 20"
    and sz: "20 < win_w v" "20 < win_h v" "10 + 8 * int (strlen (title v)) \<le> win_w v - 20"
  shows "vbe_get_pixel a b (draw_frame v s) = 0x00FF4757"
  using a b sz by (simp add: draw_frame_def Let_def text_outside rect_pixel ok fo.rect cl.rect)

lemma rtc_screen:
  fixes s :: "'a vbe_scheme"
  shows "frame_ok (snd (rtc_get_time s)) = frame_ok s" "clipped a b (snd (rtc_get_time s)) = clipped a b s"
    "vbe_get_pixel a b (snd (rtc_get_time s)) = vbe_get_pixel a b s"
  by (simp_all add: rtc_get_time_def get_rtc_register_def port_defs Let_def frame_ok_def clipped_def vbe_get_pixel_def pix_def)

lemma panel_pixel:
  assumes ok: "frame_ok s" "\<not> clipped a b s" and "\<not> (300 \<le> a \<and> a < 500 \<and> b \<le> 30)"
  shows "vbe_get_pixel a b (panel s) = vbe_get_pixel a b s"
proof -
  let ?u = "vbe_draw_rect 300 30 200 1 0x007F8C8D (vbe_draw_rect 300 0 200 30 0x00DCDDE1 s)"
  have u: "vbe_get_pixel a b ?u = vbe_get_pixel a b s"
    using assms(3) by (auto simp: rect_pixel ok fo.rect cl.rect)
  obtain h m sec t where r: "rtc_get_time ?u = ((h, m, sec), t)" by (metis prod.exhaust)
  have "snd (rtc_get_time ?u) = t" using r by simp
  then have t: "frame_ok t" "\<not> clipped a b t" "vbe_get_pixel a b t = vbe_get_pixel a b ?u"
    using ok rtc_screen(1) [of ?u] rtc_screen(2,3) [of a b ?u] by (simp_all add: fo.rect cl.rect)
  have "strlen (time_chars h m sec) \<le> 8" by (simp add: time_chars_def)
  then have "vbe_get_pixel a b (panel s) = vbe_get_pixel a b t"
    using assms(3) by (simp add: panel_def r) (rule text_outside [OF t(1,2)], linarith)
  then show ?thesis using t u by simp
qed

text \<open>
  what the user sees is what a click hits. After drawing, the pixels of the close button of an
  active front window without widgets have the colour of the button, unless the top panel covers
  them, and a press on any of these pixels closes that window and no other one. The window has to
  be wide enough for its title and the button.
\<close>

theorem gui_close_button_seen:
  assumes inv: "gui_inv base (xs @ [p]) W s" and v: "active (wins s p) \<noteq> 0" "W p = []" and ok: "frame_ok s" "\<not> clipped a b s"
    and a: "win_x (wins s p) + win_w (wins s p) - 20 \<le> a" "a < win_x (wins s p) + win_w (wins s p) - 5"
    and b: "win_y (wins s p) + 5 \<le> b" "b < win_y (wins s p) + 20"
    and sz: "20 < win_w (wins s p)" "20 < win_h (wins s p)" "10 + 8 * int (strlen (title (wins s p))) \<le> win_w (wins s p) - 20"
    and top: "\<not> (300 \<le> a \<and> a < 500 \<and> b \<le> 30)" and c: "left_click bt s" and i: "\<not> icon_at a b"
  shows "\<exists>t u. gui_render s = Some t \<and> vbe_get_pixel a b t = 0x00FF4757 \<and>
    gui_on_mouse_event a b bt t = Some u \<and> gui_inv base xs W u"
proof -
  let ?under = "fold (window_picture W s) xs (desktop s)"
  have fo: "frame_ok (fold (\<lambda>q. draw_widget w (ws q)) qs u) = frame_ok u"
      "clipped a b (fold (\<lambda>q. draw_widget w (ws q)) qs u) = clipped a b u" for w ws qs and u :: "'a gui_scheme"
    by (induction qs arbitrary: u) (simp_all add: draw_widget_def fo.rect fo.write_at cl.rect cl.write_at Let_def split: gui_widget_type.split)
  have wp: "frame_ok (window_picture W s q u) = frame_ok u" "clipped a b (window_picture W s q u) = clipped a b u" for q u
    by (simp_all add: window_picture_def fo draw_frame_def Let_def fo.rect fo.write_at cl.rect cl.write_at)
  have fp: "frame_ok (fold (window_picture W s) ps u) = frame_ok u" "clipped a b (fold (window_picture W s) ps u) = clipped a b u" for ps u
    by (induction ps arbitrary: u) (simp_all add: wp)
  have "frame_ok (for_range 0 600 desktop_line s) \<and> \<not> clipped a b (for_range 0 600 desktop_line s)"
    by (rule for_range_inv [where P = "\<lambda>_ t. frame_ok t \<and> \<not> clipped a b t"])
       (use ok in \<open>auto simp: desktop_line_def Let_def fo.rect cl.rect\<close>)
  then have "frame_ok (desktop s)" "\<not> clipped a b (desktop s)"
    by (simp_all add: desktop_def gui_draw_icon_def fo.rect fo.write_at cl.rect cl.write_at)
  then have bk: "frame_ok ?under" "\<not> clipped a b ?under" by (simp_all add: fp)
  have front: "fold (window_picture W s) (xs @ [p]) (desktop s) = draw_frame (wins s p) ?under"
    using v by (simp add: window_picture_def)
  let ?t = "panel (draw_frame (wins s p) ?under)"
  have r: "gui_render s = Some ?t" and gp: "gui_part ?t = gui_part s" and ti: "gui_inv base (xs @ [p]) W ?t"
    using render_stacking [OF inv] unfolding front by simp_all
  have px: "vbe_get_pixel a b ?t = 0x00FF4757"
    using panel_pixel [of "draw_frame (wins s p) ?under" a b] frame_close_button [OF bk a b sz] bk top
    by (simp add: draw_frame_def Let_def fo.rect fo.write_at cl.rect cl.write_at)
  have w: "wins ?t = wins s" using gui_part_sel(1) [OF gp] .
  have hit: "in_window a b (wins s p)" "on_close_button a b (wins s p)" using a b sz by (simp_all add: in_window_def on_close_button_def)
  have "p \<notin> set xs" using gui_invD(2) [OF inv] by (simp add: linked_def)
  then have ord: "click_order a b ?t (xs @ [p]) = xs" using hit w by (simp add: click_order_def front_window_def remove1_append)
  have lb: "last_buttons ?t = last_buttons s" using gp by (simp add: gui_part_def)
  then have ct: "left_click bt ?t" using c by (simp add: left_click_def)
  have "dragged_window ?t = 0" using gui_invD(8) [OF ti] ct by (auto simp: left_click_def)
  then obtain u where "gui_on_mouse_event a b bt ?t = Some u" "gui_inv base xs W u"
    using event_click [OF ti ct no_icon [OF i]] unfolding ord by metis
  then show ?thesis using r px by blast
qed

section \<open>Mouse events\<close>

text \<open>The heap is used by a click only to give back the window whose close button is pressed.\<close>

lemma click_heap:
  assumes inv: "gui_inv base xs W s" and c: "left_click b s" and i: "\<not> icon_at x y" and e: "gui_on_mouse_event x y b s = Some t"
  shows "gheap t = (case front_window x y s xs of None \<Rightarrow> gheap s
    | Some p \<Rightarrow> if on_close_button x y (wins s p) then kfree p (gheap s) else gheap s)"
proof -
  have fw: "find_window x y (wins s) (window_list_tail s) = Some (case front_window x y s xs of None \<Rightarrow> 0 | Some p \<Rightarrow> p)"
    using find_window_chain [of "wins s" 0 xs x y] gui_invD(2) [OF inv] by (simp add: linked_def front_window_def)
  have "\<exists>u. click_windows x y s = Some u \<and> gheap t = gheap u"
  proof (cases "click_windows x y s")
    case None
    then show ?thesis using e c by (simp add: gui_on_mouse_event_def no_icon [OF i])
  next
    case (Some u)
    then show ?thesis using e c by (auto simp: gui_on_mouse_event_def no_icon [OF i] Let_def)
  qed
  then obtain u where u: "click_windows x y s = Some u" "gheap t = gheap u" by blast
  show ?thesis
  proof (cases "front_window x y s xs")
    case None
    then show ?thesis using u fw by (simp add: click_windows_def)
  next
    case (Some p)
    then have p: "p \<in> set xs" by (auto simp: front_window_def find_Some_iff dest: nth_mem [where xs = "rev xs", simplified])
    then have p0: "p \<noteq> 0" using gui_invD(2) [OF inv] by (auto simp: linked_def)
    have f: "gheap (widget_click w v) = gheap v" for w and v :: "'a gui_scheme" by (simp add: widget_click_def test_btn_click_def split: click_fun.split)
    have un: "gheap (unlink_window p s) = gheap s" by (simp add: unlink_window_def Let_def)
    have d: "gheap (gui_destroy_window p s) = kfree p (gheap s)" using p0 un by (simp add: gui_destroy_window_def Let_def)
    show ?thesis using u fw Some p0 bring_to_front_inv(6) [OF inv p] f d
      by (auto simp: click_windows_def Let_def split: bind_splits if_splits)
  qed
qed

text \<open>
  C31: a press of the left button that hits no desktop icon goes to the front window under the pointer and to no other
  one. On its close button it removes exactly that window from the stacking order and gives
  its buffer, and nothing else, back to the heap; otherwise the window becomes the front one and the heap stays as it is, and only a press on
  its title bar takes hold of it. No window moves, the lists stay linked correctly in both directions, and the
  search through the windows and the widgets ends. (A press on a desktop icon opens a window first.)
\<close>

theorem gui_click_correct:
  assumes "gui_inv base xs W s" and "left_click b s" and "\<not> icon_at x y"
  shows "\<exists>t. gui_on_mouse_event x y b s = Some t \<and> gui_inv base (click_order x y s xs) W t \<and>
    dragged_window t = click_grabs x y s xs \<and> (\<forall>q \<in> set (click_order x y s xs). geom (wins t q) = geom (wins s q)) \<and>
    (case front_window x y s xs of
       Some p \<Rightarrow> if on_close_button x y (wins s p)
         then \<exists>c. (p, c) \<in> kheap_live base (gheap s) \<and> kheap_live base (gheap t) = kheap_live base (gheap s) - {(p, c)}
         else gheap t = gheap s
     | None \<Rightarrow> gheap t = gheap s)"
proof -
  have d: "dragged_window s = 0" using gui_invD(8) [OF assms(1)] assms(2) by (auto simp: left_click_def)
  obtain t where t: "gui_on_mouse_event x y b s = Some t" "gui_inv base (click_order x y s xs) W t"
      "dragged_window t = click_grabs x y s xs" "\<forall>q \<in> set (click_order x y s xs). geom (wins t q) = geom (wins s q)"
    using event_click [OF assms(1,2) no_icon [OF assms(3)] d] by metis
  have "\<exists>c. (p, c) \<in> kheap_live base (gheap s) \<and> kheap_live base (kfree p (gheap s)) = kheap_live base (gheap s) - {(p, c)}"
    if "front_window x y s xs = Some p" for p
  proof -
    have "p \<in> set xs" using that by (auto simp: front_window_def find_Some_iff dest: nth_mem [where xs = "rev xs", simplified])
    then obtain c where "(p, c) \<in> kheap_live base (gheap s)" using assms(1) by (auto simp: gui_inv_def has_room_def)
    then show ?thesis using kh.release_ok [of base "gheap s" p c] assms(1) by (auto simp: gui_inv_def)
  qed
  then show ?thesis using t click_heap [OF assms t(1)] by (auto split: option.split)
qed

text \<open>
  dragging. A press on the title bar of the front window under the pointer, any movements with the
  button held and the release move that window by exactly the way of the pointer between the
  press and the last movement, wherever the button is released, and move no other window; afterwards nothing is held.
\<close>

theorem gui_drag_correct:
  assumes inv: "gui_inv base xs W s" and c: "left_click b0 s" and i: "\<not> icon_at x0 y0"
    and p: "front_window x0 y0 s xs = Some p" and tb: "\<not> on_close_button x0 y0 (wins s p)" "y0 \<le> win_y (wins s p) + 25"
    and ms: "\<forall>(x, y, b) \<in> set (ms @ [(x1, y1, b1)]). b AND 1 \<noteq> 0" and rel: "b2 AND 1 = 0"
  shows "\<exists>t. gui_events_run ((x0, y0, b0) # ms @ [(x1, y1, b1), (x2, y2, b2)]) s = Some t \<and>
    gui_inv base (remove1 p xs @ [p]) W t \<and> dragged_window t = 0 \<and>
    geom (wins t p) = (win_x (wins s p) + (x1 - x0), win_y (wins s p) + (y1 - y0), win_w (wins s p), win_h (wins s p)) \<and>
    (\<forall>q \<in> set xs - {p}. geom (wins t q) = geom (wins s q))"
proof -
  let ?ys = "remove1 p xs @ [p]"
  have d: "dragged_window s = 0" using gui_invD(8) [OF inv] c by (auto simp: left_click_def)
  have ord: "click_order x0 y0 s xs = ?ys" "click_grabs x0 y0 s xs = p" using p tb by (simp_all add: click_order_def click_grabs_def)
  have pin: "p \<in> set xs" using p by (auto simp: front_window_def find_Some_iff dest: nth_mem [where xs = "rev xs", simplified])
  then have p0: "p \<noteq> 0" using gui_invD(2) [OF inv] by (auto simp: linked_def)
  have "distinct xs" using gui_invD(2) [OF inv] by (simp add: linked_def)
  then have ys: "set ?ys = set xs" using pin by auto
  obtain u where u: "gui_on_mouse_event x0 y0 b0 s = Some u" "gui_inv base ?ys W u" "dragged_window u = p"
      "\<forall>q \<in> set ?ys. geom (wins u q) = geom (wins s q)"
      "drag_off_x u = x0 - win_x (wins s p)" "drag_off_y u = y0 - win_y (wins s p)"
    using event_click [OF inv c no_icon [OF i] d] p0 unfolding ord by metis
  obtain v where v: "gui_events_run (ms @ [(x1, y1, b1)]) u = Some v" "gui_inv base ?ys W v" "dragged_window v = p" "last_buttons v AND 1 \<noteq> 0"
      "geom (wins v p) = (x1 - drag_off_x u, y1 - drag_off_y u, win_w (wins u p), win_h (wins u p))"
      "\<forall>q \<in> set ?ys - {p}. geom (wins v q) = geom (wins u q)"
    by (rule held_moves [OF u(2,3) p0 ms])
  have "\<not> left_click b2 v" using rel by (simp add: left_click_def)
  from event_no_click [OF v(2) this, of x2 y2] obtain t where t: "gui_on_mouse_event x2 y2 b2 v = Some t" "gui_inv base ?ys W t"
      "dragged_window t = 0" "\<forall>q \<in> set ?ys. geom (wins t q) = geom (wins v q)" using rel by metis
  have "gui_events_run ((x0, y0, b0) # ms @ [(x1, y1, b1), (x2, y2, b2)]) s = Some t"
    using u(1) v(1) t(1) events_append [of "ms @ [(x1, y1, b1)]" "[(x2, y2, b2)]" u] by simp
  moreover have "geom (wins t p) = (win_x (wins s p) + (x1 - x0), win_y (wins s p) + (y1 - y0), win_w (wins s p), win_h (wins s p))"
    using t(4) v(5) u(4-6) by (simp add: geom_def)
  moreover have "\<forall>q \<in> set xs - {p}. geom (wins t q) = geom (wins s q)" using t(4) v(6) u(4) unfolding ys by simp
  ultimately show ?thesis using t(2,3) by blast
qed

text \<open>Closing a window does not give the buffers of its widgets back, and no list leads to them any more.\<close>

lemma gui_destroy_leaks_widgets:
  assumes "gui_inv base xs W s" and "p \<in> set xs" and "dragged_window s \<noteq> p" and "q \<in> set (W p)"
  shows "q \<in> fst ` kheap_live base (gheap (gui_destroy_window p s)) \<and> gui_inv base (remove1 p xs) W (gui_destroy_window p s) \<and>
    (\<forall>p' \<in> set (remove1 p xs). q \<notin> set (W p'))"
proof -
  obtain c where c: "kheap_live base (gheap (gui_destroy_window p s)) = kheap_live base (gheap s) - {(p, c)}"
    using destroy_inv(3) [OF assms(1-3)] by blast
  have "q \<in> fst ` kheap_live base (gheap s)" using has_room_live [OF gui_invD(5) [OF assms(1,2,4)]] .
  moreover have "q \<noteq> p" using gui_invD(6) [OF assms(1,2)] assms(2,4) by blast
  ultimately have "q \<in> fst ` (kheap_live base (gheap s) - {(p, c)})" by force
  moreover have "q \<notin> set (W p')" if "p' \<in> set (remove1 p xs)" for p'
  proof -
    have "p' \<in> set xs" "p' \<noteq> p" using that gui_invD(2) [OF assms(1)] by (auto simp: linked_def dest: notin_set_remove1)
    then show ?thesis using gui_invD(7) [OF assms(1,2)] assms(4) by blast
  qed
  ultimately show ?thesis using destroy_inv(1) [OF assms(1-3)] c by simp
qed

section \<open>Reachable states\<close>

lemma alloc_no_room: "no_room n s \<Longrightarrow> gui_alloc n s = None"
  by (auto simp: no_room_def gui_alloc_def)

lemma alloc_sel: "gui_alloc n s = Some (p, u) \<Longrightarrow> dragged_window u = dragged_window s \<and> last_buttons u = last_buttons s"
  by (auto simp: gui_alloc_def split: bind_splits if_splits)

lemma create_window_Some:
  assumes inv: "gui_inv base xs W s" and c: "gui_create_window ttl x y w h c s = Some (p, t)"
  shows "gui_inv base (xs @ [p]) (W(p := [])) t" "dragged_window t = dragged_window s" "last_buttons t = last_buttons s"
proof -
  have "\<not> no_room sizeof_window s" using c alloc_no_room [of sizeof_window s] by (auto simp: gui_create_window_def)
  moreover have "strlen ttl < 64" using c by (auto simp: gui_create_window_def strcpy64_def split: if_splits bind_splits)
  ultimately obtain q u where "gui_create_window ttl x y w h c s = Some (q, u)" "gui_inv base (xs @ [q]) (W(q := [])) u"
      "dragged_window u = dragged_window s" "last_buttons u = last_buttons s"
    by (rule create_window_inv [OF inv])
  then show "gui_inv base (xs @ [p]) (W(p := [])) t" "dragged_window t = dragged_window s" "last_buttons t = last_buttons s"
    using c by simp_all
qed

lemma link_widget_sel [simp]:
  "dragged_window (link_widget p w s) = dragged_window s" "last_buttons (link_widget p w s) = last_buttons s"
  by (simp_all add: link_widget_def Let_def)

lemma create_widget_Some:
  assumes inv: "gui_inv base xs W s" and p: "p \<in> set xs" and v: "wnext v = 0" "wprev v = 0"
    and c: "gui_alloc sizeof_widget s = Some (w, u)"
  shows "gui_inv base xs (W(p := W p @ [w])) (link_widget p w (upd_widget w (\<lambda>_. v) u))"
proof -
  have "\<not> no_room sizeof_widget s" using c alloc_no_room by (metis option.distinct(1))
  then obtain w' h where "gui_alloc sizeof_widget s = Some (w', s\<lparr>gheap := h\<rparr>)"
      "gui_inv base xs (W(p := W p @ [w'])) (link_widget p w' (upd_widget w' (\<lambda>_. v) (s\<lparr>gheap := h\<rparr>)))"
    by (rule add_widget_inv [OF inv p _ v])
  then show ?thesis using c by simp
qed

lemma gui_inv_null: "gui_inv base xs W s \<Longrightarrow> p \<in> set xs \<Longrightarrow> p \<noteq> 0"
  using gui_invD(2) by (fastforce simp: linked_def)

lemma create_label_Some:
  assumes "gui_inv base xs W s" and "p \<in> set xs" and "gui_create_label p x y txt c s = Some (w, t)"
  shows "gui_inv base xs (W(p := W p @ [w])) t \<and> dragged_window t = dragged_window s \<and> last_buttons t = last_buttons s"
  using assms(3) create_widget_Some [OF assms(1,2)] gui_inv_null [OF assms(1,2)]
  by (auto simp: gui_create_label_def zero_widget_def split: bind_splits) (metis alloc_sel)+

lemma create_button_Some:
  assumes "gui_inv base xs W s" and "p \<in> set xs" and "gui_create_button p x y wd ht txt f s = Some (w, t)"
  shows "gui_inv base xs (W(p := W p @ [w])) t \<and> dragged_window t = dragged_window s \<and> last_buttons t = last_buttons s"
  using assms(3) create_widget_Some [OF assms(1,2)] gui_inv_null [OF assms(1,2)]
  by (auto simp: gui_create_button_def zero_widget_def split: bind_splits) (metis alloc_sel)+

lemma click_icons_Some:
  assumes inv: "gui_inv base xs W s" and c: "click_icons x y s = Some t"
  shows "\<exists>ys V. gui_inv base ys V t \<and> dragged_window t = dragged_window s \<and> last_buttons t = last_buttons s"
proof (cases "x < 100 \<and> 40 \<le> y \<and> y \<le> 90")
  case True
  obtain w s1 l s2 bt where 1: "gui_create_window (lit ''UI Test Paneli'') 200 150 400 250 0x00F39C12 s = Some (w, s1)"
      and 2: "gui_create_label w 20 40 (lit ''Merhaba PekerOS GUI!'') 0x002F3542 s1 = Some (l, s2)"
      and 3: "gui_create_button w 20 80 120 30 (lit ''Tikla Bana'') Test_btn_click s2 = Some (bt, t)"
    using c True by (auto simp: click_icons_def split: bind_splits)
  note i1 = create_window_Some [OF inv 1]
  have w: "w \<in> set (xs @ [w])" by simp
  note i2 = create_label_Some [OF i1(1) w 2]
  note i3 = create_button_Some [OF conjunct1 [OF i2] w 3]
  show ?thesis using i1 i2 i3 by metis
next
  case False
  then show ?thesis
    using c inv create_window_Some [OF inv] by (auto simp: click_icons_def split: if_splits) metis+
qed

text \<open>
  The states of the window system: the start on any valid heap, windows opened by the kernel, mouse
  events and drawing, in any order.
\<close>

inductive gui_reach :: "u32 \<Rightarrow> 'a gui_scheme \<Rightarrow> bool" for base where
  init: "kheap_ok base (gheap s) \<Longrightarrow> dragged_window s = 0 \<Longrightarrow> gui_reach base (gui_init s)"
| create: "gui_reach base s \<Longrightarrow> gui_create_window ttl x y w h c s = Some (p, t) \<Longrightarrow> gui_reach base t"
| event: "gui_reach base s \<Longrightarrow> gui_on_mouse_event x y b s = Some t \<Longrightarrow> gui_reach base t"
| render: "gui_reach base s \<Longrightarrow> gui_render s = Some t \<Longrightarrow> gui_reach base t"

lemma event_inv:
  assumes inv: "gui_inv base xs W s" and e: "gui_on_mouse_event x y b s = Some t"
  shows "\<exists>ys V. gui_inv base ys V t"
proof (cases "left_click b s")
  case True
  then obtain u where u: "click_icons x y s = Some u" using e by (auto simp: gui_on_mouse_event_def split: bind_splits)
  have "dragged_window s = 0" using gui_invD(8) [OF inv] True by (auto simp: left_click_def)
  then obtain ys V where "gui_inv base ys V u" "dragged_window u = 0" using click_icons_Some [OF inv u] by auto
  from event_click [OF this(1) True u this(2)] e show ?thesis by (metis option.inject)
next
  case False
  from event_no_click [OF inv this] e show ?thesis by (metis option.inject)
qed

text \<open>
  C30: in every reachable state of the window system the windows form one list that is linked
  correctly in both directions, every window has such a list of widgets, all of them are
  distinct live buffers of a valid heap that are large enough, and the window being
  moved, if any, is one of the list: no event, no window that is opened or closed and no
  drawing leaves a dangling pointer behind. Drawing always returns, and so does every event
  that does not press a desktop icon.
\<close>

theorem gui_reachable_inv:
  assumes "gui_reach base s"
  shows "(\<exists>xs W. gui_inv base xs W s) \<and> (\<exists>t. gui_render s = Some t) \<and>
    (left_click b s \<and> icon_at x y \<or> (\<exists>t. gui_on_mouse_event x y b s = Some t))"
proof -
  have "\<exists>xs W. gui_inv base xs W s" using assms
  proof induction
    case (init s)
    then have "gui_inv base [] (\<lambda>_. []) (gui_init s)" by (simp add: gui_inv_def gui_init_def)
    then show ?case by blast
  next
    case create
    then show ?case using create_window_Some(1) by blast
  next
    case event
    then show ?case using event_inv by blast
  next
    case render
    then show ?case using render_stacking by (metis option.inject)
  qed
  then obtain xs W where inv: "gui_inv base xs W s" by blast
  have "\<exists>t. gui_on_mouse_event x y b s = Some t" if "\<not> (left_click b s \<and> icon_at x y)"
  proof (cases "left_click b s")
    case True
    have "dragged_window s = 0" using gui_invD(8) [OF inv] True by (auto simp: left_click_def)
    then show ?thesis using event_click [OF inv True no_icon] that True by metis
  next
    case False
    then show ?thesis using event_no_click [OF inv] by metis
  qed
  then show ?thesis using inv render_stacking [OF inv] by blast
qed

section \<open>Instances\<close>

definition demo_gui :: gui where
  "demo_gui = vbe.extend demo_screen (gui.fields heap_demo (\<lambda>_. zero_window) (\<lambda>_. zero_widget) 0 0 0 0 0 0)"

lemma demo_gui_sel:
  "gheap demo_gui = heap_demo" "dragged_window demo_gui = 0" "last_buttons demo_gui = 0" "frame_ok demo_gui"
  "clipped a b demo_gui = clipped a b demo_screen"
  using demo_screen_ok(1) by (simp_all add: demo_gui_def demo_screen_def vbe.defs gui.defs frame_ok_def clipped_def)

lemma demo_gui_inv: "gui_inv 0xC0400000 [] (\<lambda>_. []) demo_gui"
  using heap_demo_room by (simp add: gui_inv_def demo_gui_def demo_screen_def vbe.defs gui.defs)

lemma strlen_lit: "strlen (lit ''Terminal'') = 8"
  by (simp add: lit_def)

lemma create_window_screen:
  assumes "gui_create_window ttl x y w h c s = Some (p, t)"
  shows "frame_ok t = frame_ok s" "clipped a b t = clipped a b s"
  using assms by (auto simp: gui_create_window_def gui_alloc_def upd_win_def frame_ok_def clipped_def Let_def split: bind_splits if_splits)

text \<open>One window on an empty desktop.\<close>

lemma demo_window:
  obtains p s where "gui_create_window (lit ''Terminal'') 250 200 400 250 0 demo_gui = Some (p, s)"
    "gui_inv 0xC0400000 [p] (\<lambda>_. []) s" "geom (wins s p) = (250, 200, 400, 250)" "active (wins s p) = 1"
    "strlen (title (wins s p)) = 8" "last_buttons s = 0" "frame_ok s" "clipped a b s = clipped a b demo_screen"
proof -
  have room: "\<not> no_room sizeof_window demo_gui"
    using unused_heap_room [OF heap_demo_room(1,2), of sizeof_window] by (auto simp: no_room_def demo_gui_sel sizeof_window_def)
  have len: "strlen (lit ''Terminal'') < 64" by (simp add: strlen_lit)
  obtain p s where c: "gui_create_window (lit ''Terminal'') 250 200 400 250 0 demo_gui = Some (p, s)"
    "gui_inv 0xC0400000 ([] @ [p]) ((\<lambda>_. [])(p := [])) s"
    "look (wins s p) = zero_window\<lparr>win_x := 250, win_y := 200, win_w := 400, win_h := 250, color := 0, active := 1, title := cstr (lit ''Terminal'')\<rparr>"
    "last_buttons s = last_buttons demo_gui"
    using create_window_inv [OF demo_gui_inv room len, of 250 200 400 250 0] by metis
  have w: "(\<lambda>_. [])(p := []) = (\<lambda>_. [] :: u32 list)" by (simp add: fun_eq_iff)
  have "look (wins s p) = look (zero_window\<lparr>win_x := 250, win_y := 200, win_w := 400, win_h := 250, color := 0, active := 1, title := cstr (lit ''Terminal'')\<rparr>)"
    using c(3) by (simp add: look_def zero_window_def)
  note e = look_eqD [OF this]
  have "strlen (cstr (lit ''Terminal'')) = 8" by (simp add: lit_def cstr_def)
  then show ?thesis
    using that [OF c(1)] c(2,4) e w create_window_screen [OF c(1)] demo_gui_sel by (simp add: geom_def)
qed

theorem gui_click_correct_witness:
  "\<exists>p s t. gui_create_window (lit ''Terminal'') 250 200 400 250 0 demo_gui = Some (p, s) \<and>
     gui_on_mouse_event 640 210 1 s = Some t \<and> gui_inv 0xC0400000 [] (\<lambda>_. []) t"
proof -
  obtain p s where c: "gui_create_window (lit ''Terminal'') 250 200 400 250 0 demo_gui = Some (p, s)"
    "gui_inv 0xC0400000 [p] (\<lambda>_. []) s" "geom (wins s p) = (250, 200, 400, 250)" "last_buttons s = 0"
    by (rule demo_window)
  have "left_click 1 s" "\<not> icon_at 640 210" using c(4) by (simp_all add: left_click_def icon_at_def)
  note g = gui_click_correct [OF c(2) this]
  have "click_order 640 210 s [p] = []"
    using c(3) by (simp add: click_order_def front_window_def in_window_def on_close_button_def geom_def)
  then show ?thesis using g c(1) by auto
qed

theorem gui_drag_correct_witness:
  "\<exists>p s t. gui_create_window (lit ''Terminal'') 250 200 400 250 0 demo_gui = Some (p, s) \<and>
     gui_events_run [(300, 210, 1), (200, 400, 1), (310, 190, 1), (0, 0, 0)] s = Some t \<and> geom (wins t p) = (260, 180, 400, 250)"
proof -
  obtain p s where c: "gui_create_window (lit ''Terminal'') 250 200 400 250 0 demo_gui = Some (p, s)"
    "gui_inv 0xC0400000 [p] (\<lambda>_. []) s" "geom (wins s p) = (250, 200, 400, 250)" "last_buttons s = 0"
    by (rule demo_window)
  have a: "left_click 1 s" "\<not> icon_at 300 210" using c(4) by (simp_all add: left_click_def icon_at_def)
  have f: "front_window 300 210 s [p] = Some p" "\<not> on_close_button 300 210 (wins s p)" "210 \<le> win_y (wins s p) + 25"
    using c(3) by (simp_all add: front_window_def in_window_def on_close_button_def geom_def)
  show ?thesis
    using gui_drag_correct [OF c(2) a f, of "[(200, 400, 1)]" 310 190 1 0 0 0] c(1,3) by (auto simp: geom_def)
qed

theorem gui_render_stacking_witness:
  "\<exists>p s. gui_create_window (lit ''Terminal'') 250 200 400 250 0 demo_gui = Some (p, s) \<and>
     gui_render s = Some (panel (window_picture (\<lambda>_. []) s p (desktop s)))"
proof -
  obtain p s where c: "gui_create_window (lit ''Terminal'') 250 200 400 250 0 demo_gui = Some (p, s)"
    "gui_inv 0xC0400000 [p] (\<lambda>_. []) s" by (rule demo_window)
  then show ?thesis using gui_render_stacking [OF c(2)] by auto
qed

theorem gui_close_button_seen_witness:
  "\<exists>p s t u. gui_create_window (lit ''Terminal'') 250 200 400 250 0 demo_gui = Some (p, s) \<and> gui_render s = Some t \<and>
     vbe_get_pixel 640 210 t = 0x00FF4757 \<and> gui_on_mouse_event 640 210 1 t = Some u \<and> gui_inv 0xC0400000 [] (\<lambda>_. []) u"
proof -
  obtain p s where c: "gui_create_window (lit ''Terminal'') 250 200 400 250 0 demo_gui = Some (p, s)"
    "gui_inv 0xC0400000 [p] (\<lambda>_. []) s" "geom (wins s p) = (250, 200, 400, 250)" "active (wins s p) = 1"
    "strlen (title (wins s p)) = 8" "last_buttons s = 0" "frame_ok s" "clipped 640 210 s = clipped 640 210 demo_screen"
    by (rule demo_window)
  have g: "win_x (wins s p) = 250" "win_y (wins s p) = 200" "win_w (wins s p) = 400" "win_h (wins s p) = 250"
    using c(3) by (simp_all add: geom_def)
  have a: "left_click 1 s" "\<not> icon_at 640 210" "\<not> clipped 640 210 s"
    using c(6,8) by (simp_all add: left_click_def icon_at_def clipped_def demo_screen_def)
  have i: "gui_inv 0xC0400000 ([] @ [p]) (\<lambda>_. []) s" using c(2) by simp
  have "\<exists>t u. gui_render s = Some t \<and> vbe_get_pixel 640 210 t = 0x00FF4757 \<and>
      gui_on_mouse_event 640 210 1 t = Some u \<and> gui_inv 0xC0400000 [] (\<lambda>_. []) u"
    by (rule gui_close_button_seen [OF i _ _ c(7) a(3)]) (use c(4,5) g a in simp_all)
  then show ?thesis using c(1) by blast
qed

theorem gui_reachable_inv_witness:
  "\<exists>p s t u. gui_create_window (lit ''Terminal'') 250 200 400 250 0 (gui_init demo_gui) = Some (p, s) \<and>
     gui_render s = Some t \<and> gui_on_mouse_event 300 300 1 s = Some u"
proof -
  have d: "gui_init demo_gui = demo_gui" by (simp add: gui_init_def demo_gui_def demo_screen_def vbe.defs gui.defs)
  obtain p s where c: "gui_create_window (lit ''Terminal'') 250 200 400 250 0 demo_gui = Some (p, s)" by (rule demo_window)
  have "gui_reach 0xC0400000 (gui_init demo_gui)" using heap_demo_room(1) demo_gui_sel by (intro gui_reach.init) simp_all
  then have "gui_reach 0xC0400000 s" using c d by (auto intro: gui_reach.create)
  note r = gui_reachable_inv [OF this, of 1 300 300]
  then show ?thesis using c d by (auto simp: icon_at_def)
qed

end
