(* ===== verification/Console.thy ===== *)
theory Console
  imports Vbe
begin

text \<open>
  Text output, \<open>kernel/core/kernel.c\<close>: the 80x25 terminal in video memory with its cursor,
  strings, decimal and hexadecimal numbers and formatted output. When a graphics mode is
  active the characters go to \<open>Vbe\<close> instead.
\<close>

section \<open>State and operations\<close>

record console = vbe +
  terminal_row :: u32
  terminal_col :: u32
  video_memory :: "nat \<Rightarrow> u8"

definition update_cursor :: "'a console_scheme \<Rightarrow> 'a console_scheme" where
  "update_cursor s =
     (let pos = ucast (terminal_row s * 80 + terminal_col s) :: u16
      in outb 0x3D5 (ucast (drop_bit 8 pos)) (outb 0x3D4 0x0E (outb 0x3D5 (ucast pos) (outb 0x3D4 0x0F s))))"

definition blank_cell :: "nat \<Rightarrow> 'a console_scheme \<Rightarrow> 'a console_scheme" where
  "blank_cell i s = s\<lparr>video_memory := (video_memory s)(i := 0x20, i + 1 := 0x07)\<rparr>"

definition clear_scr :: "'a console_scheme \<Rightarrow> 'a console_scheme" where
  "clear_scr s = update_cursor
     ((for_range 0 (80 * 25) (\<lambda>k. blank_cell (2 * k)) s)\<lparr>terminal_row := 0, terminal_col := 0\<rparr>)"

definition scroll :: "'a console_scheme \<Rightarrow> 'a console_scheme" where
  "scroll s =
     (if terminal_row s \<ge> 25 then
        let s1 = for_range 0 (24 * 80 * 2) (\<lambda>i t. t\<lparr>video_memory := (video_memory t)(i := video_memory t (i + 80 * 2))\<rparr>) s;
            s2 = for_range (24 * 80) (25 * 80) (\<lambda>k. blank_cell (2 * k)) s1
        in s2\<lparr>terminal_row := 24\<rparr>
      else s)"

definition put_char :: "u8 \<Rightarrow> 'a console_scheme \<Rightarrow> 'a console_scheme" where
  "put_char c s0 =
     (let s = serial_write c s0
      in if vbe_is_active s \<noteq> 0 then vbe_write [c, 0] 0x00FFFFFF s
         else
           let s1 =
             (if c = 10 then s\<lparr>terminal_col := 0, terminal_row := terminal_row s + 1\<rparr>
              else if c = 8 then
                (if terminal_col s > 0 then
                   let s' = s\<lparr>terminal_col := terminal_col s - 1\<rparr>
                   in blank_cell (unat ((terminal_row s' * 80 + terminal_col s') * 2)) s'
                 else s)
              else
                let pos = unat ((terminal_row s * 80 + terminal_col s) * 2);
                    s' = s\<lparr>video_memory := (video_memory s)(pos := c, pos + 1 := 0x07), terminal_col := terminal_col s + 1\<rparr>
                in if terminal_col s' \<ge> 80 then s'\<lparr>terminal_col := 0, terminal_row := terminal_row s' + 1\<rparr> else s')
           in update_cursor (scroll s1))"

fun put_str :: "cstring \<Rightarrow> 'a console_scheme \<Rightarrow> 'a console_scheme" where
  "put_str [] s = s"
| "put_str (c # str) s = (if c \<noteq> 0 then put_str str (put_char c s) else s)"

text \<open>The digits of a number in the order the loop stores them, the least significant first.\<close>

function digit_loop :: "int \<Rightarrow> u8 list" where
  "digit_loop n = (if n > 0 then of_int (n mod 10 + 48) # digit_loop (n div 10) else [])"
  by pat_completeness auto
termination
  by (relation "measure nat") auto

declare digit_loop.simps [simp del]

text \<open>The characters \<open>put_int\<close> writes; \<open>n = -n\<close> is computed in 32 bits.\<close>

definition int_chars :: "int \<Rightarrow> u8 list" where
  "int_chars n =
     (if n = 0 then [48]
      else
        let n' = (if n < 0 then sint (- word_of_int n :: u32) else n)
        in (if n < 0 then [45] else []) @ rev (digit_loop n'))"

definition put_int :: "int \<Rightarrow> 'a console_scheme \<Rightarrow> 'a console_scheme" where
  "put_int n = fold put_char (int_chars n)"

definition hex_digits :: "u8 list" where
  "hex_digits = [48, 49, 50, 51, 52, 53, 54, 55, 56, 57, 65, 66, 67, 68, 69, 70]"

definition hex_chars :: "u32 \<Rightarrow> u8 list" where
  "hex_chars n = map (\<lambda>i. hex_digits ! unat (drop_bit (i * 4) n AND 0xF)) (rev [0..<8])"

definition put_hex :: "u32 \<Rightarrow> 'a console_scheme \<Rightarrow> 'a console_scheme" where
  "put_hex n s = fold put_char (hex_chars n) (put_str [48, 120] s)"

text \<open>
  Formatted output. An argument is a string or a number; where the format asks for an argument
  of the other kind, or for one too many, C gives no meaning and the result is None. After a
  percent sign the next character is consumed whatever it is.
\<close>

datatype karg = KStr cstring | KInt u32

fun kprintf :: "cstring \<Rightarrow> karg list \<Rightarrow> 'a console_scheme \<Rightarrow> 'a console_scheme option" where
  "kprintf [] args s = Some s"
| "kprintf (c # fs) args s =
     (if c = 0 then Some s
      else if c \<noteq> 37 then kprintf fs args (put_char c s)
      else case fs of
          [] \<Rightarrow> Some s
        | d # fs' \<Rightarrow>
            (if d = 115 then case args of KStr x # as \<Rightarrow> kprintf fs' as (put_str x s) | _ \<Rightarrow> None
             else if d = 100 then case args of KInt n # as \<Rightarrow> kprintf fs' as (put_int (sint n) s) | _ \<Rightarrow> None
             else if d = 120 then case args of KInt n # as \<Rightarrow> kprintf fs' as (put_hex n s) | _ \<Rightarrow> None
             else if d = 99 then case args of KInt n # as \<Rightarrow> kprintf fs' as (put_char (ucast n) s) | _ \<Rightarrow> None
             else kprintf fs' args s))"

section \<open>The terminal\<close>

text \<open>
  The terminal as a grid of 25 lines with 80 cells and a cursor, and what writing a character
  means there: a line feed starts the next line, a backspace erases the cell before the cursor
  on the same line, everything else is written and advances; when the cursor leaves the last
  line, all lines move up by one.
\<close>

type_synonym screen = "nat \<times> nat \<times> (nat \<Rightarrow> nat \<Rightarrow> u8 \<times> u8)"

definition screen_cell :: "nat \<Rightarrow> nat \<Rightarrow> u8 \<times> u8 \<Rightarrow> (nat \<Rightarrow> nat \<Rightarrow> u8 \<times> u8) \<Rightarrow> nat \<Rightarrow> nat \<Rightarrow> u8 \<times> u8" where
  "screen_cell r k v f = (\<lambda>i j. if i = r \<and> j = k then v else f i j)"

definition screen_scroll :: "screen \<Rightarrow> screen" where
  "screen_scroll = (\<lambda>(r, k, f).
     if r \<ge> 25 then (24, k, \<lambda>i j. if i < 24 \<and> j < 80 then f (i + 1) j else if i = 24 \<and> j < 80 then (0x20, 0x07) else f i j)
     else (r, k, f))"

definition screen_put :: "u8 \<Rightarrow> screen \<Rightarrow> screen" where
  "screen_put c = (\<lambda>(r, k, f). screen_scroll
     (if c = 10 then (r + 1, 0, f)
      else if c = 8 then (if k > 0 then (r, k - 1, screen_cell r (k - 1) (0x20, 0x07) f) else (r, k, f))
      else if k + 1 \<ge> 80 then (r + 1, 0, screen_cell r k (c, 0x07) f)
      else (r, k + 1, screen_cell r k (c, 0x07) f)))"

definition term_inv :: "'a console_scheme \<Rightarrow> bool" where
  "term_inv s \<longleftrightarrow> terminal_row s < 25 \<and> terminal_col s < 80 \<and> vbe_active s = 0"

definition cells :: "(nat \<Rightarrow> u8) \<Rightarrow> nat \<Rightarrow> nat \<Rightarrow> u8 \<times> u8" where
  "cells v r k = (if r < 25 \<and> k < 80 then (v (2 * (80 * r + k)), v (2 * (80 * r + k) + 1)) else (0, 0))"

definition term_screen :: "'a console_scheme \<Rightarrow> screen" where
  "term_screen s = (unat (terminal_row s), unat (terminal_col s), cells (video_memory s))"

lemma blank_loop:
  "lo \<le> hi \<Longrightarrow> for_range lo hi (\<lambda>k. blank_cell (2 * k)) s = s\<lparr>video_memory :=
     (\<lambda>i. if 2 * lo \<le> i \<and> i < 2 * hi then (if even i then 0x20 else 0x07) else video_memory s i)\<rparr>"
proof (induction hi)
  case 0
  then show ?case by simp
next
  case (Suc hi)
  show ?case
  proof (cases "lo \<le> hi")
    case True
    have "i < 2 * Suc hi \<longleftrightarrow> i < 2 * hi \<or> i = 2 * hi \<or> i = Suc (2 * hi)" for i by auto
    then have "(\<lambda>i. if 2 * lo \<le> i \<and> i < 2 * hi then (if even i then 0x20 else 0x07) else video_memory s i)
        (2 * hi := 0x20, Suc (2 * hi) := 0x07) =
      (\<lambda>i. if 2 * lo \<le> i \<and> i < 2 * Suc hi then (if even i then 0x20 else 0x07) else video_memory s i)"
      using True by (intro ext) auto
    then show ?thesis using Suc.IH [OF True] True by (simp add: for_range_Suc blank_cell_def)
  next
    case False
    then have "lo = Suc hi" using Suc.prems by simp
    moreover have "\<not> (2 * lo \<le> i \<and> i < 2 * lo)" for i by simp
    ultimately show ?thesis by (simp only: for_range_empty order_refl if_False) simp
  qed
qed

lemma scroll_loop:
  "for_range 0 n (\<lambda>i t. t\<lparr>video_memory := (video_memory t)(i := video_memory t (i + 160))\<rparr>) s =
     s\<lparr>video_memory := (\<lambda>i. if i < n then video_memory s (i + 160) else video_memory s i)\<rparr>"
proof (induction n)
  case (Suc n)
  have "(\<lambda>a. if a = n then video_memory s (n + 160) else if a < n then video_memory s (a + 160) else video_memory s a) =
      (\<lambda>i. if i < Suc n then video_memory s (i + 160) else video_memory s i)" by (intro ext) auto
  then show ?case using Suc by (simp add: for_range_Suc cong: if_cong)
qed simp

lemma scroll_eq:
  "scroll s = (if terminal_row s \<ge> 25 then s\<lparr>terminal_row := 24, video_memory := (\<lambda>i. if i < 3840 then video_memory s (i + 160)
     else if i < 4000 then (if even i then 0x20 else 0x07) else video_memory s i)\<rparr> else s)"
  by (simp add: scroll_def scroll_loop blank_loop Let_def) (auto simp: fun_eq_iff)

lemma scroll_screen:
  "term_screen (scroll s) = screen_scroll (term_screen s)"
proof (cases "terminal_row s \<ge> 25")
  case True
  then have r: "25 \<le> unat (terminal_row s)" by (simp add: word_le_nat_alt)
  have "cells (\<lambda>i. if i < 3840 then video_memory s (i + 160) else if i < 4000 then (if even i then 0x20 else 0x07) else video_memory s i) i j =
      (if i < 24 \<and> j < 80 then cells (video_memory s) (i + 1) j
       else if i = 24 \<and> j < 80 then (0x20, 0x07) else cells (video_memory s) i j)" for i j
    by (simp add: cells_def algebra_simps)
  then show ?thesis using True r by (simp add: scroll_eq term_screen_def screen_scroll_def fun_eq_iff)
next
  case False
  then have "unat (terminal_row s) < 25" by (simp add: not_le word_less_nat_alt)
  then show ?thesis using False by (simp add: scroll_eq term_screen_def screen_scroll_def)
qed

lemma cells_upd:
  assumes "r < 25" and "k < 80"
  shows "cells (v(2 * (80 * r + k) := c, 2 * (80 * r + k) + 1 := a)) = screen_cell r k (c, a) (cells v)"
proof (intro ext)
  fix i j
  have "80 * i + j = 80 * r + k \<longleftrightarrow> i = r \<and> j = k" if "j < 80"
  proof
    assume e: "80 * i + j = 80 * r + k"
    have "(80 * i + j) div 80 = i" "(80 * r + k) div 80 = r" using that assms(2) by simp_all
    then show "i = r \<and> j = k" using e by simp
  qed simp
  moreover define p q where "p = 80 * i + j" and "q = 80 * r + k"
  moreover have "2 * p \<noteq> 2 * q + 1" "2 * p + 1 \<noteq> 2 * q" by presburger+
  ultimately show "cells (v(2 * (80 * r + k) := c, 2 * (80 * r + k) + 1 := a)) i j = screen_cell r k (c, a) (cells v) i j"
    using assms unfolding cells_def screen_cell_def p_def [symmetric] q_def [symmetric] by auto
qed

lemma update_cursor_keeps:
  "\<exists>out. update_cursor s = s\<lparr>outs := out\<rparr>"
  by (auto simp: update_cursor_def Let_def outb_def)

text \<open>The part of \<open>put_char\<close> that works on the grid.\<close>

lemma put_char_grid:
  assumes "term_inv s"
  obtains n out where "put_char c s = update_cursor (scroll
     (if c = 10 then (s\<lparr>reads := n, outs := out\<rparr>)\<lparr>terminal_col := 0, terminal_row := terminal_row s + 1\<rparr>
      else if c = 8 then
        (if terminal_col s > 0 then
           blank_cell (unat ((terminal_row s * 80 + (terminal_col s - 1)) * 2)) ((s\<lparr>reads := n, outs := out\<rparr>)\<lparr>terminal_col := terminal_col s - 1\<rparr>)
         else s\<lparr>reads := n, outs := out\<rparr>)
      else
        let pos = unat ((terminal_row s * 80 + terminal_col s) * 2);
            s' = (s\<lparr>reads := n, outs := out\<rparr>)\<lparr>video_memory := (video_memory s)(pos := c, pos + 1 := 0x07), terminal_col := terminal_col s + 1\<rparr>
        in if terminal_col s + 1 \<ge> 80 then s'\<lparr>terminal_col := 0, terminal_row := terminal_row s + 1\<rparr> else s'))"
proof -
  obtain n out where e: "serial_write c s = s\<lparr>reads := n, outs := outs s @ out\<rparr>" by (rule serial_write_keeps)
  show ?thesis
    by (rule that [where n = n and out = "outs s @ out"])
      (use assms in \<open>simp add: put_char_def e vbe_is_active_def term_inv_def Let_def\<close>)
qed

lemma cell_pos:
  assumes "(r :: u32) < 25" and "k < 80"
  shows "unat ((r * 80 + k) * 2) = 2 * (80 * unat r + unat k)"
proof -
  have "unat r < 25" "unat k < 80" using assms by (simp_all add: word_less_nat_alt)
  then show ?thesis by (simp add: unat_word_ariths)
qed

lemma screen_put_bounds:
  "r < 25 \<Longrightarrow> k < 80 \<Longrightarrow> (case screen_put c (r, k, f) of (r', k', _) \<Rightarrow> r' < 25 \<and> k' < 80)"
  by (auto simp: screen_put_def screen_scroll_def)

lemma put_char_screen:
  assumes inv: "term_inv s"
  shows "term_inv (put_char c s)" "term_screen (put_char c s) = screen_put c (term_screen s)"
proof -
  have b: "terminal_row s < 25" "terminal_col s < 80" "vbe_active s = 0" using inv by (simp_all add: term_inv_def)
  then have u: "unat (terminal_row s) < 25" "unat (terminal_col s) < 80" by (simp_all add: word_less_nat_alt)
  have add: "unat (x + 1 :: u32) = unat x + 1" if "unat x < 80" for x
    using that by (simp add: unat_word_ariths)
  have sub: "unat (terminal_col s - 1) = unat (terminal_col s) - 1" if "terminal_col s > 0"
    using that by (simp add: unat_minus_one word_neq_0_conv)
  have uc: "term_screen (update_cursor t) = term_screen t" "vbe_active (update_cursor t) = vbe_active t" for t :: "'a console_scheme"
    using update_cursor_keeps [of t] by (auto simp: term_screen_def)
  have iv: "term_inv t \<longleftrightarrow> fst (term_screen t) < 25 \<and> fst (snd (term_screen t)) < 80 \<and> vbe_active t = 0" for t :: "'a console_scheme"
    by (simp add: term_inv_def term_screen_def word_less_nat_alt)
  have sc: "vbe_active (scroll t) = vbe_active t" for t :: "'a console_scheme" by (simp add: scroll_eq)
  note pos = cell_pos [OF b(1,2)]
  have pos': "unat ((terminal_row s * 80 + (terminal_col s - 1)) * 2) = 2 * (80 * unat (terminal_row s) + (unat (terminal_col s) - 1))"
    if "terminal_col s > 0"
  proof -
    have "terminal_col s - 1 < 80" using sub [OF that] u by (simp add: word_less_nat_alt)
    from cell_pos [OF b(1) this] show ?thesis by (simp only: sub [OF that])
  qed
  have g80: "terminal_col s + 1 \<ge> 80 \<longleftrightarrow> unat (terminal_col s) + 1 \<ge> 80" using add u by (simp add: word_le_nat_alt)
  have g0: "terminal_col s > 0 \<longleftrightarrow> unat (terminal_col s) > 0" by (simp add: word_less_nat_alt)
  have active: "vbe_active (put_char c s) = 0"
    by (rule put_char_grid [OF inv, of c]) (auto simp: uc sc b(3) blank_cell_def Let_def)
  show e: "term_screen (put_char c s) = screen_put c (term_screen s)"
  proof (rule put_char_grid [OF inv, of c])
    fix n out
    note cu = cells_upd [OF u(1), of _ "video_memory s"]
    assume e: "put_char c s = update_cursor (scroll
     (if c = 10 then (s\<lparr>reads := n, outs := out\<rparr>)\<lparr>terminal_col := 0, terminal_row := terminal_row s + 1\<rparr>
      else if c = 8 then
        (if terminal_col s > 0 then
           blank_cell (unat ((terminal_row s * 80 + (terminal_col s - 1)) * 2)) ((s\<lparr>reads := n, outs := out\<rparr>)\<lparr>terminal_col := terminal_col s - 1\<rparr>)
         else s\<lparr>reads := n, outs := out\<rparr>)
      else
        let pos = unat ((terminal_row s * 80 + terminal_col s) * 2);
            s' = (s\<lparr>reads := n, outs := out\<rparr>)\<lparr>video_memory := (video_memory s)(pos := c, pos + 1 := 0x07), terminal_col := terminal_col s + 1\<rparr>
        in if terminal_col s + 1 \<ge> 80 then s'\<lparr>terminal_col := 0, terminal_row := terminal_row s + 1\<rparr> else s'))"
    consider "c = 10" | "c = 8" "terminal_col s > 0" | "c = 8" "\<not> terminal_col s > 0" | "c \<noteq> 10" "c \<noteq> 8" by blast
    then show ?thesis
    proof cases
      case 1
      then show ?thesis unfolding e uc scroll_screen screen_put_def using add u by (simp add: term_screen_def)
    next
      case 2
      obtain q where q: "unat (terminal_col s) = Suc q" using 2(2) g0 by (auto dest: gr0_implies_Suc)
      have k: "q < 80" using u q by simp
      show ?thesis unfolding e uc scroll_screen screen_put_def blank_cell_def pos' [OF 2(2)]
        using 2 sub [OF 2(2)] cu [OF k, of "0x20" "0x07"] by (simp add: term_screen_def q)
    next
      case 3
      then show ?thesis unfolding e uc scroll_screen screen_put_def using g0 by (simp add: term_screen_def)
    next
      case 4
      then show ?thesis unfolding e uc scroll_screen screen_put_def Let_def pos
        using add u g80 by (auto simp: term_screen_def cu [OF u(2), simplified])
    qed
  qed
  show "term_inv (put_char c s)"
    using screen_put_bounds [OF u, of c "cells (video_memory s)"] active
    unfolding iv e by (simp add: term_screen_def case_prod_beta)
qed

lemma put_chars_screen:
  "term_inv s \<Longrightarrow> term_inv (fold put_char cs s) \<and> term_screen (fold put_char cs s) = fold screen_put cs (term_screen s)"
  by (induction cs arbitrary: s) (simp_all add: put_char_screen)

lemma put_str_fold: "put_str str s = fold put_char (cstr str) s"
  by (induction str arbitrary: s) (simp_all add: cstr_Cons)

lemma put_char_outside:
  assumes inv: "term_inv s" and k: "4000 \<le> k"
  shows "video_memory (put_char c s) k = video_memory s k"
proof -
  have cur: "video_memory (update_cursor t) = video_memory t" for t :: "'a console_scheme"
  proof -
    obtain out where "update_cursor t = t\<lparr>outs := out\<rparr>" using update_cursor_keeps by blast
    then show ?thesis by simp
  qed
  have scr: "video_memory (scroll t) k = video_memory t k" for t :: "'a console_scheme" using k by (simp add: scroll_eq)
  have pos: "unat ((terminal_row s * 80 + j) * 2) + 1 < 4000" if "j < 80" for j :: u32
  proof -
    have r: "terminal_row s < 25" using inv by (simp add: term_inv_def)
    then have "unat (terminal_row s) < 25" "unat j < 80" using that by (simp_all add: word_less_nat_alt)
    then show ?thesis unfolding cell_pos [OF r that] by simp
  qed
  have col: "terminal_col s < 80" using inv by (simp add: term_inv_def)
  have "terminal_col s - 1 < 80" if "terminal_col s > 0"
  proof -
    have "unat (terminal_col s - 1) = unat (terminal_col s) - 1" by (rule unat_minus_one) (use that in auto)
    then show ?thesis using col by (simp add: word_less_nat_alt)
  qed
  then have "video_memory (blank_cell (unat ((terminal_row s * 80 + (terminal_col s - 1)) * 2)) t) k = video_memory t k"
    if "terminal_col s > 0" for t :: "'a console_scheme"
    using that pos [of "terminal_col s - 1"] k by (simp add: blank_cell_def)
  then show ?thesis using pos [OF col] k by (cases rule: put_char_grid [OF inv, of c]) (simp add: cur scr Let_def)
qed

lemma put_chars_outside: "term_inv s \<Longrightarrow> 4000 \<le> k \<Longrightarrow> video_memory (fold put_char cs s) k = video_memory s k"
proof (induction cs arbitrary: s)
  case (Cons c cs)
  then show ?case using put_char_screen(1) [OF Cons.prems(1), of c] put_char_outside [of s k c] by simp
qed simp

text \<open>
  C27: in text mode with the cursor on the screen, writing a string acts on the terminal as the grid of 25 by 80 cells with
  line feeds, backspaces, wrapping and scrolling prescribes, character by character; the
  cursor stays on the screen, and nothing behind the 4000 bytes of the video memory's page is written.
\<close>

theorem put_str_terminal:
  assumes "term_inv s"
  shows "term_inv (put_str str s) \<and> term_screen (put_str str s) = fold screen_put (cstr str) (term_screen s) \<and>
    (\<forall>k \<ge> 4000. video_memory (put_str str s) k = video_memory s k)"
  using put_chars_screen [OF assms] put_chars_outside [OF assms] by (simp add: put_str_fold)

section \<open>Numbers\<close>

definition decimal :: "u8 list \<Rightarrow> int" where
  "decimal ds = foldl (\<lambda>a d. a * 10 + (uint d - 48)) 0 ds"

definition parse_int :: "u8 list \<Rightarrow> int" where
  "parse_int cs = (case cs of [] \<Rightarrow> 0 | c # ds \<Rightarrow> if c = 45 then - decimal ds else decimal cs)"

lemma digit_byte: "uint (of_int (n mod 10 + 48) :: u8) = n mod 10 + 48"
proof -
  have "0 \<le> n mod 10" "n mod 10 < 10" by simp_all
  then show ?thesis by (simp add: uint_word_of_int_eq take_bit_int_eq_self del: of_int_add)
qed

lemma digit_loop_decimal: "0 \<le> n \<Longrightarrow> decimal (rev (digit_loop n)) = n"
proof (induction n rule: digit_loop.induct)
  case (1 n)
  show ?case
  proof (cases "n > 0")
    case True
    then have "decimal (rev (digit_loop n)) = decimal (rev (digit_loop (n div 10))) * 10 + n mod 10"
      by (subst digit_loop.simps) (simp add: decimal_def digit_byte del: of_int_add)
    then show ?thesis using 1 True by simp
  next
    case False
    then show ?thesis using 1 by (subst digit_loop.simps) (simp add: decimal_def)
  qed
qed

lemma digit_loop_digits: "d \<in> set (digit_loop n) \<Longrightarrow> 48 \<le> d \<and> d \<le> 57"
proof (induction n rule: digit_loop.induct)
  case (1 n)
  then consider "n > 0" "d = of_int (n mod 10 + 48)" | "n > 0" "d \<in> set (digit_loop (n div 10))"
    by (subst (asm) digit_loop.simps) (auto split: if_splits)
  then show ?case
  proof cases
    case 1
    have "0 \<le> n mod 10" "n mod 10 < 10" by simp_all
    then show ?thesis using 1 digit_byte [of n] by (simp add: word_le_def del: of_int_add)
  next
    case 2
    then show ?thesis using "1.IH" by simp
  qed
qed

lemma digit_loop_last: "n > 0 \<Longrightarrow> digit_loop n \<noteq> [] \<and> last (digit_loop n) \<noteq> 48"
proof (induction n rule: digit_loop.induct)
  case (1 n)
  show ?case
  proof (cases "n div 10 > 0")
    case True
    then show ?thesis using 1 by (subst (1 2) digit_loop.simps) simp
  next
    case False
    then have "n < 10" using "1.prems" by (simp add: pos_imp_zdiv_pos_iff)
    then have "digit_loop (n div 10) = []" "n mod 10 = n" using "1.prems" False by (simp_all add: digit_loop.simps [of 0])
    moreover have "of_int (n mod 10 + 48) \<noteq> (48 :: u8)" using digit_byte [of n] "1.prems" \<open>n mod 10 = n\<close>
      by (auto simp: word_uint_eq_iff simp del: of_int_add)
    ultimately show ?thesis using "1.prems" by (subst (1 2) digit_loop.simps) (simp del: of_int_add)
  qed
qed

text \<open>
  a number is printed as its decimal digits, with a minus sign where it is negative and
  without leading zeros, so that reading the characters back gives the number. The one
  exception is the smallest 32-bit number, which has no 32-bit negative: it comes out as a
  lone minus sign.
\<close>

theorem put_int_decimal:
  assumes "-2147483648 \<le> n" and "n < 2147483648"
  shows "put_int n s = fold put_char (int_chars n) s \<and>
    (if n = -2147483648 then int_chars n = [45]
     else parse_int (int_chars n) = n \<and> (\<forall>d \<in> set (int_chars n). d = 45 \<or> 48 \<le> d \<and> d \<le> 57) \<and>
       (n \<noteq> 0 \<longrightarrow> hd (if n < 0 then tl (int_chars n) else int_chars n) \<noteq> 48))"
proof -
  have m: "sint (- word_of_int n :: u32) = - n" if "n < 0" "n \<noteq> -2147483648"
  proof -
    have "(- word_of_int n :: u32) = word_of_int (- n)" by simp
    then have "sint (- word_of_int n :: u32) = signed_take_bit 31 (- n)" by (simp only: sint_sbintrunc') simp
    then show ?thesis using that assms by (simp add: signed_take_bit_int_eq_self)
  qed
  have pos: "parse_int (rev (digit_loop k)) = k \<and> hd (rev (digit_loop k)) \<noteq> 48" if k: "k > 0" for k
  proof -
    obtain d ds where r: "rev (digit_loop k) = d # ds" using digit_loop_last [OF k] by (cases "rev (digit_loop k)") auto
    have "d \<in> set (digit_loop k)" using arg_cong [OF r, of set] by auto
    then have "d \<noteq> 45" using digit_loop_digits [of d k] by auto
    then show ?thesis
      using digit_loop_decimal [of k] digit_loop_last [OF k] k r by (simp add: parse_int_def hd_rev [symmetric])
  qed
  consider "n = 0" | "n = -2147483648" | "n > 0" | "n < 0" "n \<noteq> -2147483648" by linarith
  then show ?thesis
  proof cases
    case 1
    then show ?thesis by (simp add: put_int_def int_chars_def parse_int_def decimal_def)
  next
    case 2
    then show ?thesis by (simp add: put_int_def int_chars_def digit_loop.simps)
  next
    case 3
    then show ?thesis using pos [of n] digit_loop_digits [of _ n] by (auto simp: put_int_def int_chars_def)
  next
    case 4
    then have "- n > 0" by simp
    then show ?thesis using 4 m pos [of "- n"] digit_loop_digits [of _ "- n"] digit_loop_decimal [of "- n"]
      by (auto simp: put_int_def int_chars_def parse_int_def)
  qed
qed

text \<open>The value of a hexadecimal digit, and of eight of them.\<close>

definition hex_value :: "u8 \<Rightarrow> u32" where
  "hex_value d = (if d \<le> 57 then ucast d - 48 else ucast d - 55)"

lemma hex_digit_value: "n < 16 \<Longrightarrow> hex_value (hex_digits ! n) = of_nat n"
proof -
  assume "n < 16"
  moreover have "\<forall>k \<in> set [0..<16]. hex_value (hex_digits ! k) = of_nat k"
    by (simp add: upt_rec hex_value_def hex_digits_def)
  ultimately show ?thesis by simp
qed

lemma hex_chars_value: "foldl (\<lambda>a d. push_bit 4 a OR hex_value d) 0 (hex_chars n) = n"
proof -
  have nib: "unat (x AND 0xF) < 16" for x :: u32
    using word_and_le1 [of x "0xF"] by (simp add: word_le_nat_alt)
  have v: "hex_value (hex_digits ! unat (x AND 0xF)) = x AND 0xF" for x
    using hex_digit_value [OF nib] by simp
  have m: "(0xF :: u32) = mask 4" by (simp add: mask_eq_exp_minus_1)
  have s: "push_bit 4 (drop_bit k n) OR (drop_bit j n AND 0xF) = drop_bit j n" if "k = j + 4" for j k
    unfolding m that by (rule bit_word_eqI) (auto simp: bit_or_iff bit_and_iff bit_push_bit_iff bit_drop_bit_eq bit_mask_iff)
  have t: "drop_bit 28 n AND 0xF = drop_bit 28 n"
    unfolding m by (rule bit_word_eqI) (auto simp: bit_and_iff bit_drop_bit_eq bit_mask_iff dest: bit_imp_le_length)
  have l: "rev [0..<8] = [7, 6, 5, 4, 3, 2, 1, 0 :: nat]" by (simp add: upt_rec)
  have s': "push_bit 4 (drop_bit 28 n) OR (drop_bit 24 n AND 0xF) = drop_bit 24 n"
      "push_bit 4 (drop_bit 24 n) OR (drop_bit 20 n AND 0xF) = drop_bit 20 n"
      "push_bit 4 (drop_bit 20 n) OR (drop_bit 16 n AND 0xF) = drop_bit 16 n"
      "push_bit 4 (drop_bit 16 n) OR (drop_bit 12 n AND 0xF) = drop_bit 12 n"
      "push_bit 4 (drop_bit 12 n) OR (drop_bit 8 n AND 0xF) = drop_bit 8 n"
      "push_bit 4 (drop_bit 8 n) OR (drop_bit 4 n AND 0xF) = drop_bit 4 n"
      "push_bit 4 (drop_bit 4 n) OR (n AND 0xF) = n"
    using s [of 28 24] s [of 24 20] s [of 20 16] s [of 16 12] s [of 12 8] s [of 8 4] s [of 4 0] by simp_all
  let ?h = "\<lambda>x :: u32. hex_digits ! unat (x AND 0xF)"
  have "hex_chars n = [?h (drop_bit 28 n), ?h (drop_bit 24 n), ?h (drop_bit 20 n), ?h (drop_bit 16 n),
      ?h (drop_bit 12 n), ?h (drop_bit 8 n), ?h (drop_bit 4 n), ?h n]"
    unfolding hex_chars_def l by simp
  then show ?thesis using v [of "drop_bit 28 n"] by (simp only: foldl.simps v t s' push_bit_of_0 or.left_neutral)
qed

text \<open>
  The text a conversion denotes, with the arguments that remain, and the text of a whole
  format: \<open>kprintf\<close> writes it character by character.
\<close>

definition conversion :: "u8 \<Rightarrow> karg list \<Rightarrow> (u8 list \<times> karg list) option" where
  "conversion d args =
     (if d \<notin> {115, 100, 120, 99} then Some ([], args)
      else case args of
          [] \<Rightarrow> None
        | KStr x # as \<Rightarrow> if d = 115 then Some (cstr x, as) else None
        | KInt n # as \<Rightarrow> if d = 115 then None
            else Some (if d = 100 then int_chars (sint n) else if d = 120 then [48, 120] @ hex_chars n else [ucast n], as))"

fun render :: "cstring \<Rightarrow> karg list \<Rightarrow> u8 list option" where
  "render [] args = Some []"
| "render (c # fs) args =
     (if c = 0 then Some []
      else if c \<noteq> 37 then map_option ((#) c) (render fs args)
      else case fs of
          [] \<Rightarrow> Some []
        | d # fs' \<Rightarrow> (case conversion d args of None \<Rightarrow> None | Some (txt, as) \<Rightarrow> map_option ((@) txt) (render fs' as)))"

lemma kprintf_text: "kprintf fmt args s = map_option (\<lambda>txt. fold put_char txt s) (render fmt args)"
proof (induction fmt args s rule: kprintf.induct)
  case (2 c fs args s)
  consider "c = 0" | "c \<noteq> 0" "c \<noteq> 37" | "c = 37" by blast
  then show ?case
  proof cases
    case 2
    then show ?thesis using "2.IH"(1) by (simp add: option.map_comp comp_def)
  next
    case 3
    show ?thesis
    proof (cases fs)
      case (Cons d fs')
      note IH = "2.IH"(2-6) [OF _ _ Cons]
      show ?thesis using 3 Cons IH
        by (auto simp: conversion_def put_str_fold put_int_def put_hex_def option.map_comp comp_def cstr_Cons
            split: list.split karg.split)
    qed (use 3 in simp)
  qed simp
qed simp

text \<open>
  formatted output writes the text its format denotes: plain characters as they are,
  strings, decimal and hexadecimal numbers and characters from the arguments in order; eight
  hexadecimal digits give back the number.
\<close>

theorem kprintf_correct:
  assumes "term_inv s" and "render fmt args = Some txt"
  shows "\<exists>s'. kprintf fmt args s = Some s' \<and> term_inv s' \<and> term_screen s' = fold screen_put txt (term_screen s)"
  using put_chars_screen [OF assms(1)] assms(2) by (simp add: kprintf_text)

section \<open>Instances\<close>

definition demo_console :: console where
  "demo_console = vbe.extend (demo_screen\<lparr>vbe_active := 0\<rparr>)
     \<lparr>terminal_row = 24, terminal_col = 79, video_memory = (\<lambda>_. 0)\<rparr>"

lemma demo_console_inv: "term_inv demo_console"
  by (simp add: term_inv_def demo_console_def vbe.defs demo_screen_def)

theorem put_str_terminal_witness: "term_inv (put_str [72, 105, 10] demo_console)"
  using put_str_terminal [OF demo_console_inv, of "[72, 105, 10]"] by simp

theorem put_int_decimal_witness: "parse_int (int_chars (-105)) = -105"
  using put_int_decimal [of "-105" demo_console] by simp

theorem kprintf_correct_witness:
  "\<exists>s'. kprintf [97, 37, 100] [KInt 0] demo_console = Some s' \<and> term_inv s'"
proof -
  have "render [97, 37, 100] [KInt 0] = Some [97, 48]" by (simp add: conversion_def int_chars_def)
  then show ?thesis using kprintf_correct [OF demo_console_inv] by blast
qed

end
