(* ===== verification/Spinlock.thy ===== *)
theory Spinlock
  imports Peker_Prelude
begin

text \<open>
  Interrupt control and the single-core spinlock (\<open>include/spinlock.h\<close>). The processor
  state the lock works on is EFLAGS, whose bit 9 (IF) says whether interrupts are enabled;
  a lock remembers the EFLAGS of its last acquisition.
\<close>

record spinlock =
  locked :: int
  lflags :: u32

definition SPINLOCK_INIT :: spinlock where
  "SPINLOCK_INIT = \<lparr>locked = 0, lflags = 0\<rparr>"

definition cli :: "u32 \<Rightarrow> u32" where
  "cli eflags = eflags AND NOT 0x200"

definition irq_save :: "u32 \<Rightarrow> u32 \<times> u32" where
  "irq_save eflags = (eflags, cli eflags)"

definition irq_restore :: "u32 \<Rightarrow> u32 \<Rightarrow> u32" where
  "irq_restore flags eflags = flags"

definition spin_lock :: "u32 \<times> spinlock \<Rightarrow> u32 \<times> spinlock" where
  "spin_lock s = (let (flags, e) = irq_save (fst s) in (e, (snd s)\<lparr>lflags := flags, locked := 1\<rparr>))"

definition spin_unlock :: "u32 \<times> spinlock \<Rightarrow> u32 \<times> spinlock" where
  "spin_unlock s = (irq_restore (lflags (snd s)) (fst s), (snd s)\<lparr>locked := 0\<rparr>)"

text \<open>Whether interrupts are enabled.\<close>

definition interrupts_on :: "u32 \<Rightarrow> bool" where
  "interrupts_on eflags \<longleftrightarrow> eflags AND 0x200 \<noteq> 0"

lemmas spin_defs = spin_lock_def spin_unlock_def irq_save_def irq_restore_def

lemma interrupts_on_bit: "interrupts_on e \<longleftrightarrow> bit e 9"
proof -
  have "(0x200 :: u32) = 2 ^ 9" by simp
  then show ?thesis unfolding interrupts_on_def
    by (simp only: and_exp_eq_0_iff_not_bit) simp
qed

lemma cli_off: "\<not> interrupts_on (cli e)"
  unfolding interrupts_on_bit cli_def bit_and_iff bit_not_iff by simp

lemma cli_idem [simp]: "cli (cli e) = cli e"
  by (simp add: cli_def ac_simps)

text \<open>A critical section: the section runs with interrupts off and leaves them as they were.\<close>

lemma spin_section:
  "\<not> interrupts_on (fst (spin_lock s))" "fst (spin_unlock (spin_lock s)) = fst s"
  "locked (snd (spin_unlock (spin_lock s))) = 0"
  by (simp_all add: spin_defs cli_off)

text \<open>
  Sections of the same lock do not nest: the inner acquisition overwrites the flags the
  outer one saved, and after the outer release interrupts are off.
\<close>

lemma spin_nested:
  "fst (spin_unlock (spin_unlock (spin_lock (spin_lock s)))) = cli (fst s)"
  by (simp add: spin_defs)

end
