(* ===== verification/Ata.thy ===== *)
theory Ata
  imports Console Spinlock
begin

text \<open>
  The driver of the ATA disks, \<open>kernel/drivers/ata.c\<close>: sectors are transferred word by word
  through the ports of two controllers. Shown: with a drive that gets ready in time the driver
  sends exactly the commands for the block and transfers its 512 bytes, and what was written is
  what is read when the drive delivers it again; a drive that does not answer ends the transfer
  and leaves the buffer and the interrupt flag as they were.
\<close>

section \<open>Operations\<close>

record ata = console +
  ata_eflags :: u32
  ata_lock :: spinlock

definition lock_ata :: "'a ata_scheme \<Rightarrow> 'a ata_scheme" where
  "lock_ata s = (let (e, l) = spin_lock (ata_eflags s, ata_lock s) in s\<lparr>ata_eflags := e, ata_lock := l\<rparr>)"

definition unlock_ata :: "'a ata_scheme \<Rightarrow> 'a ata_scheme" where
  "unlock_ata s = (let (e, l) = spin_unlock (ata_eflags s, ata_lock s) in s\<lparr>ata_eflags := e, ata_lock := l\<rparr>)"

definition ATA_PRIMARY_STATUS :: u16 where "ATA_PRIMARY_STATUS = 0x1F7"

text \<open>\<open>while (--timeout) ...\<close>: the counter at the beginning of a round.\<close>

fun wait_ready_loop :: "nat \<Rightarrow> 'a ports_scheme \<Rightarrow> int \<times> 'a ports_scheme" where
  "wait_ready_loop 0 s = (-1, s)"
| "wait_ready_loop (Suc t) s =
     (if t = 0 then (-1, s)
      else
        let (status, s1) = inb ATA_PRIMARY_STATUS s
        in if status = 0xFF then (-1, s1) else if status AND 0x80 = 0 then (0, s1) else wait_ready_loop t s1)"

definition ata_wait_ready :: "'a ports_scheme \<Rightarrow> int \<times> 'a ports_scheme" where
  "ata_wait_ready = wait_ready_loop 1000000"

fun wait_bsy_loop :: "nat \<Rightarrow> 'a ports_scheme \<Rightarrow> int \<times> 'a ports_scheme" where
  "wait_bsy_loop 0 s = (-1, s)"
| "wait_bsy_loop (Suc t) s =
     (let (status, s1) = inb ATA_PRIMARY_STATUS s
      in if status AND 0x80 = 0 then (0, s1)
         else if t = 0 then (-1, s1)
         else let (status', s2) = inb ATA_PRIMARY_STATUS s1 in if status' = 0xFF then (-1, s2) else wait_bsy_loop t s2)"

definition ata_wait_bsy :: "'a ports_scheme \<Rightarrow> int \<times> 'a ports_scheme" where
  "ata_wait_bsy = wait_bsy_loop 1000000"

fun wait_drq_loop :: "nat \<Rightarrow> 'a ports_scheme \<Rightarrow> int \<times> 'a ports_scheme" where
  "wait_drq_loop 0 s = (-1, s)"
| "wait_drq_loop (Suc t) s =
     (let (status, s1) = inb ATA_PRIMARY_STATUS s
      in if status AND 0x08 \<noteq> 0 then (0, s1)
         else if t = 0 then (-1, s1)
         else let (status', s2) = inb ATA_PRIMARY_STATUS s1
              in if status' = 0xFF then (-1, s2) else if status' AND 0x01 \<noteq> 0 then (-1, s2) else wait_drq_loop t s2)"

definition ata_wait_drq :: "'a ports_scheme \<Rightarrow> int \<times> 'a ports_scheme" where
  "ata_wait_drq = wait_drq_loop 1000000"

text \<open>\<open>while (waiting(inb(port)) && --timeout);\<close>, with the value of the counter at the end.\<close>

fun poll :: "u16 \<Rightarrow> (u8 \<Rightarrow> bool) \<Rightarrow> nat \<Rightarrow> 'a ports_scheme \<Rightarrow> nat \<times> 'a ports_scheme" where
  "poll port waiting 0 s = (0, s)"
| "poll port waiting (Suc t) s =
     (let (v, s1) = inb port s
      in if waiting v then (if t = 0 then (0, s1) else poll port waiting t s1) else (Suc t, s1))"

text \<open>\<open>for (int i = 0; i < n; i++) inb(port);\<close>\<close>

definition delay_reads :: "u16 \<Rightarrow> nat \<Rightarrow> 'a ports_scheme \<Rightarrow> 'a ports_scheme" where
  "delay_reads port n s = for_range 0 n (\<lambda>_ t. snd (inb port t)) s"

definition ata_port :: "u8 \<Rightarrow> u16" where
  "ata_port drive_idx = (if drive_idx < 2 then 0x1F0 else 0x170)"

definition ata_drive :: "u8 \<Rightarrow> u8" where
  "ata_drive drive_idx = (if drive_idx mod 2 = 0 then 0xE0 else 0xF0)"

definition ata_select :: "u8 \<Rightarrow> u32 \<Rightarrow> 'a ports_scheme \<Rightarrow> 'a ports_scheme" where
  "ata_select drive_idx lba s =
     delay_reads (ata_port drive_idx + 7) 4
       (outb (ata_port drive_idx + 6) (ata_drive drive_idx OR ucast (drop_bit 24 lba AND 0x0F)) s)"

definition ata_command :: "u16 \<Rightarrow> u32 \<Rightarrow> u8 \<Rightarrow> 'a ports_scheme \<Rightarrow> 'a ports_scheme" where
  "ata_command port lba cmd s =
     outb (port + 7) cmd (outb (port + 5) (ucast (drop_bit 16 lba)) (outb (port + 4) (ucast (drop_bit 8 lba))
       (outb (port + 3) (ucast lba) (outb (port + 2) 1 s))))"

fun read_words :: "u16 \<Rightarrow> nat \<Rightarrow> 'a ports_scheme \<Rightarrow> u8 list \<times> 'a ports_scheme" where
  "read_words port 0 s = ([], s)"
| "read_words port (Suc n) s =
     (let (w, s1) = inw port s; (bs, s2) = read_words port n s1
      in (ucast (w AND 0xFF) # ucast (drop_bit 8 w AND 0xFF) # bs, s2))"

text \<open>The buffer is what the caller passed, with the sector at its beginning if it was read.\<close>

definition ata_read_sector :: "u8 \<Rightarrow> u32 \<Rightarrow> u8 list \<Rightarrow> 'a ata_scheme \<Rightarrow> (u8 list \<times> 'a ata_scheme) option" where
  "ata_read_sector drive_idx lba buffer s =
     (let port = ata_port drive_idx;
          s1 = ata_select drive_idx lba (lock_ata s);
          (st, s2) = inb (port + 7) s1
      in if st = 0xFF then Some (buffer, unlock_ata s2)
         else
           let (timeout, s3) = poll (port + 7) (\<lambda>v. v AND 0x80 \<noteq> 0) 1000000 s2
           in if timeout = 0 then
                let (status, s4) = inb (port + 7) s3
                in map_option (\<lambda>s5. (buffer, unlock_ata s5))
                     (kprintf (lit ''[HATA] ATA Okuma Zamanasimi! Port: %x, Status: %x'' @ [10]) [KInt (ucast port), KInt (ucast status)] s4)
              else
                let (timeout, s4) = poll (port + 7) (\<lambda>v. v AND 0x08 = 0) 1000000 (ata_command port lba 0x20 s3)
                in if timeout = 0 then Some (buffer, unlock_ata s4)
                   else let (bs, s5) = read_words port 256 s4 in Some (bs @ drop 512 buffer, unlock_ata s5))"

definition buffer_word :: "u8 list \<Rightarrow> nat \<Rightarrow> u16" where
  "buffer_word buffer i = ucast (buffer ! (i * 2)) OR push_bit 8 (ucast (buffer ! (i * 2 + 1)))"

definition write_words :: "u16 \<Rightarrow> nat \<Rightarrow> u8 list \<Rightarrow> 'a ports_scheme \<Rightarrow> 'a ports_scheme" where
  "write_words port n buffer s = for_range 0 n (\<lambda>i. outw port (buffer_word buffer i)) s"

definition ata_write_sector :: "u8 \<Rightarrow> u32 \<Rightarrow> u8 list \<Rightarrow> 'a ata_scheme \<Rightarrow> 'a ata_scheme option" where
  "ata_write_sector drive_idx lba buffer s =
     (let port = ata_port drive_idx;
          (timeout, s1) = poll (port + 7) (\<lambda>v. v AND 0x80 \<noteq> 0) 1000000 (ata_select drive_idx lba (lock_ata s))
      in if timeout = 0 then
           let (status, s2) = inb (port + 7) s1
           in map_option unlock_ata
                (kprintf (lit ''[HATA] ATA Yazma Hatasi (BSY mesgul: %x)! Drive: %d'' @ [10]) [KInt (ucast status), KInt (ucast drive_idx)] s2)
         else
           let (timeout, s2) = poll (port + 7) (\<lambda>v. v AND 0x08 = 0) 1000000 (ata_command port lba 0x30 s1)
           in if timeout = 0 then Some (unlock_ata s2)
              else
                let s3 = delay_reads (port + 7) 4 (outb (port + 7) 0xE7 (write_words port 256 buffer s2));
                    (_, s4) = poll (port + 7) (\<lambda>v. v AND 0x80 \<noteq> 0) 1000000 s3
                in Some (unlock_ata s4))"

section \<open>Polling\<close>

text \<open>The value of the \<open>k\<close>-th next read of a port, and a state in which reads have happened.\<close>

definition next_in :: "'a ports_scheme \<Rightarrow> u16 \<Rightarrow> nat \<Rightarrow> u32" where
  "next_in s port k = dev s port (reads s port + k)"

definition after_reads :: "u16 \<Rightarrow> nat \<Rightarrow> 'a ports_scheme \<Rightarrow> 'a ports_scheme" where
  "after_reads port n s = s\<lparr>reads := (reads s)(port := reads s port + n)\<rparr>"

lemma after_reads_0 [simp]: "after_reads port 0 s = s"
  by (simp add: after_reads_def)

lemma after_reads_add [simp]: "after_reads port n (after_reads port m s) = after_reads port (m + n) s"
  by (simp add: after_reads_def add.assoc)

lemma next_in_after [simp]: "next_in (after_reads q n s) port k = next_in s port (if q = port then n + k else k)"
  by (simp add: next_in_def after_reads_def add.assoc)

lemma inb_next: "inb port s = (ucast (next_in s port 0), after_reads port 1 s)"
  by (simp add: port_defs next_in_def after_reads_def)

lemma inw_next: "inw port s = (ucast (next_in s port 0), after_reads port 1 s)"
  by (simp add: port_defs next_in_def after_reads_def)

lemma delay_reads_eq: "delay_reads port n s = after_reads port n s"
  unfolding delay_reads_def by (induction n) (simp_all add: for_range_Suc inb_next)

lemma poll_hit:
  assumes "\<forall>j<k. waiting (ucast (next_in s port j))" and "\<not> waiting (ucast (next_in s port k))" and "k < t"
  shows "poll port waiting t s = (t - k, after_reads port (Suc k) s)"
  using assms
proof (induction t arbitrary: k s)
  case (Suc t)
  show ?case
  proof (cases k)
    case 0
    then show ?thesis using Suc.prems by (simp add: inb_next)
  next
    case (Suc i)
    have "poll port waiting t (after_reads port 1 s) = (t - i, after_reads port (Suc i) (after_reads port 1 s))"
      using Suc.prems Suc by (intro Suc.IH) auto
    moreover have "waiting (ucast (next_in s port 0))" "t \<noteq> 0" using Suc.prems Suc by auto
    ultimately show ?thesis using Suc by (simp add: inb_next)
  qed
qed simp

lemma poll_miss:
  assumes "\<forall>j<t. waiting (ucast (next_in s port j))"
  shows "poll port waiting t s = (0, after_reads port t s)"
  using assms
proof (induction t arbitrary: s)
  case (Suc t)
  have "poll port waiting t (after_reads port 1 s) = (0, after_reads port t (after_reads port 1 s))"
    using Suc.prems by (intro Suc.IH) auto
  moreover have "waiting (ucast (next_in s port 0))" using Suc.prems by auto
  ultimately show ?case by (simp add: inb_next)
qed simp

lemma next_in_keeps [simp]:
  "next_in (outb q v s) = next_in s" "next_in (outw q w s) = next_in s" "next_in (lock_ata t) = next_in t" "next_in (unlock_ata t) = next_in t"
  by (simp_all add: fun_eq_iff next_in_def port_defs lock_ata_def unlock_ata_def spin_defs)

lemma outs_keeps [simp]:
  "outs (outb q v s) = outs s @ [Out8 q v]" "outs (outw q w s) = outs s @ [Out16 q w]" "outs (after_reads q n s) = outs s"
  "outs (lock_ata t) = outs t" "outs (unlock_ata t) = outs t"
  by (simp_all add: port_defs after_reads_def lock_ata_def unlock_ata_def spin_defs)

text \<open>Nothing between locking and unlocking touches the lock and the saved flags.\<close>

definition same_lock :: "'a ata_scheme \<Rightarrow> 'a ata_scheme \<Rightarrow> bool" where
  "same_lock s t \<longleftrightarrow> ata_eflags t = ata_eflags s \<and> ata_lock t = ata_lock s"

lemma lock_keeps [simp]:
  "same_lock s (outb q v t) = same_lock s t" "same_lock s (outw q w t) = same_lock s t" "same_lock s (after_reads q n t) = same_lock s t"
  by (simp_all add: same_lock_def port_defs after_reads_def)

lemma same_lock_refl [simp]: "same_lock s s"
  by (simp add: same_lock_def)

lemma unlock_same: "same_lock (lock_ata s) t \<Longrightarrow> ata_eflags (unlock_ata t) = ata_eflags s \<and> locked (ata_lock (unlock_ata t)) = 0"
  by (simp add: same_lock_def lock_ata_def unlock_ata_def spin_defs)

lemma select_keeps [simp]:
  "next_in (ata_select d lba s) p k = next_in s p (if p = ata_port d + 7 then 4 + k else k)"
  "outs (ata_select d lba s) = outs s @ [Out8 (ata_port d + 6) (ata_drive d OR ucast (drop_bit 24 lba AND 0x0F))]"
  "same_lock u (ata_select d lba t) = same_lock u t"
  by (auto simp: ata_select_def delay_reads_eq)

definition command_outs :: "u16 \<Rightarrow> u32 \<Rightarrow> u8 \<Rightarrow> port_out list" where
  "command_outs port lba cmd = [Out8 (port + 2) 1, Out8 (port + 3) (ucast lba), Out8 (port + 4) (ucast (drop_bit 8 lba)),
     Out8 (port + 5) (ucast (drop_bit 16 lba)), Out8 (port + 7) cmd]"

lemma command_keeps [simp]:
  "next_in (ata_command port lba cmd s) = next_in s" "outs (ata_command port lba cmd s) = outs s @ command_outs port lba cmd"
  "same_lock u (ata_command port lba cmd t) = same_lock u t"
  by (simp_all add: ata_command_def command_outs_def)

lemma bytes16_mask: "[ucast (w AND 0xFF), ucast (drop_bit 8 w AND 0xFF)] = bytes16 w"
proof -
  have "(ucast (v AND 0xFF) :: u8) = ucast v" for v :: u16
  proof (rule bit_word_eqI)
    fix n
    assume "n < LENGTH(8)"
    moreover have m: "(0xFF :: u16) = mask 8" by (simp add: mask_eq_exp_minus_1)
    ultimately show "bit (ucast (v AND 0xFF) :: u8) n \<longleftrightarrow> bit (ucast v :: u8) n" unfolding m by (simp add: bit_simps)
  qed
  then show ?thesis by (simp add: bytes16_def)
qed

lemma read_words_eq:
  "read_words port n s = (concat (map (\<lambda>i. bytes16 (ucast (next_in s port i))) [0..<n]), after_reads port n s)"
proof (induction n arbitrary: s)
  case (Suc n)
  have "[0..<Suc n] = 0 # map Suc [0..<n]" by (simp add: map_Suc_upt upt_conv_Cons)
  then show ?case using Suc [of "after_reads port 1 s"] bytes16_mask [of "ucast (next_in s port 0)"]
    by (simp add: inw_next comp_def)
qed simp

lemma write_words_eq:
  "write_words port n buffer s = s\<lparr>outs := outs s @ map (\<lambda>i. Out16 port (buffer_word buffer i)) [0..<n]\<rparr>"
  unfolding write_words_def by (induction n) (simp_all add: for_range_Suc port_defs)

lemma write_words_keeps [simp]:
  "next_in (write_words port n buffer s) = next_in s"
  "outs (write_words port n buffer s) = outs s @ map (\<lambda>i. Out16 port (buffer_word buffer i)) [0..<n]"
  "same_lock u (write_words port n buffer t) = same_lock u t"
  by (simp_all add: write_words_eq fun_eq_iff next_in_def same_lock_def)

section \<open>Transfers\<close>

text \<open>
  A drive that gets ready in time: after \<open>skip\<close> reads of its status the busy bit is cleared, and
  then the data request bit is set, each within a million reads.
\<close>

definition gets_ready :: "'a ports_scheme \<Rightarrow> u16 \<Rightarrow> nat \<Rightarrow> nat \<Rightarrow> nat \<Rightarrow> bool" where
  "gets_ready s port skip a b \<longleftrightarrow> a < 1000000 \<and> b < 1000000 \<and>
     (\<forall>j<a. (ucast (next_in s (port + 7) (skip + j)) :: u8) AND 0x80 \<noteq> 0) \<and> (ucast (next_in s (port + 7) (skip + a)) :: u8) AND 0x80 = 0 \<and>
     (\<forall>j<b. (ucast (next_in s (port + 7) (skip + Suc a + j)) :: u8) AND 0x08 = 0) \<and> (ucast (next_in s (port + 7) (skip + Suc a + b)) :: u8) AND 0x08 \<noteq> 0"

text \<open>The bytes of the sector that the data port of a drive delivers.\<close>

definition sector_in :: "'a ports_scheme \<Rightarrow> u16 \<Rightarrow> u8 list" where
  "sector_in s port = concat (map (\<lambda>i. bytes16 (ucast (next_in s port i))) [0..<256])"

lemma data_port [simp]: "port + 7 \<noteq> (port :: u16)" "port \<noteq> port + 7"
  by simp_all

lemma read_ready:
  assumes r: "gets_ready s (ata_port d) 5 a b" and p: "(ucast (next_in s (ata_port d + 7) 4) :: u8) \<noteq> 0xFF"
  obtains s' where "ata_read_sector d lba buf s = Some (sector_in s (ata_port d) @ drop 512 buf, s')"
    "outs s' = outs s @ [Out8 (ata_port d + 6) (ata_drive d OR ucast (drop_bit 24 lba AND 0x0F))] @ command_outs (ata_port d) lba 0x20"
    "ata_eflags s' = ata_eflags s" "locked (ata_lock s') = 0"
proof -
  let ?p = "ata_port d"
  define s1 where "s1 = after_reads (?p + 7) (Suc 0) (ata_select d lba (lock_ata s))"
  have b1: "poll (?p + 7) (\<lambda>v. v AND 0x80 \<noteq> 0) 1000000 s1 = (1000000 - a, after_reads (?p + 7) (Suc a) s1)"
    using r by (intro poll_hit) (simp_all add: s1_def gets_ready_def)
  define s2 where "s2 = ata_command ?p lba 0x20 (after_reads (?p + 7) (Suc a) s1)"
  have b2: "poll (?p + 7) (\<lambda>v. v AND 0x08 = 0) 1000000 s2 = (1000000 - b, after_reads (?p + 7) (Suc b) s2)"
    using r by (intro poll_hit) (simp_all add: s1_def s2_def gets_ready_def add.assoc)
  define s3 where "s3 = after_reads ?p 256 (after_reads (?p + 7) (Suc b) s2)"
  have w: "read_words ?p 256 (after_reads (?p + 7) (Suc b) s2) = (sector_in s ?p, s3)"
    by (simp add: read_words_eq s3_def sector_in_def s2_def s1_def)
  have l: "a < 1000000" "b < 1000000" using r by (simp_all add: gets_ready_def)
  have "ata_read_sector d lba buf s = Some (sector_in s ?p @ drop 512 buf, unlock_ata s3)"
    using l p b1 b2 w by (simp add: ata_read_sector_def inb_next s1_def [symmetric] s2_def [symmetric] Let_def)
  moreover have "same_lock (lock_ata s) s3" by (simp add: s3_def s2_def s1_def)
  ultimately show ?thesis using that unlock_same [of s s3] by (simp add: s3_def s2_def s1_def)
qed

lemma poll_reads: "\<exists>n. snd (poll port waiting t s) = after_reads port n s"
proof (induction t arbitrary: s)
  case 0
  have "s = after_reads port 0 s" by simp
  then show ?case by (metis poll.simps(1) snd_conv)
next
  case (Suc t)
  obtain n where "snd (poll port waiting t (after_reads port 1 s)) = after_reads port n (after_reads port 1 s)" using Suc by blast
  then show ?case by (auto simp: inb_next simp del: after_reads_add) (metis after_reads_add)
qed

definition transfer_outs :: "u8 \<Rightarrow> u32 \<Rightarrow> u8 \<Rightarrow> port_out list" where
  "transfer_outs d lba cmd =
     Out8 (ata_port d + 6) (ata_drive d OR ucast (drop_bit 24 lba AND 0x0F)) # command_outs (ata_port d) lba cmd"

lemma write_ready:
  assumes r: "gets_ready s (ata_port d) 4 a b"
  obtains s' where "ata_write_sector d lba buf s = Some s'"
    "outs s' = outs s @ transfer_outs d lba 0x30 @ map (\<lambda>i. Out16 (ata_port d) (buffer_word buf i)) [0..<256] @ [Out8 (ata_port d + 7) 0xE7]"
    "ata_eflags s' = ata_eflags s" "locked (ata_lock s') = 0"
proof -
  let ?p = "ata_port d"
  define s1 where "s1 = ata_select d lba (lock_ata s)"
  have b1: "poll (?p + 7) (\<lambda>v. v AND 0x80 \<noteq> 0) 1000000 s1 = (1000000 - a, after_reads (?p + 7) (Suc a) s1)"
    using r by (intro poll_hit) (simp_all add: s1_def gets_ready_def)
  define s2 where "s2 = ata_command ?p lba 0x30 (after_reads (?p + 7) (Suc a) s1)"
  have b2: "poll (?p + 7) (\<lambda>v. v AND 0x08 = 0) 1000000 s2 = (1000000 - b, after_reads (?p + 7) (Suc b) s2)"
    using r by (intro poll_hit) (simp_all add: s1_def s2_def gets_ready_def add.assoc)
  define s3 where "s3 = delay_reads (?p + 7) 4 (outb (?p + 7) 0xE7 (write_words ?p 256 buf (after_reads (?p + 7) (Suc b) s2)))"
  obtain n where n: "snd (poll (?p + 7) (\<lambda>v. v AND 0x80 \<noteq> 0) 1000000 s3) = after_reads (?p + 7) n s3" using poll_reads by blast
  have l: "a < 1000000" "b < 1000000" using r by (simp_all add: gets_ready_def)
  have "ata_write_sector d lba buf s = Some (unlock_ata (after_reads (?p + 7) n s3))"
    using l b1 b2 n by (simp add: ata_write_sector_def s1_def [symmetric] s2_def [symmetric] s3_def [symmetric] Let_def split_beta)
  moreover have "same_lock (lock_ata s) (after_reads (?p + 7) n s3)" by (simp add: s3_def s2_def s1_def delay_reads_eq)
  ultimately show ?thesis
    using that unlock_same [of s "after_reads (?p + 7) n s3"] by (simp add: s3_def s2_def s1_def delay_reads_eq transfer_outs_def)
qed

lemma buffer_word_bytes: "bytes16 (buffer_word buf i) = [buf ! (i * 2), buf ! (i * 2 + 1)]"
proof -
  have "ucast (ucast a OR push_bit 8 (ucast b) :: u16) = a" "ucast (drop_bit 8 (ucast a OR push_bit 8 (ucast b) :: u16)) = b" for a b :: u8
    by (rule bit_word_eqI; auto simp: bit_simps dest: bit_imp_le_length)+
  then show ?thesis by (simp add: buffer_word_def bytes16_def)
qed

lemma concat_pairs: "2 * n \<le> length xs \<Longrightarrow> concat (map (\<lambda>i. [xs ! (i * 2), xs ! (i * 2 + 1)]) [0..<n]) = take (2 * n) xs"
proof (induction n)
  case (Suc n)
  have "take (2 * Suc n) xs = take (2 * n) xs @ [xs ! (2 * n), xs ! (2 * n + 1)]"
    using Suc.prems by (simp add: take_Suc_conv_app_nth)
  then show ?case using Suc by (simp add: mult.commute)
qed simp

text \<open>A little-endian word of the buffer.\<close>

definition sector_word :: "u8 list \<Rightarrow> nat \<Rightarrow> u16" where
  "sector_word buf i = of_nat (unat (buf ! (2 * i)) + 256 * unat (buf ! (2 * i + 1)))"

lemma buffer_word_sector: "buffer_word buf i = sector_word buf i"
proof -
  have "(ucast a :: u16) AND push_bit 8 (ucast b) = 0" for a b :: u8
    by (rule bit_word_eqI) (auto simp: bit_simps dest: bit_imp_le_length)
  then have "ucast a OR push_bit 8 (ucast b) = (ucast a + push_bit 8 (ucast b) :: u16)" for a b :: u8
    by (simp add: disjunctive_add_eq_or)
  then show ?thesis by (simp add: buffer_word_def sector_word_def push_bit_eq_mult mult.commute)
qed

text \<open>The LBA28 protocol: the drive of a channel and the top four bits of the block, one sector, the rest of the block, the command.\<close>

definition lba28 :: "u16 \<Rightarrow> bool \<Rightarrow> u32 \<Rightarrow> u8 \<Rightarrow> port_out list" where
  "lba28 channel slave lba cmd = [Out8 (channel + 6) ((if slave then 0xF0 else 0xE0) OR ucast (drop_bit 24 lba AND 0x0F)), Out8 (channel + 2) 1,
     Out8 (channel + 3) (ucast lba), Out8 (channel + 4) (ucast (drop_bit 8 lba)), Out8 (channel + 5) (ucast (drop_bit 16 lba)),
     Out8 (channel + 7) cmd]"

lemma transfer_lba28: "transfer_outs d lba cmd = lba28 (if d < 2 then 0x1F0 else 0x170) (d mod 2 = 1) lba cmd"
proof -
  have "d mod 2 = 0 \<or> d mod 2 = 1" by (auto simp: word_unat_eq_iff unat_mod)
  then show ?thesis
    by (auto simp add: transfer_outs_def command_outs_def lba28_def ata_port_def ata_drive_def)
qed

text \<open>
  C28: A sector that is written to a drive which gets ready in time (within the polls of the driver), from a
  buffer of 512 bytes or more, is sent as the LBA28 command
  for its block, followed by exactly its 256 little-endian words in order and a flush, with the interrupt flag restored; nothing
  else goes to any port. When a drive that answers and is ready in time then delivers these words
  again, reading the sector sends the command for the same block and nothing else, and returns the 512 bytes that were written.
\<close>

theorem ata_roundtrip:
  assumes "gets_ready s (ata_port d) 4 a b" and "512 \<le> length buf"
  shows "\<exists>s1. ata_write_sector d lba buf s = Some s1 \<and> ata_eflags s1 = ata_eflags s \<and>
    outs s1 = outs s @ lba28 (if d < 2 then 0x1F0 else 0x170) (d mod 2 = 1) lba 0x30 @
      map (\<lambda>i. Out16 (ata_port d) (of_nat (unat (buf ! (2 * i)) + 256 * unat (buf ! (2 * i + 1))))) [0..<256] @ [Out8 (ata_port d + 7) 0xE7] \<and>
    (\<forall>t a' b'. gets_ready t (ata_port d) 5 a' b' \<longrightarrow> (ucast (next_in t (ata_port d + 7) 4) :: u8) \<noteq> 0xFF \<longrightarrow>
       (\<forall>i < 256. (ucast (next_in t (ata_port d) i) :: u16) = of_nat (unat (buf ! (2 * i)) + 256 * unat (buf ! (2 * i + 1)))) \<longrightarrow>
       (\<exists>t'. ata_read_sector d lba buf' t = Some (take 512 buf @ drop 512 buf', t') \<and>
         outs t' = outs t @ lba28 (if d < 2 then 0x1F0 else 0x170) (d mod 2 = 1) lba 0x20 \<and> ata_eflags t' = ata_eflags (t :: 'a ata_scheme)))"
proof -
  let ?p = "ata_port d"
  note bw = buffer_word_sector sector_word_def
  obtain s1 where s1: "ata_write_sector d lba buf s = Some s1" "ata_eflags s1 = ata_eflags s"
    "outs s1 = outs s @ transfer_outs d lba 0x30 @ map (\<lambda>i. Out16 ?p (buffer_word buf i)) [0..<256] @ [Out8 (?p + 7) 0xE7]"
    by (rule write_ready [OF assms(1)])
  have "\<exists>t'. ata_read_sector d lba buf' t = Some (take 512 buf @ drop 512 buf', t') \<and>
         outs t' = outs t @ transfer_outs d lba 0x20 \<and> ata_eflags t' = ata_eflags t"
    if t: "gets_ready t ?p 5 a' b'" "(ucast (next_in t (?p + 7) 4) :: u8) \<noteq> 0xFF"
      and w: "\<forall>i < 256. (ucast (next_in t ?p i) :: u16) = buffer_word buf i" for t :: "'a ata_scheme" and a' b'
  proof -
    have "sector_in t ?p = concat (map (\<lambda>i. bytes16 (buffer_word buf i)) [0..<256])"
      unfolding sector_in_def using w by (intro arg_cong [of _ _ concat] map_cong) auto
    then have "sector_in t ?p = take 512 buf" using assms(2) concat_pairs [of 256 buf] by (simp add: buffer_word_bytes)
    then show ?thesis by (auto intro: read_ready [OF t, where lba = lba and buf = buf'] simp: transfer_outs_def)
  qed
  then show ?thesis using s1 unfolding bw transfer_lba28 by blast
qed

section \<open>Drives that do not answer\<close>

text \<open>In text mode a message on the console changes nothing of the driver.\<close>

lemma put_char_more: "term_inv s \<Longrightarrow> console.more (put_char c s) = console.more s"
proof -
  assume inv: "term_inv s"
  have u: "console.more (update_cursor t) = console.more t" for t :: "'a console_scheme" by (simp add: update_cursor_def Let_def outb_def)
  have sc: "console.more (scroll t) = console.more t" for t :: "'a console_scheme" by (simp add: scroll_eq)
  show ?thesis by (rule put_char_grid [OF inv, of c]) (auto simp: u sc blank_cell_def Let_def)
qed

definition said :: "'a console_scheme \<Rightarrow> 'a console_scheme \<Rightarrow> bool" where
  "said s t \<longleftrightarrow> (term_inv s \<longrightarrow> term_inv t \<and> console.more t = console.more s)"

lemma said_refl: "said s s"
  by (simp add: said_def)

lemma more_lock: "console.more t = console.more s \<Longrightarrow> same_lock s t"
  by (cases s; cases t) (simp add: same_lock_def)

lemma said_trans: "said s t \<Longrightarrow> said t u \<Longrightarrow> said s u"
  by (auto simp: said_def)

lemma said_char: "said s (put_char c s)"
  using put_char_screen(1) put_char_more by (auto simp: said_def)

lemma said_chars: "said s (fold put_char cs s)"
proof (induction cs arbitrary: s)
  case Nil
  then show ?case by (simp add: said_def)
next
  case (Cons c cs)
  show ?case using said_trans [OF said_char Cons] by simp
qed

lemma said_str: "said s (put_str str s)"
proof (induction str arbitrary: s)
  case (Cons c str)
  show ?case using said_trans [OF said_char Cons] by (auto simp: said_def)
qed (simp add: said_def)

lemma said_kprintf: "kprintf fs args s = Some t \<Longrightarrow> said s t"
proof (induction fs args s rule: kprintf.induct)
  case (1 args s)
  then show ?case by (simp add: said_def)
next
  case (2 c fs args s)
  have int: "said s (put_int n s)" for n unfolding put_int_def by (rule said_chars)
  have hex: "said s (put_hex n s)" for n unfolding put_hex_def by (rule said_trans [OF said_str said_chars])
  show ?case using "2.prems" "2.IH"
    by (auto simp: said_refl split: if_splits list.splits karg.splits intro: said_trans [OF said_char [of s]] said_trans [OF said_str [of s]] said_trans [OF int] said_trans [OF hex])
qed

text \<open>
  C39: When no drive answers, or the drive stays busy, or it never offers data, reading a sector ends, leaves the
  buffer as it was, restores the interrupt flag and releases the lock.
\<close>

theorem ata_read_gives_up:
  assumes "term_inv s"
    and "(ucast (next_in s (ata_port d + 7) 4) :: u8) = 0xFF \<or>
      (\<forall>j<1000000. (ucast (next_in s (ata_port d + 7) (5 + j)) :: u8) AND 0x80 \<noteq> 0) \<or>
      (\<forall>j. (ucast (next_in s (ata_port d + 7) j) :: u8) AND 0x08 = 0)"
  shows "\<exists>s'. ata_read_sector d lba buf s = Some (buf, s') \<and> ata_eflags s' = ata_eflags s \<and> locked (ata_lock s') = 0"
proof -
  let ?p = "ata_port d"
  define s1 where "s1 = after_reads (?p + 7) (Suc 0) (ata_select d lba (lock_ata s))"
  have l1: "same_lock (lock_ata s) s1" by (simp add: s1_def)
  have i1: "term_inv s1" using assms(1) by (simp add: s1_def term_inv_def after_reads_def ata_select_def delay_reads_eq outb_def lock_ata_def split_beta Let_def)
  obtain k s2 where p1: "poll (?p + 7) (\<lambda>v. v AND 0x80 \<noteq> 0) 1000000 s1 = (k, s2)" by fastforce
  obtain n where n: "s2 = after_reads (?p + 7) n s1" using poll_reads p1 by (metis snd_conv)
  show ?thesis
  proof (cases "(ucast (next_in s (?p + 7) 4) :: u8) = 0xFF")
    case True
    then show ?thesis using unlock_same [OF l1] by (simp add: ata_read_sector_def inb_next s1_def [symmetric])
  next
    case False
    show ?thesis
    proof (cases "k = 0")
      case True
      let ?fmt = "lit ''[HATA] ATA Okuma Zamanasimi! Port: %x, Status: %x'' @ [10]"
      obtain s4 where s4: "kprintf ?fmt [KInt (ucast ?p), KInt (ucast (ucast (next_in s2 (?p + 7) 0) :: u8))] (after_reads (?p + 7) (Suc 0) s2) = Some s4"
        by (simp add: lit_def)
      have "said (after_reads (?p + 7) (Suc 0) s2) s4" by (rule said_kprintf [OF s4])
      then have "same_lock (lock_ata s) s4"
        using i1 l1 more_lock [of s4 "after_reads (?p + 7) (Suc 0) s2"]
        by (auto simp: said_def n term_inv_def after_reads_def same_lock_def)
      then show ?thesis
        using False True s4 p1 unlock_same [of s s4]
        by (simp add: ata_read_sector_def inb_next s1_def [symmetric] Let_def)
    next
      case F: False
      then have "\<not> (\<forall>j<1000000. (ucast (next_in s (?p + 7) (5 + j)) :: u8) AND 0x80 \<noteq> 0)"
        using poll_miss [of 1000000 "\<lambda>v. v AND 0x80 \<noteq> 0" s1 "?p + 7"] p1 by (auto simp: s1_def)
      then have "\<forall>j. (ucast (next_in s (?p + 7) j) :: u8) AND 0x08 = 0" using assms(2) False by blast
      then have "poll (?p + 7) (\<lambda>v. v AND 0x08 = 0) 1000000 (ata_command ?p lba 0x20 s2)
          = (0, after_reads (?p + 7) 1000000 (ata_command ?p lba 0x20 s2))"
        by (intro poll_miss) (simp add: n s1_def)
      then show ?thesis
        using False F p1 l1 unlock_same [of s "after_reads (?p + 7) 1000000 (ata_command ?p lba 0x20 s2)"]
        by (simp add: ata_read_sector_def inb_next s1_def [symmetric] Let_def n)
    qed
  qed
qed

text \<open>A drive that is always ready, and one whose data port repeats one word.\<close>

definition demo_ata :: ata where
  "demo_ata = \<lparr>dev = (\<lambda>port k. if port = 0x1F0 then 0x0707 else 0x08), reads = (\<lambda>_. 0), outs = [], vbe_width = 0, vbe_height = 0,
     vbe_pitch = 0, vbe_bpp = 0, back_buffer = 0, bpix = (\<lambda>_. 0), lfb = (\<lambda>_. 0), mouse_bg_save = [], cursor_x = 0, cursor_y = 0,
     last_cursor_x = 0, last_cursor_y = 0, vbe_active = 0, terminal_row = 0, terminal_col = 0, video_memory = (\<lambda>_. 0),
     ata_eflags = 0x202, ata_lock = SPINLOCK_INIT\<rparr>"

lemma demo_ata_ready: "gets_ready demo_ata (ata_port 0) k 0 0"
  by (simp add: gets_ready_def next_in_def demo_ata_def ata_port_def)

theorem ata_roundtrip_witness:
  "\<exists>s1 t'. ata_write_sector 0 5 (replicate 512 7) demo_ata = Some s1 \<and>
     ata_read_sector 0 5 (replicate 512 0) demo_ata = Some (replicate 512 7, t')"
proof -
  have w: "\<forall>i < 256. (ucast (next_in demo_ata (ata_port 0) i) :: u16) =
      of_nat (unat (replicate 512 (7 :: u8) ! (2 * i)) + 256 * unat (replicate 512 (7 :: u8) ! (2 * i + 1)))"
    by (simp add: next_in_def demo_ata_def ata_port_def)
  have "(ucast (next_in demo_ata (ata_port 0 + 7) 4) :: u8) \<noteq> 0xFF" by (simp add: next_in_def demo_ata_def ata_port_def)
  note r = this demo_ata_ready [of 5]
  have l: "512 \<le> length (replicate 512 (7 :: u8))" by (simp only: length_replicate order_refl)
  have e: "take 512 (replicate 512 (7 :: u8)) @ drop 512 (replicate 512 0) = replicate 512 7" by (simp only: take_replicate drop_replicate) simp
  obtain s1 where s1: "ata_write_sector 0 5 (replicate 512 7) demo_ata = Some s1"
    "\<And>t a' b'. gets_ready t (ata_port 0) 5 a' b' \<Longrightarrow> (ucast (next_in t (ata_port 0 + 7) 4) :: u8) \<noteq> 0xFF \<Longrightarrow>
       \<forall>i < 256. (ucast (next_in t (ata_port 0) i) :: u16) =
         of_nat (unat (replicate 512 (7 :: u8) ! (2 * i)) + 256 * unat (replicate 512 (7 :: u8) ! (2 * i + 1))) \<Longrightarrow>
       \<exists>t'. ata_read_sector 0 5 (replicate 512 0) (t :: ata) = Some (replicate 512 7, t')"
    using ata_roundtrip [OF demo_ata_ready [of 4] l, of 5 "replicate 512 0"] unfolding e by meson
  from s1(1) s1(2) [OF r(2,1) w] show ?thesis by blast
qed

theorem ata_read_gives_up_witness:
  "\<exists>s'. ata_read_sector 3 5 [1, 2] (demo_ata\<lparr>dev := \<lambda>_ _. 0xFF\<rparr>) = Some ([1, 2], s') \<and> ata_eflags s' = 0x202"
  using ata_read_gives_up [of "demo_ata\<lparr>dev := \<lambda>_ _. 0xFF\<rparr>" 3 5 "[1, 2]"]
  by (auto simp: term_inv_def demo_ata_def next_in_def)

end
