(* ===== verification/Vfs_Node.thy ===== *)
theory Vfs_Node
  imports Peker_Prelude
begin

text \<open>
  The objects of the virtual file system, \<open>include/vfs.h\<close>. A function pointer of a node is
  the name of the driver that provides the function; the pointer field is null, another
  node, or a socket of the socket table, which the socket driver stores there.
\<close>

definition VFS_FILE :: u32 where "VFS_FILE = 0x01"
definition VFS_DIRECTORY :: u32 where "VFS_DIRECTORY = 0x02"
definition VFS_MOUNTPOINT :: u32 where "VFS_MOUNTPOINT = 0x04"
definition VFS_SOCKET :: u32 where "VFS_SOCKET = 0x08"
definition VFS_SYMLINK :: u32 where "VFS_SYMLINK = 0x10"

lemmas vfs_consts = VFS_FILE_def VFS_DIRECTORY_def VFS_MOUNTPOINT_def VFS_SOCKET_def VFS_SYMLINK_def

datatype vfs_fun = No_fun | Pafs_fun | Socket_fun | Ext2_fun | Ata_fun

datatype vfs_ptr = Null_ptr | Node_ptr u32 | Socket_ptr nat

record vfs_node =
  vname :: cstring
  vmask :: u32
  vuid :: u32
  vgid :: u32
  vflags :: u32
  vinode :: u32
  vlength :: u32
  vimpl :: u32
  vread :: vfs_fun
  vwrite :: vfs_fun
  vopen :: vfs_fun
  vclose :: vfs_fun
  vreaddir :: vfs_fun
  vfinddir :: vfs_fun
  vptr :: vfs_ptr

definition sizeof_vfs_node :: u32 where "sizeof_vfs_node = 184"

text \<open>A node after \<open>memset(node, 0, sizeof(vfs_node_t))\<close>.\<close>

definition zero_node :: vfs_node where
  "zero_node = \<lparr>vname = [], vmask = 0, vuid = 0, vgid = 0, vflags = 0, vinode = 0, vlength = 0, vimpl = 0,
     vread = No_fun, vwrite = No_fun, vopen = No_fun, vclose = No_fun, vreaddir = No_fun, vfinddir = No_fun,
     vptr = Null_ptr\<rparr>"

end
