(* ===== verification/Task.thy ===== *)
theory Task
  imports Kheap Spinlock Vfs_Node
begin

text \<open>
  Tasks and the scheduler, \<open>kernel/proc/task.c\<close>. A task control block is allocated on the
  kernel heap and linked to the next one; the model keeps a store from addresses to control
  blocks and follows the \<open>next\<close> pointers as the code does. The scheduler is shown to
  implement a rotating queue of the tasks that are not dead, to always find one while the
  kernel task lives, and to reach every live task within a bounded number of ticks.

  The kernel state is a record that later components extend with their own variables.
\<close>

section \<open>State\<close>

definition TASK_READY :: int where "TASK_READY = 0"
definition TASK_RUNNING :: int where "TASK_RUNNING = 1"
definition TASK_SLEEP :: int where "TASK_SLEEP = 2"
definition TASK_DEAD :: int where "TASK_DEAD = 3"

lemmas task_consts = TASK_READY_def TASK_RUNNING_def TASK_SLEEP_def TASK_DEAD_def

record task =
  tid :: int
  tname :: cstring
  tesp :: u32
  kstack_top :: u32
  tstate :: int
  fd_table :: "u32 list"
  fd_offset :: "u32 list"
  heap_start :: u32
  heap_end :: u32
  tnext :: u32

text \<open>
  The variables of \<open>task.c\<close>, the \<open>esp0\<close> field of the TSS, the words of the stacks and
  the flag of the shell; \<open>heap\<close> and \<open>eflags\<close> are the kernel heap and the processor's
  flags, and \<open>nodes\<close> the file system nodes on the heap, which the descriptor tables point to.
\<close>

record kernel =
  heap :: kheap
  eflags :: u32
  tasks :: "u32 \<Rightarrow> task"
  current_task :: u32
  task_list :: u32
  next_pid :: int
  tss_esp0 :: u32
  stack_mem :: "u32 \<Rightarrow> u32"
  shell_active :: int
  nodes :: "u32 \<Rightarrow> vfs_node"

definition upd_task :: "u32 \<Rightarrow> (task \<Rightarrow> task) \<Rightarrow> 'a kernel_scheme \<Rightarrow> 'a kernel_scheme" where
  "upd_task p f s = s\<lparr>tasks := (tasks s)(p := f (tasks s p))\<rparr>"

definition kalloc :: "u32 \<Rightarrow> 'a kernel_scheme \<Rightarrow> (u32 \<times> 'a kernel_scheme) option" where
  "kalloc n s = map_option (\<lambda>(p, h). (p, s\<lparr>heap := h\<rparr>)) (kmalloc n (heap s))"

text \<open>
  An allocation whose result is written through at once: address 0 is not mapped, so a null
  pointer ends in a page fault and the kernel halts, which is the value None.
\<close>

definition kalloc_deref :: "u32 \<Rightarrow> 'a kernel_scheme \<Rightarrow> (u32 \<times> 'a kernel_scheme) option" where
  "kalloc_deref n s = do { (p, s1) \<leftarrow> kalloc n s; if p = 0 then None else Some (p, s1) }"

definition krelease :: "u32 \<Rightarrow> 'a kernel_scheme \<Rightarrow> 'a kernel_scheme" where
  "krelease p s = s\<lparr>heap := kfree p (heap s)\<rparr>"

section \<open>Operations\<close>

definition get_current_task :: "'a kernel_scheme \<Rightarrow> u32" where
  "get_current_task s = current_task s"

definition set_kernel_stack :: "u32 \<Rightarrow> 'a kernel_scheme \<Rightarrow> 'a kernel_scheme" where
  "set_kernel_stack stack s = s\<lparr>tss_esp0 := stack\<rparr>"

definition sizeof_task :: u32 where "sizeof_task = 192"

definition init_multitasking :: "u32 \<Rightarrow> 'a kernel_scheme \<Rightarrow> 'a kernel_scheme option" where
  "init_multitasking stack_top s = do {
     (p, s1) \<leftarrow> kalloc_deref sizeof_task s;
     Some (upd_task p (\<lambda>t. t\<lparr>tname := [0x6B, 0x65, 0x72, 0x6E, 0x65, 0x6C], tstate := TASK_RUNNING,
             tid := next_pid s1, tnext := 0, kstack_top := stack_top\<rparr>)
           (s1\<lparr>current_task := p, next_pid := next_pid s1 + 1, task_list := p\<rparr>))
   }"

text \<open>The name is cut after 31 characters.\<close>

definition task_name :: "cstring \<Rightarrow> cstring" where
  "task_name name = take 31 (cstr name)"

text \<open>\<open>*(--esp) = v\<close>.\<close>

definition push_word :: "u32 \<times> (u32 \<Rightarrow> u32) \<Rightarrow> u32 \<Rightarrow> u32 \<times> (u32 \<Rightarrow> u32)" where
  "push_word st v = (fst st - 4, (snd st)(fst st - 4 := v))"

text \<open>The words pushed for the first interrupt return, in the order of the code.\<close>

definition initial_frame :: "bool \<Rightarrow> u32 \<Rightarrow> u32 \<Rightarrow> u32 list" where
  "initial_frame is_user entry_point ustack =
     (if is_user then [0x23, ustack] else []) @
     [0x202, if is_user then 0x1B else 0x08, entry_point, 0, 0] @
     [0, 0, 0, 0, 0, 0, 0, 0] @ [if is_user then 0x23 else 0x10]"

partial_function (option) last_task :: "(u32 \<Rightarrow> task) \<Rightarrow> u32 \<Rightarrow> u32 option" where
  "last_task ts tmp = (if tnext (ts tmp) \<noteq> 0 then last_task ts (tnext (ts tmp)) else Some tmp)"

definition create_task :: "cstring \<Rightarrow> u32 \<Rightarrow> bool \<Rightarrow> 'a kernel_scheme \<Rightarrow> (u32 \<times> 'a kernel_scheme) option" where
  "create_task name entry is_user s = do {
     (new_task, s1) \<leftarrow> kalloc_deref sizeof_task s;
     let s2 = upd_task new_task (\<lambda>t. t\<lparr>tid := next_pid s1, tname := task_name name\<rparr>)
                (s1\<lparr>next_pid := next_pid s1 + 1\<rparr>);
     (stack, s3) \<leftarrow> kalloc_deref 4096 s2;
     let (esp, mem) = foldl push_word (stack + 4096, stack_mem s3) (initial_frame is_user entry (stack + 4096));
     let s4 = upd_task new_task (\<lambda>t. t\<lparr>tesp := esp\<rparr>) (s3\<lparr>stack_mem := mem\<rparr>);
     (ktop, s5) \<leftarrow> (if is_user then kalloc 4096 s4 \<bind> (\<lambda>(k, s'). Some (k + 4096, s'))
                    else Some (stack + 4096, s4));
     let s6 = upd_task new_task (\<lambda>t. t\<lparr>kstack_top := ktop, tstate := TASK_READY, tnext := 0,
                heap_start := 0x10000000, heap_end := 0x10000000,
                fd_table := replicate 16 0, fd_offset := replicate 16 0\<rparr>) s5;
     let (flags, e) = irq_save (eflags s6);
     tmp \<leftarrow> last_task (tasks s6) (task_list s6);
     Some (new_task, (upd_task tmp (\<lambda>t. t\<lparr>tnext := new_task\<rparr>) s6)\<lparr>eflags := irq_restore flags e\<rparr>)
   }"

partial_function (option) pick_next :: "(u32 \<Rightarrow> task) \<Rightarrow> u32 \<Rightarrow> u32 \<Rightarrow> u32 option" where
  "pick_next ts head p =
     (let n = (if p = 0 then head else p)
      in if tstate (ts n) \<noteq> TASK_DEAD then Some n else pick_next ts head (tnext (ts n)))"

definition schedule_internal :: "u32 \<Rightarrow> 'a kernel_scheme \<Rightarrow> (u32 \<times> 'a kernel_scheme) option" where
  "schedule_internal current_esp s =
     (if current_task s = 0 then Some (current_esp, s)
      else do {
        let s1 = upd_task (current_task s) (\<lambda>t. t\<lparr>tesp := current_esp\<rparr>) s;
        n \<leftarrow> pick_next (tasks s1) (task_list s1) (tnext (tasks s1 (current_task s1)));
        let s2 = upd_task n (\<lambda>t. t\<lparr>tstate := TASK_RUNNING\<rparr>) (s1\<lparr>current_task := n\<rparr>);
        let s3 = set_kernel_stack (kstack_top (tasks s2 n)) s2;
        Some (tesp (tasks s3 n), s3)
      })"

text \<open>
  \<open>task_exit\<close> up to the final \<open>hlt\<close> loop, which only the timer interrupt leaves. The prompt
  it prints is output of the shell.
\<close>

definition task_exit :: "'a kernel_scheme \<Rightarrow> 'a kernel_scheme" where
  "task_exit s =
     (let (flags, e) = irq_save (eflags s); s1 = s\<lparr>eflags := e\<rparr>; current = get_current_task s1;
          s2 = (if current \<noteq> 0 \<and> tid (tasks s1 current) \<noteq> 1
                then (upd_task current (\<lambda>t. t\<lparr>tstate := TASK_DEAD\<rparr>) s1)\<lparr>shell_active := 1\<rparr> else s1)
      in s2\<lparr>eflags := eflags s2 OR 0x200\<rparr>)"

section \<open>The task list\<close>

fun chain :: "(u32 \<Rightarrow> task) \<Rightarrow> u32 \<Rightarrow> u32 list \<Rightarrow> bool" where
  "chain ts p [] = (p = 0)"
| "chain ts p (x # xs) = (p = x \<and> x \<noteq> 0 \<and> chain ts (tnext (ts x)) xs)"

definition live :: "(u32 \<Rightarrow> task) \<Rightarrow> u32 \<Rightarrow> bool" where
  "live ts t \<longleftrightarrow> tstate (ts t) \<noteq> TASK_DEAD"

lemma chain_cong: "(\<And>x. x \<in> set xs \<Longrightarrow> tnext (ts x) = tnext (ts' x)) \<Longrightarrow> chain ts p xs = chain ts' p xs"
  by (induction xs arbitrary: p) auto

lemma chain_append: "chain ts p (xs @ y # ys) \<Longrightarrow> chain ts y (y # ys)"
  by (induction xs arbitrary: p) auto

lemma chain_zero [simp]: "chain ts 0 xs \<longleftrightarrow> xs = []"
  by (cases xs) auto

lemma chain_nz: "chain ts p xs \<Longrightarrow> 0 \<notin> set xs"
  by (induction xs arbitrary: p) auto

lemma last_task_chain: "chain ts p (xs @ [y]) \<Longrightarrow> last_task ts p = Some y"
proof (induction xs arbitrary: p)
  case Nil
  then show ?case by (simp add: last_task.simps)
next
  case (Cons x xs)
  then have c: "chain ts (tnext (ts x)) (xs @ [y])" and p: "p = x" by simp_all
  have "tnext (ts x) \<noteq> 0" using c by (cases xs) auto
  then show ?case using Cons.IH [OF c] p by (subst last_task.simps) simp
qed

lemma chain_snoc:
  assumes "chain ts p (xs @ [y])" and "distinct (xs @ [y, z])" and "z \<noteq> 0" and "tnext (ts' z) = 0"
    and "tnext (ts' y) = z" and "\<forall>x \<in> set xs. tnext (ts' x) = tnext (ts x)"
  shows "chain ts' p (xs @ [y, z])"
  using assms(1,2,6)
proof (induction xs arbitrary: p)
  case Nil
  then show ?case using assms(3-5) by simp
qed auto

lemma pick_next_tail:
  "chain ts p ys \<Longrightarrow> \<exists>y \<in> set ys. live ts y \<Longrightarrow> pick_next ts head p = Some (hd (dropWhile (\<lambda>t. \<not> live ts t) ys))"
proof (induction ys arbitrary: p)
  case (Cons y ys)
  then have y: "p = y" "y \<noteq> 0" by simp_all
  show ?case
  proof (cases "live ts y")
    case True
    then show ?thesis using y by (subst pick_next.simps) (simp add: live_def)
  next
    case False
    then have "pick_next ts head (tnext (ts y)) = Some (hd (dropWhile (\<lambda>t. \<not> live ts t) ys))"
      using Cons by simp
    then show ?thesis using y False by (subst pick_next.simps) (simp add: live_def)
  qed
qed simp

lemma pick_next_head:
  assumes "chain ts head xs" and "\<exists>x \<in> set xs. live ts x"
  shows "pick_next ts head 0 = pick_next ts head head"
  using assms by (subst (1 2) pick_next.simps) (cases xs, auto)

lemma pick_next_skip:
  "chain ts p ys \<Longrightarrow> \<forall>y \<in> set ys. \<not> live ts y \<Longrightarrow> pick_next ts head p = pick_next ts head 0"
proof (induction ys arbitrary: p)
  case (Cons y ys)
  then have "pick_next ts head (tnext (ts y)) = pick_next ts head 0" by simp
  then show ?case using Cons.prems by (subst pick_next.simps) (simp add: live_def)
qed simp

text \<open>The search follows the tasks behind the current one and then the list from its head.\<close>

lemma pick_next_spec:
  assumes "chain ts head xs" and "chain ts p ys" and "\<exists>x \<in> set xs. live ts x"
  shows "pick_next ts head p = Some (hd (dropWhile (\<lambda>t. \<not> live ts t) (ys @ xs)))"
proof (cases "\<exists>y \<in> set ys. live ts y")
  case True
  then show ?thesis using pick_next_tail [OF assms(2) True] by (auto simp: dropWhile_append)
next
  case False
  then show ?thesis
    using pick_next_skip [OF assms(2)] pick_next_head [OF assms(1,3)] pick_next_tail [OF assms(1,3)]
    by (simp add: dropWhile_append)
qed

section \<open>The scheduler as a rotating queue\<close>

text \<open>
  The queue starts with the current task and goes on in list order, around the end. One
  scheduling step puts the current task at the back and rotates past the dead ones.
\<close>

definition rr_queue :: "'a kernel_scheme \<Rightarrow> u32 list \<Rightarrow> bool" where
  "rr_queue s q \<longleftrightarrow> (\<exists>l r. chain (tasks s) (task_list s) (l @ current_task s # r) \<and>
     distinct (l @ current_task s # r) \<and> q = current_task s # r @ l)"

definition rr_step :: "(u32 \<Rightarrow> bool) \<Rightarrow> u32 list \<Rightarrow> u32 list" where
  "rr_step lv q = (let w = tl q @ [hd q] in dropWhile (\<lambda>t. \<not> lv t) w @ takeWhile (\<lambda>t. \<not> lv t) w)"

lemma rr_queue_facts:
  "rr_queue s q \<Longrightarrow> q \<noteq> [] \<and> hd q = current_task s \<and> distinct q \<and> 0 \<notin> set q"
  unfolding rr_queue_def using chain_nz by fastforce

lemma set_rr_step: "q \<noteq> [] \<Longrightarrow> set (rr_step lv q) = set q"
proof -
  assume "q \<noteq> []"
  have "set (dropWhile P w @ takeWhile P w) = set w" for P and w :: "u32 list"
    by (metis Un_commute set_append takeWhile_dropWhile_id)
  then show ?thesis unfolding rr_step_def Let_def using \<open>q \<noteq> []\<close> by (cases q) auto
qed

lemma upd_task_sel [simp]:
  "tasks (upd_task p f s) = (tasks s)(p := f (tasks s p))" "current_task (upd_task p f s) = current_task s"
  "task_list (upd_task p f s) = task_list s" "heap (upd_task p f s) = heap s" "eflags (upd_task p f s) = eflags s"
  "next_pid (upd_task p f s) = next_pid s" "stack_mem (upd_task p f s) = stack_mem s"
  "tss_esp0 (upd_task p f s) = tss_esp0 s"
  by (simp_all add: upd_task_def)

text \<open>Splitting the list at the task that is found.\<close>

lemma rotate_split:
  assumes "r @ l @ [c] = pre @ n # post"
  shows "\<exists>l' r'. l @ c # r = l' @ n # r' \<and> post @ pre = r' @ l'"
proof -
  from assms have "(\<exists>us. r = pre @ us \<and> us @ l @ [c] = n # post) \<or> (\<exists>us. r @ us = pre \<and> l @ [c] = us @ n # post)"
    unfolding append_eq_append_conv2 by blast
  then show ?thesis
  proof (elim disjE exE conjE)
    fix us assume us: "r = pre @ us" "us @ l @ [c] = n # post"
    show ?thesis
    proof (cases us)
      case Nil
      then have "l @ [c] = n # post" using us by simp
      then have "l @ c # r = [] @ n # (post @ pre)" using us(1) Nil by (metis append_Cons append_Nil append_Nil2 append_assoc)
      then show ?thesis by (intro exI [of _ "[]"] exI [of _ "post @ pre"]) simp
    next
      case (Cons u us')
      then have "u = n" "post = us' @ l @ [c]" using us by simp_all
      then show ?thesis using us(1) Cons by (intro exI [of _ "l @ c # pre"] exI [of _ us']) simp
    qed
  next
    fix us assume us: "r @ us = pre" "l @ [c] = us @ n # post"
    have "l @ c # r = us @ n # (post @ r)" using us(2) by (metis append_Cons append_Nil append_assoc)
    then show ?thesis using us(1) by (intro exI [of _ us] exI [of _ "post @ r"]) simp
  qed
qed

lemma schedule_spec:
  assumes q: "rr_queue s q" and lv: "\<exists>t \<in> set q. live (tasks s) t"
  obtains n s' where "schedule_internal esp s = Some (tesp (tasks s' n), s')" "current_task s' = n"
    "rr_queue s' (rr_step (live (tasks s)) q)" "live (tasks s') = live (tasks s)" "n \<in> set q" "live (tasks s) n"
    "tstate (tasks s' n) = TASK_RUNNING" "tss_esp0 s' = kstack_top (tasks s' n)"
    "tesp (tasks s' (current_task s)) = esp" "task_list s' = task_list s" "heap s' = heap s"
    "\<forall>t. t \<noteq> n \<longrightarrow> tstate (tasks s' t) = tstate (tasks s t)"
    "\<forall>t. t \<noteq> current_task s \<longrightarrow> tesp (tasks s' t) = tesp (tasks s t)"
    "\<forall>t. tid (tasks s' t) = tid (tasks s t) \<and> kstack_top (tasks s' t) = kstack_top (tasks s t)"
proof -
  let ?c = "current_task s"
  obtain l r where ch: "chain (tasks s) (task_list s) (l @ ?c # r)" and d: "distinct (l @ ?c # r)"
    and qd: "q = ?c # r @ l" using q by (auto simp: rr_queue_def)
  define ts where "ts = (tasks s)(?c := (tasks s ?c)\<lparr>tesp := esp\<rparr>)"
  have c0: "?c \<noteq> 0" using chain_nz [OF ch] by auto
  have nx: "tnext (ts x) = tnext (tasks s x)" "live ts x = live (tasks s) x" for x
    by (simp_all add: ts_def live_def)
  have ch': "chain ts (task_list s) (l @ ?c # r)" using ch chain_cong [of _ ts "tasks s"] nx(1) by blast
  have tail: "chain ts (tnext (ts ?c)) r" using chain_append [OF ch'] by simp
  have lvx: "\<exists>x \<in> set (l @ ?c # r). live ts x" using lv qd by (auto simp: nx(2))
  define D where "D = (\<lambda>t. \<not> live (tasks s) t)"
  define w where "w = r @ l @ [?c]"
  have exw: "\<exists>x \<in> set w. \<not> D x" using lv qd by (auto simp: D_def w_def)
  have "hd (dropWhile D (r @ l @ ?c # r)) = hd (dropWhile D w)"
  proof -
    have "r @ l @ ?c # r = w @ r" by (simp add: w_def)
    then show ?thesis using exw by (auto simp: dropWhile_append)
  qed
  define n where "n = hd (dropWhile D w)"
  have pick: "pick_next ts (task_list s) (tnext (ts ?c)) = Some n"
    using pick_next_spec [OF ch' tail lvx] \<open>hd (dropWhile D (r @ l @ ?c # r)) = hd (dropWhile D w)\<close>
    by (simp add: n_def D_def nx(2))
  define post where "post = tl (dropWhile D w)"
  have dw: "dropWhile D w = n # post" using exw by (simp add: n_def post_def dropWhile_eq_Nil_conv)
  have wn: "w = takeWhile D w @ n # post" using dw takeWhile_dropWhile_id [of D w] by simp
  have nlive: "live (tasks s) n" using hd_dropWhile [of D w] exw by (auto simp: D_def n_def)
  have nq: "n \<in> set q" using arg_cong [OF wn, of set] by (auto simp: qd w_def)
  obtain l' r' where xs: "l @ ?c # r = l' @ n # r'" and pp: "post @ takeWhile D w = r' @ l'"
    using rotate_split [of r l ?c "takeWhile D w" n post] wn w_def by auto
  define s' where "s' = set_kernel_stack (kstack_top (ts n))
     (s\<lparr>tasks := ts(n := (ts n)\<lparr>tstate := TASK_RUNNING\<rparr>), current_task := n\<rparr>)"
  have res: "schedule_internal esp s = Some (tesp (tasks s' n), s')"
    using c0 pick by (simp add: schedule_internal_def s'_def ts_def set_kernel_stack_def upd_task_def)
  have tk: "tasks s' = ts(n := (ts n)\<lparr>tstate := TASK_RUNNING\<rparr>)" "current_task s' = n" "task_list s' = task_list s"
    "tss_esp0 s' = kstack_top (ts n)" "heap s' = heap s"
    by (simp_all add: s'_def set_kernel_stack_def)
  have "chain (tasks s') (task_list s') (l' @ n # r')"
    using ch' xs chain_cong [of "l' @ n # r'" "tasks s'" ts] by (simp add: tk)
  moreover have "rr_step (live (tasks s)) q = n # r' @ l'"
    using pp dw by (simp add: rr_step_def qd w_def D_def)
  ultimately have "rr_queue s' (rr_step (live (tasks s)) q)"
    using d xs unfolding rr_queue_def tk(2) by metis
  moreover have "live (tasks s') = live (tasks s)"
    using nlive nx(2) by (auto simp: tk live_def TASK_RUNNING_def TASK_DEAD_def fun_eq_iff)
  ultimately show ?thesis
    by (intro that [OF res tk(2) _ _ nq nlive]) (simp_all add: tk, simp_all add: ts_def)
qed

section \<open>Properties of the scheduler\<close>

text \<open>
  C5: a scheduling step implements the rotating queue: while some task is not dead it ends
  (the search loop has no bound of its own), picks the first task that is not dead behind the
  current one in cyclic list order, stores the old stack pointer in the task that leaves,
  returns the stack pointer of the task that enters, marks it running and gives its kernel
  stack to the TSS; no other task changes state.
\<close>

theorem schedule_round_robin:
  assumes "rr_queue s q" and "\<exists>t \<in> set q. live (tasks s) t"
  shows "\<exists>s'. schedule_internal esp s = Some (tesp (tasks s' (current_task s')), s') \<and>
    rr_queue s' (rr_step (live (tasks s)) q) \<and> live (tasks s) (current_task s') \<and>
    tesp (tasks s' (current_task s)) = esp \<and> tstate (tasks s' (current_task s')) = TASK_RUNNING \<and>
    tss_esp0 s' = kstack_top (tasks s (current_task s')) \<and>
    (\<forall>t. t \<noteq> current_task s' \<longrightarrow> tstate (tasks s' t) = tstate (tasks s t))"
  using assms by (rule schedule_spec [of s q esp]) (intro exI conjI, auto)

text \<open>Successive timer ticks; each carries the stack pointer of the interrupted task.\<close>

fun run_ticks :: "u32 list \<Rightarrow> 'a kernel_scheme \<Rightarrow> 'a kernel_scheme option" where
  "run_ticks [] s = Some s"
| "run_ticks (e # es) s = do { (r, s') \<leftarrow> schedule_internal e s; run_ticks es s' }"

lemma rr_step_closer:
  assumes "q \<noteq> []" and "t \<in> set q" and "t \<noteq> hd q" and "lv t"
  shows "length (takeWhile (\<lambda>x. x \<noteq> t) (rr_step lv q)) < length (takeWhile (\<lambda>x. x \<noteq> t) q)"
proof -
  obtain c w where q: "q = c # w" using assms(1) by (cases q) auto
  have tw: "t \<in> set w" using assms(2,3) q by auto
  let ?D = "\<lambda>x. \<not> lv x" and ?u = "w @ [c]"
  have td: "t \<in> set (dropWhile ?D ?u)"
  proof -
    have "t \<notin> set (takeWhile ?D ?u)" using assms(4) by (auto dest: set_takeWhileD)
    moreover have "set ?u = set (takeWhile ?D ?u) \<union> set (dropWhile ?D ?u)"
      by (metis set_append takeWhile_dropWhile_id)
    ultimately show ?thesis using tw by auto
  qed
  have "takeWhile (\<lambda>x. x \<noteq> t) ?u = takeWhile ?D ?u @ takeWhile (\<lambda>x. x \<noteq> t) (dropWhile ?D ?u)"
    using assms(4) takeWhile_append2 [of "takeWhile ?D ?u" "\<lambda>x. x \<noteq> t" "dropWhile ?D ?u"]
    by (metis (mono_tags, lifting) set_takeWhileD takeWhile_dropWhile_id)
  moreover have "takeWhile (\<lambda>x. x \<noteq> t) ?u = takeWhile (\<lambda>x. x \<noteq> t) w"
    using tw by (simp add: takeWhile_append1)
  ultimately have "length (takeWhile (\<lambda>x. x \<noteq> t) (dropWhile ?D ?u)) \<le> length (takeWhile (\<lambda>x. x \<noteq> t) w)"
    by (metis le_add2 length_append)
  moreover have "takeWhile (\<lambda>x. x \<noteq> t) (rr_step lv q) = takeWhile (\<lambda>x. x \<noteq> t) (dropWhile ?D ?u)"
    using td unfolding rr_step_def q Let_def list.sel by (rule takeWhile_append1) simp
  ultimately show ?thesis using assms(3) q by simp
qed

lemma run_ticks_reach:
  assumes "rr_queue s q" and "t \<in> set q" and "live (tasks s) t"
    and "length (takeWhile (\<lambda>x. x \<noteq> t) q) \<le> length es"
  shows "\<exists>k s'. k \<le> length es \<and> run_ticks (take k es) s = Some s' \<and> current_task s' = t"
  using assms
proof (induction es arbitrary: s q)
  case Nil
  then have "takeWhile (\<lambda>x. x \<noteq> t) q = []" by simp
  then have "hd q = t" using Nil.prems(2) by (cases q) (auto split: if_splits)
  then have "current_task s = t" using rr_queue_facts [OF Nil.prems(1)] by simp
  then show ?case by simp
next
  case (Cons e es)
  note f = rr_queue_facts [OF Cons.prems(1)]
  show ?case
  proof (cases "hd q = t")
    case True
    then have "run_ticks (take 0 (e # es)) s = Some s \<and> current_task s = t" using f by simp
    then show ?thesis by blast
  next
    case False
    have ex: "\<exists>t \<in> set q. live (tasks s) t" using Cons.prems(2,3) by blast
    obtain n s1 where st: "schedule_internal e s = Some (tesp (tasks s1 n), s1)"
      "rr_queue s1 (rr_step (live (tasks s)) q)" "live (tasks s1) = live (tasks s)"
      using schedule_spec [OF Cons.prems(1) ex, of e] by metis
    have "length (takeWhile (\<lambda>x. x \<noteq> t) (rr_step (live (tasks s)) q)) \<le> length es"
      using rr_step_closer [of q t "live (tasks s)"] f False Cons.prems by force
    moreover have "t \<in> set (rr_step (live (tasks s)) q)" using set_rr_step f Cons.prems(2) by simp
    ultimately obtain k s' where "k \<le> length es" "run_ticks (take k es) s1 = Some s'" "current_task s' = t"
      using Cons.IH [OF st(2)] Cons.prems(3) st(3) by auto
    then have "Suc k \<le> length (e # es) \<and> run_ticks (take (Suc k) (e # es)) s = Some s' \<and> current_task s' = t"
      using st(1) by simp
    then show ?thesis by blast
  qed
qed

text \<open>
  C23: no starvation. A task that is in the list and not dead is running after at most as many
  ticks as the list has tasks, whatever the other tasks are.
\<close>

theorem schedule_fair:
  assumes "rr_queue s q" and "t \<in> set q" and "live (tasks s) t" and "length es = length q"
  shows "\<exists>k s'. k \<le> length q \<and> run_ticks (take k es) s = Some s' \<and> current_task s' = t"
proof -
  have "length (takeWhile (\<lambda>x. x \<noteq> t) q) \<le> length es" using assms(4) length_takeWhile_le by simp
  then show ?thesis using run_ticks_reach [OF assms(1-3), of es] assms(4) by simp
qed

section \<open>Creation and exit\<close>

text \<open>The words a run of pushes leaves in memory, read upwards from the stack pointer.\<close>

lemma push_words:
  assumes "4 * length vs < 4294967296"
  shows "fst (foldl push_word (e, m) vs) = e - of_nat (4 * length vs) \<and>
    (\<forall>i < length vs. snd (foldl push_word (e, m) vs) (fst (foldl push_word (e, m) vs) + of_nat (4 * i)) = rev vs ! i)"
  using assms
proof (induction vs rule: rev_induct)
  case (snoc v vs)
  let ?r = "foldl push_word (e, m) vs"
  have ih: "fst ?r = e - of_nat (4 * length vs)"
    "\<And>i. i < length vs \<Longrightarrow> snd ?r (fst ?r + of_nat (4 * i)) = rev vs ! i"
    using snoc by auto
  have "snd (push_word ?r v) (fst (push_word ?r v) + of_nat (4 * i)) = rev (vs @ [v]) ! i"
    if "i < Suc (length vs)" for i
  proof (cases i)
    case (Suc j)
    have "unat (of_nat (4 * i) :: u32) = 4 * i" using that snoc.prems by (intro unat_of_nat_u32) simp
    then have "(of_nat (4 * i) :: u32) \<noteq> 0" using Suc by (metis mult_eq_0_iff nat.distinct(1) unsigned_0 zero_neq_numeral)
    then have ne: "fst ?r - 4 + of_nat (4 * i) \<noteq> fst ?r - 4" by simp
    have "fst ?r - 4 + of_nat (4 * i) = fst ?r + of_nat (4 * j)" using Suc by simp
    then show ?thesis using ih(2) [of j] Suc that ne by (simp add: push_word_def)
  qed (simp add: push_word_def)
  moreover have "fst (push_word ?r v) = e - of_nat (4 * length (vs @ [v]))"
    using ih(1) by (simp add: push_word_def algebra_simps)
  ultimately show ?case by (simp only: foldl_append foldl.simps length_append list.size add_Suc_right add_0_right) blast
qed simp

lemma initial_frame_length: "length (initial_frame u e t) = (if u then 16 else 14)"
  by (simp add: initial_frame_def)

text \<open>
  The task list of a reachable kernel: a queue of distinct control blocks that are live
  heap buffers, among them a kernel task (id 1) that is not dead.
\<close>

definition task_inv :: "u32 \<Rightarrow> 'a kernel_scheme \<Rightarrow> u32 list \<Rightarrow> bool" where
  "task_inv base s q \<longleftrightarrow> rr_queue s q \<and> kheap_ok base (heap s) \<and> set q \<subseteq> fst ` kheap_live base (heap s) \<and>
     (\<exists>k \<in> set q. tid (tasks s k) = 1 \<and> live (tasks s) k)"

lemma kalloc_spec:
  assumes "kheap_ok base (heap s)" and "n \<noteq> 0" and "unat n \<le> 4294967276"
  obtains p h where "kalloc n s = Some (p, s\<lparr>heap := h\<rparr>)" "kheap_ok base h"
    "fst ` kheap_live base (heap s) \<subseteq> fst ` kheap_live base h"
    "p \<noteq> 0 \<Longrightarrow> p \<notin> fst ` kheap_live base (heap s) \<and> p \<in> fst ` kheap_live base h"
proof -
  obtain p h where "kmalloc n (heap s) = Some (p, h)" "kheap_ok base h"
    "p = 0 \<and> h = heap s \<or> p \<noteq> 0 \<and> (\<exists>c. unat n \<le> c \<and> kheap_live base h = insert (p, c) (kheap_live base (heap s)) \<and>
       p \<notin> fst ` kheap_live base (heap s))"
    using kh.malloc_ok [OF assms] by blast
  then show ?thesis by (intro that [of p h]) (auto simp: kalloc_def)
qed

lemma rr_queue_snoc:
  assumes q: "rr_queue s q" and p: "p \<noteq> 0" "p \<notin> set q"
    and same: "current_task s' = current_task s" "task_list s' = task_list s"
    and nx: "tnext (tasks s' p) = 0" "last_task (tasks s) (task_list s) = Some y \<Longrightarrow> tnext (tasks s' y) = p"
      "\<And>x. x \<in> set q \<Longrightarrow> last_task (tasks s) (task_list s) \<noteq> Some x \<Longrightarrow> tnext (tasks s' x) = tnext (tasks s x)"
    and lt: "last_task (tasks s) (task_list s) = Some y"
  shows "\<exists>q'. rr_queue s' q' \<and> set q' = insert p (set q)"
proof -
  let ?c = "current_task s"
  obtain l r where ch: "chain (tasks s) (task_list s) (l @ ?c # r)" and d: "distinct (l @ ?c # r)"
    and qd: "q = ?c # r @ l" using q by (auto simp: rr_queue_def)
  obtain zs y' where zs: "l @ ?c # r = zs @ [y']" by (metis append_Cons append_is_Nil_conv neq_Nil_conv rev_exhaust)
  have y: "y' = y" using last_task_chain ch lt unfolding zs by simp
  have "set q = set (l @ ?c # r)" using qd by auto
  then have sq: "set q = set (zs @ [y])" unfolding zs y .
  have "chain (tasks s') (task_list s) (zs @ [y, p])"
  proof (rule chain_snoc [OF _ _ p(1) nx(1) nx(2) [OF lt]])
    show "chain (tasks s) (task_list s) (zs @ [y])" using ch zs y by simp
    show "distinct (zs @ [y, p])" using d p(2) sq unfolding zs y by auto
    show "\<forall>x \<in> set zs. tnext (tasks s' x) = tnext (tasks s x)"
      using nx(3) lt sq d unfolding zs y by auto
  qed
  moreover have "zs @ [y, p] = l @ ?c # (r @ [p])" using zs y by (metis append.assoc append_Cons append_Nil)
  ultimately have "rr_queue s' (?c # (r @ [p]) @ l)"
    unfolding rr_queue_def same using d p(2) qd by (intro exI [of _ l] exI [of _ "r @ [p]"]) auto
  then show ?thesis using qd by (intro exI [of _ "?c # (r @ [p]) @ l"]) auto
qed

text \<open>One of the two allocations \<open>create_task\<close> writes through returns the null pointer.\<close>

definition task_alloc_fails :: "'a kernel_scheme \<Rightarrow> bool" where
  "task_alloc_fails s \<longleftrightarrow> (\<exists>h. kmalloc sizeof_task (heap s) = Some (0, h)) \<or>
     (\<exists>p h h'. kmalloc sizeof_task (heap s) = Some (p, h) \<and> kmalloc 4096 h = Some (0, h'))"

lemma kalloc_kmalloc: "kalloc n s = Some (p, s\<lparr>heap := h\<rparr>) \<Longrightarrow> kmalloc n (heap s) = Some (p, h)"
  by (cases "kmalloc n (heap s)") (auto simp: kalloc_def dest: arg_cong [of _ _ heap])

text \<open>What \<open>create_task\<close> computes once its allocations are known.\<close>

lemma create_task_result:
  assumes ok: "kheap_ok base (heap s)"
    and lt: "\<And>ts. (\<And>x. x \<in> fst ` kheap_live base (heap s) \<Longrightarrow> tnext (ts x) = tnext (tasks s x)) \<Longrightarrow>
      last_task ts (task_list s) = Some y"
    and y: "y \<in> fst ` kheap_live base (heap s)"
  obtains (out) "create_task name entry_point u s = None" "task_alloc_fails s"
  | (made) p st k h mem where "create_task name entry_point u s = Some (p,
      s\<lparr>heap := h, next_pid := next_pid s + 1, stack_mem := mem, tasks := (tasks s)
        (p := \<lparr>tid = next_pid s, tname = task_name name, tesp = st + 4096 - (if u then 64 else 56),
           kstack_top = k, tstate = TASK_READY, fd_table = replicate 16 0,
           fd_offset = replicate 16 0, heap_start = 0x10000000, heap_end = 0x10000000, tnext = 0\<rparr>,
         y := (tasks s y)\<lparr>tnext := p\<rparr>)\<rparr>)"
    "p \<notin> fst ` kheap_live base (heap s)" "kheap_ok base h" "fst ` kheap_live base (heap s) \<subseteq> fst ` kheap_live base h"
    "p \<noteq> 0" "p \<in> fst ` kheap_live base h" "\<not> u \<Longrightarrow> k = st + 4096"
    "\<And>i. i < length (initial_frame u entry_point (st + 4096)) \<Longrightarrow>
       mem (st + 4096 - (if u then 64 else 56) + of_nat (4 * i)) = rev (initial_frame u entry_point (st + 4096)) ! i"
proof -
  obtain p h1 where a1: "kalloc sizeof_task s = Some (p, s\<lparr>heap := h1\<rparr>)" "kheap_ok base h1"
      "fst ` kheap_live base (heap s) \<subseteq> fst ` kheap_live base h1"
      "p \<noteq> 0 \<Longrightarrow> p \<notin> fst ` kheap_live base (heap s) \<and> p \<in> fst ` kheap_live base h1"
    by (rule kalloc_spec [OF ok, of sizeof_task]) (simp_all add: sizeof_task_def)
  show ?thesis
  proof (cases "p = 0")
    case True
    then have "create_task name entry_point u s = None" using a1(1) by (simp add: create_task_def kalloc_deref_def)
    then show ?thesis using out kalloc_kmalloc [OF a1(1)] True by (auto simp: task_alloc_fails_def)
  next
  case p0: False
  then have pn: "p \<notin> fst ` kheap_live base (heap s)" using a1(4) by simp
  define s2 where "s2 = upd_task p (\<lambda>t. t\<lparr>tid := next_pid s, tname := task_name name\<rparr>)
     (s\<lparr>heap := h1, next_pid := next_pid s + 1\<rparr>)"
  obtain st h3 where a2: "kalloc 4096 s2 = Some (st, s2\<lparr>heap := h3\<rparr>)" "kheap_ok base h3"
      "fst ` kheap_live base h1 \<subseteq> fst ` kheap_live base h3"
    by (rule kalloc_spec [of base s2 4096]) (use a1(2) in \<open>simp_all add: s2_def\<close>)
  show ?thesis
  proof (cases "st = 0")
    case True
    have "kalloc_deref 4096 s2 = None" using a2(1) True by (simp add: kalloc_deref_def)
    moreover have "kalloc_deref sizeof_task s = Some (p, s\<lparr>heap := h1\<rparr>)"
      using a1(1) p0 by (simp add: kalloc_deref_def)
    ultimately have "create_task name entry_point u s = None" by (simp add: create_task_def s2_def)
    moreover have "kmalloc 4096 h1 = Some (0, h3)" using kalloc_kmalloc [OF a2(1)] True by (simp add: s2_def)
    ultimately show ?thesis using out kalloc_kmalloc [OF a1(1)] by (auto simp: task_alloc_fails_def)
  next
  case st0: False
  define vs where "vs = initial_frame u entry_point (st + 4096)"
  obtain e mem where em: "foldl push_word (st + 4096, stack_mem s) vs = (e, mem)" by force
  have len: "4 * length vs = (if u then 64 else 56)" by (simp add: vs_def initial_frame_length)
  have e: "e = st + 4096 - (if u then 64 else 56)"
    and m: "\<And>i. i < length vs \<Longrightarrow> mem (e + of_nat (4 * i)) = rev vs ! i"
    using push_words [of vs "st + 4096" "stack_mem s"] em len by (auto split: if_splits)
  define s4 where "s4 = upd_task p (\<lambda>t. t\<lparr>tesp := e\<rparr>) (s2\<lparr>heap := h3, stack_mem := mem\<rparr>)"
  obtain k h5 where a3: "kalloc 4096 s4 = Some (k, s4\<lparr>heap := h5\<rparr>)" "kheap_ok base h5"
      "fst ` kheap_live base h3 \<subseteq> fst ` kheap_live base h5"
    by (rule kalloc_spec [of base s4 4096]) (use a2(2) in \<open>simp_all add: s4_def\<close>)
  define h where "h = (if u then h5 else h3)"
  define kt where "kt = (if u then k + 4096 else st + 4096)"
  have br: "(if u then kalloc 4096 s4 \<bind> (\<lambda>(k, s'). Some (k + 4096, s')) else Some (st + 4096, s4)) =
      Some (kt, s4\<lparr>heap := h\<rparr>)"
    using a3(1) by (simp add: h_def kt_def s4_def)
  define s6 where "s6 = upd_task p (\<lambda>t. t\<lparr>kstack_top := kt, tstate := TASK_READY, tnext := 0,
      heap_start := 0x10000000, heap_end := 0x10000000,
      fd_table := replicate 16 0, fd_offset := replicate 16 0\<rparr>) (s4\<lparr>heap := h\<rparr>)"
  have "last_task (tasks s6) (task_list s6) = Some y"
  proof -
    have "tnext (tasks s6 x) = tnext (tasks s x)" if "x \<in> fst ` kheap_live base (heap s)" for x
      using that pn by (auto simp: s6_def s4_def s2_def)
    moreover have "task_list s6 = task_list s" by (simp add: s6_def s4_def s2_def)
    ultimately show ?thesis using lt by simp
  qed
  moreover have "stack_mem s2 = stack_mem s" "heap s2 = h1" by (simp_all add: s2_def)
  ultimately have res: "create_task name entry_point u s =
      Some (p, (upd_task y (\<lambda>t. t\<lparr>tnext := p\<rparr>) s6)\<lparr>eflags := eflags s6\<rparr>)"
    using a1(1) a2(1) br em p0 st0
    by (simp add: create_task_def kalloc_deref_def s2_def [symmetric] vs_def [symmetric] irq_save_def irq_restore_def
        del: upd_task_sel)
      (simp add: s4_def [symmetric] s6_def [symmetric] del: upd_task_sel)
  have yp: "y \<noteq> p" using y pn by auto
  have eq: "(upd_task y (\<lambda>t. t\<lparr>tnext := p\<rparr>) s6)\<lparr>eflags := eflags s6\<rparr> =
      s\<lparr>heap := h, next_pid := next_pid s + 1, stack_mem := mem, tasks := (tasks s)
        (p := \<lparr>tid = next_pid s, tname = task_name name, tesp = e, kstack_top = kt, tstate = TASK_READY,
           fd_table = replicate 16 0, fd_offset = replicate 16 0, heap_start = 0x10000000, heap_end = 0x10000000,
           tnext = 0\<rparr>, y := (tasks s y)\<lparr>tnext := p\<rparr>)\<rparr>"
    using yp by (simp add: s6_def s4_def s2_def upd_task_def fun_eq_iff)
  have hh: "kheap_ok base h" "fst ` kheap_live base h3 \<subseteq> fst ` kheap_live base h" using a3 a2 by (auto simp: h_def)
  show ?thesis
  proof (rule made [where k = kt and st = st and mem = mem])
    show "create_task name entry_point u s = Some (p, s\<lparr>heap := h, next_pid := next_pid s + 1, stack_mem := mem,
        tasks := (tasks s)
        (p := \<lparr>tid = next_pid s, tname = task_name name, tesp = st + 4096 - (if u then 64 else 56), kstack_top = kt,
           tstate = TASK_READY, fd_table = replicate 16 0, fd_offset = replicate 16 0, heap_start = 0x10000000,
           heap_end = 0x10000000, tnext = 0\<rparr>, y := (tasks s y)\<lparr>tnext := p\<rparr>)\<rparr>)"
      unfolding res eq e ..
    show "fst ` kheap_live base (heap s) \<subseteq> fst ` kheap_live base h"
      by (rule order_trans [OF a1(3) order_trans [OF a2(3) hh(2)]])
    show "p \<in> fst ` kheap_live base h"
      by (rule subsetD [OF hh(2) subsetD [OF a2(3) conjunct2 [OF a1(4) [OF p0]]]])
    show "\<not> u \<Longrightarrow> kt = st + 4096" by (simp add: kt_def)
  qed (use pn p0 hh(1) m e in \<open>simp_all only: vs_def not_False_eq_True\<close>)
  qed
  qed
qed

lemma chain_exists_last: "chain ts p xs \<Longrightarrow> xs \<noteq> [] \<Longrightarrow> last_task ts p = Some (last xs)"
  using last_task_chain [of ts p "butlast xs" "last xs"] by simp

lemma rr_queue_cong:
  assumes "rr_queue s q" and "current_task s' = current_task s" "task_list s' = task_list s"
    and "\<And>x. x \<in> set q \<Longrightarrow> tnext (tasks s' x) = tnext (tasks s x)"
  shows "rr_queue s' q"
proof -
  obtain l r where ch: "chain (tasks s) (task_list s) (l @ current_task s # r)"
    and d: "distinct (l @ current_task s # r)" and q: "q = current_task s # r @ l"
    using assms(1) by (auto simp: rr_queue_def)
  have "chain (tasks s') (task_list s) (l @ current_task s # r)"
    using ch chain_cong [of "l @ current_task s # r" "tasks s'" "tasks s"] assms(4) q by auto
  then show ?thesis unfolding rr_queue_def assms(2,3) using d q by blast
qed

lemma rr_queue_last:
  assumes "rr_queue s q"
  obtains y where "y \<in> set q" "last_task (tasks s) (task_list s) = Some y"
    "tnext (tasks s y) = 0"
    "\<And>ts. (\<And>x. x \<in> set q \<Longrightarrow> tnext (ts x) = tnext (tasks s x)) \<Longrightarrow> last_task ts (task_list s) = Some y"
proof -
  obtain l r where ch: "chain (tasks s) (task_list s) (l @ current_task s # r)"
    and q: "q = current_task s # r @ l" using assms by (auto simp: rr_queue_def)
  define xs where "xs = l @ current_task s # r"
  have ch': "chain (tasks s) (task_list s) xs" and ne: "xs \<noteq> []" using ch by (simp_all add: xs_def)
  have sq: "set xs = set q" by (auto simp: xs_def q)
  have "last_task ts (task_list s) = Some (last xs)" if "\<And>x. x \<in> set q \<Longrightarrow> tnext (ts x) = tnext (tasks s x)" for ts
    using chain_cong [of xs ts "tasks s"] that ch' ne sq by (auto intro: chain_exists_last)
  moreover have "tnext (tasks s (last xs)) = 0"
    using chain_append [of "tasks s" "task_list s" "butlast xs" "last xs" "[]"] ch' ne by simp
  ultimately show ?thesis using that [of "last xs"] ch' ne sq chain_exists_last last_in_set by metis
qed

lemma kheap_live_nz: "kheap_ok base h \<Longrightarrow> 0 \<notin> fst ` kheap_live base h"
  using block_ptr_nz by (fastforce simp: kheap_ok_def kheap_live_def)

lemma create_task_step:
  assumes inv: "task_inv base s q"
  obtains (out) "create_task name entry_point u s = None" "task_alloc_fails s"
  | (made) p s' q' where "create_task name entry_point u s = Some (p, s')" "task_inv base s' q'"
    "set q' = insert p (set q)" "p \<notin> set q"
    "tstate (tasks s' p) = TASK_READY \<and> tid (tasks s' p) = next_pid s \<and>
       map (\<lambda>i. stack_mem s' (tesp (tasks s' p) + of_nat (4 * i))) [0..<if u then 16 else 14] =
       rev (initial_frame u entry_point (tesp (tasks s' p) + (if u then 64 else 56)))"
    "\<forall>t \<in> set q. tstate (tasks s' t) = tstate (tasks s t) \<and> tid (tasks s' t) = tid (tasks s t)"
proof -
  have q: "rr_queue s q" and ok: "kheap_ok base (heap s)" and sub: "set q \<subseteq> fst ` kheap_live base (heap s)"
    and k1: "\<exists>k \<in> set q. tid (tasks s k) = 1 \<and> live (tasks s) k"
    using inv by (auto simp: task_inv_def)
  obtain y where y: "y \<in> set q" "last_task (tasks s) (task_list s) = Some y" "tnext (tasks s y) = 0"
      "\<And>ts. (\<And>x. x \<in> set q \<Longrightarrow> tnext (ts x) = tnext (tasks s x)) \<Longrightarrow> last_task ts (task_list s) = Some y"
    using rr_queue_last [OF q] by blast
  have lt: "last_task ts (task_list s) = Some y"
    if "\<And>x. x \<in> fst ` kheap_live base (heap s) \<Longrightarrow> tnext (ts x) = tnext (tasks s x)" for ts
    using y(4) that sub by blast
  have yl: "y \<in> fst ` kheap_live base (heap s)" using y(1) sub by blast
  show ?thesis
  proof (rule create_task_result [OF ok lt yl, of name entry_point u])
    fix p st k h mem
    assume r: "create_task name entry_point u s = Some (p,
      s\<lparr>heap := h, next_pid := next_pid s + 1, stack_mem := mem, tasks := (tasks s)
        (p := \<lparr>tid = next_pid s, tname = task_name name, tesp = st + 4096 - (if u then 64 else 56),
           kstack_top = k, tstate = TASK_READY, fd_table = replicate 16 0,
           fd_offset = replicate 16 0, heap_start = 0x10000000, heap_end = 0x10000000, tnext = 0\<rparr>,
         y := (tasks s y)\<lparr>tnext := p\<rparr>)\<rparr>)"
    and pn: "p \<notin> fst ` kheap_live base (heap s)" and h: "kheap_ok base h"
      "fst ` kheap_live base (heap s) \<subseteq> fst ` kheap_live base h" "p \<in> fst ` kheap_live base h" and p0: "p \<noteq> 0"
    and m: "\<And>i. i < length (initial_frame u entry_point (st + 4096)) \<Longrightarrow>
       mem (st + 4096 - (if u then 64 else 56) + of_nat (4 * i)) = rev (initial_frame u entry_point (st + 4096)) ! i"
  let ?e = "st + 4096 - (if u then 64 else 56)"
  define s' where "s' = s\<lparr>heap := h, next_pid := next_pid s + 1, stack_mem := mem, tasks := (tasks s)
        (p := \<lparr>tid = next_pid s, tname = task_name name, tesp = ?e,
           kstack_top = k, tstate = TASK_READY, fd_table = replicate 16 0,
           fd_offset = replicate 16 0, heap_start = 0x10000000, heap_end = 0x10000000, tnext = 0\<rparr>,
         y := (tasks s y)\<lparr>tnext := p\<rparr>)\<rparr>"
  have pq: "p \<notin> set q" using pn sub by blast
  then have yp: "y \<noteq> p" using y(1) by blast
  have old: "tstate (tasks s' t) = tstate (tasks s t) \<and> tid (tasks s' t) = tid (tasks s t)" if "t \<in> set q" for t
    using that pq by (auto simp: s'_def)
  have "\<exists>q'. rr_queue s' q' \<and> set q' = insert p (set q)"
    by (rule rr_queue_snoc [OF q p0 pq _ _ _ _ _ y(2)]) (use yp y pq in \<open>auto simp: s'_def\<close>)
  then obtain q' where q': "rr_queue s' q'" "set q' = insert p (set q)" by blast
  have "set q' \<subseteq> fst ` kheap_live base h" using q'(2) sub h(2,3) by blast
  moreover have "\<exists>k \<in> set q'. tid (tasks s' k) = 1 \<and> live (tasks s') k"
    using k1 old q'(2) unfolding live_def by auto
  moreover have "heap s' = h" by (simp add: s'_def)
  ultimately have inv': "task_inv base s' q'" using q'(1) h(1) by (simp add: task_inv_def)
  have "map (\<lambda>i. mem (?e + of_nat (4 * i))) [0..<if u then 16 else 14] = rev (initial_frame u entry_point (?e + (if u then 64 else 56)))"
    using m by (intro nth_equalityI) (auto simp: initial_frame_length algebra_simps)
  then have fr: "tstate (tasks s' p) = TASK_READY \<and> tid (tasks s' p) = next_pid s \<and>
       map (\<lambda>i. stack_mem s' (tesp (tasks s' p) + of_nat (4 * i))) [0..<if u then 16 else 14] =
       rev (initial_frame u entry_point (tesp (tasks s' p) + (if u then 64 else 56)))"
    using yp by (simp add: s'_def)
  show ?thesis by (rule made [OF r [folded s'_def] inv' q'(2) pq fr]) (use old in blast)
  qed (blast, rule out)
qed

text \<open>
  creating a task fails, in a page fault, only when the heap cannot provide the control
  block or the stack. Otherwise the new control block joins the tasks, in state ready and with
  the next process number, and no other task changes state; from its saved stack pointer
  upwards the stack holds what the interrupt return pops: data segment, eight zero registers,
  interrupt number and error code, then entry point, code segment and flags with interrupts
  enabled, and for a user task its stack.
\<close>

theorem create_task_ready:
  assumes "task_inv base s q" and "\<not> task_alloc_fails s"
  shows "\<exists>p s' q'. create_task name entry_point u s = Some (p, s') \<and> task_inv base s' q' \<and>
    set q' = insert p (set q) \<and> p \<notin> set q \<and>
    (\<forall>t \<in> set q. tstate (tasks s' t) = tstate (tasks s t)) \<and>
    tstate (tasks s' p) = TASK_READY \<and> tid (tasks s' p) = next_pid s \<and>
    map (\<lambda>i. stack_mem s' (tesp (tasks s' p) + of_nat (4 * i))) [0..<if u then 16 else 14] =
       rev (initial_frame u entry_point (tesp (tasks s' p) + (if u then 64 else 56)))"
proof (rule create_task_step [OF assms(1), of name entry_point u])
  assume "task_alloc_fails s"
  then show ?thesis using assms(2) by simp
qed (intro exI conjI; (assumption | blast))

lemma schedule_inv:
  assumes inv: "task_inv base s q"
  obtains r s' q' where "schedule_internal e s = Some (r, s')" "task_inv base s' q'" "set q' = set q"
proof -
  have q: "rr_queue s q" and ex: "\<exists>t \<in> set q. live (tasks s) t" using inv by (auto simp: task_inv_def)
  obtain n s' where st: "schedule_internal e s = Some (tesp (tasks s' n), s')"
    "rr_queue s' (rr_step (live (tasks s)) q)" "live (tasks s') = live (tasks s)" "heap s' = heap s"
    "\<forall>t. tid (tasks s' t) = tid (tasks s t) \<and> kstack_top (tasks s' t) = kstack_top (tasks s t)"
    by (rule schedule_spec [OF q ex, of e])
  have sq: "set (rr_step (live (tasks s)) q) = set q" using set_rr_step rr_queue_facts [OF q] by blast
  then have "task_inv base s' (rr_step (live (tasks s)) q)"
    using inv st(2-5) by (simp add: task_inv_def)
  then show ?thesis using that st(1) sq by blast
qed

lemma task_exit_inv: "task_inv base s q \<Longrightarrow> task_inv base (task_exit s) q"
proof -
  assume inv: "task_inv base s q"
  define s' where "s' = task_exit s"
  have f: "current_task s' = current_task s" "task_list s' = task_list s" "heap s' = heap s"
    "tnext (tasks s' x) = tnext (tasks s x)" "tid (tasks s' x) = tid (tasks s x)"
    "tid (tasks s x) = 1 \<Longrightarrow> tstate (tasks s' x) = tstate (tasks s x)" for x
    by (auto simp: s'_def task_exit_def Let_def irq_save_def get_current_task_def)
  have "rr_queue s' q" using inv f(1,2,4) by (auto simp: task_inv_def intro: rr_queue_cong)
  then show "task_inv base (task_exit s) q"
    using inv f(3,5,6) unfolding s'_def [symmetric] task_inv_def live_def by metis
qed

section \<open>Reachable kernels\<close>

inductive task_step :: "'a kernel_scheme \<Rightarrow> 'a kernel_scheme \<Rightarrow> bool" where
  tick: "schedule_internal e s = Some (r, s') \<Longrightarrow> task_step s s'"
| spawn: "create_task name entry_point u s = Some (p, s') \<Longrightarrow> task_step s s'"
| leave: "task_step s (task_exit s)"

inductive_cases task_stepE: "task_step s s'"

inductive task_reachable :: "'a kernel_scheme \<Rightarrow> 'a kernel_scheme \<Rightarrow> bool" for s0 where
  start: "task_reachable s0 s0"
| step: "task_reachable s0 s \<Longrightarrow> task_step s s' \<Longrightarrow> task_reachable s0 s'"

lemma task_step_inv: "task_step s s' \<Longrightarrow> task_inv base s q \<Longrightarrow> \<exists>q'. task_inv base s' q'"
proof (induction rule: task_step.induct)
  case (tick e s r s')
  then show ?case using schedule_inv [of base s q e] by (metis option.inject prod.inject)
next
  case (spawn name entry_point u s p s')
  then show ?case using create_task_step [of base s q name entry_point u]
    by (metis option.distinct(1) option.inject prod.inject)
qed (blast intro: task_exit_inv)

lemma init_multitasking_inv:
  assumes "kheap_ok base (heap s)" and "next_pid s = 1" and "init_multitasking st s = Some s'"
  shows "\<exists>q. task_inv base s' q"
proof -
  obtain p h where a: "kalloc sizeof_task s = Some (p, s\<lparr>heap := h\<rparr>)" "kheap_ok base h"
      "p \<noteq> 0 \<Longrightarrow> p \<notin> fst ` kheap_live base (heap s) \<and> p \<in> fst ` kheap_live base h"
    by (rule kalloc_spec [OF assms(1), of sizeof_task]) (simp_all add: sizeof_task_def)
  have p0: "p \<noteq> 0" using assms(3) a(1) by (auto simp: init_multitasking_def kalloc_deref_def)
  then have s': "s' = upd_task p (\<lambda>t. t\<lparr>tname := [0x6B, 0x65, 0x72, 0x6E, 0x65, 0x6C], tstate := TASK_RUNNING,
             tid := 1, tnext := 0, kstack_top := st\<rparr>)
           (s\<lparr>heap := h, current_task := p, next_pid := 2, task_list := p\<rparr>)"
    using assms(2,3) a(1) by (simp add: init_multitasking_def kalloc_deref_def)
  have "rr_queue s' [p]" unfolding rr_queue_def by (intro exI [of _ "[]"]) (simp add: s' p0)
  moreover have "live (tasks s') p" "tid (tasks s' p) = 1" by (simp_all add: s' live_def task_consts)
  ultimately have "task_inv base s' [p]" using a(2,3) p0 by (simp add: task_inv_def s')
  then show ?thesis by blast
qed

lemma task_reachable_inv:
  "task_reachable s0 s \<Longrightarrow> \<exists>q. task_inv base s0 q \<Longrightarrow> \<exists>q. task_inv base s q"
  by (induction rule: task_reachable.induct) (auto dest: task_step_inv)

text \<open>
  C24: the scheduler never hangs. After \<open>init_multitasking\<close>, whatever sequence of timer ticks,
  task creations and task exits follows, the unbounded search for a task that is not dead
  ends: exiting cannot kill the kernel task.
\<close>

theorem scheduler_never_stuck:
  assumes "kheap_ok base (heap s)" and "next_pid s = 1" and "init_multitasking st s = Some s0"
    and "task_reachable s0 s'"
  shows "\<exists>esp' s''. schedule_internal esp s' = Some (esp', s'') \<and> live (tasks s'') (current_task s'')"
proof -
  obtain q where inv: "task_inv base s' q"
    using task_reachable_inv [OF assms(4)] init_multitasking_inv [OF assms(1-3)] by blast
  have q: "rr_queue s' q" and ex: "\<exists>t \<in> set q. live (tasks s') t" using inv by (auto simp: task_inv_def)
  show ?thesis by (rule schedule_spec [OF q ex, of esp]) auto
qed

text \<open>
  a task that went to sleep is scheduled all the same: the search skips only dead tasks,
  and the task it finds is set to running. With a single sleeping task in the list, the very
  next tick resumes it.
\<close>

theorem sleeping_task_runs:
  assumes "rr_queue s [c]" and "tstate (tasks s c) = TASK_SLEEP"
  shows "\<exists>s'. schedule_internal esp s = Some (esp, s') \<and> current_task s' = c \<and> tstate (tasks s' c) = TASK_RUNNING"
proof -
  have l: "\<exists>t \<in> set [c]. live (tasks s) t" using assms(2) by (simp add: live_def task_consts)
  have c: "current_task s = c" using rr_queue_facts [OF assms(1)] by simp
  show ?thesis by (rule schedule_spec [OF assms(1) l, of esp]) (use c in auto)
qed

section \<open>Instances\<close>

text \<open>A kernel after \<open>init_multitasking\<close> on the fresh heap.\<close>

definition blank_task :: task where
  "blank_task = \<lparr>tid = 0, tname = [], tesp = 0, kstack_top = 0, tstate = 0, fd_table = [], fd_offset = [],
     heap_start = 0, heap_end = 0, tnext = 0\<rparr>"

definition boot_kernel :: kernel where
  "boot_kernel = \<lparr>heap = heap_demo, eflags = 2, tasks = (\<lambda>_. blank_task), current_task = 0, task_list = 0,
     next_pid = 1, tss_esp0 = 0, stack_mem = (\<lambda>_. 0), shell_active = 0,
     nodes = (\<lambda>_. zero_node)\<rparr>"

lemma boot_alloc: "kalloc sizeof_task boot_kernel =
    Some (0xC0400010, boot_kernel\<lparr>heap := kmalloc_take 208 0xC0400000 heap_demo\<rparr>)"
  by (simp add: kalloc_def boot_kernel_def sizeof_task_def kmalloc_refines [OF heap_demo_inv] align4_def HEAP_SIZE_def)

definition boot_tasks :: kernel where
  "boot_tasks = the (init_multitasking 0xC0300000 boot_kernel)"

lemma boot_tasks_init:
  "init_multitasking 0xC0300000 boot_kernel = Some boot_tasks" "current_task boot_tasks = 0xC0400010"
  "kheap_ok 0xC0400000 (heap boot_kernel)" "next_pid boot_kernel = 1"
  by (simp_all add: boot_tasks_def init_multitasking_def kalloc_deref_def boot_alloc)
    (use heap_demo_inv in \<open>auto simp: boot_kernel_def kheap_ok_def\<close>)

lemma boot_tasks_queue: "rr_queue boot_tasks [0xC0400010]"
  unfolding rr_queue_def boot_tasks_init(2)
  by (intro exI [of _ "[]"]) (simp add: boot_tasks_def init_multitasking_def kalloc_deref_def boot_alloc)

lemma boot_tasks_live: "live (tasks boot_tasks) 0xC0400010"
  by (simp add: boot_tasks_def init_multitasking_def kalloc_deref_def boot_alloc live_def task_consts)

lemma boot_tasks_inv: "task_inv 0xC0400000 boot_tasks [0xC0400010]"
proof -
  obtain q where inv: "task_inv 0xC0400000 boot_tasks q"
    using init_multitasking_inv [OF boot_tasks_init(3,4,1)] by auto
  have "q = [0xC0400010]"
  proof -
    have "rr_queue boot_tasks q" using inv by (simp add: task_inv_def)
    then obtain l r where "chain (tasks boot_tasks) (task_list boot_tasks) (l @ 0xC0400010 # r)"
      "q = 0xC0400010 # r @ l" by (auto simp: rr_queue_def boot_tasks_init(2))
    moreover have "task_list boot_tasks = 0xC0400010" "tnext (tasks boot_tasks 0xC0400010) = 0"
      by (simp_all add: boot_tasks_def init_multitasking_def kalloc_deref_def boot_alloc)
    ultimately show ?thesis by (cases l; cases r) auto
  qed
  then show ?thesis using inv by simp
qed

lemma boot_tasks_room: "\<not> task_alloc_fails boot_tasks"
proof -
  let ?h1 = "kmalloc_take 208 0xC0400000 heap_demo"
  let ?h2 = "kmalloc_take 208 0xC04000D0 ?h1"
  have h: "heap boot_tasks = ?h1"
    by (simp add: boot_tasks_def init_multitasking_def kalloc_deref_def boot_alloc)
  have i1: "heap_inv 0xC0400000 ?h1 [(0xC0400000, 208, False), (0xC04000D0, 0x3FFF30, True)]"
    by (rule kmalloc_take_inv [OF heap_demo_inv]) (simp_all add: HEAP_SIZE_def split_block_def)
  have i2: "heap_inv 0xC0400000 ?h2 [(0xC0400000, 208, False), (0xC04000D0, 208, False), (0xC04001A0, 0x3FFE60, True)]"
    by (rule kmalloc_take_inv [OF i1]) (simp_all add: split_block_def)
  have "kmalloc sizeof_task ?h1 = Some (0xC04000E0, ?h2)"
    by (simp add: kmalloc_refines [OF i1] sizeof_task_def align4_def split_block_def)
  moreover have "\<exists>p h. kmalloc 4096 ?h2 = Some (p, h) \<and> p \<noteq> 0"
    by (simp add: kmalloc_refines [OF i2] align4_def)
  ultimately show ?thesis unfolding task_alloc_fails_def h by auto
qed

theorem schedule_round_robin_witness:
  "\<exists>s'. schedule_internal 0x1234 boot_tasks = Some (tesp (tasks s' (current_task s')), s') \<and>
     tesp (tasks s' 0xC0400010) = 0x1234"
  using schedule_round_robin [OF boot_tasks_queue, of "0x1234"] boot_tasks_live boot_tasks_init(2) by auto

theorem schedule_fair_witness:
  "\<exists>k s'. k \<le> 1 \<and> run_ticks (take k [0x1234]) boot_tasks = Some s' \<and> current_task s' = 0xC0400010"
  using schedule_fair [OF boot_tasks_queue _ boot_tasks_live, of "[0x1234]"] by simp

theorem create_task_ready_witness:
  "\<exists>p s' q'. create_task [0x61] 0xC0100000 False boot_tasks = Some (p, s') \<and> task_inv 0xC0400000 s' q'"
  using create_task_ready [OF boot_tasks_inv boot_tasks_room, of "[0x61]" "0xC0100000" False] by blast

theorem scheduler_never_stuck_witness:
  "\<exists>esp' s''. schedule_internal 0x1234 (task_exit boot_tasks) = Some (esp', s'') \<and> live (tasks s'') (current_task s'')"
  by (rule scheduler_never_stuck [OF boot_tasks_init(3,4,1) task_reachable.step [OF task_reachable.start task_step.leave]])

definition sleeping_kernel :: kernel where
  "sleeping_kernel = upd_task 0xC0400010 (\<lambda>t. t\<lparr>tstate := TASK_SLEEP\<rparr>) boot_tasks"

theorem sleeping_task_runs_witness:
  "\<exists>s'. schedule_internal 0x1234 sleeping_kernel = Some (0x1234, s') \<and> current_task s' = 0xC0400010 \<and>
     tstate (tasks s' 0xC0400010) = TASK_RUNNING"
proof (rule sleeping_task_runs)
  show "rr_queue sleeping_kernel [0xC0400010]"
    by (rule rr_queue_cong [OF boot_tasks_queue]) (simp_all add: sleeping_kernel_def)
qed (simp add: sleeping_kernel_def)

end
