(* ===== verification/Net.thy ===== *)
theory Net
  imports Inet Task
begin

text \<open>
  The link, ARP, IPv4, ICMP and UDP layers, \<open>kernel/net/net.c\<close>, without the dispatch of
  received IPv4 packets, which is in \<open>Net_Input\<close>. The state extends the kernel state with
  the variables of \<open>net.c\<close>; a packet given to the network card is appended to \<open>sent\<close>, and
  a call of a registered UDP callback to \<open>udp_calls\<close>. Headers are accessed at their packed
  offsets: Ethernet destination 0, source 6, type 12; ARP opcode 20, sender 22 and 28,
  target 32 and 38; IPv4 from 14 with length 16, protocol 23, checksum 24, source 26 and
  destination 30.
\<close>

section \<open>State\<close>

record udp_socket =
  local_port :: u16
  callback :: nat
  in_use :: int

record udp_call =
  uc_callback :: nat
  uc_payload :: nat
  uc_len :: int
  uc_src_ip :: "u8 list"
  uc_src_port :: u16

record net = kernel +
  my_mac :: "u8 list"
  my_ip :: "u8 list"
  gateway_mac :: "u8 list"
  udp_sockets :: "udp_socket list"
  nic_send :: bool
  ipv4_id_counter :: u16
  sent :: "u8 list list"
  udp_calls :: "udp_call list"

definition MAX_UDP_SOCKETS :: nat where "MAX_UDP_SOCKETS = 16"
definition ETH_TYPE_ARP :: u16 where "ETH_TYPE_ARP = 0x0806"
definition ETH_TYPE_IPV4 :: u16 where "ETH_TYPE_IPV4 = 0x0800"
definition broadcast_mac :: "u8 list" where "broadcast_mac = replicate 6 0xFF"

section \<open>Operations\<close>

fun memcmp :: "u8 list \<Rightarrow> u8 list \<Rightarrow> nat \<Rightarrow> int" where
  "memcmp s1 s2 0 = 0"
| "memcmp s1 s2 (Suc n) =
     (if rd8 s1 \<noteq> rd8 s2 then uint (rd8 s1) - uint (rd8 s2) else memcmp (tl s1) (tl s2) n)"

definition init_net :: "u8 list \<Rightarrow> 'a net_scheme \<Rightarrow> 'a net_scheme" where
  "init_net mac_addr s = s\<lparr>my_mac := take 6 mac_addr,
     udp_sockets := map (\<lambda>u. u\<lparr>in_use := 0\<rparr>) (udp_sockets s)\<rparr>"

definition net_get_ip :: "'a net_scheme \<Rightarrow> u32" where
  "net_get_ip s = le32 (my_ip s ! 0) (my_ip s ! 1) (my_ip s ! 2) (my_ip s ! 3)"

definition net_register_driver :: "bool \<Rightarrow> 'a net_scheme \<Rightarrow> 'a net_scheme" where
  "net_register_driver send_func s = s\<lparr>nic_send := send_func\<rparr>"

definition net_send_packet :: "u8 list \<Rightarrow> 'a net_scheme \<Rightarrow> 'a net_scheme" where
  "net_send_packet pkt s = (if nic_send s then s\<lparr>sent := sent s @ [pkt]\<rparr> else s)"

definition udp_bind :: "u16 \<Rightarrow> nat \<Rightarrow> 'a net_scheme \<Rightarrow> int \<times> 'a net_scheme" where
  "udp_bind port cb s =
     (case find_index (\<lambda>i. in_use (udp_sockets s ! i) = 0) 0 MAX_UDP_SOCKETS of
        Some i \<Rightarrow> (0, s\<lparr>udp_sockets := (udp_sockets s)[i := \<lparr>local_port = port, callback = cb, in_use = 1\<rparr>]\<rparr>)
      | None \<Rightarrow> (-1, s))"

text \<open>
  The frame built by \<open>net_send_ipv4\<close> in its buffer, every byte of which is written; the
  checksum is computed over the header with a zero checksum field.
\<close>

definition ipv4_frame :: "u8 list \<Rightarrow> u8 \<Rightarrow> u8 list \<Rightarrow> 'a net_scheme \<Rightarrow> mem" where
  "ipv4_frame dest_ip protocol payload s =
     (let m0 = wr_bytes 0 (take 6 (gateway_mac s)) (\<lambda>_. 0);
          m1 = wr_bytes 6 (take 6 (my_mac s)) m0;
          m2 = wr16 12 (htons ETH_TYPE_IPV4) m1;
          m3 = wr8 14 0x45 m2;
          m4 = wr8 15 0 m3;
          m5 = wr16 16 (htons (of_nat (20 + length payload))) m4;
          m6 = wr16 18 (htons (ipv4_id_counter s)) m5;
          m7 = wr16 20 0 m6;
          m8 = wr8 22 64 m7;
          m9 = wr8 23 protocol m8;
          m10 = wr16 24 0 m9;
          m11 = wr_bytes 26 (take 4 (my_ip s)) m10;
          m12 = wr_bytes 30 (take 4 dest_ip) m11;
          m13 = wr16 24 (calculate_checksum m12 14 20) m12
      in wr_bytes 34 payload m13)"

definition net_send_ipv4 :: "u8 list \<Rightarrow> u8 \<Rightarrow> u8 list \<Rightarrow> 'a net_scheme \<Rightarrow> 'a net_scheme option" where
  "net_send_ipv4 dest_ip protocol payload s = do {
     let total_len = 14 + 20 + length payload;
     (buffer, s1) \<leftarrow> kalloc (of_nat total_len) s;
     if buffer = 0 then Some s1
     else let m = ipv4_frame dest_ip protocol payload s1;
              s2 = s1\<lparr>ipv4_id_counter := ipv4_id_counter s1 + 1\<rparr>;
              s3 = net_send_packet (rd_bytes m 0 total_len) s2
          in Some (krelease buffer s3)
   }"

definition udp_datagram :: "u16 \<Rightarrow> u16 \<Rightarrow> u8 list \<Rightarrow> u8 list" where
  "udp_datagram src_port dest_port payload =
     bytes16 (htons src_port) @ bytes16 (htons dest_port) @
     bytes16 (htons (of_nat (8 + length payload))) @ bytes16 0 @ payload"

definition net_send_udp :: "u8 list \<Rightarrow> u16 \<Rightarrow> u16 \<Rightarrow> u8 list \<Rightarrow> 'a net_scheme \<Rightarrow> 'a net_scheme option" where
  "net_send_udp dest_ip dest_port src_port payload s = do {
     (buffer, s1) \<leftarrow> kalloc (of_nat (8 + length payload)) s;
     if buffer = 0 then Some s1
     else do {
       s2 \<leftarrow> net_send_ipv4 dest_ip 17 (udp_datagram src_port dest_port payload) s1;
       Some (krelease buffer s2)
     }
   }"

definition arp_request :: "u8 list \<Rightarrow> 'a net_scheme \<Rightarrow> u8 list" where
  "arp_request target_ip s =
     broadcast_mac @ take 6 (my_mac s) @ bytes16 (htons ETH_TYPE_ARP) @
     bytes16 (htons 1) @ bytes16 (htons ETH_TYPE_IPV4) @ [6, 4] @ bytes16 (htons 1) @
     take 6 (my_mac s) @ take 4 (my_ip s) @ replicate 6 0 @ take 4 target_ip"

definition net_send_arp_request :: "u8 list \<Rightarrow> 'a net_scheme \<Rightarrow> 'a net_scheme option" where
  "net_send_arp_request target_ip s = do {
     (buffer, s1) \<leftarrow> kalloc 42 s;
     if buffer = 0 then Some s1
     else Some (krelease buffer (net_send_packet (arp_request target_ip s1) s1))
   }"

text \<open>The handlers of received packets work on the packet in place.\<close>

definition net_handle_arp :: "mem \<Rightarrow> 'a net_scheme \<Rightarrow> mem \<times> 'a net_scheme" where
  "net_handle_arp m s =
     (if ntohs (rd16 m 20) = 1 then
        (if memcmp (rd_bytes m 38 4) (my_ip s) 4 = 0 then
           let m1 = wr_bytes 0 (rd_bytes m 6 6) m;
               m2 = wr_bytes 6 (take 6 (my_mac s)) m1;
               m3 = wr16 20 (htons 2) m2;
               m4 = wr_bytes 32 (rd_bytes m3 22 6) m3;
               m5 = wr_bytes 38 (rd_bytes m4 28 4) m4;
               m6 = wr_bytes 22 (take 6 (my_mac s)) m5;
               m7 = wr_bytes 28 (take 4 (my_ip s)) m6
           in (m7, net_send_packet (rd_bytes m7 0 42) s)
         else (m, s))
      else if ntohs (rd16 m 20) = 2 then (m, s\<lparr>gateway_mac := rd_bytes m 22 6\<rparr>)
      else (m, s))"

definition ip_ihl :: "mem \<Rightarrow> nat" where
  "ip_ihl m = unat (m 14 AND 0x0F)"

text \<open>\<open>icmp\<close> is the offset of the ICMP header in the packet.\<close>

definition net_handle_icmp :: "nat \<Rightarrow> int \<Rightarrow> mem \<Rightarrow> 'a net_scheme \<Rightarrow> mem \<times> 'a net_scheme" where
  "net_handle_icmp icmp icmp_len m s =
     (if m icmp = 8 then
        let m1 = wr_bytes 0 (rd_bytes m 6 6) m;
            m2 = wr_bytes 6 (take 6 (my_mac s)) m1;
            temp_ip = rd_bytes m2 30 4;
            m3 = wr_bytes 30 (rd_bytes m2 26 4) m2;
            m4 = wr_bytes 26 temp_ip m3;
            m5 = wr16 24 0 m4;
            m6 = wr16 24 (calculate_checksum m5 14 (int (ip_ihl m5 * 4))) m5;
            m7 = wr8 icmp 0 m6;
            m8 = wr16 (icmp + 2) 0 m7;
            m9 = wr16 (icmp + 2) (calculate_checksum m8 icmp icmp_len) m8;
            total_len = 14 + unat (ntohs (rd16 m9 16))
        in (m9, net_send_packet (rd_bytes m9 0 total_len) s)
      else (m, s))"

section \<open>The sender keeps the heap and the other components\<close>

definition net_ok :: "'a net_scheme \<Rightarrow> bool" where
  "net_ok s \<longleftrightarrow> length (my_mac s) = 6 \<and> length (my_ip s) = 4 \<and> length (gateway_mac s) = 6 \<and>
     length (udp_sockets s) = 16"

lemma memcmp_zero: "n \<le> length s1 \<Longrightarrow> n \<le> length s2 \<Longrightarrow> memcmp s1 s2 n = 0 \<longleftrightarrow> take n s1 = take n s2"
proof (induction s1 s2 n rule: memcmp.induct)
  case (2 s1 s2 n)
  then obtain a s1' b s2' where "s1 = a # s1'" "s2 = b # s2'" by (metis Suc_le_length_iff)
  with 2 show ?case by (auto simp: word_uint_eq_iff)
qed simp

lemma net_send_packet_sel [simp]:
  "heap (net_send_packet p s) = heap s" "tasks (net_send_packet p s) = tasks s"
  "sent (net_send_packet p s) = sent s @ (if nic_send s then [p] else [])"
  "ipv4_id_counter (net_send_packet p s) = ipv4_id_counter s"
  by (simp_all add: net_send_packet_def)

lemma krelease_heap [simp]:
  "heap (krelease p s) = kfree p (heap s)" "sent (krelease p t) = sent t"
  "ipv4_id_counter (krelease p t) = ipv4_id_counter t"
  by (simp_all add: krelease_def)

text \<open>
  Two states that differ only in the heap's free list, the packet log and the identification
  counter, with the same buffers in use.
\<close>

definition net_frame :: "u32 \<Rightarrow> 'a net_scheme \<Rightarrow> 'a net_scheme \<Rightarrow> bool" where
  "net_frame base s s' \<longleftrightarrow> (\<exists>h c out. s' = s\<lparr>heap := h, ipv4_id_counter := c, sent := out\<rparr> \<and>
     kheap_ok base h \<and> kheap_live base h = kheap_live base (heap s))"

lemma net_frameI:
  "s' = s\<lparr>heap := heap s', ipv4_id_counter := ipv4_id_counter s', sent := sent s'\<rparr> \<Longrightarrow> kheap_ok base (heap s') \<Longrightarrow>
   kheap_live base (heap s') = kheap_live base (heap s) \<Longrightarrow> net_frame base s s'"
  unfolding net_frame_def by blast

lemma net_frameE:
  assumes "net_frame base s s'"
  obtains h c out where "s' = s\<lparr>heap := h, ipv4_id_counter := c, sent := out\<rparr>" "kheap_ok base h"
    "kheap_live base h = kheap_live base (heap s)"
  using assms unfolding net_frame_def by blast

lemma net_frame_trans: "net_frame base s s' \<Longrightarrow> net_frame base s' s'' \<Longrightarrow> net_frame base s s''"
  by (elim net_frameE, rule net_frameI) simp_all

lemma net_frame_sel:
  assumes "net_frame base s s'"
  shows "tasks s' = tasks s" "nic_send s' = nic_send s" "my_mac s' = my_mac s" "my_ip s' = my_ip s"
    "gateway_mac s' = gateway_mac s" "kheap_ok base (heap s')" "kheap_live base (heap s') = kheap_live base (heap s)"
    "net_ok s' = net_ok s" "net.more s' = net.more s" "udp_sockets s' = udp_sockets s" "udp_calls s' = udp_calls s"
    "current_task s' = current_task s"
  by (rule net_frameE [OF assms], simp add: net_ok_def)+

text \<open>
  The shape of all senders: a scratch buffer is taken, something that keeps the state runs,
  and the buffer is given back.
\<close>

lemma scratch_frame:
  assumes ok: "kheap_ok base (heap s)" and n: "n \<noteq> 0" "unat n \<le> 4294967276"
  obtains (none) "kalloc n s = Some (0, s)"
  | (some) p h where "kalloc n s = Some (p, s\<lparr>heap := h\<rparr>)" "p \<noteq> 0" "kheap_ok base h"
      "\<And>s'. net_frame base (s\<lparr>heap := h\<rparr>) s' \<Longrightarrow> net_frame base s (krelease p s')"
proof -
  obtain p h where k: "kmalloc n (heap s) = Some (p, h)" "kheap_ok base h" and
    c: "p = 0 \<and> h = heap s \<or> p \<noteq> 0 \<and> (\<exists>c. unat n \<le> c \<and> kheap_live base h = insert (p, c) (kheap_live base (heap s)) \<and>
       p \<notin> fst ` kheap_live base (heap s))"
    using kh.malloc_ok [OF ok n] by blast
  show ?thesis
  proof (cases "p = 0")
    case True
    then show ?thesis using none k c by (simp add: kalloc_def)
  next
    case False
    then obtain c where l: "kheap_live base h = insert (p, c) (kheap_live base (heap s))"
      "p \<notin> fst ` kheap_live base (heap s)" using c by blast
    show ?thesis
    proof (rule some [of p h])
      fix s' assume f: "net_frame base (s\<lparr>heap := h\<rparr>) s'"
      then have o': "kheap_ok base (heap s')" and l': "kheap_live base (heap s') = kheap_live base h"
        using net_frame_sel(6,7) [OF f] by simp_all
      have "(p, c) \<in> kheap_live base (heap s')" using l l' by simp
      from kh.release_ok [OF o' this] have "kheap_ok base (kfree p (heap s'))"
        "kheap_live base (kfree p (heap s')) = kheap_live base (heap s) - {(p, c)}"
        using l l' by auto
      moreover have "(p, c) \<notin> kheap_live base (heap s)" using l(2) by force
      ultimately have "kheap_ok base (kfree p (heap s'))" "kheap_live base (kfree p (heap s')) = kheap_live base (heap s)"
        by auto
      then show "net_frame base s (krelease p s')"
        by (rule_tac net_frameE [OF f]) (rule net_frameI, simp_all add: krelease_def)
    qed (use k False in \<open>simp_all add: kalloc_def\<close>)
  qed
qed

lemma net_frame_refl: "kheap_ok base (heap s) \<Longrightarrow> net_frame base s s"
  by (rule net_frameI) simp_all

lemma net_frame_send: "kheap_ok base (heap s) \<Longrightarrow> net_frame base s (net_send_packet p (s\<lparr>ipv4_id_counter := c\<rparr>))"
  by (rule net_frameI) (simp_all add: net_send_packet_def)

section \<open>Sent frames\<close>

lemma ipv4_frame_fields:
  fixes protocol payload
  assumes "net_ok s" and "length dest_ip = 4"
  defines "m \<equiv> ipv4_frame dest_ip protocol payload s"
  shows "rd_bytes m 0 6 = gateway_mac s" "rd_bytes m 6 6 = my_mac s" "ntohs (rd16 m 12) = ETH_TYPE_IPV4"
    "ip_ihl m = 5" "ntohs (rd16 m 16) = of_nat (20 + length payload)" "m 23 = protocol"
    "rd_bytes m 26 4 = my_ip s" "rd_bytes m 30 4 = dest_ip" "rd_bytes m 34 (length payload) = payload"
    "ntohs (rd16 m 18) = ipv4_id_counter s"
  using assms(1,2)
  by (simp_all add: m_def ipv4_frame_def Let_def net_ok_def packet_simps ip_ihl_def)

lemma ipv4_frame_checksum:
  assumes "net_ok s" and "length dest_ip = 4"
  shows "calculate_checksum (ipv4_frame dest_ip protocol payload s) 14 20 = 0"
proof -
  define m10 where "m10 = wr16 24 0 (wr8 23 protocol (wr8 22 64 (wr16 20 0 (wr16 18 (htons (ipv4_id_counter s))
    (wr16 16 (htons (of_nat (20 + length payload))) (wr8 15 0 (wr8 14 0x45 (wr16 12 (htons ETH_TYPE_IPV4)
    (wr_bytes 6 (take 6 (my_mac s)) (wr_bytes 0 (take 6 (gateway_mac s)) (\<lambda>_. 0)))))))))))"
  define m12 where "m12 = wr_bytes 30 (take 4 dest_ip) (wr_bytes 26 (take 4 (my_ip s)) m10)"
  have m: "ipv4_frame dest_ip protocol payload s = wr_bytes 34 payload (wr16 24 (calculate_checksum m12 14 20) m12)"
    by (simp add: ipv4_frame_def Let_def m12_def m10_def)
  have "rd16 m12 24 = rd16 m10 24" by (simp add: m12_def packet_simps)
  then have z: "rd16 m12 24 = 0" by (simp add: m10_def packet_simps)
  have "calculate_checksum (wr16 24 (calculate_checksum (wr16 24 0 m12) 14 20) m12) 14 20 = 0"
    by (rule checksum_filled [of 24 14 5 20]) simp_all
  then have "calculate_checksum (wr16 24 (calculate_checksum m12 14 20) m12) 14 20 = 0"
    using wr16_same [OF z] by simp
  moreover have "calculate_checksum (ipv4_frame dest_ip protocol payload s) 14 20 =
      calculate_checksum (wr16 24 (calculate_checksum m12 14 20) m12) 14 20"
    unfolding m by (rule checksum_cong) (simp_all add: wr_bytes_out)
  ultimately show ?thesis by simp
qed

lemma ipv4_frame_heap [simp]: "ipv4_frame d p xs (s\<lparr>heap := h\<rparr>) = ipv4_frame d p xs s"
  by (simp add: ipv4_frame_def)

lemma net_send_ipv4_spec:
  assumes ok: "kheap_ok base (heap s)" and len: "length payload \<le> 4294967200"
  obtains (none) "net_send_ipv4 dest_ip protocol payload s = Some s"
  | (some) s' where "net_send_ipv4 dest_ip protocol payload s = Some s'" "net_frame base s s'"
      "sent s' = sent s @ (if nic_send s then [rd_bytes (ipv4_frame dest_ip protocol payload s) 0 (34 + length payload)] else [])"
      "ipv4_id_counter s' = ipv4_id_counter s + 1"
proof -
  define n :: u32 where "n = of_nat (34 + length payload)"
  have un: "unat n = 34 + length payload" unfolding n_def by (rule unat_of_nat_u32) (use len in simp)
  have "n \<noteq> 0" using un by (metis add_is_0 unsigned_0 zero_neq_numeral)
  moreover have "unat n \<le> 4294967276" using un len by simp
  ultimately show ?thesis
  proof (rule scratch_frame [OF ok])
    assume "kalloc n s = Some (0, s)"
    then show ?thesis using none by (simp add: net_send_ipv4_def n_def)
  next
    fix p h
    assume a: "kalloc n s = Some (p, s\<lparr>heap := h\<rparr>)" "p \<noteq> 0" "kheap_ok base h"
      and fr: "\<And>s'. net_frame base (s\<lparr>heap := h\<rparr>) s' \<Longrightarrow> net_frame base s (krelease p s')"
    let ?pk = "rd_bytes (ipv4_frame dest_ip protocol payload s) 0 (34 + length payload)"
    let ?s3 = "net_send_packet ?pk (s\<lparr>heap := h, ipv4_id_counter := ipv4_id_counter s + 1\<rparr>)"
    have "net_send_ipv4 dest_ip protocol payload s = Some (krelease p ?s3)"
      using a(1,2) by (simp add: net_send_ipv4_def n_def)
    moreover have "net_frame base (s\<lparr>heap := h\<rparr>) ?s3"
      using net_frame_send [of base "s\<lparr>heap := h\<rparr>" ?pk "ipv4_id_counter s + 1"] a(3) by simp
    then have "net_frame base s (krelease p ?s3)" by (rule fr)
    ultimately show ?thesis using some [of "krelease p ?s3"] by simp
  qed
qed

text \<open>
  sending an IPv4 packet ends, gives its buffer back (the buffers in use are the ones
  before) and touches nothing but the packet log and the identification counter. When the
  buffer could be allocated and a driver is registered, exactly one frame goes out: addressed
  to the last seen hardware address, with this host as source, the requested destination,
  protocol and payload, the total length in network order, and a header whose checksum
  verifies to zero.
\<close>

theorem net_send_ipv4_correct:
  assumes "kheap_ok base (heap s)" and "net_ok s" and "length dest_ip = 4" and "length payload \<le> 65515" and "nic_send s"
  shows "\<exists>s'. net_send_ipv4 dest_ip protocol payload s = Some s' \<and> net_frame base s s' \<and>
    (s' = s \<or> (\<exists>m. sent s' = sent s @ [rd_bytes m 0 (34 + length payload)] \<and>
       rd_bytes m 0 6 = gateway_mac s \<and> rd_bytes m 6 6 = my_mac s \<and> ntohs (rd16 m 12) = ETH_TYPE_IPV4 \<and>
       unat (ntohs (rd16 m 16)) = 20 + length payload \<and> m 23 = protocol \<and>
       rd_bytes m 26 4 = my_ip s \<and> rd_bytes m 30 4 = dest_ip \<and> rd_bytes m 34 (length payload) = payload \<and>
       calculate_checksum m 14 20 = 0))"
proof -
  let ?m = "ipv4_frame dest_ip protocol payload s"
  note f = ipv4_frame_fields [OF assms(2,3), of protocol payload]
    and c = ipv4_frame_checksum [OF assms(2,3), of protocol payload]
  have "unat (ntohs (rd16 ?m 16)) = 20 + length payload"
    unfolding f(5) by (rule unat_of_nat_u16) (use assms(4) in simp)
  moreover have "length payload \<le> 4294967200" using assms(4) by simp
  ultimately show ?thesis
    using f c assms(5) net_frame_refl [OF assms(1)]
    by (rule_tac net_send_ipv4_spec [OF assms(1), of payload dest_ip protocol]) auto
qed

text \<open>Whatever the state of the heap, a packet that goes out changes only three variables.\<close>

lemma net_send_ipv4_keeps:
  assumes "net_send_ipv4 d p xs s = Some s'"
  obtains h c out where "s' = s\<lparr>heap := h, ipv4_id_counter := c, sent := out\<rparr>"
proof -
  obtain b h where k: "kalloc (of_nat (34 + length xs)) s = Some (b, s\<lparr>heap := h\<rparr>)"
    using assms by (auto simp: net_send_ipv4_def kalloc_def split: bind_splits)
  have "\<exists>h c out. s' = s\<lparr>heap := h, ipv4_id_counter := c, sent := out\<rparr>"
  proof (cases "b = 0")
    case True
    then have "s' = s\<lparr>heap := h\<rparr>" using assms k by (simp add: net_send_ipv4_def)
    moreover have "s\<lparr>heap := h\<rparr> = s\<lparr>heap := h, ipv4_id_counter := ipv4_id_counter s, sent := sent s\<rparr>" by simp
    ultimately show ?thesis by metis
  next
    case False
    then have "s' = s\<lparr>heap := kfree b h, ipv4_id_counter := ipv4_id_counter s + 1, sent := sent s'\<rparr>"
      using assms k by (cases "nic_send s") (auto simp: net_send_ipv4_def krelease_def net_send_packet_def Let_def)
    then show ?thesis by blast
  qed
  then show ?thesis using that by blast
qed

section \<open>ARP\<close>

text \<open>
  a received ARP request for this host's address is answered with one 42-byte reply: sent
  back to the requester's hardware address, opcode 2, this host as sender and the requester
  as target; requests for other addresses are ignored, and a reply sets the hardware address
  used for sending.
\<close>

theorem net_handle_arp_correct:
  assumes "net_ok s" and "nic_send s"
  shows "if ntohs (rd16 m 20) = 1 \<and> rd_bytes m 38 4 = my_ip s
    then \<exists>m'. net_handle_arp m s = (m', s\<lparr>sent := sent s @ [rd_bytes m' 0 42]\<rparr>) \<and>
        rd_bytes m' 0 6 = rd_bytes m 6 6 \<and> rd_bytes m' 6 6 = my_mac s \<and> rd16 m' 12 = rd16 m 12 \<and>
        ntohs (rd16 m' 20) = 2 \<and> rd_bytes m' 22 6 = my_mac s \<and> rd_bytes m' 28 4 = my_ip s \<and>
        rd_bytes m' 32 6 = rd_bytes m 22 6 \<and> rd_bytes m' 38 4 = rd_bytes m 28 4
    else net_handle_arp m s = (m, if ntohs (rd16 m 20) = 2 then s\<lparr>gateway_mac := rd_bytes m 22 6\<rparr> else s)"
proof (cases "ntohs (rd16 m 20) = 1 \<and> rd_bytes m 38 4 = my_ip s")
  case True
  have "memcmp (rd_bytes m 38 4) (my_ip s) 4 = 0"
    using True assms(1) by (subst memcmp_zero) (simp_all add: net_ok_def)
  then show ?thesis using True assms
    by (simp add: net_handle_arp_def Let_def net_send_packet_def net_ok_def packet_simps)
next
  case False
  have "memcmp (rd_bytes m 38 4) (my_ip s) 4 = 0 \<longleftrightarrow> rd_bytes m 38 4 = my_ip s"
    using assms(1) by (subst memcmp_zero) (simp_all add: net_ok_def)
  then show ?thesis using False by (auto simp: net_handle_arp_def)
qed

section \<open>ICMP\<close>

lemma ihl_bound: "ip_ihl m \<le> 15"
proof -
  have "m 14 AND 0x0F \<le> 0x0F" by (rule word_and_le1)
  then show ?thesis by (simp add: ip_ihl_def word_le_nat_alt)
qed

text \<open>Addresses exchanged, checksum field cleared: the packet before the header checksum is filled in.\<close>

definition icmp_swapped :: "mem \<Rightarrow> u8 list \<Rightarrow> mem" where
  "icmp_swapped m mac =
     wr16 24 0 (wr_bytes 26 (rd_bytes m 30 4) (wr_bytes 30 (rd_bytes m 26 4) (wr_bytes 6 mac (wr_bytes 0 (rd_bytes m 6 6) m))))"

lemma icmp_swapped_reads:
  "length mac = 6 \<Longrightarrow> rd_bytes (icmp_swapped m mac) 0 6 = rd_bytes m 6 6"
  "length mac = 6 \<Longrightarrow> rd_bytes (icmp_swapped m mac) 6 6 = mac"
  "rd_bytes (icmp_swapped m mac) 26 4 = rd_bytes m 30 4"
  "rd_bytes (icmp_swapped m mac) 30 4 = rd_bytes m 26 4"
  "length mac = 6 \<Longrightarrow> icmp_swapped m mac 14 = m 14" "length mac = 6 \<Longrightarrow> rd16 (icmp_swapped m mac) 16 = rd16 m 16"
  "rd16 (icmp_swapped m mac) 24 = 0"
  "length mac = 6 \<Longrightarrow> 34 \<le> i \<Longrightarrow> icmp_swapped m mac i = m i"
  by (simp_all add: icmp_swapped_def packet_simps)

lemma icmp_reply_shape:
  fixes icmp_len
  assumes "net_ok s" and "m icmp = 8"
  defines "m5 \<equiv> icmp_swapped m (my_mac s)"
  defines "m7 \<equiv> wr8 icmp 0 (wr16 24 (calculate_checksum m5 14 (int (ip_ihl m * 4))) m5)"
  defines "m9 \<equiv> wr16 (icmp + 2) (calculate_checksum (wr16 (icmp + 2) 0 m7) icmp icmp_len) m7"
  shows "net_handle_icmp icmp icmp_len m s = (m9, net_send_packet (rd_bytes m9 0 (14 + unat (ntohs (rd16 m9 16)))) s)"
proof -
  have l: "length (my_mac s) = 6" using assms(1) by (simp add: net_ok_def)
  have "ip_ihl m5 = ip_ihl m" using icmp_swapped_reads(5) [OF l] by (simp add: m5_def ip_ihl_def)
  moreover have "m5 = wr16 24 0 (wr_bytes 26 (rd_bytes (wr_bytes 6 (take 6 (my_mac s)) (wr_bytes 0 (rd_bytes m 6 6) m)) 30 4)
     (wr_bytes 30 (rd_bytes (wr_bytes 6 (take 6 (my_mac s)) (wr_bytes 0 (rd_bytes m 6 6) m)) 26 4)
       (wr_bytes 6 (take 6 (my_mac s)) (wr_bytes 0 (rd_bytes m 6 6) m))))"
    using l by (simp add: m5_def icmp_swapped_def packet_simps)
  ultimately show ?thesis using assms(2)
    by (simp only: net_handle_icmp_def Let_def m9_def m7_def simp_thms if_True wr16_wr16)
qed

text \<open>
  an echo request is answered with the packet itself: hardware and IP addresses exchanged,
  type 0, everything behind the ICMP checksum as received, and both checksums, of the IP header
  and of the ICMP message, verifying to zero.
\<close>

theorem net_handle_icmp_reply:
  assumes ok: "net_ok s" "nic_send s" and req: "m icmp = 8"
    and hdr: "icmp = 14 + 4 * ip_ihl m" "5 \<le> ip_ihl m" and len: "4 \<le> icmp_len" "icmp_len \<le> 65535"
  shows "\<exists>m'. net_handle_icmp icmp icmp_len m s =
      (m', s\<lparr>sent := sent s @ [rd_bytes m' 0 (14 + unat (ntohs (rd16 m 16)))]\<rparr>) \<and>
    rd_bytes m' 0 6 = rd_bytes m 6 6 \<and> rd_bytes m' 6 6 = my_mac s \<and>
    rd_bytes m' 26 4 = rd_bytes m 30 4 \<and> rd_bytes m' 30 4 = rd_bytes m 26 4 \<and>
    m' icmp = 0 \<and> (\<forall>i \<ge> icmp + 4. m' i = m i) \<and>
    calculate_checksum m' 14 (int (4 * ip_ihl m)) = 0 \<and> calculate_checksum m' icmp icmp_len = 0"
proof -
  have l: "length (my_mac s) = 6" using ok(1) by (simp add: net_ok_def)
  have ic: "34 \<le> icmp" using hdr by simp
  define m5 where "m5 = icmp_swapped m (my_mac s)"
  define m6 where "m6 = wr16 24 (calculate_checksum m5 14 (int (ip_ihl m * 4))) m5"
  define m7 where "m7 = wr8 icmp 0 m6"
  define m9 where "m9 = wr16 (icmp + 2) (calculate_checksum (wr16 (icmp + 2) 0 m7) icmp icmp_len) m7"
  note r5 = icmp_swapped_reads [where mac = "my_mac s" and m = m, folded m5_def]
  have cut: "rd_bytes m9 p n = rd_bytes m6 p n" if "p + n \<le> 34" for p n
    using that ic by (simp add: m9_def m7_def packet_simps)
  have low: "m9 i = m6 i" if "i < icmp" for i
    using that by (simp add: m9_def m7_def packet_simps)
  have a: "rd_bytes m9 0 6 = rd_bytes m 6 6" "rd_bytes m9 6 6 = my_mac s"
      "rd_bytes m9 26 4 = rd_bytes m 30 4" "rd_bytes m9 30 4 = rd_bytes m 26 4"
    using r5(1-4) l by (simp_all add: cut) (simp_all add: m6_def packet_simps)
  have t: "rd16 m9 16 = rd16 m 16"
  proof -
    have "rd16 m9 16 = rd16 m6 16" using low [of 16] low [of 17] ic by (simp add: rd16_def)
    then show ?thesis using r5(6) l by (simp add: m6_def packet_simps)
  qed
  have b: "m9 icmp = 0" by (simp add: m9_def m7_def packet_simps)
  have c: "m9 i = m i" if "icmp + 4 \<le> i" for i
    using that ic r5(8) [of i] l by (simp add: m9_def m7_def m6_def packet_simps)
  have d: "calculate_checksum m9 14 (int (4 * ip_ihl m)) = 0"
  proof -
    have "calculate_checksum m9 14 (int (4 * ip_ihl m)) = calculate_checksum m6 14 (int (4 * ip_ihl m))"
      by (rule checksum_cong) (use low hdr ihl_bound [of m] in auto)
    also have "m6 = wr16 24 (calculate_checksum (wr16 24 0 m5) 14 (int (4 * ip_ihl m))) m5"
      using wr16_same [OF r5(7)] by (simp add: m6_def mult.commute)
    also have "calculate_checksum \<dots> 14 (int (4 * ip_ihl m)) = 0"
      by (rule checksum_filled [of 24 14 5]) (use hdr ihl_bound [of m] in auto)
    finally show ?thesis .
  qed
  have e: "calculate_checksum m9 icmp icmp_len = 0"
    unfolding m9_def by (rule checksum_filled [of _ _ 1]) (use len in simp_all)
  have "net_handle_icmp icmp icmp_len m s = (m9, s\<lparr>sent := sent s @ [rd_bytes m9 0 (14 + unat (ntohs (rd16 m 16)))]\<rparr>)"
    using icmp_reply_shape [where icmp = icmp and icmp_len = icmp_len and m = m and s = s, OF ok(1) req] ok(2) t
    by (simp add: m9_def m7_def m6_def m5_def net_send_packet_def)
  then show ?thesis using a b c d e by (intro exI [of _ m9]) simp
qed

section \<open>UDP\<close>

lemma udp_datagram_length [simp]: "length (udp_datagram sp dp payload) = 8 + length payload"
  by (simp add: udp_datagram_def)

lemma net_send_udp_spec:
  assumes ok: "kheap_ok base (heap s)" and len: "length payload \<le> 4294967100"
  obtains s' where "net_send_udp dest_ip dest_port src_port payload s = Some s'" "net_frame base s s'"
    "sent s' = sent s \<or> sent s' = sent s @ (if nic_send s then [rd_bytes
       (ipv4_frame dest_ip 17 (udp_datagram src_port dest_port payload) s) 0 (42 + length payload)] else [])"
proof -
  define n :: u32 where "n = of_nat (8 + length payload)"
  have un: "unat n = 8 + length payload" unfolding n_def by (rule unat_of_nat_u32) (use len in simp)
  have "n \<noteq> 0" using un by (metis add_is_0 unsigned_0 zero_neq_numeral)
  moreover have "unat n \<le> 4294967276" using un len by simp
  ultimately show ?thesis
  proof (rule scratch_frame [OF ok])
    assume "kalloc n s = Some (0, s)"
    then show ?thesis using that [of s] net_frame_refl [OF ok] by (simp add: net_send_udp_def n_def)
  next
    fix p h
    assume a: "kalloc n s = Some (p, s\<lparr>heap := h\<rparr>)" "p \<noteq> 0" "kheap_ok base h"
      and fr: "\<And>s'. net_frame base (s\<lparr>heap := h\<rparr>) s' \<Longrightarrow> net_frame base s (krelease p s')"
    have h: "kheap_ok base (heap (s\<lparr>heap := h\<rparr>))" using a(3) by simp
    let ?d = "udp_datagram src_port dest_port payload"
    show ?thesis
    proof (rule net_send_ipv4_spec [OF h, of ?d dest_ip 17])
      show "length ?d \<le> 4294967200" using len by simp
    next
      assume "net_send_ipv4 dest_ip 17 ?d (s\<lparr>heap := h\<rparr>) = Some (s\<lparr>heap := h\<rparr>)"
      then show ?thesis
        using that [of "krelease p (s\<lparr>heap := h\<rparr>)"] fr [OF net_frame_refl [OF h]] a(1,2)
        by (simp add: net_send_udp_def n_def)
    next
      fix s' assume "net_send_ipv4 dest_ip 17 ?d (s\<lparr>heap := h\<rparr>) = Some s'" "net_frame base (s\<lparr>heap := h\<rparr>) s'"
        "sent s' = sent (s\<lparr>heap := h\<rparr>) @ (if nic_send (s\<lparr>heap := h\<rparr>) then [rd_bytes (ipv4_frame dest_ip 17 ?d (s\<lparr>heap := h\<rparr>)) 0 (34 + length ?d)] else [])"
      then show ?thesis using that [of "krelease p s'"] fr [of s'] a(1,2) by (simp add: net_send_udp_def n_def)
    qed
  qed
qed

text \<open>
  sending a datagram ends and gives both its buffers back. When they could be allocated
  and a driver is registered, exactly one frame goes out, an IPv4 packet of protocol 17 for the
  requested host that carries the ports and the length in network order, a zero checksum and
  the payload.
\<close>

theorem net_send_udp_correct:
  assumes "kheap_ok base (heap s)" and "net_ok s" and "length dest_ip = 4" and "length payload \<le> 65507" and "nic_send s"
  shows "\<exists>s'. net_send_udp dest_ip dest_port src_port payload s = Some s' \<and> net_frame base s s' \<and>
    (sent s' = sent s \<or> (\<exists>m. sent s' = sent s @ [rd_bytes m 0 (42 + length payload)] \<and>
       ntohs (rd16 m 12) = ETH_TYPE_IPV4 \<and> m 23 = 17 \<and> rd_bytes m 26 4 = my_ip s \<and> rd_bytes m 30 4 = dest_ip \<and>
       unat (ntohs (rd16 m 16)) = 28 + length payload \<and> calculate_checksum m 14 20 = 0 \<and>
       rd_bytes m 34 (8 + length payload) = udp_datagram src_port dest_port payload))"
proof -
  let ?d = "udp_datagram src_port dest_port payload"
  let ?m = "ipv4_frame dest_ip 17 ?d s"
  note f = ipv4_frame_fields [OF assms(2,3), of 17 ?d] and c = ipv4_frame_checksum [OF assms(2,3), of 17 ?d]
  have "unat (ntohs (rd16 ?m 16)) = 28 + length payload"
    unfolding f(5) using assms(4) by (subst unat_of_nat_u16) simp_all
  moreover have "length payload \<le> 4294967100" using assms(4) by simp
  ultimately show ?thesis
    using f c assms(5) by (rule_tac net_send_udp_spec [OF assms(1), of payload dest_ip dest_port src_port]) auto
qed

section \<open>Instances\<close>

text \<open>A host on the fresh heap, and an echo request with an 8-byte ICMP message for it.\<close>

definition demo_net :: net where
  "demo_net = \<lparr>heap = heap_demo, eflags = 2, tasks = (\<lambda>_. blank_task), current_task = 0, task_list = 0,
     next_pid = 1, tss_esp0 = 0, stack_mem = (\<lambda>_. 0), shell_active = 0, nodes = (\<lambda>_. zero_node),
     my_mac = [0x52, 0x54, 0, 0x12, 0x34, 0x56], my_ip = [10, 0, 2, 15], gateway_mac = broadcast_mac,
     udp_sockets = replicate 16 \<lparr>local_port = 0, callback = 0, in_use = 0\<rparr>, nic_send = True, ipv4_id_counter = 0,
     sent = [], udp_calls = []\<rparr>"

lemma demo_net_ok: "net_ok demo_net" "nic_send demo_net" "kheap_ok 0xC0400000 (heap demo_net)"
  using heap_demo_inv by (auto simp: demo_net_def net_ok_def broadcast_mac_def kheap_ok_def)

theorem net_send_ipv4_correct_witness:
  "\<exists>s'. net_send_ipv4 [10, 0, 2, 2] 17 [1, 2, 3] demo_net = Some s' \<and> net_frame 0xC0400000 demo_net s'"
  using net_send_ipv4_correct [OF demo_net_ok(3,1) _ _ demo_net_ok(2), of "[10, 0, 2, 2]" "[1, 2, 3]" 17] by auto

theorem net_send_udp_correct_witness:
  "\<exists>s'. net_send_udp [10, 0, 2, 2] 1234 5000 [1, 2, 3] demo_net = Some s' \<and> net_frame 0xC0400000 demo_net s'"
  using net_send_udp_correct [OF demo_net_ok(3,1) _ _ demo_net_ok(2), of "[10, 0, 2, 2]" "[1, 2, 3]" 1234 5000] by auto

definition arp_query :: mem where
  "arp_query = wr_bytes 38 [10, 0, 2, 15] (wr16 20 (htons 1) (\<lambda>_. 0))"

theorem net_handle_arp_correct_witness:
  "\<exists>m'. net_handle_arp arp_query demo_net = (m', demo_net\<lparr>sent := [rd_bytes m' 0 42]\<rparr>) \<and> ntohs (rd16 m' 20) = 2"
proof -
  have "ntohs (rd16 arp_query 20) = 1 \<and> rd_bytes arp_query 38 4 = my_ip demo_net"
    by (simp add: arp_query_def packet_simps demo_net_def)
  then show ?thesis using net_handle_arp_correct [OF demo_net_ok(1,2), of arp_query] by (auto simp: demo_net_def)
qed

definition ping :: mem where
  "ping = wr8 34 8 (wr8 14 0x45 (\<lambda>_. 0))"

theorem net_handle_icmp_reply_witness:
  "\<exists>m'. net_handle_icmp 34 8 ping demo_net = (m', demo_net\<lparr>sent := sent demo_net @ [rd_bytes m' 0 (14 + unat (ntohs (rd16 ping 16)))]\<rparr>) \<and>
     m' 34 = 0 \<and> calculate_checksum m' 34 8 = 0"
proof -
  have "ping 34 = 8" "ip_ihl ping = 5" by (simp_all add: ping_def packet_simps ip_ihl_def)
  then have "\<exists>m'. net_handle_icmp 34 8 ping demo_net =
      (m', demo_net\<lparr>sent := sent demo_net @ [rd_bytes m' 0 (14 + unat (ntohs (rd16 ping 16)))]\<rparr>) \<and>
    rd_bytes m' 0 6 = rd_bytes ping 6 6 \<and> rd_bytes m' 6 6 = my_mac demo_net \<and>
    rd_bytes m' 26 4 = rd_bytes ping 30 4 \<and> rd_bytes m' 30 4 = rd_bytes ping 26 4 \<and>
    m' 34 = 0 \<and> (\<forall>i \<ge> 34 + 4. m' i = ping i) \<and>
    calculate_checksum m' 14 (int (4 * ip_ihl ping)) = 0 \<and> calculate_checksum m' 34 8 = 0"
    by (intro net_handle_icmp_reply [OF demo_net_ok(1,2)]) simp_all
  then show ?thesis by blast
qed

end
