(* ===== verification/Tcp.thy ===== *)
theory Tcp
  imports Net Ring
begin

text \<open>
  TCP, \<open>kernel/net/tcp.c\<close>, and the socket table it delivers to (the data part of
  \<open>include/socket.h\<close>). Control blocks are heap objects in a store from addresses to records,
  sockets are entries of a table, and a socket's receive buffer is the memory behind its
  buffer pointer. The value None stands for a run that does not go on: a write through a null
  pointer or past the end of an allocated buffer.
\<close>

section \<open>State\<close>

datatype tcp_state =
    TCP_CLOSED | TCP_LISTEN | TCP_SYN_SENT | TCP_SYN_RECEIVED | TCP_ESTABLISHED | TCP_FIN_WAIT_1
  | TCP_FIN_WAIT_2 | TCP_CLOSE_WAIT | TCP_CLOSING | TCP_LAST_ACK | TCP_TIME_WAIT

definition TCP_FIN :: u8 where "TCP_FIN = 1"
definition TCP_SYN :: u8 where "TCP_SYN = 2"
definition TCP_RST :: u8 where "TCP_RST = 4"
definition TCP_PSH :: u8 where "TCP_PSH = 8"
definition TCP_ACK :: u8 where "TCP_ACK = 16"

lemmas tcp_flags = TCP_FIN_def TCP_SYN_def TCP_RST_def TCP_PSH_def TCP_ACK_def

record tcp_pcb =
  local_ip :: u32
  remote_ip :: u32
  pcb_local_port :: u16
  pcb_remote_port :: u16
  pcb_state :: tcp_state
  snd_nxt :: u32
  rcv_nxt :: u32
  window_size :: u16
  pcb_socket :: "nat option"

record socket =
  s_domain :: int
  s_type :: int
  s_protocol :: int
  s_local_port :: u16
  s_local_addr :: u32
  s_remote_port :: u16
  s_remote_addr :: u32
  s_buffer :: u32
  buffer_head :: u32
  buffer_tail :: u32
  buffer_len :: u32
  waiting_task :: u32
  s_tcp_pcb :: u32
  s_in_use :: int

record tcpip = net +
  tcp_pcbs :: "u32 list"
  pcbs :: "u32 \<Rightarrow> tcp_pcb"
  next_port :: u16
  sockets :: "socket list"
  sock_bufs :: "u32 \<Rightarrow> mem"

definition MAX_TCP_PCBS :: nat where "MAX_TCP_PCBS = 16"

definition upd_pcb :: "u32 \<Rightarrow> (tcp_pcb \<Rightarrow> tcp_pcb) \<Rightarrow> 'a tcpip_scheme \<Rightarrow> 'a tcpip_scheme" where
  "upd_pcb p f s = s\<lparr>pcbs := (pcbs s)(p := f (pcbs s p))\<rparr>"

definition upd_socket :: "nat \<Rightarrow> (socket \<Rightarrow> socket) \<Rightarrow> 'a tcpip_scheme \<Rightarrow> 'a tcpip_scheme" where
  "upd_socket i f s = s\<lparr>sockets := (sockets s)[i := f (sockets s ! i)]\<rparr>"

text \<open>The receive buffer of a socket as a ring, and its update.\<close>

definition sock_ring :: "nat \<Rightarrow> 'a tcpip_scheme \<Rightarrow> ring" where
  "sock_ring i s = (let k = sockets s ! i in
     \<lparr>rbuf = sock_bufs s (s_buffer k), rhead = buffer_head k, rtail = buffer_tail k, rlen = buffer_len k\<rparr>)"

definition set_ring :: "nat \<Rightarrow> ring \<Rightarrow> 'a tcpip_scheme \<Rightarrow> 'a tcpip_scheme" where
  "set_ring i r s = (upd_socket i (\<lambda>k. k\<lparr>buffer_head := rhead r, buffer_tail := rtail r, buffer_len := rlen r\<rparr>) s)
     \<lparr>sock_bufs := (sock_bufs s)(s_buffer (sockets s ! i) := rbuf r)\<rparr>"

section \<open>Operations\<close>

definition tcp_init :: "'a tcpip_scheme \<Rightarrow> 'a tcpip_scheme" where
  "tcp_init s = s\<lparr>tcp_pcbs := replicate MAX_TCP_PCBS 0\<rparr>"

definition sizeof_pcb :: u32 where "sizeof_pcb = 32"

definition new_pcb :: tcp_pcb where
  "new_pcb = \<lparr>local_ip = 0, remote_ip = 0, pcb_local_port = 0, pcb_remote_port = 0, pcb_state = TCP_CLOSED,
     snd_nxt = 0, rcv_nxt = 0, window_size = 4096, pcb_socket = None\<rparr>"

definition tcp_new_pcb :: "'a tcpip_scheme \<Rightarrow> (u32 \<times> 'a tcpip_scheme) option" where
  "tcp_new_pcb s =
     (case find_index (\<lambda>i. tcp_pcbs s ! i = 0) 0 MAX_TCP_PCBS of
        Some i \<Rightarrow> do {
          (pcb, s1) \<leftarrow> kalloc_deref sizeof_pcb s;
          Some (pcb, (upd_pcb pcb (\<lambda>_. new_pcb) s1)\<lparr>tcp_pcbs := (tcp_pcbs s1)[i := pcb]\<rparr>)
        }
      | None \<Rightarrow> Some (0, s))"

text \<open>The words of the pseudo header: both addresses as stored, protocol and length swapped.\<close>

definition pseudo_sum :: "u8 list \<Rightarrow> u8 list \<Rightarrow> u8 \<Rightarrow> u16 \<Rightarrow> u32" where
  "pseudo_sum src_ip dest_ip protocol len =
     ucast (le16 (src_ip ! 0) (src_ip ! 1)) + ucast (le16 (src_ip ! 2) (src_ip ! 3)) +
     ucast (le16 (dest_ip ! 0) (dest_ip ! 1)) + ucast (le16 (dest_ip ! 2) (dest_ip ! 3)) +
     ucast (htons (ucast protocol)) + ucast (htons len)"

definition tcp_checksum :: "u8 list \<Rightarrow> u8 list \<Rightarrow> u8 \<Rightarrow> mem \<Rightarrow> nat \<Rightarrow> u16 \<Rightarrow> u16" where
  "tcp_checksum src_ip dest_ip protocol m p len =
     NOT (ucast (cksum_fold (cksum_words m p (unat len) (pseudo_sum src_ip dest_ip protocol len))))"

text \<open>The header with a zero checksum, followed by the data.\<close>

definition tcp_segment :: "tcp_pcb \<Rightarrow> u8 \<Rightarrow> u8 list \<Rightarrow> u8 list" where
  "tcp_segment pcb flags data =
     bytes16 (htons (pcb_local_port pcb)) @ bytes16 (htons (pcb_remote_port pcb)) @
     bytes32 (htonl (snd_nxt pcb)) @ bytes32 (htonl (rcv_nxt pcb)) @ [0x50, flags] @
     bytes16 (htons (window_size pcb)) @ bytes16 0 @ bytes16 0 @ data"

text \<open>
  The length of a segment is kept in 16 bits; when it wraps, the copy of the data runs past
  the buffer.
\<close>

definition tcp_send_segment :: "u32 \<Rightarrow> u8 \<Rightarrow> u8 list \<Rightarrow> 'a tcpip_scheme \<Rightarrow> 'a tcpip_scheme option" where
  "tcp_send_segment p flags data s = do {
     let pcb = pcbs s p;
     let total_len = 20 + (of_nat (length data) :: u16);
     (buffer, s1) \<leftarrow> kalloc_deref (ucast total_len) s;
     if unat total_len < 20 + length data then None
     else do {
       let m = buf_mem (tcp_segment pcb flags data);
       let c = tcp_checksum (bytes32 (local_ip pcb)) (bytes32 (remote_ip pcb)) 6 m 0 total_len;
       let m1 = wr16 16 c m;
       s2 \<leftarrow> net_send_ipv4 (bytes32 (remote_ip pcb)) 6 (rd_bytes m1 0 (unat total_len)) s1;
       let s3 = (if flags AND (TCP_SYN OR TCP_FIN) \<noteq> 0 then upd_pcb p (\<lambda>q. q\<lparr>snd_nxt := snd_nxt q + 1\<rparr>) s2 else s2);
       let s4 = upd_pcb p (\<lambda>q. q\<lparr>snd_nxt := snd_nxt q + of_nat (length data)\<rparr>) s3;
       Some (krelease buffer s4)
     }
   }"

definition tcp_get_free_port :: "'a tcpip_scheme \<Rightarrow> u16 \<times> 'a tcpip_scheme" where
  "tcp_get_free_port s =
     (let port = next_port s; n = port + 1
      in (port, s\<lparr>next_port := (if n > 60000 then 10000 else n)\<rparr>))"

definition set_pcb_state :: "u32 \<Rightarrow> tcp_state \<Rightarrow> 'a tcpip_scheme \<Rightarrow> 'a tcpip_scheme" where
  "set_pcb_state p st = upd_pcb p (\<lambda>q. q\<lparr>pcb_state := st\<rparr>)"

definition tcp_close :: "u32 \<Rightarrow> 'a tcpip_scheme \<Rightarrow> 'a tcpip_scheme option" where
  "tcp_close p s =
     (if p = 0 then Some s
      else if pcb_state (pcbs s p) = TCP_ESTABLISHED then do {
        s1 \<leftarrow> tcp_send_segment p (TCP_FIN OR TCP_ACK) [] s;
        Some (set_pcb_state p TCP_FIN_WAIT_1 s1)
      }
      else if pcb_state (pcbs s p) = TCP_CLOSE_WAIT then do {
        s1 \<leftarrow> tcp_send_segment p (TCP_FIN OR TCP_ACK) [] s;
        Some (set_pcb_state p TCP_LAST_ACK s1)
      }
      else Some (set_pcb_state p TCP_CLOSED s))"

text \<open>Waking the task that waits on a socket.\<close>

definition wake_socket :: "nat \<Rightarrow> 'a tcpip_scheme \<Rightarrow> 'a tcpip_scheme" where
  "wake_socket i s =
     (let w = waiting_task (sockets s ! i)
      in if w \<noteq> 0 then upd_socket i (\<lambda>k. k\<lparr>waiting_task := 0\<rparr>) (upd_task w (\<lambda>t. t\<lparr>tstate := TASK_READY\<rparr>) s) else s)"

definition wake_pcb :: "u32 \<Rightarrow> 'a tcpip_scheme \<Rightarrow> 'a tcpip_scheme" where
  "wake_pcb p s = (case pcb_socket (pcbs s p) of Some i \<Rightarrow> wake_socket i s | None \<Rightarrow> s)"

definition tcp_match :: "u16 \<Rightarrow> u16 \<Rightarrow> u8 list \<Rightarrow> 'a tcpip_scheme \<Rightarrow> nat \<Rightarrow> bool" where
  "tcp_match dest_port src_port src_ip s i =
     (let q = tcp_pcbs s ! i in q \<noteq> 0 \<and> pcb_local_port (pcbs s q) = dest_port \<and>
       (pcb_state (pcbs s q) = TCP_LISTEN \<or>
        pcb_remote_port (pcbs s q) = src_port \<and> memcmp (bytes32 (remote_ip (pcbs s q))) src_ip 4 = 0))"

text \<open>The release of a closed connection.\<close>

definition free_pcb :: "u32 \<Rightarrow> nat \<Rightarrow> 'a tcpip_scheme \<Rightarrow> 'a tcpip_scheme" where
  "free_pcb p i s = (krelease p (set_pcb_state p TCP_CLOSED s))\<lparr>tcp_pcbs := (tcp_pcbs s)[i := 0]\<rparr>"

definition tcp_listen_input :: "u32 \<Rightarrow> u8 \<Rightarrow> u16 \<Rightarrow> u8 list \<Rightarrow> u32 \<Rightarrow> 'a tcpip_scheme \<Rightarrow> 'a tcpip_scheme option" where
  "tcp_listen_input p flags src_port src_ip seq s =
     (if flags AND TCP_SYN \<noteq> 0 then
        tcp_send_segment p (TCP_SYN OR TCP_ACK) []
          (upd_pcb p (\<lambda>q. q\<lparr>pcb_remote_port := src_port,
             remote_ip := le32 (src_ip ! 0) (src_ip ! 1) (src_ip ! 2) (src_ip ! 3),
             rcv_nxt := seq + 1, pcb_state := TCP_SYN_RECEIVED\<rparr>) s)
      else Some s)"

definition tcp_syn_sent_input :: "u32 \<Rightarrow> u8 \<Rightarrow> u32 \<Rightarrow> 'a tcpip_scheme \<Rightarrow> 'a tcpip_scheme option" where
  "tcp_syn_sent_input p flags seq s =
     (if flags AND (TCP_SYN OR TCP_ACK) = TCP_SYN OR TCP_ACK then do {
        s1 \<leftarrow> tcp_send_segment p TCP_ACK [] (upd_pcb p (\<lambda>q. q\<lparr>rcv_nxt := seq + 1, pcb_state := TCP_ESTABLISHED\<rparr>) s);
        Some (wake_pcb p s1)
      } else Some s)"

text \<open>
  Data for an established connection; \<open>data\<close> are the bytes behind the header. The segment
  is taken as a whole or not at all.
\<close>

definition tcp_data_input :: "u32 \<Rightarrow> u32 \<Rightarrow> u8 list \<Rightarrow> 'a tcpip_scheme \<Rightarrow> 'a tcpip_scheme option" where
  "tcp_data_input p seq data s =
     (case pcb_socket (pcbs s p) of
        Some i \<Rightarrow>
          (if buffer_len (sockets s ! i) + of_nat (length data) \<le> SOCKET_BUFFER_SIZE then
             if s_buffer (sockets s ! i) = 0 then None else do {
             let r = fold (\<lambda>b r. (ring_push b r)\<lparr>rlen := rlen r + 1\<rparr>) data (sock_ring i s);
             let s1 = upd_pcb p (\<lambda>q. q\<lparr>rcv_nxt := seq + of_nat (length data)\<rparr>) (set_ring i r s);
             s2 \<leftarrow> tcp_send_segment p TCP_ACK [] s1;
             Some (wake_socket i s2)
           } else Some s)
      | None \<Rightarrow> Some s)"

definition tcp_established_input :: "u32 \<Rightarrow> u8 \<Rightarrow> u32 \<Rightarrow> nat \<Rightarrow> u8 list \<Rightarrow> 'a tcpip_scheme \<Rightarrow> 'a tcpip_scheme option" where
  "tcp_established_input p flags seq hlen sgm s =
     (if flags AND TCP_FIN \<noteq> 0 then do {
        s1 \<leftarrow> tcp_send_segment p TCP_ACK [] (upd_pcb p (\<lambda>q. q\<lparr>rcv_nxt := seq + 1\<rparr>) s);
        Some (wake_pcb p (set_pcb_state p TCP_CLOSE_WAIT s1))
      }
      else if length sgm > hlen then tcp_data_input p seq (drop hlen sgm) s
      else Some s)"

definition tcp_fin_wait_1_input :: "u32 \<Rightarrow> u8 \<Rightarrow> u32 \<Rightarrow> 'a tcpip_scheme \<Rightarrow> 'a tcpip_scheme option" where
  "tcp_fin_wait_1_input p flags seq s = do {
     let s1 = (if flags AND TCP_ACK \<noteq> 0 then set_pcb_state p TCP_FIN_WAIT_2 s else s);
     if flags AND TCP_FIN \<noteq> 0 then do {
       s2 \<leftarrow> tcp_send_segment p TCP_ACK [] (upd_pcb p (\<lambda>q. q\<lparr>rcv_nxt := seq + 1\<rparr>) s1);
       Some (set_pcb_state p (if pcb_state (pcbs s2 p) = TCP_FIN_WAIT_2 then TCP_TIME_WAIT else TCP_CLOSING) s2)
     } else Some s1
   }"

definition tcp_fin_wait_2_input :: "u32 \<Rightarrow> nat \<Rightarrow> u8 \<Rightarrow> u32 \<Rightarrow> 'a tcpip_scheme \<Rightarrow> 'a tcpip_scheme option" where
  "tcp_fin_wait_2_input p i flags seq s =
     (if flags AND TCP_FIN \<noteq> 0 then do {
        s1 \<leftarrow> tcp_send_segment p TCP_ACK [] (upd_pcb p (\<lambda>q. q\<lparr>rcv_nxt := seq + 1\<rparr>) s);
        Some (free_pcb p i (set_pcb_state p TCP_TIME_WAIT s1))
      } else Some s)"

definition tcp_last_ack_input :: "u32 \<Rightarrow> nat \<Rightarrow> u8 \<Rightarrow> 'a tcpip_scheme \<Rightarrow> 'a tcpip_scheme option" where
  "tcp_last_ack_input p i flags s = (if flags AND TCP_ACK \<noteq> 0 then Some (free_pcb p i s) else Some s)"

text \<open>The state machine: control block \<open>p\<close> of slot \<open>i\<close> receives a segment.\<close>

definition tcp_dispatch ::
    "u32 \<Rightarrow> nat \<Rightarrow> u8 \<Rightarrow> u16 \<Rightarrow> u8 list \<Rightarrow> u32 \<Rightarrow> nat \<Rightarrow> u8 list \<Rightarrow> 'a tcpip_scheme \<Rightarrow> 'a tcpip_scheme option" where
  "tcp_dispatch p i flags src_port src_ip seq hlen sgm s =
     (case pcb_state (pcbs s p) of
        TCP_LISTEN \<Rightarrow> tcp_listen_input p flags src_port src_ip seq s
      | TCP_SYN_SENT \<Rightarrow> tcp_syn_sent_input p flags seq s
      | TCP_SYN_RECEIVED \<Rightarrow> Some (if flags AND TCP_ACK \<noteq> 0 then set_pcb_state p TCP_ESTABLISHED s else s)
      | TCP_ESTABLISHED \<Rightarrow> tcp_established_input p flags seq hlen sgm s
      | TCP_FIN_WAIT_1 \<Rightarrow> tcp_fin_wait_1_input p flags seq s
      | TCP_FIN_WAIT_2 \<Rightarrow> tcp_fin_wait_2_input p i flags seq s
      | TCP_LAST_ACK \<Rightarrow> tcp_last_ack_input p i flags s
      | _ \<Rightarrow> Some s)"

text \<open>
  \<open>tcp_input\<close>: \<open>src_ip\<close> is the source address of the IP header, \<open>t\<close> the offset of the TCP
  header in the packet and \<open>len\<close> the length of the segment as the IP header gives it.
\<close>

definition tcp_input :: "u8 list \<Rightarrow> nat \<Rightarrow> u16 \<Rightarrow> mem \<Rightarrow> 'a tcpip_scheme \<Rightarrow> 'a tcpip_scheme option" where
  "tcp_input src_ip t len m s =
     (let src_port = ntohs (rd16 m t); dest_port = ntohs (rd16 m (t + 2)); seq = ntohl (rd32 m (t + 4))
      in case find_index (tcp_match dest_port src_port src_ip s) 0 MAX_TCP_PCBS of
           None \<Rightarrow> Some s
         | Some i \<Rightarrow> tcp_dispatch (tcp_pcbs s ! i) i (m (t + 13)) src_port src_ip seq
             (4 * unat (drop_bit 4 (m (t + 12)))) (rd_bytes m t (unat len)) s)"

section \<open>The checksum\<close>

lemma pseudo_sum_le: "unat (pseudo_sum a b p l) \<le> 393210"
proof -
  have u: "unat (ucast (x :: u16) :: u32) \<le> 65535" for x
    using unat_lt_u16 [of x] by (simp add: unsigned_ucast_eq take_bit_eq_mod del: unat_lt_u16)
  have add: "unat (x + y :: u32) \<le> m + n" if "unat x \<le> m" "unat y \<le> n" for x y m n
  proof -
    have "unat (x + y) \<le> unat x + unat y" unfolding unat_word_ariths(1) by (rule mod_less_eq_dividend)
    then show ?thesis using that by linarith
  qed
  show ?thesis unfolding pseudo_sum_def
    using add [OF add [OF add [OF add [OF add [OF u u] u] u] u] u] by simp
qed

lemma unat_tcp_checksum:
  "unat (tcp_checksum a b pr m p len) =
     65535 - oc_norm (unat (pseudo_sum a b pr len) + sum_list (ck_words m p (unat len)))"
proof -
  let ?S = "unat (pseudo_sum a b pr len) + sum_list (ck_words m p (unat len))"
  let ?f = "cksum_fold (cksum_words m p (unat len) (pseudo_sum a b pr len))"
  have "(unat len + 1) div 2 \<le> 32768" using unat_lt_u16 [of len] by linarith
  then have "?S < 4294967296"
    using ck_words_sum_le [of m p "unat len"] pseudo_sum_le [of a b pr len] by linarith
  then have f: "unat ?f = oc_norm ?S" by (simp add: unat_cksum_fold unat_cksum_words)
  then have "unat (ucast ?f :: u16) = oc_norm ?S"
    using oc_norm_le [of ?S] by (simp add: unsigned_ucast_eq take_bit_eq_mod)
  moreover have "unat (NOT x) = 65535 - unat x" for x :: u16
  proof -
    have "NOT x = - 1 - x" by (simp add: not_eq_complement)
    also have "unat \<dots> = 65535 - unat x"
      by (subst unat_sub) (simp_all add: unsigned_minus_1_eq_mask mask_eq_exp_minus_1)
    finally show ?thesis .
  qed
  ultimately show ?thesis by (simp add: tcp_checksum_def)
qed

lemma tcp_checksum_filled:
  assumes "q = p + 2 * k" and "2 * k + 1 < unat len" and "rd16 m q = 0"
  shows "tcp_checksum a b pr (wr16 q (tcp_checksum a b pr m p len) m) p len = 0"
proof -
  let ?c = "tcp_checksum a b pr m p len" and ?P = "unat (pseudo_sum a b pr len)"
  let ?S = "sum_list (ck_words m p (unat len))"
  have "sum_list (ck_words (wr16 q ?c m) p (unat len)) = unat ?c + ?S"
    using ck_sum_wr16 [OF assms(2), of p ?c m] wr16_same [OF assms(3)] by (simp add: assms(1))
  then have "?P + sum_list (ck_words (wr16 q ?c m) p (unat len)) = (?P + ?S) + (65535 - oc_norm (?P + ?S))"
    using unat_tcp_checksum [of a b pr m p len] by simp
  then have "unat (tcp_checksum a b pr (wr16 q ?c m) p len) = 0"
    by (simp only: unat_tcp_checksum oc_norm_full)
  then show ?thesis by (simp only: unat_eq_zero)
qed

section \<open>Sending a segment\<close>

lemma upd_pcb_sel [simp]:
  "pcbs (upd_pcb p f s) = (pcbs s)(p := f (pcbs s p))" "heap (upd_pcb p f s) = heap s" "sent (upd_pcb p f s) = sent s"
  "sockets (upd_pcb p f s) = sockets s" "tcp_pcbs (upd_pcb p f s) = tcp_pcbs s" "sock_bufs (upd_pcb p f s) = sock_bufs s"
  "tasks (upd_pcb p f s) = tasks s" "net_ok (upd_pcb p f s) = net_ok s" "nic_send (upd_pcb p f s) = nic_send s"
  by (simp_all add: upd_pcb_def net_ok_def)

lemma tcp_segment_length [simp]: "length (tcp_segment pcb flags data) = 20 + length data"
  by (simp add: tcp_segment_def)

text \<open>The segment as it is handed to IP, with its checksum.\<close>

definition filled_segment :: "tcp_pcb \<Rightarrow> u8 \<Rightarrow> u8 list \<Rightarrow> mem" where
  "filled_segment pcb flags data = (let m = buf_mem (tcp_segment pcb flags data) in
     wr16 16 (tcp_checksum (bytes32 (local_ip pcb)) (bytes32 (remote_ip pcb)) 6 m 0 (20 + of_nat (length data))) m)"

definition seq_inc :: "u8 \<Rightarrow> u8 list \<Rightarrow> u32" where
  "seq_inc flags data = (if flags AND (TCP_SYN OR TCP_FIN) \<noteq> 0 then 1 else 0) + of_nat (length data)"

lemma tcp_send_shape:
  assumes "length data \<le> 65515"
  shows "tcp_send_segment p flags data s = do {
     (buffer, s1) \<leftarrow> kalloc_deref (of_nat (20 + length data)) s;
     s2 \<leftarrow> net_send_ipv4 (bytes32 (remote_ip (pcbs s p))) 6 (rd_bytes (filled_segment (pcbs s p) flags data) 0 (20 + length data)) s1;
     Some (upd_pcb p (\<lambda>q. q\<lparr>snd_nxt := snd_nxt q + seq_inc flags data\<rparr>) (krelease buffer s2)) }"
proof -
  have un: "unat (20 + of_nat (length data) :: u16) = 20 + length data"
    using assms unat_of_nat_u16 [of "20 + length data"] by simp
  have uc: "ucast (20 + of_nat (length data) :: u16) = (of_nat (20 + length data) :: u32)"
    using un by (metis of_nat_unat)
  have k: "krelease b (upd_pcb p f (t :: 'a tcpip_scheme)) = upd_pcb p f (krelease b t)" for b f t
    by (simp add: krelease_def upd_pcb_def)
  have w: "upd_pcb p f (upd_pcb p g (t :: 'a tcpip_scheme)) = upd_pcb p (\<lambda>q. f (g q)) t" for f g t
    by (simp add: upd_pcb_def)
  show ?thesis
    unfolding tcp_send_segment_def Let_def un uc
    by (simp add: filled_segment_def Let_def seq_inc_def k w add.assoc split del: if_split)
      (auto simp: w k add.assoc intro!: Option.bind_cong)
qed

lemma tcp_send_keeps:
  assumes "tcp_send_segment p flags data s = Some s'" and "length data \<le> 65515"
  obtains h c out where
    "s' = upd_pcb p (\<lambda>q. q\<lparr>snd_nxt := snd_nxt q + seq_inc flags data\<rparr>) (s\<lparr>heap := h, ipv4_id_counter := c, sent := out\<rparr>)"
proof -
  let ?d = "bytes32 (remote_ip (pcbs s p))" and ?x = "rd_bytes (filled_segment (pcbs s p) flags data) 0 (20 + length data)"
  obtain b s1 s2 where a: "kalloc_deref (of_nat (20 + length data)) s = Some (b, s1)"
    "net_send_ipv4 ?d 6 ?x s1 = Some s2"
    "s' = upd_pcb p (\<lambda>q. q\<lparr>snd_nxt := snd_nxt q + seq_inc flags data\<rparr>) (krelease b s2)"
    using assms(1) unfolding tcp_send_shape [OF assms(2)] by (auto split: bind_splits)
  obtain h1 where s1: "s1 = s\<lparr>heap := h1\<rparr>"
    using a(1) by (auto simp: kalloc_deref_def kalloc_def split: bind_splits if_splits)
  obtain h2 c out where "s2 = s1\<lparr>heap := h2, ipv4_id_counter := c, sent := out\<rparr>"
    using net_send_ipv4_keeps [OF a(2)] by blast
  then have "krelease b s2 = s\<lparr>heap := kfree b h2, ipv4_id_counter := c, sent := out\<rparr>"
    using s1 by (simp add: krelease_def)
  then show ?thesis using that a(3) by simp
qed

lemma tcp_send_sel:
  assumes "tcp_send_segment p flags data s = Some s'" and "length data \<le> 65515"
  shows "pcbs s' = (pcbs s)(p := (pcbs s p)\<lparr>snd_nxt := snd_nxt (pcbs s p) + seq_inc flags data\<rparr>)"
    "tcp_pcbs s' = tcp_pcbs s" "sockets s' = sockets s" "sock_bufs s' = sock_bufs s" "tasks s' = tasks s"
    "nodes s' = nodes s" "net_ok s' = net_ok s"
  by (rule tcp_send_keeps [OF assms], simp add: net_ok_def upd_pcb_def)+

text \<open>With a well-formed heap a segment is sent, or the buffer cannot be allocated.\<close>

lemma tcp_send_ok:
  assumes ok: "kheap_ok base (heap s)" and len: "length data \<le> 65515"
    and room: "\<And>h. kmalloc (of_nat (20 + length data)) (heap s) \<noteq> Some (0, h)"
  obtains s' where "tcp_send_segment p flags data s = Some s'" "kheap_ok base (heap s')"
    "kheap_live base (heap s') = kheap_live base (heap s)"
    "sent s' = sent s \<or> sent s' = sent s @ (if nic_send s then [rd_bytes (ipv4_frame (bytes32 (remote_ip (pcbs s p))) 6
       (rd_bytes (filled_segment (pcbs s p) flags data) 0 (20 + length data)) s) 0 (54 + length data)] else [])"
proof -
  let ?d = "bytes32 (remote_ip (pcbs s p))" and ?x = "rd_bytes (filled_segment (pcbs s p) flags data) 0 (20 + length data)"
  define n :: u32 where "n = of_nat (20 + length data)"
  have un: "unat n = 20 + length data" unfolding n_def by (rule unat_of_nat_u32) (use len in simp)
  have n0: "n \<noteq> 0" using un by (metis add_is_0 unsigned_0 zero_neq_numeral)
  have n1: "unat n \<le> 4294967276" using un len by simp
  show ?thesis
  proof (rule scratch_frame [OF ok n0 n1])
    assume "kalloc n s = Some (0, s)"
    then have "\<exists>h. kmalloc n (heap s) = Some (0, h)" by (auto simp: kalloc_def)
    then show ?thesis using room by (auto simp: n_def)
  next
    fix b h
    assume k: "kalloc n s = Some (b, s\<lparr>heap := h\<rparr>)" "b \<noteq> 0" "kheap_ok base h"
      and fr: "\<And>s'. net_frame base (s\<lparr>heap := h\<rparr>) s' \<Longrightarrow> net_frame base s (krelease b s')"
    have h: "kheap_ok base (heap (s\<lparr>heap := h\<rparr>))" using k(3) by simp
    obtain s2 where s2: "net_send_ipv4 ?d 6 ?x (s\<lparr>heap := h\<rparr>) = Some s2" "net_frame base (s\<lparr>heap := h\<rparr>) s2"
      "sent s2 = sent s \<or> sent s2 = sent s @ (if nic_send s then [rd_bytes (ipv4_frame ?d 6 ?x s) 0 (54 + length data)] else [])"
    proof (rule net_send_ipv4_spec [OF h, of ?x ?d 6])
      show "length ?x \<le> 4294967200" using len by simp
    next
      assume "net_send_ipv4 ?d 6 ?x (s\<lparr>heap := h\<rparr>) = Some (s\<lparr>heap := h\<rparr>)"
      then show ?thesis using that [of "s\<lparr>heap := h\<rparr>"] net_frame_refl [OF h] by simp
    qed (rule that, auto)
    let ?s' = "upd_pcb p (\<lambda>q. q\<lparr>snd_nxt := snd_nxt q + seq_inc flags data\<rparr>) (krelease b s2)"
    have "tcp_send_segment p flags data s = Some ?s'"
      using k(1,2) s2(1) by (simp add: tcp_send_shape [OF len] kalloc_deref_def n_def)
    moreover have f: "net_frame base s (krelease b s2)" using fr s2(2) .
    ultimately show ?thesis using that [of ?s'] net_frame_sel(6,7) [OF f] s2(3) by simp
  qed
qed

lemma tcp_send_returns:
  "kheap_ok base (heap s) \<Longrightarrow> \<forall>h. kmalloc 20 (heap s) \<noteq> Some (0, h) \<Longrightarrow> \<exists>s'. tcp_send_segment p flags [] s = Some s'"
  by (rule tcp_send_ok [of base s "[]" p flags]) auto

section \<open>The state machine\<close>

text \<open>The transition table of the implementation, by the flags of the received segment.\<close>

definition tcp_next :: "u8 \<Rightarrow> tcp_state \<Rightarrow> tcp_state" where
  "tcp_next f st =
     (let syn = (f AND TCP_SYN \<noteq> 0); ack = (f AND TCP_ACK \<noteq> 0); fin = (f AND TCP_FIN \<noteq> 0)
      in case st of
           TCP_LISTEN \<Rightarrow> if syn then TCP_SYN_RECEIVED else st
         | TCP_SYN_SENT \<Rightarrow> if syn \<and> ack then TCP_ESTABLISHED else st
         | TCP_SYN_RECEIVED \<Rightarrow> if ack then TCP_ESTABLISHED else st
         | TCP_ESTABLISHED \<Rightarrow> if fin then TCP_CLOSE_WAIT else st
         | TCP_FIN_WAIT_1 \<Rightarrow> if fin then (if ack then TCP_TIME_WAIT else TCP_CLOSING) else if ack then TCP_FIN_WAIT_2 else st
         | TCP_FIN_WAIT_2 \<Rightarrow> if fin then TCP_CLOSED else st
         | TCP_LAST_ACK \<Rightarrow> if ack then TCP_CLOSED else st
         | _ \<Rightarrow> st)"

lemma syn_ack_bits: "(f :: u8) AND (TCP_SYN OR TCP_ACK) = TCP_SYN OR TCP_ACK \<longleftrightarrow> f AND TCP_SYN \<noteq> 0 \<and> f AND TCP_ACK \<noteq> 0"
proof -
  have s: "f AND 2 \<noteq> 0 \<longleftrightarrow> bit f 1" "f AND 16 \<noteq> 0 \<longleftrightarrow> bit f 4"
    using and_exp_eq_0_iff_not_bit [of f 1] and_exp_eq_0_iff_not_bit [of f 4] by simp_all
  have b: "bit (0x12 :: u8) n \<longleftrightarrow> n = 1 \<or> n = 4" for n
  proof -
    have e: "(0x12 :: u8) = 2 ^ 1 OR 2 ^ 4" by simp
    show ?thesis unfolding e bit_or_iff bit_exp_iff by auto
  qed
  have e: "(2 :: u8) OR 16 = 0x12" by simp
  have "f AND 0x12 = 0x12 \<longleftrightarrow> (\<forall>n. bit f n \<and> bit (0x12 :: u8) n \<longleftrightarrow> bit (0x12 :: u8) n)"
    unfolding bit_eq_iff [of "f AND 0x12"] bit_and_iff using impossible_bit by blast
  also have "\<dots> \<longleftrightarrow> bit f 1 \<and> bit f 4" unfolding b by blast
  finally show ?thesis unfolding tcp_flags s e .
qed

lemma set_pcb_state_sel [simp]:
  "pcbs (set_pcb_state p st s) = (pcbs s)(p := (pcbs s p)\<lparr>pcb_state := st\<rparr>)" "tcp_pcbs (set_pcb_state p st s) = tcp_pcbs s"
  by (simp_all add: set_pcb_state_def)

lemma wake_sel [simp]:
  "pcbs (wake_socket i s) = pcbs s" "tcp_pcbs (wake_socket i s) = tcp_pcbs s"
  "pcbs (wake_pcb p s) = pcbs s" "tcp_pcbs (wake_pcb p s) = tcp_pcbs s"
  by (simp_all add: wake_socket_def wake_pcb_def Let_def upd_socket_def upd_task_def split: option.split)

lemma free_pcb_sel [simp]:
  "pcbs (free_pcb p i s) = (pcbs s)(p := (pcbs s p)\<lparr>pcb_state := TCP_CLOSED\<rparr>)"
  "tcp_pcbs (free_pcb p i s) = (tcp_pcbs s)[i := 0]"
  by (simp_all add: free_pcb_def krelease_def)

lemma tcp_send_empty:
  "tcp_send_segment p flags [] s = Some s' \<Longrightarrow>
     pcbs s' = (pcbs s)(p := (pcbs s p)\<lparr>snd_nxt := snd_nxt (pcbs s p) + seq_inc flags []\<rparr>) \<and> tcp_pcbs s' = tcp_pcbs s"
  using tcp_send_sel(1,2) [of p flags "[]" s s'] by simp

text \<open>One segment on one control block: its state follows the table and no other block's state changes.\<close>

lemma tcp_dispatch_next:
  assumes "tcp_dispatch p i flags sp ip seq hl sgm s = Some s'"
  shows "pcb_state (pcbs s' q) = (if q = p then tcp_next flags (pcb_state (pcbs s p)) else pcb_state (pcbs s q))"
    "tcp_pcbs s' = (if pcb_state (pcbs s p) \<in> {TCP_FIN_WAIT_2, TCP_LAST_ACK} \<and> tcp_next flags (pcb_state (pcbs s p)) = TCP_CLOSED
       then (tcp_pcbs s)[i := 0] else tcp_pcbs s)"
proof -
  have set_ring: "pcbs (set_ring j r t) = pcbs t" "tcp_pcbs (set_ring j r t) = tcp_pcbs t" for j r and t :: "'a tcpip_scheme"
    by (simp_all add: set_ring_def upd_socket_def)
  note d = tcp_listen_input_def tcp_syn_sent_input_def tcp_established_input_def tcp_data_input_def
    tcp_fin_wait_1_input_def tcp_fin_wait_2_input_def tcp_last_ack_input_def tcp_next_def syn_ack_bits
  show "pcb_state (pcbs s' q) = (if q = p then tcp_next flags (pcb_state (pcbs s p)) else pcb_state (pcbs s q))"
    using assms unfolding tcp_dispatch_def
    by (cases "pcb_state (pcbs s p)")
      (auto simp: d Let_def set_ring dest!: tcp_send_empty split: bind_splits if_splits option.splits)
  show "tcp_pcbs s' = (if pcb_state (pcbs s p) \<in> {TCP_FIN_WAIT_2, TCP_LAST_ACK} \<and> tcp_next flags (pcb_state (pcbs s p)) = TCP_CLOSED
       then (tcp_pcbs s)[i := 0] else tcp_pcbs s)"
    using assms unfolding tcp_dispatch_def
    by (cases "pcb_state (pcbs s p)")
      (auto simp: d Let_def set_ring dest!: tcp_send_empty split: bind_splits if_splits option.splits)
qed

text \<open>
  C4: the state machine of the receiver. A received segment leaves everything as it is when no
  control block matches its ports and addresses; otherwise the first matching block moves by
  the transition table of the implementation, as its flags demand, and the state of every
  other connection stays the same.
\<close>

theorem tcp_input_state_machine:
  assumes "tcp_input src_ip t len m s = Some s'"
  shows "case find_index (tcp_match (ntohs (rd16 m (t + 2))) (ntohs (rd16 m t)) src_ip s) 0 16 of
      None \<Rightarrow> s' = s
    | Some i \<Rightarrow> \<forall>q. pcb_state (pcbs s' q) =
        (if q = tcp_pcbs s ! i then tcp_next (m (t + 13)) (pcb_state (pcbs s q)) else pcb_state (pcbs s q))"
proof (cases "find_index (tcp_match (ntohs (rd16 m (t + 2))) (ntohs (rd16 m t)) src_ip s) 0 16")
  case None
  then show ?thesis using assms by (simp add: tcp_input_def Let_def MAX_TCP_PCBS_def)
next
  case (Some i)
  then have d: "tcp_dispatch (tcp_pcbs s ! i) i (m (t + 13)) (ntohs (rd16 m t)) src_ip (ntohl (rd32 m (t + 4)))
      (4 * unat (drop_bit 4 (m (t + 12)))) (rd_bytes m t (unat len)) s = Some s'"
    using assms by (simp add: tcp_input_def Let_def MAX_TCP_PCBS_def)
  show ?thesis unfolding Some option.case using tcp_dispatch_next(1) [OF d] by simp
qed

section \<open>Connections that are never released\<close>

text \<open>Reception of any sequence of segments.\<close>

inductive tcp_rx :: "'a tcpip_scheme \<Rightarrow> 'a tcpip_scheme \<Rightarrow> bool" for s0 where
  rx_none: "tcp_rx s0 s0"
| rx_segment: "tcp_rx s0 s \<Longrightarrow> tcp_input src_ip t len m s = Some s' \<Longrightarrow> tcp_rx s0 s'"

definition holds_slot :: "nat \<Rightarrow> u32 \<Rightarrow> tcp_state \<Rightarrow> 'a tcpip_scheme \<Rightarrow> bool" where
  "holds_slot i p st s \<longleftrightarrow> length (tcp_pcbs s) = 16 \<and> i < 16 \<and> p \<noteq> 0 \<and> tcp_pcbs s ! i = p \<and>
     (\<forall>j < 16. j \<noteq> i \<longrightarrow> tcp_pcbs s ! j \<noteq> p) \<and> pcb_state (pcbs s p) = st"

lemma holds_slot_input:
  assumes h: "holds_slot i p st s" and st: "st \<in> {TCP_CLOSING, TCP_TIME_WAIT, TCP_CLOSE_WAIT}"
    and r: "tcp_input src_ip t len m s = Some s'"
  shows "holds_slot i p st s'"
proof (cases "find_index (tcp_match (ntohs (rd16 m (t + 2))) (ntohs (rd16 m t)) src_ip s) 0 16")
  case None
  then show ?thesis using r h by (simp add: tcp_input_def Let_def MAX_TCP_PCBS_def)
next
  case (Some j)
  then have j: "j < 16" by (simp add: find_index_Some)
  have d: "tcp_dispatch (tcp_pcbs s ! j) j (m (t + 13)) (ntohs (rd16 m t)) src_ip (ntohl (rd32 m (t + 4)))
      (4 * unat (drop_bit 4 (m (t + 12)))) (rd_bytes m t (unat len)) s = Some s'"
    using r Some by (simp add: tcp_input_def Let_def MAX_TCP_PCBS_def)
  note n = tcp_dispatch_next [OF d]
  have "pcb_state (pcbs s' p) = st" using n(1) [of p] h st by (auto simp: tcp_next_def holds_slot_def)
  moreover have "tcp_pcbs s' = tcp_pcbs s \<or> tcp_pcbs s' = (tcp_pcbs s)[j := 0] \<and> j \<noteq> i"
    using n(2) h st by (auto simp: holds_slot_def)
  ultimately show ?thesis using h j unfolding holds_slot_def
    by (elim disjE) (auto simp: nth_list_update split: if_splits)
qed

text \<open>
  C37: a connection that reached \<open>TCP_TIME_WAIT\<close> or \<open>TCP_CLOSING\<close> keeps its slot of the table
  for ever: whatever segments arrive, its control block is neither released nor does it
  change state. The comment in the code speaks of closing at once instead of waiting, but only
  the path through \<open>TCP_FIN_WAIT_2\<close> does.
\<close>

theorem tcp_slot_leak:
  assumes "tcp_rx s s'" and "holds_slot i p st s" and "st \<in> {TCP_CLOSING, TCP_TIME_WAIT}"
  shows "tcp_pcbs s' ! i = p \<and> p \<noteq> 0 \<and> pcb_state (pcbs s' p) = st"
proof -
  have "holds_slot i p st s'"
    using assms
  proof (induction rule: tcp_rx.induct)
    case (rx_segment s src_ip t len m s')
    then show ?case using holds_slot_input [of i p st s] by auto
  qed simp
  then show ?thesis by (simp add: holds_slot_def)
qed

section \<open>Segments on the wire\<close>

lemma segment_nth: "i < 20 + length data \<Longrightarrow> buf_mem (tcp_segment pcb flags data) i = tcp_segment pcb flags data ! i"
  by (simp add: buf_mem_def wr_bytes_def)

lemma bytes32_htonl_roundtrip:
  "ntohl (le32 (ucast (htonl v)) (ucast (drop_bit 8 (htonl v))) (ucast (drop_bit 16 (htonl v))) (ucast (drop_bit 24 (htonl v)))) = v"
  by (simp add: bytes32_roundtrip)

lemma filled_segment_reads:
  fixes pcb flags data
  defines "m \<equiv> filled_segment pcb flags data"
  shows "ntohs (rd16 m 0) = pcb_local_port pcb" "ntohs (rd16 m 2) = pcb_remote_port pcb"
    "ntohl (rd32 m 4) = snd_nxt pcb" "ntohl (rd32 m 8) = rcv_nxt pcb" "m 12 = 0x50" "m 13 = flags"
    "rd_bytes m 20 (length data) = data"
proof -
  have low: "m i = tcp_segment pcb flags data ! i" if "i < 16" for i
    using that by (simp add: m_def filled_segment_def Let_def packet_simps segment_nth)
  show "ntohs (rd16 m 0) = pcb_local_port pcb" "ntohs (rd16 m 2) = pcb_remote_port pcb"
    "ntohl (rd32 m 4) = snd_nxt pcb" "ntohl (rd32 m 8) = rcv_nxt pcb" "m 12 = 0x50" "m 13 = flags"
    by (simp_all add: rd16_def rd32_def low tcp_segment_def bytes16_def bytes32_def bytes16_roundtrip bytes32_htonl_roundtrip)
  have "m (20 + i) = data ! i" if "i < length data" for i
  proof -
    have "m (20 + i) = tcp_segment pcb flags data ! (20 + i)"
      using that by (simp add: m_def filled_segment_def Let_def packet_simps segment_nth)
    also have "\<dots> = data ! i" by (simp add: tcp_segment_def bytes16_def bytes32_def)
    finally show ?thesis .
  qed
  then show "rd_bytes m 20 (length data) = data" by (intro nth_equalityI) simp_all
qed

lemma filled_segment_checksum:
  assumes "length data \<le> 65515"
  shows "tcp_checksum (bytes32 (local_ip pcb)) (bytes32 (remote_ip pcb)) 6 (filled_segment pcb flags data) 0
     (20 + of_nat (length data)) = 0"
proof -
  have un: "unat (20 + of_nat (length data) :: u16) = 20 + length data"
    using assms unat_of_nat_u16 [of "20 + length data"] by simp
  have "rd16 (buf_mem (tcp_segment pcb flags data)) 16 = 0"
  proof -
    have "tcp_segment pcb flags data ! 16 = 0" "tcp_segment pcb flags data ! 17 = 0"
      by (simp_all add: tcp_segment_def bytes16_def bytes32_def nth_append)
    then show ?thesis by (simp add: rd16_def segment_nth le16_def)
  qed
  then show ?thesis unfolding filled_segment_def Let_def
    by (intro tcp_checksum_filled [of 16 0 8]) (simp_all add: un)
qed

text \<open>
  sending a segment on a connection returns, with the same heap buffers in use, whenever
  the segment buffer can be allocated, and advances the send sequence number by the data and
  by one for SYN and FIN. A frame that goes out carries, behind the IP header, the
  connection's ports, sequence and acknowledgement numbers, the flags and the data, and its
  checksum over pseudo header and segment verifies to zero.
\<close>

theorem tcp_send_segment_correct:
  assumes "kheap_ok base (heap s)" and "length data \<le> 65515" and "net_ok s"
    and "\<forall>h. kmalloc (of_nat (20 + length data)) (heap s) \<noteq> Some (0, h)"
  shows "\<exists>s'. tcp_send_segment p flags data s = Some s' \<and> kheap_ok base (heap s') \<and>
    kheap_live base (heap s') = kheap_live base (heap s) \<and>
    pcbs s' = (pcbs s)(p := (pcbs s p)\<lparr>snd_nxt := snd_nxt (pcbs s p) + seq_inc flags data\<rparr>) \<and>
    (sent s' = sent s \<or> (\<exists>m g. sent s' = sent s @ [rd_bytes m 0 (54 + length data)] \<and>
       rd_bytes m 30 4 = bytes32 (remote_ip (pcbs s p)) \<and> m 23 = 6 \<and> calculate_checksum m 14 20 = 0 \<and>
       rd_bytes m 34 (20 + length data) = rd_bytes g 0 (20 + length data) \<and>
       ntohs (rd16 g 0) = pcb_local_port (pcbs s p) \<and> ntohs (rd16 g 2) = pcb_remote_port (pcbs s p) \<and>
       ntohl (rd32 g 4) = snd_nxt (pcbs s p) \<and> ntohl (rd32 g 8) = rcv_nxt (pcbs s p) \<and> g 13 = flags \<and>
       rd_bytes g 20 (length data) = data \<and>
       tcp_checksum (bytes32 (local_ip (pcbs s p))) (bytes32 (remote_ip (pcbs s p))) 6 g 0 (20 + of_nat (length data)) = 0))"
proof -
  let ?g = "filled_segment (pcbs s p) flags data" and ?d = "bytes32 (remote_ip (pcbs s p))"
  let ?m = "ipv4_frame ?d 6 (rd_bytes ?g 0 (20 + length data)) s"
  have l: "length ?d = 4" by simp
  note f = ipv4_frame_fields [OF assms(3) l, of 6 "rd_bytes ?g 0 (20 + length data)"]
  obtain s' where s': "tcp_send_segment p flags data s = Some s'" "kheap_ok base (heap s')"
      "kheap_live base (heap s') = kheap_live base (heap s)"
      "sent s' = sent s \<or> sent s' = sent s @ (if nic_send s then [rd_bytes ?m 0 (54 + length data)] else [])"
    using tcp_send_ok [OF assms(1,2)] assms(4) by metis
  from s'(4) have "sent s' = sent s \<or> sent s' = sent s @ [rd_bytes ?m 0 (54 + length data)]" by (auto split: if_splits)
  moreover have "rd_bytes ?m 34 (20 + length data) = rd_bytes ?g 0 (20 + length data)" using f(9) by simp
  ultimately have "sent s' = sent s \<or> (\<exists>m g. sent s' = sent s @ [rd_bytes m 0 (54 + length data)] \<and>
       rd_bytes m 30 4 = ?d \<and> m 23 = 6 \<and> calculate_checksum m 14 20 = 0 \<and>
       rd_bytes m 34 (20 + length data) = rd_bytes g 0 (20 + length data) \<and>
       ntohs (rd16 g 0) = pcb_local_port (pcbs s p) \<and> ntohs (rd16 g 2) = pcb_remote_port (pcbs s p) \<and>
       ntohl (rd32 g 4) = snd_nxt (pcbs s p) \<and> ntohl (rd32 g 8) = rcv_nxt (pcbs s p) \<and> g 13 = flags \<and>
       rd_bytes g 20 (length data) = data \<and> tcp_checksum (bytes32 (local_ip (pcbs s p))) ?d 6 g 0 (20 + of_nat (length data)) = 0)"
    using filled_segment_reads [of "pcbs s p" flags data] filled_segment_checksum [OF assms(2)] f(6,8)
      ipv4_frame_checksum [OF assms(3) l] by blast
  then show ?thesis using s'(1-3) tcp_send_sel(1) [OF s'(1) assms(2)] by blast
qed

section \<open>Instances\<close>

text \<open>A host whose first control block, on port 80, is in a given state, and a SYN segment for it.\<close>

definition demo_tcp :: "tcp_state \<Rightarrow> tcpip" where
  "demo_tcp st = net.extend demo_net
     \<lparr>tcp_pcbs = 0x1000 # replicate 15 0, pcbs = (\<lambda>_. new_pcb\<lparr>pcb_local_port := 80, pcb_state := st\<rparr>), next_port = 10000,
      sockets = [], sock_bufs = (\<lambda>_ _. 0)\<rparr>"

definition syn_segment :: mem where
  "syn_segment = wr8 13 TCP_SYN (wr16 2 (htons 80) (wr16 0 (htons 5000) (\<lambda>_. 0)))"

lemma demo_tcp_sel:
  "tcp_pcbs (demo_tcp st) = 0x1000 # replicate 15 0" "heap (demo_tcp st) = heap_demo" "net_ok (demo_tcp st)"
  "pcbs (demo_tcp st) = (\<lambda>_. new_pcb\<lparr>pcb_local_port := 80, pcb_state := st\<rparr>)"
  using demo_net_ok(1) by (simp_all add: demo_tcp_def net.defs net_ok_def demo_net_def)

lemma syn_segment_reads:
  "rd16 syn_segment 0 = htons 5000" "rd16 syn_segment (Suc (Suc 0)) = htons 80" "syn_segment 13 = TCP_SYN"
proof -
  have "rd16 syn_segment 2 = htons 80" by (simp add: syn_segment_def packet_simps)
  then show "rd16 syn_segment (Suc (Suc 0)) = htons 80" by (simp only: numeral_2_eq_2)
qed (simp_all add: syn_segment_def packet_simps)

lemma demo_tcp_listen:
  "find_index (tcp_match 80 5000 ip (demo_tcp TCP_LISTEN)) 0 16 = Some 0"
  by (simp add: find_index_Some tcp_match_def Let_def demo_tcp_sel)

theorem tcp_input_state_machine_witness:
  "\<exists>s'. tcp_input [10, 0, 2, 2] 0 20 syn_segment (demo_tcp TCP_LISTEN) = Some s' \<and>
     pcb_state (pcbs s' 0x1000) = TCP_SYN_RECEIVED \<and> pcb_state (pcbs s' 0x2000) = TCP_LISTEN"
proof -
  have f: "TCP_SYN \<noteq> 0" by (simp add: tcp_flags)
  have "\<exists>s'. tcp_input [10, 0, 2, 2] 0 20 syn_segment (demo_tcp TCP_LISTEN) = Some s'"
    by (simp add: tcp_input_def Let_def syn_segment_reads MAX_TCP_PCBS_def demo_tcp_listen tcp_dispatch_def demo_tcp_sel
        tcp_listen_input_def f)
      (rule tcp_send_returns [of "0xC0400000"], use heap_demo_room in \<open>simp_all add: demo_tcp_sel\<close>)
  then obtain s' where s': "tcp_input [10, 0, 2, 2] 0 20 syn_segment (demo_tcp TCP_LISTEN) = Some s'" by blast
  show ?thesis
    using tcp_input_state_machine [OF s'] s'
    by (simp add: syn_segment_reads demo_tcp_listen demo_tcp_sel tcp_next_def f Let_def)
qed

theorem tcp_slot_leak_witness:
  "\<exists>s'. tcp_input [0, 0, 0, 0] 0 20 syn_segment (demo_tcp TCP_TIME_WAIT) = Some s' \<and> tcp_pcbs s' ! 0 = 0x1000 \<and>
     pcb_state (pcbs s' 0x1000) = TCP_TIME_WAIT"
proof -
  have h: "holds_slot 0 0x1000 TCP_TIME_WAIT (demo_tcp TCP_TIME_WAIT)"
    by (simp add: holds_slot_def demo_tcp_sel nth_Cons')
  have "tcp_input [0, 0, 0, 0] 0 20 syn_segment (demo_tcp TCP_TIME_WAIT) = Some (demo_tcp TCP_TIME_WAIT)"
  proof (cases "find_index (tcp_match 80 5000 [0, 0, 0, 0] (demo_tcp TCP_TIME_WAIT)) 0 16")
    case (Some i)
    then show ?thesis
      by (simp add: tcp_input_def Let_def syn_segment_reads MAX_TCP_PCBS_def tcp_dispatch_def demo_tcp_sel)
  qed (simp add: tcp_input_def Let_def syn_segment_reads MAX_TCP_PCBS_def)
  then show ?thesis using tcp_slot_leak [OF rx_segment [OF rx_none] h] by auto
qed

theorem tcp_send_segment_correct_witness:
  "\<exists>s'. tcp_send_segment 0x1000 TCP_ACK [1, 2, 3] (demo_tcp TCP_ESTABLISHED) = Some s' \<and>
     kheap_live 0xC0400000 (heap s') = {} \<and> snd_nxt (pcbs s' 0x1000) = seq_inc TCP_ACK [1, 2, 3]"
proof -
  have "kheap_ok 0xC0400000 (heap (demo_tcp TCP_ESTABLISHED))"
    "\<forall>h. kmalloc (of_nat (20 + length [1 :: u8, 2, 3])) (heap (demo_tcp TCP_ESTABLISHED)) \<noteq> Some (0, h)"
    using heap_demo_room(1) unused_heap_room [OF heap_demo_room(1,2), of 23] by (simp_all add: demo_tcp_sel)
  then show ?thesis
    using tcp_send_segment_correct [of "0xC0400000" "demo_tcp TCP_ESTABLISHED" "[1, 2, 3]" "0x1000" TCP_ACK]
      heap_demo_room(2) by (auto simp: demo_tcp_sel new_pcb_def)
qed

end
