(* ===== verification/Socket.thy ===== *)
theory Socket
  imports Tcp
begin

text \<open>
  Sockets, \<open>kernel/net/socket.c\<close>. A socket is an entry of the table, reached from its file
  system node. Calls that wait give up the processor with \<open>schedule()\<close>; what the other tasks
  and the interrupt handlers do meanwhile is the argument \<open>env\<close>, a function of the number
  of the wait and the state. The value None stands for a run that does not go on (see
  \<open>Tcp\<close>) or for a wait that never ends.
\<close>

definition AF_INET :: u16 where "AF_INET = 2"
definition SOCK_STREAM :: int where "SOCK_STREAM = 1"
definition SOCK_DGRAM :: int where "SOCK_DGRAM = 2"
definition MAX_SOCKETS :: nat where "MAX_SOCKETS = 32"

lemmas sock_consts = AF_INET_def SOCK_STREAM_def SOCK_DGRAM_def MAX_SOCKETS_def

record sockaddr_in =
  sin_family :: u16
  sin_port :: u16
  sin_addr :: u32

record socket_packet =
  pk_src_ip :: u32
  pk_src_port :: u16
  pk_data_len :: u16

definition packet_bytes :: "socket_packet \<Rightarrow> u8 list" where
  "packet_bytes pk = bytes32 (pk_src_ip pk) @ bytes16 (pk_src_port pk) @ bytes16 (pk_data_len pk)"

definition packet_of :: "u8 list \<Rightarrow> socket_packet" where
  "packet_of p = \<lparr>pk_src_ip = le32 (p ! 0) (p ! 1) (p ! 2) (p ! 3), pk_src_port = le16 (p ! 4) (p ! 5),
     pk_data_len = le16 (p ! 6) (p ! 7)\<rparr>"

lemma packet_roundtrip: "packet_of (packet_bytes pk) = pk"
  by (cases pk) (simp add: packet_of_def packet_bytes_def bytes32_def bytes16_def bytes32_roundtrip bytes16_roundtrip)

text \<open>\<open>(socket_t *)node->ptr\<close>.\<close>

definition node_socket :: "u32 \<Rightarrow> 'a tcpip_scheme \<Rightarrow> nat option" where
  "node_socket n s = (case vptr (nodes s n) of Socket_ptr i \<Rightarrow> Some i | _ \<Rightarrow> None)"

section \<open>Creation and closing\<close>

definition socket_close :: "u32 \<Rightarrow> 'a tcpip_scheme \<Rightarrow> 'a tcpip_scheme option" where
  "socket_close n s =
     (case node_socket n s of
        None \<Rightarrow> Some (krelease n s)
      | Some i \<Rightarrow> do {
          let k = sockets s ! i;
          s1 \<leftarrow> (if s_type k = SOCK_STREAM \<and> s_tcp_pcb k \<noteq> 0 then tcp_close (s_tcp_pcb k) s else Some s);
          let s2 = upd_socket i (\<lambda>k. k\<lparr>s_in_use := 0\<rparr>) s1;
          let s3 = (if s_buffer (sockets s2 ! i) \<noteq> 0 then krelease (s_buffer (sockets s2 ! i)) s2 else s2);
          Some (krelease n s3)
        })"

definition socket_create :: "int \<Rightarrow> int \<Rightarrow> int \<Rightarrow> 'a tcpip_scheme \<Rightarrow> (u32 \<times> 'a tcpip_scheme) option" where
  "socket_create domain type protocol s =
     (case find_index (\<lambda>i. s_in_use (sockets s ! i) = 0) 0 MAX_SOCKETS of
        None \<Rightarrow> Some (0, s)
      | Some i \<Rightarrow> do {
          let s1 = upd_socket i (\<lambda>k. k\<lparr>s_domain := domain, s_type := type, s_protocol := protocol, s_in_use := 1,
                     s_local_port := 0\<rparr>) s;
          (b, s2) \<leftarrow> kalloc SOCKET_BUFFER_SIZE s1;
          let s3 = upd_socket i (\<lambda>k. k\<lparr>s_buffer := b, buffer_head := 0, buffer_tail := 0, buffer_len := 0,
                     waiting_task := 0\<rparr>) s2;
          (n, s4) \<leftarrow> kalloc_deref sizeof_vfs_node s3;
          Some (n, s4\<lparr>nodes := (nodes s4)(n := zero_node\<lparr>vflags := VFS_SOCKET, vptr := Socket_ptr i,
            vread := Socket_fun, vwrite := Socket_fun, vclose := Socket_fun\<rparr>)\<rparr>)
        })"

section \<open>Addresses and connections\<close>

definition socket_bind :: "u32 \<Rightarrow> sockaddr_in \<Rightarrow> 'a tcpip_scheme \<Rightarrow> (int \<times> 'a tcpip_scheme) option" where
  "socket_bind n sin s = do {
     i \<leftarrow> node_socket n s;
     let s1 = upd_socket i (\<lambda>k. k\<lparr>s_local_port := ntohs (sin_port sin), s_local_addr := sin_addr sin\<rparr>) s;
     let k = sockets s1 ! i;
     Some (0, if s_type k = SOCK_STREAM \<and> s_tcp_pcb k \<noteq> 0
              then upd_pcb (s_tcp_pcb k) (\<lambda>q. q\<lparr>pcb_local_port := s_local_port k, local_ip := s_local_addr k\<rparr>) s1
              else s1)
   }"

text \<open>\<open>if (!s->tcp_pcb) { s->tcp_pcb = tcp_new_pcb(); s->tcp_pcb->socket = s; }\<close>.\<close>

definition ensure_pcb :: "nat \<Rightarrow> 'a tcpip_scheme \<Rightarrow> 'a tcpip_scheme option" where
  "ensure_pcb i s =
     (if s_tcp_pcb (sockets s ! i) = 0 then do {
        (p, s1) \<leftarrow> tcp_new_pcb s;
        if p = 0 then None
        else Some (upd_pcb p (\<lambda>q. q\<lparr>pcb_socket := Some i\<rparr>) (upd_socket i (\<lambda>k. k\<lparr>s_tcp_pcb := p\<rparr>) s1))
      } else Some s)"

text \<open>The current task goes to sleep on a socket and gives up the processor.\<close>

definition sleep_on :: "nat \<Rightarrow> 'a tcpip_scheme \<Rightarrow> 'a tcpip_scheme" where
  "sleep_on i s = upd_task (get_current_task s) (\<lambda>t. t\<lparr>tstate := TASK_SLEEP\<rparr>)
     (upd_socket i (\<lambda>k. k\<lparr>waiting_task := get_current_task s\<rparr>) s)"

fun sched_times :: "(nat \<Rightarrow> 's \<Rightarrow> 's) \<Rightarrow> nat \<Rightarrow> nat \<Rightarrow> 's \<Rightarrow> 's" where
  "sched_times env k 0 s = s"
| "sched_times env k (Suc n) s = sched_times env (Suc k) n (env k s)"

definition socket_connect ::
    "(nat \<Rightarrow> 'a tcpip_scheme \<Rightarrow> 'a tcpip_scheme) \<Rightarrow> u32 \<Rightarrow> sockaddr_in \<Rightarrow> 'a tcpip_scheme \<Rightarrow> (int \<times> 'a tcpip_scheme) option" where
  "socket_connect env n sin s = do {
     i \<leftarrow> node_socket n s;
     let s1 = upd_socket i (\<lambda>k. k\<lparr>s_remote_addr := sin_addr sin, s_remote_port := ntohs (sin_port sin)\<rparr>) s;
     if s_type (sockets s1 ! i) = SOCK_STREAM then do {
       s2 \<leftarrow> ensure_pcb i s1;
       let p = s_tcp_pcb (sockets s2 ! i);
       let (port, s3) = tcp_get_free_port s2;
       let s4 = upd_pcb p (\<lambda>q. q\<lparr>pcb_local_port := port, local_ip := net_get_ip s3,
                  pcb_remote_port := s_remote_port (sockets s3 ! i), remote_ip := s_remote_addr (sockets s3 ! i)\<rparr>) s3;
       s5 \<leftarrow> net_send_arp_request (bytes32 (s_remote_addr (sockets s4 ! i))) s4;
       let s6 = sched_times env 0 100 s5;
       let s7 = upd_pcb p (\<lambda>q. q\<lparr>pcb_state := TCP_SYN_SENT, snd_nxt := 100\<rparr>) s6;
       s8 \<leftarrow> tcp_send_segment p TCP_SYN [] s7;
       let s9 = env 100 (sleep_on i s8);
       Some (if pcb_state (pcbs s9 p) \<noteq> TCP_ESTABLISHED then -1 else 0, s9)
     } else Some (0, s1)
   }"

definition socket_listen :: "u32 \<Rightarrow> 'a tcpip_scheme \<Rightarrow> (int \<times> 'a tcpip_scheme) option" where
  "socket_listen n s = do {
     i \<leftarrow> node_socket n s;
     if s_type (sockets s ! i) = SOCK_STREAM then do {
       s1 \<leftarrow> ensure_pcb i s;
       let k = sockets s1 ! i;
       Some (0, upd_pcb (s_tcp_pcb k) (\<lambda>q. q\<lparr>pcb_local_port := s_local_port k, pcb_state := TCP_LISTEN\<rparr>) s1)
     } else Some (-1, s)
   }"

partial_function (option) wait_established ::
    "(nat \<Rightarrow> 'a tcpip_scheme \<Rightarrow> 'a tcpip_scheme) \<Rightarrow> nat \<Rightarrow> nat \<Rightarrow> u32 \<Rightarrow> 'a tcpip_scheme \<Rightarrow> 'a tcpip_scheme option" where
  "wait_established env k i p s =
     (if pcb_state (pcbs s p) \<noteq> TCP_ESTABLISHED then wait_established env (Suc k) i p (env k (sleep_on i s)) else Some s)"

definition socket_accept ::
    "(nat \<Rightarrow> 'a tcpip_scheme \<Rightarrow> 'a tcpip_scheme) \<Rightarrow> u32 \<Rightarrow> 'a tcpip_scheme \<Rightarrow> (u32 \<times> 'a tcpip_scheme) option" where
  "socket_accept env n s = do {
     i \<leftarrow> node_socket n s;
     if s_type (sockets s ! i) = SOCK_STREAM then do {
       if s_tcp_pcb (sockets s ! i) = 0 then None
       else do {
         s1 \<leftarrow> wait_established env 0 i (s_tcp_pcb (sockets s ! i)) s;
         Some (n, s1)
       }
     } else Some (0, s)
   }"

section \<open>Sending and receiving\<close>

definition socket_sendto :: "u32 \<Rightarrow> u8 list \<Rightarrow> sockaddr_in option \<Rightarrow> 'a tcpip_scheme \<Rightarrow> (int \<times> 'a tcpip_scheme) option" where
  "socket_sendto n message dest_addr s = do {
     i \<leftarrow> node_socket n s;
     let k = sockets s ! i;
     if s_type k = SOCK_DGRAM then
       (case (case dest_addr of Some sin \<Rightarrow> Some (sin_addr sin, ntohs (sin_port sin))
              | None \<Rightarrow> if s_remote_addr k \<noteq> 0 then Some (s_remote_addr k, s_remote_port k) else None) of
          None \<Rightarrow> Some (-1, s)
        | Some (ip_addr, port) \<Rightarrow> do {
            s1 \<leftarrow> net_send_udp (bytes32 ip_addr) port (s_local_port k) message s;
            Some (int (length message), s1)
          })
     else if s_type k = SOCK_STREAM \<and> s_tcp_pcb k \<noteq> 0 \<and> pcb_state (pcbs s (s_tcp_pcb k)) = TCP_ESTABLISHED then do {
       s1 \<leftarrow> tcp_send_segment (s_tcp_pcb k) (TCP_ACK OR TCP_PSH) (take (length message mod 65536) message) s;
       Some (int (length message), s1)
     }
     else Some (-1, s)
   }"

partial_function (option) wait_data ::
    "(nat \<Rightarrow> 'a tcpip_scheme \<Rightarrow> 'a tcpip_scheme) \<Rightarrow> nat \<Rightarrow> nat \<Rightarrow> 'a tcpip_scheme \<Rightarrow> 'a tcpip_scheme option" where
  "wait_data env k i s =
     (if buffer_len (sockets s ! i) = 0 then wait_data env (Suc k) i (env k (sleep_on i s)) else Some s)"

text \<open>One datagram: its header, and as many of its bytes as the caller asked for; the rest is dropped.\<close>

definition recv_dgram :: "nat \<Rightarrow> ring \<Rightarrow> (socket_packet \<times> u8 list) \<times> ring" where
  "recv_dgram len r =
     (let (h, r1) = ring_take 8 r; pk = packet_of h; (d, r2) = ring_take (unat (pk_data_len pk)) r1
      in ((pk, take (min len (unat (pk_data_len pk))) d), r2\<lparr>rlen := rlen r2 - (8 + ucast (pk_data_len pk))\<rparr>))"

definition recv_stream :: "nat \<Rightarrow> ring \<Rightarrow> u8 list \<times> ring" where
  "recv_stream len r =
     (let to_read = min len (unat (rlen r)); (d, r1) = ring_take to_read r
      in (d, r1\<lparr>rlen := rlen r1 - of_nat to_read\<rparr>))"

text \<open>
  The result is what the caller's buffer receives (its length is the return value), the
  address written back where one was asked for, and the state.
\<close>

definition socket_recvfrom ::
    "(nat \<Rightarrow> 'a tcpip_scheme \<Rightarrow> 'a tcpip_scheme) \<Rightarrow> u32 \<Rightarrow> nat \<Rightarrow> bool \<Rightarrow> 'a tcpip_scheme \<Rightarrow>
     (u8 list \<times> sockaddr_in option \<times> 'a tcpip_scheme) option" where
  "socket_recvfrom env n len want_addr s = do {
     i \<leftarrow> node_socket n s;
     s1 \<leftarrow> wait_data env 0 i s;
     if s_type (sockets s1 ! i) = SOCK_DGRAM then
       let ((pk, d), r) = recv_dgram len (sock_ring i s1)
       in Some (d, if want_addr then Some \<lparr>sin_family = AF_INET, sin_port = htons (pk_src_port pk), sin_addr = pk_src_ip pk\<rparr>
                   else None, set_ring i r s1)
     else
       let (d, r) = recv_stream len (sock_ring i s1) in Some (d, None, set_ring i r s1)
   }"

text \<open>The file operations of a socket node.\<close>

definition socket_read ::
    "(nat \<Rightarrow> 'a tcpip_scheme \<Rightarrow> 'a tcpip_scheme) \<Rightarrow> u32 \<Rightarrow> nat \<Rightarrow> 'a tcpip_scheme \<Rightarrow> (u8 list \<times> 'a tcpip_scheme) option" where
  "socket_read env n size' s = map_option (\<lambda>(d, _, s'). (d, s')) (socket_recvfrom env n size' False s)"

definition socket_write :: "u32 \<Rightarrow> u8 list \<Rightarrow> 'a tcpip_scheme \<Rightarrow> (int \<times> 'a tcpip_scheme) option" where
  "socket_write n data s = socket_sendto n data None s"

section \<open>Delivery of datagrams\<close>

definition socket_dispatch_udp :: "u16 \<Rightarrow> u8 list \<Rightarrow> u8 list \<Rightarrow> u16 \<Rightarrow> 'a tcpip_scheme \<Rightarrow> 'a tcpip_scheme option" where
  "socket_dispatch_udp dest_port data src_ip src_port s =
     (case find_index (\<lambda>i. s_in_use (sockets s ! i) \<noteq> 0 \<and> s_local_port (sockets s ! i) = dest_port) 0 MAX_SOCKETS of
        None \<Rightarrow> Some s
      | Some i \<Rightarrow>
          (if buffer_len (sockets s ! i) + 8 + of_nat (length data) \<le> SOCKET_BUFFER_SIZE then
             if s_buffer (sockets s ! i) = 0 then None else
             let pk = \<lparr>pk_src_ip = le32 (src_ip ! 0) (src_ip ! 1) (src_ip ! 2) (src_ip ! 3), pk_src_port = src_port,
                        pk_data_len = of_nat (length data)\<rparr>;
                 r1 = fold ring_push (packet_bytes pk) (sock_ring i s);
                 r2 = fold ring_push data r1;
                 r3 = r2\<lparr>rlen := rlen r2 + (8 + of_nat (length data))\<rparr>
             in Some (wake_socket i (set_ring i r3 s))
           else Some s))"

section \<open>Queues of sockets\<close>

lemma upd_socket_nth [simp]:
  "i < length (sockets s) \<Longrightarrow> sockets (upd_socket i f s) ! j = (if j = i then f (sockets s ! i) else sockets s ! j)"
  "length (sockets (upd_socket i f s)) = length (sockets s)"
  by (simp_all add: upd_socket_def)

lemma upd_socket_sel [simp]:
  "pcbs (upd_socket i f s) = pcbs s" "sock_bufs (upd_socket i f s) = sock_bufs s" "heap (upd_socket i f s) = heap s"
  "nodes (upd_socket i f s) = nodes s" "tasks (upd_socket i f s) = tasks s" "tcp_pcbs (upd_socket i f s) = tcp_pcbs s"
  "current_task (upd_socket i f s) = current_task s"
  by (simp_all add: upd_socket_def)

lemma set_ring_sel [simp]:
  "pcbs (set_ring i r s) = pcbs s" "heap (set_ring i r s) = heap s" "nodes (set_ring i r s) = nodes s"
  "tasks (set_ring i r s) = tasks s" "tcp_pcbs (set_ring i r s) = tcp_pcbs s" "length (sockets (set_ring i r s)) = length (sockets s)"
  by (simp_all add: set_ring_def)

lemma set_ring_socket:
  "i < length (sockets s) \<Longrightarrow> sockets (set_ring i r s) ! i =
     (sockets s ! i)\<lparr>buffer_head := rhead r, buffer_tail := rtail r, buffer_len := rlen r\<rparr>"
  "j \<noteq> i \<Longrightarrow> sockets (set_ring i r s) ! j = sockets s ! j"
  by (simp_all add: set_ring_def upd_socket_def)

lemma sock_ring_set [simp]: "i < length (sockets s) \<Longrightarrow> sock_ring i (set_ring i r s) = r"
  by (simp add: sock_ring_def Let_def set_ring_socket) (simp add: set_ring_def)

lemma sock_ring_other:
  "j \<noteq> i \<Longrightarrow> s_buffer (sockets s ! j) \<noteq> s_buffer (sockets s ! i) \<Longrightarrow> sock_ring j (set_ring i r s) = sock_ring j s"
  by (simp add: sock_ring_def Let_def set_ring_socket) (simp add: set_ring_def)

lemma wake_socket_sel [simp]:
  "pcbs (wake_socket i s) = pcbs s" "sock_bufs (wake_socket i s) = sock_bufs s" "heap (wake_socket i s) = heap s"
  "nodes (wake_socket i s) = nodes s" "length (sockets (wake_socket i s)) = length (sockets s)"
  by (simp_all add: wake_socket_def Let_def upd_socket_def upd_task_def)

lemma wake_socket_nth:
  "i < length (sockets s) \<Longrightarrow> sockets (wake_socket i s) ! j =
     (if j = i then (sockets s ! i)\<lparr>waiting_task := 0\<rparr> else sockets s ! j)"
  by (auto simp: wake_socket_def Let_def upd_socket_def upd_task_def)

lemma sock_ring_wake [simp]: "i < length (sockets s) \<Longrightarrow> sock_ring j (wake_socket i s) = sock_ring j s"
  by (simp add: sock_ring_def Let_def wake_socket_nth)

text \<open>A socket that can receive: a table entry whose buffer is a well-formed ring.\<close>

definition can_receive :: "nat \<Rightarrow> 'a tcpip_scheme \<Rightarrow> bool" where
  "can_receive i s \<longleftrightarrow> i < length (sockets s) \<and> s_buffer (sockets s ! i) \<noteq> 0 \<and> ring_ok (sock_ring i s)"

definition port_socket :: "u16 \<Rightarrow> 'a tcpip_scheme \<Rightarrow> nat option" where
  "port_socket port s =
     find_index (\<lambda>i. s_in_use (sockets s ! i) \<noteq> 0 \<and> s_local_port (sockets s ! i) = port) 0 MAX_SOCKETS"

definition dgram_bytes :: "u8 list \<Rightarrow> u16 \<Rightarrow> u8 list \<Rightarrow> u8 list" where
  "dgram_bytes src_ip src_port data =
     packet_bytes \<lparr>pk_src_ip = le32 (src_ip ! 0) (src_ip ! 1) (src_ip ! 2) (src_ip ! 3), pk_src_port = src_port,
       pk_data_len = of_nat (length data)\<rparr> @ data"

lemma packet_bytes_length [simp]: "length (packet_bytes pk) = 8"
  by (simp add: packet_bytes_def)

lemma ring_room:
  assumes "ring_ok r" and "length xs \<le> 65543"
  shows "rlen r + of_nat (length xs) \<le> SOCKET_BUFFER_SIZE \<longleftrightarrow> unat (rlen r) + length xs \<le> 4096"
proof -
  have "unat (rlen r) \<le> 4096" using assms(1) by (simp add: ring_ok_def)
  moreover have "unat (of_nat (length xs) :: u32) = length xs" using assms(2) by (intro unat_of_nat_u32) simp
  ultimately have "unat (rlen r + of_nat (length xs)) = unat (rlen r) + length xs"
    using assms(2) by (simp add: unat_plus_u32)
  then show ?thesis by (simp add: word_le_nat_alt SOCKET_BUFFER_SIZE_def)
qed

lemma dispatch_udp_cases:
  assumes "port_socket dest_port s = Some i" and "can_receive i s" and "length data \<le> 65535"
  shows "unat (buffer_len (sockets s ! i)) + 8 + length data \<le> 4096 \<Longrightarrow>
      socket_dispatch_udp dest_port data src_ip src_port s =
        Some (wake_socket i (set_ring i (ring_put (dgram_bytes src_ip src_port data) (sock_ring i s)) s))"
    and "\<not> unat (buffer_len (sockets s ! i)) + 8 + length data \<le> 4096 \<Longrightarrow>
      socket_dispatch_udp dest_port data src_ip src_port s = Some s"
proof -
  have b: "s_buffer (sockets s ! i) \<noteq> 0" and ok: "ring_ok (sock_ring i s)" using assms(2) by (simp_all add: can_receive_def)
  define xs where "xs = dgram_bytes src_ip src_port data"
  have xs: "length xs = 8 + length data" by (simp add: xs_def dgram_bytes_def)
  have rl: "rlen (sock_ring i s) = buffer_len (sockets s ! i)" by (simp add: sock_ring_def Let_def)
  have c: "buffer_len (sockets s ! i) + 8 + of_nat (length data) \<le> SOCKET_BUFFER_SIZE \<longleftrightarrow>
      unat (buffer_len (sockets s ! i)) + 8 + length data \<le> 4096"
    using ring_room [OF ok, of xs] assms(3) by (simp add: xs rl add.assoc)
  note two = fold_push_two [of data "packet_bytes pk" r for pk r, unfolded Let_def, simplified]
  show "socket_dispatch_udp dest_port data src_ip src_port s =
      Some (wake_socket i (set_ring i (ring_put (dgram_bytes src_ip src_port data) (sock_ring i s)) s))"
    if "unat (buffer_len (sockets s ! i)) + 8 + length data \<le> 4096"
    using assms(1) b c that by (simp add: socket_dispatch_udp_def port_socket_def Let_def dgram_bytes_def two)
  show "socket_dispatch_udp dest_port data src_ip src_port s = Some s"
    if "\<not> unat (buffer_len (sockets s ! i)) + 8 + length data \<le> 4096"
    using assms(1) c that by (simp add: socket_dispatch_udp_def port_socket_def)
qed

text \<open>
  a datagram for a bound port is queued whole behind what the socket already holds, with
  its source address and length in front, or dropped whole when it does not fit; no other
  socket's queue changes, and a task waiting on the socket becomes ready.
\<close>

theorem socket_dispatch_udp_queues:
  assumes "port_socket dest_port s = Some i" and "can_receive i s" and "length data \<le> 65535"
  shows "\<exists>s'. socket_dispatch_udp dest_port data src_ip src_port s = Some s' \<and> can_receive i s' \<and>
    ring_list (sock_ring i s') = (if length (ring_list (sock_ring i s)) + 8 + length data \<le> 4096
      then ring_list (sock_ring i s) @ dgram_bytes src_ip src_port data else ring_list (sock_ring i s)) \<and>
    (\<forall>j. j \<noteq> i \<and> s_buffer (sockets s ! j) \<noteq> s_buffer (sockets s ! i) \<longrightarrow> sock_ring j s' = sock_ring j s) \<and>
    (length (ring_list (sock_ring i s)) + 8 + length data \<le> 4096 \<and> waiting_task (sockets s ! i) \<noteq> 0 \<longrightarrow>
       tstate (tasks s' (waiting_task (sockets s ! i))) = TASK_READY)"
proof (cases "unat (buffer_len (sockets s ! i)) + 8 + length data \<le> 4096")
  case True
  let ?xs = "dgram_bytes src_ip src_port data" and ?r = "sock_ring i s"
  have i: "i < length (sockets s)" and ok: "ring_ok ?r" using assms(2) by (simp_all add: can_receive_def)
  have l: "length (ring_list ?r) = unat (buffer_len (sockets s ! i))" by (simp add: sock_ring_def Let_def)
  have put: "ring_ok (ring_put ?xs ?r)" "ring_list (ring_put ?xs ?r) = ring_list ?r @ ?xs"
    using sr.put_held [OF ok, of ?xs] True l by (simp_all add: dgram_bytes_def)
  define s' where "s' = wake_socket i (set_ring i (ring_put ?xs ?r) s)"
  have "tstate (tasks s' (waiting_task (sockets s ! i))) = TASK_READY" if "waiting_task (sockets s ! i) \<noteq> 0"
    using that i by (simp add: s'_def wake_socket_def Let_def set_ring_socket)
  moreover have "sock_ring j s' = sock_ring j s" if "j \<noteq> i" "s_buffer (sockets s ! j) \<noteq> s_buffer (sockets s ! i)" for j
    using that i by (simp add: s'_def sock_ring_other)
  moreover have "can_receive i s'" "sock_ring i s' = ring_put ?xs ?r"
    using assms(2) i put(1) by (simp_all add: s'_def can_receive_def wake_socket_nth set_ring_socket)
  ultimately show ?thesis
    using dispatch_udp_cases(1) [OF assms True] put(2) True l by (intro exI [of _ s']) (simp add: s'_def)
next
  case False
  have "length (ring_list (sock_ring i s)) = unat (buffer_len (sockets s ! i))" by (simp add: sock_ring_def Let_def)
  then show ?thesis using dispatch_udp_cases(2) [OF assms False] False assms(2) by simp
qed

section \<open>Receiving\<close>

lemma recv_dgram_spec:
  assumes ok: "ring_ok r" and l: "ring_list r = packet_bytes pk @ d @ rest" and n: "unat (pk_data_len pk) = length d"
  shows "fst (recv_dgram len r) = (pk, take len d)" "ring_ok (snd (recv_dgram len r))" "ring_list (snd (recv_dgram len r)) = rest"
proof -
  note two = sr.get_two [OF ok l]
  have h: "fst (ring_take 8 r) = packet_bytes pk" using two by (simp add: ring_get_def split_def Let_def)
  have c: "ucast (pk_data_len pk) = (of_nat (length d) :: u32)" using n by (metis of_nat_unat)
  have r: "recv_dgram len r = ((pk, take (min len (length d)) (fst (ring_take (length d) (snd (ring_take 8 r))))),
      (snd (ring_take (length d) (snd (ring_take 8 r))))\<lparr>rlen := rlen r - (of_nat 8 + of_nat (length d))\<rparr>)"
    by (simp add: recv_dgram_def split_def Let_def h packet_roundtrip n c)
  show "fst (recv_dgram len r) = (pk, take len d)" "ring_ok (snd (recv_dgram len r))" "ring_list (snd (recv_dgram len r)) = rest"
    using two unfolding r take_two by (simp_all add: min_def)
qed

lemma recv_stream_spec:
  assumes "ring_ok r"
  shows "fst (recv_stream len r) = take len (ring_list r)" "ring_ok (snd (recv_stream len r))"
    "ring_list (snd (recv_stream len r)) = drop len (ring_list r)"
proof -
  let ?n = "min len (unat (rlen r))"
  have r: "recv_stream len r = ring_get ?n r" by (simp add: recv_stream_def ring_get_def Let_def)
  have "take ?n (ring_list r) = take len (ring_list r)" "drop ?n (ring_list r) = drop len (ring_list r)"
    by (simp_all add: min_def)
  then show "fst (recv_stream len r) = take len (ring_list r)" "ring_ok (snd (recv_stream len r))"
      "ring_list (snd (recv_stream len r)) = drop len (ring_list r)"
    using sr.get_held [OF assms, of ?n] by (simp_all add: r)
qed

lemma wait_data_ready: "buffer_len (sockets s ! i) \<noteq> 0 \<Longrightarrow> wait_data env k i s = Some s"
  by (subst wait_data.simps) simp

lemma ring_nonempty: "ring_list (sock_ring i s) \<noteq> [] \<Longrightarrow> buffer_len (sockets s ! i) \<noteq> 0"
proof
  assume "ring_list (sock_ring i s) \<noteq> []" and "buffer_len (sockets s ! i) = 0"
  then show False by (simp add: ring_list_def sock_ring_def Let_def)
qed

lemma recvfrom_dgram:
  assumes n: "node_socket n s = Some i" and c: "can_receive i s" and ty: "s_type (sockets s ! i) = SOCK_DGRAM"
    and l: "ring_list (sock_ring i s) = packet_bytes pk @ d @ rest" and d: "unat (pk_data_len pk) = length d"
  shows "\<exists>s'. socket_recvfrom env n len w s = Some (take len d,
      if w then Some \<lparr>sin_family = AF_INET, sin_port = htons (pk_src_port pk), sin_addr = pk_src_ip pk\<rparr> else None, s') \<and>
    can_receive i s' \<and> ring_list (sock_ring i s') = rest"
proof -
  have i: "i < length (sockets s)" and ok: "ring_ok (sock_ring i s)" using c by (simp_all add: can_receive_def)
  have "ring_list (sock_ring i s) \<noteq> []" using l packet_bytes_length [of pk] by (metis append_is_Nil_conv length_0_conv zero_neq_numeral)
  then have w: "wait_data env 0 i s = Some s" by (rule wait_data_ready [OF ring_nonempty])
  note r = recv_dgram_spec [OF ok l d, of len]
  define s' where "s' = set_ring i (snd (recv_dgram len (sock_ring i s))) s"
  have "recv_dgram len (sock_ring i s) = ((pk, take len d), snd (recv_dgram len (sock_ring i s)))"
    using r(1) by (metis prod.collapse)
  then have "socket_recvfrom env n len w s = Some (take len d,
      if w then Some \<lparr>sin_family = AF_INET, sin_port = htons (pk_src_port pk), sin_addr = pk_src_ip pk\<rparr> else None, s')"
    by (simp add: socket_recvfrom_def n w ty s'_def split: prod.split) (auto simp: s'_def)
  moreover have "can_receive i s'" "sock_ring i s' = snd (recv_dgram len (sock_ring i s))"
    using c i r(2) by (simp_all add: s'_def can_receive_def set_ring_socket)
  ultimately show ?thesis using r(3) by simp
qed

lemma recvfrom_stream:
  assumes n: "node_socket n s = Some i" and c: "can_receive i s" and ty: "s_type (sockets s ! i) \<noteq> SOCK_DGRAM"
    and l: "ring_list (sock_ring i s) \<noteq> []"
  shows "\<exists>s'. socket_recvfrom env n len w s = Some (take len (ring_list (sock_ring i s)), None, s') \<and>
    can_receive i s' \<and> ring_list (sock_ring i s') = drop len (ring_list (sock_ring i s))"
proof -
  have i: "i < length (sockets s)" and ok: "ring_ok (sock_ring i s)" using c by (simp_all add: can_receive_def)
  have w: "wait_data env 0 i s = Some s" using l by (rule wait_data_ready [OF ring_nonempty])
  note r = recv_stream_spec [OF ok, of len]
  define s' where "s' = set_ring i (snd (recv_stream len (sock_ring i s))) s"
  have "socket_recvfrom env n len w s = Some (take len (ring_list (sock_ring i s)), None, s')"
    using r(1) by (simp add: socket_recvfrom_def n w ty s'_def split_def)
  moreover have "can_receive i s'" "sock_ring i s' = snd (recv_stream len (sock_ring i s))"
    using c i r(2) by (simp_all add: s'_def can_receive_def set_ring_socket)
  ultimately show ?thesis using r(3) by simp
qed

text \<open>
  datagrams are delivered by port alone. One that arrives for the port of a stream socket
  is put into its byte stream, and the reader receives the 8-byte datagram header, followed by
  the payload, as if its peer had sent them.
\<close>

theorem udp_reaches_stream_socket:
  assumes "port_socket dest_port s = Some i" and "can_receive i s" and "node_socket n s = Some i"
    and "s_type (sockets s ! i) = SOCK_STREAM" and "ring_list (sock_ring i s) = []" and "length data \<le> 4088"
  shows "\<exists>s' s''. socket_dispatch_udp dest_port data src_ip src_port s = Some s' \<and>
    socket_recvfrom env n 4096 w s' = Some (dgram_bytes src_ip src_port data, None, s'')"
proof -
  let ?r = "ring_put (dgram_bytes src_ip src_port data) (sock_ring i s)"
  have i: "i < length (sockets s)" and ok: "ring_ok (sock_ring i s)" using assms(2) by (simp_all add: can_receive_def)
  have dl: "length (dgram_bytes src_ip src_port data) = 8 + length data" by (simp add: dgram_bytes_def)
  have put: "ring_ok ?r" "ring_list ?r = dgram_bytes src_ip src_port data"
    using sr.put_held [OF ok, of "dgram_bytes src_ip src_port data"] assms(5,6) by (simp_all add: dl)
  define s' where "s' = wake_socket i (set_ring i ?r s)"
  have "unat (buffer_len (sockets s ! i)) = 0" using assms(5) by (simp add: ring_list_def sock_ring_def Let_def)
  then have d: "socket_dispatch_udp dest_port data src_ip src_port s = Some s'"
    using dispatch_udp_cases(1) [OF assms(1,2), of data] assms(6) by (simp add: s'_def)
  have c: "can_receive i s'" "sock_ring i s' = ?r" "node_socket n s' = Some i" "s_type (sockets s' ! i) = SOCK_STREAM"
    using i assms(2-4) put(1)
    by (simp_all add: s'_def can_receive_def wake_socket_nth set_ring_socket node_socket_def)
  have "ring_list (sock_ring i s') \<noteq> []" using put(2) c(2) dl by (metis add_is_0 list.size(3) zero_neq_numeral)
  then show ?thesis
    using d recvfrom_stream [OF c(3,1), of env 4096 w] c(2,4) put(2) dl assms(6) by (auto simp: sock_consts)
qed

section \<open>TCP streams\<close>

lemma tcp_data_shape:
  assumes sk: "pcb_socket (pcbs s p) = Some i" and c: "can_receive i s" and l: "length data \<le> 65535"
  shows "tcp_data_input p seq data s = (if length (ring_list (sock_ring i s)) + length data \<le> 4096
    then do {
      s2 \<leftarrow> tcp_send_segment p TCP_ACK [] (upd_pcb p (\<lambda>q. q\<lparr>rcv_nxt := seq + of_nat (length data)\<rparr>)
        (set_ring i (ring_put data (sock_ring i s)) s));
      Some (wake_socket i s2) }
    else Some s)"
proof -
  have b: "s_buffer (sockets s ! i) \<noteq> 0" and ok: "ring_ok (sock_ring i s)" using c by (simp_all add: can_receive_def)
  have rl: "rlen (sock_ring i s) = buffer_len (sockets s ! i)" by (simp add: sock_ring_def Let_def)
  have "buffer_len (sockets s ! i) + of_nat (length data) \<le> SOCKET_BUFFER_SIZE \<longleftrightarrow>
      length (ring_list (sock_ring i s)) + length data \<le> 4096"
    using ring_room [OF ok, of data] l by (simp add: rl)
  then show ?thesis using b sk by (simp add: tcp_data_input_def fold_count)
qed

lemma tcp_data_result:
  assumes sk: "pcb_socket (pcbs s p) = Some i" and c: "can_receive i s" and l: "length data \<le> 65535"
    and fit: "length (ring_list (sock_ring i s)) + length data \<le> 4096" and r: "tcp_data_input p seq data s = Some s'"
  shows "can_receive i s'" "ring_list (sock_ring i s') = ring_list (sock_ring i s) @ data"
    "rcv_nxt (pcbs s' p) = seq + of_nat (length data)" "pcb_socket (pcbs s' p) = Some i" "tcp_pcbs s' = tcp_pcbs s"
    "pcbs s' = (pcbs s)(p := (pcbs s p)\<lparr>rcv_nxt := seq + of_nat (length data), snd_nxt := snd_nxt (pcbs s p) + seq_inc TCP_ACK []\<rparr>)"
proof -
  let ?r = "ring_put data (sock_ring i s)"
  have i: "i < length (sockets s)" and ok: "ring_ok (sock_ring i s)" using c by (simp_all add: can_receive_def)
  let ?s1 = "upd_pcb p (\<lambda>q. q\<lparr>rcv_nxt := seq + of_nat (length data)\<rparr>) (set_ring i ?r s)"
  obtain s2 where s2: "tcp_send_segment p TCP_ACK [] ?s1 = Some s2" "s' = wake_socket i s2"
    using r fit unfolding tcp_data_shape [OF sk c l] by (auto split: bind_splits)
  note f = tcp_send_sel [OF s2(1), simplified]
  have put: "ring_ok ?r" "ring_list ?r = ring_list (sock_ring i s) @ data" using sr.put_held [OF ok fit] by simp_all
  have i2: "i < length (sockets s2)" using i by (simp add: f(3))
  have "sock_ring i s2 = sock_ring i (set_ring i ?r s)" by (simp add: sock_ring_def f(3,4))
  then have sr': "sock_ring i s' = ?r" using i i2 by (simp add: s2(2))
  show "can_receive i s'"
    using c i i2 put(1) sr' by (simp add: can_receive_def s2(2) wake_socket_nth f(3) set_ring_socket)
  show "ring_list (sock_ring i s') = ring_list (sock_ring i s) @ data" using sr' put(2) by simp
  show p: "pcbs s' = (pcbs s)(p := (pcbs s p)\<lparr>rcv_nxt := seq + of_nat (length data), snd_nxt := snd_nxt (pcbs s p) + seq_inc TCP_ACK []\<rparr>)"
    by (simp add: s2(2) f(1))
  show "rcv_nxt (pcbs s' p) = seq + of_nat (length data)" "pcb_socket (pcbs s' p) = Some i" using sk by (simp_all add: p)
  show "tcp_pcbs s' = tcp_pcbs s" by (simp add: s2(2) f(2))
qed

text \<open>A data segment for an established connection: which block it is for and where its data is.\<close>

definition data_segment :: "u8 list \<Rightarrow> nat \<Rightarrow> u16 \<Rightarrow> mem \<Rightarrow> 'a tcpip_scheme \<Rightarrow> u32 \<Rightarrow> nat \<Rightarrow> u8 list \<Rightarrow> bool" where
  "data_segment src_ip t len m s p i data \<longleftrightarrow>
     (\<exists>k. find_index (tcp_match (ntohs (rd16 m (t + 2))) (ntohs (rd16 m t)) src_ip s) 0 MAX_TCP_PCBS = Some k \<and>
        p = tcp_pcbs s ! k) \<and>
     pcb_state (pcbs s p) = TCP_ESTABLISHED \<and> m (t + 13) AND TCP_FIN = 0 \<and> pcb_socket (pcbs s p) = Some i \<and>
     4 * unat (drop_bit 4 (m (t + 12))) < unat len \<and>
     data = drop (4 * unat (drop_bit 4 (m (t + 12)))) (rd_bytes m t (unat len))"

lemma data_segment_input:
  assumes "data_segment src_ip t len m s p i data"
  shows "tcp_input src_ip t len m s = tcp_data_input p (ntohl (rd32 m (t + 4))) data s"
    "pcb_socket (pcbs s p) = Some i" "length data \<le> 65535"
proof -
  show "tcp_input src_ip t len m s = tcp_data_input p (ntohl (rd32 m (t + 4))) data s" "pcb_socket (pcbs s p) = Some i"
    using assms by (auto simp: data_segment_def tcp_input_def tcp_dispatch_def tcp_established_input_def)
  have "length data \<le> unat len" using assms by (simp add: data_segment_def)
  then show "length data \<le> 65535" using unat_lt_u16 [of len] by linarith
qed

lemma data_segment_again:
  assumes d: "data_segment src_ip t len m s p i data" and c: "can_receive i s"
    and fit: "length (ring_list (sock_ring i s)) + length data \<le> 4096" and r: "tcp_input src_ip t len m s = Some s'"
  shows "data_segment src_ip t len m s' p i data" "can_receive i s'"
    "ring_list (sock_ring i s') = ring_list (sock_ring i s) @ data"
    "rcv_nxt (pcbs s' p) = ntohl (rd32 m (t + 4)) + of_nat (length data)"
proof -
  note i = data_segment_input [OF d]
  note f = tcp_data_result [OF i(2) c i(3) fit r [unfolded i(1)]]
  have "tcp_match dp sp src_ip s' = tcp_match dp sp src_ip s" for dp sp
    by (auto simp: fun_eq_iff tcp_match_def Let_def f(5,6))
  then show "data_segment src_ip t len m s' p i data" using d by (auto simp: data_segment_def f(5,6))
qed (use tcp_data_result [OF data_segment_input(2) [OF d] c data_segment_input(3) [OF d] fit r [unfolded data_segment_input(1) [OF d]]] in auto)

lemma data_segment_returns:
  assumes d: "data_segment src_ip t len m s p i data" and c: "can_receive i s"
    and h: "kheap_ok base (heap s)" "\<forall>h. kmalloc 20 (heap s) \<noteq> Some (0, h)"
    and fit: "length (ring_list (sock_ring i s)) + length data \<le> 4096"
  obtains s' where "tcp_input src_ip t len m s = Some s'" "kheap_ok base (heap s')"
    "kheap_live base (heap s') = kheap_live base (heap s)"
proof -
  note i = data_segment_input [OF d]
  let ?s1 = "upd_pcb p (\<lambda>q. q\<lparr>rcv_nxt := ntohl (rd32 m (t + 4)) + of_nat (length data)\<rparr>)
        (set_ring i (ring_put data (sock_ring i s)) s)"
  have h1: "heap ?s1 = heap s" by simp
  obtain s2 where s2: "tcp_send_segment p TCP_ACK [] ?s1 = Some s2" "kheap_ok base (heap s2)"
      "kheap_live base (heap s2) = kheap_live base (heap s)"
    by (rule tcp_send_ok [of base ?s1 "[]" p TCP_ACK]) (use h h1 in auto)
  have "tcp_input src_ip t len m s = Some (wake_socket i s2)"
    using s2(1) fit by (simp add: i(1) tcp_data_shape [OF i(2) c i(3)])
  then show ?thesis using that s2(2,3) by simp
qed





text \<open>
  the receiver does not look at the sequence number. The same segment received twice, as
  happens when an acknowledgement is lost, is delivered to the reader twice.
\<close>

theorem tcp_retransmission_duplicates:
  assumes "data_segment src_ip t len m s p i data" and "can_receive i s"
    and "length (ring_list (sock_ring i s)) + 2 * length data \<le> 4096"
    and "tcp_input src_ip t len m s = Some s'" and "tcp_input src_ip t len m s' = Some s''"
  shows "ring_list (sock_ring i s'') = ring_list (sock_ring i s) @ data @ data"
proof -
  have fit: "length (ring_list (sock_ring i s)) + length data \<le> 4096" using assms(3) by simp
  note a = data_segment_again [OF assms(1,2) fit assms(4)]
  have "length (ring_list (sock_ring i s')) = length (ring_list (sock_ring i s)) + length data"
    using arg_cong [OF a(3), of length] by simp
  then have fit': "length (ring_list (sock_ring i s')) + length data \<le> 4096" using assms(3) by linarith
  show ?thesis using data_segment_again(3) [OF a(1,2) fit' assms(5)] a(3) by simp
qed

section \<open>Lengths in 16 bits\<close>

text \<open>
  a segment with more than 65515 bytes of data wraps its 16-bit length, so that the copy
  of the data runs past the buffer that was allocated for it: there is no defined result.
\<close>

theorem tcp_send_overflow:
  assumes "65516 \<le> length data" and "length data \<le> 65535"
  shows "tcp_send_segment p flags data s = None"
proof -
  have "unat (20 + of_nat (length data) :: u16) = (20 + length data) mod 65536"
    using unat_of_nat [of "20 + length data", where ?'a = 16] by (simp add: take_bit_eq_mod)
  also have "(20 + length data) mod 65536 = length data - 65516"
    using assms by (simp add: mod_if)
  finally have "unat (20 + of_nat (length data) :: u16) < 20 + length data" using assms by linarith
  then show ?thesis by (auto simp: tcp_send_segment_def Let_def split: bind_splits)
qed

text \<open>
  the length of a message is cut to 16 bits on the way to TCP. Sending 65536 bytes on an
  established connection sends an empty segment, and the caller is told that all went out.
\<close>

theorem socket_sendto_truncates:
  assumes "node_socket n s = Some i" and "s_type (sockets s ! i) = SOCK_STREAM" and "s_tcp_pcb (sockets s ! i) = p"
    and "p \<noteq> 0" and "pcb_state (pcbs s p) = TCP_ESTABLISHED" and "length message = 65536"
  shows "socket_sendto n message None s =
    map_option (\<lambda>s'. (65536, s')) (tcp_send_segment p (TCP_ACK OR TCP_PSH) [] s)"
  using assms by (cases "tcp_send_segment p (TCP_ACK OR TCP_PSH) [] s") (simp_all add: socket_sendto_def sock_consts Let_def)

section \<open>Reuse of a socket slot\<close>

text \<open>
  a new socket inherits the control block pointer of the socket that used its slot before.
  When that block has been released, listening on the new stream socket reports success and
  works on the released block: the table of connections does not contain it, so no connection
  request is ever matched to it.
\<close>

theorem socket_slot_stale_pcb:
  assumes slot: "find_index (\<lambda>i. s_in_use (sockets s ! i) = 0) 0 MAX_SOCKETS = Some i" "length (sockets s) = 32"
    and stale: "s_tcp_pcb (sockets s ! i) = p" "p \<noteq> 0" "p \<notin> set (tcp_pcbs s)"
    and new: "socket_create domain SOCK_STREAM protocol s = Some (n, s')"
  shows "\<exists>s''. socket_listen n s' = Some (0, s'') \<and> s_tcp_pcb (sockets s'' ! i) = p \<and>
    pcb_state (pcbs s'' p) = TCP_LISTEN \<and> p \<notin> set (tcp_pcbs s'')"
proof -
  have i: "i < 32" using slot(1) by (simp add: find_index_Some MAX_SOCKETS_def)
  have f: "node_socket n s' = Some i" "sockets s' = (sockets s)[i := sockets s' ! i]"
      "s_tcp_pcb (sockets s' ! i) = p" "s_type (sockets s' ! i) = SOCK_STREAM" "tcp_pcbs s' = tcp_pcbs s"
    using new slot i stale(1)
    by (auto simp: socket_create_def kalloc_deref_def kalloc_def node_socket_def upd_socket_def Let_def split: bind_splits if_splits)
  have "socket_listen n s' = Some (0, upd_pcb p (\<lambda>q. q\<lparr>pcb_local_port := s_local_port (sockets s' ! i), pcb_state := TCP_LISTEN\<rparr>) s')"
    using f stale(2) by (simp add: socket_listen_def ensure_pcb_def)
  then show ?thesis using f stale(3) by simp
qed

section \<open>Instances\<close>

text \<open>A host with one datagram socket, bound to port 1234.\<close>

definition demo_socket :: socket where
  "demo_socket = \<lparr>s_domain = 2, s_type = 2, s_protocol = 0, s_local_port = 1234, s_local_addr = 0, s_remote_port = 0,
     s_remote_addr = 0, s_buffer = 0xC0500000, buffer_head = 0, buffer_tail = 0, buffer_len = 0, waiting_task = 0,
     s_tcp_pcb = 0, s_in_use = 1\<rparr>"

definition demo_host :: tcpip where
  "demo_host = net.extend (demo_net\<lparr>nodes := (\<lambda>_. zero_node\<lparr>vptr := Socket_ptr 0\<rparr>)\<rparr>)
     \<lparr>tcp_pcbs = replicate 16 0, pcbs = (\<lambda>_. new_pcb), next_port = 10000,
      sockets = demo_socket # replicate 31 (demo_socket\<lparr>s_in_use := 0\<rparr>), sock_bufs = (\<lambda>_ _. 0)\<rparr>"

lemma demo_host_ok:
  "net_ok demo_host" "nic_send demo_host" "heap demo_host = heap_demo" "sent demo_host = []"
  "my_ip demo_host = [10, 0, 2, 15]" "node_socket n demo_host = Some 0" "sockets demo_host ! 0 = demo_socket"
  by (simp_all add: demo_host_def net.defs demo_net_def net_ok_def broadcast_mac_def node_socket_def)

lemma demo_host_socket:
  "port_socket 1234 demo_host = Some 0" "can_receive 0 demo_host" "ring_list (sock_ring 0 demo_host) = []"
proof -
  have "sockets demo_host ! 0 = demo_socket" by (rule demo_host_ok)
  then show "port_socket 1234 demo_host = Some 0"
    by (simp add: port_socket_def find_index_Some demo_socket_def MAX_SOCKETS_def)
  show "ring_list (sock_ring 0 demo_host) = []"
    by (simp add: ring_list_def sock_ring_def demo_host_ok demo_socket_def)
  have "length (sockets demo_host) = 32" by (simp add: demo_host_def net.defs)
  then show "can_receive 0 demo_host"
    by (simp add: can_receive_def ring_ok_def sock_ring_def demo_host_ok demo_socket_def)
qed

theorem socket_dispatch_udp_queues_witness:
  "\<exists>s'. socket_dispatch_udp 1234 [1, 2, 3] [10, 0, 2, 2] 5000 demo_host = Some s' \<and>
     ring_list (sock_ring 0 s') = dgram_bytes [10, 0, 2, 2] 5000 [1, 2, 3]"
  using socket_dispatch_udp_queues [OF demo_host_socket(1,2), of "[1, 2, 3]" "[10, 0, 2, 2]" 5000] demo_host_socket(3)
  by auto

text \<open>The same host with an established connection on slot 0, and a segment with three bytes for it.\<close>

definition demo_pcb :: tcp_pcb where
  "demo_pcb = new_pcb\<lparr>pcb_local_port := 80, pcb_remote_port := 5000, remote_ip := 0x0202000A, pcb_state := TCP_ESTABLISHED,
     pcb_socket := Some 0\<rparr>"

definition demo_conn :: tcpip where
  "demo_conn = demo_host\<lparr>tcp_pcbs := 0x1000 # replicate 15 0, pcbs := (\<lambda>_. demo_pcb),
     sockets := demo_socket\<lparr>s_type := 1, s_tcp_pcb := 0x1000\<rparr> # replicate 31 (demo_socket\<lparr>s_in_use := 0, s_tcp_pcb := 0x2000\<rparr>)\<rparr>"

definition demo_segment :: mem where
  "demo_segment = wr_bytes 20 [7, 8, 9] (wr8 13 0x10 (wr8 12 0x50 (wr16 2 (htons 80) (wr16 0 (htons 5000) (\<lambda>_. 0)))))"

lemma demo_conn_ok:
  "net_ok demo_conn" "heap demo_conn = heap_demo" "node_socket n demo_conn = Some 0" "can_receive 0 demo_conn"
  "ring_list (sock_ring 0 demo_conn) = []" "pcbs demo_conn = (\<lambda>_. demo_pcb)" "length (sockets demo_conn) = 32"
  "sockets demo_conn ! 0 = demo_socket\<lparr>s_type := 1, s_tcp_pcb := 0x1000\<rparr>" "tcp_pcbs demo_conn ! 0 = 0x1000"
  "tcp_pcbs demo_conn = 0x1000 # replicate 15 0"
  using demo_host_ok(1,3,6)
  by (simp_all add: demo_conn_def net_ok_def node_socket_def can_receive_def ring_ok_def sock_ring_def ring_list_def demo_socket_def)

lemma demo_conn_segment: "data_segment [10, 0, 2, 2] 0 23 demo_segment demo_conn 0x1000 0 [7, 8, 9]"
proof -
  have m: "rd16 demo_segment 0 = htons 5000" "rd16 demo_segment 2 = htons 80" "demo_segment 13 = 0x10" "demo_segment 12 = 0x50"
      "rd_bytes demo_segment 20 3 = [7, 8, 9]"
    by (simp_all add: demo_segment_def packet_simps)
  have "bytes32 0x0202000A = [10, 0, 2, 2]" by (simp add: bytes32_def drop_bit_eq_div)
  then have "tcp_match 80 5000 [10, 0, 2, 2] demo_conn 0"
    by (simp add: tcp_match_def Let_def demo_conn_ok demo_pcb_def new_pcb_def memcmp_zero)
  then have "find_index (tcp_match 80 5000 [10, 0, 2, 2] demo_conn) 0 MAX_TCP_PCBS = Some 0"
    by (simp add: find_index_Some MAX_TCP_PCBS_def)
  moreover have "drop 20 (rd_bytes demo_segment 0 23) = [7, 8, 9]"
    using rd_bytes_split [of demo_segment 0 20 3] m(5) by simp
  moreover have "drop_bit 4 (0x50 :: u8) = 5" by (simp add: drop_bit_eq_div)
  ultimately show ?thesis using m m(2) [unfolded numeral_2_eq_2]
    by (simp add: data_segment_def demo_conn_ok demo_pcb_def TCP_FIN_def)
qed


theorem tcp_retransmission_duplicates_witness:
  "\<exists>s' s''. tcp_input [10, 0, 2, 2] 0 23 demo_segment demo_conn = Some s' \<and>
     tcp_input [10, 0, 2, 2] 0 23 demo_segment s' = Some s'' \<and> ring_list (sock_ring 0 s'') = [7, 8, 9, 7, 8, 9]"
proof -
  have h: "kheap_ok 0xC0400000 (heap demo_conn)" "kheap_live 0xC0400000 (heap demo_conn) = {}"
      "\<forall>h. kmalloc 20 (heap demo_conn) \<noteq> Some (0, h)"
    using heap_demo_room by (simp_all add: demo_conn_ok)
  have fit: "length (ring_list (sock_ring 0 demo_conn)) + length [7 :: u8, 8, 9] \<le> 4096" by (simp add: demo_conn_ok)
  obtain s' where s': "tcp_input [10, 0, 2, 2] 0 23 demo_segment demo_conn = Some s'" "kheap_ok 0xC0400000 (heap s')"
      "kheap_live 0xC0400000 (heap s') = {}"
    using data_segment_returns [OF demo_conn_segment demo_conn_ok(4) h(1,3) fit] h(2) by metis
  note a = data_segment_again [OF demo_conn_segment demo_conn_ok(4) fit s'(1)]
  have fit': "length (ring_list (sock_ring 0 s')) + length [7 :: u8, 8, 9] \<le> 4096" using a(3) by (simp add: demo_conn_ok)
  have "\<forall>h. kmalloc 20 (heap s') \<noteq> Some (0, h)" using unused_heap_room [OF s'(2,3), of 20] by simp
  then obtain s'' where "tcp_input [10, 0, 2, 2] 0 23 demo_segment s' = Some s''"
    using data_segment_returns [OF a(1,2) s'(2) _ fit'] by metis
  then show ?thesis
    using tcp_retransmission_duplicates [OF demo_conn_segment demo_conn_ok(4) _ s'(1)] s'(1) by (simp add: demo_conn_ok)
qed

theorem udp_reaches_stream_socket_witness:
  "\<exists>s' s''. socket_dispatch_udp 1234 [1] [10, 0, 2, 2] 53 demo_conn = Some s' \<and>
     socket_recvfrom (\<lambda>_ s. s) 0 4096 False s' = Some (dgram_bytes [10, 0, 2, 2] 53 [1], None, s'')"
proof -
  have "port_socket 1234 demo_conn = Some 0"
    by (simp add: port_socket_def find_index_Some MAX_SOCKETS_def demo_conn_ok demo_socket_def)
  moreover have "s_type (sockets demo_conn ! 0) = SOCK_STREAM" by (simp add: demo_conn_ok SOCK_STREAM_def)
  ultimately show ?thesis
    using udp_reaches_stream_socket [OF _ demo_conn_ok(4,3) _ demo_conn_ok(5), of 1234 "[1]" "[10, 0, 2, 2]" 53] by auto
qed

theorem tcp_send_overflow_witness: "tcp_send_segment 0x1000 TCP_ACK (replicate 65530 0) demo_conn = None"
  by (rule tcp_send_overflow) simp_all

theorem socket_sendto_truncates_witness:
  "socket_sendto 0 (replicate 65536 0) None demo_conn =
     map_option (\<lambda>s'. (65536, s')) (tcp_send_segment 0x1000 (TCP_ACK OR TCP_PSH) [] demo_conn)"
  by (rule socket_sendto_truncates [OF demo_conn_ok(3)]) (simp_all add: demo_conn_ok demo_pcb_def SOCK_STREAM_def)

lemma demo_conn_slot: "find_index (\<lambda>i. s_in_use (sockets demo_conn ! i) = 0) 0 MAX_SOCKETS = Some 1"
    "s_tcp_pcb (sockets demo_conn ! 1) = 0x2000"
  by (simp_all add: find_index_Some MAX_SOCKETS_def demo_conn_def demo_socket_def)

lemma demo_conn_create: "\<exists>n s'. socket_create 2 SOCK_STREAM 0 demo_conn = Some (n, s')"
proof -
  let ?h1 = "kmalloc_take 4112 0xC0400000 heap_demo"
  have i1: "heap_inv 0xC0400000 ?h1 [(0xC0400000, 4112, False), (0xC0401010, 0x3FEFF0, True)]"
    by (rule kmalloc_take_inv [OF heap_demo_inv]) (simp_all add: HEAP_SIZE_def split_block_def)
  have "kmalloc SOCKET_BUFFER_SIZE heap_demo = Some (0xC0400010, ?h1)"
    by (simp add: kmalloc_refines [OF heap_demo_inv] align4_def HEAP_SIZE_def SOCKET_BUFFER_SIZE_def)
  moreover have "\<exists>h. kmalloc sizeof_vfs_node ?h1 = Some (0xC0401020, h)"
    by (simp add: kmalloc_refines [OF i1] align4_def sizeof_vfs_node_def)
  ultimately show ?thesis
    unfolding socket_create_def demo_conn_slot option.case by (auto simp: kalloc_def kalloc_deref_def demo_conn_ok)
qed

theorem socket_slot_stale_pcb_witness:
  "\<exists>n s' s''. socket_create 2 SOCK_STREAM 0 demo_conn = Some (n, s') \<and> socket_listen n s' = Some (0, s'') \<and>
     s_tcp_pcb (sockets s'' ! 1) = 0x2000 \<and> 0x2000 \<notin> set (tcp_pcbs s'')"
proof -
  obtain n s' where c: "socket_create 2 SOCK_STREAM 0 demo_conn = Some (n, s')" using demo_conn_create by blast
  have "0x2000 \<notin> set (tcp_pcbs demo_conn)" by (simp add: demo_conn_ok)
  then show ?thesis
    using socket_slot_stale_pcb [OF demo_conn_slot(1) demo_conn_ok(7) demo_conn_slot(2) _ _ c] c by auto
qed

end
