(* ===== verification/Bitmap.thy ===== *)
theory Bitmap
  imports Peker_Prelude
begin

text \<open>
  The contract of a bitmap of resources, as the physical memory manager
  (\<open>kernel/mm/pmm.c\<close>) and the block allocator of PAFS (\<open>kernel/fs/pafs.c\<close>) use it:
  setting or clearing one bit is visible at that index and nowhere else. Both components
  implement it on an array of bytes, eight resources to a byte. The consequences proved
  here once (ranges of bits, the number of set bits) are what their allocation and
  accounting properties rest on.
\<close>

locale bitmap =
  fixes bset :: "nat \<Rightarrow> 'm \<Rightarrow> 'm"
    and bclear :: "nat \<Rightarrow> 'm \<Rightarrow> 'm"
    and btest :: "'m \<Rightarrow> nat \<Rightarrow> bool"
    and bcap :: "'m \<Rightarrow> nat"
  assumes test_set: "\<lbrakk>i < bcap m; j < bcap m\<rbrakk> \<Longrightarrow> btest (bset i m) j \<longleftrightarrow> j = i \<or> btest m j"
    and test_clear: "\<lbrakk>i < bcap m; j < bcap m\<rbrakk> \<Longrightarrow> btest (bclear i m) j \<longleftrightarrow> j \<noteq> i \<and> btest m j"
    and cap_set: "bcap (bset i m) = bcap m"
    and cap_clear: "bcap (bclear i m) = bcap m"
begin

lemma used_set:
  assumes "n \<le> bcap m" and "i < n"
  shows "{j. j < n \<and> btest (bset i m) j} = insert i {j. j < n \<and> btest m j}"
  using assms by (auto simp: test_set)

lemma used_clear:
  assumes "n \<le> bcap m" and "i < n"
  shows "{j. j < n \<and> btest (bclear i m) j} = {j. j < n \<and> btest m j} - {i}"
  using assms by (auto simp: test_clear)

lemma card_used_set:
  assumes "n \<le> bcap m" and "i < n" and "\<not> btest m i"
  shows "card {j. j < n \<and> btest (bset i m) j} = Suc (card {j. j < n \<and> btest m j})"
  using assms by (simp add: used_set)

lemma card_used_clear:
  assumes "n \<le> bcap m" and "i < n" and "btest m i"
  shows "Suc (card {j. j < n \<and> btest (bclear i m) j}) = card {j. j < n \<and> btest m j}"
proof -
  have "i \<in> {j. j < n \<and> btest m j}" using assms by simp
  then have "Suc (card ({j. j < n \<and> btest m j} - {i})) = card {j. j < n \<and> btest m j}"
    by (intro card.remove [symmetric]) auto
  then show ?thesis using assms by (simp add: used_clear)
qed

text \<open>Marking a whole range, one bit at a time.\<close>

lemma range_set:
  assumes "hi \<le> bcap m"
  shows "bcap (for_range lo hi bset m) = bcap m \<and>
    (\<forall>j < bcap m. btest (for_range lo hi bset m) j \<longleftrightarrow> lo \<le> j \<and> j < hi \<or> btest m j)"
proof (cases "lo \<le> hi")
  case True
  then show ?thesis
    using assms
    by (intro for_range_inv [where P = "\<lambda>i t. bcap t = bcap m \<and>
          (\<forall>j < bcap m. btest t j \<longleftrightarrow> lo \<le> j \<and> j < i \<or> btest m j)"])
      (auto simp: test_set cap_set)
qed auto

lemma range_clear:
  assumes "hi \<le> bcap m"
  shows "bcap (for_range lo hi bclear m) = bcap m \<and>
    (\<forall>j < bcap m. btest (for_range lo hi bclear m) j \<longleftrightarrow> \<not> (lo \<le> j \<and> j < hi) \<and> btest m j)"
proof (cases "lo \<le> hi")
  case True
  then show ?thesis
    using assms
    by (intro for_range_inv [where P = "\<lambda>i t. bcap t = bcap m \<and>
          (\<forall>j < bcap m. btest t j \<longleftrightarrow> \<not> (lo \<le> j \<and> j < i) \<and> btest m j)"])
      (auto simp: test_clear cap_clear)
qed auto

text \<open>Marking a range of free resources uses up exactly as many of them.\<close>

lemma card_used_range:
  assumes "lo \<le> hi" and "hi \<le> n" and "n \<le> bcap m"
    and "\<forall>j. lo \<le> j \<and> j < hi \<longrightarrow> \<not> btest m j"
  shows "card {j. j < n \<and> btest (for_range lo hi bset m) j} =
    card {j. j < n \<and> btest m j} + (hi - lo)"
proof -
  have "{j. j < n \<and> btest (for_range lo hi bset m) j} = {j. j < n \<and> btest m j} \<union> {lo..<hi}"
    using assms(1-3) range_set [of hi m lo] by fastforce
  moreover have "{j. j < n \<and> btest m j} \<inter> {lo..<hi} = {}" using assms(4) by auto
  ultimately show ?thesis by (simp add: card_Un_disjoint)
qed

end

text \<open>
  Eight resources to a byte: the byte index and the bit index identify the resource.
\<close>

lemma div_mod_8_eq: "(i::nat) div 8 = j div 8 \<and> i mod 8 = j mod 8 \<longleftrightarrow> i = j"
  by (metis div_mult_mod_eq)

lemma bit_or_push: "k < 8 \<Longrightarrow> l < 8 \<Longrightarrow> bit (b OR 2 ^ k :: u8) l \<longleftrightarrow> l = k \<or> bit b l"
  by (auto simp: bit_or_iff bit_push_bit_iff bit_1_iff bit_exp_iff)

lemma bit_and_not_push:
  "k < 8 \<Longrightarrow> l < 8 \<Longrightarrow> bit (b AND NOT (2 ^ k) :: u8) l \<longleftrightarrow> l \<noteq> k \<and> bit b l"
  by (auto simp: bit_and_iff bit_not_iff bit_push_bit_iff bit_1_iff bit_exp_iff)

lemma and_1_neq_0: "(b AND 1 :: 'a :: len word) \<noteq> 0 \<longleftrightarrow> bit b 0"
proof -
  have "b AND 1 = of_bool (bit b 0)"
    by (simp add: and_one_eq odd_iff_mod_2_eq_one bit_0 mod2_eq_if)
  then show ?thesis by simp
qed

lemma and_push_neq_0: "k < 8 \<Longrightarrow> (b AND 2 ^ k :: u8) \<noteq> 0 \<longleftrightarrow> bit b k"
proof -
  assume "k < 8"
  have "b AND 2 ^ k = 0 \<longleftrightarrow> (\<forall>n < 8. \<not> bit (b AND 2 ^ k) n)"
    by (auto simp: bit_eq_iff)
  then show ?thesis using \<open>k < 8\<close>
    by (auto simp: bit_and_iff bit_push_bit_iff bit_1_iff bit_exp_iff)
qed

end
