(* ===== verification/Pafs.thy ===== *)
theory Pafs
  imports Bitmap Spinlock
begin

text \<open>
  PAFS, the native file system (\<open>kernel/fs/pafs.c\<close>, \<open>include/pafs.h\<close>): the in-memory
  superblock, inode table and block bitmap, the disk of 512-byte sectors behind them, the
  byte layout in which they are saved, and every operation on blocks, inodes, directories
  and files. C integers are words where they are stored in the structures; function results
  are \<open>int\<close>, with the source's negative error codes. Inode arguments are indices into
  the table of 128 inodes; an index outside it is undefined behaviour of the C code and is
  excluded by the invariants.
\<close>

section \<open>Constants and data\<close>

definition PAFS_MAGIC :: u32 where "PAFS_MAGIC = 0xAF5"
definition PAFS_BLOCK_SIZE :: nat where "PAFS_BLOCK_SIZE = 512"
definition PAFS_MAX_INODES :: nat where "PAFS_MAX_INODES = 128"
definition PAFS_TOTAL_BLOCKS :: nat where "PAFS_TOTAL_BLOCKS = 4096"

definition PAFS_TYPE_FREE :: u32 where "PAFS_TYPE_FREE = 0"
definition PAFS_TYPE_FILE :: u32 where "PAFS_TYPE_FILE = 1"
definition PAFS_TYPE_DIR :: u32 where "PAFS_TYPE_DIR = 2"

definition LBA_SUPERBLOCK :: nat where "LBA_SUPERBLOCK = 0"
definition LBA_INODES_START :: nat where "LBA_INODES_START = 1"
definition LBA_INODES_COUNT :: nat where "LBA_INODES_COUNT = 16"
definition LBA_BITMAP :: nat where "LBA_BITMAP = 17"
definition LBA_DATA_START :: nat where "LBA_DATA_START = 18"

lemmas pafs_consts =
  PAFS_MAGIC_def PAFS_BLOCK_SIZE_def PAFS_MAX_INODES_def PAFS_TOTAL_BLOCKS_def PAFS_TYPE_FREE_def
  PAFS_TYPE_FILE_def PAFS_TYPE_DIR_def LBA_SUPERBLOCK_def LBA_INODES_START_def
  LBA_INODES_COUNT_def LBA_BITMAP_def LBA_DATA_START_def

type_synonym sector = "u8 list"

text \<open>The superblock structure and the rest of the sector-sized buffer it lives in.\<close>

record pafs_superblock =
  magic :: u32
  total_blocks :: u32
  total_inodes :: u32
  free_blocks :: u32
  free_inodes :: u32
  root_inode :: u32
  sb_rest :: "u8 list"

record pafs_inode =
  itype :: u32
  isize :: u32
  iblocks :: "u32 list"

record pafs =
  sb :: pafs_superblock
  inodes :: "pafs_inode list"
  block_bitmap :: "u8 list"
  ramdisk_mode :: bool
  ramdisk :: "nat \<Rightarrow> sector"
  ata :: "nat \<Rightarrow> nat \<Rightarrow> sector"
  current_pafs_drive :: nat
  pafs_lock :: spinlock
  eflags :: u32

section \<open>Byte layout\<close>

text \<open>A 32-bit field at a byte offset of a buffer.\<close>

definition get32 :: "nat \<Rightarrow> u8 list \<Rightarrow> u32" where
  "get32 off d = le32 (d ! off) (d ! (off + 1)) (d ! (off + 2)) (d ! (off + 3))"

text \<open>\<open>memcpy (d + off, xs, length xs)\<close> inside a buffer.\<close>

definition overwrite :: "nat \<Rightarrow> u8 list \<Rightarrow> u8 list \<Rightarrow> u8 list" where
  "overwrite off xs d = take off d @ xs @ drop (off + length xs) d"

definition sb_bytes :: "pafs_superblock \<Rightarrow> sector" where
  "sb_bytes s = bytes32 (magic s) @ bytes32 (total_blocks s) @ bytes32 (total_inodes s) @
     bytes32 (free_blocks s) @ bytes32 (free_inodes s) @ bytes32 (root_inode s) @ sb_rest s"

definition sb_of :: "sector \<Rightarrow> pafs_superblock" where
  "sb_of d = \<lparr>magic = get32 0 d, total_blocks = get32 4 d, total_inodes = get32 8 d,
     free_blocks = get32 12 d, free_inodes = get32 16 d, root_inode = get32 20 d, sb_rest = drop 24 d\<rparr>"

definition inode_bytes :: "pafs_inode \<Rightarrow> u8 list" where
  "inode_bytes i = bytes32 (itype i) @ bytes32 (isize i) @ concat (map bytes32 (iblocks i))"

definition inode_of :: "u8 list \<Rightarrow> pafs_inode" where
  "inode_of d = \<lparr>itype = get32 0 d, isize = get32 4 d, iblocks = map (\<lambda>k. get32 (8 + 4 * k) d) [0..<14]\<rparr>"

text \<open>The eight inodes of a sector of the inode table.\<close>

definition inode_sector :: "pafs_inode list \<Rightarrow> nat \<Rightarrow> sector" where
  "inode_sector ins s = concat (map inode_bytes (take 8 (drop (8 * s) ins)))"

definition sector_inodes :: "sector \<Rightarrow> pafs_inode list" where
  "sector_inodes d = map (\<lambda>k. inode_of (take 64 (drop (64 * k) d))) [0..<8]"

section \<open>Blocks, inodes and the disk\<close>

definition pafs_bitmap_set :: "nat \<Rightarrow> u8 list \<Rightarrow> u8 list" where
  "pafs_bitmap_set b bm = bm[b div 8 := bm ! (b div 8) OR push_bit (b mod 8) 1]"

definition pafs_bitmap_clear :: "nat \<Rightarrow> u8 list \<Rightarrow> u8 list" where
  "pafs_bitmap_clear b bm = bm[b div 8 := bm ! (b div 8) AND NOT (push_bit (b mod 8) 1)]"

definition pafs_bitmap_test :: "u8 list \<Rightarrow> nat \<Rightarrow> bool" where
  "pafs_bitmap_test bm b \<longleftrightarrow> bm ! (b div 8) AND push_bit (b mod 8) 1 \<noteq> 0"

definition pafs_disk_read :: "nat \<Rightarrow> pafs \<Rightarrow> sector" where
  "pafs_disk_read lba st =
     (if ramdisk_mode st then ramdisk st lba else ata st (current_pafs_drive st) lba)"

definition pafs_disk_write :: "nat \<Rightarrow> sector \<Rightarrow> pafs \<Rightarrow> pafs" where
  "pafs_disk_write lba buf st =
     (if ramdisk_mode st then st\<lparr>ramdisk := (ramdisk st)(lba := buf)\<rparr>
      else st\<lparr>ata := (ata st)(current_pafs_drive st := (ata st (current_pafs_drive st))(lba := buf))\<rparr>)"

definition find_free_inode :: "pafs \<Rightarrow> int" where
  "find_free_inode st =
     (case find_index (\<lambda>i. itype (inodes st ! i) = PAFS_TYPE_FREE) 0 PAFS_MAX_INODES of
        Some i \<Rightarrow> int i | None \<Rightarrow> -1)"

definition pafs_save_superblock :: "pafs \<Rightarrow> pafs" where
  "pafs_save_superblock st = pafs_disk_write LBA_SUPERBLOCK (sb_bytes (sb st)) st"

definition pafs_save_inode :: "nat \<Rightarrow> pafs \<Rightarrow> pafs" where
  "pafs_save_inode ino st =
     (let sector_idx = ino div (512 div 64)
      in pafs_disk_write (LBA_INODES_START + sector_idx) (inode_sector (inodes st) sector_idx) st)"

definition pafs_save_bitmap :: "pafs \<Rightarrow> pafs" where
  "pafs_save_bitmap st = pafs_disk_write LBA_BITMAP (block_bitmap st) st"

definition alloc_block :: "pafs \<Rightarrow> int \<times> pafs" where
  "alloc_block st =
     (case find_index (\<lambda>i. \<not> pafs_bitmap_test (block_bitmap st) i) LBA_DATA_START PAFS_TOTAL_BLOCKS of
        Some i \<Rightarrow>
          (let st1 = st\<lparr>block_bitmap := pafs_bitmap_set i (block_bitmap st),
                        sb := (sb st)\<lparr>free_blocks := free_blocks (sb st) - 1\<rparr>\<rparr>
           in (int i, pafs_save_superblock (pafs_save_bitmap st1)))
      | None \<Rightarrow> (-1, st))"

definition save_metadata :: "pafs \<Rightarrow> pafs" where
  "save_metadata st =
     pafs_save_bitmap
       (for_range 0 LBA_INODES_COUNT
         (\<lambda>i s. pafs_disk_write (LBA_INODES_START + i) (inode_sector (inodes s) i) s)
         (pafs_save_superblock st))"

text \<open>Update of one inode of the table.\<close>

definition upd_inode :: "nat \<Rightarrow> (pafs_inode \<Rightarrow> pafs_inode) \<Rightarrow> pafs \<Rightarrow> pafs" where
  "upd_inode ino f st = st\<lparr>inodes := (inodes st)[ino := f (inodes st ! ino)]\<rparr>"

definition clear_blocks :: "pafs_inode \<Rightarrow> pafs_inode" where
  "clear_blocks i = i\<lparr>iblocks := for_range 0 14 (\<lambda>j bs. bs[j := 0]) (iblocks i)\<rparr>"

text \<open>Formatting: first the superblock, the inode table and the bitmap, then the root directory.\<close>

definition format_tables :: "pafs \<Rightarrow> pafs" where
  "format_tables st =
     (let st1 = st\<lparr>sb := (sb st)\<lparr>magic := PAFS_MAGIC, total_blocks := of_nat PAFS_TOTAL_BLOCKS,
            total_inodes := of_nat PAFS_MAX_INODES,
            free_blocks := of_nat (PAFS_TOTAL_BLOCKS - LBA_DATA_START),
            free_inodes := of_nat PAFS_MAX_INODES\<rparr>\<rparr>;
          st2 = for_range 0 PAFS_MAX_INODES
            (\<lambda>i. upd_inode i (\<lambda>n. clear_blocks (n\<lparr>itype := PAFS_TYPE_FREE, isize := 0\<rparr>))) st1;
          st3 = st2\<lparr>block_bitmap := for_range 0 512 (\<lambda>i bm. bm[i := 0]) (block_bitmap st2)\<rparr>
      in st3\<lparr>block_bitmap := for_range 0 LBA_DATA_START pafs_bitmap_set (block_bitmap st3)\<rparr>)"

definition pafs_format :: "pafs \<Rightarrow> pafs" where
  "pafs_format st =
     (let st4 = format_tables st;
          root_idx = nat (find_free_inode st4);
          st5 = upd_inode root_idx (\<lambda>n. clear_blocks (n\<lparr>itype := PAFS_TYPE_DIR, isize := 0\<rparr>)) st4;
          (b, st6) = alloc_block st5;
          st7 = upd_inode root_idx (\<lambda>n. n\<lparr>iblocks := (iblocks n)[0 := of_int b]\<rparr>) st6;
          st8 = pafs_disk_write (nat b) (replicate 512 0) st7;
          st9 = st8\<lparr>sb := (sb st8)\<lparr>root_inode := of_nat root_idx, free_inodes := free_inodes (sb st8) - 1\<rparr>\<rparr>
      in save_metadata st9)"

text \<open>Acquiring and releasing \<open>pafs_lock\<close>.\<close>

definition lock_pafs :: "pafs \<Rightarrow> pafs" where
  "lock_pafs st = (let (e, l) = spin_lock (eflags st, pafs_lock st) in st\<lparr>eflags := e, pafs_lock := l\<rparr>)"

definition unlock_pafs :: "pafs \<Rightarrow> pafs" where
  "unlock_pafs st = (let (e, l) = spin_unlock (eflags st, pafs_lock st) in st\<lparr>eflags := e, pafs_lock := l\<rparr>)"

text \<open>
  The probe of the four ATA positions: \<open>present i\<close> says whether the status port of
  position \<open>i\<close> reads something else than \<open>0xFF\<close>. The superblock buffer holds what
  the last probed position left there.
\<close>

fun probe_drives :: "(nat \<Rightarrow> bool) \<Rightarrow> nat list \<Rightarrow> pafs \<Rightarrow> nat option \<times> pafs" where
  "probe_drives present [] st = (None, st)"
| "probe_drives present (i # is) st =
     (let st1 = st\<lparr>sb := sb_of (replicate 512 0)\<rparr>
      in if \<not> present i then probe_drives present is st1
         else let st2 = st1\<lparr>sb := sb_of (ata st1 i LBA_SUPERBLOCK)\<rparr>
              in if magic (sb st2) = PAFS_MAGIC then (Some i, st2) else probe_drives present is st2)"

definition load_metadata :: "pafs \<Rightarrow> pafs" where
  "load_metadata st =
     st\<lparr>inodes := concat (map (\<lambda>i. sector_inodes (pafs_disk_read (LBA_INODES_START + i) st)) [0..<LBA_INODES_COUNT]),
        block_bitmap := pafs_disk_read LBA_BITMAP st\<rparr>"

definition pafs_init :: "(nat \<Rightarrow> bool) \<Rightarrow> pafs \<Rightarrow> pafs" where
  "pafs_init present st =
     (let (d, st1) = probe_drives present [0..<4] ((lock_pafs st)\<lparr>ramdisk_mode := False\<rparr>)
      in unlock_pafs
        (case d of
           None \<Rightarrow> pafs_format (st1\<lparr>ramdisk_mode := True, current_pafs_drive := 0,
                                    ramdisk := (\<lambda>_. replicate 512 0)\<rparr>)
         | Some i \<Rightarrow> load_metadata (st1\<lparr>current_pafs_drive := i\<rparr>)))"

section \<open>Directories\<close>

text \<open>
  A directory block holds sixteen entries of 32 bytes: the inode number and a name of at
  most 27 bytes with its terminator.
\<close>

definition entry_inode :: "sector \<Rightarrow> nat \<Rightarrow> u32" where
  "entry_inode d j = get32 (32 * j) d"

definition entry_name :: "sector \<Rightarrow> nat \<Rightarrow> cstring" where
  "entry_name d j = drop (32 * j + 4) d"

definition put_entry :: "nat \<Rightarrow> u32 \<Rightarrow> cstring \<Rightarrow> sector \<Rightarrow> sector" where
  "put_entry j ino name d =
     overwrite (32 * j + 4) (take 27 (cstr name) @ [0]) (overwrite (32 * j) (bytes32 ino) d)"

text \<open>
  The first step of the loops that write directories and files: block slot \<open>k\<close> gets a
  block if it has none; \<^term>\<open>False\<close> is the exit when the disk is full.
\<close>

definition ensure_block :: "nat \<Rightarrow> nat \<Rightarrow> pafs \<Rightarrow> bool \<times> pafs" where
  "ensure_block ino k st =
     (if iblocks (inodes st ! ino) ! k = 0 then
        let (b, s) = alloc_block st
        in if b = -1 then (False, s)
           else (True, upd_inode ino (\<lambda>n. n\<lparr>iblocks := (iblocks n)[k := of_int b]\<rparr>) s)
      else (True, st))"

function add_entry_loop :: "nat \<Rightarrow> nat \<Rightarrow> cstring \<Rightarrow> u32 \<Rightarrow> pafs \<Rightarrow> int \<times> pafs" where
  "add_entry_loop i dir_ino name file_ino st =
     (if i < 14 then
        let (ok, s) = ensure_block dir_ino i st
        in if \<not> ok then (-1, s)
           else
             let blk = unat (iblocks (inodes s ! dir_ino) ! i);
                 st1 = (if iblocks (inodes st ! dir_ino) ! i = 0
                        then pafs_disk_write blk (replicate 512 0) s else s);
                 data = pafs_disk_read blk st1
             in case find_index (\<lambda>j. entry_inode data j = 0) 0 16 of
                  Some j \<Rightarrow>
                    (let st2 = pafs_disk_write blk (put_entry j file_ino name data) st1;
                         st3 = upd_inode dir_ino (\<lambda>n. n\<lparr>isize := isize n + 32\<rparr>) st2
                     in (0, pafs_save_inode dir_ino st3))
                | None \<Rightarrow> add_entry_loop (Suc i) dir_ino name file_ino st1
      else (-1, st))"
  by pat_completeness auto
termination
  by (relation "measure (\<lambda>(i, _). 14 - i)") auto

declare add_entry_loop.simps [simp del]

definition pafs_add_entry :: "nat \<Rightarrow> cstring \<Rightarrow> u32 \<Rightarrow> pafs \<Rightarrow> int \<times> pafs" where
  "pafs_add_entry dir_ino name file_ino st =
     (if itype (inodes st ! dir_ino) \<noteq> PAFS_TYPE_DIR then (-1, st)
      else add_entry_loop 0 dir_ino name file_ino st)"

text \<open>The search shared by lookup and removal: the block slot and the index of the entry.\<close>

fun dir_search :: "(nat \<Rightarrow> sector) \<Rightarrow> u32 list \<Rightarrow> nat \<Rightarrow> cstring \<Rightarrow> (nat \<times> nat) option" where
  "dir_search rd [] i name = None"
| "dir_search rd (b # bs) i name =
     (if b = 0 then None
      else case find_index (\<lambda>j. entry_inode (rd (unat b)) j \<noteq> 0 \<and>
                                strcmp (entry_name (rd (unat b)) j) name = 0) 0 16 of
             Some j \<Rightarrow> Some (i, j)
           | None \<Rightarrow> dir_search rd bs (Suc i) name)"

definition pafs_find_entry :: "nat \<Rightarrow> cstring \<Rightarrow> pafs \<Rightarrow> int" where
  "pafs_find_entry dir_ino name st =
     (let dir = inodes st ! dir_ino
      in if itype dir \<noteq> PAFS_TYPE_DIR \<or> isize dir = 0 then -1
         else case dir_search (\<lambda>b. pafs_disk_read b st) (iblocks dir) 0 name of
                Some (i, j) \<Rightarrow> sint (entry_inode (pafs_disk_read (unat (iblocks dir ! i)) st) j)
              | None \<Rightarrow> -1)"

definition pafs_is_dir_empty :: "nat \<Rightarrow> pafs \<Rightarrow> bool" where
  "pafs_is_dir_empty ino st \<longleftrightarrow>
     itype (inodes st ! ino) = PAFS_TYPE_DIR \<and> isize (inodes st ! ino) = 0"

definition pafs_remove_entry :: "nat \<Rightarrow> cstring \<Rightarrow> pafs \<Rightarrow> int \<times> pafs" where
  "pafs_remove_entry dir_ino name st =
     (let dir = inodes st ! dir_ino
      in case dir_search (\<lambda>b. pafs_disk_read b st) (iblocks dir) 0 name of
           None \<Rightarrow> (-1, st)
         | Some (target_block, target_idx) \<Rightarrow>
             (let target_data = pafs_disk_read (unat (iblocks dir ! target_block)) st;
                  last_total = unat (isize dir div 32 - 1);
                  last_block_idx = last_total div 16;
                  last_in_block = last_total mod 16;
                  last_block_data = pafs_disk_read (unat (iblocks dir ! last_block_idx)) st;
                  st1 = (if target_block \<noteq> last_block_idx \<or> target_idx \<noteq> last_in_block
                         then pafs_disk_write (unat (iblocks dir ! target_block))
                                (overwrite (32 * target_idx)
                                   (take 32 (drop (32 * last_in_block) last_block_data)) target_data) st
                         else st);
                  st2 = pafs_disk_write (unat (iblocks dir ! last_block_idx))
                          (overwrite (32 * last_in_block) (replicate 32 0) last_block_data) st1;
                  st3 = upd_inode dir_ino (\<lambda>n. n\<lparr>isize := isize n - 32\<rparr>) st2
              in (0, pafs_save_inode dir_ino st3)))"

text \<open>Releasing the blocks of a deleted file: one iteration of the loop.\<close>

definition release_block :: "nat \<Rightarrow> nat \<Rightarrow> pafs \<Rightarrow> pafs" where
  "release_block ino i st =
     (let b = iblocks (inodes st ! ino) ! i
      in if b \<noteq> 0 then
           upd_inode ino (\<lambda>n. n\<lparr>iblocks := (iblocks n)[i := 0]\<rparr>)
             (st\<lparr>block_bitmap := pafs_bitmap_clear (unat b) (block_bitmap st),
                 sb := (sb st)\<lparr>free_blocks := free_blocks (sb st) + 1\<rparr>\<rparr>)
         else st)"

text \<open>The sections between \<open>spin_lock\<close> and \<open>spin_unlock\<close> are separate definitions.\<close>

definition delete_locked :: "nat \<Rightarrow> cstring \<Rightarrow> pafs \<Rightarrow> int \<times> pafs" where
  "delete_locked parent_ino name st =
     (let r = pafs_find_entry parent_ino name st
      in if r = -1 then (-1, st)
         else let ino = nat r
         in if itype (inodes st ! ino) = PAFS_TYPE_DIR \<and> \<not> pafs_is_dir_empty ino st then (-2, st)
            else let st1 = for_range 0 14 (release_block ino) st;
                     st2 = upd_inode ino (\<lambda>n. n\<lparr>itype := PAFS_TYPE_FREE, isize := 0\<rparr>) st1;
                     st3 = st2\<lparr>sb := (sb st2)\<lparr>free_inodes := free_inodes (sb st2) + 1\<rparr>\<rparr>;
                     (res, st4) = pafs_remove_entry parent_ino name st3
                 in (res, pafs_save_inode ino (pafs_save_bitmap (pafs_save_superblock st4))))"

definition with_lock :: "(pafs \<Rightarrow> 'r \<times> pafs) \<Rightarrow> pafs \<Rightarrow> 'r \<times> pafs" where
  "with_lock section st = (let (r, st1) = section (lock_pafs st) in (r, unlock_pafs st1))"

definition pafs_delete :: "nat \<Rightarrow> cstring \<Rightarrow> pafs \<Rightarrow> int \<times> pafs" where
  "pafs_delete parent_ino name = with_lock (delete_locked parent_ino name)"

definition create_locked :: "nat \<Rightarrow> cstring \<Rightarrow> bool \<Rightarrow> pafs \<Rightarrow> int \<times> pafs" where
  "create_locked dir_ino name is_dir st =
     (if free_inodes (sb st) = 0 then (-1, st)
      else if pafs_find_entry dir_ino name st \<noteq> -1 then (-1, st)
      else if find_free_inode st = -1 then (-1, st)
      else let new_ino = nat (find_free_inode st);
               st1 = upd_inode new_ino (\<lambda>n. clear_blocks
                 (n\<lparr>itype := (if is_dir then PAFS_TYPE_DIR else PAFS_TYPE_FILE), isize := 0\<rparr>)) st;
               st2 = st1\<lparr>sb := (sb st1)\<lparr>free_inodes := free_inodes (sb st1) - 1\<rparr>\<rparr>;
               (r, st3) = pafs_add_entry dir_ino name (of_nat new_ino) st2
           in if r = 0 then (int new_ino, pafs_save_inode new_ino st3)
              else let st4 = upd_inode new_ino (\<lambda>n. n\<lparr>itype := PAFS_TYPE_FREE\<rparr>) st3
                   in (-1, st4\<lparr>sb := (sb st4)\<lparr>free_inodes := free_inodes (sb st4) + 1\<rparr>\<rparr>))"

definition pafs_create :: "nat \<Rightarrow> cstring \<Rightarrow> bool \<Rightarrow> pafs \<Rightarrow> int \<times> pafs" where
  "pafs_create parent_ino name is_dir = with_lock (create_locked parent_ino name is_dir)"

definition pafs_mkdir :: "nat \<Rightarrow> cstring \<Rightarrow> pafs \<Rightarrow> int \<times> pafs" where
  "pafs_mkdir parent_ino name = pafs_create parent_ino name True"

section \<open>Files\<close>

function write_loop :: "nat \<Rightarrow> u8 list \<Rightarrow> nat \<Rightarrow> nat \<Rightarrow> nat \<Rightarrow> pafs \<Rightarrow> nat \<times> pafs" where
  "write_loop ino data len bytes_written block_idx st =
     (if bytes_written < len \<and> block_idx < 14 then
        let (ok, st1) = ensure_block ino block_idx st
        in if \<not> ok then (bytes_written, st1)
           else let to_write = min (len - bytes_written) 512;
                    temp_buf = overwrite 0 (take to_write (drop bytes_written data)) (replicate 512 0)
                in write_loop ino data len (bytes_written + to_write) (Suc block_idx)
                     (pafs_disk_write (unat (iblocks (inodes st1 ! ino) ! block_idx)) temp_buf st1)
      else (bytes_written, st))"
  by pat_completeness auto
termination
  by (relation "measure (\<lambda>(_, _, _, _, k, _). 14 - k)") auto

declare write_loop.simps [simp del]

text \<open>\<open>len\<close> is a C \<open>int\<close>: for a negative one no iteration runs.\<close>

definition write_locked :: "cstring \<Rightarrow> u8 list \<Rightarrow> int \<Rightarrow> pafs \<Rightarrow> int \<times> pafs" where
  "write_locked name data len st =
     (let root = unat (root_inode (sb st));
          r0 = pafs_find_entry root name st;
          (r, st1) = (if r0 = -1 then pafs_create root name False st else (r0, st))
      in if r = -1 then (-1, st1)
         else let ino = nat r
         in if itype (inodes st1 ! ino) \<noteq> PAFS_TYPE_FILE then (-1, st1)
            else let (n, st2) = write_loop ino data (nat len) 0 0 st1;
                     st3 = upd_inode ino (\<lambda>i. i\<lparr>isize := of_nat n\<rparr>) st2
                 in (int n, pafs_save_inode ino st3))"

definition pafs_write :: "cstring \<Rightarrow> u8 list \<Rightarrow> int \<Rightarrow> pafs \<Rightarrow> int \<times> pafs" where
  "pafs_write name data len = with_lock (write_locked name data len)"

function read_loop :: "pafs \<Rightarrow> nat \<Rightarrow> int \<Rightarrow> nat \<Rightarrow> nat \<Rightarrow> u8 list \<Rightarrow> nat \<times> u8 list" where
  "read_loop st ino total_to_read bytes_read block_idx buffer =
     (if int bytes_read < total_to_read \<and> block_idx < 14 \<and> iblocks (inodes st ! ino) ! block_idx \<noteq> 0 then
        let temp_buf = pafs_disk_read (unat (iblocks (inodes st ! ino) ! block_idx)) st;
            to_copy = min (nat total_to_read - bytes_read) 512
        in read_loop st ino total_to_read (bytes_read + to_copy) (Suc block_idx)
             (overwrite bytes_read (take to_copy temp_buf) buffer)
      else (bytes_read, buffer))"
  by pat_completeness auto
termination
  by (relation "measure (\<lambda>(_, _, _, _, k, _). 14 - k)") auto

declare read_loop.simps [simp del]

text \<open>The result is the return value and the caller's buffer.\<close>

definition read_locked :: "cstring \<Rightarrow> u8 list \<Rightarrow> int \<Rightarrow> pafs \<Rightarrow> (int \<times> u8 list) \<times> pafs" where
  "read_locked name buffer max_len st =
     (let r = pafs_find_entry (unat (root_inode (sb st))) name st
      in if r = -1 then ((-1, buffer), st)
         else let ino = nat r; file = inodes st ! ino
         in if itype file \<noteq> PAFS_TYPE_FILE then ((-1, buffer), st)
            else let total_to_read = min (sint (isize file)) max_len;
                     (n, buf) = read_loop st ino total_to_read 0 0 buffer
                 in ((int n, if int n < max_len then buf[n := 0] else buf), st))"

definition pafs_read :: "cstring \<Rightarrow> u8 list \<Rightarrow> int \<Rightarrow> pafs \<Rightarrow> (int \<times> u8 list) \<times> pafs" where
  "pafs_read name buffer max_len = with_lock (read_locked name buffer max_len)"

function vfs_read_loop :: "pafs \<Rightarrow> nat \<Rightarrow> nat \<Rightarrow> nat \<Rightarrow> nat \<Rightarrow> nat \<Rightarrow> u8 list \<Rightarrow> nat \<times> u8 list" where
  "vfs_read_loop st ino size' bytes_read block_idx block_offset buffer =
     (if bytes_read < size' \<and> block_idx < 14 then
        let temp_buf = pafs_disk_read (unat (iblocks (inodes st ! ino) ! block_idx)) st;
            to_copy = min (512 - block_offset) (size' - bytes_read)
        in vfs_read_loop st ino size' (bytes_read + to_copy) (Suc block_idx) 0
             (overwrite bytes_read (take to_copy (drop block_offset temp_buf)) buffer)
      else (bytes_read, buffer))"
  by pat_completeness auto
termination
  by (relation "measure (\<lambda>(_, _, _, _, k, _, _). 14 - k)") auto

declare vfs_read_loop.simps [simp del]

definition vfs_read_locked :: "nat \<Rightarrow> u32 \<Rightarrow> u32 \<Rightarrow> u8 list \<Rightarrow> pafs \<Rightarrow> (u32 \<times> u8 list) \<times> pafs" where
  "vfs_read_locked ino offset size' buffer st =
     (let file = inodes st ! ino
      in if itype file \<noteq> PAFS_TYPE_FILE \<or> isize file = 0 then ((0, buffer), st)
         else if offset \<ge> isize file then ((0, buffer), st)
         else let sz = (if offset + size' > isize file then isize file - offset else size');
                  (n, buf) = vfs_read_loop st ino (unat sz) 0 (unat offset div PAFS_BLOCK_SIZE)
                    (unat offset mod PAFS_BLOCK_SIZE) buffer
              in ((of_nat n, buf), st))"

definition pafs_vfs_read :: "nat \<Rightarrow> u32 \<Rightarrow> u32 \<Rightarrow> u8 list \<Rightarrow> pafs \<Rightarrow> (u32 \<times> u8 list) \<times> pafs" where
  "pafs_vfs_read ino offset size' buffer = with_lock (vfs_read_locked ino offset size' buffer)"

function vfs_write_loop :: "nat \<Rightarrow> u8 list \<Rightarrow> nat \<Rightarrow> nat \<Rightarrow> nat \<Rightarrow> nat \<Rightarrow> pafs \<Rightarrow> nat \<times> pafs" where
  "vfs_write_loop ino data size' bytes_written block_idx block_offset st =
     (if bytes_written < size' \<and> block_idx < 14 then
        let (ok, st1) = ensure_block ino block_idx st
        in if \<not> ok then (bytes_written, st1)
           else
             let blk = unat (iblocks (inodes st1 ! ino) ! block_idx);
                 temp_buf = (if block_offset > 0 \<or> size' - bytes_written < PAFS_BLOCK_SIZE
                             then pafs_disk_read blk st1 else replicate 512 0);
                 to_write = min (512 - block_offset) (size' - bytes_written);
                 temp_buf' = overwrite block_offset (take to_write (drop bytes_written data)) temp_buf
             in vfs_write_loop ino data size' (bytes_written + to_write) (Suc block_idx) 0
                  (pafs_disk_write blk temp_buf' st1)
      else (bytes_written, st))"
  by pat_completeness auto
termination
  by (relation "measure (\<lambda>(_, _, _, _, k, _, _). 14 - k)") auto

declare vfs_write_loop.simps [simp del]

definition vfs_write_locked :: "nat \<Rightarrow> u32 \<Rightarrow> u32 \<Rightarrow> u8 list \<Rightarrow> pafs \<Rightarrow> u32 \<times> pafs" where
  "vfs_write_locked ino offset size' buffer st =
     (if itype (inodes st ! ino) \<noteq> PAFS_TYPE_FILE then (0, st)
      else let (n, st1) = vfs_write_loop ino buffer (unat size') 0 (unat offset div PAFS_BLOCK_SIZE)
                 (unat offset mod PAFS_BLOCK_SIZE) st;
               st2 = (if offset + of_nat n > isize (inodes st1 ! ino)
                      then upd_inode ino (\<lambda>i. i\<lparr>isize := offset + of_nat n\<rparr>) st1 else st1)
           in (of_nat n, pafs_save_inode ino st2))"

definition pafs_vfs_write :: "nat \<Rightarrow> u32 \<Rightarrow> u32 \<Rightarrow> u8 list \<Rightarrow> pafs \<Rightarrow> u32 \<times> pafs" where
  "pafs_vfs_write ino offset size' buffer = with_lock (vfs_write_locked ino offset size' buffer)"

section \<open>Disk and table laws\<close>

lemma disk_read_write [simp]:
  "pafs_disk_read l (pafs_disk_write l' d st) = (if l = l' then d else pafs_disk_read l st)"
  by (simp add: pafs_disk_read_def pafs_disk_write_def)

lemma disk_write_sel [simp]:
  "sb (pafs_disk_write l d st) = sb st" "inodes (pafs_disk_write l d st) = inodes st"
  "block_bitmap (pafs_disk_write l d st) = block_bitmap st"
  "pafs_lock (pafs_disk_write l d st) = pafs_lock st" "eflags (pafs_disk_write l d st) = eflags st"
  "ramdisk_mode (pafs_disk_write l d st) = ramdisk_mode st"
  "current_pafs_drive (pafs_disk_write l d st) = current_pafs_drive st"
  by (simp_all add: pafs_disk_write_def)

lemma upd_inode_sel [simp]:
  "sb (upd_inode i f st) = sb st" "block_bitmap (upd_inode i f st) = block_bitmap st"
  "pafs_lock (upd_inode i f st) = pafs_lock st" "eflags (upd_inode i f st) = eflags st"
  "pafs_disk_read l (upd_inode i f st) = pafs_disk_read l st"
  "length (inodes (upd_inode i f st)) = length (inodes st)"
  by (simp_all add: upd_inode_def pafs_disk_read_def)

lemma upd_inode_nth:
  "k < length (inodes st) \<Longrightarrow>
     inodes (upd_inode i f st) ! k = (if i = k then f (inodes st ! k) else inodes st ! k)"
  by (simp add: upd_inode_def nth_list_update)

lemma disk_read_upd [simp]:
  "pafs_disk_read l (st\<lparr>sb := s\<rparr>) = pafs_disk_read l st"
  "pafs_disk_read l (st\<lparr>block_bitmap := bm\<rparr>) = pafs_disk_read l st"
  "pafs_disk_read l (st\<lparr>inodes := ins\<rparr>) = pafs_disk_read l st"
  "pafs_disk_read l (st\<lparr>eflags := e\<rparr>) = pafs_disk_read l st"
  "pafs_disk_read l (st\<lparr>pafs_lock := k\<rparr>) = pafs_disk_read l st"
  by (simp_all add: pafs_disk_read_def)

lemmas save_defs = pafs_save_superblock_def pafs_save_bitmap_def pafs_save_inode_def Let_def

lemma pafs_test_bit: "pafs_bitmap_test bm b \<longleftrightarrow> bit (bm ! (b div 8)) (b mod 8)"
  by (simp add: pafs_bitmap_test_def and_push_neq_0)

interpretation pb: bitmap pafs_bitmap_set pafs_bitmap_clear pafs_bitmap_test "\<lambda>bm. 8 * length bm"
proof
  fix i j :: nat and m :: "u8 list"
  assume ij: "i < 8 * length m" "j < 8 * length m"
  then have "i div 8 < length m" "j div 8 < length m" by simp_all
  then show "pafs_bitmap_test (pafs_bitmap_set i m) j \<longleftrightarrow> j = i \<or> pafs_bitmap_test m j"
    and "pafs_bitmap_test (pafs_bitmap_clear i m) j \<longleftrightarrow> j \<noteq> i \<and> pafs_bitmap_test m j"
    using div_mod_8_eq [of j i]
    by (auto simp: pafs_test_bit pafs_bitmap_set_def pafs_bitmap_clear_def bit_or_push bit_and_not_push
        nth_list_update)
qed (simp_all add: pafs_bitmap_set_def pafs_bitmap_clear_def)

lemma bitmap_length [simp]:
  "length (pafs_bitmap_set b bm) = length bm" "length (pafs_bitmap_clear b bm) = length bm"
  by (simp_all add: pafs_bitmap_set_def pafs_bitmap_clear_def)

end
