(* ===== verification/Pafs_Inv.thy ===== *)
theory Pafs_Inv
  imports Pafs
begin

text \<open>
  The allocation invariant of PAFS: the block bitmap marks exactly the system area and the
  blocks some inode refers to, no block belongs to two slots, a free inode owns nothing,
  and the two counters of the superblock are exact. Formatting establishes it; creating,
  writing and deleting keep it.
\<close>

section \<open>The invariant\<close>

text \<open>A slot is an inode number and an index into its block list.\<close>

definition slot :: "pafs_inode list \<Rightarrow> nat \<times> nat \<Rightarrow> u32" where
  "slot ins p = iblocks (ins ! fst p) ! snd p"

definition refs :: "pafs_inode list \<Rightarrow> (nat \<times> nat) set" where
  "refs ins = {p. fst p < 128 \<and> snd p < 14 \<and> slot ins p \<noteq> 0}"

definition tables_ok :: "pafs_inode list \<Rightarrow> u8 list \<Rightarrow> bool" where
  "tables_ok ins bm \<longleftrightarrow> length ins = 128 \<and> (\<forall>i < 128. length (iblocks (ins ! i)) = 14) \<and> length bm = 512"

definition free_block_set :: "u8 list \<Rightarrow> nat set" where
  "free_block_set bm = {b. b < 4096 \<and> \<not> pafs_bitmap_test bm b}"

definition free_inode_set :: "pafs_inode list \<Rightarrow> nat set" where
  "free_inode_set ins = {i. i < 128 \<and> itype (ins ! i) = 0}"

definition owned :: "pafs_inode list \<Rightarrow> nat set" where
  "owned ins = (\<lambda>p. unat (slot ins p)) ` refs ins"

definition fs_ok :: "pafs_superblock \<Rightarrow> pafs_inode list \<Rightarrow> u8 list \<Rightarrow> bool" where
  "fs_ok s ins bm \<longleftrightarrow> tables_ok ins bm \<and>
     inj_on (slot ins) (refs ins) \<and> owned ins \<subseteq> {18..<4096} \<and>
     (\<forall>b < 4096. pafs_bitmap_test bm b \<longleftrightarrow> b < 18 \<or> b \<in> owned ins) \<and>
     (\<forall>i < 128. itype (ins ! i) = 0 \<longrightarrow> (\<forall>k < 14. slot ins (i, k) = 0)) \<and>
     unat (free_blocks s) = card (free_block_set bm) \<and>
     unat (free_inodes s) = card (free_inode_set ins)"

definition pafs_inv :: "pafs \<Rightarrow> bool" where
  "pafs_inv st \<longleftrightarrow> fs_ok (sb st) (inodes st) (block_bitmap st)"

lemma finite_free_sets [simp]: "finite (free_block_set bm)" "finite (free_inode_set ins)"
  by (simp_all add: free_block_set_def free_inode_set_def)

lemma fs_okD:
  assumes "fs_ok s ins bm"
  shows "tables_ok ins bm" and "inj_on (slot ins) (refs ins)" and "owned ins \<subseteq> {18..<4096}"
    and "\<And>b. b < 4096 \<Longrightarrow> pafs_bitmap_test bm b \<longleftrightarrow> b < 18 \<or> b \<in> owned ins"
    and "\<And>i k. \<lbrakk>i < 128; itype (ins ! i) = 0; k < 14\<rbrakk> \<Longrightarrow> slot ins (i, k) = 0"
    and "unat (free_blocks s) = card (free_block_set bm)"
    and "unat (free_inodes s) = card (free_inode_set ins)"
  using assms by (auto simp: fs_ok_def)

definition put_slot :: "pafs_inode list \<Rightarrow> nat \<Rightarrow> nat \<Rightarrow> u32 \<Rightarrow> pafs_inode list" where
  "put_slot ins i k b = ins[i := (ins ! i)\<lparr>iblocks := (iblocks (ins ! i))[k := b]\<rparr>]"

lemma upd_slot:
  "inodes (upd_inode i (\<lambda>n. n\<lparr>iblocks := (iblocks n)[k := b]\<rparr>) st) = put_slot (inodes st) i k b"
  by (simp add: upd_inode_def put_slot_def)

lemma put_slot_simps:
  assumes "tables_ok ins bm" and "i < 128" and "k < 14"
  shows "tables_ok (put_slot ins i k b) bm"
    and "fst p < 128 \<Longrightarrow> slot (put_slot ins i k b) p = (if p = (i, k) then b else slot ins p)"
    and "itype (put_slot ins i k b ! i') = itype (ins ! i')"
    and "isize (put_slot ins i k b ! i') = isize (ins ! i')"
  using assms by (auto simp: put_slot_def slot_def tables_ok_def nth_list_update prod_eq_iff)

lemma put_slot_free: "tables_ok ins bm \<Longrightarrow> i < 128 \<Longrightarrow> k < 14 \<Longrightarrow>
    free_inode_set (put_slot ins i k b) = free_inode_set ins"
  by (simp add: free_inode_set_def put_slot_simps)

text \<open>A free block is attached to an empty slot of an inode in use.\<close>

lemma attach_ok:
  assumes ok: "fs_ok s ins bm" and ik: "i < 128" "k < 14" and empty: "slot ins (i, k) = 0"
    and used: "itype (ins ! i) \<noteq> 0" and b: "18 \<le> b" "b < 4096" "\<not> pafs_bitmap_test bm b"
  shows "fs_ok (s\<lparr>free_blocks := free_blocks s - 1\<rparr>) (put_slot ins i k (of_nat b)) (pafs_bitmap_set b bm)"
proof -
  note ok' = fs_okD [OF ok]
  let ?ins = "put_slot ins i k (of_nat b)"
  note ps = put_slot_simps [OF ok'(1) ik]
  have ub: "unat (of_nat b :: u32) = b" using b by (simp add: unat_of_nat_u32)
  then have nz: "(of_nat b :: u32) \<noteq> 0" using b by (metis not_numeral_le_zero unat_0)
  have refs': "refs ?ins = insert (i, k) (refs ins)"
    using ik nz ps(2) by (auto simp: refs_def split: if_splits)
  have sl: "slot ?ins p = slot ins p" if "p \<in> refs ins" for p
    using ps(2) [of p] that empty by (auto simp: refs_def)
  have slk: "slot ?ins (i, k) = of_nat b" using ps(2) ik by simp
  have bn: "b \<notin> owned ins" using ok'(4) b by blast
  have own: "owned ?ins = insert b (owned ins)"
    unfolding owned_def refs' using sl slk ub by (auto cong: image_cong)
  have cap: "4096 \<le> 8 * length bm" using ok'(1) by (simp add: tables_ok_def)
  have test: "pafs_bitmap_test (pafs_bitmap_set b bm) c \<longleftrightarrow> c = b \<or> pafs_bitmap_test bm c" if "c < 4096" for c
    using pb.test_set [of b bm c] cap that b by simp
  have "inj_on (slot ?ins) (refs ins)" using inj_on_cong [of "refs ins" "slot ?ins" "slot ins"] ok'(2) sl by simp
  moreover have "of_nat b \<notin> slot ?ins ` (refs ins - {(i, k)})"
    using bn sl ub by (force simp: owned_def)
  ultimately have inj: "inj_on (slot ?ins) (refs ?ins)" by (simp add: refs' slk)
  have "free_block_set (pafs_bitmap_set b bm) = free_block_set bm - {b}" and mem: "b \<in> free_block_set bm"
    using test b by (auto simp: free_block_set_def)
  moreover have "0 < card (free_block_set bm)" using mem card_gt_0_iff finite_free_sets(1) by blast
  moreover from this have "free_blocks s \<noteq> 0" using ok'(6) by auto
  ultimately have "unat (free_blocks s - 1) = card (free_block_set (pafs_bitmap_set b bm))"
    using ok'(6) by (simp add: unat_minus_one card_Diff_singleton)
  moreover have "itype (?ins ! i') = 0 \<longrightarrow> (\<forall>k' < 14. slot ?ins (i', k') = 0)" if "i' < 128" for i'
    using ok'(5) used ps(2,3) that by auto
  ultimately show ?thesis
    using ok'(1,3,4,7) ps(1) b inj
    by (auto simp: fs_ok_def own test put_slot_free [OF ok'(1) ik]) (simp_all add: tables_ok_def)
qed

text \<open>The block of an occupied slot is given back.\<close>

lemma detach_ok:
  assumes ok: "fs_ok s ins bm" and ik: "i < 128" "k < 14" and nz: "slot ins (i, k) \<noteq> 0"
  shows "fs_ok (s\<lparr>free_blocks := free_blocks s + 1\<rparr>) (put_slot ins i k 0)
    (pafs_bitmap_clear (unat (slot ins (i, k))) bm)"
proof -
  note ok' = fs_okD [OF ok]
  let ?b = "unat (slot ins (i, k))" and ?ins = "put_slot ins i k 0"
  note ps = put_slot_simps [OF ok'(1) ik]
  have mem: "(i, k) \<in> refs ins" using ik nz by (simp add: refs_def)
  then have bo: "?b \<in> owned ins" by (auto simp: owned_def)
  then have b: "18 \<le> ?b" "?b < 4096" "pafs_bitmap_test bm ?b" using ok'(3,4) by auto
  have refs': "refs ?ins = refs ins - {(i, k)}"
    using ik ps(2) by (auto simp: refs_def split: if_splits)
  have sl: "slot ?ins p = slot ins p" if "p \<in> refs ins - {(i, k)}" for p
    using ps(2) [of p] that by (auto simp: refs_def)
  have "inj_on (\<lambda>p. unat (slot ins p)) (refs ins)" using ok'(2) by (auto simp: inj_on_def word_unat_eq_iff)
  then have "(\<lambda>p. unat (slot ins p)) ` (refs ins - {(i, k)}) = owned ins - {?b}"
    using mem by (subst inj_on_image_set_diff [of _ "refs ins"]) (auto simp: owned_def)
  moreover have "(\<lambda>p. unat (slot ?ins p)) ` (refs ins - {(i, k)}) = (\<lambda>p. unat (slot ins p)) ` (refs ins - {(i, k)})"
    by (intro image_cong refl) (simp only: sl)
  ultimately have own: "owned ?ins = owned ins - {?b}" unfolding owned_def refs' by simp
  have cap: "4096 \<le> 8 * length bm" using ok'(1) by (simp add: tables_ok_def)
  have test: "pafs_bitmap_test (pafs_bitmap_clear ?b bm) c \<longleftrightarrow> c \<noteq> ?b \<and> pafs_bitmap_test bm c" if "c < 4096" for c
    using pb.test_clear [of ?b bm c] cap that b by simp
  have inj: "inj_on (slot ?ins) (refs ?ins)"
    using inj_on_cong [of "refs ins - {(i, k)}" "slot ?ins" "slot ins"] inj_on_diff [OF ok'(2)] sl
    by (simp add: refs')
  have "free_block_set (pafs_bitmap_clear ?b bm) = insert ?b (free_block_set bm)" "?b \<notin> free_block_set bm"
    using test b by (auto simp: free_block_set_def)
  moreover have "card (free_block_set bm) \<le> card {..<4096 :: nat}"
    by (intro card_mono) (auto simp: free_block_set_def)
  ultimately have "unat (free_blocks s + 1) = card (free_block_set (pafs_bitmap_clear ?b bm))"
    using ok'(6) by (simp add: unat_plus_u32)
  moreover have "itype (?ins ! i') = 0 \<longrightarrow> (\<forall>k' < 14. slot ?ins (i', k') = 0)" if "i' < 128" for i'
    using ok'(5) ps(2,3) that by auto
  ultimately show ?thesis
    using ok'(1,3,4,7) ps(1) b inj
    by (auto simp: fs_ok_def own test put_slot_free [OF ok'(1) ik]) (simp_all add: tables_ok_def)
qed

text \<open>Changing the type or the size of an inode leaves the blocks alone.\<close>

lemma same_blocks:
  assumes "tables_ok ins bm" and "i < 128" and "iblocks n = iblocks (ins ! i)"
  shows "tables_ok (ins[i := n]) bm" and "slot (ins[i := n]) p = slot ins p" and "refs (ins[i := n]) = refs ins"
    and "owned (ins[i := n]) = owned ins"
proof -
  have s: "slot (ins[i := n]) p = slot ins p" for p
    using assms by (cases "fst p = i") (auto simp: slot_def tables_ok_def)
  then show "slot (ins[i := n]) p = slot ins p" and "refs (ins[i := n]) = refs ins" by (simp_all add: refs_def)
  then show "owned (ins[i := n]) = owned ins" by (simp add: owned_def s)
  show "tables_ok (ins[i := n]) bm" using assms by (auto simp: tables_ok_def nth_list_update)
qed

lemma resize_ok:
  assumes "fs_ok s ins bm" and "i < 128" and "iblocks n = iblocks (ins ! i)" and "itype n = itype (ins ! i)"
  shows "fs_ok s (ins[i := n]) bm"
proof -
  note ok' = fs_okD [OF assms(1)] and sb = same_blocks [OF fs_okD(1) [OF assms(1)] assms(2,3)]
  have t: "itype (ins[i := n] ! j) = itype (ins ! j)" for j
    using assms(4) by (cases "j = i"; cases "i < length ins") (simp_all add: list_update_beyond)
  have "slot (ins[i := n]) = slot ins" using sb(2) by (simp add: fun_eq_iff)
  then show ?thesis
    using assms(1) sb(1,3,4) by (simp add: fs_ok_def t free_inode_set_def)
qed

lemma claim_ok:
  assumes ok: "fs_ok s ins bm" and i: "i < 128" and free: "itype (ins ! i) = 0"
    and n: "iblocks n = iblocks (ins ! i)" "itype n \<noteq> 0"
  shows "fs_ok (s\<lparr>free_inodes := free_inodes s - 1\<rparr>) (ins[i := n]) bm"
proof -
  note ok' = fs_okD [OF ok] and sb = same_blocks [OF fs_okD(1) [OF ok] i n(1)]
  have sl: "slot (ins[i := n]) = slot ins" using sb(2) by (simp add: fun_eq_iff)
  have len: "length ins = 128" using ok'(1) by (simp add: tables_ok_def)
  have "free_inode_set (ins[i := n]) = free_inode_set ins - {i}" and mem: "i \<in> free_inode_set ins"
    using i free n(2) len by (auto simp: free_inode_set_def nth_list_update split: if_splits)
  moreover have "0 < card (free_inode_set ins)" using mem card_gt_0_iff finite_free_sets(2) by blast
  moreover from this have "free_inodes s \<noteq> 0" using ok'(7) by auto
  ultimately have "unat (free_inodes s - 1) = card (free_inode_set (ins[i := n]))"
    using ok'(7) by (simp add: unat_minus_one card_Diff_singleton)
  then show ?thesis
    using ok' sb(1,3,4) n(2) len i by (auto simp: fs_ok_def sl nth_list_update split: if_splits)
qed

lemma unclaim_ok:
  assumes ok: "fs_ok s ins bm" and i: "i < 128" and used: "itype (ins ! i) \<noteq> 0"
    and n: "iblocks n = iblocks (ins ! i)" "itype n = 0" and empty: "\<forall>k < 14. slot ins (i, k) = 0"
  shows "fs_ok (s\<lparr>free_inodes := free_inodes s + 1\<rparr>) (ins[i := n]) bm"
proof -
  note ok' = fs_okD [OF ok] and sb = same_blocks [OF fs_okD(1) [OF ok] i n(1)]
  have sl: "slot (ins[i := n]) = slot ins" using sb(2) by (simp add: fun_eq_iff)
  have len: "length ins = 128" using ok'(1) by (simp add: tables_ok_def)
  have "free_inode_set (ins[i := n]) = insert i (free_inode_set ins)" "i \<notin> free_inode_set ins"
    using i used n(2) len by (auto simp: free_inode_set_def nth_list_update split: if_splits)
  moreover have "card (free_inode_set ins) \<le> card {..<128 :: nat}"
    by (intro card_mono) (auto simp: free_inode_set_def)
  ultimately have "unat (free_inodes s + 1) = card (free_inode_set (ins[i := n]))"
    using ok'(7) by (simp add: unat_plus_u32)
  then show ?thesis
    using ok' sb(1,3,4) n(2) len empty i by (auto simp: fs_ok_def sl nth_list_update split: if_splits)
qed

lemma for_range_list_update:
  "n \<le> length xs \<Longrightarrow> for_range 0 n (\<lambda>j xs. xs[j := v]) xs = replicate n v @ drop n xs"
proof (induction n)
  case (Suc n)
  then have "drop n xs = xs ! n # drop (Suc n) xs" by (simp add: Cons_nth_drop_Suc)
  then show ?case using Suc
    by (simp add: for_range_Suc list_update_append replicate_append_same [symmetric])
qed simp

lemma clear_blocks_simps:
  "length (iblocks n) = 14 \<Longrightarrow> iblocks (clear_blocks n) = replicate 14 0"
  "itype (clear_blocks n) = itype n" "isize (clear_blocks n) = isize n"
  by (simp_all add: clear_blocks_def for_range_list_update)

lemma free_blocks_zero:
  assumes "fs_ok s ins bm" and "i < 128" and "itype (ins ! i) = 0"
  shows "iblocks (ins ! i) = replicate 14 0"
  using fs_okD(1,5) [OF assms(1)] assms(2,3)
  by (intro nth_equalityI) (auto simp: tables_ok_def slot_def)

section \<open>Operations\<close>

lemma alloc_block_cases:
  assumes "pafs_inv st"
  obtains (full) "alloc_block st = (-1, st)" "free_block_set (block_bitmap st) = {}"
  | (got) b st' where "alloc_block st = (int b, st')" "18 \<le> b" "b < 4096"
      "\<not> pafs_bitmap_test (block_bitmap st) b" "inodes st' = inodes st"
      "block_bitmap st' = pafs_bitmap_set b (block_bitmap st)"
      "sb st' = (sb st)\<lparr>free_blocks := free_blocks (sb st) - 1\<rparr>"
      "\<And>l. 18 \<le> l \<Longrightarrow> pafs_disk_read l st' = pafs_disk_read l st"
      "pafs_lock st' = pafs_lock st" "eflags st' = eflags st"
proof (cases "find_index (\<lambda>i. \<not> pafs_bitmap_test (block_bitmap st) i) LBA_DATA_START PAFS_TOTAL_BLOCKS")
  case None
  note ok' = fs_okD [OF assms [unfolded pafs_inv_def]]
  have "\<forall>b. 18 \<le> b \<and> b < 4096 \<longrightarrow> pafs_bitmap_test (block_bitmap st) b"
    using None by (auto simp: find_index_None pafs_consts)
  then have "free_block_set (block_bitmap st) = {}"
    using ok'(4) by (auto simp: free_block_set_def) (meson not_le)
  then show ?thesis using None full by (simp add: alloc_block_def)
next
  case (Some b)
  then have b: "18 \<le> b" "b < 4096" "\<not> pafs_bitmap_test (block_bitmap st) b"
    by (auto simp: find_index_Some pafs_consts)
  show ?thesis
    by (rule got [of b "snd (alloc_block st)"]) (use b Some in \<open>auto simp: alloc_block_def save_defs pafs_consts\<close>)
qed

lemma attach_inv:
  assumes inv: "pafs_inv st" and ik: "i < 128" "k < 14" and empty: "slot (inodes st) (i, k) = 0"
    and used: "itype (inodes st ! i) \<noteq> 0" and al: "alloc_block st = (b, st1)" and b: "b \<noteq> -1"
  shows "pafs_inv (upd_inode i (\<lambda>n. n\<lparr>iblocks := (iblocks n)[k := of_int b]\<rparr>) st1)"
  using inv
proof (cases rule: alloc_block_cases)
  case (got c st')
  then have "b = int c" "st1 = st'" using al by simp_all
  then show ?thesis
    using attach_ok [OF inv [unfolded pafs_inv_def] ik empty used got(2-4)] got
    by (simp add: pafs_inv_def upd_slot)
qed (use al b in simp)

lemma save_sel [simp]:
  "sb (pafs_save_inode i st) = sb st" "inodes (pafs_save_inode i st) = inodes st"
  "block_bitmap (pafs_save_inode i st) = block_bitmap st"
  "sb (pafs_save_superblock st) = sb st" "inodes (pafs_save_superblock st) = inodes st"
  "block_bitmap (pafs_save_superblock st) = block_bitmap st"
  "sb (pafs_save_bitmap st) = sb st" "inodes (pafs_save_bitmap st) = inodes st"
  "block_bitmap (pafs_save_bitmap st) = block_bitmap st"
  by (simp_all add: save_defs)

lemma save_disk:
  "18 \<le> l \<Longrightarrow> i < 128 \<Longrightarrow> pafs_disk_read l (pafs_save_inode i st) = pafs_disk_read l st"
  "18 \<le> l \<Longrightarrow> pafs_disk_read l (pafs_save_superblock st) = pafs_disk_read l st"
  "18 \<le> l \<Longrightarrow> pafs_disk_read l (pafs_save_bitmap st) = pafs_disk_read l st"
  by (auto simp: save_defs pafs_consts)

lemma pafs_inv_frame [simp]:
  "pafs_inv (pafs_disk_write l d st) = pafs_inv st" "pafs_inv (pafs_save_inode i st) = pafs_inv st"
  "pafs_inv (pafs_save_superblock st) = pafs_inv st" "pafs_inv (pafs_save_bitmap st) = pafs_inv st"
  "pafs_inv (lock_pafs st) = pafs_inv st" "pafs_inv (unlock_pafs st) = pafs_inv st"
  by (simp_all add: pafs_inv_def lock_pafs_def unlock_pafs_def split_beta Let_def)

lemma pafs_inv_lengths:
  assumes "pafs_inv st"
  shows "length (inodes st) = 128" and "i < 128 \<Longrightarrow> length (iblocks (inodes st ! i)) = 14"
    and "length (block_bitmap st) = 512"
  using fs_okD(1) [OF assms [unfolded pafs_inv_def]] by (auto simp: tables_ok_def)

lemma resize_inv:
  "pafs_inv st \<Longrightarrow> i < 128 \<Longrightarrow> pafs_inv (upd_inode i (\<lambda>n. n\<lparr>isize := f n\<rparr>) st)"
  unfolding pafs_inv_def by (simp add: upd_inode_def resize_ok)

text \<open>
  What the steps of an operation on inode \<open>d\<close> leave alone: every other inode and the
  contents of its blocks, the type of \<open>d\<close>, the root and the lock.
\<close>

definition blocks_of :: "pafs_inode list \<Rightarrow> nat \<Rightarrow> nat set" where
  "blocks_of ins i = {unat (slot ins (i, k)) | k. k < 14 \<and> slot ins (i, k) \<noteq> 0}"

definition frame :: "nat \<Rightarrow> pafs \<Rightarrow> pafs \<Rightarrow> bool" where
  "frame d st st' \<longleftrightarrow> length (inodes st') = length (inodes st) \<and>
     (\<forall>j. j \<noteq> d \<longrightarrow> inodes st' ! j = inodes st ! j) \<and>
     itype (inodes st' ! d) = itype (inodes st ! d) \<and>
     (\<forall>j < 128. j \<noteq> d \<longrightarrow> (\<forall>l \<in> blocks_of (inodes st) j. pafs_disk_read l st' = pafs_disk_read l st)) \<and>
     root_inode (sb st') = root_inode (sb st) \<and> free_inodes (sb st') = free_inodes (sb st) \<and>
     eflags st' = eflags st \<and> pafs_lock st' = pafs_lock st"

lemma blocks_of_cong: "ins' ! j = ins ! j \<Longrightarrow> blocks_of ins' j = blocks_of ins j"
  by (simp add: blocks_of_def slot_def)

lemma blocks_of_owned: "j < 128 \<Longrightarrow> blocks_of ins j \<subseteq> owned ins"
  by (auto simp: blocks_of_def owned_def refs_def)

lemma blocks_of_disjoint:
  assumes inv: "pafs_inv st" and ij: "i < 128" "j < 128" "i \<noteq> j"
  shows "blocks_of (inodes st) i \<inter> blocks_of (inodes st) j = {}"
proof -
  have inj: "inj_on (slot (inodes st)) (refs (inodes st))" using fs_okD(2) inv by (simp add: pafs_inv_def)
  have False if l: "l \<in> blocks_of (inodes st) i" "l \<in> blocks_of (inodes st) j" for l
  proof -
    obtain k where "l = unat (slot (inodes st) (i, k))" "(i, k) \<in> refs (inodes st)"
      using l(1) ij by (auto simp: blocks_of_def refs_def)
    moreover obtain k' where "l = unat (slot (inodes st) (j, k'))" "(j, k') \<in> refs (inodes st)"
      using l(2) ij by (auto simp: blocks_of_def refs_def)
    ultimately show False using inj_onD [OF inj, of "(i, k)" "(j, k')"] ij by (simp add: word_unat_eq_iff)
  qed
  then show ?thesis by blast
qed

lemma frame_refl [simp]: "frame d st st"
  by (simp add: frame_def)

lemma frame_trans:
  assumes "frame d a b" and "frame d b c"
  shows "frame d a c"
proof -
  have "blocks_of (inodes b) j = blocks_of (inodes a) j" if "j \<noteq> d" for j
    using assms(1) that by (intro blocks_of_cong) (simp add: frame_def)
  then show ?thesis using assms by (auto simp: frame_def)
qed

lemma frame_own_write:
  assumes inv: "pafs_inv st" and d: "d < 128" and l: "l \<in> blocks_of (inodes st) d"
  shows "frame d st (pafs_disk_write l x st)"
  using blocks_of_disjoint [OF inv d] l by (auto simp: frame_def)

lemma low_not_owned: "pafs_inv st \<Longrightarrow> j < 128 \<Longrightarrow> l \<in> blocks_of (inodes st) j \<Longrightarrow> 18 \<le> l \<and> l < 4096"
  using fs_okD(3) blocks_of_owned by (fastforce simp: pafs_inv_def)

lemma frame_save_inode: "pafs_inv st \<Longrightarrow> i < 128 \<Longrightarrow> frame d st (pafs_save_inode i st)"
  using low_not_owned save_disk(1) by (auto simp: frame_def save_defs pafs_consts)

lemma frame_upd:
  "(\<And>n. itype (f n) = itype n) \<Longrightarrow> frame d st (upd_inode d f st)"
  by (cases "d < length (inodes st)") (simp_all add: frame_def upd_inode_def list_update_beyond)

lemma alloc_block_frame:
  assumes inv: "pafs_inv st" and al: "alloc_block st = (b, st')"
  shows "frame d st st' \<and> inodes st' = inodes st"
  using inv
proof (cases rule: alloc_block_cases)
  case (got c s)
  then have "st' = s" using al by simp
  then show ?thesis using got low_not_owned [OF inv] by (auto simp: frame_def)
qed (use al in simp)

text \<open>The step that makes sure that slot \<open>k\<close> of inode \<open>i\<close> has a block.\<close>

lemma ensure_block_spec:
  assumes inv: "pafs_inv st" and ik: "i < 128" "k < 14" and used: "itype (inodes st ! i) \<noteq> 0"
    and e: "ensure_block i k st = (ok, st')"
  shows "pafs_inv st'" and "frame i st st'"
    and "ok \<Longrightarrow> unat (iblocks (inodes st' ! i) ! k) \<in> blocks_of (inodes st') i"
    and "k' < 14 \<Longrightarrow> k' \<noteq> k \<Longrightarrow> iblocks (inodes st' ! i) ! k' = iblocks (inodes st ! i) ! k'"
    and "iblocks (inodes st ! i) ! k \<noteq> 0 \<Longrightarrow> ok \<and> st' = st"
    and "isize (inodes st' ! i) = isize (inodes st ! i)"
    and "\<And>l. 18 \<le> l \<Longrightarrow> pafs_disk_read l st' = pafs_disk_read l st"
    and "ok \<or> free_block_set (block_bitmap st) = {}"
    and "\<not> ok \<Longrightarrow> st' = st"
proof -
  note len = pafs_inv_lengths [OF inv]
  have "pafs_inv st' \<and> frame i st st' \<and>
    (ok \<longrightarrow> unat (iblocks (inodes st' ! i) ! k) \<in> blocks_of (inodes st') i) \<and>
    (k' < 14 \<longrightarrow> k' \<noteq> k \<longrightarrow> iblocks (inodes st' ! i) ! k' = iblocks (inodes st ! i) ! k') \<and>
    (iblocks (inodes st ! i) ! k \<noteq> 0 \<longrightarrow> ok \<and> st' = st) \<and>
    isize (inodes st' ! i) = isize (inodes st ! i) \<and>
    (\<forall>l. 18 \<le> l \<longrightarrow> pafs_disk_read l st' = pafs_disk_read l st) \<and>
    (ok \<or> free_block_set (block_bitmap st) = {}) \<and> (\<not> ok \<longrightarrow> st' = st)"
  proof (cases "iblocks (inodes st ! i) ! k = 0")
    case True
    have sl: "slot (inodes st) (i, k) = 0" using True by (simp add: slot_def)
    from inv show ?thesis
    proof (cases rule: alloc_block_cases)
      case full
      then show ?thesis using e True inv by (simp add: ensure_block_def)
    next
      case (got b s)
      have ok: ok and st': "st' = upd_inode i (\<lambda>n. n\<lparr>iblocks := (iblocks n)[k := of_nat b]\<rparr>) s"
        using e True got(1) by (simp_all add: ensure_block_def)
      have b: "unat (of_nat b :: u32) = b" using got(3) by (simp add: unat_of_nat_u32)
      then have nz: "(of_nat b :: u32) \<noteq> 0" using got(2) by (metis not_numeral_le_zero unat_0)
      have blk: "iblocks (inodes st' ! i) = (iblocks (inodes st ! i))[k := of_nat b]"
        using ik len by (simp add: st' upd_inode_nth got(5))
      have "frame i s st'" unfolding st' by (rule frame_upd) simp
      moreover have "frame i st s" using alloc_block_frame [OF inv got(1)] by simp
      ultimately have "frame i st st'" by (rule frame_trans [rotated])
      moreover have "pafs_inv st'" using attach_inv [OF inv ik sl used got(1)] by (simp add: st')
      moreover have "unat (iblocks (inodes st' ! i) ! k) \<in> blocks_of (inodes st') i"
        using ik len nz by (auto simp: blocks_of_def slot_def blk intro!: exI [of _ k])
      moreover have "isize (inodes st' ! i) = isize (inodes st ! i)"
        using ik len by (simp add: st' upd_inode_nth got(5))
      moreover have "pafs_disk_read l st' = pafs_disk_read l st" if "18 \<le> l" for l
        using got(8) that by (simp add: st')
      ultimately show ?thesis using ok True blk by simp
    qed
  next
    case False
    then have "ok" "st' = st" using e by (simp_all add: ensure_block_def)
    moreover have "unat (iblocks (inodes st ! i) ! k) \<in> blocks_of (inodes st) i"
      using ik False by (auto simp: blocks_of_def slot_def)
    ultimately show ?thesis using inv False by simp
  qed
  then show "pafs_inv st'" and "frame i st st'"
    and "ok \<Longrightarrow> unat (iblocks (inodes st' ! i) ! k) \<in> blocks_of (inodes st') i"
    and "k' < 14 \<Longrightarrow> k' \<noteq> k \<Longrightarrow> iblocks (inodes st' ! i) ! k' = iblocks (inodes st ! i) ! k'"
    and "iblocks (inodes st ! i) ! k \<noteq> 0 \<Longrightarrow> ok \<and> st' = st"
    and "isize (inodes st' ! i) = isize (inodes st ! i)"
    and "\<And>l. 18 \<le> l \<Longrightarrow> pafs_disk_read l st' = pafs_disk_read l st"
    and "ok \<or> free_block_set (block_bitmap st) = {}"
    and "\<not> ok \<Longrightarrow> st' = st"
    by blast+
qed

lemma add_entry_loop_inv:
  "\<lbrakk>pafs_inv st; d < 128; itype (inodes st ! d) \<noteq> 0\<rbrakk> \<Longrightarrow>
     pafs_inv (snd (add_entry_loop i d name f st)) \<and> frame d st (snd (add_entry_loop i d name f st)) \<and>
     (fst (add_entry_loop i d name f st) = 0 \<or> fst (add_entry_loop i d name f st) = -1)"
proof (induction i d name f st rule: add_entry_loop.induct)
  case (1 i d name f st)
  show ?case
  proof (cases "i < 14")
    case i: True
    obtain ok s where e: "ensure_block d i st = (ok, s)" by (cases "ensure_block d i st")
    note es = ensure_block_spec [OF "1.prems"(1,2) i "1.prems"(3) e]
    let ?blk = "unat (iblocks (inodes s ! d) ! i)"
    define st1 where "st1 = (if iblocks (inodes st ! d) ! i = 0 then pafs_disk_write ?blk (replicate 512 0) s else s)"
    note unf = add_entry_loop.simps [of i d name f st]
    show ?thesis
    proof (cases ok)
      case ok: True
      have "frame d s st1" using frame_own_write [OF es(1) "1.prems"(2) es(3) [OF ok]] by (simp add: st1_def)
      with es(2) have f1: "frame d st st1" by (rule frame_trans)
      have i1: "pafs_inv st1" using es(1) by (simp add: st1_def)
      have used: "itype (inodes st1 ! d) \<noteq> 0" using f1 "1.prems"(3) by (simp add: frame_def)
      show ?thesis
      proof (cases "find_index (\<lambda>j. entry_inode (pafs_disk_read ?blk st1) j = 0) 0 16")
        case None
        have eq: "add_entry_loop i d name f st = add_entry_loop (Suc i) d name f st1"
          unfolding unf using i e ok None by (simp add: st1_def Let_def)
        have "pafs_inv (snd (add_entry_loop (Suc i) d name f st1)) \<and>
            frame d st1 (snd (add_entry_loop (Suc i) d name f st1)) \<and>
            (fst (add_entry_loop (Suc i) d name f st1) = 0 \<or> fst (add_entry_loop (Suc i) d name f st1) = -1)"
          by (rule "1.IH" [OF i refl e [symmetric] _ refl st1_def refl None]) (use ok i1 used "1.prems"(2) in simp_all)
        then show ?thesis unfolding eq using f1 frame_trans by blast
      next
        case (Some j)
        let ?st2 = "pafs_disk_write ?blk (put_entry j f name (pafs_disk_read ?blk st1)) st1"
        let ?st3 = "upd_inode d (\<lambda>n. n\<lparr>isize := isize n + 32\<rparr>) ?st2"
        have eq: "add_entry_loop i d name f st = (0, pafs_save_inode d ?st3)"
          unfolding unf using i e ok Some by (simp add: st1_def Let_def)
        have "?blk \<in> blocks_of (inodes st1) d" using es(3) [OF ok] by (simp add: st1_def)
        then have f2: "frame d st1 ?st2" by (rule frame_own_write [OF i1 "1.prems"(2)])
        have f3: "frame d ?st2 ?st3" by (rule frame_upd) simp
        have i3: "pafs_inv ?st3" using i1 "1.prems"(2) by (simp add: resize_inv)
        then have "frame d ?st3 (pafs_save_inode d ?st3)" using "1.prems"(2) by (rule frame_save_inode)
        with f1 f2 f3 have "frame d st (pafs_save_inode d ?st3)" using frame_trans by blast
        then show ?thesis unfolding eq using i3 by simp
      qed
    next
      case False
      then show ?thesis unfolding unf using i e es(1,2) by simp
    qed
  next
    case False
    then show ?thesis using "1.prems" by (simp add: add_entry_loop.simps [of i])
  qed
qed

lemma add_entry_inv:
  assumes "pafs_inv st" and "d < 128" and "pafs_add_entry d name f st = (r, st')"
  shows "pafs_inv st'" and "frame d st st'" and "r = 0 \<or> r = -1"
  using assms add_entry_loop_inv [OF assms(1,2), of 0 name f]
  by (auto simp: pafs_add_entry_def pafs_consts split: if_splits)

lemma find_free_inode_cases:
  obtains (none) "find_free_inode st = -1" "\<forall>i < 128. itype (inodes st ! i) \<noteq> 0"
  | (some) i where "find_free_inode st = int i" "i < 128" "itype (inodes st ! i) = 0"
proof (cases "find_index (\<lambda>i. itype (inodes st ! i) = PAFS_TYPE_FREE) 0 PAFS_MAX_INODES")
  case None
  then have "\<forall>i < 128. itype (inodes st ! i) \<noteq> 0" by (simp add: find_index_None pafs_consts)
  moreover have "find_free_inode st = -1" using None by (simp add: find_free_inode_def)
  ultimately show ?thesis using none by blast
next
  case (Some i)
  then have "i < 128 \<and> itype (inodes st ! i) = 0" by (simp add: find_index_Some pafs_consts)
  moreover have "find_free_inode st = int i" using Some by (simp add: find_free_inode_def)
  ultimately show ?thesis using some by blast
qed

text \<open>The body of \<open>pafs_create\<close> once a free inode is chosen.\<close>

definition new_inode :: "bool \<Rightarrow> nat \<Rightarrow> pafs \<Rightarrow> pafs" where
  "new_inode is_dir i st =
     (let s = upd_inode i (\<lambda>n. clear_blocks
        (n\<lparr>itype := (if is_dir then PAFS_TYPE_DIR else PAFS_TYPE_FILE), isize := 0\<rparr>)) st
      in s\<lparr>sb := (sb s)\<lparr>free_inodes := free_inodes (sb s) - 1\<rparr>\<rparr>)"

lemma new_inode_inv:
  assumes "pafs_inv st" and "i < 128" and "itype (inodes st ! i) = 0"
  shows "pafs_inv (new_inode is_dir i st)"
proof -
  let ?n = "clear_blocks ((inodes st ! i)\<lparr>itype := (if is_dir then PAFS_TYPE_DIR else PAFS_TYPE_FILE), isize := 0\<rparr>)"
  have ok: "fs_ok (sb st) (inodes st) (block_bitmap st)" using assms(1) by (simp add: pafs_inv_def)
  have "iblocks ?n = iblocks (inodes st ! i)"
    using free_blocks_zero [OF ok assms(2,3)] by (simp add: clear_blocks_simps)
  moreover have "itype ?n \<noteq> 0" by (simp add: clear_blocks_simps pafs_consts)
  ultimately show ?thesis
    using claim_ok [OF ok assms(2,3), of ?n] by (simp add: pafs_inv_def new_inode_def upd_inode_def Let_def)
qed

lemma new_inode_sel:
  assumes "pafs_inv st" and "i < 128"
  shows "j < 128 \<Longrightarrow> j \<noteq> i \<Longrightarrow> inodes (new_inode is_dir i st) ! j = inodes st ! j"
    and "itype (inodes (new_inode is_dir i st) ! i) = (if is_dir then 2 else 1)"
    and "isize (inodes (new_inode is_dir i st) ! i) = 0"
    and "iblocks (inodes (new_inode is_dir i st) ! i) = replicate 14 0"
    and "pafs_disk_read l (new_inode is_dir i st) = pafs_disk_read l st"
  using assms pafs_inv_lengths [OF assms(1)]
  by (simp_all add: new_inode_def Let_def upd_inode_nth clear_blocks_simps pafs_consts)

lemma create_locked_unfold:
  "create_locked d name is_dir st =
     (if free_inodes (sb st) = 0 \<or> pafs_find_entry d name st \<noteq> -1 \<or> find_free_inode st = -1 then (-1, st)
      else let i = nat (find_free_inode st);
               (r, s) = pafs_add_entry d name (of_nat i) (new_inode is_dir i st)
           in if r = 0 then (int i, pafs_save_inode i s)
              else let t = upd_inode i (\<lambda>n. n\<lparr>itype := PAFS_TYPE_FREE\<rparr>) s
                   in (-1, t\<lparr>sb := (sb t)\<lparr>free_inodes := free_inodes (sb t) + 1\<rparr>\<rparr>))"
  by (simp add: create_locked_def new_inode_def Let_def split_beta)

lemma create_locked_inv:
  assumes inv: "pafs_inv st" and d: "d < 128" "itype (inodes st ! d) \<noteq> 0"
  shows "pafs_inv (snd (create_locked d name is_dir st))"
proof (cases "free_inodes (sb st) = 0 \<or> pafs_find_entry d name st \<noteq> -1 \<or> find_free_inode st = -1")
  case True
  then show ?thesis using inv by (auto simp: create_locked_unfold)
next
  case False
  then obtain i where i: "find_free_inode st = int i" "i < 128" "itype (inodes st ! i) = 0"
    by (cases rule: find_free_inode_cases [of st]) auto
  let ?s1 = "new_inode is_dir i st"
  note inv1 = new_inode_inv [OF inv i(2,3), of is_dir] and sel = new_inode_sel [OF inv i(2), where is_dir = is_dir]
  obtain r s where a: "pafs_add_entry d name (of_nat i) ?s1 = (r, s)" by (cases "pafs_add_entry d name (of_nat i) ?s1")
  note ae = add_entry_inv [OF inv1 d(1) a]
  show ?thesis
  proof (cases "r = 0")
    case True
    then show ?thesis using False i a ae by (simp add: create_locked_unfold Let_def)
  next
    case r: False
    have "d \<noteq> i" using i(3) d(2) by auto
    then have same: "inodes s ! i = inodes ?s1 ! i" using ae(2) by (simp add: frame_def)
    have ok: "fs_ok (sb s) (inodes s) (block_bitmap s)" using ae(1) by (simp add: pafs_inv_def)
    have "\<forall>k < 14. slot (inodes s) (i, k) = 0" using sel(4) same by (simp add: slot_def)
    then have "fs_ok ((sb s)\<lparr>free_inodes := free_inodes (sb s) + 1\<rparr>)
        ((inodes s)[i := (inodes s ! i)\<lparr>itype := 0\<rparr>]) (block_bitmap s)"
      using unclaim_ok [OF ok i(2)] sel(2) same by simp
    then show ?thesis using False r i(1) a
      by (simp add: create_locked_unfold Let_def pafs_inv_def upd_inode_def pafs_consts)
  qed
qed

lemma write_loop_inv:
  "\<lbrakk>pafs_inv st; ino < 128; itype (inodes st ! ino) \<noteq> 0\<rbrakk> \<Longrightarrow>
     pafs_inv (snd (write_loop ino data len bw k st)) \<and> frame ino st (snd (write_loop ino data len bw k st))"
proof (induction ino data len bw k st rule: write_loop.induct)
  case (1 ino data len bw k st)
  show ?case
  proof (cases "bw < len \<and> k < 14")
    case k: True
    obtain ok s where e: "ensure_block ino k st = (ok, s)" by (cases "ensure_block ino k st")
    note es = ensure_block_spec [OF "1.prems"(1,2) conjunct2 [OF k] "1.prems"(3) e]
    note unf = write_loop.simps [of ino data len bw k st]
    show ?thesis
    proof (cases ok)
      case ok: True
      let ?w = "min (len - bw) 512"
      let ?s1 = "pafs_disk_write (unat (iblocks (inodes s ! ino) ! k))
        (overwrite 0 (take ?w (drop bw data)) (replicate 512 0)) s"
      have f: "frame ino st ?s1"
        using es(2) frame_own_write [OF es(1) "1.prems"(2) es(3) [OF ok]] frame_trans by blast
      have eq: "write_loop ino data len bw k st = write_loop ino data len (bw + ?w) (Suc k) ?s1"
        unfolding unf using k by (simp only: e prod.case Let_def ok if_True if_False simp_thms)
      have "pafs_inv (snd (write_loop ino data len (bw + ?w) (Suc k) ?s1)) \<and>
          frame ino ?s1 (snd (write_loop ino data len (bw + ?w) (Suc k) ?s1))"
      proof (rule "1.IH" [OF k refl e [symmetric] _ refl refl])
        show "itype (inodes ?s1 ! ino) \<noteq> 0" using f "1.prems"(3) by (simp add: frame_def)
      qed (use ok es(1) "1.prems"(2) in simp_all)
      then show ?thesis unfolding eq using f frame_trans by blast
    next
      case False
      then show ?thesis unfolding unf using k e es(1,2) by simp
    qed
  next
    case False
    then show ?thesis using "1.prems" by (simp only: write_loop.simps [of _ _ _ bw k] if_False snd_conv frame_refl simp_thms)
  qed
qed

lemma vfs_write_loop_inv:
  "\<lbrakk>pafs_inv st; ino < 128; itype (inodes st ! ino) \<noteq> 0\<rbrakk> \<Longrightarrow>
     pafs_inv (snd (vfs_write_loop ino data sz bw k off st)) \<and>
     frame ino st (snd (vfs_write_loop ino data sz bw k off st))"
proof (induction ino data sz bw k off st rule: vfs_write_loop.induct)
  case (1 ino data sz bw k off st)
  show ?case
  proof (cases "bw < sz \<and> k < 14")
    case k: True
    obtain ok s where e: "ensure_block ino k st = (ok, s)" by (cases "ensure_block ino k st")
    note es = ensure_block_spec [OF "1.prems"(1,2) conjunct2 [OF k] "1.prems"(3) e]
    note unf = vfs_write_loop.simps [of ino data sz bw k off st]
    show ?thesis
    proof (cases ok)
      case ok: True
      let ?w = "min (512 - off) (sz - bw)" and ?b = "unat (iblocks (inodes s ! ino) ! k)"
      let ?s1 = "pafs_disk_write ?b (overwrite off (take ?w (drop bw data))
        (if off > 0 \<or> sz - bw < PAFS_BLOCK_SIZE then pafs_disk_read ?b s else replicate 512 0)) s"
      have f: "frame ino st ?s1"
        using es(2) frame_own_write [OF es(1) "1.prems"(2) es(3) [OF ok]] frame_trans by blast
      have eq: "vfs_write_loop ino data sz bw k off st = vfs_write_loop ino data sz (bw + ?w) (Suc k) 0 ?s1"
        unfolding unf using k by (simp only: e prod.case Let_def ok if_True if_False simp_thms)
      have "pafs_inv (snd (vfs_write_loop ino data sz (bw + ?w) (Suc k) 0 ?s1)) \<and>
          frame ino ?s1 (snd (vfs_write_loop ino data sz (bw + ?w) (Suc k) 0 ?s1))"
      proof (rule "1.IH" [OF k refl e [symmetric] _ refl refl refl refl])
        show "itype (inodes ?s1 ! ino) \<noteq> 0" using f "1.prems"(3) by (simp add: frame_def)
      qed (use ok es(1) "1.prems"(2) in simp_all)
      then show ?thesis unfolding eq using f frame_trans by blast
    next
      case False
      then show ?thesis unfolding unf using k e es(1,2) by simp
    qed
  next
    case False
    then show ?thesis using "1.prems" by (simp only: vfs_write_loop.simps [of _ _ _ bw k] if_False snd_conv frame_refl simp_thms)
  qed
qed

lemma release_block_inv:
  assumes inv: "pafs_inv st" and ik: "i < 128" "k < 14"
  shows "pafs_inv (release_block i k st)"
    and "slot (inodes (release_block i k st)) (i, k) = 0"
    and "k' \<noteq> k \<Longrightarrow> slot (inodes (release_block i k st)) (i, k') = slot (inodes st) (i, k')"
    and "itype (inodes (release_block i k st) ! j) = itype (inodes st ! j)"
proof -
  have ok: "fs_ok (sb st) (inodes st) (block_bitmap st)" using inv by (simp add: pafs_inv_def)
  note ps = put_slot_simps [OF fs_okD(1) [OF ok] ik]
  have rel: "inodes (release_block i k st) = (if slot (inodes st) (i, k) = 0 then inodes st else put_slot (inodes st) i k 0)"
    by (simp add: release_block_def Let_def slot_def upd_inode_def put_slot_def)
  show "pafs_inv (release_block i k st)"
  proof (cases "slot (inodes st) (i, k) = 0")
    case True
    then show ?thesis using inv by (simp add: release_block_def slot_def)
  next
    case False
    then show ?thesis using detach_ok [OF ok ik False]
      by (simp add: release_block_def slot_def pafs_inv_def upd_slot Let_def)
  qed
  show "slot (inodes (release_block i k st)) (i, k) = 0"
    and "k' \<noteq> k \<Longrightarrow> slot (inodes (release_block i k st)) (i, k') = slot (inodes st) (i, k')"
    and "itype (inodes (release_block i k st) ! j) = itype (inodes st ! j)"
    using ps(2,3) ik by (simp_all add: rel)
qed

lemma release_blocks_inv:
  assumes inv: "pafs_inv st" and i: "i < 128"
  defines "st' \<equiv> for_range 0 14 (release_block i) st"
  shows "pafs_inv st'" and "\<forall>k < 14. slot (inodes st') (i, k) = 0"
    and "itype (inodes st' ! j) = itype (inodes st ! j)"
proof -
  let ?P = "\<lambda>n s. pafs_inv s \<and> (\<forall>k < n. slot (inodes s) (i, k) = 0) \<and> (\<forall>j. itype (inodes s ! j) = itype (inodes st ! j))"
  have "?P 14 st'"
    unfolding st'_def
  proof (rule for_range_inv [where P = ?P])
    fix n s
    assume "n < 14" and P: "?P n s"
    then show "?P (Suc n) (release_block i n s)"
      using release_block_inv [OF _ i, of s n] by (auto simp: less_Suc_eq)
  qed (use inv in simp_all)
  then show "pafs_inv st'" and "\<forall>k < 14. slot (inodes st') (i, k) = 0"
    and "itype (inodes st' ! j) = itype (inodes st ! j)" by simp_all
qed

lemma remove_entry_inv:
  assumes "pafs_inv st" and "d < 128"
  shows "pafs_inv (snd (pafs_remove_entry d name st))"
  using assms resize_inv [of _ d] by (auto simp: pafs_remove_entry_def Let_def split: option.split prod.split)

lemma delete_locked_inv:
  assumes inv: "pafs_inv st" and d: "d < 128"
    and live: "pafs_find_entry d name st \<noteq> -1 \<Longrightarrow> 0 \<le> pafs_find_entry d name st \<and> pafs_find_entry d name st < 128 \<and>
      itype (inodes st ! nat (pafs_find_entry d name st)) \<noteq> 0"
  shows "pafs_inv (snd (delete_locked d name st))"
proof (cases "pafs_find_entry d name st = -1")
  case True
  then show ?thesis using inv by (simp add: delete_locked_def)
next
  case False
  define i where "i = nat (pafs_find_entry d name st)"
  have i: "i < 128" "itype (inodes st ! i) \<noteq> 0" using live [OF False] by (auto simp: i_def nat_less_iff)
  define st1 where "st1 = for_range 0 14 (release_block i) st"
  note rb = release_blocks_inv [OF inv i(1), folded st1_def]
  define st2 where "st2 = upd_inode i (\<lambda>n. n\<lparr>itype := PAFS_TYPE_FREE, isize := 0\<rparr>) st1"
  define st3 where "st3 = st2\<lparr>sb := (sb st2)\<lparr>free_inodes := free_inodes (sb st2) + 1\<rparr>\<rparr>"
  have "fs_ok ((sb st1)\<lparr>free_inodes := free_inodes (sb st1) + 1\<rparr>)
      ((inodes st1)[i := (inodes st1 ! i)\<lparr>itype := 0, isize := 0\<rparr>]) (block_bitmap st1)"
    using unclaim_ok [OF rb(1) [unfolded pafs_inv_def] i(1)] rb(2,3) i(2) by simp
  then have "pafs_inv st3" by (simp add: st3_def st2_def pafs_inv_def upd_inode_def pafs_consts)
  then have "pafs_inv (snd (pafs_remove_entry d name st3))" using d by (rule remove_entry_inv)
  moreover have "st2\<lparr>sb := (sb st1)\<lparr>free_inodes := free_inodes (sb st1) + 1\<rparr>\<rparr> = st3"
    by (simp add: st3_def st2_def)
  ultimately show ?thesis
    using False inv
    by (simp add: delete_locked_def Let_def split_beta i_def [symmetric] st1_def [symmetric]
        st2_def [symmetric] st3_def [symmetric])
qed

section \<open>Formatting\<close>

lemma upd_inode_inodes: "inodes (upd_inode i f st) = (inodes st)[i := f (inodes st ! i)]"
  by (simp add: upd_inode_def)

lemma for_range_upd_inode:
  "n \<le> length (inodes st) \<Longrightarrow>
     inodes (for_range 0 n (\<lambda>i. upd_inode i f) st) = map f (take n (inodes st)) @ drop n (inodes st)"
proof (induction n)
  case (Suc n)
  let ?s = "for_range 0 n (\<lambda>i. upd_inode i f) st"
  have "drop n (inodes st) = inodes st ! n # drop (Suc n) (inodes st)"
    using Suc.prems by (simp add: Cons_nth_drop_Suc)
  then have "inodes ?s = map f (take n (inodes st)) @ inodes st ! n # drop (Suc n) (inodes st)"
    using Suc by simp
  then show ?case using Suc.prems
    by (simp add: for_range_Suc upd_inode_inodes list_update_append nth_append take_Suc_conv_app_nth)
qed simp

lemma for_range_upd_sel:
  "sb (for_range 0 n (\<lambda>i. upd_inode i f) st) = sb st"
  "block_bitmap (for_range 0 n (\<lambda>i. upd_inode i f) st) = block_bitmap st"
  by (induction n) (simp_all add: for_range_Suc)

lemma save_metadata_sel [simp]:
  "sb (save_metadata st) = sb st" "inodes (save_metadata st) = inodes st"
  "block_bitmap (save_metadata st) = block_bitmap st"
proof -
  let ?w = "\<lambda>i s. pafs_disk_write (LBA_INODES_START + i) (inode_sector (inodes s) i) s"
  have "sb (for_range 0 n ?w t) = sb t \<and> inodes (for_range 0 n ?w t) = inodes t \<and>
      block_bitmap (for_range 0 n ?w t) = block_bitmap t" for n t
    by (induction n) (simp_all add: for_range_Suc)
  then show "sb (save_metadata st) = sb st" "inodes (save_metadata st) = inodes st"
    "block_bitmap (save_metadata st) = block_bitmap st"
    by (simp_all add: save_metadata_def)
qed

text \<open>The blank tables: all inodes free, only the system area marked.\<close>

definition blank_inode :: pafs_inode where
  "blank_inode = \<lparr>itype = 0, isize = 0, iblocks = replicate 14 0\<rparr>"

lemma blank_ok:
  assumes "length bm = 512" and "\<forall>b < 4096. pafs_bitmap_test bm b \<longleftrightarrow> b < 18"
    and "free_blocks s = 4078" and "free_inodes s = 128"
  shows "fs_ok s (replicate 128 blank_inode) bm"
proof -
  have "refs (replicate 128 blank_inode) = {}"
    by (auto simp: refs_def slot_def blank_inode_def)
  moreover have "free_block_set bm = {18..<4096}" using assms(2) by (auto simp: free_block_set_def)
  moreover have "free_inode_set (replicate 128 blank_inode) = {..<128}"
    by (auto simp: free_inode_set_def blank_inode_def)
  ultimately show ?thesis
    using assms by (simp add: fs_ok_def owned_def tables_ok_def) (simp add: slot_def blank_inode_def)
qed

lemma blank_bitmap:
  fixes bm :: "u8 list"
  assumes "length bm = 512"
  defines "bm' \<equiv> for_range 0 18 pafs_bitmap_set (for_range 0 512 (\<lambda>i bm. bm[i := 0]) bm)"
  shows "length bm' = 512" and "b < 4096 \<Longrightarrow> pafs_bitmap_test bm' b \<longleftrightarrow> b < 18"
proof -
  have z: "for_range 0 512 (\<lambda>i bm. bm[i := 0]) bm = replicate 512 0"
    using assms(1) by (simp add: for_range_list_update)
  have "8 * length bm' = 8 * length (replicate 512 (0 :: u8)) \<and> (\<forall>j < 8 * length (replicate 512 (0 :: u8)).
      pafs_bitmap_test bm' j \<longleftrightarrow> 0 \<le> j \<and> j < 18 \<or> pafs_bitmap_test (replicate 512 0) j)"
    unfolding bm'_def z by (rule pb.range_set) simp
  moreover have "\<not> pafs_bitmap_test (replicate 512 0) j" if "j < 4096" for j
    using that by (simp add: pafs_test_bit)
  ultimately show "length bm' = 512" and "b < 4096 \<Longrightarrow> pafs_bitmap_test bm' b \<longleftrightarrow> b < 18" by auto
qed

text \<open>
  The formatted system in closed form: inode 0 is an empty directory whose first block is
  block 18, which is zeroed, and everything else is free.
\<close>

lemma format_tables_spec:
  assumes len: "length (inodes st) = 128" "\<forall>i < 128. length (iblocks (inodes st ! i)) = 14"
  shows "inodes (format_tables st) = replicate 128 blank_inode"
    and "block_bitmap (format_tables st) =
      for_range 0 18 pafs_bitmap_set (for_range 0 512 (\<lambda>i bm. bm[i := 0]) (block_bitmap st))"
    and "sb (format_tables st) = (sb st)\<lparr>magic := PAFS_MAGIC, total_blocks := 4096,
      total_inodes := 128, free_blocks := 4078, free_inodes := 128\<rparr>"
proof -
  let ?f = "\<lambda>n. clear_blocks (n\<lparr>itype := PAFS_TYPE_FREE, isize := 0\<rparr>)"
  have blank: "?f n = blank_inode" if "n \<in> set (inodes st)" for n
    using that len clear_blocks_simps [of "n\<lparr>itype := PAFS_TYPE_FREE, isize := 0\<rparr>"]
    by (auto simp: blank_inode_def pafs_consts in_set_conv_nth)
  have "map ?f (inodes st) = replicate 128 blank_inode"
    by (intro nth_equalityI) (simp_all add: blank len(1))
  then have ins: "inodes (for_range 0 128 (\<lambda>i. upd_inode i ?f) t) = replicate 128 blank_inode" if "inodes t = inodes st" for t
    using len(1) that by (simp add: for_range_upd_inode)
  show "inodes (format_tables st) = replicate 128 blank_inode"
    unfolding format_tables_def Let_def PAFS_MAX_INODES_def by (simp add: ins)
  show "block_bitmap (format_tables st) =
      for_range 0 18 pafs_bitmap_set (for_range 0 512 (\<lambda>i bm. bm[i := 0]) (block_bitmap st))"
    and "sb (format_tables st) = (sb st)\<lparr>magic := PAFS_MAGIC, total_blocks := 4096,
      total_inodes := 128, free_blocks := 4078, free_inodes := 128\<rparr>"
    by (simp_all add: format_tables_def Let_def for_range_upd_sel pafs_consts)
qed

lemma format_spec:
  assumes len: "length (inodes st) = 128" "\<forall>i < 128. length (iblocks (inodes st ! i)) = 14"
    "length (block_bitmap st) = 512"
  defines "bm \<equiv> for_range 0 18 pafs_bitmap_set (for_range 0 512 (\<lambda>i bm. bm[i := 0]) (block_bitmap st))"
  shows "inodes (pafs_format st) = put_slot ((replicate 128 blank_inode)[0 := blank_inode\<lparr>itype := 2\<rparr>]) 0 0 18"
    and "block_bitmap (pafs_format st) = pafs_bitmap_set 18 bm"
    and "sb (pafs_format st) = (sb st)\<lparr>magic := PAFS_MAGIC, total_blocks := 4096,
      total_inodes := 128, free_blocks := 4077, free_inodes := 127, root_inode := 0\<rparr>"
    and "pafs_disk_read 18 (pafs_format st) = replicate 512 0"
proof -
  note ft = format_tables_spec [OF len(1,2), folded bm_def] and bb = blank_bitmap [OF len(3), folded bm_def]
  have root: "find_free_inode (format_tables st) = 0"
  proof -
    have "find_index (\<lambda>i. itype (inodes (format_tables st) ! i) = 0) 0 128 = Some 0"
      by (simp add: find_index_Some blank_inode_def ft)
    then show ?thesis by (simp add: find_free_inode_def pafs_consts)
  qed
  define s5 where "s5 = upd_inode 0 (\<lambda>n. clear_blocks (n\<lparr>itype := PAFS_TYPE_DIR, isize := 0\<rparr>)) (format_tables st)"
  have s5: "inodes s5 = (replicate 128 blank_inode)[0 := blank_inode\<lparr>itype := 2\<rparr>]"
    "block_bitmap s5 = bm" "sb s5 = sb (format_tables st)"
    by (simp_all add: s5_def upd_inode_inodes ft clear_blocks_def for_range_list_update
        blank_inode_def pafs_consts)
  have "find_index (\<lambda>i. \<not> pafs_bitmap_test bm i) 18 4096 = Some 18"
    using bb(2) [of 18] by (auto simp: find_index_Some)
  then obtain s6 where al: "alloc_block s5 = (18, s6)" and s6: "inodes s6 = inodes s5"
    "block_bitmap s6 = pafs_bitmap_set 18 bm" "sb s6 = (sb s5)\<lparr>free_blocks := free_blocks (sb s5) - 1\<rparr>"
    by (simp add: alloc_block_def s5 pafs_consts Let_def)
  let ?s8 = "pafs_disk_write 18 (replicate 512 0) (upd_inode 0 (\<lambda>n. n\<lparr>iblocks := (iblocks n)[0 := 18]\<rparr>) s6)"
  have eq: "pafs_format st = save_metadata (?s8\<lparr>sb := (sb ?s8)\<lparr>root_inode := 0, free_inodes := free_inodes (sb ?s8) - 1\<rparr>\<rparr>)"
    by (simp add: pafs_format_def Let_def root s5_def [symmetric] al)
  show "inodes (pafs_format st) = put_slot ((replicate 128 blank_inode)[0 := blank_inode\<lparr>itype := 2\<rparr>]) 0 0 18"
    unfolding eq by (simp add: upd_inode_inodes s6 s5 put_slot_def)
  show "block_bitmap (pafs_format st) = pafs_bitmap_set 18 bm" unfolding eq by (simp add: s6)
  show "sb (pafs_format st) = (sb st)\<lparr>magic := PAFS_MAGIC, total_blocks := 4096,
      total_inodes := 128, free_blocks := 4077, free_inodes := 127, root_inode := 0\<rparr>"
    unfolding eq by (simp add: s6 s5 ft)
  show "pafs_disk_read 18 (pafs_format st) = replicate 512 0"
  proof -
    let ?w = "\<lambda>i s. pafs_disk_write (LBA_INODES_START + i) (inode_sector (inodes s) i) s"
    have "n \<le> 16 \<Longrightarrow> pafs_disk_read 18 (for_range 0 n ?w t) = pafs_disk_read 18 t" for n t
      by (induction n) (simp_all add: for_range_Suc pafs_consts)
    then show ?thesis unfolding eq by (simp add: save_metadata_def save_disk LBA_INODES_COUNT_def)
  qed
qed

lemma format_inv:
  assumes len: "length (inodes st) = 128" "\<forall>i < 128. length (iblocks (inodes st ! i)) = 14"
    "length (block_bitmap st) = 512"
  shows "pafs_inv (pafs_format st)"
proof -
  let ?bm = "for_range 0 18 pafs_bitmap_set (for_range 0 512 (\<lambda>i bm. bm[i := 0]) (block_bitmap st))"
  let ?s = "(sb st)\<lparr>magic := PAFS_MAGIC, total_blocks := 4096,
      total_inodes := 128, free_blocks := 4078, free_inodes := 128, root_inode := 0\<rparr>"
  let ?blank = "replicate 128 blank_inode"
  note fs = format_spec [OF len] and bb = blank_bitmap [OF len(3)]
  have "fs_ok ?s ?blank ?bm" using bb by (intro blank_ok) simp_all
  then have "fs_ok (?s\<lparr>free_inodes := free_inodes ?s - 1\<rparr>) (?blank[0 := blank_inode\<lparr>itype := 2\<rparr>]) ?bm"
    by (rule claim_ok) (simp_all add: blank_inode_def)
  then have "fs_ok (?s\<lparr>free_inodes := free_inodes ?s - 1, free_blocks := free_blocks ?s - 1\<rparr>)
      (put_slot (?blank[0 := blank_inode\<lparr>itype := 2\<rparr>]) 0 0 (of_nat 18)) (pafs_bitmap_set 18 ?bm)"
    using attach_ok [of "?s\<lparr>free_inodes := free_inodes ?s - 1\<rparr>" "?blank[0 := blank_inode\<lparr>itype := 2\<rparr>]" ?bm 0 0 18] bb(2) [of 18]
    by (simp add: slot_def blank_inode_def)
  then show ?thesis by (simp add: pafs_inv_def fs fs_ok_def)
qed

section \<open>Every history of operations keeps the invariant\<close>

text \<open>The root directory exists.\<close>

definition root_ok :: "pafs \<Rightarrow> bool" where
  "root_ok st \<longleftrightarrow> unat (root_inode (sb st)) < 128 \<and>
     itype (inodes st ! unat (root_inode (sb st))) = 2"

text \<open>A directory entry refers to an inode of the table that is in use.\<close>

definition live_entry :: "nat \<Rightarrow> cstring \<Rightarrow> pafs \<Rightarrow> bool" where
  "live_entry d name st \<longleftrightarrow> pafs_find_entry d name st \<noteq> -1 \<longrightarrow>
     0 \<le> pafs_find_entry d name st \<and> pafs_find_entry d name st < 128 \<and>
     itype (inodes st ! nat (pafs_find_entry d name st)) \<noteq> 0 \<and>
     nat (pafs_find_entry d name st) \<noteq> unat (root_inode (sb st))"

text \<open>
  The operations the rest of the kernel performs on the file system, with what the
  callers respect: parents are inodes in use, VFS nodes carry numbers of inodes in use, and
  the name that is removed or overwritten denotes an inode in use.
\<close>

inductive pafs_step :: "pafs \<Rightarrow> pafs \<Rightarrow> bool" where
  create: "\<lbrakk>d < 128; itype (inodes st ! d) \<noteq> 0\<rbrakk> \<Longrightarrow> pafs_step st (snd (pafs_create d name is_dir st))"
| mkdir: "\<lbrakk>d < 128; itype (inodes st ! d) \<noteq> 0\<rbrakk> \<Longrightarrow> pafs_step st (snd (pafs_mkdir d name st))"
| delete: "\<lbrakk>d < 128; live_entry d name st\<rbrakk> \<Longrightarrow> pafs_step st (snd (pafs_delete d name st))"
| fwrite: "live_entry (unat (root_inode (sb st))) name st \<Longrightarrow> pafs_step st (snd (pafs_write name data len st))"
| fread: "pafs_step st (snd (pafs_read name buf max_len st))"
| vread: "pafs_step st (snd (pafs_vfs_read ino off n buf st))"
| vwrite: "ino < 128 \<Longrightarrow> pafs_step st (snd (pafs_vfs_write ino off n data st))"

inductive pafs_reachable :: "pafs \<Rightarrow> bool" where
  format: "\<lbrakk>length (inodes st) = 128; \<forall>i < 128. length (iblocks (inodes st ! i)) = 14;
     length (block_bitmap st) = 512\<rbrakk> \<Longrightarrow> pafs_reachable (pafs_format st)"
| step: "\<lbrakk>pafs_reachable st; pafs_step st st'\<rbrakk> \<Longrightarrow> pafs_reachable st'"

inductive_cases pafs_stepE: "pafs_step st st'"

lemma lock_sel [simp]:
  "sb (lock_pafs st) = sb st" "inodes (lock_pafs st) = inodes st" "block_bitmap (lock_pafs st) = block_bitmap st"
  "pafs_disk_read l (lock_pafs st) = pafs_disk_read l st"
  "sb (unlock_pafs st) = sb st" "inodes (unlock_pafs st) = inodes st" "block_bitmap (unlock_pafs st) = block_bitmap st"
  "pafs_disk_read l (unlock_pafs st) = pafs_disk_read l st"
  by (simp_all add: lock_pafs_def unlock_pafs_def split_beta Let_def)

lemma find_entry_lock [simp]:
  "pafs_find_entry d name (lock_pafs st) = pafs_find_entry d name st"
  "pafs_find_entry d name (unlock_pafs st) = pafs_find_entry d name st"
  unfolding pafs_find_entry_def lock_sel by (rule refl)+

lemma with_lock_snd: "snd (with_lock f st) = unlock_pafs (snd (f (lock_pafs st)))"
  by (simp add: with_lock_def split_beta Let_def)

lemma find_free_lock [simp]: "find_free_inode (lock_pafs st) = find_free_inode st"
  by (simp add: find_free_inode_def)

lemma create_inv:
  "\<lbrakk>pafs_inv st; d < 128; itype (inodes st ! d) \<noteq> 0\<rbrakk> \<Longrightarrow> pafs_inv (snd (pafs_create d name is_dir st))"
  by (simp add: pafs_create_def with_lock_snd create_locked_inv)

text \<open>What the result of \<open>pafs_create\<close> says.\<close>

lemma create_result:
  assumes inv: "pafs_inv st" and d: "d < 128" "itype (inodes st ! d) \<noteq> 0"
    and c: "pafs_create d name is_dir st = (r, st')"
  shows "r = -1 \<or> 0 \<le> r \<and> r < 128 \<and> nat r \<noteq> d \<and> itype (inodes st ! nat r) = 0 \<and>
    itype (inodes st' ! nat r) = (if is_dir then 2 else 1)"
    and "root_inode (sb st') = root_inode (sb st)"
    and "j < 128 \<Longrightarrow> itype (inodes st ! j) \<noteq> 0 \<Longrightarrow> itype (inodes st' ! j) = itype (inodes st ! j)"
proof -
  let ?l = "lock_pafs st"
  have il: "pafs_inv ?l" using inv by simp
  obtain q where cl: "create_locked d name is_dir ?l = (r, q)" and st': "st' = unlock_pafs q"
    using c by (auto simp: pafs_create_def with_lock_def split_beta Let_def prod_eq_iff)
  have "(r = -1 \<or> 0 \<le> r \<and> r < 128 \<and> nat r \<noteq> d \<and> itype (inodes st ! nat r) = 0 \<and>
      itype (inodes q ! nat r) = (if is_dir then 2 else 1)) \<and>
    root_inode (sb q) = root_inode (sb st) \<and>
    (j < 128 \<longrightarrow> itype (inodes st ! j) \<noteq> 0 \<longrightarrow> itype (inodes q ! j) = itype (inodes st ! j))"
  proof (cases "free_inodes (sb ?l) = 0 \<or> pafs_find_entry d name ?l \<noteq> -1 \<or> find_free_inode ?l = -1")
    case True
    then have "r = -1" "q = ?l" using cl by (auto simp: create_locked_unfold)
    then show ?thesis by simp
  next
    case False
    then obtain i where i: "find_free_inode ?l = int i" "i < 128" "itype (inodes st ! i) = 0"
      by (cases rule: find_free_inode_cases [of ?l]) auto
    have i': "itype (inodes ?l ! i) = 0" using i(3) by simp
    let ?s1 = "new_inode is_dir i ?l"
    note inv1 = new_inode_inv [OF il i(2) i', of is_dir] and sel = new_inode_sel [OF il i(2), where is_dir = is_dir]
    obtain r' s where a: "pafs_add_entry d name (of_nat i) ?s1 = (r', s)" by (cases "pafs_add_entry d name (of_nat i) ?s1")
    note ae = add_entry_inv [OF inv1 d(1) a]
    have di: "d \<noteq> i" using i(3) d(2) by auto
    have s: "itype (inodes s ! i) = (if is_dir then 2 else 1)" "root_inode (sb s) = root_inode (sb st)"
      using ae(2) sel(2) di by (simp_all add: frame_def new_inode_def Let_def)
    have old: "itype (inodes s ! j) = itype (inodes st ! j)" if "j < 128" "itype (inodes st ! j) \<noteq> 0"
    proof -
      have "j \<noteq> i" using that i(3) by auto
      then have "inodes ?s1 ! j = inodes st ! j" using sel(1) that(1) by simp
      then show ?thesis using ae(2) by (cases "j = d") (simp_all add: frame_def)
    qed
    show ?thesis
    proof (cases "r' = 0")
      case True
      then have "r = int i" "q = pafs_save_inode i s" using cl False i(1) a by (simp_all add: create_locked_unfold Let_def)
      then show ?thesis using s old i di by simp
    next
      case r': False
      let ?t = "upd_inode i (\<lambda>n. n\<lparr>itype := PAFS_TYPE_FREE\<rparr>) s"
      have "r = -1" and q: "q = ?t\<lparr>sb := (sb ?t)\<lparr>free_inodes := free_inodes (sb ?t) + 1\<rparr>\<rparr>"
        using cl False i(1) a r' by (simp_all add: create_locked_unfold Let_def)
      moreover have "itype (inodes q ! j) = itype (inodes st ! j)" if "j < 128" "itype (inodes st ! j) \<noteq> 0"
      proof -
        have "j \<noteq> i" using that i(3) by auto
        then show ?thesis using old that by (simp add: q upd_inode_inodes)
      qed
      ultimately show ?thesis using s by simp
    qed
  qed
  then show "r = -1 \<or> 0 \<le> r \<and> r < 128 \<and> nat r \<noteq> d \<and> itype (inodes st ! nat r) = 0 \<and>
      itype (inodes st' ! nat r) = (if is_dir then 2 else 1)"
    and "root_inode (sb st') = root_inode (sb st)"
    and "j < 128 \<Longrightarrow> itype (inodes st ! j) \<noteq> 0 \<Longrightarrow> itype (inodes st' ! j) = itype (inodes st ! j)"
    by (simp_all add: st')
qed

text \<open>\<open>pafs_write\<close> opens or creates the file and then writes it.\<close>

lemma write_locked_open:
  assumes inv: "pafs_inv st" and root: "root_ok st" and live: "live_entry (unat (root_inode (sb st))) name st"
  obtains r st1 where
    "(r, st1) = (if pafs_find_entry (unat (root_inode (sb st))) name st = -1
       then pafs_create (unat (root_inode (sb st))) name False st
       else (pafs_find_entry (unat (root_inode (sb st))) name st, st))"
    "write_locked name data len st =
      (if r = -1 \<or> itype (inodes st1 ! nat r) \<noteq> PAFS_TYPE_FILE then (-1, st1)
       else let (n, st2) = write_loop (nat r) data (nat len) 0 0 st1
            in (int n, pafs_save_inode (nat r) (upd_inode (nat r) (\<lambda>i. i\<lparr>isize := of_nat n\<rparr>) st2)))"
    "pafs_inv st1" "root_ok st1"
    "r = -1 \<or> 0 \<le> r \<and> r < 128 \<and> itype (inodes st1 ! nat r) \<noteq> 0 \<and> nat r \<noteq> unat (root_inode (sb st1))"
proof -
  let ?root = "unat (root_inode (sb st))"
  have rt: "?root < 128" "itype (inodes st ! ?root) \<noteq> 0" "itype (inodes st ! ?root) = 2"
    using root by (simp_all add: root_ok_def)
  define p where "p = (if pafs_find_entry ?root name st = -1 then pafs_create ?root name False st
                       else (pafs_find_entry ?root name st, st))"
  obtain r st1 where p: "p = (r, st1)" by (cases p)
  have "pafs_inv st1 \<and> root_ok st1 \<and>
    (r = -1 \<or> 0 \<le> r \<and> r < 128 \<and> itype (inodes st1 ! nat r) \<noteq> 0 \<and> nat r \<noteq> unat (root_inode (sb st1)))"
  proof (cases "pafs_find_entry ?root name st = -1")
    case True
    then have c: "pafs_create ?root name False st = (r, st1)" using p by (simp add: p_def)
    note cr = create_result [OF inv rt(1,2) c]
    have "pafs_inv st1" using create_inv [OF inv rt(1,2), of name False] c by simp
    moreover have "root_ok st1" using cr(2) cr(3) [OF rt(1,2)] rt by (simp add: root_ok_def)
    ultimately show ?thesis using cr(1,2) by auto
  next
    case False
    then show ?thesis using p inv root live by (auto simp: p_def live_entry_def)
  qed
  moreover have "write_locked name data len st =
      (if r = -1 \<or> itype (inodes st1 ! nat r) \<noteq> PAFS_TYPE_FILE then (-1, st1)
       else let (n, st2) = write_loop (nat r) data (nat len) 0 0 st1
            in (int n, pafs_save_inode (nat r) (upd_inode (nat r) (\<lambda>i. i\<lparr>isize := of_nat n\<rparr>) st2)))"
    using p by (simp add: write_locked_def Let_def p_def [symmetric])
  ultimately show ?thesis by (intro that [of r st1]) (simp_all only: p [symmetric] p_def)
qed

lemma write_locked_inv:
  assumes inv: "pafs_inv st" and root: "root_ok st" and live: "live_entry (unat (root_inode (sb st))) name st"
  shows "pafs_inv (snd (write_locked name data len st)) \<and> root_ok (snd (write_locked name data len st))"
proof -
  obtain r st1 where unf: "write_locked name data len st =
      (if r = -1 \<or> itype (inodes st1 ! nat r) \<noteq> PAFS_TYPE_FILE then (-1, st1)
       else let (n, st2) = write_loop (nat r) data (nat len) 0 0 st1
            in (int n, pafs_save_inode (nat r) (upd_inode (nat r) (\<lambda>i. i\<lparr>isize := of_nat n\<rparr>) st2)))"
    and inv1: "pafs_inv st1" and root1: "root_ok st1"
    and r: "r = -1 \<or> 0 \<le> r \<and> r < 128 \<and> itype (inodes st1 ! nat r) \<noteq> 0 \<and> nat r \<noteq> unat (root_inode (sb st1))"
    by (rule write_locked_open [OF inv root live, of data len]) blast
  show ?thesis
  proof (cases "r = -1 \<or> itype (inodes st1 ! nat r) \<noteq> PAFS_TYPE_FILE")
    case True
    then show ?thesis using inv1 root1 by (auto simp: unf)
  next
    case False
    then have ino: "nat r < 128" "itype (inodes st1 ! nat r) \<noteq> 0" "nat r \<noteq> unat (root_inode (sb st1))"
      using r by auto
    obtain n st2 where w: "write_loop (nat r) data (nat len) 0 0 st1 = (n, st2)"
      by (cases "write_loop (nat r) data (nat len) 0 0 st1")
    have wi: "pafs_inv st2" "frame (nat r) st1 st2"
      using write_loop_inv [OF inv1 ino(1,2), of data "nat len" 0 0] w by simp_all
    have "pafs_inv (upd_inode (nat r) (\<lambda>i. i\<lparr>isize := of_nat n\<rparr>) st2)"
      using wi(1) ino(1) by (rule resize_inv)
    moreover have "root_ok (upd_inode (nat r) (\<lambda>i. i\<lparr>isize := of_nat n\<rparr>) st2)"
      using wi(2) root1 ino(3) by (simp add: root_ok_def frame_def upd_inode_inodes)
    ultimately show ?thesis using False w by (simp add: unf root_ok_def)
  qed
qed

lemma vfs_write_locked_inv:
  assumes inv: "pafs_inv st" and root: "root_ok st" and ino: "ino < 128"
  shows "pafs_inv (snd (vfs_write_locked ino off n data st)) \<and> root_ok (snd (vfs_write_locked ino off n data st))"
proof (cases "itype (inodes st ! ino) = PAFS_TYPE_FILE")
  case True
  then have used: "itype (inodes st ! ino) \<noteq> 0" by (simp add: pafs_consts)
  have nr: "ino \<noteq> unat (root_inode (sb st))" using True root by (auto simp: root_ok_def pafs_consts)
  obtain m st1 where w: "vfs_write_loop ino data (unat n) 0 (unat off div PAFS_BLOCK_SIZE) (unat off mod PAFS_BLOCK_SIZE) st = (m, st1)"
    by (cases "vfs_write_loop ino data (unat n) 0 (unat off div PAFS_BLOCK_SIZE) (unat off mod PAFS_BLOCK_SIZE) st")
  have wi: "pafs_inv st1" "frame ino st st1"
    using vfs_write_loop_inv [OF inv ino used, of data "unat n" 0 "unat off div PAFS_BLOCK_SIZE" "unat off mod PAFS_BLOCK_SIZE"] w
    by simp_all
  have r1: "root_ok st1" using wi(2) root nr by (simp add: root_ok_def frame_def)
  moreover have "root_ok (upd_inode ino (\<lambda>i. i\<lparr>isize := off + of_nat m\<rparr>) st1)"
    using r1 wi(2) nr by (simp add: root_ok_def frame_def upd_inode_inodes)
  moreover have "pafs_inv (upd_inode ino (\<lambda>i. i\<lparr>isize := off + of_nat m\<rparr>) st1)"
    using wi(1) ino by (rule resize_inv)
  ultimately show ?thesis using True wi(1) w by (simp add: vfs_write_locked_def Let_def root_ok_def)
qed (use inv root in \<open>simp add: vfs_write_locked_def\<close>)

lemma remove_entry_types: "itype (inodes (snd (pafs_remove_entry d name st)) ! j) = itype (inodes st ! j)"
  "sb (snd (pafs_remove_entry d name st)) = sb st"
proof -
  have "itype ((inodes st)[d := (inodes st ! d)\<lparr>isize := x\<rparr>] ! j) = itype (inodes st ! j)" for x
    by (cases "j = d"; cases "d < length (inodes st)") (simp_all add: list_update_beyond)
  then show "itype (inodes (snd (pafs_remove_entry d name st)) ! j) = itype (inodes st ! j)"
    "sb (snd (pafs_remove_entry d name st)) = sb st"
    by (auto simp: pafs_remove_entry_def Let_def upd_inode_inodes split: option.split prod.split)
qed

lemma delete_locked_root:
  assumes inv: "pafs_inv st" and root: "root_ok st" and live: "live_entry d name st"
  shows "root_ok (snd (delete_locked d name st))"
proof (cases "pafs_find_entry d name st = -1")
  case True
  then show ?thesis using root by (simp add: delete_locked_def)
next
  case False
  define i where "i = nat (pafs_find_entry d name st)"
  have i: "i < 128" "i \<noteq> unat (root_inode (sb st))" using live False by (auto simp: live_entry_def i_def nat_less_iff)
  define st1 where "st1 = for_range 0 14 (release_block i) st"
  have sb1: "root_inode (sb st1) = root_inode (sb st)"
    unfolding st1_def
    by (rule for_range_inv [where P = "\<lambda>_ s. root_inode (sb s) = root_inode (sb st)"])
      (simp_all add: release_block_def Let_def)
  define st3 where "st3 = (upd_inode i (\<lambda>n. n\<lparr>itype := PAFS_TYPE_FREE, isize := 0\<rparr>) st1)\<lparr>sb :=
      (sb st1)\<lparr>free_inodes := free_inodes (sb st1) + 1\<rparr>\<rparr>"
  have "root_ok st3"
    using root i(2) release_blocks_inv(3) [OF inv i(1), of "unat (root_inode (sb st))", folded st1_def]
    by (simp add: root_ok_def st3_def sb1 upd_inode_inodes)
  then have "root_ok (snd (pafs_remove_entry d name st3))" by (simp add: root_ok_def remove_entry_types)
  then show ?thesis
    using False root
    by (simp add: delete_locked_def Let_def split_beta i_def [symmetric] st1_def [symmetric]
        st3_def [symmetric]) (simp add: root_ok_def)
qed

text \<open>One operation keeps the invariant.\<close>

lemma pafs_step_inv:
  assumes "pafs_step st st'" and inv: "pafs_inv st" and root: "root_ok st"
  shows "pafs_inv st' \<and> root_ok st'"
proof -
  have ul: "pafs_inv (unlock_pafs s) = pafs_inv s" "root_ok (unlock_pafs s) = root_ok s"
    "root_ok (lock_pafs s) = root_ok s" "live_entry d name (lock_pafs s) = live_entry d name s" for s d name
    by (simp_all add: root_ok_def live_entry_def)
  have create: "pafs_inv (snd (pafs_create d name is_dir st)) \<and> root_ok (snd (pafs_create d name is_dir st))"
    if "d < 128" "itype (inodes st ! d) \<noteq> 0" for d name is_dir
  proof -
    obtain r s where c: "pafs_create d name is_dir st = (r, s)" by (cases "pafs_create d name is_dir st")
    show ?thesis using create_inv [OF inv that, of name is_dir] create_result(2,3) [OF inv that c] root c
      by (simp add: root_ok_def)
  qed
  from assms(1) show ?thesis
  proof cases
    case (create d name is_dir)
    then show ?thesis using \<open>\<And>d name is_dir. \<lbrakk>d < 128; itype (inodes st ! d) \<noteq> 0\<rbrakk> \<Longrightarrow>
      pafs_inv (snd (pafs_create d name is_dir st)) \<and> root_ok (snd (pafs_create d name is_dir st))\<close> by blast
  next
    case (mkdir d name)
    then show ?thesis using \<open>\<And>d name is_dir. \<lbrakk>d < 128; itype (inodes st ! d) \<noteq> 0\<rbrakk> \<Longrightarrow>
      pafs_inv (snd (pafs_create d name is_dir st)) \<and> root_ok (snd (pafs_create d name is_dir st))\<close>
      by (simp add: pafs_mkdir_def)
  next
    case (delete d name)
    have "pafs_inv (snd (delete_locked d name (lock_pafs st)))"
      using delete inv by (intro delete_locked_inv) (auto simp: live_entry_def)
    moreover have "root_ok (snd (delete_locked d name (lock_pafs st)))"
      using delete inv root by (intro delete_locked_root) (auto simp: ul)
    ultimately show ?thesis using delete(1) by (simp add: pafs_delete_def with_lock_snd ul)
  next
    case (fwrite name data len)
    then show ?thesis
      using write_locked_inv [of "lock_pafs st" name data len] inv root
      by (simp add: pafs_write_def with_lock_snd ul)
  next
    case (fread name buf max_len)
    have "snd (read_locked name buf max_len s) = s" for s
      by (simp add: read_locked_def Let_def split_beta)
    then show ?thesis using fread inv root by (simp add: pafs_read_def with_lock_snd ul)
  next
    case (vread ino off n buf)
    have "snd (vfs_read_locked ino off n buf s) = s" for s
      by (simp add: vfs_read_locked_def Let_def split_beta)
    then show ?thesis using vread inv root by (simp add: pafs_vfs_read_def with_lock_snd ul)
  next
    case (vwrite ino off n data)
    then show ?thesis
      using vfs_write_locked_inv [of "lock_pafs st" ino off n data] inv root
      by (simp add: pafs_vfs_write_def with_lock_snd ul)
  qed
qed

lemma root_ok_format:
  "\<lbrakk>length (inodes st) = 128; \<forall>i < 128. length (iblocks (inodes st ! i)) = 14; length (block_bitmap st) = 512\<rbrakk>
    \<Longrightarrow> root_ok (pafs_format st)"
  by (simp add: root_ok_def format_spec put_slot_def)

text \<open>
  C3: after formatting and any sequence of operations (\<open>pafs_step\<close>) the bitmap marks exactly the system
  area and the blocks the inodes refer to, no block is used twice, free inodes own nothing,
  the free counters of the superblock are exact, and the root is a directory. The sequence is restricted as the callers
  must be: files and directories are created below an inode in use, the numbers of VFS nodes are below 128, and a name that is deleted or written by
  \<open>pafs_write\<close> either does not exist or its entry leads to an inode in use that is not the root. This last condition
  excludes the entry that \<open>remove_entry_same_block\<close> leaves behind: deleting such a name a second time frees a free
  inode and makes the counters wrong.
\<close>

theorem pafs_reachable_inv:
  assumes "pafs_reachable st"
  shows "pafs_inv st \<and> root_ok st"
  using assms
proof induction
  case (format st)
  then show ?case by (simp add: format_inv root_ok_format)
next
  case (step st st')
  then show ?case using pafs_step_inv by blast
qed

text \<open>A system before it is formatted, in memory only.\<close>

definition pafs_raw :: pafs where
  "pafs_raw = \<lparr>sb = sb_of (replicate 512 0), inodes = replicate 128 blank_inode, block_bitmap = replicate 512 0,
     ramdisk_mode = True, ramdisk = (\<lambda>_. replicate 512 0), ata = (\<lambda>_ _. []), current_pafs_drive = 0,
     pafs_lock = SPINLOCK_INIT, eflags = 0x202\<rparr>"

lemma pafs_raw_format: "pafs_reachable (pafs_format pafs_raw)"
  by (rule pafs_reachable.format) (simp_all add: pafs_raw_def blank_inode_def)

theorem pafs_reachable_inv_witness:
  "pafs_inv (snd (pafs_mkdir 0 [0x62] (pafs_format pafs_raw)))"
proof -
  have "itype (inodes (pafs_format pafs_raw) ! 0) \<noteq> 0"
    by (subst format_spec(1)) (simp_all add: put_slot_def pafs_raw_def blank_inode_def)
  then have "pafs_step (pafs_format pafs_raw) (snd (pafs_mkdir 0 [0x62] (pafs_format pafs_raw)))"
    by (intro pafs_step.mkdir) simp_all
  then show ?thesis using pafs_reachable_inv [OF pafs_reachable.step [OF pafs_raw_format]] by blast
qed

section \<open>Interrupts\<close>

lemma with_lock_eflags:
  assumes "eflags (snd (f (lock_pafs st))) = eflags (lock_pafs st)"
    and "pafs_lock (snd (f (lock_pafs st))) = pafs_lock (lock_pafs st)"
  shows "eflags (snd (with_lock f st)) = eflags st" and "lflags (pafs_lock (snd (with_lock f st))) = eflags st"
  using assms by (simp_all add: with_lock_snd unlock_pafs_def lock_pafs_def split_beta Let_def spin_defs)

lemma create_locked_lock:
  assumes inv: "pafs_inv st" and d: "d < 128"
  shows "eflags (snd (create_locked d name is_dir st)) = eflags st \<and>
    pafs_lock (snd (create_locked d name is_dir st)) = pafs_lock st"
proof (cases "free_inodes (sb st) = 0 \<or> pafs_find_entry d name st \<noteq> -1 \<or> find_free_inode st = -1")
  case True
  then show ?thesis by (auto simp: create_locked_unfold)
next
  case False
  then obtain i where i: "find_free_inode st = int i" "i < 128" "itype (inodes st ! i) = 0"
    by (cases rule: find_free_inode_cases [of st]) auto
  let ?s1 = "new_inode is_dir i st"
  obtain r s where a: "pafs_add_entry d name (of_nat i) ?s1 = (r, s)" by (cases "pafs_add_entry d name (of_nat i) ?s1")
  have "frame d ?s1 s" using add_entry_inv(2) [OF new_inode_inv [OF inv i(2,3)] d a] .
  then have "eflags s = eflags st" "pafs_lock s = pafs_lock st" by (simp_all add: frame_def new_inode_def Let_def)
  then show ?thesis using False i a by (simp add: create_locked_unfold Let_def save_defs)
qed

lemma create_eflags:
  assumes "pafs_inv st" and "d < 128"
  shows "eflags (snd (pafs_create d name is_dir st)) = eflags st"
    and "lflags (pafs_lock (snd (pafs_create d name is_dir st))) = eflags st"
  using with_lock_eflags [of "create_locked d name is_dir" st] create_locked_lock [of "lock_pafs st" d name is_dir] assms
  by (simp_all add: pafs_create_def)

text \<open>
  C35: \<open>pafs_write\<close> of a file that exists leaves the interrupt flag as the caller had it, but
  of a name that does not exist yet it calls \<open>pafs_create\<close> with
  \<open>pafs_lock\<close> already held: the inner acquisition overwrites the saved flags, and the
  call returns with interrupts disabled although the caller had them enabled. The file system is consistent, and the entry of an existing
  name leads to an inode in use that is not the root.
\<close>

theorem pafs_write_interrupts:
  assumes "pafs_inv st" and "root_ok st" and "live_entry (unat (root_inode (sb st))) name st"
  shows "eflags (snd (pafs_write name data len st)) =
    (if pafs_find_entry (unat (root_inode (sb st))) name st = -1 then cli (eflags st) else eflags st)"
proof -
  let ?l = "lock_pafs st" and ?root = "unat (root_inode (sb st))"
  have lk: "pafs_inv ?l" "root_ok ?l" "live_entry (unat (root_inode (sb ?l))) name ?l" "?root < 128"
    using assms by (simp_all add: root_ok_def live_entry_def)
  obtain r st1 where op: "(r, st1) = (if pafs_find_entry (unat (root_inode (sb ?l))) name ?l = -1
      then pafs_create (unat (root_inode (sb ?l))) name False ?l
      else (pafs_find_entry (unat (root_inode (sb ?l))) name ?l, ?l))"
    and unf: "write_locked name data len ?l =
      (if r = -1 \<or> itype (inodes st1 ! nat r) \<noteq> PAFS_TYPE_FILE then (-1, st1)
       else let (n, st2) = write_loop (nat r) data (nat len) 0 0 st1
            in (int n, pafs_save_inode (nat r) (upd_inode (nat r) (\<lambda>i. i\<lparr>isize := of_nat n\<rparr>) st2)))"
    and inv1: "pafs_inv st1"
    and r: "r = -1 \<or> 0 \<le> r \<and> r < 128 \<and> itype (inodes st1 ! nat r) \<noteq> 0 \<and> nat r \<noteq> unat (root_inode (sb st1))"
    by (rule write_locked_open [OF lk(1-3), of data len]) blast
  have "pafs_lock (snd (write_locked name data len ?l)) = pafs_lock st1"
  proof (cases "r = -1 \<or> itype (inodes st1 ! nat r) \<noteq> PAFS_TYPE_FILE")
    case False
    then have "frame (nat r) st1 (snd (write_loop (nat r) data (nat len) 0 0 st1))"
      using write_loop_inv [OF inv1] r by auto
    then show ?thesis using False by (simp add: unf split_beta Let_def frame_def save_defs)
  qed (auto simp: unf)
  moreover have "lflags (pafs_lock st1) =
      (if pafs_find_entry ?root name st = -1 then cli (eflags st) else eflags st)"
  proof (cases "pafs_find_entry ?root name st = -1")
    case True
    then have "st1 = snd (pafs_create ?root name False ?l)" using op by (simp add: prod_eq_iff)
    then show ?thesis using True create_eflags(2) [OF lk(1,4), of name False]
      by (simp add: lock_pafs_def spin_defs)
  next
    case False
    then have "st1 = ?l" using op by simp
    then show ?thesis using False by (simp add: lock_pafs_def spin_defs)
  qed
  ultimately show ?thesis
    by (simp add: pafs_write_def with_lock_snd unlock_pafs_def spin_defs split_beta Let_def)
qed

theorem pafs_write_interrupts_witness:
  "interrupts_on 0x202 \<and>
   \<not> interrupts_on (eflags (snd (pafs_write [0x61] [1, 2, 3] 3 ((pafs_format pafs_raw)\<lparr>eflags := 0x202\<rparr>))))"
proof -
  let ?s = "(pafs_format pafs_raw)\<lparr>eflags := 0x202\<rparr>"
  have fmt: "inodes (pafs_format pafs_raw) = put_slot ((replicate 128 blank_inode)[0 := blank_inode\<lparr>itype := 2\<rparr>]) 0 0 18"
    "root_inode (sb (pafs_format pafs_raw)) = 0"
    by (subst format_spec; simp add: pafs_raw_def blank_inode_def)+
  have none: "pafs_find_entry (unat (root_inode (sb ?s))) [0x61] ?s = -1"
    by (simp add: pafs_find_entry_def fmt put_slot_def blank_inode_def)
  have "pafs_inv (pafs_format pafs_raw)" by (rule format_inv) (simp_all add: pafs_raw_def blank_inode_def)
  moreover have "root_ok (pafs_format pafs_raw)" by (rule root_ok_format) (simp_all add: pafs_raw_def blank_inode_def)
  ultimately have "pafs_inv ?s" "root_ok ?s" by (simp_all add: pafs_inv_def root_ok_def)
  moreover have "live_entry (unat (root_inode (sb ?s))) [0x61] ?s" using none by (simp only: live_entry_def simp_thms)
  ultimately have "eflags (snd (pafs_write [0x61] [1, 2, 3] 3 ?s)) = cli (eflags ?s)"
    using pafs_write_interrupts [of ?s "[0x61]" "[1, 2, 3]" 3] none by (simp only: if_True simp_thms)
  then have "\<not> interrupts_on (eflags (snd (pafs_write [0x61] [1, 2, 3] 3 ?s)))" by (simp only: cli_off simp_thms)
  moreover have "interrupts_on 0x202" by (simp add: interrupts_on_def)
  ultimately show ?thesis by blast
qed

end
