(* ===== verification/Pafs_File.thy ===== *)
theory Pafs_File
  imports Pafs_Inv
begin

text \<open>
  Files of PAFS as byte sequences. The bytes of a file are the bytes of the sectors its
  slots refer to; reading and writing through \<open>pafs_read\<close>, \<open>pafs_write\<close> and the VFS
  functions of \<open>kernel/fs/pafs.c\<close> are specified against this sequence.
\<close>

section \<open>File contents\<close>

definition disk_ok :: "pafs \<Rightarrow> bool" where
  "disk_ok st \<longleftrightarrow> (\<forall>l. length (pafs_disk_read l st) = 512)"

definition file_byte :: "pafs \<Rightarrow> nat \<Rightarrow> nat \<Rightarrow> u8" where
  "file_byte st ino p =
     pafs_disk_read (unat (iblocks (inodes st ! ino) ! (p div 512))) st ! (p mod 512)"

definition contents :: "pafs \<Rightarrow> nat \<Rightarrow> u8 list" where
  "contents st ino = map (file_byte st ino) [0..<unat (isize (inodes st ! ino))]"

text \<open>Every block below the file's size exists, and sizes stay below 14 blocks.\<close>

definition file_ok :: "pafs \<Rightarrow> nat \<Rightarrow> bool" where
  "file_ok st ino \<longleftrightarrow> unat (isize (inodes st ! ino)) \<le> 7168 \<and>
     (\<forall>j < 14. 512 * j < unat (isize (inodes st ! ino)) \<longrightarrow> iblocks (inodes st ! ino) ! j \<noteq> 0)"

lemma length_overwrite [simp]: "off + length xs \<le> length d \<Longrightarrow> length (overwrite off xs d) = length d"
  by (simp add: overwrite_def)

lemma nth_overwrite:
  "off + length xs \<le> length d \<Longrightarrow> q < length d \<Longrightarrow>
     overwrite off xs d ! q = (if off \<le> q \<and> q < off + length xs then xs ! (q - off) else d ! q)"
  by (auto simp: overwrite_def nth_append)

lemma disk_ok_write: "disk_ok st \<Longrightarrow> length d = 512 \<Longrightarrow> disk_ok (pafs_disk_write l d st)"
  by (simp add: disk_ok_def)

lemma disk_ok_upd [simp]:
  "disk_ok (upd_inode i f st) = disk_ok st" "disk_ok (lock_pafs st) = disk_ok st"
  "disk_ok (unlock_pafs st) = disk_ok st"
  by (simp_all add: disk_ok_def)

lemma concat_bytes_length: "length (concat (map bytes32 bs)) = 4 * length bs"
  by (induction bs) simp_all

lemma inode_bytes_length: "length (iblocks n) = 14 \<Longrightarrow> length (inode_bytes n) = 64"
  by (simp add: inode_bytes_def concat_bytes_length)

lemma concat_length_const: "\<forall>x \<in> set xs. length (f x) = c \<Longrightarrow> length (concat (map f xs)) = c * length xs"
  by (induction xs) simp_all

lemma inode_sector_length: "pafs_inv st \<Longrightarrow> s < 16 \<Longrightarrow> length (inode_sector (inodes st) s) = 512"
proof -
  assume inv: "pafs_inv st" and s: "s < 16"
  note len = pafs_inv_lengths [OF inv]
  have "length (inode_bytes n) = 64" if "n \<in> set (take 8 (drop (8 * s) (inodes st)))" for n
    using that len by (auto intro!: inode_bytes_length dest!: in_set_takeD in_set_dropD simp: in_set_conv_nth)
  then show ?thesis
    using s len by (simp add: inode_sector_def concat_length_const [where c = 64])
qed

lemma disk_ok_save_inode: "pafs_inv st \<Longrightarrow> disk_ok st \<Longrightarrow> i < 128 \<Longrightarrow> disk_ok (pafs_save_inode i st)"
  by (simp add: pafs_save_inode_def Let_def disk_ok_write inode_sector_length)

text \<open>The superblock buffer is a sector.\<close>

definition sb_ok :: "pafs \<Rightarrow> bool" where
  "sb_ok st \<longleftrightarrow> length (sb_rest (sb st)) = 488"

lemma ensure_block_disk:
  assumes inv: "pafs_inv st" and d: "disk_ok st" "sb_ok st" and e: "ensure_block i k st = (ok, st')"
  shows "disk_ok st'" and "sb_ok st'"
proof -
  have "length (block_bitmap st) = 512" using pafs_inv_lengths [OF inv] by simp
  then have al: "disk_ok (snd (alloc_block st)) \<and> sb_ok (snd (alloc_block st))"
    using d by (auto simp: alloc_block_def save_defs disk_ok_def sb_ok_def sb_bytes_def split: option.split)
  then show "disk_ok st'" and "sb_ok st'"
    using e d by (auto simp: ensure_block_def split_beta Let_def sb_ok_def split: if_splits)
qed

text \<open>What taking a block for a slot costs.\<close>

lemma ensure_block_room:
  assumes inv: "pafs_inv st" and e: "ensure_block i k st = (ok, st')"
  shows "card (free_block_set (block_bitmap st)) \<le>
    card (free_block_set (block_bitmap st')) + (if iblocks (inodes st ! i) ! k = 0 then 1 else 0)"
proof (cases "iblocks (inodes st ! i) ! k = 0")
  case True
  from inv show ?thesis
  proof (cases rule: alloc_block_cases)
    case full
    then show ?thesis by simp
  next
    case (got b s)
    have bm: "block_bitmap st' = pafs_bitmap_set b (block_bitmap st)"
      using e True got by (auto simp: ensure_block_def)
    have "4096 \<le> 8 * length (block_bitmap st)" using pafs_inv_lengths [OF inv] by simp
    then have "free_block_set (block_bitmap st') = free_block_set (block_bitmap st) - {b}"
      using got(3) pb.test_set [of b "block_bitmap st"] by (auto simp: free_block_set_def bm)
    moreover have "b \<in> free_block_set (block_bitmap st)" using got by (simp add: free_block_set_def)
    ultimately show ?thesis using True by (simp add: card_Diff_singleton)
  qed
qed (use e in \<open>simp add: ensure_block_def\<close>)

text \<open>Formatting leaves a disk of whole sectors.\<close>

lemma alloc_block_disk:
  assumes "length (block_bitmap st) = 512" and "disk_ok st" and "sb_ok st"
  shows "disk_ok (snd (alloc_block st)) \<and> sb_ok (snd (alloc_block st))"
  using assms by (auto simp: alloc_block_def save_defs disk_ok_def sb_ok_def sb_bytes_def split: option.split)

lemma save_metadata_disk:
  assumes inv: "pafs_inv st" and d: "disk_ok st" "sb_ok st"
  shows "disk_ok (save_metadata st)"
proof -
  let ?w = "\<lambda>i s. pafs_disk_write (LBA_INODES_START + i) (inode_sector (inodes s) i) s"
  let ?s0 = "pafs_save_superblock st"
  have d0: "disk_ok ?s0" using d by (simp add: save_defs disk_ok_write sb_bytes_def sb_ok_def)
  have "disk_ok (for_range 0 16 ?w ?s0) \<and> inodes (for_range 0 16 ?w ?s0) = inodes st \<and>
      block_bitmap (for_range 0 16 ?w ?s0) = block_bitmap st"
    by (rule for_range_inv [where P = "\<lambda>_ s. disk_ok s \<and> inodes s = inodes st \<and> block_bitmap s = block_bitmap st"])
      (use d0 in \<open>simp_all add: disk_ok_write inode_sector_length [OF inv]\<close>)
  then show ?thesis
    using pafs_inv_lengths(3) [OF inv] by (simp add: save_metadata_def save_defs disk_ok_write LBA_INODES_COUNT_def)
qed

lemma for_range_upd_disk: "disk_ok (for_range 0 n (\<lambda>i. upd_inode i f) st) = disk_ok st"
  by (induction n) (simp_all add: for_range_Suc)

lemma format_disk:
  assumes len: "length (inodes st) = 128" "\<forall>i < 128. length (iblocks (inodes st ! i)) = 14" "length (block_bitmap st) = 512"
    and d: "disk_ok st" "sb_ok st"
  shows "disk_ok (pafs_format st)" and "sb_ok (pafs_format st)"
proof -
  note ft = format_tables_spec [OF len(1,2)] and bb = blank_bitmap [OF len(3)]
  show "sb_ok (pafs_format st)" using d(2) by (simp add: sb_ok_def format_spec [OF len])
  have "disk_ok (st\<lparr>sb := x, block_bitmap := y\<rparr>) = disk_ok st" "disk_ok (st\<lparr>sb := x\<rparr>) = disk_ok st"
    "disk_ok (s\<lparr>block_bitmap := y\<rparr>) = disk_ok s" for x y s by (simp_all add: disk_ok_def)
  then have d4: "disk_ok (format_tables st)" "sb_ok (format_tables st)" "length (block_bitmap (format_tables st)) = 512"
    using d bb(1) ft by (simp_all add: format_tables_def Let_def for_range_upd_disk sb_ok_def)
  define s6 where "s6 = snd (alloc_block (upd_inode (nat (find_free_inode (format_tables st)))
    (\<lambda>n. clear_blocks (n\<lparr>itype := PAFS_TYPE_DIR, isize := 0\<rparr>)) (format_tables st)))"
  have d6: "disk_ok s6" "sb_ok s6"
    using alloc_block_disk d4 by (simp_all add: s6_def sb_ok_def)
  obtain X where X: "pafs_format st = save_metadata X" "disk_ok X" "sb_ok X"
    using d6 by (simp add: pafs_format_def Let_def split_beta s6_def [symmetric] disk_ok_def sb_ok_def)
  have "pafs_inv X" using format_inv [OF len] unfolding X(1) by (simp add: pafs_inv_def)
  then show "disk_ok (pafs_format st)" unfolding X(1) using X(2,3) by (rule save_metadata_disk)
qed

section \<open>Writing\<close>

lemma slot_distinct:
  assumes inv: "pafs_inv st" and i: "i < 128" and jk: "j < 14" "k < 14" "j \<noteq> k"
    and nz: "iblocks (inodes st ! i) ! j \<noteq> 0" "iblocks (inodes st ! i) ! k \<noteq> 0"
  shows "unat (iblocks (inodes st ! i) ! j) \<noteq> unat (iblocks (inodes st ! i) ! k)"
proof -
  have inj: "inj_on (slot (inodes st)) (refs (inodes st))" using fs_okD(2) inv by (simp add: pafs_inv_def)
  have "(i, j) \<in> refs (inodes st)" "(i, k) \<in> refs (inodes st)" using i jk nz by (simp_all add: refs_def slot_def)
  then show ?thesis using inj_onD [OF inj, of "(i, j)" "(i, k)"] jk by (auto simp: slot_def word_unat_eq_iff)
qed

text \<open>
  One iteration of a writing loop: slot \<open>k\<close> gets a block if it has none and the sector
  \<open>f old\<close> is stored there, where \<open>old\<close> is what the block held before.
\<close>

definition put_block :: "nat \<Rightarrow> nat \<Rightarrow> (sector \<Rightarrow> sector) \<Rightarrow> pafs \<Rightarrow> bool \<times> pafs" where
  "put_block ino k f st =
     (let (ok, s) = ensure_block ino k st; b = unat (iblocks (inodes s ! ino) ! k)
      in (ok, if ok then pafs_disk_write b (f (pafs_disk_read b s)) s else s))"

lemma put_block_spec:
  assumes inv: "pafs_inv st" "disk_ok st" "sb_ok st" and ik: "ino < 128" "k < 14"
    and used: "itype (inodes st ! ino) \<noteq> 0" and f: "\<forall>d. length d = 512 \<longrightarrow> length (f d) = 512"
    and e: "put_block ino k f st = (ok, st')"
  shows "pafs_inv st'" and "disk_ok st'" and "sb_ok st'" and "frame ino st st'"
    and "ok \<Longrightarrow> iblocks (inodes st' ! ino) ! k \<noteq> 0"
    and "\<And>j. j < 14 \<Longrightarrow> j \<noteq> k \<Longrightarrow> iblocks (inodes st' ! ino) ! j = iblocks (inodes st ! ino) ! j"
    and "isize (inodes st' ! ino) = isize (inodes st ! ino)"
    and "\<And>p. p div 512 \<noteq> k \<Longrightarrow> p div 512 < 14 \<Longrightarrow> iblocks (inodes st ! ino) ! (p div 512) \<noteq> 0 \<Longrightarrow>
       file_byte st' ino p = file_byte st ino p"
    and "ok \<Longrightarrow> iblocks (inodes st ! ino) ! k \<noteq> 0 \<Longrightarrow>
       q < 512 \<Longrightarrow> file_byte st' ino (512 * k + q) = f (map (\<lambda>q. file_byte st ino (512 * k + q)) [0..<512]) ! q"
    and "\<exists>d. length d = 512 \<and> (ok \<longrightarrow> (\<forall>q < 512. file_byte st' ino (512 * k + q) = f d ! q))"
    and "ok \<or> free_block_set (block_bitmap st) = {}"
    and "card (free_block_set (block_bitmap st)) \<le>
      card (free_block_set (block_bitmap st')) + (if iblocks (inodes st ! ino) ! k = 0 then 1 else 0)"
    and "iblocks (inodes st ! ino) ! k \<noteq> 0 \<Longrightarrow> ok"
proof -
  obtain s where en: "ensure_block ino k st = (ok, s)"
    and st': "st' = (if ok then pafs_disk_write (unat (iblocks (inodes s ! ino) ! k))
      (f (pafs_disk_read (unat (iblocks (inodes s ! ino) ! k)) s)) s else s)"
    using e by (auto simp: put_block_def split_beta Let_def prod_eq_iff)
  note es = ensure_block_spec [OF inv(1) ik used en] and ed = ensure_block_disk [OF inv en]
  have ins: "inodes st' = inodes s" by (simp add: st')
  show i': "pafs_inv st'" using es(1) by (simp add: st')
  show "disk_ok st'" using ed(1) f by (auto simp: st' disk_ok_def)
  show "sb_ok st'" using ed(2) by (simp add: st' sb_ok_def)
  show "frame ino st st'"
    using es(2) frame_own_write [OF es(1) ik(1) es(3)] frame_trans by (auto simp: st')
  show nz: "ok \<Longrightarrow> iblocks (inodes st' ! ino) ! k \<noteq> 0"
  proof -
    assume ok
    then obtain k' where "unat (iblocks (inodes s ! ino) ! k) = unat (slot (inodes s) (ino, k'))" "slot (inodes s) (ino, k') \<noteq> 0"
      using es(3) by (auto simp: blocks_of_def)
    then show ?thesis by (metis ins word_unat_eq_iff)
  qed
  show other: "iblocks (inodes st' ! ino) ! j = iblocks (inodes st ! ino) ! j" if "j < 14" "j \<noteq> k" for j
    using es(4) that by (simp add: ins)
  show "isize (inodes st' ! ino) = isize (inodes st ! ino)" using es(6) by (simp add: ins)
  show "file_byte st' ino p = file_byte st ino p"
    if p: "p div 512 \<noteq> k" "p div 512 < 14" "iblocks (inodes st ! ino) ! (p div 512) \<noteq> 0" for p
  proof -
    let ?b = "iblocks (inodes st ! ino) ! (p div 512)"
    have same: "iblocks (inodes s ! ino) ! (p div 512) = ?b" using other [OF p(2,1)] by (simp add: ins)
    have "?b \<noteq> 0" by (rule p(3))
    then have "unat ?b \<in> blocks_of (inodes st) ino" using p(2) by (auto simp: blocks_of_def slot_def)
    then have "18 \<le> unat ?b" using low_not_owned [OF inv(1) ik(1)] by blast
    moreover have "ok \<Longrightarrow> unat ?b \<noteq> unat (iblocks (inodes s ! ino) ! k)"
      using slot_distinct [OF i' ik(1) p(2) ik(2) p(1)] nz same p(3) by (simp add: ins)
    ultimately show ?thesis using es(7) same by (simp add: file_byte_def st')
  qed
  have wr: "ok \<Longrightarrow> q < 512 \<Longrightarrow> file_byte st' ino (512 * k + q) =
      f (pafs_disk_read (unat (iblocks (inodes s ! ino) ! k)) s) ! q" for q
    by (simp add: file_byte_def st')
  show "\<exists>d. length d = 512 \<and> (ok \<longrightarrow> (\<forall>q < 512. file_byte st' ino (512 * k + q) = f d ! q))"
    using wr ed(1) by (intro exI [of _ "pafs_disk_read (unat (iblocks (inodes s ! ino) ! k)) s"]) (simp add: disk_ok_def)
  show "file_byte st' ino (512 * k + q) = f (map (\<lambda>q. file_byte st ino (512 * k + q)) [0..<512]) ! q"
    if "ok" "iblocks (inodes st ! ino) ! k \<noteq> 0" "q < 512"
  proof -
    have "s = st" using es(5) that(2) by simp
    moreover have "map (\<lambda>q. file_byte st ino (512 * k + q)) [0..<512] =
        pafs_disk_read (unat (iblocks (inodes st ! ino) ! k)) st"
      using inv(2) by (intro nth_equalityI) (simp_all add: file_byte_def disk_ok_def)
    ultimately show ?thesis using wr that by simp
  qed
  show "ok \<or> free_block_set (block_bitmap st) = {}" by (rule es(8))
  show "card (free_block_set (block_bitmap st)) \<le>
      card (free_block_set (block_bitmap st')) + (if iblocks (inodes st ! ino) ! k = 0 then 1 else 0)"
    using ensure_block_room [OF inv(1) en] by (auto simp: st' split: if_splits)
  show "iblocks (inodes st ! ino) ! k \<noteq> 0 \<Longrightarrow> ok" using es(5) by simp
qed

lemma vfs_write_loop_step:
  assumes "bw < sz" and "k < 14" and "off < 512" and "sz \<le> length data"
  defines "w \<equiv> min (512 - off) (sz - bw)"
  defines "f \<equiv> \<lambda>d. overwrite off (take w (drop bw data))
      (if off > 0 \<or> sz - bw < PAFS_BLOCK_SIZE then d else replicate 512 0)"
  shows "vfs_write_loop ino data sz bw k off st =
      (case put_block ino k f st of (ok, s) \<Rightarrow>
         if ok then vfs_write_loop ino data sz (bw + w) (Suc k) 0 s else (bw, s))"
    and "length d = 512 \<Longrightarrow> length (f d) = 512"
    and "length d = 512 \<Longrightarrow> q < 512 \<Longrightarrow>
      f d ! q = (if off \<le> q \<and> q < off + w then data ! (bw + (q - off)) else d ! q)"
proof -
  show "vfs_write_loop ino data sz bw k off st =
      (case put_block ino k f st of (ok, s) \<Rightarrow>
         if ok then vfs_write_loop ino data sz (bw + w) (Suc k) 0 s else (bw, s))"
    unfolding vfs_write_loop.simps [of ino data sz bw k off st] put_block_def f_def w_def
    using assms(1,2) by (simp add: split_beta Let_def)
  have len: "length (take w (drop bw data)) = w" using assms(4) by (simp add: w_def)
  have ow: "off + w \<le> 512" using assms(3) by (simp add: w_def)
  show "length d = 512 \<Longrightarrow> length (f d) = 512"
    unfolding f_def using len ow by (subst length_overwrite) (simp_all only: len, simp_all)
  assume d: "length d = 512" and q: "q < 512"
  have full: "off = 0 \<and> w = 512" if "\<not> (off > 0 \<or> sz - bw < PAFS_BLOCK_SIZE)"
    using that by (simp add: w_def PAFS_BLOCK_SIZE_def)
  show "f d ! q = (if off \<le> q \<and> q < off + w then data ! (bw + (q - off)) else d ! q)"
  proof (cases "off > 0 \<or> sz - bw < PAFS_BLOCK_SIZE")
    case True
    then show ?thesis using d q ow len assms(4) by (auto simp: f_def nth_overwrite)
  next
    case False
    then show ?thesis using full q ow len assms(4) by (auto simp: f_def nth_overwrite)
  qed
qed

text \<open>The loops stop at the end of the data or of the slots.\<close>

lemma loops_stop:
  "\<not> (bw < sz \<and> k < 14) \<Longrightarrow> vfs_write_loop ino data sz bw k off st = (bw, st)"
  "\<not> (bw < sz \<and> k < 14) \<Longrightarrow> write_loop ino data sz bw k st = (bw, st)"
  "\<not> (bw < sz \<and> k < 14) \<Longrightarrow> vfs_read_loop st ino sz bw k off buf = (bw, buf)"
  by (simp_all only: vfs_write_loop.simps [of _ _ sz bw k] write_loop.simps [of _ _ sz bw k]
      vfs_read_loop.simps [of _ _ sz bw k] if_False)

text \<open>The slots in range that still need a block.\<close>

definition missing_slots :: "pafs \<Rightarrow> nat \<Rightarrow> nat \<Rightarrow> nat \<Rightarrow> nat set" where
  "missing_slots st ino lo hi = {j. lo \<le> j \<and> j < 14 \<and> 512 * j < hi \<and> iblocks (inodes st ! ino) ! j = 0}"

lemma finite_missing_slots [simp]: "finite (missing_slots st ino lo hi)"
  by (rule finite_subset [of _ "{..<14}"]) (auto simp: missing_slots_def)

text \<open>Enough free blocks for the slots in range stay enough after a block is put.\<close>

lemma put_block_room:
  assumes inv: "pafs_inv st" "disk_ok st" "sb_ok st" and ik: "ino < 128" "k < 14" "512 * k < hi"
    and used: "itype (inodes st ! ino) \<noteq> 0" and f: "\<forall>d. length d = 512 \<longrightarrow> length (f d) = 512"
    and e: "put_block ino k f st = (ok, st')"
    and room: "card (missing_slots st ino k hi) \<le> card (free_block_set (block_bitmap st))"
  shows ok "card (missing_slots st' ino (Suc k) hi) \<le> card (free_block_set (block_bitmap st'))"
proof -
  note ps = put_block_spec [OF inv ik(1,2) used f e]
  have sub: "missing_slots st' ino (Suc k) hi = missing_slots st ino k hi - {k}"
    using ps(6) by (auto simp: missing_slots_def Suc_le_eq)
  have k: "k \<in> missing_slots st ino k hi \<longleftrightarrow> iblocks (inodes st ! ino) ! k = 0"
    using ik by (simp add: missing_slots_def)
  have pos: "0 < card (missing_slots st ino k hi)" if "iblocks (inodes st ! ino) ! k = 0"
    using that k card_gt_0_iff finite_missing_slots by blast
  show ok
  proof (rule ccontr)
    assume "\<not> ok"
    then have "iblocks (inodes st ! ino) ! k = 0" "free_block_set (block_bitmap st) = {}" using ps(11,13) by auto
    then show False using pos room by simp
  qed
  show "card (missing_slots st' ino (Suc k) hi) \<le> card (free_block_set (block_bitmap st'))"
  proof (cases "iblocks (inodes st ! ino) ! k = 0")
    case True
    then have "card (missing_slots st' ino (Suc k) hi) = card (missing_slots st ino k hi) - 1"
      using k by (simp add: sub card_Diff_singleton)
    then show ?thesis using ps(12) room True by simp
  next
    case False
    then have "missing_slots st' ino (Suc k) hi = missing_slots st ino k hi" using k by (simp add: sub)
    then show ?thesis using ps(12) room False by simp
  qed
qed

lemma vfs_write_loop_spec:
  assumes "pafs_inv st" "disk_ok st" "sb_ok st" and "ino < 128" and "itype (inodes st ! ino) \<noteq> 0"
    and "off < 512" and "bw \<le> sz" and "sz \<le> length data"
    and "card (missing_slots st ino k (512 * k + off + (sz - bw))) \<le> card (free_block_set (block_bitmap st))"
    and "vfs_write_loop ino data sz bw k off st = (n, st')"
  shows "n = bw + min (sz - bw) (7168 - (512 * k + off)) \<and> disk_ok st' \<and> sb_ok st' \<and>
    isize (inodes st' ! ino) = isize (inodes st ! ino) \<and>
    (\<forall>p < 7168. if 512 * k + off \<le> p \<and> p < 512 * k + off + (n - bw)
       then iblocks (inodes st' ! ino) ! (p div 512) \<noteq> 0 \<and>
            file_byte st' ino p = data ! (bw + (p - (512 * k + off)))
       else iblocks (inodes st ! ino) ! (p div 512) \<noteq> 0 \<longrightarrow>
            iblocks (inodes st' ! ino) ! (p div 512) \<noteq> 0 \<and> file_byte st' ino p = file_byte st ino p)"
  using assms
proof (induction "14 - k" arbitrary: st bw k off)
  case 0
  then have "n = bw" "st' = st" by (simp_all add: loops_stop)
  then show ?case using 0 by auto
next
  case (Suc m)
  show ?case
  proof (cases "bw < sz")
    case False
    then have "n = bw" "st' = st" using Suc.prems(10) by (simp_all add: loops_stop)
    then show ?thesis using Suc.prems False by auto
  next
    case bw: True
    have k: "k < 14" using Suc.hyps(2) by simp
    define w where "w = min (512 - off) (sz - bw)"
    define f where "f d = overwrite off (take w (drop bw data))
      (if off > 0 \<or> sz - bw < PAFS_BLOCK_SIZE then d else replicate 512 0)" for d
    note step = vfs_write_loop_step [OF bw k Suc.prems(6,8), folded w_def, folded f_def]
    have f512: "\<forall>d. length d = 512 \<longrightarrow> length (f d) = 512" using step(2) by blast
    obtain ok s where pb: "put_block ino k f st = (ok, s)" by (cases "put_block ino k f st")
    have hi: "512 * k < 512 * k + off + (sz - bw)" using bw by simp
    note ps = put_block_spec [OF Suc.prems(1-4) k Suc.prems(5) f512 pb]
      and pr = put_block_room [OF Suc.prems(1-4) k hi Suc.prems(5) f512 pb Suc.prems(9)]
    have used: "itype (inodes s ! ino) \<noteq> 0" using ps(4) Suc.prems(5) by (simp add: frame_def)
    have ws: "w \<le> sz - bw" "off + w \<le> 512" "0 < w" using bw Suc.prems(6) by (simp_all add: w_def)
    have rec: "vfs_write_loop ino data sz (bw + w) (Suc k) 0 s = (n, st')"
      using Suc.prems(10) step(1) pb pr(1) by simp
    have room: "card (missing_slots s ino (Suc k) (512 * Suc k + 0 + (sz - (bw + w)))) \<le> card (free_block_set (block_bitmap s))"
    proof -
      have "missing_slots s ino (Suc k) (512 * Suc k + 0 + (sz - (bw + w))) \<subseteq>
          missing_slots s ino (Suc k) (512 * k + off + (sz - bw))"
        by (auto simp: missing_slots_def w_def min_def split: if_splits)
      then show ?thesis using pr(2) card_mono [OF finite_missing_slots] le_trans by blast
    qed
    have IH: "n = (bw + w) + min (sz - (bw + w)) (7168 - (512 * Suc k + 0)) \<and> disk_ok st' \<and> sb_ok st' \<and>
      isize (inodes st' ! ino) = isize (inodes s ! ino) \<and>
      (\<forall>p < 7168. if 512 * Suc k + 0 \<le> p \<and> p < 512 * Suc k + 0 + (n - (bw + w))
         then iblocks (inodes st' ! ino) ! (p div 512) \<noteq> 0 \<and>
              file_byte st' ino p = data ! ((bw + w) + (p - (512 * Suc k + 0)))
         else iblocks (inodes s ! ino) ! (p div 512) \<noteq> 0 \<longrightarrow>
              iblocks (inodes st' ! ino) ! (p div 512) \<noteq> 0 \<and> file_byte st' ino p = file_byte s ino p)"
      by (rule Suc.hyps(1) [OF _ ps(1-3) Suc.prems(4) used _ _ Suc.prems(8) room rec])
        (use Suc.hyps(2) ws bw in auto)
    have nI: "n = (bw + w) + min (sz - (bw + w)) (7168 - 512 * Suc k)" using IH by simp
    have rI: "iblocks (inodes st' ! ino) ! (p div 512) \<noteq> 0 \<and> file_byte st' ino p = data ! ((bw + w) + (p - 512 * Suc k))"
      if "p < 7168" "512 * Suc k \<le> p" "p < 512 * Suc k + (n - (bw + w))" for p using IH that by simp
    have kI: "iblocks (inodes st' ! ino) ! (p div 512) \<noteq> 0 \<and> file_byte st' ino p = file_byte s ino p"
      if "p < 7168" "\<not> (512 * Suc k \<le> p \<and> p < 512 * Suc k + (n - (bw + w)))"
        "iblocks (inodes s ! ino) ! (p div 512) \<noteq> 0" for p
      using conjunct2 [OF conjunct2 [OF conjunct2 [OF conjunct2 [OF IH]]], rule_format, OF that(1)] that(2,3) by simp
    define m where "m = n - (bw + w)"
    have nb: "n - bw = w + m" using nI by (simp add: m_def)
    have full: "off + w = 512 \<or> m = 0" unfolding m_def nI using ws(2) by (auto simp: w_def)
    have n: "n = bw + min (sz - bw) (7168 - (512 * k + off))"
      unfolding nI using ws k by (auto simp: w_def min_def split: if_splits)
    have bytes: "if 512 * k + off \<le> p \<and> p < 512 * k + off + (n - bw)
       then iblocks (inodes st' ! ino) ! (p div 512) \<noteq> 0 \<and>
            file_byte st' ino p = data ! (bw + (p - (512 * k + off)))
       else iblocks (inodes st ! ino) ! (p div 512) \<noteq> 0 \<longrightarrow>
            iblocks (inodes st' ! ino) ! (p div 512) \<noteq> 0 \<and> file_byte st' ino p = file_byte st ino p"
      if p: "p < 7168" for p
    proof (cases "p div 512 = k")
      case True
      define q where "q = p mod 512"
      have q: "q < 512" "p = 512 * k + q" using True by (auto simp: q_def)
      have keep: "iblocks (inodes st' ! ino) ! (p div 512) \<noteq> 0" "file_byte st' ino p = file_byte s ino p"
        using kI [OF p, folded m_def] ps(5) [OF pr(1)] True q by simp_all
      have R: "512 * k + off \<le> p \<and> p < 512 * k + off + (n - bw) \<longleftrightarrow> off \<le> q \<and> q < off + w"
        unfolding nb q(2) using full q(1) by auto
      show ?thesis
      proof (cases "off \<le> q \<and> q < off + w")
        case in_range: True
        obtain d where d: "length d = 512" "file_byte s ino (512 * k + q) = f d ! q"
          using ps(10) pr(1) q(1) by auto
        then have "file_byte s ino p = data ! (bw + (q - off))"
          using step(3) [OF d(1) q(1)] in_range q(2) by simp
        then show ?thesis using keep R in_range q(2) by simp
      next
        case out: False
        have "file_byte s ino p = file_byte st ino p" if "iblocks (inodes st ! ino) ! k \<noteq> 0"
          using ps(9) [OF pr(1) that q(1)] step(3) [of "map (\<lambda>q. file_byte st ino (512 * k + q)) [0..<512]" q] q out
          by simp
        then show ?thesis using keep out True by (simp only: R if_False) simp
      qed
    next
      case other: False
      have p14: "p div 512 < 14" using p by (simp add: less_mult_imp_div_less)
      have slot: "iblocks (inodes s ! ino) ! (p div 512) = iblocks (inodes st ! ino) ! (p div 512)"
        using ps(6) [OF p14] other by simp
      have fb: "iblocks (inodes st ! ino) ! (p div 512) \<noteq> 0 \<Longrightarrow> file_byte s ino p = file_byte st ino p"
        using ps(8) [OF other p14] .
      have "p < 512 * k \<or> 512 * Suc k \<le> p" using other by auto
      then have R: "512 * k + off \<le> p \<and> p < 512 * k + off + (n - bw) \<longleftrightarrow>
          512 * Suc k \<le> p \<and> p < 512 * Suc k + m"
        unfolding nb using full ws Suc.prems(6) by auto
      show ?thesis
      proof (cases "512 * Suc k \<le> p \<and> p < 512 * Suc k + m")
        case True
        then have "off + w = 512" using full by auto
        then have "(bw + w) + (p - 512 * Suc k) = bw + (p - (512 * k + off))" using True by simp
        then show ?thesis using rI [OF p, folded m_def] True by (simp only: R if_True simp_thms)
      next
        case False
        then show ?thesis using kI [OF p, folded m_def, OF False] slot fb by (simp only: R if_False) simp
      qed
    qed
    show ?thesis using n bytes IH ps(7) by simp
  qed
qed

lemma write_loop_step:
  assumes "bw < len" and "k < 14" and "len \<le> length data"
  defines "w \<equiv> min (len - bw) 512"
  shows "write_loop ino data len bw k st =
      (case put_block ino k (\<lambda>_. overwrite 0 (take w (drop bw data)) (replicate 512 0)) st of (ok, s) \<Rightarrow>
         if ok then write_loop ino data len (bw + w) (Suc k) s else (bw, s))"
    and "length (overwrite 0 (take w (drop bw data)) (replicate 512 (0 :: u8))) = 512"
    and "q < w \<Longrightarrow> overwrite 0 (take w (drop bw data)) (replicate 512 0) ! q = data ! (bw + q)"
proof -
  show "write_loop ino data len bw k st =
      (case put_block ino k (\<lambda>_. overwrite 0 (take w (drop bw data)) (replicate 512 0)) st of (ok, s) \<Rightarrow>
         if ok then write_loop ino data len (bw + w) (Suc k) s else (bw, s))"
    unfolding write_loop.simps [of ino data len bw k st] put_block_def w_def
    using assms(1,2) by (simp add: split_beta Let_def)
  have len: "length (take w (drop bw data)) = w" and w: "w \<le> 512" using assms(3) by (simp_all add: w_def)
  show "length (overwrite 0 (take w (drop bw data)) (replicate 512 (0 :: u8))) = 512"
    using len w by (subst length_overwrite) simp_all
  show "q < w \<Longrightarrow> overwrite 0 (take w (drop bw data)) (replicate 512 0) ! q = data ! (bw + q)"
    using len w assms(3) by (subst nth_overwrite) auto
qed

lemma write_loop_spec:
  assumes "pafs_inv st" "disk_ok st" "sb_ok st" and "ino < 128" and "itype (inodes st ! ino) \<noteq> 0"
    and "bw = min len (512 * k)" and "len \<le> length data"
    and "card (missing_slots st ino k len) \<le> card (free_block_set (block_bitmap st))"
    and "write_loop ino data len bw k st = (n, st')"
  shows "n = max bw (min len 7168) \<and> disk_ok st' \<and> sb_ok st' \<and>
    (\<forall>p < n. bw \<le> p \<longrightarrow> iblocks (inodes st' ! ino) ! (p div 512) \<noteq> 0 \<and> file_byte st' ino p = data ! p) \<and>
    (\<forall>p. p div 512 < k \<longrightarrow> p div 512 < 14 \<longrightarrow> iblocks (inodes st ! ino) ! (p div 512) \<noteq> 0 \<longrightarrow>
       iblocks (inodes st' ! ino) ! (p div 512) \<noteq> 0 \<and> file_byte st' ino p = file_byte st ino p)"
  using assms
proof (induction "14 - k" arbitrary: st bw k)
  case 0
  then have "n = bw" "st' = st" by (simp_all add: loops_stop)
  then show ?case using 0 by auto
next
  case (Suc m)
  show ?case
  proof (cases "bw < len")
    case False
    then have "n = bw" "st' = st" using Suc.prems(9) by (simp_all add: loops_stop)
    then show ?thesis using Suc.prems False by auto
  next
    case bw: True
    have k: "k < 14" and bwk: "bw = 512 * k" using Suc.hyps(2) Suc.prems(6) bw by auto
    define w where "w = min (len - bw) 512"
    define f where "f d = overwrite 0 (take w (drop bw data)) (replicate 512 0)" for d :: sector
    note step = write_loop_step [OF bw k Suc.prems(7), folded w_def, folded f_def]
    have f512: "\<forall>d. length d = 512 \<longrightarrow> length (f d) = 512" using step(2) by (simp add: f_def)
    obtain ok s where pb: "put_block ino k f st = (ok, s)" by (cases "put_block ino k f st")
    have hi: "512 * k < len" using bw bwk by simp
    note ps = put_block_spec [OF Suc.prems(1-4) k Suc.prems(5) f512 pb]
      and pr = put_block_room [OF Suc.prems(1-4) k hi Suc.prems(5) f512 pb Suc.prems(8)]
    have used: "itype (inodes s ! ino) \<noteq> 0" using ps(4) Suc.prems(5) by (simp add: frame_def)
    have pb': "put_block ino k (\<lambda>_. overwrite 0 (take w (drop bw data)) (replicate 512 0)) st = (ok, s)"
      using pb by (simp add: f_def [abs_def])
    have rec: "write_loop ino data len (bw + w) (Suc k) s = (n, st')"
      using Suc.prems(9) write_loop_step(1) [OF bw k Suc.prems(7), of ino st, folded w_def] pb' pr(1) by simp
    have bw': "bw + w = min len (512 * Suc k)" using bwk bw by (auto simp: w_def)
    have IH: "n = max (bw + w) (min len 7168) \<and> disk_ok st' \<and> sb_ok st' \<and>
      (\<forall>p < n. bw + w \<le> p \<longrightarrow> iblocks (inodes st' ! ino) ! (p div 512) \<noteq> 0 \<and> file_byte st' ino p = data ! p) \<and>
      (\<forall>p. p div 512 < Suc k \<longrightarrow> p div 512 < 14 \<longrightarrow> iblocks (inodes s ! ino) ! (p div 512) \<noteq> 0 \<longrightarrow>
         iblocks (inodes st' ! ino) ! (p div 512) \<noteq> 0 \<and> file_byte st' ino p = file_byte s ino p)"
      using Suc.hyps(2) by (intro Suc.hyps(1) [OF _ ps(1-3) Suc.prems(4) used bw' Suc.prems(7) pr(2) rec]) simp
    have kI: "iblocks (inodes st' ! ino) ! (p div 512) \<noteq> 0 \<and> file_byte st' ino p = file_byte s ino p"
      if "p div 512 < Suc k" "iblocks (inodes s ! ino) ! (p div 512) \<noteq> 0" for p
      using conjunct2 [OF conjunct2 [OF conjunct2 [OF conjunct2 [OF IH]]], rule_format, OF that(1)] that k by simp
    have new: "iblocks (inodes st' ! ino) ! (p div 512) \<noteq> 0 \<and> file_byte st' ino p = data ! p"
      if p: "p < n" "bw \<le> p" for p
    proof (cases "bw + w \<le> p")
      case True
      then show ?thesis using IH p by blast
    next
      case False
      define q where "q = p - bw"
      have q: "p = 512 * k + q" "q < w" "q < 512" using False p bwk by (auto simp: q_def w_def)
      obtain d where "file_byte s ino (512 * k + q) = f d ! q" using ps(10) pr(1) q(3) by blast
      then have "file_byte s ino p = data ! p"
        using write_loop_step(3) [OF bw k Suc.prems(7), of q, folded w_def] q bwk by (simp add: f_def)
      moreover have "p div 512 = k" using q by simp
      ultimately show ?thesis using kI [of p] ps(5) [OF pr(1)] by simp
    qed
    have old: "iblocks (inodes st' ! ino) ! (p div 512) \<noteq> 0 \<and> file_byte st' ino p = file_byte st ino p"
      if p: "p div 512 < k" "p div 512 < 14" "iblocks (inodes st ! ino) ! (p div 512) \<noteq> 0" for p
      using kI [of p] ps(6) [OF p(2)] ps(8) [OF _ p(2,3)] p(1,3) by simp
    have "n = max bw (min len 7168)" using IH bw' bwk bw k by (simp add: max_def)
    then show ?thesis using IH new old by blast
  qed
qed

section \<open>Reading\<close>

lemma vfs_read_loop_spec:
  assumes "disk_ok st" and "off < 512" and "br \<le> sz" and "sz \<le> length buf"
    and "512 * k + off + (sz - br) \<le> 7168"
  shows "vfs_read_loop st ino sz br k off buf =
    (sz, overwrite br (map (file_byte st ino) [512 * k + off..<512 * k + off + (sz - br)]) buf)"
  using assms
proof (induction "14 - k" arbitrary: br k off buf)
  case 0
  then have "sz = br" by simp
  then show ?case using 0 by (simp add: loops_stop overwrite_def)
next
  case (Suc m)
  show ?case
  proof (cases "br < sz")
    case False
    then show ?thesis using Suc.prems by (simp add: loops_stop overwrite_def)
  next
    case br: True
    define w where "w = min (512 - off) (sz - br)"
    define pos where "pos = 512 * k + off"
    have w: "w \<le> sz - br" "off + w \<le> 512" using Suc.prems(2) by (simp_all add: w_def)
    let ?sec = "pafs_disk_read (unat (iblocks (inodes st ! ino) ! k)) st"
    have chunk: "take w (drop off ?sec) = map (file_byte st ino) [pos..<pos + w]"
      using Suc.prems(1) w by (intro nth_equalityI) (simp_all add: disk_ok_def file_byte_def pos_def add.assoc)
    have eq: "vfs_read_loop st ino sz br k off buf =
        vfs_read_loop st ino sz (br + w) (Suc k) 0 (overwrite br (map (file_byte st ino) [pos..<pos + w]) buf)"
    proof -
      have k: "k < 14" using Suc.hyps(2) by simp
      show ?thesis
        unfolding chunk [symmetric] unfolding vfs_read_loop.simps [of st ino sz br k off buf] w_def
        using br k by (simp add: Let_def)
    qed
    show ?thesis
    proof (cases "off + w = 512")
      case True
      then have e: "512 * Suc k = pos + w" by (simp add: pos_def)
      have "vfs_read_loop st ino sz (br + w) (Suc k) 0 (overwrite br (map (file_byte st ino) [pos..<pos + w]) buf) =
          (sz, overwrite (br + w) (map (file_byte st ino) [512 * Suc k + 0..<512 * Suc k + 0 + (sz - (br + w))])
            (overwrite br (map (file_byte st ino) [pos..<pos + w]) buf))"
        using Suc.hyps(2) Suc.prems w br e
        by (intro Suc.hyps(1)) (auto simp: pos_def)
      moreover have "overwrite (br + w) (map (file_byte st ino) [pos + w..<pos + (sz - br)])
            (overwrite br (map (file_byte st ino) [pos..<pos + w]) buf) =
          overwrite br (map (file_byte st ino) [pos..<pos + (sz - br)]) buf"
      proof -
        have "[pos..<pos + (sz - br)] = [pos..<pos + w] @ [pos + w..<pos + (sz - br)]"
        proof -
          have "pos + (sz - br) = pos + w + (sz - (br + w))" using w(1) by simp
          then show ?thesis using upt_add_eq_append [of pos "pos + w" "sz - (br + w)"] by (simp only:)
        qed
        then show ?thesis using w(1) br Suc.prems(4) by (simp add: overwrite_def)
      qed
      moreover have "512 * Suc k + 0 = pos + w" "512 * Suc k + 0 + (sz - (br + w)) = pos + (sz - br)"
        using e w(1) by simp_all
      ultimately show ?thesis using eq by (simp only: pos_def [symmetric])
    next
      case False
      then have "w = sz - br" using w by (auto simp: w_def)
      then show ?thesis using eq br by (simp add: loops_stop pos_def)
    qed
  qed
qed

lemma overwrite_overwrite:
  "br + length xs + length ys \<le> length buf \<Longrightarrow>
     overwrite (br + length xs) ys (overwrite br xs buf) = overwrite br (xs @ ys) buf"
  by (simp add: overwrite_def ac_simps)

lemma read_loop_spec:
  assumes "disk_ok st" and "br = min tot (512 * k)" and "tot \<le> length buf" and "tot \<le> 7168"
    and "\<forall>j < 14. 512 * j < tot \<longrightarrow> iblocks (inodes st ! ino) ! j \<noteq> 0"
  shows "read_loop st ino (int tot) br k buf = (tot, overwrite br (map (file_byte st ino) [br..<tot]) buf)"
  using assms
proof (induction "14 - k" arbitrary: br k buf)
  case 0
  then have "br = tot" by simp
  then show ?case using 0 by (subst read_loop.simps) (simp add: overwrite_def)
next
  case (Suc m)
  show ?case
  proof (cases "br < tot")
    case False
    then have "br = tot" using Suc.prems(2) by simp
    then show ?thesis by (subst read_loop.simps) (simp add: overwrite_def)
  next
    case br: True
    have k: "k < 14" and brk: "br = 512 * k" using Suc.hyps(2) Suc.prems(2) br by auto
    have nz: "iblocks (inodes st ! ino) ! k \<noteq> 0" using Suc.prems(5) k br brk by simp
    define w where "w = min (tot - br) 512"
    let ?sec = "pafs_disk_read (unat (iblocks (inodes st ! ino) ! k)) st"
    have chunk: "take w ?sec = map (file_byte st ino) [br..<br + w]"
      using Suc.prems(1) by (intro nth_equalityI) (simp_all add: disk_ok_def file_byte_def brk w_def)
    have eq: "read_loop st ino (int tot) br k buf =
        read_loop st ino (int tot) (br + w) (Suc k) (overwrite br (map (file_byte st ino) [br..<br + w]) buf)"
      unfolding chunk [symmetric] unfolding read_loop.simps [of st ino "int tot" br k buf] w_def
      using br k nz by (simp add: Let_def)
    have w: "br + w \<le> tot" using br by (simp add: w_def)
    have "read_loop st ino (int tot) (br + w) (Suc k) (overwrite br (map (file_byte st ino) [br..<br + w]) buf) =
        (tot, overwrite (br + w) (map (file_byte st ino) [br + w..<tot])
          (overwrite br (map (file_byte st ino) [br..<br + w]) buf))"
      using Suc.hyps(2) Suc.prems w brk br by (intro Suc.hyps(1)) (auto simp: w_def)
    also have "overwrite (br + w) (map (file_byte st ino) [br + w..<tot])
          (overwrite br (map (file_byte st ino) [br..<br + w]) buf) = overwrite br (map (file_byte st ino) [br..<tot]) buf"
      using overwrite_overwrite [of br "map (file_byte st ino) [br..<br + w]" "map (file_byte st ino) [br + w..<tot]" buf]
        upt_add_eq_append [of br "br + w" "tot - (br + w)"] w Suc.prems(3) by simp
    finally show ?thesis using eq by simp
  qed
qed

section \<open>Other files\<close>

text \<open>An operation on one inode does not change the contents of the others.\<close>

lemma frame_file:
  assumes fr: "frame d st st'" and j: "j < 128" "j \<noteq> d" and ok: "file_ok st j"
  shows "contents st' j = contents st j" and "file_ok st' j"
proof -
  have same: "inodes st' ! j = inodes st ! j" using fr j by (simp add: frame_def)
  then show "file_ok st' j" using ok by (simp add: file_ok_def)
  have "file_byte st' j p = file_byte st j p" if p: "p < unat (isize (inodes st ! j))" for p
  proof -
    have "p < 7168" using ok p by (simp add: file_ok_def)
    then have q: "p div 512 < 14" by (simp add: less_mult_imp_div_less)
    moreover have "512 * (p div 512) < unat (isize (inodes st ! j))"
      using p by (metis le_less_trans times_div_less_eq_dividend)
    ultimately have "iblocks (inodes st ! j) ! (p div 512) \<noteq> 0" using ok by (simp add: file_ok_def)
    then have "unat (iblocks (inodes st ! j) ! (p div 512)) \<in> blocks_of (inodes st) j"
      using q by (auto simp: blocks_of_def slot_def)
    then show ?thesis using fr j by (simp add: frame_def file_byte_def same)
  qed
  then show "contents st' j = contents st j" by (simp add: contents_def same)
qed

lemma upd_size_bytes:
  assumes "i < length (inodes st)"
  shows "file_byte (upd_inode i (\<lambda>n. n\<lparr>isize := z n\<rparr>) st) j p = file_byte st j p"
    and "isize (inodes (upd_inode i (\<lambda>n. n\<lparr>isize := z n\<rparr>) st) ! i) = z (inodes st ! i)"
    and "iblocks (inodes (upd_inode i (\<lambda>n. n\<lparr>isize := z n\<rparr>) st) ! j) = iblocks (inodes st ! j)"
  using assms by (cases "i = j"; simp add: file_byte_def upd_inode_inodes)+

lemma save_inode_bytes:
  assumes "pafs_inv st" and "i < 128" and "j < 128" and "p < 7168" and "iblocks (inodes st ! j) ! (p div 512) \<noteq> 0"
  shows "file_byte (pafs_save_inode i st) j p = file_byte st j p"
proof -
  have "p div 512 < 14" using assms(4) by (simp add: less_mult_imp_div_less)
  then have "unat (iblocks (inodes st ! j) ! (p div 512)) \<in> blocks_of (inodes st) j"
    using assms(5) by (auto simp: blocks_of_def slot_def)
  then show ?thesis using low_not_owned [OF assms(1,3)] save_disk(1) [OF _ assms(2)] by (simp add: file_byte_def)
qed

section \<open>Properties\<close>

lemma vfs_read_bytes:
  assumes "disk_ok st" and "itype (inodes st ! ino) = PAFS_TYPE_FILE"
    and "unat (isize (inodes st ! ino)) \<le> 7168"
    and "unat off + unat n < 4294967296" and "unat n \<le> length buf"
  shows "\<exists>st'. pafs_vfs_read ino off n buf st =
    ((of_nat (length (take (unat n) (drop (unat off) (contents st ino)))),
      overwrite 0 (take (unat n) (drop (unat off) (contents st ino))) buf), st')"
proof -
  let ?sz = "unat (isize (inodes st ! ino))" and ?l = "lock_pafs st"
  have cl: "length (contents st ino) = ?sz" by (simp add: contents_def)
  show ?thesis
  proof (cases "isize (inodes st ! ino) = 0 \<or> off \<ge> isize (inodes st ! ino)")
    case True
    then have "drop (unat off) (contents st ino) = []"
      using cl by (auto simp: word_le_nat_alt)
    moreover have "fst (pafs_vfs_read ino off n buf st) = (0, buf)"
      using True assms(2) by (auto simp: pafs_vfs_read_def with_lock_def vfs_read_locked_def split_beta Let_def)
    ultimately show ?thesis
      by (intro exI [of _ "snd (pafs_vfs_read ino off n buf st)"]) (simp add: prod_eq_iff overwrite_def)
  next
    case False
    then have off: "unat off < ?sz" by (simp add: word_le_nat_alt)
    define m where "m = min (unat n) (?sz - unat off)"
    have sz: "unat (if off + n > isize (inodes st ! ino) then isize (inodes st ! ino) - off else n) = m"
      using off assms(4) by (auto simp: m_def word_less_nat_alt unat_plus_u32 unat_minus_u32 word_le_nat_alt)
    have ch: "take (unat n) (drop (unat off) (contents st ino)) = map (file_byte st ino) [unat off..<unat off + m]"
      using off by (auto simp: contents_def drop_map take_map m_def min_def)
    have pos: "512 * (unat off div 512) + unat off mod 512 = unat off" by simp
    have fb: "file_byte ?l = file_byte st" by (simp add: file_byte_def fun_eq_iff)
    have "vfs_read_loop ?l ino m 0 (unat off div 512) (unat off mod 512) buf =
        (m, overwrite 0 (map (file_byte ?l ino) [unat off..<unat off + m]) buf)"
      using vfs_read_loop_spec [of ?l "unat off mod 512" 0 m buf "unat off div 512" ino] assms off
      by (simp add: m_def)
    then have "fst (pafs_vfs_read ino off n buf st) =
        (of_nat m, overwrite 0 (map (file_byte st ino) [unat off..<unat off + m]) buf)"
      using False assms(2) sz
      by (simp add: pafs_vfs_read_def with_lock_def vfs_read_locked_def split_beta Let_def PAFS_BLOCK_SIZE_def fb)
    moreover have "length (map (file_byte st ino) [unat off..<unat off + m]) = m" by simp
    ultimately show ?thesis unfolding ch
      by (intro exI [of _ "snd (pafs_vfs_read ino off n buf st)"]) (simp add: prod_eq_iff)
  qed
qed

lemma vfs_read_snd: "snd (pafs_vfs_read ino off n buf st) = unlock_pafs (lock_pafs st)"
  by (simp add: pafs_vfs_read_def with_lock_def vfs_read_locked_def Let_def split_beta)

text \<open>
  C8: \<open>pafs_vfs_read\<close> of an intact file returns the bytes of the file from the offset
  on, at most \<open>n\<close> and at most to the end, when offset plus length does not wrap.
\<close>

theorem vfs_read_contents:
  assumes "disk_ok st" and "itype (inodes st ! ino) = PAFS_TYPE_FILE"
    and "unat (isize (inodes st ! ino)) \<le> 7168"
    and "unat off + unat n < 4294967296" and "unat n \<le> length buf"
  shows "\<exists>st'. pafs_vfs_read ino off n buf st =
    ((of_nat (length (take (unat n) (drop (unat off) (contents st ino)))),
      overwrite 0 (take (unat n) (drop (unat off) (contents st ino))) buf), st')"
  using assms by (rule vfs_read_bytes)

text \<open>The write loop from an offset of the file, when everything fits.\<close>

lemma vfs_write_range:
  assumes "pafs_inv st" "disk_ok st" "sb_ok st" and "ino < 128" and "itype (inodes st ! ino) \<noteq> 0"
    and "length data = n" and "off + n \<le> 7168"
    and room: "card (missing_slots st ino (off div 512) (off + n)) \<le> card (free_block_set (block_bitmap st))"
    and w: "vfs_write_loop ino data n 0 (off div 512) (off mod 512) st = (m, s)"
  shows "m = n" and "disk_ok s" and "sb_ok s" and "isize (inodes s ! ino) = isize (inodes st ! ino)"
    and "\<lbrakk>p < 7168; off \<le> p; p < off + n\<rbrakk> \<Longrightarrow>
      iblocks (inodes s ! ino) ! (p div 512) \<noteq> 0 \<and> file_byte s ino p = data ! (p - off)"
    and "\<lbrakk>p < 7168; \<not> (off \<le> p \<and> p < off + n); iblocks (inodes st ! ino) ! (p div 512) \<noteq> 0\<rbrakk> \<Longrightarrow>
      iblocks (inodes s ! ino) ! (p div 512) \<noteq> 0 \<and> file_byte s ino p = file_byte st ino p"
proof -
  have pos: "512 * (off div 512) + off mod 512 = off" by simp
  have room': "card (missing_slots st ino (off div 512) (512 * (off div 512) + off mod 512 + (n - 0)))
      \<le> card (free_block_set (block_bitmap st))" using room by simp
  have V: "m = 0 + min (n - 0) (7168 - off) \<and> disk_ok s \<and> sb_ok s \<and>
      isize (inodes s ! ino) = isize (inodes st ! ino) \<and>
      (\<forall>p < 7168. if off \<le> p \<and> p < off + (m - 0)
       then iblocks (inodes s ! ino) ! (p div 512) \<noteq> 0 \<and> file_byte s ino p = data ! (0 + (p - off))
       else iblocks (inodes st ! ino) ! (p div 512) \<noteq> 0 \<longrightarrow>
            iblocks (inodes s ! ino) ! (p div 512) \<noteq> 0 \<and> file_byte s ino p = file_byte st ino p)"
    by (rule vfs_write_loop_spec [OF assms(1-5) _ _ _ room' w, unfolded pos]) (use assms(6) in simp_all)
  then show m: "m = n" and "disk_ok s" and "sb_ok s" and "isize (inodes s ! ino) = isize (inodes st ! ino)"
    using assms(7) by simp_all
  have B: "\<forall>p < 7168. if off \<le> p \<and> p < off + n
       then iblocks (inodes s ! ino) ! (p div 512) \<noteq> 0 \<and> file_byte s ino p = data ! (p - off)
       else iblocks (inodes st ! ino) ! (p div 512) \<noteq> 0 \<longrightarrow>
            iblocks (inodes s ! ino) ! (p div 512) \<noteq> 0 \<and> file_byte s ino p = file_byte st ino p"
    using V by (simp add: m)
  show "\<lbrakk>p < 7168; off \<le> p; p < off + n\<rbrakk> \<Longrightarrow>
      iblocks (inodes s ! ino) ! (p div 512) \<noteq> 0 \<and> file_byte s ino p = data ! (p - off)" using B by simp
  show "\<lbrakk>p < 7168; \<not> (off \<le> p \<and> p < off + n); iblocks (inodes st ! ino) ! (p div 512) \<noteq> 0\<rbrakk> \<Longrightarrow>
      iblocks (inodes s ! ino) ! (p div 512) \<noteq> 0 \<and> file_byte s ino p = file_byte st ino p"
    using B by (metis (no_types, lifting))
qed

lemma lock_file [simp]:
  "file_byte (lock_pafs st) = file_byte st" "file_byte (unlock_pafs st) = file_byte st"
  "contents (lock_pafs st) = contents st" "contents (unlock_pafs st) = contents st"
  "file_ok (lock_pafs st) = file_ok st" "file_ok (unlock_pafs st) = file_ok st"
  "sb_ok (lock_pafs st) = sb_ok st" "sb_ok (unlock_pafs st) = sb_ok st"
  "missing_slots (lock_pafs st) = missing_slots st"
  by (simp_all add: fun_eq_iff file_byte_def contents_def file_ok_def sb_ok_def missing_slots_def)

text \<open>The section of \<open>pafs_vfs_write\<close>.\<close>

lemma slot_of_byte: "file_ok st ino \<Longrightarrow> p < unat (isize (inodes st ! ino)) \<Longrightarrow> iblocks (inodes st ! ino) ! (p div 512) \<noteq> 0"
proof -
  assume ok: "file_ok st ino" and p: "p < unat (isize (inodes st ! ino))"
  then have "p div 512 < 14" by (simp add: file_ok_def less_mult_imp_div_less)
  moreover have "512 * (p div 512) < unat (isize (inodes st ! ino))"
    using p by (metis le_less_trans times_div_less_eq_dividend)
  ultimately show ?thesis using ok by (simp add: file_ok_def)
qed

lemma vfs_write_locked_spec:
  assumes inv: "pafs_inv st" "disk_ok st" "sb_ok st" and ino: "ino < 128"
    and isf: "itype (inodes st ! ino) = PAFS_TYPE_FILE" "file_ok st ino"
    and off: "unat off \<le> unat (isize (inodes st ! ino))" and len: "length data = unat n" "unat off + unat n \<le> 7168"
    and room: "card (missing_slots st ino (unat off div 512) (unat off + unat n)) \<le> card (free_block_set (block_bitmap st))"
    and w: "vfs_write_locked ino off n data st = (r, st')"
  shows "r = n" and "isize (inodes st' ! ino) = max (isize (inodes st ! ino)) (off + n)"
    and "frame ino st st'" and "file_ok st' ino"
    and "p < unat (isize (inodes st' ! ino)) \<Longrightarrow> file_byte st' ino p =
      (if unat off \<le> p \<and> p < unat off + unat n then data ! (p - unat off) else file_byte st ino p)"
    and "disk_ok st'"
proof -
  let ?o = "unat off" and ?n = "unat n" and ?sz = "unat (isize (inodes st ! ino))"
  have used: "itype (inodes st ! ino) \<noteq> 0" using isf by (simp add: pafs_consts)
  obtain m s where lp: "vfs_write_loop ino data ?n 0 (?o div 512) (?o mod 512) st = (m, s)"
    by (cases "vfs_write_loop ino data ?n 0 (?o div 512) (?o mod 512) st")
  note R = vfs_write_range [OF inv ino used len room lp]
  have si: "pafs_inv s" "frame ino st s"
    using vfs_write_loop_inv [OF inv(1) ino used, of data ?n 0 "?o div 512" "?o mod 512"] lp by simp_all
  have ls: "ino < length (inodes s)" using ino pafs_inv_lengths(1) [OF si(1)] by simp
  define t where "t = (if off + n > isize (inodes s ! ino) then upd_inode ino (\<lambda>i. i\<lparr>isize := off + n\<rparr>) s else s)"
  have r: "r = n" "st' = pafs_save_inode ino t"
    using w isf(1) lp R(1) by (auto simp: vfs_write_locked_def t_def Let_def PAFS_BLOCK_SIZE_def)
  then show "r = n" by simp
  have t: "isize (inodes t ! ino) = max (isize (inodes st ! ino)) (off + n)"
    "iblocks (inodes t ! ino) = iblocks (inodes s ! ino)" "file_byte t = file_byte s" "pafs_inv t" "frame ino s t"
    using upd_size_bytes [OF ls, of "\<lambda>_. off + n"] R(4) resize_inv [OF si(1) ino, of "\<lambda>_. off + n"]
      frame_upd [of "\<lambda>i. i\<lparr>isize := off + n\<rparr>" ino s] si(1)
    by (auto simp: t_def fun_eq_iff max_def)
  have "disk_ok t" using R(2) by (simp add: t_def disk_ok_upd)
  then show "disk_ok st'" unfolding r(2) by (rule disk_ok_save_inode [OF t(4) _ ino])
  show z: "isize (inodes st' ! ino) = max (isize (inodes st ! ino)) (off + n)" using t(1) by (simp add: r)
  show "frame ino st st'" unfolding r(2) using si(2) t(5) frame_save_inode [OF t(4) ino] frame_trans by blast
  have "unat (off + n) = ?o + ?n" using len(2) by (simp add: unat_plus_u32)
  then have uz: "unat (isize (inodes st' ! ino)) = max ?sz (?o + ?n)"
    by (simp add: z max_def word_le_nat_alt)
  have le: "max ?sz (?o + ?n) \<le> 7168" using isf(2) len(2) by (simp add: file_ok_def)
  have by_s: "iblocks (inodes s ! ino) ! (p div 512) \<noteq> 0 \<and> file_byte s ino p =
      (if ?o \<le> p \<and> p < ?o + ?n then data ! (p - ?o) else file_byte st ino p)"
    if p: "p < max ?sz (?o + ?n)" for p
  proof (cases "?o \<le> p \<and> p < ?o + ?n")
    case True
    then show ?thesis using R(5) [of p] le p by simp
  next
    case False
    then have "p < ?sz" using p off by auto
    then show ?thesis using R(6) [of p] slot_of_byte [OF isf(2)] le p False by auto
  qed
  have slots: "iblocks (inodes st' ! ino) ! j \<noteq> 0" if "512 * j < max ?sz (?o + ?n)" for j
    using by_s [OF that] t(2) by (simp add: r)
  then show "file_ok st' ino" using uz le by (simp add: file_ok_def)
  show "file_byte st' ino p = (if ?o \<le> p \<and> p < ?o + ?n then data ! (p - ?o) else file_byte st ino p)"
    if "p < unat (isize (inodes st' ! ino))"
  proof -
    have p: "p < max ?sz (?o + ?n)" using that uz by simp
    have "file_byte st' ino p = file_byte t ino p"
      unfolding r(2) using by_s [OF p] t(2) le p by (intro save_inode_bytes [OF t(4) ino ino]) auto
    then show ?thesis using by_s [OF p] t(3) by simp
  qed
qed

lemma vfs_write_bytes:
  assumes "pafs_inv st" and "disk_ok st" and "sb_ok st" and "ino < 128"
    and "itype (inodes st ! ino) = PAFS_TYPE_FILE" and "file_ok st ino"
    and "unat off \<le> unat (isize (inodes st ! ino))" and "length data = unat n" and "unat off + unat n \<le> 7168"
    and "card (missing_slots st ino (unat off div 512) (unat off + unat n)) \<le> card (free_block_set (block_bitmap st))"
    and "st' = snd (pafs_vfs_write ino off n data st)"
  shows "fst (pafs_vfs_write ino off n data st) = n \<and>
    contents st' ino = take (unat off) (contents st ino) @ data @ drop (unat off + unat n) (contents st ino) \<and>
    file_ok st' ino \<and> (\<forall>j < 128. j \<noteq> ino \<and> file_ok st j \<longrightarrow> contents st' j = contents st j) \<and> disk_ok st' \<and>
    (\<exists>q. st' = unlock_pafs q \<and> frame ino (lock_pafs st) q)"
proof -
  let ?l = "lock_pafs st" and ?o = "unat off" and ?n = "unat n" and ?sz = "unat (isize (inodes st ! ino))"
  obtain r q where w: "vfs_write_locked ino off n data ?l = (r, q)" by (cases "vfs_write_locked ino off n data ?l")
  have res: "pafs_vfs_write ino off n data st = (r, unlock_pafs q)" "st' = unlock_pafs q"
    using w assms(11) by (simp_all add: pafs_vfs_write_def with_lock_def)
  note sp = vfs_write_locked_spec [OF _ _ _ assms(4) _ _ _ assms(8,9) _ w]
  have sp': "r = n" "isize (inodes q ! ino) = max (isize (inodes st ! ino)) (off + n)"
    "frame ino ?l q" "file_ok q ino" "disk_ok q"
    using sp(1-4,6) assms(1-7,10) by simp_all
  have byte: "file_byte q ino p = (if ?o \<le> p \<and> p < ?o + ?n then data ! (p - ?o) else file_byte st ino p)"
    if "p < unat (isize (inodes q ! ino))" for p
    using sp(5) [OF _ _ _ _ _ _ _ that] assms(1-7,10) by simp
  have "unat (off + n) = ?o + ?n" using assms(9) by (simp add: unat_plus_u32)
  then have uz: "unat (isize (inodes q ! ino)) = max ?sz (?o + ?n)"
    by (simp add: sp'(2) max_def word_le_nat_alt)
  have "contents q ino = take ?o (contents st ino) @ data @ drop (?o + ?n) (contents st ino)"
  proof (rule nth_equalityI)
    show "length (contents q ino) = length (take ?o (contents st ino) @ data @ drop (?o + ?n) (contents st ino))"
      using assms(7,8) uz by (simp add: contents_def)
    fix p
    assume "p < length (contents q ino)"
    then have p: "p < unat (isize (inodes q ! ino))" by (simp add: contents_def)
    then show "contents q ino ! p = (take ?o (contents st ino) @ data @ drop (?o + ?n) (contents st ino)) ! p"
      using byte [OF p] uz assms(7,8) by (auto simp: contents_def nth_append)
  qed
  moreover have "contents q j = contents st j" if "j < 128" "j \<noteq> ino" "file_ok st j" for j
    using frame_file(1) [OF sp'(3) that(1,2)] that(3) by simp
  ultimately show ?thesis using res sp'(1,3,4,5) by auto
qed

text \<open>
  C7: \<open>pafs_vfs_write\<close> of a range that begins inside or at the end of an intact file and ends at or below 7168 bytes (14 blocks
  of 512) replaces exactly the bytes of the range, growing the file if needed; it returns the full length, keeps
  the file intact and does not touch the contents of any other intact file, provided the file system is consistent and the disk has
  a free block for every slot of the range that has none. (A longer range or a full disk gives a short count.)
\<close>

theorem vfs_write_contents:
  assumes "pafs_inv st" and "disk_ok st" and "sb_ok st" and "ino < 128"
    and "itype (inodes st ! ino) = PAFS_TYPE_FILE" and "file_ok st ino"
    and "unat off \<le> unat (isize (inodes st ! ino))" and "length data = unat n" and "unat off + unat n \<le> 7168"
    and "card (missing_slots st ino (unat off div 512) (unat off + unat n)) \<le> card (free_block_set (block_bitmap st))"
    and "st' = snd (pafs_vfs_write ino off n data st)"
  shows "fst (pafs_vfs_write ino off n data st) = n \<and>
    contents st' ino = take (unat off) (contents st ino) @ data @ drop (unat off + unat n) (contents st ino) \<and>
    file_ok st' ino \<and> (\<forall>j < 128. j \<noteq> ino \<and> file_ok st j \<longrightarrow> contents st' j = contents st j)"
  using vfs_write_bytes [OF assms] by blast

section \<open>Instances\<close>

text \<open>A freshly formatted system with one empty file, inode 1.\<close>

definition fs_demo :: pafs where
  "fs_demo = new_inode False 1 (pafs_format pafs_raw)"

lemma fs_demo_ok: "pafs_inv fs_demo" "disk_ok fs_demo" "sb_ok fs_demo" "root_inode (sb fs_demo) = 0"
  "inodes fs_demo ! 1 = \<lparr>itype = 1, isize = 0, iblocks = replicate 14 0\<rparr>"
  "card (free_block_set (block_bitmap fs_demo)) = 4077"
proof -
  have raw: "length (inodes pafs_raw) = 128" "\<forall>i < 128. length (iblocks (inodes pafs_raw ! i)) = 14"
    "length (block_bitmap pafs_raw) = 512" "disk_ok pafs_raw" "sb_ok pafs_raw"
    by (simp_all add: pafs_raw_def blank_inode_def disk_ok_def pafs_disk_read_def sb_ok_def sb_of_def)
  have inv: "pafs_inv (pafs_format pafs_raw)" using raw by (intro format_inv)
  have free: "itype (inodes (pafs_format pafs_raw) ! 1) = 0"
    by (simp add: format_spec [OF raw(1-3)] put_slot_def blank_inode_def)
  show "pafs_inv fs_demo" unfolding fs_demo_def using new_inode_inv [OF inv _ free] by simp
  show "disk_ok fs_demo" "sb_ok fs_demo"
    using format_disk [OF raw] by (simp_all add: fs_demo_def new_inode_def Let_def disk_ok_def sb_ok_def)
  show "root_inode (sb fs_demo) = 0"
    by (simp add: fs_demo_def new_inode_def Let_def format_spec [OF raw(1-3)])
  show "inodes fs_demo ! 1 = \<lparr>itype = 1, isize = 0, iblocks = replicate 14 0\<rparr>"
    using new_inode_sel(2-4) [OF inv, of 1 False] by (simp add: fs_demo_def)
  have "free_blocks (sb (pafs_format pafs_raw)) = 4077" by (simp add: format_spec [OF raw(1-3)])
  then show "card (free_block_set (block_bitmap fs_demo)) = 4077"
    using fs_okD(6) [OF inv [unfolded pafs_inv_def]] by (simp add: fs_demo_def new_inode_def Let_def)
qed

theorem vfs_write_contents_witness:
  "contents (snd (pafs_vfs_write 1 0 3 [7, 8, 9] fs_demo)) 1 = [7, 8, 9]"
proof -
  have "missing_slots fs_demo 1 (unat (0 :: u32) div 512) (unat (0 :: u32) + unat (3 :: u32)) \<subseteq> {0}"
    by (auto simp: missing_slots_def)
  then have "card (missing_slots fs_demo 1 (unat (0 :: u32) div 512) (unat (0 :: u32) + unat (3 :: u32))) \<le> 1"
    using card_mono [of "{0 :: nat}"] by fastforce
  then have room: "card (missing_slots fs_demo 1 (unat (0 :: u32) div 512) (unat (0 :: u32) + unat (3 :: u32)))
      \<le> card (free_block_set (block_bitmap fs_demo))"
    by (simp add: fs_demo_ok)
  have c: "contents fs_demo 1 = []" by (simp add: contents_def fs_demo_ok [unfolded One_nat_def])
  show ?thesis
    using vfs_write_contents [OF fs_demo_ok(1-3) _ _ _ _ _ _ room refl, of "[7, 8, 9]"]
    by (simp add: fs_demo_ok [unfolded One_nat_def] PAFS_TYPE_FILE_def file_ok_def c [unfolded One_nat_def])
qed

theorem vfs_read_contents_witness:
  "fst (fst (pafs_vfs_read 0 1 10 (replicate 10 0) (pafs_raw\<lparr>inodes := [\<lparr>itype = 1, isize = 3, iblocks = replicate 14 18\<rparr>],
     ramdisk := (\<lambda>_. [7, 8, 9] @ replicate 509 0)\<rparr>))) = 2"
proof -
  let ?s = "pafs_raw\<lparr>inodes := [\<lparr>itype = 1, isize = 3, iblocks = replicate 14 18\<rparr>], ramdisk := (\<lambda>_. [7, 8, 9] @ replicate 509 0)\<rparr>"
  have "length (contents ?s 0) = 3" by (simp add: contents_def)
  moreover have "disk_ok ?s" by (simp add: disk_ok_def pafs_disk_read_def pafs_raw_def)
  ultimately show ?thesis
    using vfs_read_contents [of ?s 0 1 10 "replicate 10 0"] by (auto simp: PAFS_TYPE_FILE_def)
qed

end
