(* ===== verification/Pafs_Dir.thy ===== *)
theory Pafs_Dir
  imports Pafs_File
begin

text \<open>
  Directories of PAFS: the entries of a directory block, the search through the blocks of a
  directory, and what creating and removing a name does to every lookup.
\<close>

section \<open>Entries of a block\<close>

text \<open>The name of a used entry ends inside its 28 bytes.\<close>

definition name_field :: "sector \<Rightarrow> nat \<Rightarrow> u8 list" where
  "name_field d j = take 28 (drop (32 * j + 4) d)"

definition wf_block :: "sector \<Rightarrow> bool" where
  "wf_block d \<longleftrightarrow> length d = 512 \<and> (\<forall>j < 16. entry_inode d j \<noteq> 0 \<longrightarrow> 0 \<in> set (name_field d j))"

lemma cstr_append: "0 \<in> set xs \<Longrightarrow> cstr (xs @ ys) = cstr xs"
  by (induction xs) (auto simp: cstr_Cons)

lemma entry_name_field:
  assumes "wf_block d" and "j < 16" and "entry_inode d j \<noteq> 0"
  shows "cstr (entry_name d j) = cstr (name_field d j)"
proof -
  have "entry_name d j = name_field d j @ drop 28 (drop (32 * j + 4) d)"
    unfolding entry_name_def name_field_def by (metis append_take_drop_id)
  moreover have "0 \<in> set (name_field d j)" using assms by (simp add: wf_block_def)
  ultimately show ?thesis by (metis cstr_append)
qed

text \<open>The index of the entry of a block that has a name.\<close>

definition hit :: "sector \<Rightarrow> cstring \<Rightarrow> nat \<Rightarrow> bool" where
  "hit d name j \<longleftrightarrow> entry_inode d j \<noteq> 0 \<and> cstr (name_field d j) = cstr name"

definition block_search :: "sector \<Rightarrow> cstring \<Rightarrow> nat option" where
  "block_search d name = find_index (hit d name) 0 16"

lemma find_index_cong:
  "(\<And>j. lo \<le> j \<Longrightarrow> j < hi \<Longrightarrow> p j = q j) \<Longrightarrow> find_index p lo hi = find_index q lo hi"
proof -
  assume eq: "\<And>j. lo \<le> j \<Longrightarrow> j < hi \<Longrightarrow> p j = q j"
  show ?thesis
  proof (cases "find_index q lo hi")
    case None
    then have "find_index p lo hi = None" using eq by (simp add: find_index_None)
    then show ?thesis using None by simp
  next
    case (Some i)
    then have "find_index p lo hi = Some i" using eq by (auto simp: find_index_Some)
    then show ?thesis using Some by simp
  qed
qed

lemma wf_search:
  assumes "wf_block d"
  shows "find_index (\<lambda>j. entry_inode d j \<noteq> 0 \<and> strcmp (entry_name d j) name = 0) 0 16 = block_search d name"
  unfolding block_search_def
  by (rule find_index_cong) (use assms entry_name_field in \<open>auto simp: hit_def strcmp_eq_0\<close>)

lemma put_entry_length: "length d = 512 \<Longrightarrow> j < 16 \<Longrightarrow> length (put_entry j ino name d) = 512"
  by (simp add: put_entry_def length_overwrite)

lemma nth_put_entry:
  assumes "length d = 512" and "j < 16" and "q < 512"
  shows "put_entry j ino name d ! q =
    (let nm = take 27 (cstr name) @ [0]
     in if 32 * j \<le> q \<and> q < 32 * j + 4 then bytes32 ino ! (q - 32 * j)
        else if 32 * j + 4 \<le> q \<and> q < 32 * j + 4 + length nm then nm ! (q - (32 * j + 4)) else d ! q)"
proof -
  let ?nm = "take 27 (cstr name) @ [0]"
  have nm: "length ?nm \<le> 28" by simp
  have l1: "32 * j + length (bytes32 ino) \<le> length d" using assms by simp
  have l2: "32 * j + 4 + length ?nm \<le> length (overwrite (32 * j) (bytes32 ino) d)"
    using assms nm l1 by (subst length_overwrite) (simp_all del: length_append)
  have q: "q < length (overwrite (32 * j) (bytes32 ino) d)" using l1 assms by (subst length_overwrite) simp_all
  show ?thesis
    unfolding put_entry_def nth_overwrite [OF l2 q]
    using nth_overwrite [OF l1, of q] assms by (auto simp: Let_def)
qed

lemma get32_bytes:
  assumes "\<And>i. i < 4 \<Longrightarrow> d ! (off + i) = bytes32 v ! i"
  shows "get32 off d = v"
proof -
  have "d ! off = bytes32 v ! 0" "d ! (off + 1) = bytes32 v ! 1" "d ! (off + 2) = bytes32 v ! 2"
    "d ! (off + 3) = bytes32 v ! 3"
    using assms [of 0] assms [of 1] assms [of 2] assms [of 3] by simp_all
  then show ?thesis using bytes32_roundtrip [of v] by (simp add: get32_def bytes32_def)
qed

lemma put_entry_inode:
  assumes "length d = 512" and "j < 16" and "j' < 16"
  shows "entry_inode (put_entry j ino name d) j' = (if j' = j then ino else entry_inode d j')"
proof (cases "j' = j")
  case True
  then show ?thesis using assms
    by (auto simp: entry_inode_def Let_def nth_put_entry intro!: get32_bytes)
next
  case False
  have "put_entry j ino name d ! (32 * j' + i) = d ! (32 * j' + i)" if "i < 4" for i
  proof -
    have "32 * j' + i < 32 * j \<or> 32 * j + 32 \<le> 32 * j' + i" using False that by auto
    moreover have "length (take 27 (cstr name) @ [0]) \<le> 28" by simp
    ultimately show ?thesis using assms that by (subst nth_put_entry) (auto simp: Let_def simp del: length_append)
  qed
  from this [of 0] this [of 1] this [of 2] this [of 3] show ?thesis
    using False by (simp add: entry_inode_def get32_def)
qed

lemma put_entry_name:
  assumes "length d = 512" and "j < 16" and "j' < 16"
  shows "j' \<noteq> j \<Longrightarrow> name_field (put_entry j ino name d) j' = name_field d j'"
    and "0 \<in> set (name_field (put_entry j ino name d) j)"
    and "cstr (name_field (put_entry j ino name d) j) = take 27 (cstr name)"
proof -
  let ?nm = "take 27 (cstr name) @ [0]"
  have nm: "length ?nm \<le> 28" by simp
  have len: "length (put_entry j ino name d) = 512" using put_entry_length assms by simp
  show "name_field (put_entry j ino name d) j' = name_field d j'" if "j' \<noteq> j"
  proof (rule nth_equalityI)
    fix q assume "q < length (name_field (put_entry j ino name d) j')"
    then have q: "q < 28" by (simp add: name_field_def)
    have "32 * j' + 4 + q < 32 * j \<or> 32 * j + 32 \<le> 32 * j' + 4 + q" using that q by auto
    then have "put_entry j ino name d ! (32 * j' + 4 + q) = d ! (32 * j' + 4 + q)"
      using assms q nm by (subst nth_put_entry) (auto simp: Let_def simp del: length_append)
    then show "name_field (put_entry j ino name d) j' ! q = name_field d j' ! q"
      using assms q len by (simp add: name_field_def)
  qed (use assms len in \<open>simp add: name_field_def\<close>)
  have eq: "name_field (put_entry j ino name d) j = ?nm @ drop (length ?nm) (name_field d j)"
  proof (rule nth_equalityI)
    show "length (name_field (put_entry j ino name d) j) = length (?nm @ drop (length ?nm) (name_field d j))"
      using assms nm len by (simp add: name_field_def)
    fix q assume "q < length (name_field (put_entry j ino name d) j)"
    then have q: "q < 28" by (simp add: name_field_def)
    have "put_entry j ino name d ! (32 * j + 4 + q) = (if q < length ?nm then ?nm ! q else d ! (32 * j + 4 + q))"
      using assms q by (subst nth_put_entry) (auto simp: Let_def simp del: length_append)
    then show "name_field (put_entry j ino name d) j ! q = (?nm @ drop (length ?nm) (name_field d j)) ! q"
      using assms q nm len by (auto simp: name_field_def nth_append simp del: append_assoc)
  qed
  show "0 \<in> set (name_field (put_entry j ino name d) j)" unfolding eq by simp
  have "0 \<notin> set (take 27 (cstr name))" using cstr_nz [of name] by (metis in_set_takeD)
  then show "cstr (name_field (put_entry j ino name d) j) = take 27 (cstr name)"
    unfolding eq using cstr_append_zero by simp
qed

lemma wf_put_entry:
  assumes "wf_block d" and "j < 16"
  shows "wf_block (put_entry j ino name d)"
proof -
  have d: "length d = 512" using assms(1) by (simp add: wf_block_def)
  have "0 \<in> set (name_field (put_entry j ino name d) j')"
    if "j' < 16" "entry_inode (put_entry j ino name d) j' \<noteq> 0" for j'
  proof (cases "j' = j")
    case True
    then show ?thesis using put_entry_name(2) [OF d assms(2) that(1)] by simp
  next
    case False
    then show ?thesis
      using put_entry_name(1) [OF d assms(2) that(1) False] put_entry_inode [OF d assms(2) that(1)] that assms(1)
      by (simp add: wf_block_def)
  qed
  then show ?thesis using put_entry_length [OF d assms(2)] by (simp add: wf_block_def)
qed

text \<open>The search after an entry was stored at a free index.\<close>

lemma put_entry_search:
  assumes wf: "wf_block d" and j: "j < 16" "entry_inode d j = 0" and ino: "ino \<noteq> 0" and short: "length (cstr name) \<le> 27"
  shows "cstr nm \<noteq> cstr name \<Longrightarrow> block_search (put_entry j ino name d) nm = block_search d nm"
    and "cstr nm = cstr name \<Longrightarrow> block_search d name = None \<Longrightarrow> block_search (put_entry j ino name d) nm = Some j"
proof -
  have d: "length d = 512" using wf by (simp add: wf_block_def)
  have h: "hit (put_entry j ino name d) nm j' \<longleftrightarrow> (if j' = j then cstr nm = cstr name else hit d nm j')" if "j' < 16" for j'
    using put_entry_inode [OF d j(1) that] put_entry_name [OF d j(1) that] ino short
    by (cases "j' = j") (auto simp: hit_def)
  show "block_search (put_entry j ino name d) nm = block_search d nm" if "cstr nm \<noteq> cstr name"
    unfolding block_search_def using h that j(2) by (intro find_index_cong) (auto simp: hit_def)
  show "block_search (put_entry j ino name d) nm = Some j" if "cstr nm = cstr name" "block_search d name = None"
  proof -
    have "\<forall>j' < 16. \<not> hit d nm j'" using that by (simp add: block_search_def find_index_None hit_def)
    then show ?thesis using h that(1) j(1) by (auto simp: block_search_def find_index_Some)
  qed
qed

lemma zero_block: "wf_block (replicate 512 0)" "j < 16 \<Longrightarrow> entry_inode (replicate 512 0) j = 0"
  "block_search (replicate 512 0) name = None"
proof -
  have z: "entry_inode (replicate 512 0) j = 0" if "j < 16" for j
    using that by (simp add: entry_inode_def get32_def le32_def)
  then show "j < 16 \<Longrightarrow> entry_inode (replicate 512 0) j = 0" .
  show "wf_block (replicate 512 0)" using z by (simp add: wf_block_def)
  show "block_search (replicate 512 0) name = None"
    using z by (simp add: block_search_def find_index_None hit_def)
qed

section \<open>Searching a directory\<close>

text \<open>The block of slot \<open>k\<close> is searched when no earlier slot is empty.\<close>

definition dir_block :: "pafs \<Rightarrow> nat \<Rightarrow> nat \<Rightarrow> sector" where
  "dir_block st d k = pafs_disk_read (unat (iblocks (inodes st ! d) ! k)) st"

definition filled :: "pafs \<Rightarrow> nat \<Rightarrow> nat \<Rightarrow> bool" where
  "filled st d k \<longleftrightarrow> (\<forall>m \<le> k. iblocks (inodes st ! d) ! m \<noteq> 0)"

definition used_entries :: "pafs \<Rightarrow> nat \<Rightarrow> (nat \<times> nat) set" where
  "used_entries st d = {(k, j). k < 14 \<and> j < 16 \<and> iblocks (inodes st ! d) ! k \<noteq> 0 \<and> entry_inode (dir_block st d k) j \<noteq> 0}"

text \<open>
  A directory whose slots are filled from the front, whose blocks are well formed and whose
  size counts its entries, which all refer to inodes of the table.
\<close>

definition dir_ok :: "pafs \<Rightarrow> nat \<Rightarrow> bool" where
  "dir_ok st d \<longleftrightarrow> itype (inodes st ! d) = PAFS_TYPE_DIR \<and> length (iblocks (inodes st ! d)) = 14 \<and>
     (\<forall>k < 14. \<forall>m < k. iblocks (inodes st ! d) ! m = 0 \<longrightarrow> iblocks (inodes st ! d) ! k = 0) \<and>
     (\<forall>k < 14. iblocks (inodes st ! d) ! k \<noteq> 0 \<longrightarrow> wf_block (dir_block st d k)) \<and>
     (\<forall>(k, j) \<in> used_entries st d. unat (entry_inode (dir_block st d k) j) < 128) \<and>
     unat (isize (inodes st ! d)) = 32 * card (used_entries st d)"

lemma finite_used: "finite (used_entries st d)"
  by (rule finite_subset [of _ "{..<14} \<times> {..<16}"]) (auto simp: used_entries_def)


definition found_at :: "pafs \<Rightarrow> nat \<Rightarrow> cstring \<Rightarrow> nat \<Rightarrow> nat \<Rightarrow> bool" where
  "found_at st d name k j \<longleftrightarrow> k < 14 \<and> filled st d k \<and> block_search (dir_block st d k) name = Some j \<and>
     (\<forall>m < k. block_search (dir_block st d m) name = None)"

lemma dir_search_iff:
  assumes "\<forall>b \<in> set bs. b \<noteq> 0 \<longrightarrow> wf_block (rd (unat b))"
  shows "dir_search rd bs i name = Some (i', j) \<longleftrightarrow>
      (\<exists>k < length bs. i' = i + k \<and> (\<forall>m \<le> k. bs ! m \<noteq> 0) \<and> block_search (rd (unat (bs ! k))) name = Some j \<and>
        (\<forall>m < k. block_search (rd (unat (bs ! m))) name = None))"
  using assms
proof (induction bs arbitrary: i)
  case (Cons b bs)
  let ?Q = "\<lambda>bs i. \<exists>k < length bs. i' = i + k \<and> (\<forall>m \<le> k. bs ! m \<noteq> 0) \<and> block_search (rd (unat (bs ! k))) name = Some j \<and>
        (\<forall>m < k. block_search (rd (unat (bs ! m))) name = None)"
  have unf: "?Q (b # bs) i \<longleftrightarrow> b \<noteq> 0 \<and> (block_search (rd (unat b)) name = Some j \<and> i' = i \<or>
      block_search (rd (unat b)) name = None \<and> ?Q bs (Suc i))" (is "?L \<longleftrightarrow> ?R")
  proof
    assume ?L
    then obtain k where k: "k < length (b # bs)" "i' = i + k" "\<forall>m \<le> k. (b # bs) ! m \<noteq> 0"
      "block_search (rd (unat ((b # bs) ! k))) name = Some j" "\<forall>m < k. block_search (rd (unat ((b # bs) ! m))) name = None"
      by blast
    show ?R
    proof (cases k)
      case 0
      then show ?thesis using k by auto
    next
      case (Suc k')
      have "b \<noteq> 0" "block_search (rd (unat b)) name = None" using k(3,5) Suc by auto
      moreover have "?Q bs (Suc i)" using k Suc by (intro exI [of _ k']) auto
      ultimately show ?thesis by blast
    qed
  next
    assume R: ?R
    show ?L
    proof (cases "block_search (rd (unat b)) name")
      case (Some x)
      then have "b \<noteq> 0" "x = j" "i' = i" using R by simp_all
      then show ?thesis using Some by (intro exI [of _ 0]) simp
    next
      case None
      then have "?Q bs (Suc i)" "b \<noteq> 0" using R by simp_all
      then obtain k where k: "k < length bs" "i' = Suc i + k" "\<forall>m \<le> k. bs ! m \<noteq> 0"
        "block_search (rd (unat (bs ! k))) name = Some j" "\<forall>m < k. block_search (rd (unat (bs ! m))) name = None"
        by (elim exE conjE) blast
      have "(b # bs) ! m \<noteq> 0" if "m \<le> Suc k" for m using that k(3) \<open>b \<noteq> 0\<close> by (cases m) auto
      moreover have "block_search (rd (unat ((b # bs) ! m))) name = None" if "m < Suc k" for m
        using that k(5) None by (cases m) auto
      ultimately show ?thesis using k by (intro exI [of _ "Suc k"]) simp
    qed
  qed
  have "dir_search rd (b # bs) i name = Some (i', j) \<longleftrightarrow> b \<noteq> 0 \<and> (block_search (rd (unat b)) name = Some j \<and> i' = i \<or>
      block_search (rd (unat b)) name = None \<and> dir_search rd bs (Suc i) name = Some (i', j))"
    using wf_search [of "rd (unat b)" name] Cons.prems by (auto split: option.split)
  also have "\<dots> \<longleftrightarrow> ?Q (b # bs) i"
    unfolding unf using Cons.IH [of "Suc i"] Cons.prems by simp
  finally show ?case .
qed simp

lemma find_index_lt: "find_index p lo hi = Some j \<Longrightarrow> lo \<le> j \<and> j < hi \<and> p j"
  by (simp add: find_index_Some)

text \<open>\<open>pafs_find_entry\<close> in these terms.\<close>

lemma found_at_unique: "found_at st d name k j \<Longrightarrow> found_at st d name k' j' \<Longrightarrow> k = k' \<and> j = j'"
proof -
  assume 1: "found_at st d name k j" and 2: "found_at st d name k' j'"
  have "\<not> k < k'" "\<not> k' < k" using 1 2 by (auto simp: found_at_def)
  then show ?thesis using 1 2 by (simp add: found_at_def)
qed

lemma dir_search_found:
  assumes "dir_ok st d"
  shows "dir_search (\<lambda>b. pafs_disk_read b st) (iblocks (inodes st ! d)) 0 name = Some (k, j) \<longleftrightarrow> found_at st d name k j"
proof -
  have "\<forall>b \<in> set (iblocks (inodes st ! d)). b \<noteq> 0 \<longrightarrow> wf_block (pafs_disk_read (unat b) st)"
    using assms by (auto simp: dir_ok_def dir_block_def in_set_conv_nth)
  then show ?thesis
    using assms by (subst dir_search_iff) (auto simp: found_at_def filled_def dir_ok_def dir_block_def)
qed

lemma find_entry_found:
  assumes ok: "dir_ok st d"
  shows "found_at st d name k j \<Longrightarrow> pafs_find_entry d name st = sint (entry_inode (dir_block st d k) j)"
    and "(\<nexists>k j. found_at st d name k j) \<Longrightarrow> pafs_find_entry d name st = -1"
proof -
  let ?s = "dir_search (\<lambda>b. pafs_disk_read b st) (iblocks (inodes st ! d)) 0 name"
  have t: "itype (inodes st ! d) = PAFS_TYPE_DIR" using ok by (simp add: dir_ok_def)
  show "pafs_find_entry d name st = sint (entry_inode (dir_block st d k) j)" if f: "found_at st d name k j"
  proof -
    have s: "?s = Some (k, j)" using dir_search_found [OF ok] f by blast
    have k: "k < 14" "iblocks (inodes st ! d) ! k \<noteq> 0" and b: "block_search (dir_block st d k) name = Some j"
      using f by (auto simp: found_at_def filled_def)
    then have "j < 16" "hit (dir_block st d k) name j" using find_index_lt by (auto simp: block_search_def)
    then have "(k, j) \<in> used_entries st d" using k by (simp add: used_entries_def hit_def)
    then have "card (used_entries st d) \<noteq> 0" using finite_used by (metis card_eq_0_iff empty_iff)
    then have "isize (inodes st ! d) \<noteq> 0" using ok by (auto simp: dir_ok_def)
    then show ?thesis using t s by (simp add: pafs_find_entry_def Let_def dir_block_def)
  qed
  show "pafs_find_entry d name st = -1" if "\<nexists>k j. found_at st d name k j"
  proof -
    have "?s = None" using dir_search_found [OF ok] that by (cases ?s) auto
    then show ?thesis by (simp add: pafs_find_entry_def Let_def)
  qed
qed

section \<open>Creating a name\<close>








lemma dir_same:
  assumes "inodes st' ! d = inodes st ! d" and "\<And>k. k < 14 \<Longrightarrow> iblocks (inodes st ! d) ! k \<noteq> 0 \<Longrightarrow> dir_block st' d k = dir_block st d k"
  shows "dir_ok st' d = dir_ok st d" and "found_at st' d name k j = found_at st d name k j"
proof -
  have u: "used_entries st' d = used_entries st d" using assms by (auto simp: used_entries_def)
  have e: "(\<forall>(k, j) \<in> used_entries st d. unat (entry_inode (dir_block st' d k) j) < 128) =
      (\<forall>(k, j) \<in> used_entries st d. unat (entry_inode (dir_block st d k) j) < 128)"
    using assms(2) by (intro ball_cong) (auto simp: used_entries_def)
  have w: "(\<forall>k < 14. iblocks (inodes st ! d) ! k \<noteq> 0 \<longrightarrow> wf_block (dir_block st' d k)) =
      (\<forall>k < 14. iblocks (inodes st ! d) ! k \<noteq> 0 \<longrightarrow> wf_block (dir_block st d k))" using assms(2) by auto
  show "dir_ok st' d = dir_ok st d" unfolding dir_ok_def u assms(1) e w ..
  have f: "filled st' d m = filled st d m" for m using assms(1) by (simp add: filled_def)
  have b: "dir_block st' d m = dir_block st d m" if "m \<le> k" "k < 14" "filled st d k" for m
    using assms(2) that by (simp add: filled_def)
  show "found_at st' d name k j = found_at st d name k j"
    using b f by (auto simp: found_at_def)
qed

text \<open>Lookups only depend on the directory's inode and blocks.\<close>

lemma find_entry_same:
  assumes ok: "dir_ok st d" and same: "inodes st' ! d = inodes st ! d"
    "\<And>k. k < 14 \<Longrightarrow> iblocks (inodes st ! d) ! k \<noteq> 0 \<Longrightarrow> dir_block st' d k = dir_block st d k"
  shows "pafs_find_entry d name st' = pafs_find_entry d name st"
proof -
  note ds = dir_same [OF same]
  have ok': "dir_ok st' d" using ok ds(1) by simp
  show ?thesis
  proof (cases "\<exists>k j. found_at st d name k j")
    case True
    then obtain k j where f: "found_at st d name k j" by blast
    then have "k < 14" "iblocks (inodes st ! d) ! k \<noteq> 0" by (auto simp: found_at_def filled_def)
    then show ?thesis
      using find_entry_found(1) [OF ok f] find_entry_found(1) [OF ok'] f ds(2) same(2) by simp
  next
    case False
    then show ?thesis using find_entry_found(2) [OF ok] find_entry_found(2) [OF ok'] ds(2) by simp
  qed
qed

lemma find_entry_frame:
  assumes ok: "dir_ok st d" and fr: "frame i st st'" and d: "d < 128" "d \<noteq> i"
  shows "pafs_find_entry d name st' = pafs_find_entry d name st" and "dir_ok st' d"
proof -
  have same: "inodes st' ! d = inodes st ! d" using fr d by (simp add: frame_def)
  have blk: "dir_block st' d k = dir_block st d k" if "k < 14" "iblocks (inodes st ! d) ! k \<noteq> 0" for k
  proof -
    have "unat (iblocks (inodes st ! d) ! k) \<in> blocks_of (inodes st) d" using that by (auto simp: blocks_of_def slot_def)
    then show ?thesis using fr d same by (simp add: dir_block_def frame_def)
  qed
  show "pafs_find_entry d name st' = pafs_find_entry d name st" using find_entry_same [OF ok same blk] .
  show "dir_ok st' d" using dir_same(1) [OF same blk] ok by simp
qed

lemma entry_pos:
  assumes ok: "dir_ok st d" and f: "found_at st d name k j"
  shows "entry_inode (dir_block st d k) j \<noteq> 0" and "j < 16"
proof -
  have "find_index (hit (dir_block st d k) name) 0 16 = Some j" using f by (simp add: found_at_def block_search_def)
  from find_index_lt [OF this] show "entry_inode (dir_block st d k) j \<noteq> 0" and "j < 16" by (simp_all add: hit_def)
qed


lemma sint_small: "unat (x :: u32) < 128 \<Longrightarrow> sint x = int (unat x)"
proof -
  assume x: "unat x < 128"
  then have u: "uint x < 128" by (simp add: nat_less_iff flip: nat_uint_eq)
  have "sint x = signed_take_bit 31 (uint x)" by (simp add: sint_uint)
  moreover have "- (2 ^ 31) \<le> uint x" by (rule order_trans [of _ 0]) simp_all
  ultimately have "sint x = uint x" using u by (simp add: signed_take_bit_int_eq_self)
  then show ?thesis by simp
qed

text \<open>A lookup fails exactly when no entry of the directory has the name.\<close>

lemma find_entry_none_iff:
  assumes ok: "dir_ok st d"
  shows "pafs_find_entry d name st = -1 \<longleftrightarrow> (\<nexists>k j. found_at st d name k j)"
proof
  assume m1: "pafs_find_entry d name st = -1"
  show "\<nexists>k j. found_at st d name k j"
  proof (rule notI, elim exE)
    fix k j assume f: "found_at st d name k j"
    have "(k, j) \<in> used_entries st d" using entry_pos [OF ok f] f by (auto simp: used_entries_def found_at_def filled_def)
    then have "unat (entry_inode (dir_block st d k) j) < 128" using ok by (auto simp: dir_ok_def)
    then show False using find_entry_found(1) [OF ok f] m1 sint_small [of "entry_inode (dir_block st d k) j"] by linarith
  qed
qed (rule find_entry_found(2) [OF ok])


section \<open>Removing a name\<close>

lemma clear_entry:
  assumes wf: "wf_block d" and l: "l < 16"
  defines "d' \<equiv> overwrite (32 * l) (replicate 32 0) d"
  shows "wf_block d'" and "j < 16 \<Longrightarrow> entry_inode d' j = (if j = l then 0 else entry_inode d j)"
    and "j < 16 \<Longrightarrow> j \<noteq> l \<Longrightarrow> name_field d' j = name_field d j"
proof -
  have len: "length d = 512" using wf by (simp add: wf_block_def)
  have len': "length d' = 512" unfolding d'_def using len l by (subst length_overwrite) simp_all
  have nth: "d' ! q = (if 32 * l \<le> q \<and> q < 32 * l + 32 then 0 else d ! q)" if "q < 512" for q
    unfolding d'_def using len l that by (subst nth_overwrite) auto
  have off: "d' ! (32 * j + i) = (if j = l then 0 else d ! (32 * j + i))" if "j < 16" "i < 32" for j i
    using that l by (subst nth) auto
  show ent: "entry_inode d' j = (if j = l then 0 else entry_inode d j)" if "j < 16" for j
    using off [OF that, of 0] off [OF that, of 1] off [OF that, of 2] off [OF that, of 3]
    by (simp add: entry_inode_def get32_def le32_def)
  show nf: "name_field d' j = name_field d j" if "j < 16" "j \<noteq> l" for j
  proof (rule nth_equalityI)
    fix q assume "q < length (name_field d' j)"
    then have q: "q < 28" by (simp add: name_field_def)
    then show "name_field d' j ! q = name_field d j ! q"
      using off [OF that(1), of "4 + q"] that len len' by (simp add: name_field_def add.assoc)
  qed (use len len' in \<open>simp add: name_field_def\<close>)
  show "wf_block d'" using wf len' ent nf unfolding wf_block_def by (metis (full_types))
qed

text \<open>The relation between a directory before and after entry \<open>(k, l)\<close> was cleared.\<close>

definition cleared :: "nat \<Rightarrow> nat \<Rightarrow> nat \<Rightarrow> pafs \<Rightarrow> pafs \<Rightarrow> bool" where
  "cleared d k l st st' \<longleftrightarrow> k < 14 \<and> l < 16 \<and> iblocks (inodes st ! d) ! k \<noteq> 0 \<and>
     iblocks (inodes st' ! d) = iblocks (inodes st ! d) \<and> itype (inodes st' ! d) = itype (inodes st ! d) \<and>
     isize (inodes st' ! d) = isize (inodes st ! d) - 32 \<and>
     dir_block st' d k = overwrite (32 * l) (replicate 32 0) (dir_block st d k) \<and>
     (\<forall>m < 14. m \<noteq> k \<longrightarrow> iblocks (inodes st ! d) ! m \<noteq> 0 \<longrightarrow> dir_block st' d m = dir_block st d m)"

lemma cleared_entries:
  assumes ok: "dir_ok st d" and c: "cleared d k l st st'" and m: "m < 14" "iblocks (inodes st ! d) ! m \<noteq> 0" "j < 16"
  shows "entry_inode (dir_block st' d m) j = (if (m, j) = (k, l) then 0 else entry_inode (dir_block st d m) j)"
    and "(m, j) \<noteq> (k, l) \<Longrightarrow> name_field (dir_block st' d m) j = name_field (dir_block st d m) j"
    and "wf_block (dir_block st' d m)"
proof -
  have c': "k < 14" "l < 16" "iblocks (inodes st ! d) ! k \<noteq> 0"
    "dir_block st' d k = overwrite (32 * l) (replicate 32 0) (dir_block st d k)" using c by (simp_all add: cleared_def)
  have wf: "wf_block (dir_block st d i)" if "i < 14" "iblocks (inodes st ! d) ! i \<noteq> 0" for i
    using ok that by (simp add: dir_ok_def)
  note ce = clear_entry [OF wf [OF c'(1,3)] c'(2), folded c'(4)]
  have oth: "dir_block st' d m = dir_block st d m" if "m \<noteq> k" using c m that by (simp add: cleared_def)
  show "entry_inode (dir_block st' d m) j = (if (m, j) = (k, l) then 0 else entry_inode (dir_block st d m) j)"
    using ce(2) [OF m(3)] oth by (cases "m = k") simp_all
  show "name_field (dir_block st' d m) j = name_field (dir_block st d m) j" if "(m, j) \<noteq> (k, l)"
    using ce(3) [OF m(3)] oth that by (cases "m = k") simp_all
  show "wf_block (dir_block st' d m)" using ce(1) oth wf [OF m(1,2)] by (cases "m = k") simp_all
qed

lemma cleared_ok:
  assumes ok: "dir_ok st d" and c: "cleared d k l st st'" and u: "entry_inode (dir_block st d k) l \<noteq> 0"
  shows "dir_ok st' d" and "used_entries st' d = used_entries st d - {(k, l)}"
proof -
  note ce = cleared_entries [OF ok c]
  have ib: "iblocks (inodes st' ! d) = iblocks (inodes st ! d)" using c by (simp add: cleared_def)
  show used: "used_entries st' d = used_entries st d - {(k, l)}"
    using ce(1) by (auto simp: used_entries_def ib split: if_splits)
  have mem: "(k, l) \<in> used_entries st d" using c u by (simp add: cleared_def used_entries_def)
  then have card: "card (used_entries st d) = Suc (card (used_entries st' d))"
    unfolding used using finite_used by (metis card.remove)
  then have "32 \<le> isize (inodes st ! d)" using ok by (simp add: dir_ok_def word_le_nat_alt)
  then have "unat (isize (inodes st ! d) - 32) = unat (isize (inodes st ! d)) - 32" using unat_minus_u32 by fastforce
  then have sz: "unat (isize (inodes st' ! d)) = 32 * card (used_entries st' d)"
    using ok c card by (simp add: cleared_def dir_ok_def)
  have "unat (entry_inode (dir_block st' d m) j) < 128" if "(m, j) \<in> used_entries st' d" for m j
    using ok that ce(1) [of m j] unfolding used dir_ok_def by (auto simp: used_entries_def)
  then show "dir_ok st' d"
    using ok c sz ce(3) [of _ 0] unfolding dir_ok_def cleared_def by auto
qed

lemma cleared_search:
  assumes ok: "dir_ok st d" and c: "cleared d k l st st'" and m: "m < 14" "iblocks (inodes st ! d) ! m \<noteq> 0"
  shows "block_search (dir_block st d m) nm = Some j \<Longrightarrow> (m, j) \<noteq> (k, l) \<Longrightarrow> block_search (dir_block st' d m) nm = Some j"
    and "block_search (dir_block st d m) nm = None \<Longrightarrow> block_search (dir_block st' d m) nm = None"
proof -
  have h: "hit (dir_block st' d m) nm i \<longleftrightarrow> (m, i) \<noteq> (k, l) \<and> hit (dir_block st d m) nm i" if "i < 16" for i
    using cleared_entries(1,2) [OF ok c m that] by (auto simp: hit_def)
  show "block_search (dir_block st d m) nm = Some j \<Longrightarrow> (m, j) \<noteq> (k, l) \<Longrightarrow> block_search (dir_block st' d m) nm = Some j"
    using h by (auto simp: block_search_def find_index_Some)
  show "block_search (dir_block st d m) nm = None \<Longrightarrow> block_search (dir_block st' d m) nm = None"
    using h by (auto simp: block_search_def find_index_None)
qed

lemma cleared_found:
  assumes ok: "dir_ok st d" and c: "cleared d k l st st'" and f: "found_at st d nm m j" and ne: "(m, j) \<noteq> (k, l)"
  shows "found_at st' d nm m j" and "entry_inode (dir_block st' d m) j = entry_inode (dir_block st d m) j"
proof -
  have ib: "iblocks (inodes st' ! d) = iblocks (inodes st ! d)" using c by (simp add: cleared_def)
  have m: "m < 14" "\<And>i. i \<le> m \<Longrightarrow> iblocks (inodes st ! d) ! i \<noteq> 0" using f by (auto simp: found_at_def filled_def)
  have "block_search (dir_block st' d m) nm = Some j"
    using cleared_search(1) [OF ok c m(1) m(2)] f ne by (simp add: found_at_def)
  moreover have "block_search (dir_block st' d i) nm = None" if "i < m" for i
    using cleared_search(2) [OF ok c, of i] f that m by (simp add: found_at_def)
  ultimately show "found_at st' d nm m j" using f by (simp add: found_at_def filled_def ib)
  show "entry_inode (dir_block st' d m) j = entry_inode (dir_block st d m) j"
    using cleared_entries(1) [OF ok c m(1) m(2)] entry_pos(2) [OF ok f] ne by auto
qed

text \<open>\<open>pafs_remove_entry\<close> when the entry and the last entry are in the same block.\<close>

lemma remove_entry_cleared:
  assumes inv: "pafs_inv st" and d: "d < 128" and ok: "dir_ok st d" and f: "found_at st d name k j"
    and n: "n = unat (isize (inodes st ! d)) div 32 - 1" "n div 16 = k"
    and u: "entry_inode (dir_block st d k) (n mod 16) \<noteq> 0"
  shows "fst (pafs_remove_entry d name st) = 0" and "cleared d k (n mod 16) st (snd (pafs_remove_entry d name st))"
proof -
  let ?b = "iblocks (inodes st ! d) ! k" and ?l = "n mod 16"
  let ?X = "overwrite (32 * ?l) (replicate 32 0) (dir_block st d k)"
  define st' where "st' = snd (pafs_remove_entry d name st)"
  have k: "k < 14" "?b \<noteq> 0" using f by (auto simp: found_at_def filled_def)
  have sz: "unat (isize (inodes st ! d) div 32 - 1) = n"
  proof -
    have "(k, ?l) \<in> used_entries st d" using k u by (simp add: used_entries_def)
    then have "0 < card (used_entries st d)" using finite_used card_gt_0_iff by blast
    then have "1 \<le> unat (isize (inodes st ! d) div 32)" using ok by (simp add: dir_ok_def unat_div)
    then show ?thesis using unat_minus_u32 [of 1 "isize (inodes st ! d) div 32"] n(1)
      by (simp add: word_le_nat_alt unat_div)
  qed
  have ds: "dir_search (\<lambda>b. pafs_disk_read b st) (iblocks (inodes st ! d)) 0 name = Some (k, j)"
    using dir_search_found [OF ok] f by blast
  have "\<exists>Y. pafs_remove_entry d name st = (0, pafs_save_inode d (upd_inode d (\<lambda>n. n\<lparr>isize := isize n - 32\<rparr>)
      (pafs_disk_write (unat ?b) ?X Y))) \<and> inodes Y = inodes st \<and>
      (\<forall>l. l \<noteq> unat ?b \<longrightarrow> pafs_disk_read l Y = pafs_disk_read l st)"
    unfolding pafs_remove_entry_def Let_def ds option.case prod.case sz n(2) dir_block_def
    by (rule exI, rule conjI, rule refl) auto
  then obtain Y where res: "pafs_remove_entry d name st = (0, pafs_save_inode d (upd_inode d (\<lambda>n. n\<lparr>isize := isize n - 32\<rparr>)
      (pafs_disk_write (unat ?b) ?X Y)))" and Y: "inodes Y = inodes st"
      "\<And>l. l \<noteq> unat ?b \<Longrightarrow> pafs_disk_read l Y = pafs_disk_read l st" by blast
  then show "fst (pafs_remove_entry d name st) = 0" by simp
  have own: "18 \<le> unat (iblocks (inodes st ! d) ! m)" if "m < 14" "iblocks (inodes st ! d) ! m \<noteq> 0" for m
  proof -
    have "unat (iblocks (inodes st ! d) ! m) \<in> blocks_of (inodes st) d" using that by (auto simp: blocks_of_def slot_def)
    then show ?thesis using low_not_owned [OF inv d] by blast
  qed
  have ib: "iblocks (inodes st' ! d) = iblocks (inodes st ! d)" "isize (inodes st' ! d) = isize (inodes st ! d) - 32"
    "itype (inodes st' ! d) = itype (inodes st ! d)"
    using pafs_inv_lengths(1) [OF inv] d by (simp_all add: st'_def res upd_inode_inodes Y)
  have rd: "pafs_disk_read l st' = (if l = unat ?b then ?X else pafs_disk_read l st)" if "18 \<le> l" for l
    using save_disk(1) [OF that d] Y(2) by (simp add: st'_def res)
  have "dir_block st' d k = ?X" using rd own k by (simp add: dir_block_def ib)
  moreover have "dir_block st' d m = dir_block st d m" if m: "m < 14" "m \<noteq> k" "iblocks (inodes st ! d) ! m \<noteq> 0" for m
    using rd own [OF m(1,3)] slot_distinct [OF inv d m(1) k(1) m(2,3) k(2)] by (simp add: dir_block_def ib)
  ultimately show "cleared d k ?l st (snd (pafs_remove_entry d name st))"
    unfolding st'_def [symmetric] cleared_def using k ib by simp
qed

text \<open>
  C36: when the name to be removed and the last entry of the directory are different entries
  of the same block, \<open>pafs_remove_entry\<close> writes the block twice, the second time from the
  copy that was read before the swap: it reports success, but the name is still found with
  the same inode and the last entry of the directory is gone instead.
\<close>

theorem remove_entry_same_block:
  assumes "pafs_inv st" and "d < 128" and "dir_ok st d" and "found_at st d name k j"
    and "n = unat (isize (inodes st ! d)) div 32 - 1" and "n div 16 = k" and "n mod 16 \<noteq> j"
    and "entry_inode (dir_block st d k) (n mod 16) \<noteq> 0"
    and "st' = snd (pafs_remove_entry d name st)"
  shows "fst (pafs_remove_entry d name st) = 0 \<and> pafs_find_entry d name st' = pafs_find_entry d name st \<and>
    pafs_find_entry d name st \<noteq> -1 \<and> entry_inode (dir_block st' d k) (n mod 16) = 0"
proof -
  note rc = remove_entry_cleared [OF assms(1-6,8), folded assms(9)]
  note cf = cleared_found [OF assms(3) rc(2) assms(4)] and ok' = cleared_ok(1) [OF assms(3) rc(2) assms(8)]
  have k: "k < 14" "iblocks (inodes st ! d) ! k \<noteq> 0" using assms(4) by (auto simp: found_at_def filled_def)
  have "pafs_find_entry d name st' = pafs_find_entry d name st"
    using find_entry_found(1) [OF ok' cf(1)] find_entry_found(1) [OF assms(3,4)] cf(2) assms(7) by simp
  moreover have "pafs_find_entry d name st \<noteq> -1" using find_entry_none_iff [OF assms(3)] assms(4) by blast
  moreover have "entry_inode (dir_block st' d k) (n mod 16) = 0"
    using cleared_entries(1) [OF assms(3) rc(2) k, of "n mod 16"] by simp
  ultimately show ?thesis using rc(1) by simp
qed

section \<open>Instances\<close>

text \<open>The root directory right after formatting.\<close>

lemma raw_lengths: "length (inodes pafs_raw) = 128" "\<forall>i < 128. length (iblocks (inodes pafs_raw ! i)) = 14"
    "length (block_bitmap pafs_raw) = 512" "disk_ok pafs_raw" "sb_ok pafs_raw"
  by (simp_all add: pafs_raw_def blank_inode_def disk_ok_def pafs_disk_read_def sb_ok_def sb_of_def)

lemma fresh_root:
  "inodes (pafs_format pafs_raw) ! 0 = \<lparr>itype = 2, isize = 0, iblocks = (replicate 14 0)[0 := 18]\<rparr>"
  "dir_block (pafs_format pafs_raw) 0 0 = replicate 512 0"
  "k < 14 \<Longrightarrow> iblocks (inodes (pafs_format pafs_raw) ! 0) ! k \<noteq> 0 \<longleftrightarrow> k = 0"
proof -
  show r: "inodes (pafs_format pafs_raw) ! 0 = \<lparr>itype = 2, isize = 0, iblocks = (replicate 14 0)[0 := 18]\<rparr>"
    by (simp add: format_spec [OF raw_lengths(1-3)] put_slot_def blank_inode_def)
  show "dir_block (pafs_format pafs_raw) 0 0 = replicate 512 0"
    by (simp add: dir_block_def r format_spec(4) [OF raw_lengths(1-3)])
  show "k < 14 \<Longrightarrow> iblocks (inodes (pafs_format pafs_raw) ! 0) ! k \<noteq> 0 \<longleftrightarrow> k = 0"
    by (auto simp: r nth_list_update)
qed



text \<open>A root directory with the names \<open>a\<close> (inode 1) and \<open>b\<close> (inode 2).\<close>

definition two_names :: pafs where
  "two_names = pafs_disk_write 18 (put_entry 1 2 [0x62] (put_entry 0 1 [0x61] (replicate 512 0)))
     (upd_inode 0 (\<lambda>n. n\<lparr>isize := 64\<rparr>) (pafs_format pafs_raw))"

lemma two_names_dir:
  "pafs_inv two_names" "dir_ok two_names 0" "found_at two_names 0 [0x61] 0 0" "isize (inodes two_names ! 0) = 64"
  "entry_inode (dir_block two_names 0 0) 1 = 2"
proof -
  let ?z = "replicate 512 0 :: sector"
  let ?d1 = "put_entry 0 1 [0x61] ?z" let ?d2 = "put_entry 1 2 [0x62] ?d1"
  have inv: "pafs_inv (pafs_format pafs_raw)" by (rule format_inv [OF raw_lengths(1-3)])
  then show "pafs_inv two_names" by (simp add: two_names_def resize_inv)
  have len: "0 < length (inodes (pafs_format pafs_raw))" using pafs_inv_lengths(1) [OF inv] by simp
  have ib: "iblocks (inodes two_names ! 0) = (replicate 14 0)[0 := 18]" and ty: "itype (inodes two_names ! 0) = 2"
    and sz: "isize (inodes two_names ! 0) = 64"
    using len by (simp_all add: two_names_def upd_inode_inodes fresh_root(1))
  then show "isize (inodes two_names ! 0) = 64" by simp
  have b0: "dir_block two_names 0 0 = ?d2" by (simp add: dir_block_def ib) (simp add: two_names_def)
  have nz: "iblocks (inodes two_names ! 0) ! k \<noteq> 0 \<longleftrightarrow> k = 0" if "k < 14" for k
    using that by (auto simp: ib nth_list_update)
  have w1: "wf_block ?d1" using wf_put_entry [OF zero_block(1)] by simp
  then have w2: "wf_block ?d2" using wf_put_entry by simp
  have l1: "length ?d1 = 512" using w1 by (simp add: wf_block_def)
  have e: "entry_inode ?d2 j = (if j = 1 then 2 else if j = 0 then 1 else 0)" if "j < 16" for j
    using that put_entry_inode [OF l1, of 1 j 2 "[0x62]"] put_entry_inode [of ?z 0 j 1 "[0x61]"] zero_block(2) [OF that] by simp
  then show "entry_inode (dir_block two_names 0 0) 1 = 2" by (simp add: b0)
  have used: "used_entries two_names 0 = {(0, 0), (0, 1)}"
  proof -
    have e': "entry_inode (dir_block two_names 0 0) j \<noteq> 0 \<longleftrightarrow> j = 0 \<or> j = 1" if "j < 16" for j
      unfolding b0 e [OF that] by simp
    have "(k, j) \<in> used_entries two_names 0 \<longleftrightarrow> k = 0 \<and> (j = 0 \<or> j = 1)" for k j
    proof -
      have "k < 14 \<and> j < 16" if "k = 0 \<and> (j = 0 \<or> j = 1)" using that by (elim conjE disjE) simp_all
      then show ?thesis unfolding used_entries_def mem_Collect_eq case_prod_conv using nz [of k] e' [of j] by metis
    qed
    then show ?thesis by (intro set_eqI, case_tac x, simp only: insert_iff empty_iff prod.inject) blast
  qed
  show "dir_ok two_names 0"
  proof -
    have "wf_block (dir_block two_names 0 k)" if "k < 14" "iblocks (inodes two_names ! 0) ! k \<noteq> 0" for k
      using nz [OF that(1)] that(2) w2 b0 by simp
    moreover have "iblocks (inodes two_names ! 0) ! k = 0" if "k < 14" "m < k" for k m
      using nz [OF that(1)] that(2) by simp
    moreover have "entry_inode (dir_block two_names 0 0) 0 = 1" "entry_inode (dir_block two_names 0 0) (Suc 0) = 2"
      unfolding b0 using e [of 0] e [of 1] by simp_all
    moreover have "length (iblocks (inodes two_names ! 0)) = 14" by (simp add: ib)
    ultimately show ?thesis unfolding dir_ok_def ty sz used by (simp add: PAFS_TYPE_DIR_def)
  qed
  have "block_search ?d1 [0x61] = Some 0"
    by (rule put_entry_search(2) [OF zero_block(1)]) (simp_all add: zero_block cstr_def)
  then have "block_search ?d2 [0x61] = Some 0"
    using put_entry_search(1) [OF w1, of 1 2 "[0x62]" "[0x61]"] put_entry_inode [of ?z 0 1 1 "[0x61]"] zero_block(2) [of 1]
    by (simp add: cstr_def)
  then show "found_at two_names 0 [0x61] 0 0" using nz [of 0] by (simp add: found_at_def b0 filled_def)
qed

lemma two_names_entry: "entry_inode (dir_block two_names 0 0) 0 = 1"
proof -
  let ?z = "replicate 512 0 :: sector"
  let ?d1 = "put_entry 0 1 [0x61] ?z"
  have l1: "length ?d1 = 512" by (simp add: put_entry_length)
  have "0 < length (inodes (pafs_format pafs_raw))" using pafs_inv_lengths(1) [OF format_inv [OF raw_lengths(1-3)]] by simp
  then have "iblocks (inodes two_names ! 0) ! 0 = 18" by (simp add: two_names_def upd_inode_inodes fresh_root(1))
  then have "dir_block two_names 0 0 = put_entry 1 2 [0x62] ?d1" by (simp add: dir_block_def) (simp add: two_names_def)
  then show ?thesis using put_entry_inode [OF l1, of 1 0 2 "[0x62]"] put_entry_inode [of ?z 0 0 1 "[0x61]"] by simp
qed

theorem remove_entry_same_block_witness:
  "fst (pafs_remove_entry 0 [0x61] two_names) = 0 \<and>
   pafs_find_entry 0 [0x61] (snd (pafs_remove_entry 0 [0x61] two_names)) \<noteq> -1"
  using remove_entry_same_block [OF two_names_dir(1) _ two_names_dir(2,3) refl _ _ _ refl] two_names_dir(4,5)
  by simp

end
