(* ===== verification/Fs_Nodes.thy ===== *)
theory Fs_Nodes
  imports Socket Pafs_Dir Console
begin

text \<open>
  The state that the virtual file system works on, the PAFS functions behind its nodes (the last
  part of \<open>kernel/fs/pafs.c\<close>) and the disk device of \<open>kernel/core/kernel.c\<close>. The state joins
  the kernel with its sockets, the PAFS variables and the console; nodes, directory entries and ext2
  descriptors are heap objects in stores from addresses to records. As before the value None is
  a run that does not go on: a null pointer is used, a fixed buffer overflows, a division by zero
  or an endless loop.
\<close>

section \<open>State\<close>

record vfs_dirent =
  d_name :: cstring
  d_ino :: u32

text \<open>
  \<open>ext2_fs_t\<close>: superblock and group descriptors as the bytes that were read from the disk.
\<close>

record ext2_fs =
  e_dev :: u32
  e_sb :: "u8 list"
  block_size :: u32
  groups_count :: u32
  bgdt :: "u8 list"

text \<open>
  \<open>fs\<close> holds the variables of \<open>pafs.c\<close>, \<open>con\<close> the console with its ports; \<open>uninit\<close> is what
  a buffer fresh from the heap contains, which no theorem constrains.
\<close>

record system = tcpip +
  fs :: pafs
  con :: console
  dirents :: "u32 \<Rightarrow> vfs_dirent"
  ext2s :: "u32 \<Rightarrow> ext2_fs"
  pafs_root_node :: u32
  vfs_root :: u32
  mount_table :: "(cstring \<times> u32) list"
  uninit :: "u32 \<Rightarrow> u8"

text \<open>The PAFS operations run on the processor's flags.\<close>

definition on_fs :: "(pafs \<Rightarrow> 'r \<times> pafs) \<Rightarrow> 'a system_scheme \<Rightarrow> 'r \<times> 'a system_scheme" where
  "on_fs f s = (let (r, q) = f (fs s\<lparr>pafs.eflags := kernel.eflags s\<rparr>) in (r, s\<lparr>fs := q, kernel.eflags := pafs.eflags q\<rparr>))"

definition upd_node :: "u32 \<Rightarrow> (vfs_node \<Rightarrow> vfs_node) \<Rightarrow> 'a system_scheme \<Rightarrow> 'a system_scheme" where
  "upd_node n f s = s\<lparr>nodes := (nodes s)(n := f (nodes s n))\<rparr>"

definition say :: "cstring \<Rightarrow> 'a system_scheme \<Rightarrow> 'a system_scheme" where
  "say str s = s\<lparr>con := put_str str (con s)\<rparr>"

definition fresh_bytes :: "nat \<Rightarrow> u32 \<Rightarrow> 'a system_scheme \<Rightarrow> u8 list" where
  "fresh_bytes n p s = map (\<lambda>i. uninit s (p + of_nat i)) [0..<n]"

section \<open>PAFS nodes\<close>

definition pafs_vfs_close :: "u32 \<Rightarrow> 'a system_scheme \<Rightarrow> 'a system_scheme" where
  "pafs_vfs_close n s =
     (if n \<noteq> 0 \<and> n \<noteq> pafs_root_node s then
        let s1 = (if vimpl (nodes s n) \<noteq> 0 then krelease (vimpl (nodes s n)) s else s) in krelease n s1
      else s)"

definition sizeof_dirent :: u32 where "sizeof_dirent = 132"

text \<open>The part of \<open>pafs_vfs_readdir\<close> that holds the lock: inode number and name of the entry.\<close>

definition readdir_locked :: "nat \<Rightarrow> u32 \<Rightarrow> pafs \<Rightarrow> (u32 \<times> cstring) option" where
  "readdir_locked ino index q =
     (let dir = inodes q ! ino; block_idx = unat index div 16; entry_in_block = unat index mod 16
      in if itype dir \<noteq> PAFS_TYPE_DIR \<or> isize dir = 0 then None
         else if index \<ge> 14 * 16 then None
         else if block_idx \<ge> 14 \<or> iblocks dir ! block_idx = 0 then None
         else let dir_data = pafs_disk_read (unat (iblocks dir ! block_idx)) q
         in if entry_inode dir_data entry_in_block = 0 then None
            else Some (entry_inode dir_data entry_in_block, take 27 (cstr (entry_name dir_data entry_in_block))))"

definition pafs_vfs_readdir :: "u32 \<Rightarrow> u32 \<Rightarrow> 'a system_scheme \<Rightarrow> (vfs_dirent option \<times> 'a system_scheme) option" where
  "pafs_vfs_readdir n index s = do {
     s1 \<leftarrow> (if vimpl (nodes s n) = 0 then do {
              (p, s') \<leftarrow> kalloc_deref sizeof_dirent s;
              Some (upd_node n (\<lambda>v. v\<lparr>vimpl := p\<rparr>) s')
            } else Some s);
     let d = vimpl (nodes s1 n);
     let s2 = s1\<lparr>dirents := (dirents s1)(d := \<lparr>d_name = [], d_ino = 0\<rparr>)\<rparr>;
     let (r, s3) = on_fs (with_lock (\<lambda>q. (readdir_locked (unat (vinode (nodes s2 n))) index q, q))) s2;
     Some (case r of
         None \<Rightarrow> (None, s3)
       | Some (ino, name) \<Rightarrow>
           (let e = \<lparr>d_name = name, d_ino = ino\<rparr> in (Some e, s3\<lparr>dirents := (dirents s3)(d := e)\<rparr>)))
   }"

definition pafs_node :: "int \<Rightarrow> cstring \<Rightarrow> pafs \<Rightarrow> vfs_node" where
  "pafs_node ino name q =
     (let target_inode = inodes q ! nat ino
      in zero_node\<lparr>vname := take 127 (cstr name), vinode := of_int ino, vlength := isize target_inode,
           vflags := (if itype target_inode = PAFS_TYPE_DIR then VFS_DIRECTORY else VFS_FILE),
           vread := Pafs_fun, vwrite := Pafs_fun, vreaddir := Pafs_fun, vfinddir := Pafs_fun, vclose := Pafs_fun\<rparr>)"

definition pafs_vfs_finddir :: "u32 \<Rightarrow> cstring \<Rightarrow> 'a system_scheme \<Rightarrow> (u32 \<times> 'a system_scheme) option" where
  "pafs_vfs_finddir n name s = do {
     let (_, s1) = on_fs (\<lambda>q. ((), lock_pafs q)) s;
     let ino = pafs_find_entry (unat (vinode (nodes s1 n))) name (fs s1);
     (res, s2) \<leftarrow> (if ino \<noteq> -1 then do {
         (p, s') \<leftarrow> kalloc_deref sizeof_vfs_node s1;
         Some (p, upd_node p (\<lambda>_. pafs_node ino name (fs s')) s')
       } else Some (0, s1));
     Some (res, snd (on_fs (\<lambda>q. ((), unlock_pafs q)) s2))
   }"

definition pafs_get_vfs_root :: "'a system_scheme \<Rightarrow> (u32 \<times> 'a system_scheme) option" where
  "pafs_get_vfs_root s =
     (if pafs_root_node s \<noteq> 0 then Some (pafs_root_node s, s)
      else do {
        (p, s1) \<leftarrow> kalloc_deref sizeof_vfs_node s;
        let root = root_inode (sb (fs s1));
        Some (p, upd_node p (\<lambda>_. zero_node\<lparr>vname := [0x2F], vinode := root, vflags := VFS_DIRECTORY,
               vlength := isize (inodes (fs s1) ! unat root), vreaddir := Pafs_fun, vfinddir := Pafs_fun, vclose := Pafs_fun\<rparr>)
             (s1\<lparr>pafs_root_node := p\<rparr>))
      })"

section \<open>The second disk as a device\<close>

text \<open>One round of the loop over the sectors; the counter and the buffer are carried along.\<close>

definition ata1_sector :: "u32 \<Rightarrow> u32 \<Rightarrow> pafs \<Rightarrow> u32 \<Rightarrow> u32 \<times> u8 list \<Rightarrow> u32 \<times> u8 list" where
  "ata1_sector offset size' q k = (\<lambda>(read_bytes, buffer).
     let start_sector = offset div 512; end_sector = (offset + size' - 1) div 512;
         off = (if k = start_sector then offset mod 512 else 0);
         len = (if k = end_sector then (offset + size' - 1) mod 512 - off + 1 else 512 - off)
     in (read_bytes + len, overwrite (unat read_bytes) (take (unat len) (drop (unat off) (ata q 1 (unat k)))) buffer))"

definition ata_read_device1 :: "u32 \<Rightarrow> u32 \<Rightarrow> u8 list \<Rightarrow> 'a system_scheme \<Rightarrow> (u32 \<times> u8 list) \<times> 'a system_scheme" where
  "ata_read_device1 offset size' buffer s =
     (let c1 = outb 0x1F6 0xF0 (con s);
          c2 = for_range 0 4 (\<lambda>_ c. snd (inb 0x1F7 c)) c1;
          (st, c3) = inb 0x1F7 c2;
          s1 = s\<lparr>con := outb 0x1F6 0xE0 c3\<rparr>
      in if st = 0xFF \<or> st = 0x00 then ((0, buffer), s1)
         else (fold (ata1_sector offset size' (fs s) \<circ> of_nat)
                 [unat (offset div 512)..<Suc (unat ((offset + size' - 1) div 512))] (0, buffer), s1))"

text \<open>
  \<open>vfs_read\<close> on the device of an ext2 file system: the disk node, which is the only device the
  kernel creates, or a node without a read function.
\<close>

definition dev_read :: "u32 \<Rightarrow> u32 \<Rightarrow> u32 \<Rightarrow> u8 list \<Rightarrow> 'a system_scheme \<Rightarrow> ((u32 \<times> u8 list) \<times> 'a system_scheme) option" where
  "dev_read n offset size' buffer s =
     (case vread (nodes s n) of
        No_fun \<Rightarrow> Some ((0, buffer), s)
      | Ata_fun \<Rightarrow> Some (ata_read_device1 offset size' buffer s)
      | _ \<Rightarrow> None)"

end
