(* ===== verification/Ext2.thy ===== *)
theory Ext2
  imports Fs_Nodes
begin

text \<open>
  The ext2 reader, \<open>kernel/fs/ext2.c\<close> and \<open>include/ext2.h\<close>. On-disk structures are byte
  sequences with the fields at their packed offsets. A read outside a buffer or a table is the
  value None, and so is the endless loop on a directory entry of length zero.
\<close>

section \<open>Structures on the disk\<close>

definition EXT2_SUPER_MAGIC :: u16 where "EXT2_SUPER_MAGIC = 0xEF53"

definition get16 :: "nat \<Rightarrow> u8 list \<Rightarrow> u16" where
  "get16 off d = le16 (d ! off) (d ! (off + 1))"

definition s_blocks_count :: "u8 list \<Rightarrow> u32" where "s_blocks_count b = get32 4 b"
definition s_log_block_size :: "u8 list \<Rightarrow> u32" where "s_log_block_size b = get32 24 b"
definition s_blocks_per_group :: "u8 list \<Rightarrow> u32" where "s_blocks_per_group b = get32 32 b"
definition s_inodes_per_group :: "u8 list \<Rightarrow> u32" where "s_inodes_per_group b = get32 40 b"
definition s_magic :: "u8 list \<Rightarrow> u16" where "s_magic b = get16 56 b"
definition s_inode_size :: "u8 list \<Rightarrow> u16" where "s_inode_size b = get16 88 b"

text \<open>\<open>fs->bgdt[group].bg_inode_table\<close>; a group behind the table is outside the buffer.\<close>

definition bg_inode_table :: "u8 list \<Rightarrow> u32 \<Rightarrow> u32 option" where
  "bg_inode_table t grp = (if 32 * unat grp + 32 \<le> length t then Some (get32 (32 * unat grp + 8) t) else None)"

definition i_mode :: "u8 list \<Rightarrow> u16" where "i_mode i = get16 0 i"
definition i_size :: "u8 list \<Rightarrow> u32" where "i_size i = get32 4 i"
definition i_block :: "u8 list \<Rightarrow> nat \<Rightarrow> u32" where "i_block i k = get32 (40 + 4 * k) i"

record ext2_dir_entry =
  de_inode :: u32
  rec_len :: u16
  name_len :: u8
  de_name :: cstring

definition dir_entry_at :: "u8 list \<Rightarrow> u32 \<Rightarrow> ext2_dir_entry option" where
  "dir_entry_at buf off =
     (let o' = unat off; nl = unat (buf ! (o' + 6))
      in if o' + 8 \<le> length buf \<and> o' + 8 + nl \<le> length buf
         then Some \<lparr>de_inode = get32 o' buf, rec_len = get16 (o' + 4) buf, name_len = buf ! (o' + 6),
                 de_name = take nl (drop (o' + 8) buf)\<rparr>
         else None)"

section \<open>Blocks and inodes\<close>

definition ext2_read_block :: "ext2_fs \<Rightarrow> u32 \<Rightarrow> u8 list \<Rightarrow> 'a system_scheme \<Rightarrow> ((u32 \<times> u8 list) \<times> 'a system_scheme) option" where
  "ext2_read_block e block buf s = dev_read (e_dev e) (block * block_size e) (block_size e) buf s"

definition ext2_read_inode :: "ext2_fs \<Rightarrow> u32 \<Rightarrow> 'a system_scheme \<Rightarrow> (u8 list \<times> 'a system_scheme) option" where
  "ext2_read_inode e ino s =
     (let per_group = s_inodes_per_group (e_sb e); isz = ucast (s_inode_size (e_sb e))
      in if per_group = 0 \<or> block_size e = 0 then None
         else do {
           let grp = (ino - 1) div per_group;
           let index = (ino - 1) mod per_group;
           table \<leftarrow> bg_inode_table (bgdt e) grp;
           let block = table + (index * isz) div block_size e;
           let offset = (index * isz) mod block_size e;
           (p, s1) \<leftarrow> kalloc_deref (block_size e) s;
           ((_, buf), s2) \<leftarrow> ext2_read_block e block (fresh_bytes (unat (block_size e)) p s1) s1;
           if unat offset + 128 \<le> length buf
           then Some (take 128 (drop (unat offset) buf), krelease p s2)
           else None
         })"

definition ext2_inode_to_vfs :: "u32 \<Rightarrow> u32 \<Rightarrow> cstring \<Rightarrow> 'a system_scheme \<Rightarrow> (u32 \<times> 'a system_scheme) option" where
  "ext2_inode_to_vfs f ino name s = do {
     (einode, s1) \<leftarrow> ext2_read_inode (ext2s s f) ino s;
     (n, s2) \<leftarrow> kalloc_deref sizeof_vfs_node s1;
     if strlen name \<ge> 128 then None
     else Some (n, upd_node n (\<lambda>_. zero_node\<lparr>vname := cstr name, vinode := ino, vlength := i_size einode, vimpl := f,
            vflags := (if i_mode einode AND 0xF000 = 0x4000 then VFS_DIRECTORY
                       else if i_mode einode AND 0xF000 = 0xA000 then VFS_SYMLINK else VFS_FILE),
            vread := Ext2_fun, vreaddir := Ext2_fun, vfinddir := Ext2_fun\<rparr>) s2)
   }"

section \<open>Files\<close>

partial_function (option) ext2_read_loop ::
    "ext2_fs \<Rightarrow> u8 list \<Rightarrow> u32 \<Rightarrow> u32 \<Rightarrow> u32 \<Rightarrow> u8 list \<Rightarrow> u8 list \<Rightarrow> 'a system_scheme \<Rightarrow> ((u32 \<times> u8 list) \<times> 'a system_scheme) option" where
  "ext2_read_loop e einode offset size' read_bytes block_buf buffer s =
     (if read_bytes < size' then do {
        let block_idx = (offset + read_bytes) div block_size e;
        let block_off = (offset + read_bytes) mod block_size e;
        let to_read = block_size e - block_off;
        let to_read = (if to_read > size' - read_bytes then size' - read_bytes else to_read);
        (block_buf', buffer', s') \<leftarrow>
          (if block_idx < 12 then do {
             ((_, bb), s1) \<leftarrow> ext2_read_block e (i_block einode (unat block_idx)) block_buf s;
             Some (bb, overwrite (unat read_bytes) (take (unat to_read) (drop (unat block_off) bb)) buffer, s1)
           } else Some (block_buf, buffer, s));
        ext2_read_loop e einode offset size' (read_bytes + to_read) block_buf' buffer' s'
      } else Some ((read_bytes, buffer), s))"

definition ext2_read :: "u32 \<Rightarrow> u32 \<Rightarrow> u32 \<Rightarrow> u8 list \<Rightarrow> 'a system_scheme \<Rightarrow> ((u32 \<times> u8 list) \<times> 'a system_scheme) option" where
  "ext2_read n offset size' buffer s = do {
     let e = ext2s s (vimpl (nodes s n));
     (einode, s1) \<leftarrow> ext2_read_inode e (vinode (nodes s n)) s;
     if offset \<ge> i_size einode then Some ((0, buffer), s1)
     else do {
       let sz = (if offset + size' > i_size einode then i_size einode - offset else size');
       if vflags (nodes s1 n) AND VFS_SYMLINK \<noteq> 0 \<and> i_size einode < 60 then do {
         let to_copy = (if sz < i_size einode - offset then sz else i_size einode - offset);
         Some ((to_copy, overwrite 0 (take (unat to_copy) (drop (40 + unat offset) einode)) buffer), s1)
       } else do {
         (p, s2) \<leftarrow> kalloc_deref (block_size e) s1;
         (r, s3) \<leftarrow> ext2_read_loop e einode offset sz 0 (fresh_bytes (unat (block_size e)) p s2) buffer s2;
         Some (r, krelease p s3)
       }
     }
   }"

section \<open>Directories\<close>

text \<open>
  The entries of a block until the name is found. Deleted entries (inode 0) take part in the
  comparison, and an entry of length zero is looked at for ever.
\<close>

partial_function (option) ext2_find_in_block :: "u8 list \<Rightarrow> u32 \<Rightarrow> cstring \<Rightarrow> u32 \<Rightarrow> (u32 \<times> cstring) option option" where
  "ext2_find_in_block buf bs name offset =
     (if offset < bs then do {
        e \<leftarrow> dir_entry_at buf offset;
        if strcmp (de_name e) name = 0 then Some (Some (de_inode e, de_name e))
        else ext2_find_in_block buf bs name (offset + ucast (rec_len e))
      } else Some None)"

fun ext2_find_blocks :: "ext2_fs \<Rightarrow> u32 list \<Rightarrow> cstring \<Rightarrow> u8 list \<Rightarrow> 'a system_scheme \<Rightarrow> ((u32 \<times> cstring) option \<times> 'a system_scheme) option" where
  "ext2_find_blocks e [] name buf s = Some (None, s)"
| "ext2_find_blocks e (b # bs) name buf s =
     (if b = 0 then Some (None, s)
      else do {
        ((_, buf1), s1) \<leftarrow> ext2_read_block e b buf s;
        r \<leftarrow> ext2_find_in_block buf1 (block_size e) name 0;
        (case r of Some x \<Rightarrow> Some (Some x, s1) | None \<Rightarrow> ext2_find_blocks e bs name buf1 s1)
      })"

definition ext2_finddir :: "u32 \<Rightarrow> cstring \<Rightarrow> 'a system_scheme \<Rightarrow> (u32 \<times> 'a system_scheme) option" where
  "ext2_finddir n name s = do {
     let f = vimpl (nodes s n);
     let e = ext2s s f;
     (einode, s1) \<leftarrow> ext2_read_inode e (vinode (nodes s n)) s;
     (p, s2) \<leftarrow> kalloc_deref (block_size e) s1;
     (r, s3) \<leftarrow> ext2_find_blocks e (map (i_block einode) [0..<12]) name (fresh_bytes (unat (block_size e)) p s2) s2;
     (case r of
        Some (ino, found_name) \<Rightarrow> do {
          (res, s4) \<leftarrow> ext2_inode_to_vfs f ino found_name s3;
          Some (res, krelease p s4)
        }
      | None \<Rightarrow> Some (0, krelease p s3))
   }"

text \<open>
  The entries of a block counted up to an index: the entry, or the counter at the end of the
  block. The name is copied into 128 bytes.
\<close>

partial_function (option) ext2_list_block :: "u8 list \<Rightarrow> u32 \<Rightarrow> u32 \<Rightarrow> u32 \<Rightarrow> u32 \<Rightarrow> (vfs_dirent + u32) option" where
  "ext2_list_block buf bs index current_index offset =
     (if offset < bs then do {
        e \<leftarrow> dir_entry_at buf offset;
        if de_inode e \<noteq> 0 \<and> current_index = index then
          (if name_len e \<ge> 128 then None else Some (Inl \<lparr>d_name = cstr (de_name e), d_ino = de_inode e\<rparr>))
        else do {
          let c = (if de_inode e \<noteq> 0 then current_index + 1 else current_index);
          if rec_len e = 0 then Some (Inr c)
          else ext2_list_block buf bs index c (offset + ucast (rec_len e))
        }
      } else Some (Inr current_index))"

fun ext2_list_blocks :: "ext2_fs \<Rightarrow> u32 list \<Rightarrow> u32 \<Rightarrow> u32 \<Rightarrow> u8 list \<Rightarrow> 'a system_scheme \<Rightarrow> (vfs_dirent option \<times> 'a system_scheme) option" where
  "ext2_list_blocks e [] index c buf s = Some (None, s)"
| "ext2_list_blocks e (b # bs) index c buf s =
     (if b = 0 then Some (None, s)
      else do {
        ((_, buf1), s1) \<leftarrow> ext2_read_block e b buf s;
        r \<leftarrow> ext2_list_block buf1 (block_size e) index c 0;
        (case r of Inl d \<Rightarrow> Some (Some d, s1) | Inr c' \<Rightarrow> ext2_list_blocks e bs index c' buf1 s1)
      })"

definition ext2_readdir :: "u32 \<Rightarrow> u32 \<Rightarrow> 'a system_scheme \<Rightarrow> (vfs_dirent option \<times> 'a system_scheme) option" where
  "ext2_readdir n index s = do {
     let e = ext2s s (vimpl (nodes s n));
     (einode, s1) \<leftarrow> ext2_read_inode e (vinode (nodes s n)) s;
     (p, s2) \<leftarrow> kalloc_deref (block_size e) s1;
     (r, s3) \<leftarrow> ext2_list_blocks e (map (i_block einode) [0..<12]) index 0 (fresh_bytes (unat (block_size e)) p s2) s2;
     Some (r, krelease p s3)
   }"

section \<open>Mounting\<close>

definition sizeof_ext2_fs :: u32 where "sizeof_ext2_fs = 220"

text \<open>The shift count of the processor is taken modulo 32.\<close>

definition ext2_init :: "u32 \<Rightarrow> 'a system_scheme \<Rightarrow> (u32 \<times> 'a system_scheme) option" where
  "ext2_init device s = do {
     let s0 = say (lit ''[EXT2] Inisiyalizasyon basliyor...'' @ [10]) s;
     (f, s1) \<leftarrow> kalloc_deref sizeof_ext2_fs s0;
     (b, s2) \<leftarrow> kalloc_deref 1024 s1;
     ((_, sb_buf), s3) \<leftarrow> dev_read device 1024 1024 (fresh_bytes 1024 b s2) s2;
     let sbx = take 204 sb_buf;
     let s4 = krelease b s3;
     if s_magic sbx \<noteq> EXT2_SUPER_MAGIC then do {
       let s5 = say (lit ''[EXT2] Hata: Gecersiz Magic Number: 0x'') s4;
       let s6 = s5\<lparr>con := put_hex (ucast (s_magic sbx)) (con s5)\<rparr>;
       Some (0, krelease f (say [10] s6))
     } else if s_blocks_per_group sbx = 0 then None
     else do {
       let bs = push_bit (unat (s_log_block_size sbx) mod 32) 1024;
       let gc = (s_blocks_count sbx + s_blocks_per_group sbx - 1) div s_blocks_per_group sbx;
       (t, s5) \<leftarrow> kalloc_deref (gc * 32) s4;
       let bgdt_offset = (if bs = 1024 then 2048 else bs);
       ((_, tb), s6) \<leftarrow> dev_read device bgdt_offset (gc * 32) (fresh_bytes (unat (gc * 32)) t s5) s5;
       let s7 = s6\<lparr>ext2s := (ext2s s6)(f := \<lparr>e_dev = device, e_sb = sbx, block_size = bs, groups_count = gc, bgdt = tb\<rparr>)\<rparr>;
       let s8 = say (lit ''[EXT2] Dosya sistemi mount edildi. Blok boyutu: '') s7;
       let s9 = say [10] (s8\<lparr>con := put_int (sint bs) (con s8)\<rparr>);
       ext2_inode_to_vfs f 2 (lit ''/'') s9
     }
   }"

end
