(* ===== verification/Vfs.thy ===== *)
theory Vfs
  imports Ext2
begin

text \<open>
  The virtual file system, \<open>kernel/fs/vfs.c\<close>: operations dispatched on the functions of a node,
  the mount table and the lookup of a path. What other tasks do while a socket is read is the
  argument \<open>env\<close>, as for the sockets.
\<close>

section \<open>Operations on nodes\<close>

definition MAX_MOUNTS :: nat where "MAX_MOUNTS = 16"

definition vfs_clone_node :: "u32 \<Rightarrow> 'a system_scheme \<Rightarrow> (u32 \<times> 'a system_scheme) option" where
  "vfs_clone_node n s =
     (if n = 0 then Some (0, s)
      else do {
        (res, s1) \<leftarrow> kalloc_deref sizeof_vfs_node s;
        Some (res, upd_node res (\<lambda>_. nodes s1 n) s1)
      })"

text \<open>A buffer argument is the caller's memory; the result is the number of bytes and that memory.\<close>

definition vfs_read ::
    "(nat \<Rightarrow> 'a system_scheme \<Rightarrow> 'a system_scheme) \<Rightarrow> u32 \<Rightarrow> u32 \<Rightarrow> u32 \<Rightarrow> u8 list \<Rightarrow> 'a system_scheme \<Rightarrow>
     ((u32 \<times> u8 list) \<times> 'a system_scheme) option" where
  "vfs_read env n offset size' buffer s =
     (case vread (nodes s n) of
        No_fun \<Rightarrow> Some ((0, buffer), s)
      | Pafs_fun \<Rightarrow> Some (on_fs (pafs_vfs_read (unat (vinode (nodes s n))) offset size' buffer) s)
      | Socket_fun \<Rightarrow> do {
          (d, s1) \<leftarrow> socket_read env n (unat size') s;
          Some ((of_nat (length d), overwrite 0 d buffer), s1)
        }
      | Ext2_fun \<Rightarrow> ext2_read n offset size' buffer s
      | Ata_fun \<Rightarrow> Some (ata_read_device1 offset size' buffer s))"

definition vfs_write :: "u32 \<Rightarrow> u32 \<Rightarrow> u32 \<Rightarrow> u8 list \<Rightarrow> 'a system_scheme \<Rightarrow> (u32 \<times> 'a system_scheme) option" where
  "vfs_write n offset size' buffer s =
     (case vwrite (nodes s n) of
        No_fun \<Rightarrow> Some (0, s)
      | Pafs_fun \<Rightarrow> Some (on_fs (pafs_vfs_write (unat (vinode (nodes s n))) offset size' buffer) s)
      | Socket_fun \<Rightarrow> do {
          (r, s1) \<leftarrow> socket_write n (take (unat size') buffer) s;
          Some (of_int r, s1)
        }
      | _ \<Rightarrow> None)"

text \<open>No driver has an open function.\<close>

definition vfs_open :: "u32 \<Rightarrow> 'a system_scheme \<Rightarrow> 'a system_scheme option" where
  "vfs_open n s = (if vopen (nodes s n) \<noteq> No_fun then None else Some s)"

definition vfs_close :: "u32 \<Rightarrow> 'a system_scheme \<Rightarrow> 'a system_scheme option" where
  "vfs_close n s =
     (case vclose (nodes s n) of
        No_fun \<Rightarrow> Some s
      | Pafs_fun \<Rightarrow> Some (pafs_vfs_close n s)
      | Socket_fun \<Rightarrow> socket_close n s
      | _ \<Rightarrow> None)"

text \<open>\<open>(node->flags & VFS_MOUNTPOINT) && node->ptr\<close>, with the node it points to.\<close>

definition mounted_at :: "u32 \<Rightarrow> 'a system_scheme \<Rightarrow> u32 option" where
  "mounted_at n s =
     (if vflags (nodes s n) AND VFS_MOUNTPOINT \<noteq> 0
      then (case vptr (nodes s n) of Node_ptr p \<Rightarrow> if p = 0 then None else Some p | _ \<Rightarrow> None) else None)"

partial_function (option) vfs_readdir :: "u32 \<Rightarrow> u32 \<Rightarrow> 'a system_scheme \<Rightarrow> (vfs_dirent option \<times> 'a system_scheme) option" where
  "vfs_readdir n index s =
     (case mounted_at n s of
        Some p \<Rightarrow> vfs_readdir p index s
      | None \<Rightarrow>
          (if vflags (nodes s n) AND VFS_DIRECTORY \<noteq> 0 then
             (case vreaddir (nodes s n) of
                No_fun \<Rightarrow> Some (None, s)
              | Pafs_fun \<Rightarrow> pafs_vfs_readdir n index s
              | Ext2_fun \<Rightarrow> ext2_readdir n index s
              | _ \<Rightarrow> None)
           else Some (None, s)))"

definition driver_finddir :: "u32 \<Rightarrow> cstring \<Rightarrow> 'a system_scheme \<Rightarrow> (u32 \<times> 'a system_scheme) option" where
  "driver_finddir n name s =
     (case vfinddir (nodes s n) of
        Pafs_fun \<Rightarrow> pafs_vfs_finddir n name s
      | Ext2_fun \<Rightarrow> ext2_finddir n name s
      | _ \<Rightarrow> None)"

text \<open>The node named \<open>mnt\<close> becomes a mount point when \<open>/mnt\<close> is in the mount table.\<close>

definition mark_mount :: "u32 \<Rightarrow> cstring \<Rightarrow> 'a system_scheme \<Rightarrow> 'a system_scheme" where
  "mark_mount res name s =
     (if strcmp name (lit ''mnt'') = 0 then
        case find (\<lambda>m. strcmp (fst m) (lit ''/mnt'') = 0) (mount_table s) of
          Some (_, root) \<Rightarrow> upd_node res (\<lambda>v. v\<lparr>vflags := vflags v OR VFS_MOUNTPOINT, vptr := Node_ptr root\<rparr>) s
        | None \<Rightarrow> s
      else s)"

partial_function (option) vfs_finddir :: "u32 \<Rightarrow> cstring \<Rightarrow> 'a system_scheme \<Rightarrow> (u32 \<times> 'a system_scheme) option" where
  "vfs_finddir n name s =
     (case mounted_at n s of
        Some p \<Rightarrow> vfs_finddir p name s
      | None \<Rightarrow>
          (if vflags (nodes s n) AND VFS_DIRECTORY \<noteq> 0 \<and> vfinddir (nodes s n) \<noteq> No_fun then do {
             (res, s1) \<leftarrow> driver_finddir n name s;
             Some (res, if res \<noteq> 0 then mark_mount res name s1 else s1)
           } else Some (0, s)))"

definition vfs_mount :: "cstring \<Rightarrow> u32 \<Rightarrow> 'a system_scheme \<Rightarrow> 'a system_scheme option" where
  "vfs_mount path root s =
     (if length (mount_table s) \<ge> MAX_MOUNTS then Some s
      else if strlen path \<ge> 128 then None
      else
        let s1 = s\<lparr>mount_table := mount_table s @ [(cstr path, root)]\<rparr>
        in Some (say [10] (say path (say (lit ''[VFS] Basariyla mount edildi: '') s1))))"

section \<open>Paths\<close>

text \<open>
  The loop of \<open>vfs_get_node_by_path\<close> over the names of a path: what is left of the path after the
  next name, and the name. A name of 128 bytes or more overruns its buffer.
\<close>

definition path_name :: "cstring \<Rightarrow> cstring" where
  "path_name path = takeWhile (\<lambda>c. c \<noteq> 0x2F) (cstr path)"

definition path_rest :: "cstring \<Rightarrow> cstring" where
  "path_rest path = (let r = dropWhile (\<lambda>c. c \<noteq> 0x2F) (cstr path) in tl r)"

text \<open>
  The function calls itself for symbolic links, so its loops are the states of one recursive
  function: a call with base and path, the names that remain after a node, and the links that
  are followed from a node. A link of 128 bytes or more is not terminated in its buffer.
\<close>

datatype walk = Lookup u32 cstring | Names u32 cstring | Links u32 nat cstring

partial_function (option) path_walk ::
    "(nat \<Rightarrow> 'a system_scheme \<Rightarrow> 'a system_scheme) \<Rightarrow> walk \<Rightarrow> 'a system_scheme \<Rightarrow> (u32 \<times> 'a system_scheme) option" where
  "path_walk env w s =
     (case w of
        Lookup base path \<Rightarrow>
          (if rd8 path = 0x2F then do {
             (c, s1) \<leftarrow> vfs_clone_node (vfs_root s) s;
             path_walk env (Names c (tl path)) s1
           } else if base = 0 then Some (0, s)
           else do {
             (c, s1) \<leftarrow> vfs_clone_node base s;
             path_walk env (Names c path) s1
           })
      | Names current path \<Rightarrow>
          (if rd8 path = 0 then Some (current, s)
           else
             let name = path_name path
             in if length name \<ge> 128 then None
                else if name = [] \<or> name = [0x2E] then path_walk env (Names current (path_rest path)) s
                else if current = 0 then None
                else do {
                  (nn, s1) \<leftarrow> vfs_finddir current name s;
                  s2 \<leftarrow> vfs_close current s1;
                  if nn = 0 then Some (0, s2) else path_walk env (Links nn 0 (path_rest path)) s2
                })
      | Links nn count path \<Rightarrow>
          (if vflags (nodes s nn) AND VFS_SYMLINK \<noteq> 0 \<and> count < 8 then do {
             ((_, link), s1) \<leftarrow> vfs_read env nn 0 128 (replicate 128 0) s;
             (target, s2) \<leftarrow> (if 0 \<notin> set link then None
               else path_walk env (Lookup (if rd8 link = 0x2F then vfs_root s1 else 0) link) s1);
             s3 \<leftarrow> vfs_close nn s2;
             if target = 0 then Some (0, s3) else path_walk env (Links target (Suc count) path) s3
           } else path_walk env (Names nn path) s))"

text \<open>A null path is the null pointer, which the type of paths leaves out.\<close>

definition vfs_get_node_by_path ::
    "(nat \<Rightarrow> 'a system_scheme \<Rightarrow> 'a system_scheme) \<Rightarrow> u32 \<Rightarrow> cstring \<Rightarrow> 'a system_scheme \<Rightarrow> (u32 \<times> 'a system_scheme) option" where
  "vfs_get_node_by_path env base path s = path_walk env (Lookup base path) s"

end
