(* ===== verification/Vfs_Path.thy ===== *)
theory Vfs_Path
  imports Vfs
begin

text \<open>
  The lookup of a path on PAFS: it walks from directory to directory as \<open>pafs_find_entry\<close> says,
  always returns, and allocates the node it returns and nothing else, whatever was allocated on
  the way.
\<close>

section \<open>The names of a path\<close>

lemma cstr_length: "length (cstr p) \<le> length p"
  by (simp add: cstr_def length_takeWhile_le)

lemma path_rest_length: "rd8 p \<noteq> 0 \<Longrightarrow> length (path_rest p) < length p"
proof -
  assume nz: "rd8 p \<noteq> 0"
  then have ne: "cstr p \<noteq> []" using rd8_zero_iff by blast
  have "length (dropWhile (\<lambda>c. c \<noteq> 0x2F) (cstr p)) \<le> length (cstr p)" by (rule length_dropWhile_le)
  then have "length (path_rest p) < length (cstr p)" using ne by (simp add: path_rest_def Let_def) (cases "cstr p"; auto)
  then show ?thesis using cstr_length [of p] by linarith
qed

function path_names :: "cstring \<Rightarrow> cstring list" where
  "path_names path =
     (if rd8 path = 0 then []
      else if path_name path = [] \<or> path_name path = [0x2E] then path_names (path_rest path)
      else path_name path # path_names (path_rest path))"
  by pat_completeness auto

termination
  by (relation "measure length") (auto simp: path_rest_length)

declare path_names.simps [simp del]

text \<open>The same walk on directories and inode numbers.\<close>

fun pafs_resolve :: "pafs \<Rightarrow> u32 \<Rightarrow> cstring list \<Rightarrow> u32 option" where
  "pafs_resolve q i [] = Some i"
| "pafs_resolve q i (n # ns) =
     (let r = pafs_find_entry (unat i) n q in if r = -1 then None else pafs_resolve q (of_int r) ns)"

section \<open>Lookup in one directory\<close>

lemma find_entry_flags [simp]:
  "pafs_find_entry d n (q\<lparr>pafs.eflags := e\<rparr>) = pafs_find_entry d n q" "pafs_find_entry d n (q\<lparr>pafs_lock := l\<rparr>) = pafs_find_entry d n q"
  by (simp_all add: pafs_find_entry_def Let_def split: option.split)

lemma pafs_node_lock [simp]: "pafs_node r name (lock_pafs q) = pafs_node r name q" "pafs_node r name (q\<lparr>pafs.eflags := e\<rparr>) = pafs_node r name q"
  by (simp_all add: pafs_node_def lock_pafs_def spin_lock_def Let_def split: prod.split)

text \<open>A node that stands for an inode of PAFS; the node of a file has its size at the time of the lookup.\<close>

definition pafs_view :: "vfs_node \<Rightarrow> u32 \<Rightarrow> pafs \<Rightarrow> bool" where
  "pafs_view v ino q \<longleftrightarrow> vinode v = ino \<and> vfinddir v = Pafs_fun \<and> vclose v = Pafs_fun \<and> vimpl v = 0 \<and>
     vflags v = (if itype (inodes q ! unat ino) = PAFS_TYPE_DIR then VFS_DIRECTORY else VFS_FILE) \<and>
     (itype (inodes q ! unat ino) \<noteq> PAFS_TYPE_DIR \<longrightarrow>
        vread v = Pafs_fun \<and> vwrite v = Pafs_fun \<and> vlength v = isize (inodes q ! unat ino))"

text \<open>What a lookup may change: the heap, the nodes and the lock, which is open again, with the flags as before.\<close>

definition looked :: "'a system_scheme \<Rightarrow> 'a system_scheme \<Rightarrow> bool" where
  "looked s s' \<longleftrightarrow> (\<exists>h ns e l. s' = s\<lparr>heap := h, nodes := ns, fs := fs s\<lparr>pafs.eflags := e, pafs_lock := l\<rparr>\<rparr>)"

lemma looked_refl: "looked s s"
proof -
  have "s = s\<lparr>heap := heap s, nodes := nodes s, fs := fs s\<lparr>pafs.eflags := pafs.eflags (fs s), pafs_lock := pafs_lock (fs s)\<rparr>\<rparr>" by simp
  then show ?thesis unfolding looked_def by blast
qed

lemma looked_trans: "looked s t \<Longrightarrow> looked t u \<Longrightarrow> looked s u"
  unfolding looked_def by force

lemma looked_heap_nodes: "looked s (s\<lparr>heap := h, nodes := ns\<rparr>)"
proof -
  have "s\<lparr>heap := h, nodes := ns\<rparr> = s\<lparr>heap := h, nodes := ns, fs := fs s\<lparr>pafs.eflags := pafs.eflags (fs s), pafs_lock := pafs_lock (fs s)\<rparr>\<rparr>" by simp
  then show ?thesis unfolding looked_def by blast
qed

lemma looked_sel:
  assumes "looked s t"
  shows "vfs_root t = vfs_root s" "pafs_root_node t = pafs_root_node s" "mount_table t = mount_table s"
    "kernel.eflags t = kernel.eflags s" "inodes (fs t) = inodes (fs s)" "sb (fs t) = sb (fs s)"
    "pafs_find_entry d n (fs t) = pafs_find_entry d n (fs s)" "pafs_view v i (fs t) = pafs_view v i (fs s)"
    "pafs_resolve (fs t) i ns = pafs_resolve (fs s) i ns" "tasks t = tasks s" "current_task t = current_task s"
proof -
  obtain h ns' e l where t: "t = s\<lparr>heap := h, nodes := ns', fs := fs s\<lparr>pafs.eflags := e, pafs_lock := l\<rparr>\<rparr>"
    using assms by (auto simp: looked_def)
  show "vfs_root t = vfs_root s" "pafs_root_node t = pafs_root_node s" "mount_table t = mount_table s"
    "kernel.eflags t = kernel.eflags s" "inodes (fs t) = inodes (fs s)" "sb (fs t) = sb (fs s)"
    "tasks t = tasks s" "current_task t = current_task s"
    by (simp_all add: t)
  show "pafs_find_entry d n (fs t) = pafs_find_entry d n (fs s)" by (simp add: t)
  show "pafs_view v i (fs t) = pafs_view v i (fs s)" by (simp add: t pafs_view_def)
  show "pafs_resolve (fs t) i ns = pafs_resolve (fs s) i ns"
    by (induction ns arbitrary: i) (simp_all add: t Let_def)
qed

text \<open>Room for nodes: one can be allocated also while another one is in use.\<close>

definition node_room :: "u32 \<Rightarrow> (u32 \<times> nat) set \<Rightarrow> bool" where
  "node_room base L \<longleftrightarrow> (\<forall>h X h'. kheap_ok base h \<longrightarrow> kheap_live base h = L \<union> X \<longrightarrow>
     (X = {} \<or> (\<exists>p c. X = {(p, c)} \<and> c \<le> 207)) \<longrightarrow> kmalloc sizeof_vfs_node h \<noteq> Some (0, h'))"

lemma node_alloc:
  assumes ok: "kheap_ok base (heap s)" and L: "kheap_live base (heap s) = L \<union> X" "X = {} \<or> (\<exists>p c. X = {(p, c)} \<and> c \<le> 207)"
    and room: "node_room base L"
  obtains p c h where "kmalloc sizeof_vfs_node (heap s) = Some (p, h)" "p \<noteq> 0" "kheap_ok base h"
    "kheap_live base h = insert (p, c) (kheap_live base (heap s))" "p \<notin> fst ` kheap_live base (heap s)" "c \<le> 207"
proof -
  obtain xs where inv: "heap_inv base (heap s) xs" using ok by (auto simp: kheap_ok_def)
  have sz: "sizeof_vfs_node \<noteq> 0" "unat sizeof_vfs_node \<le> 4294967276" by (simp_all add: sizeof_vfs_node_def)
  obtain p h where m: "kmalloc sizeof_vfs_node (heap s) = Some (p, h)" "kheap_ok base h"
      "p = 0 \<and> h = heap s \<or> p \<noteq> 0 \<and> (\<exists>c. unat sizeof_vfs_node \<le> c \<and> c \<le> unat sizeof_vfs_node + 23 \<and>
         kheap_live base h = insert (p, c) (kheap_live base (heap s)) \<and> p \<notin> fst ` kheap_live base (heap s))"
    using kmalloc_live_bound [OF inv sz] by blast
  have "p \<noteq> 0" using m(1) room L ok unfolding node_room_def by blast
  then show ?thesis using m that by (auto simp: sizeof_vfs_node_def)
qed

lemma deref_kmalloc: "kmalloc n (heap s) = Some (p, h) \<Longrightarrow> p \<noteq> 0 \<Longrightarrow> kalloc_deref n s = Some (p, s\<lparr>heap := h\<rparr>)"
  by (simp add: kalloc_deref_def kalloc_def)

lemma finddir_none:
  assumes "pafs_find_entry (unat (vinode (nodes s n))) name (fs s) = -1"
  obtains t where "pafs_vfs_finddir n name s = Some (0, t)" "looked s t" "heap t = heap s" "nodes t = nodes s"
proof -
  obtain e' l' where q: "unlock_pafs (lock_pafs (fs s\<lparr>pafs.eflags := kernel.eflags s\<rparr>)) = fs s\<lparr>pafs.eflags := e', pafs_lock := l'\<rparr>"
      "e' = kernel.eflags s"
    by (simp add: lock_pafs_def unlock_pafs_def spin_defs Let_def)
  let ?t = "s\<lparr>fs := fs s\<lparr>pafs.eflags := e', pafs_lock := l'\<rparr>\<rparr>"
  have "pafs_vfs_finddir n name s = Some (0, ?t)"
    using assms q by (simp add: pafs_vfs_finddir_def on_fs_def Let_def)
  moreover have "looked s ?t"
  proof -
    have "?t = s\<lparr>heap := heap s, nodes := nodes s, fs := fs s\<lparr>pafs.eflags := e', pafs_lock := l'\<rparr>\<rparr>" by simp
    then show ?thesis unfolding looked_def by blast
  qed
  ultimately show ?thesis using that by simp
qed

lemma finddir_some:
  assumes "pafs_find_entry (unat (vinode (nodes s n))) name (fs s) = r" and "r \<noteq> -1"
    and "kmalloc sizeof_vfs_node (heap s) = Some (p, h)" and "p \<noteq> 0"
  obtains t where "pafs_vfs_finddir n name s = Some (p, t)" "looked s t" "heap t = h"
    "nodes t = (nodes s)(p := pafs_node r name (fs s))"
proof -
  obtain e' l' where q: "unlock_pafs (lock_pafs (fs s\<lparr>pafs.eflags := kernel.eflags s\<rparr>)) = fs s\<lparr>pafs.eflags := e', pafs_lock := l'\<rparr>"
      "e' = kernel.eflags s"
    by (simp add: lock_pafs_def unlock_pafs_def spin_defs Let_def)
  let ?t = "s\<lparr>heap := h, nodes := (nodes s)(p := pafs_node r name (fs s)), fs := fs s\<lparr>pafs.eflags := e', pafs_lock := l'\<rparr>\<rparr>"
  have "pafs_vfs_finddir n name s = Some (p, ?t)"
    using assms q by (simp add: pafs_vfs_finddir_def on_fs_def Let_def kalloc_deref_def kalloc_def upd_node_def)
  then show ?thesis using that [of ?t] by (auto simp: looked_def)
qed

section \<open>The walk\<close>

lemma find_entry_range: "pafs_find_entry d n q < 2147483648"
proof -
  have "sint (w :: u32) < 2147483648" for w using sint_lt [of w] by simp
  then show ?thesis by (simp add: pafs_find_entry_def Let_def split: option.split prod.split)
qed

lemma path_name_nz: "cstr (path_name p) = path_name p"
  by (rule cstr_id) (auto simp: path_name_def cstr_nz dest: set_takeWhileD)

text \<open>Every directory is well formed; then entries refer to inodes of the table.\<close>

definition tree_ok :: "pafs \<Rightarrow> bool" where
  "tree_ok q \<longleftrightarrow> (\<forall>d < 128. itype (inodes q ! d) = PAFS_TYPE_DIR \<longrightarrow> dir_ok q d)"

lemma tree_entry:
  assumes "tree_ok q" and "d < 128" and "pafs_find_entry d n q \<noteq> -1"
  shows "0 \<le> pafs_find_entry d n q" "pafs_find_entry d n q < 128"
proof -
  have "itype (inodes q ! d) = PAFS_TYPE_DIR" using assms(3) by (auto simp: pafs_find_entry_def Let_def split: if_splits)
  then have ok: "dir_ok q d" using assms(1,2) by (simp add: tree_ok_def)
  obtain k j where f: "found_at q d n k j" using find_entry_none_iff [OF ok] assms(3) by blast
  have "(k, j) \<in> used_entries q d" using entry_pos [OF ok f] f by (auto simp: used_entries_def found_at_def filled_def)
  then have "unat (entry_inode (dir_block q d k) j) < 128" using ok by (auto simp: dir_ok_def)
  then show "0 \<le> pafs_find_entry d n q" "pafs_find_entry d n q < 128"
    using find_entry_found(1) [OF ok f] by (simp_all add: sint_small nat_less_iff flip: nat_uint_eq)
qed

lemma view_flags:
  assumes "pafs_view v ino q"
  shows "vflags v AND VFS_MOUNTPOINT = 0" "vflags v AND VFS_SYMLINK = 0"
    "vflags v AND VFS_DIRECTORY \<noteq> 0 \<longleftrightarrow> itype (inodes q ! unat ino) = PAFS_TYPE_DIR"
  using assms by (simp_all add: pafs_view_def vfs_consts)

lemma pafs_node_view:
  assumes "0 \<le> r" and "r < 2147483648"
  shows "pafs_view (pafs_node r name q) (of_int r) q"
proof -
  have "unat (of_int r :: u32) = nat r" using assms by (simp add: unat_eq_nat_uint uint_word_of_int_eq take_bit_int_eq_self)
  then show ?thesis by (simp add: pafs_view_def pafs_node_def zero_node_def Let_def)
qed

lemma close_node:
  assumes "kheap_ok base (heap s)" and "kheap_live base (heap s) = insert (n, c) M" and "n \<notin> fst ` M"
    and "pafs_view (nodes s n) i (fs s)" and "n \<noteq> 0" and "n \<noteq> pafs_root_node s"
  obtains h where "vfs_close n s = Some (s\<lparr>heap := h\<rparr>)" "kheap_ok base h" "kheap_live base h = M"
proof -
  have "vfs_close n s = Some (s\<lparr>heap := kfree n (heap s)\<rparr>)"
    using assms(4-6) by (simp add: vfs_close_def pafs_view_def pafs_vfs_close_def krelease_def)
  moreover have "(n, c) \<notin> M" using assms(3) by force
  moreover have "kheap_ok base (kfree n (heap s)) \<and> kheap_live base (kfree n (heap s)) = kheap_live base (heap s) - {(n, c)}"
    using kh.release_ok [OF assms(1), of n c] assms(2) by simp
  ultimately show ?thesis using that assms(2) by simp
qed

lemma finddir_view:
  fixes s :: "'a system_scheme"
  assumes "pafs_view (nodes s n) ino (fs s)" and "cstr name = name" and "name \<noteq> lit ''mnt''"
  shows "vfs_finddir n name s =
    (if itype (inodes (fs s) ! unat ino) = PAFS_TYPE_DIR then pafs_vfs_finddir n name s else Some (0, s))"
proof -
  have m: "mark_mount r name t = t" for r and t :: "'a system_scheme"
    using assms(2,3) by (simp add: mark_mount_def strcmp_eq_0) (simp add: lit_def cstr_def)
  have "mounted_at n s = None" using view_flags [OF assms(1)] by (simp add: mounted_at_def)
  then show ?thesis
    using assms(1) view_flags(3) [OF assms(1)]
    by (subst vfs_finddir.simps) (cases "pafs_vfs_finddir n name s"; simp add: pafs_view_def driver_finddir_def m split: prod.split)
qed

lemma looked_tree: "looked s t \<Longrightarrow> tree_ok (fs t) = tree_ok (fs s)"
  by (auto simp: looked_def tree_ok_def dir_ok_def used_entries_def dir_block_def)

text \<open>What the lookup of names from a directory yields, with nothing else left on the heap.\<close>

definition lookup_result :: "u32 \<Rightarrow> (u32 \<times> nat) set \<Rightarrow> u32 option \<Rightarrow> u32 \<Rightarrow> 'a system_scheme \<Rightarrow> bool" where
  "lookup_result base L i r t \<longleftrightarrow> kheap_ok base (heap t) \<and>
     (case i of
        None \<Rightarrow> r = 0 \<and> kheap_live base (heap t) = L
      | Some i \<Rightarrow> r \<noteq> 0 \<and> r \<notin> fst ` L \<and> (\<exists>c \<le> 207. kheap_live base (heap t) = insert (r, c) L) \<and>
          pafs_view (nodes t r) i (fs t))"

lemma names_walk:
  assumes "kheap_ok base (heap s)" and "kheap_live base (heap s) = insert (cur, c) L" and "cur \<notin> fst ` L" and "c \<le> 207"
    and "cur \<noteq> 0" and "pafs_view (nodes s cur) ino (fs s)" and "pafs_root_node s \<in> fst ` L"
    and room: "node_room base L" and "tree_ok (fs s)" and "unat ino < 128"
    and "\<forall>n \<in> set (path_names path). length n < 128 \<and> n \<noteq> lit ''mnt''"
  shows "\<exists>r t. path_walk env (Names cur path) s = Some (r, t) \<and> looked s t \<and>
    lookup_result base L (pafs_resolve (fs s) ino (path_names path)) r t \<and> (\<forall>n \<in> fst ` L. nodes t n = nodes s n)"
  using assms(1-7,9-11)
proof (induction path arbitrary: s cur c ino rule: path_names.induct)
  case (1 path)
  note IHskip = "1.IH"(1) and IHname = "1.IH"(2)
  show ?case
  proof (cases "rd8 path = 0")
    case True
    have "path_walk env (Names cur path) s = Some (cur, s)" using True by (subst path_walk.simps) simp
    then show ?thesis using 1(3-8) looked_refl True
      by (auto simp: lookup_result_def path_names.simps [of path])
  next
    case nz: False
    let ?name = "path_name path" and ?rest = "path_rest path"
    show ?thesis
    proof (cases "?name = [] \<or> ?name = [0x2E]")
      case True
      have "path_walk env (Names cur path) s = path_walk env (Names cur ?rest) s"
        using True nz by (subst path_walk.simps) auto
      moreover have "path_names path = path_names ?rest" using True nz by (simp add: path_names.simps [of path])
      ultimately show ?thesis using IHskip [OF nz True 1(3-11)] 1(12) by simp
    next
      case False
      have names: "path_names path = ?name # path_names ?rest" using False nz by (simp add: path_names.simps [of path])
      then have nm: "length ?name < 128" "?name \<noteq> lit ''mnt''"
          "\<forall>n \<in> set (path_names ?rest). length n < 128 \<and> n \<noteq> lit ''mnt''" using 1(12) by simp_all
      define e where "e = pafs_find_entry (unat ino) ?name (fs s)"
      have ne_root: "cur \<noteq> pafs_root_node s" using 1(5,9) by blast
      have step: "path_walk env (Names cur path) s =
          vfs_finddir cur ?name s \<bind> (\<lambda>(nn, s1). vfs_close cur s1 \<bind>
            (\<lambda>s2. if nn = 0 then Some (0, s2) else path_walk env (Links nn 0 ?rest) s2))"
        using False nz nm(1) 1(7) by (subst path_walk.simps) (simp add: Let_def)
      note fd = finddir_view [OF 1(8) path_name_nz nm(2)]
      have vi: "vinode (nodes s cur) = ino" using 1(8) by (simp add: pafs_view_def)
      show ?thesis
      proof (cases "e = -1")
        case True
        obtain t where t: "vfs_finddir cur ?name s = Some (0, t)" "looked s t" "heap t = heap s" "nodes t = nodes s"
        proof (cases "itype (inodes (fs s) ! unat ino) = PAFS_TYPE_DIR")
          case dir: True
          from finddir_none [of s cur ?name] True vi that dir fd show ?thesis unfolding e_def by metis
        next
          case False
          then show ?thesis using that [of s] fd looked_refl [of s] by simp
        qed
        note l = looked_sel [OF t(2)]
        obtain h where h: "vfs_close cur t = Some (t\<lparr>heap := h\<rparr>)" "kheap_ok base h" "kheap_live base h = L"
          by (rule close_node [of base t cur c L ino]) (use 1(3-9) t l ne_root in \<open>auto\<close>)
        have "path_walk env (Names cur path) s = Some (0, t\<lparr>heap := h\<rparr>)" using step t(1) h(1) by simp
        moreover have "looked s (t\<lparr>heap := h\<rparr>)" using looked_trans [OF t(2)] looked_heap_nodes [where s = t and h = h and ns = "nodes t"] by simp
        moreover have "pafs_resolve (fs s) ino (path_names path) = None" using True by (simp add: names e_def)
        ultimately show ?thesis using h(2,3) t(4) by (auto simp: lookup_result_def)
      next
        case found: False
        have dir: "itype (inodes (fs s) ! unat ino) = PAFS_TYPE_DIR"
          using found by (auto simp: e_def pafs_find_entry_def Let_def split: if_splits)
        have e0: "0 \<le> e" "e < 2147483648" and e1: "e < 128"
          using tree_entry [OF 1(10,11)] found unfolding e_def by force+
        obtain p d h where al: "kmalloc sizeof_vfs_node (heap s) = Some (p, h)" "p \<noteq> 0" "kheap_ok base h"
            "kheap_live base h = insert (p, d) (kheap_live base (heap s))" "p \<notin> fst ` kheap_live base (heap s)" "d \<le> 207"
          by (rule node_alloc [of base s L "{(cur, c)}"]) (use 1(3,4,6) room in auto)
        obtain t where t: "pafs_vfs_finddir cur ?name s = Some (p, t)" "looked s t" "heap t = h"
            "nodes t = (nodes s)(p := pafs_node e ?name (fs s))"
          by (rule finddir_some [of s cur ?name e p h]) (use found al vi in \<open>auto simp: e_def\<close>)
        note l = looked_sel [OF t(2)]
        have pc: "p \<noteq> cur" "p \<notin> fst ` L" using al(5) 1(4) by auto
        obtain h' where h': "vfs_close cur t = Some (t\<lparr>heap := h'\<rparr>)" "kheap_ok base h'" "kheap_live base h' = insert (p, d) L"
          by (rule close_node [of base t cur c "insert (p, d) L" ino])
             (use 1(3-9) t l al pc ne_root in \<open>auto simp: insert_commute\<close>)
        let ?u = "t\<lparr>heap := h'\<rparr>"
        have su: "looked s ?u" using looked_trans [OF t(2)] looked_heap_nodes [where s = t and h = h' and ns = "nodes t"] by simp
        note lu = looked_sel [OF su]
        have pv: "pafs_view (nodes ?u p) (of_int e) (fs ?u)"
          using pafs_node_view [OF e0, of ?name "fs s"] t(4) lu(8) by simp
        have "path_walk env (Names cur path) s = path_walk env (Links p 0 ?rest) ?u"
          using step fd dir t(1) h'(1) al(2) by simp
        also have "\<dots> = path_walk env (Names p ?rest) ?u"
          using view_flags(2) [OF pv] by (subst path_walk.simps) simp
        finally have w: "path_walk env (Names cur path) s = path_walk env (Names p ?rest) ?u" .
        have "unat (of_int e :: u32) < 128"
          using e0 e1 by (simp add: unat_eq_nat_uint uint_word_of_int_eq take_bit_int_eq_self)
        moreover have "tree_ok (fs ?u)" using 1(10) looked_tree [OF su] by simp
        moreover have "pafs_root_node ?u \<in> fst ` L" using 1(9) lu(2) by simp
        ultimately obtain r v where "path_walk env (Names p ?rest) ?u = Some (r, v)" "looked ?u v"
            "lookup_result base L (pafs_resolve (fs ?u) (of_int e) (path_names ?rest)) r v" "\<forall>n \<in> fst ` L. nodes v n = nodes ?u n"
          using IHname [OF nz False, of ?u p d "of_int e"] h' al(2,6) pc pv nm(3) by auto
        moreover have "pafs_resolve (fs s) ino (path_names path) = pafs_resolve (fs ?u) (of_int e) (path_names ?rest)"
          using found lu(9) by (simp add: names e_def [symmetric])
        moreover have "\<forall>n \<in> fst ` L. nodes ?u n = nodes s n" using t(4) pc by auto
        ultimately show ?thesis using w looked_trans [OF su] by auto
      qed
    qed
  qed
qed

definition path_start :: "u32 \<Rightarrow> cstring \<Rightarrow> 'a system_scheme \<Rightarrow> u32 \<times> cstring" where
  "path_start from path s = (if rd8 path = 0x2F then (vfs_root s, tl path) else (from, path))"

lemma path_lookup:
  assumes ok: "kheap_ok base (heap s)" and room: "node_room base (kheap_live base (heap s))" and tree: "tree_ok (fs s)"
    and start: "path_start from path s = (b, p)" "b \<noteq> 0" "pafs_view (nodes s b) ino (fs s)" "unat ino < 128"
    and root: "pafs_root_node s \<in> fst ` kheap_live base (heap s)"
    and names: "\<forall>n \<in> set (path_names p). length n < 128 \<and> n \<noteq> lit ''mnt''"
  shows "\<exists>r t. vfs_get_node_by_path env from path s = Some (r, t) \<and> looked s t \<and>
    lookup_result base (kheap_live base (heap s)) (pafs_resolve (fs s) ino (path_names p)) r t \<and>
    (\<forall>n \<in> fst ` kheap_live base (heap s). nodes t n = nodes s n)"
proof -
  let ?L = "kheap_live base (heap s)"
  obtain c d h where al: "kmalloc sizeof_vfs_node (heap s) = Some (c, h)" "c \<noteq> 0" "kheap_ok base h"
      "kheap_live base h = insert (c, d) ?L" "c \<notin> fst ` ?L" "d \<le> 207"
    by (rule node_alloc [of base s ?L "{}"]) (use ok room in auto)
  let ?u = "s\<lparr>heap := h, nodes := (nodes s)(c := nodes s b)\<rparr>"
  have clone: "vfs_clone_node b s = Some (c, ?u)"
    using al(1,2) start(2) by (simp add: vfs_clone_node_def kalloc_deref_def kalloc_def upd_node_def)
  have "vfs_get_node_by_path env from path s = path_walk env (Names c p) ?u"
    unfolding vfs_get_node_by_path_def using start(1,2) clone
    by (subst path_walk.simps) (auto simp: path_start_def split: if_splits)
  moreover obtain r t where t: "path_walk env (Names c p) ?u = Some (r, t)" "looked ?u t"
      "lookup_result base ?L (pafs_resolve (fs ?u) ino (path_names p)) r t" "\<forall>n \<in> fst ` ?L. nodes t n = nodes ?u n"
    using names_walk [of base ?u c d ?L ino p env] al room root tree start(3,4) names by auto
  moreover have "\<forall>n \<in> fst ` ?L. nodes ?u n = nodes s n" using al(5) by auto
  moreover have "looked s t" using looked_trans [OF _ t(2)] looked_heap_nodes [where s = s and h = h and ns = "(nodes s)(c := nodes s b)"] by simp
  ultimately show ?thesis by auto
qed

text \<open>
  C11: looking up a path, absolute or relative to a directory, whose names are all shorter than 128 bytes and none of which is \<open>mnt\<close> (the
  second disk), in an intact directory tree and heap with room for one more node at every step, returns and follows the
  names through the directories of PAFS, without empty names and single dots. If a name does
  not exist or stands for a file before the last name, the result is the null pointer and the heap has exactly the
  live buffers it had before; otherwise it is a new node for the inode found, and that node is the only new
  buffer: the intermediate nodes have been released. No other node and nothing of the file
  system changes, and the interrupt flag is what it was. (A name of 128 bytes or more runs over the array \<open>name\<close> of the
  lookup, which the model reports as None.)
\<close>

theorem vfs_path_lookup:
  assumes "kheap_ok base (heap s)" and "node_room base (kheap_live base (heap s))" and "tree_ok (fs s)"
    and "path_start from path s = (b, p)" and "b \<noteq> 0" and "pafs_view (nodes s b) ino (fs s)" and "unat ino < 128"
    and "pafs_root_node s \<in> fst ` kheap_live base (heap s)"
    and "\<forall>n \<in> set (path_names p). length n < 128 \<and> n \<noteq> lit ''mnt''"
  shows "\<exists>r t. vfs_get_node_by_path env from path s = Some (r, t) \<and> looked s t \<and>
    lookup_result base (kheap_live base (heap s)) (pafs_resolve (fs s) ino (path_names p)) r t \<and>
    (\<forall>n \<in> fst ` kheap_live base (heap s). nodes t n = nodes s n)"
  using assms by (rule path_lookup)

section \<open>Instances\<close>

lemma node_room_small:
  assumes "finite L" and "card L < 1000" and "\<forall>(p, c) \<in> L. c \<le> 2000"
  shows "node_room base L"
  unfolding node_room_def
proof (intro allI impI)
  fix h X h'
  assume ok: "kheap_ok base h" and l: "kheap_live base h = L \<union> X" and x: "X = {} \<or> (\<exists>p c. X = {(p, c)} \<and> c \<le> 207)"
  have "card X \<le> 1" "finite X" using x by auto
  then have "card (L \<union> X) \<le> 1000" using card_Un_le [of L X] assms(2) by linarith
  moreover have "\<forall>(p, c) \<in> L \<union> X. c \<le> 2000" using assms(3) x by fastforce
  ultimately show "kmalloc sizeof_vfs_node h \<noteq> Some (0, h')"
    using sparse_heap_room [OF ok] unfolding l by (simp add: sizeof_vfs_node_def)
qed

definition demo_console :: console where
  "demo_console = vbe.extend demo_screen (console.fields 0 0 (\<lambda>_. 0))"

definition demo_system :: "pafs \<Rightarrow> system" where
  "demo_system q = tcpip.extend (demo_host\<lparr>heap := heap_demo\<rparr>)
     (system.fields q demo_console (\<lambda>_. \<lparr>d_name = [], d_ino = 0\<rparr>)
       (\<lambda>_. \<lparr>e_dev = 0, e_sb = [], block_size = 0, groups_count = 0, bgdt = []\<rparr>) 0 0 [] (\<lambda>_. 0))"

lemma demo_system_sel:
  "heap (demo_system q) = heap_demo" "fs (demo_system q) = q" "pafs_root_node (demo_system q) = 0"
  "mount_table (demo_system q) = []"
  by (simp_all add: demo_system_def system.defs tcpip.defs)

text \<open>The system after \<open>vfs_root = pafs_get_vfs_root()\<close>.\<close>

lemma demo_root:
  assumes "itype (inodes q ! unat (root_inode (sb q))) = PAFS_TYPE_DIR"
  obtains p s c where "pafs_get_vfs_root (demo_system q) = Some (p, s)" "p \<noteq> 0" "fs s = q" "pafs_root_node s = p"
    "kheap_ok 0xC0400000 (heap s)" "kheap_live 0xC0400000 (heap s) = {(p, c)}" "c \<le> 207"
    "pafs_view (nodes s p) (root_inode (sb q)) q" "mount_table s = []"
proof -
  let ?s = "demo_system q"
  obtain p c h where al: "kmalloc sizeof_vfs_node (heap ?s) = Some (p, h)" "p \<noteq> 0" "kheap_ok 0xC0400000 h"
      "kheap_live 0xC0400000 h = insert (p, c) (kheap_live 0xC0400000 (heap ?s))" "c \<le> 207"
    by (rule node_alloc [of "0xC0400000" ?s "{}" "{}"])
       (use heap_demo_room node_room_small [of "{}"] in \<open>auto simp: demo_system_sel\<close>)
  let ?n = "zero_node\<lparr>vname := [0x2F], vinode := root_inode (sb q), vflags := VFS_DIRECTORY,
      vlength := isize (inodes q ! unat (root_inode (sb q))), vreaddir := Pafs_fun, vfinddir := Pafs_fun, vclose := Pafs_fun\<rparr>"
  let ?t = "upd_node p (\<lambda>_. ?n) (?s\<lparr>heap := h, pafs_root_node := p\<rparr>)"
  have "pafs_get_vfs_root ?s = Some (p, ?t)"
    using al(1,2) by (simp add: pafs_get_vfs_root_def demo_system_sel kalloc_deref_def kalloc_def Let_def)
  then show ?thesis
    using that [of p ?t c] al assms heap_demo_room(2)
    by (simp add: upd_node_def demo_system_sel pafs_view_def zero_node_def)
qed

lemma two_names_tree: "tree_ok two_names" "root_inode (sb two_names) = 0"
proof -
  have "itype (inodes two_names ! d) = 0" if "0 < d" "d < 128" for d
    using that raw_lengths by (simp add: two_names_def upd_inode_nth format_spec [OF raw_lengths(1-3)] put_slot_def blank_inode_def)
  then have "d = 0" if "d < 128" "itype (inodes two_names ! d) = PAFS_TYPE_DIR" for d
    using that by (cases "d = 0") (auto simp: PAFS_TYPE_DIR_def)
  then show "tree_ok two_names" using two_names_dir(2) by (auto simp: tree_ok_def)
  show "root_inode (sb two_names) = 0" by (simp add: two_names_def format_spec [OF raw_lengths(1-3)])
qed

theorem vfs_path_lookup_witness:
  "\<exists>p s r t. pafs_get_vfs_root (demo_system two_names) = Some (p, s) \<and>
     vfs_get_node_by_path (\<lambda>_ s. s) p [0x2E, 0x2F, 0x61] s = Some (r, t) \<and> r \<noteq> 0 \<and> vinode (nodes t r) = 1"
proof -
  have d: "itype (inodes two_names ! unat (root_inode (sb two_names))) = PAFS_TYPE_DIR"
    using two_names_dir(2) by (simp add: two_names_tree dir_ok_def)
  obtain p s c where s: "pafs_get_vfs_root (demo_system two_names) = Some (p, s)" "p \<noteq> 0" "fs s = two_names" "pafs_root_node s = p"
      "kheap_ok 0xC0400000 (heap s)" "kheap_live 0xC0400000 (heap s) = {(p, c)}" "c \<le> 207"
      "pafs_view (nodes s p) (root_inode (sb two_names)) two_names"
    using demo_root [OF d] by metis
  have names: "path_names [0x2E, 0x2F, 0x61] = [[0x61]]"
    by (simp add: path_names.simps path_name_def path_rest_def cstr_def)
  have f: "pafs_find_entry 0 [0x61] two_names = 1"
    using find_entry_found(1) [OF two_names_dir(2,3)] two_names_entry by (simp add: sint_small)
  have room: "node_room 0xC0400000 (kheap_live 0xC0400000 (heap s))" using s(6,7) by (auto intro: node_room_small)
  have "\<exists>r t. vfs_get_node_by_path (\<lambda>_ s. s) p [0x2E, 0x2F, 0x61] s = Some (r, t) \<and> looked s t \<and>
      lookup_result 0xC0400000 (kheap_live 0xC0400000 (heap s)) (pafs_resolve (fs s) 0 (path_names [0x2E, 0x2F, 0x61])) r t \<and>
      (\<forall>n \<in> fst ` kheap_live 0xC0400000 (heap s). nodes t n = nodes s n)"
    by (rule vfs_path_lookup [OF s(5) room]) (use s two_names_tree in \<open>auto simp: names path_start_def lit_def\<close>)
  then show ?thesis using s(1) f by (auto simp: names lookup_result_def pafs_view_def s(3))
qed

end
