(* ===== verification/Pmm.thy ===== *)
theory Pmm
  imports Bitmap
begin

text \<open>
  The physical memory manager, \<open>kernel/mm/pmm.c\<close>: one bit per 4 KB frame of physical
  memory (1 = in use), the counters beside it, and its operations. The bitmap array is a
  function from the byte index; every index the operations use is below the array's
  131072 bytes, because \<open>init_pmm\<close> clips \<open>total_frames\<close> to \<open>MAX_FRAMES\<close>, which
  the invariant \<open>pmm_inv\<close> carries. Linker symbols and the memory the boot loader's
  table is read from are arguments.
\<close>

section \<open>State\<close>

definition FRAME_SIZE :: u32 where "FRAME_SIZE = 4096"

definition MAX_FRAMES :: nat where "MAX_FRAMES = 1048576"

record pmm =
  frame_bitmap :: "nat \<Rightarrow> u8"
  total_frames :: u32
  used_frames_count :: u32
  total_memory_kb :: u32

text \<open>The fields of the multiboot structures that the kernel reads.\<close>

record multiboot_info =
  mb_flags :: u32
  mb_mem_lower :: u32
  mb_mem_upper :: u32
  mb_mmap_length :: u32
  mb_mmap_addr :: u32

record multiboot_mmap_entry =
  me_size :: u32
  me_base_addr_low :: u32
  me_base_addr_high :: u32
  me_length_low :: u32
  me_length_high :: u32
  me_type :: u32

section \<open>Bitmap operations\<close>

definition bitmap_set :: "nat \<Rightarrow> (nat \<Rightarrow> u8) \<Rightarrow> (nat \<Rightarrow> u8)" where
  "bitmap_set frame bm = bm(frame div 8 := bm (frame div 8) OR push_bit (frame mod 8) 1)"

definition bitmap_clear :: "nat \<Rightarrow> (nat \<Rightarrow> u8) \<Rightarrow> (nat \<Rightarrow> u8)" where
  "bitmap_clear frame bm = bm(frame div 8 := bm (frame div 8) AND NOT (push_bit (frame mod 8) 1))"

definition bitmap_test :: "(nat \<Rightarrow> u8) \<Rightarrow> nat \<Rightarrow> bool" where
  "bitmap_test bm frame \<longleftrightarrow> drop_bit (frame mod 8) (bm (frame div 8)) AND 1 \<noteq> 0"

lemma bitmap_test_bit: "bitmap_test bm f \<longleftrightarrow> bit (bm (f div 8)) (f mod 8)"
  by (simp add: bitmap_test_def and_1_neq_0 bit_drop_bit_eq)

interpretation fb: bitmap bitmap_set bitmap_clear bitmap_test "\<lambda>_. MAX_FRAMES"
proof
  fix i j :: nat and m :: "nat \<Rightarrow> u8"
  show "bitmap_test (bitmap_set i m) j \<longleftrightarrow> j = i \<or> bitmap_test m j"
    using div_mod_8_eq [of j i]
    by (auto simp: bitmap_test_bit bitmap_set_def bit_or_push)
  show "bitmap_test (bitmap_clear i m) j \<longleftrightarrow> j \<noteq> i \<and> bitmap_test m j"
    using div_mod_8_eq [of j i]
    by (auto simp: bitmap_test_bit bitmap_clear_def bit_and_not_push)
qed simp_all

section \<open>Initialisation\<close>

definition mmap_entry_clear :: "u32 \<Rightarrow> multiboot_mmap_entry \<Rightarrow> (nat \<Rightarrow> u8) \<Rightarrow> (nat \<Rightarrow> u8)" where
  "mmap_entry_clear tot e bm =
     (if me_type e = 1 \<and> me_base_addr_high e = 0 then
        let base = me_base_addr_low e;
            len = me_length_low e;
            frame_start = (base + FRAME_SIZE - 1) div FRAME_SIZE;
            frame_end = (base + len) div FRAME_SIZE
        in for_range (unat frame_start) (min (unat frame_end) (unat tot)) bitmap_clear bm
      else bm)"

partial_function (option) mmap_loop ::
  "(u32 \<Rightarrow> multiboot_mmap_entry) \<Rightarrow> u32 \<Rightarrow> u32 \<Rightarrow> u32 \<Rightarrow> (nat \<Rightarrow> u8) \<Rightarrow> (nat \<Rightarrow> u8) option" where
  "mmap_loop rd_entry tot end_addr addr bm =
     (if addr < end_addr then
        mmap_loop rd_entry tot end_addr (addr + (me_size (rd_entry addr) + 4))
          (mmap_entry_clear tot (rd_entry addr) bm)
      else Some bm)"

definition fallback_clear :: "u32 \<Rightarrow> u32 \<Rightarrow> (nat \<Rightarrow> u8) \<Rightarrow> (nat \<Rightarrow> u8)" where
  "fallback_clear tot mem_upper bm =
     (let upper_frames = mem_upper div 4;
          start_frame = 0x100000 div FRAME_SIZE
      in for_range (unat start_frame) (min (unat (start_frame + upper_frames)) (unat tot))
           bitmap_clear bm)"

definition reserve_kernel :: "u32 \<Rightarrow> u32 \<Rightarrow> u32 \<Rightarrow> (nat \<Rightarrow> u8) \<Rightarrow> (nat \<Rightarrow> u8)" where
  "reserve_kernel kernel_start kernel_end tot bm =
     (let kernel_start_addr = kernel_start - 0xC0000000;
          kernel_end_addr = kernel_end - 0xC0000000;
          ks_frame = kernel_start_addr div FRAME_SIZE;
          ke_frame = (kernel_end_addr + FRAME_SIZE - 1) div FRAME_SIZE
      in for_range (unat ks_frame) (min (unat ke_frame) (unat tot)) bitmap_set bm)"

definition count_used :: "u32 \<Rightarrow> (nat \<Rightarrow> u8) \<Rightarrow> u32" where
  "count_used tot bm =
     for_range 0 (unat tot) (\<lambda>f n. if bitmap_test bm f then n + 1 else n) 0"

definition init_pmm ::
  "(u32 \<Rightarrow> multiboot_mmap_entry) \<Rightarrow> u32 \<Rightarrow> u32 \<Rightarrow> multiboot_info \<Rightarrow> pmm \<Rightarrow> pmm option" where
  "init_pmm rd_entry kernel_start kernel_end mbi p =
     (let bm0 = for_range 0 (MAX_FRAMES div 8) (\<lambda>i bm. bm(i := 0xFF)) (frame_bitmap p);
          kb = (if mb_flags mbi AND push_bit 0 1 \<noteq> 0
                then mb_mem_lower mbi + mb_mem_upper mbi + 1024 else total_memory_kb p);
          total0 = kb div 4;
          tot = (if total0 > of_nat MAX_FRAMES then of_nat MAX_FRAMES else total0)
      in do {
        bm1 \<leftarrow> (if mb_flags mbi AND push_bit 6 1 \<noteq> 0 then
                 let addr = mb_mmap_addr mbi + 0xC0000000
                 in mmap_loop rd_entry tot (addr + mb_mmap_length mbi) addr bm0
               else Some (fallback_clear tot (mb_mem_upper mbi) bm0));
        let bm2 = for_range 0 256 bitmap_set bm1;
        let bm3 = reserve_kernel kernel_start kernel_end tot bm2;
        Some \<lparr>frame_bitmap = bm3, total_frames = tot,
              used_frames_count = count_used tot bm3, total_memory_kb = kb\<rparr>
      })"

section \<open>Allocation and release\<close>

definition search_limit :: "pmm \<Rightarrow> u32" where
  "search_limit p = (if total_frames p > 262144 then 262144 else total_frames p)"

definition alloc_frame :: "pmm \<Rightarrow> u32 \<times> pmm" where
  "alloc_frame p =
     (case find_index (\<lambda>f. \<not> bitmap_test (frame_bitmap p) f) 0 (unat (search_limit p)) of
        Some f \<Rightarrow> (of_nat f * FRAME_SIZE,
                   p\<lparr>frame_bitmap := bitmap_set f (frame_bitmap p),
                     used_frames_count := used_frames_count p + 1\<rparr>)
      | None \<Rightarrow> (0, p))"

text \<open>
  The scan of \<open>alloc_contiguous_frames\<close>: \<open>cc\<close> is \<open>current_count\<close> and \<open>start\<close>
  is \<open>start_frame\<close>; the result is \<open>start_frame\<close> at the moment the run is complete.
\<close>

function contiguous_scan :: "int \<Rightarrow> (nat \<Rightarrow> bool) \<Rightarrow> nat \<Rightarrow> nat \<Rightarrow> int \<Rightarrow> nat \<Rightarrow> nat option" where
  "contiguous_scan count used tot f cc start =
     (if f < tot then
        (if \<not> used f then
           let start' = (if cc = 0 then f else start); cc' = cc + 1
           in if cc' = count then Some start'
              else contiguous_scan count used tot (Suc f) cc' start'
         else contiguous_scan count used tot (Suc f) 0 start)
      else None)"
  by pat_completeness auto
termination
  by (relation "measure (\<lambda>(count, used, tot, f, cc, start). tot - f)") auto

declare contiguous_scan.simps [simp del]

definition alloc_contiguous_frames :: "int \<Rightarrow> pmm \<Rightarrow> u32 \<times> pmm" where
  "alloc_contiguous_frames count p =
     (case contiguous_scan count (bitmap_test (frame_bitmap p)) (unat (total_frames p)) 0 0 0 of
        Some start_frame \<Rightarrow>
          (of_nat start_frame * FRAME_SIZE,
           for_range start_frame (start_frame + nat count)
             (\<lambda>i q. q\<lparr>frame_bitmap := bitmap_set i (frame_bitmap q),
                     used_frames_count := used_frames_count q + 1\<rparr>) p)
      | None \<Rightarrow> (0, p))"

definition free_frame :: "u32 \<Rightarrow> pmm \<Rightarrow> pmm" where
  "free_frame addr p =
     (let frame = addr div FRAME_SIZE
      in if frame < total_frames p \<and> bitmap_test (frame_bitmap p) (unat frame)
         then p\<lparr>frame_bitmap := bitmap_clear (unat frame) (frame_bitmap p),
                used_frames_count := used_frames_count p - 1\<rparr>
         else p)"

definition pmm_total_memory_kb :: "pmm \<Rightarrow> u32" where
  "pmm_total_memory_kb p = total_memory_kb p"

definition pmm_total_frames :: "pmm \<Rightarrow> u32" where
  "pmm_total_frames p = total_frames p"

definition pmm_used_frames :: "pmm \<Rightarrow> u32" where
  "pmm_used_frames p = used_frames_count p"

definition pmm_free_frames :: "pmm \<Rightarrow> u32" where
  "pmm_free_frames p = total_frames p - used_frames_count p"

section \<open>Accounting invariant\<close>

text \<open>The frames the manager still has, and the frames it counts as in use.\<close>

definition free_set :: "pmm \<Rightarrow> nat set" where
  "free_set p = {f. f < unat (total_frames p) \<and> \<not> bitmap_test (frame_bitmap p) f}"

definition used_set :: "pmm \<Rightarrow> nat set" where
  "used_set p = {f. f < unat (total_frames p) \<and> bitmap_test (frame_bitmap p) f}"

definition pmm_inv :: "pmm \<Rightarrow> bool" where
  "pmm_inv p \<longleftrightarrow> unat (total_frames p) \<le> MAX_FRAMES \<and>
     unat (used_frames_count p) = card (used_set p)"

lemma finite_used_set [simp]: "finite (used_set p)"
  by (simp add: used_set_def)

lemma finite_free_set [simp]: "finite (free_set p)"
  by (simp add: free_set_def)

lemma card_used_le: "card (used_set p) \<le> unat (total_frames p)"
  using card_mono [of "{..<unat (total_frames p)}" "used_set p"] by (auto simp: used_set_def)

lemma card_used_free: "card (used_set p) + card (free_set p) = unat (total_frames p)"
proof -
  have "used_set p \<union> free_set p = {..<unat (total_frames p)}" and "used_set p \<inter> free_set p = {}"
    by (auto simp: used_set_def free_set_def)
  then show ?thesis by (metis card_Un_disjoint card_lessThan finite_free_set finite_used_set)
qed

text \<open>Taking one free frame: the step both allocators are made of.\<close>

definition take_frame :: "nat \<Rightarrow> pmm \<Rightarrow> pmm" where
  "take_frame f p = p\<lparr>frame_bitmap := bitmap_set f (frame_bitmap p),
                     used_frames_count := used_frames_count p + 1\<rparr>"

lemma take_frame_sel [simp]:
  "total_frames (take_frame f p) = total_frames p"
  "total_memory_kb (take_frame f p) = total_memory_kb p"
  "frame_bitmap (take_frame f p) = bitmap_set f (frame_bitmap p)"
  by (simp_all add: take_frame_def)

lemma take_frame_free:
  "pmm_inv p \<Longrightarrow> f < unat (total_frames p) \<Longrightarrow> free_set (take_frame f p) = free_set p - {f}"
  by (auto simp: free_set_def pmm_inv_def fb.test_set)

lemma take_frame_inv:
  assumes "pmm_inv p" and "f \<in> free_set p"
  shows "pmm_inv (take_frame f p)"
proof -
  have lt: "f < unat (total_frames p)" and nt: "\<not> bitmap_test (frame_bitmap p) f"
    and cap: "unat (total_frames p) \<le> MAX_FRAMES"
    using assms by (auto simp: free_set_def pmm_inv_def)
  have "card (used_set (take_frame f p)) = Suc (card (used_set p))"
    using fb.card_used_set [OF cap lt nt] by (simp add: used_set_def)
  moreover have "card (used_set p) < MAX_FRAMES"
    using card_used_free [of p] assms(2) cap card_gt_0_iff [of "free_set p"] by fastforce
  ultimately show ?thesis
    using assms(1) by (simp add: pmm_inv_def take_frame_def MAX_FRAMES_def unat_plus_u32)
qed

section \<open>Single frames\<close>

lemma unat_search_limit: "unat (search_limit p) = min 262144 (unat (total_frames p))"
  by (auto simp: search_limit_def min_def word_less_nat_alt word_le_nat_alt)

lemma unat_frame_addr: "f < MAX_FRAMES \<Longrightarrow> unat (of_nat f * FRAME_SIZE) = f * 4096"
  by (simp add: FRAME_SIZE_def MAX_FRAMES_def unat_word_ariths unat_of_nat_u32)

lemma frame_addr_div: "f < MAX_FRAMES \<Longrightarrow> unat ((of_nat f * FRAME_SIZE) div FRAME_SIZE) = f"
  by (simp add: unat_div unat_frame_addr) (simp add: FRAME_SIZE_def)

lemma alloc_frame_cases:
  assumes "pmm_inv p"
  obtains (got) f where "f \<in> free_set p" "f < 262144"
      "\<forall>g \<in> free_set p. f \<le> g" "alloc_frame p = (of_nat f * FRAME_SIZE, take_frame f p)"
  | (none) "\<forall>f \<in> free_set p. 262144 \<le> f" "alloc_frame p = (0, p)"
proof (cases "find_index (\<lambda>f. \<not> bitmap_test (frame_bitmap p) f) 0 (unat (search_limit p))")
  case None
  then have "\<forall>f \<in> free_set p. 262144 \<le> f"
    by (auto simp: find_index_None unat_search_limit free_set_def intro: leI)
  with None show ?thesis by (intro none) (simp_all add: alloc_frame_def)
next
  case (Some f)
  then have "f < unat (search_limit p)" "\<not> bitmap_test (frame_bitmap p) f"
      "\<forall>g < f. bitmap_test (frame_bitmap p) g"
    by (auto dest: find_index_SomeD)
  with Some show ?thesis
    by (intro got [of f])
      (auto simp: unat_search_limit free_set_def alloc_frame_def take_frame_def not_less
        intro: leI)
qed

text \<open>
  C22: \<open>alloc_frame\<close> is first fit below the 1 GB limit: when a frame below 262144 is free
  it returns the address of the lowest free frame, takes exactly that frame, and keeps the
  accounting; otherwise it returns 0 and changes nothing.
\<close>

theorem alloc_frame_first_fit:
  assumes "pmm_inv p"
  shows "pmm_inv (snd (alloc_frame p)) \<and>
    (if \<exists>f \<in> free_set p. f < 262144
     then unat (fst (alloc_frame p)) = Min (free_set p) * 4096 \<and>
          free_set (snd (alloc_frame p)) = free_set p - {Min (free_set p)}
     else alloc_frame p = (0, p))"
  using assms
proof (cases rule: alloc_frame_cases)
  case (got f)
  then have "Min (free_set p) = f" by (intro Min_eqI) auto
  moreover have "f < MAX_FRAMES" and "f < unat (total_frames p)"
    using got assms by (auto simp: free_set_def pmm_inv_def)
  ultimately show ?thesis
    using got assms take_frame_inv take_frame_free by (auto simp: unat_frame_addr)
next
  case none
  then show ?thesis using assms by fastforce
qed

text \<open>A concrete manager for the witnesses: 1024 frames, all in use but frame 300.\<close>

definition pmm_example :: pmm where
  "pmm_example = \<lparr>frame_bitmap = (\<lambda>_. 0xFF)(37 := 0xEF), total_frames = 1024,
     used_frames_count = 1023, total_memory_kb = 4096\<rparr>"

lemma pmm_example_test: "f < 1024 \<Longrightarrow> bitmap_test (frame_bitmap pmm_example) f \<longleftrightarrow> f \<noteq> 300"
proof -
  assume "f < 1024"
  have "f mod 8 \<in> {0, 1, 2, 3, 4, 5, 6, 7}" by auto
  moreover have "f = 300 \<longleftrightarrow> f div 8 = 37 \<and> f mod 8 = 4" using div_mod_8_eq [of f 300] by simp
  ultimately show ?thesis
    by (auto simp: bitmap_test_bit pmm_example_def bit_iff_odd_drop_bit drop_bit_eq_div)
qed

lemma pmm_example_sets: "free_set pmm_example = {300}" "used_set pmm_example = {..<1024} - {300}"
  using pmm_example_test by (auto simp: free_set_def used_set_def pmm_example_def)

lemma pmm_example_inv: "pmm_inv pmm_example"
  by (simp add: pmm_inv_def pmm_example_sets) (simp add: pmm_example_def MAX_FRAMES_def)

theorem alloc_frame_first_fit_witness:
  "pmm_inv pmm_example \<and> unat (fst (alloc_frame pmm_example)) = 300 * 4096 \<and>
   free_set (snd (alloc_frame pmm_example)) = {}"
  using alloc_frame_first_fit [OF pmm_example_inv] pmm_example_inv
  by (simp add: pmm_example_sets)

text \<open>
  releasing a frame makes exactly the frame of the address free (when it is a frame
  the manager has) and keeps the accounting, even when the frame was free already.
\<close>

theorem free_frame_releases:
  assumes "pmm_inv p"
  shows "pmm_inv (free_frame addr p) \<and>
    free_set (free_frame addr p) =
      free_set p \<union> {f. f = unat addr div 4096 \<and> f < unat (total_frames p)}"
proof -
  have fr: "unat (addr div FRAME_SIZE) = unat addr div 4096"
    by (simp add: unat_div FRAME_SIZE_def)
  have cap: "unat (total_frames p) \<le> MAX_FRAMES" using assms by (simp add: pmm_inv_def)
  show ?thesis
  proof (cases "addr div FRAME_SIZE < total_frames p \<and> bitmap_test (frame_bitmap p) (unat (addr div FRAME_SIZE))")
    case True
    let ?f = "unat addr div 4096"
    have f: "?f < unat (total_frames p)" "bitmap_test (frame_bitmap p) ?f"
      using True fr by (auto simp: word_less_nat_alt)
    have "free_set (free_frame addr p) = free_set p \<union> {?f}"
      using True f cap by (auto simp: free_frame_def fr free_set_def fb.test_clear)
    moreover have card: "Suc (card (used_set (free_frame addr p))) = card (used_set p)"
      using fb.card_used_clear [OF cap f] True by (simp add: used_set_def free_frame_def fr)
    then have "used_frames_count p \<noteq> 0" using assms by (auto simp: pmm_inv_def)
    then have "unat (used_frames_count (free_frame addr p)) = unat (used_frames_count p) - 1"
      using True by (simp add: free_frame_def unat_minus_one)
    then have "pmm_inv (free_frame addr p)"
      using assms True card by (simp add: pmm_inv_def) (simp add: free_frame_def)
    ultimately show ?thesis using f by auto
  next
    case False
    then have "free_frame addr p = p" by (auto simp: free_frame_def)
    moreover have "{f. f = unat addr div 4096 \<and> f < unat (total_frames p)} \<subseteq> free_set p"
      using False fr by (auto simp: free_set_def word_less_nat_alt)
    ultimately show ?thesis using assms by auto
  qed
qed

theorem free_frame_releases_witness:
  "pmm_inv pmm_example \<and> free_set (free_frame (512 * 4096) pmm_example) = {300, 512}"
proof -
  have "unat (512 * 4096 :: u32) div 4096 = 512" and "unat (total_frames pmm_example) = 1024"
    by (simp_all add: pmm_example_def)
  then have "{f. f = unat (512 * 4096 :: u32) div 4096 \<and> f < unat (total_frames pmm_example)} = {512}"
    by auto
  then have "free_set (free_frame (512 * 4096) pmm_example) = {300} \<union> {512}"
    using free_frame_releases [OF pmm_example_inv, of "512 * 4096"]
    by (simp only: pmm_example_sets)
  then show ?thesis using pmm_example_inv by auto
qed

text \<open>
  allocating a frame and releasing it gives back exactly the manager's state before,
  bitmap and counters included.
\<close>

theorem alloc_free_roundtrip:
  assumes "pmm_inv p" and "alloc_frame p = (a, q)" and "a \<noteq> 0"
  shows "free_frame a q = p"
  using assms(1)
proof (cases rule: alloc_frame_cases)
  case (got f)
  have f: "f < MAX_FRAMES" "f < unat (total_frames p)" "\<not> bitmap_test (frame_bitmap p) f"
    using got(1) assms(1) by (auto simp: free_set_def pmm_inv_def)
  have q: "q = take_frame f p" and a: "unat (a div FRAME_SIZE) = f"
    using got assms(2) frame_addr_div [OF f(1)] by auto
  have "bitmap_clear f (bitmap_set f (frame_bitmap p)) = frame_bitmap p"
  proof
    fix k
    show "bitmap_clear f (bitmap_set f (frame_bitmap p)) k = frame_bitmap p k"
    proof (cases "k = f div 8")
      case True
      have "bit (bitmap_clear f (bitmap_set f (frame_bitmap p)) k) l = bit (frame_bitmap p k) l"
        if "l < 8" for l
        using that True f(3)
        by (auto simp: bitmap_clear_def bitmap_set_def bit_and_not_push bit_or_push bitmap_test_bit)
      then show ?thesis by (intro bit_word_eqI) simp
    qed (simp add: bitmap_clear_def bitmap_set_def)
  qed
  moreover have "bitmap_test (bitmap_set f (frame_bitmap p)) f"
    using fb.test_set [of f f] f(1) by simp
  ultimately show ?thesis
    using f(2) by (simp add: free_frame_def q a take_frame_def word_less_nat_alt)
qed (use assms in auto)

theorem alloc_free_roundtrip_witness:
  "free_frame (fst (alloc_frame pmm_example)) (snd (alloc_frame pmm_example)) = pmm_example"
proof -
  have "unat (fst (alloc_frame pmm_example)) = 300 * 4096"
    by (cases rule: alloc_frame_cases [OF pmm_example_inv])
      (auto simp: pmm_example_sets FRAME_SIZE_def)
  then have "fst (alloc_frame pmm_example) \<noteq> 0" by auto
  then show ?thesis
    by (intro alloc_free_roundtrip [OF pmm_example_inv]) simp_all
qed

section \<open>Contiguous runs\<close>

definition free_run :: "(nat \<Rightarrow> bool) \<Rightarrow> nat \<Rightarrow> nat \<Rightarrow> bool" where
  "free_run used s n \<longleftrightarrow> (\<forall>j. s \<le> j \<and> j < s + n \<longrightarrow> \<not> used j)"

lemma contiguous_scan_nonpos: "count \<le> 0 \<Longrightarrow> 0 \<le> cc \<Longrightarrow> contiguous_scan count used tot f cc start = None"
  by (induction count used tot f cc start rule: contiguous_scan.induct)
    (subst contiguous_scan.simps, auto simp: Let_def)

text \<open>
  The scan returns the first start of a free run of the wanted length that is not before
  the run it is in the middle of.
\<close>

lemma contiguous_scan_spec:
  assumes "0 \<le> cc" "cc < count" "nat cc \<le> f" "cc > 0 \<longrightarrow> start = f - nat cc"
    and "\<forall>j. f - nat cc \<le> j \<and> j < f \<longrightarrow> \<not> used j"
  shows "contiguous_scan count used tot f cc start = Some s \<longleftrightarrow>
    f - nat cc \<le> s \<and> s + nat count \<le> tot \<and> free_run used s (nat count) \<and>
    (\<forall>s'. f - nat cc \<le> s' \<and> s' < s \<longrightarrow> \<not> free_run used s' (nat count))"
  using assms
proof (induction count used tot f cc start rule: contiguous_scan.induct)
  case (1 count used tot f cc start)
  define b where "b = f - nat cc"
  have start': "(if cc = 0 then f else start) = b" using "1.prems" by (auto simp: b_def)
  note unf = contiguous_scan.simps [of count used tot f cc start, unfolded start' Let_def]
  consider (out) "\<not> f < tot" | (full) "f < tot" "\<not> used f" "cc + 1 = count"
    | (grow) "f < tot" "\<not> used f" "cc + 1 \<noteq> count" | (used) "f < tot" "used f" by blast
  then show ?case
  proof cases
    case out
    then show ?thesis using "1.prems" by (auto simp: unf)
  next
    case full
    have "free_run used b (nat count)"
      using full "1.prems" by (auto simp: free_run_def b_def nat_add_distrib less_Suc_eq)
    moreover have "b + nat count \<le> tot" using full "1.prems" by (auto simp: b_def)
    ultimately show ?thesis
      using full unfolding b_def [symmetric] by (auto simp: unf)
  next
    case grow
    have "\<forall>j. Suc f - nat (cc + 1) \<le> j \<and> j < Suc f \<longrightarrow> \<not> used j"
      using grow "1.prems" by (auto simp: less_Suc_eq nat_add_distrib)
    moreover have "Suc f - nat (cc + 1) = b" using "1.prems" by (auto simp: b_def nat_add_distrib)
    ultimately show ?thesis
      using "1.IH"(1) [OF grow(1,2) _ _ grow(3)] "1.prems" grow
      unfolding b_def [symmetric] start' by (simp add: unf nat_add_distrib)
  next
    case used
    have no: "\<not> free_run used s' (nat count)" if "b \<le> s'" "s' \<le> f" for s'
      using that used "1.prems" by (auto simp: free_run_def b_def intro!: exI [of _ f])
    have "contiguous_scan count used tot f cc start = Some s \<longleftrightarrow>
        Suc f \<le> s \<and> s + nat count \<le> tot \<and> free_run used s (nat count) \<and>
        (\<forall>s'. Suc f \<le> s' \<and> s' < s \<longrightarrow> \<not> free_run used s' (nat count))"
      using "1.IH"(2) used "1.prems" by (simp add: unf)
    then show ?thesis
      using no unfolding b_def [symmetric] by (metis b_def diff_le_self le_trans not_less_eq_eq le_SucI)
  qed
qed

lemma take_range:
  assumes "pmm_inv p" and "s \<le> e" and "{s..<e} \<subseteq> free_set p"
  shows "pmm_inv (for_range s e take_frame p) \<and>
    total_frames (for_range s e take_frame p) = total_frames p \<and>
    free_set (for_range s e take_frame p) = free_set p - {s..<e}"
proof (rule for_range_inv [where P = "\<lambda>i q. pmm_inv q \<and> total_frames q = total_frames p \<and>
      free_set q = free_set p - {s..<i}"])
  fix i q
  assume i: "s \<le> i" "i < e"
    and q: "pmm_inv q \<and> total_frames q = total_frames p \<and> free_set q = free_set p - {s..<i}"
  then have "i \<in> free_set q" using assms(3) by auto
  moreover from this have "i < unat (total_frames q)" by (simp add: free_set_def)
  ultimately have "pmm_inv (take_frame i q)" "free_set (take_frame i q) = free_set q - {i}"
    using q take_frame_inv take_frame_free by blast+
  moreover have "free_set q - {i} = free_set p - {s..<Suc i}"
  proof -
    have "{s..<Suc i} = insert i {s..<i}" using i(1) by auto
    then show ?thesis using q by blast
  qed
  ultimately show "pmm_inv (take_frame i q) \<and> total_frames (take_frame i q) = total_frames p \<and>
      free_set (take_frame i q) = free_set p - {s..<Suc i}"
    using q by simp
qed (use assms in auto)

text \<open>
  \<open>alloc_contiguous_frames\<close> is first fit for runs. If some run of \<open>count\<close> free frames
  lies inside memory, it returns the address of the first one and takes exactly that run;
  if there is none, or \<open>count\<close> is not positive, it returns 0 and changes nothing. The
  accounting invariant is kept in every case.
\<close>

theorem alloc_contiguous_first_fit:
  assumes "pmm_inv p"
  shows "pmm_inv (snd (alloc_contiguous_frames count p)) \<and>
    (if \<exists>s. 0 < count \<and> {s..<s + nat count} \<subseteq> free_set p
     then let s = (LEAST s. {s..<s + nat count} \<subseteq> free_set p)
          in unat (fst (alloc_contiguous_frames count p)) = s * 4096 \<and>
             free_set (snd (alloc_contiguous_frames count p)) = free_set p - {s..<s + nat count}
     else alloc_contiguous_frames count p = (0, p))"
proof (cases "0 < count")
  case False
  then show ?thesis
    using assms by (simp add: alloc_contiguous_frames_def contiguous_scan_nonpos)
next
  case True
  let ?u = "bitmap_test (frame_bitmap p)" and ?t = "unat (total_frames p)" and ?n = "nat count"
  have sub: "{s..<s + ?n} \<subseteq> free_set p \<longleftrightarrow> s + ?n \<le> ?t \<and> free_run ?u s ?n" for s
  proof
    assume sub: "{s..<s + ?n} \<subseteq> free_set p"
    then have "s + ?n - 1 \<in> free_set p" using True by (intro subsetD [OF sub]) simp
    then have "s + ?n - 1 < ?t" by (simp add: free_set_def)
    then have "s + ?n \<le> ?t" using True by linarith
    with sub show "s + ?n \<le> ?t \<and> free_run ?u s ?n"
      by (auto simp: free_set_def free_run_def subset_eq)
  qed (auto simp: free_set_def free_run_def)
  have scan: "contiguous_scan count ?u ?t 0 0 0 = Some s \<longleftrightarrow> {s..<s + ?n} \<subseteq> free_set p \<and>
      (\<forall>s' < s. \<not> {s'..<s' + ?n} \<subseteq> free_set p)" for s
    using contiguous_scan_spec [of 0 count 0 0 ?u ?t s] True sub by auto
  have fold: "alloc_contiguous_frames count p = (case contiguous_scan count ?u ?t 0 0 0 of
      Some s \<Rightarrow> (of_nat s * FRAME_SIZE, for_range s (s + ?n) take_frame p) | None \<Rightarrow> (0, p))"
    unfolding alloc_contiguous_frames_def take_frame_def [abs_def] ..
  show ?thesis
  proof (cases "contiguous_scan count ?u ?t 0 0 0")
    case None
    have "\<not> {s..<s + ?n} \<subseteq> free_set p" for s
    proof
      let ?P = "\<lambda>s. {s..<s + ?n} \<subseteq> free_set p"
      assume "?P s"
      then have "?P (Least ?P)" by (rule LeastI [of ?P])
      moreover have "\<forall>s' < Least ?P. \<not> ?P s'" using not_less_Least [of _ ?P] by blast
      ultimately show False using scan [of "Least ?P"] None by simp
    qed
    then show ?thesis using assms None by (simp add: fold)
  next
    case (Some s)
    then have s: "{s..<s + ?n} \<subseteq> free_set p" "\<forall>s' < s. \<not> {s'..<s' + ?n} \<subseteq> free_set p"
      using scan by auto
    have least: "(LEAST s. {s..<s + ?n} \<subseteq> free_set p) = s"
      using s by (intro Least_equality) (auto simp: not_less [symmetric])
    have "s < MAX_FRAMES" using s(1) sub [of s] assms True by (auto simp: pmm_inv_def)
    then have "unat (fst (alloc_contiguous_frames count p)) = s * 4096"
      using Some by (simp add: fold unat_frame_addr)
    then show ?thesis
      using take_range [OF assms _ s(1)] s(1) True Some by (auto simp: fold least)
  qed
qed

theorem alloc_contiguous_first_fit_witness:
  "pmm_inv pmm_example \<and> alloc_contiguous_frames 2 pmm_example = (0, pmm_example)"
proof -
  have "\<not> {s..<s + nat 2} \<subseteq> {300}" for s :: nat
  proof
    assume sub: "{s..<s + nat 2} \<subseteq> {300}"
    have "s \<in> {300}" and "Suc s \<in> {300}" by (rule subsetD [OF sub], simp)+
    then show False by simp
  qed
  then show ?thesis
    using alloc_contiguous_first_fit [OF pmm_example_inv, of 2] pmm_example_inv
    by (simp add: pmm_example_sets)
qed

section \<open>The state after boot\<close>

text \<open>The entries the boot loader's table is read as, from address \<open>addr\<close> on.\<close>

inductive mmap_walk :: "(u32 \<Rightarrow> multiboot_mmap_entry) \<Rightarrow> u32 \<Rightarrow> u32 \<Rightarrow> multiboot_mmap_entry list \<Rightarrow> bool"
  for rd_entry end_addr where
  walk_done: "\<not> addr < end_addr \<Longrightarrow> mmap_walk rd_entry end_addr addr []"
| walk_step: "addr < end_addr \<Longrightarrow>
    mmap_walk rd_entry end_addr (addr + (me_size (rd_entry addr) + 4)) es \<Longrightarrow>
    mmap_walk rd_entry end_addr addr (rd_entry addr # es)"

lemma mmap_loop_walk:
  "mmap_walk rd_entry end_addr addr es \<Longrightarrow>
   mmap_loop rd_entry tot end_addr addr bm = Some (fold (mmap_entry_clear tot) es bm)"
  by (induction arbitrary: bm rule: mmap_walk.induct) (subst mmap_loop.simps, simp)+

text \<open>The loop ends when no entry of the table runs over the end of the address space.\<close>

definition mmap_table_fits :: "(u32 \<Rightarrow> multiboot_mmap_entry) \<Rightarrow> u32 \<Rightarrow> u32 \<Rightarrow> bool" where
  "mmap_table_fits rd_entry addr end_addr \<longleftrightarrow>
     (\<forall>a. addr \<le> a \<and> a < end_addr \<longrightarrow> unat a + unat (me_size (rd_entry a)) + 4 < 4294967296)"

lemma mmap_walk_exists:
  "mmap_table_fits rd_entry addr end_addr \<Longrightarrow> \<exists>es. mmap_walk rd_entry end_addr addr es"
proof (induction "unat end_addr - unat addr" arbitrary: addr rule: less_induct)
  case less
  show ?case
  proof (cases "addr < end_addr")
    case True
    let ?next = "addr + (me_size (rd_entry addr) + 4)"
    have fit: "unat addr + unat (me_size (rd_entry addr)) + 4 < 4294967296"
      using less.prems True by (simp add: mmap_table_fits_def)
    then have n: "unat ?next = unat addr + unat (me_size (rd_entry addr)) + 4"
      by (simp add: unat_plus_u32)
    then have "mmap_table_fits rd_entry ?next end_addr"
      using less.prems by (auto simp: mmap_table_fits_def word_le_nat_alt)
    moreover have "unat end_addr - unat ?next < unat end_addr - unat addr"
      using n True by (simp add: word_less_nat_alt)
    ultimately obtain es where "mmap_walk rd_entry end_addr ?next es" using less.hyps by blast
    then show ?thesis using walk_step [OF True] by blast
  next
    case False
    then show ?thesis by (auto intro: walk_done)
  qed
qed

definition entry_frames :: "multiboot_mmap_entry \<Rightarrow> nat set" where
  "entry_frames e = (if me_type e = 1 \<and> me_base_addr_high e = 0
     then {unat ((me_base_addr_low e + FRAME_SIZE - 1) div FRAME_SIZE) ..<
           unat ((me_base_addr_low e + me_length_low e) div FRAME_SIZE)} else {})"

definition kernel_frames :: "u32 \<Rightarrow> u32 \<Rightarrow> nat set" where
  "kernel_frames kernel_start kernel_end =
     {unat ((kernel_start - 0xC0000000) div FRAME_SIZE) ..<
      unat ((kernel_end - 0xC0000000 + FRAME_SIZE - 1) div FRAME_SIZE)}"

lemma entry_clear_test:
  assumes "unat tot \<le> MAX_FRAMES" and "f < unat tot"
  shows "bitmap_test (mmap_entry_clear tot e bm) f \<longleftrightarrow> f \<notin> entry_frames e \<and> bitmap_test bm f"
  using assms fb.range_clear [where hi = "min hi (unat tot)" and m = bm and lo = lo for hi lo]
  by (auto simp: mmap_entry_clear_def entry_frames_def Let_def)

lemma entries_clear_test:
  assumes "unat tot \<le> MAX_FRAMES" and "f < unat tot"
  shows "bitmap_test (fold (mmap_entry_clear tot) es bm) f \<longleftrightarrow>
    f \<notin> (\<Union>e \<in> set es. entry_frames e) \<and> bitmap_test bm f"
  using assms by (induction es arbitrary: bm) (auto simp: entry_clear_test)

lemma reserve_kernel_test:
  assumes "unat tot \<le> MAX_FRAMES" and "f < unat tot"
  shows "bitmap_test (reserve_kernel ks ke tot bm) f \<longleftrightarrow> f \<in> kernel_frames ks ke \<or> bitmap_test bm f"
  using assms fb.range_set [where hi = "min hi (unat tot)" and m = bm and lo = lo for hi lo]
  by (auto simp: reserve_kernel_def kernel_frames_def Let_def)

lemma all_ones_test:
  "f < MAX_FRAMES \<Longrightarrow> bitmap_test (for_range 0 (MAX_FRAMES div 8) (\<lambda>i bm. bm(i := 0xFF)) bm) f"
proof -
  assume f: "f < MAX_FRAMES"
  have "\<forall>i < MAX_FRAMES div 8. for_range 0 (MAX_FRAMES div 8) (\<lambda>i bm. bm(i := 0xFF)) bm i = 0xFF"
    by (rule for_range_inv [where P = "\<lambda>k b. \<forall>i < k. b i = 0xFF"]) auto
  moreover have "f div 8 < MAX_FRAMES div 8" using f by (simp add: MAX_FRAMES_def)
  moreover have "bit (0xFF :: u8) (f mod 8)"
  proof -
    have "(0xFF :: u8) = NOT 0" by simp
    then show ?thesis by (simp only: bit_not_iff) simp
  qed
  ultimately show ?thesis by (simp add: bitmap_test_bit)
qed

lemma count_used_card: "unat (count_used tot bm) = card {f. f < unat tot \<and> bitmap_test bm f}"
  unfolding count_used_def
proof (rule for_range_inv [where P = "\<lambda>i n. unat n = card {f. f < i \<and> bitmap_test bm f}"])
  fix i and n :: u32
  assume i: "i < unat tot" and n: "unat n = card {f. f < i \<and> bitmap_test bm f}"
  have eq: "{f. f < Suc i \<and> bitmap_test bm f} =
      (if bitmap_test bm i then insert i {f. f < i \<and> bitmap_test bm f}
       else {f. f < i \<and> bitmap_test bm f})"
    by (auto simp: less_Suc_eq)
  have "card {f. f < i \<and> bitmap_test bm f} \<le> i"
    using card_mono [of "{..<i}" "{f. f < i \<and> bitmap_test bm f}"] by auto
  then have "unat n + 1 < 4294967296" using n i unat_lt_u32 [of tot] by linarith
  then show "unat (if bitmap_test bm i then n + 1 else n) = card {f. f < Suc i \<and> bitmap_test bm f}"
    using n by (simp add: eq unat_plus_u32)
qed simp_all

lemma init_pmm_frames:
  assumes "mb_flags mbi AND push_bit 6 1 \<noteq> 0"
    and "mmap_table_fits rd_entry (mb_mmap_addr mbi + 0xC0000000)
           (mb_mmap_addr mbi + 0xC0000000 + mb_mmap_length mbi)"
  shows "\<exists>es p. mmap_walk rd_entry (mb_mmap_addr mbi + 0xC0000000 + mb_mmap_length mbi)
              (mb_mmap_addr mbi + 0xC0000000) es \<and>
    init_pmm rd_entry kernel_start kernel_end mbi p0 = Some p \<and> pmm_inv p \<and>
    total_memory_kb p = (if mb_flags mbi AND 1 \<noteq> 0 then mb_mem_lower mbi + mb_mem_upper mbi + 1024 else total_memory_kb p0) \<and>
    unat (total_frames p) = min 1048576 (unat (total_memory_kb p) div 4) \<and>
    free_set p = {f. 256 \<le> f \<and> f < unat (total_frames p) \<and>
      f \<notin> kernel_frames kernel_start kernel_end \<and> f \<in> (\<Union>e \<in> set es. entry_frames e)}"
proof -
  let ?a = "mb_mmap_addr mbi + 0xC0000000" and ?e = "mb_mmap_addr mbi + 0xC0000000 + mb_mmap_length mbi"
  obtain es where es: "mmap_walk rd_entry ?e ?a es" using mmap_walk_exists [OF assms(2)] by blast
  define kb where "kb = (if mb_flags mbi AND push_bit 0 1 \<noteq> 0
      then mb_mem_lower mbi + mb_mem_upper mbi + 1024 else total_memory_kb p0)"
  define tot :: u32 where "tot = (if kb div 4 > of_nat MAX_FRAMES then of_nat MAX_FRAMES else kb div 4)"
  define bm0 where "bm0 = for_range 0 (MAX_FRAMES div 8) (\<lambda>i bm. bm(i := 0xFF)) (frame_bitmap p0)"
  define bm1 where "bm1 = fold (mmap_entry_clear tot) es bm0"
  define bm2 where "bm2 = for_range 0 256 bitmap_set bm1"
  define bm3 where "bm3 = reserve_kernel kernel_start kernel_end tot bm2"
  define p where "p = \<lparr>frame_bitmap = bm3, total_frames = tot,
      used_frames_count = count_used tot bm3, total_memory_kb = kb\<rparr>"
  have cap: "unat tot \<le> MAX_FRAMES"
    by (auto simp: tot_def MAX_FRAMES_def word_less_nat_alt not_less)
  have "kb div 4 > of_nat MAX_FRAMES \<longleftrightarrow> 1048576 < unat kb div 4" by (simp add: MAX_FRAMES_def word_less_nat_alt unat_div)
  then have "unat tot = min 1048576 (unat kb div 4)" by (auto simp: tot_def MAX_FRAMES_def unat_div)
  then have size: "total_memory_kb p = (if mb_flags mbi AND 1 \<noteq> 0 then mb_mem_lower mbi + mb_mem_upper mbi + 1024 else total_memory_kb p0)"
      "unat (total_frames p) = min 1048576 (unat (total_memory_kb p) div 4)"
    by (simp_all add: p_def kb_def)
  have "init_pmm rd_entry kernel_start kernel_end mbi p0 = Some p"
    using assms(1) mmap_loop_walk [OF es, of tot bm0]
    unfolding init_pmm_def Let_def kb_def [symmetric] tot_def [symmetric] bm0_def [symmetric]
    by (simp add: p_def bm3_def bm2_def bm1_def)
  moreover have "bitmap_test bm3 f \<longleftrightarrow> f \<in> kernel_frames kernel_start kernel_end \<or> f < 256 \<or>
      f \<notin> (\<Union>e \<in> set es. entry_frames e)" if f: "f < unat tot" for f
  proof -
    have m: "f < MAX_FRAMES" using f cap by simp
    have "bitmap_test bm2 f \<longleftrightarrow> f < 256 \<or> bitmap_test bm1 f"
      using fb.range_set [where hi = 256 and m = bm1 and lo = 0] m
      by (simp add: bm2_def MAX_FRAMES_def)
    then show ?thesis
      using all_ones_test [OF m, of "frame_bitmap p0"] cap f
      by (auto simp: bm3_def reserve_kernel_test bm1_def entries_clear_test bm0_def)
  qed
  then have "free_set p = {f. 256 \<le> f \<and> f < unat (total_frames p) \<and>
      f \<notin> kernel_frames kernel_start kernel_end \<and> f \<in> (\<Union>e \<in> set es. entry_frames e)}"
    by (auto simp: free_set_def p_def)
  moreover have "pmm_inv p"
    using cap by (simp add: pmm_inv_def used_set_def p_def count_used_card)
  ultimately show ?thesis using es size by blast
qed

text \<open>
  What the memory map means, independent of how it is read: an available region is the bytes from its 64-bit base
  address on, as many as its 64-bit length; a frame can be used if all its bytes are in the region. The kernel image
  takes every frame one of its bytes lies in.
\<close>

definition mem_base :: "multiboot_mmap_entry \<Rightarrow> nat" where
  "mem_base e = unat (me_base_addr_low e) + 4294967296 * unat (me_base_addr_high e)"

definition mem_length :: "multiboot_mmap_entry \<Rightarrow> nat" where
  "mem_length e = unat (me_length_low e) + 4294967296 * unat (me_length_high e)"

definition region_frames :: "multiboot_mmap_entry \<Rightarrow> nat set" where
  "region_frames e = {f. me_type e = 1 \<and> mem_base e \<le> 4096 * f \<and> 4096 * f + 4096 \<le> mem_base e + mem_length e}"

definition image_frames :: "nat \<Rightarrow> nat \<Rightarrow> nat set" where
  "image_frames lo hi = {f. \<exists>a. lo \<le> a \<and> a < hi \<and> a div 4096 = f}"

lemma entry_frames_region:
  assumes "me_type e = 1 \<longrightarrow> mem_base e < 4294967296 \<longrightarrow> mem_base e + mem_length e + 4095 < 4294967296" and "f < 1048576"
  shows "f \<in> entry_frames e \<longleftrightarrow> f \<in> region_frames e"
proof (cases "me_type e = 1 \<and> me_base_addr_high e = 0")
  case True
  then have b: "mem_base e = unat (me_base_addr_low e)" by (simp add: mem_base_def)
  then have "mem_base e < 4294967296" using unat_lt_u32 [of "me_base_addr_low e"] by simp
  then have s: "mem_base e + mem_length e + 4095 < 4294967296" using assms(1) True by simp
  then have "unat (me_length_high e) = 0" by (simp add: mem_length_def)
  then have l: "mem_length e = unat (me_length_low e)" by (simp add: mem_length_def)
  have "unat ((me_base_addr_low e + FRAME_SIZE - 1) div FRAME_SIZE) = (mem_base e + 4095) div 4096"
  proof -
    have "me_base_addr_low e + FRAME_SIZE - 1 = me_base_addr_low e + 4095" by (simp add: FRAME_SIZE_def)
    then show ?thesis using s b by (simp add: unat_div unat_plus_u32 FRAME_SIZE_def)
  qed
  moreover have "unat ((me_base_addr_low e + me_length_low e) div FRAME_SIZE) = (mem_base e + mem_length e) div 4096"
    using s b l by (simp add: unat_div unat_plus_u32 FRAME_SIZE_def)
  ultimately show ?thesis using True by (simp add: entry_frames_def region_frames_def) linarith
next
  case False
  have "f \<notin> region_frames e"
  proof
    assume f: "f \<in> region_frames e"
    then have "unat (me_base_addr_high e) \<noteq> 0" using False by (auto simp: region_frames_def unat_eq_zero)
    then have "4294967296 \<le> mem_base e" by (simp add: mem_base_def)
    then show False using f assms(2) by (simp add: region_frames_def)
  qed
  then show ?thesis using False by (auto simp: entry_frames_def)
qed

lemma kernel_frames_image:
  assumes "0xC0000000 \<le> ks" and "ks < ke" and "unat ke + 4095 < 4294967296"
  shows "kernel_frames ks ke = image_frames (unat ks - 3221225472) (unat ke - 3221225472)"
proof -
  have k: "3221225472 \<le> unat ks" "unat ks < unat ke" using assms(1,2) by (simp_all add: word_le_nat_alt word_less_nat_alt)
  have "unat (ks - 0xC0000000) = unat ks - 3221225472" "unat (ke - 0xC0000000) = unat ke - 3221225472"
    using k by (simp_all add: unat_sub word_le_nat_alt)
  moreover have "unat (ke - 0xC0000000 + FRAME_SIZE - 1) = unat (ke - 0xC0000000) + 4095"
  proof -
    have "ke - 0xC0000000 + FRAME_SIZE - 1 = (ke - 0xC0000000) + 4095" by (simp add: FRAME_SIZE_def)
    moreover have "unat ((ke - 0xC0000000) + 4095 :: u32) = unat (ke - 0xC0000000) + 4095"
      using unat_plus_u32 [of "ke - 0xC0000000" 4095] calculation assms(3) \<open>unat (ke - 0xC0000000) = unat ke - 3221225472\<close> by simp
    ultimately show ?thesis by (simp only:)
  qed
  ultimately have e: "unat ((ks - 0xC0000000) div FRAME_SIZE) = (unat ks - 3221225472) div 4096"
      "unat ((ke - 0xC0000000 + FRAME_SIZE - 1) div FRAME_SIZE) = (unat ke - 3221225472 + 4095) div 4096"
    by (simp_all only: unat_div) (simp_all add: FRAME_SIZE_def)
  define l where "l = unat ks - 3221225472"
  define h where "h = unat ke - 3221225472"
  have lh: "l < h" using k by (simp add: l_def h_def)
  have "f \<in> {l div 4096 ..< (h + 4095) div 4096} \<longleftrightarrow> f \<in> image_frames l h" for f
  proof
    assume f: "f \<in> {l div 4096 ..< (h + 4095) div 4096}"
    have "max l (4096 * f) div 4096 = f" using f by (auto simp: max_def)
    moreover have "max l (4096 * f) < h" using f lh by auto
    ultimately show "f \<in> image_frames l h" unfolding image_frames_def by (intro CollectI exI [of _ "max l (4096 * f)"]) simp
  next
    assume "f \<in> image_frames l h"
    then obtain a where "l \<le> a" "a < h" "a div 4096 = f" by (auto simp: image_frames_def)
    moreover from this have "l div 4096 \<le> f" by (auto intro: div_le_mono)
    ultimately show "f \<in> {l div 4096 ..< (h + 4095) div 4096}" by auto
  qed
  then show ?thesis unfolding kernel_frames_def e l_def [symmetric] h_def [symmetric] by blast
qed

text \<open>
  C25: initialisation from a memory map (its flag is set) ends when no entry runs over the end of the address space, and
  leaves the accounting invariant. The size of memory is the sum of the two sizes of the boot loader plus 1024 kB (the
  old value if the flag for them is not set), and there is one frame for every 4 kB of it, up to 1048576. If the available regions that start below 4 GB
  end at least a page below 4 GB, and the kernel is linked above \<open>0xC0000000\<close> and ends at least a page below 4 GB, a
  frame is free afterwards exactly when its number is below that limit, it lies with all its bytes in an available
  region of the map (64-bit base and length), above the first megabyte, and outside the kernel image.
\<close>

theorem init_pmm_correct:
  assumes "mb_flags mbi AND push_bit 6 1 \<noteq> 0"
    and "mmap_table_fits rd_entry (mb_mmap_addr mbi + 0xC0000000)
           (mb_mmap_addr mbi + 0xC0000000 + mb_mmap_length mbi)"
    and "0xC0000000 \<le> kernel_start" and "kernel_start < kernel_end" and "unat kernel_end + 4095 < 4294967296"
  shows "\<exists>es p. mmap_walk rd_entry (mb_mmap_addr mbi + 0xC0000000 + mb_mmap_length mbi)
              (mb_mmap_addr mbi + 0xC0000000) es \<and>
    init_pmm rd_entry kernel_start kernel_end mbi p0 = Some p \<and> pmm_inv p \<and>
    total_memory_kb p = (if mb_flags mbi AND 1 \<noteq> 0 then mb_mem_lower mbi + mb_mem_upper mbi + 1024 else total_memory_kb p0) \<and>
    unat (total_frames p) = min 1048576 (unat (total_memory_kb p) div 4) \<and>
    ((\<forall>e \<in> set es. me_type e = 1 \<longrightarrow> mem_base e < 4294967296 \<longrightarrow> mem_base e + mem_length e + 4095 < 4294967296) \<longrightarrow>
       free_set p = {f. 256 \<le> f \<and> f < unat (total_frames p) \<and> (\<exists>e \<in> set es. f \<in> region_frames e) \<and>
         f \<notin> image_frames (unat kernel_start - 3221225472) (unat kernel_end - 3221225472)})"
proof -
  from init_pmm_frames [OF assms(1,2), of kernel_start kernel_end p0]
  obtain es p where p: "mmap_walk rd_entry (mb_mmap_addr mbi + 0xC0000000 + mb_mmap_length mbi) (mb_mmap_addr mbi + 0xC0000000) es"
    "init_pmm rd_entry kernel_start kernel_end mbi p0 = Some p" "pmm_inv p"
    "total_memory_kb p = (if mb_flags mbi AND 1 \<noteq> 0 then mb_mem_lower mbi + mb_mem_upper mbi + 1024 else total_memory_kb p0)"
    "unat (total_frames p) = min 1048576 (unat (total_memory_kb p) div 4)"
    "free_set p = {f. 256 \<le> f \<and> f < unat (total_frames p) \<and>
      f \<notin> kernel_frames kernel_start kernel_end \<and> f \<in> (\<Union>e \<in> set es. entry_frames e)}" by blast
  have "f \<in> entry_frames e \<longleftrightarrow> f \<in> region_frames e"
    if "\<forall>e \<in> set es. me_type e = 1 \<longrightarrow> mem_base e < 4294967296 \<longrightarrow> mem_base e + mem_length e + 4095 < 4294967296"
      "e \<in> set es" "f < unat (total_frames p)" for e f
    using that p(5) by (intro entry_frames_region) auto
  then show ?thesis using p kernel_frames_image [OF assms(3-5)]
    by (intro exI [of _ es] exI [of _ p]) auto
qed

theorem init_pmm_correct_witness:
  "\<exists>p. init_pmm (\<lambda>_. \<lparr>me_size = 20, me_base_addr_low = 0x100000, me_base_addr_high = 0,
        me_length_low = 0x700000, me_length_high = 0, me_type = 1\<rparr>) 0xC0100000 0xC0200000
        \<lparr>mb_flags = 0x41, mb_mem_lower = 640, mb_mem_upper = 7168, mb_mmap_length = 24,
         mb_mmap_addr = 0x10000\<rparr> pmm_example = Some p \<and> pmm_inv p \<and> total_frames p = 2208"
proof -
  let ?rd = "\<lambda>_ :: u32. \<lparr>me_size = 20, me_base_addr_low = 0x100000, me_base_addr_high = 0,
        me_length_low = 0x700000, me_length_high = 0, me_type = 1\<rparr>"
  let ?mbi = "\<lparr>mb_flags = 0x41, mb_mem_lower = 640, mb_mem_upper = 7168, mb_mmap_length = 24,
         mb_mmap_addr = 0x10000\<rparr>"
  have f: "mmap_table_fits ?rd (mb_mmap_addr ?mbi + 0xC0000000)
      (mb_mmap_addr ?mbi + 0xC0000000 + mb_mmap_length ?mbi)"
    by (auto simp: mmap_table_fits_def word_less_nat_alt)
  have k: "(0xC0000000 :: u32) \<le> 0xC0100000" "(0xC0100000 :: u32) < 0xC0200000" "unat (0xC0200000 :: u32) + 4095 < 4294967296" by simp_all
  from init_pmm_correct [OF _ f k, where ?p0.0 = pmm_example]
  show ?thesis by (auto simp: word_unat_eq_iff)
qed

text \<open>
  a frame in use that is released below the first megabyte is handed out again: once
  frame 0 is free, \<open>alloc_frame\<close> takes it and answers 0, the very value that means out
  of memory, while the count of used frames grows.
\<close>

theorem alloc_frame_zero_ambiguous:
  assumes "pmm_inv p" and "0 < unat (total_frames p)"
  shows "fst (alloc_frame (free_frame 0 p)) = 0 \<and>
    card (used_set (snd (alloc_frame (free_frame 0 p)))) = Suc (card (used_set (free_frame 0 p)))"
proof -
  let ?q = "free_frame 0 p"
  have q: "pmm_inv ?q" "0 \<in> free_set ?q" using free_frame_releases [OF assms(1), of 0] assms(2) by auto
  from q(1) show ?thesis
  proof (cases rule: alloc_frame_cases)
    case (got f)
    then have "f = 0" using q(2) by auto
    then show ?thesis
      using got card_used_free [of ?q] card_used_free [of "take_frame f ?q"] q
        card.remove [of "free_set ?q" f] take_frame_free [of ?q f]
      by (auto simp: free_set_def)
  next
    case none
    then show ?thesis using q(2) by auto
  qed
qed

theorem alloc_frame_zero_ambiguous_witness:
  "pmm_inv pmm_example \<and> fst (alloc_frame (free_frame 0 pmm_example)) = 0"
proof -
  have "0 < unat (total_frames pmm_example)" by (simp add: pmm_example_def)
  with alloc_frame_zero_ambiguous [OF pmm_example_inv] pmm_example_inv show ?thesis by simp
qed

section \<open>The contract other components rely on\<close>

text \<open>
  Paging, the ELF loader and \<open>sbrk\<close> see the manager only through \<open>alloc_frame\<close>:
  a source of frames that hands out, as page-aligned addresses, members of a set of
  available frame numbers below the first gigabyte and never the same one twice.
\<close>

locale frame_source =
  fixes alloc :: "'p \<Rightarrow> u32 \<times> 'p"
    and ok :: "'p \<Rightarrow> bool"
    and avail :: "'p \<Rightarrow> nat set"
  assumes avail_low: "ok p \<Longrightarrow> avail p \<subseteq> {..<262144}"
    and alloc_law: "\<lbrakk>ok p; avail p \<noteq> {}\<rbrakk> \<Longrightarrow>
      \<exists>f \<in> avail p. fst (alloc p) = of_nat f * 4096 \<and> ok (snd (alloc p)) \<and>
        avail (snd (alloc p)) = avail p - {f}"
begin

lemma finite_avail: "ok p \<Longrightarrow> finite (avail p)"
  using avail_low finite_subset by blast

lemma alloc_obtain:
  assumes "ok p" and "n < card (avail p)"
  obtains f where "f \<in> avail p" "f < 262144" "fst (alloc p) = of_nat f * 4096" "ok (snd (alloc p))"
    "avail (snd (alloc p)) = avail p - {f}" "n \<le> card (avail (snd (alloc p)))"
proof -
  have "avail p \<noteq> {}" using assms(2) by auto
  then obtain f where f: "f \<in> avail p" "fst (alloc p) = of_nat f * 4096" "ok (snd (alloc p))"
    "avail (snd (alloc p)) = avail p - {f}"
    using alloc_law [OF assms(1)] by blast
  moreover have "f < 262144" using f(1) avail_low [OF assms(1)] by blast
  moreover have "n \<le> card (avail (snd (alloc p)))"
    using f assms finite_avail by (simp add: card_Diff_singleton)
  ultimately show ?thesis using that by blast
qed

end

definition avail_frames :: "pmm \<Rightarrow> nat set" where
  "avail_frames p = {f \<in> free_set p. f < 262144}"

interpretation fs: frame_source alloc_frame pmm_inv avail_frames
proof
  fix p
  assume inv: "pmm_inv p"
  show "avail_frames p \<subseteq> {..<262144}" by (auto simp: avail_frames_def)
  assume ne: "avail_frames p \<noteq> {}"
  from inv show "\<exists>f \<in> avail_frames p. fst (alloc_frame p) = of_nat f * 4096 \<and> pmm_inv (snd (alloc_frame p)) \<and>
      avail_frames (snd (alloc_frame p)) = avail_frames p - {f}"
  proof (cases rule: alloc_frame_cases)
    case (got f)
    have "f < unat (total_frames p)" using got(1) by (simp add: free_set_def)
    then show ?thesis
      using got inv take_frame_inv [OF inv got(1)] take_frame_free [OF inv]
      by (intro bexI [of _ f]) (auto simp: avail_frames_def FRAME_SIZE_def)
  next
    case none
    then show ?thesis using ne by (force simp: avail_frames_def)
  qed
qed

end
