(* ===== verification/Paging.thy ===== *)
theory Paging
  imports Pmm
begin

text \<open>
  The paging component (\<open>kernel/mm/paging.c\<close>, \<open>include/paging.h\<close>). Physical memory
  is a function from a frame number and a word index to the 32-bit word stored there, so
  that a page table, the page directory and any aliasing between them are words of the same
  memory; the bit fields of \<open>struct page_table_entry\<close> and \<open>struct page_dir_entry\<close>
  are bits of these words. The kernel reaches physical memory through the higher half, at
  its physical address plus \<open>0xC0000000\<close>. The MMU's walk of the two levels is
  \<open>page_entry\<close> (4 KB pages: the kernel never sets CR4.PSE).
\<close>

section \<open>State\<close>

definition PAGE_SIZE :: u32 where "PAGE_SIZE = 4096"

record vmm =
  pmem :: "nat \<Rightarrow> nat \<Rightarrow> u32"
  kernel_directory :: u32
  cr3 :: u32
  frames :: pmm

text \<open>The frame a higher-half pointer to a frame points to.\<close>

definition virt_frame :: "u32 \<Rightarrow> nat" where
  "virt_frame ptr = unat (drop_bit 12 (ptr - 0xC0000000))"

text \<open>Assignments to the bit fields of an entry.\<close>

definition put_present :: "bool \<Rightarrow> u32 \<Rightarrow> u32" where
  "put_present b w = (if b then w OR 1 else w AND NOT 1)"

definition put_rw :: "bool \<Rightarrow> u32 \<Rightarrow> u32" where
  "put_rw b w = (if b then w OR 2 else w AND NOT 2)"

definition put_user :: "bool \<Rightarrow> u32 \<Rightarrow> u32" where
  "put_user b w = (if b then w OR 4 else w AND NOT 4)"

definition put_frame :: "u32 \<Rightarrow> u32 \<Rightarrow> u32" where
  "put_frame f w = (w AND 0xFFF) OR push_bit 12 f"

definition store :: "nat \<Rightarrow> nat \<Rightarrow> u32 \<Rightarrow> (nat \<Rightarrow> nat \<Rightarrow> u32) \<Rightarrow> (nat \<Rightarrow> nat \<Rightarrow> u32)" where
  "store f i w m = m(f := (m f)(i := w))"

lemma store_apply: "store f i w m g j = (if g = f \<and> j = i then w else m g j)"
  by (simp add: store_def)

section \<open>Mapping a range\<close>

text \<open>One iteration of \<open>paging_map_memory\<close>: the page of \<open>v\<close> gets the frame of \<open>p\<close>.\<close>

definition map_page :: "u32 \<Rightarrow> u32 \<Rightarrow> vmm \<Rightarrow> vmm" where
  "map_page p v st =
     (let pd = virt_frame (kernel_directory st);
          pd_idx = unat (drop_bit 22 v);
          pt_idx = unat (drop_bit 12 v AND 0x3FF);
          pde = pmem st pd pd_idx;
          (pt, st1) =
            (if \<not> bit pde 0 then
               let (pt_frame, q) = alloc_frame (frames st);
                   pt = virt_frame (pt_frame + 0xC0000000);
                   m1 = for_range 0 1024 (\<lambda>j m. store pt j (put_present False (m pt j)) m) (pmem st);
                   m2 = store pd pd_idx
                     (put_frame (drop_bit 12 pt_frame) (put_user True (put_rw True
                       (put_present True (m1 pd pd_idx))))) m1
               in (pt, st\<lparr>pmem := m2, frames := q\<rparr>)
             else (virt_frame (push_bit 12 (drop_bit 12 pde) + 0xC0000000), st));
          pte = pmem st1 pt pt_idx
      in st1\<lparr>pmem := store pt pt_idx
           (put_frame (drop_bit 12 p) (put_user True (put_rw True (put_present True pte)))) (pmem st1)\<rparr>)"

definition paging_map_memory :: "u32 \<Rightarrow> u32 \<Rightarrow> u32 \<Rightarrow> vmm \<Rightarrow> vmm" where
  "paging_map_memory phys virt size' st =
     (let num_pages = (size' + PAGE_SIZE - 1) div PAGE_SIZE;
          st1 = for_range 0 (unat num_pages)
            (\<lambda>i. map_page (phys + of_nat i * PAGE_SIZE) (virt + of_nat i * PAGE_SIZE)) st
      in st1\<lparr>cr3 := kernel_directory st1 - 0xC0000000\<rparr>)"

section \<open>Building the kernel's address space\<close>

text \<open>
  The link-time symbols \<open>__text_start\<close>, \<open>__text_end\<close>, \<open>__rodata_start\<close> and
  \<open>__rodata_end\<close>.
\<close>

record layout =
  text_start :: u32
  text_end :: u32
  rodata_start :: u32
  rodata_end :: u32

definition is_readonly :: "layout \<Rightarrow> u32 \<Rightarrow> bool" where
  "is_readonly lay virt_addr \<longleftrightarrow>
     text_start lay \<le> virt_addr \<and> virt_addr < text_end lay \<or>
     rodata_start lay \<le> virt_addr \<and> virt_addr < rodata_end lay"

text \<open>The inner loop's body: entry \<open>j\<close> of the \<open>i\<close>-th table.\<close>

definition fill_entry :: "layout \<Rightarrow> u32 \<Rightarrow> nat \<Rightarrow> nat \<Rightarrow> u32 \<Rightarrow> u32" where
  "fill_entry lay tot i j w =
     (let frame_idx = of_nat i * 1024 + of_nat j
      in if frame_idx < tot
         then put_frame frame_idx (put_user True
           (put_rw (\<not> is_readonly lay (frame_idx * PAGE_SIZE + 0xC0000000)) (put_present True w)))
         else put_present False w)"

definition fill_table :: "layout \<Rightarrow> u32 \<Rightarrow> nat \<Rightarrow> vmm \<Rightarrow> vmm" where
  "fill_table lay tot i st =
     (let (pt_frame, q) = alloc_frame (frames st);
          pt = virt_frame (pt_frame + 0xC0000000);
          pd = virt_frame (kernel_directory st);
          m1 = for_range 0 1024 (\<lambda>j m. store pt j (fill_entry lay tot i j (m pt j)) m) (pmem st)
      in st\<lparr>frames := q,
            pmem := store pd (768 + i)
              (put_frame (drop_bit 12 pt_frame) (put_user True (put_rw True
                (put_present True (m1 pd (768 + i)))))) m1\<rparr>)"

definition clear_directory :: "nat \<Rightarrow> (nat \<Rightarrow> nat \<Rightarrow> u32) \<Rightarrow> (nat \<Rightarrow> nat \<Rightarrow> u32)" where
  "clear_directory pd =
     for_range 0 1024 (\<lambda>i m. store pd i
       (put_frame 0 (put_user False (put_rw True (put_present False (m pd i))))) m)"

text \<open>
  The loop over the tables stops at \<open>num_tables\<close>, or at the break once the directory
  index reaches 1024. (The handler registration is the business of \<open>irq.c\<close>.)
\<close>

definition init_paging :: "layout \<Rightarrow> vmm \<Rightarrow> vmm" where
  "init_paging lay st =
     (let (pd_frame, q) = alloc_frame (frames st);
          kd = pd_frame + 0xC0000000;
          st1 = st\<lparr>kernel_directory := kd, frames := q,
                   pmem := clear_directory (virt_frame kd) (pmem st)\<rparr>;
          total_kb = pmm_total_memory_kb (frames st1);
          tot = (total_kb * 1024) div PAGE_SIZE;
          num_tables = (tot + 1023) div 1024;
          st2 = for_range 0 (min (unat num_tables) 256) (fill_table lay tot) st1
      in st2\<lparr>cr3 := pd_frame\<rparr>)"

section \<open>Page faults\<close>

datatype fault_cause = NotPresent | ReadOnly | UserMode | Reserved | InstrFetch

text \<open>
  The causes \<open>page_fault\<close> reports, in the order it prints them, before it stops the
  machine.
\<close>

definition page_fault :: "u32 \<Rightarrow> fault_cause list" where
  "page_fault err_code =
     (if err_code AND 0x1 = 0 then [NotPresent] else []) @
     (if err_code AND 0x2 \<noteq> 0 then [ReadOnly] else []) @
     (if err_code AND 0x4 \<noteq> 0 then [UserMode] else []) @
     (if err_code AND 0x8 \<noteq> 0 then [Reserved] else []) @
     (if err_code AND 0x10 \<noteq> 0 then [InstrFetch] else [])"

section \<open>The MMU\<close>

text \<open>
  The entry the processor finds for a virtual page number: the frame, whether writes are
  allowed and whether user mode may use it; \<^term>\<open>None\<close> is a page fault.
\<close>

definition walk :: "(nat \<Rightarrow> nat \<Rightarrow> u32) \<Rightarrow> nat \<Rightarrow> u32 \<Rightarrow> (u32 \<times> bool \<times> bool) option" where
  "walk m pd vpn =
     (let pde = m pd (unat (drop_bit 10 vpn));
          pte = m (unat (drop_bit 12 pde)) (unat (vpn AND 0x3FF))
      in if bit pde 0 \<and> bit pte 0
         then Some (drop_bit 12 pte, bit pde 1 \<and> bit pte 1, bit pde 2 \<and> bit pte 2) else None)"

definition page_entry :: "vmm \<Rightarrow> u32 \<Rightarrow> (u32 \<times> bool \<times> bool) option" where
  "page_entry st vpn = walk (pmem st) (unat (drop_bit 12 (cr3 st))) vpn"

definition translate :: "vmm \<Rightarrow> u32 \<Rightarrow> u32 option" where
  "translate st v =
     map_option (\<lambda>(f, _). push_bit 12 f OR (v AND 0xFFF)) (page_entry st (drop_bit 12 v))"

section \<open>Entries\<close>

lemma bit_put_present: "bit (put_present b w) n \<longleftrightarrow> (if n = 0 then b else bit w n)"
  by (cases n) (auto simp: put_present_def bit_simps dest: bit_imp_le_length)

lemma bit_put_rw: "bit (put_rw b w) n \<longleftrightarrow> (if n = 1 then b else bit w n)"
proof -
  have "bit (2 :: u32) n \<longleftrightarrow> n = 1" using bit_push_bit_iff_nat [of 1 1 n] by (auto simp: bit_2_iff)
  then show ?thesis by (auto simp: put_rw_def bit_simps dest: bit_imp_le_length)
qed

lemma bit_put_user: "bit (put_user b w) n \<longleftrightarrow> (if n = 2 then b else bit w n)"
proof -
  have "(4 :: u32) = 2 ^ 2" by simp
  then have "bit (4 :: u32) n \<longleftrightarrow> n = 2" by (simp only: bit_exp_iff) auto
  then show ?thesis by (auto simp: put_user_def bit_simps dest: bit_imp_le_length)
qed

lemma put_frame_low: "n < 12 \<Longrightarrow> bit (put_frame f w) n \<longleftrightarrow> bit w n"
proof -
  assume n: "n < 12"
  have m: "(0xFFF :: u32) = mask 12" by (simp add: mask_eq_exp_minus_1)
  from n show ?thesis by (simp only: put_frame_def m) (auto simp: bit_simps)
qed

lemma drop_bit_put_frame: "drop_bit 12 (put_frame f w) = take_bit 20 f"
proof -
  have m: "(0xFFF :: u32) = mask 12" by (simp add: mask_eq_exp_minus_1)
  show ?thesis
    by (rule bit_word_eqI) (simp only: put_frame_def m, auto simp: bit_simps)
qed

lemmas put_bits = bit_put_present bit_put_rw bit_put_user put_frame_low drop_bit_put_frame

text \<open>A virtual page number is its directory index and its table index.\<close>

lemma vpn_split: "drop_bit 10 a = drop_bit 10 b \<and> a AND 0x3FF = b AND (0x3FF :: u32) \<longleftrightarrow> a = b"
proof -
  have m: "(0x3FF :: u32) = mask 10" by (simp add: mask_eq_exp_minus_1)
  show ?thesis unfolding m take_bit_eq_mask [symmetric]
    by (metis bits_ident)
qed

lemma pd_idx_lt: "unat (drop_bit 10 (drop_bit 12 (v :: u32))) < 1024"
  using unat_lt_u32 [of v] by (simp add: drop_bit_eq_div unat_div less_mult_imp_div_less)

lemma pt_idx_lt: "unat (x AND (0x3FF :: u32)) < 1024"
proof -
  have m: "(0x3FF :: u32) = mask 10" by (simp add: mask_eq_exp_minus_1)
  show ?thesis unfolding m take_bit_eq_mask [symmetric] by (simp add: unsigned_take_bit_eq take_bit_nat_def)
qed

lemma for_range_store:
  "for_range 0 n (\<lambda>j m. store f j (g j (m f j)) m) m =
     m(f := \<lambda>j. if j < n then g j (m f j) else m f j)"
  by (induction n) (auto simp: for_range_Suc store_def less_Suc_eq fun_eq_iff)

section \<open>Invariant\<close>

text \<open>
  The directory's present entries point to tables that are distinct from each other, from
  the directory and from every frame the allocator may still hand out, and grant user and
  write access (the tables restrict it).
\<close>

definition dir_inv :: "(nat \<Rightarrow> nat \<Rightarrow> u32) \<Rightarrow> nat \<Rightarrow> pmm \<Rightarrow> bool" where
  "dir_inv m pd q \<longleftrightarrow> pmm_inv q \<and> pd \<notin> avail_frames q \<and>
     (\<forall>i < 1024. bit (m pd i) 0 \<longrightarrow>
        bit (m pd i) 1 \<and> bit (m pd i) 2 \<and>
        unat (drop_bit 12 (m pd i)) \<noteq> pd \<and> unat (drop_bit 12 (m pd i)) \<notin> avail_frames q) \<and>
     (\<forall>i < 1024. \<forall>j < 1024. i \<noteq> j \<longrightarrow> bit (m pd i) 0 \<longrightarrow> bit (m pd j) 0 \<longrightarrow>
        unat (drop_bit 12 (m pd i)) \<noteq> unat (drop_bit 12 (m pd j)))"

definition vm_inv :: "vmm \<Rightarrow> bool" where
  "vm_inv st \<longleftrightarrow> cr3 st = kernel_directory st - 0xC0000000 \<and>
     dir_inv (pmem st) (virt_frame (kernel_directory st)) (frames st)"

lemma virt_frame_of_nat: "f < 262144 \<Longrightarrow> virt_frame (of_nat f * 4096 + 0xC0000000) = f"
proof -
  assume f: "f < 262144"
  have "unat (of_nat f * 4096 :: u32) = f * 4096"
    using f by (simp add: unat_word_ariths unat_of_nat_u32)
  then show ?thesis by (simp add: virt_frame_def drop_bit_eq_div unat_div)
qed

lemma take_bit_frame: "f < 262144 \<Longrightarrow> take_bit 20 (drop_bit 12 (of_nat f * 4096 :: u32)) = of_nat f"
proof -
  assume f: "f < 262144"
  have "unat (drop_bit 12 (of_nat f * 4096 :: u32)) = f"
    using f by (simp add: drop_bit_eq_div unat_div unat_word_ariths unat_of_nat_u32)
  then have "unat (take_bit 20 (drop_bit 12 (of_nat f * 4096 :: u32))) = f"
    using f by (simp add: unsigned_take_bit_eq take_bit_nat_eq_self)
  then show ?thesis using f by (simp add: word_unat_eq_iff unat_of_nat_u32)
qed

lemma virt_frame_table: "virt_frame (push_bit 12 (drop_bit 12 w) + 0xC0000000) = unat (drop_bit 12 w)"
proof -
  have "drop_bit 12 (push_bit 12 (drop_bit 12 w)) = drop_bit 12 (w :: u32)"
    by (rule bit_word_eqI) (auto simp: bit_simps dest: bit_imp_le_length)
  then show ?thesis by (simp add: virt_frame_def)
qed

text \<open>The directory entry that \<open>init_paging\<close> and \<open>paging_map_memory\<close> write for a new table.\<close>

abbreviation new_pde :: "u32 \<Rightarrow> u32 \<Rightarrow> u32" where
  "new_pde a w \<equiv> put_frame (drop_bit 12 a) (put_user True (put_rw True (put_present True w)))"

text \<open>
  Installing a table: frame \<open>f\<close>, taken from the allocator, becomes table \<open>k\<close>; the
  entries of all other tables and directory slots are as before.
\<close>

lemma install_table:
  assumes inv: "dir_inv m pd q" and k: "k < 1024" and absent: "\<not> bit (m pd k) 0"
    and f: "f \<in> avail_frames q" "f < 262144" and q': "pmm_inv q'" "avail_frames q' = avail_frames q - {f}"
    and m': "m' = store pd k (new_pde (of_nat f * 4096) (m pd k)) (m(f := t))"
  shows "dir_inv m' pd q'"
    and "walk m' pd (drop_bit 12 x) =
      (if unat (drop_bit 10 (drop_bit 12 x)) = k
       then (let pte = t (unat (drop_bit 12 x AND 0x3FF))
             in if bit pte 0 then Some (drop_bit 12 pte, bit pte 1, bit pte 2) else None)
       else walk m pd (drop_bit 12 x))"
    and "\<And>i. bit (m' pd i) 0 \<longleftrightarrow> i = k \<or> bit (m pd i) 0"
proof -
  have fpd: "f \<noteq> pd" using inv f(1) by (auto simp: dir_inv_def)
  have dir: "m' pd i = (if i = k then new_pde (of_nat f * 4096) (m pd k) else m pd i)" for i
    using fpd by (simp add: m' store_apply)
  have mem: "m' g = m g" if "g \<noteq> pd" "g \<noteq> f" for g
    using that by (simp add: m' store_def)
  have tab: "m' f = t" using fpd by (simp add: m' store_def)
  have pt: "unat (drop_bit 12 (m' pd k)) = f"
    using f(2) by (simp add: dir put_bits take_bit_frame unat_of_nat_u32)
  have old: "unat (drop_bit 12 (m pd i)) \<noteq> f" "unat (drop_bit 12 (m pd i)) \<noteq> pd"
    if "i < 1024" "bit (m pd i) 0" for i
    using inv f(1) that by (auto simp: dir_inv_def)
  show pres: "bit (m' pd i) 0 \<longleftrightarrow> i = k \<or> bit (m pd i) 0" for i
    by (auto simp: dir put_bits)
  show "dir_inv m' pd q'"
    unfolding dir_inv_def
  proof (intro conjI allI impI)
    show "pmm_inv q'" and "pd \<notin> avail_frames q'" using inv q' by (auto simp: dir_inv_def)
  next
    fix i assume i: "i < 1024" "bit (m' pd i) 0"
    show "bit (m' pd i) 1" "bit (m' pd i) 2" using inv i by (auto simp: dir put_bits dir_inv_def split: if_splits)
    show "unat (drop_bit 12 (m' pd i)) \<noteq> pd"
      using pt fpd old i by (cases "i = k") (auto simp: dir)
    show "unat (drop_bit 12 (m' pd i)) \<notin> avail_frames q'"
    proof (cases "i = k")
      case True
      then show ?thesis using pt q' by simp
    next
      case False
      then show ?thesis using inv i q' by (auto simp: dir dir_inv_def)
    qed
  next
    fix i j assume ij: "i < 1024" "j < 1024" "i \<noteq> j" and p: "bit (m' pd i) 0" "bit (m' pd j) 0"
    consider "i = k" | "j = k" | "i \<noteq> k" "j \<noteq> k" by blast
    then show "unat (drop_bit 12 (m' pd i)) \<noteq> unat (drop_bit 12 (m' pd j))"
    proof cases
      case 1
      then show ?thesis using pt ij p old [of j] by (auto simp: dir)
    next
      case 2
      then show ?thesis using pt ij p old [of i] by (auto simp: dir)
    next
      case 3
      then show ?thesis using inv ij p by (simp add: dir dir_inv_def)
    qed
  qed
  show "walk m' pd (drop_bit 12 x) =
      (if unat (drop_bit 10 (drop_bit 12 x)) = k
       then (let pte = t (unat (drop_bit 12 x AND 0x3FF))
             in if bit pte 0 then Some (drop_bit 12 pte, bit pte 1, bit pte 2) else None)
       else walk m pd (drop_bit 12 x))"
  proof (cases "unat (drop_bit 10 (drop_bit 12 x)) = k")
    case True
    have "bit (m' pd k) 0" "bit (m' pd k) 1" "bit (m' pd k) 2" by (simp_all add: dir put_bits)
    then show ?thesis using True by (simp only: walk_def pt tab Let_def True) simp
  next
    case False
    let ?i = "unat (drop_bit 10 (drop_bit 12 x))"
    have same: "m' pd ?i = m pd ?i" using False by (simp only: dir) simp
    show ?thesis
    proof (cases "bit (m pd ?i) 0")
      case True
      then have "m' (unat (drop_bit 12 (m pd ?i))) = m (unat (drop_bit 12 (m pd ?i)))"
        using old [OF pd_idx_lt] mem by blast
      then show ?thesis using False by (simp only: walk_def same Let_def) simp
    next
      case absent: False
      then show ?thesis using False by (simp only: walk_def same Let_def) simp
    qed
  qed
qed

text \<open>Writing entry \<open>w\<close> for the page of \<open>v\<close> into its table changes this page only.\<close>

lemma set_entry:
  assumes inv: "dir_inv m pd q" and pres: "bit (m pd (unat (drop_bit 10 (drop_bit 12 v)))) 0"
    and w: "bit w 0" "bit w 1" "bit w 2"
    and m': "m' = store (unat (drop_bit 12 (m pd (unat (drop_bit 10 (drop_bit 12 v))))))
                (unat (drop_bit 12 v AND 0x3FF)) w m"
  shows "dir_inv m' pd q" and "m' pd = m pd"
    and "walk m' pd (drop_bit 12 x) =
      (if drop_bit 12 x = drop_bit 12 v then Some (drop_bit 12 w, True, True) else walk m pd (drop_bit 12 x))"
proof -
  let ?i = "unat (drop_bit 10 (drop_bit 12 v))" and ?j = "unat (drop_bit 12 v AND 0x3FF)"
  let ?f = "unat (drop_bit 12 (m pd ?i))"
  have fpd: "?f \<noteq> pd" using inv pres pd_idx_lt [of v] by (simp add: dir_inv_def)
  then show dir: "m' pd = m pd" by (simp add: m' store_def)
  then show "dir_inv m' pd q" using inv by (simp add: dir_inv_def)
  let ?k = "unat (drop_bit 10 (drop_bit 12 x))" and ?l = "unat (drop_bit 12 x AND 0x3FF)"
  have same: "drop_bit 12 x = drop_bit 12 v \<longleftrightarrow> ?k = ?i \<and> ?l = ?j"
    using vpn_split [of "drop_bit 12 x" "drop_bit 12 v"] by (simp add: word_unat_eq_iff)
  show "walk m' pd (drop_bit 12 x) =
      (if drop_bit 12 x = drop_bit 12 v then Some (drop_bit 12 w, True, True) else walk m pd (drop_bit 12 x))"
  proof (cases "?k = ?i")
    case True
    have "bit (m pd ?i) 1" "bit (m pd ?i) 2" using inv pres pd_idx_lt [of v] by (simp_all add: dir_inv_def)
    then show ?thesis
      unfolding walk_def Let_def dir same True using pres w by (simp add: m' store_apply)
  next
    case False
    then have "bit (m pd ?k) 0 \<Longrightarrow> unat (drop_bit 12 (m pd ?k)) \<noteq> ?f"
      using inv pres pd_idx_lt [of v] pd_idx_lt [of x] unfolding dir_inv_def by blast
    then show ?thesis
      unfolding walk_def Let_def dir same using False by (auto simp: m' store_apply)
  qed
qed

lemma map_page_spec:
  fixes st v p
  defines "pd \<equiv> virt_frame (kernel_directory st)" and "k \<equiv> unat (drop_bit 10 (drop_bit 12 v))"
    and "st' \<equiv> map_page p v st"
  assumes inv: "dir_inv (pmem st) pd (frames st)"
    and room: "\<not> bit (pmem st pd k) 0 \<Longrightarrow> 0 < card (avail_frames (frames st))"
  shows "kernel_directory st' = kernel_directory st" and "dir_inv (pmem st') pd (frames st')"
    and "walk (pmem st') pd (drop_bit 12 x) =
      (if drop_bit 12 x = drop_bit 12 v then Some (drop_bit 12 p, True, True)
       else walk (pmem st) pd (drop_bit 12 x))"
    and "bit (pmem st' pd i) 0 \<longleftrightarrow> i = k \<or> bit (pmem st pd i) 0"
    and "card (avail_frames (frames st)) \<le> card (avail_frames (frames st')) + (if bit (pmem st pd k) 0 then 0 else 1)"
proof -
  have k: "k = unat (drop_bit 22 v)" by (simp add: k_def)
  have k1024: "k < 1024" using pd_idx_lt by (simp add: k_def)
  let ?w = "\<lambda>pte. put_frame (drop_bit 12 p) (put_user True (put_rw True (put_present True pte)))"
  have w: "bit (?w pte) 0" "bit (?w pte) 1" "bit (?w pte) 2" "drop_bit 12 (?w pte) = drop_bit 12 p" for pte
  proof -
    show "bit (?w pte) 0" "bit (?w pte) 1" "bit (?w pte) 2" by (simp_all add: put_bits)
    have "take_bit 20 (drop_bit 12 p) = drop_bit 12 p"
      by (rule bit_word_eqI) (auto simp: bit_simps dest: bit_imp_le_length)
    then show "drop_bit 12 (?w pte) = drop_bit 12 p" by (simp only: put_bits)
  qed
  have "kernel_directory st' = kernel_directory st \<and> dir_inv (pmem st') pd (frames st') \<and>
    walk (pmem st') pd (drop_bit 12 x) =
      (if drop_bit 12 x = drop_bit 12 v then Some (drop_bit 12 p, True, True)
       else walk (pmem st) pd (drop_bit 12 x)) \<and>
    (bit (pmem st' pd i) 0 \<longleftrightarrow> i = k \<or> bit (pmem st pd i) 0) \<and>
    card (avail_frames (frames st)) \<le> card (avail_frames (frames st')) + (if bit (pmem st pd k) 0 then 0 else 1)"
  proof (cases "bit (pmem st pd k) 0")
    case True
    have st': "st' = st\<lparr>pmem := store (unat (drop_bit 12 (pmem st pd k))) (unat (drop_bit 12 v AND 0x3FF))
        (?w (pmem st (unat (drop_bit 12 (pmem st pd k))) (unat (drop_bit 12 v AND 0x3FF)))) (pmem st)\<rparr>"
      unfolding st'_def map_page_def Let_def pd_def [symmetric] k [symmetric]
      using True by (simp add: virt_frame_table)
    note se = set_entry [OF inv True [unfolded k_def] w(1-3) refl, folded k_def]
    have mem: "pmem st' = store (unat (drop_bit 12 (pmem st pd k))) (unat (drop_bit 12 v AND 0x3FF))
        (?w (pmem st (unat (drop_bit 12 (pmem st pd k))) (unat (drop_bit 12 v AND 0x3FF)))) (pmem st)"
      by (simp add: st')
    show ?thesis
    proof (intro conjI)
      show "dir_inv (pmem st') pd (frames st')" using se(1) by (simp add: st')
      show "walk (pmem st') pd (drop_bit 12 x) =
        (if drop_bit 12 x = drop_bit 12 v then Some (drop_bit 12 p, True, True)
         else walk (pmem st) pd (drop_bit 12 x))" unfolding mem se(3) w(4) ..
      show "bit (pmem st' pd i) 0 \<longleftrightarrow> i = k \<or> bit (pmem st pd i) 0"
        unfolding mem se(2) using True by blast
    qed (simp_all add: st' True)
  next
    case False
    have pi: "pmm_inv (frames st)" using inv by (simp add: dir_inv_def)
    obtain f where f: "f \<in> avail_frames (frames st)" "f < 262144"
      "fst (alloc_frame (frames st)) = of_nat f * 4096" "pmm_inv (snd (alloc_frame (frames st)))"
      "avail_frames (snd (alloc_frame (frames st))) = avail_frames (frames st) - {f}"
      by (rule fs.alloc_obtain [OF pi room [OF False]]) blast
    define q where "q = snd (alloc_frame (frames st))"
    define t where "t = (\<lambda>j. if j < 1024 then put_present False (pmem st f j) else pmem st f j)"
    define m2 where "m2 = store pd k (new_pde (of_nat f * 4096) (pmem st pd k)) ((pmem st)(f := t))"
    have fpd: "f \<noteq> pd" using inv f(1) by (auto simp: dir_inv_def)
    have al: "alloc_frame (frames st) = (of_nat f * 4096, q)" using f(3) by (simp add: q_def prod_eq_iff)
    have st': "st' = st\<lparr>frames := q, pmem := store f (unat (drop_bit 12 v AND 0x3FF))
        (?w (m2 f (unat (drop_bit 12 v AND 0x3FF)))) m2\<rparr>"
      unfolding st'_def map_page_def Let_def pd_def [symmetric] k [symmetric] al
      using False f(2) fpd
      by (simp add: for_range_store [of 1024 f "\<lambda>_. put_present False"] virt_frame_of_nat m2_def t_def)
    note it = install_table [OF inv k1024 False f(1,2) f(4,5) [folded q_def], of m2 t, OF m2_def]
    have p2: "bit (m2 pd k) 0" using it(3) by blast
    have pt: "unat (drop_bit 12 (m2 pd k)) = f"
      using f(2) fpd by (simp add: m2_def store_apply put_bits take_bit_frame unat_of_nat_u32)
    note se = set_entry [OF it(1) p2 [unfolded k_def] w(1-3) refl, folded k_def, unfolded pt]
    have mem: "pmem st' = store f (unat (drop_bit 12 v AND 0x3FF))
        (?w (m2 f (unat (drop_bit 12 v AND 0x3FF)))) m2"
      by (simp add: st')
    have absent: "walk m2 pd (drop_bit 12 x) = walk (pmem st) pd (drop_bit 12 x)"
    proof (cases "unat (drop_bit 10 (drop_bit 12 x)) = k")
      case True
      have "\<not> bit (t (unat (drop_bit 12 x AND 0x3FF))) 0" using pt_idx_lt by (simp add: t_def put_bits)
      moreover have "walk (pmem st) pd (drop_bit 12 x) = None"
        unfolding walk_def Let_def True using False by simp
      ultimately show ?thesis unfolding it(2) using True by simp
    next
      case other: False
      then show ?thesis unfolding it(2) by simp
    qed
    have fin: "finite (avail_frames (frames st))" using fs.finite_avail [OF pi] .
    show ?thesis
    proof (intro conjI)
      show "dir_inv (pmem st') pd (frames st')" using se(1) by (simp add: st')
      show "walk (pmem st') pd (drop_bit 12 x) =
        (if drop_bit 12 x = drop_bit 12 v then Some (drop_bit 12 p, True, True)
         else walk (pmem st) pd (drop_bit 12 x))" unfolding mem se(3) w(4) absent ..
      show "bit (pmem st' pd i) 0 \<longleftrightarrow> i = k \<or> bit (pmem st pd i) 0"
        unfolding mem se(2) it(3) ..
      show "card (avail_frames (frames st)) \<le> card (avail_frames (frames st')) + (if bit (pmem st pd k) 0 then 0 else 1)"
        using f(1,5) fin False by (simp add: st' q_def card_Diff_singleton)
    qed (simp add: st')
  qed
  then show "kernel_directory st' = kernel_directory st" and "dir_inv (pmem st') pd (frames st')"
    and "walk (pmem st') pd (drop_bit 12 x) =
      (if drop_bit 12 x = drop_bit 12 v then Some (drop_bit 12 p, True, True)
       else walk (pmem st) pd (drop_bit 12 x))"
    and "bit (pmem st' pd i) 0 \<longleftrightarrow> i = k \<or> bit (pmem st pd i) 0"
    and "card (avail_frames (frames st)) \<le> card (avail_frames (frames st')) + (if bit (pmem st pd k) 0 then 0 else 1)"
    by blast+
qed

section \<open>Mapping a range maps exactly this range\<close>

text \<open>How many pages an address lies above \<open>virt\<close>, around the end of the address space.\<close>

definition page_index :: "u32 \<Rightarrow> u32 \<Rightarrow> nat" where
  "page_index virt x = (unat (drop_bit 12 x) + 1048576 - unat (drop_bit 12 virt)) mod 1048576"

lemma unat_page_lt: "unat (drop_bit 12 (x :: u32)) < 1048576"
  using unat_lt_u32 [of x] by (simp add: drop_bit_eq_div unat_div less_mult_imp_div_less)

lemma unat_page_add:
  "unat (drop_bit 12 (virt + of_nat i * 4096 :: u32)) = (unat (drop_bit 12 virt) + i) mod 1048576"
proof -
  have "unat (virt + of_nat i * 4096) = (unat virt + i * 4096) mod 4294967296"
    by (simp add: unat_word_ariths unat_of_nat take_bit_nat_def mod_simps)
  moreover have "(unat virt + i * 4096) mod (4096 * 1048576) div 4096 = (unat virt div 4096 + i) mod 1048576"
    unfolding mod_mult2_eq by (simp add: add.commute)
  ultimately show ?thesis by (simp add: drop_bit_eq_div unat_div)
qed

lemma page_index_iff:
  "i < 1048576 \<Longrightarrow> drop_bit 12 x = drop_bit 12 (virt + of_nat i * 4096 :: u32) \<longleftrightarrow> page_index virt x = i"
proof -
  assume i: "i < 1048576"
  define X where "X = unat (drop_bit 12 x)"
  define V where "V = unat (drop_bit 12 virt)"
  have "X < 1048576" "V < 1048576" by (simp_all add: X_def V_def unat_page_lt)
  moreover have "(V + i) mod 1048576 = (if V + i < 1048576 then V + i else V + i - 1048576)"
    using calculation i by (simp add: le_mod_geq)
  moreover have "(X + 1048576 - V) mod 1048576 = (if X < V then X + 1048576 - V else X - V)"
    using calculation by (simp add: le_mod_geq)
  ultimately have "X = (V + i) mod 1048576 \<longleftrightarrow> (X + 1048576 - V) mod 1048576 = i" using i by auto
  then show ?thesis by (simp add: word_unat_eq_iff unat_page_add page_index_def X_def V_def)
qed

text \<open>The directory slots that a range of pages needs and that have no table yet.\<close>

definition missing_tables :: "vmm \<Rightarrow> u32 \<Rightarrow> nat \<Rightarrow> nat \<Rightarrow> nat set" where
  "missing_tables st virt lo hi =
     {k. \<not> bit (pmem st (virt_frame (kernel_directory st)) k) 0 \<and>
         (\<exists>i. lo \<le> i \<and> i < hi \<and> k = unat (drop_bit 10 (drop_bit 12 (virt + of_nat i * 4096))))}"

lemma finite_missing: "finite (missing_tables st virt lo hi)"
  by (rule finite_subset [of _ "(\<lambda>i. unat (drop_bit 10 (drop_bit 12 (virt + of_nat i * 4096)))) ` {lo..<hi}"])
    (auto simp: missing_tables_def)

lemma map_range_step:
  fixes st st' virt phys i
  defines "pd \<equiv> virt_frame (kernel_directory st)"
    and "st' \<equiv> map_page (phys + of_nat i * 4096) (virt + of_nat i * 4096) st"
  assumes inv: "dir_inv (pmem st) pd (frames st)" and i: "i < n" "n \<le> 1048576"
    and room: "card (missing_tables st virt i n) \<le> card (avail_frames (frames st))"
  shows "kernel_directory st' = kernel_directory st" and "dir_inv (pmem st') pd (frames st')"
    and "card (missing_tables st' virt (Suc i) n) \<le> card (avail_frames (frames st'))"
    and "walk (pmem st') pd (drop_bit 12 x) =
      (if page_index virt x = i then Some (drop_bit 12 (phys + of_nat i * 4096), True, True)
       else walk (pmem st) pd (drop_bit 12 x))"
proof -
  let ?v = "virt + of_nat i * 4096"
  let ?k = "unat (drop_bit 10 (drop_bit 12 ?v))"
  have mem: "?k \<in> missing_tables st virt i n" if "\<not> bit (pmem st pd ?k) 0"
    using that i by (auto simp: missing_tables_def pd_def)
  then have pos: "0 < card (avail_frames (frames st))" if "\<not> bit (pmem st pd ?k) 0"
  proof -
    have "0 < card (missing_tables st virt i n)"
      using mem [OF that] finite_missing by (metis card_gt_0_iff empty_iff)
    then show ?thesis using room by linarith
  qed
  note sp = map_page_spec [where st = st and v = ?v and p = "phys + of_nat i * 4096",
      folded pd_def st'_def, OF inv pos]
  show kd: "kernel_directory st' = kernel_directory st" and "dir_inv (pmem st') pd (frames st')"
    using sp(1,2) by simp_all
  show "walk (pmem st') pd (drop_bit 12 x) =
      (if page_index virt x = i then Some (drop_bit 12 (phys + of_nat i * 4096), True, True)
       else walk (pmem st) pd (drop_bit 12 x))"
    using sp(3) [of x] page_index_iff [of i x virt] i by simp
  have sub: "missing_tables st' virt (Suc i) n \<subseteq> missing_tables st virt i n - {?k}"
    using sp(4) unfolding missing_tables_def kd pd_def [symmetric] by (auto intro: Suc_leD)
  then have le: "card (missing_tables st' virt (Suc i) n) \<le> card (missing_tables st virt i n - {?k})"
    using finite_missing by (intro card_mono) auto
  show "card (missing_tables st' virt (Suc i) n) \<le> card (avail_frames (frames st'))"
  proof (cases "bit (pmem st pd ?k) 0")
    case True
    then show ?thesis
      using sp(5) le room card_Diff1_le [of "missing_tables st virt i n" ?k] by simp
  next
    case False
    then have "card (missing_tables st virt i n - {?k}) = card (missing_tables st virt i n) - 1"
      using mem finite_missing by (simp add: card_Diff_singleton)
    then show ?thesis using sp(5) le room False by simp
  qed
qed

lemma num_pages_lt: "unat ((size' + PAGE_SIZE - 1) div PAGE_SIZE) < 1048576"
  using unat_lt_u32 [of "size' + PAGE_SIZE - 1"]
  by (simp add: PAGE_SIZE_def unat_div less_mult_imp_div_less)

lemma map_range:
  fixes st virt phys
  defines "pd \<equiv> virt_frame (kernel_directory st)"
  assumes inv: "dir_inv (pmem st) pd (frames st)" and n: "n \<le> 1048576"
    and room: "card (missing_tables st virt 0 n) \<le> card (avail_frames (frames st))"
  shows "let st' = for_range 0 n (\<lambda>i. map_page (phys + of_nat i * 4096) (virt + of_nat i * 4096)) st
    in kernel_directory st' = kernel_directory st \<and> dir_inv (pmem st') pd (frames st') \<and>
      (\<forall>x. walk (pmem st') pd (drop_bit 12 x) =
        (if page_index virt x < n then Some (drop_bit 12 (phys + of_nat (page_index virt x) * 4096), True, True)
         else walk (pmem st) pd (drop_bit 12 x)))"
proof -
  let ?P = "\<lambda>i st'. kernel_directory st' = kernel_directory st \<and> dir_inv (pmem st') pd (frames st') \<and>
      card (missing_tables st' virt i n) \<le> card (avail_frames (frames st')) \<and>
      (\<forall>x. walk (pmem st') pd (drop_bit 12 x) =
        (if page_index virt x < i then Some (drop_bit 12 (phys + of_nat (page_index virt x) * 4096), True, True)
         else walk (pmem st) pd (drop_bit 12 x)))"
  have "?P n (for_range 0 n (\<lambda>i. map_page (phys + of_nat i * 4096) (virt + of_nat i * 4096)) st)"
  proof (rule for_range_inv [where P = ?P])
    show "?P 0 st" using inv room by simp
  next
    fix i s
    assume i: "i < n" and P: "?P i s"
    note step = map_range_step [of s, OF _ i n, of virt phys]
    have pd: "virt_frame (kernel_directory s) = pd" using P by (simp add: pd_def)
    show "?P (Suc i) (map_page (phys + of_nat i * 4096) (virt + of_nat i * 4096) s)"
      using step(1-3) step(4) P unfolding pd by (simp add: less_Suc_eq)
  qed simp
  then show ?thesis by (simp add: Let_def)
qed

lemma paging_map_entries:
  assumes "vm_inv st"
    and "n = unat ((size' + PAGE_SIZE - 1) div PAGE_SIZE)"
    and "card (missing_tables st virt 0 n) \<le> card (avail_frames (frames st))"
  shows "vm_inv (paging_map_memory phys virt size' st) \<and>
    page_entry (paging_map_memory phys virt size' st) (drop_bit 12 v) =
      (if page_index virt v < n
       then Some (drop_bit 12 (phys + of_nat (page_index virt v) * 4096), True, True)
       else page_entry st (drop_bit 12 v))"
proof -
  let ?pd = "virt_frame (kernel_directory st)"
  have inv: "dir_inv (pmem st) ?pd (frames st)" and cr: "cr3 st = kernel_directory st - 0xC0000000"
    using assms(1) by (simp_all add: vm_inv_def)
  have "n \<le> 1048576" using num_pages_lt [of size'] by (simp add: assms(2))
  note range = map_range [OF inv this assms(3), of phys, unfolded Let_def]
  have "paging_map_memory phys virt size' st =
      (let st1 = for_range 0 n (\<lambda>i. map_page (phys + of_nat i * 4096) (virt + of_nat i * 4096)) st
       in st1\<lparr>cr3 := kernel_directory st1 - 0xC0000000\<rparr>)"
    unfolding paging_map_memory_def assms(2) by (simp add: PAGE_SIZE_def Let_def)
  then show ?thesis
    using range cr by (simp add: Let_def vm_inv_def page_entry_def virt_frame_def)
qed


text \<open>A directory without tables in frame 1, and one free frame.\<close>

definition vm_example :: vmm where
  "vm_example = \<lparr>pmem = (\<lambda>_ _. 0), kernel_directory = 0xC0001000, cr3 = 0x1000, frames = pmm_example\<rparr>"

lemma vm_example_inv: "vm_inv vm_example"
  using pmm_example_inv pmm_example_sets
  by (simp add: vm_inv_def dir_inv_def vm_example_def virt_frame_def avail_frames_def)

lemma vm_example_room: "card (missing_tables vm_example 0xE0000000 0 2) \<le> card (avail_frames (frames vm_example))"
proof -
  have "missing_tables vm_example 0xE0000000 0 2 \<subseteq> {896}"
    by (auto simp: missing_tables_def less_2_cases_iff)
  then have "card (missing_tables vm_example 0xE0000000 0 2) \<le> 1"
    using card_mono [of "{896 :: nat}"] by fastforce
  moreover have "avail_frames (frames vm_example) = {300}"
    using pmm_example_sets by (auto simp: vm_example_def avail_frames_def)
  ultimately show ?thesis by simp
qed


lemma page_offset:
  assumes "4096 dvd unat (virt :: u32)" and "unat virt + unat off < 4294967296"
  shows "page_index virt (virt + off) = unat off div 4096"
    and "(virt + off) AND 0xFFF = off AND 0xFFF"
proof -
  obtain k where k: "unat virt = 4096 * k" using assms(1) by blast
  have u: "unat (virt + off) = unat virt + unat off" using assms(2) by (simp add: unat_plus_u32)
  have "unat off div 4096 < 1048576" using unat_lt_u32 [of off] by (simp add: less_mult_imp_div_less)
  then show "page_index virt (virt + off) = unat off div 4096"
    using u k by (simp add: page_index_def drop_bit_eq_div unat_div)
  have m: "(0xFFF :: u32) = mask 12" by (simp add: mask_eq_exp_minus_1)
  show "(virt + off) AND 0xFFF = off AND 0xFFF"
    unfolding m take_bit_eq_mask [symmetric] word_unat_eq_iff
    by (simp add: unsigned_take_bit_eq take_bit_nat_def u k)
qed

lemma frame_offset:
  assumes "4096 dvd unat (phys :: u32)" and "unat phys + unat off < 4294967296"
  shows "push_bit 12 (drop_bit 12 (phys + of_nat (unat off div 4096) * 4096)) OR (off AND 0xFFF) = phys + off"
proof -
  obtain k where k: "unat phys = 4096 * k" using assms(1) by blast
  have u: "unat (phys + off) = 4096 * k + unat off" using assms(2) k by (simp add: unat_plus_u32)
  have "k < 1048576" using unat_lt_u32 [of phys] k by simp
  moreover have "k + unat off div 4096 < 1048576" using assms(2) k by simp
  ultimately have "unat (drop_bit 12 (phys + of_nat (unat off div 4096) * 4096)) = unat (drop_bit 12 (phys + off))"
    unfolding unat_page_add by (simp add: drop_bit_eq_div unat_div u k)
  then have d: "drop_bit 12 (phys + of_nat (unat off div 4096) * 4096) = drop_bit 12 (phys + off)"
    by (simp only: word_unat_eq_iff)
  have "push_bit 12 (drop_bit 12 x) OR take_bit 12 x = x" for x :: u32
    by (rule bit_word_eqI) (auto simp: bit_simps)
  moreover have "x AND 0xFFF = take_bit 12 x" for x :: u32
    by (simp add: take_bit_eq_mask mask_eq_exp_minus_1)
  ultimately show ?thesis
    unfolding d page_offset(2) [OF assms, symmetric] by simp
qed

text \<open>
  for a page-aligned physical and virtual address and a range that ends inside the
  address space, the address \<open>off\<close> bytes into the virtual range translates to the
  physical address \<open>off\<close> bytes above \<open>phys\<close>, for every offset below the size.
\<close>

theorem map_then_translate:
  assumes "vm_inv st"
    and "n = unat ((size' + PAGE_SIZE - 1) div PAGE_SIZE)"
    and "card (missing_tables st virt 0 n) \<le> card (avail_frames (frames st))"
    and "4096 dvd unat virt" and "4096 dvd unat phys"
    and "unat virt + unat size' < 4294967296" and "unat phys + unat size' < 4294967296"
    and "unat size' \<le> 4294963200" and "off < size'"
  shows "translate (paging_map_memory phys virt size' st) (virt + off) = Some (phys + off)"
proof -
  have off: "unat off < unat size'" using assms(9) by (simp add: word_less_nat_alt)
  have "unat (4095 + size') = unat size' + 4095" using assms(8) by (simp add: unat_plus_u32)
  then have "n = (unat size' + 4095) div 4096" by (simp add: assms(2) PAGE_SIZE_def unat_div)
  then have "unat off div 4096 < n" using off by simp
  moreover have "page_index virt (virt + off) = unat off div 4096" "(virt + off) AND 0xFFF = off AND 0xFFF"
    using page_offset [OF assms(4)] assms(6) off by simp_all
  ultimately show ?thesis
    using paging_map_entries [OF assms(1-3), of phys "virt + off"] frame_offset [OF assms(5), of off] assms(7) off
    by (simp add: translate_def)
qed

theorem map_then_translate_witness:
  "translate (paging_map_memory 0xFD000000 0xE0000000 0x1800 vm_example) (0xE0000000 + 0x17FF) =
     Some (0xFD000000 + 0x17FF)"
  by (rule map_then_translate [OF vm_example_inv _ vm_example_room]) (simp_all add: PAGE_SIZE_def)

section \<open>The address space built at boot\<close>

text \<open>The higher-half map of the first \<open>tot\<close> frames, as a function of the virtual page.\<close>

definition higher_half :: "layout \<Rightarrow> nat \<Rightarrow> u32 \<Rightarrow> (u32 \<times> bool \<times> bool) option" where
  "higher_half lay tot vpn =
     (if 786432 \<le> unat vpn \<and> unat vpn - 786432 < tot
      then Some (vpn - 786432, \<not> is_readonly lay (vpn * 4096), True) else None)"

lemma fill_entry_spec:
  assumes i: "i < 256" and x: "unat (drop_bit 10 (drop_bit 12 x)) = 768 + i"
  shows "(let pte = fill_entry lay tot i (unat (drop_bit 12 x AND 0x3FF)) w
      in if bit pte 0 then Some (drop_bit 12 pte, bit pte 1, bit pte 2) else None)
    = higher_half lay (unat tot) (drop_bit 12 x)"
proof -
  define X where "X = unat (drop_bit 12 x)"
  define j where "j = unat (drop_bit 12 x AND 0x3FF)"
  have m: "(0x3FF :: u32) = mask 10" by (simp add: mask_eq_exp_minus_1)
  have j: "j = X mod 1024"
    unfolding j_def m take_bit_eq_mask [symmetric] X_def by (simp add: unsigned_take_bit_eq take_bit_nat_def)
  have q: "X div 1024 = 768 + i" using x by (simp add: X_def drop_bit_eq_div unat_div)
  have X: "X = 786432 + (i * 1024 + j)" using div_mult_mod_eq [of X 1024] unfolding q j by simp
  have lt: "i * 1024 + j < 262144" using i by (simp add: j)
  define fi :: u32 where "fi = of_nat i * 1024 + of_nat j"
  have fi': "fi = of_nat (i * 1024 + j)" by (simp add: fi_def)
  have ufi: "unat fi = i * 1024 + j" unfolding fi' using lt by (intro unat_of_nat_u32) simp
  have dx: "drop_bit 12 x = 786432 + fi"
    unfolding word_unat_eq_iff X_def [symmetric] using lt by (simp add: unat_plus_u32 ufi X)
  then have sub: "drop_bit 12 x - 786432 = fi" "drop_bit 12 x * 4096 = fi * 4096 + 0xC0000000"
    by (simp_all add: algebra_simps)
  have tb: "take_bit 20 fi = fi"
    using lt by (simp add: word_unat_eq_iff unsigned_take_bit_eq ufi take_bit_nat_eq_self)
  have "fi < tot \<longleftrightarrow> X - 786432 < unat tot" by (simp add: word_less_nat_alt ufi X)
  then show ?thesis
    unfolding higher_half_def sub X_def [symmetric] j_def [symmetric]
    by (simp add: fill_entry_def fi_def [symmetric] put_bits tb PAGE_SIZE_def X)
qed

lemma fill_table_spec:
  fixes st i lay tot
  defines "pd \<equiv> virt_frame (kernel_directory st)" and "st' \<equiv> fill_table lay tot i st"
  assumes inv: "dir_inv (pmem st) pd (frames st)" and i: "i < 256"
    and room: "n < card (avail_frames (frames st))" and absent: "\<not> bit (pmem st pd (768 + i)) 0"
  shows "kernel_directory st' = kernel_directory st" and "dir_inv (pmem st') pd (frames st')"
    and "n \<le> card (avail_frames (frames st'))"
    and "bit (pmem st' pd k) 0 \<longleftrightarrow> k = 768 + i \<or> bit (pmem st pd k) 0"
    and "walk (pmem st') pd (drop_bit 12 x) =
      (if unat (drop_bit 10 (drop_bit 12 x)) = 768 + i then higher_half lay (unat tot) (drop_bit 12 x)
       else walk (pmem st) pd (drop_bit 12 x))"
proof -
  have pi: "pmm_inv (frames st)" using inv by (simp add: dir_inv_def)
  obtain f where f: "f \<in> avail_frames (frames st)" "f < 262144"
    "fst (alloc_frame (frames st)) = of_nat f * 4096" "pmm_inv (snd (alloc_frame (frames st)))"
    "avail_frames (snd (alloc_frame (frames st))) = avail_frames (frames st) - {f}"
    "n \<le> card (avail_frames (snd (alloc_frame (frames st))))"
    by (rule fs.alloc_obtain [OF pi room]) blast
  define q where "q = snd (alloc_frame (frames st))"
  define t where "t = (\<lambda>j. if j < 1024 then fill_entry lay tot i j (pmem st f j) else pmem st f j)"
  have fpd: "f \<noteq> pd" using inv f(1) by (auto simp: dir_inv_def)
  have al: "alloc_frame (frames st) = (of_nat f * 4096, q)" using f(3) by (simp add: q_def prod_eq_iff)
  have st': "st' = st\<lparr>frames := q, pmem := store pd (768 + i)
      (new_pde (of_nat f * 4096) (pmem st pd (768 + i))) ((pmem st)(f := t))\<rparr>"
    unfolding st'_def fill_table_def Let_def pd_def [symmetric] al
    using fpd by (simp add: virt_frame_of_nat [OF f(2)] for_range_store [of 1024 f] t_def)
  have mem: "pmem st' = store pd (768 + i)
      (new_pde (of_nat f * 4096) (pmem st pd (768 + i))) ((pmem st)(f := t))" by (simp add: st')
  have fr: "frames st' = q" by (simp add: st')
  have "768 + i < 1024" using i by simp
  note it = install_table [OF inv this absent f(1,2) f(4,5) [folded q_def] mem]
  show "kernel_directory st' = kernel_directory st" by (simp add: st')
  show "dir_inv (pmem st') pd (frames st')" using it(1) by (simp add: fr)
  show "n \<le> card (avail_frames (frames st'))" using f(6) by (simp add: fr q_def)
  show "bit (pmem st' pd k) 0 \<longleftrightarrow> k = 768 + i \<or> bit (pmem st pd k) 0" by (rule it(3))
  have "t (unat (drop_bit 12 x AND 0x3FF)) =
      fill_entry lay tot i (unat (drop_bit 12 x AND 0x3FF)) (pmem st f (unat (drop_bit 12 x AND 0x3FF)))"
    using pt_idx_lt by (simp add: t_def)
  then show "walk (pmem st') pd (drop_bit 12 x) =
      (if unat (drop_bit 10 (drop_bit 12 x)) = 768 + i then higher_half lay (unat tot) (drop_bit 12 x)
       else walk (pmem st) pd (drop_bit 12 x))"
    using it(2) [of x] fill_entry_spec [OF i] by simp
qed

lemma fill_tables:
  fixes st lay tot
  defines "pd \<equiv> virt_frame (kernel_directory st)"
  assumes inv: "dir_inv (pmem st) pd (frames st)" and n: "n \<le> 256"
    and room: "n \<le> card (avail_frames (frames st))" and absent: "\<And>k. k < 1024 \<Longrightarrow> \<not> bit (pmem st pd k) 0"
  shows "let st' = for_range 0 n (fill_table lay tot) st
    in kernel_directory st' = kernel_directory st \<and> dir_inv (pmem st') pd (frames st') \<and>
      (\<forall>x. walk (pmem st') pd (drop_bit 12 x) =
        (if 768 \<le> unat (drop_bit 10 (drop_bit 12 x)) \<and> unat (drop_bit 10 (drop_bit 12 x)) < 768 + n
         then higher_half lay (unat tot) (drop_bit 12 x) else None))"
proof -
  let ?P = "\<lambda>i s. kernel_directory s = kernel_directory st \<and> dir_inv (pmem s) pd (frames s) \<and>
      n - i \<le> card (avail_frames (frames s)) \<and>
      (\<forall>k < 1024. bit (pmem s pd k) 0 \<longrightarrow> k < 768 + i) \<and>
      (\<forall>x. walk (pmem s) pd (drop_bit 12 x) =
        (if 768 \<le> unat (drop_bit 10 (drop_bit 12 x)) \<and> unat (drop_bit 10 (drop_bit 12 x)) < 768 + i
         then higher_half lay (unat tot) (drop_bit 12 x) else None))"
  have none: "walk (pmem st) pd (drop_bit 12 x) = None" for x
    using absent [OF pd_idx_lt [of x]] by (simp add: walk_def)
  have "?P n (for_range 0 n (fill_table lay tot) st)"
  proof (rule for_range_inv [where P = ?P])
    show "?P 0 st" using inv room absent none by auto
  next
    fix i and s :: vmm
    assume i: "i < n" and P: "?P i s"
    have pd: "virt_frame (kernel_directory s) = pd" using P by (simp add: pd_def)
    have i256: "i < 256" and room': "n - Suc i < card (avail_frames (frames s))"
      using i n P by auto
    have abs': "\<not> bit (pmem s pd (768 + i)) 0"
    proof
      assume "bit (pmem s pd (768 + i)) 0"
      moreover have "768 + i < 1024" using i256 by simp
      ultimately have "768 + i < 768 + i" using P by blast
      then show False by simp
    qed
    note sp = fill_table_spec [of s, unfolded pd, OF _ i256 room' abs', of lay tot]
    have "\<forall>k < 1024. bit (pmem (fill_table lay tot i s) pd k) 0 \<longrightarrow> k < 768 + Suc i"
      using sp(4) P by auto
    then show "?P (Suc i) (fill_table lay tot i s)"
      using sp(1-3,5) P by auto
  qed simp
  then show ?thesis by (simp add: Let_def)
qed

lemma clear_directory_present:
  "clear_directory pd m g = (if g = pd then clear_directory pd m pd else m g)"
  "k < 1024 \<Longrightarrow> \<not> bit (clear_directory pd m pd k) 0"
proof -
  let ?g = "\<lambda>_ :: nat. \<lambda>w. put_frame 0 (put_user False (put_rw True (put_present False w)))"
  have c: "clear_directory pd m = m(pd := \<lambda>j. if j < 1024 then ?g j (m pd j) else m pd j)"
    unfolding clear_directory_def by (rule for_range_store [of 1024 pd ?g])
  show "clear_directory pd m g = (if g = pd then clear_directory pd m pd else m g)" by (simp add: c)
  show "k < 1024 \<Longrightarrow> \<not> bit (clear_directory pd m pd k) 0" by (simp add: c put_bits)
qed

text \<open>
  C26: on a machine with less than 4 GB and enough free frames for the directory and its
  tables, \<open>init_paging\<close> installs an address space that maps the memory of the machine,
  up to its first gigabyte, linearly at \<open>0xC0000000\<close>, read-only exactly on the kernel's
  code and constant pages, and maps nothing else; the identity map of the boot code is gone.
\<close>

theorem init_paging_higher_half:
  assumes "pmm_inv (frames st)" and "kb = unat (total_memory_kb (frames st))" and "kb < 4194304"
    and "min ((kb div 4 + 1023) div 1024) 256 < card (avail_frames (frames st))"
  shows "vm_inv (init_paging lay st) \<and>
    page_entry (init_paging lay st) (drop_bit 12 v) = higher_half lay (kb div 4) (drop_bit 12 v)"
proof -
  let ?n = "min ((kb div 4 + 1023) div 1024) 256"
  obtain f where f: "f \<in> avail_frames (frames st)" "f < 262144"
    "fst (alloc_frame (frames st)) = of_nat f * 4096" "pmm_inv (snd (alloc_frame (frames st)))"
    "avail_frames (snd (alloc_frame (frames st))) = avail_frames (frames st) - {f}"
    "?n \<le> card (avail_frames (snd (alloc_frame (frames st))))"
    by (rule fs.alloc_obtain [OF assms(1,4)]) blast
  define q where "q = snd (alloc_frame (frames st))"
  have al: "alloc_frame (frames st) = (of_nat f * 4096, q)" using f(3) by (simp add: q_def prod_eq_iff)
  have kbq: "total_memory_kb q = total_memory_kb (frames st)"
    by (simp add: q_def alloc_frame_def split: option.split)
  define tot where "tot = (total_memory_kb q * 1024) div PAGE_SIZE"
  have ut: "unat tot = kb div 4"
    using assms(2,3) by (simp add: tot_def PAGE_SIZE_def kbq unat_div unat_word_ariths)
  have un: "unat ((tot + 1023) div 1024) = (kb div 4 + 1023) div 1024"
    using assms(3) by (simp add: unat_div unat_plus_u32 ut)
  define s1 where "s1 = st\<lparr>kernel_directory := of_nat f * 4096 + 0xC0000000, frames := q,
      pmem := clear_directory f (pmem st)\<rparr>"
  have pd: "virt_frame (kernel_directory s1) = f" using f(2) by (simp add: s1_def virt_frame_of_nat)
  have absent: "\<not> bit (pmem s1 f k) 0" if "k < 1024" for k
    using clear_directory_present(2) [OF that] by (simp add: s1_def)
  have inv: "dir_inv (pmem s1) f (frames s1)"
    using f(4,5) absent by (simp add: dir_inv_def s1_def q_def)
  have init: "init_paging lay st = (for_range 0 ?n (fill_table lay tot) s1)\<lparr>cr3 := of_nat f * 4096\<rparr>"
    unfolding init_paging_def al Let_def prod.case un [symmetric]
    by (simp add: s1_def virt_frame_of_nat [OF f(2)] tot_def pmm_total_memory_kb_def)
  note ft = fill_tables [of s1, unfolded pd Let_def, OF inv _ _ absent, of ?n lay tot]
  have r: "?n \<le> 256" "?n \<le> card (avail_frames (frames s1))" using f(6) by (simp_all add: s1_def q_def)
  have hh: "higher_half lay (kb div 4) (drop_bit 12 v) = None"
    if "\<not> (768 \<le> unat (drop_bit 10 (drop_bit 12 v)) \<and> unat (drop_bit 10 (drop_bit 12 v)) < 768 + ?n)"
    using that unat_page_lt [of v] by (auto simp: higher_half_def drop_bit_eq_div unat_div)
  have "unat (of_nat f * 4096 :: u32) = f * 4096" using f(2) by (simp add: unat_word_ariths unat_of_nat_u32)
  then have "unat (drop_bit 12 (of_nat f * 4096 :: u32)) = f" by (simp add: drop_bit_eq_div unat_div)
  then show ?thesis
    using ft [OF r] hh pd by (auto simp: init vm_inv_def page_entry_def ut s1_def)
qed

text \<open>A machine with 2 MB and the frames from 320 to 511 free.\<close>

definition boot_example :: vmm where
  "boot_example = vm_example\<lparr>frames := \<lparr>frame_bitmap = (\<lambda>i. if 40 \<le> i \<and> i < 64 then 0 else 0xFF),
     total_frames = 512, used_frames_count = 320, total_memory_kb = 2048\<rparr>\<rparr>"

lemma boot_example_test:
  "f < 512 \<Longrightarrow> bitmap_test (frame_bitmap (frames boot_example)) f \<longleftrightarrow> f < 320"
proof -
  assume f: "f < 512"
  have "bit (0xFF :: u8) k" if "k < 8" for k
  proof -
    have m: "(0xFF :: u8) = mask 8" by (simp add: mask_eq_exp_minus_1)
    show ?thesis unfolding m using that by (simp only: bit_mask_iff) simp
  qed
  then have "bit (0xFF :: u8) (f mod 8)" by simp
  then show ?thesis using f by (auto simp: bitmap_test_bit boot_example_def)
qed

lemma boot_example_sets:
  "free_set (frames boot_example) = {320..<512}" "used_set (frames boot_example) = {..<320}"
proof -
  have "unat (total_frames (frames boot_example)) = 512" by (simp add: boot_example_def)
  then show "free_set (frames boot_example) = {320..<512}" "used_set (frames boot_example) = {..<320}"
    using boot_example_test by (auto simp: free_set_def used_set_def)
qed

theorem init_paging_higher_half_witness:
  "page_entry (init_paging \<lparr>text_start = 0xC0100000, text_end = 0xC0140000, rodata_start = 0xC0140000,
       rodata_end = 0xC0150000\<rparr> boot_example) 0xC0101 = Some (0x101, False, True)"
proof -
  have inv: "pmm_inv (frames boot_example)"
    by (simp add: pmm_inv_def boot_example_sets) (simp add: boot_example_def MAX_FRAMES_def)
  have av: "avail_frames (frames boot_example) = {320..<512}"
    by (auto simp: avail_frames_def boot_example_sets)
  have kb: "2048 = unat (total_memory_kb (frames boot_example))" by (simp add: boot_example_def)
  show ?thesis
    using init_paging_higher_half [OF inv kb, of "\<lparr>text_start = 0xC0100000, text_end = 0xC0140000,
        rodata_start = 0xC0140000, rodata_end = 0xC0150000\<rparr>" "0xC0101000"] av
    by (simp add: higher_half_def is_readonly_def)
qed

end
