(* ===== verification/User_Mem.thy ===== *)
theory User_Mem
  imports Paging
begin

text \<open>
  Memory as the kernel sees it when it follows a pointer of a program: bytes of physical
  memory, found through the page tables; None is a page fault. The kernel runs in ring 0 with
  write protection off (the boot code sets only the paging bit of CR0), so every present page can
  be read and written. Shown: the pages of a program behave like an array of bytes, and mapping
  a fresh frame adds a page and touches no other.
\<close>

section \<open>Bytes\<close>

definition byte_of :: "nat \<Rightarrow> u32 \<Rightarrow> u8" where
  "byte_of k w = ucast (drop_bit (8 * k) w)"

definition put_byte :: "nat \<Rightarrow> u8 \<Rightarrow> u32 \<Rightarrow> u32" where
  "put_byte k b w = (w AND NOT (push_bit (8 * k) 0xFF)) OR push_bit (8 * k) (ucast b)"

definition load8 :: "vmm \<Rightarrow> u32 \<Rightarrow> u8 option" where
  "load8 st v =
     (case page_entry st (drop_bit 12 v) of
        None \<Rightarrow> None
      | Some (f, _) \<Rightarrow> (let pos = unat (v AND 0xFFF) in Some (byte_of (pos mod 4) (pmem st (unat f) (pos div 4)))))"

definition store8 :: "u32 \<Rightarrow> u8 \<Rightarrow> vmm \<Rightarrow> vmm option" where
  "store8 v b st =
     (case page_entry st (drop_bit 12 v) of
        None \<Rightarrow> None
      | Some (f, _) \<Rightarrow> (let pos = unat (v AND 0xFFF)
          in Some (st\<lparr>pmem := store (unat f) (pos div 4) (put_byte (pos mod 4) b (pmem st (unat f) (pos div 4))) (pmem st)\<rparr>)))"

fun load_bytes :: "vmm \<Rightarrow> u32 \<Rightarrow> nat \<Rightarrow> u8 list option" where
  "load_bytes st v 0 = Some []"
| "load_bytes st v (Suc n) = do { b \<leftarrow> load8 st v; bs \<leftarrow> load_bytes st (v + 1) n; Some (b # bs) }"

text \<open>A string up to its terminator; a string that never ends is the value None.\<close>

partial_function (option) load_str :: "vmm \<Rightarrow> u32 \<Rightarrow> cstring option" where
  "load_str st v = do { b \<leftarrow> load8 st v; if b = 0 then Some [] else do { bs \<leftarrow> load_str st (v + 1); Some (b # bs) } }"

text \<open>\<open>memcpy\<close> from a buffer of the kernel, and \<open>memset\<close>, on the memory of a program.\<close>

fun memcpy_to :: "u32 \<Rightarrow> u8 list \<Rightarrow> vmm \<Rightarrow> vmm option" where
  "memcpy_to v [] st = Some st"
| "memcpy_to v (b # bs) st = do { st1 \<leftarrow> store8 v b st; memcpy_to (v + 1) bs st1 }"

fun memset_at :: "u32 \<Rightarrow> u8 \<Rightarrow> nat \<Rightarrow> vmm \<Rightarrow> vmm option" where
  "memset_at v c 0 st = Some st"
| "memset_at v c (Suc n) st = do { st1 \<leftarrow> store8 v c st; memset_at (v + 1) c n st1 }"

lemma memset_copy: "memset_at v c n st = memcpy_to v (replicate n c) st"
proof (induction n arbitrary: v st)
  case (Suc n)
  then show ?case by (cases "store8 v c st") simp_all
qed simp

lemma bit_FF: "bit (0xFF :: int) n \<longleftrightarrow> n < 8"
proof -
  have m: "(0xFF :: int) = mask 8" by (simp add: mask_eq_exp_minus_1)
  show ?thesis unfolding m by (auto simp: bit_simps)
qed

lemma byte_put:
  assumes "k < 4" and "l < 4"
  shows "byte_of l (put_byte k b w) = (if l = k then b else byte_of l w)"
proof (rule bit_word_eqI)
  fix n
  assume "n < LENGTH(8)"
  then have n: "n < 8" by simp
  have "bit (put_byte k b w) (8 * l + n) \<longleftrightarrow> (if l = k then bit b n else bit w (8 * l + n))"
  proof (cases "l = k")
    case False
    then have "8 * k \<le> 8 * l + n \<Longrightarrow> 8 \<le> 8 * l + n - 8 * k" using n by presburger
    moreover have "\<not> bit b m" if "8 \<le> m" for m using that by (auto dest: bit_imp_le_length)
    ultimately show ?thesis using n assms False by (auto simp: put_byte_def bit_simps bit_FF)
  qed (use n assms in \<open>auto simp: put_byte_def bit_simps bit_FF\<close>)
  moreover have "bit (byte_of l x) n \<longleftrightarrow> bit x (8 * l + n)" for x :: u32
    using n by (simp add: byte_of_def bit_simps)
  ultimately show "bit (byte_of l (put_byte k b w)) n \<longleftrightarrow> bit (if l = k then b else byte_of l w) n" by simp
qed

section \<open>The memory of a program\<close>

text \<open>
  The frames of the directory and its tables, and the invariant of the program's half of the
  address space: its pages lie in different frames, which are neither tables nor free.
\<close>

definition table_frames :: "vmm \<Rightarrow> nat set" where
  "table_frames st = (let pd = virt_frame (kernel_directory st)
     in insert pd {unat (drop_bit 12 (pmem st pd i)) | i. i < 1024 \<and> bit (pmem st pd i) 0})"

definition user_page :: "u32 \<Rightarrow> bool" where
  "user_page p \<longleftrightarrow> p < 0xC0000"

definition page_frame :: "vmm \<Rightarrow> u32 \<Rightarrow> u32 option" where
  "page_frame st p = map_option fst (page_entry st p)"

definition user_inv :: "vmm \<Rightarrow> bool" where
  "user_inv st \<longleftrightarrow> vm_inv st \<and>
     (\<forall>p f. user_page p \<longrightarrow> page_frame st p = Some f \<longrightarrow>
        unat f \<notin> table_frames st \<and> unat f \<notin> avail_frames (frames st)) \<and>
     (\<forall>p p' f. user_page p \<longrightarrow> user_page p' \<longrightarrow> page_frame st p = Some f \<longrightarrow> page_frame st p' = Some f \<longrightarrow> p = p')"

text \<open>What a program can see.\<close>

definition user_view :: "vmm \<Rightarrow> u32 \<Rightarrow> u8 option" where
  "user_view st v = (if user_page (drop_bit 12 v) then load8 st v else None)"

lemma pos_div: "unat (v AND (0xFFF :: u32)) div 4 = unat (u AND (0xFFF :: u32)) div 4 \<Longrightarrow>
  unat (v AND 0xFFF) mod 4 = unat (u AND 0xFFF) mod 4 \<Longrightarrow> v AND 0xFFF = u AND 0xFFF"
  by (metis div_mult_mod_eq word_unat_eq_iff)

lemma addr_split: "drop_bit 12 a = drop_bit 12 b \<Longrightarrow> a AND 0xFFF = b AND (0xFFF :: u32) \<Longrightarrow> a = b"
proof -
  have m: "(0xFFF :: u32) = mask 12" by (simp add: mask_eq_exp_minus_1)
  assume "drop_bit 12 a = drop_bit 12 b" "a AND 0xFFF = b AND (0xFFF :: u32)"
  then show ?thesis unfolding m take_bit_eq_mask [symmetric] by (metis bits_ident)
qed

lemma walk_cong:
  assumes "m' pd = m pd" and "\<And>i. i < 1024 \<Longrightarrow> bit (m pd i) 0 \<Longrightarrow> m' (unat (drop_bit 12 (m pd i))) = m (unat (drop_bit 12 (m pd i)))"
    and "unat (drop_bit 10 p) < 1024"
  shows "walk m' pd p = walk m pd p"
proof (cases "bit (m pd (unat (drop_bit 10 p))) 0")
  case True
  show ?thesis using assms(1) assms(2) [OF assms(3) True] by (simp add: walk_def)
next
  case False
  then show ?thesis using assms(1) by (simp add: walk_def Let_def)
qed

lemma directory_frame: "vm_inv st \<Longrightarrow> unat (drop_bit 12 (cr3 st)) = virt_frame (kernel_directory st)"
  by (simp add: vm_inv_def virt_frame_def)

text \<open>Writing words of a frame that is no table changes no translation.\<close>

lemma store_data:
  assumes inv: "vm_inv st" and f: "f \<notin> table_frames st"
  shows "page_entry (st\<lparr>pmem := store f i w (pmem st)\<rparr>) (drop_bit 12 v) = page_entry st (drop_bit 12 v)"
    and "vm_inv (st\<lparr>pmem := store f i w (pmem st)\<rparr>)"
    and "table_frames (st\<lparr>pmem := store f i w (pmem st)\<rparr>) = table_frames st"
proof -
  let ?pd = "virt_frame (kernel_directory st)"
  have pd: "store f i w (pmem st) ?pd = pmem st ?pd" using f by (auto simp: store_def table_frames_def Let_def)
  have t: "store f i w (pmem st) (unat (drop_bit 12 (pmem st ?pd j))) = pmem st (unat (drop_bit 12 (pmem st ?pd j)))"
    if "j < 1024" "bit (pmem st ?pd j) 0" for j
    using f that by (auto simp: store_def table_frames_def Let_def)
  show "page_entry (st\<lparr>pmem := store f i w (pmem st)\<rparr>) (drop_bit 12 v) = page_entry st (drop_bit 12 v)"
    using walk_cong [OF pd t pd_idx_lt] directory_frame [OF inv] by (simp add: page_entry_def)
  show "vm_inv (st\<lparr>pmem := store f i w (pmem st)\<rparr>)" using inv by (simp add: vm_inv_def dir_inv_def pd)
  show "table_frames (st\<lparr>pmem := store f i w (pmem st)\<rparr>) = table_frames st" by (simp add: table_frames_def Let_def pd)
qed

text \<open>A page number is one of an address.\<close>

lemma user_page_addr: "user_page p \<Longrightarrow> drop_bit 12 (push_bit 12 p) = p"
proof -
  assume "user_page p"
  then have "unat p < 2 ^ 20" by (simp add: user_page_def word_less_nat_alt)
  then have "take_bit 20 p = p" by (simp add: word_unat_eq_iff unsigned_take_bit_eq take_bit_nat_eq_self)
  moreover have "drop_bit 12 (push_bit 12 p) = take_bit 20 p"
    by (rule bit_word_eqI) (auto simp: bit_simps dest: bit_imp_le_length)
  ultimately show ?thesis by simp
qed

lemma user_inv_entries:
  assumes "user_inv st" and "vm_inv st'" and "table_frames st' = table_frames st" and "frames st' = frames st"
    and "\<And>v. page_entry st' (drop_bit 12 v) = page_entry st (drop_bit 12 v)"
  shows "user_inv st'"
proof -
  have "page_frame st' p = page_frame st p" if "user_page p" for p
    using assms(5) [of "push_bit 12 p"] user_page_addr [OF that] by (simp add: page_frame_def)
  then show ?thesis using assms unfolding user_inv_def by metis
qed

lemma store8_view:
  assumes inv: "user_inv st" and v: "user_view st v \<noteq> None"
  shows "\<exists>st'. store8 v b st = Some st' \<and> user_inv st' \<and> user_view st' = (user_view st)(v := Some b) \<and>
    frames st' = frames st \<and> kernel_directory st' = kernel_directory st"
proof -
  obtain f r where u: "user_page (drop_bit 12 v)" and f: "page_entry st (drop_bit 12 v) = Some (f, r)"
    using v by (auto simp: user_view_def load8_def split: if_splits option.splits)
  let ?i = "unat (v AND 0xFFF) div 4" and ?k = "unat (v AND 0xFFF) mod 4"
  let ?st = "st\<lparr>pmem := store (unat f) ?i (put_byte ?k b (pmem st (unat f) ?i)) (pmem st)\<rparr>"
  have vm: "vm_inv st" using inv by (simp add: user_inv_def)
  have nt: "unat f \<notin> table_frames st" using inv u f by (simp add: user_inv_def page_frame_def)
  note sd = store_data [OF vm nt]
  have "user_view ?st x = ((user_view st)(v := Some b)) x" for x
  proof (cases "user_page (drop_bit 12 x)")
    case ux: True
    show ?thesis
    proof (cases "page_entry st (drop_bit 12 x)")
      case None
      then show ?thesis using ux sd(1) f by (auto simp: user_view_def load8_def)
    next
      case (Some g)
      obtain g1 g2 where g: "g = (g1, g2)" by (cases g)
      have same: "g1 = f \<Longrightarrow> drop_bit 12 x = drop_bit 12 v"
        using inv ux u Some f g by (simp add: user_inv_def page_frame_def)
      have eq: "x = v \<longleftrightarrow> g1 = f \<and> unat (x AND 0xFFF) div 4 = ?i \<and> unat (x AND 0xFFF) mod 4 = ?k"
        using same addr_split [of x v] pos_div [of x v] Some f g by auto
      have "byte_of (unat (x AND 0xFFF) mod 4) (pmem ?st (unat g1) (unat (x AND 0xFFF) div 4)) =
          (if x = v then b else byte_of (unat (x AND 0xFFF) mod 4) (pmem st (unat g1) (unat (x AND 0xFFF) div 4)))"
        unfolding eq by (auto simp: store_apply byte_put word_unat_eq_iff)
      then show ?thesis using Some g ux by (simp add: user_view_def load8_def sd(1) Let_def)
    qed
  qed (use u in \<open>auto simp: user_view_def\<close>)
  moreover have "user_inv ?st" by (rule user_inv_entries [OF inv sd(2,3)]) (simp_all add: sd(1))
  ultimately show ?thesis using f by (auto simp: store8_def Let_def)
qed

lemma unat_below: "x \<noteq> v \<Longrightarrow> unat (x - v :: u32) = Suc (unat (x - (v + 1)))"
proof -
  assume "x \<noteq> v"
  then have "0 < unat (x - v)" by (simp add: unat_gt_0)
  moreover have "unat (x - v - 1) = unat (x - v) - 1" using \<open>x \<noteq> v\<close> by (intro unat_minus_one) simp
  moreover have "x - (v + 1) = x - v - 1" by simp
  ultimately show ?thesis by (metis Suc_pred' add_0)
qed

definition copied :: "u32 \<Rightarrow> u8 list \<Rightarrow> (u32 \<Rightarrow> u8 option) \<Rightarrow> u32 \<Rightarrow> u8 option" where
  "copied v bs m x = (let i = unat (x - v) in if i < length bs then Some (bs ! i) else m x)"

lemma copied_step:
  assumes "length bs < 4294967296"
  shows "copied (v + 1) bs (m(v := Some b)) = copied v (b # bs) m"
proof
  fix x
  show "copied (v + 1) bs (m(v := Some b)) x = copied v (b # bs) m x"
  proof (cases "x = v")
    case True
    have "v - (v + 1) = - 1" by simp
    then have "unat (v - (v + 1)) = 4294967295" by (simp add: unsigned_minus_1_eq_mask mask_eq_exp_minus_1)
    then show ?thesis using assms True by (simp add: copied_def Let_def)
  next
    case False
    then show ?thesis using unat_below [OF False] by (simp add: copied_def Let_def)
  qed
qed

lemma memcpy_view:
  assumes "user_inv st" and "\<And>i. i < length bs \<Longrightarrow> user_view st (v + of_nat i) \<noteq> None" and "length bs \<le> 4294967296"
  shows "\<exists>st'. memcpy_to v bs st = Some st' \<and> user_inv st' \<and> user_view st' = copied v bs (user_view st) \<and>
    frames st' = frames st \<and> kernel_directory st' = kernel_directory st"
  using assms
proof (induction bs arbitrary: v st)
  case Nil
  then show ?case by (auto simp: copied_def fun_eq_iff)
next
  case (Cons b bs)
  have "user_view st v \<noteq> None" using Cons.prems(2) [of 0] by simp
  then obtain st1 where s1: "store8 v b st = Some st1" "user_inv st1" "user_view st1 = (user_view st)(v := Some b)"
      "frames st1 = frames st" "kernel_directory st1 = kernel_directory st"
    using store8_view [OF Cons.prems(1)] by blast
  have "user_view st1 (v + 1 + of_nat i) \<noteq> None" if "i < length bs" for i
    using Cons.prems(2) [of "Suc i"] that by (auto simp: s1(3) algebra_simps)
  moreover have "length bs \<le> 4294967296" using Cons.prems(3) by simp
  ultimately obtain st2 where s2: "memcpy_to (v + 1) bs st1 = Some st2" "user_inv st2"
      "user_view st2 = copied (v + 1) bs (user_view st1)" "frames st2 = frames st1" "kernel_directory st2 = kernel_directory st1"
    using Cons.IH [OF s1(2)] by blast
  show ?case using s1 s2 Cons.prems(3) by (auto simp: copied_step)
qed

lemma view_load: "user_view st v = Some b \<Longrightarrow> load8 st v = Some b"
  by (simp add: user_view_def split: if_splits)

lemma load_bytes_view:
  assumes "\<And>i. i < length bs \<Longrightarrow> user_view st (v + of_nat i) = Some (bs ! i)"
  shows "load_bytes st v (length bs) = Some bs"
  using assms
proof (induction bs arbitrary: v)
  case (Cons b bs)
  have "load8 st v = Some b" using Cons.prems [of 0] by (simp add: view_load)
  moreover have "load_bytes st (v + 1) (length bs) = Some bs"
    using Cons.prems [of "Suc i" for i] by (intro Cons.IH) (force simp: algebra_simps)
  ultimately show ?case by simp
qed simp

lemma load_str_view:
  assumes "\<And>i. i < length cs \<Longrightarrow> user_view st (v + of_nat i) = Some (cs ! i)" and "0 \<notin> set cs"
    and "user_view st (v + of_nat (length cs)) = Some 0"
  shows "load_str st v = Some cs"
  using assms
proof (induction cs arbitrary: v)
  case Nil
  then show ?case by (subst load_str.simps) (simp add: view_load)
next
  case (Cons c cs)
  have "load8 st v = Some c" using Cons.prems(1) [of 0] by (simp add: view_load)
  moreover have "load_str st (v + 1) = Some cs"
    using Cons.prems(1) [of "Suc i" for i] Cons.prems(2,3) by (intro Cons.IH) (force simp: algebra_simps)+
  ultimately show ?case using Cons.prems(2) by (subst load_str.simps) auto
qed

section \<open>Fresh pages\<close>

text \<open>How \<open>map_page\<close> writes memory: an entry of an existing table, or a new table and its entry.\<close>

lemma map_page_cases:
  fixes st v p
  defines "pd \<equiv> virt_frame (kernel_directory st)" and "k \<equiv> unat (drop_bit 10 (drop_bit 12 v))"
  assumes inv: "dir_inv (pmem st) pd (frames st)" and room: "0 < card (avail_frames (frames st))"
  obtains (present) j w where "bit (pmem st pd k) 0"
      "map_page p v st = st\<lparr>pmem := store (unat (drop_bit 12 (pmem st pd k))) j w (pmem st)\<rparr>"
    | (absent) f t e j w q where "f \<in> avail_frames (frames st)" "avail_frames q = avail_frames (frames st) - {f}"
      "unat (drop_bit 12 e) = f" "map_page p v st = st\<lparr>frames := q, pmem := store f j w (store pd k e ((pmem st)(f := t)))\<rparr>"
proof (cases "bit (pmem st pd k) 0")
  case True
  have k: "k = unat (drop_bit 22 v)" by (simp add: k_def)
  show ?thesis
    by (rule present [OF True]) (use True in \<open>simp add: map_page_def Let_def pd_def [symmetric] k [symmetric] virt_frame_table\<close>)
next
  case False
  have k: "k = unat (drop_bit 22 v)" by (simp add: k_def)
  have pi: "pmm_inv (frames st)" using inv by (simp add: dir_inv_def)
  obtain f where f: "f \<in> avail_frames (frames st)" "f < 262144" "fst (alloc_frame (frames st)) = of_nat f * 4096"
      "avail_frames (snd (alloc_frame (frames st))) = avail_frames (frames st) - {f}"
    by (rule fs.alloc_obtain [OF pi room]) blast
  have fpd: "f \<noteq> pd" using inv f(1) by (auto simp: dir_inv_def)
  define q where "q = snd (alloc_frame (frames st))"
  have al: "alloc_frame (frames st) = (of_nat f * 4096, q)" using f(3) by (simp add: q_def prod_eq_iff)
  let ?e = "new_pde (of_nat f * 4096) (pmem st pd k)"
  have "unat (drop_bit 12 ?e) = f" using f(2) by (simp add: put_bits take_bit_frame unat_of_nat_u32)
  moreover have "map_page p v st = st\<lparr>frames := q,
      pmem := store f (unat (drop_bit 12 v AND 0x3FF))
        (put_frame (drop_bit 12 p) (put_user True (put_rw True (put_present True
          (store pd k ?e ((pmem st)(f := \<lambda>j. if j < 1024 then put_present False (pmem st f j) else pmem st f j))
             f (unat (drop_bit 12 v AND 0x3FF)))))))
        (store pd k ?e ((pmem st)(f := \<lambda>j. if j < 1024 then put_present False (pmem st f j) else pmem st f j)))\<rparr>"
    unfolding map_page_def Let_def pd_def [symmetric] k [symmetric] al using False f(2) fpd
    by (simp add: for_range_store [of 1024 f "\<lambda>_. put_present False"] virt_frame_of_nat)
  ultimately show ?thesis using absent f(1,4) unfolding q_def [symmetric] by blast
qed

lemma map_page_mem:
  fixes st v p
  defines "pd \<equiv> virt_frame (kernel_directory st)" and "st' \<equiv> map_page p v st"
  assumes inv: "dir_inv (pmem st) pd (frames st)" and room: "0 < card (avail_frames (frames st))"
  shows "g \<notin> table_frames st \<Longrightarrow> g \<notin> avail_frames (frames st) \<Longrightarrow> pmem st' g = pmem st g"
    and "table_frames st' \<subseteq> table_frames st \<union> (avail_frames (frames st) - avail_frames (frames st'))"
    and "avail_frames (frames st') \<subseteq> avail_frames (frames st)" and "cr3 st' = cr3 st"
proof -
  let ?k = "unat (drop_bit 10 (drop_bit 12 v))"
  have k: "?k < 1024" by (rule pd_idx_lt)
  have "(g \<notin> table_frames st \<longrightarrow> g \<notin> avail_frames (frames st) \<longrightarrow> pmem st' g = pmem st g) \<and>
      table_frames st' \<subseteq> table_frames st \<union> (avail_frames (frames st) - avail_frames (frames st')) \<and>
      avail_frames (frames st') \<subseteq> avail_frames (frames st) \<and> cr3 st' = cr3 st"
    using inv [unfolded pd_def] room
  proof (cases rule: map_page_cases [where p = p and v = v])
    case (present j w)
    let ?T = "unat (drop_bit 12 (pmem st pd ?k))"
    have "?T \<noteq> pd" using inv present(1) k by (auto simp: dir_inv_def pd_def)
    moreover have "?T \<in> table_frames st" using present(1) k by (auto simp: table_frames_def pd_def Let_def)
    ultimately show ?thesis
      using present(2) by (auto simp: st'_def pd_def [symmetric] store_def table_frames_def Let_def)
  next
    case (absent f t e j w q)
    have fpd: "f \<noteq> pd" using inv absent(1) by (auto simp: dir_inv_def)
    have "pmem st' pd = (pmem st pd)(?k := e)" using absent(4) fpd by (auto simp: st'_def pd_def [symmetric] store_def)
    then show ?thesis
      using absent fpd by (auto simp: st'_def pd_def [symmetric] store_def table_frames_def Let_def)
  qed
  then show "g \<notin> table_frames st \<Longrightarrow> g \<notin> avail_frames (frames st) \<Longrightarrow> pmem st' g = pmem st g"
    and "table_frames st' \<subseteq> table_frames st \<union> (avail_frames (frames st) - avail_frames (frames st'))"
    and "avail_frames (frames st') \<subseteq> avail_frames (frames st)" and "cr3 st' = cr3 st" by blast+
qed

text \<open>
  A page with a new frame, as \<open>sys_sbrk\<close> and the ELF loader map it:
  \<open>paging_map_memory(alloc_frame(), v, 4096)\<close>.
\<close>

definition map_fresh :: "u32 \<Rightarrow> vmm \<Rightarrow> vmm" where
  "map_fresh v st = (let (frame, q) = alloc_frame (frames st) in paging_map_memory frame v 4096 (st\<lparr>frames := q\<rparr>))"

lemma map_one: "paging_map_memory p v 4096 st = (let st1 = map_page p v st in st1\<lparr>cr3 := kernel_directory st1 - 0xC0000000\<rparr>)"
proof -
  have "unat ((4096 + PAGE_SIZE - 1) div PAGE_SIZE) = Suc 0" by (simp add: PAGE_SIZE_def)
  then show ?thesis by (simp add: paging_map_memory_def for_range_Suc)
qed

lemma tables_not_avail: "dir_inv (pmem st) (virt_frame (kernel_directory st)) (frames st) \<Longrightarrow> g \<in> table_frames st \<Longrightarrow> g \<notin> avail_frames (frames st)"
  by (auto simp: dir_inv_def table_frames_def Let_def)

lemma user_invI:
  assumes "vm_inv st'" and v: "user_page (drop_bit 12 v)" and inv: "user_inv st"
    and f: "unat f \<notin> table_frames st'" "unat f \<in> avail_frames (frames st)" "unat f \<notin> avail_frames (frames st')"
    and tab: "table_frames st' \<subseteq> table_frames st \<union> avail_frames (frames st)"
    and av: "avail_frames (frames st') \<subseteq> avail_frames (frames st)"
    and pf: "\<And>x. page_frame st' (drop_bit 12 x) = (if drop_bit 12 x = drop_bit 12 v then Some f else page_frame st (drop_bit 12 x))"
  shows "user_inv st'"
proof -
  have pg: "page_frame st' p = (if p = drop_bit 12 v then Some f else page_frame st p)" if "user_page p" for p
    using pf [of "push_bit 12 p"] user_page_addr [OF that] by simp
  have old: "unat g \<notin> table_frames st \<and> unat g \<notin> avail_frames (frames st)"
    if "user_page p" "page_frame st p = Some g" for p g using inv that by (simp add: user_inv_def)
  have "unat g \<notin> table_frames st' \<and> unat g \<notin> avail_frames (frames st')"
    if "user_page p" "page_frame st' p = Some g" for p g
    using that pg [OF that(1)] f old tab av by (cases "p = drop_bit 12 v") auto
  moreover have "p = p'" if "user_page p" "user_page p'" "page_frame st' p = Some g" "page_frame st' p' = Some g" for p p' g
    using that pg [OF that(1)] pg [OF that(2)] old f(2) inv
    by (cases "p = drop_bit 12 v"; cases "p' = drop_bit 12 v") (auto simp: user_inv_def)
  ultimately show ?thesis using assms(1) unfolding user_inv_def by blast
qed

lemma map_fresh_spec:
  assumes inv: "user_inv st" and room: "n + 2 \<le> card (avail_frames (frames st))" and v: "user_page (drop_bit 12 v)"
  obtains f where "user_inv (map_fresh v st)" "kernel_directory (map_fresh v st) = kernel_directory st"
    "n \<le> card (avail_frames (frames (map_fresh v st)))" "f \<in> avail_frames (frames st)"
    "avail_frames (frames (map_fresh v st)) \<subseteq> avail_frames (frames st)"
    "\<And>x. page_entry (map_fresh v st) (drop_bit 12 x) =
       (if drop_bit 12 x = drop_bit 12 v then Some (of_nat f, True, True) else page_entry st (drop_bit 12 x))"
    "\<And>x. drop_bit 12 x \<noteq> drop_bit 12 v \<Longrightarrow> user_view (map_fresh v st) x = user_view st x"
proof -
  let ?pd = "virt_frame (kernel_directory st)"
  have vm: "vm_inv st" using inv by (simp add: user_inv_def)
  then have di: "dir_inv (pmem st) ?pd (frames st)" by (simp add: vm_inv_def)
  then have pi: "pmm_inv (frames st)" by (simp add: dir_inv_def)
  obtain f where f: "f \<in> avail_frames (frames st)" "f < 262144" "fst (alloc_frame (frames st)) = of_nat f * 4096"
      "pmm_inv (snd (alloc_frame (frames st)))"
      "avail_frames (snd (alloc_frame (frames st))) = avail_frames (frames st) - {f}"
      "Suc n \<le> card (avail_frames (snd (alloc_frame (frames st))))"
    by (rule fs.alloc_obtain [OF pi, of "Suc n"]) (use room in auto)
  define st0 where "st0 = st\<lparr>frames := snd (alloc_frame (frames st))\<rparr>"
  define st1 where "st1 = map_page (of_nat f * 4096) v st0"
  have st0 [simp]: "pmem st0 = pmem st" "kernel_directory st0 = kernel_directory st" "cr3 st0 = cr3 st"
      "frames st0 = snd (alloc_frame (frames st))" by (simp_all add: st0_def)
  have tab0: "table_frames st0 = table_frames st" by (simp add: table_frames_def)
  have di0: "dir_inv (pmem st0) (virt_frame (kernel_directory st0)) (frames st0)" using di f(4,5) by (auto simp: dir_inv_def)
  have c0: "0 < card (avail_frames (frames st0))" using f(6) by simp
  note sp = map_page_spec [OF di0 c0, where p = "of_nat f * 4096" and v = v, folded st1_def]
  note me = map_page_mem [OF di0 c0, where p = "of_nat f * 4096" and v = v, folded st1_def, unfolded tab0]
  have eq: "map_fresh v st = st1"
    using f(3) sp(1) me(4) vm by (simp add: map_fresh_def map_one split_beta Let_def st0_def [symmetric] st1_def [symmetric] vm_inv_def)
  have vm1: "vm_inv st1" using sp(1,2) me(4) vm by (simp add: vm_inv_def)
  have fr: "drop_bit 12 (of_nat f * 4096 :: u32) = of_nat f"
    using f(2) by (simp add: word_unat_eq_iff drop_bit_eq_div unat_div unat_word_ariths unat_of_nat_u32)
  have pe: "page_entry st1 (drop_bit 12 x) =
      (if drop_bit 12 x = drop_bit 12 v then Some (of_nat f, True, True) else page_entry st (drop_bit 12 x))" for x
    using sp(3) [of x] sp(1) directory_frame [OF vm1] directory_frame [OF vm] by (simp add: page_entry_def fr)
  have uf: "unat (of_nat f :: u32) = f" using f(2) by (simp add: unat_of_nat_u32)
  have ft: "f \<notin> table_frames st" using tables_not_avail [OF di] f(1) by blast
  have ui: "user_inv st1"
  proof (rule user_invI [OF vm1 v inv, of "of_nat f"])
    show "unat (of_nat f :: u32) \<notin> table_frames st1" using me(2,3) ft f(5) unfolding uf by auto
    show "unat (of_nat f :: u32) \<notin> avail_frames (frames st1)" using me(3) f(5) unfolding uf by auto
  qed (use me(2,3) f(1,5) uf pe in \<open>auto simp: page_frame_def\<close>)
  have view: "user_view st1 x = user_view st x" if x: "drop_bit 12 x \<noteq> drop_bit 12 v" for x
  proof -
    have "pmem st1 (unat g) = pmem st (unat g)" if "user_page (drop_bit 12 x)" "page_entry st (drop_bit 12 x) = Some (g, r)" for g r
      using me(1) [of "unat g"] inv that f(5) by (auto simp: user_inv_def page_frame_def)
    then show ?thesis using pe [of x] x by (auto simp: user_view_def load8_def split: option.split)
  qed
  have "n \<le> card (avail_frames (frames st1))" using sp(5) f(6) by (simp split: if_splits)
  then show ?thesis using that [of f] eq ui sp(1) f(1,5) me(3) pe view by auto
qed

text \<open>The pages that a loop maps, and the rest of the address space.\<close>

definition fresh_pages :: "u32 set \<Rightarrow> vmm \<Rightarrow> vmm \<Rightarrow> bool" where
  "fresh_pages P st st' \<longleftrightarrow> user_inv st' \<and> kernel_directory st' = kernel_directory st \<and>
     avail_frames (frames st') \<subseteq> avail_frames (frames st) \<and>
     (\<forall>x. if drop_bit 12 x \<in> P
          then (\<exists>f \<in> avail_frames (frames st). page_entry st' (drop_bit 12 x) = Some (of_nat f, True, True))
          else page_entry st' (drop_bit 12 x) = page_entry st (drop_bit 12 x) \<and> user_view st' x = user_view st x)"

lemma fresh_pages_step:
  assumes fp: "fresh_pages P st st1" and room: "n + 2 \<le> card (avail_frames (frames st1))" and v: "user_page (drop_bit 12 v)"
  shows "fresh_pages (insert (drop_bit 12 v) P) st (map_fresh v st1)" and "n \<le> card (avail_frames (frames (map_fresh v st1)))"
proof -
  have i1: "user_inv st1" using fp by (simp add: fresh_pages_def)
  obtain f where f: "user_inv (map_fresh v st1)" "kernel_directory (map_fresh v st1) = kernel_directory st1"
    "n \<le> card (avail_frames (frames (map_fresh v st1)))" "f \<in> avail_frames (frames st1)"
    "avail_frames (frames (map_fresh v st1)) \<subseteq> avail_frames (frames st1)"
    "\<And>x. page_entry (map_fresh v st1) (drop_bit 12 x) =
       (if drop_bit 12 x = drop_bit 12 v then Some (of_nat f, True, True) else page_entry st1 (drop_bit 12 x))"
    "\<And>x. drop_bit 12 x \<noteq> drop_bit 12 v \<Longrightarrow> user_view (map_fresh v st1) x = user_view st1 x"
    using map_fresh_spec [OF i1 room v] by blast
  show "n \<le> card (avail_frames (frames (map_fresh v st1)))" by (rule f(3))
  show "fresh_pages (insert (drop_bit 12 v) P) st (map_fresh v st1)"
    using fp f(1,2,4,5) unfolding fresh_pages_def f(6) by (auto simp: f(7))
qed

lemma map_pages:
  assumes inv: "user_inv st" and room: "n + 2 * (hi - lo) \<le> card (avail_frames (frames st))" and le: "lo \<le> hi"
    and user: "\<And>i. lo \<le> i \<Longrightarrow> i < hi \<Longrightarrow> user_page (drop_bit 12 (a i))"
  shows "fresh_pages ((\<lambda>i. drop_bit 12 (a i)) ` {lo..<hi}) st (for_range lo hi (\<lambda>i. map_fresh (a i)) st)"
    and "n \<le> card (avail_frames (frames (for_range lo hi (\<lambda>i. map_fresh (a i)) st)))"
proof -
  let ?P = "\<lambda>k t. fresh_pages ((\<lambda>i. drop_bit 12 (a i)) ` {lo..<k}) st t \<and> n + 2 * (hi - k) \<le> card (avail_frames (frames t))"
  have "?P hi (for_range lo hi (\<lambda>i. map_fresh (a i)) st)"
  proof (rule for_range_inv [where P = ?P])
    show "?P lo st" using inv room by (simp add: fresh_pages_def)
    fix i t
    assume i: "lo \<le> i" "i < hi" and t: "?P i t"
    have "n + 2 * (hi - Suc i) + 2 \<le> card (avail_frames (frames t))" using t i by linarith
    note st = fresh_pages_step [OF conjunct1 [OF t] this user [OF i]]
    have "insert (drop_bit 12 (a i)) ((\<lambda>i. drop_bit 12 (a i)) ` {lo..<i}) = (\<lambda>i. drop_bit 12 (a i)) ` {lo..<Suc i}"
      using i(1) by (auto simp: atLeastLessThanSuc)
    then show "?P (Suc i) (map_fresh (a i) t)" using st by simp
  qed (rule le)
  then show "fresh_pages ((\<lambda>i. drop_bit 12 (a i)) ` {lo..<hi}) st (for_range lo hi (\<lambda>i. map_fresh (a i)) st)"
    and "n \<le> card (avail_frames (frames (for_range lo hi (\<lambda>i. map_fresh (a i)) st)))" by simp_all
qed

lemma fresh_pages_entry:
  "fresh_pages P st st' \<Longrightarrow> drop_bit 12 x \<in> P \<Longrightarrow>
    \<exists>f \<in> avail_frames (frames st). page_entry st' (drop_bit 12 x) = Some (of_nat f, True, True)"
  unfolding fresh_pages_def by (elim conjE, drule spec [of _ x]) simp

lemma fresh_pages_view:
  "fresh_pages P st st' \<Longrightarrow> drop_bit 12 x \<in> P \<Longrightarrow> user_page (drop_bit 12 x) \<Longrightarrow> user_view st' x \<noteq> None"
  using fresh_pages_entry [of P st st' x] by (auto simp: user_view_def load8_def Let_def)

end
