(* ===== verification/Syscall.thy ===== *)
theory Syscall
  imports Vfs_Path Drivers User_Mem
begin

text \<open>
  The system calls, \<open>kernel/proc/syscall.c\<close>. The state joins the file system side of the kernel
  with the drivers, the page tables and the variables of the shell, whose prompt an exiting task
  prints. Arguments that are pointers are addresses of the calling program and are followed through the
  page tables. None is a run that does not go on: a page fault, a null or stray pointer.
\<close>

section \<open>State\<close>

record registers =
  r_edi :: u32
  r_esi :: u32
  r_ebx :: u32
  r_edx :: u32
  r_ecx :: u32
  r_eax :: u32

datatype syscall = Sys_uptime | Sys_write | Sys_exit | Sys_getchar | Sys_open | Sys_read | Sys_write_fd
  | Sys_close | Sys_sbrk | Sys_clear | Sys_socket | Sys_bind | Sys_sendto | Sys_recvfrom | Sys_connect
  | Sys_listen | Sys_accept

text \<open>\<open>drv\<close>: the drivers; \<open>mm\<close>: page tables, physical memory and frames.\<close>

record sysstate = system +
  drv :: drivers
  mm :: vmm
  syscall_table :: "syscall option list"
  input_buffer :: "u8 list"
  buffer_idx :: nat
  history_buffer :: "cstring list"
  history_nav_idx :: int
  shell_cwd_path :: cstring
  shell_cwd_node :: u32

type_synonym 'a env = "nat \<Rightarrow> 'a sysstate_scheme \<Rightarrow> 'a sysstate_scheme"

text \<open>The current task, whose record every call uses.\<close>

definition the_task :: "'a sysstate_scheme \<Rightarrow> u32 option" where
  "the_task s = (if get_current_task s = 0 then None else Some (get_current_task s))"

definition ret :: "u32 \<Rightarrow> registers \<Rightarrow> registers" where
  "ret v regs = regs\<lparr>r_eax := v\<rparr>"

text \<open>\<open>fd < 0 || fd >= 16 || fd_table[fd] == 0\<close> is the null node.\<close>

definition fd_node :: "u32 \<Rightarrow> u32 \<Rightarrow> 'a sysstate_scheme \<Rightarrow> u32" where
  "fd_node t fd s = (if sint fd < 0 \<or> sint fd \<ge> 16 then 0 else fd_table (tasks s t) ! nat (sint fd))"

text \<open>The loop over the table: the lowest descriptor that is free gets the node.\<close>

definition free_fd :: "u32 \<Rightarrow> 'a sysstate_scheme \<Rightarrow> nat option" where
  "free_fd t s = find_index (\<lambda>i. fd_table (tasks s t) ! i = 0) 0 16"

definition set_fd :: "u32 \<Rightarrow> nat \<Rightarrow> u32 \<Rightarrow> 'a sysstate_scheme \<Rightarrow> 'a sysstate_scheme" where
  "set_fd t i n s = upd_task t (\<lambda>k. k\<lparr>fd_table := (fd_table k)[i := n]\<rparr>) s"

definition set_fd_offset :: "u32 \<Rightarrow> nat \<Rightarrow> u32 \<Rightarrow> 'a sysstate_scheme \<Rightarrow> 'a sysstate_scheme" where
  "set_fd_offset t i v s = upd_task t (\<lambda>k. k\<lparr>fd_offset := (fd_offset k)[i := v]\<rparr>) s"

section \<open>Console, keyboard and clock\<close>

definition print_prompt :: "'a sysstate_scheme \<Rightarrow> 'a sysstate_scheme" where
  "print_prompt s = say (lit ''> '') (say (shell_cwd_path s) (say (lit ''fash '') s))"

definition sys_getchar :: "registers \<Rightarrow> 'a sysstate_scheme \<Rightarrow> (registers \<times> 'a sysstate_scheme) option" where
  "sys_getchar regs s = (let (c, d) = keyboard_get (drv s) in Some (ret (ucast c) regs, s\<lparr>drv := d\<rparr>))"

text \<open>
  \<open>task_exit\<close> does not return: the result is the state in which the dead task waits for the
  scheduler. Its prompt comes before the interrupts are enabled.
\<close>

definition sys_exit :: "registers \<Rightarrow> 'a sysstate_scheme \<Rightarrow> (registers \<times> 'a sysstate_scheme) option" where
  "sys_exit regs s =
     (let s1 = (if get_current_task s \<noteq> 0 \<and> tid (tasks s (get_current_task s)) \<noteq> 1 then print_prompt s else s)
      in Some (regs, task_exit s1))"

definition sys_clear :: "registers \<Rightarrow> 'a sysstate_scheme \<Rightarrow> (registers \<times> 'a sysstate_scheme) option" where
  "sys_clear regs s = Some (regs, s\<lparr>con := clear_scr (con s)\<rparr>)"

definition sys_uptime :: "registers \<Rightarrow> 'a sysstate_scheme \<Rightarrow> (registers \<times> 'a sysstate_scheme) option" where
  "sys_uptime regs s = Some (ret (timer_get_ticks (drv s)) regs, s)"

definition sys_write :: "registers \<Rightarrow> 'a sysstate_scheme \<Rightarrow> (registers \<times> 'a sysstate_scheme) option" where
  "sys_write regs s = do { str \<leftarrow> load_str (mm s) (r_ebx regs); Some (regs, say str s) }"

section \<open>Files\<close>

text \<open>\<open>vfs_get_node_by_path(vfs_root, path)\<close>; a null path gives the null node.\<close>

definition lookup_path :: "'a env \<Rightarrow> u32 \<Rightarrow> 'a sysstate_scheme \<Rightarrow> (u32 \<times> 'a sysstate_scheme) option" where
  "lookup_path env path s =
     (if path = 0 then Some (0, s)
      else do { str \<leftarrow> load_str (mm s) path; vfs_get_node_by_path env (vfs_root s) str s })"

definition open_node :: "'a env \<Rightarrow> u32 \<Rightarrow> u32 \<Rightarrow> 'a sysstate_scheme \<Rightarrow> (u32 \<times> 'a sysstate_scheme) option" where
  "open_node env path flags s = do {
     (node, s1) \<leftarrow> lookup_path env path s;
     if node = 0 \<and> flags AND 1 \<noteq> 0 then do {
       str \<leftarrow> load_str (mm s1) path;
       let (_, s2) = on_fs (pafs_write str [] 0) s1;
       lookup_path env path s2
     } else Some (node, s1)
   }"

definition sys_open :: "'a env \<Rightarrow> registers \<Rightarrow> 'a sysstate_scheme \<Rightarrow> (registers \<times> 'a sysstate_scheme) option" where
  "sys_open env regs s = do {
     (node, s1) \<leftarrow> open_node env (r_ebx regs) (r_ecx regs) s;
     if node = 0 then Some (ret (-1) regs, s1)
     else do {
       t \<leftarrow> the_task s1;
       (case free_fd t s1 of
          Some i \<Rightarrow> Some (ret (of_nat i) regs, set_fd_offset t i 0 (set_fd t i node s1))
        | None \<Rightarrow> do { s2 \<leftarrow> vfs_close node s1; Some (ret (-1) regs, s2) })
     }
   }"

text \<open>
  A driver that reads a file writes to the memory of the program: it gets what is there and the
  bytes it counts are stored again. The bytes that the driver skips keep their values.
\<close>

definition user_bytes :: "u32 \<Rightarrow> nat \<Rightarrow> 'a sysstate_scheme \<Rightarrow> u8 list" where
  "user_bytes buf n s = map (\<lambda>i. case load8 (mm s) (buf + of_nat i) of Some b \<Rightarrow> b | None \<Rightarrow> 0) [0..<n]"

definition user_store :: "u32 \<Rightarrow> u8 list \<Rightarrow> 'a sysstate_scheme \<Rightarrow> 'a sysstate_scheme option" where
  "user_store buf d s = map_option (\<lambda>m. s\<lparr>mm := m\<rparr>) (memcpy_to buf d (mm s))"

text \<open>After a transfer of \<open>n\<close> bytes the offset of a file moves on.\<close>

definition advance :: "u32 \<Rightarrow> u32 \<Rightarrow> u32 \<Rightarrow> 'a sysstate_scheme \<Rightarrow> 'a sysstate_scheme" where
  "advance t fd n s =
     (let i = nat (sint fd)
      in if sint n > 0 \<and> vflags (nodes s (fd_table (tasks s t) ! i)) \<noteq> VFS_SOCKET
         then set_fd_offset t i (fd_offset (tasks s t) ! i + n) s else s)"

definition sys_read :: "'a env \<Rightarrow> registers \<Rightarrow> 'a sysstate_scheme \<Rightarrow> (registers \<times> 'a sysstate_scheme) option" where
  "sys_read env regs s = do {
     let fd = r_ebx regs;
     let buf = r_ecx regs;
     let size' = r_edx regs;
     t \<leftarrow> the_task s;
     if fd_node t fd s = 0 then Some (ret (-1) regs, s)
     else do {
       ((n, d), s1) \<leftarrow> vfs_read env (fd_node t fd s) (fd_offset (tasks s t) ! nat (sint fd)) size' (user_bytes buf (unat size') s) s;
       s2 \<leftarrow> user_store buf (take (unat n) d) s1;
       Some (ret n regs, advance t fd n s2)
     }
   }"

text \<open>The buffer has to be readable as far as it is given to the driver.\<close>

definition sys_write_fd :: "registers \<Rightarrow> 'a sysstate_scheme \<Rightarrow> (registers \<times> 'a sysstate_scheme) option" where
  "sys_write_fd regs s = do {
     let fd = r_ebx regs;
     let buf = r_ecx regs;
     let size' = r_edx regs;
     if fd = 1 \<or> fd = 2 then do {
       d \<leftarrow> load_bytes (mm s) buf (nat (sint size'));
       Some (ret size' regs, s\<lparr>con := fold put_char d (con s)\<rparr>)
     } else do {
       t \<leftarrow> the_task s;
       if fd_node t fd s = 0 then Some (ret (-1) regs, s)
       else do {
         d \<leftarrow> load_bytes (mm s) buf (unat size');
         (n, s1) \<leftarrow> vfs_write (fd_node t fd s) (fd_offset (tasks s t) ! nat (sint fd)) size' d s;
         Some (ret n regs, advance t fd n s1)
       }
     }
   }"

definition sys_close :: "registers \<Rightarrow> 'a sysstate_scheme \<Rightarrow> (registers \<times> 'a sysstate_scheme) option" where
  "sys_close regs s = do {
     let fd = r_ebx regs;
     t \<leftarrow> the_task s;
     if fd_node t fd s = 0 then Some (ret (-1) regs, s)
     else do {
       s1 \<leftarrow> vfs_close (fd_node t fd s) s;
       Some (ret 0 regs, set_fd_offset t (nat (sint fd)) 0 (set_fd t (nat (sint fd)) 0 s1))
     }
   }"

section \<open>Memory\<close>

definition sys_sbrk :: "registers \<Rightarrow> 'a sysstate_scheme \<Rightarrow> (registers \<times> 'a sysstate_scheme) option" where
  "sys_sbrk regs s = do {
     let increment = r_ebx regs;
     t \<leftarrow> the_task s;
     let old_end = heap_end (tasks s t);
     if increment = 0 then Some (ret old_end regs, s)
     else do {
       let new_end = old_end + increment;
       let old_page = (old_end + 4095) div 4096;
       let new_page = (new_end + 4095) div 4096;
       let m = for_range (unat old_page) (unat new_page) (\<lambda>i. map_fresh (of_nat i * 4096)) (mm s);
       Some (ret old_end regs, upd_task t (\<lambda>k. k\<lparr>heap_end := new_end\<rparr>) (s\<lparr>mm := m\<rparr>))
     }
   }"

section \<open>Sockets\<close>

text \<open>\<open>struct sockaddr_in\<close> in the memory of the program.\<close>

definition load_sockaddr :: "vmm \<Rightarrow> u32 \<Rightarrow> sockaddr_in option" where
  "load_sockaddr m a = do {
     b \<leftarrow> load_bytes m a 8;
     Some \<lparr>sin_family = get16 0 b, sin_port = get16 2 b, sin_addr = get32 4 b\<rparr>
   }"

definition sockaddr_bytes :: "sockaddr_in \<Rightarrow> u8 list" where
  "sockaddr_bytes a = bytes16 (sin_family a) @ bytes16 (sin_port a) @ bytes32 (sin_addr a)"

text \<open>The node of a descriptor that has to be a socket.\<close>

definition fd_socket :: "u32 \<Rightarrow> u32 \<Rightarrow> 'a sysstate_scheme \<Rightarrow> u32" where
  "fd_socket t fd s = (if vflags (nodes s (fd_node t fd s)) = VFS_SOCKET then fd_node t fd s else 0)"

definition sys_socket :: "registers \<Rightarrow> 'a sysstate_scheme \<Rightarrow> (registers \<times> 'a sysstate_scheme) option" where
  "sys_socket regs s = do {
     (node, s1) \<leftarrow> socket_create (sint (r_ebx regs)) (sint (r_ecx regs)) (sint (r_edx regs)) s;
     if node = 0 then Some (ret (-1) regs, s1)
     else do {
       t \<leftarrow> the_task s1;
       Some (case free_fd t s1 of Some i \<Rightarrow> (ret (of_nat i) regs, set_fd t i node s1) | None \<Rightarrow> (ret (-1) regs, s1))
     }
   }"

definition sys_bind :: "registers \<Rightarrow> 'a sysstate_scheme \<Rightarrow> (registers \<times> 'a sysstate_scheme) option" where
  "sys_bind regs s = do {
     t \<leftarrow> the_task s;
     let n = fd_socket t (r_ebx regs) s;
     if n = 0 then Some (ret (-1) regs, s)
     else do {
       addr \<leftarrow> load_sockaddr (mm s) (r_ecx regs);
       (r, s1) \<leftarrow> socket_bind n addr s;
       Some (ret (of_int r) regs, s1)
     }
   }"

definition sys_sendto :: "registers \<Rightarrow> 'a sysstate_scheme \<Rightarrow> (registers \<times> 'a sysstate_scheme) option" where
  "sys_sendto regs s = do {
     t \<leftarrow> the_task s;
     let n = fd_socket t (r_ebx regs) s;
     if n = 0 then Some (ret (-1) regs, s)
     else do {
       d \<leftarrow> load_bytes (mm s) (r_ecx regs) (unat (r_edx regs));
       dest \<leftarrow> (if r_esi regs = 0 then Some None else map_option Some (load_sockaddr (mm s) (r_esi regs)));
       (r, s1) \<leftarrow> socket_sendto n d dest s;
       Some (ret (of_int r) regs, s1)
     }
   }"

text \<open>
  The address of the sender is stored after the data, if the program asks for it and gives a
  length of at least the size of the structure.
\<close>

definition store_sender :: "u32 \<Rightarrow> u32 \<Rightarrow> sockaddr_in option \<Rightarrow> 'a sysstate_scheme \<Rightarrow> 'a sysstate_scheme option" where
  "store_sender src src_len addr s =
     (case addr of
        None \<Rightarrow> Some s
      | Some a \<Rightarrow>
          (if src = 0 \<or> src_len = 0 then Some s
           else do {
             l \<leftarrow> load_bytes (mm s) src_len 4;
             if get32 0 l < 16 then Some s
             else do { s1 \<leftarrow> user_store src (sockaddr_bytes a) s; user_store src_len (bytes32 16) s1 }
           }))"

definition sys_recvfrom :: "'a env \<Rightarrow> registers \<Rightarrow> 'a sysstate_scheme \<Rightarrow> (registers \<times> 'a sysstate_scheme) option" where
  "sys_recvfrom env regs s = do {
     t \<leftarrow> the_task s;
     let n = fd_node t (r_ebx regs) s;
     if n = 0 then Some (ret (-1) regs, s)
     else do {
       (d, addr, s1) \<leftarrow> socket_recvfrom env n (unat (r_edx regs)) True s;
       s2 \<leftarrow> user_store (r_ecx regs) d s1;
       s3 \<leftarrow> store_sender (r_esi regs) (r_edi regs) addr s2;
       Some (ret (of_nat (length d)) regs, s3)
     }
   }"

definition sys_connect :: "'a env \<Rightarrow> registers \<Rightarrow> 'a sysstate_scheme \<Rightarrow> (registers \<times> 'a sysstate_scheme) option" where
  "sys_connect env regs s = do {
     t \<leftarrow> the_task s;
     let n = fd_socket t (r_ebx regs) s;
     if n = 0 then Some (ret (-1) regs, s)
     else do {
       addr \<leftarrow> load_sockaddr (mm s) (r_ecx regs);
       (r, s1) \<leftarrow> socket_connect env n addr s;
       Some (ret (of_int r) regs, s1)
     }
   }"

definition sys_listen :: "registers \<Rightarrow> 'a sysstate_scheme \<Rightarrow> (registers \<times> 'a sysstate_scheme) option" where
  "sys_listen regs s = do {
     t \<leftarrow> the_task s;
     let n = fd_socket t (r_ebx regs) s;
     if n = 0 then Some (ret (-1) regs, s)
     else do { (r, s1) \<leftarrow> socket_listen n s; Some (ret (of_int r) regs, s1) }
   }"

definition sys_accept :: "'a env \<Rightarrow> registers \<Rightarrow> 'a sysstate_scheme \<Rightarrow> (registers \<times> 'a sysstate_scheme) option" where
  "sys_accept env regs s = do {
     t \<leftarrow> the_task s;
     let n = fd_socket t (r_ebx regs) s;
     if n = 0 then Some (ret (-1) regs, s)
     else do {
       (node, s1) \<leftarrow> socket_accept env n s;
       Some (if node = 0 then (ret (-1) regs, s1)
         else case free_fd t s1 of Some i \<Rightarrow> (ret (of_nat i) regs, set_fd t i node s1) | None \<Rightarrow> (ret (-1) regs, s1))
     }
   }"

section \<open>Dispatch\<close>

definition run_syscall :: "'a env \<Rightarrow> syscall \<Rightarrow> registers \<Rightarrow> 'a sysstate_scheme \<Rightarrow> (registers \<times> 'a sysstate_scheme) option" where
  "run_syscall env c =
     (case c of
        Sys_uptime \<Rightarrow> sys_uptime | Sys_write \<Rightarrow> sys_write | Sys_exit \<Rightarrow> sys_exit | Sys_getchar \<Rightarrow> sys_getchar
      | Sys_open \<Rightarrow> sys_open env | Sys_read \<Rightarrow> sys_read env | Sys_write_fd \<Rightarrow> sys_write_fd | Sys_close \<Rightarrow> sys_close
      | Sys_sbrk \<Rightarrow> sys_sbrk | Sys_clear \<Rightarrow> sys_clear | Sys_socket \<Rightarrow> sys_socket | Sys_bind \<Rightarrow> sys_bind
      | Sys_sendto \<Rightarrow> sys_sendto | Sys_recvfrom \<Rightarrow> sys_recvfrom env | Sys_connect \<Rightarrow> sys_connect env
      | Sys_listen \<Rightarrow> sys_listen | Sys_accept \<Rightarrow> sys_accept env)"

definition syscall_handler :: "'a env \<Rightarrow> registers \<Rightarrow> 'a sysstate_scheme \<Rightarrow> (registers \<times> 'a sysstate_scheme) option" where
  "syscall_handler env regs s =
     (if r_eax regs \<ge> 20 then Some (regs, s)
      else case syscall_table s ! unat (r_eax regs) of
        None \<Rightarrow> Some (regs, s)
      | Some c \<Rightarrow> run_syscall env c regs s)"

definition sys_number :: "syscall \<Rightarrow> nat" where
  "sys_number c =
     (case c of
        Sys_uptime \<Rightarrow> 0 | Sys_write \<Rightarrow> 1 | Sys_exit \<Rightarrow> 2 | Sys_getchar \<Rightarrow> 3 | Sys_open \<Rightarrow> 4 | Sys_read \<Rightarrow> 5
      | Sys_write_fd \<Rightarrow> 6 | Sys_close \<Rightarrow> 7 | Sys_sbrk \<Rightarrow> 8 | Sys_clear \<Rightarrow> 9 | Sys_socket \<Rightarrow> 10 | Sys_bind \<Rightarrow> 11
      | Sys_sendto \<Rightarrow> 12 | Sys_recvfrom \<Rightarrow> 13 | Sys_connect \<Rightarrow> 14 | Sys_listen \<Rightarrow> 15 | Sys_accept \<Rightarrow> 16)"

definition init_syscalls :: "'a sysstate_scheme \<Rightarrow> 'a sysstate_scheme" where
  "init_syscalls s =
     (let set_call = (\<lambda>c t. t\<lparr>syscall_table := (syscall_table t)[sys_number c := Some c]\<rparr>)
      in say (lit ''[OK] Sistem cagrilari (Syscalls) baslatildi.'' @ [10])
        (fold set_call [Sys_uptime, Sys_write, Sys_exit, Sys_getchar, Sys_open, Sys_read, Sys_write_fd, Sys_close,
           Sys_sbrk, Sys_clear, Sys_socket, Sys_bind, Sys_sendto, Sys_recvfrom, Sys_connect, Sys_listen, Sys_accept] s))"

end
