(* ===== verification/Sys_Memory.thy ===== *)
theory Sys_Memory
  imports Syscall
begin

text \<open>
  Growing the heap of a task with \<open>sys_sbrk\<close>: the memory a program gets, and what happens to the heaps of
  other tasks.
\<close>

section \<open>Growing the heap of a task\<close>

text \<open>Every byte of the heap of a task can be used.\<close>

definition heap_mapped :: "u32 \<Rightarrow> 'a sysstate_scheme \<Rightarrow> bool" where
  "heap_mapped t s \<longleftrightarrow> (\<forall>x. heap_start (tasks s t) \<le> x \<and> x < heap_end (tasks s t) \<longrightarrow> user_view (mm s) x \<noteq> None)"

lemma view_same_page:
  assumes "drop_bit 12 x = drop_bit 12 y" and "user_view st x \<noteq> None"
  shows "user_view st y \<noteq> None"
  using assms by (auto simp: user_view_def load8_def Let_def split: if_splits option.splits)

lemma page_addr: "i < 1048576 \<Longrightarrow> unat (drop_bit 12 (of_nat i * 4096 :: u32)) = i"
  by (simp add: drop_bit_eq_div unat_div unat_word_ariths unat_of_nat_u32)

lemma round_up: "unat v < 4294963201 \<Longrightarrow> unat ((v + 4095) div 4096 :: u32) = (unat v + 4095) div 4096"
  by (simp add: unat_div unat_plus_u32)

lemma round_gap: "a \<le> x \<Longrightarrow> x < (a + 4095) div 4096 * 4096 \<Longrightarrow> a div 4096 = x div 4096 \<and> a mod 4096 \<noteq> (0 :: nat)"
proof -
  assume x: "a \<le> x" "x < (a + 4095) div 4096 * 4096"
  define k where "k = (a + 4095) div 4096"
  have k: "4096 * k \<le> a + 4095" "x < 4096 * k" using x(2) by (simp_all add: k_def)
  then obtain j where j: "k = Suc j" by (cases k) auto
  have "a div 4096 = j" "x div 4096 = j" using k x(1) j by (intro div_nat_eqI; simp)+
  moreover have "4096 * (a div 4096) + a mod 4096 = a" by simp
  ultimately show ?thesis using k(1) j by auto
qed

lemma round_below: "a mod 4096 \<noteq> 0 \<Longrightarrow> (a - 1) div 4096 = a div (4096 :: nat)"
proof (rule div_nat_eqI)
  assume "a mod 4096 \<noteq> 0"
  moreover have "4096 * (a div 4096) + a mod 4096 = a" by simp
  ultimately show "4096 * (a div 4096) \<le> a - 1" by linarith
  have "a mod 4096 < 4096" by simp
  then show "a - 1 < 4096 * Suc (a div 4096)" using \<open>4096 * (a div 4096) + a mod 4096 = a\<close> by simp
qed

lemma sys_sbrk_spec:
  fixes regs s
  defines "t \<equiv> get_current_task s"
  defines "lo \<equiv> (unat (heap_end (tasks s t)) + 4095) div 4096"
    and "hi \<equiv> (unat (heap_end (tasks s t)) + unat (r_ebx regs) + 4095) div 4096"
  assumes t: "t \<noteq> 0" and inv: "user_inv (mm s)" and inc: "r_ebx regs \<noteq> 0"
    and top: "unat (heap_end (tasks s t)) + unat (r_ebx regs) \<le> 0xC0000000"
    and room: "n + 2 * (hi - lo) \<le> card (avail_frames (frames (mm s)))"
  shows "\<exists>m. sys_sbrk regs s = Some (ret (heap_end (tasks s t)) regs,
      upd_task t (\<lambda>k. k\<lparr>heap_end := heap_end (tasks s t) + r_ebx regs\<rparr>) (s\<lparr>mm := m\<rparr>)) \<and>
    fresh_pages {p. lo \<le> unat p \<and> unat p < hi} (mm s) m \<and> n \<le> card (avail_frames (frames m))"
proof -
  let ?old = "heap_end (tasks s t)" and ?new = "heap_end (tasks s t) + r_ebx regs"
  have un: "unat ?new = unat ?old + unat (r_ebx regs)" using top by (simp add: unat_plus_u32)
  have lo: "unat ((?old + 4095) div 4096) = lo" using top by (simp add: round_up lo_def)
  have hi: "unat ((?new + 4095) div 4096) = hi" using top un by (subst round_up) (simp_all add: hi_def)
  have le: "lo \<le> hi" by (simp add: lo_def hi_def div_le_mono)
  have h: "hi \<le> 0xC0000" using top by (simp add: hi_def)
  have user: "user_page (drop_bit 12 (of_nat i * 4096 :: u32))" if "i < hi" for i
    using that h page_addr [of i] by (simp add: user_page_def word_less_nat_alt)
  have img: "(\<lambda>i. drop_bit 12 (of_nat i * 4096 :: u32)) ` {lo..<hi} = {p. lo \<le> unat p \<and> unat p < hi}"
  proof (intro equalityI subsetI)
    fix p :: u32
    assume "p \<in> {p. lo \<le> unat p \<and> unat p < hi}"
    then have "p = drop_bit 12 (of_nat (unat p) * 4096)" "unat p \<in> {lo..<hi}"
      using page_addr [of "unat p"] h by (simp_all add: word_unat_eq_iff)
    then show "p \<in> (\<lambda>i. drop_bit 12 (of_nat i * 4096 :: u32)) ` {lo..<hi}" by blast
  qed (use h page_addr in auto)
  let ?m = "for_range lo hi (\<lambda>i. map_fresh (of_nat i * 4096)) (mm s)"
  have "fresh_pages {p. lo \<le> unat p \<and> unat p < hi} (mm s) ?m \<and> n \<le> card (avail_frames (frames ?m))"
    using map_pages [OF inv room le, where a = "\<lambda>i. of_nat i * 4096", unfolded img] user by blast
  moreover have "sys_sbrk regs s = Some (ret ?old regs, upd_task t (\<lambda>k. k\<lparr>heap_end := ?new\<rparr>) (s\<lparr>mm := ?m\<rparr>))"
    using t inc by (simp add: sys_sbrk_def the_task_def t_def [symmetric] Let_def lo hi)
  ultimately show ?thesis by blast
qed

text \<open>
  C13: \<open>sys_sbrk\<close> with a positive increment that stays below the kernel's half of the address
  space, when the frame allocator has two frames for every new page (a page and perhaps its
  table): it returns the old end of the heap and moves the end; afterwards the whole heap can be
  used, every new page has a frame of its own that was free before, writable in user mode; and no byte
  below the old end and no other page of the program changes.
\<close>

theorem sys_sbrk_correct:
  fixes regs s
  defines "t \<equiv> get_current_task s"
  defines "lo \<equiv> (unat (heap_end (tasks s t)) + 4095) div 4096"
    and "hi \<equiv> (unat (heap_end (tasks s t)) + unat (r_ebx regs) + 4095) div 4096"
  assumes "t \<noteq> 0" and "user_inv (mm s)" and "r_ebx regs \<noteq> 0"
    and "4096 dvd unat (heap_start (tasks s t))" and "heap_start (tasks s t) \<le> heap_end (tasks s t)" and "heap_mapped t s"
    and "unat (heap_end (tasks s t)) + unat (r_ebx regs) \<le> 0xC0000000"
    and "2 * (hi - lo) \<le> card (avail_frames (frames (mm s)))"
  shows "\<exists>s'. sys_sbrk regs s = Some (ret (heap_end (tasks s t)) regs, s') \<and>
    heap_end (tasks s' t) = heap_end (tasks s t) + r_ebx regs \<and> user_inv (mm s') \<and> heap_mapped t s' \<and>
    (\<forall>x. if lo \<le> unat x div 4096 \<and> unat x div 4096 < hi
         then \<exists>f \<in> avail_frames (frames (mm s)). page_entry (mm s') (drop_bit 12 x) = Some (of_nat f, True, True)
         else user_view (mm s') x = user_view (mm s) x)"
proof -
  let ?old = "heap_end (tasks s t)" and ?new = "heap_end (tasks s t) + r_ebx regs"
  obtain m where m: "sys_sbrk regs s = Some (ret ?old regs, upd_task t (\<lambda>k. k\<lparr>heap_end := ?new\<rparr>) (s\<lparr>mm := m\<rparr>))"
      "fresh_pages {p. lo \<le> unat p \<and> unat p < hi} (mm s) m"
    using sys_sbrk_spec [of s regs 0, folded t_def, folded lo_def hi_def, OF assms(4-6)] assms(10,11) by auto
  have pg: "unat (drop_bit 12 x) = unat x div 4096" for x :: u32 by (simp add: drop_bit_eq_div unat_div)
  have un: "unat ?new = unat ?old + unat (r_ebx regs)" using assms(10) by (simp add: unat_plus_u32)
  have keep: "user_view m x = user_view (mm s) x" if "\<not> (lo \<le> unat x div 4096 \<and> unat x div 4096 < hi)" for x
    using m(2) that by (auto simp: fresh_pages_def pg)
  have used: "user_view m x \<noteq> None" if x: "heap_start (tasks s t) \<le> x" "x < ?new" for x
  proof (cases "lo \<le> unat x div 4096")
    case True
    have "unat x < unat ?new" using x(2) by (simp add: word_less_nat_alt)
    then have "unat x div 4096 < hi" using un unfolding hi_def by linarith
    moreover have "user_page (drop_bit 12 x)"
      using \<open>unat x < unat ?new\<close> un assms(10) by (simp add: user_page_def word_less_nat_alt pg less_mult_imp_div_less)
    ultimately show ?thesis using fresh_pages_view [OF m(2)] True by (simp add: pg)
  next
    case False
    define y where "y = (if x < ?old then x else ?old - 1)"
    have fl: "unat x div 4096 * 4096 + 4096 \<le> lo * 4096" using False by simp
    have yn: "\<not> x < ?old \<Longrightarrow> unat y = unat ?old - 1 \<and> 0 < unat ?old"
    proof -
      assume nx: "\<not> x < ?old"
      have "0 < unat ?old" using False nx by (auto simp: lo_def word_less_nat_alt)
      then show ?thesis using nx by (simp add: y_def unat_minus_one unat_gt_0)
    qed
    have sm: "drop_bit 12 y = drop_bit 12 x \<and> heap_start (tasks s t) \<le> y \<and> y < ?old"
    proof (cases "x < ?old")
      case True then show ?thesis using x(1) by (simp add: y_def)
    next
      case nx: False
      then have "unat ?old \<le> unat x" by (simp add: word_less_nat_alt)
      moreover have "unat x < lo * 4096" using fl by linarith
      ultimately have o: "unat ?old div 4096 = unat x div 4096" "unat ?old mod 4096 \<noteq> 0"
        using round_gap [of "unat ?old" "unat x"] unfolding lo_def by blast+
      have "unat (heap_start (tasks s t)) \<le> unat ?old" using assms(8) by (simp add: word_le_nat_alt)
      then have "unat (heap_start (tasks s t)) < unat ?old" using o(2) assms(7) by (metis dvd_imp_mod_0 le_neq_implies_less)
      moreover have "(unat ?old - 1) div 4096 = unat ?old div 4096" using o(2) by (rule round_below)
      ultimately show ?thesis using yn [OF nx] o(1) by (simp add: word_unat_eq_iff pg word_le_nat_alt word_less_nat_alt)
    qed
    then have "user_view (mm s) y \<noteq> None" using assms(9) by (simp add: heap_mapped_def)
    then have "user_view (mm s) x \<noteq> None" using sm view_same_page by metis
    then show ?thesis using keep False by simp
  qed
  then show ?thesis
    using m keep by (auto simp: upd_task_def heap_mapped_def fresh_pages_def pg)
qed

text \<open>
  all tasks share one page directory and every heap starts at the same address. When another task
  uses pages of the heap that the current task grows into, \<open>sys_sbrk\<close> gives each of these pages a new
  frame, so the other task loses what it stored there.
\<close>

theorem sbrk_takes_other_heap:
  fixes regs s
  defines "t \<equiv> get_current_task s"
  defines "lo \<equiv> (unat (heap_end (tasks s t)) + 4095) div 4096"
    and "hi \<equiv> (unat (heap_end (tasks s t)) + unat (r_ebx regs) + 4095) div 4096"
  assumes "t \<noteq> 0" and "user_inv (mm s)" and "r_ebx regs \<noteq> 0"
    and "unat (heap_end (tasks s t)) + unat (r_ebx regs) \<le> 0xC0000000"
    and "2 * (hi - lo) \<le> card (avail_frames (frames (mm s)))"
    and "u \<noteq> t" and "heap_start (tasks s u) \<le> x" and "x < heap_end (tasks s u)" and "user_view (mm s) x \<noteq> None"
    and "lo \<le> unat x div 4096" and "unat x div 4096 < hi"
  shows "\<exists>s'. sys_sbrk regs s = Some (ret (heap_end (tasks s t)) regs, s') \<and> tasks s' u = tasks s u \<and>
    page_frame (mm s') (drop_bit 12 x) \<noteq> None \<and> page_frame (mm s') (drop_bit 12 x) \<noteq> page_frame (mm s) (drop_bit 12 x)"
proof -
  let ?old = "heap_end (tasks s t)" and ?new = "heap_end (tasks s t) + r_ebx regs"
  obtain m where m: "sys_sbrk regs s = Some (ret ?old regs, upd_task t (\<lambda>k. k\<lparr>heap_end := ?new\<rparr>) (s\<lparr>mm := m\<rparr>))"
      "fresh_pages {p. lo \<le> unat p \<and> unat p < hi} (mm s) m"
    using sys_sbrk_spec [of s regs 0, folded t_def, folded lo_def hi_def, OF assms(4-6)] assms(7,8) by auto
  have "unat (drop_bit 12 x) = unat x div 4096" by (simp add: drop_bit_eq_div unat_div)
  then have "drop_bit 12 x \<in> {p. lo \<le> unat p \<and> unat p < hi}" using assms(13,14) by simp
  then obtain f where f: "f \<in> avail_frames (frames (mm s))" "page_entry m (drop_bit 12 x) = Some (of_nat f, True, True)"
    using fresh_pages_entry [OF m(2)] by blast
  have "user_page (drop_bit 12 x)" using assms(12) by (simp add: user_view_def split: if_splits)
  moreover have "unat (of_nat f :: u32) = f" using f(1) by (auto simp: avail_frames_def unat_of_nat_u32)
  ultimately have "page_frame (mm s) (drop_bit 12 x) \<noteq> Some (of_nat f)" using assms(5) f(1) by (auto simp: user_inv_def)
  moreover have "page_frame m (drop_bit 12 x) = Some (of_nat f)" using f(2) by (simp add: page_frame_def)
  ultimately show ?thesis using m(1) assms(9) by (auto simp: upd_task_def)
qed

section \<open>Instances\<close>

definition demo_pmm :: pmm where
  "demo_pmm = \<lparr>frame_bitmap = (\<lambda>i. if i = 0 then 0xFF else 0), total_frames = 64, used_frames_count = 8, total_memory_kb = 256\<rparr>"

definition demo_mm :: vmm where
  "demo_mm = \<lparr>pmem = (\<lambda>_ _. 0), kernel_directory = 0xC0001000, cr3 = 0x1000, frames = demo_pmm\<rparr>"

lemma demo_pmm_test: "bitmap_test (frame_bitmap demo_pmm) f \<longleftrightarrow> f < 8"
proof -
  have "f div 8 = 0 \<longleftrightarrow> f < 8" by auto
  then show ?thesis by (auto simp: bitmap_test_bit demo_pmm_def bit_FF)
qed

lemma demo_mm_ok: "user_inv demo_mm" "card (avail_frames (frames demo_mm)) = 56" "page_entry demo_mm p = None"
proof -
  have used: "used_set demo_pmm = {..<8}" by (auto simp: used_set_def demo_pmm_test) (auto simp: demo_pmm_def)
  have av: "avail_frames demo_pmm = {8..<64}" by (auto simp: avail_frames_def free_set_def demo_pmm_test) (auto simp: demo_pmm_def)
  then show "card (avail_frames (frames demo_mm)) = 56" by (simp add: demo_mm_def)
  have pe: "page_entry demo_mm p = None" for p by (simp add: page_entry_def walk_def demo_mm_def)
  then show "page_entry demo_mm p = None" .
  have "pmm_inv demo_pmm" by (simp add: pmm_inv_def used) (simp add: demo_pmm_def MAX_FRAMES_def)
  then have "vm_inv demo_mm" using av by (simp add: vm_inv_def dir_inv_def demo_mm_def virt_frame_def)
  then show "user_inv demo_mm" by (simp add: user_inv_def page_frame_def pe)
qed

definition demo_sys :: "system \<Rightarrow> sysstate" where
  "demo_sys q = system.extend (q\<lparr>current_task := 0x1000, tasks := (\<lambda>_. blank_task\<lparr>fd_table := replicate 16 0,
        fd_offset := replicate 16 0, heap_start := 0x10000000, heap_end := 0x10000000\<rparr>)\<rparr>)
     (sysstate.fields demo_drivers demo_mm (replicate 20 None) (replicate 256 0) 0 [] 0 [0x2F] 0)"

definition demo_regs :: registers where
  "demo_regs = \<lparr>r_edi = 0, r_esi = 0, r_ebx = 5000, r_edx = 0, r_ecx = 0, r_eax = 8\<rparr>"

lemma demo_sys_sel:
  "get_current_task (demo_sys q) = 0x1000" "mm (demo_sys q) = demo_mm" "heap_start (tasks (demo_sys q) t) = 0x10000000"
  "heap_end (tasks (demo_sys q) t) = 0x10000000" "fd_table (tasks (demo_sys q) t) = replicate 16 0"
  "fd_offset (tasks (demo_sys q) t) = replicate 16 0"
  by (simp_all add: demo_sys_def system.defs sysstate.defs get_current_task_def)

theorem sys_sbrk_correct_witness:
  "\<exists>s'. sys_sbrk demo_regs (demo_sys (demo_system two_names)) = Some (ret 0x10000000 demo_regs, s') \<and> heap_mapped 0x1000 s'"
proof -
  have e: "r_ebx demo_regs = 5000" by (simp add: demo_regs_def)
  have "heap_mapped 0x1000 (demo_sys (demo_system two_names))" by (auto simp: heap_mapped_def demo_sys_sel)
  then show ?thesis
    using sys_sbrk_correct [of "demo_sys (demo_system two_names)" demo_regs] demo_mm_ok(1,2)
    unfolding demo_sys_sel e by (auto simp: demo_sys_sel)
qed

text \<open>A task grows its heap, then another one does.\<close>

theorem sbrk_takes_other_heap_witness:
  "\<exists>s s'. sys_sbrk demo_regs (demo_sys (demo_system two_names)) = Some (ret 0x10000000 demo_regs, s) \<and>
     sys_sbrk demo_regs (s\<lparr>current_task := 0x2000\<rparr>) = Some (ret 0x10000000 demo_regs, s') \<and>
     page_frame (mm s') 0x10000 \<noteq> page_frame (mm s) 0x10000"
proof -
  let ?d = "demo_sys (demo_system two_names)"
  have e: "r_ebx demo_regs = 5000" by (simp add: demo_regs_def)
  obtain m where m: "sys_sbrk demo_regs ?d = Some (ret 0x10000000 demo_regs,
        upd_task 0x1000 (\<lambda>k. k\<lparr>heap_end := 0x10001388\<rparr>) (?d\<lparr>mm := m\<rparr>))"
      "fresh_pages {p. 65536 \<le> unat p \<and> unat p < 65538} demo_mm m" "52 \<le> card (avail_frames (frames m))"
    using sys_sbrk_spec [of ?d demo_regs 52] demo_mm_ok(1,2) unfolding demo_sys_sel e by auto
  define s where "s = upd_task 0x1000 (\<lambda>k. k\<lparr>heap_end := 0x10001388\<rparr>) (?d\<lparr>mm := m\<rparr>)"
  have s: "get_current_task (s\<lparr>current_task := 0x2000\<rparr>) = 0x2000" "mm (s\<lparr>current_task := 0x2000\<rparr>) = m"
      "heap_end (tasks (s\<lparr>current_task := 0x2000\<rparr>) 0x2000) = 0x10000000" "heap_start (tasks (s\<lparr>current_task := 0x2000\<rparr>) 0x1000) = 0x10000000"
      "heap_end (tasks (s\<lparr>current_task := 0x2000\<rparr>) 0x1000) = 0x10001388"
    by (simp_all add: s_def upd_task_def get_current_task_def demo_sys_sel)
  have "user_inv m" using m(2) by (simp add: fresh_pages_def)
  moreover have "user_view m 0x10000000 \<noteq> None" by (rule fresh_pages_view [OF m(2)]) (simp_all add: user_page_def)
  ultimately obtain s' where "sys_sbrk demo_regs (s\<lparr>current_task := 0x2000\<rparr>) = Some (ret 0x10000000 demo_regs, s')"
      "page_frame (mm s') 0x10000 \<noteq> page_frame m 0x10000"
    using sbrk_takes_other_heap [of "s\<lparr>current_task := 0x2000\<rparr>" demo_regs "0x1000" "0x10000000"] m(3)
    unfolding s e by auto
  moreover have "mm s = m" by (simp add: s_def upd_task_def)
  ultimately show ?thesis using m(1) [folded s_def] by blast
qed

end
