(* ===== verification/Sys_Files.thy ===== *)
theory Sys_Files
  imports Sys_Memory
begin

text \<open>
  Files through system calls: what opening, writing, reading and closing a descriptor do to the
  descriptor table, the heap, the file and the memory of the program.
\<close>

section \<open>Paths in the memory of the program\<close>

definition user_str :: "vmm \<Rightarrow> u32 \<Rightarrow> cstring \<Rightarrow> bool" where
  "user_str m a str \<longleftrightarrow> a \<noteq> 0 \<and> 0 \<notin> set str \<and> user_view m (a + of_nat (length str)) = Some 0 \<and>
     (\<forall>i < length str. user_view m (a + of_nat i) = Some (str ! i))"

definition user_data :: "vmm \<Rightarrow> u32 \<Rightarrow> u8 list \<Rightarrow> bool" where
  "user_data m a d \<longleftrightarrow> (\<forall>i < length d. user_view m (a + of_nat i) = Some (d ! i))"

text \<open>The names of a path from the root, the inode it leads to, and what a lookup relies on.\<close>

definition abs_names :: "cstring \<Rightarrow> cstring list" where
  "abs_names path = path_names (if rd8 path = 0x2F then tl path else path)"

definition path_target :: "cstring \<Rightarrow> 'a system_scheme \<Rightarrow> u32 option" where
  "path_target path s = pafs_resolve (fs s) (vinode (nodes s (vfs_root s))) (abs_names path)"

definition lookup_ok :: "u32 \<Rightarrow> cstring \<Rightarrow> 'a system_scheme \<Rightarrow> bool" where
  "lookup_ok base path s \<longleftrightarrow> kheap_ok base (heap s) \<and> node_room base (kheap_live base (heap s)) \<and> tree_ok (fs s) \<and>
     vfs_root s \<noteq> 0 \<and> pafs_root_node s = vfs_root s \<and> vfs_root s \<in> fst ` kheap_live base (heap s) \<and>
     unat (vinode (nodes s (vfs_root s))) < 128 \<and>
     itype (inodes (fs s) ! unat (vinode (nodes s (vfs_root s)))) = PAFS_TYPE_DIR \<and>
     pafs_view (nodes s (vfs_root s)) (vinode (nodes s (vfs_root s))) (fs s) \<and>
     (\<forall>n \<in> set (abs_names path). length n < 128 \<and> n \<noteq> lit ''mnt'')"

lemma lookup_path_spec:
  fixes s :: "'a sysstate_scheme"
  assumes ok: "lookup_ok base path s" and str: "user_str (mm s) a path"
  obtains r and t :: "'a sysstate_scheme" where "lookup_path env a s = Some (r, t)" "looked s t"
    "lookup_result base (kheap_live base (heap s)) (path_target path s) r t"
    "\<forall>n \<in> fst ` kheap_live base (heap s). nodes t n = nodes s n"
proof -
  have "load_str (mm s) a = Some path" using str load_str_view [of path "mm s" a] by (auto simp: user_str_def)
  then have eq: "lookup_path env a s = vfs_get_node_by_path env (vfs_root s) path s"
    using str by (simp add: lookup_path_def user_str_def)
  have st: "path_start (vfs_root s) path s = (vfs_root s, if rd8 path = 0x2F then tl path else path)"
    by (simp add: path_start_def)
  have "\<exists>r t. vfs_get_node_by_path env (vfs_root s) path s = Some (r, t) \<and> looked s t \<and>
      lookup_result base (kheap_live base (heap s)) (path_target path s) r t \<and>
      (\<forall>n \<in> fst ` kheap_live base (heap s). nodes t n = nodes s n)"
    using path_lookup [OF _ _ _ st, of base "vinode (nodes s (vfs_root s))" env] ok
    unfolding lookup_ok_def path_target_def abs_names_def by simp
  then show ?thesis using that eq by auto
qed

lemma looked_mm: "looked s t \<Longrightarrow> mm t = mm s" for s t :: "'a sysstate_scheme"
  by (auto simp: looked_def)

lemma looked_files:
  assumes "looked s t"
  shows "contents (fs t) = contents (fs s)" "file_ok (fs t) = file_ok (fs s)" "disk_ok (fs t) = disk_ok (fs s)"
    "sb_ok (fs t) = sb_ok (fs s)" "pafs_inv (fs t) = pafs_inv (fs s)" "missing_slots (fs t) = missing_slots (fs s)"
    "block_bitmap (fs t) = block_bitmap (fs s)"
  using assms unfolding looked_def
  by (auto simp: fun_eq_iff contents_def file_byte_def file_ok_def disk_ok_def sb_ok_def pafs_inv_def missing_slots_def)

section \<open>Opening\<close>

lemma task_looked: "looked s t \<Longrightarrow> the_task t = the_task s \<and> free_fd k t = free_fd k s" for s t :: "'a sysstate_scheme"
  by (simp add: the_task_def free_fd_def get_current_task_def looked_sel)

lemma sys_open_spec:
  fixes s :: "'a sysstate_scheme"
  assumes ok: "lookup_ok base path s" and str: "user_str (mm s) (r_ebx regs) path" and t: "get_current_task s = t" "t \<noteq> 0"
    and creat: "r_ecx regs AND 1 = 0 \<or> path_target path s \<noteq> None"
  shows "\<exists>s1. looked s s1 \<and> kheap_ok base (heap s1) \<and> (\<forall>n \<in> fst ` kheap_live base (heap s). nodes s1 n = nodes s n) \<and>
    (case (path_target path s, free_fd t s) of
       (Some ino, Some i) \<Rightarrow>
          (\<exists>n c. n \<noteq> 0 \<and> n \<notin> fst ` kheap_live base (heap s) \<and> c \<le> 207 \<and>
             kheap_live base (heap s1) = insert (n, c) (kheap_live base (heap s)) \<and> pafs_view (nodes s1 n) ino (fs s1) \<and>
             sys_open env regs s = Some (ret (of_nat i) regs, set_fd_offset t i 0 (set_fd t i n s1)))
     | _ \<Rightarrow> kheap_live base (heap s1) = kheap_live base (heap s) \<and> sys_open env regs s = Some (ret (-1) regs, s1))"
proof -
  let ?L = "kheap_live base (heap s)"
  obtain r s1 where l: "lookup_path env (r_ebx regs) s = Some (r, s1)" "looked s s1"
      "lookup_result base ?L (path_target path s) r s1" "\<forall>n \<in> fst ` ?L. nodes s1 n = nodes s n"
    by (rule lookup_path_spec [OF ok str])
  note tl = task_looked [OF l(2)]
  have tt: "the_task s = Some t" using t by (simp add: the_task_def)
  have okh: "kheap_ok base (heap s1)" using l(3) by (simp add: lookup_result_def)
  show ?thesis
  proof (cases "path_target path s")
    case None
    then have "r = 0" "kheap_live base (heap s1) = ?L" using l(3) by (simp_all add: lookup_result_def)
    moreover have "open_node env (r_ebx regs) (r_ecx regs) s = Some (r, s1)"
      using None creat l(1) by (simp add: open_node_def)
    ultimately show ?thesis using l(2,4) okh None by (intro exI [of _ s1]) (simp add: sys_open_def)
  next
    case (Some ino)
    then obtain c where r: "r \<noteq> 0" "r \<notin> fst ` ?L" "c \<le> 207" "kheap_live base (heap s1) = insert (r, c) ?L" "pafs_view (nodes s1 r) ino (fs s1)"
      using l(3) by (auto simp: lookup_result_def)
    have on: "open_node env (r_ebx regs) (r_ecx regs) s = Some (r, s1)" using l(1) r(1) by (simp add: open_node_def)
    show ?thesis
    proof (cases "free_fd t s")
      case (Some i)
      then have "sys_open env regs s = Some (ret (of_nat i) regs, set_fd_offset t i 0 (set_fd t i r s1))"
        using on r(1) tl tt by (simp add: sys_open_def)
      then show ?thesis using l(2,4) okh r Some \<open>path_target path s = Some ino\<close> by (intro exI [of _ s1]) auto
    next
      case None
      have "r \<noteq> pafs_root_node s1" using r(2) ok looked_sel(2) [OF l(2)] by (auto simp: lookup_ok_def)
      then obtain h where h: "vfs_close r s1 = Some (s1\<lparr>heap := h\<rparr>)" "kheap_ok base h" "kheap_live base h = ?L"
        by (rule close_node [OF okh r(4,2,5,1)])
      have "sys_open env regs s = Some (ret (-1) regs, s1\<lparr>heap := h\<rparr>)"
        using on r(1) tl tt None h(1) by (simp add: sys_open_def)
      moreover have "looked s (s1\<lparr>heap := h\<rparr>)"
        using looked_trans [OF l(2)] looked_heap_nodes [where s = s1 and h = h and ns = "nodes s1"] by simp
      ultimately show ?thesis using l(4) h None \<open>path_target path s = Some ino\<close>
        by (intro exI [of _ "s1\<lparr>heap := h\<rparr>"]) auto
    qed
  qed
qed

section \<open>Writing, reading and closing\<close>

text \<open>A node of a PAFS file in a descriptor.\<close>

definition file_node :: "vfs_node \<Rightarrow> u32 \<Rightarrow> bool" where
  "file_node v ino \<longleftrightarrow> vinode v = ino \<and> vread v = Pafs_fun \<and> vwrite v = Pafs_fun \<and> vclose v = Pafs_fun \<and> vimpl v = 0 \<and>
     vflags v = VFS_FILE"

lemma view_file: "pafs_view v ino q \<Longrightarrow> itype (inodes q ! unat ino) = PAFS_TYPE_FILE \<Longrightarrow> file_node v ino"
  by (simp add: pafs_view_def file_node_def pafs_consts)

definition fd_file :: "u32 \<Rightarrow> u32 \<Rightarrow> u32 \<Rightarrow> u32 \<Rightarrow> 'a sysstate_scheme \<Rightarrow> bool" where
  "fd_file t fd n ino s \<longleftrightarrow> get_current_task s = t \<and> t \<noteq> 0 \<and> unat fd < 16 \<and> fd_table (tasks s t) ! unat fd = n \<and> n \<noteq> 0 \<and>
     file_node (nodes s n) ino"

lemma sint_fd: "unat (fd :: u32) < 16 \<Longrightarrow> 0 \<le> sint fd \<and> sint fd < 16 \<and> nat (sint fd) = unat fd"
proof -
  assume fd: "unat fd < 16"
  then have "sint fd = int (unat fd)" by (intro sint_small) simp
  then show ?thesis using fd by linarith
qed

lemma fd_file_node:
  assumes "fd_file t fd n ino s"
  shows "the_task s = Some t" "fd_node t fd s = n" "nat (sint fd) = unat fd" "n \<noteq> 0" "file_node (nodes s n) ino"
  using assms sint_fd [of fd] by (auto simp: fd_file_def the_task_def fd_node_def)

lemma flags_file [simp]:
  "contents (q\<lparr>pafs.eflags := e\<rparr>) = contents q" "file_ok (q\<lparr>pafs.eflags := e\<rparr>) = file_ok q"
  "disk_ok (q\<lparr>pafs.eflags := e\<rparr>) = disk_ok q" "sb_ok (q\<lparr>pafs.eflags := e\<rparr>) = sb_ok q"
  "pafs_inv (q\<lparr>pafs.eflags := e\<rparr>) = pafs_inv q" "missing_slots (q\<lparr>pafs.eflags := e\<rparr>) = missing_slots q"
  by (simp_all add: fun_eq_iff contents_def file_byte_def file_ok_def disk_ok_def sb_ok_def pafs_inv_def missing_slots_def)

text \<open>What a write of \<open>data\<close> at an offset needs: an intact file system and room on the disk.\<close>

definition can_write :: "pafs \<Rightarrow> nat \<Rightarrow> nat \<Rightarrow> nat \<Rightarrow> bool" where
  "can_write q ino off n \<longleftrightarrow> pafs_inv q \<and> disk_ok q \<and> sb_ok q \<and> ino < 128 \<and> itype (inodes q ! ino) = PAFS_TYPE_FILE \<and>
     file_ok q ino \<and> off \<le> unat (isize (inodes q ! ino)) \<and> off + n \<le> 7168 \<and>
     card (missing_slots q ino (off div 512) (off + n)) \<le> card (free_block_set (block_bitmap q))"

definition same_tree :: "nat \<Rightarrow> pafs \<Rightarrow> pafs \<Rightarrow> bool" where
  "same_tree ino q q' \<longleftrightarrow> (\<exists>p e l. frame ino (q\<lparr>pafs.eflags := e, pafs_lock := l\<rparr>) p \<and> q' = unlock_pafs p)"

lemma sys_write_spec:
  fixes s :: "'a sysstate_scheme" and regs t
  defines "off \<equiv> unat (fd_offset (tasks s t) ! unat (r_ebx regs))"
  assumes fd: "fd_file t (r_ebx regs) n ino s" "r_ebx regs \<noteq> 1" "r_ebx regs \<noteq> 2"
    and data: "user_data (mm s) (r_ecx regs) data" "length data = unat (r_edx regs)"
    and wr: "can_write (fs s) (unat ino) off (length data)"
  obtains q where "sys_write_fd regs s = Some (ret (r_edx regs) regs,
      advance t (r_ebx regs) (r_edx regs) (s\<lparr>fs := q, kernel.eflags := pafs.eflags q\<rparr>))"
    "contents q (unat ino) = take off (contents (fs s) (unat ino)) @ data @ drop (off + length data) (contents (fs s) (unat ino))"
    "file_ok q (unat ino)" "disk_ok q" "same_tree (unat ino) (fs s) q"
proof -
  note f = fd_file_node [OF fd(1)]
  let ?o = "fd_offset (tasks s t) ! unat (r_ebx regs)"
  let ?q = "fs s\<lparr>pafs.eflags := kernel.eflags s\<rparr>"
  define q where "q = snd (pafs_vfs_write (unat ino) ?o (r_edx regs) data ?q)"
  note cw = wr [unfolded can_write_def off_def data(2)]
  have w: "fst (pafs_vfs_write (unat ino) ?o (r_edx regs) data ?q) = r_edx regs \<and>
      contents q (unat ino) = take (unat ?o) (contents ?q (unat ino)) @ data @ drop (unat ?o + unat (r_edx regs)) (contents ?q (unat ino)) \<and>
      file_ok q (unat ino) \<and> (\<forall>j < 128. j \<noteq> unat ino \<and> file_ok ?q j \<longrightarrow> contents q j = contents ?q j) \<and> disk_ok q \<and>
      (\<exists>p. q = unlock_pafs p \<and> frame (unat ino) (lock_pafs ?q) p)"
    by (rule vfs_write_bytes) (use cw data(2) q_def in simp_all)
  have "load_bytes (mm s) (r_ecx regs) (unat (r_edx regs)) = Some data"
    using load_bytes_view [of data "mm s" "r_ecx regs"] data by (simp add: user_data_def)
  moreover have "vfs_write n ?o (r_edx regs) data s = Some (r_edx regs, s\<lparr>fs := q, kernel.eflags := pafs.eflags q\<rparr>)"
    using f(5) w by (simp add: vfs_write_def file_node_def on_fs_def split_beta q_def [symmetric])
  ultimately have "sys_write_fd regs s = Some (ret (r_edx regs) regs,
      advance t (r_ebx regs) (r_edx regs) (s\<lparr>fs := q, kernel.eflags := pafs.eflags q\<rparr>))"
    using f(1-4) fd(2,3) by (simp add: sys_write_fd_def Let_def)
  moreover have "same_tree (unat ino) (fs s) q"
  proof -
    obtain p where "q = unlock_pafs p" "frame (unat ino) (lock_pafs ?q) p" using w by blast
    moreover have "\<exists>e l. lock_pafs ?q = fs s\<lparr>pafs.eflags := e, pafs_lock := l\<rparr>"
      by (simp add: lock_pafs_def spin_lock_def split_beta) blast
    ultimately show ?thesis unfolding same_tree_def by metis
  qed
  ultimately show ?thesis using that [of q] w by (simp add: off_def data(2))
qed

lemma sys_read_spec:
  fixes s :: "'a sysstate_scheme" and regs t ino
  defines "off \<equiv> unat (fd_offset (tasks s t) ! unat (r_ebx regs))"
  defines "d \<equiv> take (unat (r_edx regs)) (drop off (contents (fs s) (unat ino)))"
  assumes fd: "fd_file t (r_ebx regs) n ino s" and ok: "disk_ok (fs s)" "itype (inodes (fs s) ! unat ino) = PAFS_TYPE_FILE"
      "unat (isize (inodes (fs s) ! unat ino)) \<le> 7168"
    and sz: "off + unat (r_edx regs) < 4294967296"
    and mem: "user_inv (mm s)" "\<And>i. i < unat (r_edx regs) \<Longrightarrow> user_view (mm s) (r_ecx regs + of_nat i) \<noteq> None"
  obtains q m where "sys_read env regs s = Some (ret (of_nat (length d)) regs,
      advance t (r_ebx regs) (of_nat (length d)) (s\<lparr>fs := q, kernel.eflags := pafs.eflags q, mm := m\<rparr>))"
    "q = unlock_pafs (lock_pafs (fs s\<lparr>pafs.eflags := kernel.eflags s\<rparr>))"
    "user_inv m" "user_view m = copied (r_ecx regs) d (user_view (mm s))"
proof -
  note f = fd_file_node [OF fd]
  let ?o = "fd_offset (tasks s t) ! unat (r_ebx regs)" and ?n = "r_edx regs"
  let ?q = "fs s\<lparr>pafs.eflags := kernel.eflags s\<rparr>" and ?b = "user_bytes (r_ecx regs) (unat (r_edx regs)) s"
  define q where "q = unlock_pafs (lock_pafs ?q)"
  have ld: "length d \<le> unat ?n" "length d \<le> 7168" using ok(3) by (simp_all add: d_def contents_def)
  have "\<exists>st'. pafs_vfs_read (unat ino) ?o ?n ?b ?q = ((of_nat (length d), overwrite 0 d ?b), st')"
    using vfs_read_bytes [of ?q "unat ino" ?o ?n ?b] ok sz by (simp add: d_def off_def user_bytes_def)
  then have r: "pafs_vfs_read (unat ino) ?o ?n ?b ?q = ((of_nat (length d), overwrite 0 d ?b), q)"
    using vfs_read_snd [of "unat ino" ?o ?n ?b ?q] by (auto simp: q_def)
  have vr: "vfs_read env n ?o ?n ?b s = Some ((of_nat (length d), overwrite 0 d ?b), s\<lparr>fs := q, kernel.eflags := pafs.eflags q\<rparr>)"
    using f(5) r by (simp add: vfs_read_def file_node_def on_fs_def)
  have tk: "take (unat (of_nat (length d) :: u32)) (overwrite 0 d ?b) = d"
    using ld(2) by (simp add: overwrite_def unat_of_nat_u32)
  obtain m where m: "memcpy_to (r_ecx regs) d (mm s) = Some m" "user_inv m" "user_view m = copied (r_ecx regs) d (user_view (mm s))"
    using memcpy_view [OF mem(1), of d "r_ecx regs"] mem(2) ld by fastforce
  have "sys_read env regs s = Some (ret (of_nat (length d)) regs,
      advance t (r_ebx regs) (of_nat (length d)) (s\<lparr>fs := q, kernel.eflags := pafs.eflags q, mm := m\<rparr>))"
    using f(1-4) vr tk m(1) by (simp add: sys_read_def user_store_def Let_def)
  then show ?thesis using that q_def m(2,3) by blast
qed

lemma sys_close_spec:
  fixes s :: "'a sysstate_scheme"
  assumes fd: "fd_file t (r_ebx regs) n ino s" and ok: "kheap_ok base (heap s)" "kheap_live base (heap s) = insert (n, c) L" "n \<notin> fst ` L"
    and root: "n \<noteq> pafs_root_node s"
  obtains h where "sys_close regs s = Some (ret 0 regs,
      set_fd_offset t (unat (r_ebx regs)) 0 (set_fd t (unat (r_ebx regs)) 0 (s\<lparr>heap := h\<rparr>)))"
    "kheap_ok base h" "kheap_live base h = L"
proof -
  note f = fd_file_node [OF fd]
  have "vfs_close n s = Some (s\<lparr>heap := kfree n (heap s)\<rparr>)"
    using f(4,5) root by (simp add: vfs_close_def file_node_def pafs_vfs_close_def krelease_def)
  moreover have "(n, c) \<notin> L" using ok(3) by force
  moreover have "kheap_ok base (kfree n (heap s)) \<and> kheap_live base (kfree n (heap s)) = kheap_live base (heap s) - {(n, c)}"
    using kh.release_ok [OF ok(1), of n c] ok(2) by simp
  ultimately show ?thesis using that [of "kfree n (heap s)"] f(1-4) ok(2) by (simp add: sys_close_def Let_def)
qed

section \<open>Directories while files are written\<close>

lemma same_tree_sel:
  assumes "same_tree ino q q'"
  shows "itype (inodes q' ! j) = itype (inodes q ! j)" "root_inode (sb q') = root_inode (sb q)"
  using assms by (cases "j = ino"; force simp: same_tree_def frame_def)+

lemma dir_ok_flags [simp]: "dir_ok (q\<lparr>pafs.eflags := e, pafs_lock := l\<rparr>) d = dir_ok q d" "dir_ok (unlock_pafs q) d = dir_ok q d"
  by (simp_all add: dir_ok_def used_entries_def dir_block_def)

lemma same_tree_dir:
  assumes st: "same_tree ino q q'" and tree: "tree_ok q" and isf: "itype (inodes q ! ino) = PAFS_TYPE_FILE" and d: "d < 128"
  shows "pafs_find_entry d name q' = pafs_find_entry d name q" and "itype (inodes q ! d) = PAFS_TYPE_DIR \<Longrightarrow> dir_ok q' d"
proof -
  obtain p e l where p: "frame ino (q\<lparr>pafs.eflags := e, pafs_lock := l\<rparr>) p" "q' = unlock_pafs p"
    using st by (auto simp: same_tree_def)
  have u: "pafs_find_entry d name (unlock_pafs p) = pafs_find_entry d name p" by (simp add: unlock_pafs_def spin_unlock_def Let_def)
  show "itype (inodes q ! d) = PAFS_TYPE_DIR \<Longrightarrow> dir_ok q' d"
  proof -
    assume dir: "itype (inodes q ! d) = PAFS_TYPE_DIR"
    then have "d \<noteq> ino" using isf by (auto simp: pafs_consts)
    then show ?thesis using find_entry_frame(2) [OF _ p(1) d] tree dir d p(2) by (simp add: tree_ok_def)
  qed
  show "pafs_find_entry d name q' = pafs_find_entry d name q"
  proof (cases "itype (inodes q ! d) = PAFS_TYPE_DIR")
    case True
    then have "d \<noteq> ino" using isf by (auto simp: pafs_consts)
    then show ?thesis using find_entry_frame(1) [OF _ p(1) d, of name] tree True d p(2) u by (simp add: tree_ok_def)
  next
    case False
    then show ?thesis using same_tree_sel(1) [OF st, of d] by (simp add: pafs_find_entry_def)
  qed
qed

lemma unat_of_entry: "0 \<le> r \<Longrightarrow> r < 2147483648 \<Longrightarrow> unat (of_int r :: u32) = nat r"
  by (simp add: unat_eq_nat_uint uint_word_of_int_eq take_bit_int_eq_self)

lemma same_tree_resolve:
  assumes st: "same_tree ino q q'" and tree: "tree_ok q" and isf: "itype (inodes q ! ino) = PAFS_TYPE_FILE"
  shows "unat i < 128 \<Longrightarrow> pafs_resolve q' i ns = pafs_resolve q i ns" and "tree_ok q'"
proof -
  show "tree_ok q'" using same_tree_dir(2) [OF st tree isf] same_tree_sel(1) [OF st] by (simp add: tree_ok_def)
  show "unat i < 128 \<Longrightarrow> pafs_resolve q' i ns = pafs_resolve q i ns"
  proof (induction ns arbitrary: i)
    case (Cons n ns)
    let ?r = "pafs_find_entry (unat i) n q"
    show ?case
    proof (cases "?r = -1")
      case False
      note te = tree_entry [OF tree Cons.prems False]
      have "unat (of_int ?r :: u32) = nat ?r" using te by (intro unat_of_entry) simp_all
      then have "unat (of_int ?r :: u32) < 128" using te by simp
      then show ?thesis using Cons.IH same_tree_dir(1) [OF st tree isf Cons.prems] by (simp add: Let_def)
    qed (use same_tree_dir(1) [OF st tree isf Cons.prems] in \<open>simp add: Let_def\<close>)
  qed simp
qed

lemma resolve_range:
  assumes "tree_ok q" and "unat i < 128" and "pafs_resolve q i ns = Some j"
  shows "unat j < 128"
  using assms(2,3)
proof (induction ns arbitrary: i)
  case (Cons n ns)
  let ?r = "pafs_find_entry (unat i) n q"
  have ne: "?r \<noteq> -1" using Cons.prems(2) by (auto simp: Let_def)
  note te = tree_entry [OF assms(1) Cons.prems(1) ne]
  have "unat (of_int ?r :: u32) = nat ?r" using te by (intro unat_of_entry) simp_all
  then show ?case using Cons.IH [of "of_int ?r"] Cons.prems(2) ne te by (simp add: Let_def)
qed simp

section \<open>Sequences of calls\<close>

text \<open>A call with its number and three arguments, and the value it returns.\<close>

definition call_regs :: "syscall \<Rightarrow> u32 \<Rightarrow> u32 \<Rightarrow> u32 \<Rightarrow> registers" where
  "call_regs c b cx dx = \<lparr>r_edi = 0, r_esi = 0, r_ebx = b, r_edx = dx, r_ecx = cx, r_eax = of_nat (sys_number c)\<rparr>"

definition sys_call :: "'a env \<Rightarrow> syscall \<Rightarrow> u32 \<Rightarrow> u32 \<Rightarrow> u32 \<Rightarrow> 'a sysstate_scheme \<Rightarrow> (u32 \<times> 'a sysstate_scheme) option" where
  "sys_call env c b cx dx s = map_option (\<lambda>(r, s'). (r_eax r, s')) (syscall_handler env (call_regs c b cx dx) s)"

definition table_ok :: "'a sysstate_scheme \<Rightarrow> bool" where
  "table_ok s \<longleftrightarrow> (\<forall>c. syscall_table s ! sys_number c = Some c)"

lemma sys_number_lt: "sys_number c < 17"
  by (cases c) (simp_all add: sys_number_def)

lemma sys_call_run:
  assumes "table_ok s"
  shows "sys_call env c b cx dx s = map_option (\<lambda>(r, s'). (r_eax r, s')) (run_syscall env c (call_regs c b cx dx) s)"
proof -
  have "unat (of_nat (sys_number c) :: u32) = sys_number c" "\<not> (20 :: u32) \<le> of_nat (sys_number c)"
    using sys_number_lt [of c] by (simp_all add: word_le_nat_alt unat_of_nat_u32)
  then show ?thesis using assms by (simp add: sys_call_def syscall_handler_def call_regs_def table_ok_def)
qed

lemma init_syscalls_table: "length (syscall_table s) = 20 \<Longrightarrow> table_ok (init_syscalls s)"
proof -
  assume l: "length (syscall_table s) = 20"
  have "syscall_table (init_syscalls s) ! sys_number c = Some c" for c
    using l by (cases c) (simp_all add: init_syscalls_def say_def sys_number_def nth_list_update)
  then show ?thesis by (simp add: table_ok_def)
qed

lemma ret_sel [simp]: "r_eax (ret v regs) = v" by (simp add: ret_def)

lemma call_regs_sel [simp]: "r_ebx (call_regs c b cx dx) = b" "r_ecx (call_regs c b cx dx) = cx" "r_edx (call_regs c b cx dx) = dx"
  by (simp_all add: call_regs_def)

text \<open>Updates of the descriptor table keep everything else.\<close>

definition but_tasks :: "'a sysstate_scheme \<Rightarrow> 'a sysstate_scheme \<Rightarrow> bool" where
  "but_tasks s s' \<longleftrightarrow> (\<exists>ts. s' = s\<lparr>tasks := ts\<rparr>)"

lemma but_tasks_sel:
  assumes "but_tasks s s'"
  shows "heap s' = heap s" "nodes s' = nodes s" "fs s' = fs s" "mm s' = mm s" "current_task s' = current_task s"
    "vfs_root s' = vfs_root s" "pafs_root_node s' = pafs_root_node s" "syscall_table s' = syscall_table s"
  using assms by (auto simp: but_tasks_def)

lemma fd_updates:
  "but_tasks s (set_fd_offset t i v (set_fd t i n s))" "but_tasks s (advance t fd k s)"
  "fd_table (tasks (set_fd_offset t i v (set_fd t i n s)) t) = (fd_table (tasks s t))[i := n]"
  "fd_offset (tasks (set_fd_offset t i v (set_fd t i n s)) t) = (fd_offset (tasks s t))[i := v]"
  "fd_table (tasks (advance t fd k s) t) = fd_table (tasks s t)"
proof -
  show "but_tasks s (advance t fd k s)"
  proof -
    have "s = s\<lparr>tasks := tasks s\<rparr>" by simp
    then show ?thesis unfolding but_tasks_def advance_def Let_def set_fd_offset_def upd_task_def by metis
  qed
qed (auto simp: but_tasks_def set_fd_offset_def set_fd_def upd_task_def advance_def Let_def)

lemma free_fd_range: "free_fd t s = Some i \<Longrightarrow> i < 16 \<and> fd_table (tasks s t) ! i = 0"
  by (auto simp: free_fd_def dest: find_index_SomeD)

text \<open>A task with its descriptor table, and a state in which the kernel is otherwise the same.\<close>

definition fds_ok :: "u32 \<Rightarrow> 'a sysstate_scheme \<Rightarrow> bool" where
  "fds_ok t s \<longleftrightarrow> get_current_task s = t \<and> t \<noteq> 0 \<and> length (fd_table (tasks s t)) = 16 \<and> length (fd_offset (tasks s t)) = 16"

definition same_vfs :: "u32 \<Rightarrow> (u32 \<times> nat) set \<Rightarrow> 'a sysstate_scheme \<Rightarrow> 'a sysstate_scheme \<Rightarrow> bool" where
  "same_vfs base L s s' \<longleftrightarrow> kheap_ok base (heap s') \<and> kheap_live base (heap s') = L \<and>
     (\<forall>m \<in> fst ` kheap_live base (heap s). nodes s' m = nodes s m) \<and> vfs_root s' = vfs_root s \<and>
     pafs_root_node s' = pafs_root_node s \<and> syscall_table s' = syscall_table s \<and> get_current_task s' = get_current_task s"

lemma open_file:
  fixes s :: "'a sysstate_scheme"
  assumes ok: "lookup_ok base path s" and str: "user_str (mm s) (r_ebx regs) path" and t: "fds_ok t s"
    and tgt: "path_target path s = Some ino" and isf: "itype (inodes (fs s) ! unat ino) = PAFS_TYPE_FILE"
    and free: "free_fd t s = Some i"
  obtains n c and s' :: "'a sysstate_scheme" where
    "sys_open env regs s = Some (ret (of_nat i) regs, s')" "fd_file t (of_nat i) n ino s'" "fds_ok t s'"
    "fd_table (tasks s' t) = (fd_table (tasks s t))[i := n]" "fd_offset (tasks s' t) ! i = 0" "mm s' = mm s"
    "same_vfs base (insert (n, c) (kheap_live base (heap s))) s s'" "n \<notin> fst ` kheap_live base (heap s)"
    "\<exists>e l. fs s' = fs s\<lparr>pafs.eflags := e, pafs_lock := l\<rparr>"
proof -
  let ?L = "kheap_live base (heap s)"
  obtain s1 n c where o: "looked s s1" "kheap_ok base (heap s1)" "\<forall>n \<in> fst ` ?L. nodes s1 n = nodes s n"
      "n \<noteq> 0" "n \<notin> fst ` ?L" "kheap_live base (heap s1) = insert (n, c) ?L" "pafs_view (nodes s1 n) ino (fs s1)"
      "sys_open env regs s = Some (ret (of_nat i) regs, set_fd_offset t i 0 (set_fd t i n s1))"
    using sys_open_spec [OF ok str, of t env] t tgt free by (auto simp: fds_ok_def)
  define s' where "s' = set_fd_offset t i 0 (set_fd t i n s1)"
  note fu = fd_updates(1,3,4) [where s = s1 and t = t and i = i and v = 0 and n = n, folded s'_def]
  note bs = but_tasks_sel [OF fu(1)]
  note ls = looked_sel [OF o(1)]
  have i: "i < 16" "unat (of_nat i :: u32) = i" using free_fd_range [OF free] by (simp_all add: unat_of_nat_u32)
  have fn: "file_node (nodes s1 n) ino" by (rule view_file [OF o(7)]) (use isf ls(5) in simp)
  have "fd_file t (of_nat i) n ino s'" using fn t i fu(2) bs ls(10,11) o(4)
    by (auto simp: fd_file_def fds_ok_def get_current_task_def)
  moreover have "fds_ok t s'" using t fu(2,3) bs(5) ls(10,11) by (simp add: fds_ok_def get_current_task_def)
  moreover have "same_vfs base (insert (n, c) ?L) s s'"
    using bs o(1-3,6) ls(1,2,11) by (auto simp: same_vfs_def get_current_task_def looked_def)
  moreover have "\<exists>e l. fs s' = fs s\<lparr>pafs.eflags := e, pafs_lock := l\<rparr>"
    using o(1) bs(3) unfolding looked_def by (elim exE) (rule exI, rule exI, simp)
  moreover have "mm s' = mm s" using looked_mm [OF o(1)] bs(4) by simp
  moreover have "fd_offset (tasks s' t) ! i = 0" using fu(3) t i ls(10) by (simp add: fds_ok_def)
  moreover have "fd_table (tasks s' t) = (fd_table (tasks s t))[i := n]" using fu(2) ls(10) by simp
  ultimately show ?thesis using that o(5,8) s'_def by metis
qed

text \<open>After a file has been written and closed, paths lead where they led before.\<close>

lemma lookup_again:
  fixes s s' :: "'a sysstate_scheme"
  assumes ok: "lookup_ok base path s" and v: "same_vfs base (kheap_live base (heap s)) s s'"
    and st: "same_tree ino (fs s) (fs s')" and isf: "itype (inodes (fs s) ! ino) = PAFS_TYPE_FILE"
  shows "lookup_ok base path s'" and "path_target path s' = path_target path s"
proof -
  let ?r = "vinode (nodes s (vfs_root s))"
  have r: "nodes s' (vfs_root s) = nodes s (vfs_root s)" "vfs_root s' = vfs_root s" "pafs_root_node s' = pafs_root_node s"
    using ok v by (auto simp: lookup_ok_def same_vfs_def)
  have tree: "tree_ok (fs s)" "unat ?r < 128" using ok by (simp_all add: lookup_ok_def)
  note sr = same_tree_resolve [OF st tree(1) isf]
  have it: "itype (inodes (fs s') ! j) = itype (inodes (fs s) ! j)" for j by (rule same_tree_sel(1) [OF st])
  have "pafs_view (nodes s (vfs_root s)) ?r (fs s')" using ok it by (simp add: lookup_ok_def pafs_view_def)
  then show "lookup_ok base path s'" using ok r v sr(2) it by (simp add: lookup_ok_def same_vfs_def)
  show "path_target path s' = path_target path s" using sr(1) [OF tree(2)] r by (simp add: path_target_def)
qed

lemma copied_data:
  assumes "length d \<le> 4294967296"
  shows "user_data m b d \<longleftrightarrow> (\<forall>i < length d. user_view m (b + of_nat i) = Some (d ! i))"
    and "i < length d \<Longrightarrow> copied b d f (b + of_nat i) = Some (d ! i)"
  using assms by (simp_all add: user_data_def copied_def Let_def unat_of_nat_u32)

lemma write_and_close:
  fixes s :: "'a sysstate_scheme"
  assumes f: "fd_file t (of_nat i) n ino s" "fds_ok t s" and i: "i < 16" "i \<noteq> 1" "i \<noteq> 2"
    and off: "fd_offset (tasks s t) ! i = 0" and data: "user_data (mm s) b data"
    and wr: "can_write (fs s) (unat ino) 0 (length data)"
    and h: "kheap_ok base (heap s)" "kheap_live base (heap s) = insert (n, c) L" "n \<notin> fst ` L" "n \<noteq> pafs_root_node s"
    and tab: "table_ok s"
  obtains s1 s2 where "sys_call env Sys_write_fd (of_nat i) b (of_nat (length data)) s = Some (of_nat (length data), s1)"
    "sys_call env Sys_close (of_nat i) 0 0 s1 = Some (0, s2)" "fds_ok t s2" "mm s2 = mm s"
    "fd_table (tasks s2 t) = (fd_table (tasks s t))[i := 0]" "nodes s2 = nodes s" "kheap_ok base (heap s2)" "kheap_live base (heap s2) = L"
    "vfs_root s2 = vfs_root s" "pafs_root_node s2 = pafs_root_node s" "syscall_table s2 = syscall_table s"
    "contents (fs s2) (unat ino) = data @ drop (length data) (contents (fs s) (unat ino))"
    "file_ok (fs s2) (unat ino)" "disk_ok (fs s2)" "same_tree (unat ino) (fs s) (fs s2)"
proof -
  let ?fd = "of_nat i :: u32" and ?n = "of_nat (length data) :: u32"
  have ui: "unat ?fd = i" "?fd \<noteq> 1" "?fd \<noteq> 2" using i by (auto simp: unat_of_nat_u32 word_unat_eq_iff)
  have un: "length data = unat ?n" using wr by (simp add: can_write_def unat_of_nat_u32)
  obtain q where w: "sys_write_fd (call_regs Sys_write_fd ?fd b ?n) s = Some (ret ?n (call_regs Sys_write_fd ?fd b ?n),
        advance t ?fd ?n (s\<lparr>fs := q, kernel.eflags := pafs.eflags q\<rparr>))"
      "contents q (unat ino) = data @ drop (length data) (contents (fs s) (unat ino))"
      "file_ok q (unat ino)" "disk_ok q" "same_tree (unat ino) (fs s) q"
    using sys_write_spec [of t "call_regs Sys_write_fd ?fd b ?n" n ino s data] f(1) ui off data un wr by auto
  define s1 where "s1 = advance t ?fd ?n (s\<lparr>fs := q, kernel.eflags := pafs.eflags q\<rparr>)"
  note a = fd_updates(2,5) [where s = "s\<lparr>fs := q, kernel.eflags := pafs.eflags q\<rparr>" and t = t and fd = ?fd and k = ?n, folded s1_def]
  note b1 = but_tasks_sel [OF a(1)]
  have f1: "fd_file t ?fd n ino s1" using f(1) a(2) b1(2,5) by (simp add: fd_file_def get_current_task_def)
  have l1: "length (fd_offset (tasks s1 t)) = 16"
    using f(2) by (simp add: s1_def advance_def set_fd_offset_def upd_task_def fds_ok_def Let_def)
  obtain h' where c: "sys_close (call_regs Sys_close ?fd 0 0) s1 = Some (ret 0 (call_regs Sys_close ?fd 0 0),
        set_fd_offset t i 0 (set_fd t i 0 (s1\<lparr>heap := h'\<rparr>)))" "kheap_ok base h'" "kheap_live base h' = L"
    using sys_close_spec [of t "call_regs Sys_close ?fd 0 0" n ino s1 base c L] f1 h b1(1,7) ui by auto
  define s2 where "s2 = set_fd_offset t i 0 (set_fd t i 0 (s1\<lparr>heap := h'\<rparr>))"
  note u = fd_updates(1,3,4) [where s = "s1\<lparr>heap := h'\<rparr>" and t = t and i = i and v = 0 and n = 0, folded s2_def]
  note b2 = but_tasks_sel [OF u(1)]
  have "sys_call env Sys_write_fd ?fd b ?n s = Some (?n, s1)"
    using w(1) by (simp add: sys_call_run [OF tab] run_syscall_def s1_def)
  moreover have "table_ok s1" using tab b1(8) by (simp add: table_ok_def)
  then have "sys_call env Sys_close ?fd 0 0 s1 = Some (0, s2)"
    using c(1) by (simp add: sys_call_run run_syscall_def s2_def)
  moreover have "fds_ok t s2" using f(2) l1 u(2,3) a(2) b1(5) b2(5) by (simp add: fds_ok_def get_current_task_def)
  ultimately show ?thesis using that [of s1 s2] w(2-5) c(2,3) u(2) a(2) b1 b2 by simp
qed

lemma flags_write [simp]: "can_write (q\<lparr>pafs.eflags := e, pafs_lock := l\<rparr>) = can_write q"
  "contents (q\<lparr>pafs.eflags := e, pafs_lock := l\<rparr>) = contents q" "file_ok (q\<lparr>pafs.eflags := e, pafs_lock := l\<rparr>) = file_ok q"
  "disk_ok (q\<lparr>pafs.eflags := e, pafs_lock := l\<rparr>) = disk_ok q"
  by (simp_all add: fun_eq_iff can_write_def contents_def file_byte_def file_ok_def disk_ok_def sb_ok_def pafs_inv_def missing_slots_def)

lemma flags_tree [simp]: "same_tree ino (q\<lparr>pafs.eflags := e, pafs_lock := l\<rparr>) q' = same_tree ino q q'"
  by (simp add: same_tree_def)

lemma read_from_start:
  fixes s :: "'a sysstate_scheme"
  assumes f: "fd_file t (of_nat i) n ino s" and i: "i < 16" and off: "fd_offset (tasks s t) ! i = 0" and tab: "table_ok s"
    and ok: "disk_ok (fs s)" "itype (inodes (fs s) ! unat ino) = PAFS_TYPE_FILE" "file_ok (fs s) (unat ino)"
    and d: "take (length data) (contents (fs s) (unat ino)) = data" "length data \<le> 7168"
    and mem: "user_inv (mm s)" "\<forall>j < length data. user_view (mm s) (b + of_nat j) \<noteq> None"
  obtains s' where "sys_call env Sys_read (of_nat i) b (of_nat (length data)) s = Some (of_nat (length data), s')"
    "user_data (mm s') b data" "heap s' = heap s" "contents (fs s') = contents (fs s)"
proof -
  let ?r = "call_regs Sys_read (of_nat i) b (of_nat (length data))"
  have un: "unat (r_edx ?r) = length data" "unat (r_ebx ?r) = i" using d(2) i by (simp_all add: unat_of_nat_u32)
  have D: "take (unat (r_edx ?r)) (drop (unat (fd_offset (tasks s t) ! unat (r_ebx ?r))) (contents (fs s) (unat ino))) = data"
    unfolding un using d(1) off by simp
  have f': "fd_file t (r_ebx ?r) n ino s" using f by simp
  have sz: "unat (isize (inodes (fs s) ! unat ino)) \<le> 7168" using ok(3) by (simp add: file_ok_def)
  have lim: "unat (fd_offset (tasks s t) ! unat (r_ebx ?r)) + unat (r_edx ?r) < 4294967296" unfolding un using d(2) off by simp
  have mem': "user_view (mm s) (r_ecx ?r + of_nat j) \<noteq> None" if "j < unat (r_edx ?r)" for j using mem(2) that unfolding un by simp
  obtain q m where r: "sys_read env ?r s = Some (ret (of_nat (length data)) ?r,
        advance t (r_ebx ?r) (of_nat (length data)) (s\<lparr>fs := q, kernel.eflags := pafs.eflags q, mm := m\<rparr>))"
      "q = unlock_pafs (lock_pafs (fs s\<lparr>pafs.eflags := kernel.eflags s\<rparr>))" "user_view m = copied (r_ecx ?r) data (user_view (mm s))"
    using sys_read_spec [OF f' ok(1,2) sz lim mem(1) mem', of env, unfolded D] by blast
  note b5 = but_tasks_sel [OF fd_updates(2) [where s = "s\<lparr>fs := q, kernel.eflags := pafs.eflags q, mm := m\<rparr>" and t = t
        and fd = "r_ebx ?r" and k = "of_nat (length data)"]]
  have "user_data m b data" using r(3) copied_data [of data] d(2) by simp
  then show ?thesis using that r(1,2) b5 by (auto simp: sys_call_run [OF tab] run_syscall_def)
qed

lemma open_write_read:
  fixes s :: "'a sysstate_scheme"
  assumes "lookup_ok base path s" and "user_str (mm s) a path" and "path_target path s = Some ino"
    and "fds_ok t s" and "free_fd t s = Some i" and "i \<noteq> 1" and "i \<noteq> 2" and "table_ok s"
    and "user_inv (mm s)" and "user_data (mm s) b data" and "can_write (fs s) (unat ino) 0 (length data)"
    and "\<forall>j < length data. user_view (mm s) (d + of_nat j) \<noteq> None"
  shows "\<exists>s1 s2 s3 s4 s5 n c. sys_call env Sys_open a 0 0 s = Some (of_nat i, s1) \<and>
    sys_call env Sys_write_fd (of_nat i) b (of_nat (length data)) s1 = Some (of_nat (length data), s2) \<and>
    sys_call env Sys_close (of_nat i) 0 0 s2 = Some (0, s3) \<and>
    sys_call env Sys_open a 0 0 s3 = Some (of_nat i, s4) \<and>
    sys_call env Sys_read (of_nat i) d (of_nat (length data)) s4 = Some (of_nat (length data), s5) \<and>
    user_data (mm s5) d data \<and>
    contents (fs s5) (unat ino) = data @ drop (length data) (contents (fs s) (unat ino)) \<and>
    kheap_ok base (heap s5) \<and> kheap_live base (heap s5) = insert (n, c) (kheap_live base (heap s))"
proof -
  let ?L = "kheap_live base (heap s)" and ?fd = "of_nat i :: u32" and ?n = "of_nat (length data) :: u32"
  have isf: "itype (inodes (fs s) ! unat ino) = PAFS_TYPE_FILE" and ld: "length data \<le> 7168"
    using assms(11) by (simp_all add: can_write_def)
  note i = free_fd_range [OF assms(5)]
  have ui: "unat ?fd = i" using i by (simp add: unat_of_nat_u32)
  have str: "user_str (mm s) (r_ebx (call_regs Sys_open a 0 0)) path" using assms(2) by simp
  obtain n c s1 where o: "sys_open env (call_regs Sys_open a 0 0) s = Some (ret ?fd (call_regs Sys_open a 0 0), s1)"
      "fd_file t ?fd n ino s1" "fds_ok t s1" "fd_table (tasks s1 t) = (fd_table (tasks s t))[i := n]"
      "fd_offset (tasks s1 t) ! i = 0" "mm s1 = mm s" "same_vfs base (insert (n, c) ?L) s s1" "n \<notin> fst ` ?L"
      "\<exists>e l. fs s1 = fs s\<lparr>pafs.eflags := e, pafs_lock := l\<rparr>"
    by (rule open_file [OF assms(1) str assms(4,3) isf assms(5)])
  obtain e l where q1: "fs s1 = fs s\<lparr>pafs.eflags := e, pafs_lock := l\<rparr>" using o(9) by blast
  have v1: "kheap_ok base (heap s1)" "kheap_live base (heap s1) = insert (n, c) ?L" "table_ok s1" "n \<noteq> pafs_root_node s1"
    using o(7,8) assms(1,8) by (auto simp: same_vfs_def table_ok_def lookup_ok_def)
  have wr1: "can_write (fs s1) (unat ino) 0 (length data)" using assms(11) by (simp add: q1)
  have da1: "user_data (mm s1) b data" using assms(10) by (simp add: o(6))
  obtain s2 s3 where w: "sys_call env Sys_write_fd ?fd b ?n s1 = Some (?n, s2)"
      "sys_call env Sys_close ?fd 0 0 s2 = Some (0, s3)" "fds_ok t s3" "mm s3 = mm s1"
      "fd_table (tasks s3 t) = (fd_table (tasks s1 t))[i := 0]" "nodes s3 = nodes s1" "kheap_ok base (heap s3)" "kheap_live base (heap s3) = ?L"
      "vfs_root s3 = vfs_root s1" "pafs_root_node s3 = pafs_root_node s1" "syscall_table s3 = syscall_table s1"
      "contents (fs s3) (unat ino) = data @ drop (length data) (contents (fs s1) (unat ino))"
      "file_ok (fs s3) (unat ino)" "disk_ok (fs s3)" "same_tree (unat ino) (fs s1) (fs s3)"
    by (rule write_and_close [OF o(2,3) conjunct1 [OF i] assms(6,7) o(5) da1 wr1 v1(1,2) o(8) v1(4,3)])
  have st: "same_tree (unat ino) (fs s) (fs s3)" using w(15) by (simp add: q1)
  have sv: "same_vfs base ?L s s3" using o(3,7) w assms(4) by (simp add: same_vfs_def fds_ok_def)
  note la = lookup_again [OF assms(1) sv st isf]
  have "fd_table (tasks s3 t) = fd_table (tasks s t)" using w(5) o(4) i by (metis list_update_id list_update_overwrite)
  then have fr3: "free_fd t s3 = Some i" using assms(5) by (simp add: free_fd_def)
  have isf3: "itype (inodes (fs s3) ! unat ino) = PAFS_TYPE_FILE" using isf same_tree_sel(1) [OF st] by simp
  have str3: "user_str (mm s3) (r_ebx (call_regs Sys_open a 0 0)) path" using str w(4) o(6) by simp
  have tgt3: "path_target path s3 = Some ino" using la(2) assms(3) by simp
  have t3: "table_ok s3" using w(11) v1(3) by (simp add: table_ok_def)
  obtain n' c' s4 where p: "sys_open env (call_regs Sys_open a 0 0) s3 = Some (ret ?fd (call_regs Sys_open a 0 0), s4)"
      "fd_file t ?fd n' ino s4" "fds_ok t s4" "fd_table (tasks s4 t) = (fd_table (tasks s3 t))[i := n']"
      "fd_offset (tasks s4 t) ! i = 0" "mm s4 = mm s3" "same_vfs base (insert (n', c') (kheap_live base (heap s3))) s3 s4"
      "n' \<notin> fst ` kheap_live base (heap s3)" "\<exists>e l. fs s4 = fs s3\<lparr>pafs.eflags := e, pafs_lock := l\<rparr>"
    by (rule open_file [OF la(1) str3 w(3) tgt3 isf3 fr3])
  obtain e' l' where q4: "fs s4 = fs s3\<lparr>pafs.eflags := e', pafs_lock := l'\<rparr>" using p(9) by blast
  have c4: "contents (fs s4) (unat ino) = data @ drop (length data) (contents (fs s) (unat ino))" using w(12) by (simp add: q4 q1)
  have m4: "mm s4 = mm s" using p(6) w(4) o(6) by simp
  have t4: "table_ok s4" using p(7) t3 by (simp add: same_vfs_def table_ok_def)
  have f4: "disk_ok (fs s4)" "itype (inodes (fs s4) ! unat ino) = PAFS_TYPE_FILE" "file_ok (fs s4) (unat ino)"
    using w(13,14) isf3 by (simp_all add: q4)
  have "take (length data) (contents (fs s4) (unat ino)) = data" by (simp add: c4)
  then obtain s5 where r: "sys_call env Sys_read ?fd d ?n s4 = Some (?n, s5)" "user_data (mm s5) d data" "heap s5 = heap s4"
      "contents (fs s5) = contents (fs s4)"
    using read_from_start [OF p(2) conjunct1 [OF i] p(5) t4 f4 _ ld, of d env] assms(9,12) unfolding m4 by blast
  have "sys_call env Sys_open a 0 0 s = Some (?fd, s1)" "sys_call env Sys_open a 0 0 s3 = Some (?fd, s4)"
    using o(1) p(1) by (simp_all add: sys_call_run [OF assms(8)] sys_call_run [OF t3] run_syscall_def)
  then show ?thesis using w(1,2,8) p(7) r c4 unfolding same_vfs_def by auto
qed

text \<open>
  C6: a program opens an existing file, writes a buffer of at most 7168 bytes, closes the descriptor, opens the file
  again and reads: through the dispatcher, every call returns what it should (the same lowest free
  descriptor both times, the length written and read), the bytes arrive in the memory of the
  program, the file holds them at its beginning with its old tail, and the heap has only the node
  of the descriptor in addition. This holds for a running task with a free descriptor, in a consistent file system with a free block on the disk
  for every block of the range the file does not have yet, with room for a node on the heap, the table of system calls filled and the page
  tables of the program intact, for a path readable in the memory of the
  program whose names are shorter than 128 bytes and not \<open>mnt\<close>, and buffers that are mapped. The lowest free descriptor must not be
  1 or 2, which mean the screen.
\<close>

theorem file_roundtrip:
  fixes s :: "'a sysstate_scheme"
  assumes "lookup_ok base path s" and "user_str (mm s) a path" and "path_target path s = Some ino"
    and "fds_ok t s" and "i < 16" and "fd_table (tasks s t) ! i = 0" and "\<forall>k < i. fd_table (tasks s t) ! k \<noteq> 0" and "i \<noteq> 1" and "i \<noteq> 2" and "table_ok s"
    and "user_inv (mm s)" and "user_data (mm s) b data" and "can_write (fs s) (unat ino) 0 (length data)"
    and "\<forall>j < length data. user_view (mm s) (d + of_nat j) \<noteq> None"
  shows "\<exists>s1 s2 s3 s4 s5 n c. sys_call env Sys_open a 0 0 s = Some (of_nat i, s1) \<and>
    sys_call env Sys_write_fd (of_nat i) b (of_nat (length data)) s1 = Some (of_nat (length data), s2) \<and>
    sys_call env Sys_close (of_nat i) 0 0 s2 = Some (0, s3) \<and>
    sys_call env Sys_open a 0 0 s3 = Some (of_nat i, s4) \<and>
    sys_call env Sys_read (of_nat i) d (of_nat (length data)) s4 = Some (of_nat (length data), s5) \<and>
    user_data (mm s5) d data \<and>
    contents (fs s5) (unat ino) = data @ drop (length data) (contents (fs s) (unat ino)) \<and>
    kheap_ok base (heap s5) \<and> kheap_live base (heap s5) = insert (n, c) (kheap_live base (heap s))"
proof -
  have "free_fd t s = Some i" using assms(5-7) by (simp add: free_fd_def find_index_Some)
  from open_write_read [OF assms(1-4) this assms(8-)] show ?thesis .
qed

text \<open>
  C21: \<open>sys_open\<close> of a path, without \<open>O_CREAT\<close> or when the path exists, in a state with an intact directory tree and
  heap in which the buffers for the nodes on the way can still be allocated, for a path readable in the memory of the caller whose names
  are shorter than 128 bytes and none of which is \<open>mnt\<close> (the mount point of the second disk). If the path leads to an
  inode and one of the 16 descriptors of the task is free, the lowest free descriptor is returned, the entries of the
  task for it are a new node for the inode and offset 0 and no other entry of any task changes, and that node is the only
  new buffer on the heap; if the path leads nowhere, or all 16 descriptors are in use, the result is -1 and the heap has
  the live buffers it had, the node that was found being released again.
\<close>

theorem sys_open_correct:
  fixes s :: "'a sysstate_scheme"
  assumes "lookup_ok base path s" and "user_str (mm s) (r_ebx regs) path" and "get_current_task s = t" and "t \<noteq> 0"
    and "r_ecx regs AND 1 = 0 \<or> path_target path s \<noteq> None"
  shows "\<exists>s1. looked s s1 \<and> kheap_ok base (heap s1) \<and> (\<forall>n \<in> fst ` kheap_live base (heap s). nodes s1 n = nodes s n) \<and>
    (\<forall>ino i. path_target path s = Some ino \<longrightarrow> i < 16 \<longrightarrow> fd_table (tasks s t) ! i = 0 \<longrightarrow> (\<forall>j < i. fd_table (tasks s t) ! j \<noteq> 0) \<longrightarrow>
       (\<exists>n c. n \<noteq> 0 \<and> n \<notin> fst ` kheap_live base (heap s) \<and> c \<le> 207 \<and>
          kheap_live base (heap s1) = insert (n, c) (kheap_live base (heap s)) \<and> pafs_view (nodes s1 n) ino (fs s1) \<and>
          sys_open env regs s = Some (regs\<lparr>r_eax := of_nat i\<rparr>, s1\<lparr>tasks := (tasks s)(t := (tasks s t)
             \<lparr>fd_table := (fd_table (tasks s t))[i := n], fd_offset := (fd_offset (tasks s t))[i := 0]\<rparr>)\<rparr>))) \<and>
    (path_target path s = None \<or> (\<forall>i < 16. fd_table (tasks s t) ! i \<noteq> 0) \<longrightarrow>
       kheap_live base (heap s1) = kheap_live base (heap s) \<and> sys_open env regs s = Some (regs\<lparr>r_eax := -1\<rparr>, s1))"
proof -
  obtain s1 where s1: "looked s s1" "kheap_ok base (heap s1)" "\<forall>n \<in> fst ` kheap_live base (heap s). nodes s1 n = nodes s n"
    "case (path_target path s, free_fd t s) of
       (Some ino, Some i) \<Rightarrow>
          (\<exists>n c. n \<noteq> 0 \<and> n \<notin> fst ` kheap_live base (heap s) \<and> c \<le> 207 \<and>
             kheap_live base (heap s1) = insert (n, c) (kheap_live base (heap s)) \<and> pafs_view (nodes s1 n) ino (fs s1) \<and>
             sys_open env regs s = Some (ret (of_nat i) regs, set_fd_offset t i 0 (set_fd t i n s1)))
     | _ \<Rightarrow> kheap_live base (heap s1) = kheap_live base (heap s) \<and> sys_open env regs s = Some (ret (-1) regs, s1)"
    using sys_open_spec [OF assms, of env] by blast
  have ts: "tasks s1 = tasks s" using looked_sel [OF s1(1)] by simp
  have upd: "set_fd_offset t i 0 (set_fd t i n s1) = s1\<lparr>tasks := (tasks s)(t := (tasks s t)
             \<lparr>fd_table := (fd_table (tasks s t))[i := n], fd_offset := (fd_offset (tasks s t))[i := 0]\<rparr>)\<rparr>" for i n
    by (simp add: set_fd_offset_def set_fd_def upd_task_def ts)
  have free: "free_fd t s = Some i" if "i < 16" "fd_table (tasks s t) ! i = 0" "\<forall>j < i. fd_table (tasks s t) ! j \<noteq> 0" for i
    using that by (simp add: free_fd_def find_index_Some)
  have full: "free_fd t s = None" if "\<forall>i < 16. fd_table (tasks s t) ! i \<noteq> 0"
    using that by (simp add: free_fd_def find_index_None)
  show ?thesis
    by (rule exI [of _ s1]) (use s1 free full in \<open>auto simp: upd ret_def split: option.splits\<close>)
qed

text \<open>
  C40: a call with a descriptor that is negative, 16 or more, or whose entry in the table of the task is null
  returns -1 and changes nothing: reading,
  writing (except to 1 and 2, the screen), closing and all calls on sockets; the socket calls other than
  receiving do so too on a descriptor of a node that is no socket. The caller is a task that runs and the table of
  system calls is the one \<open>init_syscalls\<close> fills.
\<close>

theorem bad_descriptor:
  fixes s :: "'a sysstate_scheme"
  assumes "table_ok s" and "get_current_task s = t" and "t \<noteq> 0"
    and "(c \<in> {Sys_read, Sys_close, Sys_recvfrom, Sys_bind, Sys_sendto, Sys_connect, Sys_listen, Sys_accept} \<or> c = Sys_write_fd \<and> fd \<noteq> 1 \<and> fd \<noteq> 2) \<and>
        (sint fd < 0 \<or> 16 \<le> sint fd \<or> fd_table (tasks s t) ! unat fd = 0) \<or>
      c \<in> {Sys_bind, Sys_sendto, Sys_connect, Sys_listen, Sys_accept} \<and> vflags (nodes s (fd_table (tasks s t) ! unat fd)) \<noteq> VFS_SOCKET"
  shows "sys_call env c fd x y s = Some (-1, s)"
proof -
  have t: "the_task s = Some t" using assms(2,3) by (simp add: the_task_def)
  have in_range: "fd_node t fd s = fd_table (tasks s t) ! unat fd" if "\<not> sint fd < 0" "\<not> 16 \<le> sint fd"
  proof -
    have "sint fd = uint fd" using that uint_sint [of fd] by (simp add: take_bit_int_eq_self)
    then have "nat (sint fd) = unat fd" by simp
    then show ?thesis using that by (simp add: fd_node_def)
  qed
  then have "fd_node t fd s = 0 \<or> fd_node t fd s = fd_table (tasks s t) ! unat fd" by (auto simp: fd_node_def)
  moreover have "fd_node t fd s = 0" if "sint fd < 0 \<or> 16 \<le> sint fd \<or> fd_table (tasks s t) ! unat fd = 0"
    using that in_range by (cases "sint fd < 0 \<or> 16 \<le> sint fd") (auto simp: fd_node_def)
  ultimately have "(c \<in> {Sys_read, Sys_close, Sys_recvfrom} \<or> c = Sys_write_fd \<and> fd \<noteq> 1 \<and> fd \<noteq> 2) \<and> fd_node t fd s = 0 \<or>
      c \<in> {Sys_bind, Sys_sendto, Sys_connect, Sys_listen, Sys_accept} \<and>
        (fd_node t fd s = 0 \<or> vflags (nodes s (fd_node t fd s)) \<noteq> VFS_SOCKET)" using assms(4) by auto
  then show ?thesis using t
    by (auto simp: sys_call_run [OF assms(1)] run_syscall_def sys_read_def sys_close_def sys_recvfrom_def sys_write_fd_def
      sys_bind_def sys_sendto_def sys_connect_def sys_listen_def sys_accept_def fd_socket_def Let_def)
qed

text \<open>
  the descriptor table of a task starts empty and \<open>sys_open\<close> returns the lowest free descriptor,
  so the second and third file a program opens get the descriptors 1 and 2; but
  \<open>sys_write_fd\<close> takes these numbers for the screen. What is written to such a file appears on
  the terminal, the call reports success, and no file changes.
\<close>

theorem file_as_screen:
  fixes s :: "'a sysstate_scheme"
  assumes "lookup_ok base path s" and "user_str (mm s) a path" and "path_target path s = Some ino"
    and "itype (inodes (fs s) ! unat ino) = PAFS_TYPE_FILE"
    and "fds_ok t s" and "free_fd t s = Some i" and "i = 1 \<or> i = 2" and "table_ok s"
    and "user_data (mm s) b data" and "length data < 2147483648"
  shows "\<exists>s1 s2. sys_call env Sys_open a 0 0 s = Some (of_nat i, s1) \<and>
    sys_call env Sys_write_fd (of_nat i) b (of_nat (length data)) s1 = Some (of_nat (length data), s2) \<and>
    con s2 = fold put_char data (con s1) \<and> contents (fs s2) = contents (fs s)"
proof -
  have str: "user_str (mm s) (r_ebx (call_regs Sys_open a 0 0)) path" using assms(2) by simp
  obtain n c s1 where o: "sys_open env (call_regs Sys_open a 0 0) s = Some (ret (of_nat i) (call_regs Sys_open a 0 0), s1)"
      "fd_file t (of_nat i) n ino s1" "fds_ok t s1" "fd_table (tasks s1 t) = (fd_table (tasks s t))[i := n]"
      "fd_offset (tasks s1 t) ! i = 0" "mm s1 = mm s" "same_vfs base (insert (n, c) (kheap_live base (heap s))) s s1"
      "n \<notin> fst ` kheap_live base (heap s)" "\<exists>e l. fs s1 = fs s\<lparr>pafs.eflags := e, pafs_lock := l\<rparr>"
    by (rule open_file [OF assms(1) str assms(5,3,4,6)])
  have t1: "table_ok s1" using o(7) assms(8) by (simp add: same_vfs_def table_ok_def)
  let ?n = "of_nat (length data) :: u32"
  have "unat ?n = length data" "sint ?n = int (length data)"
    using assms(10) by (simp_all add: unat_of_nat_u32 sint_uint uint_nat signed_take_bit_int_eq_self)
  moreover have "load_bytes (mm s1) b (length data) = Some data"
    using load_bytes_view [of data "mm s1" b] assms(9) o(6) by (simp add: user_data_def)
  ultimately have "sys_call env Sys_write_fd (of_nat i) b ?n s1 = Some (?n, s1\<lparr>con := fold put_char data (con s1)\<rparr>)"
    using assms(7) by (auto simp: sys_call_run [OF t1] run_syscall_def sys_write_fd_def Let_def)
  then show ?thesis using o(1,9) by (auto simp: sys_call_run [OF assms(8)] run_syscall_def)
qed

section \<open>Instances\<close>

text \<open>A disk with an empty file \<open>a\<close>, and a program with one page of memory.\<close>

definition one_file :: pafs where
  "one_file = new_inode False 1 two_names"

lemma two_names_types: "d < 128 \<Longrightarrow> d \<noteq> 0 \<Longrightarrow> itype (inodes two_names ! d) = 0"
  using raw_lengths by (simp add: two_names_def upd_inode_nth format_spec [OF raw_lengths(1-3)] put_slot_def blank_inode_def)

lemma one_file_ok:
  "pafs_inv one_file" "disk_ok one_file" "sb_ok one_file" "tree_ok one_file" "root_inode (sb one_file) = 0"
  "inodes one_file ! 1 = \<lparr>itype = 1, isize = 0, iblocks = replicate 14 0\<rparr>" "itype (inodes one_file ! 0) = PAFS_TYPE_DIR"
  "pafs_find_entry 0 [0x61] one_file = 1" "card (free_block_set (block_bitmap one_file)) = 4077"
proof -
  note inv = two_names_dir(1)
  have f1: "itype (inodes two_names ! 1) = 0" by (simp add: two_names_types)
  have lt: "(1 :: nat) < 128" by simp
  note sel = new_inode_sel [OF inv lt, where is_dir = False, folded one_file_def]
  show "pafs_inv one_file" unfolding one_file_def by (rule new_inode_inv [OF inv _ f1]) simp
  have d2: "disk_ok two_names" "sb_ok two_names"
    using format_disk [OF raw_lengths] by (auto simp: two_names_def disk_ok_write disk_ok_upd sb_ok_def put_entry_length)
  show "disk_ok one_file" using d2(1) sel(5) by (simp add: disk_ok_def)
  show "sb_ok one_file" using d2(2) by (simp add: sb_ok_def one_file_def new_inode_def Let_def)
  have same: "inodes one_file ! 0 = inodes two_names ! 0" "dir_block one_file 0 = dir_block two_names 0"
    using sel(1) [of 0] sel(5) by (simp_all add: dir_block_def fun_eq_iff)
  have dir0: "dir_ok one_file 0" using dir_same(1) [OF same(1)] same(2) two_names_dir(2) by simp
  then show "itype (inodes one_file ! 0) = PAFS_TYPE_DIR" by (simp add: dir_ok_def)
  show i1: "inodes one_file ! 1 = \<lparr>itype = 1, isize = 0, iblocks = replicate 14 0\<rparr>"
    using sel(2-4) by simp
  have "d = 0" if "d < 128" "itype (inodes one_file ! d) = PAFS_TYPE_DIR" for d
    using that sel(1) [of d] two_names_types [of d] i1 by (cases "d = 0"; cases "d = 1") (auto simp: PAFS_TYPE_DIR_def)
  then show "tree_ok one_file" using dir0 by (auto simp: tree_ok_def)
  show "root_inode (sb one_file) = 0" using two_names_tree(2) by (simp add: one_file_def new_inode_def Let_def)
  have "found_at one_file 0 [0x61] 0 0" using dir_same(2) [OF same(1)] same(2) two_names_dir(3) by simp
  then show "pafs_find_entry 0 [0x61] one_file = 1"
    using find_entry_found(1) [OF dir0] two_names_entry same(2) by (simp add: sint_small)
  have fi: "pafs_inv (pafs_format pafs_raw)" by (rule format_inv [OF raw_lengths(1-3)])
  have "free_blocks (sb (pafs_format pafs_raw)) = 4077" by (simp add: format_spec [OF raw_lengths(1-3)])
  then have "card (free_block_set (block_bitmap (pafs_format pafs_raw))) = 4077" using fs_okD(6) [OF fi [unfolded pafs_inv_def]] by simp
  moreover have "block_bitmap one_file = block_bitmap (pafs_format pafs_raw)"
    by (simp add: one_file_def new_inode_def Let_def two_names_def)
  ultimately show "card (free_block_set (block_bitmap one_file)) = 4077" by simp
qed

lemma demo_program:
  assumes "length bs \<le> 4096"
  obtains m where "user_inv m" "user_data m 0x10000000 bs" "\<forall>x. unat x < 4096 \<longrightarrow> user_view m (0x10000000 + x) \<noteq> None"
proof -
  have u: "user_page (drop_bit 12 (0x10000000 :: u32))" by (simp add: user_page_def)
  have room: "0 + 2 \<le> card (avail_frames (frames demo_mm))" by (simp add: demo_mm_ok(2))
  let ?m = "map_fresh 0x10000000 demo_mm"
  obtain f where f: "user_inv ?m" "\<And>x. page_entry ?m (drop_bit 12 x) =
       (if drop_bit 12 x = drop_bit 12 (0x10000000 :: u32) then Some (of_nat f, True, True) else page_entry demo_mm (drop_bit 12 x))"
    by (rule map_fresh_spec [OF demo_mm_ok(1) room u]) (rule that)
  have pg: "drop_bit 12 (0x10000000 + x) = (0x10000 :: u32)" if "unat x < 4096" for x
  proof -
    have "unat (0x10000000 + x) div 4096 = 65536" using that by (simp add: unat_plus_u32)
    then show ?thesis by (simp add: word_unat_eq_iff drop_bit_eq_div unat_div)
  qed
  have v: "user_view (map_fresh 0x10000000 demo_mm) (0x10000000 + x) \<noteq> None" if "unat x < 4096" for x
    using f(2) [of "0x10000000 + x"] pg [OF that] u by (simp add: user_view_def load8_def Let_def)
  have "user_view (map_fresh 0x10000000 demo_mm) (0x10000000 + of_nat i) \<noteq> None" if "i < length bs" for i
    using v [of "of_nat i"] that assms by (simp add: unat_of_nat_u32)
  then obtain m where m: "memcpy_to 0x10000000 bs (map_fresh 0x10000000 demo_mm) = Some m" "user_inv m"
      "user_view m = copied 0x10000000 bs (user_view (map_fresh 0x10000000 demo_mm))"
    using memcpy_view [OF f(1), of bs "0x10000000"] assms by auto
  have "user_view m (0x10000000 + x) \<noteq> None" if "unat x < 4096" for x
    using m(3) v [OF that] by (simp add: copied_def Let_def)
  moreover have "user_data m 0x10000000 bs" using m(3) copied_data [of bs] assms by simp
  ultimately show ?thesis using that m(2) by blast
qed

lemma init_syscalls_sel:
  "heap (init_syscalls s) = heap s" "nodes (init_syscalls s) = nodes s" "fs (init_syscalls s) = fs s" "mm (init_syscalls s) = mm s"
  "tasks (init_syscalls s) = tasks s" "get_current_task (init_syscalls s) = get_current_task s" "vfs_root (init_syscalls s) = vfs_root s"
  "pafs_root_node (init_syscalls s) = pafs_root_node s"
  by (simp_all add: init_syscalls_def say_def get_current_task_def)

text \<open>The machine after boot, with a program whose memory begins with some bytes.\<close>

lemma demo_machine:
  assumes root: "itype (inodes q ! unat (root_inode (sb q))) = PAFS_TYPE_DIR" "unat (root_inode (sb q)) < 128" and tree: "tree_ok q"
    and bs: "length bs \<le> 4096" and names: "\<forall>n \<in> set (abs_names path). length n < 128 \<and> n \<noteq> lit ''mnt''"
  obtains s :: sysstate where "lookup_ok 0xC0400000 path s" "fs s = q" "fds_ok 0x1000 s" "fd_table (tasks s 0x1000) = replicate 16 0"
    "table_ok s" "user_inv (mm s)" "user_data (mm s) 0x10000000 bs" "\<forall>x. unat x < 4096 \<longrightarrow> user_view (mm s) (0x10000000 + x) \<noteq> None"
    "vinode (nodes s (vfs_root s)) = root_inode (sb q)" "\<exists>p c. kheap_live 0xC0400000 (heap s) = {(p, c)} \<and> c \<le> 207"
proof -
  obtain p s0 c where r: "pafs_get_vfs_root (demo_system q) = Some (p, s0)" "p \<noteq> 0" "fs s0 = q" "pafs_root_node s0 = p"
      "kheap_ok 0xC0400000 (heap s0)" "kheap_live 0xC0400000 (heap s0) = {(p, c)}" "c \<le> 207"
      "pafs_view (nodes s0 p) (root_inode (sb q)) q"
    using demo_root [OF root(1)] by metis
  obtain m where m: "user_inv m" "user_data m 0x10000000 bs" "\<forall>x. unat x < 4096 \<longrightarrow> user_view m (0x10000000 + x) \<noteq> None"
    by (rule demo_program [OF bs])
  let ?s = "init_syscalls ((demo_sys (s0\<lparr>vfs_root := p\<rparr>))\<lparr>mm := m\<rparr>)"
  have sel: "heap ?s = heap s0" "nodes ?s = nodes s0" "fs ?s = q" "vfs_root ?s = p" "pafs_root_node ?s = p" "mm ?s = m"
      "length (syscall_table ((demo_sys (s0\<lparr>vfs_root := p\<rparr>))\<lparr>mm := m\<rparr>)) = 20"
    using r(3,4) by (simp_all add: init_syscalls_sel demo_sys_def system.defs sysstate.defs)
  have room: "node_room 0xC0400000 (kheap_live 0xC0400000 (heap s0))" unfolding r(6) using r(7) by (intro node_room_small) auto
  have vi: "vinode (nodes s0 p) = root_inode (sb q)" using r(8) by (simp add: pafs_view_def)
  have "lookup_ok 0xC0400000 path ?s"
    using r(2,5,6,8) room root tree names by (simp add: lookup_ok_def sel vi)
  moreover have "fds_ok 0x1000 ?s" "fd_table (tasks ?s 0x1000) = replicate 16 0"
    unfolding fds_ok_def init_syscalls_sel by (simp_all add: demo_sys_def system.defs sysstate.defs get_current_task_def)
  moreover have "table_ok ?s" using init_syscalls_table sel(7) by blast
  moreover have "\<exists>p c. kheap_live 0xC0400000 (heap ?s) = {(p, c)} \<and> c \<le> 207" using r(6,7) sel(1) by auto
  ultimately show ?thesis using that [of ?s] m sel vi by metis
qed

text \<open>The machine with the file \<open>a\<close>; the program holds the path, three bytes and room to read.\<close>

lemma demo_open:
  obtains s :: sysstate where "lookup_ok 0xC0400000 [0x61] s" "fs s = one_file" "fds_ok 0x1000 s" "fd_table (tasks s 0x1000) = replicate 16 0"
    "table_ok s" "user_inv (mm s)" "user_str (mm s) 0x10000000 [0x61]" "user_data (mm s) 0x10000002 [7, 8, 9]"
    "\<forall>x. unat x < 4096 \<longrightarrow> user_view (mm s) (0x10000000 + x) \<noteq> None" "path_target [0x61] s = Some 1"
proof -
  let ?bs = "[0x61, 0, 7, 8, 9] :: u8 list"
  have names: "abs_names [0x61] = [[0x61]]" by (simp add: abs_names_def path_names.simps path_name_def path_rest_def cstr_def)
  have n2: "\<forall>n \<in> set (abs_names [0x61]). length n < 128 \<and> n \<noteq> lit ''mnt''" by (simp add: names lit_def)
  note ok = one_file_ok
  obtain s :: sysstate where s: "lookup_ok 0xC0400000 [0x61] s" "fs s = one_file" "fds_ok 0x1000 s" "fd_table (tasks s 0x1000) = replicate 16 0"
      "table_ok s" "user_inv (mm s)" "user_data (mm s) 0x10000000 ?bs" "\<forall>x. unat x < 4096 \<longrightarrow> user_view (mm s) (0x10000000 + x) \<noteq> None"
      "vinode (nodes s (vfs_root s)) = root_inode (sb one_file)" "\<exists>p c. kheap_live 0xC0400000 (heap s) = {(p, c)} \<and> c \<le> 207"
    by (rule demo_machine [of one_file ?bs "[0x61]"]) (use ok(4,5,7) n2 in simp_all)
  have b: "user_view (mm s) (0x10000000 + of_nat j) = Some (?bs ! j)" if "j < 5" for j using s(7) that by (simp add: user_data_def)
  have "user_str (mm s) 0x10000000 [0x61]" using b [of 0] b [of 1] by (simp add: user_str_def)
  moreover have "user_data (mm s) 0x10000002 [7, 8, 9]"
    using b [of 2] b [of 3] b [of 4] by (auto simp: user_data_def less_Suc_eq numeral_3_eq_3)
  moreover have "path_target [0x61] s = Some 1" by (simp add: path_target_def names s(2,9) ok(5,8))
  ultimately show ?thesis using that s(1-6,8) by blast
qed

theorem file_roundtrip_witness:
  "\<exists>(s :: sysstate) s1 s2 s3 s4 s5. sys_call (\<lambda>_ s. s) Sys_open 0x10000000 0 0 s = Some (0, s1) \<and>
     sys_call (\<lambda>_ s. s) Sys_write_fd 0 0x10000002 3 s1 = Some (3, s2) \<and>
     sys_call (\<lambda>_ s. s) Sys_close 0 0 0 s2 = Some (0, s3) \<and> sys_call (\<lambda>_ s. s) Sys_open 0x10000000 0 0 s3 = Some (0, s4) \<and>
     sys_call (\<lambda>_ s. s) Sys_read 0 0x10000010 3 s4 = Some (3, s5) \<and> user_data (mm s5) 0x10000010 [7, 8, 9]"
proof -
  note ok = one_file_ok
  obtain s :: sysstate where s: "lookup_ok 0xC0400000 [0x61] s" "fs s = one_file" "fds_ok 0x1000 s" "fd_table (tasks s 0x1000) = replicate 16 0"
    "table_ok s" "user_inv (mm s)" "user_str (mm s) 0x10000000 [0x61]" "user_data (mm s) 0x10000002 [7, 8, 9]"
    "\<forall>x. unat x < 4096 \<longrightarrow> user_view (mm s) (0x10000000 + x) \<noteq> None" "path_target [0x61] s = Some 1"
    by (rule demo_open)
  have fr: "(0 :: nat) < 16" "fd_table (tasks s 0x1000) ! 0 = 0" "\<forall>k < 0. fd_table (tasks s 0x1000) ! k \<noteq> 0" by (simp_all add: s(4))
  have ms: "missing_slots one_file 1 0 (length [7 :: u8, 8, 9]) \<subseteq> {0}" by (auto simp: missing_slots_def)
  have "card (missing_slots one_file 1 0 (length [7 :: u8, 8, 9])) \<le> 1" using card_mono [OF _ ms] by simp
  then have cw: "can_write (fs s) (unat (1 :: u32)) 0 (length [7 :: u8, 8, 9])"
    using ok by (simp add: can_write_def s(2) file_ok_def PAFS_TYPE_FILE_def)
  have mp: "\<forall>j < length [7 :: u8, 8, 9]. user_view (mm s) (0x10000010 + of_nat j) \<noteq> None"
    using spec [OF s(9), of "0x10"] spec [OF s(9), of "0x11"] spec [OF s(9), of "0x12"] by (auto simp: less_Suc_eq numeral_3_eq_3)
  have l: "of_nat (length [7 :: u8, 8, 9]) = (3 :: u32)" "of_nat 0 = (0 :: u32)" by simp_all
  have z: "(0 :: nat) \<noteq> 1" "(0 :: nat) \<noteq> 2" by simp_all
  show ?thesis
    using file_roundtrip [OF s(1,7,10,3) fr z s(5,6,8) cw mp, of "\<lambda>_ s. s"] unfolding l by blast
qed

theorem sys_open_correct_witness:
  "\<exists>(s :: sysstate) s'. sys_open (\<lambda>_ s. s) (call_regs Sys_open 0x10000000 0 0) s = Some (ret 0 (call_regs Sys_open 0x10000000 0 0), s')"
proof -
  obtain s :: sysstate where s: "lookup_ok 0xC0400000 [0x61] s" "fds_ok 0x1000 s" "fd_table (tasks s 0x1000) = replicate 16 0"
    "user_str (mm s) 0x10000000 [0x61]" "path_target [0x61] s = Some 1"
    by (rule demo_open)
  have t: "get_current_task s = 0x1000" "(0x1000 :: u32) \<noteq> 0" using s(2) by (simp_all add: fds_ok_def)
  have a: "user_str (mm s) (r_ebx (call_regs Sys_open 0x10000000 0 0)) [0x61]"
    "r_ecx (call_regs Sys_open 0x10000000 0 0) AND 1 = 0 \<or> path_target [0x61] s \<noteq> None" using s(4) by simp_all
  have z: "fd_table (tasks s 0x1000) ! 0 = 0" by (simp add: s(3))
  from sys_open_correct [OF s(1) a(1) t a(2), of "\<lambda>_ s. s"] show ?thesis
    by (elim exE conjE) (drule spec [of _ 1], drule spec [of _ 0], simp add: s(5) z ret_def, blast)
qed

theorem bad_descriptor_witness:
  "\<exists>s :: sysstate. sys_call (\<lambda>_ s. s) Sys_close 0xFFFFFFFF 0 0 s = Some (-1, s) \<and> sys_call (\<lambda>_ s. s) Sys_read 3 0 10 s = Some (-1, s)"
proof -
  obtain s :: sysstate where s: "fds_ok 0x1000 s" "fd_table (tasks s 0x1000) = replicate 16 0" "table_ok s"
    by (rule demo_open)
  have t: "get_current_task s = 0x1000" "(0x1000 :: u32) \<noteq> 0" using s(1) by (simp_all add: fds_ok_def)
  have "fd_table (tasks s 0x1000) ! unat (3 :: u32) = 0" "sint (0xFFFFFFFF :: u32) < 0" by (simp_all add: s(2))
  then show ?thesis
    using bad_descriptor [OF s(3) t, of Sys_close "0xFFFFFFFF"] bad_descriptor [OF s(3) t, of Sys_read 3] by blast
qed

theorem file_as_screen_witness:
  "\<exists>(s :: sysstate) s1 s2. sys_call (\<lambda>_ s. s) Sys_open 0x10000000 0 0 s = Some (1, s1) \<and>
     sys_call (\<lambda>_ s. s) Sys_write_fd 1 0x10000002 3 s1 = Some (3, s2) \<and> contents (fs s2) = contents (fs s)"
proof -
  obtain s0 :: sysstate where s: "lookup_ok 0xC0400000 [0x61] s0" "fs s0 = one_file" "fds_ok 0x1000 s0" "fd_table (tasks s0 0x1000) = replicate 16 0"
    "table_ok s0" "user_inv (mm s0)" "user_str (mm s0) 0x10000000 [0x61]" "user_data (mm s0) 0x10000002 [7, 8, 9]"
    "path_target [0x61] s0 = Some 1"
    by (rule demo_open)
  define s where "s = set_fd 0x1000 0 0xC0400010 s0"
  have bt: "but_tasks s0 s" by (auto simp: s_def set_fd_def upd_task_def but_tasks_def)
  note b = but_tasks_sel [OF bt]
  have fd: "fd_table (tasks s 0x1000) = (replicate 16 0)[0 := 0xC0400010]" using s(4) by (simp add: s_def set_fd_def upd_task_def)
  have fr: "free_fd 0x1000 s = Some 1" by (simp add: free_fd_def fd find_index_Some)
  have 1: "lookup_ok 0xC0400000 [0x61] s" "user_str (mm s) 0x10000000 [0x61]" "path_target [0x61] s = Some 1"
      "itype (inodes (fs s) ! unat (1 :: u32)) = PAFS_TYPE_FILE" "table_ok s" "user_data (mm s) 0x10000002 [7, 8, 9]"
    using s b one_file_ok(6) by (simp_all add: lookup_ok_def path_target_def table_ok_def PAFS_TYPE_FILE_def)
  have 2: "fds_ok 0x1000 s" using s(3) fd b(5) by (simp add: fds_ok_def get_current_task_def) (simp add: s_def set_fd_def upd_task_def)
  have l: "of_nat (length [7 :: u8, 8, 9]) = (3 :: u32)" "of_nat 1 = (1 :: u32)" by simp_all
  have z: "(1 :: nat) = 1 \<or> (1 :: nat) = 2" "length [7 :: u8, 8, 9] < 2147483648" by simp_all
  show ?thesis
    using file_as_screen [OF 1(1-4) 2 fr z(1) 1(5,6) z(2), of "\<lambda>_ s. s"] unfolding l by blast
qed

end
