(* ===== verification/Elf.thy ===== *)
theory Elf
  imports Sys_Files
begin

text \<open>
  The loader for ELF programs, \<open>kernel/proc/elf.c\<close>: the headers of the file, which is read into a
  buffer of the heap, and the segments it copies into fresh pages. A header or a segment
  outside the buffer is the value None, as is a copy to an unmapped page. Segments in the kernel's half of the
  address space, where the copy would overwrite the kernel, are outside this model.
\<close>

section \<open>Headers\<close>

definition e_entry :: "u8 list \<Rightarrow> u32" where "e_entry b = get32 24 b"
definition e_phoff :: "u8 list \<Rightarrow> u32" where "e_phoff b = get32 28 b"
definition e_phnum :: "u8 list \<Rightarrow> u16" where "e_phnum b = get16 44 b"

definition elf_magic :: "u8 list \<Rightarrow> bool" where
  "elf_magic b \<longleftrightarrow> b ! 0 = 0x7F \<and> b ! 1 = 0x45 \<and> b ! 2 = 0x4C \<and> b ! 3 = 0x46"

definition PT_LOAD :: u32 where "PT_LOAD = 1"

record elf32_phdr =
  p_type :: u32
  p_offset :: u32
  p_vaddr :: u32
  p_paddr :: u32
  p_filesz :: u32
  p_memsz :: u32
  p_flags :: u32
  p_align :: u32

definition phdr_at :: "u8 list \<Rightarrow> nat \<Rightarrow> elf32_phdr option" where
  "phdr_at b pos =
     (if pos + 32 \<le> length b
      then Some \<lparr>p_type = get32 pos b, p_offset = get32 (pos + 4) b, p_vaddr = get32 (pos + 8) b, p_paddr = get32 (pos + 12) b,
             p_filesz = get32 (pos + 16) b, p_memsz = get32 (pos + 20) b, p_flags = get32 (pos + 24) b, p_align = get32 (pos + 28) b\<rparr>
      else None)"

section \<open>Loading\<close>

definition load_segment :: "elf32_phdr \<Rightarrow> u8 list \<Rightarrow> vmm \<Rightarrow> vmm option" where
  "load_segment ph buf m =
     (if p_type ph = PT_LOAD then do {
        let num_pages = (p_memsz ph + 4095) div 4096;
        let m1 = for_range 0 (unat num_pages) (\<lambda>j. map_fresh (p_vaddr ph + of_nat j * 4096)) m;
        data \<leftarrow> (if unat (p_offset ph) + unat (p_filesz ph) \<le> length buf
                then Some (take (unat (p_filesz ph)) (drop (unat (p_offset ph)) buf)) else None);
        m2 \<leftarrow> memcpy_to (p_vaddr ph) data m1;
        if p_memsz ph > p_filesz ph then memset_at (p_vaddr ph + p_filesz ph) 0 (unat (p_memsz ph - p_filesz ph)) m2
        else Some m2
      } else Some m)"

fun load_segments :: "u8 list \<Rightarrow> nat \<Rightarrow> nat \<Rightarrow> vmm \<Rightarrow> vmm option" where
  "load_segments buf pos 0 m = Some m"
| "load_segments buf pos (Suc n) m = do {
     ph \<leftarrow> phdr_at buf pos;
     m1 \<leftarrow> load_segment ph buf m;
     load_segments buf (pos + 32) n m1
   }"

definition elf_load :: "'a env \<Rightarrow> u32 \<Rightarrow> cstring \<Rightarrow> 'a sysstate_scheme \<Rightarrow> (int \<times> 'a sysstate_scheme) option" where
  "elf_load env base filename s = do {
     (node, s1) \<leftarrow> vfs_get_node_by_path env base filename s;
     if node = 0 then Some (-1, say [10] (say filename (say (lit ''[ELF] Dosya bulunamadi: '') s1)))
     else do {
       let len = vlength (nodes s1 node);
       (buffer, s2) \<leftarrow> kalloc len s1;
       ((n, buf), s3) \<leftarrow> vfs_read env node 0 len (fresh_bytes (unat len) buffer s2) s2;
       if sint n \<le> 0 then do {
         let s4 = say [10] (say filename (say (lit ''[ELF] Dosya okunamadi: '') s3));
         Some (-1, krelease buffer (krelease node s4))
       }
       else if buffer = 0 \<or> length buf < 52 then None
       else if \<not> elf_magic buf then
         Some (-1, krelease buffer (say (lit ''[ELF] Gecersiz ELF magic number!'' @ [10]) s3))
       else do {
         m \<leftarrow> load_segments buf (unat (e_phoff buf)) (unat (e_phnum buf)) (mm s3);
         let s4 = krelease node (krelease buffer (s3\<lparr>mm := m\<rparr>));
         let s5 = say (lit '' -> Entry: 0x'') (say filename (say (lit ''[ELF] Yuklendi: '') s4));
         Some (sint (e_entry buf), say [10] (s5\<lparr>con := put_hex (e_entry buf) (con s5)\<rparr>))
       }
     }
   }"

section \<open>Segments in memory\<close>

definition seg_bytes :: "elf32_phdr \<Rightarrow> u8 list \<Rightarrow> u8 list" where
  "seg_bytes ph buf = take (unat (p_filesz ph)) (drop (unat (p_offset ph)) buf) @ replicate (unat (p_memsz ph) - unat (p_filesz ph)) 0"

definition seg_count :: "elf32_phdr \<Rightarrow> nat" where
  "seg_count ph = (if p_type ph = PT_LOAD then (unat (p_memsz ph) + 4095) div 4096 else 0)"

definition seg_pages :: "elf32_phdr \<Rightarrow> u32 set" where
  "seg_pages ph = {p. unat (p_vaddr ph) div 4096 \<le> unat p \<and> unat p < unat (p_vaddr ph) div 4096 + seg_count ph}"

text \<open>A segment that lies in the file and, page by page, in the program's half of the address space.\<close>

definition seg_ok :: "u8 list \<Rightarrow> elf32_phdr \<Rightarrow> bool" where
  "seg_ok buf ph \<longleftrightarrow> (p_type ph = PT_LOAD \<longrightarrow>
     unat (p_offset ph) + unat (p_filesz ph) \<le> length buf \<and> p_filesz ph \<le> p_memsz ph \<and> 4096 dvd unat (p_vaddr ph) \<and>
     unat (p_vaddr ph) + unat (p_memsz ph) \<le> 0xC0000000)"

definition seg_loaded :: "u8 list \<Rightarrow> vmm \<Rightarrow> elf32_phdr \<Rightarrow> bool" where
  "seg_loaded buf m ph \<longleftrightarrow> (p_type ph = PT_LOAD \<longrightarrow> user_data m (p_vaddr ph) (seg_bytes ph buf))"

lemma memcpy_append: "memcpy_to v (a @ b) m = do { m1 \<leftarrow> memcpy_to v a m; memcpy_to (v + of_nat (length a)) b m1 }"
proof (induction a arbitrary: v m)
  case (Cons x a)
  then show ?case by (cases "store8 v x m") (simp_all add: algebra_simps)
qed simp

lemma seg_addr:
  assumes "4096 dvd unat v" and "unat v + n \<le> 0xC0000000" and "i < n"
  shows "unat (v + of_nat i :: u32) = unat v + i" and "unat (drop_bit 12 (v + of_nat i)) = unat v div 4096 + i div 4096"
    and "user_page (drop_bit 12 (v + of_nat i))"
proof -
  show u: "unat (v + of_nat i) = unat v + i" using assms(2,3) by (simp add: unat_plus_u32 unat_of_nat_u32)
  obtain k where k: "unat v = 4096 * k" using assms(1) by blast
  show pg: "unat (drop_bit 12 (v + of_nat i)) = unat v div 4096 + i div 4096" by (simp add: drop_bit_eq_div unat_div u k)
  have "unat (v + of_nat i) div 4096 < 0xC0000" using u assms(2,3) by (simp add: less_mult_imp_div_less)
  then show "user_page (drop_bit 12 (v + of_nat i))" by (simp add: user_page_def word_less_nat_alt drop_bit_eq_div unat_div)
qed

lemma load_segment_spec:
  assumes inv: "user_inv m" and ok: "seg_ok buf ph" and room: "n + 2 * seg_count ph \<le> card (avail_frames (frames m))"
  obtains m' where "load_segment ph buf m = Some m'" "user_inv m'" "n \<le> card (avail_frames (frames m'))" "seg_loaded buf m' ph"
    "\<forall>x. drop_bit 12 x \<notin> seg_pages ph \<longrightarrow> user_view m' x = user_view m x"
proof (cases "p_type ph = PT_LOAD")
  case False
  then show ?thesis using that [of m] assms by (simp add: load_segment_def seg_loaded_def seg_count_def)
next
  case True
  let ?v = "p_vaddr ph" and ?N = "seg_count ph" and ?ms = "unat (p_memsz ph)"
  have s: "unat (p_offset ph) + unat (p_filesz ph) \<le> length buf" "p_filesz ph \<le> p_memsz ph" "4096 dvd unat ?v" "unat ?v + ?ms \<le> 0xC0000000"
    using ok True by (auto simp: seg_ok_def)
  have le: "unat (p_filesz ph) \<le> ?ms" using s(2) by (simp add: word_le_nat_alt)
  have N: "?N = (?ms + 4095) div 4096" "unat ((p_memsz ph + 4095) div 4096) = ?N" using True s(4) by (simp_all add: seg_count_def round_up)
  obtain k where k: "unat ?v = 4096 * k" using s(3) by blast
  have top: "4096 * (k + ?N) \<le> 0xC0000000"
  proof -
    have "?ms \<le> 4096 * (0xC0000 - k)" using s(4) k by simp
    then have "(?ms + 4095) div 4096 \<le> 0xC0000 - k" by simp
    moreover have "k \<le> 0xC0000" using s(4) k by simp
    ultimately show ?thesis using N(1) by simp
  qed
  have pg: "unat (drop_bit 12 (?v + of_nat j * 4096)) = k + j" "user_page (drop_bit 12 (?v + of_nat j * 4096))" if "j < ?N" for j
    using seg_addr(2,3) [OF s(3), of "4096 * ?N" "4096 * j"] that top k by (simp_all add: mult.commute)
  let ?m1 = "for_range 0 ?N (\<lambda>j. map_fresh (?v + of_nat j * 4096)) m"
  have img: "(\<lambda>j. drop_bit 12 (?v + of_nat j * 4096)) ` {0..<?N} = seg_pages ph"
  proof (intro equalityI subsetI)
    fix p assume "p \<in> seg_pages ph"
    then have p: "k \<le> unat p" "unat p - k < ?N" by (auto simp: seg_pages_def k)
    then have "p = drop_bit 12 (?v + of_nat (unat p - k) * 4096)" using pg(1) [OF p(2)] by (simp add: word_unat_eq_iff)
    then show "p \<in> (\<lambda>j. drop_bit 12 (?v + of_nat j * 4096)) ` {0..<?N}" using p(2) by auto
  qed (use pg(1) k in \<open>auto simp: seg_pages_def\<close>)
  have room0: "n + 2 * (?N - 0) \<le> card (avail_frames (frames m))" using room by simp
  note mp = map_pages [OF inv room0 le0, where a = "\<lambda>j. ?v + of_nat j * 4096", unfolded img]
  have fp: "fresh_pages (seg_pages ph) m ?m1" and nf: "n \<le> card (avail_frames (frames ?m1))" using mp pg(2) by auto
  have lb: "length (seg_bytes ph buf) = ?ms" using s(1) le by (simp add: seg_bytes_def)
  have view: "user_view ?m1 (?v + of_nat i) \<noteq> None" if "i < length (seg_bytes ph buf)" for i
  proof -
    have i: "i < ?ms" using that lb by simp
    have "i div 4096 < ?N" using i N(1) by linarith
    then show ?thesis
      using fresh_pages_view [OF fp] seg_addr(2,3) [OF s(3,4) i] by (simp add: seg_pages_def)
  qed
  have "user_inv ?m1" using fp by (simp add: fresh_pages_def)
  then obtain m2 where m2: "memcpy_to ?v (seg_bytes ph buf) ?m1 = Some m2" "user_inv m2"
      "user_view m2 = copied ?v (seg_bytes ph buf) (user_view ?m1)" "frames m2 = frames ?m1"
    using memcpy_view [of ?m1 "seg_bytes ph buf" ?v] view lb unat_lt_u32 [of "p_memsz ph"] by auto
  have "load_segment ph buf m = Some m2"
  proof -
    define d where "d = take (unat (p_filesz ph)) (drop (unat (p_offset ph)) buf)"
    have ld: "of_nat (length d) = p_filesz ph" using s(1) by (simp add: d_def)
    have sb: "seg_bytes ph buf = d @ replicate (?ms - unat (p_filesz ph)) 0" by (simp add: seg_bytes_def d_def)
    have ls: "load_segment ph buf m = do { m2 \<leftarrow> memcpy_to ?v d ?m1;
        if p_memsz ph > p_filesz ph then memset_at (?v + p_filesz ph) 0 (unat (p_memsz ph - p_filesz ph)) m2 else Some m2 }"
      using True s(1) by (simp add: load_segment_def N(2) d_def Let_def)
    show ?thesis
    proof (cases "p_filesz ph = p_memsz ph")
      case True
      then show ?thesis using ls m2(1) sb by simp
    next
      case False
      then have "p_memsz ph > p_filesz ph" using s(2) by simp
      moreover have "unat (p_memsz ph - p_filesz ph) = ?ms - unat (p_filesz ph)" using s(2) by (simp add: unat_minus_u32)
      ultimately show ?thesis using ls m2(1) ld unfolding sb memcpy_append memset_copy by simp
    qed
  qed
  moreover have "user_data m2 ?v (seg_bytes ph buf)" using m2(3) copied_data [of "seg_bytes ph buf"] lb unat_lt_u32 [of "p_memsz ph"] by simp
  moreover have "user_view m2 x = user_view m x" if "drop_bit 12 x \<notin> seg_pages ph" for x
  proof -
    have "\<not> unat (x - ?v) < ?ms"
    proof
      assume lt: "unat (x - ?v) < ?ms"
      have "x = ?v + of_nat (unat (x - ?v))" by simp
      moreover have "unat (x - ?v) div 4096 < ?N" using lt N(1) by linarith
      ultimately have "drop_bit 12 x \<in> seg_pages ph" using seg_addr(2) [OF s(3,4) lt] by (simp add: seg_pages_def)
      then show False using that by simp
    qed
    then have "user_view m2 x = user_view ?m1 x" using m2(3) lb by (simp add: copied_def Let_def)
    then show ?thesis using fp that by (simp add: fresh_pages_def)
  qed
  ultimately show ?thesis using that m2(2,4) nf by (simp add: seg_loaded_def)
qed

fun segs_disjoint :: "elf32_phdr list \<Rightarrow> bool" where
  "segs_disjoint [] = True"
| "segs_disjoint (p # ps) = ((\<forall>q \<in> set ps. seg_pages p \<inter> seg_pages q = {}) \<and> segs_disjoint ps)"

lemma seg_loaded_keep:
  assumes "seg_ok buf ph" and "seg_loaded buf m ph" and "\<forall>x. drop_bit 12 x \<in> seg_pages ph \<longrightarrow> user_view m' x = user_view m x"
  shows "seg_loaded buf m' ph"
proof (cases "p_type ph = PT_LOAD")
  case True
  then have s: "unat (p_offset ph) + unat (p_filesz ph) \<le> length buf" "p_filesz ph \<le> p_memsz ph" "4096 dvd unat (p_vaddr ph)"
      "unat (p_vaddr ph) + unat (p_memsz ph) \<le> 0xC0000000"
    using assms(1) by (auto simp: seg_ok_def)
  have lb: "length (seg_bytes ph buf) = unat (p_memsz ph)" using s(1,2) by (simp add: seg_bytes_def word_le_nat_alt)
  have "drop_bit 12 (p_vaddr ph + of_nat i) \<in> seg_pages ph" if "i < length (seg_bytes ph buf)" for i
  proof -
    have i: "i < unat (p_memsz ph)" using that lb by simp
    have "i div 4096 < (unat (p_memsz ph) + 4095) div 4096" using i by linarith
    then show ?thesis using seg_addr(2) [OF s(3,4) i] True by (simp add: seg_pages_def seg_count_def)
  qed
  then show ?thesis using assms(2,3) True by (simp add: seg_loaded_def user_data_def)
qed (simp add: seg_loaded_def)

lemma load_segments_spec:
  assumes "user_inv m" and "\<forall>ph \<in> set phs. seg_ok buf ph" and "segs_disjoint phs"
    and "n + 2 * sum_list (map seg_count phs) \<le> card (avail_frames (frames m))"
    and "\<forall>i < length phs. phdr_at buf (pos + 32 * i) = Some (phs ! i)"
  shows "\<exists>m'. load_segments buf pos (length phs) m = Some m' \<and> user_inv m' \<and> (\<forall>ph \<in> set phs. seg_loaded buf m' ph) \<and>
    (\<forall>x. (\<forall>ph \<in> set phs. drop_bit 12 x \<notin> seg_pages ph) \<longrightarrow> user_view m' x = user_view m x)"
  using assms
proof (induction phs arbitrary: pos m)
  case (Cons ph phs)
  have ok: "seg_ok buf ph" using Cons.prems(2) by simp
  have room: "(n + 2 * sum_list (map seg_count phs)) + 2 * seg_count ph \<le> card (avail_frames (frames m))" using Cons.prems(4) by simp
  obtain m1 where m1: "load_segment ph buf m = Some m1" "user_inv m1"
      "n + 2 * sum_list (map seg_count phs) \<le> card (avail_frames (frames m1))" "seg_loaded buf m1 ph"
      "\<forall>x. drop_bit 12 x \<notin> seg_pages ph \<longrightarrow> user_view m1 x = user_view m x"
    by (rule load_segment_spec [OF Cons.prems(1) ok room])
  have at: "\<forall>i < length phs. phdr_at buf (pos + 32 + 32 * i) = Some (phs ! i)"
  proof (intro allI impI)
    fix i assume "i < length phs"
    then show "phdr_at buf (pos + 32 + 32 * i) = Some (phs ! i)"
      using Cons.prems(5) [rule_format, of "Suc i"] by (simp add: algebra_simps)
  qed
  obtain m' where m': "load_segments buf (pos + 32) (length phs) m1 = Some m'" "user_inv m'" "\<forall>ph \<in> set phs. seg_loaded buf m' ph"
      "\<forall>x. (\<forall>ph \<in> set phs. drop_bit 12 x \<notin> seg_pages ph) \<longrightarrow> user_view m' x = user_view m1 x"
    using Cons.IH [OF m1(2) _ _ m1(3) at] Cons.prems(2,3) by auto
  have "seg_loaded buf m' ph"
    by (rule seg_loaded_keep [OF ok m1(4)]) (use m'(4) Cons.prems(3) in \<open>auto simp: disjoint_iff\<close>)
  moreover have "phdr_at buf pos = Some ph" using Cons.prems(5) [rule_format, of 0] by simp
  ultimately show ?case using m1(1,5) m' by auto
qed auto

section \<open>Loading a file\<close>

definition elf_ok :: "u8 list \<Rightarrow> elf32_phdr list \<Rightarrow> bool" where
  "elf_ok img phs \<longleftrightarrow> 52 \<le> length img \<and> elf_magic img \<and> length phs = unat (e_phnum img) \<and>
     (\<forall>i < length phs. phdr_at img (unat (e_phoff img) + 32 * i) = Some (phs ! i)) \<and>
     (\<forall>ph \<in> set phs. seg_ok img ph) \<and> segs_disjoint phs"

text \<open>Room on the heap for a buffer beside a node.\<close>

definition buffer_room :: "u32 \<Rightarrow> (u32 \<times> nat) set \<Rightarrow> u32 \<Rightarrow> bool" where
  "buffer_room hb L n \<longleftrightarrow> (\<forall>h p c h'. kheap_ok hb h \<longrightarrow> kheap_live hb h = insert (p, c) L \<longrightarrow> c \<le> 207 \<longrightarrow> kmalloc n h \<noteq> Some (0, h'))"

text \<open>What \<open>elf_load\<close> finds: a node of the file on the heap.\<close>

definition has_image :: "u32 \<Rightarrow> u32 \<Rightarrow> u8 list \<Rightarrow> 'a sysstate_scheme \<Rightarrow> bool" where
  "has_image n ino img s \<longleftrightarrow> n \<noteq> 0 \<and> pafs_view (nodes s n) ino (fs s) \<and> disk_ok (fs s) \<and> file_ok (fs s) (unat ino) \<and>
     itype (inodes (fs s) ! unat ino) = PAFS_TYPE_FILE \<and> contents (fs s) (unat ino) = img"

lemma read_image:
  fixes s :: "'a sysstate_scheme"
  assumes img: "has_image n ino img s" "0 < length img" and h: "kheap_ok hb (heap s)" "kheap_live hb (heap s) = insert (n, c) L" "c \<le> 207"
    and room: "buffer_room hb L (of_nat (length img))"
  obtains b d h' q where "vlength (nodes s n) = of_nat (length img)" "b \<noteq> 0" "kalloc (of_nat (length img)) s = Some (b, s\<lparr>heap := h'\<rparr>)"
    "vfs_read env n 0 (of_nat (length img)) (fresh_bytes (length img) b (s\<lparr>heap := h'\<rparr>)) (s\<lparr>heap := h'\<rparr>) =
       Some ((of_nat (length img), img), s\<lparr>heap := h', fs := q, kernel.eflags := pafs.eflags q\<rparr>)"
    "contents q = contents (fs s)" "kheap_ok hb h'" "kheap_live hb h' = insert (b, d) (insert (n, c) L)" "b \<notin> fst ` insert (n, c) L"
proof -
  have i: "pafs_view (nodes s n) ino (fs s)" "disk_ok (fs s)" "file_ok (fs s) (unat ino)" "itype (inodes (fs s) ! unat ino) = PAFS_TYPE_FILE"
      "contents (fs s) (unat ino) = img" using img(1) by (simp_all add: has_image_def)
  have li: "length img = unat (isize (inodes (fs s) ! unat ino))" using i(5) by (auto simp: contents_def)
  then have lw: "of_nat (length img) = isize (inodes (fs s) ! unat ino)" "length img \<le> 7168" using i(3) by (simp_all add: file_ok_def)
  have v: "vlength (nodes s n) = of_nat (length img)" "vinode (nodes s n) = ino" "vread (nodes s n) = Pafs_fun"
    using i(1,4) lw(1) by (simp_all add: pafs_view_def pafs_consts)
  have ul: "unat (of_nat (length img) :: u32) = length img" using lw(2) by (simp add: unat_of_nat_u32)
  obtain xs where inv: "heap_inv hb (heap s) xs" using h(1) by (auto simp: kheap_ok_def)
  have nz: "(of_nat (length img) :: u32) \<noteq> 0" "unat (of_nat (length img) :: u32) \<le> 4294967276"
    using ul img(2) lw(2) by (auto simp: word_unat_eq_iff)
  obtain b h' where k: "kmalloc (of_nat (length img)) (heap s) = Some (b, h')" "kheap_ok hb h'"
      "b = 0 \<and> h' = heap s \<or> b \<noteq> 0 \<and> (\<exists>d. kheap_live hb h' = insert (b, d) (kheap_live hb (heap s)) \<and> b \<notin> fst ` kheap_live hb (heap s))"
    using kmalloc_live_bound [OF inv nz] by blast
  have "b \<noteq> 0" using room h k(1) unfolding buffer_room_def by blast
  then obtain d where d: "kheap_live hb h' = insert (b, d) (insert (n, c) L)" "b \<notin> fst ` insert (n, c) L" using k(3) h(2) by auto
  let ?s = "s\<lparr>heap := h'\<rparr>" and ?q = "fs s\<lparr>pafs.eflags := kernel.eflags s\<rparr>"
  let ?b = "fresh_bytes (length img) b ?s"
  have fb: "length ?b = length img" by (simp add: fresh_bytes_def)
  have "\<exists>st'. pafs_vfs_read (unat ino) 0 (of_nat (length img)) ?b ?q = ((of_nat (length img), overwrite 0 img ?b), st')"
    using vfs_read_bytes [of ?q "unat ino" 0 "of_nat (length img)" ?b] i(2-5) lw(2) ul fb by (simp add: file_ok_def)
  then have r: "pafs_vfs_read (unat ino) 0 (of_nat (length img)) ?b ?q = ((of_nat (length img), img), unlock_pafs (lock_pafs ?q))"
    using vfs_read_snd [of "unat ino" 0 "of_nat (length img)" ?b ?q] fb by (auto simp: overwrite_def)
  show ?thesis
    by (rule that [of b h' "unlock_pafs (lock_pafs ?q)" d])
      (use v k(1,2) \<open>b \<noteq> 0\<close> d r in \<open>simp_all add: kalloc_def vfs_read_def on_fs_def\<close>)
qed

lemma say_sel [simp]:
  "heap (say str s) = heap s" "fs (say str s) = fs s" "tasks (say str s) = tasks s" "nodes (say str s) = nodes s"
  by (simp_all add: say_def)

lemma say_mm [simp]: "mm (say str s) = mm s" for s :: "'a sysstate_scheme" by (simp add: say_def)

text \<open>
  C14: \<open>elf_load\<close> of a path that leads to a well-formed ELF file, whose loadable segments begin at page
  boundaries, lie in the program's half of the address space and share no page, returns the entry
  point. Afterwards every loadable segment is in the memory of the program, the bytes of the file
  followed by zeros up to its size in memory; no other page of the program changes; the node and the
  buffer are released again and nothing of the file system changes. This is for names shorter than 128 bytes other than \<open>mnt\<close> in an
  intact directory tree, a heap with room for the nodes and for a buffer of the size of the file, and at least two free frames for every page of
  a segment (one for the page, one for a page table). Without a free frame the code maps frame 0, which the claim does not cover.
\<close>

theorem elf_load_correct:
  fixes s :: "'a sysstate_scheme"
  assumes "kheap_ok hb (heap s)" and "node_room hb (kheap_live hb (heap s))" and "tree_ok (fs s)"
    and "path_start from path s = (b, p)" and "b \<noteq> 0" and "pafs_view (nodes s b) i0 (fs s)" and "unat i0 < 128"
    and "pafs_root_node s \<in> fst ` kheap_live hb (heap s)"
    and "\<forall>n \<in> set (path_names p). length n < 128 \<and> n \<noteq> lit ''mnt''" and "pafs_resolve (fs s) i0 (path_names p) = Some ino"
    and "disk_ok (fs s)" and "file_ok (fs s) (unat ino)" and "itype (inodes (fs s) ! unat ino) = PAFS_TYPE_FILE"
    and "contents (fs s) (unat ino) = img" and "elf_ok img phs" and "buffer_room hb (kheap_live hb (heap s)) (of_nat (length img))"
    and "user_inv (mm s)" and "2 * sum_list (map seg_count phs) \<le> card (avail_frames (frames (mm s)))"
  shows "\<exists>s'. elf_load env from path s = Some (sint (e_entry img), s') \<and> user_inv (mm s') \<and>
    (\<forall>ph \<in> set phs. seg_loaded img (mm s') ph) \<and>
    (\<forall>x. (\<forall>ph \<in> set phs. drop_bit 12 x \<notin> seg_pages ph) \<longrightarrow> user_view (mm s') x = user_view (mm s) x) \<and>
    kheap_ok hb (heap s') \<and> kheap_live hb (heap s') = kheap_live hb (heap s) \<and>
    contents (fs s') = contents (fs s) \<and> tasks s' = tasks s"
proof -
  let ?L = "kheap_live hb (heap s)"
  obtain n s1 where l: "vfs_get_node_by_path env from path s = Some (n, s1)" "looked s s1"
      "lookup_result hb ?L (Some ino) n s1"
    using path_lookup [OF assms(1-9), of env] assms(10) by auto
  obtain c where n: "n \<noteq> 0" "n \<notin> fst ` ?L" "c \<le> 207" "kheap_live hb (heap s1) = insert (n, c) ?L" "pafs_view (nodes s1 n) ino (fs s1)" "kheap_ok hb (heap s1)"
    using l(3) by (auto simp: lookup_result_def)
  note lf = looked_files [OF l(2)] looked_sel [OF l(2)]
  have img: "has_image n ino img s1" using n assms(11-14) lf by (simp add: has_image_def)
  have l52: "52 \<le> length img" "elf_magic img" "length phs = unat (e_phnum img)" using assms(15) by (simp_all add: elf_ok_def)
  obtain b d h' q where r: "vlength (nodes s1 n) = of_nat (length img)" "b \<noteq> 0" "kalloc (of_nat (length img)) s1 = Some (b, s1\<lparr>heap := h'\<rparr>)"
      "vfs_read env n 0 (of_nat (length img)) (fresh_bytes (length img) b (s1\<lparr>heap := h'\<rparr>)) (s1\<lparr>heap := h'\<rparr>) =
         Some ((of_nat (length img), img), s1\<lparr>heap := h', fs := q, kernel.eflags := pafs.eflags q\<rparr>)"
      "contents q = contents (fs s1)" "kheap_ok hb h'" "kheap_live hb h' = insert (b, d) (insert (n, c) ?L)" "b \<notin> fst ` insert (n, c) ?L"
    by (rule read_image [OF img _ n(6,4,3) assms(16)]) (use l52 in auto)
  have "length img \<le> 7168" using assms(12,14) by (auto simp: file_ok_def contents_def)
  then have ln: "unat (of_nat (length img) :: u32) = length img" "\<not> sint (of_nat (length img) :: u32) \<le> 0"
    using l52(1) by (auto simp: unat_of_nat_u32 sint_uint uint_nat signed_take_bit_int_eq_self)
  have mm1: "mm s1 = mm s" by (rule looked_mm [OF l(2)])
  obtain m where m: "load_segments img (unat (e_phoff img)) (unat (e_phnum img)) (mm s) = Some m" "user_inv m"
      "\<forall>ph \<in> set phs. seg_loaded img m ph" "\<forall>x. (\<forall>ph \<in> set phs. drop_bit 12 x \<notin> seg_pages ph) \<longrightarrow> user_view m x = user_view (mm s) x"
    using load_segments_spec [OF assms(17), of phs img 0 "unat (e_phoff img)"] assms(15,18) unfolding elf_ok_def by auto
  have k1: "kheap_ok hb (kfree b h')" "kheap_live hb (kfree b h') = insert (n, c) ?L"
    using kh.release_ok [OF r(6), of b d] r(7,8) by (auto simp: image_iff)
  have k2: "kheap_ok hb (kfree n (kfree b h'))" "kheap_live hb (kfree n (kfree b h')) = ?L"
    using kh.release_ok [OF k1(1), of n c] k1(2) n(2) by (auto simp: image_iff)
  show ?thesis
    using l(1) n(1) r(1-5) ln l52(1,2) m mm1 k2 lf(1,17)
    by (simp add: elf_load_def krelease_def Let_def)
qed

section \<open>Instances\<close>

text \<open>A file \<open>a\<close> with one segment of four bytes and four zeros.\<close>

definition demo_img :: "u8 list" where
  "demo_img = [0x7F, 0x45, 0x4C, 0x46, 0, 0, 0, 0, 0, 0, 0, 0, 0, 0, 0, 0, 2, 0, 3, 0, 1, 0, 0, 0,
     0, 0, 0, 8, 52, 0, 0, 0, 0, 0, 0, 0, 0, 0, 0, 0, 52, 0, 32, 0, 1, 0, 0, 0, 0, 0, 0, 0,
     1, 0, 0, 0, 84, 0, 0, 0, 0, 0, 0, 8, 0, 0, 0, 0, 4, 0, 0, 0, 8, 0, 0, 0, 5, 0, 0, 0, 0, 16, 0, 0,
     1, 2, 3, 4]"

definition demo_phdr :: elf32_phdr where
  "demo_phdr = \<lparr>p_type = 1, p_offset = 84, p_vaddr = 0x08000000, p_paddr = 0, p_filesz = 4, p_memsz = 8, p_flags = 5, p_align = 4096\<rparr>"

lemma demo_img_len: "length demo_img = 88"
  by (simp add: demo_img_def)

lemma demo_img_ok: "elf_ok demo_img [demo_phdr]" "e_entry demo_img = 0x08000000" "seg_count demo_phdr = 1"
  "seg_bytes demo_phdr demo_img = [1, 2, 3, 4, 0, 0, 0, 0]"
proof -
  show "e_entry demo_img = 0x08000000" by (simp add: e_entry_def get32_def demo_img_def le32_def)
  have o: "e_phoff demo_img = 52" by (simp add: e_phoff_def get32_def demo_img_def le32_def)
  have n: "e_phnum demo_img = 1" by (simp add: e_phnum_def get16_def demo_img_def le16_def)
  have "phdr_at demo_img 52 = Some demo_phdr"
    unfolding phdr_at_def demo_img_len by (simp add: demo_phdr_def get32_def demo_img_def le32_def)
  moreover have "seg_ok demo_img demo_phdr" by (simp add: seg_ok_def demo_phdr_def demo_img_len)
  moreover have "elf_magic demo_img" by (simp add: elf_magic_def demo_img_def)
  ultimately show "elf_ok demo_img [demo_phdr]" by (simp add: elf_ok_def demo_img_len o n)
  show "seg_count demo_phdr = 1" by (simp add: seg_count_def demo_phdr_def PT_LOAD_def)
  show "seg_bytes demo_phdr demo_img = [1, 2, 3, 4, 0, 0, 0, 0]"
  proof -
    have "take 4 (drop 84 demo_img) = [1, 2, 3, 4]" by (simp add: demo_img_def)
    moreover have "replicate 4 (0 :: u8) = [0, 0, 0, 0]" by (simp add: eval_nat_numeral)
    ultimately show ?thesis by (simp add: seg_bytes_def demo_phdr_def)
  qed
qed

definition exe_file :: pafs where
  "exe_file = pafs_disk_write 30 (demo_img @ replicate 424 0)
     (upd_inode 1 (\<lambda>_. \<lparr>itype = 1, isize = 88, iblocks = (replicate 14 0)[0 := 30]\<rparr>) two_names)"

lemma exe_file_ok:
  "disk_ok exe_file" "tree_ok exe_file" "root_inode (sb exe_file) = 0" "itype (inodes exe_file ! 0) = PAFS_TYPE_DIR"
  "pafs_find_entry 0 [0x61] exe_file = 1" "file_ok exe_file 1" "itype (inodes exe_file ! 1) = PAFS_TYPE_FILE" "contents exe_file 1 = demo_img"
proof -
  have len: "length (inodes two_names) = 128" using pafs_inv_lengths(1) [OF two_names_dir(1)] .
  have i1: "inodes exe_file ! 1 = \<lparr>itype = 1, isize = 88, iblocks = (replicate 14 0)[0 := 30]\<rparr>"
    and io: "j \<noteq> 1 \<Longrightarrow> inodes exe_file ! j = inodes two_names ! j" for j
    using len by (simp_all add: exe_file_def upd_inode_def)
  have rd: "pafs_disk_read l exe_file = (if l = 30 then demo_img @ replicate 424 0 else pafs_disk_read l two_names)" for l
    by (simp add: exe_file_def disk_read_write disk_read_upd)
  have "disk_ok two_names"
    using format_disk [OF raw_lengths] by (auto simp: two_names_def disk_ok_write disk_ok_upd sb_ok_def put_entry_length)
  then show "disk_ok exe_file" by (simp add: disk_ok_def rd demo_img_len)
  have b0: "iblocks (inodes two_names ! 0) = (replicate 14 0)[0 := 18]"
    using pafs_inv_lengths(1) [OF format_inv [OF raw_lengths(1-3)]] by (simp add: two_names_def upd_inode_def fresh_root(1))
  have same: "inodes exe_file ! 0 = inodes two_names ! 0" "\<And>k. k < 14 \<Longrightarrow> iblocks (inodes two_names ! 0) ! k \<noteq> 0 \<Longrightarrow> dir_block exe_file 0 k = dir_block two_names 0 k"
    using io [of 0] by (auto simp: dir_block_def rd b0 nth_list_update split: if_splits)
  have dir0: "dir_ok exe_file 0" using dir_same(1) [OF same] two_names_dir(2) by simp
  then show "itype (inodes exe_file ! 0) = PAFS_TYPE_DIR" by (simp add: dir_ok_def)
  have "d = 0" if "d < 128" "itype (inodes exe_file ! d) = PAFS_TYPE_DIR" for d
    using that io [of d] two_names_types [of d] i1 by (cases "d = 0"; cases "d = 1") (auto simp: PAFS_TYPE_DIR_def)
  then show "tree_ok exe_file" using dir0 by (auto simp: tree_ok_def)
  show "root_inode (sb exe_file) = 0" using two_names_tree(2) by (simp add: exe_file_def)
  have "found_at exe_file 0 [0x61] 0 0" using dir_same(2) [OF same] two_names_dir(3) by simp
  then show "pafs_find_entry 0 [0x61] exe_file = 1"
    using find_entry_found(1) [OF dir0] two_names_entry same(2) [of 0] b0 by (simp add: sint_small)
  show "file_ok exe_file 1" by (auto simp: file_ok_def i1 [unfolded One_nat_def] nth_list_update)
  show "itype (inodes exe_file ! 1) = PAFS_TYPE_FILE" by (simp add: i1 [unfolded One_nat_def] PAFS_TYPE_FILE_def)
  have "contents exe_file 1 = map ((!) demo_img) [0..<88]"
    by (auto simp: contents_def i1 [unfolded One_nat_def] file_byte_def rd nth_append demo_img_len)
  then show "contents exe_file 1 = demo_img" using map_nth [of demo_img] by (simp add: demo_img_len)
qed

lemma small_buffer_room: "c \<le> 207 \<Longrightarrow> buffer_room hb {(p, c)} 88"
  unfolding buffer_room_def
proof (intro allI impI)
  fix h q d h'
  assume a: "c \<le> 207" "kheap_ok hb h" "kheap_live hb h = insert (q, d) {(p, c)}" "d \<le> 207"
  have "card (kheap_live hb h) \<le> 2" unfolding a(3) by (simp add: card_insert_if)
  then show "kmalloc 88 h \<noteq> Some (0, h')" using sparse_heap_room [OF a(2)] a(1,3,4) by auto
qed

theorem elf_load_correct_witness:
  "\<exists>(s :: sysstate) s'. elf_load (\<lambda>_ s. s) (vfs_root s) [0x61] s = Some (0x08000000, s') \<and>
     user_data (mm s') 0x08000000 [1, 2, 3, 4, 0, 0, 0, 0]"
proof -
  have names: "path_names [0x61] = [[0x61]]" by (simp add: path_names.simps path_name_def path_rest_def cstr_def)
  note ok = exe_file_ok
  have n2: "\<forall>n \<in> set (abs_names [0x61]). length n < 128 \<and> n \<noteq> lit ''mnt''" by (simp add: abs_names_def names lit_def)
  obtain s0 :: sysstate where s0: "lookup_ok 0xC0400000 [0x61] s0" "fs s0 = exe_file"
      "vinode (nodes s0 (vfs_root s0)) = root_inode (sb exe_file)" "\<exists>p c. kheap_live 0xC0400000 (heap s0) = {(p, c)} \<and> c \<le> 207"
    by (rule demo_machine [of exe_file "[]" "[0x61]"]) (use ok(2-4) n2 that in simp_all)
  then obtain p c where s: "lookup_ok 0xC0400000 [0x61] s0" "fs s0 = exe_file"
      "vinode (nodes s0 (vfs_root s0)) = root_inode (sb exe_file)" "kheap_live 0xC0400000 (heap s0) = {(p, c)}" "c \<le> 207" by blast
  define s where "s = s0\<lparr>mm := demo_mm\<rparr>"
  have l: "kheap_ok 0xC0400000 (heap s)" "node_room 0xC0400000 (kheap_live 0xC0400000 (heap s))" "tree_ok (fs s)" "vfs_root s \<noteq> 0"
      "pafs_view (nodes s (vfs_root s)) 0 (fs s)" "pafs_root_node s \<in> fst ` kheap_live 0xC0400000 (heap s)"
    using s(1,3) ok(3) by (auto simp: lookup_ok_def s_def)
  have st: "path_start (vfs_root s) [0x61] s = (vfs_root s, [0x61])" by (simp add: path_start_def)
  have 1: "\<forall>n \<in> set (path_names [0x61]). length n < 128 \<and> n \<noteq> lit ''mnt''" by (simp add: names lit_def)
  have 2: "pafs_resolve (fs s) 0 (path_names [0x61]) = Some 1" using s(2) ok(5) by (simp add: names s_def)
  have 3: "disk_ok (fs s)" "file_ok (fs s) (unat (1 :: u32))" "itype (inodes (fs s) ! unat (1 :: u32)) = PAFS_TYPE_FILE"
      "contents (fs s) (unat (1 :: u32)) = demo_img"
    using s(2) ok by (simp_all add: s_def)
  have 4: "buffer_room 0xC0400000 (kheap_live 0xC0400000 (heap s)) (of_nat (length demo_img))"
    using small_buffer_room [OF s(5)] s(4) by (simp add: s_def demo_img_len)
  have 5: "user_inv (mm s)" "2 * sum_list (map seg_count [demo_phdr]) \<le> card (avail_frames (frames (mm s)))"
    using demo_mm_ok by (simp_all add: s_def demo_img_ok)
  have z: "unat (0 :: u32) < 128" by simp
  show ?thesis
    using elf_load_correct [OF l(1-3) st l(4,5) z l(6) 1 2 3 demo_img_ok(1) 4 5, of "\<lambda>_ s. s"] demo_img_ok
    by (auto simp: seg_loaded_def demo_phdr_def PT_LOAD_def)
qed

end
