(* ===== verification/Net_Input.thy ===== *)
theory Net_Input
  imports Socket
begin

text \<open>
  Reception: the dispatch of Ethernet, IPv4 and UDP (\<open>kernel/net/net.c\<close>) to ARP, ICMP, TCP
  and the sockets. The properties span the stack: a datagram one host sends is what the
  socket of the other host returns.
\<close>

section \<open>Operations\<close>

text \<open>The old callback table: every matching entry is called.\<close>

definition udp_callbacks :: "u16 \<Rightarrow> udp_call \<Rightarrow> 'a net_scheme \<Rightarrow> 'a net_scheme" where
  "udp_callbacks dest_port call s =
     for_range 0 MAX_UDP_SOCKETS (\<lambda>i t.
       let u = udp_sockets t ! i
       in if in_use u \<noteq> 0 \<and> local_port u = dest_port \<and> callback u \<noteq> 0
          then t\<lparr>udp_calls := udp_calls t @ [call\<lparr>uc_callback := callback u\<rparr>]\<rparr> else t) s"

definition net_handle_udp :: "nat \<Rightarrow> mem \<Rightarrow> 'a tcpip_scheme \<Rightarrow> 'a tcpip_scheme option" where
  "net_handle_udp udp m s =
     (let dest_port = ntohs (rd16 m (udp + 2)); src_port = ntohs (rd16 m udp);
          payload_len = uint (ntohs (rd16 m (udp + 4))) - 8; payload = udp + 8; src_ip = rd_bytes m 26 4;
          s1 = udp_callbacks dest_port \<lparr>uc_callback = 0, uc_payload = payload, uc_len = payload_len,
                 uc_src_ip = src_ip, uc_src_port = src_port\<rparr> s
      in socket_dispatch_udp dest_port (rd_bytes m payload (unat (of_int payload_len :: u16))) src_ip src_port s1)"

definition net_handle_ipv4 :: "mem \<Rightarrow> 'a tcpip_scheme \<Rightarrow> (mem \<times> 'a tcpip_scheme) option" where
  "net_handle_ipv4 m s =
     (let s1 = s\<lparr>gateway_mac := rd_bytes m 6 6\<rparr>;
          header_len = ip_ihl m * 4
      in if memcmp (rd_bytes m 30 4) (my_ip s1) 4 = 0 \<or> memcmp (rd_bytes m 30 4) broadcast_mac 4 = 0 then
           if m 23 = 1 then
             Some (net_handle_icmp (14 + header_len) (uint (ntohs (rd16 m 16)) - int header_len) m s1)
           else if m 23 = 17 then map_option (\<lambda>s'. (m, s')) (net_handle_udp (14 + header_len) m s1)
           else if m 23 = 6 then
             map_option (\<lambda>s'. (m, s'))
               (tcp_input (rd_bytes m 26 4) (14 + header_len) (ntohs (rd16 m 16) - of_nat header_len) m s1)
           else Some (m, s1)
         else Some (m, s1))"

text \<open>The comparison with the size of the header is unsigned.\<close>

definition net_handle_packet :: "mem \<Rightarrow> int \<Rightarrow> 'a tcpip_scheme \<Rightarrow> (mem \<times> 'a tcpip_scheme) option" where
  "net_handle_packet m len s =
     (if (of_int len :: u32) < 14 then Some (m, s)
      else if ntohs (rd16 m 12) = ETH_TYPE_ARP then Some (net_handle_arp m s)
      else if ntohs (rd16 m 12) = ETH_TYPE_IPV4 then net_handle_ipv4 m s
      else Some (m, s))"

section \<open>A datagram from one host to another\<close>

lemma udp_callbacks_log: "\<exists>c. udp_callbacks port call s = s\<lparr>udp_calls := c\<rparr>"
proof -
  have "\<exists>c. for_range 0 MAX_UDP_SOCKETS (\<lambda>i t.
       let u = udp_sockets t ! i
       in if in_use u \<noteq> 0 \<and> local_port u = port \<and> callback u \<noteq> 0
          then t\<lparr>udp_calls := udp_calls t @ [call\<lparr>uc_callback := callback u\<rparr>]\<rparr> else t) s = s\<lparr>udp_calls := c\<rparr>"
    by (rule for_range_inv [where P = "\<lambda>_ t. \<exists>c. t = s\<lparr>udp_calls := c\<rparr>"])
      (auto simp: Let_def intro: exI [of _ "udp_calls s"])
  then show ?thesis by (simp add: udp_callbacks_def)
qed

lemma udp_header_reads:
  assumes "rd_bytes m 34 (8 + length payload) = udp_datagram src_port dest_port payload"
  shows "ntohs (rd16 m 34) = src_port" "ntohs (rd16 m 36) = dest_port" "ntohs (rd16 m 38) = of_nat (8 + length payload)"
    "rd_bytes m 42 (length payload) = payload"
proof -
  note r = rd16_of_bytes [OF assms]
  show "ntohs (rd16 m 34) = src_port" "ntohs (rd16 m 36) = dest_port" "ntohs (rd16 m 38) = of_nat (8 + length payload)"
    using r [of 0] r [of 2] r [of 4]
    by (simp_all add: udp_datagram_def bytes16_def bytes16_roundtrip)
  have "rd_bytes m 42 (length payload) = drop 8 (rd_bytes m 34 (8 + length payload))"
    using rd_bytes_split [of m 34 8 "length payload"] by simp
  then show "rd_bytes m 42 (length payload) = payload" by (simp add: assms udp_datagram_def)
qed

text \<open>What reception of a UDP packet does, from the fields of the packet.\<close>

lemma handle_udp_packet:
  assumes "net_ok b" and "14 \<le> len" and "len < 2147483648" and "ntohs (rd16 m 12) = ETH_TYPE_IPV4"
    and "rd_bytes m 30 4 = my_ip b" and "m 23 = 17" and "ip_ihl m = 5"
  shows "net_handle_packet m len b = map_option (\<lambda>s'. (m, s')) (net_handle_udp 34 m (b\<lparr>gateway_mac := rd_bytes m 6 6\<rparr>))"
proof -
  have "memcmp (rd_bytes m 30 4) (my_ip b) 4 = 0" using assms(1,5) by (subst memcmp_zero) (simp_all add: net_ok_def)
  moreover have "\<not> (of_int len :: u32) < 14" using assms(2,3) by (simp add: word_less_def uint_word_of_int)
  ultimately show ?thesis
    using assms(4,6,7) by (simp add: net_handle_packet_def net_handle_ipv4_def ETH_TYPE_IPV4_def ETH_TYPE_ARP_def)
qed

lemma handle_udp_deliver:
  assumes "rd_bytes m 34 (8 + length payload) = udp_datagram src_port dest_port payload"
    and "length payload \<le> 4088"
  shows "\<exists>c. net_handle_udp 34 m s =
    socket_dispatch_udp dest_port payload (rd_bytes m 26 4) src_port (s\<lparr>udp_calls := c\<rparr>)"
proof -
  note u = udp_header_reads [OF assms(1)]
  have e: "uint (ntohs (rd16 m 38)) = 8 + int (length payload)"
    unfolding u(3) using assms(2) unat_of_nat_u16 [of "8 + length payload"] by (simp only: uint_nat)
  have "unat (of_int (uint (ntohs (rd16 m 38)) - 8) :: u16) = length payload"
    unfolding e using assms(2) unat_of_nat_u16 [of "length payload"] by simp
  then have "net_handle_udp 34 m s = socket_dispatch_udp dest_port payload (rd_bytes m 26 4) src_port
      (udp_callbacks dest_port \<lparr>uc_callback = 0, uc_payload = 42, uc_len = uint (ntohs (rd16 m 38)) - 8,
         uc_src_ip = rd_bytes m 26 4, uc_src_port = src_port\<rparr> s)"
    using u(1,2,4) by (simp add: net_handle_udp_def Let_def)
  then show ?thesis using udp_callbacks_log by metis
qed

text \<open>
  C9: end to end over both stacks. A datagram of at most 4088 bytes that host \<open>a\<close> sends to host \<open>b\<close> in one frame and \<open>b\<close> receives is
  what the datagram socket bound to the destination port returns, when its receive queue was empty before: the payload, cut to the size the
  caller asked for, with the address and port of \<open>a\<close>, and nothing is left in the queue. Host \<open>a\<close> has a card that sends and an
  intact heap, the addresses of both hosts have their lengths, and the socket of \<open>b\<close> has its receive buffer. (A larger datagram is dropped by the
  receiver, and an older one in the queue would be returned first.)
\<close>

theorem udp_end_to_end:
  assumes snd: "kheap_ok base (heap a)" "net_ok a" "nic_send a" "length payload \<le> 4088"
    and out: "net_send_udp (my_ip b) dest_port src_port payload a = Some a'" "sent a' = sent a @ [frame]"
    and rcv: "net_ok b" "port_socket dest_port b = Some i" "can_receive i b" "ring_list (sock_ring i b) = []"
    and sock: "node_socket n b = Some i" "s_type (sockets b ! i) = SOCK_DGRAM"
  shows "\<exists>m' b' b''. net_handle_packet (buf_mem frame) (int (length frame)) b = Some (m', b') \<and>
    socket_recvfrom env n len True b' = Some (take len payload,
      Some \<lparr>sin_family = AF_INET, sin_port = htons src_port, sin_addr = net_get_ip a\<rparr>, b'') \<and>
    can_receive i b'' \<and> ring_list (sock_ring i b'') = []"
proof -
  let ?d = "udp_datagram src_port dest_port payload"
  define M where "M = ipv4_frame (my_ip b) 17 ?d a"
  have ipl: "length (my_ip b) = 4" "length (my_ip a) = 4" using rcv(1) snd(2) by (simp_all add: net_ok_def)
  note f = ipv4_frame_fields [OF snd(2) ipl(1), of 17 ?d, folded M_def]
  have fr: "frame = rd_bytes M 0 (42 + length payload)"
    by (rule net_send_udp_spec [OF snd(1), of payload "my_ip b" dest_port src_port])
      (use snd(3,4) out in \<open>auto simp: M_def\<close>)
  define m where "m = buf_mem frame"
  have m: "rd_bytes m p k = rd_bytes M p k" if "p + k \<le> 42 + length payload" for p k
    using that by (simp add: m_def fr received_reads)
  have m16: "rd16 m p = rd16 M p" "m p = M p" if "p + 2 \<le> 42 + length payload" for p
    using that by (simp_all add: m_def fr received_reads buf_mem_rd)
  have dg: "rd_bytes m 34 (8 + length payload) = ?d" using f(9) by (simp add: m)
  have ip: "rd_bytes m 26 4 = my_ip a" using f(7) by (simp add: m)
  have hp: "net_handle_packet m (int (length frame)) b =
      map_option (\<lambda>s'. (m, s')) (net_handle_udp 34 m (b\<lparr>gateway_mac := rd_bytes m 6 6\<rparr>))"
    by (rule handle_udp_packet) (use rcv(1) snd(4) f(3,4,6,8) in \<open>simp_all add: fr m m16 ip_ihl_def\<close>)
  obtain c where du: "net_handle_udp 34 m (b\<lparr>gateway_mac := rd_bytes m 6 6\<rparr>) =
      socket_dispatch_udp dest_port payload (my_ip a) src_port (b\<lparr>gateway_mac := rd_bytes m 6 6, udp_calls := c\<rparr>)"
    using handle_udp_deliver [OF dg snd(4), of "b\<lparr>gateway_mac := rd_bytes m 6 6\<rparr>"] ip by auto
  define b1 where "b1 = b\<lparr>gateway_mac := rd_bytes m 6 6, udp_calls := c\<rparr>"
  have b1: "port_socket dest_port b1 = Some i" "can_receive i b1" "sock_ring i b1 = sock_ring i b" "sockets b1 = sockets b"
      "node_socket n b1 = Some i"
    using rcv sock by (simp_all add: b1_def port_socket_def can_receive_def sock_ring_def node_socket_def)
  let ?r = "ring_put (dgram_bytes (my_ip a) src_port payload) (sock_ring i b)"
  define b' where "b' = wake_socket i (set_ring i ?r b1)"
  have i: "i < length (sockets b)" and ok: "ring_ok (sock_ring i b)" using rcv(3) by (simp_all add: can_receive_def)
  have put: "ring_ok ?r" "ring_list ?r = dgram_bytes (my_ip a) src_port payload"
    using sr.put_held [OF ok, of "dgram_bytes (my_ip a) src_port payload"] rcv(4) snd(4) by (simp_all add: dgram_bytes_def)
  have "unat (buffer_len (sockets b1 ! i)) = 0" using rcv(4) by (simp add: b1(4) ring_list_def sock_ring_def Let_def)
  then have disp: "socket_dispatch_udp dest_port payload (my_ip a) src_port b1 = Some b'"
    using dispatch_udp_cases(1) [OF b1(1,2)] snd(4) b1(3) by (simp add: b'_def)
  have c': "can_receive i b'" "sock_ring i b' = ?r" "node_socket n b' = Some i" "s_type (sockets b' ! i) = SOCK_DGRAM"
    using i rcv(3) put(1) b1(5) sock(2)
    by (simp_all add: b'_def can_receive_def wake_socket_nth set_ring_socket b1(4) node_socket_def)
  have "unat (of_nat (length payload) :: u16) = length payload" using snd(4) by (intro unat_of_nat_u16) simp
  moreover define pk where "pk = \<lparr>pk_src_ip = net_get_ip a, pk_src_port = src_port, pk_data_len = of_nat (length payload)\<rparr>"
  ultimately have dl: "unat (pk_data_len pk) = length payload" by simp
  have "ring_list (sock_ring i b') = packet_bytes pk @ payload @ []"
    using put(2) c'(2) by (simp add: dgram_bytes_def net_get_ip_def pk_def)
  from recvfrom_dgram [OF c'(3,1,4) this dl, of env len True]
  obtain b'' where "socket_recvfrom env n len True b' = Some (take len payload,
      Some \<lparr>sin_family = AF_INET, sin_port = htons src_port, sin_addr = net_get_ip a\<rparr>, b'')"
      "can_receive i b''" "ring_list (sock_ring i b'') = []"
    by (auto simp: pk_def)
  moreover have "net_handle_packet m (int (length frame)) b = Some (m, b')"
    using hp du disp by (simp add: b1_def)
  ultimately show ?thesis unfolding m_def by blast
qed

section \<open>Instances\<close>

text \<open>The two allocations of a short datagram on the fresh heap.\<close>

lemma demo_send:
  "\<exists>a' frame. net_send_udp [10, 0, 2, 15] 1234 5000 [1, 2, 3] demo_host = Some a' \<and> sent a' = sent demo_host @ [frame]"
proof -
  let ?h1 = "kmalloc_take 28 0xC0400000 heap_demo"
  let ?h2 = "kmalloc_take 64 0xC040001C ?h1"
  have i1: "heap_inv 0xC0400000 ?h1 [(0xC0400000, 28, False), (0xC040001C, 0x3FFFE4, True)]"
    by (rule kmalloc_take_inv [OF heap_demo_inv]) (simp_all add: HEAP_SIZE_def split_block_def)
  have "kmalloc 11 heap_demo = Some (0xC0400010, ?h1)"
    by (simp add: kmalloc_refines [OF heap_demo_inv] align4_def HEAP_SIZE_def)
  moreover have "kmalloc 45 ?h1 = Some (0xC040002C, ?h2)"
    by (simp add: kmalloc_refines [OF i1] align4_def split_block_def)
  ultimately show ?thesis
    by (simp add: net_send_udp_def net_send_ipv4_def kalloc_def demo_host_ok)
qed

theorem udp_end_to_end_witness:
  "\<exists>frame m' b' b''. net_handle_packet (buf_mem frame) (int (length frame)) demo_host = Some (m', b') \<and>
     socket_recvfrom (\<lambda>_ s. s) 1 100 True b' = Some ([1, 2, 3],
       Some \<lparr>sin_family = AF_INET, sin_port = htons 5000, sin_addr = net_get_ip demo_host\<rparr>, b'')"
proof -
  obtain a' frame where out: "net_send_udp [10, 0, 2, 15] 1234 5000 [1, 2, 3] demo_host = Some a'"
    "sent a' = sent demo_host @ [frame]" using demo_send by blast
  have "kheap_ok 0xC0400000 (heap demo_host)" using demo_net_ok(3) by (simp add: demo_host_ok demo_net_def)
  then show ?thesis
    using udp_end_to_end [OF _ demo_host_ok(1,2) _ _ _ demo_host_ok(1) demo_host_socket demo_host_ok(6),
        where base = "0xC0400000" and payload = "[1, 2, 3]" and src_port = 5000 and a' = a' and frame = frame
          and n = 1 and env = "\<lambda>_ s. s" and len = 100] out
    by (auto simp: demo_host_ok demo_socket_def SOCK_DGRAM_def)
qed

end
