(* ===== verification/Nic.thy ===== *)
theory Nic
  imports Elf Net_Input
begin

text \<open>
  The cards on the PCI bus: the network drivers \<open>kernel/drivers/rtl8139.c\<close> and
  \<open>kernel/drivers/e1000.c\<close> and the sound driver \<open>kernel/drivers/ac97.c\<close>. Buffers and
  descriptors lie in memory that the drivers map themselves and are read and written through the
  page tables. The registers of the E1000 are in memory too; an access to one of them is a request to the
  card and is logged like an access to a port. What a card does to the memory while the driver
  waits for it is an argument.
\<close>

section \<open>State\<close>

record hwstate = sysstate +
  rtl_io_base :: u32
  rx_buffer_phys :: u32
  tx_buffer_phys :: u32
  current_rx_ptr :: u32
  rtl_tx_cur :: nat
  mac_address :: "u8 list"
  e1000_regs :: ports
  e1000_mac :: "u8 list"
  rx_descs :: u32
  tx_descs :: u32
  rx_descs_phys :: u32
  tx_descs_phys :: u32
  rx_buffers :: u32
  rx_buffers_phys :: u32
  rx_cur :: u16
  tx_cur :: u16
  tx_buffers :: u32
  tx_buffers_phys :: u32
  ac97_nambar :: u32
  ac97_nabmbar :: u32
  bdl :: u32

definition on_con :: "(console \<Rightarrow> console) \<Rightarrow> 'a sysstate_scheme \<Rightarrow> 'a sysstate_scheme" where
  "on_con f s = s\<lparr>con := f (con s)\<rparr>"

definition read_con :: "(console \<Rightarrow> 'b \<times> console) \<Rightarrow> 'a sysstate_scheme \<Rightarrow> 'b \<times> 'a sysstate_scheme" where
  "read_con f s = (let (v, c) = f (con s) in (v, s\<lparr>con := c\<rparr>))"

definition say_hex :: "u32 \<Rightarrow> 'a sysstate_scheme \<Rightarrow> 'a sysstate_scheme" where
  "say_hex n s = on_con (put_hex n) s"

definition say_int :: "int \<Rightarrow> 'a sysstate_scheme \<Rightarrow> 'a sysstate_scheme" where
  "say_int n s = on_con (put_int n) s"

text \<open>The loop that prints a hardware address.\<close>

definition say_mac :: "u8 list \<Rightarrow> 'a sysstate_scheme \<Rightarrow> 'a sysstate_scheme" where
  "say_mac mac s =
     say [10] (for_range 0 6 (\<lambda>i t. let t1 = say_hex (ucast (mac ! i)) t in if i < 5 then say (lit '':'') t1 else t1) s)"

text \<open>
  \<open>alloc_contiguous_frames(n)\<close>, and \<open>paging_map_memory(phys, virt, size)\<close>, on the memory of the machine.
\<close>

definition take_frames :: "int \<Rightarrow> 'a sysstate_scheme \<Rightarrow> u32 \<times> 'a sysstate_scheme" where
  "take_frames n s = (let (p, q) = alloc_contiguous_frames n (frames (mm s)) in (p, s\<lparr>mm := mm s\<lparr>frames := q\<rparr>\<rparr>))"

definition map_memory :: "u32 \<Rightarrow> u32 \<Rightarrow> u32 \<Rightarrow> 'a sysstate_scheme \<Rightarrow> 'a sysstate_scheme" where
  "map_memory phys virt size' s = s\<lparr>mm := paging_map_memory phys virt size' (mm s)\<rparr>"

definition load16 :: "vmm \<Rightarrow> u32 \<Rightarrow> u16 option" where
  "load16 m v = do { a \<leftarrow> load8 m v; b \<leftarrow> load8 m (v + 1); Some (le16 a b) }"

definition store_bytes :: "u32 \<Rightarrow> u8 list \<Rightarrow> 'a sysstate_scheme \<Rightarrow> 'a sysstate_scheme option" where
  "store_bytes v bs s = map_option (\<lambda>m. s\<lparr>mm := m\<rparr>) (memcpy_to v bs (mm s))"

text \<open>
  A packet in a receive buffer, handed to the network stack, which may answer in place: the stack sees the memory behind
  the pointer, and what it changed in the first 2048 bytes, the size of a buffer, is stored.
\<close>

definition packet_mem :: "vmm \<Rightarrow> u32 \<Rightarrow> mem" where
  "packet_mem m v = (\<lambda>i. case load8 m (v + of_nat i) of Some b \<Rightarrow> b | None \<Rightarrow> 0)"

definition store_changes :: "u32 \<Rightarrow> mem \<Rightarrow> mem \<Rightarrow> vmm \<Rightarrow> vmm" where
  "store_changes v old new m =
     for_range 0 2048 (\<lambda>i m. if new i = old i then m else case store8 (v + of_nat i) (new i) m of Some m' \<Rightarrow> m' | None \<Rightarrow> m) m"

definition deliver :: "u32 \<Rightarrow> int \<Rightarrow> 'a sysstate_scheme \<Rightarrow> 'a sysstate_scheme option" where
  "deliver v len s =
     (let pk = packet_mem (mm s) v
      in map_option (\<lambda>(pk', s1). s1\<lparr>mm := store_changes v pk pk' (mm s1)\<rparr>) (net_handle_packet pk len s))"

section \<open>RTL8139\<close>

definition RTL8139_TSD0 :: u32 where "RTL8139_TSD0 = 0x10"
definition RTL8139_TSAD0 :: u32 where "RTL8139_TSAD0 = 0x20"
definition RTL8139_RBSTART :: u32 where "RTL8139_RBSTART = 0x30"
definition RTL8139_CR :: u32 where "RTL8139_CR = 0x37"
definition RTL8139_CAPR :: u32 where "RTL8139_CAPR = 0x38"
definition RTL8139_IMR :: u32 where "RTL8139_IMR = 0x3C"
definition RTL8139_ISR :: u32 where "RTL8139_ISR = 0x3E"
definition RTL8139_RCR :: u32 where "RTL8139_RCR = 0x44"
definition RTL8139_CONFIG1 :: u32 where "RTL8139_CONFIG1 = 0x52"

lemmas rtl_regs = RTL8139_TSD0_def RTL8139_TSAD0_def RTL8139_RBSTART_def RTL8139_CR_def RTL8139_CAPR_def RTL8139_IMR_def
  RTL8139_ISR_def RTL8139_RCR_def RTL8139_CONFIG1_def

definition rx_buffer_virt :: u32 where "rx_buffer_virt = 0xD0000000"
definition tx_buffer_virt :: u32 where "tx_buffer_virt = 0xD0004000"

definition rtl_port :: "u32 \<Rightarrow> 'a hwstate_scheme \<Rightarrow> u16" where
  "rtl_port reg s = ucast (rtl_io_base s + reg)"

text \<open>The place of the next packet: behind the header of 4 bytes and the packet, at a multiple of 4, in a ring of 8192 bytes.\<close>

definition next_rx_ptr :: "u32 \<Rightarrow> u16 \<Rightarrow> u32" where
  "next_rx_ptr ptr packet_length =
     (let p = (ptr + ucast packet_length + 4 + 3) AND NOT 3 in if p > 8192 then p - 8192 else p)"

definition rtl8139_receive :: "'a hwstate_scheme \<Rightarrow> 'a hwstate_scheme option" where
  "rtl8139_receive s = do {
     packet_length \<leftarrow> load16 (mm s) (rx_buffer_virt + current_rx_ptr s + 2);
     s1 \<leftarrow> deliver (rx_buffer_virt + current_rx_ptr s + 4) (uint packet_length - 4) s;
     let s2 = s1\<lparr>current_rx_ptr := next_rx_ptr (current_rx_ptr s1) packet_length\<rparr>;
     Some (on_con (outw (rtl_port RTL8139_CAPR s2) (ucast (current_rx_ptr s2 - 16))) s2)
   }"

definition rtl8139_handler :: "'a hwstate_scheme \<Rightarrow> 'a hwstate_scheme option" where
  "rtl8139_handler s = do {
     let (status, s1) = read_con (inw (rtl_port RTL8139_ISR s)) s;
     let s2 = on_con (outw (rtl_port RTL8139_ISR s) status) s1;
     s3 \<leftarrow> (if status AND 0x01 \<noteq> 0 then rtl8139_receive s2 else Some s2);
     Some (if status AND 0x20 \<noteq> 0 then say (lit ''[RTL8139] Link durumu degisti.'' @ [10]) s3 else s3)
   }"

text \<open>\<open>while ((inb(base + CR) & 0x10) != 0)\<close>: the card that never leaves reset is the value None.\<close>

partial_function (option) rtl_wait_reset :: "u16 \<Rightarrow> console \<Rightarrow> console option" where
  "rtl_wait_reset port c = (let (v, c1) = inb port c in if v AND 0x10 \<noteq> 0 then rtl_wait_reset port c1 else Some c1)"

fun read_mac_ports :: "nat \<Rightarrow> u16 \<Rightarrow> console \<Rightarrow> u8 list \<times> console" where
  "read_mac_ports 0 port c = ([], c)"
| "read_mac_ports (Suc n) port c = (let (v, c1) = inb port c; (vs, c2) = read_mac_ports n (port + 1) c1 in (v # vs, c2))"

definition unmask_irq :: "u8 \<Rightarrow> 'a sysstate_scheme \<Rightarrow> 'a sysstate_scheme" where
  "unmask_irq irq s =
     s\<lparr>drv := (if irq < 8 then pic_unmask 0x21 (unat irq) (drv s) else pic_unmask 0xA1 (unat (irq - 8)) (drv s))\<rparr>"

definition init_rtl8139 :: "u32 \<Rightarrow> u8 \<Rightarrow> 'a hwstate_scheme \<Rightarrow> 'a hwstate_scheme option" where
  "init_rtl8139 base_addr irq s = do {
     let s1 = s\<lparr>rtl_io_base := base_addr\<rparr>;
     let s2 = say [10] (say_int (uint irq) (say (lit '' IRQ: '')
       (say_hex base_addr (say ([10] @ lit ''[RTL8139] Kurulum basliyor. I/O Base: 0x'') s1))));
     let s3 = on_con (outb (rtl_port RTL8139_CR s2) 0x10) (on_con (outb (rtl_port RTL8139_CONFIG1 s2) 0x00) s2);
     c \<leftarrow> rtl_wait_reset (rtl_port RTL8139_CR s3) (con s3);
     let (rx, s4) = take_frames 3 (s3\<lparr>con := c\<rparr>);
     let s5 = map_memory rx rx_buffer_virt (3 * 4096) (s4\<lparr>rx_buffer_phys := rx\<rparr>);
     let (tx, s6) = take_frames 2 s5;
     let s7 = map_memory tx tx_buffer_virt (2 * 4096) (s6\<lparr>tx_buffer_phys := tx\<rparr>);
     let s8 = on_con (outl (rtl_port RTL8139_RBSTART s7) rx) s7;
     let s9 = on_con (outw (rtl_port RTL8139_IMR s8) 0x0005) s8;
     let s10 = on_con (outl (rtl_port RTL8139_RCR s9) (0xF OR push_bit 7 1)) s9;
     let s11 = on_con (outb (rtl_port RTL8139_CR s10) 0x0C) s10;
     let (mac, s12) = read_con (read_mac_ports 6 (rtl_port 0 s11)) s11;
     let s13 = say_mac mac (say (lit ''[RTL8139] MAC Adresi: '') (s12\<lparr>mac_address := mac\<rparr>));
     let s14 = net_register_driver True (init_net mac s13);
     let s15 = s14\<lparr>drv := irq_install_handler (unat irq) Rtl8139_handler (drv s14)\<rparr>;
     Some (say (lit ''[OK] RTL8139 Basariyla yuklendi!'' @ [10]) (unmask_irq irq s15))
   }"

definition rtl8139_send_packet :: "u8 list \<Rightarrow> 'a hwstate_scheme \<Rightarrow> 'a hwstate_scheme option" where
  "rtl8139_send_packet data s =
     (if length data > 1792 then Some s
      else do {
        s1 \<leftarrow> store_bytes (tx_buffer_virt + of_nat (rtl_tx_cur s) * 2048) data s;
        let n = (of_nat (rtl_tx_cur s) :: u32);
        let s2 = on_con (outl (rtl_port (RTL8139_TSAD0 + n * 4) s1) (tx_buffer_phys s1 + n * 2048)) s1;
        let s3 = on_con (outl (rtl_port (RTL8139_TSD0 + n * 4) s2) (of_nat (length data))) s2;
        Some (s3\<lparr>rtl_tx_cur := (rtl_tx_cur s3 + 1) mod 4\<rparr>)
      })"

section \<open>E1000\<close>

definition E1000_CTRL :: u16 where "E1000_CTRL = 0x0000"
definition E1000_ICR :: u16 where "E1000_ICR = 0x00C0"
definition E1000_IMS :: u16 where "E1000_IMS = 0x00D0"
definition E1000_RCTL :: u16 where "E1000_RCTL = 0x0100"
definition E1000_TCTL :: u16 where "E1000_TCTL = 0x0400"
definition E1000_RDBAL :: u16 where "E1000_RDBAL = 0x2800"
definition E1000_RDBAH :: u16 where "E1000_RDBAH = 0x2804"
definition E1000_RDLEN :: u16 where "E1000_RDLEN = 0x2808"
definition E1000_RDH :: u16 where "E1000_RDH = 0x2810"
definition E1000_RDT :: u16 where "E1000_RDT = 0x2818"
definition E1000_TDBAL :: u16 where "E1000_TDBAL = 0x3800"
definition E1000_TDBAH :: u16 where "E1000_TDBAH = 0x3804"
definition E1000_TDLEN :: u16 where "E1000_TDLEN = 0x3808"
definition E1000_TDH :: u16 where "E1000_TDH = 0x3810"
definition E1000_TDT :: u16 where "E1000_TDT = 0x3818"
definition E1000_RAL :: u16 where "E1000_RAL = 0x5400"
definition E1000_RAH :: u16 where "E1000_RAH = 0x5404"

definition E1000_NUM_RX_DESC :: nat where "E1000_NUM_RX_DESC = 128"
definition E1000_NUM_TX_DESC :: nat where "E1000_NUM_TX_DESC = 128"

definition mmio_base_virt :: u32 where "mmio_base_virt = 0xD0010000"

definition e1000_write :: "u16 \<Rightarrow> u32 \<Rightarrow> 'a hwstate_scheme \<Rightarrow> 'a hwstate_scheme" where
  "e1000_write address v s = s\<lparr>e1000_regs := outl address v (e1000_regs s)\<rparr>"

definition e1000_read :: "u16 \<Rightarrow> 'a hwstate_scheme \<Rightarrow> u32 \<times> 'a hwstate_scheme" where
  "e1000_read address s = (let (v, r) = inl address (e1000_regs s) in (v, s\<lparr>e1000_regs := r\<rparr>))"

text \<open>
  The descriptors, 16 bytes each: address (8 bytes), length (2), then for a received packet
  checksum (2), status, errors and special (2), for a packet to send cso, cmd, status, css and special (2).
\<close>

definition rx_desc :: "'a hwstate_scheme \<Rightarrow> u16 \<Rightarrow> u32" where
  "rx_desc s i = rx_descs s + ucast i * 16"

definition tx_desc :: "'a hwstate_scheme \<Rightarrow> u16 \<Rightarrow> u32" where
  "tx_desc s i = tx_descs s + ucast i * 16"

definition addr_bytes :: "u32 \<Rightarrow> u8 list" where
  "addr_bytes a = bytes32 a @ replicate 4 0"

definition e1000_take_packet :: "'a hwstate_scheme \<Rightarrow> 'a hwstate_scheme option" where
  "e1000_take_packet s = do {
     len \<leftarrow> load16 (mm s) (rx_desc s (rx_cur s) + 8);
     s1 \<leftarrow> deliver (rx_buffers s + ucast (rx_cur s) * 2048) (uint len) s;
     s2 \<leftarrow> store_bytes (rx_desc s1 (rx_cur s1) + 12) [0] s1;
     let old_cur = rx_cur s2;
     let s3 = s2\<lparr>rx_cur := (rx_cur s2 + 1) mod of_nat E1000_NUM_RX_DESC\<rparr>;
     Some (e1000_write E1000_RDT (ucast old_cur) s3)
   }"

partial_function (option) e1000_receive :: "'a hwstate_scheme \<Rightarrow> 'a hwstate_scheme option" where
  "e1000_receive s = do {
     status \<leftarrow> load8 (mm s) (rx_desc s (rx_cur s) + 12);
     if status AND 0x01 \<noteq> 0 then do { s1 \<leftarrow> e1000_take_packet s; e1000_receive s1 } else Some s
   }"

definition e1000_handler :: "'a hwstate_scheme \<Rightarrow> 'a hwstate_scheme option" where
  "e1000_handler s = (let (status, s1) = e1000_read E1000_ICR s in if status AND 0x80 \<noteq> 0 then e1000_receive s1 else Some s1)"

definition e1000_read_mac :: "'a hwstate_scheme \<Rightarrow> 'a hwstate_scheme" where
  "e1000_read_mac s =
     (let (low, s1) = e1000_read E1000_RAL s; (high, s2) = e1000_read E1000_RAH s1
      in s2\<lparr>e1000_mac := [ucast (low AND 0xFF), ucast (drop_bit 8 low AND 0xFF), ucast (drop_bit 16 low AND 0xFF),
           ucast (drop_bit 24 low AND 0xFF), ucast (high AND 0xFF), ucast (drop_bit 8 high AND 0xFF)]\<rparr>)"

definition e1000_tx_setup :: "'a hwstate_scheme \<Rightarrow> 'a hwstate_scheme" where
  "e1000_tx_setup s =
     (if tx_buffers s = 0 then
        let (phys, s1) = take_frames 64 s
        in map_memory phys 0xD0060000 (128 * 1024) (s1\<lparr>tx_buffers_phys := phys, tx_buffers := 0xD0060000\<rparr>)
      else s)"

text \<open>\<open>while (!(tx_descs[old_cur].status & 0x01));\<close> with what the card does meanwhile.\<close>

partial_function (option) e1000_wait_sent ::
    "(nat \<Rightarrow> 'a hwstate_scheme \<Rightarrow> 'a hwstate_scheme) \<Rightarrow> nat \<Rightarrow> u32 \<Rightarrow> 'a hwstate_scheme \<Rightarrow> 'a hwstate_scheme option" where
  "e1000_wait_sent nic k status s = do {
     v \<leftarrow> load8 (mm s) status;
     if v AND 0x01 = 0 then e1000_wait_sent nic (Suc k) status (nic k s) else Some s
   }"

definition e1000_queue_packet :: "u8 list \<Rightarrow> 'a hwstate_scheme \<Rightarrow> 'a hwstate_scheme option" where
  "e1000_queue_packet data s0 = do {
     let s = e1000_tx_setup s0;
     let cur = (ucast (tx_cur s) :: u32);
     s1 \<leftarrow> store_bytes (tx_buffers s + cur * 2048) data s;
     s2 \<leftarrow> store_bytes (tx_desc s1 (tx_cur s1)) (addr_bytes (tx_buffers_phys s1 + cur * 2048)) s1;
     s3 \<leftarrow> store_bytes (tx_desc s2 (tx_cur s2) + 8) (bytes16 (of_nat (length data))) s2;
     s4 \<leftarrow> store_bytes (tx_desc s3 (tx_cur s3) + 11) [push_bit 0 1 OR push_bit 1 1] s3;
     s5 \<leftarrow> store_bytes (tx_desc s4 (tx_cur s4) + 12) [0] s4;
     let s6 = s5\<lparr>tx_cur := (tx_cur s5 + 1) mod of_nat E1000_NUM_TX_DESC\<rparr>;
     Some (e1000_write E1000_TDT (ucast (tx_cur s6)) s6)
   }"

definition e1000_send_packet ::
    "(nat \<Rightarrow> 'a hwstate_scheme \<Rightarrow> 'a hwstate_scheme) \<Rightarrow> u8 list \<Rightarrow> 'a hwstate_scheme \<Rightarrow> 'a hwstate_scheme option" where
  "e1000_send_packet nic data s = do {
     s1 \<leftarrow> e1000_queue_packet data s;
     e1000_wait_sent nic 0 (tx_desc s1 (tx_cur s) + 12) s1
   }"

fun store_each :: "(nat \<Rightarrow> 'a sysstate_scheme \<Rightarrow> 'a sysstate_scheme option) \<Rightarrow> nat list \<Rightarrow> 'a sysstate_scheme \<Rightarrow> 'a sysstate_scheme option" where
  "store_each f [] s = Some s"
| "store_each f (i # is) s = do { s1 \<leftarrow> f i s; store_each f is s1 }"

definition init_rx_ring :: "'a hwstate_scheme \<Rightarrow> 'a hwstate_scheme option" where
  "init_rx_ring s = do {
     let (dp, s1) = take_frames 1 s;
     let s2 = map_memory dp 0xD0020000 4096 (s1\<lparr>rx_descs_phys := dp, rx_descs := 0xD0020000\<rparr>);
     let (bp, s3) = take_frames (int (E1000_NUM_RX_DESC * 2048 div 4096)) s2;
     let s4 = map_memory bp 0xD0030000 (of_nat (E1000_NUM_RX_DESC * 2048)) (s3\<lparr>rx_buffers_phys := bp, rx_buffers := 0xD0030000\<rparr>);
     s5 \<leftarrow> store_each (\<lambda>i t. do {
         t1 \<leftarrow> store_bytes (0xD0020000 + of_nat i * 16) (addr_bytes (bp + of_nat i * 2048)) t;
         store_bytes (0xD0020000 + of_nat i * 16 + 12) [0] t1 }) [0..<E1000_NUM_RX_DESC] s4;
     Some (e1000_write E1000_RCTL (push_bit 1 1 OR push_bit 2 1 OR push_bit 15 1 OR push_bit 26 1)
       (e1000_write E1000_RDT (of_nat (E1000_NUM_RX_DESC - 1)) (e1000_write E1000_RDH 0
       (e1000_write E1000_RDLEN (of_nat (E1000_NUM_RX_DESC * 16)) (e1000_write E1000_RDBAH 0 (e1000_write E1000_RDBAL dp s5))))))
   }"

definition init_tx_ring :: "'a hwstate_scheme \<Rightarrow> 'a hwstate_scheme option" where
  "init_tx_ring s = do {
     let (dp, s1) = take_frames 1 s;
     let s2 = map_memory dp 0xD0040000 4096 (s1\<lparr>tx_descs_phys := dp, tx_descs := 0xD0040000\<rparr>);
     s3 \<leftarrow> store_each (\<lambda>i. store_bytes (0xD0040000 + of_nat i * 16 + 12) [0x01]) [0..<E1000_NUM_TX_DESC] s2;
     Some (e1000_write E1000_TCTL (push_bit 1 1 OR push_bit 3 1)
       (e1000_write E1000_TDT 0 (e1000_write E1000_TDH 0
       (e1000_write E1000_TDLEN (of_nat (E1000_NUM_TX_DESC * 16)) (e1000_write E1000_TDBAH 0 (e1000_write E1000_TDBAL dp s3))))))
   }"

definition init_e1000 :: "u32 \<Rightarrow> u8 \<Rightarrow> 'a hwstate_scheme \<Rightarrow> 'a hwstate_scheme option" where
  "init_e1000 phys_addr irq s = do {
     let s1 = say [10] (say_int (uint irq) (say (lit '' IRQ: '') (say_hex phys_addr (say (lit ''[E1000] Kurulum basliyor. MMIO: 0x'') s))));
     let s2 = map_memory phys_addr mmio_base_virt (128 * 1024) s1;
     let (ctrl, s3) = e1000_read E1000_CTRL (e1000_write E1000_CTRL (push_bit 26 1) s2);
     let s4 = e1000_read_mac (e1000_write E1000_CTRL (ctrl OR (push_bit 6 1 OR push_bit 5 1)) s3);
     let s5 = say_mac (e1000_mac s4) (say (lit ''[E1000] MAC Adresi: '') s4);
     s6 \<leftarrow> init_rx_ring s5;
     s7 \<leftarrow> init_tx_ring s6;
     let s8 = s7\<lparr>drv := irq_install_handler (unat irq) E1000_handler (drv s7)\<rparr>;
     let (_, s9) = e1000_read E1000_ICR (e1000_write E1000_IMS 0x1F6DC s8);
     let s10 = net_register_driver True (init_net (e1000_mac s9) s9);
     Some (say (lit ''[OK] Intel E1000 Basariyla yuklendi!'' @ [10]) s10)
   }"

section \<open>AC97\<close>

definition AC97_RESET :: u16 where "AC97_RESET = 0x00"
definition AC97_MASTER_VOLUME :: u16 where "AC97_MASTER_VOLUME = 0x02"
definition AC97_PCM_OUT_VOLUME :: u16 where "AC97_PCM_OUT_VOLUME = 0x18"
definition AC97_PO_BDBAR :: u16 where "AC97_PO_BDBAR = 0x10"
definition AC97_PO_LVI :: u16 where "AC97_PO_LVI = 0x15"
definition AC97_PO_CR :: u16 where "AC97_PO_CR = 0x1B"

definition ac97_mixer_outw :: "u16 \<Rightarrow> u16 \<Rightarrow> 'a hwstate_scheme \<Rightarrow> 'a hwstate_scheme" where
  "ac97_mixer_outw reg v s = on_con (outw (ucast (ac97_nambar s + ucast reg)) v) s"

definition ac97_mixer_inw :: "u16 \<Rightarrow> 'a hwstate_scheme \<Rightarrow> u16 \<times> 'a hwstate_scheme" where
  "ac97_mixer_inw reg s = read_con (inw (ucast (ac97_nambar s + ucast reg))) s"

definition ac97_bm_outb :: "u16 \<Rightarrow> u8 \<Rightarrow> 'a hwstate_scheme \<Rightarrow> 'a hwstate_scheme" where
  "ac97_bm_outb reg v s = on_con (outb (ucast (ac97_nabmbar s + ucast reg)) v) s"

definition ac97_bm_outw :: "u16 \<Rightarrow> u16 \<Rightarrow> 'a hwstate_scheme \<Rightarrow> 'a hwstate_scheme" where
  "ac97_bm_outw reg v s = on_con (outw (ucast (ac97_nabmbar s + ucast reg)) v) s"

definition ac97_bm_outl :: "u16 \<Rightarrow> u32 \<Rightarrow> 'a hwstate_scheme \<Rightarrow> 'a hwstate_scheme" where
  "ac97_bm_outl reg v s = on_con (outl (ucast (ac97_nabmbar s + ucast reg)) v) s"

definition ac97_bm_inb :: "u16 \<Rightarrow> 'a hwstate_scheme \<Rightarrow> u8 \<times> 'a hwstate_scheme" where
  "ac97_bm_inb reg s = read_con (inb (ucast (ac97_nabmbar s + ucast reg))) s"

text \<open>\<open>alloc_frame() * 4096\<close>, used as a pointer.\<close>

definition frame_pointer :: "'a sysstate_scheme \<Rightarrow> u32 \<times> 'a sysstate_scheme" where
  "frame_pointer s = (let (f, q) = alloc_frame (frames (mm s)) in (f * 4096, s\<lparr>mm := mm s\<lparr>frames := q\<rparr>\<rparr>))"

definition init_ac97 :: "u32 \<Rightarrow> u32 \<Rightarrow> u8 \<Rightarrow> 'a hwstate_scheme \<Rightarrow> 'a hwstate_scheme option" where
  "init_ac97 nambar nabmbar irq s = do {
     let s1 = say [10] (say_hex nabmbar (say (lit '' NABMBAR: '') (say_hex nambar (say (lit ''[AC97] Baslatiliyor... NAMBAR: '') s))));
     let s2 = s1\<lparr>ac97_nambar := nambar, ac97_nabmbar := nabmbar\<rparr>;
     let s3 = ac97_mixer_outw AC97_PCM_OUT_VOLUME 0x0000 (ac97_mixer_outw AC97_MASTER_VOLUME 0x0000 (ac97_mixer_outw AC97_RESET 1 s2));
     let (p, s4) = frame_pointer s3;
     s5 \<leftarrow> store_each (\<lambda>i. store_bytes (p + of_nat i * 8) (replicate 8 0)) [0..<32] (s4\<lparr>bdl := p\<rparr>);
     Some (say (lit ''[AC97] Hazir!'' @ [10]) (ac97_bm_outl AC97_PO_BDBAR p (ac97_bm_outb AC97_PO_CR 0x02 s5)))
   }"

definition ac97_play :: "u32 \<Rightarrow> u32 \<Rightarrow> 'a hwstate_scheme \<Rightarrow> 'a hwstate_scheme option" where
  "ac97_play pcm_data len s =
     (if ac97_nabmbar s = 0 then Some s
      else do {
        let num_samples = (ucast (len div 2) :: u16);
        s1 \<leftarrow> store_bytes (bdl s) (bytes32 pcm_data @ bytes16 num_samples @ bytes16 0x8000) s;
        Some (ac97_bm_outb AC97_PO_CR 0x01 (ac97_bm_outb AC97_PO_LVI 0 s1))
      })"
end
