(* ===== verification/Nic_Rings.thy ===== *)
theory Nic_Rings
  imports Nic
begin

text \<open>
  The rings of the network cards: where the RTL8139 driver looks for the next packet, that
  sending on the E1000 waits for a report that is never asked for, and that the windows the E1000 driver
  maps overlap.
\<close>

section \<open>The receive ring of the RTL8139\<close>

text \<open>The space a packet takes in the ring: header and packet, rounded up to a multiple of 4.\<close>

definition ring_space :: "u16 \<Rightarrow> nat" where
  "ring_space len = (unat len + 4 + 3) div 4 * 4"

lemma and_not_3: "unat (x AND NOT 3 :: u32) = unat x div 4 * 4"
proof -
  have m: "(3 :: u32) = mask 2" by (simp add: mask_eq_exp_minus_1)
  have "x AND NOT 3 = push_bit 2 (drop_bit 2 x)" unfolding m
  proof (rule bit_word_eqI)
    fix n
    have "2 \<le> n \<Longrightarrow> Suc (Suc (n - 2)) = n" by simp
    then show "bit (x AND NOT (mask 2)) n \<longleftrightarrow> bit (push_bit 2 (drop_bit 2 x)) n" if "n < LENGTH(32)" using that by (auto simp: bit_simps)
  qed
  moreover have "unat (drop_bit 2 x) = unat x div 4" by (simp add: drop_bit_eq_div unat_div)
  moreover have "unat x div 4 * 4 < 4294967296" using unat_lt_u32 [of x] by linarith
  ultimately show ?thesis by (simp add: push_bit_eq_mult unat_word_ariths mult.commute)
qed

lemma next_rx_ptr_eq:
  assumes "ptr \<le> 8192" and "4 dvd unat ptr" and "len \<le> 8180"
  shows "unat (next_rx_ptr ptr len) = (let e = unat ptr + ring_space len in if e > 8192 then e - 8192 else e)"
proof -
  have p: "unat ptr \<le> 8192" "unat len \<le> 8180" using assms by (simp_all add: word_le_nat_alt)
  have "unat (ptr + ucast len + 4 + 3) = unat ptr + unat len + 7"
    using p by (simp add: unat_word_ariths unsigned_ucast_eq take_bit_nat_eq_self)
  then have e: "unat ((ptr + ucast len + 4 + 3) AND NOT 3) = unat ptr + ring_space len"
    using assms(2) unfolding and_not_3 ring_space_def by (elim dvdE) presburger
  then show ?thesis using p by (simp add: next_rx_ptr_def Let_def word_less_nat_alt unat_minus_u32 word_le_nat_alt)
qed

text \<open>The place of the packet that follows packets of the given lengths.\<close>

lemma ring_position:
  assumes "\<forall>len \<in> set lens. len \<le> 8180"
  shows "unat (fold (\<lambda>len p. next_rx_ptr p len) lens 0) \<le> 8192 \<and> 4 dvd unat (fold (\<lambda>len p. next_rx_ptr p len) lens 0) \<and>
    (lens \<noteq> [] \<longrightarrow> 0 < unat (fold (\<lambda>len p. next_rx_ptr p len) lens 0)) \<and>
    unat (fold (\<lambda>len p. next_rx_ptr p len) lens 0) mod 8192 = sum_list (map ring_space lens) mod 8192"
  using assms
proof (induction lens rule: rev_induct)
  case (snoc len lens)
  let ?p = "fold (\<lambda>len p. next_rx_ptr p len) lens 0"
  have IH: "unat ?p \<le> 8192" "4 dvd unat ?p" "unat ?p mod 8192 = sum_list (map ring_space lens) mod 8192" using snoc by auto
  have len: "unat len \<le> 8180" using snoc.prems by (simp add: word_le_nat_alt)
  define e where "e = unat ?p + ring_space len"
  have sp: "0 < ring_space len" "ring_space len \<le> 8192" "4 dvd ring_space len" using len by (auto simp: ring_space_def)
  have n: "unat (next_rx_ptr ?p len) = (if e > 8192 then e - 8192 else e)"
    using next_rx_ptr_eq [of ?p len] IH snoc.prems by (simp add: e_def word_le_nat_alt)
  have "e mod 8192 = (sum_list (map ring_space lens) + ring_space len) mod 8192"
    unfolding e_def using IH(3) by (metis mod_add_left_eq)
  moreover have "(e - 8192) mod 8192 = e mod 8192" if "e > 8192" using that by (metis le_mod_geq less_imp_le)
  ultimately show ?case using n sp IH(1,2) by (auto simp: e_def)
qed simp

text \<open>
  After packets of any lengths the driver's read pointer of the RTL8139 is the card's write
  position, the sum of the space of the packets modulo the 8192 bytes of the ring, with one
  exception: where packets fill the ring exactly, the card goes on at 0 and the driver at 8192.
\<close>

theorem rtl_ring_pointer:
  assumes "\<forall>len \<in> set lens. len \<le> 8180"
  shows "unat (fold (\<lambda>len p. next_rx_ptr p len) lens 0) =
    (let pos = sum_list (map ring_space lens) mod 8192 in if pos = 0 \<and> lens \<noteq> [] then 8192 else pos)"
proof (cases "unat (fold (\<lambda>len p. next_rx_ptr p len) lens 0) = 8192")
  case True
  then show ?thesis using ring_position [OF assms] by auto
next
  case False
  then show ?thesis using ring_position [OF assms] by (auto simp: Let_def)
qed

theorem rtl_ring_pointer_witness: "unat (fold (\<lambda>len p. next_rx_ptr p len) (replicate 8 1020) 0) = 8192"
  using rtl_ring_pointer [of "replicate 8 1020"] by (simp add: ring_space_def sum_list_replicate)

section \<open>Sending on the E1000\<close>

text \<open>
  Memory that is no page table: what is stored there is found there, and no translation changes.
\<close>

definition data_page :: "vmm \<Rightarrow> u32 \<Rightarrow> bool" where
  "data_page m v \<longleftrightarrow> (\<exists>f r. page_entry m (drop_bit 12 v) = Some (f, r) \<and> unat f \<notin> table_frames m)"

definition same_map :: "vmm \<Rightarrow> vmm \<Rightarrow> bool" where
  "same_map m m' \<longleftrightarrow> (\<forall>v. page_entry m' (drop_bit 12 v) = page_entry m (drop_bit 12 v)) \<and> table_frames m' = table_frames m \<and>
     frames m' = frames m \<and> (vm_inv m \<longrightarrow> vm_inv m')"

lemma same_map_refl: "same_map m m"
  by (simp add: same_map_def)

lemma same_map_trans: "same_map m m' \<Longrightarrow> same_map m' m'' \<Longrightarrow> same_map m m''"
  by (simp add: same_map_def)

lemma data_page_same: "same_map m m' \<Longrightarrow> data_page m' v \<longleftrightarrow> data_page m v"
  by (simp add: same_map_def data_page_def)

lemma store8_data:
  assumes inv: "vm_inv m" and d: "data_page m v" and s: "store8 v b m = Some m'"
  shows "same_map m m'" and "load8 m' v = Some b"
    and "drop_bit 12 x = drop_bit 12 v \<Longrightarrow> x \<noteq> v \<Longrightarrow> load8 m' x = load8 m x"
proof -
  obtain f r where f: "page_entry m (drop_bit 12 v) = Some (f, r)" using s by (auto simp: store8_def split: option.splits)
  let ?i = "unat (v AND 0xFFF) div 4" and ?k = "unat (v AND 0xFFF) mod 4"
  have m': "m' = m\<lparr>pmem := store (unat f) ?i (put_byte ?k b (pmem m (unat f) ?i)) (pmem m)\<rparr>"
    using s f by (simp add: store8_def Let_def)
  note sd = store_data [OF inv, of "unat f"]
  have nt: "unat f \<notin> table_frames m" using d f by (simp add: data_page_def)
  show sm: "same_map m m'" using sd [OF nt] by (simp add: same_map_def m')
  show "load8 m' v = Some b"
    using f sm by (simp add: load8_def same_map_def Let_def) (simp add: m' store_apply byte_put)
  show "load8 m' x = load8 m x" if "drop_bit 12 x = drop_bit 12 v" "x \<noteq> v"
  proof -
    have "\<not> (unat (x AND 0xFFF) div 4 = ?i \<and> unat (x AND 0xFFF) mod 4 = ?k)"
      using that addr_split [of x v] pos_div [of x v] by blast
    then have "byte_of (unat (x AND 0xFFF) mod 4) (pmem m' (unat f) (unat (x AND 0xFFF) div 4)) =
        byte_of (unat (x AND 0xFFF) mod 4) (pmem m (unat f) (unat (x AND 0xFFF) div 4))"
      by (auto simp: m' store_apply byte_put)
    moreover have "page_entry m (drop_bit 12 x) = Some (f, r)" by (simp only: that(1) f)
    moreover have "page_entry m' (drop_bit 12 x) = page_entry m (drop_bit 12 x)" using sm by (simp add: same_map_def)
    ultimately show ?thesis unfolding load8_def by (simp only: option.case prod.case Let_def)
  qed
qed

lemma store8_some: "data_page m v \<Longrightarrow> \<exists>m'. store8 v b m = Some m'"
  by (auto simp: data_page_def store8_def Let_def)

lemma memcpy_data:
  assumes "vm_inv m" and "\<forall>i < length bs. data_page m (v + of_nat i)"
  shows "\<exists>m'. memcpy_to v bs m = Some m' \<and> same_map m m'"
  using assms
proof (induction bs arbitrary: v m)
  case (Cons b bs)
  have d: "data_page m v" using Cons.prems(2) [rule_format, of 0] by simp
  obtain m1 where m1: "store8 v b m = Some m1" using store8_some [OF d] by blast
  have s: "same_map m m1" by (rule store8_data(1) [OF Cons.prems(1) d m1])
  have "\<forall>i < length bs. data_page m1 (v + 1 + of_nat i)"
  proof (intro allI impI)
    fix i
    assume "i < length bs"
    then have "data_page m (v + of_nat (Suc i))" using Cons.prems(2) [rule_format, of "Suc i"] by simp
    moreover have "v + of_nat (Suc i) = v + 1 + of_nat i" by simp
    ultimately show "data_page m1 (v + 1 + of_nat i)" by (simp only: data_page_same [OF s])
  qed
  then obtain m' where "memcpy_to (v + 1) bs m1 = Some m'" "same_map m1 m'"
    using Cons.IH [of m1 "v + 1"] s Cons.prems(1) by (auto simp: same_map_def)
  then show ?case using m1 same_map_trans [OF s] by auto
qed (simp add: same_map_refl)

text \<open>
  A card that reports a packet as sent only if the descriptor asks for it with bit 3 of its
  command byte (report status), as the data sheet says, and does not touch the command byte.
\<close>

definition reports_on_request :: "(nat \<Rightarrow> 'a hwstate_scheme \<Rightarrow> 'a hwstate_scheme) \<Rightarrow> u32 \<Rightarrow> bool" where
  "reports_on_request nic desc \<longleftrightarrow> (\<forall>k s c st. load8 (mm s) (desc + 11) = Some c \<and> \<not> bit c 3 \<and> load8 (mm s) (desc + 12) = Some st \<longrightarrow>
     load8 (mm (nic k s)) (desc + 11) = Some c \<and> load8 (mm (nic k s)) (desc + 12) = Some st)"

lemma wait_sent_forever:
  assumes "\<And>k t. P t \<Longrightarrow> P (nic k t)" and "\<And>t. P t \<Longrightarrow> load8 (mm t) a = Some 0" and "P s"
  shows "e1000_wait_sent nic k a s = None"
proof -
  have "\<not> (n = nic \<and> b = a \<and> P t)" if "e1000_wait_sent n k b t = Some u" for n k b t u
    using that
  proof (rule e1000_wait_sent.raw_induct [where P = "\<lambda>n k b t u. \<not> (n = nic \<and> b = a \<and> P t)", rotated])
    fix wait n k b and t u :: "'a hwstate_scheme"
    assume 1: "\<And>n k b t u. wait n k b t = Some u \<Longrightarrow> \<not> (n = nic \<and> b = a \<and> P t)"
      and 2: "(load8 (mm t) b \<bind> (\<lambda>v. if v AND 0x01 = 0 then wait n (Suc k) b (n k t) else Some t)) = Some u"
    show "\<not> (n = nic \<and> b = a \<and> P t)"
    proof
      assume e: "n = nic \<and> b = a \<and> P t"
      then have "wait n (Suc k) b (n k t) = Some u" using 2 assms(2) by simp
      then show False using 1 e assms(1) by blast
    qed
  qed
  then show ?thesis using assms(3) by (cases "e1000_wait_sent nic k a s") auto
qed

lemma store_bytes_mm: "store_bytes v bs s = Some s' \<longleftrightarrow> (\<exists>m. memcpy_to v bs (mm s) = Some m \<and> s' = s\<lparr>mm := m\<rparr>)"
  by (auto simp: store_bytes_def)

text \<open>
  C38: The driver never asks the card to report that a packet was sent, but waits for that report: on a
  card that reports on request only, sending a packet does not return, whatever the packet is.
\<close>

theorem e1000_send_hangs:
  assumes "reports_on_request nic (tx_desc s (tx_cur s))" and "vm_inv (mm s)" and "tx_buffers s \<noteq> 0"
    and "\<forall>i < length data. data_page (mm s) (tx_buffers s + ucast (tx_cur s) * 2048 + of_nat i)"
    and "\<forall>i < 16. data_page (mm s) (tx_desc s (tx_cur s) + of_nat i)"
    and "drop_bit 12 (tx_desc s (tx_cur s) + 11) = drop_bit 12 (tx_desc s (tx_cur s) + 12)"
  shows "e1000_queue_packet data s \<noteq> None \<and> e1000_send_packet nic data s = None"
proof -
  let ?d = "tx_desc s (tx_cur s)" and ?c = "ucast (tx_cur s) * 2048 :: u32"
  have su: "e1000_tx_setup s = s" using assms(3) by (simp add: e1000_tx_setup_def)
  have vm: "vm_inv m'" if "same_map (mm s) m'" for m' using that assms(2) by (simp add: same_map_def)
  have dp: "data_page m' (?d + of_nat i)" if "same_map (mm s) m'" "i < 16" for m' i
    using that assms(5) data_page_same by blast
  have copy: "\<exists>m''. memcpy_to (?d + of_nat k) bs m' = Some m'' \<and> same_map (mm s) m''"
    if "same_map (mm s) m'" "k + length bs \<le> 16" for m' k bs
  proof -
    have "\<forall>i < length bs. data_page m' (?d + of_nat k + of_nat i)"
      using dp [OF that(1), of "k + i" for i] that(2) by (auto simp: add.assoc)
    then show ?thesis using memcpy_data [OF vm [OF that(1)]] same_map_trans [OF that(1)] by blast
  qed
  obtain m1 where m1: "memcpy_to (tx_buffers s + ?c) data (mm s) = Some m1" "same_map (mm s) m1"
    using memcpy_data [OF assms(2,4)] by blast
  obtain m2 where m2: "memcpy_to ?d (addr_bytes (tx_buffers_phys s + ?c)) m1 = Some m2" "same_map (mm s) m2"
    using copy [OF m1(2), of 0 "addr_bytes (tx_buffers_phys s + ?c)"] by (auto simp: addr_bytes_def)
  obtain m3 where m3: "memcpy_to (?d + 8) (bytes16 (of_nat (length data))) m2 = Some m3" "same_map (mm s) m3"
    using copy [OF m2(2), of 8 "bytes16 (of_nat (length data))"] by auto
  have d3: "data_page m3 (?d + 11)" using dp [OF m3(2), of 11] by simp
  obtain m4 where m4: "store8 (?d + 11) 3 m3 = Some m4" using store8_some [OF d3] by blast
  have a4: "same_map (mm s) m4" by (rule same_map_trans [OF m3(2) store8_data(1) [OF vm [OF m3(2)] d3 m4]])
  have d4: "data_page m4 (?d + 12)" using dp [OF a4, of 12] by simp
  obtain m5 where m5: "store8 (?d + 12) 0 m4 = Some m5" using store8_some [OF d4] by blast
  obtain s1 where q: "e1000_queue_packet data s = Some s1" and s1: "mm s1 = m5" "tx_descs s1 = tx_descs s"
    using m1(1) m2(1) m3(1) m4 m5
    by (simp add: e1000_queue_packet_def su Let_def store_bytes_def tx_desc_def e1000_write_def)
  have ne: "?d + 11 \<noteq> ?d + 12" by simp
  have b: "load8 (mm s1) (?d + 12) = Some 0" "load8 (mm s1) (?d + 11) = Some 3"
    using store8_data(2) [OF vm [OF a4] d4 m5] store8_data(3) [OF vm [OF a4] d4 m5 assms(6) ne]
      store8_data(2) [OF vm [OF m3(2)] d3 m4] s1(1) by simp_all
  have "\<not> bit (3 :: u8) 3" by (simp add: bit_iff_odd)
  then have "load8 (mm (nic k t)) (?d + 11) = Some 3 \<and> load8 (mm (nic k t)) (?d + 12) = Some 0"
    if "load8 (mm t) (?d + 11) = Some 3 \<and> load8 (mm t) (?d + 12) = Some 0" for k t
    using that assms(1) unfolding reports_on_request_def by blast
  then have "e1000_wait_sent nic 0 (?d + 12) s1 = None"
    using b by (intro wait_sent_forever [where P = "\<lambda>t. load8 (mm t) (?d + 11) = Some 3 \<and> load8 (mm t) (?d + 12) = Some 0"]) auto
  moreover have "tx_desc s1 (tx_cur s) = ?d" using s1(2) by (simp add: tx_desc_def)
  ultimately show ?thesis using q by (simp add: e1000_send_packet_def)
qed

section \<open>The windows of the E1000\<close>

lemma take_frame:
  assumes inv: "vm_inv (mm s)" and room: "avail_frames (frames (mm s)) = free_set (frames (mm s))" "avail_frames (frames (mm s)) \<noteq> {}"
  obtains f q where "take_frames 1 s = (of_nat f * 4096, s\<lparr>mm := mm s\<lparr>frames := q\<rparr>\<rparr>)" "f \<in> avail_frames (frames (mm s))"
    "avail_frames q = avail_frames (frames (mm s)) - {f}" "vm_inv (mm s\<lparr>frames := q\<rparr>)"
proof -
  let ?p = "frames (mm s)"
  have pi: "pmm_inv ?p" using inv by (simp add: vm_inv_def dir_inv_def)
  define f where "f = (LEAST f. {f..<f + nat 1} \<subseteq> free_set ?p)"
  obtain g where "g \<in> free_set ?p" using room by blast
  then have ex: "{g..<g + nat 1} \<subseteq> free_set ?p" by auto
  then have f: "f \<in> free_set ?p" using LeastI [where P = "\<lambda>f. {f..<f + nat 1} \<subseteq> free_set ?p", OF ex] unfolding f_def [symmetric] by simp
  obtain x q where xq: "alloc_contiguous_frames 1 ?p = (x, q)" by fastforce
  have a: "pmm_inv q" "unat x = f * 4096" "free_set q = free_set ?p - {f..<f + nat 1}"
    using alloc_contiguous_first_fit [OF pi, of 1] ex unfolding f_def xq Let_def by (auto split: if_splits)
  have f': "f < 262144" using f room(1) by (auto simp: avail_frames_def)
  have x: "x = of_nat f * 4096" using a(2) f' by (simp add: word_unat_eq_iff unat_word_ariths unat_of_nat_u32)
  have av: "avail_frames q = avail_frames ?p - {f}" using a(3) by (auto simp: avail_frames_def)
  have "vm_inv (mm s\<lparr>frames := q\<rparr>)" using inv a(1) av by (auto simp: vm_inv_def dir_inv_def)
  then show ?thesis using that [of f q] xq x av f room(1) by (simp add: take_frames_def)
qed

lemma map_one_page:
  assumes inv: "vm_inv m" and room: "0 < card (avail_frames (frames m))" and f: "f \<notin> avail_frames (frames m)" "f \<notin> table_frames m"
  shows "vm_inv (paging_map_memory p v 4096 m)" and "page_entry (paging_map_memory p v 4096 m) (drop_bit 12 v) = Some (drop_bit 12 p, True, True)"
    and "f \<notin> table_frames (paging_map_memory p v 4096 m)"
proof -
  have n: "1 = unat ((4096 + PAGE_SIZE - 1) div PAGE_SIZE)" by (simp add: PAGE_SIZE_def)
  have "missing_tables m v 0 1 \<subseteq> {unat (drop_bit 10 (drop_bit 12 v))}" by (auto simp: missing_tables_def)
  then have "card (missing_tables m v 0 1) \<le> 1" using card_mono [of "{unat (drop_bit 10 (drop_bit 12 v))}"] by fastforce
  then have c: "card (missing_tables m v 0 1) \<le> card (avail_frames (frames m))" using room by linarith
  note e = paging_map_entries [OF inv n c, of p v]
  show "vm_inv (paging_map_memory p v 4096 m)" using e by blast
  show "page_entry (paging_map_memory p v 4096 m) (drop_bit 12 v) = Some (drop_bit 12 p, True, True)"
    using e by (simp add: page_index_def)
  have "dir_inv (pmem m) (virt_frame (kernel_directory m)) (frames m)" using inv by (simp add: vm_inv_def)
  from map_page_mem(2) [OF this room, of p v] f show "f \<notin> table_frames (paging_map_memory p v 4096 m)"
    unfolding map_one Let_def by (auto simp: table_frames_def Let_def)
qed

lemma store_each_data:
  assumes "vm_inv (mm s)" and "\<forall>i \<in> set js. \<forall>k < length bs. data_page (mm s) (a i + of_nat k)"
  shows "\<exists>m. store_each (\<lambda>i. store_bytes (a i) bs) js s = Some (s\<lparr>mm := m\<rparr>) \<and> same_map (mm s) m"
  using assms
proof (induction js arbitrary: s)
  case Nil
  have "s = s\<lparr>mm := mm s\<rparr>" by simp
  then show ?case using same_map_refl by (metis store_each.simps(1))
next
  case (Cons i js)
  obtain m1 where m1: "memcpy_to (a i) bs (mm s) = Some m1" "same_map (mm s) m1"
    using memcpy_data [OF Cons.prems(1), of bs "a i"] Cons.prems(2) by auto
  have "vm_inv m1" using m1(2) Cons.prems(1) by (simp add: same_map_def)
  moreover have "\<forall>i \<in> set js. \<forall>k < length bs. data_page m1 (a i + of_nat k)" using Cons.prems(2) data_page_same [OF m1(2)] by simp
  ultimately obtain m where "store_each (\<lambda>i. store_bytes (a i) bs) js (s\<lparr>mm := m1\<rparr>) = Some (s\<lparr>mm := m\<rparr>)" "same_map m1 m"
    using Cons.IH [of "s\<lparr>mm := m1\<rparr>"] by auto
  moreover have "store_bytes (a i) bs s = Some (s\<lparr>mm := m1\<rparr>)" by (simp add: store_bytes_def m1(1))
  ultimately show ?case using same_map_trans [OF m1(2)] by auto
qed

text \<open>
  The receive buffers of the E1000 fill 64 pages from 0xD0030000 on; the transmit ring is mapped at
  0xD0040000, in their midst. Once it is set up, the buffer of descriptor 32 is the transmit
  ring, whose frame was free until then: the processor reads a packet that the card stored for it from the wrong frame.
\<close>

theorem e1000_rings_overlap:
  assumes "vm_inv (mm s)" and "rx_buffers s = 0xD0030000" and "2 \<le> card (avail_frames (frames (mm s)))"
    and "free_set (frames (mm s)) = avail_frames (frames (mm s))"
  shows "\<exists>s' f. init_tx_ring s = Some s' \<and> f \<in> avail_frames (frames (mm s)) \<and> tx_descs_phys s' = of_nat f * 4096 \<and>
    tx_descs s' = 0xD0040000 \<and> rx_buffers s' + 32 * 2048 = tx_descs s' \<and> page_frame (mm s') (drop_bit 12 (rx_buffers s' + 32 * 2048)) = Some (of_nat f)"
proof -
  have ne: "avail_frames (frames (mm s)) \<noteq> {}" using assms(3) by auto
  obtain f q where f: "take_frames 1 s = (of_nat f * 4096, s\<lparr>mm := mm s\<lparr>frames := q\<rparr>\<rparr>)" "f \<in> avail_frames (frames (mm s))"
      "avail_frames q = avail_frames (frames (mm s)) - {f}" "vm_inv (mm s\<lparr>frames := q\<rparr>)"
    by (rule take_frame [OF assms(1) assms(4) [symmetric] ne])
  let ?m = "mm s\<lparr>frames := q\<rparr>"
  have fin: "finite (avail_frames (frames (mm s)))" using assms(3) by (intro card_ge_0_finite) simp
  have room: "0 < card (avail_frames (frames ?m))" using f(2,3) assms(3) fin by simp
  have "dir_inv (pmem (mm s)) (virt_frame (kernel_directory (mm s))) (frames (mm s))" using assms(1) by (simp add: vm_inv_def)
  then have "f \<notin> table_frames (mm s)" using tables_not_avail f(2) by blast
  then have nt: "f \<notin> avail_frames (frames ?m)" "f \<notin> table_frames ?m" using f(3) by (simp_all add: table_frames_def Let_def)
  define m2 where "m2 = paging_map_memory (of_nat f * 4096) 0xD0040000 4096 ?m"
  have f20: "f < 262144" using f(2) by (simp add: avail_frames_def)
  have "(drop_bit 12 (of_nat f * 4096 :: u32)) = of_nat f"
    using f20 by (simp add: word_unat_eq_iff drop_bit_eq_div unat_div unat_word_ariths unat_of_nat_u32)
  then have m2: "vm_inv m2" "page_entry m2 0xD0040 = Some (of_nat f, True, True)" "f \<notin> table_frames m2"
    using map_one_page [OF f(4) room nt, of "of_nat f * 4096" "0xD0040000"] by (simp_all add: m2_def)
  have pg: "drop_bit 12 (0xD0040000 + of_nat x :: u32) = 0xD0040" if "x < 4096" for x
    using that by (simp add: word_unat_eq_iff drop_bit_eq_div unat_div unat_plus_u32 unat_of_nat_u32)
  have dp0: "data_page m2 (0xD0040000 + of_nat x)" if "x < 4096" for x
    using m2(2,3) f20 by (auto simp: data_page_def pg [OF that] unat_of_nat_u32)
  have dp: "data_page m2 (0xD0040000 + of_nat i * 16 + 12)" if "i < 128" for i
  proof -
    have "(0xD0040000 + of_nat (i * 16 + 12) :: u32) = 0xD0040000 + of_nat i * 16 + 12" by simp
    then show ?thesis using dp0 [of "i * 16 + 12"] that by simp
  qed
  define s2 where "s2 = s\<lparr>mm := m2, tx_descs_phys := of_nat f * 4096, tx_descs := 0xD0040000\<rparr>"
  have "\<forall>i \<in> set [0..<128]. \<forall>k < length [1 :: u8]. data_page (mm s2) (0xD0040000 + of_nat i * 16 + 12 + of_nat k)"
    using dp by (simp add: s2_def)
  then obtain m3 where m3: "store_each (\<lambda>i. store_bytes (0xD0040000 + of_nat i * 16 + 12) [1]) [0..<128] s2 = Some (s2\<lparr>mm := m3\<rparr>)" "same_map m2 m3"
    using store_each_data [of s2 "[0..<128]" "[1]" "\<lambda>i. 0xD0040000 + of_nat i * 16 + 12"] m2(1) by (auto simp: s2_def)
  have "map_memory (of_nat f * 4096) 0xD0040000 4096 (s\<lparr>mm := mm s\<lparr>frames := q\<rparr>, tx_descs_phys := of_nat f * 4096, tx_descs := 0xD0040000\<rparr>) = s2"
    by (simp add: map_memory_def s2_def m2_def)
  then obtain s' where s': "init_tx_ring s = Some s'" "mm s' = m3" "tx_descs s' = 0xD0040000" "tx_descs_phys s' = of_nat f * 4096" "rx_buffers s' = 0xD0030000"
    using f(1) m3(1) assms(2) by (simp add: init_tx_ring_def E1000_NUM_TX_DESC_def e1000_write_def s2_def)
  have "page_entry m3 (drop_bit 12 0xD0040000) = page_entry m2 (drop_bit 12 0xD0040000)" using m3(2) unfolding same_map_def by blast
  then have "page_frame (mm s') (drop_bit 12 (rx_buffers s' + 32 * 2048)) = Some (of_nat f)" using s' m2(2) by (simp add: page_frame_def)
  then show ?thesis using s' f(2) by auto
qed

section \<open>Instances\<close>

definition demo_hw :: "vmm \<Rightarrow> u32 \<Rightarrow> u32 \<Rightarrow> u32 \<Rightarrow> hwstate" where
  "demo_hw m rx tx buf = sysstate.extend ((demo_sys (demo_system two_names))\<lparr>mm := m\<rparr>)
     (hwstate.fields 0 0 0 0 0 [] \<lparr>dev = (\<lambda>_ _. 0), reads = (\<lambda>_. 0), outs = []\<rparr> [] 0 tx 0 0 rx 0 0 0 buf 0 0 0 0)"

lemma demo_hw_sel: "mm (demo_hw m rx tx buf) = m" "rx_buffers (demo_hw m rx tx buf) = rx" "tx_descs (demo_hw m rx tx buf) = tx"
  "tx_buffers (demo_hw m rx tx buf) = buf" "tx_cur (demo_hw m rx tx buf) = 0"
  by (simp_all add: demo_hw_def sysstate.defs hwstate.defs)

lemma demo_avail: "avail_frames (frames demo_mm) = {8..<64}" "free_set (frames demo_mm) = {8..<64}"
  by (auto simp: avail_frames_def free_set_def demo_mm_def demo_pmm_test) (auto simp: demo_pmm_def)

theorem e1000_rings_overlap_witness:
  "\<exists>s' f. init_tx_ring (demo_hw demo_mm 0xD0030000 0 0) = Some s' \<and> page_frame (mm s') 0xD0040 = Some (of_nat f) \<and> f \<noteq> 0"
proof -
  have "vm_inv demo_mm" using demo_mm_ok(1) by (simp add: user_inv_def)
  then obtain s' f where "init_tx_ring (demo_hw demo_mm 0xD0030000 0 0) = Some s'" "f \<in> {8..<64}" "rx_buffers s' + 32 * 2048 = tx_descs s'"
      "tx_descs s' = 0xD0040000" "page_frame (mm s') (drop_bit 12 (rx_buffers s' + 32 * 2048)) = Some (of_nat f)"
    using e1000_rings_overlap [of "demo_hw demo_mm 0xD0030000 0 0"] unfolding demo_hw_sel demo_avail by auto
  then show ?thesis by (intro exI [of _ s'] exI [of _ f]) simp
qed

lemma user_data_page: "user_inv m \<Longrightarrow> user_page (drop_bit 12 v) \<Longrightarrow> page_entry m (drop_bit 12 v) \<noteq> None \<Longrightarrow> data_page m v"
  by (auto simp: user_inv_def data_page_def page_frame_def)

theorem e1000_send_hangs_witness:
  "\<exists>m. e1000_queue_packet [1, 2, 3] (demo_hw m 0 0x10000000 0x10000800) \<noteq> None \<and>
     e1000_send_packet (\<lambda>_ s. s) [1, 2, 3] (demo_hw m 0 0x10000000 0x10000800) = None"
proof -
  let ?m = "map_fresh 0x10000000 demo_mm" and ?s = "demo_hw (map_fresh 0x10000000 demo_mm) 0 0x10000000 0x10000800"
  have "10 + 2 \<le> card (avail_frames (frames demo_mm))" "user_page (drop_bit 12 0x10000000)" by (simp_all add: demo_mm_ok user_page_def)
  then obtain f where m: "user_inv ?m" "\<And>x. page_entry ?m (drop_bit 12 x) =
      (if drop_bit 12 x = drop_bit 12 (0x10000000 :: u32) then Some (of_nat f, True, True) else page_entry demo_mm (drop_bit 12 x))"
    using map_fresh_spec [OF demo_mm_ok(1), of 10 "0x10000000"] by metis
  have pg: "drop_bit 12 (0x10000000 + of_nat x :: u32) = 0x10000" if "x < 4096" for x
    using that by (simp add: word_unat_eq_iff drop_bit_eq_div unat_div unat_plus_u32 unat_of_nat_u32)
  have dp: "data_page ?m (0x10000000 + of_nat x)" if "x < 4096" for x
  proof (rule user_data_page [OF m(1)])
    show "user_page (drop_bit 12 (0x10000000 + of_nat x))" by (simp only: pg [OF that]) (simp add: user_page_def)
    show "page_entry ?m (drop_bit 12 (0x10000000 + of_nat x)) \<noteq> None" using m(2) [of "0x10000000 + of_nat x"] pg [OF that] by simp
  qed
  have 1: "\<forall>i < 16. data_page (mm ?s) (tx_desc ?s (tx_cur ?s) + of_nat i)" using dp by (simp add: demo_hw_sel tx_desc_def)
  have 2: "\<forall>i < length [1, 2, 3 :: u8]. data_page (mm ?s) (tx_buffers ?s + ucast (tx_cur ?s) * 2048 + of_nat i)"
    using dp [of "2048 + i" for i] by (simp add: demo_hw_sel add.assoc)
  have "vm_inv (mm ?s)" using m(1) by (simp add: demo_hw_sel user_inv_def)
  from e1000_send_hangs [OF _ this _ 2 1, of "\<lambda>_ s. s"] show ?thesis
    by (auto simp: reports_on_request_def demo_hw_sel tx_desc_def)
qed
end
