(* ===== verification/Pci.thy ===== *)
theory Pci
  imports Nic
begin

text \<open>
  The PCI bus, \<open>kernel/drivers/pci.c\<close>: access to the configuration space through two ports and the
  scan that lists the devices and starts the drivers of the cards it knows.
\<close>

section \<open>Configuration space\<close>

definition PCI_CONFIG_ADDRESS :: u16 where "PCI_CONFIG_ADDRESS = 0xCF8"
definition PCI_CONFIG_DATA :: u16 where "PCI_CONFIG_DATA = 0xCFC"

definition pci_address :: "u8 \<Rightarrow> u8 \<Rightarrow> u8 \<Rightarrow> u8 \<Rightarrow> u32" where
  "pci_address bus dvc func offset =
     push_bit 16 (ucast bus) OR push_bit 11 (ucast dvc) OR push_bit 8 (ucast func) OR ucast (offset AND 0xFC) OR 0x80000000"

definition pci_shift :: "u8 \<Rightarrow> nat" where
  "pci_shift offset = unat (offset AND 2) * 8"

definition pci_config_read_word :: "u8 \<Rightarrow> u8 \<Rightarrow> u8 \<Rightarrow> u8 \<Rightarrow> 'a ports_scheme \<Rightarrow> u16 \<times> 'a ports_scheme" where
  "pci_config_read_word bus dvc func offset s =
     (let (v, s1) = inl PCI_CONFIG_DATA (outl PCI_CONFIG_ADDRESS (pci_address bus dvc func offset) s)
      in (ucast (drop_bit (pci_shift offset) v AND 0xFFFF), s1))"

definition pci_config_read_dword :: "u8 \<Rightarrow> u8 \<Rightarrow> u8 \<Rightarrow> u8 \<Rightarrow> 'a ports_scheme \<Rightarrow> u32 \<times> 'a ports_scheme" where
  "pci_config_read_dword bus dvc func offset s = inl PCI_CONFIG_DATA (outl PCI_CONFIG_ADDRESS (pci_address bus dvc func offset) s)"

definition pci_config_write_word :: "u8 \<Rightarrow> u8 \<Rightarrow> u8 \<Rightarrow> u8 \<Rightarrow> u16 \<Rightarrow> 'a ports_scheme \<Rightarrow> 'a ports_scheme" where
  "pci_config_write_word bus dvc func offset v s =
     (let (old, s1) = inl PCI_CONFIG_DATA (outl PCI_CONFIG_ADDRESS (pci_address bus dvc func offset) s)
      in outl PCI_CONFIG_DATA ((old AND NOT (push_bit (pci_shift offset) 0xFFFF)) OR push_bit (pci_shift offset) (ucast v)) s1)"

definition pci_config_write_dword :: "u8 \<Rightarrow> u8 \<Rightarrow> u8 \<Rightarrow> u8 \<Rightarrow> u32 \<Rightarrow> 'a ports_scheme \<Rightarrow> 'a ports_scheme" where
  "pci_config_write_dword bus dvc func offset v s =
     outl PCI_CONFIG_DATA v (outl PCI_CONFIG_ADDRESS (pci_address bus dvc func offset) s)"

section \<open>Names\<close>

definition pci_class_to_str :: "u8 \<Rightarrow> cstring" where
  "pci_class_to_str class_code =
     (if class_code = 0xFF then lit ''Unassigned Class''
      else if class_code \<le> 0x11 then
        map lit [''Unclassified'', ''Mass Storage Controller'', ''Network Controller'', ''Display Controller'',
          ''Multimedia Controller'', ''Memory Controller'', ''Bridge Device'', ''Simple Communication Controller'',
          ''Base System Peripheral'', ''Input Device Controller'', ''Docking Station'', ''Processor'', ''Serial Bus Controller'',
          ''Wireless Controller'', ''Intelligent Controller'', ''Satellite Communication Controller'',
          ''Encryption Controller'', ''Signal Processing Controller''] ! unat class_code
      else lit ''Unknown'')"

definition pci_subclass_to_str :: "u8 \<Rightarrow> u8 \<Rightarrow> cstring" where
  "pci_subclass_to_str class_code subclass_code =
     (if class_code = 0x01 then
        (if subclass_code = 0x01 then lit ''IDE Interface''
         else if subclass_code = 0x04 then lit ''RAID Bus Controller''
         else if subclass_code = 0x05 then lit ''ATA Controller''
         else if subclass_code = 0x06 then lit ''SATA Controller''
         else if subclass_code = 0x08 then lit ''Non-Volatile Memory Controller (NVMe)''
         else lit ''Storage Device'')
      else if class_code = 0x02 then
        (if subclass_code = 0x00 then lit ''Ethernet Controller''
         else if subclass_code = 0x01 then lit ''Token Ring Controller''
         else lit ''Network Interface'')
      else if class_code = 0x03 then
        (if subclass_code = 0x00 then lit ''VGA Compatible Controller'' else lit ''Video Controller'')
      else if class_code = 0x0C then
        (if subclass_code = 0x03 then lit ''USB Controller''
         else if subclass_code = 0x05 then lit ''SMBus''
         else lit ''Bus Controller'')
      else lit ''Device'')"

section \<open>The scan\<close>

type_synonym pci_fn = "u8 \<times> u8 \<times> u8"

definition pci_word :: "pci_fn \<Rightarrow> u8 \<Rightarrow> 'a sysstate_scheme \<Rightarrow> u16 \<times> 'a sysstate_scheme" where
  "pci_word a offset s = (case a of (bus, dvc, func) \<Rightarrow> read_con (pci_config_read_word bus dvc func offset) s)"

definition pci_dword :: "pci_fn \<Rightarrow> u8 \<Rightarrow> 'a sysstate_scheme \<Rightarrow> u32 \<times> 'a sysstate_scheme" where
  "pci_dword a offset s = (case a of (bus, dvc, func) \<Rightarrow> read_con (pci_config_read_dword bus dvc func offset) s)"

text \<open>The command register with further bits set: bus mastering is bit 2.\<close>

definition pci_enable :: "pci_fn \<Rightarrow> u16 \<Rightarrow> 'a sysstate_scheme \<Rightarrow> 'a sysstate_scheme" where
  "pci_enable a bits s =
     (let (command, s1) = pci_word a 0x04 s
      in case a of (bus, dvc, func) \<Rightarrow> on_con (pci_config_write_word bus dvc func 0x04 (command OR bits)) s1)"

definition pci_list :: "pci_fn \<Rightarrow> u16 \<Rightarrow> u16 \<Rightarrow> u8 \<Rightarrow> u8 \<Rightarrow> 'a sysstate_scheme \<Rightarrow> 'a sysstate_scheme" where
  "pci_list a vendor device class_code subclass_code s =
     (case a of (bus, dvc, func) \<Rightarrow>
        say (lit '')'' @ [10]) (say (pci_subclass_to_str class_code subclass_code) (say (lit '' ('') (say (pci_class_to_str class_code)
        (say (lit ''    '') (say_hex (ucast class_code) (say (lit ''  '') (say_hex (ucast device) (say (lit ''  '') (say_hex (ucast vendor)
        (say (lit ''     '') (say_int (uint func) (say (lit ''    '') (say_int (uint dvc) (say (lit ''    '') (say_int (uint bus) s))))))))))))))))"

definition pci_start :: "pci_fn \<Rightarrow> u16 \<Rightarrow> u16 \<Rightarrow> 'a hwstate_scheme \<Rightarrow> 'a hwstate_scheme option" where
  "pci_start a vendor device s =
     (if vendor = 0x10EC \<and> device = 0x8139 then
        let s1 = pci_enable a (push_bit 2 1) (say ([10] @ lit ''[RTL8139] Cihaz PCI uzerinde bulundu!'' @ [10]) s);
            (bar0, s2) = pci_dword a 0x10 s1;
            (irq, s3) = pci_dword a 0x3C s2
        in init_rtl8139 (bar0 AND NOT 3) (ucast (irq AND 0xFF)) s3
      else if vendor = 0x8086 \<and> (device = 0x100E \<or> device = 0x100F) then
        let s1 = pci_enable a (push_bit 2 1) (say ([10] @ lit ''[Intel E1000] Cihaz PCI uzerinde bulundu!'' @ [10]) s);
            (bar0, s2) = pci_dword a 0x10 s1;
            (irq, s3) = pci_dword a 0x3C s2
        in init_e1000 (bar0 AND NOT 0xF) (ucast (irq AND 0xFF)) s3
      else if vendor = 0x8086 \<and> device = 0x2415 then
        let s1 = pci_enable a (push_bit 2 1 OR push_bit 0 1) (say ([10] @ lit ''[Intel AC97] Cihaz PCI uzerinde bulundu!'' @ [10]) s);
            (nambar, s2) = pci_dword a 0x10 s1;
            (nabmbar, s3) = pci_dword a 0x14 s2;
            (irq, s4) = pci_dword a 0x3C s3
        in init_ac97 (nambar AND NOT 3) (nabmbar AND NOT 3) (ucast (irq AND 0xFF)) s4
      else Some s)"

text \<open>
  One function of a device; the flag of the result tells to go on with the next function. Only
  function 0 is asked whether the device has further ones.
\<close>

definition pci_function :: "pci_fn \<Rightarrow> 'a hwstate_scheme \<Rightarrow> (bool \<times> 'a hwstate_scheme) option" where
  "pci_function a s =
     (let (vendor, s1) = pci_word a 0 s
      in if vendor = 0xFFFF then Some (True, s1)
         else do {
           let (device, s2) = pci_word a 2 s1;
           let (class_sub, s3) = pci_word a 10 s2;
           s4 \<leftarrow> pci_start a vendor device (pci_list a vendor device (ucast (drop_bit 8 class_sub AND 0xFF)) (ucast (class_sub AND 0xFF)) s3);
           (case a of (bus, dvc, func) \<Rightarrow>
              if func = 0 then let (header_type, s5) = pci_word (bus, dvc, 0) 0x0E s4 in Some (header_type AND 0x80 \<noteq> 0, s5)
              else Some (True, s4))
         })"

fun pci_functions :: "u8 \<Rightarrow> u8 \<Rightarrow> nat list \<Rightarrow> 'a hwstate_scheme \<Rightarrow> 'a hwstate_scheme option" where
  "pci_functions bus dvc [] s = Some s"
| "pci_functions bus dvc (f # rest) s = do {
     (more, s1) \<leftarrow> pci_function (bus, dvc, of_nat f) s;
     if more then pci_functions bus dvc rest s1 else Some s1
   }"

fun pci_slots :: "(nat \<times> nat) list \<Rightarrow> 'a hwstate_scheme \<Rightarrow> 'a hwstate_scheme option" where
  "pci_slots [] s = Some s"
| "pci_slots ((bus, dvc) # ds) s = do { s1 \<leftarrow> pci_functions (of_nat bus) (of_nat dvc) [0..<8] s; pci_slots ds s1 }"

definition pci_init :: "'a hwstate_scheme \<Rightarrow> 'a hwstate_scheme option" where
  "pci_init s =
     pci_slots (concat (map (\<lambda>bus. map (\<lambda>dvc. (bus, dvc)) [0..<32]) [0..<32]))
       (say (lit ''---  ---  ----  ------  ------  -----  -----------'' @ [10])
       (say (lit ''BUS  DEV  FUNC  VENDOR  DEVICE  CLASS  DESCRIPTION'' @ [10])
       (say (lit ''[PCI] Donanim taraniyor...'' @ [10]) s)))"

section \<open>Words and addresses\<close>

text \<open>A half of a double word of the configuration space, and the fields of an address.\<close>

definition config_half :: "u8 \<Rightarrow> u32 \<Rightarrow> u16" where
  "config_half offset w = ucast (drop_bit (pci_shift offset) w AND 0xFFFF)"

lemma pci_shift_cases: "pci_shift offset = 0 \<or> pci_shift offset = 16"
proof -
  have "offset AND 2 = (if bit offset 1 then 2 else 0)"
    by (rule bit_word_eqI) (auto simp: bit_simps bit_iff_odd [of 2] numeral_2_eq_2 less_Suc_eq)
  then show ?thesis by (simp add: pci_shift_def)
qed

lemma config_half_eq: "config_half offset w = ucast (drop_bit (pci_shift offset) w)"
proof -
  have m: "(0xFFFF :: u32) = mask 16" by (simp add: mask_eq_exp_minus_1)
  show ?thesis unfolding config_half_def m by (rule bit_word_eqI) (auto simp: bit_simps)
qed

lemma half_of_merge:
  assumes "a = 0 \<or> a = 16" and "b = 0 \<or> b = 16"
  shows "(ucast (drop_bit b ((old AND NOT (push_bit a 0xFFFF)) OR push_bit a (ucast v)) :: u32) :: u16) =
    (if a = b then v else ucast (drop_bit b old))"
proof -
  have m: "(0xFFFF :: u32) = mask 16" by (simp add: mask_eq_exp_minus_1)
  have "\<not> bit v n" if "16 \<le> n" for n using that by (auto dest: bit_imp_le_length)
  then show ?thesis unfolding m using assms by (auto intro!: bit_word_eqI simp: bit_simps)
qed

lemma pci_address_fields:
  assumes "dvc < 32" and "func < 8"
  shows "take_bit 8 (drop_bit 16 (pci_address bus dvc func offset)) = ucast bus"
    and "take_bit 5 (drop_bit 11 (pci_address bus dvc func offset)) = ucast dvc"
    and "take_bit 3 (drop_bit 8 (pci_address bus dvc func offset)) = ucast func"
    and "take_bit 8 (pci_address bus dvc func offset) = ucast (offset AND 0xFC)"
proof -
  have "unat dvc < 32" "unat func < 8" using assms by (simp_all add: word_less_nat_alt)
  then have "take_bit 5 dvc = dvc" "take_bit 3 func = func"
    by (simp_all add: word_unat_eq_iff unsigned_take_bit_eq take_bit_nat_eq_self)
  then have d: "n < 5" if "bit dvc n" for n using that by (metis bit_take_bit_iff)
  have f: "n < 3" if "bit func n" for n using \<open>take_bit 3 func = func\<close> that by (metis bit_take_bit_iff)
  have o: "n < 8" if "bit offset n" for n using that by (auto dest: bit_imp_le_length)
  have b: "n < 8" if "bit bus n" for n using that by (auto dest: bit_imp_le_length)
  have c: "(0x80000000 :: u32) = push_bit 31 1" by simp
  note a = pci_address_def c
  show "take_bit 8 (drop_bit 16 (pci_address bus dvc func offset)) = ucast bus"
    unfolding a by (rule bit_word_eqI) (auto simp: bit_simps dest: d f o b)
  show "take_bit 5 (drop_bit 11 (pci_address bus dvc func offset)) = ucast dvc"
    unfolding a by (rule bit_word_eqI) (auto simp: bit_simps dest: d f o b)
  show "take_bit 3 (drop_bit 8 (pci_address bus dvc func offset)) = ucast func"
    unfolding a by (rule bit_word_eqI) (auto simp: bit_simps dest: d f o b)
  show "take_bit 8 (pci_address bus dvc func offset) = ucast (offset AND 0xFC)"
    unfolding a by (rule bit_word_eqI) (auto simp: bit_simps dest: d f o b)
qed
text \<open>
  Writing a word to the configuration space selects the register of the function by an address
  from which bus, device, function and register are read back, and writes the double word in which exactly
  the addressed half is replaced: a word that is then read at any offset of the register is the new value
  in the half that was written and the old value in the other.
\<close>

theorem pci_config_write_word_correct:
  assumes "dvc < 32" and "func < 8"
  shows "\<exists>addr old new. outs (pci_config_write_word bus dvc func offset v s) = outs s @ [Out32 PCI_CONFIG_ADDRESS addr, Out32 PCI_CONFIG_DATA new] \<and>
    take_bit 8 (drop_bit 16 addr) = ucast bus \<and> take_bit 5 (drop_bit 11 addr) = ucast dvc \<and>
    take_bit 3 (drop_bit 8 addr) = ucast func \<and> take_bit 8 addr = ucast (offset AND 0xFC) \<and>
    old = dev s PCI_CONFIG_DATA (reads s PCI_CONFIG_DATA) \<and>
    (\<forall>(t :: 'b ports_scheme) o'. dev t PCI_CONFIG_DATA (reads t PCI_CONFIG_DATA) = new \<longrightarrow>
       fst (pci_config_read_word bus dvc func o' t) = (if pci_shift o' = pci_shift offset then v else config_half o' old))"
proof -
  define old where "old = dev s PCI_CONFIG_DATA (reads s PCI_CONFIG_DATA)"
  define new where "new = (old AND NOT (push_bit (pci_shift offset) 0xFFFF)) OR push_bit (pci_shift offset) (ucast v :: u32)"
  have o: "outs (pci_config_write_word bus dvc func offset v s) =
      outs s @ [Out32 PCI_CONFIG_ADDRESS (pci_address bus dvc func offset), Out32 PCI_CONFIG_DATA new]"
    by (simp add: pci_config_write_word_def port_defs new_def old_def Let_def)
  have "fst (pci_config_read_word bus dvc func o' t) = config_half o' (dev t PCI_CONFIG_DATA (reads t PCI_CONFIG_DATA))" for o' and t :: "'b ports_scheme"
    by (simp add: pci_config_read_word_def port_defs config_half_def)
  moreover have "config_half o' new = (if pci_shift o' = pci_shift offset then v else config_half o' old)" for o'
    using half_of_merge [OF pci_shift_cases [of offset] pci_shift_cases [of o'], of old v] by (simp add: config_half_eq new_def)
  ultimately show ?thesis using o pci_address_fields [OF assms, of bus offset] old_def by auto
qed

definition demo_ports :: ports where
  "demo_ports = \<lparr>dev = (\<lambda>_ _. 0x02900003), reads = (\<lambda>_. 0), outs = []\<rparr>"

theorem pci_config_write_word_correct_witness:
  "\<exists>addr new. outs (pci_config_write_word 0 3 0 0x04 0x0007 demo_ports) = [Out32 PCI_CONFIG_ADDRESS addr, Out32 PCI_CONFIG_DATA new] \<and>
     take_bit 5 (drop_bit 11 addr) = 3 \<and> fst (pci_config_read_word 0 3 0 0x06 (demo_ports\<lparr>dev := \<lambda>_ _. new\<rparr>)) = 0x0290"
proof -
  have sh: "pci_shift 0x06 = 16" "pci_shift 0x04 = 0" by (simp_all add: pci_shift_def)
  have h: "config_half 0x06 0x02900003 = 0x0290" by (simp add: config_half_eq sh drop_bit_eq_div)
  obtain addr old new where w: "outs (pci_config_write_word 0 3 0 0x04 0x0007 demo_ports) = outs demo_ports @ [Out32 PCI_CONFIG_ADDRESS addr, Out32 PCI_CONFIG_DATA new]"
      "take_bit 5 (drop_bit 11 addr) = (ucast (3 :: u8) :: u32)" "old = dev demo_ports PCI_CONFIG_DATA (reads demo_ports PCI_CONFIG_DATA)"
      "\<forall>t o'. dev t PCI_CONFIG_DATA (reads t PCI_CONFIG_DATA) = new \<longrightarrow>
         fst (pci_config_read_word 0 3 0 o' (t :: ports)) = (if pci_shift o' = pci_shift 0x04 then 0x0007 else config_half o' old)"
    using pci_config_write_word_correct [of 3 0 0 "0x04" "0x0007" demo_ports] by auto
  have "fst (pci_config_read_word 0 3 0 0x06 (demo_ports\<lparr>dev := \<lambda>_ _. new\<rparr>)) = config_half 0x06 old"
    using w(4) [rule_format, of "demo_ports\<lparr>dev := \<lambda>_ _. new\<rparr>" "0x06"] sh by simp
  then show ?thesis using w h by (auto simp: demo_ports_def)
qed

end
