(* ===== verification/Shell.thy ===== *)
theory Shell
  imports Pci Elf
begin

text \<open>
  The shell, \<open>kernel/ui/shell.c\<close>: the line editor with its history, and the commands. The
  arrays of the source keep their sizes; a write behind the end of one, like any other run that does not go on,
  is the value None. Arguments stand for what the rest of the system does meanwhile:
  \<open>env\<close> while a read waits, \<open>halt\<close> while \<open>sleep\<close> halts, and \<open>gfx\<close> for \<open>start_graphics\<close>, which
  hands the screen to the window system.
\<close>

section \<open>State and text functions\<close>

record shell = hwstate +
  history_count :: nat

definition BUFFER_SIZE :: nat where "BUFFER_SIZE = 256"
definition HISTORY_MAX :: nat where "HISTORY_MAX = 10"

fun strncmp :: "cstring \<Rightarrow> cstring \<Rightarrow> nat \<Rightarrow> int" where
  "strncmp s1 s2 0 = 0"
| "strncmp s1 s2 (Suc n) =
     (if rd8 s1 \<noteq> rd8 s2 then sint (rd8 s1) - sint (rd8 s2) else if rd8 s1 = 0 then 0 else strncmp (tl s1) (tl s2) n)"

text \<open>The result of \<open>atoi\<close> is computed in 32 bits.\<close>

fun atoi_loop :: "cstring \<Rightarrow> u32 \<Rightarrow> u32" where
  "atoi_loop [] result = result"
| "atoi_loop (c # s) result = (if 0x30 \<le> c \<and> c \<le> 0x39 then atoi_loop s (result * 10 + (ucast c - 0x30)) else result)"

definition atoi :: "cstring \<Rightarrow> int" where
  "atoi s = sint (atoi_loop s 0)"

definition init_shell :: "'a shell_scheme \<Rightarrow> 'a shell_scheme" where
  "init_shell s =
     print_prompt (s\<lparr>buffer_idx := 0, history_count := 0, history_nav_idx := 0, shell_cwd_node := vfs_root s,
       input_buffer := for_range 0 BUFFER_SIZE (\<lambda>i b. b[i := 0]) (input_buffer s)\<rparr>)"

definition says :: "string list \<Rightarrow> 'a sysstate_scheme \<Rightarrow> 'a sysstate_scheme" where
  "says lns s = fold (\<lambda>l. say (lit l @ [10])) lns s"

section \<open>Commands that print\<close>

definition cmd_help :: "'a sysstate_scheme \<Rightarrow> 'a sysstate_scheme" where
  "cmd_help = says
    [''Komutlar:'',
     ''  help     - Bu yardim mesajini goster'',
     ''  clear    - Ekrani temizle'',
     ''  version  - Sistem surumunu goster'',
     ''  uptime   - Sistemin calisme suresini goster'',
     ''  pci      - PCI aygitlarini tara ve listele'',
     ''  ticks    - Zamanlayici tick sayisini goster'',
     ''  mem      - Bellek istatistiklerini goster'',
     ''  sleep N  - N milisaniye bekle (ornek: sleep 1000)'',
     ''  echo ... - Mesaji ekrana yaz'',
     ''  ls [path]- Dizini listele'',
     ''  cd path  - Dizini degistir (.. desteklenir)'',
     ''  mkdir p  - 'p' adinda dizin olustur'',
     ''  rm f     - 'f' dosyasini sil'',
     ''  rmdir d  - 'd' dizinini sil (bos olmali)'',
     ''  touch f  - 'f' adinda dosya olustur'',
     ''  write f t- 'f' dosyasina 't' metnini yaz'',
     ''  cat f    - 'f' dosyasini oku'',
     ''  exec f   - 'f' ELF dosyasini calistir'',
     ''  vinit    - Gorsel modunu baslat'',
     ''  format   - Diski bicimlendir (SIFIRLA)'',
     ''  reboot   - Sistemi yeniden baslat'']"

definition cmd_clear :: "'a sysstate_scheme \<Rightarrow> 'a sysstate_scheme" where
  "cmd_clear s = s\<lparr>con := (clear_scr (con s))\<lparr>terminal_row := 0, terminal_col := 0\<rparr>\<rparr>"

text \<open>\<open>put_int\<close> of an unsigned number.\<close>

definition say_uint :: "u32 \<Rightarrow> 'a sysstate_scheme \<Rightarrow> 'a sysstate_scheme" where
  "say_uint n = say_int (sint n)"

definition cmd_uptime :: "'a sysstate_scheme \<Rightarrow> 'a sysstate_scheme" where
  "cmd_uptime s =
     (let total_secs = timer_get_seconds (drv s); mins = total_secs div 60; secs = total_secs mod 60
      in say (lit '' tick)'' @ [10]) (say_uint (timer_get_ticks (drv s)) (say (lit '' saniye ('')
        (say_uint secs (say (lit '' dakika, '') (say_uint mins (say (lit ''Sistem calisme suresi: '') s)))))))"

definition cmd_ticks :: "'a sysstate_scheme \<Rightarrow> 'a sysstate_scheme" where
  "cmd_ticks s = say [10] (say_uint (timer_get_ticks (drv s)) (say (lit ''Toplam tick: '') s))"

definition say_frames :: "string \<Rightarrow> u32 \<Rightarrow> 'a sysstate_scheme \<Rightarrow> 'a sysstate_scheme" where
  "say_frames name n s = say (lit '' MB)'' @ [10]) (say_uint ((n * 4) div 1024) (say (lit '' ('') (say_uint n (say (lit name) s))))"

definition cmd_mem :: "'a sysstate_scheme \<Rightarrow> 'a sysstate_scheme" where
  "cmd_mem s =
     (let p = frames (mm s);
          s1 = say (lit ''Toplam Bellek: '') (say (lit ''--- Bellek Istatistikleri ---'' @ [10]) s);
          s2 = say (lit '' KB)'' @ [10]) (say_uint (pmm_total_memory_kb p) (say (lit '' MB ('') (say_uint (pmm_total_memory_kb p div 1024) s1)));
          s3 = say [10] (say_uint (pmm_total_frames p) (say (lit ''Toplam Frame (4KB): '') s2))
      in say_frames ''Bos Frame: '' (pmm_free_frames p) (say_frames ''Kullanilan Frame: '' (pmm_used_frames p) s3))"

definition cmd_sleep :: "(nat \<Rightarrow> drivers \<Rightarrow> drivers) \<Rightarrow> cstring \<Rightarrow> 'a sysstate_scheme \<Rightarrow> 'a sysstate_scheme option" where
  "cmd_sleep halt arg s =
     (let ms = atoi arg
      in if ms \<le> 0 then Some (says [''Kullanim: sleep <milisaniye> (ornek: sleep 1000)''] s)
         else do {
           let s1 = say (lit '' ms...'' @ [10]) (say_int ms (say (lit ''Bekleniyor: '') s));
           d \<leftarrow> sleep halt (of_int ms) (drv s1);
           Some (says [''Tamamlandi.''] (s1\<lparr>drv := d\<rparr>))
         })"

section \<open>Commands on files\<close>

text \<open>The working directory; a null pointer is not followed.\<close>

definition cwd_inode :: "'a sysstate_scheme \<Rightarrow> nat option" where
  "cwd_inode s = (if shell_cwd_node s = 0 then None else Some (unat (vinode (nodes s (shell_cwd_node s)))))"

partial_function (option) ls_loop :: "u32 \<Rightarrow> u32 \<Rightarrow> 'a sysstate_scheme \<Rightarrow> 'a sysstate_scheme option" where
  "ls_loop dir i s = do {
     (dirent, s1) \<leftarrow> vfs_readdir dir i s;
     (case dirent of
        None \<Rightarrow> Some s1
      | Some d \<Rightarrow> do {
          (file_node, s2) \<leftarrow> vfs_finddir dir (d_name d) (say (d_name d) s1);
          s3 \<leftarrow> (if file_node \<noteq> 0
                then vfs_close file_node (if vflags (nodes s2 file_node) AND VFS_DIRECTORY \<noteq> 0 then say (lit ''/'') s2 else s2)
                else Some s2);
          ls_loop dir (i + 1) (say (lit ''  '') s3)
        })
   }"

definition close_lookup :: "u32 \<Rightarrow> 'a sysstate_scheme \<Rightarrow> 'a sysstate_scheme option" where
  "close_lookup n s = (if n \<noteq> vfs_root s \<and> n \<noteq> shell_cwd_node s then vfs_close n s else Some s)"

definition cmd_ls :: "'a env \<Rightarrow> cstring \<Rightarrow> 'a sysstate_scheme \<Rightarrow> 'a sysstate_scheme option" where
  "cmd_ls env cmd s = do {
     let path = (if strlen cmd > 3 \<and> cmd ! 2 = 0x20 then drop 3 cmd else lit ''.'');
     (dir, s1) \<leftarrow> vfs_get_node_by_path env (shell_cwd_node s) path s;
     if dir \<noteq> 0 \<and> vflags (nodes s1 dir) AND VFS_DIRECTORY \<noteq> 0 then do {
       s2 \<leftarrow> ls_loop dir 0 s1;
       close_lookup dir (say [10] s2)
     } else Some (says [''Hata: Dizin bulunamadi.''] s1)
   }"

definition cmd_mkdir :: "cstring \<Rightarrow> 'a sysstate_scheme \<Rightarrow> 'a sysstate_scheme option" where
  "cmd_mkdir dirname s = do {
     ino \<leftarrow> cwd_inode s;
     let (r, s1) = on_fs (pafs_mkdir ino dirname) s;
     Some (says [if r \<noteq> -1 then ''Dizin olusturuldu.'' else ''Hata: Dizin olusturulamadi.''] s1)
   }"

definition cmd_touch :: "cstring \<Rightarrow> 'a sysstate_scheme \<Rightarrow> 'a sysstate_scheme option" where
  "cmd_touch filename s =
     (if strlen filename = 0 then Some (says [''Kullanim: touch <dosya_adi>''] s)
      else do {
        ino \<leftarrow> cwd_inode s;
        let (r, s1) = on_fs (pafs_create ino filename False) s;
        Some (if r \<noteq> -1 then say [10] (say filename (say (lit ''Dosya olusturuldu: '') s1))
              else says [''Hata: Dosya olusturulamadi.''] s1)
      })"

text \<open>The buffer is on the stack; a negative result of the read would be used as an index.\<close>

definition cmd_cat :: "'a env \<Rightarrow> cstring \<Rightarrow> 'a sysstate_scheme \<Rightarrow> 'a sysstate_scheme option" where
  "cmd_cat env path s = do {
     (node, s1) \<leftarrow> vfs_get_node_by_path env (shell_cwd_node s) path s;
     if node \<noteq> 0 then do {
       ((n, buf), s2) \<leftarrow> vfs_read env node 0 1023 (fresh_bytes 1024 0 s1) s1;
       if sint n < 0 \<or> sint n \<ge> 1024 then None
       else close_lookup node (say [10] (say (buf[nat (sint n) := 0]) s2))
     } else Some (says [''Hata: Dosya bulunamadi.''] s1)
   }"

definition cmd_exec :: "'a env \<Rightarrow> cstring \<Rightarrow> 'a sysstate_scheme \<Rightarrow> 'a sysstate_scheme option" where
  "cmd_exec env filename s =
     (if strlen filename = 0 then Some (says [''Kullanim: exec <dosya_adi>''] s)
      else do {
        (entry, s1) \<leftarrow> elf_load env (shell_cwd_node s) filename s;
        if entry \<noteq> -1 then do {
          (_, s2) \<leftarrow> create_task filename (of_int entry) True ((says [''Program baslatiliyor...''] s1)\<lparr>shell_active := 0\<rparr>);
          Some s2
        } else Some (says [''Hata: ELF yuklenemedi.''] s1)
      })"

definition cmd_rm :: "cstring \<Rightarrow> 'a sysstate_scheme \<Rightarrow> 'a sysstate_scheme option" where
  "cmd_rm filename s = do {
     ino \<leftarrow> cwd_inode s;
     let (r, s1) = on_fs (pafs_delete ino filename) s;
     Some (says [if r = 0 then ''Dosya silindi.'' else ''Hata: Dosya silinemedi.''] s1)
   }"

definition cmd_rmdir :: "cstring \<Rightarrow> 'a sysstate_scheme \<Rightarrow> 'a sysstate_scheme option" where
  "cmd_rmdir dirname s = do {
     ino \<leftarrow> cwd_inode s;
     let (r, s1) = on_fs (pafs_delete ino dirname) s;
     Some (says [if r = 0 then ''Dizin silindi.'' else if r = -2 then ''Hata: Dizin bos degil.'' else ''Hata: Dizin silinemedi.''] s1)
   }"

definition cmd_format :: "'a sysstate_scheme \<Rightarrow> 'a sysstate_scheme" where
  "cmd_format s =
     (let (_, s1) = on_fs (\<lambda>q. ((), pafs_format q)) (says [''PAFS bicimlendiriliyor...''] s)
      in says [''Disk temizlendi. Lutfen 'reboot' yaparak sistemi yenileyin.''] s1)"

section \<open>The working directory\<close>

text \<open>The index of the last slash below \<open>n\<close>, and 0 if there is none.\<close>

fun last_slash :: "u8 list \<Rightarrow> nat \<Rightarrow> nat" where
  "last_slash p 0 = 0"
| "last_slash p (Suc n) = (if p ! n = 0x2F then n else last_slash p n)"

definition parent_path :: "u8 list \<Rightarrow> u8 list" where
  "parent_path p =
     (let len = strlen p;
          i = last_slash p (if p ! (len - 1) = 0x2F then len - 1 else len);
          p1 = p[i + 1 := 0]
      in if i = 0 then p1[1 := 0] else p1)"

text \<open>A string with its terminator is copied into an array at a position.\<close>

definition put_cstr :: "nat \<Rightarrow> cstring \<Rightarrow> u8 list \<Rightarrow> u8 list option" where
  "put_cstr pos str p = (if pos + length (cstr str) < length p then Some (overwrite pos (cstr str @ [0]) p) else None)"

definition extend_path :: "cstring \<Rightarrow> u8 list \<Rightarrow> u8 list option" where
  "extend_path path p =
     (if rd8 path = 0x2F then put_cstr 0 path p
      else
        let len = strlen p
        in if p ! (len - 1) \<noteq> 0x2F
           then (if len < length p then put_cstr (len + 1) path (p[len := 0x2F]) else None)
           else put_cstr len path p)"

definition change_node :: "u32 \<Rightarrow> 'a sysstate_scheme \<Rightarrow> 'a sysstate_scheme option" where
  "change_node n s = do {
     s1 \<leftarrow> (if shell_cwd_node s \<noteq> vfs_root s then vfs_close (shell_cwd_node s) s else Some s);
     Some (s1\<lparr>shell_cwd_node := n\<rparr>)
   }"

text \<open>An empty working directory would be indexed with -1.\<close>

definition cmd_cd :: "'a env \<Rightarrow> cstring \<Rightarrow> 'a sysstate_scheme \<Rightarrow> 'a sysstate_scheme option" where
  "cmd_cd env path s =
     (if strcmp path (lit ''..'') = 0 then
        (if strcmp (shell_cwd_path s) (lit ''/'') = 0 then Some s
         else if strlen (shell_cwd_path s) = 0 then None
         else do {
           let s1 = s\<lparr>shell_cwd_path := parent_path (shell_cwd_path s)\<rparr>;
           (n, s2) \<leftarrow> vfs_get_node_by_path env (vfs_root s1) (shell_cwd_path s1) s1;
           if n \<noteq> 0 then change_node n s2 else Some s2
         })
      else do {
        (n, s1) \<leftarrow> vfs_get_node_by_path env (shell_cwd_node s) path s;
        if n \<noteq> 0 \<and> vflags (nodes s1 n) AND VFS_DIRECTORY \<noteq> 0 then do {
          s2 \<leftarrow> change_node n s1;
          if rd8 path \<noteq> 0x2F \<and> strlen (shell_cwd_path s2) = 0 then None
          else do { p \<leftarrow> extend_path path (shell_cwd_path s2); Some (s2\<lparr>shell_cwd_path := p\<rparr>) }
        } else do {
          let s2 = says [''Hata: Dizin bulunamadi.''] s1;
          (if n \<noteq> 0 then vfs_close n s2 else Some s2)
        }
      })"

section \<open>Hardware\<close>

definition cmd_reboot :: "'a sysstate_scheme \<Rightarrow> 'a sysstate_scheme" where
  "cmd_reboot s = (let s1 = says [''Sistem yeniden baslatiliyor...''] s in s1\<lparr>drv := outb 0x64 0xFE (drv s1)\<rparr>)"

definition beep_sample :: "nat \<Rightarrow> u16" where
  "beep_sample i = (if (i div 50) mod 2 = 0 then 8000 else -8000)"

definition cmd_beep :: "'a hwstate_scheme \<Rightarrow> 'a hwstate_scheme option" where
  "cmd_beep s = do {
     let (pcm, s1) = frame_pointer (says [''AC97 Ses Testi (Bip) baslatiliyor...''] s);
     s2 \<leftarrow> store_each (\<lambda>k. let v = bytes16 (beep_sample (2 * k)) in store_bytes (pcm + of_nat (4 * k)) (v @ v)) [0..<1024] s1;
     s3 \<leftarrow> ac97_play pcm 4096 s2;
     Some (says [''Ses DMA'ya gonderildi.''] s3)
   }"

section \<open>Dispatch\<close>

definition execute_command ::
    "'a shell_ext hwstate_ext env \<Rightarrow> (nat \<Rightarrow> drivers \<Rightarrow> drivers) \<Rightarrow> ('a shell_scheme \<Rightarrow> 'a shell_scheme option) \<Rightarrow>
     cstring \<Rightarrow> 'a shell_scheme \<Rightarrow> 'a shell_scheme option" where
  "execute_command env halt gfx cmd s =
     (if strlen cmd = 0 then Some s
      else if strcmp cmd (lit ''help'') = 0 then Some (cmd_help s)
      else if strcmp cmd (lit ''clear'') = 0 then Some (cmd_clear s)
      else if strcmp cmd (lit ''version'') = 0 then Some (says [''PekerOS v0.2 - Shell: fash v0.1''] s)
      else if strcmp cmd (lit ''uptime'') = 0 then Some (cmd_uptime s)
      else if strcmp cmd (lit ''pci'') = 0 then pci_init s
      else if strcmp cmd (lit ''ticks'') = 0 then Some (cmd_ticks s)
      else if strcmp cmd (lit ''mem'') = 0 then Some (cmd_mem s)
      else if strncmp cmd (lit ''sleep '') 6 = 0 then cmd_sleep halt (drop 6 cmd) s
      else if strncmp cmd (lit ''echo '') 5 = 0 then Some (say [10] (say (drop 5 cmd) s))
      else if strcmp cmd (lit ''echo'') = 0 then Some (say [10] s)
      else if strcmp cmd (lit ''vinit'') = 0 then gfx (says [''Gorsel mod baslatiliyor...''] s)
      else if strncmp cmd (lit ''ls'') 2 = 0 then cmd_ls env cmd s
      else if strncmp cmd (lit ''mkdir '') 6 = 0 then cmd_mkdir (drop 6 cmd) s
      else if strncmp cmd (lit ''touch '') 6 = 0 then cmd_touch (drop 6 cmd) s
      else if strncmp cmd (lit ''cat '') 4 = 0 then cmd_cat env (drop 4 cmd) s
      else if strncmp cmd (lit ''exec '') 5 = 0 then cmd_exec env (drop 5 cmd) s
      else if strncmp cmd (lit ''cd '') 3 = 0 then cmd_cd env (drop 3 cmd) s
      else if strncmp cmd (lit ''rm '') 3 = 0 then cmd_rm (drop 3 cmd) s
      else if strncmp cmd (lit ''rmdir '') 6 = 0 then cmd_rmdir (drop 6 cmd) s
      else if strcmp cmd (lit ''reboot'') = 0 then Some (cmd_reboot s)
      else if strcmp cmd (lit ''beep'') = 0 then cmd_beep s
      else if strcmp cmd (lit ''format'') = 0 then Some (cmd_format s)
      else Some (say ([0x27] @ lit ''. 'help' yazarak komutlari gorebilirsiniz.'' @ [10]) (say cmd (say (lit ''Hata: Bilinmeyen komut '' @ [0x27]) s))))"

section \<open>The line editor\<close>

text \<open>A command that is not empty and not the newest of the history is appended to it; the oldest of ten leaves.\<close>

definition copy_line :: "nat \<Rightarrow> u8 list \<Rightarrow> u8 list \<Rightarrow> u8 list" where
  "copy_line idx buf row = for_range 0 (idx + 1) (\<lambda>i r. r[i := buf ! i]) row"

definition save_history :: "'a shell_scheme \<Rightarrow> 'a shell_scheme" where
  "save_history s =
     (let h = history_buffer s; n = history_count s; buf = input_buffer s; idx = buffer_idx s
      in if idx > 0 \<and> (n = 0 \<or> strcmp (h ! (n - 1)) buf \<noteq> 0) then
           (if n < HISTORY_MAX then s\<lparr>history_buffer := h[n := copy_line idx buf (h ! n)], history_count := n + 1\<rparr>
            else
              let h1 = for_range 0 (HISTORY_MAX - 1) (\<lambda>i g. g[i := for_range 0 BUFFER_SIZE (\<lambda>j r. r[j := g ! (i + 1) ! j]) (g ! i)]) h
              in s\<lparr>history_buffer := h1[HISTORY_MAX - 1 := copy_line idx buf (h1 ! (HISTORY_MAX - 1))]\<rparr>)
         else s)"

definition put_con :: "u8 \<Rightarrow> 'a sysstate_scheme \<Rightarrow> 'a sysstate_scheme" where
  "put_con c s = s\<lparr>con := put_char c (con s)\<rparr>"

text \<open>\<open>while (buffer_idx > 0) { put_char('\b'); buffer_idx--; }\<close>\<close>

fun erase_line :: "nat \<Rightarrow> 'a sysstate_scheme \<Rightarrow> 'a sysstate_scheme" where
  "erase_line 0 s = s\<lparr>buffer_idx := 0\<rparr>"
| "erase_line (Suc n) s = erase_line n (put_con 8 s)"

text \<open>The entry is copied and written up to its terminator.\<close>

fun show_entry :: "nat \<Rightarrow> cstring \<Rightarrow> 'a sysstate_scheme \<Rightarrow> 'a sysstate_scheme" where
  "show_entry i [] s = s\<lparr>buffer_idx := i, input_buffer := (input_buffer s)[i := 0]\<rparr>"
| "show_entry i (c # row) s =
     (if c \<noteq> 0 then show_entry (i + 1) row (put_con c (s\<lparr>input_buffer := (input_buffer s)[i := c]\<rparr>))
      else s\<lparr>buffer_idx := i, input_buffer := (input_buffer s)[i := 0]\<rparr>)"

definition key_up :: "'a shell_scheme \<Rightarrow> 'a shell_scheme" where
  "key_up s =
     (if history_count s > 0 \<and> history_nav_idx s > 0 then
        let s1 = s\<lparr>history_nav_idx := history_nav_idx s - 1\<rparr>
        in show_entry 0 (history_buffer s1 ! nat (history_nav_idx s1)) (erase_line (buffer_idx s1) s1)
      else s)"

definition key_down :: "'a shell_scheme \<Rightarrow> 'a shell_scheme" where
  "key_down s =
     (if history_nav_idx s < int (history_count s) then
        let s1 = s\<lparr>history_nav_idx := history_nav_idx s + 1\<rparr>;
            s2 = erase_line (buffer_idx s1) s1
        in if history_nav_idx s2 = int (history_count s2) then s2\<lparr>buffer_idx := 0, input_buffer := (input_buffer s2)[0 := 0]\<rparr>
           else show_entry 0 (history_buffer s2 ! nat (history_nav_idx s2)) s2
      else s)"

definition key_backspace :: "'a shell_scheme \<Rightarrow> 'a shell_scheme" where
  "key_backspace s =
     (if buffer_idx s > 0
      then put_con 8 (s\<lparr>buffer_idx := buffer_idx s - 1, input_buffer := (input_buffer s)[buffer_idx s - 1 := 0]\<rparr>)
      else s)"

definition key_char :: "u8 \<Rightarrow> 'a shell_scheme \<Rightarrow> 'a shell_scheme" where
  "key_char c s =
     (if buffer_idx s < BUFFER_SIZE - 1
      then put_con c (s\<lparr>input_buffer := (input_buffer s)[buffer_idx s := c], buffer_idx := buffer_idx s + 1\<rparr>)
      else s)"

definition key_enter ::
    "'a shell_ext hwstate_ext env \<Rightarrow> (nat \<Rightarrow> drivers \<Rightarrow> drivers) \<Rightarrow> ('a shell_scheme \<Rightarrow> 'a shell_scheme option) \<Rightarrow>
     'a shell_scheme \<Rightarrow> 'a shell_scheme option" where
  "key_enter env halt gfx s = do {
     let s1 = put_con 10 s;
     let s2 = save_history (s1\<lparr>input_buffer := (input_buffer s1)[buffer_idx s1 := 0]\<rparr>);
     s3 \<leftarrow> execute_command env halt gfx (input_buffer s2) s2;
     let s4 = s3\<lparr>buffer_idx := 0, input_buffer := for_range 0 BUFFER_SIZE (\<lambda>i b. b[i := 0]) (input_buffer s3),
                history_nav_idx := int (history_count s3)\<rparr>;
     Some (if shell_active s4 \<noteq> 0 then print_prompt s4 else s4)
   }"

definition shell_key ::
    "'a shell_ext hwstate_ext env \<Rightarrow> (nat \<Rightarrow> drivers \<Rightarrow> drivers) \<Rightarrow> ('a shell_scheme \<Rightarrow> 'a shell_scheme option) \<Rightarrow>
     u8 \<Rightarrow> 'a shell_scheme \<Rightarrow> 'a shell_scheme option" where
  "shell_key env halt gfx c s =
     (if vbe_is_active (con s) \<noteq> 0 then Some s
      else if c = 10 then key_enter env halt gfx s
      else if c = 0x11 then Some (key_up s)
      else if c = 0x12 then Some (key_down s)
      else if c = 8 then Some (key_backspace s)
      else Some (key_char c s))"
end
