(* ===== verification/Shell_Editor.thy ===== *)
theory Shell_Editor
  imports Shell
begin

text \<open>
  The line editor of the shell: it keeps to an abstract editor of a line, a history of at most ten lines and
  a place in it, key by key, and a line that is entered is executed and kept.
\<close>

section \<open>An abstract line editor\<close>

text \<open>
  The line under the cursor, the lines entered so far with the newest at the end, and the place in them that
  the arrow keys have reached.
\<close>

record editor =
  eline :: "u8 list"
  ehist :: "u8 list list"
  enav :: nat

definition ed_key :: "u8 \<Rightarrow> editor \<Rightarrow> editor" where
  "ed_key c e =
     (if c = 0x11 then (if enav e > 0 then e\<lparr>enav := enav e - 1, eline := ehist e ! (enav e - 1)\<rparr> else e)
      else if c = 0x12 then
        (if enav e < length (ehist e)
         then e\<lparr>enav := enav e + 1, eline := if enav e + 1 = length (ehist e) then [] else ehist e ! (enav e + 1)\<rparr> else e)
      else if c = 8 then e\<lparr>eline := butlast (eline e)\<rparr>
      else if length (eline e) < 255 then e\<lparr>eline := eline e @ [c]\<rparr> else e)"

definition ed_enter :: "editor \<Rightarrow> editor" where
  "ed_enter e =
     (let h = (if eline e = [] \<or> ehist e \<noteq> [] \<and> last (ehist e) = eline e then ehist e
               else (if length (ehist e) < 10 then ehist e else tl (ehist e)) @ [eline e])
      in \<lparr>eline = [], ehist = h, enav = length h\<rparr>)"

text \<open>What a key writes to the terminal.\<close>

definition ed_out :: "u8 \<Rightarrow> editor \<Rightarrow> u8 list" where
  "ed_out c e =
     (if c = 0x11 then (if enav e > 0 then replicate (length (eline e)) 8 @ eline (ed_key c e) else [])
      else if c = 0x12 then (if enav e < length (ehist e) then replicate (length (eline e)) 8 @ eline (ed_key c e) else [])
      else if c = 8 then (if eline e = [] then [] else [8])
      else if length (eline e) < 255 then [c] else [])"

definition is_line :: "u8 list \<Rightarrow> bool" where
  "is_line l \<longleftrightarrow> length l \<le> 255 \<and> 0 \<notin> set l"

text \<open>The editor that the arrays of the shell stand for.\<close>

definition editor_of :: "'a shell_scheme \<Rightarrow> editor" where
  "editor_of s = \<lparr>eline = take (buffer_idx s) (input_buffer s), ehist = map cstr (take (history_count s) (history_buffer s)),
     enav = nat (history_nav_idx s)\<rparr>"

definition editor_ok :: "'a shell_scheme \<Rightarrow> bool" where
  "editor_ok s \<longleftrightarrow> length (input_buffer s) = 256 \<and> buffer_idx s \<le> 255 \<and> is_line (take (buffer_idx s) (input_buffer s)) \<and>
     length (history_buffer s) = 10 \<and> (\<forall>row \<in> set (history_buffer s). length row = 256) \<and> history_count s \<le> 10 \<and>
     (\<forall>i < history_count s. length (cstr (history_buffer s ! i)) \<le> 255) \<and>
     0 \<le> history_nav_idx s \<and> history_nav_idx s \<le> int (history_count s)"

lemma cstr_terminated: "length (cstr row) < length row \<Longrightarrow> row ! length (cstr row) = 0"
  unfolding cstr_def using nth_length_takeWhile [of "\<lambda>b. b \<noteq> 0" row] by simp

lemma erase_line_eq: "erase_line n s = s\<lparr>con := fold put_char (replicate n 8) (con s), buffer_idx := 0\<rparr>"
  by (induction n arbitrary: s) (simp_all add: put_con_def)

lemma show_entry_eq:
  "i + length (cstr row) \<le> length (input_buffer s) \<Longrightarrow> show_entry i row s = s\<lparr>con := fold put_char (cstr row) (con s), buffer_idx := i + length (cstr row),
     input_buffer := (take i (input_buffer s) @ cstr row @ drop (i + length (cstr row)) (input_buffer s))[i + length (cstr row) := 0]\<rparr>"
proof (induction row arbitrary: i s)
  case (Cons c row)
  show ?case
  proof (cases "c = 0")
    case False
    then have i: "i < length (input_buffer s)" using Cons.prems by (simp add: cstr_Cons)
    have "take (i + 1) ((input_buffer s)[i := c]) = take i (input_buffer s) @ [c]" using i by (simp add: take_Suc_conv_app_nth)
    then show ?thesis using False Cons.IH [of "i + 1" "put_con c (s\<lparr>input_buffer := (input_buffer s)[i := c]\<rparr>)"] Cons.prems
      by (simp add: cstr_Cons put_con_def)
  qed (simp add: cstr_Cons)
qed simp

lemma shown_line:
  assumes "length b = 256" and "length l \<le> 255"
  shows "take (length l) ((take 0 b @ l @ drop (length l) b)[length l := 0]) = l"
    and "length ((take 0 b @ l @ drop (length l) b)[length l := 0]) = 256"
  using assms by simp_all

lemma recall_entry:
  assumes ok: "editor_ok s" and k: "0 \<le> k" "k < int (history_count s)"
  defines "t \<equiv> show_entry 0 (history_buffer s ! nat k) (erase_line (buffer_idx s) (s\<lparr>history_nav_idx := k\<rparr>))"
  shows "editor_ok t \<and> editor_of t = (editor_of s)\<lparr>enav := nat k, eline := ehist (editor_of s) ! nat k\<rparr> \<and>
    con t = fold put_char (replicate (length (eline (editor_of s))) 8 @ ehist (editor_of s) ! nat k) (con s)"
proof -
  let ?l = "cstr (history_buffer s ! nat k)" and ?b = "input_buffer s"
  have kc: "nat k < history_count s" using k by simp
  have l: "length ?l \<le> 255" and b: "length ?b = 256" and c: "history_count s \<le> 10" "length (history_buffer s) = 10"
      and i: "buffer_idx s \<le> 255"
    using ok kc by (simp_all add: editor_ok_def)
  have h: "ehist (editor_of s) ! nat k = ?l" using kc c by (simp add: editor_of_def)
  have t: "t = s\<lparr>history_nav_idx := k, con := fold put_char ?l (fold put_char (replicate (buffer_idx s) 8) (con s)),
      buffer_idx := length ?l, input_buffer := (take 0 ?b @ ?l @ drop (length ?l) ?b)[length ?l := 0]\<rparr>"
    unfolding t_def erase_line_eq by (subst show_entry_eq) (use l b in simp_all)
  have "is_line ?l" using l cstr_nz by (simp add: is_line_def)
  then have "editor_ok t" using ok k l shown_line [OF b l] by (simp add: editor_ok_def t del: append_Nil take0)
  moreover have "editor_of t = (editor_of s)\<lparr>enav := nat k, eline := ?l\<rparr>"
    using shown_line [OF b l] by (simp add: editor_of_def t del: append_Nil take0)
  moreover have "length (eline (editor_of s)) = buffer_idx s" using b i by (simp add: editor_of_def)
  ultimately show ?thesis by (simp add: h t)
qed

lemma key_edits:
  assumes "editor_ok s" and "vbe_is_active (con s) = 0" and "c \<noteq> 10" and "c \<noteq> 0"
  shows "\<exists>s'. shell_key env halt gfx c s = Some s' \<and> editor_ok s' \<and> editor_of s' = ed_key c (editor_of s) \<and>
    con s' = fold put_char (ed_out c (editor_of s)) (con s)"
proof -
  note ok = assms(1) [unfolded editor_ok_def is_line_def]
  consider (up) "c = 0x11" | (down) "c = 0x12" | (bsp) "c = 8" | (char) "c \<noteq> 0x11" "c \<noteq> 0x12" "c \<noteq> 8" by blast
  then show ?thesis
  proof cases
    case up
    show ?thesis
    proof (cases "history_nav_idx s > 0")
      case True
      then have "0 \<le> history_nav_idx s - 1" "history_nav_idx s - 1 < int (history_count s)" "0 < history_count s" "nat (history_nav_idx s - 1) = nat (history_nav_idx s) - 1"
        using ok by auto
      then show ?thesis using up True assms(2) recall_entry [OF assms(1), of "history_nav_idx s - 1"]
        by (simp add: shell_key_def key_up_def ed_key_def ed_out_def Let_def) (simp add: editor_of_def)
    next
      case False
      then show ?thesis using up ok assms(1,2) by (simp add: shell_key_def key_up_def editor_of_def ed_key_def ed_out_def)
    qed
  next
    case down
    let ?k = "history_nav_idx s + 1"
    have n: "length (ehist (editor_of s)) = history_count s" "enav (editor_of s) = nat (history_nav_idx s)"
      using ok by (simp_all add: editor_of_def)
    consider (stay) "history_nav_idx s \<ge> int (history_count s)" | (last) "?k = int (history_count s)" | (walk) "?k < int (history_count s)" by linarith
    then show ?thesis
    proof cases
      case stay
      then show ?thesis using down ok assms(1,2) n by (simp add: shell_key_def key_down_def ed_key_def ed_out_def)
    next
      case last
      have "nat (history_nav_idx s) + 1 = history_count s" using last ok by linarith
      then show ?thesis using last down ok assms(2) n
        by (simp add: shell_key_def key_down_def ed_key_def ed_out_def erase_line_eq editor_ok_def is_line_def)
          (auto simp: editor_of_def min_def)
    next
      case walk
      moreover have "nat ?k = nat (history_nav_idx s) + 1" using ok by linarith
      ultimately show ?thesis using down ok assms(2) n recall_entry [OF assms(1), of ?k]
        by (simp add: shell_key_def key_down_def ed_key_def ed_out_def Let_def erase_line_eq)
    qed
  next
    case bsp
    show ?thesis
    proof (cases "buffer_idx s")
      case 0
      then show ?thesis using bsp assms(1,2) by (simp add: shell_key_def key_backspace_def editor_of_def ed_key_def ed_out_def)
    next
      case (Suc n)
      have "take n (input_buffer s) = butlast (take (Suc n) (input_buffer s))" using ok Suc by (simp add: take_Suc_conv_app_nth)
      then show ?thesis using bsp ok assms(2) Suc
        by (auto simp: shell_key_def key_backspace_def put_con_def editor_of_def ed_key_def ed_out_def editor_ok_def is_line_def take_Suc_conv_app_nth)
    qed
  next
    case char
    show ?thesis
    proof (cases "buffer_idx s < 255")
      case True
      then show ?thesis using char assms ok
        by (simp add: shell_key_def key_char_def put_con_def editor_of_def ed_key_def ed_out_def editor_ok_def is_line_def BUFFER_SIZE_def take_Suc_conv_app_nth min_def)
    next
      case False
      then show ?thesis using char assms ok
        by (simp add: shell_key_def key_char_def put_con_def editor_of_def ed_key_def ed_out_def BUFFER_SIZE_def min_def)
    qed
  qed
qed

text \<open>
  C17: Every key but Enter acts on the line and the history as in the abstract editor: characters
  are appended up to 255, backspace removes the last one, and the arrow keys walk through the
  history; the terminal is sent exactly the characters that turn the old line into the new
  one. No array is left.
\<close>

theorem shell_key_edits:
  assumes "editor_ok s" and "vbe_is_active (con s) = 0" and "c \<noteq> 10" and "c \<noteq> 0"
  shows "\<exists>s'. shell_key env halt gfx c s = Some s' \<and> editor_ok s' \<and> editor_of s' = ed_key c (editor_of s) \<and>
    con s' = fold put_char (ed_out c (editor_of s)) (con s)"
  by (rule key_edits [OF assms])

section \<open>Entering a line\<close>

lemma copy_loop:
  "n \<le> length src \<Longrightarrow> n \<le> length row \<Longrightarrow> for_range 0 n (\<lambda>j r. r[j := src ! j]) row = take n src @ drop n row"
proof (induction n)
  case (Suc n)
  have "(take n src @ drop n row)[n := src ! n] = take (Suc n) src @ drop (Suc n) row"
    using Suc.prems by (simp add: list_update_append take_Suc_conv_app_nth Cons_nth_drop_Suc [symmetric])
  then show ?case using Suc by (simp add: for_range_Suc)
qed simp

lemma shift_rows:
  assumes "length h = 10" and "\<forall>row \<in> set h. length row = 256"
  shows "for_range 0 9 (\<lambda>i g. g[i := for_range 0 256 (\<lambda>j r. r[j := g ! (i + 1) ! j]) (g ! i)]) h = tl h @ [h ! 9]"
proof -
  have "for_range 0 9 (\<lambda>i g. g[i := for_range 0 256 (\<lambda>j r. r[j := g ! (i + 1) ! j]) (g ! i)]) h = take 9 (tl h) @ drop 9 h"
  proof (rule for_range_inv [where P = "\<lambda>i g. g = take i (tl h) @ drop i h"])
    fix i g
    assume i: "i < 9" and g: "g = take i (tl h) @ drop i h"
    have l: "length (h ! k) = 256" if "k < 10" for k using assms that by simp
    have e: "g ! i = h ! i" "g ! (i + 1) = h ! (i + 1)" using i assms(1) by (simp_all add: g nth_append)
    have "for_range 0 256 (\<lambda>j r. r[j := g ! (i + 1) ! j]) (g ! i) = h ! (i + 1)"
      using copy_loop [of 256 "h ! (i + 1)" "h ! i"] l [of i] l [of "i + 1"] i unfolding e by simp
    then show "g[i := for_range 0 256 (\<lambda>j r. r[j := g ! (i + 1) ! j]) (g ! i)] = take (Suc i) (tl h) @ drop (Suc i) h"
      using i assms(1)
      by (simp add: g list_update_append take_Suc_conv_app_nth nth_tl Cons_nth_drop_Suc [symmetric])
  qed simp_all
  then show ?thesis using assms(1) by (cases h) (simp_all add: Cons_nth_drop_Suc [symmetric])
qed

lemma line_copied:
  assumes "length buf = 256" and "length row = 256" and "idx \<le> 255" and "is_line (take idx buf)"
  shows "cstr (copy_line idx (buf[idx := 0]) row) = take idx buf" and "length (copy_line idx (buf[idx := 0]) row) = 256"
proof -
  have "copy_line idx (buf[idx := 0]) row = take idx buf @ 0 # drop (idx + 1) row"
    using assms copy_loop [of "idx + 1" "buf[idx := 0]" row] by (simp add: copy_line_def take_Suc_conv_app_nth)
  moreover have "0 \<notin> set (take idx buf)" using assms(4) by (simp add: is_line_def)
  ultimately show "cstr (copy_line idx (buf[idx := 0]) row) = take idx buf" "length (copy_line idx (buf[idx := 0]) row) = 256"
    using assms by (simp_all add: cstr_append_zero min_def)
qed

lemma save_history_spec:
  fixes s :: "'a shell_scheme"
  assumes ok: "editor_ok s"
  obtains h n where "save_history (s\<lparr>input_buffer := (input_buffer s)[buffer_idx s := 0]\<rparr>) =
      s\<lparr>input_buffer := (input_buffer s)[buffer_idx s := 0], history_buffer := h, history_count := n\<rparr>"
    "length h = 10" "\<forall>row \<in> set h. length row = 256" "n \<le> 10" "\<forall>i < n. length (cstr (h ! i)) \<le> 255"
    "map cstr (take n h) = ehist (ed_enter (editor_of s))"
proof -
  let ?h = "history_buffer s" and ?n = "history_count s" and ?b = "input_buffer s" and ?i = "buffer_idx s"
  let ?l = "take ?i ?b" and ?s = "s\<lparr>input_buffer := (input_buffer s)[buffer_idx s := 0]\<rparr>"
  have b: "length ?b = 256" "?i \<le> 255" "is_line ?l" and h: "length ?h = 10" "\<forall>row \<in> set ?h. length row = 256" "?n \<le> 10"
    "\<forall>i < ?n. length (cstr (?h ! i)) \<le> 255" using ok by (simp_all add: editor_ok_def)
  have row: "length (?h ! k) = 256" if "k < 10" for k using h that by simp
  have buf: "cstr (?b[?i := 0]) = ?l"
  proof -
    have "?b[?i := 0] = ?l @ 0 # drop (Suc ?i) ?b" using b by (intro upd_conv_take_nth_drop) simp
    then show ?thesis using b(3) by (simp add: is_line_def cstr_append_zero)
  qed
  have last: "?n > 0 \<Longrightarrow> last (map cstr (take ?n ?h)) = cstr (?h ! (?n - 1))" 
  proof -
    assume n: "?n > 0"
    then have "take ?n ?h \<noteq> []" using h(1) by auto
    then show ?thesis using n h by (simp add: last_map last_conv_nth)
  qed
  have same: "?n \<noteq> 0 \<Longrightarrow> strcmp (?h ! (?n - 1)) (?b[?i := 0]) = 0 \<longleftrightarrow> last (map cstr (take ?n ?h)) = ?l" using last by (simp add: strcmp_eq_0 buf)
  have ne: "?l = [] \<longleftrightarrow> ?i = 0" "map cstr (take ?n ?h) = [] \<longleftrightarrow> ?n = 0" using b h by auto
  have eh: "ehist (ed_enter (editor_of s)) =
      (if ?i = 0 \<or> ?n \<noteq> 0 \<and> strcmp (?h ! (?n - 1)) (?b[?i := 0]) = 0 then map cstr (take ?n ?h)
       else (if ?n < 10 then map cstr (take ?n ?h) else tl (map cstr (take ?n ?h))) @ [?l])"
    using ne same h by (auto simp: ed_enter_def editor_of_def Let_def)
  consider (keep) "?i = 0 \<or> ?n \<noteq> 0 \<and> strcmp (?h ! (?n - 1)) (?b[?i := 0]) = 0"
    | (add) "?i \<noteq> 0" "?n = 0 \<or> strcmp (?h ! (?n - 1)) (?b[?i := 0]) \<noteq> 0" "?n < 10"
    | (full) "?i \<noteq> 0" "?n = 0 \<or> strcmp (?h ! (?n - 1)) (?b[?i := 0]) \<noteq> 0" "?n = 10" using h(3) by linarith
  then show ?thesis
  proof cases
    case keep
    have "save_history ?s = ?s\<lparr>history_buffer := ?h, history_count := ?n\<rparr>" using keep by (auto simp: save_history_def Let_def)
    then show ?thesis using that [where h = ?h and n = ?n] h eh keep by simp
  next
    case add
    let ?r = "copy_line ?i (?b[?i := 0]) (?h ! ?n)"
    have r: "cstr ?r = ?l" "length ?r = 256" using line_copied [OF b(1) row b(2,3)] add(3) by simp_all
    have sv: "save_history ?s = ?s\<lparr>history_buffer := ?h[?n := ?r], history_count := ?n + 1\<rparr>"
      using add by (simp add: save_history_def Let_def HISTORY_MAX_def)
    have "take (?n + 1) (?h[?n := ?r]) = take ?n ?h @ [?r]" using add(3) h(1) by (simp add: take_Suc_conv_app_nth)
    moreover have "\<forall>row \<in> set (?h[?n := ?r]). length row = 256" using h(2) r(2) set_update_subset_insert [of ?h ?n ?r] by blast
    moreover have "length (cstr (?h[?n := ?r] ! i)) \<le> 255" if "i < ?n + 1" for i
      using that add(3) h(1,4) r(1) b(2) by (auto simp: nth_list_update)
    ultimately show ?thesis
      using that [where h = "?h[?n := ?r]" and n = "?n + 1"] sv h(1) r(1) eh add by simp
  next
    case full
    let ?g = "tl ?h @ [?h ! 9]"
    let ?r = "copy_line ?i (?b[?i := 0]) (?h ! 9)"
    have r: "cstr ?r = ?l" "length ?r = 256" using line_copied [OF b(1) row b(2,3)] by simp_all
    have g: "?g ! 9 = ?h ! 9" "?g[9 := ?r] = tl ?h @ [?r]" using h(1) by (simp_all add: nth_append list_update_append)
    have sv: "save_history ?s = ?s\<lparr>history_buffer := tl ?h @ [?r], history_count := ?n\<rparr>"
      using full shift_rows [OF h(1,2)] g by (simp add: save_history_def Let_def HISTORY_MAX_def BUFFER_SIZE_def)
    have tl: "set (tl ?h) \<subseteq> set ?h" by (cases ?h) auto
    have "length (cstr ((tl ?h @ [?r]) ! i)) \<le> 255" if "i < 10" for i
      using that h(1,4) full(3) r(1) b(2) by (cases "i < 9") (auto simp: nth_append nth_tl)
    then show ?thesis
      using that [where h = "tl ?h @ [?r]" and n = ?n] sv h r eh full tl by (auto simp: map_tl)
  qed
qed

text \<open>Commands that print or change a directory, which leave the variables of the editor alone and always return.\<close>

definition keeps_editor :: "'a shell_scheme \<Rightarrow> 'a shell_scheme \<Rightarrow> bool" where
  "keeps_editor s t \<longleftrightarrow> input_buffer t = input_buffer s \<and> buffer_idx t = buffer_idx s \<and> history_buffer t = history_buffer s \<and>
     history_count t = history_count s \<and> history_nav_idx t = history_nav_idx s"

definition simple_command :: "cstring \<Rightarrow> bool" where
  "simple_command cmd \<longleftrightarrow> strcmp cmd (lit ''pci'') \<noteq> 0 \<and> strncmp cmd (lit ''sleep '') 6 \<noteq> 0 \<and> strcmp cmd (lit ''vinit'') \<noteq> 0 \<and>
     strncmp cmd (lit ''ls'') 2 \<noteq> 0 \<and> strncmp cmd (lit ''cat '') 4 \<noteq> 0 \<and> strncmp cmd (lit ''exec '') 5 \<noteq> 0 \<and>
     strncmp cmd (lit ''cd '') 3 \<noteq> 0 \<and> strcmp cmd (lit ''beep'') \<noteq> 0"

lemma says_con: "\<exists>c. says lns s = s\<lparr>con := c\<rparr>"
proof (induction lns arbitrary: s)
  case Nil
  have "says [] s = s\<lparr>con := con s\<rparr>" by (simp add: says_def)
  then show ?case by blast
next
  case (Cons l lns)
  obtain c where "says lns (say (lit l @ [10]) s) = (say (lit l @ [10]) s)\<lparr>con := c\<rparr>" using Cons by blast
  then show ?case by (auto simp: says_def say_def)
qed

lemma keeps_says [simp]: "keeps_editor s (says lns t) \<longleftrightarrow> keeps_editor s t"
proof -
  obtain c where "says lns t = t\<lparr>con := c\<rparr>" using says_con by blast
  then show ?thesis by (simp add: keeps_editor_def)
qed

lemma keeps_say [simp]: "keeps_editor s (say str t) \<longleftrightarrow> keeps_editor s t" "keeps_editor s (say_uint n t) \<longleftrightarrow> keeps_editor s t"
  by (simp_all add: keeps_editor_def say_def say_uint_def say_int_def on_con_def)

lemma keeps_on_fs [simp]: "keeps_editor s (snd (on_fs f t)) \<longleftrightarrow> keeps_editor s t"
  by (simp add: keeps_editor_def on_fs_def split: prod.split)

lemma keeps_refl [simp]: "keeps_editor s s"
  by (simp add: keeps_editor_def)

lemma simple_returns:
  assumes "simple_command cmd" and "shell_cwd_node s \<noteq> 0"
  shows "\<exists>t. execute_command env halt gfx cmd s = Some t \<and> keeps_editor s t"
proof -
  have con: "keeps_editor s (s\<lparr>con := c\<rparr>)" "keeps_editor s (s\<lparr>con := c, drv := d\<rparr>)" for c d by (simp_all add: keeps_editor_def)
  have "keeps_editor s (cmd_reboot s)" 
  proof -
    obtain c where "says [''Sistem yeniden baslatiliyor...''] s = s\<lparr>con := c\<rparr>" using says_con by blast
    then show ?thesis by (simp add: cmd_reboot_def con)
  qed
  moreover have "keeps_editor s (cmd_clear s)" by (simp add: cmd_clear_def con)
  moreover have "keeps_editor s (cmd_format s)"
    unfolding cmd_format_def by (simp add: split_beta)
  moreover have "keeps_editor s (cmd_mem s)" by (simp add: cmd_mem_def say_frames_def Let_def)
  moreover have "\<exists>t. cmd_mkdir a s = Some t \<and> keeps_editor s t" "\<exists>t. cmd_touch a s = Some t \<and> keeps_editor s t"
      "\<exists>t. cmd_rm a s = Some t \<and> keeps_editor s t" "\<exists>t. cmd_rmdir a s = Some t \<and> keeps_editor s t" for a
    using assms(2) by (simp_all add: cmd_mkdir_def cmd_touch_def cmd_rm_def cmd_rmdir_def cwd_inode_def split_beta)
  ultimately show ?thesis
    using assms(1) by (simp add: execute_command_def simple_command_def cmd_help_def cmd_uptime_def cmd_ticks_def Let_def)
qed

text \<open>
  C20: Enter on a line with a command that prints or changes a directory (everything but the commands that
  start hardware, programs or waits, and path lookups) always returns: the line is appended to the history unless it is empty
  or repeats the newest entry, the oldest of ten entries leaves, and editing goes on with an
  empty line at the end of the history.
\<close>

theorem shell_enter_history:
  assumes "editor_ok s" and "vbe_is_active (con s) = 0" and "shell_cwd_node s \<noteq> 0"
    and "simple_command ((input_buffer s)[buffer_idx s := 0])"
  shows "\<exists>s'. shell_key env halt gfx 10 s = Some s' \<and> editor_ok s' \<and> editor_of s' = ed_enter (editor_of s)"
proof -
  let ?s = "put_con 10 s"
  have e: "editor_ok ?s" "editor_of ?s = editor_of s" using assms(1) by (simp_all add: editor_ok_def editor_of_def put_con_def)
  obtain h n where sv: "save_history (?s\<lparr>input_buffer := (input_buffer ?s)[buffer_idx ?s := 0]\<rparr>) =
      ?s\<lparr>input_buffer := (input_buffer ?s)[buffer_idx ?s := 0], history_buffer := h, history_count := n\<rparr>"
    and h: "length h = 10" "\<forall>row \<in> set h. length row = 256" "n \<le> 10" "\<forall>i < n. length (cstr (h ! i)) \<le> 255"
      "map cstr (take n h) = ehist (ed_enter (editor_of s))"
    using save_history_spec [OF e(1)] unfolding e(2) by metis
  define s2 where "s2 = ?s\<lparr>input_buffer := (input_buffer ?s)[buffer_idx ?s := 0], history_buffer := h, history_count := n\<rparr>"
  have "shell_cwd_node s2 \<noteq> 0" "simple_command (input_buffer s2)" using assms(3,4) by (simp_all add: s2_def put_con_def)
  then obtain s3 where s3: "execute_command env halt gfx (input_buffer s2) s2 = Some s3" "keeps_editor s2 s3"
    using simple_returns by blast
  let ?z = "for_range 0 BUFFER_SIZE (\<lambda>i b. b[i := 0]) (input_buffer s3)"
  define s4 where "s4 = s3\<lparr>buffer_idx := 0, input_buffer := ?z, history_nav_idx := int (history_count s3)\<rparr>"
  have key: "shell_key env halt gfx 10 s = Some (if shell_active s4 \<noteq> 0 then print_prompt s4 else s4)"
    using assms(2) s3(1) sv by (simp add: shell_key_def key_enter_def s4_def s2_def Let_def)
  have "length ?z = length (input_buffer s3)"
    by (rule for_range_inv [where P = "\<lambda>_ b. length b = length (input_buffer s3)"]) simp_all
  moreover have b: "length (input_buffer s2) = 256" using assms(1) by (simp add: editor_ok_def s2_def put_con_def)
  ultimately have "editor_ok s4" using s3(2) h by (simp add: editor_ok_def s4_def keeps_editor_def s2_def is_line_def)
  moreover have "length (ehist (ed_enter (editor_of s))) = n" using h(1,3) unfolding h(5) [symmetric] by simp
  then have "editor_of s4 = ed_enter (editor_of s)"
    using s3(2) h by (simp add: editor_of_def s4_def keeps_editor_def s2_def) (simp add: ed_enter_def Let_def)
  moreover have "editor_ok (print_prompt s4) = editor_ok s4" "editor_of (print_prompt s4) = editor_of s4"
    by (simp_all add: editor_ok_def editor_of_def print_prompt_def say_def)
  ultimately show ?thesis using key by auto
qed

section \<open>Instances\<close>

definition demo_shell :: "sysstate \<Rightarrow> shell" where
  "demo_shell s = hwstate.extend (sysstate.extend (s\<lparr>input_buffer := replicate 256 0, buffer_idx := 0,
       history_buffer := replicate 10 (replicate 256 0), history_nav_idx := 0, shell_cwd_path := 0x2F # replicate 127 0\<rparr>)
     (hwstate.fields 0 0 0 0 0 [] \<lparr>dev = (\<lambda>_ _. 0), reads = (\<lambda>_. 0), outs = []\<rparr> [] 0 0 0 0 0 0 0 0 0 0 0 0 0)) (shell.fields 0)"

lemma demo_shell_sel:
  "input_buffer (demo_shell s) = replicate 256 0" "buffer_idx (demo_shell s) = 0" "history_buffer (demo_shell s) = replicate 10 (replicate 256 0)"
  "history_nav_idx (demo_shell s) = 0" "history_count (demo_shell s) = 0" "con (demo_shell s) = con s" "shell_cwd_node (demo_shell s) = shell_cwd_node s"
  by (simp_all add: demo_shell_def sysstate.defs hwstate.defs shell.defs)

definition demo_typed :: shell where
  "demo_typed = (demo_shell (demo_sys (demo_system two_names)))\<lparr>input_buffer := (replicate 256 0)[0 := 0x68, 1 := 0x69], buffer_idx := 2,
     shell_cwd_node := 0x1000, con := demo_console\<lparr>vbe_active := 0\<rparr>\<rparr>"

lemma strncmp_first: "rd8 s1 \<noteq> rd8 s2 \<Longrightarrow> 0 < n \<Longrightarrow> strncmp s1 s2 n \<noteq> 0"
  by (cases n) (simp_all flip: word_eq_iff_signed)

lemma typed_line: "(replicate 256 0)[0 := 0x68, 1 := 0x69, 2 := 0] = 0x68 # 0x69 # replicate 254 (0 :: u8)"
proof -
  have "replicate 256 (0 :: u8) = replicate 3 0 @ replicate 253 0" "replicate 254 (0 :: u8) = replicate 1 0 @ replicate 253 0"
    unfolding replicate_add [symmetric] by simp_all
  then show ?thesis by (simp add: numeral_3_eq_3 numeral_2_eq_2)
qed

lemma demo_typed_ok: "editor_ok demo_typed" "editor_of demo_typed = \<lparr>eline = [0x68, 0x69], ehist = [], enav = 0\<rparr>" "vbe_is_active (con demo_typed) = 0"
proof -
  have "take 2 ((replicate 256 0)[0 := 0x68, 1 := 0x69]) = [0x68, 0x69 :: u8]" by (simp add: numeral_2_eq_2 take_Suc_conv_app_nth)
  then show "editor_ok demo_typed" "editor_of demo_typed = \<lparr>eline = [0x68, 0x69], ehist = [], enav = 0\<rparr>"
    by (simp_all add: editor_ok_def editor_of_def demo_typed_def demo_shell_sel is_line_def)
  show "vbe_is_active (con demo_typed) = 0"
    by (simp add: demo_typed_def vbe_is_active_def)
qed

theorem shell_key_edits_witness:
  "\<exists>s'. shell_key (\<lambda>_ s. s) (\<lambda>_ d. d) Some 8 demo_typed = Some s' \<and> eline (editor_of s') = [0x68]"
  using shell_key_edits [OF demo_typed_ok(1,3), of 8 "\<lambda>_ s. s" "\<lambda>_ d. d" Some] by (auto simp: demo_typed_ok(2) ed_key_def)

theorem shell_enter_history_witness:
  "\<exists>s'. shell_key (\<lambda>_ s. s) (\<lambda>_ d. d) Some 10 demo_typed = Some s' \<and> editor_of s' = \<lparr>eline = [], ehist = [[0x68, 0x69]], enav = 1\<rparr>"
proof -
  have "(input_buffer demo_typed)[buffer_idx demo_typed := 0] = 0x68 # 0x69 # replicate 254 0"
    using typed_line by (simp add: demo_typed_def)
  then have "simple_command ((input_buffer demo_typed)[buffer_idx demo_typed := 0])"
    by (simp add: simple_command_def strcmp_eq_0 strncmp_first lit_def cstr_Cons)
  moreover have "shell_cwd_node demo_typed \<noteq> 0" by (simp add: demo_typed_def)
  ultimately show ?thesis
    using shell_enter_history [OF demo_typed_ok(1,3), of "\<lambda>_ s. s" "\<lambda>_ d. d" Some] by (auto simp: demo_typed_ok(2) ed_enter_def)
qed
end
