(* ===== verification/Shell_Path.thy ===== *)
theory Shell_Path
  imports Shell_Editor
begin

text \<open>
  The path of the working directory as a list of names, what \<open>cd\<close> does to the array that holds it, and the
  state in which the node of the working directory is the one the path leads to.
\<close>

section \<open>Paths as lists of names\<close>

lemma rd8_cstr: "rd8 (cstr p) = rd8 p"
  by (cases p) (simp_all add: cstr_Cons)

lemma cstr_cstr [simp]: "cstr (cstr p) = cstr p"
  by (simp add: cstr_id cstr_nz)

lemma path_names_cstr: "path_names (cstr p) = path_names p"
  by (subst (1 2) path_names.simps) (simp add: rd8_cstr path_name_def path_rest_def)

lemma takeWhile_slash: "0x2F \<notin> set x \<Longrightarrow> takeWhile (\<lambda>c. c \<noteq> 0x2F) (x @ 0x2F # y) = x"
  "0x2F \<notin> set x \<Longrightarrow> dropWhile (\<lambda>c. c \<noteq> 0x2F) (x @ 0x2F # y) = 0x2F # y" for x y :: "u8 list"
  by (auto simp: takeWhile_append dropWhile_append takeWhile_eq_all_conv)

definition component :: "cstring \<Rightarrow> cstring list" where
  "component x = (if x = [] \<or> x = [0x2E] then [] else [x])"

lemma path_names_slash:
  assumes "0 \<notin> set x" and "0x2F \<notin> set x"
  shows "path_names (x @ 0x2F # b) = component x @ path_names b" and "path_names x = component x"
proof -
  have c: "cstr (x @ 0x2F # b) = x @ 0x2F # cstr b" using assms(1) by (simp add: cstr_def takeWhile_append)
  have "rd8 (x @ 0x2F # b) \<noteq> 0" using assms(1) by (cases x) auto
  then show "path_names (x @ 0x2F # b) = component x @ path_names b"
    by (subst path_names.simps) (simp add: path_name_def path_rest_def c takeWhile_slash [OF assms(2)] component_def path_names_cstr)
  show "path_names x = component x"
  proof (cases x)
    case Nil
    then show ?thesis by (simp add: path_names.simps component_def)
  next
    case (Cons a y)
    have "takeWhile (\<lambda>c. c \<noteq> 0x2F) x = x" "dropWhile (\<lambda>c. c \<noteq> 0x2F) x = []" using assms(2) by (auto simp: takeWhile_eq_all_conv)
    moreover have "rd8 x \<noteq> 0" using assms(1) Cons by auto
    moreover have "path_names [] = []" by (simp add: path_names.simps)
    ultimately show ?thesis
      by (subst path_names.simps) (simp add: path_name_def path_rest_def cstr_id [OF assms(1)] component_def del: takeWhile_eq_all_conv dropWhile_eq_Nil_conv)
  qed
qed

lemma path_names_append: "0 \<notin> set a \<Longrightarrow> path_names (a @ 0x2F # b) = path_names a @ path_names b"
proof (induction a rule: length_induct)
  case (1 a)
  show ?case
  proof (cases "0x2F \<in> set a")
    case False
    then show ?thesis using path_names_slash [OF 1(2) False] by simp
  next
    case True
    then obtain x y where a: "a = x @ 0x2F # y" "0x2F \<notin> set x" using split_list_first by metis
    then have "0 \<notin> set x" "0 \<notin> set y" "length y < length a" using 1(2) by auto
    then show ?thesis using 1(1) path_names_slash(1) [OF _ a(2)] a(1) by simp
  qed
qed

lemma path_names_leading: "path_names (0x2F # b) = path_names b"
  using path_names_append [of "[]" b] by (simp add: path_names.simps [of "[]"])

lemma path_names_trailing: "0 \<notin> set a \<Longrightarrow> path_names (a @ [0x2F]) = path_names a"
  using path_names_append [of a "[]"] by (simp add: path_names.simps [of "[]"])

section \<open>The path array\<close>

text \<open>The last component of a path, before a slash at its end.\<close>

definition last_component :: "cstring \<Rightarrow> cstring" where
  "last_component q = rev (takeWhile (\<lambda>c. c \<noteq> 0x2F) (rev (if last q = 0x2F then butlast q else q)))"

definition path_array :: "u8 list \<Rightarrow> bool" where
  "path_array p \<longleftrightarrow> length p = 128 \<and> length (cstr p) < 128 \<and> rd8 p = 0x2F"

lemma cstr_split: "length (cstr p) < length p \<Longrightarrow> p = cstr p @ 0 # drop (Suc (length (cstr p))) p"
proof -
  assume l: "length (cstr p) < length p"
  have "take (length (cstr p)) p = cstr p" unfolding cstr_def by (rule takeWhile_eq_take [symmetric])
  then show ?thesis using l cstr_terminated [OF l] id_take_nth_drop [OF l] by simp
qed

lemma cstr_nth: "i < length (cstr p) \<Longrightarrow> cstr p ! i = p ! i"
  unfolding cstr_def by (simp add: takeWhile_nth)

lemma cstr_cut: "i \<le> length (cstr p) \<Longrightarrow> i < length p \<Longrightarrow> cstr (p[i := 0]) = take i (cstr p)"
proof -
  assume i: "i \<le> length (cstr p)" "i < length p"
  have "take i p = take i (cstr p)" using i by (intro nth_equalityI) (simp_all add: cstr_nth)
  then have "p[i := 0] = take i (cstr p) @ 0 # drop (Suc i) p" using i(2) by (simp add: upd_conv_take_nth_drop)
  moreover have "0 \<notin> set (take i (cstr p))" using cstr_nz in_set_takeD by metis
  ultimately show ?thesis by (simp add: cstr_append_zero)
qed

lemma put_cstr_spec:
  assumes "put_cstr pos str p = Some p'" and "pos \<le> length (cstr p)"
  shows "cstr p' = take pos (cstr p) @ cstr str" and "length p' = length p"
proof -
  have l: "pos + length (cstr str) < length p" and p': "p' = overwrite pos (cstr str @ [0]) p" using assms(1) by (simp_all add: put_cstr_def split: if_splits)
  have "take pos p = take pos (cstr p)" using assms(2) l by (intro nth_equalityI) (simp_all add: cstr_nth)
  then have "p' = (take pos (cstr p) @ cstr str) @ 0 # drop (pos + Suc (length (cstr str))) p" unfolding p' by (simp add: overwrite_def)
  moreover have "0 \<notin> set (take pos (cstr p) @ cstr str)" using cstr_nz by (auto dest: in_set_takeD)
  ultimately show "cstr p' = take pos (cstr p) @ cstr str" by (metis cstr_append_zero)
  show "length p' = length p" using l by (simp add: p')
qed

lemma last_slash_spec: "(\<exists>i < n. p ! i = 0x2F) \<Longrightarrow> last_slash p n < n \<and> p ! last_slash p n = 0x2F \<and> (\<forall>j. last_slash p n < j \<and> j < n \<longrightarrow> p ! j \<noteq> 0x2F)"
proof (induction n)
  case (Suc n)
  show ?case
  proof (cases "p ! n = 0x2F")
    case False
    then have "\<exists>i < n. p ! i = 0x2F" using Suc.prems less_Suc_eq by auto
    then show ?thesis using Suc.IH False by (auto simp: less_Suc_eq)
  qed auto
qed simp

lemma parent_path_spec:
  assumes p: "path_array p" and ne: "cstr p \<noteq> [0x2F]"
  shows "path_array (parent_path p)" and "path_names (cstr p) = path_names (cstr (parent_path p)) @ component (last_component (cstr p))"
proof -
  let ?q = "cstr p"
  have l: "length p = 128" "length ?q < 128" using p by (simp_all add: path_array_def)
  have q0: "?q \<noteq> []" "?q ! 0 = 0x2F" using p by (cases p; simp add: path_array_def cstr_Cons)+
  define n where "n = (if last ?q = 0x2F then length ?q - 1 else length ?q)"
  have n: "0 < n" "n \<le> length ?q" using q0 ne by (cases ?q; auto simp: n_def)+
  have lst: "p ! (strlen p - 1) = last ?q" using q0 cstr_nth [of "length ?q - 1" p] by (simp add: strlen_cstr last_conv_nth)
  define i where "i = last_slash p n"
  have at: "p ! k = ?q ! k" if "k < n" for k using that n(2) by (simp add: cstr_nth)
  have "\<exists>k < n. p ! k = 0x2F" using n(1) q0 at by (metis)
  then have i: "i < n" "?q ! i = 0x2F" "\<And>j. i < j \<Longrightarrow> j < n \<Longrightarrow> ?q ! j \<noteq> 0x2F"
    using last_slash_spec [of n p] at unfolding i_def by auto
  have ls: "last_slash p (if p ! (strlen p - 1) = 0x2F then strlen p - 1 else strlen p) = i"
    unfolding lst i_def n_def by (simp add: strlen_cstr)
  have pp: "parent_path p = p[i + 1 := 0]"
    unfolding parent_path_def Let_def ls by simp
  have c: "cstr (parent_path p) = take (i + 1) ?q" unfolding pp by (rule cstr_cut) (use i(1) n l in auto)
  have "rd8 (parent_path p) = rd8 p" unfolding pp by (cases p) simp_all
  then show "path_array (parent_path p)" using p c l by (simp add: path_array_def pp)
  define mid where "mid = drop (i + 1) (take n ?q)"
  have tn: "take n ?q = take i ?q @ 0x2F # mid"
    using i(1,2) n(2) id_take_nth_drop [of i "take n ?q"] by (simp add: mid_def min_def)
  have ms: "0x2F \<notin> set mid"
  proof
    assume "0x2F \<in> set mid"
    then obtain k where k: "k < length mid" "mid ! k = 0x2F" by (auto simp: in_set_conv_nth)
    then have "i + 1 + k < n" by (simp add: mid_def)
    then show False using k i(3) [of "i + 1 + k"] n(2) by (simp add: mid_def)
  qed
  have nz: "0 \<notin> set (take i ?q)" "0 \<notin> set mid" "0 \<notin> set (take n ?q)" using cstr_nz by (auto simp: mid_def dest: in_set_takeD in_set_dropD)
  have tail: "?q = (if last ?q = 0x2F then take n ?q @ [0x2F] else take n ?q)"
    using q0(1) append_butlast_last_id [of ?q] by (auto simp: n_def butlast_conv_take)
  then have "path_names ?q = path_names (take n ?q)" using path_names_trailing [OF nz(3)] by (auto split: if_splits)
  also have "\<dots> = path_names (take i ?q) @ component mid"
    unfolding tn path_names_append [OF nz(1)] using path_names_slash(2) [OF nz(2) ms] by simp
  also have "mid = last_component ?q"
  proof -
    have "(if last ?q = 0x2F then butlast ?q else ?q) = take i ?q @ 0x2F # mid"
      unfolding tn [symmetric] by (simp add: n_def butlast_conv_take)
    then show ?thesis unfolding last_component_def using ms by (simp add: takeWhile_append takeWhile_eq_all_conv)
  qed
  also have "take (i + 1) ?q = take i ?q @ [0x2F]" using i(1,2) n(2) by (simp add: take_Suc_conv_app_nth)
  then have "path_names (take i ?q) = path_names (cstr (parent_path p))" unfolding c using path_names_trailing [OF nz(1)] by simp
  finally show "path_names ?q = path_names (cstr (parent_path p)) @ component (last_component ?q)" .
qed

lemma extend_path_spec:
  assumes p: "path_array p" and e: "extend_path path p = Some p'"
  shows "path_array p'" and "path_names (cstr p') = (if rd8 path = 0x2F then [] else path_names (cstr p)) @ path_names path"
proof -
  let ?q = "cstr p"
  have l: "length p = 128" "length ?q < 128" using p by (simp_all add: path_array_def)
  have q0: "?q \<noteq> []" "?q ! 0 = 0x2F" using p by (cases p; simp add: path_array_def cstr_Cons)+
  have lst: "p ! (strlen p - 1) = last ?q" using q0 cstr_nth [of "length ?q - 1" p] by (simp add: strlen_cstr last_conv_nth)
  have bound: "put_cstr pos x r = Some r' \<Longrightarrow> pos \<le> length (cstr r) \<Longrightarrow> length (cstr r') < length r" for pos x r r'
    using put_cstr_spec(1) [of pos x r r'] by (auto simp: put_cstr_def split: if_splits)
  consider (abs) "rd8 path = 0x2F" | (rel) "rd8 path \<noteq> 0x2F" "last ?q = 0x2F" | (sep) "rd8 path \<noteq> 0x2F" "last ?q \<noteq> 0x2F" by blast
  then have "path_array p' \<and> path_names (cstr p') = (if rd8 path = 0x2F then [] else path_names (cstr p)) @ path_names path"
  proof cases
    case abs
    then have s: "put_cstr 0 path p = Some p'" using e by (simp add: extend_path_def)
    then have "cstr p' = cstr path" "length p' = 128" "length (cstr p') < 128" using put_cstr_spec [OF s] bound [OF s] l by simp_all
    moreover have "rd8 p' = rd8 path" using \<open>cstr p' = cstr path\<close> rd8_cstr by metis
    ultimately show ?thesis using abs by (simp add: path_array_def path_names_cstr)
  next
    case rel
    then have s: "put_cstr (length ?q) path p = Some p'" using e lst by (simp add: extend_path_def strlen_cstr)
    have c: "cstr p' = ?q @ cstr path" "length p' = 128" "length (cstr p') < 128" using put_cstr_spec [OF s] bound [OF s] l by simp_all
    have "rd8 p' = rd8 p" using c(1) q0 rd8_cstr [of p'] rd8_cstr [of p] by (cases ?q) auto
    moreover have "?q = butlast ?q @ [0x2F]" using q0(1) rel(2) append_butlast_last_id by metis
    then have "?q @ cstr path = butlast ?q @ 0x2F # cstr path" "0 \<notin> set (butlast ?q)"
      using cstr_nz [of p] by (metis append.assoc append_Cons append_Nil, metis in_set_butlastD)
    then have "path_names (cstr p') = path_names (butlast ?q) @ path_names path" "path_names ?q = path_names (butlast ?q)"
      using path_names_append path_names_trailing \<open>?q = butlast ?q @ [0x2F]\<close> c(1) path_names_cstr by metis+
    ultimately show ?thesis using c p rel by (simp add: path_array_def)
  next
    case sep
    let ?p = "p[length ?q := 0x2F]"
    have s: "put_cstr (length ?q + 1) path ?p = Some p'" using e lst l sep by (simp add: extend_path_def strlen_cstr Let_def split: if_splits)
    have lq: "length ?q + 1 < 128" using s l by (simp add: put_cstr_def split: if_splits)
    have "?p = ?q @ 0x2F # drop (Suc (length ?q)) p" using cstr_split [of p] l by (metis list_update_length)
    then have cp: "cstr ?p = ?q @ 0x2F # cstr (drop (Suc (length ?q)) p)" using cstr_nz [of p] by (simp add: cstr_def takeWhile_append)
    have tk: "take (length ?q + 1) (cstr ?p) = ?q @ [0x2F]" unfolding cp by simp
    have c: "cstr p' = (?q @ [0x2F]) @ cstr path" "length p' = 128"
      using put_cstr_spec [OF s] l unfolding tk by (simp_all add: cp)
    have "length (cstr p') < 128" using bound [OF s] l by (simp add: cp)
    moreover have "rd8 p' = rd8 p" using c(1) q0 rd8_cstr [of p'] rd8_cstr [of p] by (cases ?q) auto
    moreover have "path_names (cstr p') = path_names ?q @ path_names path"
      using path_names_append [OF cstr_nz] c(1) path_names_cstr by (metis append.assoc append_Cons append_Nil)
    ultimately show ?thesis using c p sep by (simp add: path_array_def)
  qed
  then show "path_array p'" "path_names (cstr p') = (if rd8 path = 0x2F then [] else path_names (cstr p)) @ path_names path" by simp_all
qed

lemma path_start_names: "path_start from path s = (if rd8 path = 0x2F then vfs_root s else from, if rd8 path = 0x2F then tl path else path)"
  by (simp add: path_start_def)

lemma path_names_tl: "rd8 path = 0x2F \<Longrightarrow> path_names (tl path) = path_names path"
  using path_names_leading [of "tl path"] by (cases path) simp_all

lemma pafs_resolve_append:
  "pafs_resolve q i (ns @ ms) = (case pafs_resolve q i ns of None \<Rightarrow> None | Some j \<Rightarrow> pafs_resolve q j ms)"
  by (induction ns arbitrary: i) (simp_all add: Let_def)

section \<open>The working directory\<close>

definition names_ok :: "cstring list \<Rightarrow> bool" where
  "names_ok ns \<longleftrightarrow> (\<forall>n \<in> set ns. length n < 128 \<and> n \<noteq> lit ''mnt'')"

text \<open>
  The node of the working directory is the only block of the heap that belongs to the shell, \<open>M\<close> are the
  others; the root node, of inode \<open>ri\<close>, is shared. The path is the one that leads to the node from the root.
\<close>

definition wd_node_ok :: "u32 \<Rightarrow> (u32 \<times> nat) set \<Rightarrow> u32 \<Rightarrow> 'a sysstate_scheme \<Rightarrow> bool" where
  "wd_node_ok hb M ri s \<longleftrightarrow> kheap_ok hb (heap s) \<and> finite M \<and> card M < 399 \<and> (\<forall>(p, c) \<in> M. c \<le> 4200) \<and> tree_ok (fs s) \<and>
     vfs_root s \<noteq> 0 \<and> pafs_root_node s = vfs_root s \<and> vfs_root s \<in> fst ` M \<and> unat ri < 128 \<and>
     pafs_view (nodes s (vfs_root s)) ri (fs s) \<and>
     (if shell_cwd_node s = vfs_root s then kheap_live hb (heap s) = M
      else shell_cwd_node s \<noteq> 0 \<and> shell_cwd_node s \<notin> fst ` M \<and> (\<exists>c \<le> 207. kheap_live hb (heap s) = insert (shell_cwd_node s, c) M)) \<and>
     unat (vinode (nodes s (shell_cwd_node s))) < 128 \<and>
     pafs_view (nodes s (shell_cwd_node s)) (vinode (nodes s (shell_cwd_node s))) (fs s)"

definition wd_names :: "'a sysstate_scheme \<Rightarrow> cstring list" where
  "wd_names s = path_names (cstr (shell_cwd_path s))"

definition wd_ok :: "u32 \<Rightarrow> (u32 \<times> nat) set \<Rightarrow> u32 \<Rightarrow> 'a sysstate_scheme \<Rightarrow> bool" where
  "wd_ok hb M ri s \<longleftrightarrow> wd_node_ok hb M ri s \<and> path_array (shell_cwd_path s) \<and> names_ok (wd_names s) \<and>
     pafs_resolve (fs s) ri (wd_names s) = Some (vinode (nodes s (shell_cwd_node s)))"

lemma node_room_few:
  assumes "finite L" and "card L < 400" and "\<forall>(p, c) \<in> L. c \<le> 4200"
  shows "node_room base L"
  unfolding node_room_def
proof (intro allI impI)
  fix h X h'
  assume ok: "kheap_ok base h" and l: "kheap_live base h = L \<union> X" and x: "X = {} \<or> (\<exists>p c. X = {(p, c)} \<and> c \<le> 207)"
  have "card X \<le> 1" using x by auto
  then have "card (L \<union> X) \<le> 400" using card_Un_le [of L X] assms(2) by linarith
  moreover have "\<forall>(p, c) \<in> L \<union> X. c \<le> 4200" using assms(3) x by fastforce
  ultimately show "kmalloc sizeof_vfs_node h \<noteq> Some (0, h')"
    using heap_room [OF ok, of 400 4200] unfolding l by (simp add: sizeof_vfs_node_def)
qed

lemma resolve_inode:
  assumes "tree_ok q" and "unat i < 128" and "pafs_resolve q i ns = Some j"
  shows "unat j < 128"
  using assms(2,3)
proof (induction ns arbitrary: i)
  case (Cons n ns)
  let ?e = "pafs_find_entry (unat i) n q"
  have e: "?e \<noteq> -1" "pafs_resolve q (of_int ?e) ns = Some j" using Cons.prems by (simp_all add: Let_def split: if_splits)
  have "0 \<le> ?e" "?e < 128" using tree_entry [OF assms(1) Cons.prems(1) e(1)] .
  moreover have "unat (of_int x :: u32) < 128" if "0 \<le> x" "x < 128" for x
    using that by (simp add: unat_eq_nat_uint uint_word_of_int_eq take_bit_int_eq_self)
  ultimately have "unat (of_int ?e :: u32) < 128" by blast
  then show ?case using Cons.IH e(2) by simp
qed simp

lemma wd_parts:
  assumes "wd_node_ok hb M ri s"
  shows "kheap_ok hb (heap s)" "tree_ok (fs s)" "vfs_root s \<noteq> 0" "pafs_root_node s = vfs_root s" "vfs_root s \<in> fst ` M"
    "unat ri < 128" "pafs_view (nodes s (vfs_root s)) ri (fs s)" "shell_cwd_node s \<noteq> 0"
    "pafs_view (nodes s (shell_cwd_node s)) (vinode (nodes s (shell_cwd_node s))) (fs s)"
    "unat (vinode (nodes s (shell_cwd_node s))) < 128"
    "fst ` M \<subseteq> fst ` kheap_live hb (heap s)" "node_room hb (kheap_live hb (heap s))"
proof -
  show "kheap_ok hb (heap s)" "tree_ok (fs s)" "vfs_root s \<noteq> 0" "pafs_root_node s = vfs_root s" "vfs_root s \<in> fst ` M"
    "unat ri < 128" "pafs_view (nodes s (vfs_root s)) ri (fs s)"
    "pafs_view (nodes s (shell_cwd_node s)) (vinode (nodes s (shell_cwd_node s))) (fs s)"
    "unat (vinode (nodes s (shell_cwd_node s))) < 128"
    using assms by (simp_all add: wd_node_ok_def)
  show "shell_cwd_node s \<noteq> 0" "fst ` M \<subseteq> fst ` kheap_live hb (heap s)" using assms by (auto simp: wd_node_ok_def split: if_splits)
  have M: "finite M" "card M < 399" "\<forall>(p, c) \<in> M. c \<le> 4200" using assms by (simp_all add: wd_node_ok_def)
  have "kheap_live hb (heap s) = M \<or> (\<exists>c \<le> 207. kheap_live hb (heap s) = insert (shell_cwd_node s, c) M)"
    using assms unfolding wd_node_ok_def by (metis (no_types))
  then have "finite (kheap_live hb (heap s)) \<and> card (kheap_live hb (heap s)) < 400 \<and> (\<forall>(p, c) \<in> kheap_live hb (heap s). c \<le> 4200)"
    using M by (elim disjE exE conjE) (simp_all add: card_insert_if)
  then show "node_room hb (kheap_live hb (heap s))" by (intro node_room_few) simp_all
qed

lemma looked_shell: "looked s t \<Longrightarrow> shell_cwd_node t = shell_cwd_node s \<and> shell_cwd_path t = shell_cwd_path s" for s t :: "'a sysstate_scheme"
  by (auto simp: looked_def)

text \<open>The lookup of a path that exists and the change to the node it yields.\<close>

lemma cd_lookup:
  fixes s :: "'a sysstate_scheme"
  assumes wd: "wd_node_ok hb M ri s" and st: "path_start from path s = (b, p)" "b = vfs_root s \<or> b = shell_cwd_node s"
    and n: "names_ok (path_names p)" "pafs_resolve (fs s) (vinode (nodes s b)) (path_names p) = Some j"
  obtains r t where "vfs_get_node_by_path env from path s = Some (r, t)" "looked s t" "r \<noteq> 0" "pafs_view (nodes t r) j (fs t)"
    "kheap_ok hb (heap t)" "\<exists>c \<le> 207. kheap_live hb (heap t) = insert (r, c) (kheap_live hb (heap s))"
    "r \<notin> fst ` kheap_live hb (heap s)" "\<forall>n \<in> fst ` kheap_live hb (heap s). nodes t n = nodes s n"
proof -
  note w = wd_parts [OF wd]
  have vr: "vinode (nodes s (vfs_root s)) = ri" using w(7) by (simp add: pafs_view_def)
  have b: "b \<noteq> 0" "pafs_view (nodes s b) (vinode (nodes s b)) (fs s)" "unat (vinode (nodes s b)) < 128"
    using st(2) w(3,6-10) vr by auto
  have live: "pafs_root_node s \<in> fst ` kheap_live hb (heap s)" using w(4,5,11) by auto
  obtain r t where "vfs_get_node_by_path env from path s = Some (r, t)" "looked s t"
      "lookup_result hb (kheap_live hb (heap s)) (Some j) r t" "\<forall>n \<in> fst ` kheap_live hb (heap s). nodes t n = nodes s n"
    using path_lookup [OF w(1,12,2) st(1) b live n(1) [unfolded names_ok_def], of env] n(2) by simp blast
  then show ?thesis using that by (auto simp: lookup_result_def)
qed

lemma change_node_ok:
  fixes s t :: "'a sysstate_scheme"
  assumes wd: "wd_node_ok hb M ri s" and t: "looked s t" "r \<noteq> 0" "pafs_view (nodes t r) j (fs t)" "kheap_ok hb (heap t)"
    "\<exists>c \<le> 207. kheap_live hb (heap t) = insert (r, c) (kheap_live hb (heap s))"
    "r \<notin> fst ` kheap_live hb (heap s)" "\<forall>n \<in> fst ` kheap_live hb (heap s). nodes t n = nodes s n"
    and j: "unat j < 128"
  obtains h where "change_node r t = Some (t\<lparr>heap := h, shell_cwd_node := r\<rparr>)"
    "wd_node_ok hb M ri (t\<lparr>heap := h, shell_cwd_node := r\<rparr>)"
proof -
  note w = wd_parts [OF wd]
  note l = looked_sel [OF t(1)]
  have M: "finite M" "card M < 399" "\<forall>(p, c) \<in> M. c \<le> 4200" using wd by (simp_all add: wd_node_ok_def)
  obtain c where c: "c \<le> 207" "kheap_live hb (heap t) = insert (r, c) (kheap_live hb (heap s))" using t(5) by blast
  have rM: "r \<notin> fst ` M" "r \<noteq> vfs_root s" using t(6) w(5,11) by blast+
  have vj: "vinode (nodes t r) = j" using t(3) by (simp add: pafs_view_def)
  have same: "shell_cwd_node t = shell_cwd_node s" using looked_shell [OF t(1)] by simp
  have root: "nodes t (vfs_root s) = nodes s (vfs_root s)" using t(7) w(5,11) by blast
  have good: "wd_node_ok hb M ri (t\<lparr>heap := h, shell_cwd_node := r\<rparr>)"
    if "kheap_ok hb h" "kheap_live hb h = insert (r, c) M" for h
    unfolding wd_node_ok_def using that M w(2-7,11) l t(2,3) vj j root c(1) rM looked_tree [OF t(1)] by auto
  show ?thesis
  proof (cases "shell_cwd_node s = vfs_root s")
    case True
    then have "kheap_live hb (heap s) = M" using wd by (simp add: wd_node_ok_def)
    then show ?thesis using that [of "heap t"] good [of "heap t"] t(4) c(2) True same l(1) by (simp add: change_node_def)
  next
    case False
    let ?o = "shell_cwd_node s"
    obtain d where d: "d \<le> 207" "kheap_live hb (heap s) = insert (?o, d) M" "?o \<notin> fst ` M" "?o \<noteq> 0"
      using wd False by (auto simp: wd_node_ok_def)
    have live: "kheap_live hb (heap t) = insert (?o, d) (insert (r, c) M)" using c(2) d(2) by auto
    have "?o \<notin> fst ` insert (r, c) M" using d(2,3) t(6) by auto
    moreover have "pafs_view (nodes t ?o) (vinode (nodes s ?o)) (fs t)" using t(7) d(2) w(9) l(8) by simp
    ultimately obtain h where h: "vfs_close ?o t = Some (t\<lparr>heap := h\<rparr>)" "kheap_ok hb h" "kheap_live hb h = insert (r, c) M"
      by (rule close_node [OF t(4) live]) (use d(4) False w(4) l(2) in auto)
    then show ?thesis using that [of h] good [of h] False same l(1) by (simp add: change_node_def)
  qed
qed
end
