(* ===== verification/Shell_Cd.thy ===== *)
theory Shell_Cd
  imports Shell_Path
begin

text \<open>
  The command \<open>cd\<close> of the shell: the node and the path of the working directory stay in step.
\<close>

lemma cd_strings: "cstr (lit ''..'') = [0x2E, 0x2E]" "cstr (lit ''/'') = [0x2F]"
  by (simp_all add: lit_def cstr_def)

lemma wd_node_path [simp]: "wd_node_ok hb M ri (s\<lparr>shell_cwd_path := q\<rparr>) = wd_node_ok hb M ri s"
  by (simp add: wd_node_ok_def)

lemma cd_go:
  fixes s :: "'a sysstate_scheme"
  assumes wd: "wd_node_ok hb M ri s" and st: "path_start from path s = (b, p)" "b = vfs_root s \<or> b = shell_cwd_node s"
    and n: "names_ok (path_names p)" "pafs_resolve (fs s) (vinode (nodes s b)) (path_names p) = Some j"
  obtains r h and t :: "'a sysstate_scheme" where "vfs_get_node_by_path env from path s = Some (r, t)" "looked s t" "r \<noteq> 0"
    "change_node r t = Some (t\<lparr>heap := h, shell_cwd_node := r\<rparr>)" "wd_node_ok hb M ri (t\<lparr>heap := h, shell_cwd_node := r\<rparr>)"
    "vinode (nodes t r) = j" "vflags (nodes t r) AND VFS_DIRECTORY \<noteq> 0 \<longleftrightarrow> itype (inodes (fs s) ! unat j) = PAFS_TYPE_DIR"
proof -
  note w = wd_parts [OF wd]
  have "unat (vinode (nodes s b)) < 128" using st(2) w(6,7,10) by (auto simp: pafs_view_def)
  then have j: "unat j < 128" by (rule resolve_inode [OF w(2) _ n(2)])
  obtain r t where t: "vfs_get_node_by_path env from path s = Some (r, t)" "looked s t" "r \<noteq> 0" "pafs_view (nodes t r) j (fs t)"
    "kheap_ok hb (heap t)" "\<exists>c \<le> 207. kheap_live hb (heap t) = insert (r, c) (kheap_live hb (heap s))"
    "r \<notin> fst ` kheap_live hb (heap s)" "\<forall>n \<in> fst ` kheap_live hb (heap s). nodes t n = nodes s n"
    by (rule cd_lookup [OF wd st n])
  obtain h where "change_node r t = Some (t\<lparr>heap := h, shell_cwd_node := r\<rparr>)"
    "wd_node_ok hb M ri (t\<lparr>heap := h, shell_cwd_node := r\<rparr>)" by (rule change_node_ok [OF wd t(2-8) j])
  then show ?thesis using that t(1-4) view_flags(3) [OF t(4)] looked_sel(5) [OF t(2)] by (simp add: pafs_view_def)
qed

lemma cd_up:
  fixes s :: "'a sysstate_scheme"
  assumes wd: "wd_ok hb M ri s" and up: "cstr path = [0x2E, 0x2E]" and ne: "cstr (shell_cwd_path s) \<noteq> [0x2F]"
  obtains s' :: "'a sysstate_scheme" where "cmd_cd env path s = Some s'" "wd_ok hb M ri s'" "shell_cwd_path s' = parent_path (shell_cwd_path s)"
    "inodes (fs s') = inodes (fs s)" "contents (fs s') = contents (fs s)"
proof -
  let ?p = "shell_cwd_path s" let ?q = "parent_path ?p" let ?s = "s\<lparr>shell_cwd_path := ?q\<rparr>"
  have wn: "wd_node_ok hb M ri s" "path_array ?p" and n0: "names_ok (path_names (cstr ?p))"
    "pafs_resolve (fs s) ri (path_names (cstr ?p)) = Some (vinode (nodes s (shell_cwd_node s)))"
    using wd by (simp_all add: wd_ok_def wd_names_def)
  note w = wd_parts [OF wn(1)]
  note pp = parent_path_spec [OF wn(2) ne]
  have q0: "cstr ?p \<noteq> []" using wn(2) by (cases ?p) (simp_all add: path_array_def cstr_Cons)
  have n: "names_ok (path_names (cstr ?q))" using n0(1) by (simp add: pp(2) names_ok_def)
  obtain j where j: "pafs_resolve (fs s) ri (path_names (cstr ?q)) = Some j"
    using n0(2) by (simp add: pp(2) pafs_resolve_append split: option.splits)
  have sl: "rd8 ?q = 0x2F" using pp(1) by (simp add: path_array_def)
  have vr: "vinode (nodes s (vfs_root s)) = ri" using w(7) by (simp add: pafs_view_def)
  have tl: "path_names (tl ?q) = path_names (cstr ?q)" using path_names_tl [OF sl] by (simp add: path_names_cstr)
  have st: "path_start (vfs_root ?s) ?q ?s = (vfs_root s, tl ?q)" using sl by (simp add: path_start_def)
  have wn': "wd_node_ok hb M ri ?s" using wn(1) by simp
  obtain r h and t :: "'a sysstate_scheme" where t: "vfs_get_node_by_path env (vfs_root ?s) ?q ?s = Some (r, t)" "looked ?s t" "r \<noteq> 0"
    "change_node r t = Some (t\<lparr>heap := h, shell_cwd_node := r\<rparr>)" "wd_node_ok hb M ri (t\<lparr>heap := h, shell_cwd_node := r\<rparr>)"
    "vinode (nodes t r) = j" "vflags (nodes t r) AND VFS_DIRECTORY \<noteq> 0 \<longleftrightarrow> itype (inodes (fs ?s) ! unat j) = PAFS_TYPE_DIR"
    by (rule cd_go [OF wn' st, of j env]) (use n j tl vr in simp_all)
  have c: "cmd_cd env path s = Some (t\<lparr>heap := h, shell_cwd_node := r\<rparr>)"
    using up ne q0 t(1,3,4) by (simp add: cmd_cd_def strcmp_eq_0 cd_strings strlen_cstr)
  have "wd_ok hb M ri (t\<lparr>heap := h, shell_cwd_node := r\<rparr>)"
    using t(5,6) n j looked_shell [OF t(2)] looked_sel(9) [OF t(2)] pp(1) by (simp add: wd_ok_def wd_names_def)
  then show ?thesis using that [OF c] looked_shell [OF t(2)] looked_sel(5) [OF t(2)] looked_files(1) [OF t(2)] by simp
qed

lemma cd_down:
  fixes s :: "'a sysstate_scheme"
  assumes wd: "wd_ok hb M ri s" and nu: "cstr path \<noteq> [0x2E, 0x2E]" and n: "names_ok (path_names path)"
    and res: "pafs_resolve (fs s) (if rd8 path = 0x2F then ri else vinode (nodes s (shell_cwd_node s))) (path_names path) = Some j"
    and dir: "itype (inodes (fs s) ! unat j) = PAFS_TYPE_DIR" and fits: "extend_path path (shell_cwd_path s) = Some q"
  obtains s' :: "'a sysstate_scheme" where "cmd_cd env path s = Some s'" "wd_ok hb M ri s'"
    "wd_names s' = (if rd8 path = 0x2F then [] else wd_names s) @ path_names path"
    "inodes (fs s') = inodes (fs s)" "contents (fs s') = contents (fs s)"
proof -
  let ?p = "shell_cwd_path s" let ?b = "if rd8 path = 0x2F then vfs_root s else shell_cwd_node s"
  let ?x = "if rd8 path = 0x2F then tl path else path"
  have wn: "wd_node_ok hb M ri s" "path_array ?p" and n0: "names_ok (path_names (cstr ?p))"
    "pafs_resolve (fs s) ri (path_names (cstr ?p)) = Some (vinode (nodes s (shell_cwd_node s)))"
    using wd by (simp_all add: wd_ok_def wd_names_def)
  note w = wd_parts [OF wn(1)]
  note ex = extend_path_spec [OF wn(2) fits]
  have q0: "cstr ?p \<noteq> []" using wn(2) by (cases ?p) (simp_all add: path_array_def cstr_Cons)
  have vr: "vinode (nodes s (vfs_root s)) = ri" using w(7) by (simp add: pafs_view_def)
  have st: "path_start (shell_cwd_node s) path s = (?b, ?x)" by (simp add: path_start_def)
  have x: "path_names ?x = path_names path" by (simp add: path_names_tl)
  have b: "?b = vfs_root s \<or> ?b = shell_cwd_node s" by simp
  obtain r h and t :: "'a sysstate_scheme" where t: "vfs_get_node_by_path env (shell_cwd_node s) path s = Some (r, t)" "looked s t" "r \<noteq> 0"
    "change_node r t = Some (t\<lparr>heap := h, shell_cwd_node := r\<rparr>)" "wd_node_ok hb M ri (t\<lparr>heap := h, shell_cwd_node := r\<rparr>)"
    "vinode (nodes t r) = j" "vflags (nodes t r) AND VFS_DIRECTORY \<noteq> 0 \<longleftrightarrow> itype (inodes (fs s) ! unat j) = PAFS_TYPE_DIR"
    by (rule cd_go [OF wn(1) st b, of j env]) (use n res x vr in \<open>auto split: if_splits\<close>)
  note sh = looked_shell [OF t(2)]
  let ?s' = "t\<lparr>heap := h, shell_cwd_node := r, shell_cwd_path := q\<rparr>"
  have c: "cmd_cd env path s = Some ?s'"
    using nu t(1,3,4,7) dir fits sh q0 by (simp add: cmd_cd_def strcmp_eq_0 cd_strings strlen_cstr)
  have names: "path_names (cstr q) = (if rd8 path = 0x2F then [] else path_names (cstr ?p)) @ path_names path" by (rule ex(2))
  then have "names_ok (path_names (cstr q))" using n n0(1) by (auto simp: names_ok_def)
  moreover have "pafs_resolve (fs s) ri (path_names (cstr q)) = Some j"
    using res n0(2) by (auto simp: names pafs_resolve_append split: if_splits)
  moreover have "wd_node_ok hb M ri ?s'" using t(5) by simp
  ultimately have "wd_ok hb M ri ?s'"
    using t(6) looked_sel(9) [OF t(2)] ex(1) by (simp add: wd_ok_def wd_names_def)
  then show ?thesis using that [OF c] names looked_sel(5) [OF t(2)] looked_files(1) [OF t(2)] by (simp add: wd_names_def)
qed

section \<open>cd\<close>

text \<open>The directory that \<open>cd\<close> is asked for, which the path array must have room for.\<close>

definition cd_target :: "cstring \<Rightarrow> 'a sysstate_scheme \<Rightarrow> bool" where
  "cd_target path s \<longleftrightarrow> names_ok (path_names path) \<and> extend_path path (shell_cwd_path s) \<noteq> None \<and>
     (\<exists>j. pafs_resolve (fs s) (vinode (nodes s (if rd8 path = 0x2F then vfs_root s else shell_cwd_node s))) (path_names path) = Some j \<and>
        itype (inodes (fs s) ! unat j) = PAFS_TYPE_DIR)"

text \<open>
  C19: \<open>cd\<close> to \<open>..\<close>, or to a directory that exists, keeps the node and the path of the working directory in step: after it the path still leads from
  the root to the inode of the node, the old node has been released and nothing else on the heap has
  changed, and no inode and no file is different. The path of a directory adds its names to those of the working
  directory, or takes their place if it begins with a slash; \<open>..\<close> takes away the last component of the
  text, which is a name unless it is empty or a dot. The claim is for names shorter than 128 bytes other than \<open>mnt\<close>, a heap with room for nodes,
  and a new path that fits the 128 bytes of \<open>shell_cwd_path\<close>: the code appends without looking at the size, and a longer
  path overruns the array (None in the model).
\<close>

theorem shell_cd_correct:
  fixes s :: "'a sysstate_scheme"
  assumes "wd_ok hb M ri s" and "cstr path = [0x2E, 0x2E] \<or> cd_target path s"
  shows "\<exists>s'. cmd_cd env path s = Some s' \<and> wd_ok hb M ri s' \<and> inodes (fs s') = inodes (fs s) \<and> contents (fs s') = contents (fs s) \<and>
    (if cstr path = [0x2E, 0x2E] then wd_names s = wd_names s' @ component (last_component (cstr (shell_cwd_path s)))
     else wd_names s' = (if rd8 path = 0x2F then [] else wd_names s) @ path_names path)"
proof (cases "cstr path = [0x2E, 0x2E]")
  case True
  show ?thesis
  proof (cases "cstr (shell_cwd_path s) = [0x2F]")
    case t: True
    have "path_names [0x2F] = []" using path_names_leading [of "[]"] by (simp add: path_names.simps [of "[]"])
    then show ?thesis using True t assms(1) by (simp add: cmd_cd_def strcmp_eq_0 cd_strings wd_names_def last_component_def component_def)
  next
    case False
    have "path_array (shell_cwd_path s)" using assms(1) by (simp add: wd_ok_def)
    note pp = parent_path_spec(2) [OF this False]
    show ?thesis by (rule cd_up [OF assms(1) True False, of env]) (use True pp in \<open>simp add: wd_names_def\<close>)
  qed
next
  case False
  then obtain j q where "names_ok (path_names path)" "extend_path path (shell_cwd_path s) = Some q"
      "pafs_resolve (fs s) (vinode (nodes s (if rd8 path = 0x2F then vfs_root s else shell_cwd_node s))) (path_names path) = Some j"
      "itype (inodes (fs s) ! unat j) = PAFS_TYPE_DIR"
    using assms(2) by (auto simp: cd_target_def)
  moreover have "vinode (nodes s (vfs_root s)) = ri" using assms(1) by (simp add: wd_ok_def wd_node_ok_def pafs_view_def)
  ultimately have j: "names_ok (path_names path)" "extend_path path (shell_cwd_path s) = Some q"
      "pafs_resolve (fs s) (if rd8 path = 0x2F then ri else vinode (nodes s (shell_cwd_node s))) (path_names path) = Some j"
      "itype (inodes (fs s) ! unat j) = PAFS_TYPE_DIR" by (auto split: if_splits)
  show ?thesis by (rule cd_down [OF assms(1) False j(1,3,4,2), of env]) (use False in auto)
qed

section \<open>Instance\<close>

text \<open>The root holds a directory \<open>a\<close>.\<close>

definition sub_dir :: pafs where
  "sub_dir = upd_inode 1 (\<lambda>_. \<lparr>itype = PAFS_TYPE_DIR, isize = 0, iblocks = replicate 14 0\<rparr>) two_names"

lemma sub_dir_ok:
  "tree_ok sub_dir" "root_inode (sb sub_dir) = 0" "itype (inodes sub_dir ! 0) = PAFS_TYPE_DIR" "itype (inodes sub_dir ! 1) = PAFS_TYPE_DIR"
  "pafs_find_entry 0 [0x61] sub_dir = 1"
proof -
  have len: "length (inodes two_names) = 128" using pafs_inv_lengths(1) [OF two_names_dir(1)] .
  have i1: "inodes sub_dir ! 1 = \<lparr>itype = PAFS_TYPE_DIR, isize = 0, iblocks = replicate 14 0\<rparr>"
    and io: "j \<noteq> 1 \<Longrightarrow> inodes sub_dir ! j = inodes two_names ! j" for j
    using len by (simp_all add: sub_dir_def upd_inode_def)
  then show "itype (inodes sub_dir ! 1) = PAFS_TYPE_DIR" by simp
  have b0: "iblocks (inodes two_names ! 0) = (replicate 14 0)[0 := 18]"
    using pafs_inv_lengths(1) [OF format_inv [OF raw_lengths(1-3)]] by (simp add: two_names_def upd_inode_def fresh_root(1))
  have same: "inodes sub_dir ! 0 = inodes two_names ! 0" "\<And>k. k < 14 \<Longrightarrow> iblocks (inodes two_names ! 0) ! k \<noteq> 0 \<Longrightarrow> dir_block sub_dir 0 k = dir_block two_names 0 k"
    using io [of 0] by (auto simp: dir_block_def sub_dir_def disk_read_upd b0 nth_list_update split: if_splits)
  have dir0: "dir_ok sub_dir 0" using dir_same(1) [OF same] two_names_dir(2) by simp
  then show "itype (inodes sub_dir ! 0) = PAFS_TYPE_DIR" by (simp add: dir_ok_def)
  have "used_entries sub_dir 1 = {}" by (auto simp: used_entries_def i1 [unfolded One_nat_def])
  then have dir1: "dir_ok sub_dir 1" by (simp add: dir_ok_def i1 [unfolded One_nat_def])
  have "d = 0 \<or> d = 1" if "d < 128" "itype (inodes sub_dir ! d) = PAFS_TYPE_DIR" for d
    using that io [of d] two_names_types [of d] by (cases "d = 0"; cases "d = 1") (auto simp: PAFS_TYPE_DIR_def)
  then show "tree_ok sub_dir" using dir0 dir1 by (auto simp: tree_ok_def)
  show "root_inode (sb sub_dir) = 0" using two_names_tree(2) by (simp add: sub_dir_def)
  have "found_at sub_dir 0 [0x61] 0 0" using dir_same(2) [OF same] two_names_dir(3) by simp
  then show "pafs_find_entry 0 [0x61] sub_dir = 1"
    using find_entry_found(1) [OF dir0] two_names_entry same(2) [of 0] b0 by (simp add: sint_small)
qed

theorem shell_cd_correct_witness:
  "\<exists>(s :: sysstate) s1 s2. wd_names s = [] \<and> cmd_cd (\<lambda>_ s. s) [0x61] s = Some s1 \<and> wd_names s1 = [[0x61]] \<and>
     cmd_cd (\<lambda>_ s. s) [0x2E, 0x2E] s1 = Some s2 \<and> wd_names s2 @ component (last_component (cstr (shell_cwd_path s1))) = [[0x61]]"
proof -
  let ?cd = "cmd_cd (\<lambda>_ s. s)"
  have names: "path_names [0x61] = [[0x61]]" "path_names [0x2F] = []"
    by (simp_all add: path_names.simps path_name_def path_rest_def cstr_def)
  note ok = sub_dir_ok
  have n2: "\<forall>n \<in> set (abs_names [0x61]). length n < 128 \<and> n \<noteq> lit ''mnt''" by (simp add: abs_names_def names lit_def)
  obtain s0 :: sysstate where "lookup_ok 0xC0400000 [0x61] s0" "fs s0 = sub_dir"
      "vinode (nodes s0 (vfs_root s0)) = root_inode (sb sub_dir)" "\<exists>p c. kheap_live 0xC0400000 (heap s0) = {(p, c)} \<and> c \<le> 207"
    by (rule demo_machine [of sub_dir "[]" "[0x61]"]) (use ok(1-3) n2 that in simp_all)
  then obtain p c where s0: "lookup_ok 0xC0400000 [0x61] s0" "fs s0 = sub_dir" "vinode (nodes s0 (vfs_root s0)) = 0"
      "kheap_live 0xC0400000 (heap s0) = {(p, c)}" "c \<le> 207" using ok(2) by auto
  define s where "s = s0\<lparr>shell_cwd_node := vfs_root s0, shell_cwd_path := 0x2F # replicate 127 0\<rparr>"
  have sel: "shell_cwd_node s = vfs_root s" "shell_cwd_path s = 0x2F # replicate 127 0" "fs s = sub_dir" "vinode (nodes s (vfs_root s)) = 0"
    using s0(2,3) by (simp_all add: s_def)
  have pa: "path_array (shell_cwd_path s)" "cstr (shell_cwd_path s) = [0x2F]"
    unfolding sel(2) by (simp_all add: path_array_def cstr_def takeWhile_eq_Nil_iff)
  have wn: "wd_names s = []" by (simp add: wd_names_def pa names)
  have "wd_node_ok 0xC0400000 {(p, c)} 0 s"
    unfolding wd_node_ok_def using s0 by (auto simp: s_def lookup_ok_def)
  then have wd: "wd_ok 0xC0400000 {(p, c)} 0 s" using pa sel by (simp add: wd_ok_def wn names_ok_def)
  have "extend_path [0x61] (shell_cwd_path s) \<noteq> None" unfolding sel(2)
    by (simp add: extend_path_def put_cstr_def cstr_def strlen_cstr)
  then have "cd_target [0x61] s" using ok sel by (simp add: cd_target_def names names_ok_def lit_def Let_def)
  then obtain s1 where s1: "?cd [0x61] s = Some s1" "wd_ok 0xC0400000 {(p, c)} 0 s1" "wd_names s1 = [[0x61]]"
    using shell_cd_correct [OF wd, of "[0x61]" "\<lambda>_ s. s"] by (auto simp: cstr_def wn names)
  obtain s2 where "?cd [0x2E, 0x2E] s1 = Some s2" "wd_names s1 = wd_names s2 @ component (last_component (cstr (shell_cwd_path s1)))"
    using shell_cd_correct [OF s1(2), of "[0x2E, 0x2E]" "\<lambda>_ s. s"] by (auto simp: cstr_def)
  then show ?thesis using wn s1(1,3) by metis
qed
end
