(* ===== verification/Panic.thy ===== *)
theory Panic
  imports Syscall
begin

text \<open>
  The panic screen, \<open>kernel/core/panic.c\<close>: the message, the registers and the running task are
  written to the text screen and the machine stops. Shown: every text is where it should be, in its colour,
  nothing is written behind the screen and the interrupts are off.
\<close>

section \<open>Operations\<close>

record panic_screen =
  panic_row :: nat
  panic_col :: nat
  vga_mem :: "nat \<Rightarrow> u8"

text \<open>The frame of an interrupt with all registers.\<close>

record trap_frame = registers +
  r_ds :: u32
  r_ebp :: u32
  r_esp :: u32
  r_int_no :: u32
  r_eip :: u32
  r_cs :: u32
  r_eflags :: u32

definition panic_putc :: "u8 \<Rightarrow> u8 \<Rightarrow> panic_screen \<Rightarrow> panic_screen" where
  "panic_putc c color s =
     (if c = 10 then s\<lparr>panic_col := 0, panic_row := panic_row s + 1\<rparr>
      else
        let pos = (panic_row s * 80 + panic_col s) * 2;
            s1 = s\<lparr>vga_mem := (vga_mem s)(pos := c, pos + 1 := color), panic_col := panic_col s + 1\<rparr>
        in if panic_col s1 \<ge> 80 then s1\<lparr>panic_col := 0, panic_row := panic_row s1 + 1\<rparr> else s1)"

fun panic_puts :: "cstring \<Rightarrow> u8 \<Rightarrow> panic_screen \<Rightarrow> panic_screen" where
  "panic_puts [] color s = s"
| "panic_puts (c # str) color s = (if c \<noteq> 0 then panic_puts str color (panic_putc c color s) else s)"

definition panic_puthex :: "u32 \<Rightarrow> u8 \<Rightarrow> panic_screen \<Rightarrow> panic_screen" where
  "panic_puthex n color s = fold (\<lambda>c. panic_putc c color) (hex_chars n) (panic_puts (lit ''0x'') color s)"

definition panic_clear :: "panic_screen \<Rightarrow> panic_screen" where
  "panic_clear s = for_range 0 (80 * 25) (\<lambda>k s. s\<lparr>vga_mem := (vga_mem s)(2 * k := 0x20, 2 * k + 1 := 0x1F)\<rparr>) s"

text \<open>A name with its value, as they are printed.\<close>

definition panic_reg :: "string \<Rightarrow> u32 \<Rightarrow> panic_screen \<Rightarrow> panic_screen" where
  "panic_reg name n s = panic_puthex n 0x1F (panic_puts (lit name) 0x1F s)"

definition panic_nl :: "panic_screen \<Rightarrow> panic_screen" where
  "panic_nl s = panic_puts [10] 0x1F s"

definition panic_banner :: "panic_screen \<Rightarrow> panic_screen" where
  "panic_banner s =
     (let s1 = panic_puts (lit ''#################################'' @ [10]) 0x1F (s\<lparr>panic_row := 2, panic_col := 25\<rparr>);
          s2 = panic_puts (lit ''#      !!! KERNEL PANIC !!!     #'' @ [10]) 0x1F (s1\<lparr>panic_col := 25\<rparr>)
      in panic_puts (lit ''#################################'' @ [10, 10]) 0x1F (s2\<lparr>panic_col := 25\<rparr>))"

definition panic_print :: "cstring \<Rightarrow> panic_screen \<Rightarrow> panic_screen" where
  "panic_print message s = panic_puts [10, 10] 0x1F (panic_puts message 0x1F (panic_puts (lit ''HATA: '') 0x1E (s\<lparr>panic_col := 5\<rparr>)))"

definition panic_dump :: "trap_frame \<Rightarrow> panic_screen \<Rightarrow> panic_screen" where
  "panic_dump r s =
     (let s1 = panic_puts (lit ''--- REGISTER DOKUMU ---'' @ [10]) 0x1B (s\<lparr>panic_col := 5\<rparr>);
          s2 = panic_nl (panic_reg ''  ECX: '' (r_ecx r) (panic_reg ''  EBX: '' (r_ebx r) (panic_reg ''EAX: '' (r_eax r) (s1\<lparr>panic_col := 5\<rparr>))));
          s3 = panic_nl (panic_reg ''  EDI: '' (r_edi r) (panic_reg ''  ESI: '' (r_esi r) (panic_reg ''EDX: '' (r_edx r) (s2\<lparr>panic_col := 5\<rparr>))));
          s4 = panic_nl (panic_reg ''  EIP: '' (r_eip r) (panic_reg ''  ESP: '' (r_esp r) (panic_reg ''EBP: '' (r_ebp r) (s3\<lparr>panic_col := 5\<rparr>))))
      in panic_nl (panic_nl (panic_reg ''  EFLAGS: '' (r_eflags r) (panic_reg ''  DS:  '' (r_ds r) (panic_reg ''CS:  '' (r_cs r) (s4\<lparr>panic_col := 5\<rparr>))))))"

text \<open>
  \<open>current\<close> is the name of the running task, None if there is none. The loop at the end with the
  interrupts off is the end of every run, in the state that is returned.
\<close>

definition panic :: "cstring \<Rightarrow> trap_frame option \<Rightarrow> cstring option \<Rightarrow> u32 \<times> panic_screen \<Rightarrow> u32 \<times> panic_screen" where
  "panic message regs current s =
     (let s1 = panic_print message (panic_banner (panic_clear (snd s)));
          s2 = (case regs of None \<Rightarrow> s1 | Some r \<Rightarrow> panic_dump r s1);
          s3 = (case current of None \<Rightarrow> s2
                | Some name \<Rightarrow> panic_nl (panic_puts name 0x1F (panic_puts (lit ''AKTIF GOREV: '') 0x1A (s2\<lparr>panic_col := 5\<rparr>))))
      in (cli (fst s), panic_puts (lit ''Sistem durduruldu. Lutfen bilgisayarinizi yeniden baslatin.'') 0x1F (s3\<lparr>panic_row := 22, panic_col := 5\<rparr>)))"

section \<open>Texts on the screen\<close>

text \<open>A text from a cell on.\<close>

definition draw_text :: "nat \<Rightarrow> u8 \<Rightarrow> u8 list \<Rightarrow> (nat \<Rightarrow> u8) \<Rightarrow> (nat \<Rightarrow> u8)" where
  "draw_text p color t v = (\<lambda>k. if p \<le> k div 2 \<and> k div 2 < p + length t then (if even k then t ! (k div 2 - p) else color) else v k)"

lemma draw_text_Nil [simp]: "draw_text p color [] v = v"
  by (auto simp: draw_text_def fun_eq_iff)

lemma draw_text_Cons: "draw_text (p + 1) color t (v(p * 2 := c, p * 2 + 1 := color)) = draw_text p color (c # t) v"
proof
  fix k :: nat
  define q b where "q = k div 2" and "b = odd k"
  then have q: "k div 2 = q" "even k \<longleftrightarrow> \<not> b" by auto
  have k: "k = p * 2 \<longleftrightarrow> q = p \<and> \<not> b" "k = Suc (p * 2) \<longleftrightarrow> q = p \<and> b" unfolding q_def b_def by presburger+
  consider "q < p" | "q = p" | j where "q = p + Suc j" using less_imp_Suc_add by (metis add_Suc_right not_less_iff_gr_or_eq)
  then show "draw_text (p + 1) color t (v(p * 2 := c, p * 2 + 1 := color)) k = draw_text p color (c # t) v k"
    unfolding draw_text_def q by cases (auto simp: k)
qed

lemma panic_puts_line:
  assumes "0 \<notin> set t" and "10 \<notin> set t" and "panic_col s + length t < 80" and "panic_row s * 80 + panic_col s = p"
  shows "panic_puts t color s = s\<lparr>vga_mem := draw_text p color t (vga_mem s), panic_col := panic_col s + length t\<rparr>"
  using assms
proof (induction t arbitrary: s p)
  case (Cons c t)
  let ?v = "(vga_mem s)(p * 2 := c, p * 2 + 1 := color)"
  let ?s = "s\<lparr>vga_mem := ?v, panic_col := panic_col s + 1\<rparr>"
  have "panic_putc c color s = ?s" using Cons.prems unfolding panic_putc_def Let_def Cons.prems(4) by simp
  then have "panic_puts (c # t) color s = panic_puts t color ?s" using Cons.prems(1) by simp
  also have "\<dots> = ?s\<lparr>vga_mem := draw_text (p + 1) color t (vga_mem ?s), panic_col := panic_col ?s + length t\<rparr>"
    by (rule Cons.IH) (use Cons.prems in auto)
  also have "vga_mem ?s = ?v" by simp
  finally show ?case unfolding draw_text_Cons by simp
qed simp

lemma panic_puts_append: "0 \<notin> set a \<Longrightarrow> panic_puts (a @ b) color s = panic_puts b color (panic_puts a color s)"
  by (induction a arbitrary: s) auto

lemma panic_puts_fold: "0 \<notin> set a \<Longrightarrow> fold (\<lambda>c. panic_putc c color) a s = panic_puts a color s"
  by (induction a arbitrary: s) auto

lemma panic_newline: "panic_puts (10 # t) color s = panic_puts t color (s\<lparr>panic_col := 0, panic_row := panic_row s + 1\<rparr>)"
  by (simp add: panic_putc_def)

definition reg_text :: "string \<Rightarrow> u32 \<Rightarrow> u8 list" where
  "reg_text name n = lit name @ lit ''0x'' @ hex_chars n"

lemma hex_chars_ok: "length (hex_chars n) = 8" "0 \<notin> set (hex_chars n)" "10 \<notin> set (hex_chars n)"
proof -
  have "0 \<notin> set hex_digits" "10 \<notin> set hex_digits" "length hex_digits = 16" by (simp_all add: hex_digits_def)
  then have "hex_digits ! i \<noteq> 0 \<and> hex_digits ! i \<noteq> 10" if "i < 16" for i using that by (metis nth_mem)
  moreover have "unat (drop_bit (i * 4) n AND 0xF) < 16" for i
    using word_and_le2 [of "drop_bit (i * 4) n" "0xF"] word_and_le1 [of "drop_bit (i * 4) n" "0xF"] by (simp add: word_le_nat_alt)
  ultimately show "0 \<notin> set (hex_chars n)" "10 \<notin> set (hex_chars n)" unfolding hex_chars_def by (metis (no_types, lifting) image_iff list.set_map)+
  show "length (hex_chars n) = 8" by (simp add: hex_chars_def)
qed

lemma panic_reg_puts: "0 \<notin> set (lit name) \<Longrightarrow> panic_reg name n s = panic_puts (reg_text name n) 0x1F s"
proof -
  assume a: "0 \<notin> set (lit name)"
  have "0 \<notin> set (lit ''0x'')" by (simp add: lit_def)
  then show ?thesis using a hex_chars_ok(2) [of n]
    by (simp add: panic_reg_def panic_puthex_def reg_text_def panic_puts_append panic_puts_fold)
qed

section \<open>The screen\<close>

text \<open>The texts of the screen, by the cell they begin at, and their colours.\<close>

type_synonym texts = "(nat \<times> u8 \<times> u8 list) list"

definition banner_texts :: texts where
  "banner_texts = [(2 * 80 + 25, 0x1F, lit ''#################################''), (3 * 80 + 25, 0x1F, lit ''#      !!! KERNEL PANIC !!!     #''),
     (4 * 80 + 25, 0x1F, lit ''#################################'')]"

definition message_texts :: "cstring \<Rightarrow> texts" where
  "message_texts message = [(6 * 80 + 5, 0x1E, lit ''HATA: ''), (6 * 80 + 11, 0x1F, message)]"

definition dump_texts :: "trap_frame \<Rightarrow> texts" where
  "dump_texts r =
     [(8 * 80 + 5, 0x1B, lit ''--- REGISTER DOKUMU ---''),
      (9 * 80 + 5, 0x1F, reg_text ''EAX: '' (r_eax r)), (9 * 80 + 20, 0x1F, reg_text ''  EBX: '' (r_ebx r)), (9 * 80 + 37, 0x1F, reg_text ''  ECX: '' (r_ecx r)),
      (10 * 80 + 5, 0x1F, reg_text ''EDX: '' (r_edx r)), (10 * 80 + 20, 0x1F, reg_text ''  ESI: '' (r_esi r)), (10 * 80 + 37, 0x1F, reg_text ''  EDI: '' (r_edi r)),
      (11 * 80 + 5, 0x1F, reg_text ''EBP: '' (r_ebp r)), (11 * 80 + 20, 0x1F, reg_text ''  ESP: '' (r_esp r)), (11 * 80 + 37, 0x1F, reg_text ''  EIP: '' (r_eip r)),
      (12 * 80 + 5, 0x1F, reg_text ''CS:  '' (r_cs r)), (12 * 80 + 20, 0x1F, reg_text ''  DS:  '' (r_ds r)), (12 * 80 + 37, 0x1F, reg_text ''  EFLAGS: '' (r_eflags r))]"

definition task_texts :: "nat \<Rightarrow> cstring \<Rightarrow> texts" where
  "task_texts row name = [(row * 80 + 5, 0x1A, lit ''AKTIF GOREV: ''), (row * 80 + 18, 0x1F, name)]"

definition panic_texts :: "cstring \<Rightarrow> trap_frame option \<Rightarrow> cstring option \<Rightarrow> texts" where
  "panic_texts message regs current =
     banner_texts @ message_texts message @ (case regs of None \<Rightarrow> [] | Some r \<Rightarrow> dump_texts r) @
     (case current of None \<Rightarrow> [] | Some name \<Rightarrow> task_texts (if regs = None then 8 else 14) name) @
     [(22 * 80 + 5, 0x1F, lit ''Sistem durduruldu. Lutfen bilgisayarinizi yeniden baslatin.'')]"

definition draw_texts :: "texts \<Rightarrow> (nat \<Rightarrow> u8) \<Rightarrow> (nat \<Rightarrow> u8)" where
  "draw_texts ts v = fold (\<lambda>(p, color, t). draw_text p color t) ts v"

text \<open>The texts are in the order of the screen and end before its last cell.\<close>

fun texts_ok :: "nat \<Rightarrow> texts \<Rightarrow> bool" where
  "texts_ok p [] \<longleftrightarrow> p \<le> 80 * 25"
| "texts_ok p ((q, color, t) # ts) \<longleftrightarrow> p \<le> q \<and> texts_ok (q + length t) ts"

definition shown :: "nat \<times> u8 \<times> u8 list \<Rightarrow> (nat \<Rightarrow> u8) \<Rightarrow> bool" where
  "shown x v = (case x of (p, color, t) \<Rightarrow> \<forall>i < length t. v ((p + i) * 2) = t ! i \<and> v ((p + i) * 2 + 1) = color)"

lemma draw_texts_append: "draw_texts (a @ b) v = draw_texts b (draw_texts a v)"
  by (simp add: draw_texts_def)

lemma draw_text_below: "k div 2 < p \<Longrightarrow> draw_text p color t v k = v k"
  by (simp add: draw_text_def)

lemma texts_below: "texts_ok p ts \<Longrightarrow> k div 2 < p \<Longrightarrow> draw_texts ts v k = v k"
proof (induction ts arbitrary: p v)
  case (Cons x ts)
  obtain q color t where x: "x = (q, color, t)" by (cases x)
  have "draw_texts ts (draw_text q color t v) k = draw_text q color t v k"
    by (rule Cons.IH [of "q + length t"]) (use Cons.prems x in auto)
  then show ?case using Cons.prems x by (simp add: draw_texts_def draw_text_below)
qed (simp add: draw_texts_def)

lemma texts_shown: "texts_ok p ts \<Longrightarrow> x \<in> set ts \<Longrightarrow> shown x (draw_texts ts v)"
proof (induction ts arbitrary: p v)
  case (Cons y ts)
  obtain q color t where y: "y = (q, color, t)" by (cases y)
  have ok: "texts_ok (q + length t) ts" using Cons.prems(1) y by simp
  have d: "draw_texts (y # ts) v = draw_texts ts (draw_text q color t v)" by (simp add: draw_texts_def y)
  show ?case
  proof (cases "x \<in> set ts")
    case True
    then show ?thesis unfolding d by (rule Cons.IH [OF ok])
  next
    case False
    then have x: "x = y" using Cons.prems(2) by simp
    show ?thesis unfolding x y shown_def split_beta fst_conv snd_conv
    proof (intro allI impI conjI)
      fix i assume i: "i < length t"
      show "draw_texts ((q, color, t) # ts) v ((q + i) * 2) = t ! i"
        using texts_below [OF ok, of "(q + i) * 2"] i by (simp add: d [unfolded y] draw_text_def)
      have "((q + i) * 2 + 1) div 2 = q + i" by presburger
      then show "draw_texts ((q, color, t) # ts) v ((q + i) * 2 + 1) = color"
        using texts_below [OF ok, of "(q + i) * 2 + 1"] i by (simp add: d [unfolded y] draw_text_def)
    qed
  qed
qed simp

lemma texts_outside:
  "texts_ok p ts \<Longrightarrow> (\<forall>(q, color, t) \<in> set ts. k div 2 < q \<or> q + length t \<le> k div 2) \<Longrightarrow> draw_texts ts v k = v k"
proof (induction ts arbitrary: p v)
  case (Cons x ts)
  obtain q color t where x: "x = (q, color, t)" by (cases x)
  have "draw_texts ts (draw_text q color t v) k = draw_text q color t v k"
    by (rule Cons.IH [of "q + length t"]) (use Cons.prems x in auto)
  then show ?case using Cons.prems(2) x by (auto simp: draw_texts_def draw_text_def)
qed (simp add: draw_texts_def)

lemma texts_begin: "texts_ok p ts \<Longrightarrow> p \<le> 80 * 25"
proof (induction ts arbitrary: p)
  case (Cons x ts)
  obtain q color t where x: "x = (q, color, t)" by (cases x)
  have "q + length t \<le> 80 * 25" by (rule Cons.IH) (use Cons.prems x in simp)
  then show ?case using Cons.prems x by simp
qed simp

lemma texts_end: "texts_ok p ts \<Longrightarrow> (q, color, t) \<in> set ts \<Longrightarrow> q + length t \<le> 80 * 25"
proof (induction ts arbitrary: p)
  case (Cons x ts)
  obtain r d u where x: "x = (r, d, u)" by (cases x)
  then have ok: "texts_ok (r + length u) ts" using Cons.prems(1) by simp
  show ?case using Cons.prems(2) Cons.IH [OF ok] texts_begin [OF ok] x by auto
qed simp

text \<open>Running over the operations with the place of the cursor.\<close>

definition at :: "nat \<Rightarrow> nat \<Rightarrow> (nat \<Rightarrow> u8) \<Rightarrow> panic_screen" where
  "at row col v = \<lparr>panic_row = row, panic_col = col, vga_mem = v\<rparr>"

lemma at_simps [simp]:
  "(at row col v)\<lparr>panic_col := c\<rparr> = at row c v" "(at row col v)\<lparr>panic_row := r\<rparr> = at r col v"
  "vga_mem (at row col v) = v" "panic_row (at row col v) = row" "panic_col (at row col v) = col"
  by (simp_all add: at_def)

lemma at_puts: "0 \<notin> set t \<Longrightarrow> 10 \<notin> set t \<Longrightarrow> col + length t < 80 \<Longrightarrow>
  panic_puts t color (at row col v) = at row (col + length t) (draw_texts [(row * 80 + col, color, t)] v)"
  using panic_puts_line [of t "at row col v"] by (simp add: at_def draw_texts_def)

lemma at_newline [simp]: "panic_putc 10 color (at row col v) = at (row + 1) 0 v"
  by (simp add: at_def panic_putc_def)

lemma at_nl: "panic_nl (at row col v) = at (row + 1) 0 v"
  by (simp add: panic_nl_def)

lemma at_draw: "0 \<notin> set t \<Longrightarrow> 10 \<notin> set t \<Longrightarrow> col + length t < 80 \<Longrightarrow> row * 80 + col = p \<Longrightarrow>
  panic_puts t color (at row col (draw_texts ts v)) = at row (col + length t) (draw_texts (ts @ [(p, color, t)]) v)"
  by (simp add: at_puts draw_texts_append)

lemma blank_screen: "panic_clear s = s\<lparr>vga_mem := (\<lambda>k. if k < 4000 then (if even k then 0x20 else 0x1F) else vga_mem s k)\<rparr>"
proof -
  define f where "f n = (\<lambda>k. if k < 2 * n then (if even k then 0x20 else 0x1F) else vga_mem s k)" for n :: nat
  have f: "(f n)(2 * n := 0x20, 2 * n + 1 := 0x1F) = f (Suc n)" for n
    by (auto simp: f_def fun_eq_iff less_Suc_eq)
  have "for_range 0 n (\<lambda>k s. s\<lparr>vga_mem := (vga_mem s)(2 * k := 0x20, 2 * k + 1 := 0x1F)\<rparr>) s = s\<lparr>vga_mem := f n\<rparr>" for n
  proof (induction n)
    case (Suc n)
    show ?case unfolding for_range_Suc [OF le0] Suc f [symmetric] by (simp add: fun_upd_def)
  qed (simp add: f_def)
  from this [of 2000] show ?thesis by (simp add: panic_clear_def f_def)
qed

lemma banner_draws: "panic_banner s = at 6 0 (draw_texts banner_texts (vga_mem s))"
proof -
  have s: "s\<lparr>panic_row := 2, panic_col := 25\<rparr> = at 2 25 (draw_texts [] (vga_mem s))" by (cases s) (simp add: at_def draw_texts_def)
  let ?a = "lit ''#################################''" and ?b = "lit ''#      !!! KERNEL PANIC !!!     #''"
  have l: "0 \<notin> set ?a" "10 \<notin> set ?a" "length ?a = 33" "0 \<notin> set ?b" "10 \<notin> set ?b" "length ?b = 33" by (simp_all add: lit_def)
  show ?thesis unfolding panic_banner_def Let_def s
    by (simp add: panic_puts_append l at_draw at_nl banner_texts_def)
qed

lemma message_draws:
  assumes "0 \<notin> set message" and "10 \<notin> set message" and "length message \<le> 68"
  shows "panic_print message (at 6 c (draw_texts ts v)) = at 8 0 (draw_texts (ts @ message_texts message) v)"
proof -
  let ?a = "lit ''HATA: ''"
  have l: "0 \<notin> set ?a" "10 \<notin> set ?a" "length ?a = 6" by (simp_all add: lit_def)
  show ?thesis using assms unfolding panic_print_def by (simp add: panic_puts_append l at_draw at_nl message_texts_def)
qed

lemma reg_draw:
  assumes "0 \<notin> set (lit name)" and "10 \<notin> set (lit name)" and "col + length name + 10 < 80" and "row * 80 + col = p"
  shows "panic_reg name n (at row col (draw_texts ts v)) = at row (col + length name + 10) (draw_texts (ts @ [(p, 0x1F, reg_text name n)]) v)"
proof -
  have "length (reg_text name n) = length name + 10" "0 \<notin> set (reg_text name n)" "10 \<notin> set (reg_text name n)"
    using assms hex_chars_ok [of n] by (auto simp: reg_text_def lit_def)
  then show ?thesis using panic_reg_puts [OF assms(1)] at_draw [of "reg_text name n" col row p] assms by (simp add: add.assoc)
qed

lemma dump_draws: "panic_dump r (at 8 c (draw_texts ts v)) = at 14 0 (draw_texts (ts @ dump_texts r) v)"
proof -
  let ?a = "lit ''--- REGISTER DOKUMU ---''"
  have l: "0 \<notin> set ?a" "10 \<notin> set ?a" "length ?a = 23" by (simp_all add: lit_def)
  have n: "0 \<notin> set (lit x) \<and> 10 \<notin> set (lit x)"
    if "x \<in> set [''EAX: '', ''  EBX: '', ''  ECX: '', ''EDX: '', ''  ESI: '', ''  EDI: '', ''EBP: '', ''  ESP: '', ''  EIP: '', ''CS:  '', ''  DS:  '', ''  EFLAGS: '']" for x
    using that by (auto simp: lit_def)
  show ?thesis unfolding panic_dump_def Let_def by (simp add: panic_puts_append l at_draw at_nl reg_draw n dump_texts_def)
qed

lemma task_draws:
  assumes "0 \<notin> set name" and "10 \<notin> set name" and "length name \<le> 61"
  shows "panic_nl (panic_puts name 0x1F (panic_puts (lit ''AKTIF GOREV: '') 0x1A (at row 5 (draw_texts ts v)))) =
    at (row + 1) 0 (draw_texts (ts @ task_texts row name) v)"
proof -
  let ?a = "lit ''AKTIF GOREV: ''"
  have l: "0 \<notin> set ?a" "10 \<notin> set ?a" "length ?a = 13" by (simp_all add: lit_def)
  show ?thesis using assms by (simp add: l at_draw at_nl task_texts_def)
qed

definition screen_text :: "nat \<Rightarrow> cstring \<Rightarrow> bool" where
  "screen_text n t \<longleftrightarrow> 0 \<notin> set t \<and> 10 \<notin> set t \<and> length t \<le> n"

lemma reg_text_length: "length (reg_text name n) = length name + 10"
  by (simp add: reg_text_def lit_def hex_chars_ok)

lemma panic_texts_ok:
  assumes "length message \<le> 68" and "\<forall>name. current = Some name \<longrightarrow> length name \<le> 61"
  shows "texts_ok 0 (panic_texts message regs current)"
  using assms
  by (cases regs; cases current)
    (simp_all add: panic_texts_def banner_texts_def message_texts_def dump_texts_def task_texts_def reg_text_length lit_def)

lemma panic_draws:
  assumes "screen_text 68 message" and "\<forall>name. current = Some name \<longrightarrow> screen_text 61 name"
  shows "panic message regs current (e, s) =
    (cli e, at 22 64 (draw_texts (panic_texts message regs current) (vga_mem (panic_clear s))))"
proof -
  let ?a = "lit ''Sistem durduruldu. Lutfen bilgisayarinizi yeniden baslatin.''"
  have l: "0 \<notin> set ?a" "10 \<notin> set ?a" "length ?a = 59" by (simp_all add: lit_def)
  show ?thesis using assms
    by (cases regs; cases current)
      (simp_all add: screen_text_def panic_def Let_def banner_draws message_draws dump_draws task_draws l at_draw panic_texts_def)
qed

text \<open>
  C29: The panic screen: the message, the registers with all their digits and the name of the
  running task stand where they should, each in its colour; the rest of the screen is blank and nothing is
  written behind it, if the message fits into its line and the name into its own; the interrupts are off.
\<close>

theorem panic_screen_correct:
  assumes "screen_text 68 message" and "\<forall>name. current = Some name \<longrightarrow> screen_text 61 name"
  shows "\<exists>s'. panic message regs current (e, s) = (cli e, s') \<and> \<not> interrupts_on (cli e) \<and>
    (\<forall>x \<in> set (panic_texts message regs current). shown x (vga_mem s')) \<and>
    (\<forall>k. (\<forall>(p, color, t) \<in> set (panic_texts message regs current). k div 2 < p \<or> p + length t \<le> k div 2) \<longrightarrow>
       vga_mem s' k = (if k < 4000 then (if even k then 0x20 else 0x1F) else vga_mem s k)) \<and>
    (\<forall>k \<ge> 4000. vga_mem s' k = vga_mem s k)"
proof -
  let ?ts = "panic_texts message regs current" and ?v = "vga_mem (panic_clear s)"
  have ok: "texts_ok 0 ?ts" using assms by (intro panic_texts_ok) (simp_all add: screen_text_def)
  note out = texts_outside [OF ok, of _ ?v]
  have v: "?v k = (if k < 4000 then (if even k then 0x20 else 0x1F) else vga_mem s k)" for k by (simp add: blank_screen)
  have "draw_texts ?ts ?v k = vga_mem s k" if "k \<ge> 4000" for k
  proof -
    have "p + length t \<le> k div 2" if "(p, color, t) \<in> set ?ts" for p color t
      using texts_end [OF ok that] \<open>k \<ge> 4000\<close> by linarith
    then show ?thesis using out [of k] that v by auto
  qed
  then show ?thesis using panic_draws [OF assms] texts_shown [OF ok] out v cli_off by auto
qed

theorem panic_screen_correct_witness:
  "\<exists>s'. panic (lit ''DIVISION BY ZERO'') None None (0x202, at 0 0 (\<lambda>_. 0)) = (2, s') \<and>
     shown (6 * 80 + 11, 0x1F, lit ''DIVISION BY ZERO'') (vga_mem s') \<and> vga_mem s' 4000 = 0"
proof -
  have m: "screen_text 68 (lit ''DIVISION BY ZERO'')" by (simp add: screen_text_def lit_def)
  have "(2 :: u32) = cli 0x202" by (simp add: cli_def)
  then show ?thesis
    using panic_screen_correct [OF m, of None None "0x202" "at 0 0 (\<lambda>_. 0)"] by (auto simp: panic_texts_def message_texts_def)
qed
end
