(* ===== verification/Machine.thy ===== *)
theory Machine
  imports Shell_Cd Gui_Draw Descriptors
begin

text \<open>
  The whole kernel: the start of the graphics mode (\<open>vbe_init\<close> of \<open>kernel/drivers/vbe.c\<close> and
  \<open>start_graphics\<close>), the dispatcher of the hardware interrupts (\<open>kernel/core/irq.c\<close>), the tasks and
  the sequence of calls of \<open>kernel_main\<close> in \<open>kernel/core/kernel.c\<close>, on the state of all components.
\<close>

section \<open>State\<close>

record boot_info = multiboot_info +
  mb_fb_addr :: "64 word"
  mb_fb_pitch :: u32
  mb_fb_width :: u32
  mb_fb_height :: u32
  mb_fb_bpp :: u8
  mb_fb_type :: u8

text \<open>Addresses that the linker decides.\<close>

record kernel_image =
  i_kernel_start :: u32
  i_kernel_end :: u32
  i_layout :: layout
  i_entries :: entry_points
  i_gdt :: u32
  i_idt :: u32
  i_tss :: u32
  i_heap_space :: u32
  i_stack_top :: u32
  i_task1 :: u32
  i_task2 :: u32
  i_graphics :: u32

record machine = shell +
  gdt_s :: gdt
  idt_s :: idt
  tss_s :: tss_entry
  gui_s :: gui
  global_mbi :: boot_info

text \<open>The window system draws on the screen of the console and takes memory from the kernel heap.\<close>

definition on_gui :: "(gui \<Rightarrow> gui option) \<Rightarrow> 'a machine_scheme \<Rightarrow> 'a machine_scheme option" where
  "on_gui f s = do {
     g \<leftarrow> f ((vbe.extend (vbe.truncate (con s)) (vbe.more (gui_s s)))\<lparr>gheap := heap s\<rparr>);
     Some (s\<lparr>gui_s := g, heap := gheap g, con := vbe.extend (vbe.truncate g) (vbe.more (con s))\<rparr>)
   }"

section \<open>The graphics mode\<close>

definition bga_write :: "u16 \<Rightarrow> u16 \<Rightarrow> 'a ports_scheme \<Rightarrow> 'a ports_scheme" where
  "bga_write index data s = outw 0x01CF data (outw 0x01CE index s)"

definition set_mode :: "u32 \<Rightarrow> u32 \<Rightarrow> u32 \<Rightarrow> u8 \<Rightarrow> 'a sysstate_scheme \<Rightarrow> 'a sysstate_scheme" where
  "set_mode width height pitch bpp = on_con (\<lambda>c. c\<lparr>vbe_width := width, vbe_height := height, vbe_pitch := pitch, vbe_bpp := bpp\<rparr>)"

definition bga_mode :: "'a sysstate_scheme \<Rightarrow> 'a sysstate_scheme" where
  "bga_mode s =
     set_mode 800 600 (800 * 4) 32
       (on_con (bga_write 0x4 (0x01 OR 0x40) \<circ> bga_write 0x3 32 \<circ> bga_write 0x2 600 \<circ> bga_write 0x1 800 \<circ> bga_write 0x4 0x00)
         (say (lit ''[VBE] BGA moduna geciliyor...'' @ [10]) s))"

text \<open>The scan for a display controller; the address of the frame buffer is that of the last one seen.\<close>

fun vbe_scan :: "(nat \<times> nat) list \<Rightarrow> u32 \<Rightarrow> 'a sysstate_scheme \<Rightarrow> (bool \<times> u32) \<times> 'a sysstate_scheme" where
  "vbe_scan [] lfb_phys s = ((False, lfb_phys), s)"
| "vbe_scan ((bus, dvc) # ds) lfb_phys s =
     (let a = (of_nat bus, of_nat dvc, 0); (vendor, s1) = pci_word a 0 s
      in if vendor = 0xFFFF then vbe_scan ds lfb_phys s1
         else
           let (class_sub, s2) = pci_word a 10 s1
           in if drop_bit 8 class_sub = 0x03 then
                let (device, s3) = pci_word a 2 s2;
                    s4 = say [10] (say_hex (ucast device) (say (lit '':'') (say_hex (ucast vendor) (say (lit ''[VBE] Grafik karti bulundu: '') s3))));
                    (hi, s5) = pci_word a 0x12 s4;
                    (lo, s6) = pci_word a 0x10 s5;
                    lfb = (push_bit 16 (ucast hi) OR ucast lo) AND 0xFFFFFFF0
                in if vendor = 0x1234 \<or> vendor = 0x80EE then ((True, lfb), bga_mode s6)
                   else vbe_scan ds lfb (say (lit ''[VBE] Gercek donanim algilandi. Multiboot mode gerekli.'' @ [10]) s6)
              else vbe_scan ds lfb_phys s2)"

definition vbe_detect :: "boot_info \<Rightarrow> 'a sysstate_scheme \<Rightarrow> (bool \<times> u32) \<times> 'a sysstate_scheme" where
  "vbe_detect mb_info s =
     (if mb_flags mb_info AND push_bit 12 1 \<noteq> 0 \<and> mb_fb_type mb_info = 1
      then ((True, ucast (mb_fb_addr mb_info)), set_mode (mb_fb_width mb_info) (mb_fb_height mb_info) (mb_fb_pitch mb_info) (mb_fb_bpp mb_info) s)
      else vbe_scan (concat (map (\<lambda>bus. map (\<lambda>dvc. (bus, dvc)) [0..<32]) [0..<8])) 0
             (say (lit ''[VBE] PCI uzerinden grafik karti araniyor...'' @ [10]) s))"

definition vbe_init :: "boot_info \<Rightarrow> 'a sysstate_scheme \<Rightarrow> 'a sysstate_scheme option" where
  "vbe_init mb_info s =
     (let ((found, lfb_phys), s1) = vbe_detect mb_info s
      in if \<not> found \<or> lfb_phys < 0x100000 then Some (on_con (vbe_set_active 0) s1)
         else do {
           let n = vbe_width (con s1) * vbe_height (con s1) * 4;
           let s2 = map_memory lfb_phys 0xE0000000 n s1;
           (b, s3) \<leftarrow> (if back_buffer (con s2) = 0 then kalloc n s2 else Some (back_buffer (con s2), s2));
           let (b', s4) = (if b = 0 then (0xD0000000, map_memory 0x02000000 0xD0000000 n s3) else (b, s3));
           Some (on_con (\<lambda>c. vbe_set_active 1 (c\<lparr>back_buffer := b'\<rparr>)) s4)
         })"

definition start_graphics :: "kernel_image \<Rightarrow> boot_info \<Rightarrow> 'a machine_scheme \<Rightarrow> 'a machine_scheme option" where
  "start_graphics im mbi s = do {
     s1 \<leftarrow> vbe_init mbi s;
     if vbe_is_active (con s1) = 0 then Some (say (lit ''[HATA] Grafik modu baslatilamadi!'' @ [10]) s1)
     else do {
       s2 \<leftarrow> on_gui start_windows s1;
       (_, s3) \<leftarrow> create_task (lit ''graphics'') (i_graphics im) False (s2\<lparr>drv := mouse_init (drv s2)\<rparr>);
       Some s3
     }
   }"

text \<open>One round of the endless loops of the tasks.\<close>

definition graphics_task :: "'a machine_scheme \<Rightarrow> 'a machine_scheme option" where
  "graphics_task s = do {
     s1 \<leftarrow> on_gui gui_render s;
     Some (on_con (\<lambda>c. vbe_update (vbe_draw_cursor_simple (mx (drv s1)) (my (drv s1)) c)) s1)
   }"

definition task_mark :: "nat \<Rightarrow> u8 \<Rightarrow> u8 \<Rightarrow> 'a sysstate_scheme \<Rightarrow> 'a sysstate_scheme" where
  "task_mark pos c attr s =
     (if vbe_is_active (con s) = 0 then on_con (\<lambda>k. k\<lparr>video_memory := (video_memory k)(pos := c, pos + 1 := attr)\<rparr>) s else s)"

definition task1_func :: "'a sysstate_scheme \<Rightarrow> 'a sysstate_scheme" where
  "task1_func = task_mark 158 0x31 0x0E"

definition task2_func :: "'a sysstate_scheme \<Rightarrow> 'a sysstate_scheme" where
  "task2_func = task_mark 156 0x32 0x0B"

section \<open>Hardware interrupts\<close>

fun shell_keys ::
    "'a shell_ext hwstate_ext env \<Rightarrow> (nat \<Rightarrow> drivers \<Rightarrow> drivers) \<Rightarrow> ('a shell_scheme \<Rightarrow> 'a shell_scheme option) \<Rightarrow>
     u8 list \<Rightarrow> 'a shell_scheme \<Rightarrow> 'a shell_scheme option" where
  "shell_keys env halt gfx [] s = Some s"
| "shell_keys env halt gfx (c # cs) s = do { s1 \<leftarrow> shell_key env halt gfx c s; shell_keys env halt gfx cs s1 }"

fun gui_moves :: "(int \<times> int \<times> u8) list \<Rightarrow> 'a machine_scheme \<Rightarrow> 'a machine_scheme option" where
  "gui_moves [] s = Some s"
| "gui_moves ((x, y, b) # es) s = do { s1 \<leftarrow> on_gui (gui_on_mouse_event x y (uint b)) s; gui_moves es s1 }"

text \<open>
  The handlers. The characters and pointer events that a driver hands over are taken at once; the
  page fault handler stops the machine.
\<close>

definition run_handler ::
    "'a machine_ext shell_ext hwstate_ext env \<Rightarrow> (nat \<Rightarrow> drivers \<Rightarrow> drivers) \<Rightarrow> kernel_image \<Rightarrow> irq_fun \<Rightarrow>
     'a machine_scheme \<Rightarrow> 'a machine_scheme option" where
  "run_handler env halt im f s =
     (case f of
        No_handler \<Rightarrow> Some s
      | Timer_handler \<Rightarrow> Some (s\<lparr>drv := timer_handler (drv s)\<rparr>)
      | Keyboard_handler \<Rightarrow>
          (let d = keyboard_handler (shell_active s) ((drv s)\<lparr>shell_in := []\<rparr>)
           in shell_keys env halt (start_graphics im (global_mbi s)) (shell_in d) (s\<lparr>drv := d\<lparr>shell_in := []\<rparr>\<rparr>))
      | Mouse_handler \<Rightarrow>
          (let d = mouse_handler ((drv s)\<lparr>gui_events := []\<rparr>) in gui_moves (gui_events d) (s\<lparr>drv := d\<lparr>gui_events := []\<rparr>\<rparr>))
      | Page_fault_handler \<Rightarrow> None
      | Rtl8139_handler \<Rightarrow> rtl8139_handler s
      | E1000_handler \<Rightarrow> e1000_handler s)"

text \<open>\<open>esp\<close> is the address of the registers on the stack; the result is the stack to return on.\<close>

definition irq_handler ::
    "'a machine_ext shell_ext hwstate_ext env \<Rightarrow> (nat \<Rightarrow> drivers \<Rightarrow> drivers) \<Rightarrow> kernel_image \<Rightarrow> u32 \<Rightarrow> u32 \<Rightarrow>
     'a machine_scheme \<Rightarrow> (u32 \<times> 'a machine_scheme) option" where
  "irq_handler env halt im int_no esp s = do {
     s1 \<leftarrow> (if int_no \<ge> 32 \<and> int_no < 48 then run_handler env halt im (irq_routines (drv s) ! unat (int_no - 32)) s else Some s);
     let s2 = (if int_no \<ge> 40 then s1\<lparr>drv := outb 0xA0 0x20 (drv s1)\<rparr> else s1);
     let s3 = s2\<lparr>drv := outb 0x20 0x20 (drv s2)\<rparr>;
     (if int_no = 32 then schedule_internal esp s3 else Some (esp, s3))
   }"

section \<open>The start of the kernel\<close>

definition say_fmt :: "cstring \<Rightarrow> karg list \<Rightarrow> 'a sysstate_scheme \<Rightarrow> 'a sysstate_scheme option" where
  "say_fmt fmt args s = map_option (\<lambda>c. s\<lparr>con := c\<rparr>) (kprintf fmt args (con s))"

text \<open>The echo server: at most 127 bytes of the datagram are printed.\<close>

definition udp_test_callback :: "u8 list \<Rightarrow> u8 list \<Rightarrow> u16 \<Rightarrow> 'a sysstate_scheme \<Rightarrow> 'a sysstate_scheme option" where
  "udp_test_callback data src_ip src_port s = do {
     s1 \<leftarrow> say_fmt (lit ''[UDP] %d.%d.%d.%d:%d -> '' @ [0x27] @ lit ''%s'' @ [0x27, 10])
            [KInt (ucast (src_ip ! 0)), KInt (ucast (src_ip ! 1)), KInt (ucast (src_ip ! 2)), KInt (ucast (src_ip ! 3)),
             KInt (ucast src_port), KStr (take 127 data)] s;
     net_send_udp src_ip src_port 1234 (lit ''FerkanOS UDP Echo Server: Mesaj alindi!'' @ [10]) s1
   }"

definition banner :: "'a sysstate_scheme \<Rightarrow> 'a sysstate_scheme" where
  "banner s = says [''========================================'', ''         PekerOS v0.2 - Kernel''] s"

text \<open>Descriptors, interrupt controller and the first messages.\<close>

definition boot_tables :: "kernel_image \<Rightarrow> 'a machine_scheme \<Rightarrow> 'a machine_scheme" where
  "boot_tables im s =
     (let s1 = on_con (\<lambda>c. serial_print ([10] @ lit ''--- PekerOS Kernel Log Started ---'' @ [10]) (init_serial c)) s;
          s2 = s1\<lparr>gdt_s := init_gdt (i_gdt im) (gdt_s s1), idt_s := init_idt (i_entries im) (i_idt im) (idt_s s1)\<rparr>;
          s3 = s2\<lparr>drv := irq_remap (drv s2)\<rparr>
      in says [''========================================'', ''''] (banner (say [10, 10] s3)))"

text \<open>Memory: frames, page tables and the heap, with the trial allocation.\<close>

definition boot_memory :: "kernel_image \<Rightarrow> (u32 \<Rightarrow> multiboot_mmap_entry) \<Rightarrow> boot_info \<Rightarrow> 'a machine_scheme \<Rightarrow> 'a machine_scheme option" where
  "boot_memory im rd_entry mbi s = do {
     p \<leftarrow> init_pmm rd_entry (i_kernel_start im) (i_kernel_end im) (multiboot_info.truncate mbi) (frames (mm s));
     let s1 = s\<lparr>mm := mm s\<lparr>frames := p\<rparr>\<rparr>;
     s2 \<leftarrow> say_fmt (lit ''[OK] PMM baslatildi. Toplam Bellek: %d MB'' @ [10]) [KInt (pmm_total_memory_kb p div 1024)] s1;
     s3 \<leftarrow> say_fmt (lit ''[OK] Kullanilabilir Frame: %d / %d'' @ [10]) [KInt (pmm_free_frames p), KInt (pmm_total_frames p)] s2;
     let s4 = s3\<lparr>mm := init_paging (i_layout im) (mm s3), drv := irq_install_handler 14 Page_fault_handler (drv s3)\<rparr>;
     let s5 = s4\<lparr>heap := init_kheap (i_heap_space im) (heap s4)\<rparr>;
     (ptr1, s6) \<leftarrow> kalloc 40 s5;
     (ptr2, s7) \<leftarrow> kalloc 200 s6;
     let s8 = say_hex ptr2 (say ([10] @ lit ''[TEST] ptr2 tahsis edildi: 0x'') (say_hex ptr1 (say (lit ''[TEST] ptr1 tahsis edildi: 0x'') s7)));
     let s9 = krelease ptr1 (say ([10] @ lit ''[TEST] Bellekler serbest birakiliyor...'' @ [10]) s8);
     let s10 = krelease ptr2 (says [''[TEST] ptr1 serbest birakildi.''] s9);
     Some (says [''[TEST] ptr2 serbest birakildi. Heap temiz.''] s10)
   }"

text \<open>\<open>present\<close> tells which disks answer.\<close>

definition boot_files :: "(nat \<Rightarrow> bool) \<Rightarrow> 'a machine_scheme \<Rightarrow> 'a machine_scheme option" where
  "boot_files present s = do {
     let (_, s1) = on_fs (\<lambda>q. ((), pafs_init present q)) (says [''[VFS] PAFS baslatiliyor...''] s);
     let s2 = tcp_init (says [''[VFS] PAFS baslatildi.'', ''[NET] TCP baslatiliyor...''] s1);
     d \<leftarrow> init_timer 100 (drv s2);
     let s3 = says [''[OK] Zamanlayici yuklendi (100 Hz).''] ((says [''[NET] TCP baslatildi.''] s2)\<lparr>drv := d\<rparr>);
     (root, s4) \<leftarrow> pafs_get_vfs_root s3;
     Some (say (lit ''[VFS] K'' @ [0xC3, 0xB6] @ lit ''k dosya sistemi (PAFS) ba'' @ [0xC4, 0x9F] @ lit ''land'' @ [0xC4, 0xB1] @ lit ''.'' @ [10])
       (s4\<lparr>vfs_root := root\<rparr>))
   }"

text \<open>The second disk, mounted at \<open>/mnt\<close> if there is one and it holds an ext2 file system.\<close>

definition ata1_status :: "'a ports_scheme \<Rightarrow> u8 \<times> 'a ports_scheme" where
  "ata1_status c0 =
     (let (_, c) = inb 0x1F7 c0;
          (st, c1) = inb 0x1F7 (for_range 0 4 (\<lambda>_ c. snd (inb 0x1F7 c)) (outb 0x1F6 0xF0 c))
      in (st, for_range 0 4 (\<lambda>_ c. snd (inb 0x1F7 c)) (outb 0x1F6 0xE0 c1)))"

definition mount_ata1 :: "'a env \<Rightarrow> 'a sysstate_scheme \<Rightarrow> 'a sysstate_scheme option" where
  "mount_ata1 env s = do {
     (mnt_node, s1) \<leftarrow> vfs_get_node_by_path env (vfs_root s) (lit ''/mnt'') s;
     if mnt_node \<noteq> 0 then do {
       (dev_ata1, s2) \<leftarrow> kalloc_deref sizeof_vfs_node s1;
       let s3 = upd_node dev_ata1 (\<lambda>_. zero_node\<lparr>vname := lit ''ata1'', vflags := VFS_FILE, vread := Ata_fun\<rparr>) s2;
       (ext2_root, s4) \<leftarrow> ext2_init dev_ata1 s3;
       (if ext2_root \<noteq> 0 then vfs_mount (lit ''/mnt'') ext2_root s4 else Some s4)
     } else Some s1
   }"

definition boot_second_disk :: "'a env \<Rightarrow> 'a sysstate_scheme \<Rightarrow> 'a sysstate_scheme option" where
  "boot_second_disk env s = do {
     let (st, s1) = read_con ata1_status (say (lit ''[VFS] /mnt klasoru aran'' @ [0xC4, 0xB1] @ lit ''yor...'' @ [10]) s);
     (if st \<noteq> 0xFF \<and> st \<noteq> 0x00 then mount_ata1 env s1
      else say_fmt (lit ''[VFS] Drive 1 bulunamadi, EXT2 mount atlan'' @ [0xC4, 0xB1] @ lit ''yor.'' @ [10]) [] s1)
   }"

definition boot_network :: "'a hwstate_scheme \<Rightarrow> 'a hwstate_scheme option" where
  "boot_network s = do {
     s1 \<leftarrow> pci_init s;
     let (r, s2) = udp_bind 1234 0 s1;
     say_fmt (lit (if r = 0 then ''[OK] UDP Echo Sunucusu port 1234'' else ''[HATA] UDP soketi olusturulamadi.'') @
        (if r = 0 then [0x27] @ lit ''te baslatildi.'' else []) @ [10]) [] s2
   }"

definition boot_tasks_shell :: "kernel_image \<Rightarrow> 'a machine_scheme \<Rightarrow> 'a machine_scheme option" where
  "boot_tasks_shell im s = do {
     s1 \<leftarrow> init_multitasking (i_stack_top im) s;
     let (g, t) = write_tss (i_tss im) 5 0x10 (i_stack_top im) (gdt_s s1);
     (_, s2) \<leftarrow> create_task (lit ''gorev1'') (i_task1 im) False (s1\<lparr>gdt_s := g, tss_s := t\<rparr>);
     (_, s3) \<leftarrow> create_task (lit ''gorev2'') (i_task2 im) False s2;
     let s4 = says [''[OK] Klavye surucusu yuklendi.'', ''[OK] fash shell baslatildi.'', ''''] (s3\<lparr>drv := init_keyboard (drv s3)\<rparr>);
     let s5 = says [''========================================'', ''''] (banner (say ([10] @ lit ''--- SISTEM HAZIR ---'' @ [10]) (init_syscalls s4)));
     Some (init_shell s5)
   }"

text \<open>\<open>kernel_main\<close> up to its final loop, with the interrupts on; with a wrong magic number it returns.\<close>

definition kernel_main ::
    "kernel_image \<Rightarrow> (u32 \<Rightarrow> multiboot_mmap_entry) \<Rightarrow> (nat \<Rightarrow> bool) \<Rightarrow> 'a machine_ext shell_ext hwstate_ext env \<Rightarrow>
     u32 \<Rightarrow> boot_info \<Rightarrow> 'a machine_scheme \<Rightarrow> 'a machine_scheme option" where
  "kernel_main im rd_entry present env magic_number mbi s = do {
     let s1 = boot_tables im (s\<lparr>global_mbi := mbi\<rparr>);
     if magic_number \<noteq> 0x2BADB002 then Some (says [''[HATA] Gecersiz Multiboot Magic Number!''] s1)
     else do {
       s2 \<leftarrow> boot_memory im rd_entry mbi (says [''[OK] GDT yuklendi.'', ''[OK] IDT yuklendi.'', ''[OK] PIC yeniden haritalandi.''] s1);
       s3 \<leftarrow> boot_files present s2;
       s4 \<leftarrow> boot_second_disk env s3;
       s5 \<leftarrow> boot_network s4;
       s6 \<leftarrow> boot_tasks_shell im s5;
       Some (s6\<lparr>kernel.eflags := kernel.eflags s6 OR 0x200\<rparr>)
     }
   }"
end
