(* ===== verification/Interrupts.thy ===== *)
theory Interrupts
  imports Machine
begin

text \<open>
  Interrupts of the whole kernel: a tick of the timer runs the scheduler, and a key that is pressed
  reaches the line of the shell, each through the dispatcher of \<open>kernel/core/irq.c\<close>.
\<close>

section \<open>The timer\<close>

lemma schedule_frame:
  assumes "schedule_internal esp s = Some (e, t)"
  obtains ts n st where "t = s\<lparr>current_task := n, tasks := ts, tss_esp0 := st\<rparr>"
proof (cases "current_task s = 0")
  case True
  then have "t = s\<lparr>current_task := current_task s, tasks := tasks s, tss_esp0 := tss_esp0 s\<rparr>" using assms by (simp add: schedule_internal_def)
  then show ?thesis by (rule that)
next
  case False
  let ?ts = "(tasks s)(current_task s := (tasks s (current_task s))\<lparr>tesp := esp\<rparr>)"
  obtain n where "t = s\<lparr>current_task := n, tasks := ?ts(n := (?ts n)\<lparr>tstate := TASK_RUNNING\<rparr>), tss_esp0 := kstack_top (?ts n)\<rparr>"
    using False assms by (auto simp: schedule_internal_def set_kernel_stack_def upd_task_def Let_def split: bind_splits)
  then show ?thesis by (rule that)
qed

text \<open>
  C15: an interrupt of the timer counts one tick, acknowledges at the master controller only, and enters
  the scheduler: while some task is not dead it returns the stack pointer of the next such task in
  cyclic list order, the interrupted one keeps its own, and the TSS gets the kernel stack of the new task. Memory,
  console and heap stay as they are.
\<close>

theorem timer_interrupt:
  assumes "irq_routines (drv s) ! 0 = Timer_handler" and "rr_queue s q" and "\<exists>t \<in> set q. live (tasks s) t"
  shows "\<exists>s'. irq_handler env halt im 32 esp s = Some (tesp (tasks s' (current_task s')), s') \<and>
    drv s' = (drv s)\<lparr>tick_count := tick_count (drv s) + 1, outs := outs (drv s) @ [Out8 0x20 0x20]\<rparr> \<and>
    rr_queue s' (rr_step (live (tasks s)) q) \<and> tesp (tasks s' (current_task s)) = esp \<and>
    tss_esp0 s' = kstack_top (tasks s (current_task s')) \<and> heap s' = heap s \<and> mm s' = mm s \<and> con s' = con s"
proof -
  define s1 where "s1 = s\<lparr>drv := outb 0x20 0x20 (timer_handler (drv s))\<rparr>"
  have q: "rr_queue s1 q" "\<exists>t \<in> set q. live (tasks s1) t" using assms(2,3) by (simp_all add: s1_def rr_queue_def)
  have i: "irq_handler env halt im 32 esp s = schedule_internal esp s1"
    using assms(1) by (simp add: irq_handler_def run_handler_def s1_def outb_def timer_handler_def)
  obtain n s' where r: "schedule_internal esp s1 = Some (tesp (tasks s' n), s')" "current_task s' = n"
    "rr_queue s' (rr_step (live (tasks s1)) q)" "tesp (tasks s' (current_task s1)) = esp" "tss_esp0 s' = kstack_top (tasks s' n)"
    "\<forall>t. tid (tasks s' t) = tid (tasks s1 t) \<and> kstack_top (tasks s' t) = kstack_top (tasks s1 t)"
    by (rule schedule_spec [OF q, of esp])
  obtain ts m st where "s' = s1\<lparr>current_task := m, tasks := ts, tss_esp0 := st\<rparr>" by (rule schedule_frame [OF r(1)])
  then have "drv s' = drv s1" "heap s' = heap s" "mm s' = mm s" "con s' = con s" by (simp_all add: s1_def)
  then show ?thesis using i r by (intro exI [of _ s']) (auto simp: s1_def outb_def timer_handler_def)
qed
section \<open>The keyboard\<close>

lemma put_fold_drv: "drv (erase_line n s) = drv s" "drv (show_entry i row s) = drv s"
  "current_task (erase_line n s) = current_task s" "current_task (show_entry i row s) = current_task s"
  by (simp add: erase_line_eq, (induction i row s rule: show_entry.induct, simp_all add: put_con_def)[1], simp add: erase_line_eq,
    (induction i row s rule: show_entry.induct, simp_all add: put_con_def)[1])

lemma shell_key_drv: "shell_key env halt gfx c s = Some t \<Longrightarrow> c \<noteq> 10 \<Longrightarrow> drv t = drv s \<and> current_task t = current_task s"
  by (auto simp: shell_key_def key_up_def key_down_def key_backspace_def key_char_def put_con_def put_fold_drv Let_def split: if_splits)

text \<open>The character of a make code: the arrows, or the entry of the table in use.\<close>

definition typed :: "bool \<Rightarrow> u8 \<Rightarrow> u8" where
  "typed shift sc = (if sc = 0x48 then 0x11 else if sc = 0x50 then 0x12 else (if shift then scancode_shift else scancode_normal) ! unat sc)"

text \<open>
  What a scan code means: the new state of the shift keys, and the character for the shell or 0. Make and break codes of the
  two shift keys change the state, other break codes do nothing, and a make code gives its character in the table of
  the shift state (0 where the table has none).
\<close>

definition key_event :: "bool \<Rightarrow> u8 \<Rightarrow> bool \<times> u8" where
  "key_event shift sc =
     (if sc = 0x2A \<or> sc = 0x36 then (True, 0)
      else if sc = 0xAA \<or> sc = 0xB6 then (False, 0)
      else if 0x80 \<le> sc then (shift, 0) else (shift, typed shift sc))"

lemma break_code: "0x80 \<le> sc \<longleftrightarrow> sc AND 0x80 \<noteq> (0 :: u8)"
proof -
  have "bit sc 7 \<longleftrightarrow> bit (unat sc) 7" by (simp add: bit_unsigned_iff)
  also have "\<dots> \<longleftrightarrow> odd (unat sc div 128)" by (simp add: bit_iff_odd)
  also have "\<dots> \<longleftrightarrow> 128 \<le> unat sc" proof -
    have "n div 128 mod 2 = 1 \<longleftrightarrow> 128 \<le> n" if "n < 256" for n :: nat
    proof (cases "n < 128")
      case False
      then have "n div 128 = 1" using that by (simp add: div_if)
      then show ?thesis using False by simp
    qed simp
    then show ?thesis using unat_lt_u8 [of sc] by (simp only: odd_iff_mod_2_eq_one)
  qed
  finally show ?thesis using and_exp_eq_0_iff_not_bit [of sc 7] by (simp add: word_le_nat_alt)
qed

lemma keyboard_event:
  assumes "a \<noteq> 0" and "shell_in s = []" and "sc = ucast (dev s 0x60 (reads s 0x60))"
    and "key_event (shift_pressed s \<noteq> 0) sc = (sh, c)"
  obtains v where "keyboard_handler a s = s\<lparr>reads := (reads s)(0x60 := reads s 0x60 + 1), shift_pressed := v,
      shell_in := (if c = 0 then [] else [c])\<rparr>" "v \<noteq> 0 \<longleftrightarrow> sh"
proof -
  have l: "length scancode_normal = 129" by (simp add: scancode_normal_def)
  define u where "u = s\<lparr>reads := (reads s)(0x60 := reads s 0x60 + 1)\<rparr>"
  have kb: "inb 0x60 s = (sc, u)" using assms(3) by (simp add: inb_def port_read_def u_def)
  have u: "shift_pressed u = shift_pressed s" "u\<lparr>shell_in := []\<rparr> = u" "u\<lparr>shift_pressed := shift_pressed s, shell_in := x\<rparr> = u\<lparr>shell_in := x\<rparr>"
    "u\<lparr>shift_pressed := k, shell_in := []\<rparr> = u\<lparr>shift_pressed := k\<rparr>" "shell_in u = []" for x k
    using assms(2) by (cases s; simp add: u_def)+
  consider (on) "sc = 0x2A \<or> sc = 0x36" | (off) "sc \<noteq> 0x2A" "sc \<noteq> 0x36" "sc = 0xAA \<or> sc = 0xB6"
    | (brk) "sc \<noteq> 0x2A" "sc \<noteq> 0x36" "sc \<noteq> 0xAA" "sc \<noteq> 0xB6" "0x80 \<le> sc"
    | (make) "sc \<noteq> 0x2A" "sc \<noteq> 0x36" "sc \<noteq> 0xAA" "sc \<noteq> 0xB6" "\<not> 0x80 \<le> sc" by blast
  then obtain v where "keyboard_handler a s = u\<lparr>shift_pressed := v, shell_in := (if c = 0 then [] else [c])\<rparr>" "v \<noteq> 0 \<longleftrightarrow> sh"
  proof cases
    case on
    then show ?thesis using assms(4) by (intro that [of 1]) (auto simp: keyboard_handler_def kb u key_event_def)
  next
    case off
    then show ?thesis using assms(4) by (intro that [of 0]) (auto simp: keyboard_handler_def kb u key_event_def)
  next
    case brk
    have "sc AND 0x80 \<noteq> 0" using brk(5) unfolding break_code .
    moreover have "sh = (shift_pressed s \<noteq> 0)" "c = 0" using brk assms(4) by (simp_all add: key_event_def)
    ultimately show ?thesis using brk(1-4)
      by (intro that [of "shift_pressed s"]) (auto simp: keyboard_handler_def kb u)
  next
    case make
    have b: "sc AND 0x80 = 0" using make(5) unfolding break_code by blast
    have "unat sc < 129" using make(5) by (simp add: word_le_nat_alt)
    note b = b this
    have ke: "sh = (shift_pressed s \<noteq> 0)" "c = typed (shift_pressed s \<noteq> 0) sc" using make assms(4) by (auto simp: key_event_def)
    show ?thesis
    proof (rule that [of "shift_pressed s"])
      show "keyboard_handler a s = u\<lparr>shift_pressed := shift_pressed s, shell_in := (if c = 0 then [] else [c])\<rparr>"
        using b make(1-4) l assms(1) by (simp add: keyboard_handler_def kb u keyboard_put_def shell_input_def ke(2) typed_def Let_def)
    qed (simp add: ke(1))
  qed
  then show ?thesis using that by (simp add: u_def)
qed

text \<open>
  C18: a scan code that arrives while the shell is active in text mode goes from the controller through the dispatcher,
  the keyboard driver and the line editor in one interrupt, for every key but Enter (which runs the command of the line); the
  handler of line 1 is the keyboard driver and the arrays of the editor are consistent. Make and break
  codes of the shift keys set and clear the shift state, other break codes and keys without a character do nothing, and any other
  key is translated with the table of the shift state: the editor does the step of that character and the terminal shows it.
  One acknowledgement is sent, and the interrupted task goes on with its own stack.
\<close>

theorem key_interrupt:
  assumes "irq_routines (drv s) ! 1 = Keyboard_handler" and "shell_active s \<noteq> 0" and "vbe_is_active (con s) = 0" and "editor_ok s"
    and "sc = ucast (dev (drv s) 0x60 (reads (drv s) 0x60))" and "key_event (shift_pressed (drv s) \<noteq> 0) sc = (shift, c)" and "c \<noteq> 10"
  shows "\<exists>s'. irq_handler env halt im 33 esp s = Some (esp, s') \<and> editor_ok s' \<and> (shift_pressed (drv s') \<noteq> 0) = shift \<and>
    editor_of s' = (if c = 0 then editor_of s else ed_key c (editor_of s)) \<and>
    con s' = (if c = 0 then con s else fold put_char (ed_out c (editor_of s)) (con s)) \<and>
    outs (drv s') = outs (drv s) @ [Out8 0x20 0x20] \<and> current_task s' = current_task s"
proof -
  obtain v where k: "keyboard_handler (shell_active s) ((drv s)\<lparr>shell_in := []\<rparr>) =
      (drv s)\<lparr>shell_in := [], reads := (reads (drv s))(0x60 := reads (drv s) 0x60 + 1), shift_pressed := v, shell_in := (if c = 0 then [] else [c])\<rparr>"
      "v \<noteq> 0 \<longleftrightarrow> shift"
    using keyboard_event [of "shell_active s" "(drv s)\<lparr>shell_in := []\<rparr>" sc shift c] assms(2,5,6) by auto
  define d where "d = (drv s)\<lparr>reads := (reads (drv s))(0x60 := reads (drv s) 0x60 + 1), shift_pressed := v, shell_in := []\<rparr>"
  define s1 where "s1 = s\<lparr>drv := d\<rparr>"
  have e: "editor_ok s1" "editor_of s1 = editor_of s" "vbe_is_active (con s1) = 0" "con s1 = con s"
    using assms(3,4) by (simp_all add: s1_def editor_ok_def editor_of_def)
  have r: "run_handler env halt im Keyboard_handler s = shell_keys env halt (start_graphics im (global_mbi s)) (if c = 0 then [] else [c]) s1"
    using k(1) by (auto simp: run_handler_def s1_def d_def)
  obtain t where t: "shell_keys env halt (start_graphics im (global_mbi s)) (if c = 0 then [] else [c]) s1 = Some t" "editor_ok t"
      "editor_of t = (if c = 0 then editor_of s else ed_key c (editor_of s))"
      "con t = (if c = 0 then con s else fold put_char (ed_out c (editor_of s)) (con s))" "drv t = d" "current_task t = current_task s"
  proof (cases "c = 0")
    case True
    then show ?thesis using e by (intro that [of s1]) (simp_all add: s1_def)
  next
    case False
    obtain t where t: "shell_key env halt (start_graphics im (global_mbi s)) c s1 = Some t" "editor_ok t"
        "editor_of t = ed_key c (editor_of s)" "con t = fold put_char (ed_out c (editor_of s)) (con s)"
      using key_edits [OF e(1,3) assms(7) False] e by metis
    show ?thesis using False t shell_key_drv [OF t(1) assms(7)] by (intro that [of t]) (simp_all add: s1_def)
  qed
  have "irq_handler env halt im 33 esp s = Some (esp, t\<lparr>drv := outb 0x20 0x20 (drv t)\<rparr>)"
    using assms(1) r t(1) by (simp add: irq_handler_def)
  moreover have "editor_ok (t\<lparr>drv := outb 0x20 0x20 (drv t)\<rparr>)" "editor_of (t\<lparr>drv := outb 0x20 0x20 (drv t)\<rparr>) = editor_of t"
    using t(2) by (simp_all add: editor_ok_def editor_of_def)
  ultimately show ?thesis using t k(2) by (intro exI [of _ "t\<lparr>drv := outb 0x20 0x20 (drv t)\<rparr>"]) (simp add: d_def outb_def)
qed

section \<open>Descriptors of the running kernel\<close>

text \<open>
  C34: the selectors the kernel uses fit its descriptors. With a table of six entries and an IDT of 256, once \<open>init_gdt\<close>,
  \<open>init_idt\<close> and \<open>write_tss\<close> have run: every gate of the IDT is present, is a 32-bit interrupt gate and enters the ring 0
  code segment, and only gate 128 may be called by user programs; the code and stack selectors of the first frame of a task
  (\<open>0x08\<close> and \<open>0x10\<close> in the kernel, \<open>0x1B\<close> and \<open>0x23\<close> for a program) name present flat 32-bit segments of the right
  type whose privilege is that of the selector, code not being writable and data not executable; the stack selector of the TSS
  is kernel data; and \<open>0x28\<close> is an available 32-bit TSS descriptor at the address of the TSS that covers it.
\<close>

theorem selectors_fit:
  assumes "length (gdt_entries s) = 6" and "length (idt_entries z) = 256"
  shows "(let (t, m) = write_tss tss 5 0x10 stack (init_gdt addr s); d = idt_entries (init_idt e idt_addr z)
     in (\<forall>i < 256. isel (d ! i) = 0x08 \<and> code_selector t (ucast (isel (d ! i))) 0 \<and>
           iflags (d ! i) = (if i = 128 then 0xEE else 0x8E)) \<and>
        (\<forall>u. code_selector t (initial_frame u ep st ! (if u then 3 else 1)) (if u then 3 else 0) \<and>
           data_selector t (last (initial_frame u ep st)) (if u then 3 else 0)) \<and>
        data_selector t (hd (initial_frame True ep st)) 3 \<and> data_selector t (t_ss0 m) 0 \<and> t_esp0 m = stack \<and>
        (let x = gdt_entries t ! 5
         in seg_base x = tss \<and> seg_end x \<ge> of_nat (sizeof_tss - 1) \<and> access x = 0x89))"
proof -
  define t where "t = fst (write_tss tss 5 0x10 stack (init_gdt addr s))"
  note sel = boot_selectors [OF assms(1), of tss stack addr, folded t_def]
  note g = boot_gdt [OF assms(1), of tss stack addr, folded t_def]
  have w: "write_tss tss 5 0x10 stack (init_gdt addr s) = (t, \<lparr>t_ss0 = 0x10, t_esp0 = stack, t_iomap_base = of_nat sizeof_tss, t_other = replicate 23 0\<rparr>)"
    by (simp add: t_def write_tss_def)
  have gate: "isel (idt_entries (init_idt e idt_addr z) ! i) = 0x08" 
      "iflags (idt_entries (init_idt e idt_addr z) ! i) = (if i = 128 then 0xEE else 0x8E)" if "i < 256" for i
    unfolding idt_gate [OF assms(2) that] by (simp_all add: gate_entry_def)
  have fr: "initial_frame True ep st ! 3 = 0x1B" "initial_frame False ep st ! 1 = 0x08" "last (initial_frame True ep st) = 0x23"
     "last (initial_frame False ep st) = 0x10" "hd (initial_frame True ep st) = 0x23"
    by (simp_all add: initial_frame_def numeral_3_eq_3)
  have "\<not> bit (0x40 :: u8) 7" by simp
  then have "\<not> bit (granularity (gdt_gate tss 104 0x89 0x40)) 7" by (simp only: gran_gate) simp
  then have "seg_end (gdt_gate tss 104 0x89 0x40) = 104" by (simp add: seg_end_def seg_limit_gate mask_eq_exp_minus_1)
  then have ts: "seg_base (gdt_entries t ! 5) = tss" "seg_end (gdt_entries t ! 5) \<ge> of_nat (sizeof_tss - 1)" "access (gdt_entries t ! 5) = 0x89"
    unfolding g by (simp_all add: seg_base_gate sizeof_tss_def) (simp add: gdt_gate_def)
  show ?thesis unfolding w Let_def prod.case
    using gate sel fr ts by simp
qed

section \<open>Instances\<close>

definition demo_info :: boot_info where
  "demo_info = \<lparr>mb_flags = 0x40, mb_mem_lower = 640, mb_mem_upper = 32768, mb_mmap_length = 0, mb_mmap_addr = 0, mb_fb_addr = 0,
     mb_fb_pitch = 0, mb_fb_width = 0, mb_fb_height = 0, mb_fb_bpp = 0, mb_fb_type = 0\<rparr>"

definition demo_image :: kernel_image where
  "demo_image = \<lparr>i_kernel_start = 0xC0100000, i_kernel_end = 0xC0180000, i_layout = \<lparr>text_start = 0xC0100000, text_end = 0xC0120000, rodata_start = 0xC0120000, rodata_end = 0xC0130000\<rparr>,
     i_entries = demo_entries, i_gdt = 0xC0130000,
     i_idt = 0xC0130100, i_tss = 0xC0131000, i_heap_space = 0xC0400000, i_stack_top = 0xC0140000, i_task1 = 0xC0101000, i_task2 = 0xC0101040,
     i_graphics = 0xC0101080\<rparr>"

definition demo_machine :: machine where
  "demo_machine = shell.extend (demo_typed\<lparr>shell_active := 1, drv := demo_drivers\<lparr>irq_routines := (replicate 16 No_handler)[0 := Timer_handler, 1 := Keyboard_handler]\<rparr>,
       current_task := 0x1000, task_list := 0x1000,
       tasks := (\<lambda>_. blank_task)(0x1000 := blank_task\<lparr>tnext := 0x2000\<rparr>, 0x2000 := blank_task\<lparr>tesp := 0x5555\<rparr>)\<rparr>)
     (machine.fields demo_gdt demo_idt \<lparr>t_ss0 = 0, t_esp0 = 0, t_iomap_base = 0, t_other = []\<rparr> demo_gui demo_info)"

lemma demo_machine_sel:
  "irq_routines (drv demo_machine) ! 0 = Timer_handler" "irq_routines (drv demo_machine) ! 1 = Keyboard_handler" "shell_active demo_machine = 1"
  "editor_ok demo_machine" "editor_of demo_machine = editor_of demo_typed" "vbe_is_active (con demo_machine) = 0"
  "drv demo_machine = demo_drivers\<lparr>irq_routines := (replicate 16 No_handler)[0 := Timer_handler, 1 := Keyboard_handler]\<rparr>"
  "current_task demo_machine = 0x1000" "task_list demo_machine = 0x1000"
  "tasks demo_machine = (\<lambda>_. blank_task)(0x1000 := blank_task\<lparr>tnext := 0x2000\<rparr>, 0x2000 := blank_task\<lparr>tesp := 0x5555\<rparr>)"
  using demo_typed_ok by (simp_all add: demo_machine_def machine.defs shell.defs editor_ok_def editor_of_def)

lemma demo_machine_queue: "rr_queue demo_machine [0x1000, 0x2000]" "live (tasks demo_machine) 0x1000"
  unfolding rr_queue_def demo_machine_sel
  by (intro exI [of _ "[]"] exI [of _ "[0x2000]"]) (simp_all add: live_def blank_task_def TASK_DEAD_def)

theorem timer_interrupt_witness:
  "\<exists>s'. irq_handler (\<lambda>_ s. s) (\<lambda>_ d. d) demo_image 32 0x1234 demo_machine = Some (tesp (tasks s' (current_task s')), s') \<and>
     tick_count (drv s') = 0xFFFFFFFF \<and> tesp (tasks s' 0x1000) = 0x1234"
proof -
  have "\<exists>t \<in> set [0x1000, 0x2000]. live (tasks demo_machine) t" using demo_machine_queue(2) by simp
  from timer_interrupt [OF demo_machine_sel(1) demo_machine_queue(1) this, of "\<lambda>_ s. s" "\<lambda>_ d. d" demo_image "0x1234"]
  show ?thesis by (auto simp: demo_machine_sel demo_drivers_def)
qed

theorem key_interrupt_witness:
  "\<exists>s'. irq_handler (\<lambda>_ s. s) (\<lambda>_ d. d) demo_image 33 0x1234 demo_machine = Some (0x1234, s') \<and> eline (editor_of s') = [0x68, 0x69, 0x66]"
proof -
  have sc: "(0x21 :: u8) = ucast (dev (drv demo_machine) 0x60 (reads (drv demo_machine) 0x60))"
    by (simp_all add: demo_machine_sel demo_drivers_def)
  have k: "key_event (shift_pressed (drv demo_machine) \<noteq> 0) 0x21 = (False, 0x66)"
    by (simp add: key_event_def typed_def scancode_normal_def demo_machine_sel demo_drivers_def)
  show ?thesis
    using key_interrupt [OF demo_machine_sel(2) _ demo_machine_sel(6,4) sc k, of "\<lambda>_ s. s" "\<lambda>_ d. d" demo_image "0x1234"]
    by (auto simp: demo_machine_sel demo_typed_ok(2) ed_key_def)
qed

theorem selectors_fit_witness:
  "code_selector (fst (write_tss 0xC0123456 5 0x10 0xC0200000 (init_gdt 0 demo_gdt))) 0x1B 3 \<and>
   iflags (idt_entries (init_idt demo_entries 0 demo_idt) ! 128) = 0xEE"
proof -
  have l: "length (gdt_entries demo_gdt) = 6" "length (idt_entries demo_idt) = 256" by (simp_all add: demo_gdt_def demo_idt_def)
  have f: "initial_frame True 0 0 ! 3 = 0x1B" by (simp add: initial_frame_def numeral_3_eq_3)
  have "\<forall>u. code_selector (fst (write_tss 0xC0123456 5 0x10 0xC0200000 (init_gdt 0 demo_gdt))) (initial_frame u 0 0 ! (if u then 3 else 1)) (if u then 3 else 0)"
    "\<forall>i < 256. iflags (idt_entries (init_idt demo_entries 0 demo_idt) ! i) = (if i = 128 then 0xEE else 0x8E)"
    using selectors_fit [OF l, of "0xC0123456" "0xC0200000" 0 demo_entries 0 0 0] unfolding Let_def case_prod_beta by blast+
  from spec [OF this(1), of True] this(2) [rule_format, of 128] show ?thesis by (simp add: f)
qed
end
