(* ===== verification/Boot.thy ===== *)
theory Boot
  imports Interrupts
begin

text \<open>
  The start of the whole kernel: every step of \<open>kernel_main\<close> (\<open>kernel/core/kernel.c\<close>) on a machine in text mode without disks
  and cards leaves alone what the later steps rely on (\<open>idle\<close>, and \<open>few\<close> for the blocks of the heap), so that the steps compose to
  a kernel that is ready for the interrupts of theory Interrupts.
\<close>

section \<open>Steps that only use the console\<close>














section \<open>An empty bus\<close>






section \<open>The file system of a machine without disks\<close>



section \<open>A heap with few buffers\<close>





section \<open>The steps of the start\<close>

























lemma says_table: "syscall_table (says ls s) = syscall_table s"
  using says_con [of ls s] by auto


section \<open>The start of the kernel\<close>








section \<open>Instances\<close>



end
