(* ===== verification/Spec2Isabelle.thy ===== *)
theory Spec2Isabelle
  imports Descriptors Gui_Draw Ata Nic_Rings Pci Shell_Cd Panic Boot
begin

text \<open>
  \<^bold>\<open>PekerOS\<close>, a 32-bit x86 hobby kernel in C (\<open>src/kernel\<close>, headers in
  \<open>src/include\<close>).

  \<^bold>\<open>The program.\<close> The boot code maps the kernel into the upper quarter of the address space and
  calls \<open>kernel_main\<close>, which sets up the descriptor tables, the interrupt controller, physical
  and virtual memory, the kernel heap, the PAFS file system, the network, tasks, drivers and the
  shell. The parts interact through few interfaces: everything takes memory from the heap
  (\<open>kmalloc\<close>, \<open>kfree\<close>), page tables take frames from the frame allocator, the network stack
  hands received data to sockets, sockets and drivers wake tasks, the timer interrupt runs the
  scheduler, and all of them write to the console.

  \<^bold>\<open>Theories and sources.\<close>

  \<^item> \<open>Peker_Prelude\<close>: machine integers, counted loops, linear searches, C strings (\<open>strlen\<close>,
    \<open>strcmp\<close>), byte order. \<open>Bitmap\<close>: bit sets in bytes.
  \<^item> \<open>Pmm\<close>: \<open>mm/pmm.c\<close>. Frame bitmap, initialisation from the multiboot memory map, first
    fit for single frames and runs. Shown: initialisation frees exactly the frames that lie whole in an available
    region (64-bit addresses) and outside the kernel, allocation returns the first free frame or run, counters agree with the bitmap.
  \<^item> \<open>Kheap\<close>: \<open>mm/kheap.c\<close>. Block headers as a store from addresses to records. Shown: the
    doubly linked list refines a list of blocks that tile the heap with no two free neighbours;
    \<open>kmalloc\<close> is first fit with splitting, \<open>kfree\<close> coalesces; the interface \<open>allocator\<close>
    (a locale) is what the other components use.
  \<^item> \<open>Paging\<close>: \<open>mm/paging.c\<close>. Directory and tables as words of physical memory. Shown: after
    mapping a range every address in it translates as asked and no other translation changes;
    the initial address space.
  \<^item> \<open>Spinlock\<close>: \<open>include/spinlock.h\<close>, the interrupt flag.
  \<^item> \<open>Pafs\<close>, \<open>Pafs_Inv\<close>, \<open>Pafs_File\<close>, \<open>Pafs_Dir\<close>: \<open>fs/pafs.c\<close>. Superblock, inodes
    and block bitmap with their layout on the disk, files and directories. Shown: an invariant of
    every reachable state (blocks are marked, owned once, counters agree), reads and writes at an
    offset act on the contents of the file, a created name is found, and what goes wrong when
    entries are removed.
  \<^item> \<open>Vfs_Node\<close>, \<open>Task\<close>: \<open>include/vfs.h\<close>, \<open>proc/task.c\<close>. The task list, the initial
    stack of a task, the scheduler. Shown: the scheduler refines a round-robin queue, every live
    task runs within one round, and it finds a task in every reachable state.
  \<^item> \<open>Inet\<close>, \<open>Net\<close>, \<open>Net_Input\<close>: \<open>net/net.c\<close>. Byte order, checksum, ARP, IPv4, ICMP and
    UDP. Shown: the checksum is that of RFC 1071 and verifies on every packet sent, replies carry
    the right addresses, and a datagram sent by one host is received by the socket of another.
  \<^item> \<open>Ring\<close>, \<open>Tcp\<close>, \<open>Socket\<close>: \<open>net/tcp.c\<close>, \<open>net/socket.c\<close>. Receive buffers as byte
    queues (locale \<open>byte_fifo\<close>), segments, the connection state machine, the socket calls.
    Shown: connections follow a transition table, data arrives in order, and what is lost or
    duplicated.
  \<^item> \<open>Ports\<close>, \<open>Font\<close>, \<open>Vbe\<close>, \<open>Console\<close>: port access and \<open>core/serial.c\<close>,
    \<open>drivers/font.c\<close>, \<open>drivers/vbe.c\<close>, text output in \<open>core/kernel.c\<close>. Shown: drawing
    loops paint exactly the visible pixels (locale \<open>canvas\<close>), the mouse cursor restores what it
    covered, the terminal refines a grid of cells, numbers are printed as decimals.
  \<^item> \<open>Descriptors\<close>: \<open>core/gdt.c\<close>, \<open>core/idt.c\<close>, \<open>proc/tss.c\<close>. Shown: what the processor
    decodes from the tables.
  \<^item> \<open>Drivers\<close>: \<open>core/irq.c\<close>, \<open>drivers/timer.c\<close>, \<open>drivers/keyboard.c\<close>,
    \<open>drivers/mouse.c\<close>. Shown: waiting ends, typed characters queue up in order, the pointer
    stays on the screen.
  \<^item> \<open>Fs_Nodes\<close>, \<open>Ext2\<close>, \<open>Vfs\<close>, \<open>Vfs_Path\<close>: the node functions of
    \<open>fs/pafs.c\<close>, \<open>fs/ext2.c\<close>, \<open>fs/vfs.c\<close>. Nodes on the heap, the ext2 structures,
    mounting and the lookup of paths. Shown: a lookup returns, follows the names of the path and
    leaves only the node it returns on the heap.
  \<^item> \<open>User_Mem\<close>, \<open>Syscall\<close>, \<open>Sys_Memory\<close>, \<open>Sys_Files\<close>: \<open>proc/syscall.c\<close>. The memory
    of a program as the kernel sees it through the page tables, the state that joins all these components,
    every system call and the dispatcher. Shown: what is written to a file through
    a descriptor is read back after closing and opening it again, down to the bytes in physical
    memory; descriptors are allocated and released; \<open>sbrk\<close> gives the program fresh memory; what
    goes wrong with low descriptors and with the heaps of several tasks.
  \<^item> \<open>Linked\<close>, \<open>Gui\<close>, \<open>Gui_Draw\<close>: \<open>ui/gui.c\<close>. Doubly linked lists, windows and
    widgets, mouse events, drawing. Shown: the window list is the stacking order in every reachable
    state, clicks and drags act on the front window under the pointer, drawing follows the order
    and the close button is where it is seen.
  \<^item> \<open>Elf\<close>: \<open>proc/elf.c\<close>. Shown: the segments of a well-formed file are in the memory of
    the program as the file says, and what was allocated on the way is released.
  \<^item> \<open>Ata\<close>, \<open>Pci\<close>: \<open>drivers/ata.c\<close>, \<open>drivers/pci.c\<close>. Shown: the commands and words that
    go through the ports; what is written to a sector is read back; a drive that does not answer ends the
    transfer; a write to the configuration space changes half a double word.
  \<^item> \<open>Nic\<close>, \<open>Nic_Rings\<close>: \<open>drivers/rtl8139.c\<close>, \<open>drivers/e1000.c\<close>, \<open>drivers/ac97.c\<close>.
    Rings and buffers in mapped memory. Shown: where the read pointer of one ring stands, and what goes wrong with
    the other.
  \<^item> \<open>Shell\<close>, \<open>Shell_Editor\<close>, \<open>Shell_Path\<close>, \<open>Shell_Cd\<close>: \<open>ui/shell.c\<close>. Line editor,
    commands, working directory. Shown: the arrays refine an abstract editor with a history, and \<open>cd\<close> keeps
    the node and the path of the working directory in step.

  \<^item> \<open>Panic\<close>: \<open>core/panic.c\<close>. Shown: what the screen holds after a panic.
  \<^item> \<open>Machine\<close>, \<open>Interrupts\<close>: the state of the whole kernel; the start of the graphics mode in
    \<open>drivers/vbe.c\<close>, the dispatcher of \<open>core/irq.c\<close>, the tasks and \<open>kernel_main\<close> of
    \<open>core/kernel.c\<close>. Shown: a timer interrupt is one step of the scheduler, and a key that is pressed is one step
    of the line editor, and the selectors in gates, task frames and the TSS name segments of the right kind.
    \<open>Boot\<close>: the whole start. Shown: without disks and cards \<open>kernel_main\<close> ends in a state with three live tasks, the
    handlers installed and the shell at the root.

  \<^bold>\<open>Conventions.\<close> State is passed explicitly, as records whose fields are the static variables
  of a C file; heap objects are stores from addresses to records. Integers have the width of the
  source where it matters and are \<open>int\<close> or \<open>nat\<close> where the code keeps them small. The result
  None is a run that does not go on: a null or stray pointer is used, an endless wait, or a
  division by zero. Loops that may not end are partial functions with this result, and the
  theorems state that a result is returned. Polling loops have the bounds of the source. Where a
  task waits, what the rest of the system does meanwhile is an argument named \<open>env\<close>. Values read
  from a port come from an arbitrary function of the port and the number of the read.
  Page tables are read and written at their physical address plus \<open>0xC0000000\<close>; the model takes this direct map
  to be intact (\<open>virt_frame\<close>).

  \<^bold>\<open>Not modelled.\<close> The boot code, the entries of the interrupts and the context switch (assembly),
  \<open>user_mode_test\<close>, which nothing starts, and the demonstration programs in \<open>src/userland\<close>.
  The ports of the console and its disks and those of the small devices are two logs, so that the order between
  them is not recorded.
\<close>

end
